(* ===== verification/Prelude.thy ===== *)
theory Prelude
  imports Main "HOL-Library.Word" "HOL-Library.Signed_Division" "HOL-Library.Code_Target_Numeral"
begin

text \<open>
  Shared vocabulary of the development: the machine integers of the Rust sources as words,
  \<open>Result\<close> as a sum type with its sequencing operation, the checked integer operations of
  the standard library, powers of two and alignment, and little-endian bytes.  The lemmas
  are stated once here and collected in \<open>result_simps\<close>, \<open>checked_simps\<close> and
  \<open>align_simps\<close>, which the component theories pass to the simplifier.
\<close>

unbundle bit_operations_syntax

named_theorems result_simps \<open>inversion of Result-valued code\<close>
named_theorems checked_simps \<open>checked machine arithmetic in terms of natural numbers\<close>
named_theorems exec_simps \<open>definitions to unfold when a closed term is evaluated\<close>
named_theorems align_simps \<open>alignment arithmetic\<close>

type_synonym u8 = "8 word"
type_synonym u16 = "16 word"
type_synonym u32 = "32 word"
type_synonym u64 = "64 word"
type_synonym u128 = "128 word"
type_synonym i128 = "128 word"

text \<open>\<open>usize\<close> values are list lengths and indices; they are natural numbers, and the
  operations of the sources that check them against the 64-bit host range do so here too.\<close>

type_synonym usize = nat

definition usize_max :: nat where
  "usize_max = 2 ^ 64 - 1"

subsection \<open>Results\<close>

definition rbind :: "'e + 'a \<Rightarrow> ('a \<Rightarrow> 'e + 'b) \<Rightarrow> 'e + 'b" where
  "rbind m f = (case m of Inl e \<Rightarrow> Inl e | Inr x \<Rightarrow> f x)"

definition ensure :: "bool \<Rightarrow> 'e \<Rightarrow> 'e + unit" where
  "ensure b e = (if b then Inr () else Inl e)"

definition ok_or :: "'a option \<Rightarrow> 'e \<Rightarrow> 'e + 'a" where
  "ok_or x e = (case x of None \<Rightarrow> Inl e | Some y \<Rightarrow> Inr y)"

definition map_err :: "('e \<Rightarrow> 'f) \<Rightarrow> 'e + 'a \<Rightarrow> 'f + 'a" where
  "map_err g m = (case m of Inl e \<Rightarrow> Inl (g e) | Inr x \<Rightarrow> Inr x)"

definition is_ok :: "'e + 'a \<Rightarrow> bool" where
  "is_ok m = (case m of Inl _ \<Rightarrow> False | Inr _ \<Rightarrow> True)"

text \<open>A \<open>for\<close> loop whose body may return early with an error.\<close>

fun foldR :: "('x \<Rightarrow> 's \<Rightarrow> 'e + 's) \<Rightarrow> 'x list \<Rightarrow> 's \<Rightarrow> 'e + 's" where
  "foldR f [] s = Inr s"
| "foldR f (x # xs) s = rbind (f x s) (foldR f xs)"

lemma rbind_simps [simp]:
  "rbind (Inl e) f = Inl e"
  "rbind (Inr x) f = f x"
  by (simp_all add: rbind_def)

text \<open>A continuation is simplified only once its argument is known.\<close>

lemma rbind_weak_cong [cong]: "m = m' \<Longrightarrow> rbind m f = rbind m' f"
  by simp

lemma rbind_cong [fundef_cong]:
  "m = m' \<Longrightarrow> (\<And>x. m' = Inr x \<Longrightarrow> f x = g x) \<Longrightarrow> rbind m f = rbind m' g"
  by (cases m') auto

lemma rbind_eq_Inr [result_simps]:
  "rbind m f = Inr y \<longleftrightarrow> (\<exists>x. m = Inr x \<and> f x = Inr y)"
  by (cases m) auto

lemma rbind_eq_Inl [result_simps]:
  "rbind m f = Inl e \<longleftrightarrow> m = Inl e \<or> (\<exists>x. m = Inr x \<and> f x = Inl e)"
  by (cases m) auto

lemma rbind_assoc: "rbind (rbind m f) g = rbind m (\<lambda>x. rbind (f x) g)"
  by (cases m) auto

lemma ensure_eq_Inr [result_simps]: "ensure b e = Inr u \<longleftrightarrow> b"
  by (simp add: ensure_def)

lemma ensure_eq_Inl [result_simps]: "ensure b e = Inl e' \<longleftrightarrow> \<not> b \<and> e = e'"
  by (auto simp: ensure_def)

lemma ok_or_eq_Inr [result_simps]: "ok_or x e = Inr y \<longleftrightarrow> x = Some y"
  by (cases x) (auto simp: ok_or_def)

lemma ok_or_eq_Inl [result_simps]: "ok_or x e = Inl e' \<longleftrightarrow> x = None \<and> e = e'"
  by (cases x) (auto simp: ok_or_def)

lemma map_err_eq_Inr [result_simps]: "map_err g m = Inr y \<longleftrightarrow> m = Inr y"
  by (cases m) (auto simp: map_err_def)

lemma map_err_eq_Inl [result_simps]: "map_err g m = Inl e \<longleftrightarrow> (\<exists>d. m = Inl d \<and> e = g d)"
  by (cases m) (auto simp: map_err_def)

lemma ensure_simps [simp]: "ensure True e = Inr ()" "ensure False e = Inl e"
  by (simp_all add: ensure_def)

lemma ok_or_simps [simp]: "ok_or None e = Inl e" "ok_or (Some y) e = Inr y"
  by (simp_all add: ok_or_def)

lemma map_err_simps [simp]: "map_err g (Inl e) = Inl (g e)" "map_err g (Inr y) = Inr y"
  by (simp_all add: map_err_def)

lemma is_ok_simps [simp]: "is_ok (Inl e) = False" "is_ok (Inr y) = True"
  by (simp_all add: is_ok_def)

lemma is_ok_iff: "is_ok m \<longleftrightarrow> (\<exists>y. m = Inr y)"
  by (cases m) auto

lemma foldR_append: "foldR f (xs @ ys) s = rbind (foldR f xs s) (foldR f ys)"
proof (induction xs arbitrary: s)
  case (Cons x xs)
  then show ?case by (cases "f x s") auto
qed simp

text \<open>An invariant kept by every successful body holds after a successful loop.\<close>

lemma foldR_invariant:
  assumes "foldR f xs s = Inr t" and "I s"
    and "\<And>x s t. x \<in> set xs \<Longrightarrow> I s \<Longrightarrow> f x s = Inr t \<Longrightarrow> I t"
  shows "I t"
  using assms
proof (induction xs arbitrary: s)
  case Nil
  then show ?case by simp
next
  case (Cons x xs)
  then obtain s' where s': "f x s = Inr s'" "foldR f xs s' = Inr t"
    by (auto simp: result_simps)
  with Cons.prems have "I s'" by auto
  with s' show ?case using Cons.IH Cons.prems(3) by auto
qed

text \<open>The error of a failed loop is the error of one of its bodies.\<close>

lemma foldR_Inl: "foldR f xs s = Inl e \<Longrightarrow> \<exists>x\<in>set xs. \<exists>t. f x t = Inl e"
  by (induction xs arbitrary: s) (auto simp: result_simps)

lemma ball_enumerate:
  "(\<forall>x\<in>set (enumerate n xs). P x) \<longleftrightarrow> (\<forall>i<length xs. P (n + i, xs ! i))"
  by (simp add: all_set_conv_all_nth nth_enumerate_eq)

lemma list_all2_left: "list_all2 P xs ys \<Longrightarrow> x \<in> set xs \<Longrightarrow> \<exists>y\<in>set ys. P x y"
  by (metis in_set_conv_nth list_all2_conv_all_nth)

lemma list_all2_right: "list_all2 P xs ys \<Longrightarrow> y \<in> set ys \<Longrightarrow> \<exists>x\<in>set xs. P x y"
  by (metis in_set_conv_nth list_all2_conv_all_nth)

subsection \<open>Checked machine arithmetic\<close>

definition checked_add :: "'a::len word \<Rightarrow> 'a word \<Rightarrow> 'a word option" where
  "checked_add a b = (if unat a + unat b < 2 ^ LENGTH('a) then Some (a + b) else None)"

definition checked_sub :: "'a::len word \<Rightarrow> 'a word \<Rightarrow> 'a word option" where
  "checked_sub a b = (if b \<le> a then Some (a - b) else None)"

definition checked_mul :: "'a::len word \<Rightarrow> 'a word \<Rightarrow> 'a word option" where
  "checked_mul a b = (if unat a * unat b < 2 ^ LENGTH('a) then Some (a * b) else None)"

definition usize_add :: "usize \<Rightarrow> usize \<Rightarrow> usize option" where
  "usize_add a b = (if a + b \<le> usize_max then Some (a + b) else None)"

definition usize_sub :: "usize \<Rightarrow> usize \<Rightarrow> usize option" where
  "usize_sub a b = (if b \<le> a then Some (a - b) else None)"

definition usize_mul :: "usize \<Rightarrow> usize \<Rightarrow> usize option" where
  "usize_mul a b = (if a * b \<le> usize_max then Some (a * b) else None)"

lemma unat_add_no_overflow:
  "unat a + unat b < 2 ^ LENGTH('a) \<Longrightarrow> unat (a + b) = unat a + unat (b :: 'a::len word)"
  by (simp add: unat_word_ariths)

lemma checked_add_eq_Some [checked_simps]:
  "checked_add a b = Some c \<longleftrightarrow> unat (c :: 'a::len word) = unat a + unat b"
proof
  assume "checked_add a b = Some c"
  then show "unat c = unat a + unat b"
    by (auto simp: checked_add_def unat_add_no_overflow split: if_splits)
next
  assume eq: "unat c = unat a + unat b"
  then have "unat a + unat b < 2 ^ LENGTH('a)" by (metis unsigned_less)
  with eq show "checked_add a b = Some c"
    by (simp add: checked_add_def unat_add_no_overflow word_unat_eq_iff)
qed

lemma checked_add_eq_None [checked_simps]:
  "checked_add a b = None \<longleftrightarrow> 2 ^ LENGTH('a) \<le> unat a + unat (b :: 'a::len word)"
  by (auto simp: checked_add_def)

lemma checked_sub_eq_Some [checked_simps]:
  "checked_sub a b = Some c \<longleftrightarrow> unat (a :: 'a::len word) = unat c + unat b"
proof
  assume "checked_sub a b = Some c"
  then show "unat a = unat c + unat b"
    by (auto simp: checked_sub_def unat_sub word_le_nat_alt split: if_splits)
next
  assume "unat a = unat c + unat b"
  then have "b \<le> a" "unat (a - b) = unat c"
    by (simp_all add: word_le_nat_alt unat_sub)
  then show "checked_sub a b = Some c" by (simp add: checked_sub_def word_unat_eq_iff)
qed

lemma checked_mul_eq_Some [checked_simps]:
  "checked_mul a b = Some c \<longleftrightarrow> unat (c :: 'a::len word) = unat a * unat b"
proof
  assume "checked_mul a b = Some c"
  then show "unat c = unat a * unat b"
    by (auto simp: checked_mul_def unat_word_ariths split: if_splits)
next
  assume eq: "unat c = unat a * unat b"
  then have "unat a * unat b < 2 ^ LENGTH('a)" by (metis unsigned_less)
  with eq show "checked_mul a b = Some c"
    by (simp add: checked_mul_def unat_word_ariths word_unat_eq_iff)
qed

lemma usize_add_eq_Some [checked_simps]:
  "usize_add a b = Some c \<longleftrightarrow> c = a + b \<and> a + b \<le> usize_max"
  by (auto simp: usize_add_def)

lemma usize_sub_eq_Some [checked_simps]:
  "usize_sub a b = Some c \<longleftrightarrow> a = c + b"
  by (auto simp: usize_sub_def)

lemma usize_mul_eq_Some [checked_simps]:
  "usize_mul a b = Some c \<longleftrightarrow> c = a * b \<and> a * b \<le> usize_max"
  by (auto simp: usize_mul_def)

subsection \<open>Powers of two and alignment\<close>

definition is_power_of_two :: "'a::len word \<Rightarrow> bool" where
  "is_power_of_two x = list_ex (\<lambda>n. x = 2 ^ n) [0..<LENGTH('a)]"

lemma unat_power_of_two: "n < LENGTH('a) \<Longrightarrow> unat (2 ^ n :: 'a::len word) = 2 ^ n"
proof -
  assume n: "n < LENGTH('a)"
  then have "(2::nat) ^ n < 2 ^ LENGTH('a)" by (simp only: power_strict_increasing)
  then have "unat (of_nat (2 ^ n) :: 'a word) = 2 ^ n" by (simp only: unat_of_nat mod_less)
  then show ?thesis by simp
qed

lemma is_power_of_two_iff: "is_power_of_two (x :: 'a::len word) \<longleftrightarrow> (\<exists>n<LENGTH('a). x = 2 ^ n)"
  by (auto simp: is_power_of_two_def list_ex_iff)

lemma is_power_of_twoE:
  assumes "is_power_of_two (x :: 'a::len word)"
  obtains n where "n < LENGTH('a)" "x = 2 ^ n" "unat x = 2 ^ n"
proof -
  from assms obtain n where n: "n < LENGTH('a)" "x = 2 ^ n"
    by (auto simp: is_power_of_two_iff)
  then have "unat x = 2 ^ n" by (simp only: unat_power_of_two)
  with n that show thesis by blast
qed

lemma is_power_of_two_pos: "is_power_of_two x \<Longrightarrow> 0 < unat x"
  by (elim is_power_of_twoE) simp

text \<open>The usual bit test, used to evaluate \<open>is_power_of_two\<close> on numerals.\<close>

lemma nat_and_pred_zero: "0 < x \<Longrightarrow> x AND (x - 1) = (0::nat) \<Longrightarrow> \<exists>n. x = 2 ^ n"
proof (induction x rule: less_induct)
  case (less x)
  show ?case
  proof (cases "even x")
    case True
    then obtain y where y: "x = 2 * y" by (auto elim: evenE)
    with less.prems have "0 < y" by simp
    then have "2 * y - 1 = 2 * (y - 1) + 1" by simp
    then have "(2 * y) AND (2 * y - 1) = 2 * (y AND (y - 1))"
      by (simp add: and_nat_rec [of "2 * y"])
    with less.prems y have "y AND (y - 1) = 0" by simp
    with less.IH [of y] y \<open>0 < y\<close> obtain n where "y = 2 ^ n" by auto
    with y have "x = 2 ^ Suc n" by simp
    then show ?thesis by blast
  next
    case False
    then obtain y where y: "x = 2 * y + 1" by (auto elim: oddE)
    then have "x AND (x - 1) = 2 * (y AND y)" by (simp add: and_nat_rec [of "Suc (2 * y)"])
    with less.prems y have "x = 2 ^ 0" by simp
    then show ?thesis by blast
  qed
qed

lemma is_power_of_two_test [exec_simps]:
  assumes "x \<noteq> 0" "x AND (x - 1) = (0 :: 'a::len word)"
  shows "is_power_of_two x"
proof -
  have pos: "0 < unat x" using assms(1) by (simp add: unat_gt_0)
  have "unat (x - 1) = unat x - 1" using assms(1) by (simp add: unat_minus_one)
  moreover have "unat (x AND (x - 1)) = unat x AND unat (x - 1)"
    by (simp add: unsigned_and_eq)
  ultimately have "unat x AND (unat x - 1) = 0" using assms(2) by simp
  from nat_and_pred_zero [OF pos this] obtain n where n: "unat x = 2 ^ n" by blast
  then have "2 ^ n < (2::nat) ^ LENGTH('a)" by (metis unsigned_less)
  then have "n < LENGTH('a)" by (simp only: power_strict_increasing_iff)
  moreover from this n have "x = 2 ^ n" by (simp add: word_unat_eq_iff unat_power_of_two)
  ultimately show ?thesis by (auto simp: is_power_of_two_iff)
qed

lemmas checked_defs [exec_simps] =
  checked_add_def checked_sub_def checked_mul_def usize_add_def usize_sub_def usize_mul_def usize_max_def

text \<open>The padding that brings a size up to the next multiple of a power of two, as the
  sources compute it: \<open>value.wrapping_neg() & (align - 1)\<close>.\<close>

definition padding :: "'a::len word \<Rightarrow> 'a word \<Rightarrow> 'a word" where
  "padding v a = (- v) AND (a - 1)"

declare padding_def [exec_simps]

lemma uint_padding:
  assumes "is_power_of_two (a :: 'a::len word)"
  shows "uint (padding v a) = (- uint v) mod uint a"
proof -
  from assms obtain n where n: "n < LENGTH('a)" "a = 2 ^ n" "unat a = 2 ^ n"
    by (rule is_power_of_twoE)
  have ua: "uint a = 2 ^ n" using n(3) by (metis of_nat_numeral of_nat_power uint_nat)
  have "padding v a = take_bit n (- v)"
    by (simp only: padding_def n(2) take_bit_eq_mask mask_eq_decr_exp)
  then have "uint (padding v a) = take_bit n (uint (- v))"
    by (simp only: unsigned_take_bit_eq)
  also have "\<dots> = take_bit n (take_bit LENGTH('a) (- uint v))"
    by (simp only: uint_word_ariths(4) take_bit_eq_mod)
  also have "\<dots> = take_bit n (- uint v)" using n(1) by simp
  finally show ?thesis by (simp add: ua take_bit_eq_mod)
qed

lemma padding_bounds:
  assumes "is_power_of_two (a :: 'a::len word)"
  shows "unat (padding v a) < unat a" and "unat a dvd unat v + unat (padding v a)"
proof -
  have pos: "0 < uint a" using is_power_of_two_pos [OF assms]
    by (simp only: uint_nat of_nat_0_less_iff)
  have "uint (padding v a) < uint a" unfolding uint_padding [OF assms] by (simp add: pos)
  then show "unat (padding v a) < unat a" by (simp only: uint_nat of_nat_less_iff)
  have "(uint v + uint (padding v a)) mod uint a = 0"
    unfolding uint_padding [OF assms] by (simp only: mod_add_right_eq) simp
  then have "uint a dvd uint v + uint (padding v a)" by (simp add: dvd_eq_mod_eq_0)
  then show "unat a dvd unat v + unat (padding v a)"
    by (metis (mono_tags) int_dvd_int_iff of_nat_add uint_nat)
qed

text \<open>The least multiple of \<open>a\<close> that is at least \<open>v\<close>: the specification of
  alignment, independent of the bit trick.\<close>

definition ceil_to :: "nat \<Rightarrow> nat \<Rightarrow> nat" where
  "ceil_to v a = (if a dvd v then v else (v div a + 1) * a)"

lemma ceil_to_ge: "0 < a \<Longrightarrow> v \<le> ceil_to v a"
  by (simp add: ceil_to_def) (metis add.commute dividend_less_div_times less_imp_le)

lemma ceil_to_dvd: "a dvd ceil_to v a"
  by (simp add: ceil_to_def)

lemma ceil_to_least: "a dvd w \<Longrightarrow> v \<le> w \<Longrightarrow> ceil_to v a \<le> w"
proof (cases "a dvd v")
  case False
  assume "a dvd w" "v \<le> w"
  then obtain k where k: "w = a * k" by (auto elim: dvdE)
  with False \<open>v \<le> w\<close> have "v < a * k" by (metis dvd_triv_left le_neq_implies_less)
  then have "v div a < k" by (metis div_less_iff_less_mult less_mult_imp_div_less mult.commute)
  then have "(v div a + 1) * a \<le> k * a" by (intro mult_le_mono1) simp
  with False show ?thesis by (simp add: ceil_to_def k mult.commute)
qed (simp add: ceil_to_def)

lemma ceil_to_unique:
  assumes "0 < a" "a dvd v + p" "p < a"
  shows "v + p = ceil_to v a"
proof (rule antisym)
  show "ceil_to v a \<le> v + p" using assms by (intro ceil_to_least) auto
  obtain k where k: "v + p = a * k" using assms(2) by (auto elim: dvdE)
  obtain j where j: "ceil_to v a = a * j" using ceil_to_dvd [of a v] by (auto elim: dvdE)
  have "a * k < a * j + a" using ceil_to_ge [OF assms(1), of v] assms(3) k j by linarith
  then have "a * k < a * (j + 1)" by simp
  then have "k < j + 1" using assms(1) by (simp only: mult_less_cancel1)
  then have "k \<le> j" by simp
  then show "v + p \<le> ceil_to v a" by (simp add: k j)
qed

lemma padding_ceil:
  assumes "is_power_of_two (a :: 'a::len word)"
  shows "unat v + unat (padding v a) = ceil_to (unat v) (unat a)"
  using padding_bounds [OF assms] is_power_of_two_pos [OF assms] by (intro ceil_to_unique) auto

lemma checked_add_padding [align_simps]:
  assumes "is_power_of_two (a :: 'a::len word)"
  shows "checked_add v (padding v a) = Some r \<longleftrightarrow> unat r = ceil_to (unat v) (unat a)"
  using padding_ceil [OF assms, of v] by (simp add: checked_simps)

lemma checked_add_padding_None [align_simps]:
  assumes "is_power_of_two (a :: 'a::len word)"
  shows "checked_add v (padding v a) = None \<longleftrightarrow> 2 ^ LENGTH('a) \<le> ceil_to (unat v) (unat a)"
  using padding_ceil [OF assms, of v] by (simp add: checked_simps)

subsection \<open>Little-endian bytes\<close>

definition to_le_bytes :: "nat \<Rightarrow> 'a::len word \<Rightarrow> u8 list" where
  "to_le_bytes n w = map (\<lambda>i. ucast (drop_bit (8 * i) w)) [0..<n]"

fun le_value :: "u8 list \<Rightarrow> nat" where
  "le_value [] = 0"
| "le_value (b # bs) = unat b + 256 * le_value bs"

lemma to_le_bytes_8 [exec_simps]: "to_le_bytes 8 w =
  [ucast w, ucast (drop_bit 8 w), ucast (drop_bit 16 w), ucast (drop_bit 24 w),
   ucast (drop_bit 32 w), ucast (drop_bit 40 w), ucast (drop_bit 48 w), ucast (drop_bit 56 w)]"
  by (simp add: to_le_bytes_def upt_rec)

lemma length_to_le_bytes [simp]: "length (to_le_bytes n w) = n"
  by (simp add: to_le_bytes_def)

lemma to_le_bytes_Suc:
  "to_le_bytes (Suc n) w = ucast w # to_le_bytes n (drop_bit 8 w)"
  unfolding to_le_bytes_def upt_conv_Cons [OF zero_less_Suc] map_Suc_upt [symmetric]
  by (simp add: o_def add.commute)

lemma le_value_to_le_bytes: "le_value (to_le_bytes n w) = unat w mod 256 ^ n"
proof (induction n arbitrary: w)
  case 0
  show ?case by (simp add: to_le_bytes_def)
next
  case (Suc n)
  have low: "unat (ucast w :: u8) = unat w mod 256"
    by (simp add: unsigned_ucast_eq take_bit_eq_mod)
  have high: "unat (drop_bit 8 w) = unat w div 256"
    using drop_bit_eq_div [of 8 "unat w"] unsigned_less [of w, where 'a = nat]
    by (simp add: unsigned_drop_bit_eq take_bit_nat_eq_self)
  show ?case
    by (simp add: to_le_bytes_Suc low high Suc.IH mod_mult2_eq)
qed

lemma le_value_bound: "le_value bs < 256 ^ length bs"
proof (induction bs)
  case (Cons b bs)
  have "unat b < 256" using unsigned_less [of b, where 'a = nat] by simp
  with Cons show ?case by simp
qed simp

lemma le_value_inject: "length xs = length ys \<Longrightarrow> le_value xs = le_value ys \<Longrightarrow> xs = ys"
proof (induction xs ys rule: list_induct2)
  case (Cons x xs y ys)
  have b: "unat x < 256" "unat y < 256"
    using unsigned_less [of x, where 'a = nat] unsigned_less [of y, where 'a = nat] by simp_all
  from Cons.prems have eq: "unat x + 256 * le_value xs = unat y + 256 * le_value ys" by simp
  from arg_cong [OF eq, of "\<lambda>n. n mod 256"] b have "unat x = unat y" by simp
  with eq Cons.IH show ?case by (simp add: word_unat_eq_iff)
qed simp

subsection \<open>Checked indexing and slices\<close>

definition get :: "'a list \<Rightarrow> nat \<Rightarrow> 'a option" where
  "get xs i = (if i < length xs then Some (xs ! i) else None)"

lemma get_eq_Some [result_simps]: "get xs i = Some x \<longleftrightarrow> i < length xs \<and> xs ! i = x"
  by (auto simp: get_def)

definition overwrite :: "'a list \<Rightarrow> nat \<Rightarrow> 'a list \<Rightarrow> 'a list" where
  "overwrite xs off ys = take off xs @ ys @ drop (off + length ys) xs"

lemma length_overwrite [simp]:
  "off + length ys \<le> length xs \<Longrightarrow> length (overwrite xs off ys) = length xs"
  by (simp add: overwrite_def)

lemma nth_overwrite:
  assumes "off + length ys \<le> length xs" "k < length xs"
  shows "overwrite xs off ys ! k =
    (if off \<le> k \<and> k < off + length ys then ys ! (k - off) else xs ! k)"
  using assms by (auto simp: overwrite_def nth_append min_def)

lemma take_drop_overwrite:
  "off + length ys \<le> length xs \<Longrightarrow> take (length ys) (drop off (overwrite xs off ys)) = ys"
  by (simp add: overwrite_def)

declare get_def [exec_simps] overwrite_def [exec_simps]

end
