(* ===== verification/TargetSpec.thy ===== *)
theory TargetSpec
  imports Prelude
begin

text \<open>
  Output target contracts: \<open>target-spec/src/lib.rs\<close> and \<open>target-spec/src/extension.rs\<close>.
  The four machines, three object formats, the identity of an object file and the storage
  layout of an output target, with their validation.  Rendered message text is not modelled;
  every error value of the sources is one constructor.  A string is the
  list of its UTF-8 bytes.
\<close>

datatype endian = Little | Big

record data_layout =
  ptr_bits :: u32
  dl_endian :: endian

datatype object_format = ELF64 | COFF | MachO64

datatype machine = X86_64 | AArch64 | RiscV64 | LoongArch64

record object_target =
  ot_format :: object_format
  ot_machine :: machine
  ot_endian :: endian
  ot_address_bits :: u32

definition elf64 :: "machine \<Rightarrow> object_target" where
  "elf64 m = \<lparr>ot_format = ELF64, ot_machine = m, ot_endian = Little, ot_address_bits = 64\<rparr>"

definition coff :: "machine \<Rightarrow> object_target" where
  "coff m = \<lparr>ot_format = COFF, ot_machine = m, ot_endian = Little, ot_address_bits = 64\<rparr>"

definition macho64 :: "machine \<Rightarrow> object_target" where
  "macho64 m = \<lparr>ot_format = MachO64, ot_machine = m, ot_endian = Little, ot_address_bits = 64\<rparr>"

datatype target = X86_64WhaleLinux

datatype target_error =
    Contract string
  | UnsupportedTarget string
  | LayoutMismatch target data_layout
  | UnsupportedObjectTarget object_target
  | UnsupportedAmd64ObjectTarget object_target

fun target_name :: "target \<Rightarrow> string" where
  "target_name X86_64WhaleLinux = ''x86_64-whale-linux''"

definition supported_targets :: "target list" where
  "supported_targets = [X86_64WhaleLinux]"

definition lookup_target :: "string \<Rightarrow> target_error + target" where
  "lookup_target nm =
     ok_or (find (\<lambda>t. target_name t = nm) supported_targets) (UnsupportedTarget nm)"

fun target_data_layout :: "target \<Rightarrow> data_layout" where
  "target_data_layout X86_64WhaleLinux = \<lparr>ptr_bits = 64, dl_endian = Little\<rparr>"

fun target_object_target :: "target \<Rightarrow> object_target" where
  "target_object_target X86_64WhaleLinux =
     \<lparr>ot_format = ELF64, ot_machine = X86_64, ot_endian = Little,
      ot_address_bits = ptr_bits (target_data_layout X86_64WhaleLinux)\<rparr>"

definition validate_layout :: "target \<Rightarrow> data_layout \<Rightarrow> target_error + unit" where
  "validate_layout t actual =
     (if actual = target_data_layout t then Inr () else Inl (LayoutMismatch t actual))"

definition validate_target :: "object_target \<Rightarrow> target_error + unit" where
  "validate_target t =
     (if ot_endian t = Little \<and> ot_address_bits t = 64 \<and>
         (ot_format t = ELF64 \<or> ot_machine t \<in> {X86_64, AArch64})
      then Inr () else Inl (UnsupportedObjectTarget t))"

definition validate_amd64 :: "object_target \<Rightarrow> target_error + unit" where
  "validate_amd64 t =
     (if t = target_object_target X86_64WhaleLinux
      then Inr () else Inl (UnsupportedAmd64ObjectTarget t))"

definition elf_machine :: "object_target \<Rightarrow> target_error + u16" where
  "elf_machine t =
     rbind (validate_target t) (\<lambda>_.
       if ot_format t \<noteq> ELF64 then Inl (UnsupportedObjectTarget t)
       else Inr (case ot_machine t of
              X86_64 \<Rightarrow> 62 | AArch64 \<Rightarrow> 183 | RiscV64 \<Rightarrow> 243 | LoongArch64 \<Rightarrow> 258))"

definition elf_flags :: "object_target \<Rightarrow> u32" where
  "elf_flags t = (case ot_machine t of LoongArch64 \<Rightarrow> 0x41 | _ \<Rightarrow> 0)"

subsection \<open>Open target contracts\<close>

datatype output_kind =
    NativeObject object_target
  | JvmClass u16
  | CliAssembly
  | CustomOutput string
  | Bytecode string

datatype memory_model = Tracked | Native | CustomMemory string

text \<open>\<open>scalar_align\<close> is the array \<open>[u32; 5]\<close> for the byte sizes 1, 2, 4, 8 and 16.\<close>

record storage_layout =
  sl_data :: data_layout
  scalar_align :: "u32 \<times> u32 \<times> u32 \<times> u32 \<times> u32"
  pointer_align :: u32
  large_array :: "(u64 \<times> u32) option"

fun align_list :: "u32 \<times> u32 \<times> u32 \<times> u32 \<times> u32 \<Rightarrow> u32 list" where
  "align_list (a, b, c, d, e) = [a, b, c, d, e]"

datatype spec_error =
    PointerWidth
  | AlignmentNotPowerOfTwo
  | AlignmentExceedsSize
  | BadIdentity
  | LayoutsDisagree

definition validate_storage :: "storage_layout \<Rightarrow> spec_error + unit" where
  "validate_storage s =
     (if ptr_bits (sl_data s) \<notin> {32, 64} then Inl PointerWidth
      else if \<not> list_all is_power_of_two (align_list (scalar_align s))
           \<or> \<not> is_power_of_two (pointer_align s)
           \<or> (case large_array s of None \<Rightarrow> False | Some (_, a) \<Rightarrow> \<not> is_power_of_two a)
        then Inl AlignmentNotPowerOfTwo
      else if list_ex (\<lambda>(i, a). a > push_bit i 1) (enumerate 0 (align_list (scalar_align s)))
           \<or> pointer_align s > ptr_bits (sl_data s) div 8
        then Inl AlignmentExceedsSize
      else Inr ())"

record target_spec =
  ts_id :: string
  ts_output :: output_kind
  ts_storage :: storage_layout
  ts_memory :: memory_model

definition is_control :: "char \<Rightarrow> bool" where
  "is_control c = (let n = (of_char c :: nat) in n < 32 \<or> 127 \<le> n \<and> n < 160)"

definition is_whitespace :: "char \<Rightarrow> bool" where
  "is_whitespace c = (let n = (of_char c :: nat) in 9 \<le> n \<and> n \<le> 13 \<or> n \<in> {32, 133, 160})"

definition validate_spec :: "target_spec \<Rightarrow> spec_error + unit" where
  "validate_spec t =
     (if ts_id t = [] \<or> list_ex (\<lambda>c. is_control c \<or> is_whitespace c) (ts_id t)
      then Inl BadIdentity
      else rbind (validate_storage (ts_storage t)) (\<lambda>_.
        case ts_output t of
          NativeObject obj \<Rightarrow>
            if ot_address_bits obj \<noteq> ptr_bits (sl_data (ts_storage t))
             \<or> ot_endian obj \<noteq> dl_endian (sl_data (ts_storage t))
            then Inl LayoutsDisagree else Inr ()
        | _ \<Rightarrow> Inr ()))"

definition target_specification :: "target \<Rightarrow> target_spec" where
  "target_specification t =
     \<lparr>ts_id = target_name t,
      ts_output = NativeObject (target_object_target t),
      ts_storage = \<lparr>sl_data = target_data_layout t, scalar_align = (1, 2, 4, 8, 16),
                    pointer_align = 8, large_array = Some (16, 16)\<rparr>,
      ts_memory = Tracked\<rparr>"

lemmas target_spec_defs [exec_simps] =
  elf64_def coff_def macho64_def validate_amd64_def validate_target_def

subsection \<open>Lemmas\<close>

lemma validate_amd64_Inr [result_simps]:
  "validate_amd64 t = Inr u \<longleftrightarrow> t = elf64 X86_64"
  by (simp add: validate_amd64_def elf64_def)

lemma validate_amd64_elf64 [simp]: "validate_amd64 (elf64 X86_64) = Inr ()"
  by (simp add: validate_amd64_def elf64_def)

lemma validate_target_Inr [result_simps]:
  "validate_target t = Inr u \<longleftrightarrow>
     ot_endian t = Little \<and> ot_address_bits t = 64 \<and>
     (ot_format t = ELF64 \<or> ot_machine t = X86_64 \<or> ot_machine t = AArch64)"
  by (auto simp: validate_target_def)

lemma validate_storage_aligns:
  assumes "validate_storage s = Inr ()"
  shows "list_all is_power_of_two (align_list (scalar_align s))" "is_power_of_two (pointer_align s)"
    and "ptr_bits (sl_data s) = 32 \<or> ptr_bits (sl_data s) = 64"
    and "pointer_align s \<le> ptr_bits (sl_data s) div 8"
    and "\<And>n a. large_array s = Some (n, a) \<Longrightarrow> is_power_of_two a"
  using assms by (auto simp: validate_storage_def split: if_splits)

lemma validate_storage_sizes:
  assumes "validate_storage s = Inr ()" "scalar_align s = (a, b, c, d, e)"
  shows "a \<le> 1" "b \<le> 2" "c \<le> 4" "d \<le> 8" "e \<le> 16"
  using assms by (auto simp: validate_storage_def enumerate_eq_zip not_less split: if_splits)

lemma target_specification_valid: "validate_spec (target_specification t) = Inr ()"
  by (cases t) (simp add: validate_spec_def target_specification_def validate_storage_def
      is_power_of_two_def is_control_def is_whitespace_def enumerate_eq_zip upt_rec)

end
