(* ===== verification/ObjectModel.thy ===== *)
theory ObjectModel
  imports TargetSpec
begin

text \<open>
  The in-memory object file: \<open>object/src/core/{section,symbol,reloc,object}.rs\<close>,
  \<open>object/src/error.rs\<close> and the relocation tables of the COFF and Mach-O formats.
  The structural validation is translated check by check, in the order of the code; the
  theorem below characterises exactly the objects it accepts.  Message texts are not
  modelled, error kinds, phases, contexts and resources are.
\<close>

subsection \<open>Errors\<close>

record source_location =
  sl_source :: string
  sl_line :: u64
  sl_column :: u64
  sl_end_line :: "u64 option"
  sl_end_column :: "u64 option"
  sl_start_byte :: "u64 option"
  sl_end_byte :: "u64 option"

datatype diag_context =
    CtxSource source_location
  | CtxObject string "string option"
  | CtxInput usize
  | CtxSection usize "string option"
  | CtxFileOffset u64
  | CtxSectionOffset u64
  | CtxSymbol string
  | CtxFunction u32
  | CtxBlock u32
  | CtxInstruction usize
  | CtxOriginalNode u64

datatype object_error_kind =
    InvalidTarget | InvalidAlignment | InvalidName | InvalidSection | InvalidSymbol
  | DuplicateSymbol | InvalidRelocation | OutOfBounds | Overflow | ResourceLimit
  | Unsupported | Truncated | InvalidEncoding | HostAllocation

datatype object_resource =
    InputBytes | Sections | ProgramHeaders | Symbols | Relocations | PayloadBytes
  | StringBytes | Work | OutputBytes

record object_error =
  oe_kind :: object_error_kind
  oe_phase :: string
  oe_contexts :: "diag_context list"
  oe_resource :: "object_resource option"

definition object_error_new :: "string \<Rightarrow> object_error_kind \<Rightarrow> object_error" where
  "object_error_new phase k =
     \<lparr>oe_kind = k, oe_phase = phase, oe_contexts = [], oe_resource = None\<rparr>"

definition err_context :: "object_error \<Rightarrow> diag_context \<Rightarrow> object_error" where
  "err_context e c = e\<lparr>oe_contexts := oe_contexts e @ [c]\<rparr>"

definition err_at :: "object_error \<Rightarrow> u64 \<Rightarrow> object_error" where
  "err_at e offset = err_context e (CtxFileOffset offset)"

definition err_section :: "object_error \<Rightarrow> usize \<Rightarrow> object_error" where
  "err_section e i = err_context e (CtxSection i None)"

definition err_symbol :: "object_error \<Rightarrow> string \<Rightarrow> object_error" where
  "err_symbol e n = err_context e (CtxSymbol n)"

definition err_limit :: "string \<Rightarrow> object_resource \<Rightarrow> object_error" where
  "err_limit phase r = (object_error_new phase ResourceLimit)\<lparr>oe_resource := Some r\<rparr>"

subsection \<open>Sections, symbols and relocations\<close>

datatype section_kind = Text | Data | Bss | ReadOnlyData

record obj_section =
  sec_name :: string
  sec_kind :: section_kind
  sec_data :: "u8 list"
  sec_zero_fill :: u64
  sec_align :: u64

definition len64 :: "'a list \<Rightarrow> u64" where
  "len64 xs = of_nat (length xs)"

datatype memory_size_error = ZeroFillOutsideBss | NonzeroBss | MemorySizeOverflow

definition memory_size :: "obj_section \<Rightarrow> memory_size_error + u64" where
  "memory_size s =
     (if sec_kind s \<noteq> Bss \<and> sec_zero_fill s \<noteq> 0 then Inl ZeroFillOutsideBss
      else if sec_kind s = Bss \<and> list_ex (\<lambda>b. b \<noteq> 0) (sec_data s) then Inl NonzeroBss
      else ok_or (checked_add (len64 (sec_data s)) (sec_zero_fill s)) MemorySizeOverflow)"

definition file_size :: "obj_section \<Rightarrow> u64" where
  "file_size s = (if sec_kind s = Bss then 0 else len64 (sec_data s))"

datatype symbol_binding = Local | Global | Weak

datatype symbol_visibility = DefaultVis | Hidden

datatype symbol_kind = NoType | Function | Object

record object_symbol =
  sym_kind :: symbol_kind
  sym_name :: string
  sym_section :: "usize option"
  sym_value :: u64
  sym_size :: u64
  sym_binding :: symbol_binding
  sym_visibility :: symbol_visibility

datatype reloc_kind =
    TargetSpecific machine u32
  | CoffSpecific machine u16
  | MachSpecific machine u8
  | Absolute64
  | Absolute32
  | SignedAbsolute32
  | Relative32
  | Relative8
  | GOTPCREL
  | PLT32

text \<open>The relocation tables: the numeric identity and the width in bytes of the patched
  field, or \<open>None\<close> where the source returns an error.\<close>

definition coff_encoding :: "reloc_kind \<Rightarrow> machine \<Rightarrow> (u32 \<times> usize) option" where
  "coff_encoding k m =
     (case (m, k) of
        (X86_64, Absolute64) \<Rightarrow> Some (1, 8)
      | (X86_64, Absolute32) \<Rightarrow> Some (2, 4)
      | (X86_64, Relative32) \<Rightarrow> Some (4, 4)
      | (X86_64, PLT32) \<Rightarrow> Some (4, 4)
      | (AArch64, Absolute64) \<Rightarrow> Some (14, 8)
      | (AArch64, Absolute32) \<Rightarrow> Some (1, 4)
      | (AArch64, CoffSpecific AArch64 code) \<Rightarrow>
          if code \<in> {3, 5, 15} then Some (ucast code, 4) else None
      | _ \<Rightarrow> None)"

definition macho_encoding :: "reloc_kind \<Rightarrow> machine \<Rightarrow> (u32 \<times> usize) option" where
  "macho_encoding k m =
     (case (m, k) of
        (AArch64, Absolute64) \<Rightarrow> Some (0, 8)
      | (AArch64, MachSpecific AArch64 code) \<Rightarrow>
          if code = 0 then Some (0, 8) else if code = 2 then Some (2, 4) else None
      | (X86_64, Absolute64) \<Rightarrow> Some (0, 8)
      | (X86_64, Relative32) \<Rightarrow> Some (1, 4)
      | (X86_64, PLT32) \<Rightarrow> Some (2, 4)
      | (X86_64, MachSpecific X86_64 code) \<Rightarrow>
          if code = 0 then Some (0, 8)
          else if code \<in> {1, 2} then Some (ucast code, 4) else None
      | _ \<Rightarrow> None)"

definition reloc_encoding :: "reloc_kind \<Rightarrow> object_target \<Rightarrow> (u32 \<times> usize) option" where
  "reloc_encoding k t =
     (if ot_format t = COFF then coff_encoding k (ot_machine t)
      else if ot_format t = MachO64 then macho_encoding k (ot_machine t)
      else case (ot_machine t, k) of
        (X86_64, Absolute64) \<Rightarrow> Some (1, 8)
      | (X86_64, Absolute32) \<Rightarrow> Some (10, 4)
      | (X86_64, SignedAbsolute32) \<Rightarrow> Some (11, 4)
      | (X86_64, Relative32) \<Rightarrow> Some (2, 4)
      | (X86_64, Relative8) \<Rightarrow> Some (15, 1)
      | (X86_64, GOTPCREL) \<Rightarrow> Some (9, 4)
      | (X86_64, PLT32) \<Rightarrow> Some (4, 4)
      | (AArch64, Absolute64) \<Rightarrow> Some (257, 8)
      | (AArch64, Absolute32) \<Rightarrow> Some (258, 4)
      | (RiscV64, Absolute64) \<Rightarrow> Some (2, 8)
      | (LoongArch64, Absolute64) \<Rightarrow> Some (2, 8)
      | (RiscV64, Absolute32) \<Rightarrow> Some (1, 4)
      | (LoongArch64, Absolute32) \<Rightarrow> Some (1, 4)
      | (AArch64, TargetSpecific AArch64 code) \<Rightarrow>
          if code \<in> {274, 280, 282, 283} then Some (code, 4) else None
      | (RiscV64, TargetSpecific RiscV64 code) \<Rightarrow>
          if code \<in> {16, 17} then Some (code, 4) else None
      | (LoongArch64, TargetSpecific LoongArch64 code) \<Rightarrow>
          if 64 \<le> code \<and> code \<le> 66 then Some (code, 4) else None
      | _ \<Rightarrow> None)"

record object_relocation =
  rel_section :: usize
  rel_offset :: usize
  rel_symbol :: string
  rel_addend :: int
  rel_kind :: reloc_kind

record object_file =
  obj_target :: object_target
  obj_sections :: "obj_section list"
  obj_symbols :: "object_symbol list"
  obj_relocations :: "object_relocation list"

definition object_with_target :: "object_target \<Rightarrow> object_file" where
  "object_with_target t =
     \<lparr>obj_target = t, obj_sections = [], obj_symbols = [], obj_relocations = []\<rparr>"

definition object_new :: "object_format \<Rightarrow> object_file" where
  "object_new f = object_with_target ((target_object_target X86_64WhaleLinux)\<lparr>ot_format := f\<rparr>)"

definition add_section ::
  "object_file \<Rightarrow> string \<Rightarrow> section_kind \<Rightarrow> u64 \<Rightarrow> object_file \<times> usize" where
  "add_section obj nm k a =
     (obj\<lparr>obj_sections := obj_sections obj @
        [\<lparr>sec_name = nm, sec_kind = k, sec_data = [], sec_zero_fill = 0, sec_align = a\<rparr>]\<rparr>,
      length (obj_sections obj))"

subsection \<open>Structural validation\<close>

definition verr :: "object_error_kind \<Rightarrow> object_error" where
  "verr k = object_error_new ''validate'' k"

definition has_nul :: "string \<Rightarrow> bool" where
  "has_nul s = list_ex (\<lambda>c. c = CHR 0x00) s"

definition validate_section :: "usize \<times> obj_section \<Rightarrow> object_error + unit" where
  "validate_section = (\<lambda>(i, s).
     if sec_kind s \<noteq> Bss \<and> sec_zero_fill s \<noteq> 0 then Inl (err_section (verr InvalidSection) i)
     else if sec_kind s = Bss \<and> list_ex (\<lambda>b. b \<noteq> 0) (sec_data s)
       then Inl (err_section (verr InvalidSection) i)
     else rbind (ok_or (checked_add (len64 (sec_data s)) (sec_zero_fill s))
                  (err_section (verr Overflow) i)) (\<lambda>_.
       if has_nul (sec_name s) then Inl (err_section (verr InvalidName) i)
       else if sec_align s \<noteq> 0 \<and> \<not> is_power_of_two (sec_align s)
         then Inl (err_section (verr InvalidAlignment) i)
       else Inr ()))"

text \<open>\<open>memory_size().expect(...)\<close> runs after every section passed the checks above; a
  failure there would be a panic, here the error \<open>Overflow\<close> with no context.  It is
  unreachable: \<open>memory_size_wf\<close> shows that a section that passed has a memory size.\<close>

definition validate_symbol ::
  "obj_section list \<Rightarrow> object_symbol \<Rightarrow> string set \<Rightarrow> object_error + string set" where
  "validate_symbol secs sm names =
     (if has_nul (sym_name sm) then Inl (err_symbol (verr InvalidName) (sym_name sm))
      else if sym_name sm \<in> names then Inl (err_symbol (verr DuplicateSymbol) (sym_name sm))
      else case sym_section sm of
        None \<Rightarrow> Inr (insert (sym_name sm) names)
      | Some i \<Rightarrow>
          if length secs \<le> i
          then Inl (err_symbol (err_section (verr InvalidSection) i) (sym_name sm))
          else rbind (ok_or (checked_add (sym_value sm) (sym_size sm))
                       (err_symbol (verr Overflow) (sym_name sm))) (\<lambda>stop.
               rbind (map_err (\<lambda>_. verr Overflow) (memory_size (secs ! i))) (\<lambda>sz.
               if stop > sz
               then Inl (err_symbol (err_section (verr OutOfBounds) i) (sym_name sm))
               else Inr (insert (sym_name sm) names))))"

definition validate_relocation ::
  "object_target \<Rightarrow> obj_section list \<Rightarrow> object_relocation \<Rightarrow> object_error + unit" where
  "validate_relocation t secs r =
     (if has_nul (rel_symbol r) then Inl (err_symbol (verr InvalidName) (rel_symbol r))
      else if length secs \<le> rel_section r
        then Inl (err_section (verr InvalidSection) (rel_section r))
      else if sec_kind (secs ! rel_section r) = Bss
        then Inl (err_section (verr InvalidRelocation) (rel_section r))
      else rbind (ok_or (reloc_encoding (rel_kind r) t)
                   (err_section (verr InvalidRelocation) (rel_section r))) (\<lambda>(_, width).
           rbind (ok_or (usize_add (rel_offset r) width)
                   (err_section (verr Overflow) (rel_section r))) (\<lambda>stop.
           if stop > length (sec_data (secs ! rel_section r))
           then Inl (err_section (verr OutOfBounds) (rel_section r))
           else Inr ())))"

definition validate_diagnostic :: "object_file \<Rightarrow> object_error + unit" where
  "validate_diagnostic obj =
     rbind (map_err (\<lambda>_. verr InvalidTarget) (validate_target (obj_target obj))) (\<lambda>_.
     rbind (foldR (\<lambda>x _. validate_section x) (enumerate 0 (obj_sections obj)) ()) (\<lambda>_.
     rbind (foldR (validate_symbol (obj_sections obj)) (obj_symbols obj) {}) (\<lambda>_.
     foldR (\<lambda>r _. validate_relocation (obj_target obj) (obj_sections obj) r)
       (obj_relocations obj) ())))"

lemmas object_model_defs [exec_simps] =
  len64_def memory_size_def file_size_def has_nul_def reloc_encoding_def
  validate_section_def validate_symbol_def validate_relocation_def validate_diagnostic_def

subsection \<open>What validation accepts\<close>

text \<open>The declarative well-formedness of the three parts of an object.\<close>

definition wf_section :: "obj_section \<Rightarrow> bool" where
  "wf_section s \<longleftrightarrow>
     (sec_kind s \<noteq> Bss \<longrightarrow> sec_zero_fill s = 0) \<and>
     (sec_kind s = Bss \<longrightarrow> set (sec_data s) \<subseteq> {0}) \<and>
     unat (len64 (sec_data s)) + unat (sec_zero_fill s) < 2 ^ 64 \<and>
     CHR 0x00 \<notin> set (sec_name s) \<and>
     (sec_align s = 0 \<or> (\<exists>n<64. sec_align s = 2 ^ n))"

definition section_extent :: "obj_section \<Rightarrow> nat" where
  "section_extent s = unat (len64 (sec_data s)) + unat (sec_zero_fill s)"

definition wf_symbol :: "obj_section list \<Rightarrow> object_symbol \<Rightarrow> bool" where
  "wf_symbol secs sm \<longleftrightarrow>
     CHR 0x00 \<notin> set (sym_name sm) \<and>
     (\<forall>i. sym_section sm = Some i \<longrightarrow>
        i < length secs \<and> unat (sym_value sm) + unat (sym_size sm) \<le> section_extent (secs ! i))"

definition wf_relocation :: "object_target \<Rightarrow> obj_section list \<Rightarrow> object_relocation \<Rightarrow> bool" where
  "wf_relocation t secs r \<longleftrightarrow>
     CHR 0x00 \<notin> set (rel_symbol r) \<and>
     rel_section r < length secs \<and>
     sec_kind (secs ! rel_section r) \<noteq> Bss \<and>
     (\<exists>code width. reloc_encoding (rel_kind r) t = Some (code, width) \<and>
        rel_offset r + width \<le> usize_max \<and>
        rel_offset r + width \<le> length (sec_data (secs ! rel_section r)))"

definition wf_object :: "object_file \<Rightarrow> bool" where
  "wf_object obj \<longleftrightarrow>
     validate_target (obj_target obj) = Inr () \<and>
     (\<forall>s\<in>set (obj_sections obj). wf_section s) \<and>
     distinct (map sym_name (obj_symbols obj)) \<and>
     (\<forall>s\<in>set (obj_symbols obj). wf_symbol (obj_sections obj) s) \<and>
     (\<forall>r\<in>set (obj_relocations obj). wf_relocation (obj_target obj) (obj_sections obj) r)"

lemma foldR_unit_Inr [result_simps]:
  "foldR (\<lambda>x _. f x) xs () = Inr () \<longleftrightarrow> (\<forall>x\<in>set xs. f x = Inr ())"
proof (induction xs)
  case (Cons x xs)
  then show ?case by (cases "f x") auto
qed simp

lemma has_nul_iff [simp]: "has_nul s \<longleftrightarrow> CHR 0x00 \<in> set s"
  by (auto simp: has_nul_def list_ex_iff)

lemma checked_add_bound:
  "(\<exists>c. checked_add a b = Some c) \<longleftrightarrow> unat (a :: 'a::len word) + unat b < 2 ^ LENGTH('a)"
  by (auto simp: checked_add_def)

lemma validate_section_iff: "validate_section (i, s) = Inr () \<longleftrightarrow> wf_section s"
proof -
  have "list_ex (\<lambda>b. b \<noteq> 0) (sec_data s) \<longleftrightarrow> \<not> set (sec_data s) \<subseteq> {0}"
    by (auto simp: list_ex_iff)
  then show ?thesis
    using checked_add_bound [of "len64 (sec_data s)" "sec_zero_fill s"]
    by (auto simp: validate_section_def wf_section_def result_simps is_power_of_two_iff
        split: if_splits)
qed

lemma memory_size_wf:
  assumes "wf_section s"
  shows "\<exists>sz. memory_size s = Inr sz \<and> unat sz = section_extent s"
proof -
  have "\<not> list_ex (\<lambda>b. b \<noteq> 0) (sec_data s)" if "sec_kind s = Bss"
    using assms that by (auto simp: wf_section_def list_ex_iff)
  moreover obtain sz where "checked_add (len64 (sec_data s)) (sec_zero_fill s) = Some sz"
    using assms checked_add_bound [of "len64 (sec_data s)" "sec_zero_fill s"]
    by (auto simp: wf_section_def)
  ultimately have "memory_size s = Inr sz"
    using assms by (auto simp: memory_size_def wf_section_def)
  then show ?thesis
    by (auto simp: memory_size_def section_extent_def result_simps checked_simps split: if_splits)
qed

lemma memory_size_extent: "memory_size s = Inr sz \<Longrightarrow> unat sz = section_extent s"
  by (auto simp: memory_size_def section_extent_def result_simps checked_simps split: if_splits)

lemma validate_symbol_iff:
  assumes "\<forall>s\<in>set secs. wf_section s"
  shows "validate_symbol secs sm names = Inr names' \<longleftrightarrow>
    wf_symbol secs sm \<and> sym_name sm \<notin> names \<and> names' = insert (sym_name sm) names"
proof (cases "sym_section sm")
  case None
  then show ?thesis by (auto simp: validate_symbol_def wf_symbol_def)
next
  case (Some i)
  show ?thesis
  proof (cases "i < length secs")
    case True
    with assms obtain sz where sz: "memory_size (secs ! i) = Inr sz"
      "unat sz = section_extent (secs ! i)"
      using memory_size_wf by (metis nth_mem)
    have bound: "unat sz < 2 ^ 64" using unsigned_less [of sz] by simp
    show ?thesis
    proof (cases "checked_add (sym_value sm) (sym_size sm)")
      case None
      then have "2 ^ 64 \<le> unat (sym_value sm) + unat (sym_size sm)" by (simp add: checked_simps)
      with None Some True bound sz show ?thesis
        by (auto simp: validate_symbol_def wf_symbol_def)
    next
      case stop: (Some stop)
      then have "unat stop = unat (sym_value sm) + unat (sym_size sm)"
        by (simp add: checked_simps)
      with Some True sz stop show ?thesis
        by (auto simp: validate_symbol_def wf_symbol_def word_less_nat_alt)
    qed
  next
    case False
    with Some show ?thesis by (auto simp: validate_symbol_def wf_symbol_def)
  qed
qed

lemma validate_symbols_iff:
  assumes "\<forall>s\<in>set secs. wf_section s"
  shows "(\<exists>names'. foldR (validate_symbol secs) syms names = Inr names') \<longleftrightarrow>
    (\<forall>s\<in>set syms. wf_symbol secs s) \<and> distinct (map sym_name syms)
    \<and> names \<inter> sym_name ` set syms = {}"
proof (induction syms arbitrary: names)
  case (Cons sm syms)
  show ?case
  proof (cases "wf_symbol secs sm \<and> sym_name sm \<notin> names")
    case True
    then have "validate_symbol secs sm names = Inr (insert (sym_name sm) names)"
      using validate_symbol_iff [OF assms] by blast
    with True Cons show ?thesis by auto
  next
    case False
    then have "\<nexists>n. validate_symbol secs sm names = Inr n"
      using validate_symbol_iff [OF assms] by blast
    with False show ?thesis by (auto simp: result_simps)
  qed
qed simp

lemma validate_relocation_iff:
  "validate_relocation t secs r = Inr () \<longleftrightarrow> wf_relocation t secs r"
  by (cases "reloc_encoding (rel_kind r) t")
     (auto simp: validate_relocation_def wf_relocation_def result_simps checked_simps
        not_le not_less split: if_splits)

lemma validate_diagnostic_wf: "validate_diagnostic obj = Inr () \<longleftrightarrow> wf_object obj"
proof -
  have secs: "foldR (\<lambda>x _. validate_section x) (enumerate 0 (obj_sections obj)) () = Inr ()
      \<longleftrightarrow> (\<forall>s\<in>set (obj_sections obj). wf_section s)"
    by (simp add: foldR_unit_Inr ball_enumerate validate_section_iff)
       (simp add: all_set_conv_all_nth)
  show ?thesis
  proof (cases "\<forall>s\<in>set (obj_sections obj). wf_section s")
    case True
    with secs validate_symbols_iff [OF True, of "obj_symbols obj" "{}"] show ?thesis
      by (auto simp: validate_diagnostic_def wf_object_def result_simps validate_relocation_iff)
  next
    case False
    with secs show ?thesis
      by (auto simp: validate_diagnostic_def wf_object_def result_simps)
  qed
qed

lemma wf_object_memory_size:
  "wf_object obj \<Longrightarrow> s \<in> set (obj_sections obj) \<Longrightarrow>
    \<exists>sz. memory_size s = Inr sz \<and> unat sz = section_extent s"
  using memory_size_wf by (auto simp: wf_object_def)

subsection \<open>Two small objects\<close>

text \<open>A program that calls an external routine, and the object that defines the routine (with
  a weak definition of the entry symbol, which the program's strong one overrides).  They
  serve as the concrete inputs of the instances below.\<close>

definition sample_main :: object_file where
  "sample_main =
     \<lparr>obj_target = elf64 X86_64,
      obj_sections =
        [\<lparr>sec_name = ''.text'', sec_kind = Text, sec_data = [0xE8, 0, 0, 0, 0, 0xC3],
          sec_zero_fill = 0, sec_align = 16\<rparr>,
         \<lparr>sec_name = ''.bss'', sec_kind = Bss, sec_data = [], sec_zero_fill = 40, sec_align = 8\<rparr>],
      obj_symbols =
        [\<lparr>sym_kind = NoType, sym_name = ''_start'', sym_section = Some 0, sym_value = 0,
          sym_size = 0, sym_binding = Global, sym_visibility = DefaultVis\<rparr>,
         \<lparr>sym_kind = NoType, sym_name = ''helper'', sym_section = None, sym_value = 0,
          sym_size = 0, sym_binding = Global, sym_visibility = DefaultVis\<rparr>],
      obj_relocations =
        [\<lparr>rel_section = 0, rel_offset = 1, rel_symbol = ''helper'', rel_addend = -4,
          rel_kind = PLT32\<rparr>]\<rparr>"

definition sample_helper :: object_file where
  "sample_helper =
     \<lparr>obj_target = elf64 X86_64,
      obj_sections =
        [\<lparr>sec_name = ''.text'', sec_kind = Text, sec_data = [0xC3], sec_zero_fill = 0,
          sec_align = 16\<rparr>],
      obj_symbols =
        [\<lparr>sym_kind = Function, sym_name = ''helper'', sym_section = Some 0, sym_value = 0,
          sym_size = 1, sym_binding = Global, sym_visibility = DefaultVis\<rparr>,
         \<lparr>sym_kind = NoType, sym_name = ''_start'', sym_section = Some 0, sym_value = 0,
          sym_size = 0, sym_binding = Weak, sym_visibility = DefaultVis\<rparr>],
      obj_relocations = []\<rparr>"

lemmas sample_defs = sample_main_def sample_helper_def

subsection \<open>Properties\<close>

text \<open>C1. Structural validation accepts an object exactly when it is well formed: a supported
  target, sections whose extent fits 64 bits, distinct symbol names, symbols that lie inside
  their section and relocations whose field lies inside the section's data.\<close>

theorem validate_accepts_exactly_wf: "validate_diagnostic obj = Inr () \<longleftrightarrow> wf_object obj"
  by (rule validate_diagnostic_wf)

end
