(* ===== verification/Alignment.thy ===== *)
theory Alignment
  imports Prelude
begin

text \<open>
  Rounding up to an alignment, as an interface.  The contract of an alignment function is the
  locale \<open>aligner\<close>: three functions of the sources implement it (the two of the linker and
  the one of the IR layout), each interpreted in its own theory.  Below it, the placement of
  a list of items on natural numbers, to which the placement loops are related.
\<close>

subsection \<open>The contract of an alignment function\<close>

text \<open>\<open>up v a\<close> rounds \<open>v\<close> up to alignment \<open>a\<close>; \<open>amount\<close> reads an
  alignment, \<open>valid\<close> says which alignments a caller may pass.\<close>

locale aligner =
  fixes up :: "u64 \<Rightarrow> 'a \<Rightarrow> 'e + u64"
    and amount :: "'a \<Rightarrow> nat"
    and valid :: "'a \<Rightarrow> bool"
  assumes amount_pos: "valid a \<Longrightarrow> 0 < amount a"
    and up_Inr: "valid a \<Longrightarrow> up v a = Inr r \<longleftrightarrow> unat r = ceil_to (unat v) (amount a)"
begin

lemma up_ge: "valid a \<Longrightarrow> up v a = Inr r \<Longrightarrow> unat v \<le> unat r"
  by (simp add: up_Inr ceil_to_ge amount_pos)

lemma up_dvd: "valid a \<Longrightarrow> up v a = Inr r \<Longrightarrow> amount a dvd unat r"
  by (simp add: up_Inr ceil_to_dvd)

lemma up_least:
  "valid a \<Longrightarrow> up v a = Inr r \<Longrightarrow> amount a dvd w \<Longrightarrow> unat v \<le> w \<Longrightarrow> unat r \<le> w"
  by (simp add: up_Inr ceil_to_least)

lemma up_fails: "valid a \<Longrightarrow> (\<exists>e. up v a = Inl e) \<longleftrightarrow> 2 ^ 64 \<le> ceil_to (unat v) (amount a)"
proof -
  assume v: "valid a"
  have "(\<exists>r. up v a = Inr r) \<longleftrightarrow> ceil_to (unat v) (amount a) < 2 ^ 64"
  proof
    assume "\<exists>r. up v a = Inr r"
    then obtain r :: u64 where "unat r = ceil_to (unat v) (amount a)" using v by (auto simp: up_Inr)
    then show "ceil_to (unat v) (amount a) < 2 ^ 64" using unsigned_less [of r, where 'a = nat] by simp
  next
    assume "ceil_to (unat v) (amount a) < 2 ^ 64"
    then have "unat (of_nat (ceil_to (unat v) (amount a)) :: u64) = ceil_to (unat v) (amount a)"
      by (simp only: unat_of_nat mod_less len_of_numeral_defs) simp
    then show "\<exists>r. up v a = Inr r" using v by (auto simp: up_Inr)
  qed
  then show ?thesis by (cases "up v a") auto
qed

end

subsection \<open>Placement on natural numbers\<close>

text \<open>The reference placement: each item has an alignment and, when it takes up space, the
  amount by which it advances the cursor.\<close>

definition ideal_step :: "nat \<Rightarrow> nat \<times> nat option \<Rightarrow> nat" where
  "ideal_step cur x = (case snd x of None \<Rightarrow> cur | Some n \<Rightarrow> ceil_to cur (fst x) + n)"

fun ideal_positions :: "nat \<Rightarrow> (nat \<times> nat option) list \<Rightarrow> nat list" where
  "ideal_positions cur [] = []"
| "ideal_positions cur (x # xs) = ceil_to cur (fst x) # ideal_positions (ideal_step cur x) xs"

fun ideal_end :: "nat \<Rightarrow> (nat \<times> nat option) list \<Rightarrow> nat" where
  "ideal_end cur [] = cur"
| "ideal_end cur (x # xs) = ideal_end (ideal_step cur x) xs"

lemma ideal_end_append [simp]: "ideal_end cur (xs @ ys) = ideal_end (ideal_end cur xs) ys"
  by (induction xs arbitrary: cur) auto

lemma ideal_positions_append [simp]:
  "ideal_positions cur (xs @ ys) = ideal_positions cur xs @ ideal_positions (ideal_end cur xs) ys"
  by (induction xs arbitrary: cur) auto

lemma length_ideal_positions [simp]: "length (ideal_positions cur xs) = length xs"
  by (induction xs arbitrary: cur) auto

lemma ideal_step_ge: "0 < fst x \<Longrightarrow> cur \<le> ideal_step cur x"
  using ceil_to_ge [of "fst x" cur] by (auto simp: ideal_step_def split: option.split)

lemma ideal_end_ge: "\<forall>x\<in>set xs. 0 < fst x \<Longrightarrow> cur \<le> ideal_end cur xs"
  by (induction xs arbitrary: cur) (auto intro: order_trans [OF ideal_step_ge])

lemma ideal_positions_ge:
  "\<forall>x\<in>set xs. 0 < fst x \<Longrightarrow> p \<in> set (ideal_positions cur xs) \<Longrightarrow> cur \<le> p"
  by (induction xs arbitrary: cur)
     (auto simp: ceil_to_ge intro: order_trans [OF ideal_step_ge])

lemma ideal_positions_dvd: "i < length xs \<Longrightarrow> fst (xs ! i) dvd ideal_positions cur xs ! i"
  by (induction xs arbitrary: cur i) (auto simp: nth_Cons ceil_to_dvd split: nat.split)

lemma ideal_positions_end:
  assumes "\<forall>x\<in>set xs. 0 < fst x" "i < length xs" "snd (xs ! i) = Some n"
  shows "ideal_positions cur xs ! i + n \<le> ideal_end cur xs"
  using assms
proof (induction xs arbitrary: cur i)
  case (Cons x xs)
  then show ?case
    using ideal_end_ge [of xs "ideal_step cur x"]
    by (cases i) (auto simp: ideal_step_def split: option.splits)
qed simp

lemma ideal_positions_disjoint:
  assumes "\<forall>x\<in>set xs. 0 < fst x" "i < j" "j < length xs" "snd (xs ! i) = Some n"
  shows "ideal_positions cur xs ! i + n \<le> ideal_positions cur xs ! j"
  using assms
proof (induction xs arbitrary: cur i j)
  case (Cons x xs)
  from Cons.prems obtain k where k: "j = Suc k" "k < length xs" by (cases j) auto
  then have "ideal_step cur x \<le> ideal_positions (ideal_step cur x) xs ! k"
    using Cons.prems by (intro ideal_positions_ge [of xs]) auto
  with Cons k show ?case
    by (cases i) (auto simp: ideal_step_def split: option.splits)
qed simp

end
