(* ===== verification/LinkLayout.thy ===== *)
theory LinkLayout
  imports ObjectModel Alignment
begin

text \<open>
  Section placement, \<open>linker/src/core/layout.rs\<close>.  The
  loop of \<open>Layout::compute\<close> keeps its cursors as machine words; the properties relate
  it to the reference placement of \<open>Alignment\<close>.
\<close>

subsection \<open>Placement\<close>

definition align_up :: "u64 \<Rightarrow> u64 \<Rightarrow> u64 option" where
  "align_up v a = checked_add v (padding v a)"

record section_placement =
  pl_object :: usize
  pl_section :: usize
  pl_kind :: section_kind
  pl_align :: u64
  pl_file_offset :: u64
  pl_memory_address :: u64
  pl_file_size :: u64
  pl_memory_size :: u64

record layout =
  lay_offsets :: "u64 list list"
  lay_sizes :: "u64 list"
  lay_sections :: "section_placement list"
  lay_base :: u64
  lay_file_size :: u64
  lay_memory_size :: u64

datatype layout_error =
    LayoutTarget usize target_error
  | LayoutAlignment usize usize
  | LayoutMemorySize memory_size_error
  | MemoryAlignOverflow usize usize
  | MemoryOverflow usize usize
  | FileAlignOverflow usize usize
  | FileOverflow usize usize

text \<open>One turn of the inner loop.  The state is the layout under construction, the end of
  the placed memory and the addresses of this object's sections so far.\<close>

definition place_section ::
  "usize \<Rightarrow> usize \<times> obj_section \<Rightarrow> layout \<times> u64 \<times> u64 list
     \<Rightarrow> layout_error + layout \<times> u64 \<times> u64 list" where
  "place_section oi = (\<lambda>(si, sec) (lay, memory_end, offsets).
     let align = max (sec_align sec) 1 in
     if \<not> is_power_of_two align then Inl (LayoutAlignment oi si)
     else rbind (map_err LayoutMemorySize (memory_size sec)) (\<lambda>msize.
          let fsize = file_size sec in
          rbind (ok_or (align_up memory_end align) (MemoryAlignOverflow oi si)) (\<lambda>address.
          rbind (ok_or (checked_add address msize) (MemoryOverflow oi si)) (\<lambda>memory_end'.
          rbind (ok_or (align_up (lay_file_size lay) align) (FileAlignOverflow oi si)) (\<lambda>foffset.
          rbind (if sec_kind sec \<noteq> Bss
                 then ok_or (checked_add foffset fsize) (FileOverflow oi si)
                 else Inr (lay_file_size lay)) (\<lambda>fend.
          Inr (lay\<lparr>lay_file_size := fend,
                   lay_sizes := lay_sizes lay @ [msize],
                   lay_sections := lay_sections lay @
                     [\<lparr>pl_object = oi, pl_section = si, pl_kind = sec_kind sec,
                       pl_align = align, pl_file_offset = foffset,
                       pl_memory_address = address, pl_file_size = fsize,
                       pl_memory_size = msize\<rparr>]\<rparr>,
               memory_end', offsets @ [address])))))))"

definition place_object ::
  "usize \<times> object_file \<Rightarrow> layout \<times> u64 \<Rightarrow> layout_error + layout \<times> u64" where
  "place_object = (\<lambda>(oi, obj) (lay, memory_end).
     rbind (map_err (LayoutTarget oi) (validate_amd64 (obj_target obj))) (\<lambda>_.
     rbind (foldR (place_section oi) (enumerate 0 (obj_sections obj)) (lay, memory_end, []))
       (\<lambda>(lay', memory_end', offsets).
          Inr (lay'\<lparr>lay_offsets := lay_offsets lay' @ [offsets]\<rparr>, memory_end'))))"

definition compute_layout :: "object_file list \<Rightarrow> u64 \<Rightarrow> layout_error + layout" where
  "compute_layout objects base =
     rbind (foldR place_object (enumerate 0 objects)
              (\<lparr>lay_offsets = [], lay_sizes = [], lay_sections = [], lay_base = base,
                lay_file_size = 0, lay_memory_size = 0\<rparr>, base))
       (\<lambda>(lay, memory_end). Inr (lay\<lparr>lay_memory_size := memory_end - base\<rparr>))"

lemmas link_layout_defs [exec_simps] =
  align_up_def place_section_def place_object_def compute_layout_def

interpretation linker: aligner "\<lambda>v a. ok_or (align_up v a) e" unat is_power_of_two for e
  by unfold_locales (simp_all add: align_up_def result_simps align_simps is_power_of_two_pos)

subsection \<open>The loop computes the reference placement\<close>

type_synonym placed_item = "usize \<times> usize \<times> obj_section"

definition input_sections :: "object_file list \<Rightarrow> placed_item list" where
  "input_sections objects =
     concat (map (\<lambda>(oi, obj). map (\<lambda>(si, sec). (oi, si, sec)) (enumerate 0 (obj_sections obj)))
       (enumerate 0 objects))"

definition effective_align :: "obj_section \<Rightarrow> nat" where
  "effective_align sec = unat (max (sec_align sec) 1)"

definition memory_item :: "placed_item \<Rightarrow> nat \<times> nat option" where
  "memory_item = (\<lambda>(oi, si, sec). (effective_align sec, Some (section_extent sec)))"

definition file_item :: "placed_item \<Rightarrow> nat \<times> nat option" where
  "file_item = (\<lambda>(oi, si, sec).
     (effective_align sec, if sec_kind sec = Bss then None else Some (unat (file_size sec))))"

definition placement_of :: "section_placement \<Rightarrow> placed_item \<Rightarrow> bool" where
  "placement_of p = (\<lambda>(oi, si, sec).
     pl_object p = oi \<and> pl_section p = si \<and> pl_kind p = sec_kind sec \<and>
     unat (pl_align p) = effective_align sec \<and> pl_file_size p = file_size sec \<and>
     memory_size sec = Inr (pl_memory_size p))"

text \<open>The invariant after the sections \<open>xs\<close> have been placed.\<close>

definition placed :: "u64 \<Rightarrow> placed_item list \<Rightarrow> layout \<Rightarrow> u64 \<Rightarrow> bool" where
  "placed base xs lay memory_end \<longleftrightarrow>
     list_all2 placement_of (lay_sections lay) xs \<and>
     (\<forall>(oi, si, sec)\<in>set xs. is_power_of_two (max (sec_align sec) 1)) \<and>
     map (unat \<circ> pl_memory_address) (lay_sections lay) =
       ideal_positions (unat base) (map memory_item xs) \<and>
     unat memory_end = ideal_end (unat base) (map memory_item xs) \<and>
     map (unat \<circ> pl_file_offset) (lay_sections lay) = ideal_positions 0 (map file_item xs) \<and>
     unat (lay_file_size lay) = ideal_end 0 (map file_item xs) \<and>
     lay_sizes lay = map pl_memory_size (lay_sections lay)"

lemma align_up_Some:
  "is_power_of_two a \<Longrightarrow> align_up v a = Some r \<longleftrightarrow> unat r = ceil_to (unat v) (unat a)"
  by (simp add: align_up_def align_simps)

lemma place_sectionE:
  assumes "place_section oi (si, sec) (lay, me, offs) = Inr (lay', me', offs')"
  obtains p where
    "is_power_of_two (max (sec_align sec) 1)"
    "placement_of p (oi, si, sec)"
    "unat (pl_memory_address p) = ceil_to (unat me) (effective_align sec)"
    "unat me' = unat (pl_memory_address p) + section_extent sec"
    "unat (pl_file_offset p) = ceil_to (unat (lay_file_size lay)) (effective_align sec)"
    "unat (lay_file_size lay') =
       (if sec_kind sec = Bss then unat (lay_file_size lay)
        else unat (pl_file_offset p) + unat (file_size sec))"
    "lay_sections lay' = lay_sections lay @ [p]"
    "lay_sizes lay' = lay_sizes lay @ [pl_memory_size p]"
    "lay_offsets lay' = lay_offsets lay" "lay_base lay' = lay_base lay"
    "offs' = offs @ [pl_memory_address p]"
proof -
  let ?a = "max (sec_align sec) 1"
  have pow: "is_power_of_two ?a"
    using assms by (auto simp: place_section_def Let_def split: if_splits)
  from assms obtain msize address foffset fend where
    msize: "memory_size sec = Inr msize"
    and address: "align_up me ?a = Some address"
    and me': "checked_add address msize = Some me'"
    and foffset: "align_up (lay_file_size lay) ?a = Some foffset"
    and fend: "(if sec_kind sec \<noteq> Bss then ok_or (checked_add foffset (file_size sec)) (FileOverflow oi si)
        else Inr (lay_file_size lay)) = Inr fend"
    and lay': "lay' = lay\<lparr>lay_file_size := fend, lay_sizes := lay_sizes lay @ [msize],
      lay_sections := lay_sections lay @
        [\<lparr>pl_object = oi, pl_section = si, pl_kind = sec_kind sec, pl_align = ?a,
          pl_file_offset = foffset, pl_memory_address = address, pl_file_size = file_size sec,
          pl_memory_size = msize\<rparr>]\<rparr>"
    and offs': "offs' = offs @ [address]"
    by (auto simp: place_section_def Let_def pow rbind_eq_Inr map_err_eq_Inr ok_or_eq_Inr)
  let ?p = "\<lparr>pl_object = oi, pl_section = si, pl_kind = sec_kind sec, pl_align = ?a,
          pl_file_offset = foffset, pl_memory_address = address, pl_file_size = file_size sec,
          pl_memory_size = msize\<rparr>"
  have "unat address = ceil_to (unat me) (effective_align sec)"
    using address align_up_Some [OF pow] by (simp add: effective_align_def)
  moreover have "unat foffset = ceil_to (unat (lay_file_size lay)) (effective_align sec)"
    using foffset align_up_Some [OF pow] by (simp add: effective_align_def)
  moreover have "unat me' = unat address + section_extent sec"
    using me' memory_size_extent [OF msize] by (simp add: checked_simps)
  moreover have "unat fend = (if sec_kind sec = Bss then unat (lay_file_size lay)
        else unat foffset + unat (file_size sec))"
    using fend by (auto simp: result_simps checked_simps split: if_splits)
  ultimately show thesis
    using that [of ?p] pow msize lay' offs' by (simp add: placement_of_def effective_align_def)
qed

lemma place_section_placed:
  assumes "place_section oi (si, sec) (lay, me, offs) = Inr (lay', me', offs')"
    and "placed base xs lay me"
  shows "placed base (xs @ [(oi, si, sec)]) lay' me'"
  using assms(1)
proof (rule place_sectionE)
  fix p
  assume p: "is_power_of_two (max (sec_align sec) 1)" "placement_of p (oi, si, sec)"
    "unat (pl_memory_address p) = ceil_to (unat me) (effective_align sec)"
    "unat me' = unat (pl_memory_address p) + section_extent sec"
    "unat (pl_file_offset p) = ceil_to (unat (lay_file_size lay)) (effective_align sec)"
    "unat (lay_file_size lay') =
       (if sec_kind sec = Bss then unat (lay_file_size lay)
        else unat (pl_file_offset p) + unat (file_size sec))"
    "lay_sections lay' = lay_sections lay @ [p]"
    "lay_sizes lay' = lay_sizes lay @ [pl_memory_size p]"
  then show ?thesis
    using assms(2)
    by (simp add: placed_def list_all2_appendI memory_item_def file_item_def ideal_step_def)
qed

lemma place_sections_placed:
  assumes "foldR (place_section oi) (enumerate n secs) (lay, me, offs) = Inr (lay', me', offs')"
    and "placed base xs lay me"
  shows "placed base (xs @ map (\<lambda>(si, sec). (oi, si, sec)) (enumerate n secs)) lay' me'
    \<and> lay_offsets lay' = lay_offsets lay \<and> lay_base lay' = lay_base lay
    \<and> (\<exists>ps. lay_sections lay' = lay_sections lay @ ps \<and> length ps = length secs
          \<and> offs' = offs @ map pl_memory_address ps)"
  using assms
proof (induction secs arbitrary: n lay me offs xs)
  case (Cons sec secs)
  from Cons.prems(1) obtain lay1 me1 offs1 where
    first: "place_section oi (n, sec) (lay, me, offs) = Inr (lay1, me1, offs1)"
    and rest: "foldR (place_section oi) (enumerate (Suc n) secs) (lay1, me1, offs1)
      = Inr (lay', me', offs')"
    by (auto simp: result_simps)
  from first obtain p where p: "lay_sections lay1 = lay_sections lay @ [p]"
    "lay_offsets lay1 = lay_offsets lay" "lay_base lay1 = lay_base lay"
    "offs1 = offs @ [pl_memory_address p]"
    by (rule place_sectionE) blast
  from Cons.IH [OF rest place_section_placed [OF first Cons.prems(2)]]
  obtain ps where "placed base (xs @ (oi, n, sec) # map (\<lambda>(si, sec). (oi, si, sec))
        (enumerate (Suc n) secs)) lay' me'"
    "lay_offsets lay' = lay_offsets lay1" "lay_base lay' = lay_base lay1"
    "lay_sections lay' = lay_sections lay1 @ ps" "length ps = length secs"
    "offs' = offs1 @ map pl_memory_address ps"
    by auto
  with p show ?case by (auto intro!: exI [of _ "p # ps"])
qed simp

text \<open>The address table of a layout lists the addresses of the placements, object by object.\<close>

definition table_matches :: "object_file list \<Rightarrow> layout \<Rightarrow> bool" where
  "table_matches objects lay \<longleftrightarrow>
     concat (lay_offsets lay) = map pl_memory_address (lay_sections lay) \<and>
     map length (lay_offsets lay) = map (length \<circ> obj_sections) objects"

lemma place_objects_placed:
  assumes "foldR place_object (enumerate n objs) (lay, me) = Inr (lay', me')"
    and "placed base xs lay me" "table_matches done_objs lay"
  shows "placed base (xs @ concat (map (\<lambda>(oi, obj). map (\<lambda>(si, sec). (oi, si, sec))
        (enumerate 0 (obj_sections obj))) (enumerate n objs))) lay' me'
    \<and> table_matches (done_objs @ objs) lay' \<and> lay_base lay' = lay_base lay
    \<and> (\<forall>obj\<in>set objs. obj_target obj = elf64 X86_64)"
  using assms
proof (induction objs arbitrary: n lay me xs done_objs)
  case (Cons obj objs)
  from Cons.prems(1) obtain lay1 me1 offs where
    tgt: "obj_target obj = elf64 X86_64" and
    inner: "foldR (place_section n) (enumerate 0 (obj_sections obj)) (lay, me, [])
      = Inr (lay1, me1, offs)"
    and rest: "foldR place_object (enumerate (Suc n) objs)
      (lay1\<lparr>lay_offsets := lay_offsets lay1 @ [offs]\<rparr>, me1) = Inr (lay', me')"
    by (auto simp: place_object_def result_simps)
  let ?lay = "lay1\<lparr>lay_offsets := lay_offsets lay1 @ [offs]\<rparr>"
  let ?ys = "map (\<lambda>(si, sec). (n, si, sec)) (enumerate 0 (obj_sections obj))"
  from place_sections_placed [OF inner Cons.prems(2)] obtain ps where
    pl: "placed base (xs @ ?ys) lay1 me1"
    and lay1: "lay_offsets lay1 = lay_offsets lay" "lay_base lay1 = lay_base lay"
      "lay_sections lay1 = lay_sections lay @ ps"
      "length ps = length (obj_sections obj)" "offs = map pl_memory_address ps"
    by auto
  from pl have A: "placed base (xs @ ?ys) ?lay me1" by (simp add: placed_def)
  from lay1 Cons.prems(3) have B: "table_matches (done_objs @ [obj]) ?lay"
    by (simp add: table_matches_def)
  from Cons.IH [OF rest A B] tgt lay1 show ?case by simp
qed simp

lemma compute_layout_placed:
  assumes "compute_layout objects base = Inr lay"
  shows "\<exists>me. placed base (input_sections objects) lay me \<and> table_matches objects lay \<and>
     lay_memory_size lay = me - base \<and> lay_base lay = base \<and>
     (\<forall>obj\<in>set objects. obj_target obj = elf64 X86_64)"
proof -
  let ?init = "\<lparr>lay_offsets = [], lay_sizes = [], lay_sections = [], lay_base = base,
                lay_file_size = 0, lay_memory_size = 0\<rparr>"
  from assms obtain lay1 me where run: "foldR place_object (enumerate 0 objects) (?init, base)
      = Inr (lay1, me)" and lay: "lay = lay1\<lparr>lay_memory_size := me - base\<rparr>"
    by (auto simp: compute_layout_def result_simps)
  have "placed base [] ?init base" "table_matches [] ?init"
    by (simp_all add: placed_def table_matches_def)
  from place_objects_placed [OF run this] lay show ?thesis
    by (auto simp: placed_def table_matches_def input_sections_def)
qed

lemma placed_nth:
  assumes "placed base xs lay me" "i < length (lay_sections lay)"
  shows "i < length xs" "placement_of (lay_sections lay ! i) (xs ! i)"
    and "unat (pl_memory_address (lay_sections lay ! i)) =
      ideal_positions (unat base) (map memory_item xs) ! i"
    and "unat (pl_file_offset (lay_sections lay ! i)) = ideal_positions 0 (map file_item xs) ! i"
  using assms
  by (auto simp: placed_def list_all2_conv_all_nth dest!: arg_cong [where f = "\<lambda>zs. zs ! i"])

lemma placed_aligns:
  assumes "placed base xs lay me"
  shows "\<forall>x\<in>set (map memory_item xs). 0 < fst x" "\<forall>x\<in>set (map file_item xs). 0 < fst x"
  using assms
  by (auto simp: placed_def memory_item_def file_item_def effective_align_def
      dest!: is_power_of_two_pos)

lemma placement_items:
  assumes "placement_of p x"
  shows "memory_item x = (unat (pl_align p), Some (unat (pl_memory_size p)))"
    and "file_item x =
      (unat (pl_align p), if pl_kind p = Bss then None else Some (unat (pl_file_size p)))"
  using assms memory_size_extent
  by (auto simp: placement_of_def memory_item_def file_item_def split: prod.splits)

lemma placed_separate:
  assumes pl: "placed base xs lay me" and i: "i < length (lay_sections lay)"
  defines "p \<equiv> lay_sections lay ! i"
  shows "unat (pl_align p) dvd unat (pl_memory_address p)"
    and "unat base \<le> unat (pl_memory_address p)"
    and "unat (pl_memory_address p) + unat (pl_memory_size p) \<le> unat me"
    and "unat (pl_align p) dvd unat (pl_file_offset p)"
    and "pl_kind p \<noteq> Bss \<Longrightarrow>
      unat (pl_file_offset p) + unat (pl_file_size p) \<le> unat (lay_file_size lay)"
    and "i < j \<Longrightarrow> j < length (lay_sections lay) \<Longrightarrow>
      unat (pl_memory_address p) + unat (pl_memory_size p)
        \<le> unat (pl_memory_address (lay_sections lay ! j))"
    and "i < j \<Longrightarrow> j < length (lay_sections lay) \<Longrightarrow> pl_kind p \<noteq> Bss \<Longrightarrow>
      unat (pl_file_offset p) + unat (pl_file_size p)
        \<le> unat (pl_file_offset (lay_sections lay ! j))"
proof -
  note n = placed_nth [OF pl i, folded p_def]
  note items = placement_items [OF n(2)]
  note pos = placed_aligns [OF pl]
  have ends: "unat me = ideal_end (unat base) (map memory_item xs)"
    "unat (lay_file_size lay) = ideal_end 0 (map file_item xs)"
    using pl by (simp_all add: placed_def)
  show "unat (pl_align p) dvd unat (pl_memory_address p)"
    using ideal_positions_dvd [of i "map memory_item xs"] n items by simp
  show "unat base \<le> unat (pl_memory_address p)"
    using ideal_positions_ge [OF pos(1)] n by simp
  show "unat (pl_memory_address p) + unat (pl_memory_size p) \<le> unat me"
    using ideal_positions_end [OF pos(1)] n items ends by simp
  show "unat (pl_align p) dvd unat (pl_file_offset p)"
    using ideal_positions_dvd [of i "map file_item xs"] n items by simp
  show "unat (pl_file_offset p) + unat (pl_file_size p) \<le> unat (lay_file_size lay)"
    if "pl_kind p \<noteq> Bss"
    using ideal_positions_end [OF pos(2)] n items ends that by simp
  assume j: "i < j" "j < length (lay_sections lay)"
  note m = placed_nth [OF pl j(2)]
  show "unat (pl_memory_address p) + unat (pl_memory_size p)
        \<le> unat (pl_memory_address (lay_sections lay ! j))"
    using ideal_positions_disjoint [OF pos(1) j(1)] n m items by simp
  show "unat (pl_file_offset p) + unat (pl_file_size p)
        \<le> unat (pl_file_offset (lay_sections lay ! j))" if "pl_kind p \<noteq> Bss"
    using ideal_positions_disjoint [OF pos(2) j(1)] n m items that by simp
qed

lemma layout_end:
  assumes "placed base xs lay me" "lay_memory_size lay = me - base"
  shows "unat base + unat (lay_memory_size lay) = unat me"
proof -
  have "unat base \<le> unat me"
    using assms(1) ideal_end_ge [OF placed_aligns(1) [OF assms(1)]] by (simp add: placed_def)
  then show ?thesis using assms(2) by (simp add: word_le_nat_alt unat_sub)
qed

text \<open>The layout of the two sample objects.\<close>

definition sample_layout :: layout where
  "sample_layout =
   \<lparr>lay_offsets = [[0x400000, 0x400008], [0x400030]], lay_sizes = [6, 40, 1],
    lay_sections =
     [\<lparr>pl_object = 0, pl_section = 0, pl_kind = Text, pl_align = 16, pl_file_offset = 0,
       pl_memory_address = 0x400000, pl_file_size = 6, pl_memory_size = 6\<rparr>,
      \<lparr>pl_object = 0, pl_section = 1, pl_kind = Bss, pl_align = 8, pl_file_offset = 8,
       pl_memory_address = 0x400008, pl_file_size = 0, pl_memory_size = 40\<rparr>,
      \<lparr>pl_object = 1, pl_section = 0, pl_kind = Text, pl_align = 16, pl_file_offset = 16,
       pl_memory_address = 0x400030, pl_file_size = 1, pl_memory_size = 1\<rparr>],
    lay_base = 0x400000, lay_file_size = 17, lay_memory_size = 49\<rparr>"

lemma compute_sample: "compute_layout [sample_main, sample_helper] 0x400000 = Inr sample_layout"
  by (simp add: sample_defs sample_layout_def exec_simps Let_def max_def word_le_nat_alt)

subsection \<open>Properties\<close>

text \<open>C5. A successful layout is the reference placement: one placement per input section, in
  input order, at the positions that rounding up and adding sizes on natural numbers gives,
  in memory from the base address and in the file from zero; the address table lists the
  same addresses object by object.\<close>

theorem layout_refines_reference:
  assumes "compute_layout objects base = Inr lay"
  shows "list_all2 placement_of (lay_sections lay) (input_sections objects) \<and>
    map (unat \<circ> pl_memory_address) (lay_sections lay) =
      ideal_positions (unat base) (map memory_item (input_sections objects)) \<and>
    unat base + unat (lay_memory_size lay) =
      ideal_end (unat base) (map memory_item (input_sections objects)) \<and>
    map (unat \<circ> pl_file_offset) (lay_sections lay) =
      ideal_positions 0 (map file_item (input_sections objects)) \<and>
    unat (lay_file_size lay) = ideal_end 0 (map file_item (input_sections objects)) \<and>
    concat (lay_offsets lay) = map pl_memory_address (lay_sections lay) \<and>
    map length (lay_offsets lay) = map (length \<circ> obj_sections) objects"
proof -
  from compute_layout_placed [OF assms] obtain me where
    "placed base (input_sections objects) lay me" "table_matches objects lay"
    "lay_memory_size lay = me - base" by blast
  then show ?thesis using layout_end by (simp add: placed_def table_matches_def)
qed

theorem layout_refines_reference_witness:
  "compute_layout [sample_main, sample_helper] 0x400000 = Inr sample_layout \<and>
   map (unat \<circ> pl_memory_address) (lay_sections sample_layout) =
     ideal_positions 0x400000 (map memory_item (input_sections [sample_main, sample_helper]))"
  using compute_sample layout_refines_reference [OF compute_sample] by simp



end
