(* ===== verification/LinkSymbols.thy ===== *)
theory LinkSymbols
  imports ObjectModel
begin

text \<open>
  Symbol resolution, \<open>linker/src/core/symbol_table.rs\<close>.  The hash maps of the source are
  partial functions; they are only looked up and updated, never iterated.  The properties
  state which definition every name is bound to (one strong definition wins over any number
  of weak ones, the first weak one otherwise), when duplicates are rejected, and that every
  relocation has exactly one resolved target.
\<close>

datatype symbol_key = GlobalKey string | LocalKey usize string

record resolved_symbol =
  rs_name :: string
  rs_object :: "usize option"
  rs_section :: "usize option"
  rs_value :: u64
  rs_size :: u64
  rs_binding :: symbol_binding
  rs_kind :: symbol_kind
  rs_visibility :: symbol_visibility

record resolved_reference =
  rr_object :: usize
  rr_section :: usize
  rr_offset :: usize
  rr_target :: symbol_key
  rr_weak_undefined :: bool

record symbol_table =
  st_symbols :: "symbol_key \<rightharpoonup> resolved_symbol"
  st_references :: "resolved_reference list"

definition symbol_table_new :: symbol_table where
  "symbol_table_new = \<lparr>st_symbols = Map.empty, st_references = []\<rparr>"

datatype symbol_error =
    SymbolTarget usize target_error
  | SymbolInput usize object_error
  | DuplicateLocal usize string
  | DuplicateGlobal string "usize option" usize
  | UnresolvedStrong string usize usize usize

definition symbol_key_of :: "usize \<Rightarrow> object_symbol \<Rightarrow> symbol_key" where
  "symbol_key_of oi s =
     (if sym_binding s = Local then LocalKey oi (sym_name s) else GlobalKey (sym_name s))"

definition resolved_of :: "usize \<Rightarrow> object_symbol \<Rightarrow> resolved_symbol" where
  "resolved_of oi s =
     \<lparr>rs_name = sym_name s, rs_object = Some oi, rs_section = sym_section s,
      rs_value = sym_value s, rs_size = sym_size s, rs_binding = sym_binding s,
      rs_kind = sym_kind s, rs_visibility = sym_visibility s\<rparr>"

text \<open>One turn of the definition loop.\<close>

definition define_symbol ::
  "usize \<Rightarrow> object_symbol \<Rightarrow> (symbol_key \<rightharpoonup> resolved_symbol)
     \<Rightarrow> symbol_error + (symbol_key \<rightharpoonup> resolved_symbol)" where
  "define_symbol oi s m =
     (let k = symbol_key_of oi s; entry = m(k \<mapsto> resolved_of oi s) in
      case m k of
        None \<Rightarrow> Inr entry
      | Some existing \<Rightarrow>
          if sym_binding s = Local then Inl (DuplicateLocal oi (sym_name s))
          else case (rs_binding existing, sym_binding s) of
              (Global, Global) \<Rightarrow> Inl (DuplicateGlobal (sym_name s) (rs_object existing) oi)
            | (Global, Weak) \<Rightarrow> Inr m
            | (Weak, Weak) \<Rightarrow> Inr m
            | _ \<Rightarrow> Inr entry)"

definition define_symbols ::
  "object_file list \<Rightarrow> symbol_error + (symbol_key \<rightharpoonup> resolved_symbol)" where
  "define_symbols objects =
     foldR (\<lambda>(oi, obj). foldR (define_symbol oi)
                            (filter (\<lambda>s. sym_section s \<noteq> None) (obj_symbols obj)))
       (enumerate 0 objects) Map.empty"

text \<open>The declarations of one object by name; a later one replaces an earlier one.\<close>

definition declarations :: "object_file \<Rightarrow> string \<rightharpoonup> object_symbol" where
  "declarations obj = map_of (rev (map (\<lambda>s. (sym_name s, s)) (obj_symbols obj)))"

definition reference_key :: "usize \<Rightarrow> object_file \<Rightarrow> string \<Rightarrow> symbol_key" where
  "reference_key oi obj nm =
     (case declarations obj nm of
        Some d \<Rightarrow> if sym_binding d = Local then LocalKey oi nm else GlobalKey nm
      | None \<Rightarrow> GlobalKey nm)"

definition declared_weak :: "object_file \<Rightarrow> string \<Rightarrow> bool" where
  "declared_weak obj nm =
     (case declarations obj nm of Some d \<Rightarrow> sym_binding d = Weak | None \<Rightarrow> False)"

definition undefined_symbol :: "string \<Rightarrow> object_symbol \<Rightarrow> resolved_symbol" where
  "undefined_symbol nm d =
     \<lparr>rs_name = nm, rs_object = None, rs_section = None, rs_value = 0, rs_size = 0,
      rs_binding = Weak, rs_kind = sym_kind d, rs_visibility = sym_visibility d\<rparr>"

type_synonym reference_state =
  "resolved_reference list \<times> (symbol_key \<rightharpoonup> resolved_symbol)"

definition resolve_reference ::
  "(symbol_key \<rightharpoonup> resolved_symbol) \<Rightarrow> usize \<Rightarrow> object_file \<Rightarrow> object_relocation
     \<Rightarrow> reference_state \<Rightarrow> symbol_error + reference_state" where
  "resolve_reference symbols oi obj r = (\<lambda>(refs, weak_undefined).
     let key = reference_key oi obj (rel_symbol r);
         missing = (symbols key = None);
         weak = declared_weak obj (rel_symbol r)
     in if missing \<and> \<not> weak
        then Inl (UnresolvedStrong (rel_symbol r) oi (rel_section r) (rel_offset r))
        else Inr
          (refs @ [\<lparr>rr_object = oi, rr_section = rel_section r, rr_offset = rel_offset r,
                    rr_target = key, rr_weak_undefined = missing\<rparr>],
           if missing \<and> weak_undefined key = None
           then (case declarations obj (rel_symbol r) of
                   Some d \<Rightarrow> weak_undefined(key \<mapsto> undefined_symbol (rel_symbol r) d)
                 | None \<Rightarrow> weak_undefined)
           else weak_undefined))"

definition resolve_references ::
  "(symbol_key \<rightharpoonup> resolved_symbol) \<Rightarrow> object_file list \<Rightarrow> symbol_error + reference_state" where
  "resolve_references symbols objects =
     foldR (\<lambda>(oi, obj). foldR (resolve_reference symbols oi obj) (obj_relocations obj))
       (enumerate 0 objects) ([], Map.empty)"

definition validate_link_input :: "usize \<times> object_file \<Rightarrow> symbol_error + unit" where
  "validate_link_input = (\<lambda>(i, obj).
     rbind (map_err (SymbolTarget i) (validate_amd64 (obj_target obj))) (\<lambda>_.
     map_err (SymbolInput i) (validate_diagnostic obj)))"

definition resolve_symbols :: "object_file list \<Rightarrow> symbol_error + symbol_table" where
  "resolve_symbols objects =
     rbind (foldR (\<lambda>x _. validate_link_input x) (enumerate 0 objects) ()) (\<lambda>_.
     rbind (define_symbols objects) (\<lambda>symbols.
     rbind (resolve_references symbols objects) (\<lambda>(refs, weak_undefined).
     Inr \<lparr>st_symbols = symbols ++ weak_undefined, st_references = refs\<rparr>)))"

text \<open>The method itself clears the table first, so a failed call leaves it empty.\<close>

definition resolve :: "symbol_table \<Rightarrow> object_file list \<Rightarrow> symbol_table \<times> (symbol_error + unit)" where
  "resolve st objects =
     (case resolve_symbols objects of
        Inl e \<Rightarrow> (symbol_table_new, Inl e)
      | Inr t \<Rightarrow> (t, Inr ()))"

lemmas link_symbols_defs [exec_simps] =
  symbol_key_of_def resolved_of_def define_symbol_def define_symbols_def declarations_def
  reference_key_def declared_weak_def undefined_symbol_def resolve_reference_def
  resolve_references_def validate_link_input_def resolve_symbols_def

subsection \<open>Which definition wins\<close>

text \<open>All definitions of the link in input order, and the reference choice among those that
  share a key: the strong one, else the first.\<close>

definition link_definitions :: "object_file list \<Rightarrow> (usize \<times> object_symbol) list" where
  "link_definitions objects =
     concat (map (\<lambda>(oi, obj). map (Pair oi) (filter (\<lambda>s. sym_section s \<noteq> None) (obj_symbols obj)))
       (enumerate 0 objects))"

definition key_definitions :: "object_file list \<Rightarrow> symbol_key \<Rightarrow> (usize \<times> object_symbol) list" where
  "key_definitions objects k = filter (\<lambda>(oi, s). symbol_key_of oi s = k) (link_definitions objects)"

definition strong :: "usize \<times> object_symbol \<Rightarrow> bool" where
  "strong d \<longleftrightarrow> sym_binding (snd d) \<noteq> Weak"

definition preferred :: "(usize \<times> object_symbol) list \<Rightarrow> (usize \<times> object_symbol) option" where
  "preferred ds = (case filter strong ds of
      d # _ \<Rightarrow> Some d
    | [] \<Rightarrow> (case ds of d # _ \<Rightarrow> Some d | [] \<Rightarrow> None))"

definition table_of :: "(usize \<times> object_symbol) list \<Rightarrow> symbol_key \<rightharpoonup> resolved_symbol" where
  "table_of ds k =
     map_option (\<lambda>(oi, s). resolved_of oi s)
       (preferred (filter (\<lambda>(oi, s). symbol_key_of oi s = k) ds))"

lemma foldR_concat: "foldR (foldR f) xss s = foldR f (concat xss) s"
  by (induction xss arbitrary: s) (auto simp: foldR_append rbind_def split: sum.splits)

lemma foldR_map: "foldR f (map g xs) s = foldR (\<lambda>x. f (g x)) xs s"
  by (induction xs arbitrary: s) (auto simp: rbind_def split: sum.splits)

lemma define_symbols_flat:
  "define_symbols objects = foldR (\<lambda>(oi, s). define_symbol oi s) (link_definitions objects) Map.empty"
proof -
  have "foldR (\<lambda>(oi, s). define_symbol oi s) (concat (map (\<lambda>(oi, obj).
          map (Pair oi) (filter (\<lambda>s. sym_section s \<noteq> None) (obj_symbols obj))) xs)) m =
        foldR (\<lambda>(oi, obj). foldR (define_symbol oi)
          (filter (\<lambda>s. sym_section s \<noteq> None) (obj_symbols obj))) xs m" for xs m
    by (induction xs arbitrary: m)
       (auto simp: foldR_append foldR_map rbind_def split: sum.splits)
  then show ?thesis unfolding define_symbols_def link_definitions_def by (rule sym)
qed

lemma preferred_snoc:
  "preferred (ds @ [d]) =
     (case preferred ds of
        None \<Rightarrow> Some d
      | Some e \<Rightarrow> if \<not> strong e \<and> strong d then Some d else Some e)"
proof (cases "filter strong ds")
  case Nil
  then have "\<forall>x\<in>set ds. \<not> strong x" by (simp add: filter_empty_conv)
  then show ?thesis using Nil by (cases ds) (auto simp: preferred_def)
next
  case (Cons e es)
  then have "strong e" by (metis filter_eq_ConsD)
  with Cons show ?thesis by (simp add: preferred_def)
qed

lemma preferred_eq_None [simp]: "preferred ds = None \<longleftrightarrow> ds = []"
  by (auto simp: preferred_def split: list.splits)

lemma preferred_mem: "preferred ds = Some d \<Longrightarrow> d \<in> set ds"
  by (auto simp: preferred_def dest!: filter_eq_ConsD split: list.splits)

lemma preferred_weak: "preferred ds = Some d \<Longrightarrow> strong d \<longleftrightarrow> filter strong ds \<noteq> []"
  by (auto simp: preferred_def filter_empty_conv dest!: filter_eq_ConsD split: list.splits)

text \<open>One definition added to a table that reflects the definitions seen so far.\<close>

lemma define_symbol_step:
  assumes "\<forall>k. length (filter strong (filter (\<lambda>(i, s). symbol_key_of i s = k) ds)) \<le> 1"
  shows "define_symbol oi s (table_of ds) = Inr m \<longleftrightarrow>
    (\<forall>k. length (filter strong (filter (\<lambda>(i, s). symbol_key_of i s = k) (ds @ [(oi, s)]))) \<le> 1)
    \<and> m = table_of (ds @ [(oi, s)])"
proof -
  let ?k = "symbol_key_of oi s"
  let ?ds = "filter (\<lambda>(i, s). symbol_key_of i s = ?k) ds"
  have other: "table_of (ds @ [(oi, s)]) k = table_of ds k" if "k \<noteq> ?k" for k
    using that by (simp add: table_of_def)
  have counts: "(\<forall>k. length (filter strong (filter (\<lambda>(i, s). symbol_key_of i s = k)
      (ds @ [(oi, s)]))) \<le> 1) \<longleftrightarrow> filter strong ?ds = [] \<or> \<not> strong (oi, s)"
    using assms by (auto simp: le_Suc_eq)
  have upd: "table_of (ds @ [(oi, s)]) = (table_of ds)(?k := table_of (ds @ [(oi, s)]) ?k)"
    using other by (auto simp: fun_eq_iff)
  show ?thesis
  proof (cases "preferred ?ds")
    case None
    then have "?ds = []" by simp
    then have "table_of (ds @ [(oi, s)]) ?k = Some (resolved_of oi s)"
      by (simp add: table_of_def preferred_def strong_def)
    then have "table_of (ds @ [(oi, s)]) = (table_of ds)(?k \<mapsto> resolved_of oi s)"
      using upd by simp
    moreover have "table_of ds ?k = None" using None by (simp add: table_of_def)
    ultimately show ?thesis using counts \<open>?ds = []\<close>
      by (auto simp: define_symbol_def Let_def)
  next
    case (Some d)
    obtain i t where d: "d = (i, t)" by (cases d)
    from preferred_mem [OF Some] d have key: "symbol_key_of i t = ?k" by auto
    have here: "table_of ds ?k = Some (resolved_of i t)" using Some d by (simp add: table_of_def)
    have after: "table_of (ds @ [(oi, s)]) ?k =
        Some (if \<not> strong d \<and> strong (oi, s) then resolved_of oi s else resolved_of i t)"
      using Some d by (simp add: table_of_def preferred_snoc)
    have loc: "sym_binding t = Local \<longleftrightarrow> sym_binding s = Local"
      using key by (auto simp: symbol_key_of_def split: if_splits)
    note cases = define_symbol_def Let_def here resolved_of_def strong_def d
    have clash: "\<exists>e. define_symbol oi s (table_of ds) = Inl e" if "strong d" "strong (oi, s)"
      using that loc by (cases "sym_binding t"; cases "sym_binding s") (simp_all add: cases)
    have keep: "define_symbol oi s (table_of ds) = Inr (table_of ds)" if "\<not> strong (oi, s)"
      using that loc by (cases "sym_binding t") (simp_all add: cases)
    have replace: "define_symbol oi s (table_of ds) = Inr ((table_of ds)(?k \<mapsto> resolved_of oi s))"
      if "\<not> strong d" "strong (oi, s)"
      using that loc by (cases "sym_binding s") (simp_all add: cases)
    consider "strong d" "strong (oi, s)" | "\<not> strong (oi, s)" | "\<not> strong d" "strong (oi, s)"
      by blast
    then show ?thesis
    proof cases
      case 1
      with clash counts preferred_weak [OF Some] show ?thesis by auto
    next
      case 2
      with upd after here have "table_of (ds @ [(oi, s)]) = table_of ds"
        by (auto simp: fun_eq_iff)
      with 2 keep counts show ?thesis by auto
    next
      case 3
      with upd after have "table_of (ds @ [(oi, s)]) = (table_of ds)(?k \<mapsto> resolved_of oi s)"
        by simp
      with 3 replace counts preferred_weak [OF Some] show ?thesis by auto
    qed
  qed
qed

lemma define_symbols_iff:
  "define_symbols objects = Inr m \<longleftrightarrow>
     (\<forall>k. length (filter strong (key_definitions objects k)) \<le> 1) \<and>
     m = table_of (link_definitions objects)"
proof -
  have "foldR (\<lambda>(oi, s). define_symbol oi s) ds Map.empty = Inr m \<longleftrightarrow>
      (\<forall>k. length (filter strong (filter (\<lambda>(i, s). symbol_key_of i s = k) ds)) \<le> 1) \<and>
      m = table_of ds" for ds m
  proof (induction ds arbitrary: m rule: rev_induct)
    case Nil
    show ?case by (auto simp: table_of_def fun_eq_iff preferred_def)
  next
    case (snoc d ds)
    obtain oi s where d: "d = (oi, s)" by (cases d)
    show ?case
    proof (cases "\<forall>k. length (filter strong (filter (\<lambda>(i, s). symbol_key_of i s = k) ds)) \<le> 1")
      case True
      then have "foldR (\<lambda>(oi, s). define_symbol oi s) ds Map.empty = Inr (table_of ds)"
        using snoc.IH by blast
      with define_symbol_step [OF True, of oi s m] show ?thesis
        by (simp add: foldR_append d result_simps)
    next
      case False
      then have "\<nexists>m. foldR (\<lambda>(oi, s). define_symbol oi s) ds Map.empty = Inr m"
        using snoc.IH by blast
      moreover from False obtain k where
        "1 < length (filter strong (filter (\<lambda>(i, s). symbol_key_of i s = k) ds))"
        by (auto simp: not_le)
      ultimately show ?thesis
        by (auto simp: foldR_append result_simps intro!: exI [of _ k])
    qed
  qed
  then show ?thesis by (simp add: define_symbols_flat key_definitions_def)
qed

subsection \<open>References\<close>

text \<open>All relocations of the link in input order, each with its object.\<close>

definition link_relocations :: "object_file list \<Rightarrow> (usize \<times> object_file \<times> object_relocation) list" where
  "link_relocations objects =
     concat (map (\<lambda>(oi, obj). map (\<lambda>r. (oi, obj, r)) (obj_relocations obj)) (enumerate 0 objects))"

definition reference_of ::
  "(symbol_key \<rightharpoonup> resolved_symbol) \<Rightarrow> usize \<times> object_file \<times> object_relocation
     \<Rightarrow> resolved_reference" where
  "reference_of symbols = (\<lambda>(oi, obj, r).
     \<lparr>rr_object = oi, rr_section = rel_section r, rr_offset = rel_offset r,
      rr_target = reference_key oi obj (rel_symbol r),
      rr_weak_undefined = (symbols (reference_key oi obj (rel_symbol r)) = None)\<rparr>)"

definition reference_satisfied ::
  "(symbol_key \<rightharpoonup> resolved_symbol) \<Rightarrow> usize \<times> object_file \<times> object_relocation \<Rightarrow> bool" where
  "reference_satisfied symbols = (\<lambda>(oi, obj, r).
     symbols (reference_key oi obj (rel_symbol r)) \<noteq> None \<or> declared_weak obj (rel_symbol r))"

lemma resolve_references_flat:
  "resolve_references symbols objects =
     foldR (\<lambda>(oi, obj, r). resolve_reference symbols oi obj r) (link_relocations objects)
       ([], Map.empty)"
proof -
  have "foldR (\<lambda>(oi, obj, r). resolve_reference symbols oi obj r)
          (concat (map (\<lambda>(oi, obj). map (\<lambda>r. (oi, obj, r)) (obj_relocations obj)) xs)) m =
        foldR (\<lambda>(oi, obj). foldR (resolve_reference symbols oi obj) (obj_relocations obj)) xs m"
    for xs m
    by (induction xs arbitrary: m)
       (auto simp: foldR_append foldR_map rbind_def split: sum.splits)
  then show ?thesis unfolding resolve_references_def link_relocations_def by (rule sym)
qed

lemma declared_weakE:
  assumes "declared_weak obj nm"
  obtains d where "declarations obj nm = Some d" "sym_binding d = Weak"
  using assms by (auto simp: declared_weak_def split: option.splits)

text \<open>Entries of the weak table are undefined symbols with value zero, under keys that have no
  definition; every missing reference is entered there.\<close>

definition weak_table_ok ::
  "(symbol_key \<rightharpoonup> resolved_symbol) \<Rightarrow> resolved_reference list \<Rightarrow>
     (symbol_key \<rightharpoonup> resolved_symbol) \<Rightarrow> bool" where
  "weak_table_ok symbols refs weak \<longleftrightarrow>
     (\<forall>k v. weak k = Some v \<longrightarrow> symbols k = None \<and> rs_object v = None \<and> rs_section v = None
        \<and> rs_value v = 0 \<and> rs_binding v = Weak) \<and>
     (\<forall>x\<in>set refs. rr_weak_undefined x \<longrightarrow> weak (rr_target x) \<noteq> None)"

lemma resolve_reference_Inr:
  assumes "resolve_reference symbols oi obj r (refs, weak) = Inr (refs', weak')"
  shows "reference_satisfied symbols (oi, obj, r)"
    and "refs' = refs @ [reference_of symbols (oi, obj, r)]"
    and "weak_table_ok symbols refs weak \<Longrightarrow> weak_table_ok symbols refs' weak'"
  using assms
  by (auto simp: resolve_reference_def Let_def reference_satisfied_def reference_of_def
      weak_table_ok_def undefined_symbol_def split: if_splits elim!: declared_weakE)

lemma resolve_references_Inr:
  assumes "foldR (\<lambda>(oi, obj, r). resolve_reference symbols oi obj r) xs (refs, weak)
    = Inr (refs', weak')"
  shows "(\<forall>x\<in>set xs. reference_satisfied symbols x) \<and>
    refs' = refs @ map (reference_of symbols) xs \<and>
    (weak_table_ok symbols refs weak \<longrightarrow> weak_table_ok symbols refs' weak')"
  using assms
proof (induction xs arbitrary: refs weak)
  case (Cons x xs)
  obtain oi obj r where x: "x = (oi, obj, r)" by (cases x) auto
  from Cons.prems obtain refs1 weak1 where
    first: "resolve_reference symbols oi obj r (refs, weak) = Inr (refs1, weak1)"
    and rest: "foldR (\<lambda>(oi, obj, r). resolve_reference symbols oi obj r) xs (refs1, weak1)
      = Inr (refs', weak')"
    by (auto simp: x result_simps)
  from resolve_reference_Inr [OF first] Cons.IH [OF rest] x show ?case by auto
qed simp

lemma resolve_references_ok:
  assumes "\<forall>x\<in>set xs. reference_satisfied symbols x"
  shows "is_ok (foldR (\<lambda>(oi, obj, r). resolve_reference symbols oi obj r) xs st)"
  using assms
proof (induction xs arbitrary: st)
  case (Cons x xs)
  obtain oi obj r where x: "x = (oi, obj, r)" by (cases x) auto
  have "\<exists>st'. resolve_reference symbols oi obj r st = Inr st'"
    using Cons.prems x
    by (cases st) (auto simp: resolve_reference_def Let_def reference_satisfied_def)
  with Cons x show ?case by auto
qed simp

lemma validate_link_inputs_iff:
  "foldR (\<lambda>x _. validate_link_input x) (enumerate n objects) () = Inr () \<longleftrightarrow>
     (\<forall>obj\<in>set objects. obj_target obj = elf64 X86_64 \<and> wf_object obj)"
  unfolding foldR_unit_Inr ball_enumerate
  by (simp add: validate_link_input_def result_simps validate_diagnostic_wf all_set_conv_all_nth)

text \<open>The complete behaviour of a resolution: when it succeeds, and with what.\<close>

definition resolvable :: "object_file list \<Rightarrow> bool" where
  "resolvable objects \<longleftrightarrow>
     (\<forall>obj\<in>set objects. obj_target obj = elf64 X86_64 \<and> wf_object obj) \<and>
     (\<forall>k. length (filter strong (key_definitions objects k)) \<le> 1) \<and>
     (\<forall>x\<in>set (link_relocations objects).
        reference_satisfied (table_of (link_definitions objects)) x)"

lemma resolve_symbols_Inr:
  assumes "resolve_symbols objects = Inr t"
  shows "resolvable objects"
    and "st_references t = map (reference_of (table_of (link_definitions objects)))
      (link_relocations objects)"
    and "\<exists>weak. st_symbols t = table_of (link_definitions objects) ++ weak \<and>
      weak_table_ok (table_of (link_definitions objects)) (st_references t) weak"
proof -
  from assms obtain symbols refs weak where
    v: "foldR (\<lambda>x _. validate_link_input x) (enumerate 0 objects) () = Inr ()"
    and d: "define_symbols objects = Inr symbols"
    and r: "resolve_references symbols objects = Inr (refs, weak)"
    and t: "t = \<lparr>st_symbols = symbols ++ weak, st_references = refs\<rparr>"
    by (auto simp: resolve_symbols_def result_simps)
  have sym: "symbols = table_of (link_definitions objects)"
    and strong: "\<forall>k. length (filter strong (key_definitions objects k)) \<le> 1"
    using d by (simp_all add: define_symbols_iff)
  have "weak_table_ok symbols [] Map.empty" by (simp add: weak_table_ok_def)
  with resolve_references_Inr [OF r [unfolded resolve_references_flat]]
  have refs: "\<forall>x\<in>set (link_relocations objects). reference_satisfied symbols x"
    "refs = map (reference_of symbols) (link_relocations objects)"
    "weak_table_ok symbols refs weak"
    by auto
  show "resolvable objects"
    using v strong refs(1) by (auto simp: resolvable_def validate_link_inputs_iff sym)
  show "st_references t = map (reference_of (table_of (link_definitions objects)))
      (link_relocations objects)" using refs t sym by simp
  show "\<exists>weak. st_symbols t = table_of (link_definitions objects) ++ weak \<and>
      weak_table_ok (table_of (link_definitions objects)) (st_references t) weak"
    using refs t sym by auto
qed

lemma resolve_symbols_ok: "is_ok (resolve_symbols objects) \<longleftrightarrow> resolvable objects"
proof
  assume "is_ok (resolve_symbols objects)"
  then show "resolvable objects" using resolve_symbols_Inr(1) by (auto simp: is_ok_iff)
next
  assume r: "resolvable objects"
  then have v: "foldR (\<lambda>x _. validate_link_input x) (enumerate 0 objects) () = Inr ()"
    by (auto simp: resolvable_def validate_link_inputs_iff)
  have d: "define_symbols objects = Inr (table_of (link_definitions objects))"
    using r by (simp add: define_symbols_iff resolvable_def)
  obtain st where "resolve_references (table_of (link_definitions objects)) objects = Inr st"
    using r resolve_references_ok [of "link_relocations objects"
      "table_of (link_definitions objects)" "([], Map.empty)"]
    by (auto simp: resolvable_def resolve_references_flat is_ok_iff)
  with v d show "is_ok (resolve_symbols objects)"
    by (cases st) (simp add: resolve_symbols_def)
qed

lemma resolve_table:
  assumes t: "resolve_symbols objects = Inr t" and d: "key_definitions objects k \<noteq> []"
  shows "st_symbols t k =
    map_option (\<lambda>(oi, s). resolved_of oi s) (preferred (key_definitions objects k))"
proof -
  from resolve_symbols_Inr(3) [OF t] obtain weak where
    w: "st_symbols t = table_of (link_definitions objects) ++ weak"
    "weak_table_ok (table_of (link_definitions objects)) (st_references t) weak" by blast
  have T: "table_of (link_definitions objects) k =
      map_option (\<lambda>(oi, s). resolved_of oi s) (preferred (key_definitions objects k))"
    by (simp add: table_of_def key_definitions_def)
  then have "table_of (link_definitions objects) k \<noteq> None" using d by simp
  with w have "weak k = None" unfolding weak_table_ok_def by (metis option.exhaust)
  with w(1) T show ?thesis by (simp add: map_add_def)
qed

lemma reference_bound:
  assumes t: "resolve_symbols objects = Inr t" and ref: "ref \<in> set (st_references t)"
  shows "\<exists>s. st_symbols t (rr_target ref) = Some s \<and>
    (if rr_weak_undefined ref then rs_object s = None \<and> rs_section s = None \<and> rs_value s = 0
     else \<exists>(oi, d)\<in>set (key_definitions objects (rr_target ref)). s = resolved_of oi d)"
proof -
  let ?T = "table_of (link_definitions objects)"
  from resolve_symbols_Inr(3) [OF t] obtain weak where w: "st_symbols t = ?T ++ weak"
    "weak_table_ok ?T (st_references t) weak" by blast
  obtain x where x: "ref = reference_of ?T x"
    using resolve_symbols_Inr(2) [OF t] ref by auto
  then have missing: "rr_weak_undefined ref \<longleftrightarrow> ?T (rr_target ref) = None"
    by (cases x) (auto simp: reference_of_def)
  show ?thesis
  proof (cases "rr_weak_undefined ref")
    case True
    with w ref obtain v where "weak (rr_target ref) = Some v" by (auto simp: weak_table_ok_def)
    with w True show ?thesis by (auto simp: weak_table_ok_def map_add_def)
  next
    case False
    then have "preferred (key_definitions objects (rr_target ref)) \<noteq> None"
      using missing by (simp add: table_of_def key_definitions_def del: not_None_eq)
    then obtain oi d where p: "preferred (key_definitions objects (rr_target ref)) = Some (oi, d)"
      by (metis option.exhaust surj_pair)
    then have "key_definitions objects (rr_target ref) \<noteq> []"
      by (metis option.distinct(1) preferred_eq_None)
    with resolve_table [OF t this] p preferred_mem [OF p] False show ?thesis by auto
  qed
qed

subsection \<open>Properties\<close>

text \<open>C7. Resolution succeeds exactly when every input is a well-formed AMD64 object, no name has
  two strong definitions, and every relocation names a defined symbol or a weak declaration.\<close>

theorem resolution_succeeds_iff: "is_ok (resolve_symbols objects) \<longleftrightarrow> resolvable objects"
  by (rule resolve_symbols_ok)

text \<open>After a successful resolution a defined name is bound to its only strong definition
  or, when it has none, to the first weak one in input order.\<close>

theorem strong_definition_wins:
  assumes "resolve_symbols objects = Inr t" and "key_definitions objects k = ds" and "ds \<noteq> []"
  shows "\<exists>oi s. st_symbols t k = Some (resolved_of oi s) \<and> (oi, s) \<in> set ds \<and>
    (if \<exists>d\<in>set ds. strong d then filter strong ds = [(oi, s)] else (oi, s) = hd ds)"
proof -
  have one: "length (filter strong ds) \<le> 1"
    using resolve_symbols_Inr(1) [OF assms(1)] assms(2) by (auto simp: resolvable_def)
  obtain oi s where p: "preferred ds = Some (oi, s)"
    using assms(3) by (metis preferred_eq_None option.exhaust surj_pair)
  have "st_symbols t k = Some (resolved_of oi s)"
    using resolve_table [OF assms(1), of k] assms(2,3) p by simp
  moreover have "if \<exists>d\<in>set ds. strong d then filter strong ds = [(oi, s)] else (oi, s) = hd ds"
  proof (cases "filter strong ds")
    case Nil
    with p assms(3) show ?thesis
      by (auto simp: preferred_def filter_empty_conv split: list.splits)
  next
    case (Cons d es)
    with one p have "filter strong ds = [(oi, s)]" by (simp add: preferred_def)
    moreover from Cons have "\<exists>d\<in>set ds. strong d" by (metis filter_False list.distinct(1))
    ultimately show ?thesis by simp
  qed
  ultimately show ?thesis using preferred_mem [OF p] by blast
qed

lemma resolve_sample: "\<exists>t. resolve_symbols [sample_main, sample_helper] = Inr t"
  by (simp add: sample_defs exec_simps Let_def)

lemma sample_start_definitions:
  "key_definitions [sample_main, sample_helper] (GlobalKey ''_start'') =
     [(0, obj_symbols sample_main ! 0), (1, obj_symbols sample_helper ! 1)]"
  by (simp add: key_definitions_def link_definitions_def sample_defs symbol_key_of_def)

theorem strong_definition_wins_witness:
  "\<exists>t. resolve_symbols [sample_main, sample_helper] = Inr t \<and>
     st_symbols t (GlobalKey ''_start'') = Some (resolved_of 0 (obj_symbols sample_main ! 0))"
proof -
  obtain t where t: "resolve_symbols [sample_main, sample_helper] = Inr t"
    using resolve_sample by blast
  from strong_definition_wins [OF t sample_start_definitions] t show ?thesis
    by (auto simp: sample_defs strong_def)
qed

text \<open>Every relocation has exactly one resolved reference, in input order, whose target is
  in the table: a definition of that name, or the zero entry of an undefined weak symbol.\<close>

theorem references_are_bound:
  assumes "resolve_symbols objects = Inr t"
  shows "map (\<lambda>ref. (rr_object ref, rr_section ref, rr_offset ref)) (st_references t) =
      map (\<lambda>(oi, obj, r). (oi, rel_section r, rel_offset r)) (link_relocations objects) \<and>
    (\<forall>ref\<in>set (st_references t). \<exists>s. st_symbols t (rr_target ref) = Some s \<and>
       (if rr_weak_undefined ref then rs_object s = None \<and> rs_section s = None \<and> rs_value s = 0
        else \<exists>(oi, d)\<in>set (key_definitions objects (rr_target ref)). s = resolved_of oi d))"
  using reference_bound [OF assms] resolve_symbols_Inr(2) [OF assms]
  by (auto simp: reference_of_def)

theorem references_are_bound_witness:
  "\<exists>t. resolve_symbols [sample_main, sample_helper] = Inr t \<and>
     map (\<lambda>ref. (rr_object ref, rr_section ref, rr_offset ref)) (st_references t) = [(0, 0, 1)]"
proof -
  obtain t where t: "resolve_symbols [sample_main, sample_helper] = Inr t"
    using resolve_sample by blast
  from references_are_bound [OF t] t show ?thesis
    by (auto simp: link_relocations_def sample_defs)
qed

end
