(* ===== verification/OrderedMap.thy ===== *)
theory OrderedMap
  imports Prelude "HOL-Library.Product_Lexorder"
begin

text \<open>
  The part of the standard library's \<open>BTreeMap\<close> that the sources use: insertion, the
  greatest entry not above a key (\<open>range(..=key).next_back()\<close>) and the least entry not
  below it (\<open>range(key..).next()\<close>).  The documented contract is the locale
  \<open>ordered_map\<close>; the client lemma about intervals is proved from the contract alone, and
  the model, a list sorted by key, is interpreted at the end.
\<close>

locale ordered_map =
  fixes entries :: "'m \<Rightarrow> ('k::linorder \<times> 'v) set"
    and invar :: "'m \<Rightarrow> bool"
    and put :: "'k \<Rightarrow> 'v \<Rightarrow> 'm \<Rightarrow> 'm"
    and last_le :: "'k \<Rightarrow> 'm \<Rightarrow> ('k \<times> 'v) option"
    and first_ge :: "'k \<Rightarrow> 'm \<Rightarrow> ('k \<times> 'v) option"
  assumes functional: "invar m \<Longrightarrow> (k, v) \<in> entries m \<Longrightarrow> (k, w) \<in> entries m \<Longrightarrow> v = w"
    and put_invar: "invar m \<Longrightarrow> invar (put k v m)"
    and put_entries: "invar m \<Longrightarrow> entries (put k v m) = {x \<in> entries m. fst x \<noteq> k} \<union> {(k, v)}"
    and last_le_None: "invar m \<Longrightarrow> last_le k m = None \<longleftrightarrow> (\<forall>x\<in>entries m. \<not> fst x \<le> k)"
    and last_le_Some: "invar m \<Longrightarrow> last_le k m = Some x \<Longrightarrow>
      x \<in> entries m \<and> fst x \<le> k \<and> (\<forall>y\<in>entries m. fst y \<le> k \<longrightarrow> fst y \<le> fst x)"
    and first_ge_None: "invar m \<Longrightarrow> first_ge k m = None \<longleftrightarrow> (\<forall>x\<in>entries m. \<not> k \<le> fst x)"
    and first_ge_Some: "invar m \<Longrightarrow> first_ge k m = Some x \<Longrightarrow>
      x \<in> entries m \<and> k \<le> fst x \<and> (\<forall>y\<in>entries m. k \<le> fst y \<longrightarrow> fst x \<le> fst y)"

text \<open>Half-open intervals \<open>start..end\<close> inside cells \<open>(object, section)\<close>, stored under
  their start.\<close>

locale interval_map = ordered_map entries invar put last_le first_ge
  for entries :: "'m \<Rightarrow> ((nat \<times> nat \<times> nat) \<times> nat) set"
    and invar put last_le first_ge
begin

definition separated :: "'m \<Rightarrow> bool" where
  "separated m \<longleftrightarrow>
     (\<forall>oi si a e. ((oi, si, a), e) \<in> entries m \<longrightarrow> a < e \<and>
       (\<forall>b f. ((oi, si, b), f) \<in> entries m \<longrightarrow> a < b \<longrightarrow> e \<le> b))"

definition neighbours_clear :: "'m \<Rightarrow> nat \<Rightarrow> nat \<Rightarrow> nat \<Rightarrow> nat \<Rightarrow> bool" where
  "neighbours_clear m oi si off stop \<longleftrightarrow>
     \<not> (case last_le (oi, si, off) m of
           Some ((o', s', _), e) \<Rightarrow> o' = oi \<and> s' = si \<and> off < e | None \<Rightarrow> False) \<and>
     \<not> (case first_ge (oi, si, off) m of
           Some ((o', s', start), _) \<Rightarrow> o' = oi \<and> s' = si \<and> start < stop | None \<Rightarrow> False)"

text \<open>Looking at the two neighbours is enough.\<close>

lemma neighbours_clear_iff:
  assumes m: "invar m" "separated m" and "off < stop"
  shows "neighbours_clear m oi si off stop \<longleftrightarrow>
    (\<forall>a e. ((oi, si, a), e) \<in> entries m \<longrightarrow> e \<le> off \<or> stop \<le> a)"
proof
  assume clear: "neighbours_clear m oi si off stop"
  show "\<forall>a e. ((oi, si, a), e) \<in> entries m \<longrightarrow> e \<le> off \<or> stop \<le> a"
  proof (intro allI impI)
    fix a e
    assume x: "((oi, si, a), e) \<in> entries m"
    show "e \<le> off \<or> stop \<le> a"
    proof (cases "a \<le> off")
      case True
      then have "fst ((oi, si, a), e) \<le> (oi, si, off)" by (simp add: less_eq_prod_def)
      with x have "last_le (oi, si, off) m \<noteq> None" unfolding last_le_None [OF m(1)] by blast
      then obtain o' s' b f where l: "last_le (oi, si, off) m = Some ((o', s', b), f)" by auto
      from last_le_Some [OF m(1) l] x True
      have ge: "((o', s', b), f) \<in> entries m" "(o', s', b) \<le> (oi, si, off)" "(oi, si, a) \<le> (o', s', b)"
        by auto
      then have cell: "o' = oi" "s' = si" "a \<le> b" "b \<le> off"
        by (auto simp: less_eq_prod_def)
      then have "f \<le> off" using clear l by (auto simp: neighbours_clear_def)
      moreover have "e \<le> b" if "a < b"
        using m(2) x ge(1) that cell unfolding separated_def by blast
      moreover have "e = f" if "a = b"
        using functional [OF m(1), of "(oi, si, a)" e f] x ge(1) that cell by auto
      ultimately show ?thesis using cell(3,4) by (cases "a = b") auto
    next
      case False
      then have "(oi, si, off) \<le> fst ((oi, si, a), e)" by (simp add: less_eq_prod_def)
      with x have "first_ge (oi, si, off) m \<noteq> None" unfolding first_ge_None [OF m(1)] by blast
      then obtain o' s' b f where l: "first_ge (oi, si, off) m = Some ((o', s', b), f)" by auto
      from first_ge_Some [OF m(1) l] x False
      have "(oi, si, off) \<le> (o', s', b)" "(o', s', b) \<le> (oi, si, a)" by auto
      then have "o' = oi" "s' = si" "b \<le> a" by (auto simp: less_eq_prod_def)
      with clear l show ?thesis by (auto simp: neighbours_clear_def)
    qed
  qed
next
  assume free: "\<forall>a e. ((oi, si, a), e) \<in> entries m \<longrightarrow> e \<le> off \<or> stop \<le> a"
  have "\<not> off < e" if "last_le (oi, si, off) m = Some ((oi, si, a), e)" for a e
    using last_le_Some [OF m(1) that] free \<open>off < stop\<close> by (fastforce simp: less_eq_prod_def)
  moreover have "\<not> a < stop" if "first_ge (oi, si, off) m = Some ((oi, si, a), e)" for a e
  proof -
    from first_ge_Some [OF m(1) that] have "((oi, si, a), e) \<in> entries m" "off \<le> a"
      by (auto simp: less_eq_prod_def)
    moreover from this m(2) have "a < e" by (auto simp: separated_def)
    ultimately show ?thesis using free by fastforce
  qed
  ultimately show "neighbours_clear m oi si off stop"
    by (auto simp: neighbours_clear_def split: option.splits)
qed

lemma separated_put:
  assumes "invar m" "separated m" "off < stop" "neighbours_clear m oi si off stop"
  shows "separated (put (oi, si, off) stop m)"
  using assms neighbours_clear_iff [OF assms(1-3), of oi si]
  by (fastforce simp: separated_def put_entries)

end

subsection \<open>The model\<close>

fun bt_insert :: "'k::linorder \<Rightarrow> 'v \<Rightarrow> ('k \<times> 'v) list \<Rightarrow> ('k \<times> 'v) list" where
  "bt_insert k v [] = [(k, v)]"
| "bt_insert k v ((j, w) # m) =
     (if k < j then (k, v) # (j, w) # m
      else if k = j then (k, v) # m
      else (j, w) # bt_insert k v m)"

definition bt_last_le :: "'k::linorder \<Rightarrow> ('k \<times> 'v) list \<Rightarrow> ('k \<times> 'v) option" where
  "bt_last_le k m = (case rev (filter (\<lambda>x. fst x \<le> k) m) of [] \<Rightarrow> None | x # _ \<Rightarrow> Some x)"

definition bt_first_ge :: "'k::linorder \<Rightarrow> ('k \<times> 'v) list \<Rightarrow> ('k \<times> 'v) option" where
  "bt_first_ge k m = (case filter (\<lambda>x. k \<le> fst x) m of [] \<Rightarrow> None | x # _ \<Rightarrow> Some x)"

definition bt_sorted :: "('k::linorder \<times> 'v) list \<Rightarrow> bool" where
  "bt_sorted m \<longleftrightarrow> sorted_wrt (\<lambda>x y. fst x < fst y) m"

declare bt_last_le_def [exec_simps] bt_first_ge_def [exec_simps]

lemma set_bt_insert:
  "bt_sorted m \<Longrightarrow> set (bt_insert k v m) = {x \<in> set m. fst x \<noteq> k} \<union> {(k, v)}"
proof (induction k v m rule: bt_insert.induct)
  case (2 k v j w m)
  then have s: "bt_sorted m" "\<forall>x\<in>set m. j < fst x" by (auto simp: bt_sorted_def)
  consider "k < j" | "k = j" | "j < k" by (rule linorder_cases)
  then show ?case
  proof cases
    case 1
    with s show ?thesis by (auto dest: less_trans)
  next
    case 2
    with s show ?thesis by auto
  next
    case 3
    with "2.IH" s show ?thesis by auto
  qed
qed simp

lemma bt_sorted_insert: "bt_sorted m \<Longrightarrow> bt_sorted (bt_insert k v m)"
proof (induction k v m rule: bt_insert.induct)
  case (2 k v j w m)
  then have "bt_sorted m" by (simp add: bt_sorted_def)
  with 2 set_bt_insert [OF this, of k v] show ?case
    by (fastforce simp: bt_sorted_def)
qed (simp add: bt_sorted_def)

lemma bt_sorted_filter: "bt_sorted m \<Longrightarrow> bt_sorted (filter P m)"
  by (simp add: bt_sorted_def sorted_wrt_filter)

lemma bt_sorted_head: "bt_sorted (x # m) \<Longrightarrow> y \<in> set (x # m) \<Longrightarrow> fst x \<le> fst y"
  by (auto simp: bt_sorted_def)

lemma bt_sorted_last: "bt_sorted m \<Longrightarrow> rev m = x # ys \<Longrightarrow> y \<in> set m \<Longrightarrow> fst y \<le> fst x"
  by (metis (no_types, lifting) bt_sorted_def in_set_conv_decomp less_imp_le order_refl rev_rev_ident
      rev.simps(2) set_ConsD set_rev sorted_wrt_append list.set_intros(1))

lemma bt_last_le_Some:
  assumes "bt_sorted m" "bt_last_le k m = Some x"
  shows "x \<in> set m \<and> fst x \<le> k \<and> (\<forall>y\<in>set m. fst y \<le> k \<longrightarrow> fst y \<le> fst x)"
proof -
  from assms(2) obtain ys where ys: "rev (filter (\<lambda>x. fst x \<le> k) m) = x # ys"
    by (auto simp: bt_last_le_def split: list.splits)
  then have "x \<in> set (filter (\<lambda>x. fst x \<le> k) m)" by (metis list.set_intros(1) set_rev)
  with bt_sorted_last [OF bt_sorted_filter [OF assms(1)] ys] show ?thesis by auto
qed

lemma bt_first_ge_Some:
  assumes "bt_sorted m" "bt_first_ge k m = Some x"
  shows "x \<in> set m \<and> k \<le> fst x \<and> (\<forall>y\<in>set m. k \<le> fst y \<longrightarrow> fst x \<le> fst y)"
proof -
  from assms(2) obtain ys where ys: "filter (\<lambda>x. k \<le> fst x) m = x # ys"
    by (auto simp: bt_first_ge_def split: list.splits)
  then have "x \<in> set (filter (\<lambda>x. k \<le> fst x) m)" by (metis list.set_intros(1))
  moreover have "fst x \<le> fst y" if "y \<in> set m" "k \<le> fst y" for y
  proof (rule bt_sorted_head)
    show "bt_sorted (x # ys)" using bt_sorted_filter [OF assms(1)] by (metis ys)
    show "y \<in> set (x # ys)" using that by (simp flip: ys)
  qed
  ultimately show ?thesis by auto
qed

interpretation btree: ordered_map set bt_sorted bt_insert bt_last_le bt_first_ge
proof
  show "v = w" if "bt_sorted m" "(k, v) \<in> set m" "(k, w) \<in> set m"
    for m :: "('a \<times> 'b) list" and k v w
    using that by (induction m) (auto simp: bt_sorted_def)
  show "bt_last_le k m = None \<longleftrightarrow> (\<forall>x\<in>set m. \<not> fst x \<le> k)" for k and m :: "('a \<times> 'b) list"
  proof -
    have "bt_last_le k m = None \<longleftrightarrow> filter (\<lambda>x. fst x \<le> k) m = []"
      by (auto simp: bt_last_le_def split: list.split)
    then show ?thesis by (simp add: filter_empty_conv)
  qed
  show "bt_first_ge k m = None \<longleftrightarrow> (\<forall>x\<in>set m. \<not> k \<le> fst x)" for k and m :: "('a \<times> 'b) list"
  proof -
    have "bt_first_ge k m = None \<longleftrightarrow> filter (\<lambda>x. k \<le> fst x) m = []"
      by (auto simp: bt_first_ge_def split: list.split)
    then show ?thesis by (simp add: filter_empty_conv)
  qed
qed (fact bt_sorted_insert set_bt_insert bt_last_le_Some bt_first_ge_Some)+

interpretation patch_map: interval_map set bt_sorted bt_insert bt_last_le bt_first_ge
  by unfold_locales

end
