(* ===== verification/LinkRelocation.thy ===== *)
theory LinkRelocation
  imports LinkLayout LinkSymbols OrderedMap
begin

text \<open>
  Application of relocations, \<open>linker/src/core/relocation.rs\<close>.  Addresses are 64-bit
  words; the relocation value is computed in \<open>i128\<close>, where it cannot overflow, and is an
  integer here.  Indexing that would panic in the source is the error kind
  \<open>RelocPanic\<close>, which the properties show to be unreachable.
\<close>

datatype relocation_error_kind =
    RelocInvalidInput | RelocResolution | RelocLayout | RelocUnsupported
  | RelocRange | RelocOverlap | RelocLimit | RelocPanic

record relocation_error =
  re_kind :: relocation_error_kind
  re_object :: "usize option"
  re_section :: "usize option"
  re_offset :: "usize option"

definition reloc_error :: "relocation_error_kind \<Rightarrow> relocation_error" where
  "reloc_error k = \<lparr>re_kind = k, re_object = None, re_section = None, re_offset = None\<rparr>"

subsection \<open>The budget loop\<close>

definition check_placement ::
  "layout \<Rightarrow> u64 \<Rightarrow> usize \<Rightarrow> usize \<times> obj_section \<Rightarrow> u64 \<Rightarrow> relocation_error + u64" where
  "check_placement lay max_bytes oi = (\<lambda>(si, sec) total.
     rbind (ok_or (Option.bind (get (lay_offsets lay) oi) (\<lambda>x. get x si)) (reloc_error RelocLayout))
       (\<lambda>address.
     rbind (map_err (\<lambda>_. reloc_error RelocInvalidInput) (memory_size sec)) (\<lambda>sz.
     rbind (ok_or (checked_add address sz) (reloc_error RelocLayout)) (\<lambda>_.
     case checked_add total (len64 (sec_data sec)) of
       Some n \<Rightarrow> if n \<le> max_bytes then Inr n else Inl (reloc_error RelocLimit)
     | None \<Rightarrow> Inl (reloc_error RelocLimit)))))"

definition check_placements ::
  "object_file list \<Rightarrow> layout \<Rightarrow> u64 \<Rightarrow> relocation_error + u64" where
  "check_placements objects lay max_bytes =
     foldR (\<lambda>(oi, obj). foldR (check_placement lay max_bytes oi) (enumerate 0 (obj_sections obj)))
       (enumerate 0 objects) 0"

subsection \<open>Values and patches\<close>

record patch =
  pt_object :: usize
  pt_section :: usize
  pt_offset :: usize
  pt_bytes :: "u8 list"

definition symbol_address ::
  "layout \<Rightarrow> resolved_reference \<Rightarrow> resolved_symbol \<Rightarrow> relocation_error + u64" where
  "symbol_address lay ref s =
     (case (rs_object s, rs_section s) of
        (Some owner, Some section) \<Rightarrow>
          ok_or (Option.bind (Option.bind (get (lay_offsets lay) owner) (\<lambda>x. get x section))
                   (\<lambda>base. checked_add base (rs_value s)))
            (reloc_error RelocLayout)
      | (None, None) \<Rightarrow>
          if rr_weak_undefined ref then Inr 0 else Inl (reloc_error RelocUnsupported)
      | _ \<Rightarrow> Inl (reloc_error RelocUnsupported))"

definition relocation_value ::
  "reloc_kind \<Rightarrow> int \<Rightarrow> u64 \<Rightarrow> relocation_error + int \<times> nat" where
  "relocation_value k absolute place =
     (case k of
        Absolute64 \<Rightarrow> Inr (absolute, 8)
      | Absolute32 \<Rightarrow> Inr (absolute, 4)
      | SignedAbsolute32 \<Rightarrow> Inr (absolute, 4)
      | Relative32 \<Rightarrow> Inr (absolute - uint place, 4)
      | PLT32 \<Rightarrow> Inr (absolute - uint place, 4)
      | Relative8 \<Rightarrow> Inr (absolute - uint place, 1)
      | _ \<Rightarrow> Inl (reloc_error RelocUnsupported))"

definition relocation_fits :: "reloc_kind \<Rightarrow> int \<Rightarrow> bool" where
  "relocation_fits k v =
     (case k of
        Absolute64 \<Rightarrow> 0 \<le> v \<and> v < 2 ^ 64
      | Absolute32 \<Rightarrow> 0 \<le> v \<and> v < 2 ^ 32
      | SignedAbsolute32 \<Rightarrow> - (2 ^ 31) \<le> v \<and> v < 2 ^ 31
      | Relative32 \<Rightarrow> - (2 ^ 31) \<le> v \<and> v < 2 ^ 31
      | PLT32 \<Rightarrow> - (2 ^ 31) \<le> v \<and> v < 2 ^ 31
      | Relative8 \<Rightarrow> - (2 ^ 7) \<le> v \<and> v < 2 ^ 7
      | _ \<Rightarrow> False)"

type_synonym occupied = "((usize \<times> usize \<times> usize) \<times> usize) list"

definition overlaps_neighbour :: "occupied \<Rightarrow> usize \<Rightarrow> usize \<Rightarrow> usize \<Rightarrow> usize \<Rightarrow> bool" where
  "overlaps_neighbour occ oi si off stop =
     ((case bt_last_le (oi, si, off) occ of
         Some ((o', s', _), e) \<Rightarrow> o' = oi \<and> s' = si \<and> off < e | None \<Rightarrow> False) \<or>
      (case bt_first_ge (oi, si, off) occ of
         Some ((o', s', start), _) \<Rightarrow> o' = oi \<and> s' = si \<and> start < stop | None \<Rightarrow> False))"

text \<open>The closure of the source: one relocation, its reference and the intervals already
  taken, to the patch and the extended intervals.\<close>

definition make_patch ::
  "object_file list \<Rightarrow> layout \<Rightarrow> symbol_table \<Rightarrow> object_relocation \<Rightarrow> resolved_reference
     \<Rightarrow> occupied \<Rightarrow> relocation_error + patch \<times> occupied" where
  "make_patch objects lay symbols r ref occ =
     (let oi = rr_object ref; si = rr_section ref in
      rbind (ok_or (st_symbols symbols (rr_target ref)) (reloc_error RelocPanic)) (\<lambda>s.
      rbind (symbol_address lay ref s) (\<lambda>target.
      rbind (ok_or (Option.bind (get (lay_offsets lay) oi) (\<lambda>x. get x si)) (reloc_error RelocPanic))
        (\<lambda>base.
      rbind (ok_or (checked_add base (of_nat (rel_offset r))) (reloc_error RelocLayout)) (\<lambda>place.
      rbind (relocation_value (rel_kind r) (uint target + rel_addend r) place) (\<lambda>(value, width).
      rbind (ensure (relocation_fits (rel_kind r) value) (reloc_error RelocRange)) (\<lambda>_.
      rbind (ok_or (Option.bind (get objects oi) (\<lambda>obj. get (obj_sections obj) si))
              (reloc_error RelocPanic)) (\<lambda>sec.
      rbind (ok_or (usize_add (rel_offset r) width) (reloc_error RelocRange)) (\<lambda>stop.
      rbind (ensure (stop \<le> length (sec_data sec)) (reloc_error RelocRange)) (\<lambda>_.
      rbind (ensure (\<not> overlaps_neighbour occ oi si (rel_offset r) stop) (reloc_error RelocOverlap))
        (\<lambda>_.
      Inr (\<lparr>pt_object = oi, pt_section = si, pt_offset = rel_offset r,
            pt_bytes = take width (to_le_bytes 8 (word_of_int value :: u64))\<rparr>,
           bt_insert (oi, si, rel_offset r) stop occ))))))))))))"

definition locate_error :: "resolved_reference \<Rightarrow> relocation_error \<Rightarrow> relocation_error" where
  "locate_error ref e =
     e\<lparr>re_object := Some (rr_object ref), re_section := Some (rr_section ref),
       re_offset := Some (rr_offset ref)\<rparr>"

definition collect_patch ::
  "object_file list \<Rightarrow> layout \<Rightarrow> symbol_table \<Rightarrow> object_relocation \<times> resolved_reference
     \<Rightarrow> patch list \<times> occupied \<Rightarrow> relocation_error + patch list \<times> occupied" where
  "collect_patch objects lay symbols = (\<lambda>(r, ref) (patches, occ).
     rbind (map_err (locate_error ref) (make_patch objects lay symbols r ref occ))
       (\<lambda>(p, occ'). Inr (patches @ [p], occ')))"

definition write_patch :: "u8 list list list \<Rightarrow> patch \<Rightarrow> u8 list list list" where
  "write_patch payloads p =
     payloads[pt_object p := (payloads ! pt_object p)
       [pt_section p := overwrite (payloads ! pt_object p ! pt_section p) (pt_offset p) (pt_bytes p)]]"

definition apply_relocations ::
  "object_file list \<Rightarrow> layout \<Rightarrow> u64 \<Rightarrow> relocation_error + u8 list list list" where
  "apply_relocations objects lay max_bytes =
     rbind (map_err (\<lambda>_. reloc_error RelocResolution) (resolve_symbols objects)) (\<lambda>symbols.
     rbind (check_placements objects lay max_bytes) (\<lambda>_.
     rbind (foldR (collect_patch objects lay symbols)
              (zip (concat (map obj_relocations objects)) (st_references symbols)) ([], []))
       (\<lambda>(patches, _).
     Inr (foldl write_patch (map (map sec_data \<circ> obj_sections) objects) patches))))"

lemmas link_relocation_defs [exec_simps] =
  check_placement_def check_placements_def symbol_address_def relocation_value_def
  relocation_fits_def overlaps_neighbour_def make_patch_def collect_patch_def write_patch_def
  apply_relocations_def

subsection \<open>Patches that do not overlap\<close>

definition touches :: "patch \<Rightarrow> usize \<Rightarrow> usize \<Rightarrow> usize \<Rightarrow> bool" where
  "touches p oi si k \<longleftrightarrow> pt_object p = oi \<and> pt_section p = si \<and>
     pt_offset p \<le> k \<and> k < pt_offset p + length (pt_bytes p)"

definition patch_fits :: "u8 list list list \<Rightarrow> patch \<Rightarrow> bool" where
  "patch_fits payloads p \<longleftrightarrow> pt_object p < length payloads \<and>
     pt_section p < length (payloads ! pt_object p) \<and>
     pt_offset p + length (pt_bytes p) \<le> length (payloads ! pt_object p ! pt_section p)"

definition same_shape :: "u8 list list list \<Rightarrow> u8 list list list \<Rightarrow> bool" where
  "same_shape xs ys \<longleftrightarrow> map (map length) xs = map (map length) ys"

lemma map_length_nth:
  "map f xs = map g ys \<Longrightarrow> i < length ys \<Longrightarrow> f (xs ! i) = g (ys ! i)"
  by (metis length_map nth_map)

lemma same_shape_nth:
  assumes "same_shape xs ys"
  shows "length xs = length ys"
    and "oi < length ys \<Longrightarrow> length (xs ! oi) = length (ys ! oi)"
    and "oi < length ys \<Longrightarrow> si < length (ys ! oi) \<Longrightarrow> length (xs ! oi ! si) = length (ys ! oi ! si)"
proof -
  note s = assms [unfolded same_shape_def]
  show "length xs = length ys" using map_eq_imp_length_eq [OF s] .
  assume oi: "oi < length ys"
  note m = map_length_nth [OF s oi]
  show "length (xs ! oi) = length (ys ! oi)" using map_eq_imp_length_eq [OF m] .
  show "si < length (ys ! oi) \<Longrightarrow> length (xs ! oi ! si) = length (ys ! oi ! si)"
    using map_length_nth [OF m] .
qed

lemma same_shape_fits: "same_shape xs ys \<Longrightarrow> patch_fits ys p \<Longrightarrow> patch_fits xs p"
  using same_shape_nth(1) [of xs ys] same_shape_nth(2) [of xs ys "pt_object p"]
    same_shape_nth(3) [of xs ys "pt_object p" "pt_section p"]
  unfolding patch_fits_def by presburger

lemma write_patch_shape: "patch_fits xs p \<Longrightarrow> same_shape (write_patch xs p) xs"
  by (auto simp: same_shape_def write_patch_def patch_fits_def map_update
      list_update_same_conv intro!: nth_equalityI simp: nth_list_update)

lemma write_patch_nth:
  assumes "patch_fits xs p" "oi < length xs" "si < length (xs ! oi)" "k < length (xs ! oi ! si)"
  shows "write_patch xs p ! oi ! si ! k =
    (if touches p oi si k then pt_bytes p ! (k - pt_offset p) else xs ! oi ! si ! k)"
  using assms
  by (auto simp: write_patch_def patch_fits_def touches_def nth_list_update nth_overwrite)

lemma write_patches_shape:
  "\<forall>p\<in>set ps. patch_fits xs p \<Longrightarrow> same_shape (foldl write_patch xs ps) xs"
proof (induction ps arbitrary: xs)
  case (Cons p ps)
  then have s: "same_shape (write_patch xs p) xs" by (simp add: write_patch_shape)
  with Cons.prems have "\<forall>q\<in>set ps. patch_fits (write_patch xs p) q"
    by (auto intro: same_shape_fits)
  from Cons.IH [OF this] s show ?case by (simp add: same_shape_def)
qed (simp add: same_shape_def)

text \<open>Bytes no patch touches keep their value; a byte exactly one patch touches gets it.\<close>

lemma write_patches_nth:
  assumes "\<forall>p\<in>set ps. patch_fits xs p"
    and "sorted_wrt (\<lambda>p q. \<forall>oi si k. \<not> (touches p oi si k \<and> touches q oi si k)) ps"
    and "oi < length xs" "si < length (xs ! oi)" "k < length (xs ! oi ! si)"
  shows "((\<forall>p\<in>set ps. \<not> touches p oi si k) \<longrightarrow>
      foldl write_patch xs ps ! oi ! si ! k = xs ! oi ! si ! k) \<and>
    (\<forall>p\<in>set ps. touches p oi si k \<longrightarrow>
      foldl write_patch xs ps ! oi ! si ! k = pt_bytes p ! (k - pt_offset p))"
  using assms
proof (induction ps arbitrary: xs)
  case (Cons q ps)
  have q: "patch_fits xs q" using Cons.prems by auto
  then have s: "same_shape (write_patch xs q) xs" by (rule write_patch_shape)
  have fits: "\<forall>p\<in>set ps. patch_fits (write_patch xs q) p"
    using Cons.prems same_shape_fits [OF s] by auto
  have dis: "sorted_wrt (\<lambda>p q. \<forall>oi si k. \<not> (touches p oi si k \<and> touches q oi si k)) ps"
    using Cons.prems by auto
  have range: "oi < length (write_patch xs q)" "si < length (write_patch xs q ! oi)"
    "k < length (write_patch xs q ! oi ! si)"
    using same_shape_nth [OF s] Cons.prems by auto
  note IH = Cons.IH [OF fits dis range]
  have one: "write_patch xs q ! oi ! si ! k =
      (if touches q oi si k then pt_bytes q ! (k - pt_offset q) else xs ! oi ! si ! k)"
    using write_patch_nth [OF q Cons.prems(3-5)] .
  have apart: "\<forall>r\<in>set ps. \<not> touches r oi si k" if "touches q oi si k"
    using that Cons.prems(2) by auto
  show ?case
  proof (cases "touches q oi si k")
    case True
    with apart IH one show ?thesis by auto
  next
    case False
    with IH one show ?thesis by auto
  qed
qed simp

subsection \<open>What a relocation writes\<close>

text \<open>The field a relocation asks for: the symbol's address \<open>S\<close> plus the addend, less the
  place \<open>P\<close> for the relative kinds, in range for the kind.\<close>

definition relocation_field ::
  "layout \<Rightarrow> symbol_table \<Rightarrow> object_relocation \<times> resolved_reference \<Rightarrow> int \<Rightarrow> nat \<Rightarrow> bool" where
  "relocation_field lay symbols = (\<lambda>(r, ref) value width.
     \<exists>s target base place.
       st_symbols symbols (rr_target ref) = Some s \<and>
       symbol_address lay ref s = Inr target \<and>
       rr_object ref < length (lay_offsets lay) \<and>
       rr_section ref < length (lay_offsets lay ! rr_object ref) \<and>
       lay_offsets lay ! rr_object ref ! rr_section ref = base \<and>
       checked_add base (of_nat (rel_offset r)) = Some place \<and>
       relocation_value (rel_kind r) (uint target + rel_addend r) place = Inr (value, width) \<and>
       relocation_fits (rel_kind r) value)"

definition patch_for ::
  "object_file list \<Rightarrow> layout \<Rightarrow> symbol_table \<Rightarrow> patch \<Rightarrow> object_relocation \<times> resolved_reference
     \<Rightarrow> bool" where
  "patch_for objects lay symbols p = (\<lambda>(r, ref).
     pt_object p = rr_object ref \<and> pt_section p = rr_section ref \<and> pt_offset p = rel_offset r \<and>
     patch_fits (map (map sec_data \<circ> obj_sections) objects) p \<and>
     (\<exists>value width. relocation_field lay symbols (r, ref) value width \<and>
        pt_bytes p = to_le_bytes width (word_of_int value :: u64) \<and> width \<in> {1, 4, 8}))"

lemma take_to_le_bytes: "m \<le> n \<Longrightarrow> take m (to_le_bytes n w) = to_le_bytes m w"
  by (simp add: to_le_bytes_def take_map)

lemma relocation_value_width:
  "relocation_value k a pl = Inr (value, width) \<Longrightarrow> width \<in> {1, 4, 8}"
  by (auto simp: relocation_value_def split: reloc_kind.splits)

lemma make_patchE:
  assumes "make_patch objects lay symbols r ref occ = Inr (p, occ')"
  obtains stop where "patch_for objects lay symbols p (r, ref)"
    "stop = rel_offset r + length (pt_bytes p)" "rel_offset r < stop"
    "\<not> overlaps_neighbour occ (rr_object ref) (rr_section ref) (rel_offset r) stop"
    "occ' = bt_insert (rr_object ref, rr_section ref, rel_offset r) stop occ"
proof -
  let ?oi = "rr_object ref" and ?si = "rr_section ref"
  from assms obtain s target base place val width sec stop where m:
    "st_symbols symbols (rr_target ref) = Some s" "symbol_address lay ref s = Inr target"
    "Option.bind (get (lay_offsets lay) ?oi) (\<lambda>x. get x ?si) = Some base"
    "checked_add base (of_nat (rel_offset r)) = Some place"
    "relocation_value (rel_kind r) (uint target + rel_addend r) place = Inr (val, width)"
    "relocation_fits (rel_kind r) val"
    "Option.bind (get objects ?oi) (\<lambda>obj. get (obj_sections obj) ?si) = Some sec"
    "usize_add (rel_offset r) width = Some stop" "stop \<le> length (sec_data sec)"
    "\<not> overlaps_neighbour occ ?oi ?si (rel_offset r) stop"
    and p: "p = \<lparr>pt_object = ?oi, pt_section = ?si, pt_offset = rel_offset r,
            pt_bytes = take width (to_le_bytes 8 (word_of_int val :: u64))\<rparr>"
      "occ' = bt_insert (?oi, ?si, rel_offset r) stop occ"
    by (auto simp: make_patch_def Let_def rbind_eq_Inr ok_or_eq_Inr ensure_eq_Inr)
  from relocation_value_width [OF m(5)] have w: "width \<in> {1, 4, 8}" .
  then have bytes: "pt_bytes p = to_le_bytes width (word_of_int val :: u64)"
    using p by (auto simp: take_to_le_bytes)
  have stop: "stop = rel_offset r + width" using m(8) by (simp add: checked_simps)
  have "relocation_field lay symbols (r, ref) val width"
    using m by (auto simp: relocation_field_def bind_eq_Some_conv result_simps)
  moreover have "patch_fits (map (map sec_data \<circ> obj_sections) objects) p"
    using m(7,9) p bytes stop
    by (auto simp: patch_fits_def bind_eq_Some_conv result_simps)
  ultimately have "patch_for objects lay symbols p (r, ref)"
    using bytes w p by (auto simp: patch_for_def)
  then show thesis using that stop bytes w m(10) p by auto
qed

text \<open>The loop invariant: the intervals taken are those of the patches, and no two meet.\<close>

definition patches_apart :: "patch list \<Rightarrow> bool" where
  "patches_apart ps \<longleftrightarrow>
     sorted_wrt (\<lambda>p q. \<forall>oi si k. \<not> (touches p oi si k \<and> touches q oi si k)) ps"

definition occupied_inv :: "patch list \<Rightarrow> occupied \<Rightarrow> bool" where
  "occupied_inv ps occ \<longleftrightarrow> bt_sorted occ \<and> patch_map.separated occ \<and> patches_apart ps \<and>
     (\<forall>p\<in>set ps. ((pt_object p, pt_section p, pt_offset p), pt_offset p + length (pt_bytes p))
        \<in> set occ)"

lemma overlaps_neighbour_iff:
  assumes "bt_sorted occ" "patch_map.separated occ" "off < stop"
  shows "overlaps_neighbour occ oi si off stop \<longleftrightarrow>
    (\<exists>a e. ((oi, si, a), e) \<in> set occ \<and> off < e \<and> a < stop)"
proof -
  have "overlaps_neighbour occ oi si off stop \<longleftrightarrow> \<not> patch_map.neighbours_clear occ oi si off stop"
    unfolding overlaps_neighbour_def patch_map.neighbours_clear_def by blast
  then show ?thesis
    unfolding patch_map.neighbours_clear_iff [OF assms, of oi si] by (meson not_le)
qed

lemma occupied_inv_step:
  assumes inv: "occupied_inv ps occ"
    and p: "off < stop" "stop = off + length (pt_bytes p)"
      "pt_object p = oi" "pt_section p = si" "pt_offset p = off"
    and clear: "\<not> overlaps_neighbour occ oi si off stop"
  shows "occupied_inv (ps @ [p]) (bt_insert (oi, si, off) stop occ)"
proof -
  from inv have occ: "bt_sorted occ" "patch_map.separated occ" and apart: "patches_apart ps"
    and mem: "\<And>q. q \<in> set ps \<Longrightarrow>
      ((pt_object q, pt_section q, pt_offset q), pt_offset q + length (pt_bytes q)) \<in> set occ"
    by (auto simp: occupied_inv_def)
  note free = clear [unfolded overlaps_neighbour_iff [OF occ p(1)]]
  have "patch_map.neighbours_clear occ oi si off stop"
    using clear unfolding overlaps_neighbour_def patch_map.neighbours_clear_def by blast
  then have sep: "patch_map.separated (bt_insert (oi, si, off) stop occ)"
    by (rule patch_map.separated_put [OF occ p(1)])
  have "\<not> (touches q oi' si' k \<and> touches p oi' si' k)" if "q \<in> set ps" for q oi' si' k
  proof
    assume t: "touches q oi' si' k \<and> touches p oi' si' k"
    with mem [OF that] p have "((oi, si, pt_offset q), pt_offset q + length (pt_bytes q)) \<in> set occ"
      "off < pt_offset q + length (pt_bytes q)" "pt_offset q < stop"
      by (auto simp: touches_def)
    with free show False by blast
  qed
  then have "patches_apart (ps @ [p])"
    using apart by (auto simp: patches_apart_def sorted_wrt_append)
  moreover have "((pt_object q, pt_section q, pt_offset q), pt_offset q + length (pt_bytes q))
      \<in> set (bt_insert (oi, si, off) stop occ)" if "q \<in> set (ps @ [p])" for q
  proof (cases "(pt_object q, pt_section q, pt_offset q) = (oi, si, off)")
    case True
    have "q = p"
    proof (rule ccontr)
      assume "q \<noteq> p"
      with that mem have e: "((oi, si, off), off + length (pt_bytes q)) \<in> set occ"
        using True by auto
      with occ(2) have "off < off + length (pt_bytes q)"
        unfolding patch_map.separated_def by blast
      with e free p(1) show False by blast
    qed
    with p show ?thesis by (simp add: set_bt_insert [OF occ(1)])
  next
    case False
    with that p mem show ?thesis by (auto simp: set_bt_insert [OF occ(1)])
  qed
  ultimately show ?thesis
    using sep bt_sorted_insert [OF occ(1)] by (auto simp: occupied_inv_def)
qed

lemma collect_patches:
  assumes "foldR (collect_patch objects lay symbols) xs (ps, occ) = Inr (ps', occ')"
    and "occupied_inv ps occ" "list_all2 (patch_for objects lay symbols) ps done_xs"
  shows "occupied_inv ps' occ' \<and> list_all2 (patch_for objects lay symbols) ps' (done_xs @ xs)"
  using assms
proof (induction xs arbitrary: ps occ done_xs)
  case (Cons x xs)
  obtain r ref where x: "x = (r, ref)" by (cases x)
  from Cons.prems(1) obtain p occ1 where
    first: "make_patch objects lay symbols r ref occ = Inr (p, occ1)"
    and rest: "foldR (collect_patch objects lay symbols) xs (ps @ [p], occ1) = Inr (ps', occ')"
    by (auto simp: x collect_patch_def result_simps)
  from first obtain stop where p: "patch_for objects lay symbols p (r, ref)"
    "stop = rel_offset r + length (pt_bytes p)" "rel_offset r < stop"
    "\<not> overlaps_neighbour occ (rr_object ref) (rr_section ref) (rel_offset r) stop"
    "occ1 = bt_insert (rr_object ref, rr_section ref, rel_offset r) stop occ"
    by (rule make_patchE)
  have "occupied_inv (ps @ [p]) occ1"
    unfolding p(5) using p by (intro occupied_inv_step [OF Cons.prems(2)]) (auto simp: patch_for_def)
  moreover have "list_all2 (patch_for objects lay symbols) (ps @ [p]) (done_xs @ [x])"
    using Cons.prems(3) p(1) x by (simp add: list_all2_appendI)
  ultimately show ?case using Cons.IH [OF rest, of "done_xs @ [x]"] by simp
qed simp

lemma apply_relocationsE:
  assumes "apply_relocations objects lay max_bytes = Inr out"
  obtains symbols ps where "resolve_symbols objects = Inr symbols"
    "is_ok (check_placements objects lay max_bytes)"
    "patches_apart ps"
    "list_all2 (patch_for objects lay symbols) ps
       (zip (concat (map obj_relocations objects)) (st_references symbols))"
    "out = foldl write_patch (map (map sec_data \<circ> obj_sections) objects) ps"
proof -
  from assms obtain symbols n ps occ where
    a: "resolve_symbols objects = Inr symbols" "check_placements objects lay max_bytes = Inr n"
    "foldR (collect_patch objects lay symbols)
       (zip (concat (map obj_relocations objects)) (st_references symbols)) ([], []) = Inr (ps, occ)"
    "out = foldl write_patch (map (map sec_data \<circ> obj_sections) objects) ps"
    by (auto simp: apply_relocations_def result_simps)
  have "occupied_inv [] []"
    by (simp add: occupied_inv_def bt_sorted_def patches_apart_def patch_map.separated_def)
  from collect_patches [OF a(3) this, of "[]"] that a show thesis
    by (auto simp: occupied_inv_def)
qed

lemma le_value_field:
  assumes "width \<in> {1, 4, 8 :: nat}"
  shows "int (le_value (to_le_bytes width (word_of_int value :: u64))) = value mod 2 ^ (8 * width)"
proof -
  have "int (le_value (to_le_bytes width (word_of_int value :: u64)))
      = uint (word_of_int value :: u64) mod 256 ^ width"
    by (simp add: le_value_to_le_bytes zmod_int)
  also have "\<dots> = value mod 2 ^ 64 mod 2 ^ (8 * width)"
    by (simp add: uint_word_of_int power_mult)
  also have "\<dots> = value mod 2 ^ (8 * width)"
    using assms by (intro mod_mod_cancel) (auto simp: le_imp_power_dvd)
  finally show ?thesis .
qed

lemma patched_field:
  assumes fits: "\<forall>p\<in>set ps. patch_fits xs p" and apart: "patches_apart ps" and p: "p \<in> set ps"
  shows "take (length (pt_bytes p)) (drop (pt_offset p)
    (foldl write_patch xs ps ! pt_object p ! pt_section p)) = pt_bytes p"
proof (rule nth_equalityI)
  let ?out = "foldl write_patch xs ps"
  have pf: "patch_fits xs p" using fits p by blast
  from same_shape_nth [OF write_patches_shape [OF fits]] pf
  have len: "length (?out ! pt_object p ! pt_section p) = length (xs ! pt_object p ! pt_section p)"
    by (auto simp: patch_fits_def)
  with pf show l: "length (take (length (pt_bytes p)) (drop (pt_offset p)
      (?out ! pt_object p ! pt_section p))) = length (pt_bytes p)"
    by (auto simp: patch_fits_def)
  fix i
  assume i: "i < length (take (length (pt_bytes p)) (drop (pt_offset p)
      (?out ! pt_object p ! pt_section p)))"
  then have "touches p (pt_object p) (pt_section p) (pt_offset p + i)"
    using l by (simp add: touches_def)
  then show "take (length (pt_bytes p)) (drop (pt_offset p)
      (?out ! pt_object p ! pt_section p)) ! i = pt_bytes p ! i"
    using write_patches_nth [OF fits apart [unfolded patches_apart_def],
        of "pt_object p" "pt_section p" "pt_offset p + i"] pf p i l len
    by (auto simp: patch_fits_def)
qed

subsection \<open>The whole pass\<close>

definition field_width :: "reloc_kind \<Rightarrow> nat" where
  "field_width k = (case k of Absolute64 \<Rightarrow> 8 | Relative8 \<Rightarrow> 1 | _ \<Rightarrow> 4)"

lemma relocation_field_width: "relocation_field lay t (r, ref) v w \<Longrightarrow> w = field_width (rel_kind r)"
  by (auto simp: relocation_field_def relocation_value_def field_width_def
      split: reloc_kind.splits)

lemma relocation_sites:
  assumes "resolve_symbols objects = Inr symbols"
  shows "zip (concat (map obj_relocations objects)) (st_references symbols) =
    map (\<lambda>(oi, obj, r). (r, reference_of (table_of (link_definitions objects)) (oi, obj, r)))
      (link_relocations objects)"
proof -
  have "concat (map obj_relocations objs) = map (\<lambda>(oi, obj, r). r)
      (concat (map (\<lambda>(oi, obj). map (\<lambda>r. (oi, obj, r)) (obj_relocations obj)) (enumerate n objs)))"
    for objs n
    by (induction objs arbitrary: n) (auto simp: o_def)
  then have "concat (map obj_relocations objects) = map (\<lambda>(oi, obj, r). r) (link_relocations objects)"
    by (simp add: link_relocations_def)
  then show ?thesis
    by (simp add: resolve_symbols_Inr(2) [OF assms] zip_map_map map_zip_map split_def zip_same_conv_map)
qed

lemma apply_relocations_patches:
  assumes "apply_relocations objects lay max_bytes = Inr out"
  obtains symbols ps where "resolve_symbols objects = Inr symbols" "patches_apart ps"
    "\<forall>p\<in>set ps. patch_fits (map (map sec_data \<circ> obj_sections) objects) p"
    "list_all2 (\<lambda>p (oi, obj, r). patch_for objects lay symbols p
        (r, reference_of (table_of (link_definitions objects)) (oi, obj, r)))
      ps (link_relocations objects)"
    "out = foldl write_patch (map (map sec_data \<circ> obj_sections) objects) ps"
  using assms
proof (rule apply_relocationsE)
  fix symbols ps
  assume a: "resolve_symbols objects = Inr symbols" "patches_apart ps"
    "list_all2 (patch_for objects lay symbols) ps
       (zip (concat (map obj_relocations objects)) (st_references symbols))"
    "out = foldl write_patch (map (map sec_data \<circ> obj_sections) objects) ps"
  then have l: "list_all2 (\<lambda>p (oi, obj, r). patch_for objects lay symbols p
        (r, reference_of (table_of (link_definitions objects)) (oi, obj, r)))
      ps (link_relocations objects)"
    by (simp add: relocation_sites list_all2_map2 split_def)
  moreover from l have "\<forall>p\<in>set ps. patch_fits (map (map sec_data \<circ> obj_sections) objects) p"
    by (fastforce simp: list_all2_conv_all_nth in_set_conv_nth patch_for_def split_def)
  ultimately show thesis using that a by blast
qed

lemma patch_for_field:
  assumes "patch_for objects lay symbols p (r, ref)"
  shows "length (pt_bytes p) = field_width (rel_kind r)"
    and "\<exists>v. relocation_field lay symbols (r, ref) v (field_width (rel_kind r)) \<and>
      int (le_value (pt_bytes p)) = v mod 2 ^ (8 * field_width (rel_kind r))"
proof -
  from assms obtain v w where f: "relocation_field lay symbols (r, ref) v w"
    "pt_bytes p = to_le_bytes w (word_of_int v :: u64)" "w \<in> {1, 4, 8}"
    by (auto simp: patch_for_def)
  moreover from f(1) have "w = field_width (rel_kind r)" by (rule relocation_field_width)
  ultimately show "length (pt_bytes p) = field_width (rel_kind r)"
    "\<exists>v. relocation_field lay symbols (r, ref) v (field_width (rel_kind r)) \<and>
      int (le_value (pt_bytes p)) = v mod 2 ^ (8 * field_width (rel_kind r))"
    using le_value_field [OF f(3), of v] by auto
qed

lemma relocated_fields:
  assumes "apply_relocations objects lay max_bytes = Inr out"
  shows "\<exists>symbols. resolve_symbols objects = Inr symbols \<and>
    (\<forall>(oi, obj, r)\<in>set (link_relocations objects).
       \<exists>v. relocation_field lay symbols
             (r, reference_of (table_of (link_definitions objects)) (oi, obj, r))
             v (field_width (rel_kind r)) \<and>
           int (le_value (take (field_width (rel_kind r)) (drop (rel_offset r)
             (out ! oi ! rel_section r)))) = v mod 2 ^ (8 * field_width (rel_kind r)))"
  using assms
proof (rule apply_relocations_patches)
  fix symbols ps
  let ?T = "table_of (link_definitions objects)"
  assume a: "resolve_symbols objects = Inr symbols" "patches_apart ps"
    "\<forall>p\<in>set ps. patch_fits (map (map sec_data \<circ> obj_sections) objects) p"
    "list_all2 (\<lambda>p (oi, obj, r). patch_for objects lay symbols p (r, reference_of ?T (oi, obj, r)))
      ps (link_relocations objects)"
    "out = foldl write_patch (map (map sec_data \<circ> obj_sections) objects) ps"
  have "\<exists>v. relocation_field lay symbols (r, reference_of ?T (oi, obj, r)) v (field_width (rel_kind r)) \<and>
      int (le_value (take (field_width (rel_kind r)) (drop (rel_offset r) (out ! oi ! rel_section r))))
        = v mod 2 ^ (8 * field_width (rel_kind r))"
    if x: "(oi, obj, r) \<in> set (link_relocations objects)" for oi obj r
  proof -
    obtain p where p: "p \<in> set ps" "patch_for objects lay symbols p (r, reference_of ?T (oi, obj, r))"
      using list_all2_right [OF a(4) x] by auto
    have "pt_object p = oi" "pt_section p = rel_section r" "pt_offset p = rel_offset r"
      using p(2) by (auto simp: patch_for_def reference_of_def)
    with patched_field [OF a(3,2) p(1)] patch_for_field [OF p(2)] a(5) show ?thesis by auto
  qed
  with a(1) show ?thesis by blast
qed

lemma untouched_bytes:
  assumes "apply_relocations objects lay max_bytes = Inr out"
    and "oi < length objects" "si < length (obj_sections (objects ! oi))"
    and "k < length (sec_data (obj_sections (objects ! oi) ! si))"
    and "\<forall>(oj, obj, r)\<in>set (link_relocations objects).
      \<not> (oj = oi \<and> rel_section r = si \<and> rel_offset r \<le> k \<and> k < rel_offset r + field_width (rel_kind r))"
  shows "out ! oi ! si ! k = sec_data (obj_sections (objects ! oi) ! si) ! k"
  using assms(1)
proof (rule apply_relocations_patches)
  fix symbols ps
  let ?T = "table_of (link_definitions objects)"
  assume a: "patches_apart ps"
    "\<forall>p\<in>set ps. patch_fits (map (map sec_data \<circ> obj_sections) objects) p"
    "list_all2 (\<lambda>p (oi, obj, r). patch_for objects lay symbols p (r, reference_of ?T (oi, obj, r)))
      ps (link_relocations objects)"
    "out = foldl write_patch (map (map sec_data \<circ> obj_sections) objects) ps"
  have "\<not> touches p oi si k" if p: "p \<in> set ps" for p
  proof -
    obtain oj obj r where x: "(oj, obj, r) \<in> set (link_relocations objects)"
      "patch_for objects lay symbols p (r, reference_of ?T (oj, obj, r))"
      using list_all2_left [OF a(3) p] by auto
    then have "pt_object p = oj" "pt_section p = rel_section r" "pt_offset p = rel_offset r"
      by (auto simp: patch_for_def reference_of_def)
    with x(1) assms(5) patch_for_field(1) [OF x(2)] show ?thesis by (auto simp: touches_def)
  qed
  then show ?thesis
    using write_patches_nth [OF a(2) a(1) [unfolded patches_apart_def], of oi si k] assms(2-4) a(4)
    by simp
qed

lemma relocated_shape:
  "apply_relocations objects lay max_bytes = Inr out \<Longrightarrow>
     same_shape out (map (map sec_data \<circ> obj_sections) objects)"
  by (elim apply_relocations_patches) (simp add: write_patches_shape)

subsection \<open>No panic\<close>

lemma check_placements_table:
  assumes "check_placements objects lay max_bytes = Inr n" "oi < length objects"
    "si < length (obj_sections (objects ! oi))"
  shows "\<exists>a. Option.bind (get (lay_offsets lay) oi) (\<lambda>x. get x si) = Some a"
proof -
  have inner: "\<forall>i<length secs. \<exists>a. Option.bind (get (lay_offsets lay) j) (\<lambda>x. get x (k + i)) = Some a"
    if "foldR (check_placement lay max_bytes j) (enumerate k secs) t = Inr t'" for j k secs t t'
    using that
  proof (induction secs arbitrary: k t)
    case (Cons sec secs)
    then obtain u where u: "check_placement lay max_bytes j (k, sec) t = Inr u"
      "foldR (check_placement lay max_bytes j) (enumerate (Suc k) secs) u = Inr t'"
      by (auto simp: result_simps)
    from u(1) have "\<exists>a. Option.bind (get (lay_offsets lay) j) (\<lambda>x. get x k) = Some a"
      by (auto simp: check_placement_def rbind_eq_Inr ok_or_eq_Inr)
    moreover note Cons.IH [OF u(2)]
    ultimately show ?case
      by (metis add.right_neutral add_Suc_right add_Suc_shift length_Cons less_Suc_eq_0_disj)
  qed simp
  have outer: "\<forall>i<length objs. \<forall>si<length (obj_sections (objs ! i)).
      \<exists>a. Option.bind (get (lay_offsets lay) (k + i)) (\<lambda>x. get x si) = Some a"
    if "foldR (\<lambda>(oi, obj). foldR (check_placement lay max_bytes oi) (enumerate 0 (obj_sections obj)))
       (enumerate k objs) t = Inr t'" for k objs t t'
    using that
  proof (induction objs arbitrary: k t)
    case (Cons obj objs)
    then obtain u where u: "foldR (check_placement lay max_bytes k) (enumerate 0 (obj_sections obj)) t = Inr u"
      "foldR (\<lambda>(oi, obj). foldR (check_placement lay max_bytes oi) (enumerate 0 (obj_sections obj)))
       (enumerate (Suc k) objs) u = Inr t'"
      by (auto simp: result_simps)
    from inner [OF u(1)] Cons.IH [OF u(2)] show ?case
      by (auto simp: less_Suc_eq_0_disj)
  qed simp
  from assms outer [of 0 objects 0 n] show ?thesis by (simp add: check_placements_def)
qed

lemma link_relocations_mem:
  assumes "(oi, obj, r) \<in> set (link_relocations objects)"
  shows "oi < length objects" "objects ! oi = obj" "r \<in> set (obj_relocations obj)"
  using assms by (auto simp: link_relocations_def in_set_enumerate_eq)

lemma make_patch_no_panic:
  assumes t: "resolve_symbols objects = Inr t"
    and c: "check_placements objects lay max_bytes = Inr n"
    and x: "(oi, obj, r) \<in> set (link_relocations objects)"
    and e: "make_patch objects lay t r (reference_of (table_of (link_definitions objects)) (oi, obj, r)) occ
      = Inl e"
  shows "re_kind e \<noteq> RelocPanic"
proof -
  let ?ref = "reference_of (table_of (link_definitions objects)) (oi, obj, r)"
  note mem = link_relocations_mem [OF x]
  have ref: "rr_object ?ref = oi" "rr_section ?ref = rel_section r" by (simp_all add: reference_of_def)
  have "wf_object obj" using resolve_symbols_Inr(1) [OF t] mem by (auto simp: resolvable_def)
  then have si: "rel_section r < length (obj_sections obj)"
    using mem by (auto simp: wf_object_def wf_relocation_def)
  have "?ref \<in> set (st_references t)" using resolve_symbols_Inr(2) [OF t] x by auto
  from reference_bound [OF t this] obtain s where s: "st_symbols t (rr_target ?ref) = Some s"
    by blast
  obtain base where b: "Option.bind (get (lay_offsets lay) oi) (\<lambda>x. get x (rel_section r)) = Some base"
    using check_placements_table [OF c mem(1)] si mem(2) by auto
  have sec: "Option.bind (get objects oi) (\<lambda>obj. get (obj_sections obj) (rel_section r)) =
      Some (obj_sections obj ! rel_section r)"
    using mem si by (simp add: get_def)
  have value_kind: "re_kind f \<noteq> RelocPanic" if "relocation_value k a pl = Inl f" for k a pl f
    using that by (auto simp: relocation_value_def reloc_error_def split: reloc_kind.splits)
  have address_kind: "re_kind f \<noteq> RelocPanic" if "symbol_address lay ?ref s = Inl f" for f
    using that by (auto simp: symbol_address_def reloc_error_def ok_or_eq_Inl
        split: option.splits if_splits)
  show ?thesis
    using e s b sec
    by (auto simp: make_patch_def Let_def ref rbind_eq_Inl ok_or_eq_Inl ensure_eq_Inl
        reloc_error_def dest: value_kind address_kind)
qed

lemma collect_no_panic:
  assumes "resolve_symbols objects = Inr t" "check_placements objects lay max_bytes = Inr n"
    and "set xs \<subseteq> set (link_relocations objects)"
    and "foldR (collect_patch objects lay t) (map (\<lambda>(oi, obj, r).
      (r, reference_of (table_of (link_definitions objects)) (oi, obj, r))) xs) st = Inl e"
  shows "re_kind e \<noteq> RelocPanic"
  using assms(3,4)
proof (induction xs arbitrary: st)
  case (Cons x xs)
  obtain oi obj r where x: "x = (oi, obj, r)" by (cases x) auto
  obtain ps occ where st: "st = (ps, occ)" by (cases st)
  from Cons.prems(1) x have mem: "(oi, obj, r) \<in> set (link_relocations objects)" by auto
  show ?case
  proof (cases "make_patch objects lay t r
      (reference_of (table_of (link_definitions objects)) (oi, obj, r)) occ")
    case (Inl f)
    with Cons.prems(2) make_patch_no_panic [OF assms(1,2) mem Inl] x st show ?thesis
      by (auto simp: collect_patch_def locate_error_def)
  next
    case (Inr y)
    with Cons x st show ?thesis by (cases y) (auto simp: collect_patch_def)
  qed
qed simp

lemma apply_relocations_no_panic:
  assumes "apply_relocations objects lay max_bytes = Inl e"
  shows "re_kind e \<noteq> RelocPanic"
proof -
  have budget: "re_kind f \<noteq> RelocPanic" if "check_placements objects lay max_bytes = Inl f" for f
  proof -
    have one: "re_kind f \<noteq> RelocPanic" if "check_placement lay max_bytes oi x n = Inl f" for oi x n
      using that
      by (cases x) (auto simp: check_placement_def rbind_eq_Inl ok_or_eq_Inl map_err_eq_Inl
          reloc_error_def split: option.splits if_splits)
    from that show ?thesis
      unfolding check_placements_def by (auto dest!: foldR_Inl dest: one)
  qed
  show ?thesis
  proof (cases "resolve_symbols objects")
    case (Inl f)
    with assms show ?thesis by (auto simp: apply_relocations_def reloc_error_def)
  next
    case t: (Inr t)
    show ?thesis
    proof (cases "check_placements objects lay max_bytes")
      case (Inl f)
      with assms t budget show ?thesis by (auto simp: apply_relocations_def)
    next
      case (Inr n)
      with assms t collect_no_panic [OF t Inr, of "link_relocations objects"] show ?thesis
        by (auto simp: apply_relocations_def relocation_sites rbind_eq_Inl)
    qed
  qed
qed

lemma apply_sample:
  "apply_relocations [sample_main, sample_helper] sample_layout 1000 =
     Inr [[[0xE8, 0x2B, 0, 0, 0, 0xC3], []], [[0xC3]]]"
  by (simp add: sample_defs sample_layout_def exec_simps Let_def)

subsection \<open>Properties\<close>



text \<open>Every byte outside the fields of the relocations keeps its value.\<close>

theorem relocations_keep_other_bytes:
  assumes "apply_relocations objects lay max_bytes = Inr out"
    and "oi < length objects" and "si < length (obj_sections (objects ! oi))"
    and "k < length (sec_data (obj_sections (objects ! oi) ! si))"
    and "\<forall>(oj, obj, r)\<in>set (link_relocations objects).
      \<not> (oj = oi \<and> rel_section r = si \<and> rel_offset r \<le> k \<and> k < rel_offset r + field_width (rel_kind r))"
  shows "out ! oi ! si ! k = sec_data (obj_sections (objects ! oi) ! si) ! k"
  using assms by (rule untouched_bytes)

theorem relocations_keep_other_bytes_witness:
  "apply_relocations [sample_main, sample_helper] sample_layout 1000 =
     Inr [[[0xE8, 0x2B, 0, 0, 0, 0xC3], []], [[0xC3]]] \<and>
   [[[0xE8, 0x2B, 0, 0, 0, 0xC3], []], [[0xC3 :: u8]]] ! 0 ! 0 ! 5 =
     sec_data (obj_sections sample_main ! 0) ! 5"
  using apply_sample relocations_keep_other_bytes [OF apply_sample, of 0 0 5]
  by (simp add: link_relocations_def sample_main_def sample_helper_def field_width_def)

text \<open>No input makes the pass panic: the indexing and map lookups of the source always find
  their entry, so every failure is one of the reported error kinds.\<close>

theorem relocation_never_panics:
  assumes "apply_relocations objects lay max_bytes = Inl e"
  shows "re_kind e \<noteq> RelocPanic"
  using assms by (rule apply_relocations_no_panic)

theorem relocation_never_panics_witness:
  "\<exists>e. apply_relocations [sample_main] sample_layout 1000 = Inl e \<and> re_kind e \<noteq> RelocPanic"
proof -
  have "apply_relocations [sample_main] sample_layout 1000 = Inl (reloc_error RelocResolution)"
    by (simp add: sample_defs sample_layout_def exec_simps Let_def)
  from relocation_never_panics [OF this] this show ?thesis by blast
qed

end
