(* ===== verification/Bytes.thy ===== *)
theory Bytes
  imports Prelude
begin

text \<open>
  Byte strings.  A Rust string is the list of its UTF-8 bytes, so validity, search and slices
  are functions on bytes; names of the object model are lists of characters, one for each
  byte, and \<open>lit\<close> and \<open>str_of\<close> convert between the two.
\<close>

type_synonym bytes = "u8 list"

definition lit :: "string \<Rightarrow> bytes" where
  "lit s = map of_char s"

definition str_of :: "bytes \<Rightarrow> string" where
  "str_of bs = map (\<lambda>b. char_of (unat b)) bs"

definition continuation :: "u8 \<Rightarrow> bool" where
  "continuation b = (0x80 \<le> b \<and> b \<le> 0xBF)"

text \<open>\<open>std::str::from_utf8\<close>: the well-formed sequences of the Unicode standard.\<close>

fun utf8_valid :: "bytes \<Rightarrow> bool" where
  "utf8_valid [] = True"
| "utf8_valid (a # bs) =
     (if a \<le> 0x7F then utf8_valid bs
      else if 0xC2 \<le> a \<and> a \<le> 0xDF then
        (case bs of b # cs \<Rightarrow> continuation b \<and> utf8_valid cs | _ \<Rightarrow> False)
      else if 0xE0 \<le> a \<and> a \<le> 0xEF then
        (case bs of
           b # c # cs \<Rightarrow>
             (if a = 0xE0 then 0xA0 \<le> b \<and> b \<le> 0xBF
              else if a = 0xED then 0x80 \<le> b \<and> b \<le> 0x9F
              else continuation b) \<and> continuation c \<and> utf8_valid cs
         | _ \<Rightarrow> False)
      else if 0xF0 \<le> a \<and> a \<le> 0xF4 then
        (case bs of
           b # c # d # cs \<Rightarrow>
             (if a = 0xF0 then 0x90 \<le> b \<and> b \<le> 0xBF
              else if a = 0xF4 then 0x80 \<le> b \<and> b \<le> 0x8F
              else continuation b) \<and> continuation c \<and> continuation d \<and> utf8_valid cs
         | _ \<Rightarrow> False)
      else False)"

text \<open>\<open>bytes.get(a..b)\<close> and \<open>iter().position\<close>.\<close>

definition slice :: "'a list \<Rightarrow> usize \<Rightarrow> usize \<Rightarrow> 'a list option" where
  "slice xs a b = (if a \<le> b \<and> b \<le> length xs then Some (take (b - a) (drop a xs)) else None)"

definition position :: "('a \<Rightarrow> bool) \<Rightarrow> 'a list \<Rightarrow> usize option" where
  "position p xs =
     (let n = length (takeWhile (\<lambda>x. \<not> p x) xs) in if n < length xs then Some n else None)"

lemma utf8_valid_ascii: "\<forall>b\<in>set bs. b \<le> 0x7F \<Longrightarrow> utf8_valid bs"
  by (induction bs) auto

lemma unat_of_char_byte: "unat (of_char c :: u8) = of_char c"
proof -
  have "unat (of_nat (of_char c) :: u8) = of_char c mod 256" by (simp only: unat_of_nat) simp
  then show ?thesis by (simp only: of_nat_of_char of_char_mod_256)
qed

lemma str_of_lit [simp]: "str_of (lit s) = s"
  by (simp add: str_of_def lit_def o_def unat_of_char_byte)

lemma length_lit [simp]: "length (lit s) = length s"
  by (simp add: lit_def)

end
