(* ===== verification/LinkArchive.thy ===== *)
theory LinkArchive
  imports ObjectModel Bytes
begin

text \<open>
  The Unix \<open>ar\<close> reader and the cumulative read budget: \<open>linker/src/core/archive.rs\<close>
  and \<open>linker/src/diagnostic.rs\<close>.  Trimming and prefixes are functions on the
  bytes of a string; every message of the parser is one
  constructor of \<open>archive_error\<close>.  The object reader (\<open>read_with_usage\<close>) is an
  argument of the budget operations.
\<close>

subsection \<open>Byte strings\<close>

text \<open>The encodings of the characters with the Unicode property \<open>White_Space\<close>.\<close>

definition white_space :: "bytes list" where
  "white_space =
     map (\<lambda>b. [b]) [0x09, 0x0A, 0x0B, 0x0C, 0x0D, 0x20] @
     [[0xC2, 0x85], [0xC2, 0xA0], [0xE1, 0x9A, 0x80]] @
     map (\<lambda>b. [0xE2, 0x80, b])
       [0x80, 0x81, 0x82, 0x83, 0x84, 0x85, 0x86, 0x87, 0x88, 0x89, 0x8A, 0xA8, 0xA9, 0xAF] @
     [[0xE2, 0x81, 0x9F], [0xE3, 0x80, 0x80]]"

text \<open>No encoding is a prefix of another, so the first match decides.  The end is trimmed as the
  front of the reversed string, with the reversed encodings.\<close>

definition leading_space :: "bytes list \<Rightarrow> bytes \<Rightarrow> nat" where
  "leading_space ws bs =
     (case find (\<lambda>w. take (length w) bs = w) ws of Some w \<Rightarrow> length w | None \<Rightarrow> 0)"

fun trim_front :: "bytes list \<Rightarrow> bytes \<Rightarrow> bytes" where
  "trim_front ws [] = []"
| "trim_front ws (b # bs) =
     (case leading_space ws (b # bs) of 0 \<Rightarrow> b # bs | Suc k \<Rightarrow> trim_front ws (drop k bs))"

definition trim_start :: "bytes \<Rightarrow> bytes" where
  "trim_start bs = trim_front white_space bs"

definition trim_end :: "bytes \<Rightarrow> bytes" where
  "trim_end bs = rev (trim_front (map rev white_space) (rev bs))"

definition trim :: "bytes \<Rightarrow> bytes" where
  "trim bs = trim_end (trim_start bs)"

definition trim_end_matches :: "u8 \<Rightarrow> bytes \<Rightarrow> bytes" where
  "trim_end_matches b bs = rev (dropWhile (\<lambda>x. x = b) (rev bs))"

definition strip_prefix :: "bytes \<Rightarrow> bytes \<Rightarrow> bytes option" where
  "strip_prefix p bs = (if take (length p) bs = p then Some (drop (length p) bs) else None)"

definition saturating_add :: "usize \<Rightarrow> usize \<Rightarrow> usize" where
  "saturating_add a b = min usize_max (a + b)"

definition saturating_mul :: "usize \<Rightarrow> usize \<Rightarrow> usize" where
  "saturating_mul a b = min usize_max (a * b)"

subsection \<open>The parser\<close>

datatype archive_error =
    NotArchive | ArchiveInputLimit | ArchiveWork | HeaderOverflow | TruncatedHeader
  | InvalidTrailer | MemberSizeOverflow | MemberExceedsInput | NameNotUtf8
  | BsdNameExceedsMember | LongNamesMissing | LongNameOffset | UnterminatedLongName
  | NameBudget | InvalidMemberName | MemberLimit | MissingPadding
  | InvalidDecimal | DecimalOverflow

record archive_member =
  am_name :: bytes
  am_bytes :: bytes

definition charge_archive :: "usize \<Rightarrow> usize \<Rightarrow> usize \<Rightarrow> archive_error + usize" where
  "charge_archive work amount limit =
     (case usize_add work amount of
        Some n \<Rightarrow> if n \<le> limit then Inr n else Inl ArchiveWork
      | None \<Rightarrow> Inl ArchiveWork)"

definition is_bsd_index :: "bytes \<Rightarrow> bool" where
  "is_bsd_index name =
     (name \<in> {lit ''__.SYMDEF'', lit ''__.SYMDEF SORTED'',
              lit ''__.SYMDEF_64'', lit ''__.SYMDEF_64 SORTED''})"

definition is_digit :: "u8 \<Rightarrow> bool" where
  "is_digit b = (0x30 \<le> b \<and> b \<le> 0x39)"

definition digits_value :: "bytes \<Rightarrow> nat" where
  "digits_value ds = foldl (\<lambda>n b. 10 * n + (unat b - 48)) 0 ds"

definition decimal :: "bytes \<Rightarrow> archive_error + usize" where
  "decimal bs =
     (if \<not> utf8_valid bs then Inl InvalidDecimal
      else let v = trim bs in
        if v = [] \<or> \<not> list_all is_digit v then Inl InvalidDecimal
        else if digits_value v \<le> usize_max then Inr (digits_value v) else Inl DecimalOverflow)"

record archive_limits =
  max_names :: usize
  max_strings :: usize
  max_arc_work :: usize

record archive_state =
  ar_cursor :: usize
  ar_members :: "archive_member list"
  ar_names :: usize
  ar_strings :: usize
  ar_long_names :: "bytes option"
  ar_work :: usize

definition utf8 :: "bytes \<Rightarrow> archive_error + bytes" where
  "utf8 bs = (if utf8_valid bs then Inr bs else Inl NameNotUtf8)"

text \<open>The name of a member: the optional name, what is left of the payload, the number of bytes
  inspected for it, and the state with the name table and the work charged.\<close>

type_synonym named_entry = "bytes option \<times> bytes \<times> usize option \<times> archive_state"

definition bsd_name ::
  "archive_limits \<Rightarrow> bytes \<Rightarrow> bytes \<Rightarrow> archive_state \<Rightarrow> archive_error + named_entry" where
  "bsd_name lim count payload st =
     rbind (decimal count) (\<lambda>len.
     rbind (charge_archive (ar_work st) len (max_arc_work lim)) (\<lambda>work.
     rbind (ok_or (slice payload 0 len) BsdNameExceedsMember) (\<lambda>name.
     rbind (utf8 name) (\<lambda>s.
     Inr (Some (trim_end_matches 0 s), drop len payload, Some len, st\<lparr>ar_work := work\<rparr>)))))"

definition long_name ::
  "archive_limits \<Rightarrow> bytes \<Rightarrow> bytes \<Rightarrow> archive_state \<Rightarrow> archive_error + named_entry" where
  "long_name lim digits payload st =
     rbind (decimal digits) (\<lambda>offset.
     rbind (ok_or (ar_long_names st) LongNamesMissing) (\<lambda>table.
     rbind (ok_or (slice table offset (length table)) LongNameOffset) (\<lambda>suffix.
     let remaining = max_arc_work lim - ar_work st;
         search = take (min (length suffix) (saturating_add remaining 1)) suffix in
     rbind (case position (\<lambda>b. b = 0x0A \<or> b = 0) search of
              Some len \<Rightarrow> Inr len
            | None \<Rightarrow> if length suffix > remaining then Inl ArchiveWork
                      else Inl UnterminatedLongName) (\<lambda>len.
     rbind (charge_archive (ar_work st) (len + 1) (max_arc_work lim)) (\<lambda>work.
     rbind (utf8 (take len suffix)) (\<lambda>s.
     Inr (Some (trim_end_matches 0x2F s), payload, Some (len + 1), st\<lparr>ar_work := work\<rparr>)))))))"

definition entry_name ::
  "archive_limits \<Rightarrow> bytes \<Rightarrow> bytes \<Rightarrow> archive_state \<Rightarrow> archive_error + named_entry" where
  "entry_name lim raw payload st =
     (if raw = lit ''//'' then Inr (None, payload, None, st\<lparr>ar_long_names := Some payload\<rparr>)
      else if raw = lit ''/'' \<or> raw = lit ''/SYM64/'' then Inr (None, payload, None, st)
      else case strip_prefix (lit ''#1/'') raw of
        Some count \<Rightarrow> bsd_name lim count payload st
      | None \<Rightarrow>
          (case strip_prefix (lit ''/'') raw of
             Some offset \<Rightarrow> long_name lim offset payload st
           | None \<Rightarrow> Inr (Some (trim_end_matches 0x2F raw), payload, None, st)))"

definition push_member ::
  "archive_limits \<Rightarrow> named_entry \<Rightarrow> archive_error + archive_state" where
  "push_member lim = (\<lambda>(name, payload, inspected, st).
     case name of
       None \<Rightarrow> Inr st
     | Some nm \<Rightarrow>
         if is_bsd_index nm then Inr st
         else
           rbind (case usize_add (ar_names st) (length nm) of
                    Some n \<Rightarrow> if n \<le> max_names lim then Inr n else Inl NameBudget
                  | None \<Rightarrow> Inl NameBudget) (\<lambda>names.
           rbind (case Option.bind
                     (usize_add (ar_strings st)
                        (case inspected of Some n \<Rightarrow> n | None \<Rightarrow> length nm))
                     (\<lambda>n. usize_add n (length nm)) of
                    Some n \<Rightarrow> if n \<le> max_strings lim then Inr n else Inl NameBudget
                  | None \<Rightarrow> Inl NameBudget) (\<lambda>strings.
           rbind (charge_archive (ar_work st)
                    (saturating_add (saturating_mul (length nm) 2) 1) (max_arc_work lim)) (\<lambda>work.
           if nm = [] \<or> 0 \<in> set nm then Inl InvalidMemberName
           else if length (ar_members st) \<ge> 4096 then Inl MemberLimit
           else Inr (st\<lparr>ar_names := names, ar_strings := strings, ar_work := work,
                        ar_members := ar_members st @ [\<lparr>am_name = nm, am_bytes = payload\<rparr>]\<rparr>)))))"

text \<open>One turn of the \<open>while\<close> loop.\<close>

definition archive_entry ::
  "bytes \<Rightarrow> archive_limits \<Rightarrow> archive_state \<Rightarrow> archive_error + archive_state" where
  "archive_entry bs lim st =
     rbind (charge_archive (ar_work st) 60 (max_arc_work lim)) (\<lambda>work.
     rbind (ok_or (usize_add (ar_cursor st) 60) HeaderOverflow) (\<lambda>start.
     rbind (ok_or (slice bs (ar_cursor st) start) TruncatedHeader) (\<lambda>header.
     rbind (ensure (drop 58 header = [0x60, 0x0A]) InvalidTrailer) (\<lambda>_.
     rbind (decimal (take 10 (drop 48 header))) (\<lambda>size.
     rbind (ok_or (usize_add start size) MemberSizeOverflow) (\<lambda>stop.
     rbind (ok_or (slice bs start stop) MemberExceedsInput) (\<lambda>payload.
     rbind (utf8 (take 16 header)) (\<lambda>field.
     rbind (entry_name lim (trim_end field) payload (st\<lparr>ar_work := work\<rparr>)) (\<lambda>named.
     rbind (push_member lim named) (\<lambda>st'.
     if size mod 2 \<noteq> 0
     then rbind (ensure (get bs stop = Some 0x0A) MissingPadding)
            (\<lambda>_. Inr (st'\<lparr>ar_cursor := stop + 1\<rparr>))
     else Inr (st'\<lparr>ar_cursor := stop\<rparr>)))))))))))"

lemma archive_entry_advances:
  "archive_entry bs lim st = Inr st' \<Longrightarrow> ar_cursor st < ar_cursor st'"
  by (auto simp: archive_entry_def result_simps checked_simps split: if_splits)

function archive_loop ::
  "bytes \<Rightarrow> archive_limits \<Rightarrow> archive_state \<Rightarrow> archive_error + archive_state" where
  "archive_loop bs lim st =
     (if ar_cursor st < length bs
      then rbind (archive_entry bs lim st) (archive_loop bs lim) else Inr st)"
  by pat_completeness auto

termination
  by (relation "measure (\<lambda>(bs, lim, st). length bs - ar_cursor st)")
     (auto dest!: archive_entry_advances)

declare archive_loop.simps [simp del]

definition parse_archive ::
  "bytes \<Rightarrow> archive_limits \<Rightarrow> archive_error + archive_member list \<times> usize \<times> usize" where
  "parse_archive bs lim =
     (if take 8 bs \<noteq> lit ''!<arch>'' @ [0x0A] then Inl NotArchive
      else if length bs > 256 * 1024 * 1024 then Inl ArchiveInputLimit
      else
        rbind (charge_archive 0 8 (max_arc_work lim)) (\<lambda>work.
        rbind (archive_loop bs lim
                 \<lparr>ar_cursor = 8, ar_members = [], ar_names = 0, ar_strings = 0,
                  ar_long_names = None, ar_work = work\<rparr>) (\<lambda>st.
        Inr (ar_members st, ar_strings st, ar_work st))))"

definition read_archive :: "bytes \<Rightarrow> archive_error + archive_member list" where
  "read_archive bs =
     rbind (parse_archive bs
              \<lparr>max_names = 1024 * 1024, max_strings = usize_max,
               max_arc_work = 512 * 1024 * 1024\<rparr>)
       (\<lambda>(members, _, _). Inr members)"

subsection \<open>Bounds kept by the parser\<close>

text \<open>What holds of the state at the head of the loop.  \<open>consumed\<close> accounts for every
  member: 60 header bytes and its payload lie before the cursor.\<close>

definition member_ok :: "bytes \<Rightarrow> archive_member \<Rightarrow> bool" where
  "member_ok bs m \<longleftrightarrow>
     am_name m \<noteq> [] \<and> 0 \<notin> set (am_name m) \<and> \<not> is_bsd_index (am_name m) \<and>
     (\<exists>at. slice bs at (at + length (am_bytes m)) = Some (am_bytes m))"

definition archive_inv :: "bytes \<Rightarrow> archive_limits \<Rightarrow> archive_state \<Rightarrow> bool" where
  "archive_inv bs lim st \<longleftrightarrow>
     ar_work st \<le> max_arc_work lim \<and> ar_names st \<le> max_names lim \<and>
     ar_strings st \<le> max_strings lim \<and> length (ar_members st) \<le> 4096 \<and>
     ar_names st = sum_list (map (length \<circ> am_name) (ar_members st)) \<and>
     8 + sum_list (map (\<lambda>m. 60 + length (am_bytes m)) (ar_members st)) \<le> ar_cursor st \<and>
     ar_cursor st \<le> length bs \<and>
     (\<forall>m\<in>set (ar_members st). member_ok bs m)"

lemma charge_archive_Inr [result_simps]:
  "charge_archive w a l = Inr w' \<longleftrightarrow> w' = w + a \<and> w + a \<le> usize_max \<and> w + a \<le> l"
  by (auto simp: charge_archive_def usize_add_def)

lemma entry_name_Inr:
  assumes "entry_name lim raw payload st = Inr (name, payload', inspected, st')"
    and "ar_work st \<le> max_arc_work lim"
  shows "(\<exists>n. payload' = drop n payload) \<and> ar_work st' \<le> max_arc_work lim \<and>
    ar_names st' = ar_names st \<and> ar_strings st' = ar_strings st \<and>
    ar_members st' = ar_members st \<and> ar_cursor st' = ar_cursor st"
proof -
  have drop: "\<exists>n. payload = drop n payload" by (rule exI [of _ 0]) simp
  show ?thesis
    using assms drop
    by (auto simp: entry_name_def bsd_name_def long_name_def result_simps Let_def
        split: if_splits option.splits)
qed

lemma push_member_Inr:
  assumes "push_member lim (name, payload, inspected, st) = Inr st'"
  shows "st' = st \<or> (\<exists>nm s w. name = Some nm \<and> nm \<noteq> [] \<and> 0 \<notin> set nm \<and> \<not> is_bsd_index nm \<and>
    length (ar_members st) < 4096 \<and> s \<le> max_strings lim \<and> w \<le> max_arc_work lim \<and>
    ar_names st + length nm \<le> max_names lim \<and>
    st' = st\<lparr>ar_names := ar_names st + length nm, ar_strings := s, ar_work := w,
      ar_members := ar_members st @ [\<lparr>am_name = nm, am_bytes = payload\<rparr>]\<rparr>)"
  using assms
  by (auto simp: push_member_def result_simps checked_simps split: option.splits if_splits)

lemma slice_drop:
  assumes "slice bs a b = Some xs"
  shows "\<exists>at. slice bs at (at + length (drop n xs)) = Some (drop n xs)"
proof -
  have xs: "xs = take (b - a) (drop a bs)" "a \<le> b" "b \<le> length bs"
    using assms by (auto simp: slice_def split: if_splits)
  show ?thesis
  proof (cases "n \<le> b - a")
    case True
    then have "slice bs (a + n) (a + n + length (drop n xs)) = Some (drop n xs)"
      using xs by (simp add: slice_def drop_take add.commute min_def)
    then show ?thesis by blast
  next
    case False
    then have "drop n xs = []" using xs by simp
    then have "slice bs 0 (0 + length (drop n xs)) = Some (drop n xs)" by (simp add: slice_def)
    then show ?thesis by blast
  qed
qed

lemma archive_entryE:
  assumes "archive_entry bs lim st = Inr st'"
  obtains work size payload raw name payload' inspected st1 st2 where
    "work \<le> max_arc_work lim"
    "slice bs (ar_cursor st + 60) (ar_cursor st + 60 + size) = Some payload"
    "entry_name lim raw payload (st\<lparr>ar_work := work\<rparr>) = Inr (name, payload', inspected, st1)"
    "push_member lim (name, payload', inspected, st1) = Inr st2"
    "st' = st2\<lparr>ar_cursor := ar_cursor st + 60 + size + size mod 2\<rparr>"
    "ar_cursor st' \<le> length bs"
proof -
  from assms show thesis
    by (auto simp: archive_entry_def result_simps checked_simps slice_def
        split: if_splits intro!: that)
       (auto simp: mod2_eq_if split: if_splits)
qed

lemma archive_entry_inv:
  assumes run: "archive_entry bs lim st = Inr st'" and inv: "archive_inv bs lim st"
  shows "archive_inv bs lim st'"
  using run
proof (rule archive_entryE)
  fix work size payload raw name payload' inspected st1 st2
  assume work: "work \<le> max_arc_work lim"
    and sl: "slice bs (ar_cursor st + 60) (ar_cursor st + 60 + size) = Some payload"
    and name: "entry_name lim raw payload (st\<lparr>ar_work := work\<rparr>) = Inr (name, payload', inspected, st1)"
    and push: "push_member lim (name, payload', inspected, st1) = Inr st2"
    and st': "st' = st2\<lparr>ar_cursor := ar_cursor st + 60 + size + size mod 2\<rparr>"
    and le: "ar_cursor st' \<le> length bs"
  from entry_name_Inr [OF name] work obtain n where
    st1: "payload' = drop n payload" "ar_work st1 \<le> max_arc_work lim" "ar_names st1 = ar_names st"
      "ar_strings st1 = ar_strings st" "ar_members st1 = ar_members st" by auto
  have "length payload \<le> size" using sl by (auto simp: slice_def split: if_splits)
  then have size: "length payload' \<le> size" using st1 by simp
  obtain at where at: "slice bs at (at + length payload') = Some payload'"
    using slice_drop [OF sl, of n] st1 by auto
  from push_member_Inr [OF push] consider "st2 = st1"
    | nm s w where "nm \<noteq> []" "0 \<notin> set nm" "\<not> is_bsd_index nm"
      "length (ar_members st1) < 4096" "s \<le> max_strings lim" "w \<le> max_arc_work lim"
      "ar_names st1 + length nm \<le> max_names lim"
      "st2 = st1\<lparr>ar_names := ar_names st1 + length nm, ar_strings := s, ar_work := w,
        ar_members := ar_members st1 @ [\<lparr>am_name = nm, am_bytes = payload'\<rparr>]\<rparr>"
    by blast
  then show ?thesis
  proof cases
    case 1
    then show ?thesis using inv st1 st' le by (auto simp: archive_inv_def)
  next
    case 2
    then show ?thesis
      using inv st1 st' le size at by (auto simp: archive_inv_def member_ok_def)
  qed
qed

lemma archive_loop_inv:
  "archive_loop bs lim st = Inr st' \<Longrightarrow> archive_inv bs lim st \<Longrightarrow> archive_inv bs lim st'"
proof (induction bs lim st arbitrary: st' rule: archive_loop.induct)
  case (1 bs lim st)
  show ?case
  proof (cases "ar_cursor st < length bs")
    case True
    with "1.prems"(1) obtain st1 where
      "archive_entry bs lim st = Inr st1" "archive_loop bs lim st1 = Inr st'"
      by (subst (asm) archive_loop.simps) (auto simp: result_simps)
    with "1.IH" [OF True] archive_entry_inv "1.prems"(2) show ?thesis by blast
  next
    case False
    with "1.prems" show ?thesis by (subst (asm) archive_loop.simps) simp
  qed
qed

text \<open>The loop ends with the cursor at the end of the input.\<close>

lemma archive_loop_end: "archive_loop bs lim st = Inr st' \<Longrightarrow> length bs \<le> ar_cursor st'"
proof (induction bs lim st arbitrary: st' rule: archive_loop.induct)
  case (1 bs lim st)
  show ?case
  proof (cases "ar_cursor st < length bs")
    case True
    with "1.prems" obtain st1 where
      "archive_entry bs lim st = Inr st1" "archive_loop bs lim st1 = Inr st'"
      by (subst (asm) archive_loop.simps) (auto simp: result_simps)
    with "1.IH" [OF True] show ?thesis by blast
  next
    case False
    with "1.prems" show ?thesis by (subst (asm) archive_loop.simps) simp
  qed
qed

subsection \<open>Writing an archive\<close>

text \<open>The reference writer: plain member names, blank date, owner and mode fields, the size in
  decimal, payloads padded to even length.\<close>

fun decimal_digits :: "nat \<Rightarrow> bytes" where
  "decimal_digits n =
     (if n < 10 then [of_nat (48 + n)]
      else decimal_digits (n div 10) @ [of_nat (48 + n mod 10)])"

declare decimal_digits.simps [simp del]

definition pad_to :: "nat \<Rightarrow> bytes \<Rightarrow> bytes" where
  "pad_to n bs = bs @ replicate (n - length bs) 0x20"

definition render_member :: "archive_member \<Rightarrow> bytes" where
  "render_member m =
     pad_to 16 (am_name m) @ replicate 32 0x20 @
     pad_to 10 (decimal_digits (length (am_bytes m))) @ [0x60, 0x0A] @
     am_bytes m @ (if length (am_bytes m) mod 2 \<noteq> 0 then [0x0A] else [])"

definition render_archive :: "archive_member list \<Rightarrow> bytes" where
  "render_archive ms = lit ''!<arch>'' @ [0x0A] @ concat (map render_member ms)"

definition plain_byte :: "u8 \<Rightarrow> bool" where
  "plain_byte b = (0x20 < b \<and> b < 0x7F \<and> b \<noteq> 0x2F)"

definition plain_member :: "archive_member \<Rightarrow> bool" where
  "plain_member m \<longleftrightarrow>
     am_name m \<noteq> [] \<and> length (am_name m) \<le> 16 \<and> (\<forall>b\<in>set (am_name m). plain_byte b) \<and>
     \<not> is_bsd_index (am_name m)"

lemma leading_space_blank:
  "leading_space white_space (0x20 # bs) = Suc 0"
  "leading_space (map rev white_space) (0x20 # bs) = Suc 0"
  by (simp_all add: leading_space_def white_space_def)

lemma leading_space_plain:
  assumes "(0x20 :: u8) < b" "b < 0x7F"
  shows "leading_space white_space (b # bs) = 0"
    and "leading_space (map rev white_space) (b # bs) = 0"
proof -
  have n: "0x20 < unat b" "unat b < 0x7F" using assms by (simp_all add: word_less_nat_alt)
  have ne: "b \<noteq> c" "c \<noteq> b" if "unat c \<le> 0x20 \<or> 0x7F \<le> unat c" for c using that n by auto
  show "leading_space white_space (b # bs) = 0"
    by (simp add: leading_space_def white_space_def ne)
  show "leading_space (map rev white_space) (b # bs) = 0"
    by (simp add: leading_space_def white_space_def ne)
qed

lemma trim_front_blanks:
  assumes "\<And>bs. leading_space ws (0x20 # bs) = Suc 0"
  shows "trim_front ws (replicate k 0x20 @ bs) = trim_front ws bs"
  by (induction k) (simp_all add: assms)

lemma trim_front_plain:
  "leading_space ws (b # bs) = 0 \<Longrightarrow> trim_front ws (b # bs) = b # bs"
  by simp

lemma trim_end_pad:
  assumes "xs \<noteq> []" "\<forall>b\<in>set xs. 0x20 < b \<and> b < 0x7F"
  shows "trim_end (xs @ replicate k 0x20) = xs"
proof -
  obtain ys b where xs: "xs = ys @ [b]" using assms(1) by (meson rev_exhaust)
  then have "trim_front (map rev white_space) (rev xs) = rev xs"
    using assms(2) leading_space_plain(2) by simp
  then show ?thesis
    by (simp add: trim_end_def trim_front_blanks [OF leading_space_blank(2)])
qed

lemma trim_pad:
  assumes "xs \<noteq> []" "\<forall>b\<in>set xs. 0x20 < b \<and> b < 0x7F"
  shows "trim (xs @ replicate k 0x20) = xs"
proof -
  obtain b ys where xs: "xs = b # ys" using assms(1) by (cases xs) auto
  have "trim_start (xs @ replicate k 0x20) = xs @ replicate k 0x20"
    using assms(2) leading_space_plain(1) [of b] by (simp add: trim_start_def xs)
  then show ?thesis using trim_end_pad [OF assms] by (simp add: trim_def)
qed

lemma decimal_digits_props:
  "decimal_digits n \<noteq> []" "\<forall>b\<in>set (decimal_digits n). is_digit b"
  "digits_value (decimal_digits n) = n"
proof (induction n rule: decimal_digits.induct)
  case (1 n)
  have digit: "unat (of_nat (48 + d) :: u8) = 48 + d" if "d < 10" for d
    using that by (simp only: unat_of_nat) simp
  then have is_digit: "is_digit (of_nat (48 + d))" if "d < 10" for d
    using that by (simp add: is_digit_def word_le_nat_alt del: of_nat_add)
  {
    case 1
    show ?case by (subst decimal_digits.simps) simp
  next
    case 2
    show ?case
      using "1.IH"(2) is_digit by (subst decimal_digits.simps) (auto simp del: of_nat_add)
  next
    case 3
    show ?case
    proof (cases "n < 10")
      case True
      then show ?thesis
        using digit [OF True] by (subst decimal_digits.simps) (simp add: digits_value_def del: of_nat_add)
    next
      case False
      have m: "n mod 10 < 10" by simp
      from False "1.IH"(3) show ?thesis
        using digit [OF m] by (subst decimal_digits.simps) (simp add: digits_value_def del: of_nat_add)
    qed
  }
qed

lemma length_decimal_digits: "n < 10 ^ Suc k \<Longrightarrow> length (decimal_digits n) \<le> Suc k"
proof (induction k arbitrary: n)
  case 0
  then show ?case by (subst decimal_digits.simps) simp
next
  case (Suc k)
  then have "n div 10 < 10 ^ Suc k" by (simp add: div_less_iff_less_mult)
  with Suc.IH show ?case by (subst decimal_digits.simps) simp
qed

lemma digit_bounds: "is_digit b \<Longrightarrow> 0x20 < b \<and> b < 0x7F"
  by (simp add: is_digit_def word_le_nat_alt word_less_nat_alt)

lemma decimal_pad:
  assumes "n \<le> usize_max"
  shows "decimal (pad_to k (decimal_digits n)) = Inr n"
proof -
  note d = decimal_digits_props [of n]
  have "utf8_valid (pad_to k (decimal_digits n))"
    using d(2) digit_bounds
    by (intro utf8_valid_ascii) (fastforce simp: pad_to_def word_le_nat_alt word_less_nat_alt)
  moreover have "trim (pad_to k (decimal_digits n)) = decimal_digits n"
    unfolding pad_to_def using d digit_bounds by (intro trim_pad) auto
  ultimately show ?thesis using d assms by (simp add: decimal_def list_all_iff)
qed

lemma trim_end_matches_none: "b \<notin> set bs \<Longrightarrow> trim_end_matches b bs = bs"
proof -
  assume "b \<notin> set bs"
  then have "dropWhile (\<lambda>x. x = b) (rev bs) = rev bs"
    by (cases bs rule: rev_cases) auto
  then show ?thesis by (simp add: trim_end_matches_def)
qed

lemma entry_name_plain:
  assumes "plain_member m"
  shows "entry_name lim (am_name m) payload st = Inr (Some (am_name m), payload, None, st)"
proof -
  have slash: "0x2F \<notin> set (am_name m)" and ne: "am_name m \<noteq> []"
    using assms by (auto simp: plain_member_def plain_byte_def)
  have lits: "lit ''//'' = [0x2F, 0x2F]" "lit ''/'' = [0x2F]"
    "lit ''/SYM64/'' = 0x2F # tl (lit ''/SYM64/'')" "lit ''#1/'' = [0x23, 0x31, 0x2F]"
    by (simp_all add: lit_def)
  have "strip_prefix (lit ''#1/'') (am_name m) = None" "strip_prefix (lit ''/'') (am_name m) = None"
    using slash in_set_takeD [of "0x2F" _ "am_name m"]
    by (auto simp: strip_prefix_def lits) (metis in_set_takeD list.set_intros(1,2))+
  moreover have "am_name m \<noteq> lit ''//''" "am_name m \<noteq> lit ''/''" "am_name m \<noteq> lit ''/SYM64/''"
    using slash lits by (metis list.set_intros(1))+
  ultimately show ?thesis
    using trim_end_matches_none [OF slash] by (simp add: entry_name_def)
qed

lemma slice_append:
  "slice (pre @ xs @ post) (length pre) (length pre + length xs) = Some xs"
  by (simp add: slice_def)

lemma slice_appendI:
  "bs = pre @ xs @ post \<Longrightarrow> a = length pre \<Longrightarrow> b = a + length xs \<Longrightarrow> slice bs a b = Some xs"
  by (simp add: slice_append)

definition member_work :: "archive_member \<Rightarrow> nat" where
  "member_work m = 61 + 2 * length (am_name m)"

definition member_strings :: "archive_member \<Rightarrow> nat" where
  "member_strings m = 2 * length (am_name m)"

definition after_member :: "archive_member \<Rightarrow> archive_state \<Rightarrow> archive_state" where
  "after_member m st = st
     \<lparr>ar_cursor := ar_cursor st + length (render_member m), ar_names := ar_names st + length (am_name m),
      ar_strings := ar_strings st + member_strings m, ar_work := ar_work st + member_work m,
      ar_members := ar_members st @ [m]\<rparr>"

lemma push_plain:
  assumes "plain_member m" "length (ar_members st) < 4096"
    and "ar_names st + length (am_name m) \<le> max_names lim" "max_names lim \<le> usize_max"
    and "ar_strings st + member_strings m \<le> max_strings lim" "max_strings lim \<le> usize_max"
    and "ar_work st + 2 * length (am_name m) + 1 \<le> max_arc_work lim" "max_arc_work lim \<le> usize_max"
  shows "push_member lim (Some (am_name m), am_bytes m, None, st) =
    Inr (st\<lparr>ar_names := ar_names st + length (am_name m),
      ar_strings := ar_strings st + member_strings m,
      ar_work := ar_work st + (2 * length (am_name m) + 1), ar_members := ar_members st @ [m]\<rparr>)"
proof -
  have "0 \<notin> set (am_name m)" "am_name m \<noteq> []" "\<not> is_bsd_index (am_name m)"
    using assms(1) by (auto simp: plain_member_def plain_byte_def)
  moreover have "saturating_add (saturating_mul (length (am_name m)) 2) 1 = 2 * length (am_name m) + 1"
    using assms(7,8) by (simp add: saturating_add_def saturating_mul_def)
  ultimately show ?thesis
    using assms(2-)
    by (simp add: push_member_def usize_add_def charge_archive_def member_strings_def)
qed

lemma render_header:
  assumes "plain_member m" "length (am_bytes m) < 10 ^ 10"
  shows "length (pad_to 16 (am_name m)) = 16"
    "length (pad_to 10 (decimal_digits (length (am_bytes m)))) = 10"
    "utf8_valid (pad_to 16 (am_name m))" "trim_end (pad_to 16 (am_name m)) = am_name m"
proof -
  show "length (pad_to 16 (am_name m)) = 16" using assms(1) by (simp add: pad_to_def plain_member_def)
  show "length (pad_to 10 (decimal_digits (length (am_bytes m)))) = 10"
    using length_decimal_digits [of "length (am_bytes m)" 9] assms(2) by (simp add: pad_to_def)
  show "utf8_valid (pad_to 16 (am_name m))"
    using assms(1) by (intro utf8_valid_ascii)
      (fastforce simp: pad_to_def plain_member_def plain_byte_def word_le_nat_alt word_less_nat_alt)
  show "trim_end (pad_to 16 (am_name m)) = am_name m"
    using assms(1) unfolding pad_to_def
    by (intro trim_end_pad) (auto simp: plain_member_def plain_byte_def)
qed

definition room :: "archive_limits \<Rightarrow> archive_member list \<Rightarrow> archive_state \<Rightarrow> bool" where
  "room lim ms st \<longleftrightarrow>
     length (ar_members st) + length ms \<le> 4096 \<and>
     ar_names st + sum_list (map (length \<circ> am_name) ms) \<le> max_names lim \<and>
     ar_strings st + sum_list (map member_strings ms) \<le> max_strings lim \<and>
     ar_work st + sum_list (map member_work ms) \<le> max_arc_work lim \<and>
     max_names lim \<le> usize_max \<and> max_strings lim \<le> usize_max \<and> max_arc_work lim \<le> usize_max"

lemma archive_entry_rendered:
  assumes bs: "bs = pre @ render_member m @ post" "length bs \<le> 256 * 1024 * 1024"
    and st: "ar_cursor st = length pre" and m: "plain_member m" and room: "room lim (m # ms) st"
  shows "archive_entry bs lim st = Inr (after_member m st)"
proof -
  let ?hdr = "pad_to 16 (am_name m) @ replicate 32 0x20 @
     pad_to 10 (decimal_digits (length (am_bytes m))) @ [0x60, 0x0A]"
  let ?pad = "if length (am_bytes m) mod 2 \<noteq> 0 then [0x0A] else []"
  let ?n = "length (am_bytes m)"
  have len: "?n < 10 ^ 10" "?n \<le> usize_max" using bs by (simp_all add: render_member_def usize_max_def)
  note h = render_header [OF m len(1)]
  have bs': "bs = pre @ ?hdr @ am_bytes m @ ?pad @ post" by (simp add: bs render_member_def)
  have lh: "length ?hdr = 60" by (simp add: h)
  have range: "length pre + 60 + ?n \<le> 256 * 1024 * 1024" using bs(2) lh by (simp add: bs')
  have add: "usize_add (length pre) 60 = Some (length pre + 60)"
    "usize_add (length pre + 60) ?n = Some (length pre + 60 + ?n)"
    using range by (simp_all add: usize_add_def usize_max_def)
  have s1: "slice bs (length pre) (length pre + 60) = Some ?hdr"
    by (rule slice_appendI [of _ pre _ "am_bytes m @ ?pad @ post"]) (simp_all add: bs' lh h)
  have s2: "slice bs (length pre + 60) (length pre + 60 + ?n) = Some (am_bytes m)"
    by (rule slice_appendI [of _ "pre @ ?hdr" _ "?pad @ post"]) (simp_all add: bs' lh h)
  have fields: "drop 58 ?hdr = [0x60, 0x0A]"
    "take 10 (drop 48 ?hdr) = pad_to 10 (decimal_digits ?n)" "take 16 ?hdr = pad_to 16 (am_name m)"
    by (simp_all add: h)
  have charge: "charge_archive (ar_work st) 60 (max_arc_work lim) = Inr (ar_work st + 60)"
    using room by (simp add: room_def member_work_def charge_archive_Inr)
  have push: "push_member lim (Some (am_name m), am_bytes m, None, st\<lparr>ar_work := ar_work st + 60\<rparr>) =
    Inr (st\<lparr>ar_names := ar_names st + length (am_name m),
      ar_strings := ar_strings st + member_strings m,
      ar_work := ar_work st + member_work m, ar_members := ar_members st @ [m]\<rparr>)"
    using room m by (subst push_plain) (simp_all add: room_def member_work_def)
  have pad: "get bs (length pre + 60 + ?n) = Some 0x0A" if "?n mod 2 \<noteq> 0"
    using that by (simp add: bs' get_def nth_append h)
  have cursor: "length (render_member m) = 60 + ?n + (if ?n mod 2 \<noteq> 0 then 1 else 0)"
    by (simp add: render_member_def h)
  show ?thesis
    using pad
    by (simp add: archive_entry_def charge add s1 s2 fields decimal_pad [OF len(2)] utf8_def h
        entry_name_plain [OF m] push after_member_def cursor st)
qed

lemma room_after: "room lim (m # ms) st \<Longrightarrow> room lim ms (after_member m st)"
  by (simp add: room_def after_member_def)

lemma archive_loop_rendered:
  assumes "bs = pre @ concat (map render_member ms)" "length bs \<le> 256 * 1024 * 1024"
    and "ar_cursor st = length pre" "\<forall>m\<in>set ms. plain_member m" "room lim ms st"
  shows "\<exists>st'. archive_loop bs lim st = Inr st' \<and> ar_members st' = ar_members st @ ms"
  using assms
proof (induction ms arbitrary: pre st)
  case Nil
  then show ?case by (subst archive_loop.simps) simp
next
  case (Cons m ms)
  have step: "archive_entry bs lim st = Inr (after_member m st)"
    using Cons.prems by (intro archive_entry_rendered [of _ pre _ "concat (map render_member ms)"]) auto
  have "ar_cursor st < length bs" using Cons.prems by (simp add: render_member_def)
  with step have loop: "archive_loop bs lim st = archive_loop bs lim (after_member m st)"
    by (subst archive_loop.simps) simp
  have "\<exists>st'. archive_loop bs lim (after_member m st) = Inr st' \<and>
    ar_members st' = ar_members (after_member m st) @ ms"
  proof (rule Cons.IH [of "pre @ render_member m"])
    show "room lim ms (after_member m st)" using Cons.prems(5) by (rule room_after)
  qed (use Cons.prems in \<open>auto simp: after_member_def\<close>)
  with loop show ?case by (auto simp: after_member_def)
qed

lemma sum_list_bound: "\<forall>x\<in>set xs. f x \<le> (k::nat) \<Longrightarrow> sum_list (map f xs) \<le> length xs * k"
  by (induction xs) auto

lemma plain_sums:
  assumes "\<forall>m\<in>set ms. plain_member m" "length ms \<le> 4096"
  shows "sum_list (map (length \<circ> am_name) ms) \<le> 4096 * 16"
    "sum_list (map member_strings ms) \<le> 4096 * 32" "sum_list (map member_work ms) \<le> 4096 * 93"
proof -
  have n: "\<forall>m\<in>set ms. length (am_name m) \<le> 16" using assms(1) by (auto simp: plain_member_def)
  show "sum_list (map (length \<circ> am_name) ms) \<le> 4096 * 16"
    using sum_list_bound [of ms "length \<circ> am_name" 16] n assms(2) by fastforce
  show "sum_list (map member_strings ms) \<le> 4096 * 32"
    using sum_list_bound [of ms member_strings 32] n assms(2) by (fastforce simp: member_strings_def)
  show "sum_list (map member_work ms) \<le> 4096 * 93"
    using sum_list_bound [of ms member_work 93] n assms(2) by (fastforce simp: member_work_def)
qed

definition sample_members :: "archive_member list" where
  "sample_members =
     [\<lparr>am_name = lit ''a.o'', am_bytes = [1, 2, 3]\<rparr>, \<lparr>am_name = lit ''b.o'', am_bytes = []\<rparr>]"

lemma sample_members_plain: "\<forall>m\<in>set sample_members. plain_member m"
  by (auto simp: sample_members_def plain_member_def plain_byte_def is_bsd_index_def lit_def)

definition read_limits :: archive_limits where
  "read_limits =
     \<lparr>max_names = 1024 * 1024, max_strings = usize_max, max_arc_work = 512 * 1024 * 1024\<rparr>"

text \<open>Limits that leave room for the largest archive of plain members.\<close>

definition roomy :: "archive_limits \<Rightarrow> bool" where
  "roomy lim \<longleftrightarrow>
     {max_names lim, max_strings lim, max_arc_work lim} \<subseteq> {1024 * 1024..usize_max}"

lemma roomy_read_limits: "roomy read_limits"
  by (simp add: roomy_def read_limits_def usize_max_def)

lemma parse_rendered:
  assumes "\<forall>m\<in>set ms. plain_member m" "length ms \<le> 4096"
    and "length (render_archive ms) \<le> 256 * 1024 * 1024" and "roomy lim"
  shows "\<exists>strings work. parse_archive (render_archive ms) lim = Inr (ms, strings, work)"
proof -
  let ?st = "\<lparr>ar_cursor = 8, ar_members = [], ar_names = 0, ar_strings = 0, ar_long_names = None,
    ar_work = 8\<rparr>"
  let ?magic = "lit ''!<arch>'' @ [0x0A]"
  have magic: "length ?magic = 8" "take 8 (render_archive ms) = ?magic"
    by (simp_all add: render_archive_def lit_def)
  have "room lim ms ?st"
    using plain_sums [OF assms(1,2)] assms(2,4) by (simp add: room_def roomy_def)
  then obtain st' where "archive_loop (render_archive ms) lim ?st = Inr st'" "ar_members st' = ms"
    using archive_loop_rendered [of "render_archive ms" ?magic ms ?st lim] assms magic(1)
    by (auto simp: render_archive_def)
  moreover have "charge_archive 0 8 (max_arc_work lim) = Inr 8"
    using assms(4) by (simp add: charge_archive_Inr roomy_def)
  ultimately show ?thesis
    using magic(2) assms(3) by (simp add: parse_archive_def)
qed

lemma parse_archive_inv:
  assumes "parse_archive bs lim = Inr (members, strings, work)"
  shows "\<exists>st. archive_inv bs lim st \<and> members = ar_members st \<and> strings = ar_strings st \<and> work = ar_work st"
proof -
  from assms obtain st where
    run: "archive_loop bs lim \<lparr>ar_cursor = 8, ar_members = [], ar_names = 0, ar_strings = 0,
      ar_long_names = None, ar_work = 8\<rparr> = Inr st"
    and res: "members = ar_members st" "strings = ar_strings st" "work = ar_work st"
    and le: "8 \<le> max_arc_work lim" and magic: "take 8 bs = lit ''!<arch>'' @ [0x0A]"
    by (auto simp: parse_archive_def result_simps split: if_splits)
  have "length (take 8 bs) = 8" by (simp only: magic) (simp add: lit_def)
  then have "8 \<le> length bs" by simp
  with le have "archive_inv bs lim \<lparr>ar_cursor = 8, ar_members = [], ar_names = 0, ar_strings = 0,
      ar_long_names = None, ar_work = 8\<rparr>"
    by (simp add: archive_inv_def)
  from archive_loop_inv [OF run this] res show ?thesis by blast
qed

subsection \<open>Properties\<close>



text \<open>Whatever the input, a successful parse has at most 4096 members, stays within the
  name, string and work budgets, and every member is named and is a contiguous slice of the
  input; the headers and payloads together fit the input, so no byte is counted twice.\<close>

theorem archive_parse_bounds:
  assumes "parse_archive bs lim = Inr (members, strings, work)"
  shows "length members \<le> 4096 \<and> strings \<le> max_strings lim \<and> work \<le> max_arc_work lim \<and>
    sum_list (map (length \<circ> am_name) members) \<le> max_names lim \<and>
    8 + sum_list (map (\<lambda>m. 60 + length (am_bytes m)) members) \<le> length bs \<and>
    (\<forall>m\<in>set members. am_name m \<noteq> [] \<and> 0 \<notin> set (am_name m) \<and> \<not> is_bsd_index (am_name m) \<and>
       (\<exists>at. slice bs at (at + length (am_bytes m)) = Some (am_bytes m)))"
  using parse_archive_inv [OF assms] by (auto simp: archive_inv_def member_ok_def)

theorem archive_parse_bounds_witness:
  "\<exists>bs strings work. parse_archive bs read_limits = Inr (sample_members, strings, work) \<and>
     8 + 123 \<le> length bs"
proof -
  have "length (render_archive sample_members) \<le> 256 * 1024 * 1024" "length sample_members \<le> 4096"
    by (simp_all add: render_archive_def sample_members_def render_member_def pad_to_def lit_def
        decimal_digits.simps)
  from parse_rendered [OF sample_members_plain this(2,1) roomy_read_limits] obtain strings work where
    run: "parse_archive (render_archive sample_members) read_limits = Inr (sample_members, strings, work)"
    by blast
  from archive_parse_bounds [OF run] have "8 + 123 \<le> length (render_archive sample_members)"
    by (simp add: sample_members_def)
  with run show ?thesis by blast
qed

end
