(* ===== verification/LinkSelection.thy ===== *)
theory LinkSelection
  imports LinkArchive
begin

text \<open>
  Archive member selection, \<open>linker/src/core/selection.rs\<close>: left-to-right archive
  semantics with each archive rescanned to a fixed point, under a work budget, a payload
  limit and a limit on the number of objects.  The abstract specification is a step relation
  that pulls one member at a time; the executable search refines it.
\<close>

record archive_object =
  ao_name :: bytes
  ao_object :: object_file

datatype link_input = ObjectInput object_file | ArchiveInput "archive_object list"

datatype selection_error = SelectedLimit | SelectionWork | PayloadLimit

definition charge :: "usize \<Rightarrow> selection_error + usize" where
  "charge fuel = ok_or (usize_sub fuel 1) SelectionWork"

definition exported :: "object_symbol \<Rightarrow> bool" where
  "exported s = (sym_section s \<noteq> None \<and> sym_binding s \<noteq> Local)"

definition collect_definition ::
  "object_symbol \<Rightarrow> string set \<times> usize \<Rightarrow> selection_error + string set \<times> usize" where
  "collect_definition s = (\<lambda>(definitions, fuel).
     rbind (charge fuel) (\<lambda>fuel'.
     Inr (if exported s then insert (sym_name s) definitions else definitions, fuel')))"

definition local_names :: "object_file \<Rightarrow> string set" where
  "local_names obj =
     sym_name ` set (filter (\<lambda>s. sym_binding s = Local \<and> sym_section s \<noteq> None) (obj_symbols obj))"

definition weak_names :: "object_file \<Rightarrow> string set" where
  "weak_names obj =
     sym_name ` set (filter (\<lambda>s. sym_binding s = Weak \<and> sym_section s = None) (obj_symbols obj))"

definition collect_need ::
  "string set \<Rightarrow> object_file \<Rightarrow> object_relocation \<Rightarrow> string set \<times> usize
     \<Rightarrow> selection_error + string set \<times> usize" where
  "collect_need definitions obj r = (\<lambda>(needed, fuel).
     rbind (charge fuel) (\<lambda>fuel'.
     Inr (if rel_symbol r \<notin> definitions \<and> rel_symbol r \<notin> local_names obj \<and>
             rel_symbol r \<notin> weak_names obj
          then insert (rel_symbol r) needed else needed, fuel')))"

definition unresolved ::
  "object_file list \<Rightarrow> string \<Rightarrow> usize \<Rightarrow> selection_error + string set \<times> usize" where
  "unresolved objects entry fuel =
     rbind (foldR (\<lambda>obj. foldR collect_definition (obj_symbols obj)) objects ({}, fuel))
       (\<lambda>(definitions, fuel1).
     foldR (\<lambda>obj. foldR (collect_need definitions obj) (obj_relocations obj)) objects
       (if entry \<notin> definitions then {entry} else {}, fuel1))"

definition check_payload :: "object_file \<Rightarrow> u64 \<Rightarrow> u64 \<Rightarrow> selection_error + u64" where
  "check_payload obj limit so_far =
     foldR (\<lambda>sec n. case checked_add n (len64 (sec_data sec)) of
                Some n' \<Rightarrow> if n' \<le> limit then Inr n' else Inl PayloadLimit
              | None \<Rightarrow> Inl PayloadLimit)
       (obj_sections obj) so_far"

text \<open>The search for a member that defines a demanded symbol: over the symbols of a member, then
  over the members not used yet, in order.\<close>

fun scan_symbols :: "string set \<Rightarrow> object_symbol list \<Rightarrow> usize \<Rightarrow> selection_error + bool \<times> usize" where
  "scan_symbols demand [] fuel = Inr (False, fuel)"
| "scan_symbols demand (s # ss) fuel =
     rbind (charge fuel) (\<lambda>fuel'.
     if exported s \<and> sym_name s \<in> demand then Inr (True, fuel')
     else scan_symbols demand ss fuel')"

fun scan_members ::
  "string set \<Rightarrow> (usize \<times> bool \<times> archive_object) list \<Rightarrow> usize
     \<Rightarrow> selection_error + usize option \<times> usize" where
  "scan_members demand [] fuel = Inr (None, fuel)"
| "scan_members demand ((i, used, m) # ms) fuel =
     (if used then scan_members demand ms fuel
      else rbind (scan_symbols demand (obj_symbols (ao_object m)) fuel) (\<lambda>(found, fuel').
           if found then Inr (Some i, fuel') else scan_members demand ms fuel'))"

record selection_state =
  sel_objects :: "object_file list"
  sel_fuel :: usize
  sel_payload :: u64

text \<open>One turn of the \<open>loop\<close> over an archive: \<open>None\<close> is the \<open>break\<close>.\<close>

definition pull_member ::
  "string \<Rightarrow> u64 \<Rightarrow> archive_object list \<Rightarrow> bool list \<Rightarrow> selection_state
     \<Rightarrow> selection_error + (bool list option \<times> selection_state)" where
  "pull_member entry max_bytes members used st =
     rbind (unresolved (sel_objects st) entry (sel_fuel st)) (\<lambda>(demand, fuel).
     rbind (scan_members demand (enumerate 0 (zip used members)) fuel) (\<lambda>(found, fuel').
     case found of
       None \<Rightarrow> Inr (None, st\<lparr>sel_fuel := fuel'\<rparr>)
     | Some i \<Rightarrow>
         rbind (check_payload (ao_object (members ! i)) max_bytes (sel_payload st)) (\<lambda>payload.
         let selected = sel_objects st @ [ao_object (members ! i)] in
         if length selected > 4096 then Inl SelectedLimit
         else Inr (Some (used[i := True]),
                   \<lparr>sel_objects = selected, sel_fuel = fuel', sel_payload = payload\<rparr>))))"

definition unused :: "bool list \<Rightarrow> nat" where
  "unused used = length (filter Not used)"

lemma scan_members_unused:
  "scan_members demand ms fuel = Inr (Some i, fuel') \<Longrightarrow> \<exists>m. (i, False, m) \<in> set ms"
proof (induction ms arbitrary: fuel)
  case (Cons x ms)
  obtain j u m where x: "x = (j, u, m)" by (cases x)
  from Cons.prems consider (rest) f where "scan_members demand ms f = Inr (Some i, fuel')"
    | (here) "\<not> u" "i = j"
    by (auto simp: x result_simps split: if_splits)
  then show ?case
  proof cases
    case rest
    from Cons.IH [OF rest] show ?thesis by auto
  next
    case here
    then show ?thesis by (auto simp: x)
  qed
qed simp

lemma unused_update: "i < length used \<Longrightarrow> \<not> used ! i \<Longrightarrow> unused (used[i := True]) < unused used"
proof (induction used arbitrary: i)
  case (Cons u us)
  then show ?case by (cases i) (auto simp: unused_def)
qed simp

lemma pull_member_unused:
  assumes "pull_member entry max_bytes members used st = Inr (Some used', st')"
  shows "unused used' < unused used"
proof -
  from assms(1) obtain demand fuel fuel' i where
    "scan_members demand (enumerate 0 (zip used members)) fuel = Inr (Some i, fuel')"
    "used' = used[i := True]"
    by (auto simp: pull_member_def result_simps Let_def split: option.splits if_splits)
  then have "\<not> used ! i" "i < length used" "used' = used[i := True]"
    by (auto dest!: scan_members_unused simp: in_set_enumerate_eq)
  with unused_update show ?thesis by simp
qed

text \<open>Every turn of the loop that does not break marks a member as used, so the loop ends.\<close>

function select_archive ::
  "string \<Rightarrow> u64 \<Rightarrow> archive_object list \<Rightarrow> bool list \<Rightarrow> selection_state
     \<Rightarrow> selection_error + selection_state" where
  "select_archive entry max_bytes members used st =
     rbind (pull_member entry max_bytes members used st) (\<lambda>(next_used, st').
     case next_used of
       None \<Rightarrow> Inr st'
     | Some used' \<Rightarrow> select_archive entry max_bytes members used' st')"
  by pat_completeness auto

termination
  by (relation "measure (\<lambda>(entry, max_bytes, members, used, st). unused used)")
     (auto dest!: pull_member_unused)

declare select_archive.simps [simp del]

definition select_input ::
  "string \<Rightarrow> u64 \<Rightarrow> link_input \<Rightarrow> selection_state \<Rightarrow> selection_error + selection_state" where
  "select_input entry max_bytes inp st =
     (case inp of
        ObjectInput obj \<Rightarrow>
          if length (sel_objects st) \<ge> 4096 then Inl SelectedLimit
          else rbind (check_payload obj max_bytes (sel_payload st)) (\<lambda>payload.
               Inr (st\<lparr>sel_payload := payload, sel_objects := sel_objects st @ [obj]\<rparr>))
      | ArchiveInput members \<Rightarrow>
          select_archive entry max_bytes members (replicate (length members) False) st)"

definition select ::
  "link_input list \<Rightarrow> string \<Rightarrow> u64 \<Rightarrow> selection_error + object_file list" where
  "select inputs entry max_bytes =
     rbind (foldR (select_input entry max_bytes) inputs
              \<lparr>sel_objects = [], sel_fuel = 10000000, sel_payload = 0\<rparr>)
       (\<lambda>st. Inr (sel_objects st))"

lemmas link_selection_defs [exec_simps] =
  charge_def exported_def collect_definition_def local_names_def weak_names_def
  collect_need_def unresolved_def check_payload_def pull_member_def select_input_def select_def

subsection \<open>The specification\<close>

definition defined_names :: "object_file list \<Rightarrow> string set" where
  "defined_names objects = {sym_name s | s obj. obj \<in> set objects \<and> s \<in> set (obj_symbols obj) \<and> exported s}"

definition demanded :: "object_file list \<Rightarrow> string \<Rightarrow> string set" where
  "demanded objects entry =
     ({entry} \<union> {rel_symbol r | r obj. obj \<in> set objects \<and> r \<in> set (obj_relocations obj) \<and>
        rel_symbol r \<notin> local_names obj \<and> rel_symbol r \<notin> weak_names obj}) - defined_names objects"

definition provides :: "archive_object \<Rightarrow> string set \<Rightarrow> bool" where
  "provides m names \<longleftrightarrow> (\<exists>s\<in>set (obj_symbols (ao_object m)). exported s \<and> sym_name s \<in> names)"

text \<open>A candidate is the first unused member that provides a demanded name.\<close>

definition candidate ::
  "string \<Rightarrow> archive_object list \<Rightarrow> bool list \<Rightarrow> object_file list \<Rightarrow> nat \<Rightarrow> bool" where
  "candidate entry members used objects i \<longleftrightarrow>
     i < length members \<and> \<not> used ! i \<and> provides (members ! i) (demanded objects entry) \<and>
     (\<forall>j<i. used ! j \<or> \<not> provides (members ! j) (demanded objects entry))"

inductive pulls ::
  "string \<Rightarrow> archive_object list \<Rightarrow> bool list \<Rightarrow> object_file list \<Rightarrow> object_file list \<Rightarrow> bool"
  for entry members where
  pulls_done: "\<forall>i. \<not> candidate entry members used objects i \<Longrightarrow>
     pulls entry members used objects objects"
| pulls_step: "candidate entry members used objects i \<Longrightarrow>
     pulls entry members (used[i := True]) (objects @ [ao_object (members ! i)]) result \<Longrightarrow>
     pulls entry members used objects result"

inductive selects :: "string \<Rightarrow> link_input list \<Rightarrow> object_file list \<Rightarrow> object_file list \<Rightarrow> bool"
  for entry where
  selects_nil: "selects entry [] objects objects"
| selects_object: "selects entry inputs (objects @ [obj]) result \<Longrightarrow>
     selects entry (ObjectInput obj # inputs) objects result"
| selects_archive: "pulls entry members (replicate (length members) False) objects objects' \<Longrightarrow>
     selects entry inputs objects' result \<Longrightarrow>
     selects entry (ArchiveInput members # inputs) objects result"

inductive_cases selects_nilE: "selects entry [] objects result"
inductive_cases selects_objectE: "selects entry (ObjectInput obj # inputs) objects result"
inductive_cases selects_archiveE: "selects entry (ArchiveInput members # inputs) objects result"

subsection \<open>The executable search refines it\<close>

lemma charge_Inr [result_simps]: "charge fuel = Inr fuel' \<longleftrightarrow> fuel = Suc fuel'"
  by (auto simp: charge_def result_simps checked_simps)

lemma collect_definitions_Inr:
  "foldR collect_definition ss (defs, fuel) = Inr (defs', fuel') \<Longrightarrow>
     defs' = defs \<union> sym_name ` {s \<in> set ss. exported s}"
  by (induction ss arbitrary: defs fuel) (auto simp: collect_definition_def result_simps split: if_splits)

lemma all_definitions_Inr:
  "foldR (\<lambda>obj. foldR collect_definition (obj_symbols obj)) objects (defs, fuel) = Inr (defs', fuel') \<Longrightarrow>
     defs' = defs \<union> defined_names objects"
proof (induction objects arbitrary: defs fuel)
  case (Cons obj objects)
  from Cons.prems obtain d f where "foldR collect_definition (obj_symbols obj) (defs, fuel) = Inr (d, f)"
    "foldR (\<lambda>obj. foldR collect_definition (obj_symbols obj)) objects (d, f) = Inr (defs', fuel')"
    by (auto simp: result_simps)
  from Cons.IH [OF this(2)] collect_definitions_Inr [OF this(1)] show ?case
    by (auto simp: defined_names_def)
qed (simp add: defined_names_def)

definition needs :: "string set \<Rightarrow> object_file \<Rightarrow> string set" where
  "needs defs obj = {rel_symbol r | r. r \<in> set (obj_relocations obj) \<and> rel_symbol r \<notin> defs \<and>
     rel_symbol r \<notin> local_names obj \<and> rel_symbol r \<notin> weak_names obj}"

lemma collect_needs_Inr:
  "foldR (collect_need defs obj) rs (needed, fuel) = Inr (needed', fuel') \<Longrightarrow>
     needed' = needed \<union> {rel_symbol r | r. r \<in> set rs \<and> rel_symbol r \<notin> defs \<and>
       rel_symbol r \<notin> local_names obj \<and> rel_symbol r \<notin> weak_names obj}"
proof (induction rs arbitrary: needed fuel)
  case (Cons r rs)
  from Cons.prems obtain n f where "collect_need defs obj r (needed, fuel) = Inr (n, f)"
    and rest: "foldR (collect_need defs obj) rs (n, f) = Inr (needed', fuel')" by (auto simp: result_simps)
  then have "n = needed \<union> {rel_symbol r' | r'. r' = r \<and> rel_symbol r \<notin> defs \<and>
      rel_symbol r \<notin> local_names obj \<and> rel_symbol r \<notin> weak_names obj}"
    by (auto simp: collect_need_def result_simps split: if_splits)
  with Cons.IH [OF rest] show ?case by auto
qed simp

lemma all_needs_Inr:
  "foldR (\<lambda>obj. foldR (collect_need defs obj) (obj_relocations obj)) objects (needed, fuel) =
     Inr (needed', fuel') \<Longrightarrow> needed' = needed \<union> (\<Union>obj\<in>set objects. needs defs obj)"
proof (induction objects arbitrary: needed fuel)
  case (Cons obj objects)
  from Cons.prems obtain n f where
    "foldR (collect_need defs obj) (obj_relocations obj) (needed, fuel) = Inr (n, f)"
    "foldR (\<lambda>obj. foldR (collect_need defs obj) (obj_relocations obj)) objects (n, f) = Inr (needed', fuel')"
    by (auto simp: result_simps)
  from Cons.IH [OF this(2)] collect_needs_Inr [OF this(1)] show ?case by (auto simp: needs_def)
qed simp

lemma demanded_needs:
  "demanded objects entry = (if entry \<notin> defined_names objects then {entry} else {}) \<union>
     (\<Union>obj\<in>set objects. needs (defined_names objects) obj)"
  by (auto simp: demanded_def needs_def)

lemma unresolved_Inr: "unresolved objects entry fuel = Inr (d, fuel') \<Longrightarrow> d = demanded objects entry"
  unfolding demanded_needs
  by (auto simp: unresolved_def rbind_eq_Inr dest!: all_definitions_Inr all_needs_Inr)

lemma scan_symbols_Inr:
  "scan_symbols demand ss fuel = Inr (found, fuel') \<Longrightarrow>
     found \<longleftrightarrow> (\<exists>s\<in>set ss. exported s \<and> sym_name s \<in> demand)"
  by (induction demand ss fuel rule: scan_symbols.induct) (auto simp: result_simps split: if_splits)

lemma scan_members_Inr:
  assumes "length used = length ms"
    and "scan_members demand (enumerate k (zip used ms)) fuel = Inr (found, fuel')"
  shows "case found of
        None \<Rightarrow> \<forall>j<length ms. used ! j \<or> \<not> provides (ms ! j) demand
      | Some i \<Rightarrow> \<exists>j<length ms. i = k + j \<and> \<not> used ! j \<and> provides (ms ! j) demand \<and>
          (\<forall>l<j. used ! l \<or> \<not> provides (ms ! l) demand)"
  using assms
proof (induction used ms arbitrary: k fuel rule: list_induct2)
  case (Cons u us m ms)
  have all_Suc: "(\<forall>j<Suc n. P j) \<longleftrightarrow> P 0 \<and> (\<forall>j<n. P (Suc j))" for n P
    by (metis Suc_less_eq less_Suc_eq_0_disj zero_less_Suc not0_implies_Suc)
  show ?case
  proof (cases "u \<or> \<not> provides m demand")
    case skip: True
    with Cons.prems obtain f where
      rest: "scan_members demand (enumerate (Suc k) (zip us ms)) f = Inr (found, fuel')"
      by (auto simp: result_simps provides_def dest!: scan_symbols_Inr split: if_splits)
    show ?thesis
    proof (cases found)
      case None
      with Cons.IH [OF rest] skip show ?thesis by (simp add: all_Suc)
    next
      case (Some i)
      with Cons.IH [OF rest] obtain j where "j < length ms" "i = Suc k + j" "\<not> us ! j"
        "provides (ms ! j) demand" "\<forall>l<j. us ! l \<or> \<not> provides (ms ! l) demand" by auto
      with skip Some show ?thesis by (auto simp: all_Suc intro!: exI [of _ "Suc j"])
    qed
  next
    case False
    with Cons.prems have "found = Some k"
      by (auto simp: result_simps provides_def dest!: scan_symbols_Inr split: if_splits)
    with False show ?thesis by (auto intro!: exI [of _ 0])
  qed
qed simp

lemma pull_member_Inr:
  assumes run: "pull_member entry max_bytes members used st = Inr (next_used, st')"
    and len: "length used = length members"
  shows "case next_used of
      None \<Rightarrow> sel_objects st' = sel_objects st \<and>
        (\<forall>i. \<not> candidate entry members used (sel_objects st) i)
    | Some used' \<Rightarrow> \<exists>i. candidate entry members used (sel_objects st) i \<and> used' = used[i := True] \<and>
        sel_objects st' = sel_objects st @ [ao_object (members ! i)]"
proof -
  let ?D = "demanded (sel_objects st) entry"
  from run obtain d fuel found fuel' where d: "unresolved (sel_objects st) entry (sel_fuel st) = Inr (d, fuel)"
    and scan: "scan_members d (enumerate 0 (zip used members)) fuel = Inr (found, fuel')"
    and rest: "(case found of
       None \<Rightarrow> Inr (None, st\<lparr>sel_fuel := fuel'\<rparr>)
     | Some i \<Rightarrow>
         rbind (check_payload (ao_object (members ! i)) max_bytes (sel_payload st)) (\<lambda>payload.
         let selected = sel_objects st @ [ao_object (members ! i)] in
         if length selected > 4096 then Inl SelectedLimit
         else Inr (Some (used[i := True]),
                   \<lparr>sel_objects = selected, sel_fuel = fuel', sel_payload = payload\<rparr>))) = Inr (next_used, st')"
    by (auto simp: pull_member_def rbind_eq_Inr)
  have D: "d = ?D" using d by (rule unresolved_Inr)
  note found = scan_members_Inr [OF len scan, unfolded D]
  show ?thesis
  proof (cases found)
    case None
    with rest found show ?thesis by (auto simp: candidate_def)
  next
    case (Some i)
    with found have "candidate entry members used (sel_objects st) i" by (auto simp: candidate_def)
    with Some rest show ?thesis by (auto simp: result_simps Let_def split: if_splits)
  qed
qed

lemma select_archive_pulls:
  assumes "select_archive entry max_bytes members used st = Inr st'" "length used = length members"
  shows "pulls entry members used (sel_objects st) (sel_objects st')"
  using assms
proof (induction entry max_bytes members used st rule: select_archive.induct)
  case (1 entry max_bytes members used st)
  from "1.prems"(1) obtain next_used st1 where
    step: "pull_member entry max_bytes members used st = Inr (next_used, st1)"
    and rest: "(case next_used of None \<Rightarrow> Inr st1
      | Some used' \<Rightarrow> select_archive entry max_bytes members used' st1) = Inr st'"
    by (subst (asm) select_archive.simps) (auto simp: rbind_eq_Inr)
  note pm = pull_member_Inr [OF step "1.prems"(2)]
  show ?case
  proof (cases next_used)
    case None
    with pm rest show ?thesis by (auto intro: pulls_done)
  next
    case (Some used')
    with pm rest "1.prems"(2) "1.IH" [OF step refl Some] show ?thesis
      by (auto intro: pulls_step)
  qed
qed

lemma select_inputs_selects:
  assumes "foldR (select_input entry max_bytes) inputs st = Inr st'"
  shows "selects entry inputs (sel_objects st) (sel_objects st')"
  using assms
proof (induction inputs arbitrary: st)
  case Nil
  then show ?case by (simp add: selects_nil)
next
  case (Cons inp inputs)
  from Cons.prems obtain st1 where step: "select_input entry max_bytes inp st = Inr st1"
    and rest: "foldR (select_input entry max_bytes) inputs st1 = Inr st'"
    by (auto simp: result_simps)
  note IH = Cons.IH [OF rest]
  show ?case
  proof (cases inp)
    case (ObjectInput obj)
    with step have "sel_objects st1 = sel_objects st @ [obj]"
      by (auto simp: select_input_def result_simps split: if_splits)
    with IH ObjectInput show ?thesis by (simp add: selects_object)
  next
    case (ArchiveInput members)
    with step have "pulls entry members (replicate (length members) False) (sel_objects st) (sel_objects st1)"
      by (intro select_archive_pulls [of _ max_bytes]) (simp_all add: select_input_def)
    with IH ArchiveInput show ?thesis by (simp add: selects_archive)
  qed
qed

text \<open>The specification determines the result.\<close>

lemma candidate_unique:
  "candidate entry members used objects i \<Longrightarrow> candidate entry members used objects j \<Longrightarrow> i = j"
  by (metis candidate_def linorder_neqE_nat)

lemma pulls_unique:
  "pulls entry members used objects r1 \<Longrightarrow> pulls entry members used objects r2 \<Longrightarrow> r1 = r2"
proof (induction arbitrary: r2 rule: pulls.induct)
  case (pulls_done used objects)
  from pulls_done.prems pulls_done.hyps show ?case by (cases rule: pulls.cases) auto
next
  case (pulls_step used objects i result)
  from pulls_step.prems show ?case
  proof (cases rule: pulls.cases)
    case pulls_done
    with pulls_step.hyps show ?thesis by blast
  next
    case (pulls_step j)
    with candidate_unique pulls_step.hyps pulls_step.IH show ?thesis by metis
  qed
qed

lemma selects_unique: "selects entry inputs objects r1 \<Longrightarrow> selects entry inputs objects r2 \<Longrightarrow> r1 = r2"
proof (induction arbitrary: r2 rule: selects.induct)
  case (selects_archive members objects objects' inputs result)
  from selects_archive.prems selects_archive show ?case
    by (elim selects_archiveE) (metis pulls_unique)
next
  case (selects_nil objects)
  then show ?case by (blast elim: selects_nilE)
next
  case (selects_object inputs objects obj result)
  then show ?case by (blast elim: selects_objectE)
qed

text \<open>When the pulling stops, no member exports a name that is still demanded: a used member
  defines its names itself.\<close>

lemma pulls_closed:
  assumes "pulls entry members used objects result"
    and "length used = length members"
    and "\<forall>i<length members. used ! i \<longrightarrow> ao_object (members ! i) \<in> set objects"
  shows "\<forall>m\<in>set members. \<not> provides m (demanded result entry)"
  using assms
proof (induction rule: pulls.induct)
  case (pulls_done used objects)
  show ?case
  proof
    fix m
    assume "m \<in> set members"
    then obtain i where i: "i < length members" "members ! i = m" by (auto simp: in_set_conv_nth)
    have first: "\<exists>j. candidate entry members used objects j" if "\<exists>j<length members. \<not> used ! j \<and>
        provides (members ! j) (demanded objects entry)"
    proof -
      let ?P = "\<lambda>j. j < length members \<and> \<not> used ! j \<and> provides (members ! j) (demanded objects entry)"
      from that have "\<exists>j. ?P j" by blast
      then have "?P (LEAST j. ?P j)" "\<forall>k<(LEAST j. ?P j). \<not> ?P k"
        by (rule LeastI_ex, blast dest: not_less_Least)
      then show ?thesis by (auto simp: candidate_def)
    qed
    show "\<not> provides m (demanded objects entry)"
    proof (cases "used ! i")
      case True
      with pulls_done.prems i have "ao_object m \<in> set objects" by auto
      then show ?thesis by (auto simp: provides_def demanded_def defined_names_def)
    next
      case False
      with first pulls_done.hyps i show ?thesis by blast
    qed
  qed
next
  case (pulls_step used objects i result)
  have "\<forall>j<length members. used[i := True] ! j \<longrightarrow>
      ao_object (members ! j) \<in> set (objects @ [ao_object (members ! i)])"
    using pulls_step.prems by (metis Un_iff list.set_intros(1) nth_list_update_neq set_append)
  with pulls_step.IH pulls_step.prems(1) show ?case by simp
qed

lemma selects_snoc_archive:
  assumes "selects entry inputs objects result" "inputs = pre @ [ArchiveInput members]"
  shows "\<exists>mid. pulls entry members (replicate (length members) False) mid result"
  using assms
proof (induction arbitrary: pre rule: selects.induct)
  case (selects_object inputs objects obj result)
  then show ?case by (cases pre) auto
next
  case (selects_archive members' objects objects' inputs result)
  then show ?case by (cases pre) (auto elim: selects_nilE)
qed simp

subsection \<open>Limits\<close>

definition payload_of :: "object_file \<Rightarrow> nat" where
  "payload_of obj = sum_list (map (\<lambda>sec. unat (len64 (sec_data sec))) (obj_sections obj))"

definition within_limits :: "u64 \<Rightarrow> selection_state \<Rightarrow> bool" where
  "within_limits max_bytes st \<longleftrightarrow>
     length (sel_objects st) \<le> 4096 \<and> sel_payload st \<le> max_bytes \<and>
     unat (sel_payload st) = sum_list (map payload_of (sel_objects st))"

lemma check_payload_Inr:
  assumes "check_payload obj limit n = Inr n'" "n \<le> limit"
  shows "n' \<le> limit \<and> unat n' = unat n + payload_of obj"
proof -
  have "foldR (\<lambda>sec n. case checked_add n (len64 (sec_data sec)) of
                Some n' \<Rightarrow> if n' \<le> limit then Inr n' else Inl PayloadLimit
              | None \<Rightarrow> Inl PayloadLimit) secs n = Inr n' \<Longrightarrow> n \<le> limit \<Longrightarrow>
    n' \<le> limit \<and> unat n' = unat n + sum_list (map (\<lambda>sec. unat (len64 (sec_data sec))) secs)" for secs
    by (induction secs arbitrary: n)
       (auto simp: result_simps checked_simps split: option.splits if_splits)
  from this [of "obj_sections obj"] assms show ?thesis by (simp add: check_payload_def payload_of_def)
qed

lemma pull_member_limits:
  assumes "pull_member entry max_bytes members used st = Inr (next_used, st')"
    and "within_limits max_bytes st"
  shows "within_limits max_bytes st'"
  using assms
  by (auto simp: pull_member_def rbind_eq_Inr within_limits_def Let_def
      dest!: check_payload_Inr split: option.splits if_splits)

lemma select_archive_limits:
  assumes "select_archive entry max_bytes members used st = Inr st'" "within_limits max_bytes st"
  shows "within_limits max_bytes st'"
  using assms
proof (induction entry max_bytes members used st rule: select_archive.induct)
  case (1 entry max_bytes members used st)
  from "1.prems"(1) obtain next_used st1 where
    step: "pull_member entry max_bytes members used st = Inr (next_used, st1)"
    and rest: "(case next_used of None \<Rightarrow> Inr st1
      | Some used' \<Rightarrow> select_archive entry max_bytes members used' st1) = Inr st'"
    by (subst (asm) select_archive.simps) (auto simp: rbind_eq_Inr)
  from pull_member_limits [OF step "1.prems"(2)] rest "1.IH" [OF step refl] show ?case
    by (cases next_used) auto
qed

lemma select_input_limits:
  "select_input entry max_bytes inp st = Inr st' \<Longrightarrow> within_limits max_bytes st \<Longrightarrow>
     within_limits max_bytes st'"
  by (cases inp) (auto simp: select_input_def rbind_eq_Inr within_limits_def
      dest: select_archive_limits [unfolded within_limits_def]
      dest!: check_payload_Inr split: if_splits)

lemma select_limits:
  assumes "select inputs entry max_bytes = Inr objects"
  shows "length objects \<le> 4096 \<and> sum_list (map payload_of objects) \<le> unat max_bytes"
proof -
  from assms obtain st where
    run: "foldR (select_input entry max_bytes) inputs
      \<lparr>sel_objects = [], sel_fuel = 10000000, sel_payload = 0\<rparr> = Inr st" and "objects = sel_objects st"
    by (auto simp: select_def rbind_eq_Inr)
  moreover have "within_limits max_bytes st"
    using run by (rule foldR_invariant [OF _ _ select_input_limits]) (simp_all add: within_limits_def)
  ultimately show ?thesis by (simp add: within_limits_def word_le_nat_alt)
qed

text \<open>The sample program with its helper in an archive.\<close>

definition sample_inputs :: "link_input list" where
  "sample_inputs =
     [ObjectInput sample_main, ArchiveInput [\<lparr>ao_name = lit ''helper.o'', ao_object = sample_helper\<rparr>]]"

lemma select_sample: "select sample_inputs ''_start'' 1000 = Inr [sample_main, sample_helper]"
  by (simp add: sample_inputs_def exec_simps sample_defs select_archive.simps Let_def word_le_nat_alt)

subsection \<open>Properties\<close>

text \<open>C10. A successful selection is the one the archive semantics prescribes: inputs are taken
  from left to right, and from each archive the first unused member that exports a demanded
  name is pulled until there is none; the specification determines the result, and the number
  of objects and their payload stay within the limits.\<close>

theorem select_refines_archive_semantics:
  assumes "select inputs entry max_bytes = Inr objects"
  shows "selects entry inputs [] objects \<and> (\<forall>other. selects entry inputs [] other \<longrightarrow> other = objects) \<and>
    length objects \<le> 4096 \<and> sum_list (map payload_of objects) \<le> unat max_bytes"
proof -
  from assms obtain st where
    run: "foldR (select_input entry max_bytes) inputs
      \<lparr>sel_objects = [], sel_fuel = 10000000, sel_payload = 0\<rparr> = Inr st" and res: "objects = sel_objects st"
    by (auto simp: select_def rbind_eq_Inr)
  have "selects entry inputs [] objects" using select_inputs_selects [OF run] res by simp
  with selects_unique select_limits [OF assms] show ?thesis by blast
qed

theorem select_refines_archive_semantics_witness:
  "select sample_inputs ''_start'' 1000 = Inr [sample_main, sample_helper] \<and>
   selects ''_start'' sample_inputs [] [sample_main, sample_helper]"
  using select_sample select_refines_archive_semantics [OF select_sample] by blast

text \<open>After the last archive has been scanned to its fixed point, none of its members exports
  a name that the selected objects still need.\<close>

theorem select_reaches_fixed_point:
  assumes "select (inputs @ [ArchiveInput members]) entry max_bytes = Inr objects"
    and "m \<in> set members" and "s \<in> set (obj_symbols (ao_object m))" and "exported s"
  shows "sym_name s \<notin> demanded objects entry"
proof -
  from assms(1) obtain st where
    run: "foldR (select_input entry max_bytes) (inputs @ [ArchiveInput members])
      \<lparr>sel_objects = [], sel_fuel = 10000000, sel_payload = 0\<rparr> = Inr st" and res: "objects = sel_objects st"
    by (auto simp: select_def rbind_eq_Inr)
  from selects_snoc_archive [OF select_inputs_selects [OF run] refl] obtain mid where
    "pulls entry members (replicate (length members) False) mid objects" unfolding res by blast
  from pulls_closed [OF this] assms(2-4) show ?thesis by (auto simp: provides_def)
qed

theorem select_reaches_fixed_point_witness:
  "select sample_inputs ''_start'' 1000 = Inr [sample_main, sample_helper] \<and>
   ''helper'' \<notin> demanded [sample_main, sample_helper] ''_start''"
proof -
  have "select ([ObjectInput sample_main] @
      [ArchiveInput [\<lparr>ao_name = lit ''helper.o'', ao_object = sample_helper\<rparr>]]) ''_start'' 1000 =
    Inr [sample_main, sample_helper]"
    using select_sample by (simp add: sample_inputs_def)
  from select_reaches_fixed_point [OF this, of _ "obj_symbols sample_helper ! 0"] select_sample
  show ?thesis by (simp add: sample_defs exported_def)
qed

end
