(* ===== verification/LinkExecutable.thy ===== *)
theory LinkExecutable
  imports LinkRelocation LinkSelection
begin

text \<open>
  The static ELF executable writer, \<open>linker/src/core/executable.rs\<close>, and the error type
  of the linker, \<open>linker/src/diagnostic.rs\<close>.  \<open>executable_layout\<close> places the
  sections of all inputs into page-aligned segments by permission; \<open>write_executable\<close>
  emits the headers and the relocated payloads.  A slice operation that Rust would panic on
  is the message \<open>LinkPanic\<close>, which is shown not to occur.
\<close>

subsection \<open>Link errors\<close>

datatype exec_error =
    ExecTarget target_error
  | ExecInput object_error
  | ExecAlignOverflow
  | ExecAddressOverflow
  | ExecMemorySize memory_size_error
  | ExecMemoryOverflow
  | ExecByteLimit
  | ExecVirtualOverflow
  | ExecAddressSpace

datatype link_error_kind =
  LinkInputKind | LinkSelectionKind | LinkSymbolsKind | LinkEntryKind | LinkLayoutKind
  | LinkRelocationKind | LinkEmissionKind

text \<open>The message of an error, as the cause it renders.\<close>

datatype link_message =
    EmptyEntry
  | EntryMissing string
  | EntryUndefined
  | EntryNotExecutable
  | EntryOverflow
  | SymbolsMessage symbol_error
  | LayoutMessage exec_error
  | RelocationMessage relocation_error
  | SelectionMessage selection_error
  | ObjectMessage object_error
  | ArchiveMessage archive_error
  | MemberMessage bytes link_message
  | InputMessage usize object_error
  | LinkPanic

record link_error =
  le_kind :: link_error_kind
  le_message :: link_message
  le_contexts :: "diag_context list"
  le_input_cause :: "object_error option"
  le_relocation_cause :: "relocation_error option"

definition link_error_new :: "link_error_kind \<Rightarrow> link_message \<Rightarrow> link_error" where
  "link_error_new k m =
     \<lparr>le_kind = k, le_message = m, le_contexts = [], le_input_cause = None,
      le_relocation_cause = None\<rparr>"

text \<open>The contexts a relocation error renders to.\<close>

definition relocation_contexts :: "relocation_error \<Rightarrow> diag_context list" where
  "relocation_contexts e =
     (case re_object e of Some oi \<Rightarrow> [CtxInput oi] | None \<Rightarrow> []) @
     (case re_section e of Some s \<Rightarrow> [CtxSection s None] | None \<Rightarrow> []) @
     (case re_offset e of Some at \<Rightarrow> [CtxSectionOffset (of_nat at)] | None \<Rightarrow> [])"

subsection \<open>Segments\<close>

definition exec_base :: u64 where "exec_base = 0x400000"

definition exec_page :: u64 where "exec_page = 4096"

definition user_end :: u64 where "user_end = push_bit 47 1 - exec_page"

record segment =
  sg_flags :: u32
  sg_offset :: u64
  sg_address :: u64
  sg_file_size :: u64
  sg_memory_size :: u64

definition exec_align :: "u64 \<Rightarrow> u64 \<Rightarrow> exec_error + u64" where
  "exec_align v a = ok_or (checked_add v (padding v a)) ExecAlignOverflow"

interpretation executable: aligner exec_align unat is_power_of_two
  by unfold_locales (simp_all add: exec_align_def result_simps align_simps is_power_of_two_pos)

definition validate_exec_input :: "object_file \<Rightarrow> exec_error + unit" where
  "validate_exec_input obj =
     rbind (map_err ExecTarget (validate_amd64 (obj_target obj))) (\<lambda>_.
     map_err ExecInput (validate_diagnostic obj))"

definition has_kind :: "section_kind list \<Rightarrow> object_file list \<Rightarrow> bool" where
  "has_kind kinds objects =
     list_ex (\<lambda>obj. list_ex (\<lambda>s. sec_kind s \<in> set kinds) (obj_sections obj)) objects"

definition header_size :: "object_file list \<Rightarrow> u64" where
  "header_size objects =
     64 + 56 * (2 + (if has_kind [ReadOnlyData] objects then 1 else 0)
                  + (if has_kind [Data, Bss] objects then 1 else 0))"

text \<open>The body of the innermost loop: the state is the layout, the cursor and the end of the
  file-backed part.\<close>

type_synonym segment_state = "layout \<times> u64 \<times> u64"

definition place_in_segment ::
  "section_kind \<Rightarrow> usize \<Rightarrow> usize \<times> obj_section \<Rightarrow> segment_state \<Rightarrow> exec_error + segment_state" where
  "place_in_segment kind oi = (\<lambda>(si, sec) (lay, cursor, file_end).
     if sec_kind sec \<noteq> kind then Inr (lay, cursor, file_end)
     else
       rbind (ok_or (checked_add exec_base cursor) ExecAddressOverflow) (\<lambda>addr.
       rbind (exec_align addr (max (sec_align sec) 1)) (\<lambda>va.
       let cursor' = va - exec_base in
       rbind (map_err ExecMemorySize (memory_size sec)) (\<lambda>size.
       let lay' = lay\<lparr>lay_offsets := (lay_offsets lay)[oi := (lay_offsets lay ! oi)[si := va]],
                      lay_sections := lay_sections lay @
                        [\<lparr>pl_object = oi, pl_section = si, pl_kind = kind,
                          pl_align = max (sec_align sec) 1, pl_file_offset = cursor',
                          pl_memory_address = va, pl_file_size = file_size sec,
                          pl_memory_size = size\<rparr>]\<rparr> in
       rbind (ok_or (checked_add cursor' size) ExecMemoryOverflow) (\<lambda>cursor''.
       Inr (lay', cursor'', if kind \<noteq> Bss then cursor'' else file_end))))))"

definition place_kind ::
  "object_file list \<Rightarrow> section_kind \<Rightarrow> segment_state \<Rightarrow> exec_error + segment_state" where
  "place_kind objects kind =
     foldR (\<lambda>(oi, obj). foldR (place_in_segment kind oi) (enumerate 0 (obj_sections obj)))
       (enumerate 0 objects)"

definition segment_plan :: "(section_kind list \<times> u32) list" where
  "segment_plan = [([Text], 5), ([ReadOnlyData], 4), ([Data, Bss], 6)]"

definition place_segment ::
  "object_file list \<Rightarrow> u64 \<Rightarrow> section_kind list \<times> u32 \<Rightarrow> layout \<times> segment list
     \<Rightarrow> exec_error + layout \<times> segment list" where
  "place_segment objects max_bytes = (\<lambda>(kinds, flags) (lay, segments).
     if \<not> (flags = 5 \<or> has_kind kinds objects) then Inr (lay, segments)
     else
       rbind (if flags = 5 then Inr 0 else exec_align (lay_file_size lay) exec_page) (\<lambda>start.
       let cursor = (if flags = 5 then header_size objects else start) in
       rbind (foldR (place_kind objects) kinds (lay, cursor, cursor)) (\<lambda>(lay', cursor', file_end).
       if file_end > max_bytes then Inl ExecByteLimit
       else
         rbind (ok_or (checked_add exec_base cursor') ExecVirtualOverflow) (\<lambda>memory_end.
         if memory_end > user_end then Inl ExecAddressSpace
         else Inr (lay'\<lparr>lay_file_size := file_end, lay_memory_size := cursor'\<rparr>,
                   segments @ [\<lparr>sg_flags = flags, sg_offset = start, sg_address = exec_base + start,
                                sg_file_size = file_end - start,
                                sg_memory_size = cursor' - start\<rparr>])))))"

definition executable_layout ::
  "object_file list \<Rightarrow> u64 \<Rightarrow> exec_error + layout \<times> segment list" where
  "executable_layout objects max_bytes =
     rbind (foldR (\<lambda>obj _. validate_exec_input obj) objects ()) (\<lambda>_.
     rbind (foldR (place_segment objects max_bytes) segment_plan
              (\<lparr>lay_offsets = map (\<lambda>obj. replicate (length (obj_sections obj)) 0) objects,
                lay_sizes = [], lay_sections = [], lay_base = exec_base,
                lay_file_size = header_size objects, lay_memory_size = header_size objects\<rparr>, []))
       (\<lambda>(lay, segments).
     rbind (foldR (\<lambda>sec sizes. rbind (map_err ExecMemorySize (memory_size sec))
                                (\<lambda>n. Inr (sizes @ [n])))
              (concat (map obj_sections objects)) []) (\<lambda>sizes.
     Inr (lay\<lparr>lay_sizes := sizes\<rparr>, segments))))"

subsection \<open>Writing the file\<close>

text \<open>\<open>out[at..at + n].copy_from_slice(bytes)\<close>.\<close>

definition write_at :: "usize \<Rightarrow> bytes \<Rightarrow> bytes \<Rightarrow> link_error + bytes" where
  "write_at at bs out =
     (if at + length bs \<le> length out then Inr (overwrite out at bs)
      else Inl (link_error_new LinkEmissionKind LinkPanic))"

definition put16 :: "usize \<Rightarrow> u16 \<Rightarrow> bytes \<Rightarrow> link_error + bytes" where
  "put16 at v = write_at at (to_le_bytes 2 v)"

definition put32 :: "usize \<Rightarrow> u32 \<Rightarrow> bytes \<Rightarrow> link_error + bytes" where
  "put32 at v = write_at at (to_le_bytes 4 v)"

definition put64 :: "usize \<Rightarrow> u64 \<Rightarrow> bytes \<Rightarrow> link_error + bytes" where
  "put64 at v = write_at at (to_le_bytes 8 v)"

text \<open>A sequence of writes.\<close>

definition then_write ::
  "(bytes \<Rightarrow> link_error + bytes) list \<Rightarrow> bytes \<Rightarrow> link_error + bytes" where
  "then_write ws = foldR (\<lambda>w. w) ws"

definition elf_ident :: bytes where
  "elf_ident = [0x7F, 0x45, 0x4C, 0x46, 2, 1, 1, 0, 0, 0, 0, 0, 0, 0, 0, 0]"

definition file_header_writes :: "u64 \<Rightarrow> usize \<Rightarrow> (bytes \<Rightarrow> link_error + bytes) list" where
  "file_header_writes address segment_count =
     [write_at 0 elf_ident, put16 16 2, put16 18 62, put32 20 1, put64 24 address, put64 32 64,
      put16 52 64, put16 54 56, put16 56 (of_nat (segment_count + 1))]"

definition program_header_writes :: "usize \<times> segment \<Rightarrow> (bytes \<Rightarrow> link_error + bytes) list" where
  "program_header_writes = (\<lambda>(i, s).
     let at = 64 + i * 56 in
     [put32 at 1, put32 (at + 4) (sg_flags s), put64 (at + 8) (sg_offset s),
      put64 (at + 16) (sg_address s), put64 (at + 24) (sg_address s),
      put64 (at + 32) (sg_file_size s), put64 (at + 40) (sg_memory_size s),
      put64 (at + 48) exec_page])"

definition stack_header_writes :: "usize \<Rightarrow> (bytes \<Rightarrow> link_error + bytes) list" where
  "stack_header_writes segment_count =
     (let at = 64 + segment_count * 56 in
      [put32 at 0x6474E551, put32 (at + 4) 6, put64 (at + 48) 16])"

definition payload_write ::
  "bytes list list \<Rightarrow> section_placement \<Rightarrow> bytes \<Rightarrow> link_error + bytes" where
  "payload_write payloads p out =
     (if pl_kind p = Bss then Inr out
      else case Option.bind (get payloads (pl_object p)) (\<lambda>x. get x (pl_section p)) of
        None \<Rightarrow> Inl (link_error_new LinkEmissionKind LinkPanic)
      | Some payload \<Rightarrow> write_at (unat (pl_file_offset p)) payload out)"

definition emit_file ::
  "u64 \<Rightarrow> layout \<Rightarrow> segment list \<Rightarrow> bytes list list \<Rightarrow> link_error + bytes" where
  "emit_file address lay segments payloads =
     then_write
       (file_header_writes address (length segments) @
        concat (map program_header_writes (enumerate 0 segments)) @
        stack_header_writes (length segments) @
        map (payload_write payloads) (lay_sections lay))
       (replicate (unat (lay_file_size lay)) 0)"

definition entry_symbol ::
  "object_file list \<Rightarrow> string \<Rightarrow> link_error + resolved_symbol \<times> usize \<times> usize" where
  "entry_symbol objects entry =
     rbind (ensure (entry \<noteq> '''') (link_error_new LinkEntryKind EmptyEntry)) (\<lambda>_.
     rbind (map_err (\<lambda>e. link_error_new LinkSymbolsKind (SymbolsMessage e)) (resolve_symbols objects))
       (\<lambda>symbols.
     rbind (ok_or (st_symbols symbols (GlobalKey entry))
              (link_error_new LinkEntryKind (EntryMissing entry))) (\<lambda>selected.
     case (rs_object selected, rs_section selected) of
       (Some owner, Some section) \<Rightarrow> Inr (selected, owner, section)
     | _ \<Rightarrow> Inl (link_error_new LinkEntryKind EntryUndefined))))"

definition relocation_failure :: "relocation_error \<Rightarrow> link_error" where
  "relocation_failure e =
     (link_error_new LinkRelocationKind (RelocationMessage e))
       \<lparr>le_contexts := relocation_contexts e, le_relocation_cause := Some e\<rparr>"

text \<open>\<open>usize::try_from\<close> of a 64-bit value always succeeds on the 64-bit host of the model,
  so the two host-capacity errors do not arise.\<close>

definition write_executable ::
  "object_file list \<Rightarrow> string \<Rightarrow> u64 \<Rightarrow> link_error + bytes" where
  "write_executable objects entry max_bytes =
     rbind (entry_symbol objects entry) (\<lambda>(selected, owner, section).
     rbind (ok_or (Option.bind (get objects owner) (\<lambda>obj. get (obj_sections obj) section))
              (link_error_new LinkEntryKind LinkPanic)) (\<lambda>source.
     if sec_kind source \<noteq> Text \<or> rs_value selected \<ge> len64 (sec_data source)
     then Inl (link_error_new LinkEntryKind EntryNotExecutable)
     else
       rbind (map_err (\<lambda>e. link_error_new LinkLayoutKind (LayoutMessage e))
                (executable_layout objects max_bytes)) (\<lambda>(lay, segments).
       rbind (ok_or (Option.bind (get (lay_offsets lay) owner) (\<lambda>x. get x section))
                (link_error_new LinkEntryKind LinkPanic)) (\<lambda>base.
       rbind (ok_or (checked_add base (rs_value selected))
                (link_error_new LinkEntryKind EntryOverflow)) (\<lambda>address.
       rbind (map_err relocation_failure (apply_relocations objects lay max_bytes)) (\<lambda>payloads.
       emit_file address lay segments payloads))))))"

lemmas link_executable_defs [exec_simps] =
  exec_base_def exec_page_def user_end_def exec_align_def validate_exec_input_def has_kind_def
  header_size_def place_in_segment_def place_kind_def segment_plan_def place_segment_def
  executable_layout_def write_at_def put16_def put32_def put64_def then_write_def
  elf_ident_def file_header_writes_def program_header_writes_def stack_header_writes_def
  payload_write_def emit_file_def entry_symbol_def write_executable_def

subsection \<open>The loops over sections, flattened\<close>

definition place_item :: "placed_item \<Rightarrow> segment_state \<Rightarrow> exec_error + segment_state" where
  "place_item = (\<lambda>(oi, si, sec). place_in_segment (sec_kind sec) oi (si, sec))"

definition items_of :: "object_file list \<Rightarrow> section_kind \<Rightarrow> placed_item list" where
  "items_of objects k = filter (\<lambda>(oi, si, sec). sec_kind sec = k) (input_sections objects)"

lemma foldR_filter:
  "(\<And>x s. x \<in> set xs \<Longrightarrow> \<not> P x \<Longrightarrow> f x s = Inr s) \<Longrightarrow> (\<And>x. x \<in> set xs \<Longrightarrow> P x \<Longrightarrow> f x = g x) \<Longrightarrow>
     foldR f xs s = foldR g (filter P xs) s"
proof (induction xs arbitrary: s)
  case (Cons x xs)
  have "foldR f xs = foldR g (filter P xs)" using Cons by auto
  then show ?case using Cons.prems [of x] by (cases "P x") (auto cong del: rbind_weak_cong)
qed simp

lemma place_kind_flat: "place_kind objects k = foldR place_item (items_of objects k)"
proof
  fix st
  let ?f = "\<lambda>(oi, si, sec). place_in_segment k oi (si, sec)"
  have "place_kind objects k st = foldR (foldR ?f)
      (map (\<lambda>(oi, obj). map (\<lambda>(si, sec). (oi, si, sec)) (enumerate 0 (obj_sections obj)))
        (enumerate 0 objects)) st"
    by (simp add: place_kind_def foldR_map foldR_map [THEN ext] split_def)
  also have "\<dots> = foldR ?f (input_sections objects) st"
    by (simp add: foldR_concat input_sections_def)
  also have "\<dots> = foldR place_item (items_of objects k) st"
    unfolding items_of_def
    by (rule foldR_filter) (auto simp: place_in_segment_def place_item_def fun_eq_iff)
  finally show "place_kind objects k st = foldR place_item (items_of objects k) st" .
qed

subsection \<open>One segment\<close>

definition file_pos :: "section_placement \<Rightarrow> nat" where
  "file_pos p = unat (pl_file_offset p)"

definition mem_size :: "section_placement \<Rightarrow> nat" where
  "mem_size p = unat (pl_memory_size p)"

definition well_placed :: "section_placement \<Rightarrow> bool" where
  "well_placed p \<longleftrightarrow>
     unat (pl_memory_address p) = unat exec_base + file_pos p \<and>
     unat (pl_align p) dvd unat (pl_memory_address p) \<and> 0 < unat (pl_align p)"

definition record_offset :: "u64 list list \<Rightarrow> section_placement \<Rightarrow> u64 list list" where
  "record_offset offs p =
     offs[pl_object p := (offs ! pl_object p)[pl_section p := pl_memory_address p]]"

definition segment_run ::
  "layout \<Rightarrow> nat \<Rightarrow> placed_item list \<Rightarrow> segment_state \<Rightarrow> section_placement list \<Rightarrow> bool" where
  "segment_run lay0 start items = (\<lambda>(lay, cursor, file_end) ps.
     lay = lay0\<lparr>lay_sections := lay_sections lay0 @ ps,
                lay_offsets := foldl record_offset (lay_offsets lay0) ps\<rparr> \<and>
     list_all2 placement_of ps items \<and>
     (\<forall>p\<in>set ps. well_placed p \<and> start \<le> file_pos p \<and> file_pos p + mem_size p \<le> unat cursor \<and>
        (pl_kind p \<noteq> Bss \<longrightarrow> file_pos p + unat (pl_file_size p) \<le> unat file_end)) \<and>
     sorted_wrt (\<lambda>p q. file_pos p + mem_size p \<le> file_pos q) ps \<and>
     start \<le> unat file_end \<and> unat file_end \<le> unat cursor)"

lemma place_itemE:
  assumes "place_item (oi, si, sec) (lay, cursor, file_end) = Inr (lay', cursor', file_end')"
    and "is_power_of_two (max (sec_align sec) 1)"
  obtains p where "placement_of p (oi, si, sec)" "well_placed p" "unat cursor \<le> file_pos p"
    "unat cursor' = file_pos p + mem_size p" "pl_kind p \<noteq> Bss \<longrightarrow> unat (pl_file_size p) \<le> mem_size p"
    "file_end' = (if sec_kind sec \<noteq> Bss then cursor' else file_end)"
    "lay' = lay\<lparr>lay_offsets := record_offset (lay_offsets lay) p, lay_sections := lay_sections lay @ [p]\<rparr>"
proof -
  let ?a = "max (sec_align sec) 1"
  from assms(1) obtain addr va size where
    addr: "checked_add exec_base cursor = Some addr" and va: "exec_align addr ?a = Inr va"
    and size: "memory_size sec = Inr size" and cur: "checked_add (va - exec_base) size = Some cursor'"
    and fe: "file_end' = (if sec_kind sec \<noteq> Bss then cursor' else file_end)"
    and lay': "lay' = lay\<lparr>lay_offsets := (lay_offsets lay)[oi := (lay_offsets lay ! oi)[si := va]],
        lay_sections := lay_sections lay @
          [\<lparr>pl_object = oi, pl_section = si, pl_kind = sec_kind sec, pl_align = ?a,
            pl_file_offset = va - exec_base, pl_memory_address = va, pl_file_size = file_size sec,
            pl_memory_size = size\<rparr>]\<rparr>"
    by (auto simp: place_item_def place_in_segment_def rbind_eq_Inr ok_or_eq_Inr map_err_eq_Inr Let_def)
  let ?p = "\<lparr>pl_object = oi, pl_section = si, pl_kind = sec_kind sec, pl_align = ?a,
            pl_file_offset = va - exec_base, pl_memory_address = va, pl_file_size = file_size sec,
            pl_memory_size = size\<rparr>"
  have a: "unat addr = unat exec_base + unat cursor" using addr by (simp add: checked_simps)
  have up: "unat addr \<le> unat va" "unat ?a dvd unat va"
    using executable.up_ge [OF assms(2) va] executable.up_dvd [OF assms(2) va] by auto
  then have off: "unat (va - exec_base) = unat va - unat exec_base"
    using a by (simp add: unat_sub word_le_nat_alt)
  have "placement_of ?p (oi, si, sec)" using size by (simp add: placement_of_def effective_align_def)
  moreover have "well_placed ?p"
    using up off a is_power_of_two_pos [OF assms(2)] by (simp add: well_placed_def file_pos_def)
  moreover have "unat cursor \<le> file_pos ?p" using up off a by (simp add: file_pos_def)
  moreover have "unat cursor' = file_pos ?p + mem_size ?p" using cur by (simp add: checked_simps file_pos_def mem_size_def)
  moreover have "pl_kind ?p \<noteq> Bss \<longrightarrow> unat (pl_file_size ?p) \<le> mem_size ?p"
    using memory_size_extent [OF size] by (simp add: mem_size_def file_size_def section_extent_def)
  ultimately show thesis using that fe lay' by (simp add: record_offset_def)
qed

lemma segment_run_step:
  assumes "segment_run lay0 start items (lay, cursor, file_end) ps"
    and "place_item (oi, si, sec) (lay, cursor, file_end) = Inr (lay', cursor', file_end')"
    and "is_power_of_two (max (sec_align sec) 1)"
  shows "\<exists>ps'. segment_run lay0 start (items @ [(oi, si, sec)]) (lay', cursor', file_end') ps'"
  using assms(2,3)
proof (rule place_itemE)
  fix p
  assume p: "placement_of p (oi, si, sec)" "well_placed p" "unat cursor \<le> file_pos p"
    "unat cursor' = file_pos p + mem_size p" "pl_kind p \<noteq> Bss \<longrightarrow> unat (pl_file_size p) \<le> mem_size p"
    "file_end' = (if sec_kind sec \<noteq> Bss then cursor' else file_end)"
    "lay' = lay\<lparr>lay_offsets := record_offset (lay_offsets lay) p, lay_sections := lay_sections lay @ [p]\<rparr>"
  have kind: "pl_kind p = sec_kind sec" using p(1) by (simp add: placement_of_def)
  have "segment_run lay0 start (items @ [(oi, si, sec)]) (lay', cursor', file_end') (ps @ [p])"
    using assms(1) p kind
    by (auto simp: segment_run_def sorted_wrt_append intro!: list_all2_appendI)
  then show ?thesis by blast
qed

definition aligned_items :: "placed_item list \<Rightarrow> bool" where
  "aligned_items items \<longleftrightarrow> (\<forall>(oi, si, sec)\<in>set items. is_power_of_two (max (sec_align sec) 1))"

lemma segment_run_items:
  assumes "segment_run lay0 start done_items st ps" "foldR place_item items st = Inr st'"
    and "aligned_items items"
  shows "\<exists>ps'. segment_run lay0 start (done_items @ items) st' ps'"
  using assms
proof (induction items arbitrary: done_items st ps)
  case (Cons item items)
  obtain oi si sec where item: "item = (oi, si, sec)" by (cases item)
  obtain lay cursor file_end where st: "st = (lay, cursor, file_end)" by (cases st)
  from Cons.prems(2) obtain lay1 c1 f1 where
    first: "place_item (oi, si, sec) (lay, cursor, file_end) = Inr (lay1, c1, f1)"
    and rest: "foldR place_item items (lay1, c1, f1) = Inr st'"
    by (auto simp: rbind_eq_Inr item st)
  have "is_power_of_two (max (sec_align sec) 1)" "aligned_items items"
    using Cons.prems(3) by (auto simp: aligned_items_def item)
  moreover from this Cons.prems(1) first obtain ps1 where
    "segment_run lay0 start (done_items @ [item]) (lay1, c1, f1) ps1"
    unfolding st item using segment_run_step by blast
  ultimately show ?case using Cons.IH [OF _ rest, of "done_items @ [item]" ps1] by simp
qed auto

lemma place_kinds_flat:
  "foldR (place_kind objects) kinds st = foldR place_item (concat (map (items_of objects) kinds)) st"
proof -
  have "place_kind objects = (\<lambda>k. foldR place_item (items_of objects k))"
    by (rule ext) (rule place_kind_flat)
  then show ?thesis by (simp add: foldR_concat [symmetric] foldR_map)
qed

text \<open>Without zero-filled sections the file-backed part reaches the cursor.\<close>

lemma no_bss_file_end:
  assumes "foldR place_item items (lay, c, c) = Inr (lay', c', f')"
    and "\<forall>(oi, si, sec)\<in>set items. sec_kind sec \<noteq> Bss"
  shows "f' = c'"
  using assms
proof (induction items arbitrary: lay c)
  case (Cons item items)
  obtain oi si sec where item: "item = (oi, si, sec)" by (cases item)
  from Cons.prems obtain lay1 c1 where "place_item item (lay, c, c) = Inr (lay1, c1, c1)"
    "foldR place_item items (lay1, c1, c1) = Inr (lay', c', f')"
    by (auto simp: rbind_eq_Inr item place_item_def place_in_segment_def Let_def)
  with Cons show ?case by auto
qed simp

lemma segment_run_start: "start \<le> unat c \<Longrightarrow> segment_run lay start [] (lay, c, c) []"
  by (simp add: segment_run_def)

subsection \<open>All segments\<close>

fun kind_flags :: "section_kind \<Rightarrow> u32" where
  "kind_flags Text = 5"
| "kind_flags ReadOnlyData = 4"
| "kind_flags Data = 6"
| "kind_flags Bss = 6"

definition segment_ok :: "segment \<Rightarrow> bool" where
  "segment_ok s \<longleftrightarrow>
     unat (sg_address s) = unat exec_base + unat (sg_offset s) \<and>
     unat exec_page dvd unat (sg_offset s) \<and>
     unat (sg_file_size s) \<le> unat (sg_memory_size s) \<and>
     unat (sg_address s) + unat (sg_memory_size s) \<le> unat user_end \<and>
     sg_flags s \<in> {4, 5, 6}"

definition inside :: "section_placement \<Rightarrow> segment \<Rightarrow> bool" where
  "inside p s \<longleftrightarrow>
     sg_flags s = kind_flags (pl_kind p) \<and> unat (sg_offset s) \<le> file_pos p \<and>
     file_pos p + mem_size p \<le> unat (sg_offset s) + unat (sg_memory_size s) \<and>
     (pl_kind p \<noteq> Bss \<longrightarrow>
        file_pos p + unat (pl_file_size p) \<le> unat (sg_offset s) + unat (sg_file_size s))"

definition exec_inv :: "object_file list \<Rightarrow> section_kind list \<Rightarrow> layout \<Rightarrow> segment list \<Rightarrow> bool" where
  "exec_inv objects kinds lay segs \<longleftrightarrow>
     list_all2 placement_of (lay_sections lay) (concat (map (items_of objects) kinds)) \<and>
     lay_offsets lay = foldl record_offset
       (map (\<lambda>obj. replicate (length (obj_sections obj)) 0) objects) (lay_sections lay) \<and>
     lay_base lay = exec_base \<and>
     (\<forall>p\<in>set (lay_sections lay). well_placed p \<and> unat (header_size objects) \<le> file_pos p \<and>
        file_pos p + mem_size p \<le> unat (lay_memory_size lay) \<and>
        (pl_kind p \<noteq> Bss \<longrightarrow> file_pos p + unat (pl_file_size p) \<le> unat (lay_file_size lay)) \<and>
        (\<exists>s\<in>set segs. inside p s)) \<and>
     sorted_wrt (\<lambda>p q. file_pos p + mem_size p \<le> file_pos q) (lay_sections lay) \<and>
     (\<forall>s\<in>set segs. segment_ok s \<and>
        unat (sg_offset s) + unat (sg_memory_size s) \<le> unat (lay_memory_size lay) \<and>
        unat (sg_offset s) + unat (sg_file_size s) \<le> unat (lay_file_size lay)) \<and>
     sorted_wrt (\<lambda>s t. unat (sg_offset s) + unat (sg_memory_size s) \<le> unat (sg_offset t)) segs \<and>
     unat (header_size objects) \<le> unat (lay_file_size lay) \<and>
     unat (lay_file_size lay) \<le> unat (lay_memory_size lay)"

lemma exec_constants [simp]:
  "unat exec_base = 0x400000" "unat exec_page = 4096" "is_power_of_two exec_page"
  by (simp_all add: exec_base_def exec_page_def is_power_of_two_test)

text \<open>A segment of the plan, from its start and the first free offset.\<close>

lemma exec_inv_extend:
  assumes inv: "exec_inv objects kinds0 lay segs"
    and run: "segment_run lay (unat cursor0) (concat (map (items_of objects) kinds)) (lay', cursor, file_end) ps"
    and flags: "\<forall>k\<in>set kinds. kind_flags k = flags" "flags \<in> {4, 5, 6}"
    and start: "unat start \<le> unat cursor0" "4096 dvd unat start"
    and free: "unat (lay_memory_size lay) \<le> unat cursor0"
      "\<forall>s\<in>set segs. unat (sg_offset s) + unat (sg_memory_size s) \<le> unat start"
    and top: "unat exec_base + unat cursor \<le> unat user_end"
  defines "s \<equiv> \<lparr>sg_flags = flags, sg_offset = start, sg_address = exec_base + start,
      sg_file_size = file_end - start, sg_memory_size = cursor - start\<rparr>"
  shows "exec_inv objects (kinds0 @ kinds) (lay'\<lparr>lay_file_size := file_end, lay_memory_size := cursor\<rparr>)
    (segs @ [s])"
proof -
  from run have lay': "lay' = lay\<lparr>lay_sections := lay_sections lay @ ps,
        lay_offsets := foldl record_offset (lay_offsets lay) ps\<rparr>"
    and all: "list_all2 placement_of ps (concat (map (items_of objects) kinds))"
    and ps: "\<forall>p\<in>set ps. well_placed p \<and> unat cursor0 \<le> file_pos p \<and> file_pos p + mem_size p \<le> unat cursor \<and>
        (pl_kind p \<noteq> Bss \<longrightarrow> file_pos p + unat (pl_file_size p) \<le> unat file_end)"
    and sorted: "sorted_wrt (\<lambda>p q. file_pos p + mem_size p \<le> file_pos q) ps"
    and ends: "unat cursor0 \<le> unat file_end" "unat file_end \<le> unat cursor"
    by (auto simp: segment_run_def)
  have sizes: "unat (file_end - start) = unat file_end - unat start"
    "unat (cursor - start) = unat cursor - unat start"
    using ends start by (simp_all add: unat_sub word_le_nat_alt)
  have "unat exec_base + unat start < 2 ^ 64" using top ends start by (simp add: user_end_def exec_page_def)
  then have address: "unat (exec_base + start) = unat exec_base + unat start"
    by (intro unat_add_no_overflow) simp
  have kind: "kind_flags (pl_kind p) = flags" if "p \<in> set ps" for p
  proof -
    from list_all2_left [OF all that] obtain oi si sec where
      "placement_of p (oi, si, sec)" "(oi, si, sec) \<in> set (concat (map (items_of objects) kinds))" by auto
    then show ?thesis using flags(1) by (auto simp: placement_of_def items_of_def)
  qed
  have ok: "segment_ok s"
    using start flags(2) address sizes ends top by (simp add: segment_ok_def s_def)
  have ins: "inside p s" if "p \<in> set ps" for p
    using ps that kind [OF that] start sizes ends by (auto simp: inside_def s_def)
  have s: "sg_offset s = start" "unat (sg_memory_size s) = unat cursor - unat start"
    "unat (sg_file_size s) = unat file_end - unat start" by (simp_all add: s_def sizes)
  have old: "\<forall>p\<in>set (lay_sections lay). file_pos p + mem_size p \<le> unat cursor0" "unat (lay_file_size lay) \<le> unat cursor0"
    "unat (header_size objects) \<le> unat cursor0"
    using inv free by (auto simp: exec_inv_def)
  have oldseg: "\<forall>s\<in>set segs. unat (sg_offset s) + unat (sg_file_size s) \<le> unat (lay_file_size lay)"
    and oldfile: "\<forall>p\<in>set (lay_sections lay). pl_kind p \<noteq> Bss \<longrightarrow>
        file_pos p + unat (pl_file_size p) \<le> unat (lay_file_size lay)"
    using inv by (auto simp: exec_inv_def)
  have sorted': "sorted_wrt (\<lambda>p q. file_pos p + mem_size p \<le> file_pos q) (lay_sections lay @ ps)"
    using inv sorted ps old by (force simp: exec_inv_def sorted_wrt_append)
  have sorted_segs: "sorted_wrt (\<lambda>s t. unat (sg_offset s) + unat (sg_memory_size s) \<le> unat (sg_offset t))
      (segs @ [s])"
    using inv free(2) s by (simp add: exec_inv_def sorted_wrt_append)
  have places: "well_placed p \<and> unat (header_size objects) \<le> file_pos p \<and> file_pos p + mem_size p \<le> unat cursor \<and>
      (pl_kind p \<noteq> Bss \<longrightarrow> file_pos p + unat (pl_file_size p) \<le> unat file_end) \<and>
      (\<exists>t\<in>set (segs @ [s]). inside p t)" if "p \<in> set (lay_sections lay @ ps)" for p
  proof (cases "p \<in> set ps")
    case True
    with ps ins old show ?thesis by fastforce
  next
    case False
    with that have "p \<in> set (lay_sections lay)" by simp
    with inv old oldfile ends show ?thesis by (fastforce simp: exec_inv_def)
  qed
  have segs: "segment_ok t \<and> unat (sg_offset t) + unat (sg_memory_size t) \<le> unat cursor \<and>
      unat (sg_offset t) + unat (sg_file_size t) \<le> unat file_end" if "t \<in> set (segs @ [s])" for t
  proof (cases "t = s")
    case True
    with ok s ends start show ?thesis by simp
  next
    case False
    with that have "t \<in> set segs" by simp
    with inv oldseg old ends free start show ?thesis by (fastforce simp: exec_inv_def)
  qed
  show ?thesis
    using inv all places segs sorted' sorted_segs old ends
    by (simp add: exec_inv_def lay' list_all2_appendI)
qed

lemma header_bounds: "176 \<le> unat (header_size objects)" "unat (header_size objects) \<le> 288"
  "unat (header_size objects) = 64 + 56 * (2 + of_bool (has_kind [ReadOnlyData] objects)
      + of_bool (has_kind [Data, Bss] objects))"
  by (simp_all add: header_size_def)

lemma items_of_none: "\<not> has_kind kinds objects \<Longrightarrow> concat (map (items_of objects) kinds) = []"
  by (auto simp: has_kind_def items_of_def input_sections_def list_ex_iff filter_empty_conv
      in_set_enumerate_eq) (metis nth_mem)+

lemma place_segment_inv:
  assumes run: "place_segment objects max_bytes (kinds, flags) (lay, segs) = Inr (lay', segs')"
    and inv: "exec_inv objects kinds0 lay segs"
    and flags: "\<forall>k\<in>set kinds. kind_flags k = flags" "flags \<in> {4, 5, 6}"
    and full: "lay_file_size lay = lay_memory_size lay"
    and first: "flags = 5 \<Longrightarrow> segs = [] \<and> lay_memory_size lay = header_size objects"
    and aligned: "aligned_items (input_sections objects)"
  shows "exec_inv objects (kinds0 @ kinds) lay' segs'"
    and "Bss \<notin> set kinds \<Longrightarrow> lay_file_size lay' = lay_memory_size lay'"
    and "flags = 5 \<or> unat (lay_file_size lay) \<le> unat max_bytes \<Longrightarrow>
      unat (lay_file_size lay') \<le> unat max_bytes"
    and "length segs' = length segs + of_bool (flags = 5 \<or> has_kind kinds objects)"
proof -
  let ?items = "concat (map (items_of objects) kinds)"
  have "exec_inv objects (kinds0 @ kinds) lay' segs' \<and>
    (Bss \<notin> set kinds \<longrightarrow> lay_file_size lay' = lay_memory_size lay') \<and>
    (flags = 5 \<or> unat (lay_file_size lay) \<le> unat max_bytes \<longrightarrow>
      unat (lay_file_size lay') \<le> unat max_bytes) \<and>
    length segs' = length segs + of_bool (flags = 5 \<or> has_kind kinds objects)"
  proof (cases "flags = 5 \<or> has_kind kinds objects")
    case False
    with run have "lay' = lay" "segs' = segs" by (auto simp: place_segment_def)
    moreover have none: "concat (map (items_of objects) kinds) = []"
      using False items_of_none by blast
    have "concat (map (items_of objects) (kinds0 @ kinds)) = concat (map (items_of objects) kinds0)"
      by (simp only: map_append concat_append none append_Nil2)
    ultimately show ?thesis using inv full False unfolding exec_inv_def by (simp only:) simp
  next
    case exists: True
    let ?c0 = "\<lambda>start. if flags = 5 then header_size objects else start"
    from run exists obtain start lay1 cursor file_end memory_end where
      start: "(if flags = 5 then Inr 0 else exec_align (lay_file_size lay) exec_page) = Inr start"
      and loop: "foldR (place_kind objects) kinds (lay, ?c0 start, ?c0 start) = Inr (lay1, cursor, file_end)"
      and limit: "\<not> max_bytes < file_end"
      and top: "checked_add exec_base cursor = Some memory_end" "\<not> user_end < memory_end"
      and lay': "lay' = lay1\<lparr>lay_file_size := file_end, lay_memory_size := cursor\<rparr>"
      and segs': "segs' = segs @ [\<lparr>sg_flags = flags, sg_offset = start, sg_address = exec_base + start,
        sg_file_size = file_end - start, sg_memory_size = cursor - start\<rparr>]"
      by (auto simp: place_segment_def rbind_eq_Inr ok_or_eq_Inr Let_def split: if_splits)
    have items: "aligned_items ?items" using aligned by (auto simp: aligned_items_def items_of_def)
    have loop': "foldR place_item ?items (lay, ?c0 start, ?c0 start) = Inr (lay1, cursor, file_end)"
      using loop by (simp add: place_kinds_flat)
    obtain ps where ps: "segment_run lay (unat (?c0 start)) ?items (lay1, cursor, file_end) ps"
      using segment_run_items [OF segment_run_start loop' items] by auto
    have align: "unat (lay_memory_size lay) \<le> unat start \<and> 4096 dvd unat start" if "flags \<noteq> 5"
      using start that full executable.up_ge executable.up_dvd exec_constants by fastforce
    have s0: "start = 0" if "flags = 5" using start that by simp
    have "exec_inv objects (kinds0 @ kinds) lay' segs'"
      unfolding lay' segs'
    proof (rule exec_inv_extend [OF inv ps flags])
      show "unat start \<le> unat (?c0 start)" using s0 by simp
      show "4096 dvd unat start" using s0 align by (cases "flags = 5") auto
      show "unat (lay_memory_size lay) \<le> unat (?c0 start)" using first align by simp
      show "\<forall>s\<in>set segs. unat (sg_offset s) + unat (sg_memory_size s) \<le> unat start"
        using first align inv by (cases "flags = 5") (fastforce simp: exec_inv_def)+
      show "unat exec_base + unat cursor \<le> unat user_end"
        using top by (simp add: checked_simps word_less_nat_alt)
    qed
    moreover have "file_end = cursor" if "Bss \<notin> set kinds"
      using that by (intro no_bss_file_end [OF loop']) (auto simp: items_of_def)
    ultimately show ?thesis using lay' segs' limit exists by (simp add: word_less_nat_alt)
  qed
  then show "exec_inv objects (kinds0 @ kinds) lay' segs'"
    and "Bss \<notin> set kinds \<Longrightarrow> lay_file_size lay' = lay_memory_size lay'"
    and "flags = 5 \<or> unat (lay_file_size lay) \<le> unat max_bytes \<Longrightarrow>
      unat (lay_file_size lay') \<le> unat max_bytes"
    and "length segs' = length segs + of_bool (flags = 5 \<or> has_kind kinds objects)"
    by blast+
qed

lemma validated_aligned:
  assumes "foldR (\<lambda>obj _. validate_exec_input obj) objects () = Inr u"
  shows "aligned_items (input_sections objects)" "\<forall>obj\<in>set objects. wf_object obj"
proof -
  from assms have wf: "\<forall>obj\<in>set objects. wf_object obj"
    by (simp add: foldR_unit_Inr validate_exec_input_def rbind_eq_Inr map_err_eq_Inr validate_diagnostic_wf)
  have "is_power_of_two (max a 1)" if "a = 0 \<or> (\<exists>n<64. a = 2 ^ n)" for a :: u64
  proof (cases "a = 0")
    case True
    then show ?thesis by (simp add: is_power_of_two_test)
  next
    case False
    with that have "is_power_of_two a" by (simp add: is_power_of_two_iff)
    moreover have "0 < unat a" using False by (simp add: unat_gt_0)
    then have "1 \<le> a" by (simp add: word_le_nat_alt)
    then have "max a 1 = a" by (rule max_absorb1)
    ultimately show ?thesis by simp
  qed
  with wf show "aligned_items (input_sections objects)"
    by (auto simp: aligned_items_def input_sections_def wf_object_def wf_section_def in_set_enumerate_eq)
       (metis nth_mem)+
  show "\<forall>obj\<in>set objects. wf_object obj" by (rule wf)
qed

definition all_kinds :: "section_kind list" where
  "all_kinds = [Text, ReadOnlyData, Data, Bss]"

lemma executable_layout_inv:
  assumes "executable_layout objects max_bytes = Inr (lay, segs)"
  shows "exec_inv objects all_kinds lay segs" "unat (lay_file_size lay) \<le> unat max_bytes"
    "unat (header_size objects) = 64 + 56 * (length segs + 1)" "\<forall>obj\<in>set objects. wf_object obj"
proof -
  let ?init = "\<lparr>lay_offsets = map (\<lambda>obj. replicate (length (obj_sections obj)) 0) objects,
      lay_sizes = [], lay_sections = [], lay_base = exec_base,
      lay_file_size = header_size objects, lay_memory_size = header_size objects\<rparr>"
  from assms obtain lay3 l1 s1 l2 s2 sizes where
    valid: "foldR (\<lambda>obj _. validate_exec_input obj) objects () = Inr ()"
    and run1: "place_segment objects max_bytes ([Text], 5) (?init, []) = Inr (l1, s1)"
    and run2: "place_segment objects max_bytes ([ReadOnlyData], 4) (l1, s1) = Inr (l2, s2)"
    and run3: "place_segment objects max_bytes ([Data, Bss], 6) (l2, s2) = Inr (lay3, segs)"
    and lay: "lay = lay3\<lparr>lay_sizes := sizes\<rparr>"
    by (auto simp: executable_layout_def segment_plan_def rbind_eq_Inr)
  note al = validated_aligned(1) [OF valid]
  have "exec_inv objects [] ?init []" by (simp add: exec_inv_def)
  note a = place_segment_inv [OF run1 this _ _ _ _ al, simplified]
  have "lay_file_size l1 = lay_memory_size l1" using a(2) by simp
  note b = place_segment_inv [OF run2 a(1) _ _ this _ al, simplified]
  have "lay_file_size l2 = lay_memory_size l2" using b(2) by simp
  note c = place_segment_inv [OF run3 b(1) _ _ this _ al, simplified]
  show "exec_inv objects all_kinds lay segs"
    using c(1) by (simp add: lay exec_inv_def all_kinds_def)
  show "unat (lay_file_size lay) \<le> unat max_bytes" using a(3) b(3) c(3) by (simp add: lay)
  show "unat (header_size objects) = 64 + 56 * (length segs + 1)"
    using a(4) b(4) c(4) header_bounds(3) [of objects] by (simp add: lay)
  show "\<forall>obj\<in>set objects. wf_object obj" using validated_aligned(2) [OF valid] .
qed

subsection \<open>Every section is placed once\<close>

definition item_key :: "placed_item \<Rightarrow> nat \<times> nat" where
  "item_key = (\<lambda>(oi, si, sec). (oi, si))"

definition place_key :: "section_placement \<Rightarrow> nat \<times> nat" where
  "place_key p = (pl_object p, pl_section p)"

lemma input_sections_mem:
  "(oi, si, sec) \<in> set (input_sections objects) \<longleftrightarrow>
     oi < length objects \<and> si < length (obj_sections (objects ! oi)) \<and> sec = obj_sections (objects ! oi) ! si"
  by (force simp: input_sections_def in_set_enumerate_eq)

lemma input_sections_distinct: "distinct (input_sections objects)"
proof -
  have "distinct (concat (map (\<lambda>(oi, obj). map (\<lambda>(si, sec). (oi, si, sec))
      (enumerate 0 (obj_sections obj))) (enumerate n objs)))" for n objs
  proof (induction objs arbitrary: n)
    case (Cons obj objs)
    have "distinct (map (\<lambda>(si, sec). (n, si, sec)) (enumerate 0 (obj_sections obj)))"
      by (auto simp: distinct_map inj_on_def)
    with Cons show ?case by (auto simp: in_set_enumerate_eq)
  qed simp
  then show ?thesis by (simp add: input_sections_def)
qed

lemma all_items:
  "set (concat (map (items_of objects) all_kinds)) = set (input_sections objects)"
  "distinct (map item_key (concat (map (items_of objects) all_kinds)))"
proof -
  have kinds: "k \<in> set all_kinds" for k by (cases k) (simp_all add: all_kinds_def)
  then show eq: "set (concat (map (items_of objects) all_kinds)) = set (input_sections objects)"
    by (auto simp: items_of_def)
  have "inj_on item_key (set (input_sections objects))"
    by (auto simp: inj_on_def item_key_def input_sections_mem)
  moreover have "distinct (concat (map (items_of objects) all_kinds))"
    using input_sections_distinct [of objects] by (auto simp: all_kinds_def items_of_def)
  ultimately show "distinct (map item_key (concat (map (items_of objects) all_kinds)))"
    unfolding distinct_map eq by blast
qed

lemma placement_keys: "list_all2 placement_of ps items \<Longrightarrow> map place_key ps = map item_key items"
  by (induction rule: list_all2_induct) (auto simp: placement_of_def place_key_def item_key_def)

definition key_in_range :: "'a list list \<Rightarrow> section_placement \<Rightarrow> bool" where
  "key_in_range xss p \<longleftrightarrow> pl_object p < length xss \<and> pl_section p < length (xss ! pl_object p)"

lemma record_offset_shape:
  "key_in_range offs p \<Longrightarrow> map length (record_offset offs p) = map length offs"
  by (auto simp: key_in_range_def record_offset_def map_update list_eq_iff_nth_eq nth_list_update)

lemma key_in_range_shape: "map length xss = map length yss \<Longrightarrow> key_in_range xss p \<longleftrightarrow> key_in_range yss p"
  by (metis key_in_range_def length_map nth_map)

lemma record_offsets:
  assumes "distinct (map place_key ps)" "\<forall>p\<in>set ps. key_in_range offs p"
  shows "map length (foldl record_offset offs ps) = map length offs \<and>
    (\<forall>p\<in>set ps. foldl record_offset offs ps ! pl_object p ! pl_section p = pl_memory_address p)"
  using assms
proof (induction ps rule: rev_induct)
  case (snoc q ps)
  let ?o = "foldl record_offset offs ps"
  have IH: "map length ?o = map length offs"
    "\<forall>p\<in>set ps. ?o ! pl_object p ! pl_section p = pl_memory_address p" using snoc by auto
  have q: "key_in_range ?o q" using snoc.prems key_in_range_shape [OF IH(1)] by simp
  have "record_offset ?o q ! pl_object p ! pl_section p = pl_memory_address p" if "p \<in> set ps" for p
  proof -
    have "place_key p \<noteq> place_key q" using snoc.prems(1) imageI [OF that, of place_key] by auto
    then show ?thesis
      using IH(2) that q
      by (auto simp: record_offset_def place_key_def key_in_range_def nth_list_update)
  qed
  moreover have "record_offset ?o q ! pl_object q ! pl_section q = pl_memory_address q"
    using q by (simp add: record_offset_def key_in_range_def)
  ultimately show ?case using IH record_offset_shape [OF q] by auto
qed simp

lemma executable_sections:
  assumes "executable_layout objects max_bytes = Inr (lay, segs)"
  shows "map length (lay_offsets lay) = map (length \<circ> obj_sections) objects"
    and "p \<in> set (lay_sections lay) \<Longrightarrow>
      placement_of p (pl_object p, pl_section p, obj_sections (objects ! pl_object p) ! pl_section p) \<and>
      pl_object p < length objects \<and> pl_section p < length (obj_sections (objects ! pl_object p)) \<and>
      lay_offsets lay ! pl_object p ! pl_section p = pl_memory_address p"
    and "oi < length objects \<Longrightarrow> si < length (obj_sections (objects ! oi)) \<Longrightarrow>
      \<exists>p\<in>set (lay_sections lay). pl_object p = oi \<and> pl_section p = si"
    and "distinct (map place_key (lay_sections lay))"
proof -
  let ?items = "concat (map (items_of objects) all_kinds)"
  let ?zeros = "map (\<lambda>obj. replicate (length (obj_sections obj)) 0) objects"
  note inv = executable_layout_inv(1) [OF assms]
  then have all: "list_all2 placement_of (lay_sections lay) ?items"
    and offs: "lay_offsets lay = foldl record_offset ?zeros (lay_sections lay)"
    by (simp_all add: exec_inv_def)
  show dist: "distinct (map place_key (lay_sections lay))"
    using placement_keys [OF all] all_items(2) by simp
  have place: "placement_of p (pl_object p, pl_section p, obj_sections (objects ! pl_object p) ! pl_section p) \<and>
      pl_object p < length objects \<and> pl_section p < length (obj_sections (objects ! pl_object p))"
    if p: "p \<in> set (lay_sections lay)" for p
  proof -
    from list_all2_left [OF all p, unfolded all_items(1)] obtain oi si sec where
      "placement_of p (oi, si, sec)" "(oi, si, sec) \<in> set (input_sections objects)" by auto
    then show ?thesis by (auto simp: input_sections_mem placement_of_def)
  qed
  then have "\<forall>p\<in>set (lay_sections lay). key_in_range ?zeros p" by (auto simp: key_in_range_def)
  note r = record_offsets [OF dist this, folded offs]
  then show "map length (lay_offsets lay) = map (length \<circ> obj_sections) objects"
    by (simp add: o_def)
  show "placement_of p (pl_object p, pl_section p, obj_sections (objects ! pl_object p) ! pl_section p) \<and>
      pl_object p < length objects \<and> pl_section p < length (obj_sections (objects ! pl_object p)) \<and>
      lay_offsets lay ! pl_object p ! pl_section p = pl_memory_address p"
    if "p \<in> set (lay_sections lay)" using r place that by blast
  show "\<exists>p\<in>set (lay_sections lay). pl_object p = oi \<and> pl_section p = si"
    if "oi < length objects" "si < length (obj_sections (objects ! oi))"
  proof -
    from that have "(oi, si, obj_sections (objects ! oi) ! si) \<in> set ?items"
      unfolding all_items(1) by (simp add: input_sections_mem)
    from list_all2_right [OF all this] show ?thesis by (auto simp: placement_of_def)
  qed
qed

subsection \<open>Emission\<close>

text \<open>The emission as a list of byte writes at increasing offsets.\<close>

type_synonym byte_write = "nat \<times> bytes"

definition apply_write :: "bytes \<Rightarrow> byte_write \<Rightarrow> bytes" where
  "apply_write out w = overwrite out (fst w) (snd w)"

definition write_before :: "byte_write \<Rightarrow> byte_write \<Rightarrow> bool" where
  "write_before v w \<longleftrightarrow> fst v + length (snd v) \<le> fst w"

definition perform :: "byte_write \<Rightarrow> bytes \<Rightarrow> link_error + bytes" where
  "perform w = write_at (fst w) (snd w)"

lemma length_apply_writes:
  "\<forall>w\<in>set ws. fst w + length (snd w) \<le> length out \<Longrightarrow> length (foldl apply_write out ws) = length out"
  by (induction ws arbitrary: out) (auto simp: apply_write_def)

lemma perform_writes:
  assumes "\<forall>w\<in>set ws. fst w + length (snd w) \<le> length out"
  shows "then_write (map perform ws) out = Inr (foldl apply_write out ws)"
  using assms
  by (induction ws arbitrary: out)
     (auto simp: then_write_def perform_def write_at_def apply_write_def cong del: rbind_weak_cong)

lemma apply_writes_slice:
  assumes "sorted_wrt write_before ws" "\<forall>w\<in>set ws. fst w + length (snd w) \<le> length out"
    and "(at, bs) \<in> set ws"
  shows "take (length bs) (drop at (foldl apply_write out ws)) = bs"
  using assms
proof (induction ws rule: rev_induct)
  case (snoc w ws)
  let ?o = "foldl apply_write out ws"
  have len: "length ?o = length out" using snoc.prems(2) by (intro length_apply_writes) auto
  have w: "fst w + length (snd w) \<le> length ?o" using snoc.prems(2) len by simp
  show ?case
  proof (cases "(at, bs) = w")
    case True
    then show ?thesis
      using w take_drop_overwrite [of at bs ?o] by (auto simp: apply_write_def [of ?o])
  next
    case False
    with snoc.prems have mem: "(at, bs) \<in> set ws" and b: "at + length bs \<le> fst w"
      by (auto simp: sorted_wrt_append write_before_def)
    have "take (at + length bs) (overwrite ?o (fst w) (snd w)) = take (at + length bs) ?o"
      using b w by (simp add: overwrite_def)
    then have "take (length bs) (drop at (overwrite ?o (fst w) (snd w))) = take (length bs) (drop at ?o)"
      by (metis add_diff_cancel_left' drop_take)
    with snoc mem show ?thesis by (simp add: apply_write_def [of ?o] sorted_wrt_append)
  qed
qed simp

definition file_header_bytes :: "u64 \<Rightarrow> usize \<Rightarrow> byte_write list" where
  "file_header_bytes address n =
     [(0, elf_ident), (16, to_le_bytes 2 (2 :: u16)), (18, to_le_bytes 2 (62 :: u16)),
      (20, to_le_bytes 4 (1 :: u32)), (24, to_le_bytes 8 address), (32, to_le_bytes 8 (64 :: u64)),
      (52, to_le_bytes 2 (64 :: u16)), (54, to_le_bytes 2 (56 :: u16)),
      (56, to_le_bytes 2 (of_nat (n + 1) :: u16))]"

definition program_header_bytes :: "usize \<times> segment \<Rightarrow> byte_write list" where
  "program_header_bytes = (\<lambda>(i, s).
     let at = 64 + i * 56 in
     [(at, to_le_bytes 4 (1 :: u32)), (at + 4, to_le_bytes 4 (sg_flags s)),
      (at + 8, to_le_bytes 8 (sg_offset s)), (at + 16, to_le_bytes 8 (sg_address s)),
      (at + 24, to_le_bytes 8 (sg_address s)), (at + 32, to_le_bytes 8 (sg_file_size s)),
      (at + 40, to_le_bytes 8 (sg_memory_size s)), (at + 48, to_le_bytes 8 exec_page)])"

definition stack_header_bytes :: "usize \<Rightarrow> byte_write list" where
  "stack_header_bytes n =
     (let at = 64 + n * 56 in
      [(at, to_le_bytes 4 (0x6474E551 :: u32)), (at + 4, to_le_bytes 4 (6 :: u32)),
       (at + 48, to_le_bytes 8 (16 :: u64))])"

definition payload_bytes :: "bytes list list \<Rightarrow> section_placement list \<Rightarrow> byte_write list" where
  "payload_bytes payloads ps =
     map (\<lambda>p. (file_pos p, payloads ! pl_object p ! pl_section p)) (filter (\<lambda>p. pl_kind p \<noteq> Bss) ps)"

lemma header_writes_perform:
  "file_header_writes address n = map perform (file_header_bytes address n)"
  "program_header_writes x = map perform (program_header_bytes x)"
  "stack_header_writes n = map perform (stack_header_bytes n)"
  by (simp_all add: file_header_writes_def file_header_bytes_def program_header_writes_def
      program_header_bytes_def stack_header_writes_def stack_header_bytes_def perform_def [abs_def]
      put16_def put32_def put64_def Let_def split_def)

lemma then_write_simps:
  "then_write [] out = Inr out" "then_write (w # ws) out = rbind (w out) (then_write ws)"
  "then_write (xs @ ys) out = rbind (then_write xs out) (then_write ys)"
  unfolding then_write_def by (simp_all add: foldR_append)

lemma payload_write_perform:
  "key_in_range payloads p \<Longrightarrow> payload_write payloads p out =
     (if pl_kind p = Bss then Inr out
      else perform (file_pos p, payloads ! pl_object p ! pl_section p) out)"
  by (simp add: payload_write_def perform_def file_pos_def get_def key_in_range_def)

lemma payload_writes_perform:
  assumes "\<forall>p\<in>set ps. key_in_range payloads p"
  shows "then_write (map (payload_write payloads) ps) = then_write (map perform (payload_bytes payloads ps))"
  using assms
proof (induction ps)
  case (Cons p ps)
  then have IH: "then_write (map (payload_write payloads) ps) =
      then_write (map perform (payload_bytes payloads ps))" by simp
  show ?case
  proof
    fix out
    show "then_write (map (payload_write payloads) (p # ps)) out =
        then_write (map perform (payload_bytes payloads (p # ps))) out"
      using Cons.prems IH
      by (simp add: then_write_simps payload_write_perform payload_bytes_def cong del: rbind_weak_cong)
  qed
qed (simp add: payload_bytes_def)

definition emission :: "u64 \<Rightarrow> layout \<Rightarrow> segment list \<Rightarrow> bytes list list \<Rightarrow> byte_write list" where
  "emission address lay segs payloads =
     file_header_bytes address (length segs) @ concat (map program_header_bytes (enumerate 0 segs)) @
     stack_header_bytes (length segs) @ payload_bytes payloads (lay_sections lay)"

lemma length_elf_ident [simp]: "length elf_ident = 16"
  by (simp add: elf_ident_def)

text \<open>Two groups of writes on the two sides of a bound.\<close>

lemma sorted_writes_append:
  assumes "sorted_wrt write_before xs" "sorted_wrt write_before ys"
    and "\<forall>w\<in>set xs. fst w + length (snd w) \<le> k" "\<forall>w\<in>set ys. k \<le> fst w"
  shows "sorted_wrt write_before (xs @ ys)"
  using assms by (fastforce simp: sorted_wrt_append write_before_def)

lemma program_headers_sorted:
  "sorted_wrt write_before (concat (map program_header_bytes (enumerate n segs))) \<and>
   (\<forall>w\<in>set (concat (map program_header_bytes (enumerate n segs))).
      64 + 56 * n \<le> fst w \<and> fst w + length (snd w) \<le> 64 + 56 * (n + length segs))"
proof (induction segs arbitrary: n)
  case (Cons s segs)
  let ?one = "program_header_bytes (n, s)"
  let ?rest = "concat (map program_header_bytes (enumerate (Suc n) segs))"
  have one: "sorted_wrt write_before ?one"
    "\<forall>w\<in>set ?one. 64 + 56 * n \<le> fst w \<and> fst w + length (snd w) \<le> 64 + 56 * Suc n"
    by (simp_all add: program_header_bytes_def write_before_def)
  note rest = Cons [of "Suc n"]
  have "sorted_wrt write_before (?one @ ?rest)"
    by (rule sorted_writes_append [of _ _ "64 + 56 * Suc n"]) (use one rest in blast)+
  moreover have "64 + 56 * n \<le> fst w \<and> fst w + length (snd w) \<le> 64 + 56 * (n + length (s # segs))"
    if "w \<in> set (?one @ ?rest)" for w
  proof (cases "w \<in> set ?one")
    case True
    with one(2) have "64 + 56 * n \<le> fst w" "fst w + length (snd w) \<le> 64 + 56 * Suc n" by blast+
    then show ?thesis by simp
  next
    case False
    with that rest have "64 + 56 * Suc n \<le> fst w" "fst w + length (snd w) \<le> 64 + 56 * (Suc n + length segs)"
      by auto
    then show ?thesis by simp
  qed
  ultimately show ?case by simp
qed simp

definition payloads_fit :: "bytes list list \<Rightarrow> section_placement list \<Rightarrow> bool" where
  "payloads_fit payloads ps \<longleftrightarrow>
     (\<forall>p\<in>set ps. key_in_range payloads p \<and>
        (pl_kind p \<noteq> Bss \<longrightarrow> length (payloads ! pl_object p ! pl_section p) = unat (pl_file_size p) \<and>
           unat (pl_file_size p) \<le> mem_size p))"

lemma payloads_sorted:
  assumes "payloads_fit payloads ps" "sorted_wrt (\<lambda>p q. file_pos p + mem_size p \<le> file_pos q) ps"
  shows "sorted_wrt write_before (payload_bytes payloads ps)"
proof -
  have "sorted_wrt (\<lambda>p q. write_before (file_pos p, payloads ! pl_object p ! pl_section p)
      (file_pos q, payloads ! pl_object q ! pl_section q)) (filter (\<lambda>p. pl_kind p \<noteq> Bss) ps)"
    using sorted_wrt_filter [OF assms(2), of "\<lambda>p. pl_kind p \<noteq> Bss"]
    by (rule sorted_wrt_mono_rel [rotated])
       (use assms(1) in \<open>fastforce simp: write_before_def payloads_fit_def\<close>)
  then show ?thesis by (simp add: payload_bytes_def sorted_wrt_map)
qed

lemma emission_sorted:
  assumes inv: "exec_inv objects kinds lay segs"
    and hdr: "unat (header_size objects) = 64 + 56 * (length segs + 1)"
    and fit: "payloads_fit payloads (lay_sections lay)"
  shows "sorted_wrt write_before (emission address lay segs payloads)"
    and "\<forall>w\<in>set (emission address lay segs payloads). fst w + length (snd w) \<le> unat (lay_file_size lay)"
proof -
  let ?n = "length segs"
  let ?A = "file_header_bytes address ?n"
  let ?B = "concat (map program_header_bytes (enumerate 0 segs))"
  let ?C = "stack_header_bytes ?n"
  let ?D = "payload_bytes payloads (lay_sections lay)"
  have A: "sorted_wrt write_before ?A" "\<forall>w\<in>set ?A. fst w + length (snd w) \<le> 64"
    by (simp_all add: file_header_bytes_def write_before_def)
  have B: "sorted_wrt write_before ?B"
    "\<forall>w\<in>set ?B. 64 \<le> fst w \<and> fst w + length (snd w) \<le> 64 + 56 * ?n"
    using program_headers_sorted [of 0 segs] by auto
  have C: "sorted_wrt write_before ?C"
    "\<forall>w\<in>set ?C. 64 + 56 * ?n \<le> fst w \<and> fst w + length (snd w) \<le> 64 + 56 * (?n + 1)"
    by (simp_all add: stack_header_bytes_def write_before_def Let_def)
  have D: "sorted_wrt write_before ?D"
    using inv payloads_sorted [OF fit] by (simp add: exec_inv_def)
  have D': "\<forall>w\<in>set ?D. 64 + 56 * (?n + 1) \<le> fst w \<and> fst w + length (snd w) \<le> unat (lay_file_size lay)"
    using inv fit hdr by (auto simp: payload_bytes_def exec_inv_def payloads_fit_def)
  show "sorted_wrt write_before (emission address lay segs payloads)"
  proof -
    have CD: "sorted_wrt write_before (?C @ ?D)"
      by (rule sorted_writes_append [of _ _ "64 + 56 * (?n + 1)"]) (use C D D' in blast)+
    have CD': "\<forall>w\<in>set (?C @ ?D). 64 + 56 * ?n \<le> fst w" using C D' by fastforce
    have BCD: "sorted_wrt write_before (?B @ ?C @ ?D)"
      by (rule sorted_writes_append [of _ _ "64 + 56 * ?n"]) (use B CD CD' in blast)+
    have BCD': "\<forall>w\<in>set (?B @ ?C @ ?D). 64 \<le> fst w"
      using B(2) CD' by (metis Un_iff add_leD1 set_append)
    show ?thesis
      unfolding emission_def
      by (rule sorted_writes_append [of _ _ 64]) (use A BCD BCD' in blast)+
  qed
  have "64 + 56 * (?n + 1) \<le> unat (lay_file_size lay)" using inv hdr by (simp add: exec_inv_def)
  with A B C D' show "\<forall>w\<in>set (emission address lay segs payloads).
      fst w + length (snd w) \<le> unat (lay_file_size lay)"
    unfolding emission_def by fastforce
qed

lemma emit_file_emission:
  assumes "exec_inv objects kinds lay segs"
    and "unat (header_size objects) = 64 + 56 * (length segs + 1)"
    and "payloads_fit payloads (lay_sections lay)"
  shows "emit_file address lay segs payloads =
    Inr (foldl apply_write (replicate (unat (lay_file_size lay)) 0) (emission address lay segs payloads))"
proof -
  let ?ws = "emission address lay segs payloads"
  let ?z = "replicate (unat (lay_file_size lay)) (0 :: u8)"
  have "\<forall>p\<in>set (lay_sections lay). key_in_range payloads p" using assms(3) by (simp add: payloads_fit_def)
  note p = payload_writes_perform [OF this]
  have "emit_file address lay segs payloads = then_write (map perform ?ws) ?z"
    unfolding emit_file_def emission_def map_append map_concat then_write_simps(3) p
      header_writes_perform map_map o_def by (rule refl)
  also have "\<dots> = Inr (foldl apply_write ?z ?ws)"
    by (intro perform_writes) (use emission_sorted(2) [OF assms(1-3)] in simp)
  finally show ?thesis .
qed

subsection \<open>The whole writer\<close>

text \<open>The length of a Rust vector fits the address space; the model's lists have to be told.\<close>

definition host_sized :: "object_file list \<Rightarrow> bool" where
  "host_sized objects \<longleftrightarrow>
     (\<forall>obj\<in>set objects. \<forall>sec\<in>set (obj_sections obj). length (sec_data sec) < 2 ^ 64)"

lemma payloads_fit_relocated:
  assumes lay: "executable_layout objects max_bytes = Inr (lay, segs)"
    and rel: "apply_relocations objects lay max_bytes = Inr payloads" and host: "host_sized objects"
  shows "payloads_fit payloads (lay_sections lay)"
  unfolding payloads_fit_def
proof
  fix p
  assume p: "p \<in> set (lay_sections lay)"
  let ?sec = "obj_sections (objects ! pl_object p) ! pl_section p"
  note s = executable_sections(2) [OF lay p]
  note shape = same_shape_nth [OF relocated_shape [OF rel]]
  have "key_in_range payloads p" using s shape by (simp add: key_in_range_def)
  moreover have "length (payloads ! pl_object p ! pl_section p) = length (sec_data ?sec)"
    using s shape(3) by simp
  moreover have "unat (pl_file_size p) = length (sec_data ?sec)" "unat (pl_file_size p) \<le> mem_size p"
    if "pl_kind p \<noteq> Bss"
  proof -
    have "?sec \<in> set (obj_sections (objects ! pl_object p))" "objects ! pl_object p \<in> set objects"
      using s by simp_all
    then have "length (sec_data ?sec) < 2 ^ 64" using host unfolding host_sized_def by blast
    then have "unat (len64 (sec_data ?sec)) = length (sec_data ?sec)"
      by (simp add: len64_def unat_of_nat)
    with s that memory_size_extent show "unat (pl_file_size p) = length (sec_data ?sec)"
      "unat (pl_file_size p) \<le> mem_size p"
      by (auto simp: placement_of_def file_size_def mem_size_def section_extent_def)
  qed
  ultimately show "key_in_range payloads p \<and> (pl_kind p \<noteq> Bss \<longrightarrow>
      length (payloads ! pl_object p ! pl_section p) = unat (pl_file_size p) \<and> unat (pl_file_size p) \<le> mem_size p)"
    by simp
qed

lemma resolved_in_range:
  assumes t: "resolve_symbols objects = Inr t" and s: "st_symbols t k = Some s"
    and own: "rs_object s = Some owner" "rs_section s = Some section"
  shows "owner < length objects \<and> section < length (obj_sections (objects ! owner))"
proof -
  from resolve_symbols_Inr(3) [OF t] obtain weak where
    w: "st_symbols t = table_of (link_definitions objects) ++ weak"
    "weak_table_ok (table_of (link_definitions objects)) (st_references t) weak" by blast
  then have "weak k = None" using s own by (auto simp: weak_table_ok_def map_add_Some_iff)
  with w s obtain oi d where "preferred (key_definitions objects k) = Some (oi, d)" "s = resolved_of oi d"
    by (auto simp: map_add_def table_of_def key_definitions_def)
  then have "(oi, d) \<in> set (link_definitions objects)" "s = resolved_of oi d"
    using preferred_mem by (force simp: key_definitions_def)+
  then have mem: "owner < length objects" "d \<in> set (obj_symbols (objects ! owner))" "sym_section d = Some section"
    using own by (auto simp: link_definitions_def in_set_enumerate_eq resolved_of_def)
  then have "wf_object (objects ! owner)" using resolve_symbols_Inr(1) [OF t] by (simp add: resolvable_def)
  with mem show ?thesis by (auto simp: wf_object_def wf_symbol_def)
qed

lemma write_executableE:
  assumes run: "write_executable objects entry max_bytes = Inr out" and host: "host_sized objects"
  obtains t selected owner sct lay segs address payloads where
    "resolve_symbols objects = Inr t" "st_symbols t (GlobalKey entry) = Some selected"
    "rs_object selected = Some owner" "rs_section selected = Some sct"
    "sec_kind (obj_sections (objects ! owner) ! sct) = Text"
    "rs_value selected < len64 (sec_data (obj_sections (objects ! owner) ! sct))"
    "executable_layout objects max_bytes = Inr (lay, segs)"
    "unat address = unat (lay_offsets lay ! owner ! sct) + unat (rs_value selected)"
    "apply_relocations objects lay max_bytes = Inr payloads"
    "out = foldl apply_write (replicate (unat (lay_file_size lay)) 0) (emission address lay segs payloads)"
proof -
  from run obtain t selected owner sct lay segs base address payloads where
    f: "resolve_symbols objects = Inr t" "st_symbols t (GlobalKey entry) = Some selected"
    "rs_object selected = Some owner" "rs_section selected = Some sct"
    and lay: "executable_layout objects max_bytes = Inr (lay, segs)"
    and src: "sec_kind (obj_sections (objects ! owner) ! sct) = Text"
      "rs_value selected < len64 (sec_data (obj_sections (objects ! owner) ! sct))"
    and base: "Option.bind (get (lay_offsets lay) owner) (\<lambda>x. get x sct) = Some base"
      "checked_add base (rs_value selected) = Some address"
    and rel: "apply_relocations objects lay max_bytes = Inr payloads"
    and out: "emit_file address lay segs payloads = Inr out"
    by (auto simp: write_executable_def entry_symbol_def rbind_eq_Inr ok_or_eq_Inr map_err_eq_Inr
        ensure_eq_Inr bind_eq_Some_conv get_eq_Some not_le split: option.splits if_splits)
  from base have "unat address = unat (lay_offsets lay ! owner ! sct) + unat (rs_value selected)"
    by (auto simp: bind_eq_Some_conv get_eq_Some checked_simps)
  moreover have "out = foldl apply_write (replicate (unat (lay_file_size lay)) 0)
      (emission address lay segs payloads)"
    using out emit_file_emission [OF executable_layout_inv(1,3) [OF lay] payloads_fit_relocated [OF lay rel host]]
    by simp
  ultimately show thesis using that f src lay rel by blast
qed

text \<open>The executable of the sample program.\<close>

definition sample_exec_layout :: layout where
  "sample_exec_layout =
   \<lparr>lay_offsets = [[0x4000F0, 0x401000], [0x400100]], lay_sizes = [6, 40, 1],
    lay_sections =
     [\<lparr>pl_object = 0, pl_section = 0, pl_kind = Text, pl_align = 16, pl_file_offset = 240,
       pl_memory_address = 0x4000F0, pl_file_size = 6, pl_memory_size = 6\<rparr>,
      \<lparr>pl_object = 1, pl_section = 0, pl_kind = Text, pl_align = 16, pl_file_offset = 256,
       pl_memory_address = 0x400100, pl_file_size = 1, pl_memory_size = 1\<rparr>,
      \<lparr>pl_object = 0, pl_section = 1, pl_kind = Bss, pl_align = 8, pl_file_offset = 4096,
       pl_memory_address = 0x401000, pl_file_size = 0, pl_memory_size = 40\<rparr>],
    lay_base = 0x400000, lay_file_size = 4096, lay_memory_size = 4136\<rparr>"

definition sample_segments :: "segment list" where
  "sample_segments =
     [\<lparr>sg_flags = 5, sg_offset = 0, sg_address = 0x400000, sg_file_size = 257, sg_memory_size = 257\<rparr>,
      \<lparr>sg_flags = 6, sg_offset = 4096, sg_address = 0x401000, sg_file_size = 0, sg_memory_size = 40\<rparr>]"

lemma sample_exec:
  "executable_layout [sample_main, sample_helper] 100000 = Inr (sample_exec_layout, sample_segments)"
  by (simp add: sample_defs sample_exec_layout_def sample_segments_def exec_simps Let_def max_def
      word_le_nat_alt word_less_nat_alt)

lemma sample_exec_payloads:
  "apply_relocations [sample_main, sample_helper] sample_exec_layout 100000 =
     Inr [[[0xE8, 0x0B, 0, 0, 0, 0xC3], []], [[0xC3]]]"
  by (simp add: sample_defs sample_exec_layout_def exec_simps Let_def word_le_nat_alt
      apply_relocations_def)

lemma sample_host_sized: "host_sized [sample_main, sample_helper]"
  by (simp add: host_sized_def sample_defs)

lemma sample_entry:
  "\<exists>sel. entry_symbol [sample_main, sample_helper] ''_start'' = Inr (sel, 0, 0) \<and> rs_value sel = 0"
  by (simp add: sample_defs exec_simps Let_def)

lemma write_sample: "\<exists>out. write_executable [sample_main, sample_helper] ''_start'' 100000 = Inr out"
proof -
  obtain sel where sel: "entry_symbol [sample_main, sample_helper] ''_start'' = Inr (sel, 0, 0)"
    "rs_value sel = 0" using sample_entry by blast
  note emit = emit_file_emission [OF executable_layout_inv(1,3) [OF sample_exec]
      payloads_fit_relocated [OF sample_exec sample_exec_payloads sample_host_sized]]
  have "sec_kind (obj_sections sample_main ! 0) = Text" "len64 (sec_data (obj_sections sample_main ! 0)) = 6"
    "obj_sections sample_main \<noteq> []" "lay_offsets sample_exec_layout = [[0x4000F0, 0x401000], [0x400100]]"
    by (simp_all add: sample_main_def len64_def sample_exec_layout_def)
  with sel emit show ?thesis
    by (simp add: write_executable_def sample_exec sample_exec_payloads get_def checked_add_def)
qed

lemma emission_field:
  assumes lay: "executable_layout objects max_bytes = Inr (lay, segs)"
    and fit: "payloads_fit payloads (lay_sections lay)"
    and mem: "(at, bs) \<in> set (emission address lay segs payloads)"
  shows "take (length bs) (drop at (foldl apply_write (replicate (unat (lay_file_size lay)) 0)
    (emission address lay segs payloads))) = bs"
proof (rule apply_writes_slice [OF _ _ mem])
  note e = emission_sorted [OF executable_layout_inv(1,3) [OF lay] fit, of address]
  show "sorted_wrt write_before (emission address lay segs payloads)" by (rule e(1))
  show "\<forall>w\<in>set (emission address lay segs payloads).
      fst w + length (snd w) \<le> length (replicate (unat (lay_file_size lay)) (0 :: u8))"
    using e(2) by simp
qed

text \<open>The little-endian number of \<open>n\<close> bytes at an offset of a file.\<close>

definition field_at :: "bytes \<Rightarrow> nat \<Rightarrow> nat \<Rightarrow> nat" where
  "field_at out at n = le_value (take n (drop at out))"

lemma emission_number:
  assumes "executable_layout objects max_bytes = Inr (lay, segs)"
    and "payloads_fit payloads (lay_sections lay)"
    and "(at, to_le_bytes n w) \<in> set (emission address lay segs payloads)"
  shows "field_at (foldl apply_write (replicate (unat (lay_file_size lay)) 0)
    (emission address lay segs payloads)) at n = unat w mod 256 ^ n"
  using emission_field [OF assms] by (simp add: field_at_def le_value_to_le_bytes)

lemma unat_256: "unat (w :: u64) mod 256 ^ 8 = unat w" "unat (v :: u32) mod 256 ^ 4 = unat v"
  "unat (x :: u16) mod 256 ^ 2 = unat x"
  using unsigned_less [of w, where 'a = nat] unsigned_less [of v, where 'a = nat]
    unsigned_less [of x, where 'a = nat] by simp_all

lemma page_apart:
  "4096 dvd b \<Longrightarrow> a < b \<Longrightarrow> b \<le> c \<Longrightarrow> a div 4096 \<noteq> c div (4096 :: nat)"
  by (elim dvdE) (metis div_le_mono div_mult_self1_is_m less_mult_imp_div_less mult.commute not_le zero_less_numeral)

lemma sorted_pairwise:
  "sorted_wrt P xs \<Longrightarrow> i < j \<Longrightarrow> j < length xs \<Longrightarrow> P (xs ! i) (xs ! j)"
  by (simp add: sorted_wrt_iff_nth_less)

lemma written_payloads:
  assumes run: "write_executable objects entry max_bytes = Inr out" and host: "host_sized objects"
  shows "\<exists>lay segs payloads. executable_layout objects max_bytes = Inr (lay, segs) \<and>
    apply_relocations objects lay max_bytes = Inr payloads \<and>
    length out = unat (lay_file_size lay) \<and> length out \<le> unat max_bytes \<and>
    (\<forall>p\<in>set (lay_sections lay). pl_kind p \<noteq> Bss \<longrightarrow>
       take (unat (pl_file_size p)) (drop (unat (pl_file_offset p)) out) =
         payloads ! pl_object p ! pl_section p)"
  using run host
proof (rule write_executableE)
  fix t sel owner sct lay segs address payloads
  assume lay: "executable_layout objects max_bytes = Inr (lay, segs)"
    and rel: "apply_relocations objects lay max_bytes = Inr payloads"
    and out: "out = foldl apply_write (replicate (unat (lay_file_size lay)) 0)
      (emission address lay segs payloads)"
  note fit = payloads_fit_relocated [OF lay rel host]
  note sorted = emission_sorted [OF executable_layout_inv(1,3) [OF lay] fit, of address]
  have len: "length out = unat (lay_file_size lay)"
    using sorted(2) unfolding out by (subst length_apply_writes) auto
  have "take (unat (pl_file_size p)) (drop (unat (pl_file_offset p)) out) =
      payloads ! pl_object p ! pl_section p" if p: "p \<in> set (lay_sections lay)" "pl_kind p \<noteq> Bss" for p
  proof -
    have "(file_pos p, payloads ! pl_object p ! pl_section p) \<in> set (emission address lay segs payloads)"
      using p by (auto simp: emission_def payload_bytes_def)
    from emission_field [OF lay fit this, folded out] fit p show ?thesis
      by (simp add: payloads_fit_def file_pos_def)
  qed
  with lay rel len executable_layout_inv(2) [OF lay] show ?thesis by auto
qed

lemma write_executable_no_panic:
  assumes run: "write_executable objects entry max_bytes = Inl e" and host: "host_sized objects"
  shows "le_message e \<noteq> LinkPanic \<and> (\<forall>r. le_message e = RelocationMessage r \<longrightarrow> re_kind r \<noteq> RelocPanic)"
proof (cases "entry_symbol objects entry")
  case (Inl f)
  with run show ?thesis
    by (auto simp: write_executable_def entry_symbol_def rbind_eq_Inl ok_or_eq_Inl map_err_eq_Inl
        ensure_eq_Inl link_error_new_def split: option.splits)
next
  case (Inr x)
  obtain sel owner sct where x: "x = (sel, owner, sct)" by (cases x)
  from Inr x obtain t where "resolve_symbols objects = Inr t" "st_symbols t (GlobalKey entry) = Some sel"
    "rs_object sel = Some owner" "rs_section sel = Some sct"
    by (auto simp: entry_symbol_def rbind_eq_Inr ok_or_eq_Inr map_err_eq_Inr split: option.splits)
  from resolved_in_range [OF this] have range: "owner < length objects"
    "sct < length (obj_sections (objects ! owner))" by auto
  show ?thesis
  proof (cases "executable_layout objects max_bytes")
    case (Inl f)
    with run Inr x range show ?thesis
      by (auto simp: write_executable_def get_def link_error_new_def split: if_splits)
  next
    case (Inr y)
    obtain lay segs where y: "y = (lay, segs)" by (cases y)
    note lay = Inr [unfolded y]
    have "owner < length (lay_offsets lay)" "sct < length (lay_offsets lay ! owner)"
      using executable_sections(1) [OF lay] range map_length_nth
      by (metis length_map) (metis comp_apply executable_sections(1) lay length_map nth_map range)
    then have base: "Option.bind (get (lay_offsets lay) owner) (\<lambda>x. get x sct) = Some (lay_offsets lay ! owner ! sct)"
      by (simp add: get_def)
    have emit: "emit_file address lay segs payloads \<noteq> Inl f"
      if "apply_relocations objects lay max_bytes = Inr payloads" for address payloads f
      using emit_file_emission [OF executable_layout_inv(1,3) [OF lay] payloads_fit_relocated [OF lay that host]]
      by simp
    show ?thesis
      using run \<open>entry_symbol objects entry = Inr x\<close> x range base lay emit apply_relocations_no_panic
      by (auto simp: write_executable_def get_def rbind_eq_Inl ok_or_eq_Inl map_err_eq_Inl
          map_err_eq_Inr relocation_failure_def link_error_new_def split: if_splits)
  qed
qed

subsection \<open>Properties\<close>



text \<open>Every section of every input is placed exactly once, at an aligned address that the
  address table records, inside a segment with the permissions of its kind, and no two
  sections overlap in memory.\<close>

theorem executable_places_every_section:
  assumes lay: "executable_layout objects max_bytes = Inr (lay, segs)"
    and oi: "oi < length objects" and si: "si < length (obj_sections (objects ! oi))"
  shows "(\<exists>!p. p \<in> set (lay_sections lay) \<and> pl_object p = oi \<and> pl_section p = si) \<and>
    (\<exists>p\<in>set (lay_sections lay). \<exists>s\<in>set segs.
       placement_of p (oi, si, obj_sections (objects ! oi) ! si) \<and> inside p s \<and>
       lay_offsets lay ! oi ! si = pl_memory_address p \<and>
       unat (pl_align p) dvd unat (pl_memory_address p)) \<and>
    sorted_wrt (\<lambda>p q. unat (pl_memory_address p) + unat (pl_memory_size p) \<le> unat (pl_memory_address q))
      (lay_sections lay)"
proof -
  note inv = executable_layout_inv(1) [OF lay]
  note sec = executable_sections [OF lay]
  from sec(3) [OF oi si] obtain p where p: "p \<in> set (lay_sections lay)" "pl_object p = oi" "pl_section p = si"
    by blast
  have inj: "inj_on place_key (set (lay_sections lay))" using sec(4) by (simp add: distinct_map)
  have "q = p" if "q \<in> set (lay_sections lay)" "pl_object q = oi" "pl_section q = si" for q
    using inj_onD [OF inj, of q p] p that by (simp add: place_key_def)
  then have unique: "\<exists>!p. p \<in> set (lay_sections lay) \<and> pl_object p = oi \<and> pl_section p = si"
    using p by blast
  from inv p(1) obtain s where "s \<in> set segs" "inside p s" "well_placed p" by (auto simp: exec_inv_def)
  moreover have s1: "sorted_wrt (\<lambda>p q. file_pos p + mem_size p \<le> file_pos q) (lay_sections lay)"
    and s2: "\<forall>p\<in>set (lay_sections lay). well_placed p" using inv by (auto simp: exec_inv_def)
  have "sorted_wrt (\<lambda>p q. unat (pl_memory_address p) + unat (pl_memory_size p) \<le> unat (pl_memory_address q))
      (lay_sections lay)"
    by (rule sorted_wrt_mono_rel [OF _ s1]) (use s2 in \<open>auto simp: well_placed_def mem_size_def\<close>)
  ultimately show ?thesis using unique sec(2) [OF p(1)] p by (auto simp: well_placed_def)
qed

theorem executable_places_every_section_witness:
  "executable_layout [sample_main, sample_helper] 100000 = Inr (sample_exec_layout, sample_segments) \<and>
   (\<exists>s\<in>set sample_segments. inside (lay_sections sample_exec_layout ! 1) s)"
  using sample_exec executable_places_every_section [OF sample_exec, of 1 0]
  by (auto simp: sample_exec_layout_def sample_helper_def)



text \<open>The file has the size the layout computed, within the byte limit, and at the file offset
  of every section that is not zero-filled it holds the relocated payload of that section.\<close>

theorem executable_holds_relocated_payloads:
  assumes run: "write_executable objects entry max_bytes = Inr out" and host: "host_sized objects"
  shows "\<exists>lay segs payloads. executable_layout objects max_bytes = Inr (lay, segs) \<and>
    apply_relocations objects lay max_bytes = Inr payloads \<and>
    length out = unat (lay_file_size lay) \<and> length out \<le> unat max_bytes \<and>
    (\<forall>p\<in>set (lay_sections lay). pl_kind p \<noteq> Bss \<longrightarrow>
       take (unat (pl_file_size p)) (drop (unat (pl_file_offset p)) out) =
         payloads ! pl_object p ! pl_section p)"
  using written_payloads [OF run host] .

theorem executable_holds_relocated_payloads_witness:
  "\<exists>out. write_executable [sample_main, sample_helper] ''_start'' 100000 = Inr out \<and>
     take 6 (drop 240 out) = [0xE8, 0x0B, 0, 0, 0, 0xC3] \<and> length out = 4096"
proof -
  obtain out where out: "write_executable [sample_main, sample_helper] ''_start'' 100000 = Inr out"
    using write_sample by blast
  from executable_holds_relocated_payloads [OF out sample_host_sized] out show ?thesis
    by (auto simp: sample_exec sample_exec_payloads) (auto simp: sample_exec_layout_def)
qed

text \<open>Writing an executable never panics: every failure is one of the reported errors.\<close>

theorem write_executable_never_panics:
  assumes run: "write_executable objects entry max_bytes = Inl e" and host: "host_sized objects"
  shows "le_message e \<noteq> LinkPanic \<and> (\<forall>r. le_message e = RelocationMessage r \<longrightarrow> re_kind r \<noteq> RelocPanic)"
  using write_executable_no_panic [OF run host] .

theorem write_executable_never_panics_witness:
  "\<exists>e. write_executable [sample_main] ''_start'' 100000 = Inl e \<and> le_message e \<noteq> LinkPanic"
proof -
  have "\<exists>e. entry_symbol [sample_main] ''_start'' = Inl e"
    by (simp add: sample_main_def exec_simps Let_def)
  then obtain e where "write_executable [sample_main] ''_start'' 100000 = Inl e"
    by (auto simp: write_executable_def)
  moreover have "host_sized [sample_main]" by (simp add: host_sized_def sample_main_def)
  ultimately show ?thesis using write_executable_never_panics by blast
qed

end
