(* ===== verification/ElfRead.thy ===== *)
theory ElfRead
  imports ObjectModel Bytes
begin

text \<open>
  The relocatable ELF reader, \<open>object/src/formats/elf_read.rs\<close>: the checked view of the
  header and the tables, the budget that every name, payload and record is charged to, and
  \<open>read_elf_with_usage\<close>, loop by loop.  Every access to the input goes through
  \<open>elf_range\<close>, which fails outside the input.  Whether the host grants an allocation is a
  function of the allocation, an argument of the reader.
\<close>

subsection \<open>Limits and usage\<close>

record object_read_limits =
  max_input_bytes :: usize
  max_sections :: usize
  max_program_headers :: usize
  max_symbols :: usize
  max_relocations :: usize
  max_payload_bytes :: usize
  max_string_bytes :: usize
  max_work :: usize

definition default_read_limits :: object_read_limits where
  "default_read_limits =
     \<lparr>max_input_bytes = 256 * 1024 * 1024, max_sections = 65279, max_program_headers = 4096,
      max_symbols = 1000000, max_relocations = 1000000, max_payload_bytes = 256 * 1024 * 1024,
      max_string_bytes = 16 * 1024 * 1024, max_work = 512 * 1024 * 1024\<rparr>"

record object_read_usage =
  used_input_bytes :: usize
  used_sections :: usize
  used_program_headers :: usize
  used_symbols :: usize
  used_relocations :: usize
  used_payload_bytes :: usize
  used_string_bytes :: usize
  used_work :: usize

definition read_error :: "object_error_kind \<Rightarrow> object_error" where
  "read_error k = object_error_new ''read'' k"

definition read_limit :: "object_resource \<Rightarrow> object_error" where
  "read_limit r = err_limit ''read'' r"

text \<open>The allocations of one run.  An owned name is identified by the work charged when it is
  copied.\<close>

datatype read_allocation =
    HeaderRows | SectionMap | PayloadRows usize | OwnedName usize | RawSymbols | UsedNames
  | SymbolMap | RelocationRows usize

type_synonym read_host = "read_allocation \<Rightarrow> bool"

definition reserve_read :: "read_host \<Rightarrow> read_allocation \<Rightarrow> usize \<Rightarrow> object_error + unit" where
  "reserve_read h a n = ensure (n = 0 \<or> h a) (read_error HostAllocation)"

subsection \<open>The view of the input\<close>

record elf_header =
  eh_kind :: u16
  eh_entry :: u64
  eh_program_offset :: u64
  eh_section_offset :: u64
  eh_program_entry_size :: u16
  eh_program_count :: usize
  eh_section_entry_size :: u16
  eh_section_count :: usize
  eh_string_section :: usize

record elf_section_header =
  es_name :: u32
  es_kind :: u32
  es_flags :: u64
  es_address :: u64
  es_offset :: u64
  es_size :: u64
  es_link :: u32
  es_info :: u32
  es_align :: u64
  es_entry_size :: u64

record elf_view =
  ev_bytes :: bytes
  ev_header :: elf_header

definition elf_range :: "bytes \<Rightarrow> u64 \<Rightarrow> u64 \<Rightarrow> object_error + bytes" where
  "elf_range bs offset n =
     rbind (ok_or (checked_add offset n) (err_at (read_error Overflow) offset)) (\<lambda>stop.
     ok_or (slice bs (unat offset) (unat stop)) (err_at (read_error Truncated) offset))"

definition elf_table :: "bytes \<Rightarrow> u64 \<Rightarrow> usize \<Rightarrow> u64 \<Rightarrow> object_error + unit" where
  "elf_table bs offset count stride =
     rbind (ok_or (checked_mul (of_nat count) stride) (err_at (read_error Overflow) offset)) (\<lambda>n.
     rbind (elf_range bs offset n) (\<lambda>_. Inr ()))"

definition elf_u16 :: "bytes \<Rightarrow> u64 \<Rightarrow> object_error + u16" where
  "elf_u16 bs at = rbind (elf_range bs at 2) (\<lambda>x. Inr (of_nat (le_value x)))"

definition elf_u32 :: "bytes \<Rightarrow> u64 \<Rightarrow> object_error + u32" where
  "elf_u32 bs at = rbind (elf_range bs at 4) (\<lambda>x. Inr (of_nat (le_value x)))"

definition elf_u64 :: "bytes \<Rightarrow> u64 \<Rightarrow> object_error + u64" where
  "elf_u64 bs at = rbind (elf_range bs at 8) (\<lambda>x. Inr (of_nat (le_value x)))"

definition elf_i64 :: "bytes \<Rightarrow> u64 \<Rightarrow> object_error + int" where
  "elf_i64 bs at = rbind (elf_u64 bs at) (\<lambda>x. Inr (sint x))"

definition read_elf_header :: "bytes \<Rightarrow> object_error + elf_header" where
  "read_elf_header bs =
     rbind (elf_u16 bs 16) (\<lambda>kind.
     rbind (elf_u64 bs 24) (\<lambda>entry.
     rbind (elf_u64 bs 32) (\<lambda>program_offset.
     rbind (elf_u64 bs 40) (\<lambda>section_offset.
     rbind (elf_u16 bs 54) (\<lambda>program_entry_size.
     rbind (elf_u16 bs 56) (\<lambda>program_count.
     rbind (elf_u16 bs 58) (\<lambda>section_entry_size.
     rbind (elf_u16 bs 60) (\<lambda>section_count.
     rbind (elf_u16 bs 62) (\<lambda>string_section.
     Inr \<lparr>eh_kind = kind, eh_entry = entry, eh_program_offset = program_offset,
          eh_section_offset = section_offset, eh_program_entry_size = program_entry_size,
          eh_program_count = unat program_count, eh_section_entry_size = section_entry_size,
          eh_section_count = unat section_count, eh_string_section = unat string_section\<rparr>)))))))))"

definition check_identification :: "bytes \<Rightarrow> object_error + unit" where
  "check_identification bs =
     (if take 4 bs \<noteq> [0x7f, 0x45, 0x4C, 0x46] then Inl (err_at (read_error InvalidEncoding) 0)
      else if bs ! 4 \<noteq> 2 \<or> bs ! 5 \<noteq> 1 \<or> bs ! 6 \<noteq> 1 then Inl (err_at (read_error Unsupported) 4)
      else if bs ! 7 \<notin> {0, 3} \<or> bs ! 8 \<noteq> 0 \<or> list_ex (\<lambda>b. b \<noteq> 0) (take 7 (drop 9 bs))
        then Inl (err_at (read_error Unsupported) 7)
      else
        rbind (elf_u16 bs 18) (\<lambda>machine.
        if machine \<noteq> 62 then Inl (err_at (read_error InvalidTarget) 18)
        else
          rbind (elf_u32 bs 20) (\<lambda>version.
          if version \<noteq> 1 then Inl (err_at (read_error Unsupported) 20)
          else
            rbind (elf_u32 bs 48) (\<lambda>flags.
            if flags \<noteq> 0 then Inl (err_at (read_error Unsupported) 20)
            else
              rbind (elf_u16 bs 52) (\<lambda>header_size.
              if header_size \<noteq> 64 then Inl (err_at (read_error Unsupported) 20) else Inr ())))))"

definition check_elf_header :: "bytes \<Rightarrow> object_read_limits \<Rightarrow> elf_header \<Rightarrow> object_error + unit" where
  "check_elf_header bs limits h =
     (if 0xff00 \<le> eh_section_count h \<or> eh_program_count h = 0xffff \<or> eh_string_section h = 0xffff
         \<or> eh_section_count h = 0 \<and> eh_section_offset h \<noteq> 0
      then Inl (err_at (read_error Unsupported) 56)
      else if max_sections limits < eh_section_count h then Inl (read_limit Sections)
      else if max_program_headers limits < eh_program_count h then Inl (read_limit ProgramHeaders)
      else
        rbind (if 0 < eh_section_count h
               then
                 if eh_section_entry_size h \<noteq> 64 \<or> eh_section_count h \<le> eh_string_section h
                 then Inl (err_at (read_error InvalidSection) 58)
                 else elf_table bs (eh_section_offset h) (eh_section_count h) 64
               else if eh_string_section h \<noteq> 0 then Inl (err_at (read_error InvalidSection) 62)
               else Inr ()) (\<lambda>_.
        if 0 < eh_program_count h
        then
          if eh_program_entry_size h \<noteq> 56 then Inl (err_at (read_error InvalidEncoding) 54)
          else elf_table bs (eh_program_offset h) (eh_program_count h) 56
        else Inr ()))"

definition view_parse :: "bytes \<Rightarrow> object_read_limits \<Rightarrow> object_error + elf_view" where
  "view_parse bs limits =
     (if max_input_bytes limits < length bs then Inl (read_limit InputBytes)
      else if length bs < 64 then Inl (err_at (read_error Truncated) (len64 bs))
      else
        rbind (check_identification bs) (\<lambda>_.
        rbind (read_elf_header bs) (\<lambda>h.
        rbind (check_elf_header bs limits h) (\<lambda>_.
        Inr \<lparr>ev_bytes = bs, ev_header = h\<rparr>))))"

definition view_range :: "elf_view \<Rightarrow> u64 \<Rightarrow> u64 \<Rightarrow> object_error + bytes" where
  "view_range v = elf_range (ev_bytes v)"

definition row_offset :: "u64 \<Rightarrow> usize \<Rightarrow> u64 \<Rightarrow> object_error + u64" where
  "row_offset start index stride =
     rbind (ok_or (checked_mul (of_nat index) stride) (read_error Overflow)) (\<lambda>n.
     ok_or (checked_add start n) (read_error Overflow))"

definition view_section :: "elf_view \<Rightarrow> usize \<Rightarrow> object_error + elf_section_header" where
  "view_section v index =
     (if eh_section_count (ev_header v) \<le> index then Inl (err_section (read_error InvalidSection) index)
      else
        rbind (row_offset (eh_section_offset (ev_header v)) index 64) (\<lambda>at.
        let bs = ev_bytes v in
        rbind (elf_u32 bs at) (\<lambda>name.
        rbind (elf_u32 bs (at + 4)) (\<lambda>kind.
        rbind (elf_u64 bs (at + 8)) (\<lambda>flags.
        rbind (elf_u64 bs (at + 16)) (\<lambda>address.
        rbind (elf_u64 bs (at + 24)) (\<lambda>offset.
        rbind (elf_u64 bs (at + 32)) (\<lambda>n.
        rbind (elf_u32 bs (at + 40)) (\<lambda>link.
        rbind (elf_u32 bs (at + 44)) (\<lambda>info.
        rbind (elf_u64 bs (at + 48)) (\<lambda>align.
        rbind (elf_u64 bs (at + 56)) (\<lambda>entry_size.
        Inr \<lparr>es_name = name, es_kind = kind, es_flags = flags, es_address = address, es_offset = offset,
             es_size = n, es_link = link, es_info = info, es_align = align,
             es_entry_size = entry_size\<rparr>))))))))))))"

record elf_program_header =
  ep_kind :: u32
  ep_flags :: u32
  ep_offset :: u64
  ep_virtual_address :: u64
  ep_physical_address :: u64
  ep_file_size :: u64
  ep_memory_size :: u64
  ep_align :: u64

definition view_program :: "elf_view \<Rightarrow> usize \<Rightarrow> object_error + elf_program_header" where
  "view_program v index =
     (if eh_program_count (ev_header v) \<le> index then Inl (read_error OutOfBounds)
      else
        rbind (row_offset (eh_program_offset (ev_header v)) index 56) (\<lambda>at.
        let bs = ev_bytes v in
        rbind (elf_u32 bs at) (\<lambda>kind.
        rbind (elf_u32 bs (at + 4)) (\<lambda>flags.
        rbind (elf_u64 bs (at + 8)) (\<lambda>offset.
        rbind (elf_u64 bs (at + 16)) (\<lambda>virtual_address.
        rbind (elf_u64 bs (at + 24)) (\<lambda>physical_address.
        rbind (elf_u64 bs (at + 32)) (\<lambda>file_size.
        rbind (elf_u64 bs (at + 40)) (\<lambda>memory_size.
        rbind (elf_u64 bs (at + 48)) (\<lambda>align.
        Inr \<lparr>ep_kind = kind, ep_flags = flags, ep_offset = offset, ep_virtual_address = virtual_address,
             ep_physical_address = physical_address, ep_file_size = file_size,
             ep_memory_size = memory_size, ep_align = align\<rparr>))))))))))"

subsection \<open>The budget\<close>

record read_budget =
  rb_work :: usize
  rb_strings :: usize
  rb_payload :: usize

definition budget_charge :: "object_read_limits \<Rightarrow> usize \<Rightarrow> read_budget \<Rightarrow> object_error + read_budget" where
  "budget_charge limits n b =
     rbind (ok_or (usize_add (rb_work b) n) (read_limit Work)) (\<lambda>w.
     if max_work limits < w then Inl (read_limit Work) else Inr (b\<lparr>rb_work := w\<rparr>))"

definition budget_strings :: "object_read_limits \<Rightarrow> usize \<Rightarrow> read_budget \<Rightarrow> object_error + read_budget" where
  "budget_strings limits n b =
     rbind (ok_or (usize_add (rb_strings b) n) (read_limit StringBytes)) (\<lambda>w.
     if max_string_bytes limits < w then Inl (read_limit StringBytes) else Inr (b\<lparr>rb_strings := w\<rparr>))"

definition budget_payload :: "object_read_limits \<Rightarrow> usize \<Rightarrow> read_budget \<Rightarrow> object_error + read_budget" where
  "budget_payload limits n b =
     rbind (ok_or (usize_add (rb_payload b) n) (read_limit PayloadBytes)) (\<lambda>w.
     if max_payload_bytes limits < w then Inl (read_limit PayloadBytes) else Inr (b\<lparr>rb_payload := w\<rparr>))"

definition budget_own ::
  "read_host \<Rightarrow> object_read_limits \<Rightarrow> string \<Rightarrow> read_budget \<Rightarrow> object_error + string \<times> read_budget" where
  "budget_own h limits s b =
     rbind (budget_strings limits (length s) b) (\<lambda>b.
     rbind (budget_charge limits (length s) b) (\<lambda>b.
     rbind (reserve_read h (OwnedName (rb_work b)) (length s)) (\<lambda>_.
     Inr (s, b))))"

definition budget_name ::
  "object_read_limits \<Rightarrow> elf_view \<Rightarrow> elf_section_header \<Rightarrow> u32 \<Rightarrow> read_budget \<Rightarrow>
   object_error + string \<times> read_budget" where
  "budget_name limits v table index b =
     (if es_kind table \<noteq> 3 \<or> es_size table \<le> ucast index
      then Inl (err_at (read_error InvalidName) (es_offset table))
      else
        rbind (ok_or (checked_add (es_offset table) (ucast index)) (read_error Overflow)) (\<lambda>start.
        rbind (view_range v start (es_size table - ucast index)) (\<lambda>tail.
        let remaining = max_work limits - rb_work b;
            search = take (min (length tail) (min usize_max (remaining + 1))) tail in
        case position (\<lambda>x. x = 0) search of
          None \<Rightarrow>
            if remaining < length tail then Inl (read_limit Work)
            else Inl (err_at (read_error InvalidName) start)
        | Some n \<Rightarrow>
            rbind (budget_charge limits (n + 1) b) (\<lambda>b.
            rbind (budget_strings limits n b) (\<lambda>b.
            if utf8_valid (take n tail) then Inr (str_of (take n tail), b)
            else Inl (err_at (read_error InvalidName) start))))))"

definition is_string_table :: "bytes \<Rightarrow> bool" where
  "is_string_table bs \<longleftrightarrow> bs \<noteq> [] \<and> hd bs = 0 \<and> last bs = 0"

subsection \<open>The section table\<close>

text \<open>The first loop: one row of the section table.\<close>

definition check_row :: "elf_view \<Rightarrow> usize \<Rightarrow> elf_section_header \<Rightarrow> object_error + unit" where
  "check_row v index s =
     (if index = 0 then
        rbind (view_range v (eh_section_offset (ev_header v)) 64) (\<lambda>row.
        if list_ex (\<lambda>x. x \<noteq> 0) row then Inl (err_section (read_error InvalidSection) 0) else Inr ())
      else if es_kind s = 0 then Inr ()
      else if es_align s \<noteq> 0 \<and> \<not> is_power_of_two (es_align s)
        then Inl (err_section (read_error InvalidAlignment) index)
      else if es_address s \<noteq> 0 then Inl (err_section (read_error InvalidSection) index)
      else if es_kind s = 8 then Inr ()
      else rbind (view_range v (es_offset s) (es_size s)) (\<lambda>_. Inr ()))"

definition read_row ::
  "object_read_limits \<Rightarrow> elf_view \<Rightarrow> usize \<Rightarrow> read_budget \<times> elf_section_header list \<Rightarrow>
   object_error + read_budget \<times> elf_section_header list" where
  "read_row limits v index = (\<lambda>(b, headers).
     rbind (budget_charge limits 1 b) (\<lambda>b.
     rbind (view_section v index) (\<lambda>s.
     rbind (check_row v index s) (\<lambda>_.
     Inr (b, headers @ [s])))))"

fun payload_kind :: "u32 \<Rightarrow> u64 \<Rightarrow> section_kind option" where
  "payload_kind kind flags =
     (if kind = 1 \<and> flags = 6 then Some Text
      else if kind = 1 \<and> flags = 3 then Some Data
      else if kind = 1 \<and> flags = 2 then Some ReadOnlyData
      else if kind = 8 \<and> flags = 3 then Some Bss
      else None)"

text \<open>A payload section: its data is charged, copied and added to the object.\<close>

definition read_payload ::
  "read_host \<Rightarrow> object_read_limits \<Rightarrow> elf_view \<Rightarrow> usize \<Rightarrow> elf_section_header \<Rightarrow> string \<Rightarrow> read_budget \<Rightarrow>
   object_error + obj_section \<times> read_budget" where
  "read_payload h limits v index s nm b =
     rbind (ok_or (payload_kind (es_kind s) (es_flags s)) (err_section (read_error Unsupported) index)) (\<lambda>kind.
     if es_link s \<noteq> 0 \<or> es_info s \<noteq> 0 \<or> es_entry_size s \<noteq> 0
     then Inl (err_section (read_error Unsupported) index)
     else
       rbind (if es_kind s = 8 then Inr ([], b)
              else
                rbind (budget_payload limits (unat (es_size s)) b) (\<lambda>b.
                rbind (budget_charge limits (unat (es_size s)) b) (\<lambda>b.
                rbind (reserve_read h (PayloadRows index) (unat (es_size s))) (\<lambda>_.
                rbind (view_range v (es_offset s) (es_size s)) (\<lambda>bytes.
                Inr (bytes, b)))))) (\<lambda>(content, b).
       rbind (budget_own h limits nm b) (\<lambda>(nm, b).
       Inr (\<lparr>sec_name = nm, sec_kind = kind, sec_data = content,
             sec_zero_fill = (if es_kind s = 8 then es_size s else 0), sec_align = es_align s\<rparr>, b))))"

text \<open>The state of the second loop: the sections of the object, the section of each row, and the
  row of the symbol table.\<close>

record section_scan =
  sc_budget :: read_budget
  sc_sections :: "obj_section list"
  sc_mapping :: "usize option list"
  sc_symtab :: "usize option"

definition scan_section ::
  "read_host \<Rightarrow> object_read_limits \<Rightarrow> elf_view \<Rightarrow> elf_section_header \<Rightarrow> usize \<times> elf_section_header \<Rightarrow> section_scan \<Rightarrow>
   object_error + section_scan" where
  "scan_section h limits v names = (\<lambda>(index, s) st.
     if es_kind s = 0 then Inr st
     else
       rbind (map_err (\<lambda>e. err_section e index) (budget_name limits v names (es_name s) (sc_budget st))) (\<lambda>(nm, b).
       if es_kind s = 1 \<or> es_kind s = 8 then
         rbind (read_payload h limits v index s nm b) (\<lambda>(sec, b).
         Inr (st\<lparr>sc_budget := b, sc_sections := sc_sections st @ [sec],
                 sc_mapping := (sc_mapping st)[index := Some (length (sc_sections st))]\<rparr>))
       else if es_kind s = 2 then
         if sc_symtab st \<noteq> None then Inl (err_section (read_error Unsupported) index)
         else Inr (st\<lparr>sc_budget := b, sc_symtab := Some index\<rparr>)
       else if es_kind s = 3 then
         if es_flags s \<noteq> 0 then Inl (err_section (read_error InvalidName) index)
         else
           rbind (view_range v (es_offset s) (es_size s)) (\<lambda>bytes.
           if \<not> is_string_table bytes then Inl (err_section (read_error InvalidName) index)
           else Inr (st\<lparr>sc_budget := b\<rparr>))
       else if es_kind s = 4 then
         if es_flags s AND NOT 0x40 \<noteq> 0 then Inl (err_section (read_error Unsupported) index)
         else Inr (st\<lparr>sc_budget := b\<rparr>)
       else Inl (err_section (read_error Unsupported) index)))"

subsection \<open>Symbols\<close>

record raw_symbol =
  raw_name :: string
  raw_kind :: u8
  raw_binding :: u8
  raw_visibility :: u8
  raw_section :: usize
  raw_value :: u64
  raw_size :: u64

definition check_symtab :: "elf_section_header list \<Rightarrow> usize \<Rightarrow> elf_section_header \<Rightarrow> object_error + elf_section_header" where
  "check_symtab headers sym_index symtab =
     (if es_flags symtab \<noteq> 0 \<or> es_entry_size symtab \<noteq> 24 \<or> es_size symtab mod 24 \<noteq> 0
         \<or> length headers \<le> unat (es_link symtab)
      then Inl (err_section (read_error InvalidSymbol) sym_index)
      else
        let strings = headers ! unat (es_link symtab) in
        if es_kind strings \<noteq> 3 then Inl (err_section (read_error InvalidSymbol) sym_index)
        else Inr strings)"

definition read_raw_symbol ::
  "object_read_limits \<Rightarrow> elf_view \<Rightarrow> elf_section_header \<Rightarrow> elf_section_header \<Rightarrow> usize \<Rightarrow>
   read_budget \<times> raw_symbol list \<times> string set \<Rightarrow> object_error + read_budget \<times> raw_symbol list \<times> string set" where
  "read_raw_symbol limits v symtab strings index = (\<lambda>(b, raw, used).
     rbind (budget_charge limits 1 b) (\<lambda>b.
     let at = es_offset symtab + of_nat index * 24; bs = ev_bytes v in
     rbind (elf_u32 bs at) (\<lambda>name_index.
     rbind (budget_name limits v strings name_index b) (\<lambda>(nm, b).
     rbind (view_range v (at + 4) 2) (\<lambda>info.
     rbind (elf_u16 bs (at + 6)) (\<lambda>shndx.
     rbind (elf_u64 bs (at + 8)) (\<lambda>val.
     rbind (elf_u64 bs (at + 16)) (\<lambda>n.
     let s = \<lparr>raw_name = nm, raw_kind = info ! 0 AND 15, raw_binding = drop_bit 4 (info ! 0),
              raw_visibility = info ! 1, raw_section = unat shndx, raw_value = val, raw_size = n\<rparr> in
     rbind (if index = 0 then
              rbind (view_range v at 24) (\<lambda>row.
              if list_ex (\<lambda>x. x \<noteq> 0) row then Inl (err_at (read_error InvalidSymbol) at) else Inr ())
            else if (index < unat (es_info symtab)) \<noteq> (raw_binding s = 0)
              then Inl (err_at (read_error InvalidSymbol) at)
            else Inr ()) (\<lambda>_.
     Inr (b, raw @ [s], if raw_kind s = 3 \<or> raw_kind s = 4 then used else insert nm used))))))))))"

definition symbol_binding_of :: "u8 \<Rightarrow> symbol_binding option" where
  "symbol_binding_of b =
     (if b = 0 then Some Local else if b = 1 then Some Global else if b = 2 then Some Weak else None)"

definition symbol_visibility_of :: "u8 \<Rightarrow> symbol_visibility option" where
  "symbol_visibility_of b = (if b = 0 then Some DefaultVis else if b = 2 then Some Hidden else None)"

definition symbol_kind_of :: "u8 \<Rightarrow> symbol_kind option" where
  "symbol_kind_of b =
     (if b = 0 then Some NoType else if b = 1 then Some Object else if b = 2 then Some Function else None)"

text \<open>\<open>mapping.get(i).copied().flatten()\<close>.\<close>

definition mapped :: "usize option list \<Rightarrow> usize \<Rightarrow> usize option" where
  "mapped m i = (if i < length m then m ! i else None)"

fun decimal_name :: "nat \<Rightarrow> string" where
  "decimal_name n = (if n < 10 then [char_of (48 + n)] else decimal_name (n div 10) @ [char_of (48 + n mod 10)])"

text \<open>The name of a section symbol: dollar signs are added until it is fresh.  Every round is
  charged, so the budget bounds the loop.\<close>

function fresh_name ::
  "object_read_limits \<Rightarrow> string set \<Rightarrow> string \<Rightarrow> read_budget \<Rightarrow> object_error + string \<times> read_budget" where
  "fresh_name limits used nm b =
     (if nm \<notin> used then Inr (nm, b)
      else rbind (budget_charge limits (length nm + 1) b) (\<lambda>b. fresh_name limits used (nm @ ''$'') b))"
  by pat_completeness auto
termination
proof (relation "measure (\<lambda>(limits, _, _, b). Suc (max_work limits) - rb_work b)")
  fix limits :: object_read_limits and used :: "string set" and nm :: string and b b'
  assume "budget_charge limits (length nm + 1) b = Inr b'"
  then show "((limits, used, nm @ ''$'', b'), limits, used :: string set, nm, b) \<in> measure (\<lambda>(limits, _, _, b). Suc (max_work limits) - rb_work b)"
    by (auto simp: budget_charge_def result_simps checked_simps split: if_splits)
qed simp

text \<open>The state of the third loop.\<close>

record symbol_scan =
  ys_budget :: read_budget
  ys_symbols :: "object_symbol list"
  ys_mapping :: "usize option list"
  ys_helpers :: "string set"

definition section_symbol ::
  "object_read_limits \<Rightarrow> usize option list \<Rightarrow> string set \<Rightarrow> usize \<Rightarrow> raw_symbol \<Rightarrow> symbol_binding \<Rightarrow> symbol_visibility \<Rightarrow>
   symbol_scan \<Rightarrow> object_error + (symbol_kind \<times> string \<times> usize option) \<times> read_budget \<times> string set" where
  "section_symbol limits mapping used index s binding vis st =
     (if binding \<noteq> Local \<or> vis \<noteq> DefaultVis \<or> raw_value s \<noteq> 0 \<or> raw_size s \<noteq> 0
      then Inl (err_symbol (read_error InvalidSymbol) (raw_name s))
      else
        rbind (ok_or (mapped mapping (raw_section s)) (err_symbol (read_error InvalidSection) (raw_name s))) (\<lambda>sec.
        rbind (fresh_name limits (used \<union> ys_helpers st) (''__whale_elf_section_'' @ decimal_name index)
                 (ys_budget st)) (\<lambda>(nm, b).
        rbind (ok_or (usize_mul (length nm) 2) (read_limit StringBytes)) (\<lambda>n.
        rbind (budget_strings limits n b) (\<lambda>b.
        Inr ((NoType, nm, Some sec), b, insert nm (ys_helpers st)))))))"

definition plain_symbol ::
  "read_host \<Rightarrow> object_read_limits \<Rightarrow> usize option list \<Rightarrow> raw_symbol \<Rightarrow> symbol_scan \<Rightarrow>
   object_error + (symbol_kind \<times> string \<times> usize option) \<times> read_budget \<times> string set" where
  "plain_symbol h limits mapping s st =
     rbind (ok_or (symbol_kind_of (raw_kind s)) (err_symbol (read_error Unsupported) (raw_name s))) (\<lambda>kind.
     rbind (if raw_section s = 0 then Inr None
            else rbind (ok_or (mapped mapping (raw_section s)) (err_symbol (read_error Unsupported) (raw_name s)))
                   (\<lambda>i. Inr (Some i))) (\<lambda>sec.
     rbind (budget_own h limits (raw_name s) (ys_budget st)) (\<lambda>(nm, b).
     Inr ((kind, nm, sec), b, ys_helpers st))))"

definition scan_symbol ::
  "read_host \<Rightarrow> object_read_limits \<Rightarrow> usize option list \<Rightarrow> string set \<Rightarrow> usize \<times> raw_symbol \<Rightarrow> symbol_scan \<Rightarrow>
   object_error + symbol_scan" where
  "scan_symbol h limits mapping used = (\<lambda>(index, s) st.
     rbind (ok_or (symbol_binding_of (raw_binding s)) (err_symbol (read_error Unsupported) (raw_name s))) (\<lambda>binding.
     rbind (ok_or (symbol_visibility_of (raw_visibility s)) (err_symbol (read_error Unsupported) (raw_name s))) (\<lambda>vis.
     if raw_kind s = 4 then
       if binding \<noteq> Local \<or> raw_section s \<noteq> 0xfff1 \<or> raw_value s \<noteq> 0 \<or> raw_size s \<noteq> 0
       then Inl (err_symbol (read_error InvalidSymbol) (raw_name s))
       else Inr st
     else
       rbind (if raw_kind s = 3 then section_symbol limits mapping used index s binding vis st
              else plain_symbol h limits mapping s st) (\<lambda>((kind, nm, sec), b, helpers).
       Inr \<lparr>ys_budget = b,
            ys_symbols = ys_symbols st @
              [\<lparr>sym_kind = kind, sym_name = nm, sym_section = sec, sym_value = raw_value s,
                sym_size = raw_size s, sym_binding = binding, sym_visibility = vis\<rparr>],
            ys_mapping = (ys_mapping st)[index := Some (length (ys_symbols st))],
            ys_helpers = helpers\<rparr>))))"

subsection \<open>Relocations\<close>

definition amd64_relocation :: "u32 \<Rightarrow> reloc_kind option" where
  "amd64_relocation code =
     (if code = 1 then Some Absolute64 else if code = 10 then Some Absolute32
      else if code = 11 then Some SignedAbsolute32 else if code = 2 then Some Relative32
      else if code = 15 then Some Relative8 else if code = 9 then Some GOTPCREL
      else if code = 4 then Some PLT32 else None)"

definition read_relocation ::
  "read_host \<Rightarrow> object_read_limits \<Rightarrow> elf_view \<Rightarrow> object_symbol list \<Rightarrow> usize option list \<Rightarrow> usize \<Rightarrow>
   elf_section_header \<Rightarrow> usize \<Rightarrow> usize \<Rightarrow> read_budget \<times> object_relocation list \<Rightarrow>
   object_error + read_budget \<times> object_relocation list" where
  "read_relocation h limits v symbols symbol_mapping index s target n = (\<lambda>(b, relocs).
     rbind (budget_charge limits 1 b) (\<lambda>b.
     let at = es_offset s + of_nat n * 24; bs = ev_bytes v in
     rbind (elf_u64 bs (at + 8)) (\<lambda>info.
     rbind (ok_or (mapped symbol_mapping (unat (drop_bit 32 info)))
              (err_section (err_at (read_error InvalidRelocation) (at + 8)) index)) (\<lambda>symbol.
     rbind (ok_or (amd64_relocation (ucast info))
              (err_section (err_at (read_error Unsupported) (at + 8)) index)) (\<lambda>kind.
     rbind (elf_u64 bs at) (\<lambda>offset.
     rbind (budget_own h limits (sym_name (symbols ! symbol)) b) (\<lambda>(nm, b).
     rbind (elf_i64 bs (at + 16)) (\<lambda>addend.
     Inr (b, relocs @ [\<lparr>rel_section = target, rel_offset = unat offset, rel_symbol = nm,
                        rel_addend = addend, rel_kind = kind\<rparr>])))))))))"

definition scan_relocations ::
  "read_host \<Rightarrow> object_read_limits \<Rightarrow> elf_view \<Rightarrow> usize \<Rightarrow> usize option list \<Rightarrow> object_symbol list \<Rightarrow> usize option list \<Rightarrow>
   usize \<times> elf_section_header \<Rightarrow> read_budget \<times> usize \<times> object_relocation list \<Rightarrow>
   object_error + read_budget \<times> usize \<times> object_relocation list" where
  "scan_relocations h limits v sym_index mapping symbols symbol_mapping = (\<lambda>(index, s) (b, total, relocs).
     if es_entry_size s \<noteq> 24 \<or> es_size s mod 24 \<noteq> 0 \<or> unat (es_link s) \<noteq> sym_index
     then Inl (err_section (read_error InvalidRelocation) index)
     else
       rbind (ok_or (mapped mapping (unat (es_info s))) (err_section (read_error InvalidRelocation) index)) (\<lambda>target.
       let count = unat (es_size s div 24) in
       rbind (ok_or (usize_add total count) (read_limit Relocations)) (\<lambda>total.
       if max_relocations limits < total then Inl (read_limit Relocations)
       else
         rbind (reserve_read h (RelocationRows index) count) (\<lambda>_.
         rbind (foldR (read_relocation h limits v symbols symbol_mapping index s target) [0..<count] (b, relocs))
           (\<lambda>(b, relocs).
         Inr (b, total, relocs))))))"

subsection \<open>The reader\<close>

definition check_relocatable :: "elf_header \<Rightarrow> object_error + unit" where
  "check_relocatable h =
     (if eh_kind h \<noteq> 1 then Inl (err_at (read_error Unsupported) 16)
      else if eh_entry h \<noteq> 0 \<or> eh_program_count h \<noteq> 0 \<or> eh_program_offset h \<noteq> 0
        then Inl (read_error InvalidEncoding)
      else if eh_section_count h = 0 \<or> eh_string_section h = 0 then Inl (read_error InvalidSection)
      else Inr ())"

text \<open>The sections: both loops over the section table.\<close>

definition read_sections ::
  "read_host \<Rightarrow> object_read_limits \<Rightarrow> elf_view \<Rightarrow> object_error + elf_section_header list \<times> section_scan" where
  "read_sections h limits v =
     (let hd = ev_header v in
      rbind (reserve_read h HeaderRows (eh_section_count hd)) (\<lambda>_.
      rbind (foldR (read_row limits v) [0..<eh_section_count hd] (\<lparr>rb_work = 0, rb_strings = 0, rb_payload = 0\<rparr>, []))
        (\<lambda>(b, headers).
      let names = headers ! eh_string_section hd in
      rbind (if es_kind names \<noteq> 3 then Inr False
             else rbind (view_range v (es_offset names) (es_size names)) (\<lambda>bytes. Inr (is_string_table bytes))) (\<lambda>ok.
      if \<not> ok then Inl (err_section (read_error InvalidName) (eh_string_section hd))
      else
        rbind (reserve_read h SectionMap (eh_section_count hd)) (\<lambda>_.
        rbind (foldR (scan_section h limits v names) (tl (enumerate 0 headers))
                 \<lparr>sc_budget = b, sc_sections = [], sc_mapping = replicate (eh_section_count hd) None,
                  sc_symtab = None\<rparr>) (\<lambda>st.
        Inr (headers, st)))))))"

text \<open>The symbols: the number of rows, and the state of the third loop.\<close>

definition read_symbols ::
  "read_host \<Rightarrow> object_read_limits \<Rightarrow> elf_view \<Rightarrow> elf_section_header list \<Rightarrow> usize \<Rightarrow> section_scan \<Rightarrow>
   object_error + usize \<times> symbol_scan" where
  "read_symbols h limits v headers sym_index st =
     (let symtab = headers ! sym_index in
      rbind (check_symtab headers sym_index symtab) (\<lambda>strings.
      let count = unat (es_size symtab div 24) in
      if count = 0 \<or> max_symbols limits < count then Inl (read_limit Symbols)
      else if es_info symtab = 0 \<or> count < unat (es_info symtab)
        then Inl (err_section (read_error InvalidSymbol) sym_index)
      else
        rbind (reserve_read h RawSymbols count) (\<lambda>_.
        rbind (reserve_read h UsedNames count) (\<lambda>_.
        rbind (foldR (read_raw_symbol limits v symtab strings) [0..<count] (sc_budget st, [], {})) (\<lambda>(b, raw, used).
        rbind (reserve_read h SymbolMap count) (\<lambda>_.
        rbind (foldR (scan_symbol h limits (sc_mapping st) used) (tl (enumerate 0 raw))
                 \<lparr>ys_budget = b, ys_symbols = [], ys_mapping = replicate count None, ys_helpers = {}\<rparr>) (\<lambda>ys.
        Inr (count, ys))))))))"

definition read_elf_with_usage ::
  "read_host \<Rightarrow> bytes \<Rightarrow> object_read_limits \<Rightarrow> object_error + object_file \<times> object_read_usage" where
  "read_elf_with_usage h bs limits =
     rbind (view_parse bs limits) (\<lambda>v.
     rbind (check_relocatable (ev_header v)) (\<lambda>_.
     rbind (read_sections h limits v) (\<lambda>(headers, st).
     rbind (ok_or (sc_symtab st) (read_error InvalidSymbol)) (\<lambda>sym_index.
     rbind (read_symbols h limits v headers sym_index st) (\<lambda>(count, ys).
     rbind (foldR (scan_relocations h limits v sym_index (sc_mapping st) (ys_symbols ys) (ys_mapping ys))
              (filter (\<lambda>(_, s). es_kind s = 4) (enumerate 0 headers)) (ys_budget ys, 0, [])) (\<lambda>(b, total, relocs).
     let obj = (object_with_target (target_object_target X86_64WhaleLinux))
                 \<lparr>obj_sections := sc_sections st, obj_symbols := ys_symbols ys, obj_relocations := relocs\<rparr> in
     rbind (validate_diagnostic obj) (\<lambda>_.
     Inr (obj, \<lparr>used_input_bytes = length bs, used_sections = eh_section_count (ev_header v),
                used_program_headers = eh_program_count (ev_header v), used_symbols = count,
                used_relocations = total, used_payload_bytes = rb_payload b, used_string_bytes = rb_strings b,
                used_work = rb_work b\<rparr>))))))))"

definition read_elf :: "read_host \<Rightarrow> bytes \<Rightarrow> object_read_limits \<Rightarrow> object_error + object_file" where
  "read_elf h bs limits = rbind (read_elf_with_usage h bs limits) (\<lambda>(obj, _). Inr obj)"

end
