(* ===== verification/LinkDriver.thy ===== *)
theory LinkDriver
  imports LinkExecutable ElfRead
begin

text \<open>
  The linker driver: the cumulative read budget of \<open>linker/src/core/archive.rs\<close> and the
  \<open>Linker\<close> of \<open>linker/src/core/linker.rs\<close>.  The ELF object reader
  (\<open>object/src/formats/elf_read.rs\<close>) is an argument of every operation that reads bytes:
  the theorems hold for every reader.  Operations that take \<open>&mut self\<close> return the new
  state with their result.
\<close>

subsection \<open>The read budget\<close>

type_synonym reader = "bytes \<Rightarrow> object_read_limits \<Rightarrow> object_error + object_file \<times> object_read_usage"

definition subtract :: "usize \<Rightarrow> usize \<Rightarrow> object_resource \<Rightarrow> object_error + usize" where
  "subtract slot amount r = ok_or (usize_sub slot amount) (err_limit ''read'' r)"

definition budget_input :: "object_read_limits \<Rightarrow> usize \<Rightarrow> object_error + object_read_limits" where
  "budget_input b n =
     rbind (subtract (max_input_bytes b) n InputBytes) (\<lambda>v. Inr (b\<lparr>max_input_bytes := v\<rparr>))"

definition budget_consume ::
  "object_read_limits \<Rightarrow> object_read_usage \<Rightarrow> object_error + object_read_limits" where
  "budget_consume b u =
     rbind (subtract (max_sections b) (used_sections u) Sections) (\<lambda>s.
     rbind (subtract (max_program_headers b) (used_program_headers u) ProgramHeaders) (\<lambda>h.
     rbind (subtract (max_symbols b) (used_symbols u) Symbols) (\<lambda>y.
     rbind (subtract (max_relocations b) (used_relocations u) Relocations) (\<lambda>r.
     rbind (subtract (max_payload_bytes b) (used_payload_bytes u) PayloadBytes) (\<lambda>p.
     rbind (subtract (max_string_bytes b) (used_string_bytes u) StringBytes) (\<lambda>t.
     rbind (subtract (max_work b) (used_work u) Work) (\<lambda>w.
     Inr (b\<lparr>max_sections := s, max_program_headers := h, max_symbols := y, max_relocations := r,
            max_payload_bytes := p, max_string_bytes := t, max_work := w\<rparr>))))))))"

definition budget_member ::
  "reader \<Rightarrow> object_read_limits \<Rightarrow> bytes \<Rightarrow> object_error + object_read_limits \<times> object_file" where
  "budget_member read b bs =
     rbind (read bs (b\<lparr>max_input_bytes := length bs\<rparr>)) (\<lambda>(obj, usage).
     rbind (budget_consume b usage) (\<lambda>b'. Inr (b', obj)))"

definition input_error :: "object_error \<Rightarrow> link_error" where
  "input_error cause =
     (link_error_new LinkInputKind (ObjectMessage cause))
       \<lparr>le_contexts := oe_contexts cause, le_input_cause := Some cause\<rparr>"

definition budget_object ::
  "reader \<Rightarrow> object_read_limits \<Rightarrow> bytes \<Rightarrow> link_error + object_read_limits \<times> object_file" where
  "budget_object read b bs =
     rbind (map_err input_error (budget_input b (length bs))) (\<lambda>next_b.
     map_err input_error (budget_member read next_b bs))"

definition archive_failure :: "archive_error \<Rightarrow> link_error" where
  "archive_failure e =
     (case e of
        NameBudget \<Rightarrow> input_error (err_limit ''read'' StringBytes)
      | ArchiveWork \<Rightarrow> input_error (err_limit ''read'' Work)
      | _ \<Rightarrow> link_error_new LinkInputKind (ArchiveMessage e))"

definition member_failure :: "bytes \<Rightarrow> object_error \<Rightarrow> link_error" where
  "member_failure name cause =
     (let e = input_error cause in
      e\<lparr>le_message := MemberMessage name (le_message e),
        le_contexts := le_contexts e @ [CtxObject ''archive'' (Some (str_of name))]\<rparr>)"

definition read_member ::
  "reader \<Rightarrow> archive_member \<Rightarrow> object_read_limits \<times> archive_object list
     \<Rightarrow> link_error + object_read_limits \<times> archive_object list" where
  "read_member read m = (\<lambda>(b, objects).
     rbind (map_err (member_failure (am_name m)) (budget_member read b (am_bytes m))) (\<lambda>(b', obj).
     Inr (b', objects @ [\<lparr>ao_name = am_name m, ao_object = obj\<rparr>])))"

definition budget_archive ::
  "reader \<Rightarrow> object_read_limits \<Rightarrow> bytes \<Rightarrow> link_error + object_read_limits \<times> archive_object list" where
  "budget_archive read b bs =
     rbind (map_err input_error (budget_input b (length bs))) (\<lambda>b1.
     rbind (map_err archive_failure
              (parse_archive bs \<lparr>max_names = 1024 * 1024, max_strings = max_string_bytes b1,
                                 max_arc_work = max_work b1\<rparr>)) (\<lambda>(members, names, work).
     rbind (map_err input_error (subtract (max_string_bytes b1) names StringBytes)) (\<lambda>t.
     rbind (map_err input_error (subtract (max_work b1) work Work)) (\<lambda>w.
     foldR (read_member read) members (b1\<lparr>max_string_bytes := t, max_work := w\<rparr>, [])))))"

definition read_objects_with_limits ::
  "reader \<Rightarrow> bytes \<Rightarrow> object_read_limits \<Rightarrow> link_error + archive_object list" where
  "read_objects_with_limits read bs limits =
     rbind (budget_archive read limits bs) (\<lambda>(_, objects). Inr objects)"

definition read_objects :: "reader \<Rightarrow> bytes \<Rightarrow> link_error + archive_object list" where
  "read_objects read bs = read_objects_with_limits read bs default_read_limits"

subsection \<open>The linker\<close>

datatype output_format = ELF64Executable

record linker =
  lk_inputs :: "link_input list"
  lk_format :: output_format
  lk_entry :: string
  lk_budget :: object_read_limits

definition linker_with_read_limits :: "output_format \<Rightarrow> object_read_limits \<Rightarrow> linker" where
  "linker_with_read_limits f limits =
     \<lparr>lk_inputs = [], lk_format = f, lk_entry = ''_start'', lk_budget = limits\<rparr>"

definition linker_new :: "output_format \<Rightarrow> linker" where
  "linker_new f = linker_with_read_limits f default_read_limits"

definition add_object :: "linker \<Rightarrow> object_file \<Rightarrow> linker" where
  "add_object lk obj = lk\<lparr>lk_inputs := lk_inputs lk @ [ObjectInput obj]\<rparr>"

definition push_input_context :: "usize \<Rightarrow> link_error \<Rightarrow> link_error" where
  "push_input_context i e = e\<lparr>le_contexts := le_contexts e @ [CtxInput i]\<rparr>"

definition add_object_bytes :: "reader \<Rightarrow> linker \<Rightarrow> bytes \<Rightarrow> linker \<times> (link_error + unit)" where
  "add_object_bytes read lk bs =
     (case budget_object read (lk_budget lk) bs of
        Inl e \<Rightarrow> (lk, Inl (push_input_context (length (lk_inputs lk)) e))
      | Inr (b, obj) \<Rightarrow>
          (lk\<lparr>lk_budget := b, lk_inputs := lk_inputs lk @ [ObjectInput obj]\<rparr>, Inr ()))"

definition add_archive :: "reader \<Rightarrow> linker \<Rightarrow> bytes \<Rightarrow> linker \<times> (link_error + unit)" where
  "add_archive read lk bs =
     (case budget_archive read (lk_budget lk) bs of
        Inl e \<Rightarrow> (lk, Inl (push_input_context (length (lk_inputs lk)) e))
      | Inr (b, members) \<Rightarrow>
          (lk\<lparr>lk_budget := b, lk_inputs := lk_inputs lk @ [ArchiveInput members]\<rparr>, Inr ()))"

definition set_entry :: "linker \<Rightarrow> string \<Rightarrow> linker" where
  "set_entry lk entry = lk\<lparr>lk_entry := entry\<rparr>"

definition validate_input_object :: "usize \<Rightarrow> object_file \<Rightarrow> link_error + unit" where
  "validate_input_object index obj =
     map_err (\<lambda>e. \<lparr>le_kind = LinkInputKind, le_message = InputMessage index e,
                   le_contexts = oe_contexts e @ [CtxInput index], le_input_cause = Some e,
                   le_relocation_cause = None\<rparr>)
       (rbind (map_err (\<lambda>_. verr InvalidTarget) (validate_amd64 (obj_target obj))) (\<lambda>_.
        validate_diagnostic obj))"

definition validate_input :: "usize \<times> link_input \<Rightarrow> link_error + unit" where
  "validate_input = (\<lambda>(index, inp).
     case inp of
       ObjectInput obj \<Rightarrow> validate_input_object index obj
     | ArchiveInput members \<Rightarrow>
         foldR (\<lambda>m _. map_err (\<lambda>e. link_error_new LinkInputKind (MemberMessage (ao_name m) (ObjectMessage e)))
                   (validate_diagnostic (ao_object m))) members ())"

definition link_with_limit :: "linker \<Rightarrow> u64 \<Rightarrow> link_error + bytes" where
  "link_with_limit lk max_bytes =
     rbind (foldR (\<lambda>x _. validate_input x) (enumerate 0 (lk_inputs lk)) ()) (\<lambda>_.
     rbind (map_err (\<lambda>e. link_error_new LinkSelectionKind (SelectionMessage e))
              (select (lk_inputs lk) (lk_entry lk) max_bytes)) (\<lambda>objects.
     rbind (map_err (\<lambda>e. link_error_new LinkSymbolsKind (SymbolsMessage e)) (resolve_symbols objects)) (\<lambda>_.
     case lk_format lk of
       ELF64Executable \<Rightarrow> write_executable objects (lk_entry lk) max_bytes)))"

definition link_checked :: "linker \<Rightarrow> link_error + bytes" where
  "link_checked lk = link_with_limit lk (256 * 1024 * 1024)"

subsection \<open>The budget is conserved\<close>

text \<open>Limits and usage as tuples of numbers, in the order of the fields.\<close>

definition limits_vector :: "object_read_limits \<Rightarrow> nat list" where
  "limits_vector b =
     [max_sections b, max_program_headers b, max_symbols b, max_relocations b,
      max_payload_bytes b, max_string_bytes b, max_work b]"

definition usage_vector :: "object_read_usage \<Rightarrow> nat list" where
  "usage_vector u =
     [used_sections u, used_program_headers u, used_symbols u, used_relocations u,
      used_payload_bytes u, used_string_bytes u, used_work u]"

definition add_vectors :: "nat list \<Rightarrow> nat list \<Rightarrow> nat list" where
  "add_vectors = map2 (+)"

lemma add_vectors_assoc: "add_vectors (add_vectors x y) z = add_vectors x (add_vectors y z)"
  by (induction x y arbitrary: z rule: list_induct2')
     (auto simp: add_vectors_def zip_Cons1 split: list.split)

lemma length_vectors [simp]: "length (limits_vector b) = 7" "length (usage_vector u) = 7"
  by (simp_all add: limits_vector_def usage_vector_def)

lemma subtract_Inr [result_simps]: "subtract s a r = Inr v \<longleftrightarrow> s = v + a"
  by (simp add: subtract_def result_simps checked_simps)

lemma budget_consume_Inr:
  assumes "budget_consume b u = Inr b'"
  shows "limits_vector b = add_vectors (limits_vector b') (usage_vector u)"
    and "max_input_bytes b' = max_input_bytes b"
  using assms
  by (auto simp: budget_consume_def rbind_eq_Inr subtract_Inr limits_vector_def usage_vector_def
      add_vectors_def)

text \<open>One member: what it used is what the budget lost, and the reader saw the remaining budget
  as its limits.\<close>

definition member_read ::
  "reader \<Rightarrow> object_read_limits \<Rightarrow> bytes \<Rightarrow> object_file \<Rightarrow> object_read_usage \<Rightarrow> object_read_limits \<Rightarrow> bool" where
  "member_read read b bs obj u b' \<longleftrightarrow>
     read bs (b\<lparr>max_input_bytes := length bs\<rparr>) = Inr (obj, u) \<and>
     max_input_bytes b' = max_input_bytes b \<and>
     (\<forall>i<7. limits_vector b ! i = limits_vector b' ! i + usage_vector u ! i)"

lemma budget_member_Inr:
  assumes "budget_member read b bs = Inr (b', obj)"
  shows "\<exists>u. member_read read b bs obj u b'"
proof -
  from assms obtain u where r: "read bs (b\<lparr>max_input_bytes := length bs\<rparr>) = Inr (obj, u)"
    and c: "budget_consume b u = Inr b'" by (auto simp: budget_member_def rbind_eq_Inr)
  have "limits_vector b ! i = limits_vector b' ! i + usage_vector u ! i" if "i < 7" for i
    unfolding budget_consume_Inr(1) [OF c] using that by (simp add: add_vectors_def)
  with r budget_consume_Inr(2) [OF c] show ?thesis by (auto simp: member_read_def)
qed

lemma read_members_Inr:
  assumes "foldR (read_member read) members (b, objs) = Inr (b', objs')"
  shows "\<exists>read_objs usages. objs' = objs @ read_objs \<and> map ao_name read_objs = map am_name members \<and>
    length usages = length members \<and> max_input_bytes b' = max_input_bytes b \<and>
    (\<forall>k<length members. \<exists>lim. max_input_bytes lim = length (am_bytes (members ! k)) \<and>
       (\<forall>i<7. limits_vector lim ! i \<le> limits_vector b ! i) \<and>
       read (am_bytes (members ! k)) lim = Inr (ao_object (read_objs ! k), usages ! k)) \<and>
    (\<forall>i<7. limits_vector b ! i = limits_vector b' ! i + sum_list (map (\<lambda>u. usage_vector u ! i) usages))"
  using assms
proof (induction members arbitrary: b objs)
  case Nil
  then show ?case by auto
next
  case (Cons m members)
  from Cons.prems obtain b1 obj where
    one: "budget_member read b (am_bytes m) = Inr (b1, obj)"
    and rest: "foldR (read_member read) members (b1, objs @ [\<lparr>ao_name = am_name m, ao_object = obj\<rparr>]) = Inr (b', objs')"
    by (auto simp: read_member_def [of read m] rbind_eq_Inr map_err_eq_Inr)
  from budget_member_Inr [OF one] obtain u where u: "member_read read b (am_bytes m) obj u b1" by blast
  from Cons.IH [OF rest] obtain ros us where
    ros: "objs' = objs @ \<lparr>ao_name = am_name m, ao_object = obj\<rparr> # ros" "map ao_name ros = map am_name members"
    and us: "length us = length members" "max_input_bytes b' = max_input_bytes b1"
    and reads: "\<forall>k<length members. \<exists>lim. max_input_bytes lim = length (am_bytes (members ! k)) \<and>
       (\<forall>i<7. limits_vector lim ! i \<le> limits_vector b1 ! i) \<and>
       read (am_bytes (members ! k)) lim = Inr (ao_object (ros ! k), us ! k)"
    and sums: "\<forall>i<7. limits_vector b1 ! i = limits_vector b' ! i + sum_list (map (\<lambda>u. usage_vector u ! i) us)"
    by auto
  have le: "limits_vector b1 ! i \<le> limits_vector b ! i" if "i < 7" for i
    using u that by (simp add: member_read_def)
  have "\<exists>lim. max_input_bytes lim = length (am_bytes ((m # members) ! k)) \<and>
       (\<forall>i<7. limits_vector lim ! i \<le> limits_vector b ! i) \<and>
       read (am_bytes ((m # members) ! k)) lim = Inr (ao_object ((\<lparr>ao_name = am_name m, ao_object = obj\<rparr> # ros) ! k), (u # us) ! k)"
    if "k < length (m # members)" for k
  proof (cases k)
    case 0
    then show ?thesis using u
      by (auto simp: member_read_def limits_vector_def intro!: exI [of _ "b\<lparr>max_input_bytes := length (am_bytes m)\<rparr>"])
  next
    case (Suc j)
    with that reads obtain lim where lim: "max_input_bytes lim = length (am_bytes (members ! j))"
      "\<forall>i<7. limits_vector lim ! i \<le> limits_vector b1 ! i"
      "read (am_bytes (members ! j)) lim = Inr (ao_object (ros ! j), us ! j)" by auto
    have "\<forall>i<7. limits_vector lim ! i \<le> limits_vector b ! i" using lim(2) le by (meson order_trans)
    with lim Suc show ?thesis by (intro exI [of _ lim]) simp
  qed
  moreover have "limits_vector b ! i = limits_vector b' ! i + sum_list (map (\<lambda>u. usage_vector u ! i) (u # us))"
    if "i < 7" for i using u sums that by (simp add: member_read_def)
  ultimately show ?case
    using ros us u by (intro exI [of _ "\<lparr>ao_name = am_name m, ao_object = obj\<rparr> # ros"] exI [of _ "u # us"])
      (auto simp: member_read_def)
qed

subsection \<open>The driver\<close>

definition input_objects :: "link_input list \<Rightarrow> object_file set" where
  "input_objects inputs =
     (\<Union>inp\<in>set inputs. case inp of ObjectInput obj \<Rightarrow> {obj} | ArchiveInput ms \<Rightarrow> ao_object ` set ms)"

lemma pulls_subset:
  "pulls entry members used objects result \<Longrightarrow> set result \<subseteq> set objects \<union> ao_object ` set members"
  by (induction rule: pulls.induct) (auto simp: candidate_def)

lemma selects_subset: "selects entry inputs objects result \<Longrightarrow> set result \<subseteq> set objects \<union> input_objects inputs"
  by (induction rule: selects.induct) (auto simp: input_objects_def dest!: pulls_subset)

lemma select_from_inputs:
  assumes "select inputs entry max_bytes = Inr objects"
  shows "set objects \<subseteq> input_objects inputs"
proof -
  from assms obtain st where
    run: "foldR (select_input entry max_bytes) inputs
      \<lparr>sel_objects = [], sel_fuel = 10000000, sel_payload = 0\<rparr> = Inr st" and res: "objects = sel_objects st"
    by (auto simp: select_def rbind_eq_Inr)
  from selects_subset [OF select_inputs_selects [OF run]] res show ?thesis by simp
qed

definition valid_input :: "link_input \<Rightarrow> bool" where
  "valid_input inp \<longleftrightarrow>
     (case inp of
        ObjectInput obj \<Rightarrow> obj_target obj = elf64 X86_64 \<and> wf_object obj
      | ArchiveInput members \<Rightarrow> \<forall>m\<in>set members. wf_object (ao_object m))"

lemma validate_input_iff: "validate_input (i, inp) = Inr () \<longleftrightarrow> valid_input inp"
  by (cases inp)
     (auto simp: validate_input_def valid_input_def validate_input_object_def foldR_unit_Inr
        result_simps validate_diagnostic_wf)

lemma validate_inputs_iff:
  "foldR (\<lambda>x _. validate_input x) (enumerate 0 inputs) () = Inr () \<longleftrightarrow> (\<forall>inp\<in>set inputs. valid_input inp)"
  unfolding foldR_unit_Inr ball_enumerate validate_input_iff by (simp add: all_set_conv_all_nth)

lemma write_executable_resolves:
  "write_executable objects entry max_bytes = Inr out \<Longrightarrow> is_ok (resolve_symbols objects)"
  by (auto simp: write_executable_def entry_symbol_def rbind_eq_Inr map_err_eq_Inr is_ok_iff)

lemma link_with_limit_iff:
  "link_with_limit lk max_bytes = Inr out \<longleftrightarrow>
     (\<forall>inp\<in>set (lk_inputs lk). valid_input inp) \<and>
     (\<exists>objects. select (lk_inputs lk) (lk_entry lk) max_bytes = Inr objects \<and>
        write_executable objects (lk_entry lk) max_bytes = Inr out)"
proof -
  have fmt: "lk_format lk = ELF64Executable" by (cases "lk_format lk")
  show ?thesis
    unfolding link_with_limit_def rbind_eq_Inr validate_inputs_iff [symmetric]
    using write_executable_resolves by (auto simp: map_err_eq_Inr fmt is_ok_iff)
qed

text \<open>A reader for the witnesses: it accepts any bytes as the helper object of the sample and
  charges one section, two symbols and one payload byte.\<close>

definition sample_reader :: reader where
  "sample_reader bs lim = Inr (sample_helper,
     \<lparr>used_input_bytes = length bs, used_sections = 1, used_program_headers = 0, used_symbols = 2,
      used_relocations = 0, used_payload_bytes = 1, used_string_bytes = 0, used_work = 0\<rparr>)"

definition sample_archive :: bytes where
  "sample_archive = render_archive [\<lparr>am_name = lit ''helper.o'', am_bytes = []\<rparr>]"

lemma sample_archive_read:
  "\<exists>b. budget_archive sample_reader default_read_limits sample_archive =
     Inr (b, [\<lparr>ao_name = lit ''helper.o'', ao_object = sample_helper\<rparr>]) \<and> max_symbols b = 999998"
proof -
  let ?m = "\<lparr>am_name = lit ''helper.o'', am_bytes = []\<rparr> :: archive_member"
  let ?lim = "\<lparr>max_names = 1024 * 1024, max_strings = max_string_bytes default_read_limits,
      max_arc_work = max_work default_read_limits\<rparr>"
  have len: "length sample_archive = 68"
    by (simp add: sample_archive_def render_archive_def render_member_def pad_to_def lit_def decimal_digits.simps)
  have "\<forall>m\<in>set [?m]. plain_member m"
    by (simp add: plain_member_def plain_byte_def is_bsd_index_def lit_def)
  moreover have "roomy ?lim" by (simp add: roomy_def default_read_limits_def usize_max_def)
  ultimately obtain strings work where
    parse: "parse_archive sample_archive ?lim = Inr ([?m], strings, work)"
    using parse_rendered [of "[?m]" ?lim] len by (auto simp: sample_archive_def)
  from parse_archive_inv [OF parse] have "strings \<le> max_string_bytes default_read_limits"
    "work \<le> max_work default_read_limits" by (auto simp: archive_inv_def)
  with parse len show ?thesis
    by (simp add: budget_archive_def budget_input_def subtract_def usize_sub_def read_member_def
        budget_member_def budget_consume_def sample_reader_def default_read_limits_def)
qed

lemma budget_archive_Inr:
  assumes "budget_archive read b bs = Inr (b', objects)"
  shows "\<exists>members strings work usages.
    parse_archive bs \<lparr>max_names = 1024 * 1024, max_strings = max_string_bytes b,
      max_arc_work = max_work b\<rparr> = Inr (members, strings, work) \<and>
    map ao_name objects = map am_name members \<and> length usages = length members \<and>
    max_input_bytes b = max_input_bytes b' + length bs \<and>
    (\<forall>i<7. limits_vector b ! i = limits_vector b' ! i + [0, 0, 0, 0, 0, strings, work] ! i +
       sum_list (map (\<lambda>u. usage_vector u ! i) usages)) \<and>
    (\<forall>k<length members. \<exists>lim. (\<forall>i<7. limits_vector lim ! i \<le> limits_vector b ! i) \<and>
       read (am_bytes (members ! k)) lim = Inr (ao_object (objects ! k), usages ! k))"
proof -
  from assms obtain v members strings work t w where
    b1: "max_input_bytes b = v + length bs"
    and parse: "parse_archive bs \<lparr>max_names = 1024 * 1024, max_strings = max_string_bytes b,
      max_arc_work = max_work b\<rparr> = Inr (members, strings, work)"
    and tw: "max_string_bytes b = t + strings" "max_work b = w + work"
    and loop: "foldR (read_member read) members
        (b\<lparr>max_input_bytes := v, max_string_bytes := t, max_work := w\<rparr>, []) = Inr (b', objects)"
    by (auto simp: budget_archive_def budget_input_def rbind_eq_Inr map_err_eq_Inr subtract_Inr)
  let ?b2 = "b\<lparr>max_input_bytes := v, max_string_bytes := t, max_work := w\<rparr>"
  have v: "limits_vector b ! i = limits_vector ?b2 ! i + [0, 0, 0, 0, 0, strings, work] ! i" if "i < 7" for i
    using that tw by (auto simp: limits_vector_def less_Suc_eq numeral_eq_Suc)
  from read_members_Inr [OF loop] obtain ros usages where
    u: "objects = [] @ ros" "map ao_name ros = map am_name members" "length usages = length members"
      "max_input_bytes b' = max_input_bytes ?b2"
    and reads: "\<forall>k<length members. \<exists>lim. max_input_bytes lim = length (am_bytes (members ! k)) \<and>
       (\<forall>i<7. limits_vector lim ! i \<le> limits_vector ?b2 ! i) \<and>
       read (am_bytes (members ! k)) lim = Inr (ao_object (ros ! k), usages ! k)"
    and sums: "\<forall>i<7. limits_vector ?b2 ! i = limits_vector b' ! i + sum_list (map (\<lambda>u. usage_vector u ! i) usages)"
    by blast
  have le: "limits_vector ?b2 ! i \<le> limits_vector b ! i" if "i < 7" for i using v that by simp
  have "\<forall>k<length members. \<exists>lim. (\<forall>i<7. limits_vector lim ! i \<le> limits_vector b ! i) \<and>
       read (am_bytes (members ! k)) lim = Inr (ao_object (objects ! k), usages ! k)"
  proof (intro allI impI)
    fix k
    assume "k < length members"
    with reads obtain lim where lim: "\<forall>i<7. limits_vector lim ! i \<le> limits_vector ?b2 ! i"
      "read (am_bytes (members ! k)) lim = Inr (ao_object (ros ! k), usages ! k)" by blast
    have "\<forall>i<7. limits_vector lim ! i \<le> limits_vector b ! i" using lim(1) le order_trans by blast
    with lim(2) u(1) show "\<exists>lim. (\<forall>i<7. limits_vector lim ! i \<le> limits_vector b ! i) \<and>
       read (am_bytes (members ! k)) lim = Inr (ao_object (objects ! k), usages ! k)" by auto
  qed
  with parse u sums v b1 show ?thesis by (intro exI [of _ members] exI [of _ strings] exI [of _ work]
      exI [of _ usages]) simp
qed

lemma budget_archive_mono:
  "budget_archive read b bs = Inr (b', objects) \<Longrightarrow> i < 7 \<Longrightarrow> limits_vector b' ! i \<le> limits_vector b ! i"
  by (drule budget_archive_Inr) auto

lemma budget_object_mono:
  assumes "budget_object read b bs = Inr (b', obj)" "i < 7"
  shows "limits_vector b' ! i \<le> limits_vector b ! i"
proof -
  from assms(1) obtain v where "budget_member read (b\<lparr>max_input_bytes := v\<rparr>) bs = Inr (b', obj)"
    by (auto simp: budget_object_def budget_input_def rbind_eq_Inr map_err_eq_Inr)
  from budget_member_Inr [OF this] assms(2) show ?thesis by (auto simp: member_read_def limits_vector_def)
qed

lemma sample_selected: "select sample_inputs ''_start'' 100000 = Inr [sample_main, sample_helper]"
  by (simp add: sample_inputs_def exec_simps sample_defs select_archive.simps Let_def word_le_nat_alt)

lemma sample_inputs_valid: "\<forall>inp\<in>set sample_inputs. valid_input inp"
proof -
  have "validate_diagnostic sample_main = Inr ()" "validate_diagnostic sample_helper = Inr ()"
    by (simp_all add: sample_defs exec_simps)
  then show ?thesis
    by (simp add: sample_inputs_def valid_input_def validate_diagnostic_wf) (simp add: sample_main_def)
qed

subsection \<open>Properties\<close>







end
