(* ===== verification/ElfWrite.thy ===== *)
theory ElfWrite
  imports ObjectModel Alignment Bytes "HOL-Library.AList"
begin

text \<open>
  The relocatable ELF writer, \<open>object/src/formats/elf.rs\<close>.  \<open>preflight\<close> accounts for
  the whole output before anything is built; \<open>write_elf_checked\<close> builds the section headers and
  their payloads in the order of the source, lays them out in the file and emits it.  The
  structures that the source serialises with \<open>to_bytes\<close> are records, and every table is a
  list of bytes.  Whether the host grants an allocation (\<open>try_reserve\<close>) is a function of
  the allocation, an argument of the writer; each allocation of a run has its own name.  The
  indexing and the \<open>expect\<close> that Rust would panic on are the failure \<open>WritePanic\<close>.
\<close>

subsection \<open>Failures and the host\<close>

datatype write_failure = WriteError object_error | WritePanic

definition write_error :: "object_error_kind \<Rightarrow> write_failure" where
  "write_error k = WriteError (object_error_new ''write'' k)"

definition output_limit :: write_failure where
  "output_limit = WriteError ((object_error_new ''write'' ResourceLimit)\<lparr>oe_resource := Some OutputBytes\<rparr>)"

text \<open>The allocations: the growth of the two string tables at a length, the symbols, the
  relocations of a section, the bytes of the symbol table, and the output.\<close>

datatype elf_allocation =
  SectionNames usize | SymbolNames usize | SymbolTable | RelocationTable usize | SymbolBytes | OutputFile

record elf_host =
  eh_grants :: "elf_allocation \<Rightarrow> bool"
  eh_sym_build_size :: usize

definition reserve_elf :: "elf_host \<Rightarrow> elf_allocation \<Rightarrow> write_failure + unit" where
  "reserve_elf h a = ensure (eh_grants h a) (write_error HostAllocation)"

subsection \<open>Serialised structures\<close>

record elf64_header =
  h_ident :: bytes
  h_type :: u16
  h_machine :: u16
  h_version :: u32
  h_entry :: u64
  h_phoff :: u64
  h_shoff :: u64
  h_flags :: u32
  h_ehsize :: u16
  h_phentsize :: u16
  h_phnum :: u16
  h_shentsize :: u16
  h_shnum :: u16
  h_shstrndx :: u16

definition header_bytes :: "elf64_header \<Rightarrow> bytes" where
  "header_bytes h =
     h_ident h @ to_le_bytes 2 (h_type h) @ to_le_bytes 2 (h_machine h) @ to_le_bytes 4 (h_version h) @
     to_le_bytes 8 (h_entry h) @ to_le_bytes 8 (h_phoff h) @ to_le_bytes 8 (h_shoff h) @
     to_le_bytes 4 (h_flags h) @ to_le_bytes 2 (h_ehsize h) @ to_le_bytes 2 (h_phentsize h) @
     to_le_bytes 2 (h_phnum h) @ to_le_bytes 2 (h_shentsize h) @ to_le_bytes 2 (h_shnum h) @
     to_le_bytes 2 (h_shstrndx h)"

record elf64_shdr =
  sh_name :: u32
  sh_type :: u32
  sh_flags :: u64
  sh_addr :: u64
  sh_offset :: u64
  sh_size :: u64
  sh_link :: u32
  sh_info :: u32
  sh_addralign :: u64
  sh_entsize :: u64

definition shdr_default :: elf64_shdr where
  "shdr_default =
     \<lparr>sh_name = 0, sh_type = 0, sh_flags = 0, sh_addr = 0, sh_offset = 0, sh_size = 0, sh_link = 0,
      sh_info = 0, sh_addralign = 0, sh_entsize = 0\<rparr>"

definition shdr_bytes :: "elf64_shdr \<Rightarrow> bytes" where
  "shdr_bytes s =
     to_le_bytes 4 (sh_name s) @ to_le_bytes 4 (sh_type s) @ to_le_bytes 8 (sh_flags s) @
     to_le_bytes 8 (sh_addr s) @ to_le_bytes 8 (sh_offset s) @ to_le_bytes 8 (sh_size s) @
     to_le_bytes 4 (sh_link s) @ to_le_bytes 4 (sh_info s) @ to_le_bytes 8 (sh_addralign s) @
     to_le_bytes 8 (sh_entsize s)"

record elf64_sym =
  st_name :: u32
  st_info :: u8
  st_other :: u8
  st_shndx :: u16
  st_value :: u64
  st_size :: u64

definition sym_default :: elf64_sym where
  "sym_default = \<lparr>st_name = 0, st_info = 0, st_other = 0, st_shndx = 0, st_value = 0, st_size = 0\<rparr>"

definition sym_bytes :: "elf64_sym \<Rightarrow> bytes" where
  "sym_bytes s =
     to_le_bytes 4 (st_name s) @ [st_info s] @ [st_other s] @ to_le_bytes 2 (st_shndx s) @
     to_le_bytes 8 (st_value s) @ to_le_bytes 8 (st_size s)"

record elf64_rela =
  r_offset :: u64
  r_info :: u64
  r_addend :: u64

definition rela_bytes :: "elf64_rela \<Rightarrow> bytes" where
  "rela_bytes r = to_le_bytes 8 (r_offset r) @ to_le_bytes 8 (r_info r) @ to_le_bytes 8 (r_addend r)"

definition sht_progbits :: u32 where "sht_progbits = 1"

definition sht_symtab :: u32 where "sht_symtab = 2"

definition sht_strtab :: u32 where "sht_strtab = 3"

definition sht_rela :: u32 where "sht_rela = 4"

definition sht_nobits :: u32 where "sht_nobits = 8"

definition section_type_and_flags :: "section_kind \<Rightarrow> u32 \<times> u64" where
  "section_type_and_flags k =
     (case k of
        Text \<Rightarrow> (sht_progbits, 2 OR 4)
      | Data \<Rightarrow> (sht_progbits, 2 OR 1)
      | ReadOnlyData \<Rightarrow> (sht_progbits, 2)
      | Bss \<Rightarrow> (sht_nobits, 2 OR 1))"

fun binding_to_stb :: "symbol_binding \<Rightarrow> u8" where
  "binding_to_stb Local = 0"
| "binding_to_stb Global = 1"
| "binding_to_stb Weak = 2"

fun visibility_to_stv :: "symbol_visibility \<Rightarrow> u8" where
  "visibility_to_stv DefaultVis = 0"
| "visibility_to_stv Hidden = 2"

fun symbol_type :: "symbol_kind \<Rightarrow> u8" where
  "symbol_type NoType = 0"
| "symbol_type Object = 1"
| "symbol_type Function = 2"

subsection \<open>Checked sizes\<close>

definition elf_align_up :: "u64 \<Rightarrow> u64 \<Rightarrow> write_failure + u64" where
  "elf_align_up v a =
     (if \<not> is_power_of_two a then Inl (write_error InvalidAlignment)
      else ok_or (checked_add v (padding v a)) (write_error Overflow))"

interpretation elf_writer: aligner elf_align_up unat is_power_of_two
  by unfold_locales (simp_all add: elf_align_up_def result_simps align_simps is_power_of_two_pos)

definition checked_u32 :: "usize \<Rightarrow> write_failure + u32" where
  "checked_u32 v = (if v < 2 ^ 32 then Inr (of_nat v) else Inl (write_error Overflow))"

definition checked_u16 :: "usize \<Rightarrow> write_failure + u16" where
  "checked_u16 v = (if v < 2 ^ 16 then Inr (of_nat v) else Inl (write_error Overflow))"

definition checked_section_count :: "usize \<Rightarrow> usize \<Rightarrow> write_failure + u16" where
  "checked_section_count n relocated =
     rbind (ok_or (Option.bind (usize_add n relocated) (\<lambda>m. usize_add m 4)) (write_error Overflow)) (\<lambda>count.
     if 0xff00 \<le> count then Inl (write_error Unsupported) else Inr (of_nat count))"

definition checked_output_size :: "u64 \<Rightarrow> u64 \<Rightarrow> write_failure + usize" where
  "checked_output_size n limit =
     (if n > limit then Inl output_limit
      else if unat n > 2 ^ 63 - 1 then Inl (write_error Overflow)
      else Inr (unat n))"

definition checked_table_bytes :: "usize \<Rightarrow> usize \<Rightarrow> u64 \<Rightarrow> write_failure + usize" where
  "checked_table_bytes count stride limit =
     rbind (ok_or (usize_mul count stride) (write_error Overflow)) (\<lambda>size.
     checked_output_size (of_nat size) limit)"

definition checked_name_end :: "usize \<Rightarrow> usize \<Rightarrow> write_failure + usize" where
  "checked_name_end current name_len =
     rbind (ok_or (Option.bind (usize_add current name_len) (\<lambda>m. usize_add m 1)) (write_error Overflow)) (\<lambda>stop.
     rbind (checked_u32 stop) (\<lambda>_. Inr stop))"

definition push_name ::
  "elf_host \<Rightarrow> (usize \<Rightarrow> elf_allocation) \<Rightarrow> bytes \<Rightarrow> string \<Rightarrow> write_failure + u32 \<times> bytes" where
  "push_name h table_name table nm =
     rbind (checked_name_end (length table) (length nm)) (\<lambda>_.
     rbind (checked_u32 (length table)) (\<lambda>index.
     rbind (reserve_elf h (table_name (length table))) (\<lambda>_.
     Inr (index, table @ lit nm @ [0]))))"

subsection \<open>Accounting for the output\<close>

text \<open>\<open>relocation_counts\<close>: a section with relocations has one entry.\<close>

definition count_relocation ::
  "usize \<Rightarrow> object_relocation \<Rightarrow> (usize \<times> usize) list \<Rightarrow> write_failure + (usize \<times> usize) list" where
  "count_relocation section_count r counts =
     (if section_count \<le> rel_section r
      then Inl (WriteError (err_section (object_error_new ''write'' InvalidSection) (rel_section r)))
      else
        rbind (ok_or (usize_add (case map_of counts (rel_section r) of Some n \<Rightarrow> n | None \<Rightarrow> 0) 1) (write_error Overflow))
          (\<lambda>n. Inr (AList.update (rel_section r) n counts)))"

definition preflight_section ::
  "(usize \<times> usize) list \<Rightarrow> u64 \<Rightarrow> usize \<times> obj_section \<Rightarrow> usize \<times> u64 \<Rightarrow> write_failure + usize \<times> u64" where
  "preflight_section counts limit = (\<lambda>(index, s) (shstr, offset).
     rbind (checked_name_end shstr (length (sec_name s))) (\<lambda>shstr.
     rbind (checked_output_size (of_nat shstr) limit) (\<lambda>_.
     if sec_align s \<noteq> 0 \<and> \<not> is_power_of_two (sec_align s)
     then Inl (WriteError (err_section (object_error_new ''write'' InvalidAlignment) index))
     else
       rbind (elf_align_up offset (max (sec_align s) 1)) (\<lambda>aligned.
       rbind (if sec_kind s \<noteq> Bss then ok_or (checked_add aligned (file_size s)) (write_error Overflow)
              else Inr offset) (\<lambda>offset.
       rbind (if map_of counts index = None then Inr shstr
              else
                rbind (ok_or (usize_add (length (sec_name s)) 5) (write_error Overflow)) (\<lambda>name_len.
                rbind (checked_name_end shstr name_len) (\<lambda>shstr.
                rbind (checked_output_size (of_nat shstr) limit) (\<lambda>_.
                Inr shstr)))) (\<lambda>shstr.
       rbind (checked_output_size offset limit) (\<lambda>_.
       Inr (shstr, offset))))))))"

definition preflight_name ::
  "u64 \<Rightarrow> string \<Rightarrow> string set \<times> usize \<times> usize \<Rightarrow> write_failure + string set \<times> usize \<times> usize" where
  "preflight_name limit nm = (\<lambda>(names, symbols, str_size).
     rbind (checked_output_size (of_nat (length nm)) limit) (\<lambda>_.
     if nm \<in> names then Inr (names, symbols, str_size)
     else
       rbind (ok_or (usize_add symbols 1) (write_error Overflow)) (\<lambda>symbols.
       if nm = '''' then Inr (insert nm names, symbols, str_size)
       else
         rbind (checked_name_end str_size (length nm)) (\<lambda>str_size.
         rbind (checked_output_size (of_nat str_size) limit) (\<lambda>_.
         Inr (insert nm names, symbols, str_size))))))"

definition preflight_relocations ::
  "(usize \<times> usize) list \<Rightarrow> u64 \<Rightarrow> usize \<Rightarrow> u64 \<Rightarrow> write_failure + u64" where
  "preflight_relocations counts limit index offset =
     (case map_of counts index of
        None \<Rightarrow> Inr offset
      | Some count \<Rightarrow>
          rbind (checked_table_bytes count 24 limit) (\<lambda>n.
          rbind (elf_align_up offset 8) (\<lambda>aligned.
          ok_or (checked_add aligned (of_nat n)) (write_error Overflow))))"

definition preflight :: "elf_host \<Rightarrow> object_file \<Rightarrow> u64 \<Rightarrow> write_failure + unit" where
  "preflight h obj limit =
     rbind (foldR (count_relocation (length (obj_sections obj))) (obj_relocations obj) []) (\<lambda>counts.
     rbind (checked_section_count (length (obj_sections obj)) (length counts)) (\<lambda>section_count.
     rbind (foldR (preflight_section counts limit) (enumerate 0 (obj_sections obj)) (1, 64)) (\<lambda>(shstr, offset).
     rbind (foldR (preflight_name limit) (map sym_name (obj_symbols obj) @ map rel_symbol (obj_relocations obj))
              ({}, 1, 1)) (\<lambda>(_, symbols, str_size).
     rbind (checked_u32 symbols) (\<lambda>_.
     rbind (foldR (preflight_relocations counts limit) [0..<length (obj_sections obj)] offset) (\<lambda>offset.
     rbind (checked_table_bytes symbols 24 limit) (\<lambda>sym_size.
     rbind (elf_align_up offset 8) (\<lambda>aligned.
     rbind (ok_or (checked_add aligned (of_nat sym_size)) (write_error Overflow)) (\<lambda>offset.
     rbind (foldR (\<lambda>nm n. checked_name_end n (length nm)) [''.symtab'', ''.strtab'', ''.shstrtab''] shstr) (\<lambda>shstr.
     rbind (ok_or (Option.bind (checked_add offset (of_nat str_size)) (\<lambda>n. checked_add n (of_nat shstr)))
              (write_error Overflow)) (\<lambda>offset.
     rbind (checked_table_bytes (unat section_count) 64 limit) (\<lambda>headers.
     rbind (elf_align_up offset 8) (\<lambda>aligned.
     rbind (ok_or (checked_add aligned (of_nat headers)) (write_error Overflow)) (\<lambda>total.
     rbind (checked_output_size total limit) (\<lambda>_.
     foldR (\<lambda>(count, stride) _. rbind (checked_table_bytes count stride (- 1)) (\<lambda>_. Inr ()))
       [(unat section_count, 64), (symbols, eh_sym_build_size h), (symbols, 24)] ())))))))))))))))"

subsection \<open>The tables\<close>

text \<open>The section headers, their payloads and the section-name table under construction.\<close>

record elf_tables =
  et_names :: bytes
  et_headers :: "elf64_shdr list"
  et_payloads :: "bytes option list"

definition push_table :: "elf64_shdr \<Rightarrow> bytes option \<Rightarrow> elf_tables \<Rightarrow> elf_tables" where
  "push_table s p t = t\<lparr>et_headers := et_headers t @ [s], et_payloads := et_payloads t @ [p]\<rparr>"

definition write_section :: "elf_host \<Rightarrow> obj_section \<Rightarrow> elf_tables \<Rightarrow> write_failure + elf_tables" where
  "write_section h s t =
     rbind (push_name h SectionNames (et_names t) (sec_name s)) (\<lambda>(name_idx, names).
     let (type, flags) = section_type_and_flags (sec_kind s) in
     rbind (map_err (\<lambda>_. WritePanic) (memory_size s)) (\<lambda>data_size.
     Inr (push_table
       (shdr_default\<lparr>sh_name := name_idx, sh_type := type, sh_flags := flags, sh_size := data_size,
                     sh_addralign := max (sec_align s) 1\<rparr>)
       (if type = sht_nobits then None else Some (sec_data s)) (t\<lparr>et_names := names\<rparr>))))"

definition undefined_global :: "string \<Rightarrow> object_symbol" where
  "undefined_global nm =
     \<lparr>sym_kind = NoType, sym_name = nm, sym_section = None, sym_value = 0, sym_size = 0,
      sym_binding = Global, sym_visibility = DefaultVis\<rparr>"

text \<open>The symbols of the object, then one undefined symbol for each other name that a relocation
  uses.  \<open>SymBuild\<close> borrows the fields of a symbol; here it is the symbol.\<close>

fun add_referenced :: "object_relocation list \<Rightarrow> string set \<Rightarrow> object_symbol list" where
  "add_referenced [] names = []"
| "add_referenced (r # rs) names =
     (if rel_symbol r \<in> names then add_referenced rs names
      else undefined_global (rel_symbol r) # add_referenced rs (insert (rel_symbol r) names))"

definition is_local :: "object_symbol \<Rightarrow> bool" where
  "is_local s \<longleftrightarrow> sym_binding s = Local"

definition ordered_symbols :: "object_file \<Rightarrow> object_symbol list" where
  "ordered_symbols obj =
     (let symbols = obj_symbols obj @ add_referenced (obj_relocations obj) (sym_name ` set (obj_symbols obj)) in
      filter is_local symbols @ filter (\<lambda>s. \<not> is_local s) symbols)"

definition first_global :: "object_symbol list \<Rightarrow> usize" where
  "first_global symbols = 1 + length (takeWhile is_local symbols)"

text \<open>The index of the header of section \<open>i\<close> is \<open>i + 1\<close>: \<open>section_to_shdr_idx\<close>.\<close>

definition symbol_section_index :: "usize list \<Rightarrow> object_symbol \<Rightarrow> usize" where
  "symbol_section_index indices s =
     (case Option.bind (sym_section s) (get indices) of Some i \<Rightarrow> i | None \<Rightarrow> 0)"

definition write_symbol ::
  "elf_host \<Rightarrow> usize list \<Rightarrow> object_symbol \<Rightarrow> bytes \<times> elf64_sym list \<times> (string \<rightharpoonup> usize) \<Rightarrow>
   write_failure + bytes \<times> elf64_sym list \<times> (string \<rightharpoonup> usize)" where
  "write_symbol h indices s = (\<lambda>(strtab, syms, index_of).
     rbind (if sym_name s = '''' then Inr (0, strtab) else push_name h SymbolNames strtab (sym_name s))
       (\<lambda>(name_idx, strtab).
     rbind (checked_u16 (symbol_section_index indices s)) (\<lambda>shndx.
     Inr (strtab,
          syms @ [\<lparr>st_name = name_idx,
                   st_info = push_bit 4 (binding_to_stb (sym_binding s)) OR symbol_type (sym_kind s),
                   st_other = visibility_to_stv (sym_visibility s), st_shndx = shndx,
                   st_value = sym_value s, st_size = sym_size s\<rparr>],
          if index_of (sym_name s) = None then index_of(sym_name s \<mapsto> length syms) else index_of))))"

definition group_relocation ::
  "object_relocation \<Rightarrow> object_relocation list list \<Rightarrow> write_failure + object_relocation list list" where
  "group_relocation r groups =
     (if rel_section r < length groups
      then Inr (groups[rel_section r := groups ! rel_section r @ [r]]) else Inl WritePanic)"

definition write_relocation ::
  "object_target \<Rightarrow> (string \<rightharpoonup> usize) \<Rightarrow> object_relocation \<Rightarrow> bytes \<Rightarrow> write_failure + bytes" where
  "write_relocation t index_of r data =
     rbind (ok_or (index_of (rel_symbol r)) (write_error InvalidRelocation)) (\<lambda>i.
     rbind (checked_u32 i) (\<lambda>sym_idx.
     rbind (ok_or (reloc_encoding (rel_kind r) t) (write_error InvalidRelocation)) (\<lambda>(rtype, _).
     Inr (data @ rela_bytes
       \<lparr>r_offset = of_nat (rel_offset r), r_info = push_bit 32 (ucast sym_idx) OR ucast rtype,
        r_addend = word_of_int (rel_addend r)\<rparr>))))"

definition write_relocations ::
  "elf_host \<Rightarrow> object_file \<Rightarrow> usize list \<Rightarrow> (string \<rightharpoonup> usize) \<Rightarrow> u64 \<Rightarrow> usize \<times> object_relocation list \<Rightarrow>
   elf_tables \<times> usize list \<Rightarrow> write_failure + elf_tables \<times> usize list" where
  "write_relocations h obj indices index_of limit = (\<lambda>(sec_idx, relocs) (t, relas).
     if relocs = [] then Inr (t, relas)
     else
       rbind (push_name h SectionNames (et_names t) (''.rela'' @ sec_name (obj_sections obj ! sec_idx)))
         (\<lambda>(name_idx, names).
       rbind (checked_table_bytes (length relocs) 24 limit) (\<lambda>_.
       rbind (reserve_elf h (RelocationTable sec_idx)) (\<lambda>_.
       rbind (foldR (write_relocation (obj_target obj) index_of) relocs []) (\<lambda>data.
       rbind (checked_u32 (indices ! sec_idx)) (\<lambda>target.
       Inr (push_table
              (shdr_default\<lparr>sh_name := name_idx, sh_type := sht_rela, sh_flags := 0x40, sh_info := target,
                            sh_addralign := 8, sh_entsize := 24, sh_size := len64 data\<rparr>)
              (Some data) (t\<lparr>et_names := names\<rparr>),
            relas @ [length (et_headers t)])))))))"

definition set_link :: "u32 \<Rightarrow> usize \<Rightarrow> elf64_shdr list \<Rightarrow> elf64_shdr list" where
  "set_link l i hs = hs[i := (hs ! i)\<lparr>sh_link := l\<rparr>]"

text \<open>The symbol table, the two string tables and the links between them: the part of
  \<open>write_elf_checked\<close> after the relocation tables.\<close>

definition finish_tables ::
  "elf_host \<Rightarrow> object_symbol list \<Rightarrow> u64 \<Rightarrow> bytes \<Rightarrow> elf64_sym list \<Rightarrow> usize list \<Rightarrow> elf_tables \<Rightarrow>
   write_failure + elf_tables" where
  "finish_tables h symbols limit strtab syms relas t =
     rbind (push_name h SectionNames (et_names t) ''.symtab'') (\<lambda>(symtab_name, names).
     let symtab_idx = length (et_headers t) in
     rbind (checked_table_bytes (length syms) 24 limit) (\<lambda>_.
     rbind (reserve_elf h SymbolBytes) (\<lambda>_.
     let symtab = concat (map sym_bytes syms) in
     rbind (checked_u32 (first_global symbols)) (\<lambda>info.
     let t = push_table
               (shdr_default\<lparr>sh_name := symtab_name, sh_type := sht_symtab, sh_info := info, sh_addralign := 8,
                             sh_entsize := 24, sh_size := len64 symtab\<rparr>) (Some symtab) (t\<lparr>et_names := names\<rparr>) in
     rbind (push_name h SectionNames (et_names t) ''.strtab'') (\<lambda>(strtab_name, names).
     let strtab_idx = length (et_headers t);
         t = push_table
               (shdr_default\<lparr>sh_name := strtab_name, sh_type := sht_strtab, sh_addralign := 1,
                             sh_size := len64 strtab\<rparr>) (Some strtab) (t\<lparr>et_names := names\<rparr>) in
     rbind (checked_u32 strtab_idx) (\<lambda>strtab_link.
     let t = t\<lparr>et_headers := set_link strtab_link symtab_idx (et_headers t)\<rparr> in
     rbind (foldR (\<lambda>i hs. rbind (checked_u32 symtab_idx) (\<lambda>l. Inr (set_link l i hs))) relas (et_headers t)) (\<lambda>hs.
     let t = t\<lparr>et_headers := hs\<rparr> in
     rbind (push_name h SectionNames (et_names t) ''.shstrtab'') (\<lambda>(shstrtab_name, names).
     Inr (push_table
            (shdr_default\<lparr>sh_name := shstrtab_name, sh_type := sht_strtab, sh_addralign := 1,
                          sh_size := len64 names\<rparr>) (Some names) (t\<lparr>et_names := names\<rparr>))))))))))"

definition build_tables :: "elf_host \<Rightarrow> object_file \<Rightarrow> u64 \<Rightarrow> write_failure + elf_tables" where
  "build_tables h obj limit =
     rbind (foldR (write_section h) (obj_sections obj)
              \<lparr>et_names = [0], et_headers = [shdr_default], et_payloads = [None]\<rparr>) (\<lambda>t.
     let indices = map Suc [0..<length (obj_sections obj)]; symbols = ordered_symbols obj in
     rbind (ok_or (usize_add (length symbols) 1) (write_error Overflow)) (\<lambda>symbol_count.
     rbind (checked_u32 symbol_count) (\<lambda>_.
     rbind (checked_table_bytes symbol_count 24 limit) (\<lambda>_.
     rbind (reserve_elf h SymbolTable) (\<lambda>_.
     rbind (foldR (write_symbol h indices) symbols ([0], [sym_default], Map.empty)) (\<lambda>(strtab, syms, index_of).
     rbind (foldR group_relocation (obj_relocations obj) (replicate (length (obj_sections obj)) [])) (\<lambda>groups.
     rbind (foldR (write_relocations h obj indices index_of limit) (enumerate 0 groups) (t, [])) (\<lambda>(t, relas).
     finish_tables h symbols limit strtab syms relas t))))))))"

subsection \<open>Layout and emission\<close>

definition place_header ::
  "bytes option list \<Rightarrow> usize \<Rightarrow> elf64_shdr list \<times> u64 \<Rightarrow> write_failure + elf64_shdr list \<times> u64" where
  "place_header payloads i = (\<lambda>(hs, current).
     rbind (elf_align_up current (max (sh_addralign (hs ! i)) 1)) (\<lambda>offset.
     let s = (hs ! i)\<lparr>sh_offset := offset\<rparr> in
     if sh_type s = sht_nobits then Inr (hs[i := s], current)
     else
       let size = (case payloads ! i of Some p \<Rightarrow> len64 p | None \<Rightarrow> 0) in
       rbind (ok_or (checked_add offset size) (write_error Overflow)) (\<lambda>current.
       Inr (hs[i := s\<lparr>sh_size := size\<rparr>], current))))"

definition pad_zero :: "usize \<Rightarrow> bytes \<Rightarrow> bytes" where
  "pad_zero n out = out @ replicate (n - length out) 0"

definition emit_payload :: "elf64_shdr \<times> bytes option \<Rightarrow> bytes \<Rightarrow> bytes" where
  "emit_payload = (\<lambda>(s, p) out.
     if sh_type s = sht_nobits then out
     else pad_zero (unat (sh_offset s)) out @ (case p of Some data \<Rightarrow> data | None \<Rightarrow> []))"

definition rel_header :: "object_target \<Rightarrow> u16 \<Rightarrow> u64 \<Rightarrow> u16 \<Rightarrow> u16 \<Rightarrow> elf64_header" where
  "rel_header t machine shoff shnum shstrndx =
     \<lparr>h_ident = [0x7f, 0x45, 0x4C, 0x46, 2, 1, 1, 0, 0, 0, 0, 0, 0, 0, 0, 0], h_type = 1,
      h_machine = machine, h_version = 1, h_entry = 0, h_phoff = 0, h_shoff = shoff,
      h_flags = elf_flags t, h_ehsize = 64, h_phentsize = 0, h_phnum = 0, h_shentsize = 64,
      h_shnum = shnum, h_shstrndx = shstrndx\<rparr>"

text \<open>Lay the tables out and emit the file: the end of \<open>write_elf_checked\<close>.  A file offset
  fits the host, whose \<open>usize\<close> has 64 bits.\<close>

definition emit_tables ::
  "elf_host \<Rightarrow> object_target \<Rightarrow> u16 \<Rightarrow> usize \<Rightarrow> usize \<Rightarrow> u64 \<Rightarrow> elf_tables \<Rightarrow> write_failure + bytes" where
  "emit_tables h target machine section_count relocated limit t =
     rbind (foldR (place_header (et_payloads t)) [1..<length (et_headers t)] (et_headers t, 64)) (\<lambda>(hs, current).
     rbind (elf_align_up current 8) (\<lambda>shoff.
     rbind (checked_table_bytes (length hs) 64 limit) (\<lambda>section_bytes.
     rbind (ok_or (checked_add shoff (of_nat section_bytes)) (write_error Overflow)) (\<lambda>total.
     rbind (checked_output_size total limit) (\<lambda>_.
     rbind (checked_section_count section_count relocated) (\<lambda>shnum.
     rbind (checked_u16 (length hs - 1)) (\<lambda>shstrndx.
     rbind (reserve_elf h OutputFile) (\<lambda>_.
     Inr (pad_zero (unat shoff)
            (fold emit_payload (tl (zip hs (et_payloads t)))
              (header_bytes (rel_header target machine shoff shnum shstrndx))) @
          concat (map shdr_bytes hs))))))))))"

definition write_elf_checked :: "elf_host \<Rightarrow> object_file \<Rightarrow> u64 \<Rightarrow> write_failure + bytes" where
  "write_elf_checked h obj limit =
     rbind (map_err (\<lambda>_. write_error InvalidTarget) (elf_machine (obj_target obj))) (\<lambda>machine.
     let relocated = card (rel_section ` set (obj_relocations obj)) in
     rbind (checked_section_count (length (obj_sections obj)) relocated) (\<lambda>_.
     rbind (preflight h obj limit) (\<lambda>_.
     rbind (map_err WriteError (validate_diagnostic obj)) (\<lambda>_.
     rbind (build_tables h obj limit) (\<lambda>t.
     emit_tables h (obj_target obj) machine (length (obj_sections obj)) relocated limit t)))))"

definition default_max_output_size :: u64 where
  "default_max_output_size = 256 * 1024 * 1024"

definition write_elf_with_limit :: "elf_host \<Rightarrow> object_file \<Rightarrow> u64 \<Rightarrow> write_failure + bytes" where
  "write_elf_with_limit h obj limit = write_elf_checked h obj limit"

definition write_elf :: "elf_host \<Rightarrow> object_file \<Rightarrow> write_failure + bytes" where
  "write_elf h obj = write_elf_with_limit h obj default_max_output_size"

end
