(* ===== verification/ElfChunks.thy ===== *)
theory ElfChunks
  imports ElfRead
begin

text \<open>
  Reading back what was written.  \<open>chunk bs a p\<close> says that the bytes \<open>p\<close> stand at offset
  \<open>a\<close> of \<open>bs\<close>; a field of a serialised record is a chunk of the record, and the checked reads
  of the ELF view return it.  \<open>yields m P\<close> is the contract of a budgeted operation: its
  result satisfies \<open>P\<close>, unless a resource limit or the host's allocator stopped it.
\<close>

subsection \<open>Chunks\<close>

definition chunk :: "bytes \<Rightarrow> nat \<Rightarrow> bytes \<Rightarrow> bool" where
  "chunk bs a p \<longleftrightarrow> (\<exists>pre post. bs = pre @ p @ post \<and> length pre = a)"

lemma chunk_append: "chunk bs a p \<Longrightarrow> chunk (bs @ cs) a p"
  unfolding chunk_def by (metis append_assoc)

lemma chunk_at: "length pre = a \<Longrightarrow> chunk (pre @ p @ post) a p"
  by (auto simp: chunk_def)

lemma chunk_end: "length pre = a \<Longrightarrow> chunk (pre @ p) a p"
  using chunk_at [of pre a p "[]"] by simp

lemma chunk_prepend: "chunk bs a p \<Longrightarrow> chunk (cs @ bs) (length cs + a) p"
  unfolding chunk_def by (metis append_assoc length_append)

lemma chunk_trans: "chunk bs a p \<Longrightarrow> chunk p b q \<Longrightarrow> chunk bs (a + b) q"
  unfolding chunk_def by (metis append_assoc length_append)

lemma chunk_bound: "chunk bs a p \<Longrightarrow> a + length p \<le> length bs"
  by (auto simp: chunk_def)

lemma chunk_slice: "chunk bs a p \<Longrightarrow> slice bs a (a + length p) = Some p"
  by (auto simp: chunk_def slice_def)

lemma chunk_drop: "chunk bs a p \<Longrightarrow> \<exists>post. drop a bs = p @ post"
  by (auto simp: chunk_def)

lemma chunk_concat:
  assumes "\<forall>x\<in>set xs. length (f x) = w" "i < length xs"
  shows "chunk (concat (map f xs)) (w * i) (f (xs ! i))"
proof -
  have "length (concat (map f (take i xs))) = w * i"
    using assms
  proof (induction i)
    case (Suc i)
    then show ?case by (simp add: take_Suc_conv_app_nth)
  qed simp
  moreover have "concat (map f xs) = concat (map f (take i xs)) @ f (xs ! i) @ concat (map f (drop (Suc i) xs))"
    using id_take_nth_drop [OF assms(2)] by (metis concat.simps(2) concat_append list.simps(9) map_append)
  ultimately show ?thesis by (simp add: chunk_at)
qed

lemma length_concat_fixed: "\<forall>x\<in>set xs. length (f x) = w \<Longrightarrow> length (concat (map f xs)) = w * length xs"
  by (induction xs) auto

subsection \<open>Checked reads\<close>

definition host_file :: "bytes \<Rightarrow> bool" where
  "host_file bs \<longleftrightarrow> length bs < 2 ^ 63"

lemma elf_range_chunk:
  assumes "chunk bs (unat off) p" "unat n = length p" "host_file bs"
  shows "elf_range bs off n = Inr p"
proof -
  have len: "unat off + unat n < 2 ^ 64" using chunk_bound [OF assms(1)] assms(2,3) by (simp add: host_file_def)
  then have "checked_add off n = Some (off + n)" "unat (off + n) = unat off + unat n"
    by (simp_all add: checked_add_def unat_add_no_overflow)
  then show ?thesis using chunk_slice [OF assms(1)] assms(2) by (simp add: elf_range_def)
qed

lemma unat_add_small: "unat a + k < 2 ^ 64 \<Longrightarrow> unat (a + of_nat k :: u64) = unat a + k"
  by (subst unat_add_no_overflow) (simp_all add: unat_of_nat)

text \<open>Field \<open>q\<close> of a record at \<open>at\<close>, after \<open>k\<close> bytes.\<close>

lemma chunk_field:
  assumes "chunk bs (unat at) r" "chunk r k q" "host_file bs"
  shows "chunk bs (unat (at + of_nat k :: u64)) q"
proof -
  have "unat at + k < 2 ^ 64"
    using chunk_bound [OF assms(1)] chunk_bound [OF assms(2)] assms(3) by (simp add: host_file_def)
  then show ?thesis using chunk_trans [OF assms(1,2)] by (simp add: unat_add_small)
qed

lemma of_le_value: "of_nat (le_value (to_le_bytes n (w :: 'a::len word))) = w" if "LENGTH('a) = 8 * n"
proof -
  have "(2::nat) ^ LENGTH('a) = 256 ^ n" by (simp add: that power_mult)
  then have "unat w < 256 ^ n" by (metis unsigned_less)
  then show ?thesis by (simp add: le_value_to_le_bytes)
qed

lemma elf_u16_chunk: "chunk bs (unat at) (to_le_bytes 2 w) \<Longrightarrow> host_file bs \<Longrightarrow> elf_u16 bs at = Inr w"
  by (simp add: elf_u16_def elf_range_chunk of_le_value)

lemma elf_u32_chunk: "chunk bs (unat at) (to_le_bytes 4 w) \<Longrightarrow> host_file bs \<Longrightarrow> elf_u32 bs at = Inr w"
  by (simp add: elf_u32_def elf_range_chunk of_le_value)

lemma elf_u64_chunk: "chunk bs (unat at) (to_le_bytes 8 w) \<Longrightarrow> host_file bs \<Longrightarrow> elf_u64 bs at = Inr w"
  by (simp add: elf_u64_def elf_range_chunk of_le_value)

subsection \<open>Results up to resource limits\<close>

definition benign :: "object_error \<Rightarrow> bool" where
  "benign e \<longleftrightarrow> oe_kind e = ResourceLimit \<or> oe_kind e = HostAllocation"

definition yields :: "object_error + 'a \<Rightarrow> ('a \<Rightarrow> bool) \<Rightarrow> bool" where
  "yields m P \<longleftrightarrow> (case m of Inl e \<Rightarrow> benign e | Inr x \<Rightarrow> P x)"

lemma yields_Inr [simp]: "yields (Inr x) P \<longleftrightarrow> P x"
  by (simp add: yields_def)

lemma yields_Inl [simp]: "yields (Inl e) P \<longleftrightarrow> benign e"
  by (simp add: yields_def)

lemma benign_limit [simp]: "benign (read_limit r)"
  by (simp add: benign_def read_limit_def err_limit_def object_error_new_def)

lemma benign_host [simp]: "benign (read_error HostAllocation)"
  by (simp add: benign_def read_error_def object_error_new_def)

lemma benign_section [simp]: "benign (err_section e i) = benign e"
  by (simp add: benign_def err_section_def err_context_def)

lemma yields_mono: "yields m P \<Longrightarrow> (\<And>x. P x \<Longrightarrow> Q x) \<Longrightarrow> yields m Q"
  by (cases m) auto

lemma yields_rbind: "yields m P \<Longrightarrow> (\<And>x. P x \<Longrightarrow> yields (f x) Q) \<Longrightarrow> yields (rbind m f) Q"
  by (cases m) auto

lemma yields_map_err: "yields m P \<Longrightarrow> (\<And>e. benign e \<Longrightarrow> benign (g e)) \<Longrightarrow> yields (map_err g m) P"
  by (cases m) auto

text \<open>A loop over a list: an invariant indexed by the number of rounds done.\<close>

lemma yields_foldR:
  assumes "I 0 s" "\<And>j t. j < length xs \<Longrightarrow> I j t \<Longrightarrow> yields (f (xs ! j) t) (I (Suc j))"
  shows "yields (foldR f xs s) (I (length xs))"
proof -
  have "yields (foldR f (drop j xs) t) (I (length xs))" if "I j t" "j \<le> length xs" for j t
    using that
  proof (induction "length xs - j" arbitrary: j t)
    case (Suc n)
    then have j: "j < length xs" by simp
    then have "drop j xs = xs ! j # drop (Suc j) xs" by (simp add: Cons_nth_drop_Suc)
    moreover have "yields (f (xs ! j) t) (I (Suc j))" using assms(2) j Suc.prems by blast
    ultimately show ?case using Suc j by (auto intro: yields_rbind)
  qed simp
  from this [of 0 s] assms(1) show ?thesis by simp
qed

lemma yields_foldR_upt:
  assumes "I 0 s" "\<And>j t. j < n \<Longrightarrow> I j t \<Longrightarrow> yields (f j t) (I (Suc j))"
  shows "yields (foldR f [0..<n] s) (I n)"
  using yields_foldR [of I s "[0..<n]" f] assms by simp

lemma yields_foldR_enumerate:
  assumes "I 0 s" "\<And>j t. j < length xs \<Longrightarrow> I j t \<Longrightarrow> yields (f (m + j, xs ! j) t) (I (Suc j))"
  shows "yields (foldR f (enumerate m xs) s) (I (length xs))"
  using yields_foldR [of I s "enumerate m xs" f] assms by (simp add: nth_enumerate_eq)

lemma yields_reserve: "yields (reserve_read h a n) (\<lambda>_. True)"
  by (auto simp: reserve_read_def ensure_def)

lemma yields_charge: "yields (budget_charge limits n b) (\<lambda>_. True)"
  by (auto simp: budget_charge_def ok_or_def split: option.splits)

lemma yields_strings: "yields (budget_strings limits n b) (\<lambda>_. True)"
  by (auto simp: budget_strings_def ok_or_def split: option.splits)

lemma yields_payload: "yields (budget_payload limits n b) (\<lambda>_. True)"
  by (auto simp: budget_payload_def ok_or_def split: option.splits)

lemma yields_own: "yields (budget_own h limits s b) (\<lambda>r. fst r = s)"
  unfolding budget_own_def
  by (intro yields_rbind [OF yields_strings] yields_rbind [OF yields_charge] yields_rbind [OF yields_reserve]) simp

subsection \<open>Names\<close>

text \<open>A string table holds a name at an index: its bytes, then a zero byte.\<close>

definition named :: "bytes \<Rightarrow> nat \<Rightarrow> string \<Rightarrow> bool" where
  "named table k s \<longleftrightarrow> chunk table k (lit s @ [0])"

definition proper_name :: "string \<Rightarrow> bool" where
  "proper_name s \<longleftrightarrow> CHR 0x00 \<notin> set s \<and> utf8_valid (lit s)"

lemma zero_notin_lit: "CHR 0x00 \<notin> set s \<Longrightarrow> 0 \<notin> set (lit s)"
proof
  assume "CHR 0x00 \<notin> set s" "0 \<in> set (lit s)"
  then obtain c where c: "c \<in> set s" "(of_char c :: u8) = 0" by (auto simp: lit_def)
  then have "(of_char c :: nat) = 0" by (metis unat_of_char_byte unsigned_0)
  then have "(of_char c :: nat) = of_char (CHR 0x00)" by simp
  then have "c = CHR 0x00" by (simp only: of_char_eq_iff)
  with c(1) \<open>CHR 0x00 \<notin> set s\<close> show False by simp
qed

lemma takeWhile_nonzero: "0 \<notin> set bs \<Longrightarrow> takeWhile (\<lambda>x. x \<noteq> (0 :: u8)) (bs @ 0 # cs) = bs"
  by (induction bs) auto

lemma takeWhile_take: "takeWhile P (take m xs) = take m (takeWhile P xs)"
proof (induction xs arbitrary: m)
  case (Cons x xs)
  then show ?case by (cases m) auto
qed simp

lemma position_name:
  assumes "CHR 0x00 \<notin> set s" "m \<le> length (lit s @ 0 # post)"
  shows "position (\<lambda>x. x = 0) (take m (lit s @ 0 # post)) = (if length s < m then Some (length s) else None)"
proof -
  have "takeWhile (\<lambda>x. \<not> x = 0) (take m (lit s @ 0 # post)) = take m (lit s)"
    using takeWhile_nonzero [of "lit s" post] zero_notin_lit [OF assms(1)]
    by (simp add: takeWhile_take del: take_append)
  then show ?thesis
    using assms(2) unfolding position_def by (simp add: Let_def min_def del: take_append)
qed

lemma yields_name:
  assumes table: "es_kind t = 3" "chunk (ev_bytes v) (unat (es_offset t)) tbl" "unat (es_size t) = length tbl"
    and nm: "named tbl (unat index) s" "proper_name s" and host: "host_file (ev_bytes v)"
  shows "yields (budget_name limits v t index b) (\<lambda>r. fst r = s)"
proof -
  let ?i = "ucast index :: u64" and ?bs = "ev_bytes v"
  have "unat index < 2 ^ 64" using unsigned_less [of index, where 'a = nat] by simp
  then have i: "unat ?i = unat index" by (simp add: unsigned_ucast_eq take_bit_nat_eq_self)
  obtain pre post where tbl: "tbl = pre @ (lit s @ [0]) @ post" "length pre = unat index"
    using nm(1) by (auto simp: named_def chunk_def)
  have lt: "unat index < length tbl" using tbl by simp
  let ?tail = "lit s @ 0 # post"
  have bound: "unat (es_offset t) + length tbl \<le> length ?bs" using chunk_bound [OF table(2)] .
  have start: "checked_add (es_offset t) ?i = Some (es_offset t + ?i)" "unat (es_offset t + ?i) = unat (es_offset t) + unat index"
    using bound lt host i by (simp_all add: checked_add_def unat_add_no_overflow host_file_def)
  have "chunk ?bs (unat (es_offset t + ?i)) ?tail"
    using chunk_trans [OF table(2), of "unat index" ?tail] tbl by (simp add: start(2) chunk_end)
  moreover have "unat (es_size t - ?i) = length ?tail"
    using lt table(3) i tbl by (simp add: unat_sub word_le_nat_alt)
  ultimately have range: "view_range v (es_offset t + ?i) (es_size t - ?i) = Inr ?tail"
    unfolding view_range_def using host by (intro elf_range_chunk)
  have notgt: "\<not> es_size t \<le> ?i" using lt table(3) i by (simp add: word_le_nat_alt)
  let ?rem = "max_work limits - rb_work b" let ?m = "min (length ?tail) (min usize_max (?rem + 1))"
  have pos: "position (\<lambda>x. x = 0) (take ?m ?tail) = (if length s < ?m then Some (length s) else None)"
    using nm(2) by (intro position_name) (simp_all add: proper_name_def)
  have small: "length ?tail < 2 ^ 63" using bound tbl host by (simp add: host_file_def)
  show ?thesis
  proof (cases "length s < ?m")
    case True
    with pos have "position (\<lambda>x. x = 0) (take ?m ?tail) = Some (length s)" by (simp only: if_True)
    moreover have "take (length s) ?tail = lit s" by simp
    ultimately have "budget_name limits v t index b =
        rbind (budget_charge limits (length s + 1) b) (\<lambda>b. rbind (budget_strings limits (length s) b) (\<lambda>b. Inr (s, b)))"
      using table(1) notgt start(1) range nm(2)
      by (simp add: budget_name_def Let_def proper_name_def del: take_append cong del: rbind_weak_cong)
    then show ?thesis
      by (auto intro!: yields_rbind [OF yields_charge] yields_rbind [OF yields_strings])
  next
    case False
    with pos have "position (\<lambda>x. x = 0) (take ?m ?tail) = None" by (simp only: if_False)
    moreover have "?rem < length ?tail" using False small by (simp add: usize_max_def min_def split: if_splits)
    ultimately show ?thesis
      using table(1) notgt start(1) range by (simp add: budget_name_def Let_def del: take_append)
  qed
qed

end
