(* ===== verification/ElfTables.thy ===== *)
theory ElfTables
  imports ElfWrite ElfChunks
begin

text \<open>
  What \<open>build_tables\<close> builds.  A row is the name of a section header, the header without its
  name and offset, and its payload; \<open>tables_hold rows t\<close> says that the tables \<open>t\<close> consist of
  these rows, with every name in the section-name table.
\<close>

subsection \<open>Loops that consume a list\<close>

lemma foldR_done:
  assumes "foldR f xs s = Inr t" "I [] s"
    and "\<And>ds x s t. x \<in> set xs \<Longrightarrow> I ds s \<Longrightarrow> f x s = Inr t \<Longrightarrow> I (ds @ [x]) t"
  shows "I xs t"
proof -
  have "foldR f ys s = Inr t \<Longrightarrow> set ys \<subseteq> set xs \<Longrightarrow> I ds s \<Longrightarrow> I (ds @ ys) t" for ds ys s
  proof (induction ys arbitrary: ds s)
    case (Cons y ys)
    then obtain s' where "f y s = Inr s'" "foldR f ys s' = Inr t" by (auto simp: rbind_eq_Inr)
    with Cons.IH [of s' "ds @ [y]"] assms(3) [of y ds s s'] Cons.prems show ?case by simp
  qed simp
  from this [of xs s "[]"] assms show ?thesis by simp
qed

lemma checked_u32_Inr: "checked_u32 n = Inr w \<longleftrightarrow> n < 2 ^ 32 \<and> w = of_nat n"
  by (auto simp: checked_u32_def)

lemma checked_u16_Inr: "checked_u16 n = Inr w \<longleftrightarrow> n < 2 ^ 16 \<and> w = of_nat n"
  by (auto simp: checked_u16_def)

lemma checked_output_size_Inr: "checked_output_size w limit = Inr n \<Longrightarrow> n = unat w \<and> n < 2 ^ 63 \<and> n \<le> unat limit"
  by (auto simp: checked_output_size_def word_le_nat_alt not_less split: if_splits)

lemma checked_table_bytes_Inr:
  assumes "checked_table_bytes count stride limit = Inr n"
  shows "n = count * stride \<and> n < 2 ^ 63"
proof -
  have "count * stride \<le> usize_max" and "checked_output_size (of_nat (count * stride)) limit = Inr n"
    using assms by (auto simp: checked_table_bytes_def result_simps checked_simps)
  then show ?thesis
    using checked_output_size_Inr [of "of_nat (count * stride)" limit n]
    by (simp add: unat_of_nat usize_max_def del: of_nat_mult)
qed

subsection \<open>String tables\<close>

definition string_table :: "bytes \<Rightarrow> bool" where
  "string_table bs \<longleftrightarrow> is_string_table bs \<and> length bs < 2 ^ 32"

lemma push_name_Inr:
  assumes "push_name h a table nm = Inr (k, table')"
  shows "table' = table @ lit nm @ [0]" "unat k = length table" "length table' < 2 ^ 32"
  using assms
  by (auto simp: push_name_def checked_name_end_def result_simps checked_simps checked_u32_Inr unat_of_nat bind_eq_Some_conv)

lemma named_append: "named table k s \<Longrightarrow> named (table @ x) k s"
  by (simp add: named_def chunk_append)

lemma named_push:
  assumes "push_name h a table nm = Inr (k, table')"
  shows "named table' (unat k) nm" "named table j s \<Longrightarrow> named table' j s"
  using push_name_Inr(1,2) [OF assms] by (simp_all add: named_append, simp add: named_def chunk_end)

lemma string_table_push:
  "push_name h a table nm = Inr (k, table') \<Longrightarrow> string_table table \<Longrightarrow> string_table table'"
  using push_name_Inr [of h a table nm k table'] by (auto simp: string_table_def is_string_table_def)

lemma string_table_start: "string_table [0]"
  by (simp add: string_table_def is_string_table_def)

lemma named_empty: "string_table table \<Longrightarrow> named table 0 ''''"
  by (cases table) (auto simp: string_table_def is_string_table_def named_def chunk_def lit_def)

subsection \<open>Rows\<close>

type_synonym row = "string \<times> elf64_shdr \<times> bytes option"

definition holds_row :: "bytes \<Rightarrow> row \<Rightarrow> elf64_shdr \<Rightarrow> bytes option \<Rightarrow> bool" where
  "holds_row names = (\<lambda>(nm, bare, p) hdr p'.
     p' = p \<and> named names (unat (sh_name hdr)) nm \<and> hdr = bare\<lparr>sh_name := sh_name hdr\<rparr>)"

definition rows_hold :: "bytes \<Rightarrow> row list \<Rightarrow> elf64_shdr list \<Rightarrow> bytes option list \<Rightarrow> bool" where
  "rows_hold names rows hs ps \<longleftrightarrow> length hs = length rows \<and> length ps = length rows \<and>
     (\<forall>i<length rows. holds_row names (rows ! i) (hs ! i) (ps ! i))"

definition tables_hold :: "row list \<Rightarrow> elf_tables \<Rightarrow> bool" where
  "tables_hold rows t \<longleftrightarrow> string_table (et_names t) \<and>
     (\<exists>hs ps. et_headers t = shdr_default # hs \<and> et_payloads t = None # ps \<and> rows_hold (et_names t) rows hs ps)"

lemma tables_hold_length: "tables_hold rows t \<Longrightarrow> length (et_headers t) = Suc (length rows)"
  by (auto simp: tables_hold_def rows_hold_def)

lemma tables_hold_push:
  assumes t: "tables_hold rows t" and push: "push_name h a (et_names t) nm = Inr (k, names)"
  shows "tables_hold (rows @ [(nm, bare, p)]) (push_table (bare\<lparr>sh_name := k\<rparr>) p (t\<lparr>et_names := names\<rparr>))"
proof -
  obtain hs ps where hs: "et_headers t = shdr_default # hs" "et_payloads t = None # ps"
    "rows_hold (et_names t) rows hs ps" "string_table (et_names t)"
    using t by (auto simp: tables_hold_def)
  have "holds_row names (rows ! i) (hs ! i) (ps ! i)" if "i < length rows" for i
    using hs(3) that named_push(2) [OF push] by (auto simp: rows_hold_def holds_row_def split: prod.splits)
  moreover have "holds_row names (nm, bare, p) (bare\<lparr>sh_name := k\<rparr>) p"
    using named_push(1) [OF push] by (simp add: holds_row_def)
  ultimately have "rows_hold names (rows @ [(nm, bare, p)]) (hs @ [bare\<lparr>sh_name := k\<rparr>]) (ps @ [p])"
    using hs(3) by (auto simp: rows_hold_def nth_append less_Suc_eq)
  then show ?thesis
    using hs string_table_push [OF push] by (auto simp: tables_hold_def push_table_def)
qed

definition link_row :: "u32 \<Rightarrow> row \<Rightarrow> row" where
  "link_row l = (\<lambda>(nm, bare, p). (nm, bare\<lparr>sh_link := l\<rparr>, p))"

lemma tables_hold_link:
  assumes t: "tables_hold rows t" and i: "i < length rows"
  shows "tables_hold (rows[i := link_row l (rows ! i)]) (t\<lparr>et_headers := set_link l (Suc i) (et_headers t)\<rparr>)"
proof -
  obtain hs ps where hs: "et_headers t = shdr_default # hs" "et_payloads t = None # ps"
    "rows_hold (et_names t) rows hs ps" "string_table (et_names t)"
    using t by (auto simp: tables_hold_def)
  obtain nm bare p where r: "rows ! i = (nm, bare, p)" by (cases "rows ! i")
  have "holds_row (et_names t) (nm, bare, p) (hs ! i) (ps ! i)" using hs(3) i r by (auto simp: rows_hold_def)
  then have hi: "hs ! i = bare\<lparr>sh_name := sh_name (hs ! i)\<rparr>" "named (et_names t) (unat (sh_name (hs ! i))) nm" "ps ! i = p"
    by (auto simp: holds_row_def)
  let ?h = "(hs ! i)\<lparr>sh_link := l\<rparr>"
  have "?h = (bare\<lparr>sh_link := l\<rparr>)\<lparr>sh_name := sh_name ?h\<rparr>" by (subst hi(1)) simp
  then have "holds_row (et_names t) (link_row l (rows ! i)) ?h (ps ! i)"
    using hi(2,3) by (simp add: holds_row_def link_row_def r)
  then have "rows_hold (et_names t) (rows[i := link_row l (rows ! i)]) (hs[i := ?h]) ps"
    using hs(3) i by (auto simp: rows_hold_def nth_list_update)
  then show ?thesis using hs by (simp add: tables_hold_def set_link_def)
qed

lemma list_update_middle: "length A = n \<Longrightarrow> (A @ x # B)[n := y] = A @ y # B"
  by (simp add: list_update_append)

lemma tables_hold_links:
  assumes "tables_hold (A @ B @ C) t"
    and "foldR (\<lambda>i hs. rbind (checked_u32 idx) (\<lambda>l. Inr (set_link l i hs))) [Suc (length A)..<Suc (length A + length B)] (et_headers t) = Inr hs"
  shows "tables_hold (A @ map (link_row (of_nat idx)) B @ C) (t\<lparr>et_headers := hs\<rparr>)"
  using assms
proof (induction B arbitrary: A t)
  case Nil
  then show ?case by (cases t) auto
next
  case (Cons r B)
  have "[Suc (length A)..<Suc (length A + length (r # B))] =
      Suc (length A) # [Suc (length (A @ [link_row (of_nat idx) r]))..<Suc (length (A @ [link_row (of_nat idx) r]) + length B)]"
    by (simp add: upt_conv_Cons del: upt_Suc)
  then have rest: "foldR (\<lambda>i hs. rbind (checked_u32 idx) (\<lambda>l. Inr (set_link l i hs)))
      [Suc (length (A @ [link_row (of_nat idx) r]))..<Suc (length (A @ [link_row (of_nat idx) r]) + length B)]
      (set_link (of_nat idx) (Suc (length A)) (et_headers t)) = Inr hs"
    using Cons.prems(2) by (auto simp only: foldR.simps rbind_eq_Inr checked_u32_Inr sum.inject)
  have "tables_hold ((A @ r # B @ C)[length A := link_row (of_nat idx) r])
      (t\<lparr>et_headers := set_link (of_nat idx) (Suc (length A)) (et_headers t)\<rparr>)"
    using tables_hold_link [OF Cons.prems(1), of "length A" "of_nat idx"] by simp
  then have "tables_hold ((A @ [link_row (of_nat idx) r]) @ B @ C)
      (t\<lparr>et_headers := set_link (of_nat idx) (Suc (length A)) (et_headers t)\<rparr>)"
    by (simp add: list_update_middle)
  from Cons.IH [OF this] rest show ?case by simp
qed

subsection \<open>Sections\<close>

definition section_row :: "obj_section \<Rightarrow> row" where
  "section_row s =
     (sec_name s,
      shdr_default\<lparr>sh_type := fst (section_type_and_flags (sec_kind s)),
                   sh_flags := snd (section_type_and_flags (sec_kind s)),
                   sh_size := len64 (sec_data s) + sec_zero_fill s, sh_addralign := max (sec_align s) 1\<rparr>,
      if sec_kind s = Bss then None else Some (sec_data s))"

lemma section_type_nobits [simp]: "fst (section_type_and_flags k) = sht_nobits \<longleftrightarrow> k = Bss"
  by (cases k) (simp_all add: section_type_and_flags_def sht_progbits_def sht_nobits_def)

lemma memory_size_value: "memory_size s = Inr sz \<Longrightarrow> sz = len64 (sec_data s) + sec_zero_fill s"
  by (auto simp: memory_size_def result_simps checked_add_def split: if_splits)

lemma write_section_row:
  assumes "tables_hold rows t" "write_section h s t = Inr t'"
  shows "tables_hold (rows @ [section_row s]) t'"
proof -
  obtain k names sz where w: "push_name h SectionNames (et_names t) (sec_name s) = Inr (k, names)" "memory_size s = Inr sz"
    "t' = push_table
       (shdr_default\<lparr>sh_name := k, sh_type := fst (section_type_and_flags (sec_kind s)),
         sh_flags := snd (section_type_and_flags (sec_kind s)), sh_size := sz, sh_addralign := max (sec_align s) 1\<rparr>)
       (if sec_kind s = Bss then None else Some (sec_data s)) (t\<lparr>et_names := names\<rparr>)"
    using assms(2) by (auto simp: write_section_def result_simps split_def Let_def)
  let ?bare = "shdr_default\<lparr>sh_type := fst (section_type_and_flags (sec_kind s)),
      sh_flags := snd (section_type_and_flags (sec_kind s)),
      sh_size := len64 (sec_data s) + sec_zero_fill s, sh_addralign := max (sec_align s) 1\<rparr>"
  let ?p = "if sec_kind s = Bss then None else Some (sec_data s)"
  have "t' = push_table (?bare\<lparr>sh_name := k\<rparr>) ?p (t\<lparr>et_names := names\<rparr>)"
    using w(3) memory_size_value [OF w(2)] by (simp add: shdr_default_def)
  then show ?thesis
    using tables_hold_push [OF assms(1) w(1), of ?bare ?p] by (simp only: section_row_def)
qed

lemma write_sections_rows:
  assumes "foldR (write_section h) secs \<lparr>et_names = [0], et_headers = [shdr_default], et_payloads = [None]\<rparr> = Inr t"
  shows "tables_hold (map section_row secs) t"
proof (rule foldR_done [where I = "\<lambda>ds t. tables_hold (map section_row ds) t", OF assms])
  show "tables_hold (map section_row []) \<lparr>et_names = [0], et_headers = [shdr_default], et_payloads = [None]\<rparr>"
    by (simp add: tables_hold_def rows_hold_def string_table_start)
next
  fix ds x s t assume "tables_hold (map section_row ds) s" "write_section h x s = Inr t"
  then show "tables_hold (map section_row (ds @ [x])) t" using write_section_row by fastforce
qed

subsection \<open>Symbols\<close>

definition section_number :: "object_symbol \<Rightarrow> usize" where
  "section_number s = (case sym_section s of Some i \<Rightarrow> Suc i | None \<Rightarrow> 0)"

definition symbol_entry :: "bytes \<Rightarrow> object_symbol \<Rightarrow> elf64_sym \<Rightarrow> bool" where
  "symbol_entry strtab s e \<longleftrightarrow> named strtab (unat (st_name e)) (sym_name s) \<and>
     st_info e = push_bit 4 (binding_to_stb (sym_binding s)) OR symbol_type (sym_kind s) \<and>
     st_other e = visibility_to_stv (sym_visibility s) \<and>
     unat (st_shndx e) = section_number s \<and> st_value e = sym_value s \<and> st_size e = sym_size s"

definition symbol_state :: "object_symbol list \<Rightarrow> bytes \<times> elf64_sym list \<times> (string \<rightharpoonup> usize) \<Rightarrow> bool" where
  "symbol_state S = (\<lambda>(strtab, syms, index_of).
     string_table strtab \<and>
     (\<exists>es. syms = sym_default # es \<and> list_all2 (symbol_entry strtab) S es) \<and>
     (\<forall>nm p. index_of nm = Some p \<longrightarrow> 0 < p \<and> p \<le> length S \<and> sym_name (S ! (p - 1)) = nm))"

lemma write_symbol_state:
  assumes st: "symbol_state S (strtab, syms, index_of)"
    and w: "write_symbol h (map Suc [0..<n]) s (strtab, syms, index_of) = Inr st'"
    and sec: "\<forall>i. sym_section s = Some i \<longrightarrow> i < n"
  shows "symbol_state (S @ [s]) st'"
proof -
  obtain k strtab' shndx where name: "(if sym_name s = '''' then Inr (0, strtab) else push_name h SymbolNames strtab (sym_name s)) = Inr (k, strtab')"
    and ix: "checked_u16 (symbol_section_index (map Suc [0..<n]) s) = Inr shndx"
    and st': "st' = (strtab',
      syms @ [\<lparr>st_name = k, st_info = push_bit 4 (binding_to_stb (sym_binding s)) OR symbol_type (sym_kind s),
               st_other = visibility_to_stv (sym_visibility s), st_shndx = shndx,
               st_value = sym_value s, st_size = sym_size s\<rparr>],
      if index_of (sym_name s) = None then index_of(sym_name s \<mapsto> length syms) else index_of)"
    using w unfolding write_symbol_def by (auto simp only: rbind_eq_Inr prod.case split_paired_Ex sum.inject)
  have table: "string_table strtab" using st by (simp add: symbol_state_def)
  have named: "named strtab' (unat k) (sym_name s)" "string_table strtab'" "\<And>j nm. named strtab j nm \<Longrightarrow> named strtab' j nm"
    using name table named_empty named_push string_table_push by (auto split: if_splits)
  have "symbol_section_index (map Suc [0..<n]) s = section_number s"
    using sec by (auto simp: symbol_section_index_def section_number_def get_def split: option.split)
  then have shndx: "unat shndx = section_number s" using ix by (auto simp: checked_u16_Inr unat_of_nat)
  obtain es where es: "syms = sym_default # es" "list_all2 (symbol_entry strtab) S es"
    using st by (auto simp: symbol_state_def)
  have "list_all2 (symbol_entry strtab') S es"
    using es(2) by (rule list_all2_mono) (auto simp: symbol_entry_def named(3))
  then have "list_all2 (symbol_entry strtab') (S @ [s])
      (es @ [\<lparr>st_name = k, st_info = push_bit 4 (binding_to_stb (sym_binding s)) OR symbol_type (sym_kind s),
              st_other = visibility_to_stv (sym_visibility s), st_shndx = shndx,
              st_value = sym_value s, st_size = sym_size s\<rparr>])"
    by (intro list_all2_appendI) (simp_all add: symbol_entry_def named shndx)
  moreover have "length syms = Suc (length S)" using es list_all2_lengthD by fastforce
  moreover have "0 < p \<and> p \<le> length (S @ [s]) \<and> sym_name ((S @ [s]) ! (p - 1)) = nm"
    if "(if index_of (sym_name s) = None then index_of(sym_name s \<mapsto> length syms) else index_of) nm = Some p" for nm p
  proof (cases "index_of nm = Some p")
    case True
    then have "0 < p" "p \<le> length S" "sym_name (S ! (p - 1)) = nm" using st by (auto simp: symbol_state_def)
    moreover from this have "p - 1 < length S" by simp
    ultimately show ?thesis by (simp add: nth_append)
  next
    case False
    then have "nm = sym_name s" "p = length syms" using that by (auto split: if_splits)
    with \<open>length syms = Suc (length S)\<close> show ?thesis by simp
  qed
  ultimately show ?thesis
    unfolding st' symbol_state_def using named(2) es(1) by auto
qed

lemma write_symbols_state:
  assumes "foldR (write_symbol h (map Suc [0..<n])) S ([0], [sym_default], Map.empty) = Inr st"
    and "\<forall>s\<in>set S. \<forall>i. sym_section s = Some i \<longrightarrow> i < n"
  shows "symbol_state S st"
proof (rule foldR_done [where I = symbol_state, OF assms(1)])
  show "symbol_state [] ([0], [sym_default], Map.empty)" by (simp add: symbol_state_def string_table_start)
next
  fix ds x and s t :: "bytes \<times> elf64_sym list \<times> (string \<rightharpoonup> usize)"
  assume "x \<in> set S" "symbol_state ds s" "write_symbol h (map Suc [0..<n]) x s = Inr t"
  then show "symbol_state (ds @ [x]) t" using write_symbol_state assms(2) by (cases s) blast
qed

subsection \<open>Relocations\<close>

definition relocations_of :: "object_relocation list \<Rightarrow> usize \<Rightarrow> object_relocation list" where
  "relocations_of relocs i = filter (\<lambda>r. rel_section r = i) relocs"

lemma group_relocations:
  assumes "foldR group_relocation relocs (replicate n []) = Inr groups"
  shows "groups = map (relocations_of relocs) [0..<n]"
proof -
  have "length groups = n \<and> (\<forall>i<n. groups ! i = relocations_of relocs i)"
  proof (rule foldR_done [where I = "\<lambda>ds gs. length gs = n \<and> (\<forall>i<n. gs ! i = relocations_of ds i)", OF assms])
    fix ds x s t assume "length s = n \<and> (\<forall>i<n. s ! i = relocations_of ds i)" "group_relocation x s = Inr t"
    then show "length t = n \<and> (\<forall>i<n. t ! i = relocations_of (ds @ [x]) i)"
      by (auto simp: group_relocation_def relocations_of_def nth_list_update split: if_splits)
  qed (simp add: relocations_of_def)
  then show ?thesis by (auto intro: nth_equalityI)
qed

definition rela_entry :: "object_target \<Rightarrow> (string \<rightharpoonup> usize) \<Rightarrow> object_relocation \<Rightarrow> elf64_rela \<Rightarrow> bool" where
  "rela_entry t index_of r e \<longleftrightarrow>
     (\<exists>p code w. index_of (rel_symbol r) = Some p \<and> p < 2 ^ 32 \<and> reloc_encoding (rel_kind r) t = Some (code, w) \<and>
        e = \<lparr>r_offset = of_nat (rel_offset r), r_info = push_bit 32 (of_nat p) OR ucast code,
             r_addend = word_of_int (rel_addend r)\<rparr>)"

lemma ucast_of_nat_32: "n < 2 ^ 32 \<Longrightarrow> (ucast (of_nat n :: u32) :: u64) = of_nat n"
  by (simp add: word_unat_eq_iff unsigned_ucast_eq unat_of_nat take_bit_nat_eq_self)

lemma write_relocation_entries:
  assumes "foldR (write_relocation t index_of) relocs [] = Inr bytes"
  shows "\<exists>es. list_all2 (rela_entry t index_of) relocs es \<and> bytes = concat (map rela_bytes es)"
proof (rule foldR_done [where I = "\<lambda>ds b. \<exists>es. list_all2 (rela_entry t index_of) ds es \<and> b = concat (map rela_bytes es)", OF assms])
  fix ds x s b assume s: "\<exists>es. list_all2 (rela_entry t index_of) ds es \<and> s = concat (map rela_bytes es)"
    and w: "write_relocation t index_of x s = Inr b"
  obtain e where "rela_entry t index_of x e" "b = s @ rela_bytes e"
    using w unfolding rela_entry_def
    by (auto simp: write_relocation_def result_simps checked_u32_Inr ucast_of_nat_32 split: prod.splits)
  moreover obtain es where "list_all2 (rela_entry t index_of) ds es" "s = concat (map rela_bytes es)" using s by blast
  ultimately show "\<exists>es. list_all2 (rela_entry t index_of) (ds @ [x]) es \<and> b = concat (map rela_bytes es)"
    by (intro exI [of _ "es @ [e]"]) (simp add: list_all2_appendI)
qed simp

definition rela_row :: "object_file \<Rightarrow> (string \<rightharpoonup> usize) \<Rightarrow> usize \<times> object_relocation list \<Rightarrow> row \<Rightarrow> bool" where
  "rela_row obj index_of = (\<lambda>(i, g) (nm, bare, p).
     \<exists>es. list_all2 (rela_entry (obj_target obj) index_of) g es \<and> nm = ''.rela'' @ sec_name (obj_sections obj ! i) \<and>
       p = Some (concat (map rela_bytes es)) \<and> Suc i < 2 ^ 32 \<and> length g * 24 < 2 ^ 63 \<and>
       bare = shdr_default\<lparr>sh_type := sht_rela, sh_flags := 0x40, sh_info := of_nat (Suc i), sh_addralign := 8,
                           sh_entsize := 24, sh_size := of_nat (24 * length g)\<rparr>)"

lemma length_rela_bytes [simp]: "length (rela_bytes e) = 24"
  by (simp add: rela_bytes_def)

definition relocated_groups :: "(usize \<times> object_relocation list) list \<Rightarrow> (usize \<times> object_relocation list) list" where
  "relocated_groups gs = filter (\<lambda>(i, g). g \<noteq> []) gs"

lemma write_relocations_row:
  assumes t: "tables_hold rows t" and n: "length (obj_sections obj) = n" "i < n"
    and w: "write_relocations h obj (map Suc [0..<n]) index_of limit (i, g) (t, relas) = Inr (t', relas')" and g: "g \<noteq> []"
  shows "\<exists>r. rela_row obj index_of (i, g) r \<and> tables_hold (rows @ [r]) t' \<and> relas' = relas @ [Suc (length rows)]"
proof -
  obtain k names content m where push: "push_name h SectionNames (et_names t) (''.rela'' @ sec_name (obj_sections obj ! i)) = Inr (k, names)"
    and m: "checked_table_bytes (length g) 24 limit = Inr m"
    and content: "foldR (write_relocation (obj_target obj) index_of) g [] = Inr content"
    and target: "Suc i < 2 ^ 32"
    and t': "t' = push_table
        (shdr_default\<lparr>sh_name := k, sh_type := sht_rela, sh_flags := 0x40, sh_info := of_nat (Suc i), sh_addralign := 8,
                      sh_entsize := 24, sh_size := len64 content\<rparr>)
        (Some content) (t\<lparr>et_names := names\<rparr>)"
    and relas': "relas' = relas @ [length (et_headers t)]"
    using w g n by (auto simp: write_relocations_def result_simps checked_u32_Inr)
  obtain es where es: "list_all2 (rela_entry (obj_target obj) index_of) g es" "content = concat (map rela_bytes es)"
    using write_relocation_entries [OF content] by blast
  have "length content = 24 * length g"
    using es length_concat_fixed [of es rela_bytes 24] list_all2_lengthD [OF es(1)] by simp
  then have size: "len64 content = of_nat (24 * length g)" by (simp add: len64_def)
  let ?bare = "shdr_default\<lparr>sh_type := sht_rela, sh_flags := 0x40, sh_info := of_nat (Suc i), sh_addralign := 8,
                           sh_entsize := 24, sh_size := of_nat (24 * length g)\<rparr>"
  let ?r = "(''.rela'' @ sec_name (obj_sections obj ! i), ?bare, Some content)"
  have "rela_row obj index_of (i, g) ?r"
    using es target checked_table_bytes_Inr [OF m] unfolding rela_row_def by auto
  moreover have "t' = push_table (?bare\<lparr>sh_name := k\<rparr>) (Some content) (t\<lparr>et_names := names\<rparr>)"
    using t' size by (simp add: shdr_default_def)
  then have "tables_hold (rows @ [?r]) t'"
    using tables_hold_push [OF t push, of ?bare "Some content"] by (simp only:)
  ultimately show ?thesis using relas' tables_hold_length [OF t] by auto
qed

lemma write_relocations_rows:
  assumes t: "tables_hold rows t" and n: "length (obj_sections obj) = n" and gs: "\<forall>(i, g)\<in>set gs. i < n"
    and w: "foldR (write_relocations h obj (map Suc [0..<n]) index_of limit) gs (t, []) = Inr (t', relas)"
  shows "\<exists>B. list_all2 (rela_row obj index_of) (relocated_groups gs) B \<and> tables_hold (rows @ B) t' \<and>
    relas = [Suc (length rows)..<Suc (length rows + length B)]"
proof -
  let ?I = "\<lambda>ds (t', relas). \<exists>B. list_all2 (rela_row obj index_of) (relocated_groups ds) B \<and> tables_hold (rows @ B) t' \<and>
    relas = [Suc (length rows)..<Suc (length rows + length B)]"
  have "?I gs (t', relas)"
  proof (rule foldR_done [where I = ?I, OF w])
    fix ds x and s u :: "elf_tables \<times> usize list"
    assume x: "x \<in> set gs" and s: "?I ds s" and step: "write_relocations h obj (map Suc [0..<n]) index_of limit x s = Inr u"
    obtain i g where ig: "x = (i, g)" by (cases x)
    obtain t1 r1 where s1: "s = (t1, r1)" by (cases s)
    obtain t2 r2 where u1: "u = (t2, r2)" by (cases u)
    from s s1 obtain B where B: "list_all2 (rela_row obj index_of) (relocated_groups ds) B" "tables_hold (rows @ B) t1"
      "r1 = [Suc (length rows)..<Suc (length rows + length B)]" by auto
    show "?I (ds @ [x]) u"
    proof (cases "g = []")
      case True
      then show ?thesis using B step by (auto simp: write_relocations_def ig s1 u1 relocated_groups_def)
    next
      case False
      have "i < n" using gs x ig by auto
      from write_relocations_row [OF B(2) n this step [unfolded ig s1 u1] False] obtain r
        where r: "rela_row obj index_of (i, g) r" "tables_hold ((rows @ B) @ [r]) t2" "r2 = r1 @ [Suc (length (rows @ B))]" by blast
      show ?thesis
        using B r False by (auto simp: u1 ig relocated_groups_def intro!: exI [of _ "B @ [r]"] list_all2_appendI)
    qed
  qed (use t in \<open>simp add: relocated_groups_def\<close>)
  then show ?thesis by simp
qed

subsection \<open>The tables of an object\<close>

definition symtab_row :: "usize \<Rightarrow> usize \<Rightarrow> elf64_sym list \<Rightarrow> row" where
  "symtab_row idx info syms =
     (''.symtab'',
      shdr_default\<lparr>sh_type := sht_symtab, sh_link := of_nat (Suc idx), sh_info := of_nat info, sh_addralign := 8,
                   sh_entsize := 24, sh_size := len64 (concat (map sym_bytes syms))\<rparr>,
      Some (concat (map sym_bytes syms)))"

definition strtab_row :: "string \<Rightarrow> bytes \<Rightarrow> row" where
  "strtab_row nm content =
     (nm, shdr_default\<lparr>sh_type := sht_strtab, sh_addralign := 1, sh_size := len64 content\<rparr>, Some content)"

lemma length_sym_bytes [simp]: "length (sym_bytes e) = 24"
  by (simp add: sym_bytes_def)

lemma finish_tables_rows:
  assumes t: "tables_hold (A @ B) t" and relas: "relas = [Suc (length A)..<Suc (length A + length B)]"
    and f: "finish_tables h symbols limit strtab syms relas t = Inr t'"
  defines "idx \<equiv> Suc (length A + length B)"
  shows "tables_hold (A @ map (link_row (of_nat idx)) B @
      [symtab_row idx (first_global symbols) syms, strtab_row ''.strtab'' strtab, strtab_row ''.shstrtab'' (et_names t')]) t'"
    and "Suc idx < 2 ^ 32" "first_global symbols < 2 ^ 32" "length syms * 24 < 2 ^ 63"
proof -
  let ?symtab = "concat (map sym_bytes syms)"
  let ?sym0 = "shdr_default\<lparr>sh_type := sht_symtab, sh_info := of_nat (first_global symbols), sh_addralign := 8,
      sh_entsize := 24, sh_size := len64 ?symtab\<rparr>"
  let ?str = "\<lambda>content. shdr_default\<lparr>sh_type := sht_strtab, sh_addralign := 1, sh_size := len64 content\<rparr>"
  have idx: "length (et_headers t) = idx" using tables_hold_length [OF t] by (simp add: idx_def)
  obtain k1 n1 m k2 n2 hs k3 n3 where p1: "push_name h SectionNames (et_names t) ''.symtab'' = Inr (k1, n1)"
    and m: "checked_table_bytes (length syms) 24 limit = Inr m" and fg: "first_global symbols < 2 ^ 32"
    and p2: "push_name h SectionNames n1 ''.strtab'' = Inr (k2, n2)" and sidx: "Suc idx < 2 ^ 32"
    and hs: "foldR (\<lambda>i hs. rbind (checked_u32 idx) (\<lambda>l. Inr (set_link l i hs))) relas
        (set_link (of_nat (Suc idx)) idx
          (et_headers (push_table ((?str strtab)\<lparr>sh_name := k2\<rparr>) (Some strtab)
            ((push_table (?sym0\<lparr>sh_name := k1\<rparr>) (Some ?symtab) (t\<lparr>et_names := n1\<rparr>))\<lparr>et_names := n2\<rparr>)))) = Inr hs"
    and p3: "push_name h SectionNames n2 ''.shstrtab'' = Inr (k3, n3)"
    and t': "t' = push_table ((?str n3)\<lparr>sh_name := k3\<rparr>) (Some n3)
        ((push_table ((?str strtab)\<lparr>sh_name := k2\<rparr>) (Some strtab)
          ((push_table (?sym0\<lparr>sh_name := k1\<rparr>) (Some ?symtab) (t\<lparr>et_names := n1\<rparr>))\<lparr>et_names := n2\<rparr>))
          \<lparr>et_headers := hs, et_names := n3\<rparr>)"
    using f unfolding finish_tables_def Let_def
    by (auto simp: result_simps checked_u32_Inr push_table_def idx shdr_default_def cong del: rbind_weak_cong)
  let ?t1 = "push_table (?sym0\<lparr>sh_name := k1\<rparr>) (Some ?symtab) (t\<lparr>et_names := n1\<rparr>)"
  let ?t2 = "push_table ((?str strtab)\<lparr>sh_name := k2\<rparr>) (Some strtab) (?t1\<lparr>et_names := n2\<rparr>)"
  let ?r1 = "(''.symtab'', ?sym0, Some ?symtab)"
  have "tables_hold ((A @ B) @ [?r1]) ?t1" using tables_hold_push [OF t p1] .
  moreover have "et_names ?t1 = n1" by (simp add: push_table_def)
  ultimately have "tables_hold (((A @ B) @ [?r1]) @ [strtab_row ''.strtab'' strtab]) ?t2"
    using tables_hold_push [where t = ?t1 and nm = "''.strtab''" and k = k2 and names = n2 and bare = "?str strtab"
        and p = "Some strtab" and h = h and a = SectionNames] p2
    by (simp only: strtab_row_def)
  then have t2: "tables_hold (A @ B @ [?r1, strtab_row ''.strtab'' strtab]) ?t2" by simp
  have link: "link_row (of_nat (Suc idx)) ?r1 = symtab_row idx (first_global symbols) syms"
    by (simp add: link_row_def symtab_row_def shdr_default_def)
  have pos: "(A @ B @ [?r1, strtab_row ''.strtab'' strtab]) ! (length A + length B) = ?r1"
    by (simp add: nth_append)
  have upd: "(A @ B @ [?r1, strtab_row ''.strtab'' strtab])[length A + length B := symtab_row idx (first_global symbols) syms] =
      A @ B @ [symtab_row idx (first_global symbols) syms, strtab_row ''.strtab'' strtab]"
    by (simp add: list_update_append)
  have "tables_hold (A @ B @ [symtab_row idx (first_global symbols) syms, strtab_row ''.strtab'' strtab])
      (?t2\<lparr>et_headers := set_link (of_nat (Suc idx)) idx (et_headers ?t2)\<rparr>)"
    using tables_hold_link [OF t2, of "length A + length B" "of_nat (Suc idx)"] unfolding pos link upd
    by (simp add: idx_def)
  from tables_hold_links [OF this, of idx hs] hs
  have "tables_hold (A @ map (link_row (of_nat idx)) B @ [symtab_row idx (first_global symbols) syms, strtab_row ''.strtab'' strtab])
      (?t2\<lparr>et_headers := hs\<rparr>)"
    by (simp add: relas)
  moreover have "et_names (?t2\<lparr>et_headers := hs\<rparr>) = n2" by (simp add: push_table_def)
  ultimately have "tables_hold ((A @ map (link_row (of_nat idx)) B @
      [symtab_row idx (first_global symbols) syms, strtab_row ''.strtab'' strtab]) @ [strtab_row ''.shstrtab'' n3])
      (push_table ((?str n3)\<lparr>sh_name := k3\<rparr>) (Some n3) (?t2\<lparr>et_headers := hs\<rparr>\<lparr>et_names := n3\<rparr>))"
    using tables_hold_push [where t = "?t2\<lparr>et_headers := hs\<rparr>" and nm = "''.shstrtab''" and k = k3 and names = n3
        and bare = "?str n3" and p = "Some n3" and h = h and a = SectionNames] p3
    by (simp only: strtab_row_def)
  moreover have "et_names t' = n3" by (simp add: t' push_table_def)
  ultimately show "tables_hold (A @ map (link_row (of_nat idx)) B @
      [symtab_row idx (first_global symbols) syms, strtab_row ''.strtab'' strtab, strtab_row ''.shstrtab'' (et_names t')]) t'"
    by (simp add: t')
  show "Suc idx < 2 ^ 32" "first_global symbols < 2 ^ 32" "length syms * 24 < 2 ^ 63"
    using sidx fg checked_table_bytes_Inr [OF m] by auto
qed

lemma add_referenced_undefined: "s \<in> set (add_referenced rs names) \<Longrightarrow> \<exists>r\<in>set rs. s = undefined_global (rel_symbol r)"
  by (induction rs names rule: add_referenced.induct) (auto split: if_splits)

lemma ordered_symbols_cases:
  "s \<in> set (ordered_symbols obj) \<Longrightarrow>
     s \<in> set (obj_symbols obj) \<or> (\<exists>r\<in>set (obj_relocations obj). s = undefined_global (rel_symbol r))"
  using add_referenced_undefined [of s "obj_relocations obj"] by (auto simp: ordered_symbols_def Let_def)

text \<open>The relocations of an object, grouped by section, and the rows of its file.\<close>

definition object_groups :: "object_file \<Rightarrow> (usize \<times> object_relocation list) list" where
  "object_groups obj =
     relocated_groups (enumerate 0 (map (relocations_of (obj_relocations obj)) [0..<length (obj_sections obj)]))"

definition object_rows ::
  "object_file \<Rightarrow> row list \<Rightarrow> elf64_sym list \<Rightarrow> bytes \<Rightarrow> bytes \<Rightarrow> row list" where
  "object_rows obj B syms strtab names =
     (let idx = Suc (length (obj_sections obj) + length B) in
      map section_row (obj_sections obj) @ map (link_row (of_nat idx)) B @
      [symtab_row idx (first_global (ordered_symbols obj)) syms, strtab_row ''.strtab'' strtab,
       strtab_row ''.shstrtab'' names])"

definition object_tables ::
  "object_file \<Rightarrow> row list \<Rightarrow> elf64_sym list \<Rightarrow> (string \<rightharpoonup> usize) \<Rightarrow> bytes \<Rightarrow> elf_tables \<Rightarrow> bool" where
  "object_tables obj B es index_of strtab t \<longleftrightarrow>
     symbol_state (ordered_symbols obj) (strtab, sym_default # es, index_of) \<and>
     list_all2 (rela_row obj index_of) (object_groups obj) B \<and>
     tables_hold (object_rows obj B (sym_default # es) strtab (et_names t)) t \<and>
     Suc (Suc (length (obj_sections obj) + length B)) < 2 ^ 32 \<and> first_global (ordered_symbols obj) < 2 ^ 32 \<and>
     Suc (length es) * 24 < 2 ^ 63"

lemma build_tables_rows:
  assumes b: "build_tables h obj limit = Inr t" and wf: "wf_object obj"
  shows "\<exists>B es index_of strtab. object_tables obj B es index_of strtab t"
proof -
  let ?n = "length (obj_sections obj)" and ?S = "ordered_symbols obj"
  let ?gs = "enumerate 0 (map (relocations_of (obj_relocations obj)) [0..<?n])"
  obtain t0 strtab syms index_of groups t1 relas
    where t0: "foldR (write_section h) (obj_sections obj) \<lparr>et_names = [0], et_headers = [shdr_default], et_payloads = [None]\<rparr> = Inr t0"
      and sy: "foldR (write_symbol h (map Suc [0..<?n])) ?S ([0], [sym_default], Map.empty) = Inr (strtab, syms, index_of)"
      and gr: "foldR group_relocation (obj_relocations obj) (replicate ?n []) = Inr groups"
      and re: "foldR (write_relocations h obj (map Suc [0..<?n]) index_of limit) (enumerate 0 groups) (t0, []) = Inr (t1, relas)"
      and fin: "finish_tables h ?S limit strtab syms relas t1 = Inr t"
    using b unfolding build_tables_def Let_def
    by (auto simp only: rbind_eq_Inr split_paired_Ex prod.case)
  note rows = write_sections_rows [OF t0]
  have "\<forall>s\<in>set ?S. \<forall>i. sym_section s = Some i \<longrightarrow> i < ?n"
    using wf ordered_symbols_cases [of _ obj] by (fastforce simp: wf_object_def wf_symbol_def undefined_global_def)
  then have st: "symbol_state ?S (strtab, syms, index_of)" by (rule write_symbols_state [OF sy])
  then obtain es where es: "syms = sym_default # es" by (auto simp: symbol_state_def)
  have groups: "groups = map (relocations_of (obj_relocations obj)) [0..<?n]" by (rule group_relocations [OF gr])
  have "\<forall>(i, g)\<in>set (enumerate 0 groups). i < ?n"
    unfolding groups by (auto simp: in_set_enumerate_eq)
  from write_relocations_rows [OF rows refl this re] obtain B
    where B: "list_all2 (rela_row obj index_of) (relocated_groups (enumerate 0 groups)) B"
      "tables_hold (map section_row (obj_sections obj) @ B) t1"
      "relas = [Suc (length (map section_row (obj_sections obj)))..<Suc (length (map section_row (obj_sections obj)) + length B)]" by auto
  note fin = finish_tables_rows [OF B(2,3) fin]
  have "object_tables obj B es index_of strtab t"
    unfolding object_tables_def object_rows_def object_groups_def Let_def
    using st B(1) fin es groups by (simp add: add.commute)
  then show ?thesis by blast
qed

end
