(* ===== verification/ElfImage.thy ===== *)
theory ElfImage
  imports ElfTables
begin

text \<open>
  The bytes that \<open>emit_tables\<close> writes: every payload stands at the offset its header names,
  and the section table holds the headers.
\<close>

subsection \<open>Payloads\<close>

lemma elf_align_up_Inr: "elf_align_up v a = Inr r \<Longrightarrow> unat v \<le> unat r \<and> is_power_of_two a"
proof -
  assume r: "elf_align_up v a = Inr r"
  then have "is_power_of_two a" by (auto simp: elf_align_up_def split: if_splits)
  with elf_writer.up_ge [OF this r] show ?thesis by blast
qed

definition sized :: "elf64_shdr \<Rightarrow> bytes option \<Rightarrow> bool" where
  "sized s p \<longleftrightarrow> sh_type s = sht_nobits \<or> (\<exists>x. p = Some x \<and> length x < 2 ^ 64 \<and> sh_size s = len64 x)"

lemma unat_len64: "length x < 2 ^ 64 \<Longrightarrow> unat (len64 x) = length x"
  by (simp add: len64_def unat_of_nat)

lemma place_header_step:
  assumes p: "place_header ps i (hs, cur) = Inr (hs', cur')" and i: "i < length hs" and s: "sized (hs ! i) (ps ! i)"
    and out: "length out = unat cur"
  shows "\<exists>off. hs' = hs[i := (hs ! i)\<lparr>sh_offset := off\<rparr>]"
    and "\<exists>suf. emit_payload (hs' ! i, ps ! i) out = out @ suf"
    and "length (emit_payload (hs' ! i, ps ! i) out) = unat cur'"
    and "sh_type (hs ! i) \<noteq> sht_nobits \<Longrightarrow>
      \<exists>x. ps ! i = Some x \<and> chunk (emit_payload (hs' ! i, ps ! i) out) (unat (sh_offset (hs' ! i))) x"
proof -
  obtain off where off: "elf_align_up cur (max (sh_addralign (hs ! i)) 1) = Inr off"
    and rest: "(if sh_type (hs ! i) = sht_nobits then Inr (hs[i := (hs ! i)\<lparr>sh_offset := off\<rparr>], cur)
       else rbind (ok_or (checked_add off (case ps ! i of Some x \<Rightarrow> len64 x | None \<Rightarrow> 0)) (write_error Overflow))
         (\<lambda>c. Inr (hs[i := (hs ! i)\<lparr>sh_offset := off, sh_size := case ps ! i of Some x \<Rightarrow> len64 x | None \<Rightarrow> 0\<rparr>], c))) = Inr (hs', cur')"
    using p unfolding place_header_def Let_def by (auto simp: rbind_eq_Inr)
  have ge: "unat cur \<le> unat off" using elf_align_up_Inr [OF off] by blast
  have "(\<exists>off. hs' = hs[i := (hs ! i)\<lparr>sh_offset := off\<rparr>]) \<and>
      (\<exists>suf. emit_payload (hs' ! i, ps ! i) out = out @ suf) \<and>
      length (emit_payload (hs' ! i, ps ! i) out) = unat cur' \<and>
      (sh_type (hs ! i) \<noteq> sht_nobits \<longrightarrow>
        (\<exists>x. ps ! i = Some x \<and> chunk (emit_payload (hs' ! i, ps ! i) out) (unat (sh_offset (hs' ! i))) x))"
  proof (cases "sh_type (hs ! i) = sht_nobits")
    case True
    then show ?thesis using rest i out by (auto simp: emit_payload_def)
  next
    case False
    then obtain x where x: "ps ! i = Some x" "length x < 2 ^ 64" "sh_size (hs ! i) = len64 x"
      using s by (auto simp: sized_def)
    have h: "hs' = hs[i := (hs ! i)\<lparr>sh_offset := off, sh_size := len64 x\<rparr>]" and c: "checked_add off (len64 x) = Some cur'"
      using rest False x(1) by (auto simp: result_simps)
    have hi: "hs' ! i = (hs ! i)\<lparr>sh_offset := off\<rparr>" using h i x(3) by (cases "hs ! i") simp
    have e: "emit_payload (hs' ! i, ps ! i) out = (out @ replicate (unat off - length out) 0) @ x"
      using False x(1) by (simp add: emit_payload_def hi pad_zero_def)
    have len: "length (out @ replicate (unat off - length out) 0) = unat off" using ge out by simp
    have "unat cur' = unat off + length x" using c unat_len64 [OF x(2)] by (simp add: checked_simps)
    moreover have "chunk (emit_payload (hs' ! i, ps ! i) out) (unat off) x" unfolding e using len by (rule chunk_end)
    moreover have "\<exists>off. hs' = hs[i := (hs ! i)\<lparr>sh_offset := off\<rparr>]"
      using h hi i by (metis nth_list_update_eq)
    ultimately show ?thesis using e len hi x(1) by simp
  qed
  then show "\<exists>off. hs' = hs[i := (hs ! i)\<lparr>sh_offset := off\<rparr>]"
    and "\<exists>suf. emit_payload (hs' ! i, ps ! i) out = out @ suf"
    and "length (emit_payload (hs' ! i, ps ! i) out) = unat cur'"
    and "sh_type (hs ! i) \<noteq> sht_nobits \<Longrightarrow>
      \<exists>x. ps ! i = Some x \<and> chunk (emit_payload (hs' ! i, ps ! i) out) (unat (sh_offset (hs' ! i))) x"
    by blast+
qed

text \<open>What the layout and the emission of the payloads from index \<open>m\<close> on achieve.\<close>

definition payloads_placed ::
  "bytes option list \<Rightarrow> nat \<Rightarrow> elf64_shdr list \<Rightarrow> elf64_shdr list \<Rightarrow> bytes \<Rightarrow> bytes \<Rightarrow> bool" where
  "payloads_placed ps m hs0 hs out0 out \<longleftrightarrow>
     length hs = length hs0 \<and> (\<forall>i<m. hs ! i = hs0 ! i) \<and>
     (\<forall>i<length hs. \<exists>off. hs ! i = (hs0 ! i)\<lparr>sh_offset := off\<rparr>) \<and> (\<exists>suf. out = out0 @ suf) \<and>
     (\<forall>i<length hs. m \<le> i \<longrightarrow> sh_type (hs ! i) \<noteq> sht_nobits \<longrightarrow>
        (\<exists>x. ps ! i = Some x \<and> chunk out (unat (sh_offset (hs ! i))) x))"

lemma offset_unchanged: "\<exists>off. s = (s :: elf64_shdr)\<lparr>sh_offset := off\<rparr>"
  by (rule exI [of _ "sh_offset s"]) simp

lemma emit_placed:
  assumes "foldR (place_header ps) [m..<N] (hs0, cur) = Inr (hs, cur')" "length hs0 = N" "length ps = N" "m \<le> N"
    "length out0 = unat cur" "\<forall>i. m \<le> i \<and> i < N \<longrightarrow> sized (hs0 ! i) (ps ! i)"
  shows "payloads_placed ps m hs0 hs out0 (fold emit_payload (drop m (zip hs ps)) out0) \<and>
    length (fold emit_payload (drop m (zip hs ps)) out0) = unat cur'"
  using assms
proof (induction "N - m" arbitrary: m hs0 cur out0)
  case 0
  then show ?case by (auto simp: payloads_placed_def offset_unchanged)
next
  case (Suc k)
  then have m: "m < N" by simp
  then have "[m..<N] = m # [Suc m..<N]" by (simp add: upt_conv_Cons)
  then obtain hs1 cur1 where p: "place_header ps m (hs0, cur) = Inr (hs1, cur1)"
    and rest: "foldR (place_header ps) [Suc m..<N] (hs1, cur1) = Inr (hs, cur')"
    using Suc.prems(1) by (auto simp: rbind_eq_Inr)
  have sz: "sized (hs0 ! m) (ps ! m)" using Suc.prems(6) m by blast
  have ml: "m < length hs0" using m Suc.prems(2) by simp
  note step = place_header_step [OF p ml sz Suc.prems(5)]
  let ?out1 = "emit_payload (hs1 ! m, ps ! m) out0"
  obtain off where hs1: "hs1 = hs0[m := (hs0 ! m)\<lparr>sh_offset := off\<rparr>]" using step(1) by blast
  have l1: "length hs1 = N" using hs1 Suc.prems(2) by simp
  have other: "hs1 ! i = hs0 ! i" if "i \<noteq> m" for i using hs1 that by simp
  have same: "hs1 ! m = (hs0 ! m)\<lparr>sh_offset := off\<rparr>" using hs1 ml by simp
  have s1: "\<forall>i. Suc m \<le> i \<and> i < N \<longrightarrow> sized (hs1 ! i) (ps ! i)" using Suc.prems(6) other by auto
  have k: "k = N - Suc m" using Suc.hyps(2) by simp
  from Suc.hyps(1) [OF k rest l1 Suc.prems(3) _ step(3) s1] m
  have ih: "payloads_placed ps (Suc m) hs1 hs ?out1 (fold emit_payload (drop (Suc m) (zip hs ps)) ?out1)"
    "length (fold emit_payload (drop (Suc m) (zip hs ps)) ?out1) = unat cur'" by auto
  then have hm: "hs ! m = hs1 ! m" "length hs = N" using l1 by (auto simp: payloads_placed_def)
  have "drop m (zip hs ps) = (hs1 ! m, ps ! m) # drop (Suc m) (zip hs ps)"
    using m hm Suc.prems(3) by (simp add: Cons_nth_drop_Suc [symmetric])
  then have f: "fold emit_payload (drop m (zip hs ps)) out0 = fold emit_payload (drop (Suc m) (zip hs ps)) ?out1" by simp
  let ?out = "fold emit_payload (drop (Suc m) (zip hs ps)) ?out1"
  obtain s1 s2 where suf: "?out1 = out0 @ s1" "?out = ?out1 @ s2" using step(2) ih(1) by (auto simp: payloads_placed_def)
  have "\<exists>x. ps ! m = Some x \<and> chunk ?out (unat (sh_offset (hs ! m))) x" if "sh_type (hs ! m) \<noteq> sht_nobits"
  proof -
    have "sh_type (hs1 ! m) = sh_type (hs0 ! m)" by (simp add: same)
    with that hm(1) have "sh_type (hs0 ! m) \<noteq> sht_nobits" by simp
    from step(4) [OF this] show ?thesis using suf(2) hm(1) chunk_append by metis
  qed
  moreover have "\<exists>off. hs ! i = (hs0 ! i)\<lparr>sh_offset := off\<rparr>" if "i < N" for i
  proof (cases "i = m")
    case True
    then show ?thesis using hm(1) same by auto
  next
    case False
    then show ?thesis using ih(1) that hm(2) other [OF False] unfolding payloads_placed_def by metis
  qed
  moreover have "\<forall>i<m. hs ! i = hs0 ! i" using ih(1) other by (auto simp: payloads_placed_def)
  ultimately have "payloads_placed ps m hs0 hs out0 ?out"
    using ih(1) hm(2) Suc.prems(2) suf unfolding payloads_placed_def
    by (auto simp: not_less_eq_eq le_Suc_eq)
  with ih(2) f show ?case by simp
qed

subsection \<open>The file\<close>

definition placed_row :: "bytes \<Rightarrow> row \<Rightarrow> elf64_shdr \<Rightarrow> bytes option \<Rightarrow> bool" where
  "placed_row names = (\<lambda>(nm, bare, p) s p'.
     p' = p \<and> named names (unat (sh_name s)) nm \<and> (\<exists>k off. s = bare\<lparr>sh_name := k, sh_offset := off\<rparr>))"

definition elf_image :: "row list \<Rightarrow> bytes \<Rightarrow> elf64_shdr list \<Rightarrow> u64 \<Rightarrow> bytes \<Rightarrow> bool" where
  "elf_image rows names hs shoff out \<longleftrightarrow>
     host_file out \<and> length hs = Suc (length rows) \<and> length hs < 0xff00 \<and> hs ! 0 = shdr_default \<and>
     chunk out 0 (header_bytes (rel_header (target_object_target X86_64WhaleLinux) 62 shoff
       (of_nat (length hs)) (of_nat (length rows)))) \<and>
     (\<forall>i<length hs. chunk out (unat shoff + 64 * i) (shdr_bytes (hs ! i))) \<and>
     (\<forall>i<length rows. \<exists>p. placed_row names (rows ! i) (hs ! Suc i) p \<and>
        (sh_type (hs ! Suc i) \<noteq> sht_nobits \<longrightarrow>
           (\<exists>x. p = Some x \<and> chunk out (unat (sh_offset (hs ! Suc i))) x)))"

lemma length_header_bytes: "length (h_ident h) = 16 \<Longrightarrow> length (header_bytes h) = 64"
  by (simp add: header_bytes_def)

lemma length_shdr_bytes [simp]: "length (shdr_bytes s) = 64"
  by (simp add: shdr_bytes_def)

lemma checked_section_count_Inr:
  "checked_section_count n r = Inr c \<Longrightarrow> n + r + 4 < 0xff00 \<and> c = of_nat (n + r + 4)"
  by (auto simp: checked_section_count_def result_simps checked_simps bind_eq_Some_conv split: if_splits)

definition row_sized :: "row \<Rightarrow> bool" where
  "row_sized = (\<lambda>(nm, bare, p). sized bare p)"

lemma emit_tables_image:
  assumes e: "emit_tables h (target_object_target X86_64WhaleLinux) 62 n r limit t = Inr out"
    and t: "tables_hold rows t" and rows: "\<forall>x\<in>set rows. row_sized x" "length rows = n + r + 3"
  shows "\<exists>hs shoff. elf_image rows (et_names t) hs shoff out" and "length out \<le> unat limit"
proof -
  let ?N = "Suc (length rows)"
  obtain hs1 ps where t1: "et_headers t = shdr_default # hs1" "et_payloads t = None # ps"
    "rows_hold (et_names t) rows hs1 ps" using t by (auto simp: tables_hold_def)
  then have len: "length (et_headers t) = ?N" "length (et_payloads t) = ?N" by (simp_all add: rows_hold_def)
  obtain hs cur shoff bytes total k shnum shstrndx where
    place: "foldR (place_header (et_payloads t)) [1..<?N] (et_headers t, 64) = Inr (hs, cur)"
    and shoff: "elf_align_up cur 8 = Inr shoff" and sb: "checked_table_bytes (length hs) 64 limit = Inr bytes"
    and total: "checked_add shoff (of_nat bytes) = Some total" and size: "checked_output_size total limit = Inr k"
    and cnt: "checked_section_count n r = Inr shnum" and ix: "checked_u16 (length hs - 1) = Inr shstrndx"
    and out: "out = pad_zero (unat shoff)
            (fold emit_payload (tl (zip hs (et_payloads t)))
              (header_bytes (rel_header (target_object_target X86_64WhaleLinux) 62 shoff shnum shstrndx))) @
          concat (map shdr_bytes hs)"
    using e unfolding emit_tables_def len
    by (auto simp only: rbind_eq_Inr split_paired_Ex prod.case ok_or_eq_Inr sum.inject)
  let ?hdr = "header_bytes (rel_header (target_object_target X86_64WhaleLinux) 62 shoff shnum shstrndx)"
  let ?body = "fold emit_payload (drop 1 (zip hs (et_payloads t))) ?hdr"
  have row: "holds_row (et_names t) (rows ! i) (hs1 ! i) (ps ! i)" if "i < length rows" for i
    using t1(3) that by (simp add: rows_hold_def)
  have "sized (et_headers t ! i) (et_payloads t ! i)" if i: "1 \<le> i" "i < ?N" for i
  proof -
    obtain j where j: "i = Suc j" "j < length rows" using i by (cases i) auto
    obtain nm bare p where r: "rows ! j = (nm, bare, p)" by (cases "rows ! j")
    have "sized bare p" using rows(1) j(2) r by (metis nth_mem row_sized_def old.prod.case)
    moreover obtain k where "hs1 ! j = bare\<lparr>sh_name := k\<rparr>" "ps ! j = p" using row [OF j(2)] r by (auto simp: holds_row_def)
    ultimately show ?thesis by (simp add: j t1 sized_def)
  qed
  then have placed: "payloads_placed (et_payloads t) 1 (et_headers t) hs ?hdr ?body \<and> length ?body = unat cur"
    by (intro emit_placed [OF place len]) (auto simp: length_header_bytes rel_header_def)
  then have lhs: "length hs = ?N" using len by (simp add: payloads_placed_def)
  have pf: "\<exists>off. hs ! i = (et_headers t ! i)\<lparr>sh_offset := off\<rparr>" if "i < ?N" for i
    using placed that unfolding payloads_placed_def lhs by blast
  have pp: "\<exists>x. et_payloads t ! i = Some x \<and> chunk ?body (unat (sh_offset (hs ! i))) x"
    if "1 \<le> i" "i < ?N" "sh_type (hs ! i) \<noteq> sht_nobits" for i
    using placed that unfolding payloads_placed_def lhs by blast
  have cnt': "?N < 0xff00" "shnum = of_nat ?N" using checked_section_count_Inr [OF cnt] rows(2) by simp_all
  have ix': "shstrndx = of_nat (length rows)" using ix lhs by (simp add: checked_u16_Inr)
  let ?pre = "pad_zero (unat shoff) ?body"
  have "unat cur \<le> unat shoff" using elf_align_up_Inr [OF shoff] by blast
  then have pre: "length ?pre = unat shoff" using placed by (simp add: pad_zero_def)
  have out': "out = ?pre @ concat (map shdr_bytes hs)" by (simp add: out drop_Suc)
  have bytes: "bytes = 64 * ?N" "bytes < 2 ^ 63" using checked_table_bytes_Inr [OF sb] lhs by simp_all
  then have "unat (of_nat bytes :: u64) = 64 * ?N" by (simp only: unat_of_nat) simp
  then have "unat total = unat shoff + 64 * ?N" using total by (simp add: checked_simps)
  then have lout: "length out = unat total"
    using pre by (simp add: out' lhs length_concat_fixed [of hs shdr_bytes 64])
  then show "length out \<le> unat limit" using checked_output_size_Inr [OF size] by simp
  have host: "host_file out" using lout checked_output_size_Inr [OF size] by (simp add: host_file_def)
  obtain suf where suf: "?body = ?hdr @ suf" using placed by (auto simp: payloads_placed_def)
  have body: "chunk ?body a x \<Longrightarrow> chunk out a x" for a x by (simp add: out' pad_zero_def chunk_append)
  have "chunk ([] @ ?hdr @ suf) 0 ?hdr" by (rule chunk_at) simp
  then have "chunk ?body 0 ?hdr" unfolding suf by (simp only: append_Nil)
  then have hd: "chunk out 0 ?hdr" by (rule body)
  have tab: "chunk out (unat shoff + 64 * i) (shdr_bytes (hs ! i))" if "i < length hs" for i
  proof -
    have "chunk (?pre @ concat (map shdr_bytes hs)) (length ?pre + 64 * i) (shdr_bytes (hs ! i))"
      using that by (intro chunk_prepend chunk_concat) auto
    then show ?thesis by (simp only: out' pre)
  qed
  have "\<exists>p. placed_row (et_names t) (rows ! i) (hs ! Suc i) p \<and>
        (sh_type (hs ! Suc i) \<noteq> sht_nobits \<longrightarrow> (\<exists>x. p = Some x \<and> chunk out (unat (sh_offset (hs ! Suc i))) x))"
    if i: "i < length rows" for i
  proof -
    obtain nm bare p where r: "rows ! i = (nm, bare, p)" by (cases "rows ! i")
    have hr: "ps ! i = p" "named (et_names t) (unat (sh_name (hs1 ! i))) nm" "hs1 ! i = bare\<lparr>sh_name := sh_name (hs1 ! i)\<rparr>"
      using row [OF i] r by (auto simp: holds_row_def)
    obtain off where off: "hs ! Suc i = (hs1 ! i)\<lparr>sh_offset := off\<rparr>"
      using pf [of "Suc i"] i t1(1) by auto
    have "placed_row (et_names t) (rows ! i) (hs ! Suc i) (ps ! i)"
    proof -
      have "hs ! Suc i = bare\<lparr>sh_name := sh_name (hs1 ! i), sh_offset := off\<rparr>" unfolding off by (subst hr(3)) (rule refl)
      moreover have "named (et_names t) (unat (sh_name (hs ! Suc i))) nm" using hr(2) off by simp
      ultimately show ?thesis unfolding r placed_row_def prod.case using hr(1) by blast
    qed
    moreover have "\<exists>x. ps ! i = Some x \<and> chunk out (unat (sh_offset (hs ! Suc i))) x" if "sh_type (hs ! Suc i) \<noteq> sht_nobits"
      using pp [of "Suc i"] that i t1(2) body by auto
    ultimately show ?thesis by blast
  qed
  moreover have "hs ! 0 = shdr_default" using placed t1(1) by (simp add: payloads_placed_def)
  ultimately have "elf_image rows (et_names t) hs shoff out"
    using host lhs cnt' ix' hd tab by (simp add: elf_image_def)
  then show "\<exists>hs shoff. elf_image rows (et_names t) hs shoff out" by blast
qed

end
