(* ===== verification/ElfFile.thy ===== *)
theory ElfFile
  imports ElfImage
begin

text \<open>
  The reader's view of a file of the writer: the fields of the serialised records, the header,
  the section table row by row, and the names of the rows.  \<open>written\<close> collects what a successful
  run of the writer leaves in the file.
\<close>

subsection \<open>Fields of the serialised records\<close>

lemma chunk_here [simp]: "chunk (q @ ys) 0 q"
  by (auto simp: chunk_def)

lemma chunk_whole [simp]: "chunk q 0 q"
  using chunk_here [of q "[]"] by simp

lemma chunk_skip: "length x \<le> k \<Longrightarrow> chunk ys (k - length x) q \<Longrightarrow> chunk (x @ ys) k q"
  using chunk_prepend [of ys "k - length x" q x] by simp

lemma shdr_fields:
  "chunk (shdr_bytes s) 0 (to_le_bytes 4 (sh_name s))"
  "chunk (shdr_bytes s) 4 (to_le_bytes 4 (sh_type s))"
  "chunk (shdr_bytes s) 8 (to_le_bytes 8 (sh_flags s))"
  "chunk (shdr_bytes s) 16 (to_le_bytes 8 (sh_addr s))"
  "chunk (shdr_bytes s) 24 (to_le_bytes 8 (sh_offset s))"
  "chunk (shdr_bytes s) 32 (to_le_bytes 8 (sh_size s))"
  "chunk (shdr_bytes s) 40 (to_le_bytes 4 (sh_link s))"
  "chunk (shdr_bytes s) 44 (to_le_bytes 4 (sh_info s))"
  "chunk (shdr_bytes s) 48 (to_le_bytes 8 (sh_addralign s))"
  "chunk (shdr_bytes s) 56 (to_le_bytes 8 (sh_entsize s))"
  by (simp_all add: shdr_bytes_def chunk_skip)

lemma sym_fields:
  "chunk (sym_bytes s) 0 (to_le_bytes 4 (st_name s))"
  "chunk (sym_bytes s) 4 [st_info s, st_other s]"
  "chunk (sym_bytes s) 6 (to_le_bytes 2 (st_shndx s))"
  "chunk (sym_bytes s) 8 (to_le_bytes 8 (st_value s))"
  "chunk (sym_bytes s) 16 (to_le_bytes 8 (st_size s))"
proof -
  have "sym_bytes s = to_le_bytes 4 (st_name s) @ [st_info s, st_other s] @ to_le_bytes 2 (st_shndx s) @
      to_le_bytes 8 (st_value s) @ to_le_bytes 8 (st_size s)" by (simp add: sym_bytes_def)
  then show "chunk (sym_bytes s) 0 (to_le_bytes 4 (st_name s))"
    "chunk (sym_bytes s) 4 [st_info s, st_other s]"
    "chunk (sym_bytes s) 6 (to_le_bytes 2 (st_shndx s))"
    "chunk (sym_bytes s) 8 (to_le_bytes 8 (st_value s))"
    "chunk (sym_bytes s) 16 (to_le_bytes 8 (st_size s))"
    by (simp_all only: chunk_here) (rule chunk_skip, simp, simp del: append_Cons add: chunk_skip)+
qed

lemma rela_fields:
  "chunk (rela_bytes r) 0 (to_le_bytes 8 (r_offset r))"
  "chunk (rela_bytes r) 8 (to_le_bytes 8 (r_info r))"
  "chunk (rela_bytes r) 16 (to_le_bytes 8 (r_addend r))"
  by (simp_all add: rela_bytes_def chunk_skip)

lemma header_fields:
  assumes "length (h_ident h) = 16"
  shows "chunk (header_bytes h) 16 (to_le_bytes 2 (h_type h))"
    "chunk (header_bytes h) 18 (to_le_bytes 2 (h_machine h))"
    "chunk (header_bytes h) 20 (to_le_bytes 4 (h_version h))"
    "chunk (header_bytes h) 24 (to_le_bytes 8 (h_entry h))"
    "chunk (header_bytes h) 32 (to_le_bytes 8 (h_phoff h))"
    "chunk (header_bytes h) 40 (to_le_bytes 8 (h_shoff h))"
    "chunk (header_bytes h) 48 (to_le_bytes 4 (h_flags h))"
    "chunk (header_bytes h) 52 (to_le_bytes 2 (h_ehsize h))"
    "chunk (header_bytes h) 54 (to_le_bytes 2 (h_phentsize h))"
    "chunk (header_bytes h) 56 (to_le_bytes 2 (h_phnum h))"
    "chunk (header_bytes h) 58 (to_le_bytes 2 (h_shentsize h))"
    "chunk (header_bytes h) 60 (to_le_bytes 2 (h_shnum h))"
    "chunk (header_bytes h) 62 (to_le_bytes 2 (h_shstrndx h))"
  using assms by (simp_all add: header_bytes_def chunk_skip)

text \<open>Reading a field of a record that stands at \<open>at\<close>.\<close>

lemma read_field:
  assumes "chunk bs (unat at) r" "host_file bs"
  shows "chunk r k (to_le_bytes 2 (w2 :: u16)) \<Longrightarrow> elf_u16 bs (at + of_nat k) = Inr w2"
    and "chunk r k (to_le_bytes 4 (w4 :: u32)) \<Longrightarrow> elf_u32 bs (at + of_nat k) = Inr w4"
    and "chunk r k (to_le_bytes 8 (w8 :: u64)) \<Longrightarrow> elf_u64 bs (at + of_nat k) = Inr w8"
  using chunk_field [OF assms(1) _ assms(2), of k] assms(2)
  by (simp_all add: elf_u16_chunk elf_u32_chunk elf_u64_chunk)

subsection \<open>The view of a written file\<close>

definition stored_header :: "elf64_shdr \<Rightarrow> elf_section_header" where
  "stored_header s =
     \<lparr>es_name = sh_name s, es_kind = sh_type s, es_flags = sh_flags s, es_address = sh_addr s,
      es_offset = sh_offset s, es_size = sh_size s, es_link = sh_link s, es_info = sh_info s,
      es_align = sh_addralign s, es_entry_size = sh_entsize s\<rparr>"

definition image_header :: "elf64_shdr list \<Rightarrow> u64 \<Rightarrow> elf_header" where
  "image_header hs shoff =
     \<lparr>eh_kind = 1, eh_entry = 0, eh_program_offset = 0, eh_section_offset = shoff, eh_program_entry_size = 0,
      eh_program_count = 0, eh_section_entry_size = 64, eh_section_count = length hs,
      eh_string_section = length hs - 1\<rparr>"

definition image_view :: "elf64_shdr list \<Rightarrow> u64 \<Rightarrow> bytes \<Rightarrow> elf_view" where
  "image_view hs shoff out = \<lparr>ev_bytes = out, ev_header = image_header hs shoff\<rparr>"

lemma image_table_bound:
  assumes "elf_image rows names hs shoff out"
  shows "unat shoff + 64 * length hs \<le> length out"
proof -
  have "chunk out (unat shoff + 64 * length rows) (shdr_bytes (hs ! length rows))"
    using assms by (simp add: elf_image_def)
  from chunk_bound [OF this] assms show ?thesis by (simp add: elf_image_def)
qed

lemma view_section_image:
  assumes im: "elf_image rows names hs shoff out" and i: "i < length hs"
  shows "view_section (image_view hs shoff out) i = Inr (stored_header (hs ! i))"
proof -
  have host: "host_file out" using im by (simp add: elf_image_def)
  have bound: "unat shoff + 64 * length hs < 2 ^ 63"
    using image_table_bound [OF im] host by (simp add: host_file_def)
  have "length hs < 0xff00" using im by (simp add: elf_image_def)
  with i have i': "unat (of_nat i :: u64) = i" by (simp add: unat_of_nat)
  have mul: "checked_mul (of_nat i) 64 = Some (of_nat i * (64 :: u64))" "unat (of_nat i * (64 :: u64)) = 64 * i"
    using i' i bound by (simp_all add: checked_mul_def unat_word_ariths)
  then have at: "row_offset shoff i 64 = Inr (shoff + of_nat i * 64)" "unat (shoff + of_nat i * 64) = unat shoff + 64 * i"
    using bound i by (simp_all add: row_offset_def checked_add_def unat_add_no_overflow)
  let ?at = "shoff + of_nat i * 64"
  have "chunk out (unat ?at) (shdr_bytes (hs ! i))" using im i at(2) by (simp add: elf_image_def)
  note f = read_field [OF this host]
  note [simp] = f(2) [OF shdr_fields(1), simplified] f(2) [OF shdr_fields(2), simplified] f(3) [OF shdr_fields(3), simplified]
    f(3) [OF shdr_fields(4), simplified] f(3) [OF shdr_fields(5), simplified] f(3) [OF shdr_fields(6), simplified]
    f(2) [OF shdr_fields(7), simplified] f(2) [OF shdr_fields(8), simplified] f(3) [OF shdr_fields(9), simplified]
    f(3) [OF shdr_fields(10), simplified]
  show ?thesis
    using i at(1) by (simp add: view_section_def image_view_def image_header_def stored_header_def Let_def)
qed

lemma elf_range_ok: "unat off + unat n \<le> length bs \<Longrightarrow> host_file bs \<Longrightarrow> \<exists>x. elf_range bs off n = Inr x"
  by (auto simp: elf_range_def checked_add_def host_file_def slice_def unat_add_no_overflow)

lemma view_parse_image:
  assumes im: "elf_image rows names hs shoff out" and n: "3 \<le> length rows"
  shows "yields (view_parse out limits) (\<lambda>v. v = image_view hs shoff out)"
proof -
  let ?h = "rel_header (target_object_target X86_64WhaleLinux) 62 shoff (of_nat (length hs)) (of_nat (length rows))"
  have host: "host_file out" and hdr: "chunk out 0 (header_bytes ?h)" and len: "length hs = Suc (length rows)" "length hs < 0xff00"
    using im by (auto simp: elf_image_def)
  obtain post where post: "out = header_bytes ?h @ post" using hdr by (auto simp: chunk_def)
  have id: "length (h_ident ?h) = 16" by (simp add: rel_header_def)
  have lout: "64 \<le> length out" using post length_header_bytes [OF id] by simp
  have "chunk out (unat (0 :: u64)) (header_bytes ?h)" using hdr by simp
  note f = read_field [OF this host]
  note hf = header_fields [OF id]
  have fields: "elf_u16 out 16 = Inr 1" "elf_u16 out 18 = Inr 62" "elf_u32 out 20 = Inr 1" "elf_u64 out 24 = Inr 0"
    "elf_u64 out 32 = Inr 0" "elf_u64 out 40 = Inr shoff" "elf_u32 out 48 = Inr 0" "elf_u16 out 52 = Inr 64"
    "elf_u16 out 54 = Inr 0" "elf_u16 out 56 = Inr 0" "elf_u16 out 58 = Inr 64"
    "elf_u16 out 60 = Inr (of_nat (length hs))" "elf_u16 out 62 = Inr (of_nat (length rows))"
    using f(1) [OF hf(1)] f(1) [OF hf(2)] f(2) [OF hf(3)] f(3) [OF hf(4)] f(3) [OF hf(5)] f(3) [OF hf(6)] f(2) [OF hf(7)]
      f(1) [OF hf(8)] f(1) [OF hf(9)] f(1) [OF hf(10)] f(1) [OF hf(11)] f(1) [OF hf(12)] f(1) [OF hf(13)]
    by (simp_all add: rel_header_def elf_flags_def)
  obtain rest where ident: "out = [0x7f, 0x45, 0x4C, 0x46, 2, 1, 1, 0, 0, 0, 0, 0, 0, 0, 0, 0] @ rest"
    using post by (simp add: header_bytes_def rel_header_def)
  have "check_identification out = Inr ()"
    unfolding check_identification_def using fields by (simp add: ident)
  moreover have "unat (of_nat (length hs) :: u16) = length hs" "unat (of_nat (length rows) :: u16) = length rows"
    using len(2) by (simp_all only: unat_of_nat) (simp_all add: len(1))
  then have "read_elf_header out = Inr (image_header hs shoff)"
    using fields len by (simp add: read_elf_header_def image_header_def)
  moreover have "yields (check_elf_header out limits (image_header hs shoff)) (\<lambda>_. True)"
  proof -
    have mul: "unat (of_nat (length hs) :: u64) = length hs" using len(2) by (simp add: unat_of_nat)
    then have "checked_mul (of_nat (length hs)) (64 :: u64) = Some (of_nat (length hs) * 64)"
      "unat (of_nat (length hs) * (64 :: u64)) = 64 * length hs"
      using len(2) by (simp_all add: checked_mul_def unat_word_ariths)
    with elf_range_ok [of shoff "of_nat (length hs) * 64" out] image_table_bound [OF im] host
    have "elf_table out shoff (length hs) 64 = Inr ()" by (auto simp: elf_table_def)
    then show ?thesis using len n by (auto simp: check_elf_header_def image_header_def)
  qed
  ultimately show ?thesis
    using lout by (auto simp: view_parse_def image_view_def intro!: yields_rbind)
qed

subsection \<open>The rows of an object\<close>

definition plain_row :: "row \<Rightarrow> bool" where
  "plain_row = (\<lambda>(nm, bare, p).
     sized bare p \<and> sh_addr bare = 0 \<and> is_power_of_two (sh_addralign bare) \<and> sh_type bare \<noteq> 0)"

lemma one_le_power: "n < 64 \<Longrightarrow> max (2 ^ n) (1 :: u64) = 2 ^ n"
proof -
  assume "n < 64"
  then have "unat (2 ^ n :: u64) = 2 ^ n" using unat_power_of_two [of n, where 'a = 64] by simp
  then have "(1 :: u64) \<le> 2 ^ n" by (simp add: word_le_nat_alt)
  then show ?thesis by (simp add: max_def)
qed

lemma powers [simp]: "is_power_of_two (1 :: u64)" "is_power_of_two (8 :: u64)"
  by (rule is_power_of_two_test; simp)+

lemma alignment_stored: "wf_section s \<Longrightarrow> is_power_of_two (max (sec_align s) 1)"
proof -
  assume "wf_section s"
  then consider "sec_align s = 0" | n where "n < 64" "sec_align s = 2 ^ n" by (auto simp: wf_section_def)
  then show ?thesis
  proof cases
    case 1
    then show ?thesis by simp
  next
    case 2
    then show ?thesis by (auto simp: one_le_power is_power_of_two_iff)
  qed
qed

lemma section_row_plain: "wf_section s \<Longrightarrow> length (sec_data s) < 2 ^ 64 \<Longrightarrow> plain_row (section_row s)"
  using alignment_stored [of s]
  by (cases "sec_kind s")
    (auto simp: plain_row_def section_row_def sized_def wf_section_def section_type_and_flags_def shdr_default_def
      sht_progbits_def sht_nobits_def)

lemma rela_row_plain:
  assumes "rela_row obj index_of g r"
  shows "plain_row (link_row l r)"
proof -
  obtain nm bare p where r: "r = (nm, bare, p)" by (cases r)
  obtain es where es: "list_all2 (rela_entry (obj_target obj) index_of) (snd g) es" "p = Some (concat (map rela_bytes es))"
    "length (snd g) * 24 < 2 ^ 63" "sh_type bare = sht_rela" "sh_size bare = of_nat (24 * length (snd g))" "sh_addr bare = 0" "sh_addralign bare = 8"
    using assms by (cases g) (auto simp: rela_row_def r shdr_default_def)
  have "length (concat (map rela_bytes es)) = 24 * length (snd g)"
    using length_concat_fixed [of es rela_bytes 24] list_all2_lengthD [OF es(1)] by simp
  then have "sized bare p" using es by (simp add: sized_def len64_def)
  then show ?thesis using es by (auto simp: plain_row_def link_row_def r sized_def sht_rela_def)
qed

lemma table_rows_plain:
  "length syms * 24 < 2 ^ 63 \<Longrightarrow> plain_row (symtab_row idx info syms)"
  "length content < 2 ^ 64 \<Longrightarrow> plain_row (strtab_row nm content)"
  using length_concat_fixed [of syms sym_bytes 24]
  by (simp_all add: plain_row_def symtab_row_def strtab_row_def sized_def shdr_default_def sht_symtab_def sht_strtab_def)

definition representable :: "object_file \<Rightarrow> bool" where
  "representable obj \<longleftrightarrow> wf_object obj \<and> obj_target obj = target_object_target X86_64WhaleLinux \<and>
     (\<forall>s\<in>set (obj_sections obj). length (sec_data s) < 2 ^ 64 \<and> utf8_valid (lit (sec_name s))) \<and>
     (\<forall>s\<in>set (obj_symbols obj). utf8_valid (lit (sym_name s))) \<and>
     (\<forall>r\<in>set (obj_relocations obj). utf8_valid (lit (rel_symbol r)) \<and> - (2 ^ 63) \<le> rel_addend r \<and> rel_addend r < 2 ^ 63)"

definition written ::
  "object_file \<Rightarrow> row list \<Rightarrow> elf64_sym list \<Rightarrow> (string \<rightharpoonup> usize) \<Rightarrow> bytes \<Rightarrow> bytes \<Rightarrow> elf64_shdr list \<Rightarrow> u64 \<Rightarrow> bytes \<Rightarrow> bool" where
  "written obj B es index_of strtab names hs shoff out \<longleftrightarrow>
     representable obj \<and> symbol_state (ordered_symbols obj) (strtab, sym_default # es, index_of) \<and>
     list_all2 (rela_row obj index_of) (object_groups obj) B \<and> string_table names \<and>
     Suc (Suc (length (obj_sections obj) + length B)) < 2 ^ 32 \<and> first_global (ordered_symbols obj) < 2 ^ 32 \<and>
     Suc (length es) * 24 < 2 ^ 63 \<and>
     elf_image (object_rows obj B (sym_default # es) strtab names) names hs shoff out"

lemma object_rows_plain:
  assumes "representable obj" "symbol_state (ordered_symbols obj) (strtab, sym_default # es, index_of)"
    "list_all2 (rela_row obj index_of) (object_groups obj) B" "string_table names" "Suc (length es) * 24 < 2 ^ 63"
  shows "\<forall>r\<in>set (object_rows obj B (sym_default # es) strtab names). plain_row r"
proof -
  have "plain_row (section_row s)" if "s \<in> set (obj_sections obj)" for s
    using assms(1) that by (auto simp: representable_def wf_object_def intro: section_row_plain)
  moreover have "plain_row (link_row l r)" if "r \<in> set B" for r l
    using list_all2_right [OF assms(3) that] rela_row_plain by blast
  moreover have "length strtab < 2 ^ 64" "length names < 2 ^ 64"
    using assms(2,4) by (auto simp: symbol_state_def string_table_def)
  ultimately show ?thesis using assms(5) by (auto simp: object_rows_def Let_def intro: table_rows_plain)
qed

lemma image_row:
  assumes "elf_image rows names hs shoff out" "i < length rows" "rows ! i = (nm, bare, p)"
  shows "\<exists>k off. hs ! Suc i = bare\<lparr>sh_name := k, sh_offset := off\<rparr> \<and> named names (unat k) nm \<and>
    (sh_type bare \<noteq> sht_nobits \<longrightarrow> (\<exists>x. p = Some x \<and> chunk out (unat off) x))"
proof -
  have "\<exists>p'. placed_row names (rows ! i) (hs ! Suc i) p' \<and>
      (sh_type (hs ! Suc i) \<noteq> sht_nobits \<longrightarrow> (\<exists>x. p' = Some x \<and> chunk out (unat (sh_offset (hs ! Suc i))) x))"
    using assms(1,2) by (simp add: elf_image_def)
  then obtain k off where h: "hs ! Suc i = bare\<lparr>sh_name := k, sh_offset := off\<rparr>" "named names (unat (sh_name (hs ! Suc i))) nm"
    and c: "sh_type (hs ! Suc i) \<noteq> sht_nobits \<longrightarrow> (\<exists>x. p = Some x \<and> chunk out (unat (sh_offset (hs ! Suc i))) x)"
    unfolding assms(3) placed_row_def prod.case by blast
  have "sh_name (hs ! Suc i) = k" "sh_offset (hs ! Suc i) = off" "sh_type (hs ! Suc i) = sh_type bare" using h(1) by simp_all
  with h c show ?thesis by (intro exI [of _ k] exI [of _ off]) auto
qed

lemma object_groups_filter:
  "object_groups obj = map (\<lambda>i. (i, relocations_of (obj_relocations obj) i))
     (filter (\<lambda>i. relocations_of (obj_relocations obj) i \<noteq> []) [0..<length (obj_sections obj)])"
  by (simp add: object_groups_def relocated_groups_def enumerate_eq_zip zip_map2 zip_same_conv_map filter_map o_def)

lemma build_and_emit:
  assumes "write_elf_checked h obj limit = Inr out" "representable obj"
  shows "\<exists>B es index_of strtab names hs shoff. written obj B es index_of strtab names hs shoff out"
    and "length out \<le> unat limit"
proof -
  let ?rel = "card (rel_section ` set (obj_relocations obj))" and ?n = "length (obj_sections obj)"
  obtain t where t: "build_tables h obj limit = Inr t"
    and e: "emit_tables h (target_object_target X86_64WhaleLinux) 62 ?n ?rel limit t = Inr out"
    using assms by (auto simp: write_elf_checked_def Let_def result_simps representable_def elf_machine_def validate_target_def)
  have wf: "wf_object obj" using assms(2) by (simp add: representable_def)
  obtain B es index_of strtab where tab: "object_tables obj B es index_of strtab t"
    using build_tables_rows [OF t wf] by blast
  let ?rows = "object_rows obj B (sym_default # es) strtab (et_names t)"
  have "string_table (et_names t)" using tab by (simp add: object_tables_def tables_hold_def)
  with tab have plain: "\<forall>r\<in>set ?rows. plain_row r"
    using object_rows_plain [OF assms(2)] by (auto simp: object_tables_def)
  then have sized: "\<forall>r\<in>set ?rows. row_sized r" by (auto simp: plain_row_def row_sized_def)
  have "length B = length (object_groups obj)" using tab list_all2_lengthD by (fastforce simp: object_tables_def)
  also have "\<dots> = ?rel"
  proof -
    have "length (object_groups obj) = card {i. i < ?n \<and> relocations_of (obj_relocations obj) i \<noteq> []}"
      by (simp add: object_groups_filter distinct_length_filter Int_def conj_commute)
    also have "{i. i < ?n \<and> relocations_of (obj_relocations obj) i \<noteq> []} = rel_section ` set (obj_relocations obj)"
      using wf by (auto simp: relocations_of_def filter_empty_conv wf_object_def wf_relocation_def)
    finally show ?thesis .
  qed
  finally have len: "length ?rows = ?n + ?rel + 3" by (simp add: object_rows_def Let_def)
  have th: "tables_hold ?rows t" using tab by (simp add: object_tables_def)
  from emit_tables_image [OF e th sized len] show "length out \<le> unat limit"
    and "\<exists>B es index_of strtab names hs shoff. written obj B es index_of strtab names hs shoff out"
    using tab assms(2) \<open>string_table (et_names t)\<close> unfolding written_def object_tables_def by blast+
qed

definition row_header :: "elf64_shdr \<Rightarrow> u32 \<Rightarrow> u64 \<Rightarrow> elf_section_header" where
  "row_header bare k off =
     \<lparr>es_name = k, es_kind = sh_type bare, es_flags = sh_flags bare, es_address = sh_addr bare, es_offset = off,
      es_size = sh_size bare, es_link = sh_link bare, es_info = sh_info bare, es_align = sh_addralign bare,
      es_entry_size = sh_entsize bare\<rparr>"

definition row_at :: "bytes \<Rightarrow> bytes \<Rightarrow> row \<Rightarrow> elf_section_header \<Rightarrow> bool" where
  "row_at names out = (\<lambda>(nm, bare, p) s. \<exists>k off.
     s = row_header bare k off \<and> named names (unat k) nm \<and>
     (sh_type bare \<noteq> sht_nobits \<longrightarrow>
        (\<exists>x. p = Some x \<and> chunk out (unat off) x \<and> elf_range out off (sh_size bare) = Inr x \<and>
           unat (sh_size bare) = length x)))"

lemma image_row_at:
  assumes im: "elf_image rows names hs shoff out" and i: "i < length rows" and plain: "plain_row (rows ! i)"
  shows "row_at names out (rows ! i) (stored_header (hs ! Suc i))"
proof -
  obtain nm bare p where r: "rows ! i = (nm, bare, p)" by (cases "rows ! i")
  obtain k off where h: "hs ! Suc i = bare\<lparr>sh_name := k, sh_offset := off\<rparr>" "named names (unat k) nm"
    and c: "sh_type bare \<noteq> sht_nobits \<longrightarrow> (\<exists>x. p = Some x \<and> chunk out (unat off) x)"
    using image_row [OF im i r] by blast
  have "elf_range out off (sh_size bare) = Inr x \<and> unat (sh_size bare) = length x"
    if "sh_type bare \<noteq> sht_nobits" "p = Some x" "chunk out (unat off) x" for x
  proof -
    have "unat (sh_size bare) = length x" using plain that(1,2) by (auto simp: plain_row_def r sized_def unat_len64)
    then show ?thesis using that(3) im elf_range_chunk by (simp add: elf_image_def)
  qed
  moreover have "stored_header (hs ! Suc i) = row_header bare k off" by (simp add: stored_header_def row_header_def h(1))
  ultimately show ?thesis using h(2) c by (auto simp: row_at_def r)
qed

lemma written_plain:
  "written obj B es index_of strtab names hs shoff out \<Longrightarrow>
    \<forall>r\<in>set (object_rows obj B (sym_default # es) strtab names). plain_row r"
  unfolding written_def using object_rows_plain by blast

lemma written_row:
  assumes "written obj B es index_of strtab names hs shoff out"
    and "i < length (object_rows obj B (sym_default # es) strtab names)"
  shows "row_at names out (object_rows obj B (sym_default # es) strtab names ! i) (stored_header (hs ! Suc i))"
  using assms written_plain [OF assms(1)] by (intro image_row_at) (auto simp: written_def)

lemma zero_bytes: "to_le_bytes n (0 :: 'a::len word) = replicate n 0"
  by (simp add: to_le_bytes_def map_replicate_const)

lemma check_row_written:
  assumes w: "written obj B es index_of strtab names hs shoff out" and i: "i < length hs"
  shows "check_row (image_view hs shoff out) i (stored_header (hs ! i)) = Inr ()"
proof -
  let ?rows = "object_rows obj B (sym_default # es) strtab names"
  have im: "elf_image ?rows names hs shoff out" using w by (simp add: written_def)
  show ?thesis
  proof (cases i)
    case 0
    have "chunk out (unat shoff) (shdr_bytes (hs ! 0))" "hs ! 0 = shdr_default" "host_file out"
      using im by (auto simp: elf_image_def dest: spec [of _ 0])
    then have "elf_range out shoff 64 = Inr (shdr_bytes shdr_default)" by (intro elf_range_chunk) simp_all
    moreover have "\<not> list_ex (\<lambda>x. x \<noteq> 0) (shdr_bytes shdr_default)"
      by (simp add: shdr_bytes_def shdr_default_def zero_bytes list_ex_iff)
    ultimately show ?thesis by (simp add: 0 check_row_def view_range_def image_view_def image_header_def)
  next
    case (Suc j)
    then have j: "j < length ?rows" using i im by (simp add: elf_image_def)
    obtain nm bare p where r: "?rows ! j = (nm, bare, p)" by (cases "?rows ! j")
    have plain: "plain_row (nm, bare, p)" using written_plain [OF w] j r by (metis nth_mem)
    have "row_at names out (nm, bare, p) (stored_header (hs ! i))" using written_row [OF w j] r Suc by simp
    then obtain k off where h: "stored_header (hs ! i) = row_header bare k off"
      and c: "sh_type bare \<noteq> sht_nobits \<longrightarrow> (\<exists>x. elf_range out off (sh_size bare) = Inr x)"
      by (auto simp: row_at_def)
    show ?thesis
      using plain c unfolding h
      by (auto simp: check_row_def row_header_def plain_row_def view_range_def image_view_def Suc sht_nobits_def)
  qed
qed

lemma yields_rows:
  assumes w: "written obj B es index_of strtab names hs shoff out"
  shows "yields (foldR (read_row limits (image_view hs shoff out)) [0..<length hs] (b, []))
    (\<lambda>r. snd r = map stored_header hs)"
proof -
  let ?v = "image_view hs shoff out"
  have im: "elf_image (object_rows obj B (sym_default # es) strtab names) names hs shoff out" using w by (simp add: written_def)
  have "yields (foldR (read_row limits ?v) [0..<length hs] (b, [])) (\<lambda>r. snd r = map stored_header (take (length hs) hs))"
  proof (rule yields_foldR_upt [where I = "\<lambda>j r. snd r = map stored_header (take j hs)"])
    fix j and t :: "read_budget \<times> elf_section_header list"
    assume j: "j < length hs" and t: "snd t = map stored_header (take j hs)"
    show "yields (read_row limits ?v j t) (\<lambda>r. snd r = map stored_header (take (Suc j) hs))"
      using t view_section_image [OF im j] check_row_written [OF w j] j
      by (cases t) (auto simp: read_row_def take_Suc_conv_app_nth intro!: yields_rbind [OF yields_charge])
  qed simp
  then show ?thesis by simp
qed

subsection \<open>Names of the rows\<close>

lemma object_rows_nth:
  fixes obj :: object_file and B :: "row list"
  defines "n \<equiv> length (obj_sections obj)" and "k \<equiv> length B"
  shows "i < n \<Longrightarrow> object_rows obj B syms strtab names ! i = section_row (obj_sections obj ! i)"
    and "j < k \<Longrightarrow> object_rows obj B syms strtab names ! (n + j) = link_row (of_nat (Suc (n + k))) (B ! j)"
    and "object_rows obj B syms strtab names ! (n + k) = symtab_row (Suc (n + k)) (first_global (ordered_symbols obj)) syms"
    and "object_rows obj B syms strtab names ! Suc (n + k) = strtab_row ''.strtab'' strtab"
    and "object_rows obj B syms strtab names ! Suc (Suc (n + k)) = strtab_row ''.shstrtab'' names"
    and "length (object_rows obj B syms strtab names) = n + k + 3"
  by (auto simp: object_rows_def Let_def nth_append n_def k_def)

lemma utf8_prefix: "\<forall>c\<in>set p. of_char c \<le> (0x7F :: u8) \<Longrightarrow> utf8_valid (lit s) \<Longrightarrow> utf8_valid (lit (p @ s))"
  by (induction p) (auto simp: lit_def)

lemma proper_literals: "proper_name ''.symtab''" "proper_name ''.strtab''" "proper_name ''.shstrtab''" "proper_name ''''"
  by (simp_all add: proper_name_def lit_def)

lemma proper_section_names:
  assumes "representable obj" "s \<in> set (obj_sections obj)"
  shows "proper_name (sec_name s)" "proper_name (''.rela'' @ sec_name s)"
proof -
  have nm: "CHR 0x00 \<notin> set (sec_name s)" "utf8_valid (lit (sec_name s))"
    using assms by (auto simp: representable_def wf_object_def wf_section_def)
  have "\<forall>c\<in>set ''.rela''. of_char c \<le> (0x7F :: u8)" by simp
  from utf8_prefix [OF this nm(2)] nm show "proper_name (sec_name s)" "proper_name (''.rela'' @ sec_name s)"
    unfolding proper_name_def by auto
qed

lemma groups_in_range: "(i, g) \<in> set (object_groups obj) \<Longrightarrow> i < length (obj_sections obj) \<and> g = relocations_of (obj_relocations obj) i \<and> g \<noteq> []"
  by (auto simp: object_groups_def relocated_groups_def in_set_enumerate_eq)

lemma rela_row_group:
  assumes w: "written obj B es index_of strtab names hs shoff out" and j: "j < length B"
  shows "rela_row obj index_of (object_groups obj ! j) (B ! j)" "j < length (object_groups obj)"
    "object_groups obj ! j \<in> set (object_groups obj)"
proof -
  have l: "list_all2 (rela_row obj index_of) (object_groups obj) B" using w by (simp add: written_def)
  then show "j < length (object_groups obj)" using j list_all2_lengthD by fastforce
  then show "object_groups obj ! j \<in> set (object_groups obj)" by simp
  show "rela_row obj index_of (object_groups obj ! j) (B ! j)" using l j by (simp add: list_all2_conv_all_nth)
qed

lemma row_cases:
  assumes "i < length (object_rows obj B syms strtab names)"
  obtains "i < length (obj_sections obj)" | j where "i = length (obj_sections obj) + j" "j < length B"
    | "i = length (obj_sections obj) + length B" | "i = Suc (length (obj_sections obj) + length B)"
    | "i = Suc (Suc (length (obj_sections obj) + length B))"
proof (cases "i < length (obj_sections obj)")
  case False
  then obtain j where j: "i = length (obj_sections obj) + j" using le_Suc_ex not_less by blast
  then have "j < length B + 3" using assms by (simp add: object_rows_nth(6))
  then consider "j < length B" | "j = length B" | "j = Suc (length B)" | "j = Suc (Suc (length B))" by linarith
  then show ?thesis using j that(2-5) by cases auto
qed (use that in blast)

lemma proper_row_names:
  assumes w: "written obj B es index_of strtab names hs shoff out"
    and i: "i < length (object_rows obj B (sym_default # es) strtab names)"
  shows "proper_name (fst (object_rows obj B (sym_default # es) strtab names ! i))"
proof -
  let ?n = "length (obj_sections obj)" and ?k = "length B"
  have rep: "representable obj" using w by (simp add: written_def)
  from i show ?thesis
  proof (cases rule: row_cases)
    case 1
    then show ?thesis using proper_section_names(1) [OF rep] by (simp add: object_rows_nth section_row_def)
  next
    case (2 j)
    obtain s g where sg: "object_groups obj ! j = (s, g)" by (cases "object_groups obj ! j")
    note r = rela_row_group [OF w 2(2)]
    have "s < ?n" using groups_in_range [of s g obj] r(3) sg by simp
    moreover have "fst (B ! j) = ''.rela'' @ sec_name (obj_sections obj ! s)"
      using r(1) by (cases "B ! j") (auto simp: sg rela_row_def)
    ultimately show ?thesis
      using proper_section_names(2) [OF rep] 2 by (cases "B ! j") (simp add: object_rows_nth link_row_def)
  qed (simp_all add: object_rows_nth symtab_row_def strtab_row_def proper_literals)
qed

text \<open>Looking up the name of a row in the section-name table.\<close>

lemma strtab_row_at:
  assumes "row_at names out (strtab_row nm content) s"
  shows "es_kind s = 3" "es_flags s = 0" "chunk out (unat (es_offset s)) content" "unat (es_size s) = length content"
    "elf_range out (es_offset s) (es_size s) = Inr content"
  using assms by (auto simp: row_at_def strtab_row_def row_header_def sht_strtab_def sht_nobits_def shdr_default_def)

lemma row_at_fields:
  "row_at names out r s \<Longrightarrow> es_kind s = sh_type (fst (snd r)) \<and> es_flags s = sh_flags (fst (snd r)) \<and>
     es_link s = sh_link (fst (snd r)) \<and> es_info s = sh_info (fst (snd r)) \<and> es_size s = sh_size (fst (snd r)) \<and>
     es_entry_size s = sh_entsize (fst (snd r))"
  by (auto simp: row_at_def row_header_def split: prod.splits)

lemma link_row_fields [simp]:
  "fst (snd (link_row l r)) = (fst (snd r))\<lparr>sh_link := l\<rparr>" "fst (link_row l r) = fst r" "snd (snd (link_row l r)) = snd (snd r)"
  by (cases r, simp add: link_row_def)+

lemma rela_row_fields:
  assumes "rela_row obj index_of (i, g) r"
  shows "sh_type (fst (snd r)) = 4" "sh_flags (fst (snd r)) = 0x40" "sh_info (fst (snd r)) = of_nat (Suc i)"
    "sh_entsize (fst (snd r)) = 24" "sh_size (fst (snd r)) = of_nat (24 * length g)" "Suc i < 2 ^ 32" "length g * 24 < 2 ^ 63"
    "\<exists>es. list_all2 (rela_entry (obj_target obj) index_of) g es \<and> snd (snd r) = Some (concat (map rela_bytes es))"
  using assms by (cases r, auto simp: rela_row_def sht_rela_def)+

definition names_header :: "elf64_shdr list \<Rightarrow> elf_section_header" where
  "names_header hs = stored_header (hs ! (length hs - 1))"

lemma names_header_written:
  assumes w: "written obj B es index_of strtab names hs shoff out"
  shows "row_at names out (strtab_row ''.shstrtab'' names) (names_header hs)"
    and "length hs = length (obj_sections obj) + length B + 4"
proof -
  let ?rows = "object_rows obj B (sym_default # es) strtab names"
  show len: "length hs = length (obj_sections obj) + length B + 4"
    using w by (simp add: written_def elf_image_def object_rows_nth(6))
  have "row_at names out (?rows ! Suc (Suc (length (obj_sections obj) + length B))) (stored_header (hs ! Suc (Suc (Suc (length (obj_sections obj) + length B)))))"
    by (intro written_row [OF w]) (simp add: object_rows_nth(6))
  then show "row_at names out (strtab_row ''.shstrtab'' names) (names_header hs)"
    by (simp add: object_rows_nth(5) names_header_def len numeral_3_eq_3)
qed

lemma yields_row_name:
  assumes w: "written obj B es index_of strtab names hs shoff out"
    and i: "i < length (object_rows obj B (sym_default # es) strtab names)"
  shows "yields (budget_name limits (image_view hs shoff out) (names_header hs) (es_name (stored_header (hs ! Suc i))) b)
    (\<lambda>r. fst r = fst (object_rows obj B (sym_default # es) strtab names ! i))"
proof -
  note nh = strtab_row_at [OF names_header_written(1) [OF w]]
  have "named names (unat (es_name (stored_header (hs ! Suc i)))) (fst (object_rows obj B (sym_default # es) strtab names ! i))"
    using written_row [OF w i] by (auto simp: row_at_def row_header_def)
  then show ?thesis
    using nh proper_row_names [OF w i] w
    by (intro yields_name) (auto simp: image_view_def written_def elf_image_def)
qed

end
