(* ===== verification/ElfRoundTrip.thy ===== *)
theory ElfRoundTrip
  imports ElfFile
begin

text \<open>
  The reader returns what the writer stored.  Reading a file of the writer gives the object
  with its symbols in file order, its relocations grouped by section, and its uninitialised
  sections as sizes; the only other outcomes are a resource limit of the reader and a refused
  allocation.
\<close>

subsection \<open>Reading the sections\<close>

definition stored_section :: "obj_section \<Rightarrow> obj_section" where
  "stored_section s =
     s\<lparr>sec_data := if sec_kind s = Bss then [] else sec_data s,
       sec_zero_fill := if sec_kind s = Bss then len64 (sec_data s) + sec_zero_fill s else 0,
       sec_align := max (sec_align s) 1\<rparr>"

lemma payload_kind_written:
  "payload_kind (fst (section_type_and_flags k)) (snd (section_type_and_flags k)) = Some k"
  by (cases k) (simp_all add: section_type_and_flags_def sht_progbits_def sht_nobits_def)

lemma section_type_payload: "fst (section_type_and_flags k) = (if k = Bss then 8 else 1)"
  by (cases k) (simp_all add: section_type_and_flags_def sht_progbits_def sht_nobits_def)

lemma yields_read_payload:
  assumes "payload_kind (es_kind s) (es_flags s) = Some kind" "es_link s = 0" "es_info s = 0" "es_entry_size s = 0"
    and "es_kind s \<noteq> 8 \<Longrightarrow> view_range v (es_offset s) (es_size s) = Inr content"
  shows "yields (read_payload h limits v m s nm b)
    (\<lambda>r. fst r = \<lparr>sec_name = nm, sec_kind = kind, sec_data = if es_kind s = 8 then [] else content,
      sec_zero_fill = if es_kind s = 8 then es_size s else 0, sec_align = es_align s\<rparr>)"
proof -
  let ?load = "if es_kind s = 8 then Inr ([], b)
              else
                rbind (budget_payload limits (unat (es_size s)) b) (\<lambda>b.
                rbind (budget_charge limits (unat (es_size s)) b) (\<lambda>b.
                rbind (reserve_read h (PayloadRows m) (unat (es_size s))) (\<lambda>_.
                rbind (view_range v (es_offset s) (es_size s)) (\<lambda>bytes.
                Inr (bytes, b)))))"
  have "yields ?load (\<lambda>r. fst r = (if es_kind s = 8 then [] else content))"
    using assms(5)
    by (auto intro!: yields_rbind [OF yields_payload] yields_rbind [OF yields_charge] yields_rbind [OF yields_reserve])
  note load = yields_rbind [OF this]
  have "read_payload h limits v m s nm b = rbind ?load (\<lambda>(content, b). rbind (budget_own h limits nm b) (\<lambda>(nm, b).
       Inr (\<lparr>sec_name = nm, sec_kind = kind, sec_data = content,
             sec_zero_fill = (if es_kind s = 8 then es_size s else 0), sec_align = es_align s\<rparr>, b)))"
    unfolding read_payload_def using assms(1-4) by (simp only: ok_or_simps rbind_simps) simp
  then show ?thesis
    by (simp only:) (rule load, auto intro!: yields_rbind [OF yields_own])
qed

lemma yields_payload_section:
  assumes w: "written obj B es index_of strtab names hs shoff out" and i: "i < length (obj_sections obj)"
  shows "yields (read_payload h limits (image_view hs shoff out) m (stored_header (hs ! Suc i)) (sec_name (obj_sections obj ! i)) b)
    (\<lambda>r. fst r = stored_section (obj_sections obj ! i))"
proof -
  let ?s = "obj_sections obj ! i" and ?h = "stored_header (hs ! Suc i)"
  have "row_at names out (object_rows obj B (sym_default # es) strtab names ! i) ?h"
    using i by (intro written_row [OF w]) (simp add: object_rows_nth(6))
  then obtain k off where h: "?h = row_header (fst (snd (section_row ?s))) k off"
    and c: "sec_kind ?s \<noteq> Bss \<longrightarrow> elf_range out off (len64 (sec_data ?s) + sec_zero_fill ?s) = Inr (sec_data ?s)"
    using i by (auto simp: object_rows_nth row_at_def section_row_def shdr_default_def)
  have wf: "sec_kind ?s \<noteq> Bss \<longrightarrow> sec_zero_fill ?s = 0"
    using w i by (auto simp: written_def representable_def wf_object_def wf_section_def)
  have f: "es_kind ?h = fst (section_type_and_flags (sec_kind ?s))" "es_flags ?h = snd (section_type_and_flags (sec_kind ?s))"
    "es_link ?h = 0" "es_info ?h = 0" "es_entry_size ?h = 0" "es_size ?h = len64 (sec_data ?s) + sec_zero_fill ?s"
    "es_align ?h = max (sec_align ?s) 1" "es_offset ?h = off" "es_kind ?h = 8 \<longleftrightarrow> sec_kind ?s = Bss"
    unfolding h by (simp_all add: row_header_def section_row_def shdr_default_def section_type_payload)
  have "yields (read_payload h limits (image_view hs shoff out) m ?h (sec_name ?s) b)
    (\<lambda>r. fst r = \<lparr>sec_name = sec_name ?s, sec_kind = sec_kind ?s, sec_data = if es_kind ?h = 8 then [] else sec_data ?s,
      sec_zero_fill = if es_kind ?h = 8 then es_size ?h else 0, sec_align = es_align ?h\<rparr>)"
    using payload_kind_written [of "sec_kind ?s"] c f
    by (intro yields_read_payload) (simp_all add: view_range_def image_view_def del: payload_kind.simps)
  then show ?thesis
    by (rule yields_mono) (use f wf in \<open>auto simp: stored_section_def\<close>)
qed

definition scan_state :: "object_file \<Rightarrow> nat \<Rightarrow> nat \<Rightarrow> section_scan \<Rightarrow> bool" where
  "scan_state obj k j st \<longleftrightarrow>
     (let n = length (obj_sections obj) in
      sc_sections st = map stored_section (take j (obj_sections obj)) \<and>
      sc_mapping st = None # map Some [0..<min j n] @ replicate (n + k + 3 - min j n) None \<and>
      sc_symtab st = (if n + k < j then Some (Suc (n + k)) else None))"

lemma update_mapping:
  "j < m \<Longrightarrow> (None # map Some [0..<j] @ replicate (m - j) None)[Suc j := Some j] = None # map Some [0..<Suc j] @ replicate (m - Suc j) None"
  by (simp add: list_update_append Suc_diff_Suc [symmetric] del: upt_Suc) simp

lemma scan_state_cases:
  assumes "scan_state obj k i st" "j = Suc i"
  shows "length (obj_sections obj) \<le> i \<Longrightarrow> i \<noteq> length (obj_sections obj) + k \<Longrightarrow> scan_state obj k j (st\<lparr>sc_budget := b\<rparr>)"
    and "i = length (obj_sections obj) + k \<Longrightarrow> sc_symtab st = None \<and> scan_state obj k j (st\<lparr>sc_budget := b, sc_symtab := Some (Suc i)\<rparr>)"
    and "i < length (obj_sections obj) \<Longrightarrow> scan_state obj k j
      (st\<lparr>sc_budget := b, sc_sections := sc_sections st @ [stored_section (obj_sections obj ! i)],
         sc_mapping := (sc_mapping st)[Suc i := Some (length (sc_sections st))]\<rparr>)"
proof -
  let ?n = "length (obj_sections obj)"
  show "?n \<le> i \<Longrightarrow> i \<noteq> ?n + k \<Longrightarrow> scan_state obj k j (st\<lparr>sc_budget := b\<rparr>)"
    and "i = ?n + k \<Longrightarrow> sc_symtab st = None \<and> scan_state obj k j (st\<lparr>sc_budget := b, sc_symtab := Some (Suc i)\<rparr>)"
    using assms by (auto simp: scan_state_def Let_def)
  assume i: "i < ?n"
  then have "min i ?n = i" "min (Suc i) ?n = Suc i" "i < ?n + k + 3" by auto
  with update_mapping [of i "?n + k + 3"] i assms
  show "scan_state obj k j
      (st\<lparr>sc_budget := b, sc_sections := sc_sections st @ [stored_section (obj_sections obj ! i)],
         sc_mapping := (sc_mapping st)[Suc i := Some (length (sc_sections st))]\<rparr>)"
    by (auto simp: scan_state_def Let_def take_Suc_conv_app_nth simp del: upt_Suc)
qed

lemma scan_section_step:
  assumes w: "written obj B es index_of strtab names hs shoff out"
    and i: "i < length (object_rows obj B (sym_default # es) strtab names)" and st: "scan_state obj (length B) i st"
  shows "yields (scan_section h limits (image_view hs shoff out) (names_header hs) (Suc i, stored_header (hs ! Suc i)) st)
    (scan_state obj (length B) (Suc i))"
proof -
  let ?n = "length (obj_sections obj)" and ?k = "length B" and ?v = "image_view hs shoff out"
  let ?rows = "object_rows obj B (sym_default # es) strtab names"
  obtain s where s: "stored_header (hs ! Suc i) = s" by blast
  let ?name = "map_err (\<lambda>e. err_section e (Suc i)) (budget_name limits ?v (names_header hs) (es_name s) (sc_budget st))"
  note at = written_row [OF w i, unfolded s]
  note f = row_at_fields [OF at]
  have "yields ?name (\<lambda>r. fst r = fst (?rows ! i))"
    using yields_row_name [OF w i] unfolding s by (intro yields_map_err) simp_all
  note name = yields_rbind [OF this]
  have skip: "yields (rbind ?name (\<lambda>(nm, b). Inr (st\<lparr>sc_budget := b\<rparr>))) (scan_state obj ?k (Suc i))"
    if "?n \<le> i" "i \<noteq> ?n + ?k"
    using scan_state_cases(1) [OF st refl that] by (auto intro!: name)
  have string: "yields (scan_section h limits ?v (names_header hs) (Suc i, s) st) (scan_state obj ?k (Suc i))"
    if r: "row_at names out (strtab_row nm content) s" "is_string_table content" and "?n \<le> i" "i \<noteq> ?n + ?k" for nm content
  proof -
    have "scan_section h limits ?v (names_header hs) (Suc i, s) st = rbind ?name (\<lambda>(nm, b). Inr (st\<lparr>sc_budget := b\<rparr>))"
      using strtab_row_at [OF r(1)] r(2)
      by (simp add: scan_section_def view_range_def image_view_def cong del: rbind_weak_cong)
    with skip that show ?thesis by simp
  qed
  from i have "yields (scan_section h limits ?v (names_header hs) (Suc i, s) st) (scan_state obj ?k (Suc i))"
  proof (cases rule: row_cases)
    case 1
    have kind: "es_kind s = 1 \<or> es_kind s = 8" "es_kind s \<noteq> 0"
      using f 1 by (simp_all add: object_rows_nth section_row_def section_type_payload)
    have nm: "fst (?rows ! i) = sec_name (obj_sections obj ! i)" using 1 by (simp add: object_rows_nth section_row_def)
    note pay = yields_rbind [OF yields_payload_section [OF w 1, unfolded s]]
    have "scan_section h limits ?v (names_header hs) (Suc i, s) st = rbind ?name (\<lambda>(nm, b).
        rbind (read_payload h limits ?v (Suc i) s nm b) (\<lambda>(sec, b).
         Inr (st\<lparr>sc_budget := b, sc_sections := sc_sections st @ [sec],
                 sc_mapping := (sc_mapping st)[Suc i := Some (length (sc_sections st))]\<rparr>)))"
      using kind by (simp add: scan_section_def cong del: rbind_weak_cong)
    then show ?thesis
      using scan_state_cases(3) [OF st refl 1] by (auto simp: nm intro!: name pay)
  next
    case (2 j)
    obtain m g where g: "object_groups obj ! j = (m, g)" by (cases "object_groups obj ! j")
    have "rela_row obj index_of (m, g) (B ! j)" using rela_row_group(1) [OF w 2(2)] g by simp
    note r = rela_row_fields [OF this]
    have "es_kind s = 4" "es_flags s = 0x40" using f 2 r by (simp_all add: object_rows_nth)
    then have "scan_section h limits ?v (names_header hs) (Suc i, s) st = rbind ?name (\<lambda>(nm, b). Inr (st\<lparr>sc_budget := b\<rparr>))"
      by (simp add: scan_section_def cong del: rbind_weak_cong)
    then show ?thesis using skip 2 by simp
  next
    case 3
    have "es_kind s = 2" using f 3 by (simp add: object_rows_nth symtab_row_def sht_symtab_def)
    then have "scan_section h limits ?v (names_header hs) (Suc i, s) st =
        rbind ?name (\<lambda>(nm, b). Inr (st\<lparr>sc_budget := b, sc_symtab := Some (Suc i)\<rparr>))"
      using scan_state_cases(2) [OF st refl 3] by (simp add: scan_section_def cong del: rbind_weak_cong)
    then show ?thesis using scan_state_cases(2) [OF st refl 3] by (auto intro!: name)
  next
    case 4
    have "row_at names out (strtab_row ''.strtab'' strtab) s" using at 4 by (simp add: object_rows_nth)
    moreover have "is_string_table strtab" using w by (simp add: written_def symbol_state_def string_table_def)
    ultimately show ?thesis using string 4 by simp
  next
    case 5
    have "row_at names out (strtab_row ''.shstrtab'' names) s" using at 5 by (simp add: object_rows_nth)
    moreover have "is_string_table names" using w by (simp add: written_def string_table_def)
    ultimately show ?thesis using string 5 by simp
  qed
  then show ?thesis by (simp only: s)
qed

lemma tl_enumerate: "tl (enumerate 0 xs) = enumerate 1 (tl xs)"
  by (cases xs) simp_all

lemma yields_read_sections:
  assumes w: "written obj B es index_of strtab names hs shoff out"
  shows "yields (read_sections h limits (image_view hs shoff out))
    (\<lambda>r. fst r = map stored_header hs \<and> scan_state obj (length B) (length (obj_sections obj) + length B + 3) (snd r))"
proof -
  let ?v = "image_view hs shoff out" and ?n = "length (obj_sections obj)" and ?k = "length B"
  note nh = names_header_written [OF w]
  note s = strtab_row_at [OF nh(1)]
  have hd: "eh_section_count (ev_header ?v) = length hs" "map stored_header hs ! eh_string_section (ev_header ?v) = names_header hs"
    using nh(2) by (simp_all add: image_view_def image_header_def names_header_def)
  have ok: "(if es_kind (names_header hs) \<noteq> 3 then Inr False
      else rbind (view_range ?v (es_offset (names_header hs)) (es_size (names_header hs))) (\<lambda>bytes. Inr (is_string_table bytes))) = Inr True"
    using s w by (simp add: view_range_def image_view_def written_def string_table_def)
  have loop: "yields (foldR (scan_section h limits ?v (names_header hs)) (enumerate 1 (tl (map stored_header hs)))
        \<lparr>sc_budget = b, sc_sections = [], sc_mapping = replicate (length hs) None, sc_symtab = None\<rparr>)
      (scan_state obj ?k (length (tl (map stored_header hs))))" for b
  proof (rule yields_foldR_enumerate)
    show "scan_state obj ?k 0 \<lparr>sc_budget = b, sc_sections = [], sc_mapping = replicate (length hs) None, sc_symtab = None\<rparr>"
      using nh(2) by (simp add: scan_state_def Let_def numeral_eq_Suc)
  next
    fix j t assume j: "j < length (tl (map stored_header hs))" and t: "scan_state obj ?k j t"
    have "j < length (object_rows obj B (sym_default # es) strtab names)" using j nh(2) by (simp add: object_rows_nth(6))
    from scan_section_step [OF w this t] j
    show "yields (scan_section h limits ?v (names_header hs) (1 + j, tl (map stored_header hs) ! j) t) (scan_state obj ?k (Suc j))"
      by (simp add: nth_tl)
  qed
  have len: "length (tl (map stored_header hs)) = ?n + ?k + 3" using nh(2) by simp
  have "read_sections h limits ?v =
      rbind (reserve_read h HeaderRows (length hs)) (\<lambda>_.
      rbind (foldR (read_row limits ?v) [0..<length hs] (\<lparr>rb_work = 0, rb_strings = 0, rb_payload = 0\<rparr>, [])) (\<lambda>(b, headers).
      let names = headers ! eh_string_section (ev_header ?v) in
      rbind (if es_kind names \<noteq> 3 then Inr False
             else rbind (view_range ?v (es_offset names) (es_size names)) (\<lambda>bytes. Inr (is_string_table bytes))) (\<lambda>ok.
      if \<not> ok then Inl (err_section (read_error InvalidName) (eh_string_section (ev_header ?v)))
      else
        rbind (reserve_read h SectionMap (length hs)) (\<lambda>_.
        rbind (foldR (scan_section h limits ?v names) (enumerate 1 (tl headers))
                 \<lparr>sc_budget = b, sc_sections = [], sc_mapping = replicate (length hs) None, sc_symtab = None\<rparr>) (\<lambda>st.
        Inr (headers, st))))))"
    by (simp only: read_sections_def Let_def hd(1) tl_enumerate)
  moreover have "yields \<dots> (\<lambda>r. fst r = map stored_header hs \<and> scan_state obj ?k (?n + ?k + 3) (snd r))"
    apply (rule yields_rbind [OF yields_reserve])
    apply (rule yields_rbind [OF yields_rows [OF w]])
    apply (clarsimp simp only: split_paired_all prod.case snd_conv Let_def hd(2) ok rbind_simps)
    apply (simp only: not_True_eq_False if_False)
    apply (rule yields_rbind [OF yields_reserve])
    apply (rule yields_rbind [OF loop [unfolded len]])
    apply simp
    done
  ultimately show ?thesis by simp
qed

subsection \<open>Reading the symbols\<close>

definition raw_of :: "elf64_sym \<Rightarrow> string \<Rightarrow> raw_symbol" where
  "raw_of e nm =
     \<lparr>raw_name = nm, raw_kind = st_info e AND 15, raw_binding = drop_bit 4 (st_info e), raw_visibility = st_other e,
      raw_section = unat (st_shndx e), raw_value = st_value e, raw_size = st_size e\<rparr>"

definition raw_symbols :: "object_file \<Rightarrow> elf64_sym list \<Rightarrow> raw_symbol list" where
  "raw_symbols obj es = raw_of sym_default '''' # map2 raw_of es (map sym_name (ordered_symbols obj))"

lemma symbol_info:
  "drop_bit 4 (push_bit 4 (binding_to_stb b) OR symbol_type k) = binding_to_stb b"
  "(push_bit 4 (binding_to_stb b) OR symbol_type k) AND 15 = symbol_type k"
  by (cases b; cases k; simp)+

lemma first_global_order:
  assumes "j < length (ordered_symbols obj)"
  shows "Suc j < first_global (ordered_symbols obj) \<longleftrightarrow> is_local (ordered_symbols obj ! j)"
proof -
  obtain xs where S: "ordered_symbols obj = filter is_local xs @ filter (\<lambda>s. \<not> is_local s) xs"
    unfolding ordered_symbols_def Let_def by blast
  have "takeWhile is_local (filter (\<lambda>s. \<not> is_local s) xs) = []"
    by (cases "filter (\<lambda>s. \<not> is_local s) xs") (auto simp: filter_eq_Cons_iff)
  moreover have "takeWhile is_local (filter is_local xs @ ys) = filter is_local xs @ takeWhile is_local ys" for ys
    by (rule takeWhile_append2) simp
  ultimately have "takeWhile is_local (ordered_symbols obj) = filter is_local xs" unfolding S by simp
  then have "Suc j < first_global (ordered_symbols obj) \<longleftrightarrow> j < length (filter is_local xs)" by (simp add: first_global_def)
  also have "\<dots> \<longleftrightarrow> is_local (ordered_symbols obj ! j)"
  proof
    assume "j < length (filter is_local xs)"
    then have "ordered_symbols obj ! j \<in> set (filter is_local xs)" unfolding S by (simp add: nth_append del: set_filter)
    then show "is_local (ordered_symbols obj ! j)" by simp
  next
    assume l: "is_local (ordered_symbols obj ! j)"
    show "j < length (filter is_local xs)"
    proof (rule ccontr)
      assume "\<not> j < length (filter is_local xs)"
      then have "ordered_symbols obj ! j \<in> set (filter (\<lambda>s. \<not> is_local s) xs)"
        using assms unfolding S by (auto simp: nth_append simp del: set_filter intro!: nth_mem)
      with l show False by simp
    qed
  qed
  finally show ?thesis .
qed

lemma proper_symbol_names:
  assumes "representable obj" "s \<in> set (ordered_symbols obj)"
  shows "proper_name (sym_name s)"
  using assms(1) ordered_symbols_cases [OF assms(2)]
  by (fastforce simp: representable_def wf_object_def wf_symbol_def wf_relocation_def proper_name_def undefined_global_def)

text \<open>The header of the symbol table and of its strings.\<close>

lemma symtab_written:
  fixes B :: "row list"
  assumes w: "written obj B es index_of strtab names hs shoff out"
  defines "idx \<equiv> Suc (length (obj_sections obj) + length B)"
  shows "chunk out (unat (es_offset (stored_header (hs ! idx)))) (concat (map sym_bytes (sym_default # es)))"
    and "unat (es_size (stored_header (hs ! idx))) = 24 * Suc (length es)"
    and "check_symtab (map stored_header hs) idx (stored_header (hs ! idx)) = Inr (stored_header (hs ! Suc idx))"
    and "unat (es_info (stored_header (hs ! idx))) = first_global (ordered_symbols obj)"
    and "row_at names out (strtab_row ''.strtab'' strtab) (stored_header (hs ! Suc idx))"
proof -
  let ?s = "stored_header (hs ! idx)" and ?rows = "object_rows obj B (sym_default # es) strtab names"
  let ?n = "length (obj_sections obj) + length B"
  have "row_at names out (?rows ! ?n) ?s" unfolding idx_def by (intro written_row [OF w]) (simp add: object_rows_nth(6))
  then have at: "row_at names out (symtab_row idx (first_global (ordered_symbols obj)) (sym_default # es)) ?s"
    by (simp only: object_rows_nth(3) idx_def)
  have "row_at names out (?rows ! Suc ?n) (stored_header (hs ! Suc idx))"
    unfolding idx_def by (intro written_row [OF w]) (simp add: object_rows_nth(6))
  then show str: "row_at names out (strtab_row ''.strtab'' strtab) (stored_header (hs ! Suc idx))"
    by (simp only: object_rows_nth(4))
  note f = row_at_fields [OF at]
  show c: "chunk out (unat (es_offset ?s)) (concat (map sym_bytes (sym_default # es)))"
    and size: "unat (es_size ?s) = 24 * Suc (length es)"
    using at length_concat_fixed [of "sym_default # es" sym_bytes 24]
    by (auto simp: row_at_def symtab_row_def row_header_def sht_symtab_def sht_nobits_def)
  have bounds: "Suc idx < 2 ^ 32" "first_global (ordered_symbols obj) < 2 ^ 32" using w by (simp_all add: written_def idx_def)
  have link: "unat (es_link ?s) = Suc idx"
    using f bounds(1) by (simp add: symtab_row_def unat_of_nat del: of_nat_Suc)
  show "unat (es_info ?s) = first_global (ordered_symbols obj)"
    using f bounds(2) by (simp add: symtab_row_def unat_of_nat)
  have "es_size ?s mod 24 = 0" by (simp add: word_unat_eq_iff unat_mod size)
  moreover have "Suc idx < length hs" using names_header_written(2) [OF w] by (simp add: idx_def)
  moreover have "es_kind (stored_header (hs ! Suc idx)) = 3" using strtab_row_at(1) [OF str] .
  moreover have "es_flags ?s = 0" "es_entry_size ?s = 24" using f by (simp_all add: symtab_row_def shdr_default_def)
  ultimately show "check_symtab (map stored_header hs) idx ?s = Inr (stored_header (hs ! Suc idx))"
    by (simp add: check_symtab_def link Let_def)
qed

lemma symbol_entries:
  assumes "written obj B es index_of strtab names hs shoff out"
  shows "length es = length (ordered_symbols obj)"
    and "j < length es \<Longrightarrow> symbol_entry strtab (ordered_symbols obj ! j) (es ! j)"
  using assms by (auto simp: written_def symbol_state_def list_all2_conv_all_nth)

text \<open>A row of a table of 24-byte records.\<close>

lemma record_chunk:
  assumes "chunk bs (unat (off :: u64)) (concat (map f xs))" "\<forall>x\<in>set xs. length (f x) = 24" "j < length xs" "host_file bs"
  shows "chunk bs (unat (off + of_nat j * 24)) (f (xs ! j))"
proof -
  have c: "chunk bs (unat off + 24 * j) (f (xs ! j))" using chunk_trans [OF assms(1) chunk_concat [OF assms(2,3)]] .
  then have "unat off + 24 * j < 2 ^ 63" using chunk_bound [OF c] assms(4) by (simp add: host_file_def)
  then have "unat (off + of_nat (j * 24)) = unat off + 24 * j" by (subst unat_add_small) simp_all
  with c show ?thesis by simp
qed

lemma yields_raw_symbol:
  assumes w: "written obj B es index_of strtab names hs shoff out" and j: "j < Suc (length es)"
    and st: "fst (snd t) = take j (raw_symbols obj es)"
  defines "idx \<equiv> Suc (length (obj_sections obj) + length B)"
  shows "yields (read_raw_symbol limits (image_view hs shoff out) (stored_header (hs ! idx)) (stored_header (hs ! Suc idx)) j t)
    (\<lambda>r. fst (snd r) = take (Suc j) (raw_symbols obj es))"
proof -
  let ?S = "ordered_symbols obj" and ?sym = "stored_header (hs ! idx)" and ?v = "image_view hs shoff out"
  let ?at = "es_offset ?sym + of_nat j * 24" and ?e = "(sym_default # es) ! j" and ?nm = "('''' # map sym_name ?S) ! j"
  note sy = symtab_written [OF w, folded idx_def]
  have host: "host_file out" using w by (simp add: written_def elf_image_def)
  have c: "chunk out (unat ?at) (sym_bytes ?e)" using record_chunk [OF sy(1) _ _ host, of j] j by simp
  note f = read_field [OF c host]
  note sf = sym_fields [of ?e]
  have fields: "elf_u32 out ?at = Inr (st_name ?e)" "elf_u16 out (?at + 6) = Inr (st_shndx ?e)"
    "elf_u64 out (?at + 8) = Inr (st_value ?e)" "elf_u64 out (?at + 16) = Inr (st_size ?e)"
    using f(2) [OF sf(1)] f(1) [OF sf(3)] f(3) [OF sf(4)] f(3) [OF sf(5)] by simp_all
  have info: "view_range ?v (?at + 4) 2 = Inr [st_info ?e, st_other ?e]"
    using chunk_field [OF c sf(2) host] elf_range_chunk [of out "?at + 4" "[st_info ?e, st_other ?e]" 2] host
    by (simp add: view_range_def image_view_def)
  have row: "view_range ?v ?at 24 = Inr (sym_bytes ?e)"
    using elf_range_chunk [OF c _ host, of 24] by (simp add: view_range_def image_view_def)
  have raw: "raw_symbols obj es ! j = raw_of ?e ?nm" "j < length (raw_symbols obj es)"
    using j symbol_entries(1) [OF w] by (cases j; simp add: raw_symbols_def)+
  have name: "named strtab (unat (st_name ?e)) ?nm" "proper_name ?nm"
  proof -
    have table: "string_table strtab" using w by (simp add: written_def symbol_state_def)
    show "named strtab (unat (st_name ?e)) ?nm"
      using j symbol_entries [OF w] named_empty [OF table]
      by (cases j) (auto simp: sym_default_def symbol_entry_def)
    show "proper_name ?nm"
      using j symbol_entries(1) [OF w] proper_symbol_names [of obj] w proper_literals(4)
      by (cases j) (auto simp: written_def)
  qed
  note sr = strtab_row_at [OF sy(5)]
  have "yields (budget_name limits ?v (stored_header (hs ! Suc idx)) (st_name ?e) b) (\<lambda>r. fst r = ?nm)" for b
    using sr name host by (intro yields_name) (simp_all add: image_view_def)
  note nm = yields_rbind [OF this]
  have check: "(if j = 0 then
        rbind (view_range ?v ?at 24) (\<lambda>row.
        if list_ex (\<lambda>x. x \<noteq> 0) row then Inl (err_at (read_error InvalidSymbol) ?at) else Inr ())
      else if (j < unat (es_info ?sym)) \<noteq> (raw_binding (raw_of ?e ?nm) = 0)
        then Inl (err_at (read_error InvalidSymbol) ?at)
      else Inr ()) = Inr ()"
  proof (cases j)
    case 0
    have "\<not> list_ex (\<lambda>x. x \<noteq> 0) (sym_bytes sym_default)"
      by (simp add: sym_bytes_def sym_default_def zero_bytes list_ex_iff)
    then show ?thesis using row by (simp add: 0)
  next
    case (Suc i)
    then have i: "i < length es" "i < length ?S" using j symbol_entries(1) [OF w] by simp_all
    have "st_info ?e = push_bit 4 (binding_to_stb (sym_binding (?S ! i))) OR symbol_type (sym_kind (?S ! i))"
      using symbol_entries(2) [OF w i(1)] by (simp add: symbol_entry_def Suc)
    then have "raw_binding (raw_of ?e ?nm) = binding_to_stb (sym_binding (?S ! i))"
      by (simp only: raw_of_def raw_symbol.simps symbol_info)
    moreover have "binding_to_stb b = 0 \<longleftrightarrow> b = Local" for b by (cases b) simp_all
    ultimately show ?thesis
      using first_global_order [OF i(2)] sy(4) by (simp add: Suc is_local_def)
  qed
  obtain b raw used where t: "t = (b, raw, used)" by (cases t)
  have bytes: "ev_bytes ?v = out" by (simp add: image_view_def)
  have s: "\<lparr>raw_name = ?nm, raw_kind = [st_info ?e, st_other ?e] ! 0 AND 15, raw_binding = drop_bit 4 ([st_info ?e, st_other ?e] ! 0),
      raw_visibility = [st_info ?e, st_other ?e] ! 1, raw_section = unat (st_shndx ?e), raw_value = st_value ?e, raw_size = st_size ?e\<rparr> =
      raw_of ?e ?nm" by (simp add: raw_of_def)
  show ?thesis
    unfolding read_raw_symbol_def t prod.case Let_def bytes fields rbind_simps info
    apply (rule yields_rbind [OF yields_charge])
    apply (rule nm)
    apply (clarsimp simp only: split_paired_all prod.case fst_conv s check rbind_simps yields_Inr)
    using st raw t by (simp add: take_Suc_conv_app_nth)
qed

lemma yields_raw_symbols:
  assumes w: "written obj B es index_of strtab names hs shoff out"
  defines "idx \<equiv> Suc (length (obj_sections obj) + length B)"
  shows "yields (foldR (read_raw_symbol limits (image_view hs shoff out) (stored_header (hs ! idx)) (stored_header (hs ! Suc idx)))
      [0..<Suc (length es)] (b, [], used)) (\<lambda>r. fst (snd r) = raw_symbols obj es)"
proof -
  have "yields (foldR (read_raw_symbol limits (image_view hs shoff out) (stored_header (hs ! idx)) (stored_header (hs ! Suc idx)))
      [0..<Suc (length es)] (b, [], used)) (\<lambda>r. fst (snd r) = take (Suc (length es)) (raw_symbols obj es))"
    by (rule yields_foldR_upt [where I = "\<lambda>j r. fst (snd r) = take j (raw_symbols obj es)"])
      (simp, simp only: idx_def yields_raw_symbol [OF w])
  moreover have "length (raw_symbols obj es) = Suc (length es)"
    using symbol_entries(1) [OF w] by (simp add: raw_symbols_def)
  ultimately show ?thesis by simp
qed

text \<open>The third loop turns the raw symbols back into the symbols of the object.\<close>

lemma symbol_codes:
  "symbol_binding_of (binding_to_stb b) = Some b"
  "symbol_visibility_of (visibility_to_stv v) = Some v"
  "symbol_kind_of (symbol_type k) = Some k"
  "symbol_type k \<noteq> 3" "symbol_type k \<noteq> 4"
  by (cases b; cases v; cases k;
      simp add: symbol_binding_of_def symbol_visibility_of_def symbol_kind_of_def)+

lemma raw_of_entry:
  assumes "symbol_entry strtab s e"
  shows "raw_of e nm = \<lparr>raw_name = nm, raw_kind = symbol_type (sym_kind s), raw_binding = binding_to_stb (sym_binding s),
    raw_visibility = visibility_to_stv (sym_visibility s), raw_section = section_number s, raw_value = sym_value s,
    raw_size = sym_size s\<rparr>"
proof -
  have "st_info e = push_bit 4 (binding_to_stb (sym_binding s)) OR symbol_type (sym_kind s)"
    using assms by (simp add: symbol_entry_def)
  then show ?thesis using assms by (simp only: raw_of_def symbol_info) (simp add: symbol_entry_def)
qed

definition symbols_state :: "object_file \<Rightarrow> nat \<Rightarrow> symbol_scan \<Rightarrow> bool" where
  "symbols_state obj j st \<longleftrightarrow>
     ys_symbols st = take j (ordered_symbols obj) \<and>
     ys_mapping st = None # map Some [0..<j] @ replicate (length (ordered_symbols obj) - j) None"

definition section_map :: "object_file \<Rightarrow> usize option list \<Rightarrow> bool" where
  "section_map obj m \<longleftrightarrow>
     (\<exists>k. m = None # map Some [0..<length (obj_sections obj)] @ replicate k None)"

lemma section_map_mapped: "section_map obj m \<Longrightarrow> i < length (obj_sections obj) \<Longrightarrow> mapped m (Suc i) = Some i"
  by (auto simp: section_map_def mapped_def nth_append)

lemma symbol_section_range:
  assumes "representable obj" "s \<in> set (ordered_symbols obj)" "sym_section s = Some i"
  shows "i < length (obj_sections obj)"
  using assms(1,3) ordered_symbols_cases [OF assms(2)]
  by (auto simp: representable_def wf_object_def wf_symbol_def undefined_global_def)

lemma yields_scan_symbol:
  assumes rep: "representable obj" and j: "j < length (ordered_symbols obj)"
    and e: "symbol_entry strtab (ordered_symbols obj ! j) e" and m: "section_map obj m" and st: "symbols_state obj j st"
  shows "yields (scan_symbol h limits m used (Suc j, raw_of e (sym_name (ordered_symbols obj ! j))) st)
    (symbols_state obj (Suc j))"
proof -
  let ?s = "ordered_symbols obj ! j" and ?r = "raw_of e (sym_name (ordered_symbols obj ! j))"
  note [simp] = raw_of_entry [OF e] symbol_codes
  have sec: "(if raw_section ?r = 0 then Inr None
      else rbind (ok_or (mapped m (raw_section ?r)) (err_symbol (read_error Unsupported) (raw_name ?r))) (\<lambda>i. Inr (Some i))) = Inr (sym_section ?s)"
    using symbol_section_range [OF rep nth_mem [OF j]] section_map_mapped [OF m]
    by (cases "sym_section ?s") (simp_all add: section_number_def)
  have "yields (plain_symbol h limits m ?r st) (\<lambda>r. fst r = (sym_kind ?s, sym_name ?s, sym_section ?s))"
    unfolding plain_symbol_def sec
    by (auto intro!: yields_rbind [OF yields_own])
  note plain = yields_rbind [OF this [unfolded raw_of_entry [OF e]]]
  have len: "length (ys_symbols st) = j" using st j by (simp add: symbols_state_def)
  have "scan_symbol h limits m used (Suc j, ?r) st =
      rbind (plain_symbol h limits m ?r st) (\<lambda>((kind, nm, sec), b, helpers).
       Inr \<lparr>ys_budget = b,
            ys_symbols = ys_symbols st @
              [\<lparr>sym_kind = kind, sym_name = nm, sym_section = sec, sym_value = sym_value ?s,
                sym_size = sym_size ?s, sym_binding = sym_binding ?s, sym_visibility = sym_visibility ?s\<rparr>],
            ys_mapping = (ys_mapping st)[Suc j := Some j],
            ys_helpers = helpers\<rparr>)"
    by (simp add: scan_symbol_def len cong del: rbind_weak_cong)
  moreover have "symbols_state obj (Suc j) \<lparr>ys_budget = b,
            ys_symbols = ys_symbols st @
              [\<lparr>sym_kind = sym_kind ?s, sym_name = sym_name ?s, sym_section = sym_section ?s, sym_value = sym_value ?s,
                sym_size = sym_size ?s, sym_binding = sym_binding ?s, sym_visibility = sym_visibility ?s\<rparr>],
            ys_mapping = (ys_mapping st)[Suc j := Some j], ys_helpers = helpers\<rparr>" for b helpers
    using st j update_mapping [OF j] by (simp add: symbols_state_def take_Suc_conv_app_nth del: upt_Suc)
  ultimately show ?thesis
    by (auto intro!: plain)
qed

lemma yields_read_symbols:
  assumes w: "written obj B es index_of strtab names hs shoff out" and m: "section_map obj (sc_mapping st)"
  defines "idx \<equiv> Suc (length (obj_sections obj) + length B)"
  shows "yields (read_symbols h limits (image_view hs shoff out) (map stored_header hs) idx st)
    (\<lambda>r. symbols_state obj (length (ordered_symbols obj)) (snd r))"
proof -
  let ?v = "image_view hs shoff out" and ?S = "ordered_symbols obj"
  note sy = symtab_written [OF w, folded idx_def]
  note len = symbol_entries(1) [OF w]
  have rep: "representable obj" using w by (simp add: written_def)
  have "idx < length hs" "Suc idx < length hs" using names_header_written(2) [OF w] by (simp_all add: idx_def)
  then have row: "map stored_header hs ! idx = stored_header (hs ! idx)" by simp
  have count: "unat (es_size (stored_header (hs ! idx)) div 24) = Suc (length es)"
    using sy(2) by (simp add: unat_div)
  have fg: "first_global ?S \<le> Suc (length ?S)" "0 < first_global ?S"
    using length_takeWhile_le [of is_local ?S] by (simp_all add: first_global_def)
  then have info: "es_info (stored_header (hs ! idx)) \<noteq> 0" "\<not> Suc (length es) < unat (es_info (stored_header (hs ! idx)))"
    using sy(4) len by (auto simp: word_unat_eq_iff)
  have raw: "tl (enumerate 0 (raw_symbols obj es)) = enumerate 1 (map2 raw_of es (map sym_name ?S))"
    by (simp add: raw_symbols_def)
  have loop: "yields (foldR (scan_symbol h limits (sc_mapping st) used) (enumerate 1 (map2 raw_of es (map sym_name ?S)))
      \<lparr>ys_budget = b, ys_symbols = [], ys_mapping = replicate (Suc (length es)) None, ys_helpers = {}\<rparr>)
      (symbols_state obj (length ?S))" for b used
  proof -
    have "yields (foldR (scan_symbol h limits (sc_mapping st) used) (enumerate 1 (map2 raw_of es (map sym_name ?S)))
      \<lparr>ys_budget = b, ys_symbols = [], ys_mapping = replicate (Suc (length es)) None, ys_helpers = {}\<rparr>)
      (symbols_state obj (length (map2 raw_of es (map sym_name ?S))))"
    proof (rule yields_foldR_enumerate)
      show "symbols_state obj 0 \<lparr>ys_budget = b, ys_symbols = [], ys_mapping = replicate (Suc (length es)) None, ys_helpers = {}\<rparr>"
        using len by (simp add: symbols_state_def)
    next
      fix j t assume "j < length (map2 raw_of es (map sym_name ?S))" and t: "symbols_state obj j t"
      then have j: "j < length es" "j < length ?S" using len by simp_all
      show "yields (scan_symbol h limits (sc_mapping st) used (1 + j, map2 raw_of es (map sym_name ?S) ! j) t)
          (symbols_state obj (Suc j))"
        using yields_scan_symbol [OF rep j(2) symbol_entries(2) [OF w j(1)] m t] j by simp
    qed
    then show ?thesis using len by simp
  qed
  have body: "yields (rbind (reserve_read h RawSymbols (Suc (length es))) (\<lambda>_.
        rbind (reserve_read h UsedNames (Suc (length es))) (\<lambda>_.
        rbind (foldR (read_raw_symbol limits ?v (stored_header (hs ! idx)) (stored_header (hs ! Suc idx)))
            [0..<Suc (length es)] (sc_budget st, [], {})) (\<lambda>(b, raw, used).
        rbind (reserve_read h SymbolMap (Suc (length es))) (\<lambda>_.
        rbind (foldR (scan_symbol h limits (sc_mapping st) used) (tl (enumerate 0 raw))
                 \<lparr>ys_budget = b, ys_symbols = [], ys_mapping = replicate (Suc (length es)) None, ys_helpers = {}\<rparr>) (\<lambda>ys.
        Inr (Suc (length es), ys)))))))
      (\<lambda>r. symbols_state obj (length ?S) (snd r))"
    apply (rule yields_rbind [OF yields_reserve])+
    apply (rule yields_rbind [OF yields_raw_symbols [OF w, folded idx_def]])
    apply (clarsimp simp only: split_paired_all prod.case fst_conv snd_conv raw)
    apply (rule yields_rbind [OF yields_reserve])
    apply (rule yields_rbind [OF loop])
    apply simp
    done
  show ?thesis
    unfolding read_symbols_def Let_def row sy(3) rbind_simps count
    using info body by (simp del: upt_Suc replicate_Suc)
qed

subsection \<open>Reading the relocations\<close>

lemma amd64_relocation_encoding:
  "reloc_encoding k (target_object_target X86_64WhaleLinux) = Some (code, w) \<Longrightarrow> amd64_relocation code = Some k"
  by (cases k) (auto simp: reloc_encoding_def amd64_relocation_def)

lemma relocation_info:
  fixes code :: u32
  assumes "p < 2 ^ 32"
  shows "unat (drop_bit 32 (push_bit 32 (of_nat p) OR ucast code :: u64)) = p"
    and "(ucast (push_bit 32 (of_nat p) OR ucast code :: u64) :: u32) = code"
proof -
  define q :: u32 where "q = of_nat p"
  have q: "(of_nat p :: u64) = ucast q" using ucast_of_nat_32 [OF assms] by (simp add: q_def)
  have "drop_bit 32 (push_bit 32 (ucast q) OR ucast code :: u64) = ucast q"
    by (rule bit_word_eqI) (auto simp: bit_simps dest: bit_imp_le_length)
  then show "unat (drop_bit 32 (push_bit 32 (of_nat p) OR ucast code :: u64)) = p"
    using assms by (simp only: q) (simp add: q_def unsigned_ucast_eq unat_of_nat take_bit_nat_eq_self)
  show "(ucast (push_bit 32 (of_nat p) OR ucast code :: u64) :: u32) = code"
    by (rule bit_word_eqI) (simp add: bit_simps)
qed

lemma sint_addend: "- (2 ^ 63) \<le> i \<Longrightarrow> i < 2 ^ 63 \<Longrightarrow> sint (word_of_int i :: u64) = i"
  by (simp add: signed_of_int signed_take_bit_int_eq_self)

lemma yields_read_relocation:
  assumes w: "written obj B es index_of strtab names hs shoff out"
    and rows: "chunk out (unat (es_offset s)) (concat (map rela_bytes rs))"
    and g: "list_all2 (rela_entry (obj_target obj) index_of) g rs" "set g \<subseteq> set (obj_relocations obj)" "\<forall>r\<in>set g. rel_section r = i"
    and j: "j < length g" and sym: "symbols_state obj (length (ordered_symbols obj)) ys"
    and t: "snd t = pre @ take j g"
  shows "yields (read_relocation h limits (image_view hs shoff out) (ys_symbols ys) (ys_mapping ys) m s i j t)
    (\<lambda>r. snd r = pre @ take (Suc j) g)"
proof -
  let ?r = "g ! j" and ?e = "rs ! j" and ?S = "ordered_symbols obj"
  let ?at = "es_offset s + of_nat j * 24"
  have host: "host_file out" and rep: "representable obj" using w by (simp_all add: written_def elf_image_def)
  have len: "length rs = length g" using g(1) list_all2_lengthD by fastforce
  have r: "?r \<in> set (obj_relocations obj)" "rel_section ?r = i" using g(2,3) j nth_mem by blast+
  then have target: "obj_target obj = target_object_target X86_64WhaleLinux" and wf: "wf_relocation (obj_target obj) (obj_sections obj) ?r"
    and add: "- (2 ^ 63) \<le> rel_addend ?r" "rel_addend ?r < 2 ^ 63"
    using rep by (auto simp: representable_def wf_object_def)
  have c: "chunk out (unat ?at) (rela_bytes ?e)" using record_chunk [OF rows _ _ host, of j] j len by simp
  obtain p code wd where p: "index_of (rel_symbol ?r) = Some p" "p < 2 ^ 32" "reloc_encoding (rel_kind ?r) (obj_target obj) = Some (code, wd)"
    and e: "?e = \<lparr>r_offset = of_nat (rel_offset ?r), r_info = push_bit 32 (of_nat p) OR ucast code, r_addend = word_of_int (rel_addend ?r)\<rparr>"
    using g(1) j by (auto simp: list_all2_conv_all_nth rela_entry_def)
  note f = read_field(3) [OF c host]
  have fields: "elf_u64 out ?at = Inr (r_offset ?e)" "elf_u64 out (?at + 8) = Inr (r_info ?e)" "elf_i64 out (?at + 16) = Inr (rel_addend ?r)"
    using f [OF rela_fields(1)] f [OF rela_fields(2)] f [OF rela_fields(3)] add by (simp_all add: elf_i64_def e sint_addend)
  have p': "0 < p" "p \<le> length ?S" "sym_name (?S ! (p - 1)) = rel_symbol ?r"
    using w p(1) by (auto simp: written_def symbol_state_def)
  have ys: "ys_symbols ys = ?S" "ys_mapping ys = None # map Some [0..<length ?S]"
    using sym by (simp_all add: symbols_state_def)
  have "mapped (ys_mapping ys) p = Some (p - 1)" using p' by (cases p) (simp_all add: ys mapped_def)
  moreover have "unat (drop_bit 32 (r_info ?e)) = p" "ucast (r_info ?e) = code" unfolding e elf64_rela.simps by (rule relocation_info [OF p(2)])+
  ultimately have lookup: "mapped (ys_mapping ys) (unat (drop_bit 32 (r_info ?e))) = Some (p - 1)"
    "amd64_relocation (ucast (r_info ?e)) = Some (rel_kind ?r)"
    using amd64_relocation_encoding p(3) by (simp_all add: target)
  have off: "unat (r_offset ?e) = rel_offset ?r" using wf by (auto simp: e wf_relocation_def usize_max_def unat_of_nat)
  obtain b relocs where tt: "t = (b, relocs)" by (cases t)
  have bytes: "ev_bytes (image_view hs shoff out) = out" by (simp add: image_view_def)
  have rec: "\<lparr>rel_section = i, rel_offset = rel_offset ?r, rel_symbol = rel_symbol ?r, rel_addend = rel_addend ?r, rel_kind = rel_kind ?r\<rparr> = ?r"
    using r(2) by simp
  show ?thesis
    unfolding read_relocation_def tt prod.case Let_def bytes fields lookup ok_or_simps rbind_simps off
    apply (rule yields_rbind [OF yields_charge])
    apply (rule yields_rbind [OF yields_own])
    apply (clarsimp simp only: split_paired_all prod.case fst_conv ys(1) p'(3) rec yields_Inr)
    using t j tt by (simp add: take_Suc_conv_app_nth)
qed

lemma group_members:
  "(i, g) \<in> set (object_groups obj) \<Longrightarrow> set g \<subseteq> set (obj_relocations obj) \<and> (\<forall>r\<in>set g. rel_section r = i)"
  using groups_in_range [of i g obj] by (auto simp: relocations_of_def)

text \<open>The relocations in the order of the file: section by section.\<close>

definition grouped :: "object_file \<Rightarrow> nat \<Rightarrow> object_relocation list" where
  "grouped obj j = concat (map snd (take j (object_groups obj)))"

lemma yields_scan_relocations:
  assumes w: "written obj B es index_of strtab names hs shoff out" and j: "j < length B"
    and sym: "symbols_state obj (length (ordered_symbols obj)) ys" and m: "section_map obj m"
    and t: "snd (snd t) = grouped obj j"
  defines "idx \<equiv> Suc (length (obj_sections obj) + length B)"
  defines "row \<equiv> Suc (length (obj_sections obj) + j)"
  shows "yields (scan_relocations h limits (image_view hs shoff out) idx m (ys_symbols ys) (ys_mapping ys)
      (row, stored_header (hs ! row)) t) (\<lambda>r. snd (snd r) = grouped obj (Suc j))"
proof -
  let ?s = "stored_header (hs ! row)" and ?v = "image_view hs shoff out" and ?n = "length (obj_sections obj)"
  obtain i g where ig: "object_groups obj ! j = (i, g)" by (cases "object_groups obj ! j")
  note rg = rela_row_group [OF w j, unfolded ig]
  note gm = group_members [OF rg(3)] groups_in_range [OF rg(3)]
  note rr = rela_row_fields [OF rg(1)]
  obtain rs where rs: "list_all2 (rela_entry (obj_target obj) index_of) g rs" "snd (snd (B ! j)) = Some (concat (map rela_bytes rs))"
    using rr(8) by blast
  have at: "row_at names out (link_row (of_nat idx) (B ! j)) ?s"
    using written_row [OF w, of "?n + j"] j by (simp add: object_rows_nth idx_def row_def)
  note f = row_at_fields [OF at]
  have chunk: "chunk out (unat (es_offset ?s)) (concat (map rela_bytes rs))"
    using at rr(1) rs(2) by (cases "B ! j") (auto simp: row_at_def link_row_def row_header_def sht_nobits_def)
  have size: "unat (es_size ?s) = 24 * length g"
  proof -
    have "es_size ?s = of_nat (24 * length g)" using f rr(5) by simp
    then show ?thesis using rr(7) by (simp only: unat_of_nat) simp
  qed
  have "es_size ?s mod 24 = 0" by (simp add: word_unat_eq_iff unat_mod size)
  moreover have count: "unat (es_size ?s div 24) = length g" by (simp add: unat_div size)
  moreover have "Suc (length (obj_sections obj) + length B) < 2 ^ 32" using w by (simp add: written_def)
  then have "unat (es_link ?s) = idx" using f by (simp add: idx_def unat_of_nat del: of_nat_Suc)
  moreover have "unat (es_info ?s) = Suc i" using f rr(3,6) by (simp add: unat_of_nat del: of_nat_Suc)
  moreover have "es_entry_size ?s = 24" using f rr(4) by simp
  moreover have "mapped m (Suc i) = Some i" using section_map_mapped [OF m] gm by blast
  moreover obtain b total relocs where tt: "t = (b, total, relocs)" by (cases t)
  ultimately have scan: "scan_relocations h limits ?v idx m (ys_symbols ys) (ys_mapping ys) (row, ?s) t =
       rbind (ok_or (usize_add total (length g)) (read_limit Relocations)) (\<lambda>total.
       if max_relocations limits < total then Inl (read_limit Relocations)
       else
         rbind (reserve_read h (RelocationRows row) (length g)) (\<lambda>_.
         rbind (foldR (read_relocation h limits ?v (ys_symbols ys) (ys_mapping ys) row ?s i) [0..<length g] (b, relocs))
           (\<lambda>(b, relocs).
         Inr (b, total, relocs))))"
    by (simp add: scan_relocations_def Let_def cong del: rbind_weak_cong)
  have "yields (foldR (read_relocation h limits ?v (ys_symbols ys) (ys_mapping ys) row ?s i) [0..<length g] (b, relocs))
      (\<lambda>r. snd r = grouped obj j @ take (length g) g)"
    by (rule yields_foldR_upt [where I = "\<lambda>k r. snd r = grouped obj j @ take k g"])
      (use t tt in simp, use yields_read_relocation [OF w chunk rs(1) _ _ _ sym] gm in blast)
  note loop = yields_rbind [OF this]
  have next_group: "grouped obj (Suc j) = grouped obj j @ g"
    using rg(2) ig by (simp add: grouped_def take_Suc_conv_app_nth)
  have total: "yields (ok_or (usize_add total (length g)) (read_limit Relocations)) (\<lambda>_. True)"
    by (auto simp: ok_or_def split: option.split)
  show ?thesis
    unfolding scan
    by (auto simp: next_group intro!: yields_rbind [OF total] yields_rbind [OF yields_reserve] loop)
qed

text \<open>The relocation sections of the file are the rows after the sections of the object.\<close>

lemma row_kinds:
  assumes w: "written obj B es index_of strtab names hs shoff out" and i: "i < length hs"
  shows "es_kind (stored_header (hs ! i)) = 4 \<longleftrightarrow>
    Suc (length (obj_sections obj)) \<le> i \<and> i < Suc (length (obj_sections obj) + length B)"
proof (cases i)
  case 0
  have "hs ! 0 = shdr_default" using w by (simp add: written_def elf_image_def)
  then show ?thesis by (simp add: 0 stored_header_def shdr_default_def)
next
  case (Suc r)
  let ?rows = "object_rows obj B (sym_default # es) strtab names"
  have r: "r < length ?rows" using i names_header_written(2) [OF w] by (simp add: Suc object_rows_nth(6))
  note f = row_at_fields [OF written_row [OF w r]]
  from r show ?thesis
  proof (cases rule: row_cases)
    case 1
    then show ?thesis using f by (simp add: Suc object_rows_nth section_row_def section_type_payload)
  next
    case (2 j)
    obtain m g where g: "object_groups obj ! j = (m, g)" by (cases "object_groups obj ! j")
    have "rela_row obj index_of (m, g) (B ! j)" using rela_row_group(1) [OF w 2(2)] g by simp
    from rela_row_fields(1) [OF this] f 2 show ?thesis by (simp add: Suc object_rows_nth)
  qed (use f in \<open>simp_all add: Suc object_rows_nth symtab_row_def strtab_row_def sht_symtab_def sht_strtab_def\<close>)
qed

lemma relocation_rows:
  assumes w: "written obj B es index_of strtab names hs shoff out"
  shows "filter (\<lambda>(_, s). es_kind s = 4) (enumerate 0 (map stored_header hs)) =
    map (\<lambda>j. (Suc (length (obj_sections obj) + j), stored_header (hs ! Suc (length (obj_sections obj) + j)))) [0..<length B]"
proof -
  let ?n = "length (obj_sections obj)" and ?k = "length B" and ?f = "\<lambda>i. (i, stored_header (hs ! i))"
  have len: "length hs = ?n + ?k + 4" using names_header_written(2) [OF w] .
  have "enumerate 0 (map stored_header hs) = map ?f [0..<length hs]"
    by (rule nth_equalityI) (simp_all add: nth_enumerate_eq)
  then have "filter (\<lambda>(_, s). es_kind s = 4) (enumerate 0 (map stored_header hs)) =
      map ?f (filter (\<lambda>i. es_kind (stored_header (hs ! i)) = 4) [0..<length hs])"
    by (simp add: filter_map o_def)
  also have "filter (\<lambda>i. es_kind (stored_header (hs ! i)) = 4) [0..<length hs] =
      filter (\<lambda>i. Suc ?n \<le> i \<and> i < Suc (?n + ?k)) [0..<length hs]"
    using row_kinds [OF w] by (intro filter_cong) simp_all
  also have "[0..<length hs] = [0..<Suc ?n] @ [Suc ?n..<Suc (?n + ?k)] @ [Suc (?n + ?k)..<length hs]"
  proof -
    have split: "[a..<c] = [a..<b] @ [b..<c]" if "a \<le> b" "b \<le> c" for a b c :: nat
      using upt_add_eq_append [OF that(1), of "c - b"] that by simp
    have b: "Suc ?n \<le> length hs" "Suc (?n + ?k) \<le> length hs" using len by simp_all
    have "Suc ?n \<le> Suc (?n + ?k)" by simp
    from split [OF this b(2)] show ?thesis by (simp only: split [OF le0 b(1)])
  qed
  also have "filter (\<lambda>i. Suc ?n \<le> i \<and> i < Suc (?n + ?k)) \<dots> = [Suc ?n..<Suc (?n + ?k)]"
  proof -
    have "filter (\<lambda>i. Suc ?n \<le> i \<and> i < Suc (?n + ?k)) [0..<Suc ?n] = []" by (auto simp: filter_empty_conv simp del: upt_Suc)
    moreover have "filter (\<lambda>i. Suc ?n \<le> i \<and> i < Suc (?n + ?k)) [Suc (?n + ?k)..<length hs] = []"
      by (auto simp: filter_empty_conv simp del: upt_Suc)
    moreover have "filter (\<lambda>i. Suc ?n \<le> i \<and> i < Suc (?n + ?k)) [Suc ?n..<Suc (?n + ?k)] = [Suc ?n..<Suc (?n + ?k)]"
      by (auto simp: filter_id_conv simp del: upt_Suc)
    ultimately show ?thesis by (simp only: filter_append append_Nil append_Nil2)
  qed
  also have "\<dots> = map (\<lambda>j. Suc (?n + j)) [0..<?k]"
    by (rule nth_equalityI) (simp_all del: upt_Suc)
  finally show ?thesis by (simp add: o_def)
qed

lemma yields_relocation_rows:
  assumes w: "written obj B es index_of strtab names hs shoff out"
    and sym: "symbols_state obj (length (ordered_symbols obj)) ys" and m: "section_map obj m"
  shows "yields (foldR (scan_relocations h limits (image_view hs shoff out) (Suc (length (obj_sections obj) + length B)) m
        (ys_symbols ys) (ys_mapping ys)) (filter (\<lambda>(_, s). es_kind s = 4) (enumerate 0 (map stored_header hs))) (b, count, []))
    (\<lambda>r. snd (snd r) = concat (map snd (object_groups obj)))"
proof -
  let ?row = "\<lambda>j. (Suc (length (obj_sections obj) + j), stored_header (hs ! Suc (length (obj_sections obj) + j)))"
  let ?f = "scan_relocations h limits (image_view hs shoff out) (Suc (length (obj_sections obj) + length B)) m (ys_symbols ys) (ys_mapping ys)"
  have "yields (foldR ?f (map ?row [0..<length B]) (b, count, []))
      (\<lambda>r. snd (snd r) = grouped obj (length (map ?row [0..<length B])))"
  proof (rule yields_foldR)
    fix j and t :: "read_budget \<times> usize \<times> object_relocation list"
    assume "j < length (map ?row [0..<length B])" and t: "snd (snd t) = grouped obj j"
    then have j: "j < length B" by simp
    from yields_scan_relocations [OF w j sym m t] j
    show "yields (?f (map ?row [0..<length B] ! j) t) (\<lambda>r. snd (snd r) = grouped obj (Suc j))" by simp
  qed (simp add: grouped_def)
  moreover have "length B = length (object_groups obj)"
    using w list_all2_lengthD by (fastforce simp: written_def)
  ultimately show ?thesis by (simp add: relocation_rows [OF w] grouped_def)
qed

subsection \<open>The object that is read\<close>

text \<open>Reading a written object gives its sections with the uninitialised ones as sizes, its
  symbols with the undefined ones of its relocations, local symbols first, and its relocations
  grouped by section.\<close>

definition stored_object :: "object_file \<Rightarrow> object_file" where
  "stored_object obj =
     obj\<lparr>obj_sections := map stored_section (obj_sections obj), obj_symbols := ordered_symbols obj,
         obj_relocations := concat (map snd (object_groups obj))\<rparr>"

lemma distinct_add_referenced:
  "distinct (map sym_name (add_referenced rs names)) \<and> sym_name ` set (add_referenced rs names) \<inter> names = {}"
  by (induction rs names rule: add_referenced.induct) (auto simp: undefined_global_def)

lemma distinct_ordered:
  assumes "distinct (map sym_name (obj_symbols obj))"
  shows "distinct (map sym_name (ordered_symbols obj))"
proof -
  let ?xs = "obj_symbols obj @ add_referenced (obj_relocations obj) (sym_name ` set (obj_symbols obj))"
  have d: "distinct (map sym_name ?xs)"
    using assms distinct_add_referenced [of "obj_relocations obj" "sym_name ` set (obj_symbols obj)"]
    by (simp add: Int_commute)
  then have "distinct ?xs \<and> inj_on sym_name (set ?xs)" by (simp only: distinct_map)
  then show ?thesis
    unfolding ordered_symbols_def Let_def distinct_map
    by (auto intro: inj_on_subset distinct_filter)
qed

lemma section_extent_stored:
  assumes "wf_section s"
  shows "section_extent (stored_section s) = section_extent s"
proof -
  have "unat (len64 (sec_data s) + sec_zero_fill s) = unat (len64 (sec_data s)) + unat (sec_zero_fill s)"
    using assms by (intro unat_add_no_overflow) (simp add: wf_section_def)
  then show ?thesis using assms by (auto simp: section_extent_def stored_section_def wf_section_def len64_def)
qed

lemma wf_stored_section:
  assumes "wf_section s"
  shows "wf_section (stored_section s)"
proof -
  have "unat (len64 (sec_data s) + sec_zero_fill s) = unat (len64 (sec_data s)) + unat (sec_zero_fill s)"
    using assms by (intro unat_add_no_overflow) (simp add: wf_section_def)
  moreover have "\<exists>n<64. max (sec_align s) 1 = 2 ^ n"
    using alignment_stored [OF assms] by (auto simp: is_power_of_two_iff)
  ultimately show ?thesis
    using assms by (auto simp: wf_section_def stored_section_def len64_def)
qed

lemma wf_stored_object:
  assumes "representable obj"
  shows "wf_object (stored_object obj)"
proof -
  have wf: "wf_object obj" using assms by (simp add: representable_def)
  then have ext: "section_extent (stored_section (obj_sections obj ! i)) = section_extent (obj_sections obj ! i)"
    if "i < length (obj_sections obj)" for i
    using that by (auto simp: wf_object_def intro!: section_extent_stored)
  have "wf_symbol (map stored_section (obj_sections obj)) s" if "s \<in> set (ordered_symbols obj)" for s
    using ordered_symbols_cases [OF that] wf ext
    by (fastforce simp: wf_object_def wf_symbol_def wf_relocation_def undefined_global_def)
  moreover have "wf_relocation (obj_target obj) (map stored_section (obj_sections obj)) r"
    if "(i, g) \<in> set (object_groups obj)" "r \<in> set g" for i g r
  proof -
    have "r \<in> set (obj_relocations obj)" using group_members [OF that(1)] that(2) by auto
    then show ?thesis using wf by (auto simp: wf_object_def wf_relocation_def stored_section_def)
  qed
  moreover have "distinct (map sym_name (ordered_symbols obj))" using wf by (intro distinct_ordered) (simp add: wf_object_def)
  ultimately show ?thesis
    using wf wf_stored_section by (fastforce simp: wf_object_def stored_object_def)
qed

lemma scan_state_final:
  assumes "scan_state obj k (length (obj_sections obj) + k + 3) st"
  shows "sc_sections st = map stored_section (obj_sections obj)" "section_map obj (sc_mapping st)"
    "sc_symtab st = Some (Suc (length (obj_sections obj) + k))"
  using assms by (auto simp: scan_state_def section_map_def Let_def)

lemma yields_read_elf:
  assumes w: "written obj B es index_of strtab names hs shoff out"
  shows "yields (read_elf rh out limits) (\<lambda>obj'. obj' = stored_object obj)"
proof -
  let ?v = "image_view hs shoff out" and ?n = "length (obj_sections obj)" and ?k = "length B" and ?S = "ordered_symbols obj"
  have rep: "representable obj" and im: "elf_image (object_rows obj B (sym_default # es) strtab names) names hs shoff out"
    using w by (simp_all add: written_def)
  then have target: "obj_target obj = target_object_target X86_64WhaleLinux" by (simp add: representable_def)
  have rows: "3 \<le> length (object_rows obj B (sym_default # es) strtab names)" by (simp add: object_rows_nth(6))
  have rel: "check_relocatable (ev_header ?v) = Inr ()"
    using names_header_written(2) [OF w] by (simp add: check_relocatable_def image_view_def image_header_def)
  have final: "validate_diagnostic (stored_object obj) = Inr ()"
    using wf_stored_object [OF rep] by (simp only: validate_diagnostic_wf)
  have obj: "(object_with_target (target_object_target X86_64WhaleLinux))
      \<lparr>obj_sections := map stored_section (obj_sections obj), obj_symbols := ?S, obj_relocations := concat (map snd (object_groups obj))\<rparr> = stored_object obj"
    using target by (cases obj) (simp add: stored_object_def object_with_target_def)
  have body: "yields (rbind (foldR (scan_relocations h limits ?v (Suc (?n + ?k)) m (ys_symbols ys) (ys_mapping ys))
        (filter (\<lambda>(_, s). es_kind s = 4) (enumerate 0 (map stored_header hs))) (ys_budget ys, 0, [])) (\<lambda>(b, total, relocs).
      let obj = (object_with_target (target_object_target X86_64WhaleLinux))
                 \<lparr>obj_sections := map stored_section (obj_sections obj), obj_symbols := ys_symbols ys, obj_relocations := relocs\<rparr> in
      rbind (validate_diagnostic obj) (\<lambda>_. Inr (obj, usage b total)))) (\<lambda>r. fst r = stored_object obj)"
    if "symbols_state obj (length ?S) ys" "section_map obj m" for ys m h and usage :: "read_budget \<Rightarrow> usize \<Rightarrow> object_read_usage"
  proof -
    have ys: "ys_symbols ys = ?S" using that(1) by (simp add: symbols_state_def)
    show ?thesis
      apply (rule yields_rbind [OF yields_relocation_rows [OF w that]])
      apply (clarsimp simp only: split_paired_all prod.case snd_conv Let_def ys obj final rbind_simps yields_Inr fst_conv)
      done
  qed
  have usage: "yields (read_elf_with_usage rh out limits) (\<lambda>r. fst r = stored_object obj)"
    unfolding read_elf_with_usage_def
    apply (rule yields_rbind [OF view_parse_image [OF im rows]])
    apply (clarsimp simp only: rel rbind_simps)
    apply (rule yields_rbind [OF yields_read_sections [OF w]])
    apply (clarsimp simp only: split_paired_all prod.case fst_conv snd_conv)
    apply (simp only: scan_state_final(1,3) ok_or_simps rbind_simps)
    apply (rule yields_rbind [OF yields_read_symbols [OF w]])
     apply (erule scan_state_final(2))
    apply (clarsimp simp only: split_paired_all prod.case fst_conv snd_conv)
    apply (erule body)
    apply (erule scan_state_final(2))
    done
  show ?thesis
    unfolding read_elf_def by (rule yields_rbind [OF usage]) auto
qed

lemma concat_nonempty: "concat (map f (filter (\<lambda>x. f x \<noteq> []) xs)) = concat (map f xs)"
  by (induction xs) auto

lemma object_groups_concat:
  "concat (map snd (object_groups obj)) =
     concat (map (relocations_of (obj_relocations obj)) [0..<length (obj_sections obj)])"
  by (simp add: object_groups_filter o_def concat_nonempty)

subsection \<open>A sample file\<close>

definition sample_elf_host :: elf_host where
  "sample_elf_host = \<lparr>eh_grants = (\<lambda>_. True), eh_sym_build_size = 56\<rparr>"

definition sample_elf_object :: object_file where
  "sample_elf_object =
     \<lparr>obj_target = target_object_target X86_64WhaleLinux,
      obj_sections = [\<lparr>sec_name = ''t'', sec_kind = Text, sec_data = [0xe8, 0, 0, 0, 0], sec_zero_fill = 0, sec_align = 1\<rparr>],
      obj_symbols = [],
      obj_relocations = [\<lparr>rel_section = 0, rel_offset = 1, rel_symbol = ''f'', rel_addend = - 4, rel_kind = PLT32\<rparr>]\<rparr>"

definition sample_elf_file :: bytes where
  "sample_elf_file =
    [127, 69, 76, 70, 2, 1, 1, 0, 0, 0, 0, 0, 0, 0, 0, 0, 1, 0, 62, 0, 1, 0, 0, 0, 0, 0, 0, 0,
     0, 0, 0, 0, 0, 0, 0, 0, 0, 0, 0, 0, 184, 0, 0, 0, 0, 0, 0, 0, 0, 0, 0, 0, 64, 0, 0, 0, 0,
     0, 64, 0, 6, 0, 5, 0, 232, 0, 0, 0, 0, 0, 0, 0, 1, 0, 0, 0, 0, 0, 0, 0, 4, 0, 0, 0, 1, 0,
     0, 0, 252, 255, 255, 255, 255, 255, 255, 255, 0, 0, 0, 0, 0, 0, 0, 0, 0, 0, 0, 0, 0, 0, 0,
     0, 0, 0, 0, 0, 0, 0, 0, 0, 1, 0, 0, 0, 16, 0, 0, 0, 0, 0, 0, 0, 0, 0, 0, 0, 0, 0, 0, 0, 0,
     0, 0, 0, 0, 102, 0, 0, 116, 0, 46, 114, 101, 108, 97, 116, 0, 46, 115, 121, 109, 116, 97,
     98, 0, 46, 115, 116, 114, 116, 97, 98, 0, 46, 115, 104, 115, 116, 114, 116, 97, 98, 0, 0,
     0, 0, 0, 0, 0, 0, 0, 0, 0, 0, 0, 0, 0, 0, 0, 0, 0, 0, 0, 0, 0, 0, 0, 0, 0, 0, 0, 0, 0, 0,
     0, 0, 0, 0, 0, 0, 0, 0, 0, 0, 0, 0, 0, 0, 0, 0, 0, 0, 0, 0, 0, 0, 0, 0, 0, 0, 0, 0, 0, 0,
     0, 0, 0, 0, 1, 0, 0, 0, 1, 0, 0, 0, 6, 0, 0, 0, 0, 0, 0, 0, 0, 0, 0, 0, 0, 0, 0, 0, 64, 0,
     0, 0, 0, 0, 0, 0, 5, 0, 0, 0, 0, 0, 0, 0, 0, 0, 0, 0, 0, 0, 0, 0, 1, 0, 0, 0, 0, 0, 0, 0,
     0, 0, 0, 0, 0, 0, 0, 0, 3, 0, 0, 0, 4, 0, 0, 0, 64, 0, 0, 0, 0, 0, 0, 0, 0, 0, 0, 0, 0, 0,
     0, 0, 72, 0, 0, 0, 0, 0, 0, 0, 24, 0, 0, 0, 0, 0, 0, 0, 3, 0, 0, 0, 1, 0, 0, 0, 8, 0, 0, 0,
     0, 0, 0, 0, 24, 0, 0, 0, 0, 0, 0, 0, 10, 0, 0, 0, 2, 0, 0, 0, 0, 0, 0, 0, 0, 0, 0, 0, 0, 0,
     0, 0, 0, 0, 0, 0, 96, 0, 0, 0, 0, 0, 0, 0, 48, 0, 0, 0, 0, 0, 0, 0, 4, 0, 0, 0, 1, 0, 0, 0,
     8, 0, 0, 0, 0, 0, 0, 0, 24, 0, 0, 0, 0, 0, 0, 0, 18, 0, 0, 0, 3, 0, 0, 0, 0, 0, 0, 0, 0, 0,
     0, 0, 0, 0, 0, 0, 0, 0, 0, 0, 144, 0, 0, 0, 0, 0, 0, 0, 3, 0, 0, 0, 0, 0, 0, 0, 0, 0, 0, 0,
     0, 0, 0, 0, 1, 0, 0, 0, 0, 0, 0, 0, 0, 0, 0, 0, 0, 0, 0, 0, 26, 0, 0, 0, 3, 0, 0, 0, 0, 0,
     0, 0, 0, 0, 0, 0, 0, 0, 0, 0, 0, 0, 0, 0, 147, 0, 0, 0, 0, 0, 0, 0, 36, 0, 0, 0, 0, 0, 0,
     0, 0, 0, 0, 0, 0, 0, 0, 0, 1, 0, 0, 0, 0, 0, 0, 0, 0, 0, 0, 0, 0, 0, 0, 0]"

lemmas elf_write_eval =
  sample_elf_host_def sample_elf_object_def preflight_def count_relocation_def checked_section_count_def
  preflight_section_def preflight_name_def preflight_relocations_def checked_u32_def checked_u16_def
  checked_name_end_def checked_output_size_def checked_table_bytes_def elf_align_up_def write_section_def
  push_name_def reserve_elf_def push_table_def section_type_and_flags_def build_tables_def shdr_default_def
  sht_progbits_def sht_nobits_def ordered_symbols_def is_local_def write_symbol_def undefined_global_def
  symbol_section_index_def sym_default_def group_relocation_def write_relocations_def write_relocation_def
  finish_tables_def first_global_def set_link_def sht_symtab_def sht_strtab_def sht_rela_def rela_bytes_def
  sym_bytes_def write_elf_checked_def elf_machine_def emit_tables_def place_header_def pad_zero_def
  emit_payload_def rel_header_def header_bytes_def shdr_bytes_def elf_flags_def exec_simps ensure_def lit_def

lemma sample_elf_written: "write_elf_checked sample_elf_host sample_elf_object 100000 = Inr sample_elf_file"
  by (simp add: elf_write_eval sample_elf_file_def to_le_bytes_def upt_rec Let_def) (simp add: numeral_3_eq_3)

lemmas elf_read_eval =
  read_elf_def read_elf_with_usage_def view_parse_def check_identification_def elf_u16_def elf_u32_def
  elf_u64_def elf_i64_def elf_range_def slice_def read_elf_header_def check_elf_header_def elf_table_def
  default_read_limits_def check_relocatable_def read_sections_def reserve_read_def read_row_def
  budget_charge_def view_section_def row_offset_def check_row_def view_range_def scan_section_def
  read_payload_def budget_payload_def budget_own_def budget_strings_def budget_name_def is_string_table_def
  position_def read_symbols_def check_symtab_def read_raw_symbol_def scan_symbol_def plain_symbol_def
  symbol_binding_of_def symbol_kind_of_def symbol_visibility_of_def mapped_def scan_relocations_def
  read_relocation_def amd64_relocation_def object_with_target_def usize_max_def str_of_def exec_simps lit_def
  undefined_global_def

lemma sample_letters: "char_of (102 :: nat) = CHR ''f''" "char_of (116 :: nat) = CHR ''t''"
  by (simp_all add: char_of_def drop_bit_eq_div bit_0)

lemma sample_elf_read:
  "read_elf (\<lambda>_. True) sample_elf_file default_read_limits =
     Inr (sample_elf_object\<lparr>obj_symbols := [undefined_global ''f'']\<rparr>)"
  by (simp add: sample_elf_file_def sample_elf_object_def elf_read_eval Let_def upt_rec word_le_nat_alt sample_letters)

lemma sample_elf_representable: "representable sample_elf_object"
proof -
  have "validate_diagnostic sample_elf_object = Inr ()" by (simp add: sample_elf_object_def exec_simps)
  then show ?thesis by (simp add: representable_def validate_diagnostic_wf) (simp add: sample_elf_object_def lit_def)
qed

subsection \<open>Properties\<close>



text \<open>The file that the writer returns is no longer than the byte limit that it was given.\<close>

theorem elf_output_bounded:
  assumes "write_elf_checked h obj limit = Inr out" "representable obj"
  shows "length out \<le> unat limit"
  using build_and_emit(2) [OF assms] .

theorem elf_output_bounded_witness:
  "\<exists>out. write_elf_checked sample_elf_host sample_elf_object 100000 = Inr out \<and> length out \<le> 100000"
  using elf_output_bounded [OF sample_elf_written sample_elf_representable] sample_elf_written by simp

end
