(* ===== verification/ElfSafety.thy ===== *)
theory ElfSafety
  imports ElfRoundTrip
begin

text \<open>
  What the writer and the reader never do.  No input makes the writer panic: validation comes
  before every step that indexes or expects.  Every object the reader returns is well formed,
  and what it reports to have used, which the linker subtracts from its budget, is within the
  limits it was given and accounts for the data it stored.
\<close>

subsection \<open>The writer does not panic\<close>

definition no_panic :: "write_failure + 'a \<Rightarrow> bool" where
  "no_panic m \<longleftrightarrow> m \<noteq> Inl WritePanic"

lemma no_panic_Inr [simp]: "no_panic (Inr x)"
  by (simp add: no_panic_def)

lemma no_panic_error [simp]: "no_panic (Inl (write_error k))" "no_panic (Inl (WriteError e))" "no_panic (Inl output_limit)"
  by (simp_all add: no_panic_def write_error_def output_limit_def)

lemma no_panic_rbind: "no_panic m \<Longrightarrow> (\<And>x. m = Inr x \<Longrightarrow> no_panic (f x)) \<Longrightarrow> no_panic (rbind m f)"
  by (cases m) (auto simp: no_panic_def)

lemma no_panic_ok_or [simp]: "no_panic (ok_or x (write_error k))"
  by (cases x) simp_all

lemma no_panic_reserve [simp]: "no_panic (reserve_elf h a)"
  by (simp add: reserve_elf_def ensure_def)

lemma no_panic_map_err [simp]: "no_panic (map_err (\<lambda>_. write_error k) m)" "no_panic (map_err WriteError m')"
  by (cases m; cases m'; simp)+

lemma no_panic_foldR:
  assumes "I s" "\<And>x t. x \<in> set xs \<Longrightarrow> I t \<Longrightarrow> no_panic (f x t) \<and> (\<forall>t'. f x t = Inr t' \<longrightarrow> I t')"
  shows "no_panic (foldR f xs s)"
  using assms
proof (induction xs arbitrary: s)
  case (Cons x xs)
  then show ?case by (cases "f x s") (auto simp: no_panic_def)
qed simp

lemmas no_panic_loop = no_panic_foldR [where I = "\<lambda>_. True", OF TrueI]

lemma no_panic_sizes [simp]:
  "no_panic (elf_align_up v a)" "no_panic (checked_u32 n)" "no_panic (checked_u16 n)"
  "no_panic (checked_output_size w limit)"
  by (simp_all add: elf_align_up_def checked_u32_def checked_u16_def checked_output_size_def)

lemma no_panic_counts [simp]:
  "no_panic (checked_section_count n r)" "no_panic (checked_table_bytes count stride limit)"
  "no_panic (checked_name_end current k)" "no_panic (push_name h f table nm)"
  by (auto simp: checked_section_count_def checked_table_bytes_def checked_name_end_def push_name_def
      intro!: no_panic_rbind)

lemma no_panic_preflight_steps [simp]:
  "no_panic (count_relocation n r counts)" "no_panic (preflight_section counts limit x st)"
  "no_panic (preflight_name limit nm st')" "no_panic (preflight_relocations counts limit i off)"
  by (auto simp: count_relocation_def preflight_section_def preflight_name_def preflight_relocations_def
      split: prod.splits option.splits intro!: no_panic_rbind)

lemma no_panic_preflight [simp]: "no_panic (preflight h obj limit)"
  unfolding preflight_def
  by (intro no_panic_rbind no_panic_loop) (auto split: prod.splits intro!: no_panic_rbind no_panic_loop)

lemma no_panic_write_section: "wf_section s \<Longrightarrow> no_panic (write_section h s t)"
proof -
  assume "wf_section s"
  then have "\<exists>n. memory_size s = Inr n"
    by (auto simp: memory_size_def wf_section_def checked_add_def list_ex_iff)
  then show ?thesis
    unfolding write_section_def Let_def by (auto split: prod.splits intro!: no_panic_rbind)
qed

lemma no_panic_write_symbol [simp]: "no_panic (write_symbol h indices s st)"
  by (auto simp: write_symbol_def split: prod.splits intro!: no_panic_rbind)

lemma no_panic_groups:
  assumes "\<forall>r\<in>set relocs. rel_section r < n"
  shows "no_panic (foldR group_relocation relocs (replicate n []))"
  by (rule no_panic_foldR [where I = "\<lambda>gs. length gs = n"]) (use assms in \<open>auto simp: group_relocation_def\<close>)

lemma no_panic_write_relocations [simp]: "no_panic (write_relocations h obj indices index_of limit x st)"
  unfolding write_relocations_def write_relocation_def
  by (auto split: prod.splits intro!: no_panic_rbind no_panic_loop)

lemma no_panic_finish [simp]: "no_panic (finish_tables h symbols limit strtab syms relas t)"
  unfolding finish_tables_def Let_def
  by (auto split: prod.splits intro!: no_panic_rbind no_panic_loop)

lemma no_panic_emit [simp]: "no_panic (emit_tables h target machine n r limit t)"
  unfolding emit_tables_def place_header_def Let_def
  by (auto split: prod.splits intro!: no_panic_rbind no_panic_loop)

lemma no_panic_build:
  assumes "wf_object obj"
  shows "no_panic (build_tables h obj limit)"
proof -
  have sections: "no_panic (foldR (write_section h) (obj_sections obj) t)" for t
    using assms by (intro no_panic_loop) (auto simp: wf_object_def no_panic_write_section)
  have groups: "no_panic (foldR group_relocation (obj_relocations obj) (replicate (length (obj_sections obj)) []))"
    using assms by (intro no_panic_groups) (auto simp: wf_object_def wf_relocation_def)
  have symbols: "no_panic (foldR (write_symbol h indices) symbols st)" for indices symbols st
    by (intro no_panic_loop) simp
  have relocations: "no_panic (foldR (write_relocations h obj indices index_of limit) gs st)" for indices index_of gs st
    by (intro no_panic_loop) simp
  show ?thesis
    unfolding build_tables_def Let_def
    by (auto split: prod.splits intro!: no_panic_rbind [OF sections] no_panic_rbind [OF groups]
        no_panic_rbind [OF symbols] no_panic_rbind [OF relocations] no_panic_rbind [OF no_panic_ok_or]
        no_panic_rbind [OF no_panic_sizes(2)] no_panic_rbind [OF no_panic_counts(2)] no_panic_rbind [OF no_panic_reserve])
qed

lemma no_panic_write: "no_panic (write_elf_checked h obj limit)"
  unfolding write_elf_checked_def Let_def
  by (intro no_panic_rbind) (auto simp: map_err_eq_Inr validate_diagnostic_wf no_panic_build)

subsection \<open>What the reader uses\<close>

definition ensures :: "'e + 'a \<Rightarrow> ('a \<Rightarrow> bool) \<Rightarrow> bool" where
  "ensures m P \<longleftrightarrow> (\<forall>x. m = Inr x \<longrightarrow> P x)"

lemma ensures_simps [simp]: "ensures (Inr x) P \<longleftrightarrow> P x" "ensures (Inl e) P"
  by (auto simp: ensures_def)

lemma ensures_rbind: "ensures m P \<Longrightarrow> (\<And>x. P x \<Longrightarrow> ensures (f x) Q) \<Longrightarrow> ensures (rbind m f) Q"
  by (cases m) auto

lemma ensures_any: "ensures m (\<lambda>x. m = Inr x)"
  by (simp add: ensures_def)

lemma ensures_map_err: "ensures (map_err g m) P \<longleftrightarrow> ensures m P"
  by (cases m) auto

lemma ensures_foldR:
  assumes "I 0 s" "\<And>j t. j < length xs \<Longrightarrow> I j t \<Longrightarrow> ensures (f (xs ! j) t) (I (Suc j))"
  shows "ensures (foldR f xs s) (I (length xs))"
  using assms
proof (induction xs arbitrary: I s)
  case (Cons x xs)
  have "ensures (f x s) (I 1)" using Cons.prems(2) [of 0 s] Cons.prems(1) by simp
  moreover have "ensures (foldR f xs t) (I (Suc (length xs)))" if "I 1 t" for t
    using Cons.IH [of "\<lambda>j. I (Suc j)" t] Cons.prems(2) [of "Suc _"] that by fastforce
  ultimately show ?case by (auto intro: ensures_rbind)
qed simp

text \<open>The counters of the budget are within the limits, and \<open>p\<close> bytes of payload are charged.\<close>

definition charged :: "object_read_limits \<Rightarrow> nat \<Rightarrow> read_budget \<Rightarrow> bool" where
  "charged limits p b \<longleftrightarrow>
     rb_work b \<le> max_work limits \<and> rb_strings b \<le> max_string_bytes limits \<and>
     rb_payload b \<le> max_payload_bytes limits \<and> rb_payload b = p"

lemma charged_steps:
  assumes "charged limits p b"
  shows "ensures (budget_charge limits n b) (charged limits p)"
    and "ensures (budget_strings limits n b) (charged limits p)"
    and "ensures (budget_payload limits n b) (charged limits (p + n))"
  using assms
  by (auto simp: ensures_def charged_def budget_charge_def budget_strings_def budget_payload_def
      result_simps checked_simps split: if_splits)

lemma charged_Inr:
  "budget_charge limits n b = Inr b' \<Longrightarrow> charged limits p b \<Longrightarrow> charged limits p b'"
  "budget_strings limits n b = Inr b' \<Longrightarrow> charged limits p b \<Longrightarrow> charged limits p b'"
  using charged_steps(1,2) [of limits p b n] by (auto simp: ensures_def)

lemma charged_own: "charged limits p b \<Longrightarrow> ensures (budget_own h limits s b) (\<lambda>r. charged limits p (snd r))"
  unfolding budget_own_def
  by (rule ensures_rbind [OF charged_steps(2)], assumption, rule ensures_rbind [OF charged_steps(1)], assumption)
    (auto simp: reserve_read_def ensure_def)

lemma charged_name: "charged limits p b \<Longrightarrow> ensures (budget_name limits v t i b) (\<lambda>r. charged limits p (snd r))"
  by (auto simp: budget_name_def ensures_def result_simps Let_def split: if_splits option.splits)
    (meson charged_Inr)+

lemma charged_fresh:
  "charged limits p b \<Longrightarrow> ensures (fresh_name limits used nm b) (\<lambda>r. charged limits p (snd r))"
proof (induction limits used nm b rule: fresh_name.induct)
  case (1 limits used nm b)
  note charge = charged_steps(1) [OF 1(2), of "length nm + 1"]
  show ?case
  proof (cases "nm \<in> used")
    case True
    then have "fresh_name limits used nm b =
        rbind (budget_charge limits (length nm + 1) b) (\<lambda>b. fresh_name limits used (nm @ ''$'') b)"
      by (subst fresh_name.simps) simp
    with 1(1) True charge show ?thesis
      by (cases "budget_charge limits (length nm + 1) b") auto
  qed (use 1(2) in \<open>subst fresh_name.simps, simp\<close>)
qed

declare fresh_name.simps [simp del]

text \<open>The bytes that the sections hold.\<close>

definition payload_total :: "obj_section list \<Rightarrow> nat" where
  "payload_total secs = sum_list (map (\<lambda>s. length (sec_data s)) secs)"

lemma length_elf_range: "elf_range bs off n = Inr x \<Longrightarrow> length x = unat n"
  by (auto simp: elf_range_def slice_def result_simps checked_simps split: if_splits)

lemma charged_payload:
  assumes "charged limits p b"
  shows "ensures (read_payload h limits v i s nm b) (\<lambda>(sec, b'). charged limits (p + length (sec_data sec)) b')"
proof -
  let ?load = "if es_kind s = 8 then Inr ([], b)
              else
                rbind (budget_payload limits (unat (es_size s)) b) (\<lambda>b.
                rbind (budget_charge limits (unat (es_size s)) b) (\<lambda>b.
                rbind (reserve_read h (PayloadRows i) (unat (es_size s))) (\<lambda>_.
                rbind (view_range v (es_offset s) (es_size s)) (\<lambda>bytes.
                Inr (bytes, b)))))"
  have load: "ensures ?load (\<lambda>(content, b'). charged limits (p + length content) b')"
  proof (cases "es_kind s = 8")
    case False
    have "ensures (rbind (budget_payload limits (unat (es_size s)) b) (\<lambda>b.
        rbind (budget_charge limits (unat (es_size s)) b) (\<lambda>b.
        rbind (reserve_read h (PayloadRows i) (unat (es_size s))) (\<lambda>_.
        rbind (view_range v (es_offset s) (es_size s)) (\<lambda>bytes. Inr (bytes, b))))))
      (\<lambda>(content, b'). charged limits (p + length content) b')"
      apply (rule ensures_rbind [OF charged_steps(3) [OF assms]])
      apply (rule ensures_rbind [OF charged_steps(1)], assumption)
      apply (rule ensures_rbind [OF ensures_any])+
      apply (auto simp: view_range_def dest!: length_elf_range)
      done
    with False show ?thesis by simp
  qed (use assms in simp)
  have "charged limits (p + length (sec_data sec)) b'" if r: "read_payload h limits v i s nm b = Inr (sec, b')" for sec b'
  proof -
    obtain content b1 nm' where l: "?load = Inr (content, b1)" and o: "budget_own h limits nm b1 = Inr (nm', b')"
      and sec: "sec_data sec = content"
      using r by (auto simp: read_payload_def result_simps split: if_splits simp del: payload_kind.simps)
    have "charged limits (p + length content) b1" using load l by (auto simp: ensures_def)
    from charged_own [OF this] o sec show ?thesis by (fastforce simp: ensures_def)
  qed
  then show ?thesis by (auto simp: ensures_def)
qed


subsection \<open>The loops\<close>

definition sections_charged :: "object_read_limits \<Rightarrow> section_scan \<Rightarrow> bool" where
  "sections_charged limits st \<longleftrightarrow> charged limits (payload_total (sc_sections st)) (sc_budget st)"

lemma scan_section_charged:
  assumes "sections_charged limits st"
  shows "ensures (scan_section h limits v names x st) (sections_charged limits)"
proof -
  obtain i s where x: "x = (i, s)" by (cases x)
  let ?name = "map_err (\<lambda>e. err_section e i) (budget_name limits v names (es_name s) (sc_budget st))"
  have name: "ensures ?name (\<lambda>r. charged limits (payload_total (sc_sections st)) (snd r))"
    using charged_name assms by (simp add: ensures_map_err sections_charged_def)
  have "sections_charged limits st'" if r: "scan_section h limits v names x st = Inr st'" and k: "es_kind s \<noteq> 0" for st'
  proof -
    obtain nm b where n: "?name = Inr (nm, b)"
      and rest: "(if es_kind s = 1 \<or> es_kind s = 8 then
         rbind (read_payload h limits v i s nm b) (\<lambda>(sec, b).
         Inr (st\<lparr>sc_budget := b, sc_sections := sc_sections st @ [sec],
                 sc_mapping := (sc_mapping st)[i := Some (length (sc_sections st))]\<rparr>))
       else if es_kind s = 2 then
         if sc_symtab st \<noteq> None then Inl (err_section (read_error Unsupported) i)
         else Inr (st\<lparr>sc_budget := b, sc_symtab := Some i\<rparr>)
       else if es_kind s = 3 then
         if es_flags s \<noteq> 0 then Inl (err_section (read_error InvalidName) i)
         else
           rbind (view_range v (es_offset s) (es_size s)) (\<lambda>bytes.
           if \<not> is_string_table bytes then Inl (err_section (read_error InvalidName) i)
           else Inr (st\<lparr>sc_budget := b\<rparr>))
       else if es_kind s = 4 then
         if es_flags s AND NOT 0x40 \<noteq> 0 then Inl (err_section (read_error Unsupported) i)
         else Inr (st\<lparr>sc_budget := b\<rparr>)
       else Inl (err_section (read_error Unsupported) i)) = Inr st'"
      using r k unfolding scan_section_def x by (auto simp only: prod.case if_False rbind_eq_Inr split_paired_Ex)
    have c: "charged limits (payload_total (sc_sections st)) b" using name n by (auto simp: ensures_def)
    from charged_payload [OF c] rest c show ?thesis
      by (auto simp: sections_charged_def ensures_def payload_total_def result_simps split: if_splits)
  qed
  with assms show ?thesis by (auto simp: ensures_def scan_section_def x)
qed

lemma read_sections_charged:
  "ensures (read_sections h limits v) (\<lambda>r. sections_charged limits (snd r))"
proof -
  have rows: "ensures (foldR (read_row limits v) xs (b, hs)) (\<lambda>r. charged limits 0 (fst r))" if "charged limits 0 b" for xs b hs
    by (rule ensures_foldR [where I = "\<lambda>_ r. charged limits 0 (fst r)"])
      (use that charged_Inr(1) in \<open>fastforce simp: read_row_def ensures_def result_simps\<close>)+
  have scans: "ensures (foldR (scan_section h limits v names) xs st) (sections_charged limits)"
    if "sections_charged limits st" for names xs st
    by (rule ensures_foldR [where I = "\<lambda>_. sections_charged limits"]) (use that scan_section_charged in auto)
  have start: "charged limits 0 \<lparr>rb_work = 0, rb_strings = 0, rb_payload = 0\<rparr>" by (simp add: charged_def)
  show ?thesis
    unfolding read_sections_def Let_def
    apply (rule ensures_rbind [OF ensures_any])
    apply (rule ensures_rbind [OF rows [OF start]])
    apply (clarsimp simp only: split_paired_all prod.case fst_conv)
    apply (rule ensures_rbind [OF ensures_any])
    apply (auto simp: sections_charged_def payload_total_def intro!: ensures_rbind [OF scans])
     apply (rule ensures_rbind [OF ensures_any])
    apply (rule ensures_rbind [OF scans])
     apply (simp_all add: sections_charged_def payload_total_def)
    done
qed

lemma raw_symbols_charged:
  assumes "charged limits p b"
  shows "ensures (foldR (read_raw_symbol limits v symtab strings) [0..<n] (b, [], used))
    (\<lambda>r. charged limits p (fst r) \<and> length (fst (snd r)) = n)"
proof -
  have "ensures (foldR (read_raw_symbol limits v symtab strings) [0..<n] (b, [], used))
    (\<lambda>r. charged limits p (fst r) \<and> length (fst (snd r)) = length [0..<n])"
  proof (rule ensures_foldR)
    fix j and t :: "read_budget \<times> raw_symbol list \<times> string set"
    assume t: "charged limits p (fst t) \<and> length (fst (snd t)) = j"
    obtain b raw used where tt: "t = (b, raw, used)" by (cases t)
    have "charged limits p (fst r) \<and> length (fst (snd r)) = Suc j"
      if r: "read_raw_symbol limits v symtab strings i (b, raw, used) = Inr r" for i r
    proof -
      obtain b1 b2 nm k where c: "budget_charge limits 1 b = Inr b1" "budget_name limits v strings k b1 = Inr (nm, b2)"
        "fst r = b2" "length (fst (snd r)) = Suc (length raw)"
        using r unfolding read_raw_symbol_def Let_def
        by (auto simp only: prod.case rbind_eq_Inr split_paired_Ex sum.inject fst_conv snd_conv length_append list.size add_0_left add_Suc_right add_0_right)
      have "charged limits p b1" using charged_Inr(1) [OF c(1)] t tt by simp
      from charged_name [OF this] c t tt show ?thesis by (fastforce simp: ensures_def)
    qed
    then show "ensures (read_raw_symbol limits v symtab strings ([0..<n] ! j) t)
        (\<lambda>r. charged limits p (fst r) \<and> length (fst (snd r)) = Suc j)"
      by (simp add: ensures_def tt)
  qed (simp add: assms)
  then show ?thesis by simp
qed

lemma scan_symbol_charged:
  assumes "charged limits p (ys_budget st) \<and> length (ys_symbols st) \<le> j"
  shows "ensures (scan_symbol h limits m used x st) (\<lambda>st'. charged limits p (ys_budget st') \<and> length (ys_symbols st') \<le> Suc j)"
proof -
  have plain: "charged limits p b" if r: "plain_symbol h limits m s st = Inr (r, b, helpers)" for s r b helpers
  proof -
    obtain nm where "budget_own h limits (raw_name s) (ys_budget st) = Inr (nm, b)"
      using r by (auto simp only: plain_symbol_def rbind_eq_Inr split_paired_Ex prod.case sum.inject prod.inject)
    then show ?thesis using charged_own assms by (fastforce simp: ensures_def)
  qed
  have sec: "charged limits p b" if r: "section_symbol limits m used i s bd vis st = Inr (r, b, helpers)" for i s bd vis r b helpers
  proof -
    obtain nm b1 k where f: "fresh_name limits (used \<union> ys_helpers st) (''__whale_elf_section_'' @ decimal_name i) (ys_budget st) = Inr (nm, b1)"
      and b: "budget_strings limits k b1 = Inr b"
      using r by (auto simp: section_symbol_def result_simps split: if_splits simp del: decimal_name.simps)
    have "charged limits p b1" using charged_fresh [of limits p "ys_budget st"] assms f by (fastforce simp: ensures_def simp del: decimal_name.simps)
    then show ?thesis by (rule charged_Inr(2) [OF b])
  qed
  show ?thesis
    using assms plain sec
    by (cases x) (auto simp: scan_symbol_def ensures_def result_simps split: if_splits)
qed

lemma read_symbols_charged:
  assumes "charged limits p (sc_budget st)"
  shows "ensures (read_symbols h limits v headers i st) (\<lambda>(count, ys). charged limits p (ys_budget ys) \<and>
    count \<le> max_symbols limits \<and> length (ys_symbols ys) < count)"
proof -
  have "charged limits p (ys_budget ys) \<and> count \<le> max_symbols limits \<and> length (ys_symbols ys) < count"
    if r: "read_symbols h limits v headers i st = Inr (count, ys)" for count ys
  proof -
    obtain strings b raw used where
      raw: "foldR (read_raw_symbol limits v (headers ! i) strings) [0..<count] (sc_budget st, [], {}) = Inr (b, raw, used)"
      and ys: "foldR (scan_symbol h limits (sc_mapping st) used) (tl (enumerate 0 raw))
                 \<lparr>ys_budget = b, ys_symbols = [], ys_mapping = replicate count None, ys_helpers = {}\<rparr> = Inr ys"
      and count: "count \<noteq> 0" "count \<le> max_symbols limits"
      using r unfolding read_symbols_def Let_def by (auto simp: result_simps split: if_splits)
    have b: "charged limits p b" "length raw = count" using raw_symbols_charged [OF assms] raw by (fastforce simp: ensures_def)+
    have "ensures (foldR (scan_symbol h limits (sc_mapping st) used) (tl (enumerate 0 raw))
        \<lparr>ys_budget = b, ys_symbols = [], ys_mapping = replicate count None, ys_helpers = {}\<rparr>)
        (\<lambda>st'. charged limits p (ys_budget st') \<and> length (ys_symbols st') \<le> length (tl (enumerate 0 raw)))"
      by (rule ensures_foldR) (use b in simp, rule scan_symbol_charged)
    then have "charged limits p (ys_budget ys) \<and> length (ys_symbols ys) \<le> length (tl (enumerate 0 raw))"
      using ys by (simp add: ensures_def)
    moreover have "length (tl (enumerate 0 raw)) < count" using b(2) count(1) by simp
    ultimately show ?thesis using count(2) by simp
  qed
  then show ?thesis by (auto simp: ensures_def)
qed

definition relocations_charged :: "object_read_limits \<Rightarrow> nat \<Rightarrow> read_budget \<times> nat \<times> object_relocation list \<Rightarrow> bool" where
  "relocations_charged limits p = (\<lambda>(b, n, relocs).
     charged limits p b \<and> length relocs = n \<and> n \<le> max_relocations limits)"

lemma scan_relocations_charged:
  assumes "relocations_charged limits p t"
  shows "ensures (scan_relocations h limits v k m symbols sm x t) (relocations_charged limits p)"
proof -
  obtain i s where x: "x = (i, s)" by (cases x)
  obtain b n relocs where t: "t = (b, n, relocs)" by (cases t)
  have one: "ensures (read_relocation h limits v symbols sm i s target q r)
      (\<lambda>r. charged limits p (fst r) \<and> length (snd r) = Suc j)"
    if "charged limits p (fst r) \<and> length (snd r) = j" for target q j and r :: "read_budget \<times> object_relocation list"
  proof -
    have "charged limits p b'' \<and> length (snd r') = Suc j"
      if r': "read_relocation h limits v symbols sm i s target q (fst r, snd r) = Inr r'" "b'' = fst r'" for r' b''
    proof -
      obtain b1 y nm b2 where c: "budget_charge limits 1 (fst r) = Inr b1" "budget_own h limits (sym_name (symbols ! y)) b1 = Inr (nm, b2)"
        "fst r' = b2" "length (snd r') = Suc (length (snd r))"
        using r' unfolding read_relocation_def Let_def
        by (auto simp only: prod.case rbind_eq_Inr split_paired_Ex sum.inject fst_conv snd_conv length_append list.size add_0_left add_Suc_right add_0_right)
      have "charged limits p b1"
        using charged_Inr(1) [OF c(1)] \<open>charged limits p (fst r) \<and> length (snd r) = j\<close> by simp
      from charged_own [OF this] c r'(2) \<open>charged limits p (fst r) \<and> length (snd r) = j\<close> show ?thesis
        by (fastforce simp: ensures_def)
    qed
    then show ?thesis by (auto simp: ensures_def)
  qed
  have loop: "ensures (foldR (read_relocation h limits v symbols sm i s target) [0..<c] (b, relocs))
      (\<lambda>r. charged limits p (fst r) \<and> length (snd r) = length relocs + length [0..<c])" for target c
  proof (rule ensures_foldR [where I = "\<lambda>j r. charged limits p (fst r) \<and> length (snd r) = length relocs + j"])
    fix j and r :: "read_budget \<times> object_relocation list"
    assume "charged limits p (fst r) \<and> length (snd r) = length relocs + j"
    from one [OF this] show "ensures (read_relocation h limits v symbols sm i s target ([0..<c] ! j) r)
        (\<lambda>r. charged limits p (fst r) \<and> length (snd r) = length relocs + Suc j)" by simp
  qed (use assms in \<open>simp add: relocations_charged_def t\<close>)
  have "relocations_charged limits p t'" if r: "scan_relocations h limits v k m symbols sm x t = Inr t'" for t'
  proof -
    obtain target n' b' relocs' where n: "n' = n + unat (es_size s div 24)" "n' \<le> max_relocations limits"
      and l: "foldR (read_relocation h limits v symbols sm i s target) [0..<unat (es_size s div 24)] (b, relocs) = Inr (b', relocs')"
      and t': "t' = (b', n', relocs')"
      using r unfolding scan_relocations_def x t Let_def by (auto simp: result_simps checked_simps split: if_splits)
    from loop [of target "unat (es_size s div 24)"] l n t' assms show ?thesis
      by (auto simp: ensures_def relocations_charged_def t)
  qed
  then show ?thesis by (simp add: ensures_def)
qed

subsection \<open>Properties\<close>


text \<open>C3. Every object that the reader returns is well formed, targets amd64, holds exactly the
  payload bytes and the relocations that were charged and fewer symbols than were charged, and
  no reported use exceeds the limit of its resource.\<close>

theorem reader_respects_limits:
  assumes "read_elf_with_usage h bs limits = Inr (obj, u)"
  shows "wf_object obj \<and> obj_target obj = target_object_target X86_64WhaleLinux \<and>
    sum_list (map (\<lambda>s. length (sec_data s)) (obj_sections obj)) = used_payload_bytes u \<and>
    length (obj_relocations obj) = used_relocations u \<and> length (obj_symbols obj) < used_symbols u \<and>
    used_input_bytes u = length bs \<and> length bs \<le> max_input_bytes limits \<and>
    used_sections u \<le> max_sections limits \<and> used_program_headers u \<le> max_program_headers limits \<and>
    used_symbols u \<le> max_symbols limits \<and> used_relocations u \<le> max_relocations limits \<and>
    used_payload_bytes u \<le> max_payload_bytes limits \<and> used_string_bytes u \<le> max_string_bytes limits \<and>
    used_work u \<le> max_work limits"
proof -
  obtain v headers st i count ys b n relocs where
    v: "view_parse bs limits = Inr v"
    and sec: "read_sections h limits v = Inr (headers, st)"
    and sym: "read_symbols h limits v headers i st = Inr (count, ys)"
    and rel: "foldR (scan_relocations h limits v i (sc_mapping st) (ys_symbols ys) (ys_mapping ys))
              (filter (\<lambda>(_, s). es_kind s = 4) (enumerate 0 headers)) (ys_budget ys, 0, []) = Inr (b, n, relocs)"
    and obj: "obj = (object_with_target (target_object_target X86_64WhaleLinux))
                 \<lparr>obj_sections := sc_sections st, obj_symbols := ys_symbols ys, obj_relocations := relocs\<rparr>"
    and valid: "validate_diagnostic obj = Inr ()"
    and u: "u = \<lparr>used_input_bytes = length bs, used_sections = eh_section_count (ev_header v),
                used_program_headers = eh_program_count (ev_header v), used_symbols = count,
                used_relocations = n, used_payload_bytes = rb_payload b, used_string_bytes = rb_strings b,
                used_work = rb_work b\<rparr>"
    using assms unfolding read_elf_with_usage_def Let_def by (auto simp: result_simps)
  have parsed: "length bs \<le> max_input_bytes limits" "eh_section_count (ev_header v) \<le> max_sections limits"
    "eh_program_count (ev_header v) \<le> max_program_headers limits"
    using v by (auto simp: view_parse_def check_elf_header_def result_simps split: if_splits)
  have c: "charged limits (payload_total (sc_sections st)) (sc_budget st)"
    using read_sections_charged [of h limits v] sec by (auto simp: ensures_def sections_charged_def)
  from read_symbols_charged [OF this] sym
  have y: "charged limits (payload_total (sc_sections st)) (ys_budget ys)" "count \<le> max_symbols limits" "length (ys_symbols ys) < count"
    by (fastforce simp: ensures_def)+
  have "ensures (foldR (scan_relocations h limits v i (sc_mapping st) (ys_symbols ys) (ys_mapping ys))
      (filter (\<lambda>(_, s). es_kind s = 4) (enumerate 0 headers)) (ys_budget ys, 0, []))
      (relocations_charged limits (payload_total (sc_sections st)))"
    by (rule ensures_foldR [where I = "\<lambda>_. relocations_charged limits (payload_total (sc_sections st))"])
      (use y(1) scan_relocations_charged in \<open>auto simp: relocations_charged_def\<close>)
  then have "relocations_charged limits (payload_total (sc_sections st)) (b, n, relocs)" using rel by (simp add: ensures_def)
  then show ?thesis
    using valid parsed y
    by (auto simp: obj u relocations_charged_def charged_def payload_total_def object_with_target_def validate_diagnostic_wf)
qed

theorem reader_respects_limits_witness:
  "\<exists>obj u. read_elf_with_usage (\<lambda>_. True) sample_elf_file default_read_limits = Inr (obj, u) \<and>
     wf_object obj \<and> used_input_bytes u = 568 \<and> used_payload_bytes u \<le> 256 * 1024 * 1024"
proof -
  obtain obj u where r: "read_elf_with_usage (\<lambda>_. True) sample_elf_file default_read_limits = Inr (obj, u)"
    using sample_elf_read by (auto simp: read_elf_def rbind_eq_Inr)
  have "length sample_elf_file = 568" by (simp add: sample_elf_file_def)
  then have "wf_object obj \<and> used_input_bytes u = 568 \<and> used_payload_bytes u \<le> 256 * 1024 * 1024"
    using reader_respects_limits [OF r] by (simp add: default_read_limits_def)
  with r show ?thesis by blast
qed

end
