(* ===== verification/IrTypes.thy ===== *)
theory IrTypes
  imports Prelude
begin

text \<open>
  The data model of the intermediate representation: \<open>ir/src/{types,value,instr,constant,
  block,effects}.rs\<close>, the signatures of \<open>ir/src/function.rs\<close> and the expression trees of
  \<open>ir/src/const_expr.rs\<close>, with the effect classification of instructions and the range
  check of literals.  An \<open>i128\<close> is a 128-bit word read with \<open>sint\<close>.
\<close>

subsection \<open>Types and identities\<close>

datatype calling_convention = Whale | SysV64

datatype (plugins only: code size) ty =
    Void | Bool | I1 | U1 | I8 | I16 | I32 | I64 | I128 | U8 | U16 | U32 | U64 | U128
  | F16 | F32 | F64
  | Ptr ty
  | FnPtr fn_sig
  | ArrayT ty u64
  | StructT "ty list"
  | TupleT "ty list"
and fn_sig = FnSig (sig_params: "ty list") (sig_ret: ty) (sig_convention: calling_convention) (sig_variadic: bool)

datatype function_id = FunctionId u32
datatype global_id = GlobalId u32
datatype value_id = ValueId u32
datatype block_id = BlockId u32

datatype float_bits = FBits16 u16 | FBits32 u32 | FBits64 u64

datatype const_value = ConstBool bool | ConstI i128 | ConstU u128 | ConstF float_bits

subsection \<open>Operations\<close>

datatype (plugins only: code size) icmp_pred = IEq | INe | IUlt | IUle | IUgt | IUge | ISlt | ISle | ISgt | ISge

datatype (plugins only: code size) fcmp_pred =
    Oeq | One | Olt | Ole | Ogt | Oge | Ord | Uno | Ueq | Une | Ult | Ule | Ugt | Uge

datatype (plugins only: code size) cast_op =
    CheckedInt | ZExt | SExt | Trunc | FExt | FTrunc | IToF_S | IToF_U | FToI_S | FToI_U
  | Bitcast | PtrToInt | IntToPtr

datatype (plugins only: code size) bin_op =
    Add | Sub | Mul | UDiv | SDiv | URem | SRem
  | FAdd | FSub | FMul | FDiv | FRem
  | And | Or | Xor | Shl | LShr | AShr

datatype checked_op = UAdd | USub | UMul | SAdd | SSub | SMul

datatype callee = Direct function_id | Indirect value_id

datatype (plugins only: code size) cmp_op =
    CEq | CNe | SLt | SLe | SGt | SGe | ULt | ULe | UGt | UGe | FEq | FNe | FLt | FLe | FGt | FGe

fun float_predicate :: "cmp_op \<Rightarrow> fcmp_pred option" where
  "float_predicate FEq = Some Oeq"
| "float_predicate FNe = Some Une"
| "float_predicate FLt = Some Olt"
| "float_predicate FLe = Some Ole"
| "float_predicate FGt = Some Ogt"
| "float_predicate FGe = Some Oge"
| "float_predicate _ = None"

subsection \<open>Constant expressions\<close>

datatype const_ref = GlobalRef global_id | LocalRef value_id

datatype (plugins only: code size) const_binary_op =
    CAdd | CSub | CMul | CBitAnd | CBitOr | CBitXor | CDiv | CRem | CShiftLeft | CShiftRight
  | CLogicalAnd | CLogicalOr

datatype const_compare_op = CmpEq | CmpNe | CmpLt | CmpLe | CmpGt | CmpGe

datatype (plugins only: code size) const_expr = ConstExpr (ce_ty: ty) (ce_kind: const_expr_kind)
and const_expr_kind =
    KNot const_expr
  | KNeg const_expr
  | KLiteral const_value
  | KReference const_ref
  | KBinary const_binary_op const_expr const_expr
  | KCompare const_compare_op const_expr const_expr

subsection \<open>Instructions\<close>

datatype (plugins only: size) instruction =
    GlobalAddr value_id global_id ty
  | LifetimeEnd value_id
  | PtrDiff value_id value_id value_id
  | ConstDecl value_id string const_expr const_value
  | Const value_id ty const_value
  | Undef value_id ty
  | Mov value_id ty value_id
  | Bin value_id bin_op ty value_id value_id
  | Neg value_id ty value_id
  | NotI value_id ty value_id
  | Cmp value_id cmp_op ty value_id value_id
  | ICmp value_id icmp_pred ty value_id value_id
  | FCmp value_id fcmp_pred ty value_id value_id
  | Select value_id ty value_id value_id value_id
  | Cast value_id cast_op ty ty value_id
  | Phi value_id ty "(value_id \<times> block_id) list"
  | Extract value_id ty value_id u32
  | Checked value_id checked_op ty value_id value_id
  | Alloca value_id ty u32
  | VolatileLoad value_id ty value_id u32
  | VolatileStore ty value_id value_id u32
  | Load value_id ty value_id u32
  | Uninit ty value_id u32
  | Store ty value_id value_id u32
  | Gep value_id ty value_id "value_id list"
  | Memcpy value_id value_id value_id u32
  | Memset value_id value_id value_id u32
  | NullFunction value_id fn_sig
  | FunctionAddr value_id function_id fn_sig
  | Call calling_convention "value_id option" ty callee "value_id list"
  | TrapIf value_id string

datatype terminator =
    Br block_id
  | CBr value_id block_id block_id
  | Switch ty value_id block_id "(const_value \<times> block_id) list"
  | Ret ty "value_id option"
  | Trap string

record basic_block =
  bb_id :: block_id
  bb_name :: string
  bb_instructions :: "instruction list"
  bb_terminator :: "terminator option"

definition basic_block_new :: "block_id \<Rightarrow> string \<Rightarrow> basic_block" where
  "basic_block_new i nm = \<lparr>bb_id = i, bb_name = nm, bb_instructions = [], bb_terminator = None\<rparr>"

definition is_terminated :: "basic_block \<Rightarrow> bool" where
  "is_terminated b = (bb_terminator b \<noteq> None)"

subsection \<open>Traps\<close>

datatype memory_trap =
    NullPointer | MissingProvenance | ExpiredAllocation | MemOutOfBounds | AddressOverflow
  | PermissionDenied
  | Misaligned u64 u32
  | Uninitialized u64
  | InvalidBool u8
  | OverlappingCopy | DifferentAllocation | InvalidLifetimeEnd

datatype trap_reason =
    DivisionByZero | RemainderByZero | InvalidConversion
  | Explicit string
  | MemoryFault memory_trap
  | NullFunctionCall | InvalidFunctionPointer | FunctionSignatureMismatch

subsection \<open>Effects\<close>

record effects =
  reads_memory :: bool
  writes_memory :: bool
  ef_volatile :: bool
  ef_calls :: bool
  may_trap :: bool
  changes_lifetime :: bool

definition no_effects :: effects where
  "no_effects =
     \<lparr>reads_memory = False, writes_memory = False, ef_volatile = False, ef_calls = False,
      may_trap = False, changes_lifetime = False\<rparr>"

definition permits_unused_removal :: "effects \<Rightarrow> bool" where
  "permits_unused_removal e = (e = no_effects)"

fun is_ptr :: "ty \<Rightarrow> bool" where
  "is_ptr (Ptr _) = True"
| "is_ptr _ = False"

definition instruction_effects :: "instruction \<Rightarrow> effects" where
  "instruction_effects i =
     (case i of
        VolatileLoad _ _ _ _ \<Rightarrow> no_effects\<lparr>reads_memory := True, ef_volatile := True, may_trap := True\<rparr>
      | VolatileStore _ _ _ _ \<Rightarrow> no_effects\<lparr>writes_memory := True, ef_volatile := True, may_trap := True\<rparr>
      | Load _ _ _ _ \<Rightarrow> no_effects\<lparr>reads_memory := True, may_trap := True\<rparr>
      | Store _ _ _ _ \<Rightarrow> no_effects\<lparr>writes_memory := True, may_trap := True\<rparr>
      | Uninit _ _ _ \<Rightarrow> no_effects\<lparr>writes_memory := True, may_trap := True\<rparr>
      | Memset _ _ _ _ \<Rightarrow> no_effects\<lparr>writes_memory := True, may_trap := True\<rparr>
      | Memcpy _ _ _ _ \<Rightarrow> no_effects\<lparr>reads_memory := True, writes_memory := True, may_trap := True\<rparr>
      | Alloca _ _ _ \<Rightarrow> no_effects\<lparr>changes_lifetime := True, may_trap := True\<rparr>
      | LifetimeEnd _ \<Rightarrow> no_effects\<lparr>changes_lifetime := True, may_trap := True\<rparr>
      | Call _ _ _ _ _ \<Rightarrow> no_effects\<lparr>ef_calls := True, reads_memory := True, writes_memory := True, may_trap := True\<rparr>
      | Gep _ _ _ _ \<Rightarrow> no_effects\<lparr>may_trap := True\<rparr>
      | PtrDiff _ _ _ \<Rightarrow> no_effects\<lparr>may_trap := True\<rparr>
      | TrapIf _ _ \<Rightarrow> no_effects\<lparr>may_trap := True\<rparr>
      | Undef _ _ \<Rightarrow> no_effects\<lparr>may_trap := True\<rparr>
      | Bin _ op _ _ _ \<Rightarrow> (if op \<in> {UDiv, SDiv, URem, SRem} then no_effects\<lparr>may_trap := True\<rparr> else no_effects)
      | Cast _ op _ _ _ \<Rightarrow> (if op \<in> {CheckedInt, FToI_S, FToI_U} then no_effects\<lparr>may_trap := True\<rparr> else no_effects)
      | Cmp _ _ t _ _ \<Rightarrow> (if is_ptr t then no_effects\<lparr>may_trap := True\<rparr> else no_effects)
      | ICmp _ _ t _ _ \<Rightarrow> (if is_ptr t then no_effects\<lparr>may_trap := True\<rparr> else no_effects)
      | _ \<Rightarrow> no_effects)"

fun terminator_effects :: "terminator \<Rightarrow> effects" where
  "terminator_effects (Trap _) = no_effects\<lparr>may_trap := True\<rparr>"
| "terminator_effects _ = no_effects"

subsection \<open>Literals\<close>

definition fits_signed :: "nat \<Rightarrow> i128 \<Rightarrow> bool" where
  "fits_signed bits v = (- (2 ^ (bits - 1)) \<le> sint v \<and> sint v < 2 ^ (bits - 1))"

definition fits_unsigned :: "nat \<Rightarrow> u128 \<Rightarrow> bool" where
  "fits_unsigned bits v = (v < push_bit bits 1)"

definition valid_constant :: "ty \<Rightarrow> const_value \<Rightarrow> bool" where
  "valid_constant t c =
     (case c of
        ConstBool _ \<Rightarrow> t = Bool
      | ConstF (FBits16 _) \<Rightarrow> t = F16
      | ConstF (FBits32 _) \<Rightarrow> t = F32
      | ConstF (FBits64 _) \<Rightarrow> t = F64
      | ConstI v \<Rightarrow>
          (case t of
             I128 \<Rightarrow> True
           | I1 \<Rightarrow> fits_signed 1 v
           | I8 \<Rightarrow> fits_signed 8 v
           | I16 \<Rightarrow> fits_signed 16 v
           | I32 \<Rightarrow> fits_signed 32 v
           | I64 \<Rightarrow> fits_signed 64 v
           | _ \<Rightarrow> False)
      | ConstU v \<Rightarrow>
          (case t of
             U128 \<Rightarrow> True
           | U1 \<Rightarrow> fits_unsigned 1 v
           | U8 \<Rightarrow> fits_unsigned 8 v
           | U16 \<Rightarrow> fits_unsigned 16 v
           | U32 \<Rightarrow> fits_unsigned 32 v
           | U64 \<Rightarrow> fits_unsigned 64 v
           | _ \<Rightarrow> False))"

definition float_type :: "ty \<Rightarrow> bool" where
  "float_type t = (t \<in> {F16, F32, F64})"

end
