(* ===== verification/IrInteger.thy ===== *)
theory IrInteger
  imports IrTypes
begin

text \<open>
  Integer semantics of the reference interpreter, \<open>ir/src/interpreter/integer.rs\<close>: values
  are 128-bit patterns, masked to the width of their type.  Every operation is related to
  the operation on mathematical integers followed by one reduction to the type.  A branch
  the sources mark \<open>unreachable!\<close> or guard with \<open>expect\<close> is \<open>None\<close>, or the
  failure \<open>Unreachable\<close> where the operation can also trap.
\<close>

datatype int_fail = Trapped trap_reason | Unreachable

definition shape :: "ty \<Rightarrow> (nat \<times> bool) option" where
  "shape t =
     (case t of
        I1 \<Rightarrow> Some (1, True) | U1 \<Rightarrow> Some (1, False)
      | I8 \<Rightarrow> Some (8, True) | U8 \<Rightarrow> Some (8, False)
      | I16 \<Rightarrow> Some (16, True) | U16 \<Rightarrow> Some (16, False)
      | I32 \<Rightarrow> Some (32, True) | U32 \<Rightarrow> Some (32, False)
      | I64 \<Rightarrow> Some (64, True) | U64 \<Rightarrow> Some (64, False)
      | I128 \<Rightarrow> Some (128, True) | U128 \<Rightarrow> Some (128, False)
      | _ \<Rightarrow> None)"

definition int_mask :: "nat \<Rightarrow> u128" where
  "int_mask bits = (if bits = 128 then - 1 else push_bit bits 1 - 1)"

definition int_raw :: "const_value \<Rightarrow> nat \<Rightarrow> u128 option" where
  "int_raw v bits =
     (case v of
        ConstI x \<Rightarrow> Some (x AND int_mask bits)
      | ConstU x \<Rightarrow> Some (x AND int_mask bits)
      | ConstBool b \<Rightarrow> Some (of_bool b AND int_mask bits)
      | ConstF _ \<Rightarrow> None)"

definition int_signed :: "u128 \<Rightarrow> nat \<Rightarrow> i128" where
  "int_signed v bits =
     (if bits < 128 \<and> v AND push_bit (bits - 1) 1 \<noteq> 0 then v OR NOT (int_mask bits) else v)"

definition int_pack :: "ty \<Rightarrow> u128 \<Rightarrow> const_value option" where
  "int_pack t v =
     Option.bind (shape t) (\<lambda>(bits, is_signed).
       let v' = v AND int_mask bits in
       Some (if is_signed then ConstI (int_signed v' bits) else ConstU v'))"

text \<open>\<open>i128::wrapping_div\<close> and \<open>wrapping_rem\<close>: the quotient is truncated towards
  zero and reduced to the width.\<close>

definition i128_div :: "i128 \<Rightarrow> i128 \<Rightarrow> i128" where
  "i128_div a b = word_of_int (sint a sdiv sint b)"

definition i128_rem :: "i128 \<Rightarrow> i128 \<Rightarrow> i128" where
  "i128_rem a b = word_of_int (sint a smod sint b)"

definition int_bin_value :: "bin_op \<Rightarrow> nat \<Rightarrow> u128 \<Rightarrow> u128 \<Rightarrow> int_fail + u128" where
  "int_bin_value op bits a b =
     (let count = unat (b mod of_nat bits) in
      case op of
        Add \<Rightarrow> Inr (a + b)
      | Sub \<Rightarrow> Inr (a - b)
      | Mul \<Rightarrow> Inr (a * b)
      | UDiv \<Rightarrow> if b = 0 then Inl (Trapped DivisionByZero) else Inr (a div b)
      | SDiv \<Rightarrow> if b = 0 then Inl (Trapped DivisionByZero)
               else Inr (i128_div (int_signed a bits) (int_signed b bits))
      | URem \<Rightarrow> if b = 0 then Inl (Trapped RemainderByZero) else Inr (a mod b)
      | SRem \<Rightarrow> if b = 0 then Inl (Trapped RemainderByZero)
               else Inr (i128_rem (int_signed a bits) (int_signed b bits))
      | And \<Rightarrow> Inr (a AND b)
      | Or \<Rightarrow> Inr (a OR b)
      | Xor \<Rightarrow> Inr (a XOR b)
      | Shl \<Rightarrow> Inr (push_bit count a)
      | LShr \<Rightarrow> Inr (drop_bit count a)
      | AShr \<Rightarrow> Inr (signed_drop_bit count (int_signed a bits))
      | _ \<Rightarrow> Inl Unreachable)"

definition int_bin :: "bin_op \<Rightarrow> ty \<Rightarrow> const_value \<Rightarrow> const_value \<Rightarrow> int_fail + const_value" where
  "int_bin op t l r =
     rbind (ok_or (shape t) Unreachable) (\<lambda>(bits, _).
     rbind (ok_or (int_raw l bits) Unreachable) (\<lambda>a.
     rbind (ok_or (int_raw r bits) Unreachable) (\<lambda>b.
     rbind (int_bin_value op bits a b) (\<lambda>v.
     ok_or (int_pack t v) Unreachable))))"

text \<open>\<open>i128::checked_add\<close> and its companions: the exact result when it is representable.\<close>

definition i128_exact :: "int \<Rightarrow> i128 option" where
  "i128_exact z = (if - (2 ^ 127) \<le> z \<and> z < 2 ^ 127 then Some (word_of_int z) else None)"

definition signed_overflow :: "nat \<Rightarrow> i128 option \<Rightarrow> bool" where
  "signed_overflow bits exact =
     (case exact of
        None \<Rightarrow> True
      | Some v \<Rightarrow> bits < 128 \<and>
          (sint v < - sint (push_bit (bits - 1) 1 :: i128) \<or> sint (push_bit (bits - 1) 1 :: i128) \<le> sint v))"

definition int_checked_value :: "checked_op \<Rightarrow> nat \<Rightarrow> u128 \<Rightarrow> u128 \<Rightarrow> u128 \<times> bool" where
  "int_checked_value op bits a b =
     (let sa = sint (int_signed a bits); sb = sint (int_signed b bits) in
      case op of
        UAdd \<Rightarrow> (a + b, 2 ^ 128 \<le> uint a + uint b \<or> int_mask bits < a + b)
      | USub \<Rightarrow> (a - b, a < b)
      | UMul \<Rightarrow> (a * b, case checked_mul a b of None \<Rightarrow> True | Some v \<Rightarrow> int_mask bits < v)
      | SAdd \<Rightarrow> (a + b, signed_overflow bits (i128_exact (sa + sb)))
      | SSub \<Rightarrow> (a - b, signed_overflow bits (i128_exact (sa - sb)))
      | SMul \<Rightarrow> (a * b, signed_overflow bits (i128_exact (sa * sb))))"

definition int_checked :: "checked_op \<Rightarrow> ty \<Rightarrow> const_value \<Rightarrow> const_value \<Rightarrow> (const_value \<times> bool) option" where
  "int_checked op t l r =
     Option.bind (shape t) (\<lambda>(bits, _).
     Option.bind (int_raw l bits) (\<lambda>a.
     Option.bind (int_raw r bits) (\<lambda>b.
     let (wrapped, overflow) = int_checked_value op bits a b in
     Option.bind (int_pack t wrapped) (\<lambda>v. Some (v, overflow)))))"

definition shape_bits :: "ty \<Rightarrow> nat" where
  "shape_bits t = (case shape t of Some (bits, _) \<Rightarrow> bits | None \<Rightarrow> 1)"

definition int_cast :: "cast_op \<Rightarrow> ty \<Rightarrow> ty \<Rightarrow> const_value \<Rightarrow> const_value option" where
  "int_cast op src dst v =
     Option.bind (int_raw v (shape_bits src)) (\<lambda>p.
     int_pack dst (if op = SExt then int_signed p (shape_bits src) else p))"

definition int_compare :: "icmp_pred \<Rightarrow> ty \<Rightarrow> const_value \<Rightarrow> const_value \<Rightarrow> bool option" where
  "int_compare pred t l r =
     (let bits = shape_bits t in
      Option.bind (int_raw l bits) (\<lambda>a.
      Option.bind (int_raw r bits) (\<lambda>b.
      let sa = sint (int_signed a bits); sb = sint (int_signed b bits) in
      Some (case pred of
          IEq \<Rightarrow> a = b | INe \<Rightarrow> a \<noteq> b
        | IUlt \<Rightarrow> a < b | IUle \<Rightarrow> a \<le> b | IUgt \<Rightarrow> b < a | IUge \<Rightarrow> b \<le> a
        | ISlt \<Rightarrow> sa < sb | ISle \<Rightarrow> sa \<le> sb | ISgt \<Rightarrow> sb < sa | ISge \<Rightarrow> sb \<le> sa))))"

text \<open>\<open>unsigned_abs\<close> of a negative \<open>i128\<close> is its two's complement negation.\<close>

definition int_checked_cast :: "ty \<Rightarrow> ty \<Rightarrow> const_value \<Rightarrow> int_fail + const_value" where
  "int_checked_cast src dst v =
     rbind (ok_or (shape src) Unreachable) (\<lambda>(sb, ss).
     rbind (ok_or (shape dst) Unreachable) (\<lambda>(db, ds).
     rbind (ok_or (int_raw v sb) Unreachable) (\<lambda>p.
     let negative = (ss \<and> sint (int_signed p sb) < 0);
         magnitude = (if negative then - int_signed p sb else p);
         maximum = (if ds then push_bit (db - 1) 1 - of_bool (\<not> negative) else int_mask db)
     in if (negative \<and> \<not> ds) \<or> maximum < magnitude then Inl (Trapped InvalidConversion)
        else ok_or (int_pack dst (if negative then 0 - magnitude else magnitude)) Unreachable)))"

subsection \<open>Patterns as integers\<close>

text \<open>The representative of an integer in a type of \<open>n\<close> bits, signed or unsigned.\<close>

definition wrap_to :: "nat \<Rightarrow> bool \<Rightarrow> int \<Rightarrow> int" where
  "wrap_to n s z = (if s then signed_take_bit (n - 1) z else take_bit n z)"

fun const_int :: "const_value \<Rightarrow> int" where
  "const_int (ConstI v) = sint v"
| "const_int (ConstU v) = uint v"
| "const_int (ConstBool b) = of_bool b"
| "const_int (ConstF _) = 0"

definition is_integral :: "const_value \<Rightarrow> bool" where
  "is_integral v = (case v of ConstF _ \<Rightarrow> False | _ \<Rightarrow> True)"

lemma shape_width: "shape t = Some (n, s) \<Longrightarrow> 0 < n \<and> n \<le> 128"
  by (cases t) (auto simp: shape_def)

lemma int_mask_mask: "n \<le> 128 \<Longrightarrow> int_mask n = mask n"
  by (simp add: int_mask_def mask_eq_decr_exp push_bit_eq_mult)

lemma and_int_mask: "n \<le> 128 \<Longrightarrow> w AND int_mask n = take_bit n w"
  by (simp add: int_mask_mask take_bit_eq_mask)

lemma take_bit_sint: "n \<le> 128 \<Longrightarrow> take_bit n (sint (w :: u128)) = take_bit n (uint w)"
  by (simp add: sint_uint take_bit_signed_take_bit)

lemma take_bit_pattern: "take_bit n w = p \<longleftrightarrow> uint p = take_bit n (uint (w :: u128))"
  by (auto simp: word_uint_eq_iff unsigned_take_bit_eq)

lemma int_raw_value:
  "n \<le> 128 \<Longrightarrow> int_raw v n = Some p \<longleftrightarrow> is_integral v \<and> uint p = take_bit n (const_int v)"
  by (cases v) (simp_all add: int_raw_def is_integral_def and_int_mask take_bit_sint take_bit_pattern)

lemma int_signed_Suc:
  assumes "Suc m \<le> 128"
  shows "int_signed (take_bit (Suc m) w) (Suc m) = signed_take_bit m w"
proof (cases "m = 127")
  case True
  have "signed_take_bit 127 w = w"
  proof (rule bit_word_eqI)
    fix k
    assume "k < LENGTH(128)"
    then have "k < 127 \<or> k = 127" by auto
    then show "bit (signed_take_bit 127 w) k \<longleftrightarrow> bit w k" by (auto simp: bit_simps min_def)
  qed
  with True show ?thesis by (simp add: int_signed_def take_bit_word_eq_self)
next
  case False
  with assms have m: "m < 127" by simp
  have sign: "take_bit (Suc m) w AND push_bit m 1 \<noteq> 0 \<longleftrightarrow> bit w m"
    by (simp add: and_exp_eq_0_iff_not_bit push_bit_of_1 bit_take_bit_iff)
  show ?thesis
  proof (rule bit_word_eqI)
    fix k
    assume k: "k < LENGTH(128)"
    show "bit (int_signed (take_bit (Suc m) w) (Suc m)) k \<longleftrightarrow> bit (signed_take_bit m w) k"
    proof (cases "k \<le> m")
      case True
      with k m show ?thesis by (simp add: int_signed_def int_mask_mask bit_simps min_def)
    next
      case False
      with k m sign show ?thesis by (simp add: int_signed_def int_mask_mask bit_simps min_def)
    qed
  qed
qed

lemma sint_signed_take_bit_Suc:
  "m < 128 \<Longrightarrow> sint (signed_take_bit m (w :: u128)) = signed_take_bit m (uint w)"
  by (rule bit_eqI) (simp add: bit_simps min_def)

lemma int_signed_bits:
  "0 < n \<Longrightarrow> n \<le> 128 \<Longrightarrow> int_signed (take_bit n w) n = signed_take_bit (n - 1) w"
  using int_signed_Suc [of "n - 1" w] by (cases n) simp_all

lemma sint_int_signed:
  "0 < n \<Longrightarrow> n \<le> 128 \<Longrightarrow> sint (int_signed (take_bit n w) n) = signed_take_bit (n - 1) (uint w)"
  by (simp add: int_signed_bits sint_signed_take_bit_Suc)

text \<open>Literals of an integer type are the integers in its range.\<close>

definition in_range :: "nat \<Rightarrow> bool \<Rightarrow> int \<Rightarrow> bool" where
  "in_range n s z \<longleftrightarrow> (if s then - (2 ^ (n - 1)) \<le> z \<and> z < 2 ^ (n - 1) else 0 \<le> z \<and> z < 2 ^ n)"

lemma wrap_to_in_range: "0 < n \<Longrightarrow> in_range n s (wrap_to n s z)"
  using signed_take_bit_int_greater_eq_minus_exp [of "n - 1" z] signed_take_bit_int_less_exp [of "n - 1" z]
  by (simp add: in_range_def wrap_to_def)

lemma wrap_to_id: "0 < n \<Longrightarrow> in_range n s z \<Longrightarrow> wrap_to n s z = z"
  by (cases n) (auto simp: in_range_def wrap_to_def signed_take_bit_int_eq_self_iff take_bit_int_eq_self_iff)

lemma take_bit_wrap_to: "0 < n \<Longrightarrow> take_bit n (wrap_to n s z) = take_bit n z"
  by (cases n) (auto simp: wrap_to_def take_bit_signed_take_bit)

lemma wrap_to_take_bit: "0 < n \<Longrightarrow> wrap_to n s (take_bit n z) = wrap_to n s z"
  by (cases n) (auto simp: wrap_to_def signed_take_bit_take_bit)

lemma wrap_to_cong: "0 < n \<Longrightarrow> take_bit n x = take_bit n y \<Longrightarrow> wrap_to n s x = wrap_to n s y"
  by (metis wrap_to_take_bit)

fun has_sign :: "bool \<Rightarrow> const_value \<Rightarrow> bool" where
  "has_sign s (ConstI _) = s"
| "has_sign s (ConstU _) = (\<not> s)"
| "has_sign s _ = False"

lemma fits_signed_iff: "fits_signed n v \<longleftrightarrow> in_range n True (sint v)"
  by (simp add: fits_signed_def in_range_def)

lemma fits_unsigned_iff: "n < 128 \<Longrightarrow> fits_unsigned n v \<longleftrightarrow> in_range n False (uint v)"
proof -
  assume n: "n < 128"
  then have "uint (push_bit n 1 :: u128) = 2 ^ n"
    using unat_power_of_two [of n, where 'a = 128] by (simp add: push_bit_of_1 uint_nat)
  then show ?thesis by (simp add: fits_unsigned_def in_range_def word_less_def)
qed

lemma valid_constant_int:
  assumes "shape t = Some (n, s)"
  shows "valid_constant t v \<longleftrightarrow> has_sign s v \<and> in_range n s (const_int v)"
proof -
  have full: "in_range 128 True (sint w)" "in_range 128 False (uint w)" for w :: u128
    using sint_greater_eq [of w] sint_less [of w] unsigned_less [of w, where 'a = int] by (simp_all add: in_range_def)
  show ?thesis
    using assms full
    by (cases v; cases t) (auto simp: shape_def valid_constant_def fits_signed_iff fits_unsigned_iff
        split: float_bits.splits)
qed

text \<open>A packed pattern is the representative of the pattern, and valid for the type.\<close>

lemma int_pack_value:
  assumes "shape t = Some (n, s)"
  shows "\<exists>v. int_pack t w = Some v \<and> const_int v = wrap_to n s (uint w) \<and> is_integral v \<and> valid_constant t v"
proof -
  have n: "0 < n" "n \<le> 128" using shape_width [OF assms] by auto
  let ?v = "if s then ConstI (signed_take_bit (n - 1) w) else ConstU (take_bit n w)"
  have "int_pack t w = Some ?v"
    using assms n by (simp add: int_pack_def and_int_mask int_signed_bits Let_def)
  moreover have "const_int ?v = wrap_to n s (uint w)"
    using n by (simp add: wrap_to_def sint_signed_take_bit_Suc unsigned_take_bit_eq)
  moreover have "is_integral ?v" by (simp add: is_integral_def)
  moreover from this have "valid_constant t ?v"
    unfolding valid_constant_int [OF assms] \<open>const_int ?v = wrap_to n s (uint w)\<close>
    using wrap_to_in_range [OF n(1)] by simp
  ultimately show ?thesis by blast
qed

subsection \<open>Operations on mathematical integers\<close>

definition shift_amount :: "nat \<Rightarrow> int \<Rightarrow> nat" where
  "shift_amount n y = nat (take_bit n y mod int n)"

text \<open>The exact result before reduction, for operands \<open>x\<close> and \<open>y\<close> of an \<open>n\<close>-bit
  type; an operation with a sign of its own reads its operands with that sign.\<close>

definition math_bin :: "bin_op \<Rightarrow> nat \<Rightarrow> int \<Rightarrow> int \<Rightarrow> int" where
  "math_bin op n x y =
     (case op of
        Add \<Rightarrow> x + y
      | Sub \<Rightarrow> x - y
      | Mul \<Rightarrow> x * y
      | UDiv \<Rightarrow> take_bit n x div take_bit n y
      | URem \<Rightarrow> take_bit n x mod take_bit n y
      | SDiv \<Rightarrow> signed_take_bit (n - 1) x sdiv signed_take_bit (n - 1) y
      | SRem \<Rightarrow> signed_take_bit (n - 1) x smod signed_take_bit (n - 1) y
      | And \<Rightarrow> x AND y
      | Or \<Rightarrow> x OR y
      | Xor \<Rightarrow> x XOR y
      | Shl \<Rightarrow> push_bit (shift_amount n y) x
      | LShr \<Rightarrow> drop_bit (shift_amount n y) (take_bit n x)
      | AShr \<Rightarrow> drop_bit (shift_amount n y) (signed_take_bit (n - 1) x)
      | _ \<Rightarrow> 0)"

definition int_op :: "bin_op \<Rightarrow> bool" where
  "int_op op = (op \<notin> {FAdd, FSub, FMul, FDiv, FRem})"

lemma uint_arith:
  fixes a b :: u128
  shows "uint (a + b) = take_bit 128 (uint a + uint b)" "uint (a - b) = take_bit 128 (uint a - uint b)"
    "uint (a * b) = take_bit 128 (uint a * uint b)" "uint (word_of_int z :: u128) = take_bit 128 z"
  by (simp_all add: uint_word_ariths take_bit_eq_mod uint_word_of_int)

lemma take_bit_take_128: "n \<le> 128 \<Longrightarrow> take_bit n (take_bit 128 z) = take_bit n (z :: int)"
  by (simp add: min_def)

lemma take_bit_arith:
  "take_bit n (take_bit n x + take_bit n y) = take_bit n (x + y :: int)"
  "take_bit n (take_bit n x - take_bit n y) = take_bit n (x - y :: int)"
  "take_bit n (take_bit n x * take_bit n y) = take_bit n (x * y :: int)"
  by (simp_all add: take_bit_eq_mod mod_simps)

lemma take_bit_push_take: "take_bit n (push_bit c (take_bit n x)) = take_bit n (push_bit c (x :: int))"
  by (simp add: take_bit_push_bit min_def)

lemma pattern_self: "uint (a :: u128) = take_bit n x \<Longrightarrow> take_bit n a = a"
  by (simp add: take_bit_pattern)

lemma sint_pattern:
  assumes "0 < n" "n \<le> 128" "uint a = take_bit n x"
  shows "sint (int_signed a n) = signed_take_bit (n - 1) x"
proof -
  have "int_signed a n = int_signed (take_bit n a) n" by (simp only: pattern_self [OF assms(3)])
  then show ?thesis
    using assms sint_int_signed [of n a] by (cases n) (simp_all add: signed_take_bit_take_bit)
qed

lemma shift_count_pattern:
  assumes "0 < n" "n \<le> 128" "uint b = take_bit n y"
  shows "unat (b mod (of_nat n :: u128)) = shift_amount n y"
proof -
  have "unat (of_nat n :: u128) = n" using assms(2) by (simp add: unat_of_nat)
  then have "int (unat (of_nat n :: u128)) = int n" by (simp only:)
  then have w: "uint (of_nat n :: u128) = int n" by (simp only: uint_nat)
  have "uint (b mod of_nat n) = uint b mod uint (of_nat n :: u128)" by (rule uint_mod_distrib)
  then have "uint (b mod of_nat n) = take_bit n y mod int n" by (simp only: w assms(3))
  then show ?thesis by (simp only: shift_amount_def unat_eq_nat_uint)
qed

definition is_division :: "bin_op \<Rightarrow> bool" where
  "is_division op = (op \<in> {UDiv, SDiv, URem, SRem})"

lemma int_bin_value_zero:
  assumes "is_division op"
  shows "int_bin_value op n a 0 =
    Inl (Trapped (if op = UDiv \<or> op = SDiv then DivisionByZero else RemainderByZero))"
  using assms by (auto simp: int_bin_value_def is_division_def)

lemma int_bin_value_ok:
  assumes n: "0 < n" "n \<le> 128" and a: "uint a = take_bit n x" and b: "uint b = take_bit n y"
    and op: "int_op op" and nz: "is_division op \<longrightarrow> take_bit n y \<noteq> 0"
  shows "\<exists>w. int_bin_value op n a b = Inr w \<and> take_bit n (uint w) = take_bit n (math_bin op n x y)"
proof -
  have zero: "b = 0 \<longleftrightarrow> take_bit n y = 0" using b by (simp add: word_uint_eq_iff)
  have sa: "sint (int_signed a n) = signed_take_bit (n - 1) x" by (rule sint_pattern [OF n a])
  have sb: "sint (int_signed b n) = signed_take_bit (n - 1) y" by (rule sint_pattern [OF n b])
  have c: "unat (b mod of_nat n) = shift_amount n y" by (rule shift_count_pattern [OF n b])
  have m: "min n 128 = n" "min 128 n = n" using n(2) by simp_all
  note simps = int_bin_value_def math_bin_def zero uint_arith a b m
    take_bit_arith c i128_div_def i128_rem_def sa sb Let_def int_op_def is_division_def
  have ashr: "take_bit n (uint (signed_drop_bit k (int_signed a n))) =
      take_bit n (drop_bit k (signed_take_bit (n - 1) x))" for k
    using take_bit_sint [OF n(2), of "signed_drop_bit k (int_signed a n)"]
    by (simp add: sint_signed_drop_bit_eq sa)
  show ?thesis
    using op nz
    by (cases op) (auto simp: simps ashr uint_div_distrib uint_mod_distrib unsigned_and_eq
        unsigned_or_eq unsigned_xor_eq unsigned_push_bit_eq unsigned_drop_bit_eq take_bit_push_take)
qed

subsection \<open>Overflow and range tests\<close>

lemma sint_exact: "i128_exact z = Some v \<Longrightarrow> sint v = z"
  by (auto simp: i128_exact_def signed_of_int signed_take_bit_int_eq_self_iff split: if_splits)

lemma sint_sign_bit: "m < 127 \<Longrightarrow> sint (push_bit m 1 :: i128) = 2 ^ m"
proof -
  assume m: "m < 127"
  then have "(2 :: int) ^ m < 2 ^ 127" by (intro power_strict_increasing) simp_all
  then have "signed_take_bit 127 ((2 :: int) ^ m) = 2 ^ m"
    using order_trans [of "- (2 ^ 127)" 0 "(2 :: int) ^ m"] by (simp add: signed_take_bit_int_eq_self_iff)
  moreover have "(push_bit m 1 :: i128) = word_of_int (2 ^ m)" by (simp add: push_bit_of_1)
  ultimately show ?thesis by (simp add: signed_of_int del: of_int_power)
qed

lemma uint_sign_bit: "m < 128 \<Longrightarrow> uint (push_bit m 1 :: u128) = 2 ^ m"
  using unat_power_of_two [of m, where 'a = 128] by (simp add: push_bit_of_1 uint_nat)

lemma in_range_mono: "in_range n True z \<Longrightarrow> n \<le> m \<Longrightarrow> in_range m True z"
proof -
  assume "in_range n True z" "n \<le> m"
  moreover from \<open>n \<le> m\<close> have "(2 :: int) ^ (n - 1) \<le> 2 ^ (m - 1)" by (intro power_increasing) simp_all
  ultimately show ?thesis unfolding in_range_def if_True by linarith
qed

lemma signed_overflow_exact:
  assumes "0 < n" "n \<le> 128"
  shows "signed_overflow n (i128_exact z) \<longleftrightarrow> \<not> in_range n True z"
proof (cases "i128_exact z")
  case None
  then have "\<not> in_range 128 True z" by (auto simp: i128_exact_def in_range_def split: if_splits)
  with None in_range_mono [of n z 128] assms show ?thesis by (auto simp: signed_overflow_def)
next
  case (Some v)
  then have full: "in_range 128 True z" by (auto simp: i128_exact_def in_range_def split: if_splits)
  show ?thesis
  proof (cases "n = 128")
    case True
    with Some full show ?thesis by (simp add: signed_overflow_def)
  next
    case False
    with assms have "n - 1 < 127" "n < 128" by auto
    with Some sint_exact [OF Some] show ?thesis
      by (auto simp: signed_overflow_def in_range_def sint_sign_bit simp del: push_bit_of_1 One_nat_def)
  qed
qed

lemma uint_int_mask: "n \<le> 128 \<Longrightarrow> uint (int_mask n) = 2 ^ n - 1"
proof -
  assume n: "n \<le> 128"
  have "int_mask n = take_bit n (- 1)" by (simp add: int_mask_mask [OF n] take_bit_minus_one_eq_mask)
  then have "uint (int_mask n) = take_bit n (uint (- 1 :: u128))" by (simp only: unsigned_take_bit_eq)
  also have "\<dots> = mask n" using n by (simp add: unsigned_minus_1_eq_mask take_bit_eq_mask flip: mask_eq_exp_minus_1) (rule bit_eqI, auto simp: bit_simps)
  finally show ?thesis by (simp add: mask_eq_exp_minus_1)
qed

lemma pattern_bounds:
  assumes "uint a = take_bit n x"
  shows "0 \<le> uint a" "uint a < 2 ^ n"
  using assms take_bit_int_less_exp [of n x] by simp_all

definition op_signed :: "checked_op \<Rightarrow> bool" where
  "op_signed op = (op \<in> {SAdd, SSub, SMul})"

text \<open>The exact sum, difference or product of the operands as the operation reads them.\<close>

definition math_checked :: "checked_op \<Rightarrow> nat \<Rightarrow> int \<Rightarrow> int \<Rightarrow> int" where
  "math_checked op n x y =
     (let x' = wrap_to n (op_signed op) x; y' = wrap_to n (op_signed op) y in
      if op \<in> {UAdd, SAdd} then x' + y' else if op \<in> {USub, SSub} then x' - y' else x' * y')"

lemma unsigned_overflow_exact:
  assumes n: "n \<le> 128" and a: "uint a = take_bit n x" and b: "uint b = take_bit n y"
  shows "2 ^ 128 \<le> uint a + uint b \<or> int_mask n < a + b \<longleftrightarrow> \<not> in_range n False (uint a + uint b)"
    and "a < b \<longleftrightarrow> \<not> in_range n False (uint a - uint b)"
    and "(case checked_mul a b of None \<Rightarrow> True | Some v \<Rightarrow> int_mask n < v) \<longleftrightarrow>
      \<not> in_range n False (uint a * uint b)"
proof -
  note ab = pattern_bounds [OF a] pattern_bounds [OF b]
  have le: "(2 :: int) ^ n \<le> 2 ^ 128" using n by (intro power_increasing) simp_all
  show "2 ^ 128 \<le> uint a + uint b \<or> int_mask n < a + b \<longleftrightarrow> \<not> in_range n False (uint a + uint b)"
  proof (cases "2 ^ 128 \<le> uint a + uint b")
    case True
    with le show ?thesis by (auto simp: in_range_def)
  next
    case False
    then have "uint (a + b) = uint a + uint b" by (simp add: uint_arith take_bit_int_eq_self_iff)
    with False n ab show ?thesis by (auto simp: word_less_def uint_int_mask in_range_def)
  qed
  show "a < b \<longleftrightarrow> \<not> in_range n False (uint a - uint b)"
    using ab unfolding word_less_def in_range_def if_False by linarith
  show "(case checked_mul a b of None \<Rightarrow> True | Some v \<Rightarrow> int_mask n < v) \<longleftrightarrow>
      \<not> in_range n False (uint a * uint b)"
  proof (cases "checked_mul a b")
    case None
    then have "2 ^ 128 \<le> unat a * unat b" by (simp add: checked_mul_def split: if_splits)
    then have "int (2 ^ 128) \<le> int (unat a * unat b)" by (simp only: of_nat_le_iff)
    then have "2 ^ 128 \<le> uint a * uint b" by simp
    with None le show ?thesis by (auto simp: in_range_def)
  next
    case (Some v)
    then have "int (unat v) = int (unat a * unat b)" by (simp only: checked_mul_eq_Some)
    then have v: "uint v = uint a * uint b" by (simp only: uint_nat of_nat_mult)
    show ?thesis
      using n ab v uint_int_mask [OF n] unfolding Some option.case word_less_def in_range_def if_False
      by (simp add: linorder_not_less zle_diff1_eq flip: not_le)
  qed
qed

lemma take_bit_pattern_wrap: "0 < n \<Longrightarrow> uint a = take_bit n x \<Longrightarrow> uint a = wrap_to n False x"
  by (simp add: wrap_to_def)

lemma int_checked_value_correct:
  assumes n: "0 < n" "n \<le> 128" and a: "uint a = take_bit n x" and b: "uint b = take_bit n y"
  shows "snd (int_checked_value op n a b) \<longleftrightarrow> \<not> in_range n (op_signed op) (math_checked op n x y)"
    and "take_bit n (uint (fst (int_checked_value op n a b))) = take_bit n (math_checked op n x y)"
proof -
  have sg: "sint (int_signed a n) = wrap_to n True x" "sint (int_signed b n) = wrap_to n True y"
    using sint_pattern [OF n a] sint_pattern [OF n b] by (simp_all add: wrap_to_def)
  have us: "take_bit n x = uint a" "take_bit n y = uint b" by (simp_all add: a b)
  have ops: "op_signed UAdd = False" "op_signed USub = False" "op_signed UMul = False"
    "op_signed SAdd" "op_signed SSub" "op_signed SMul"
    by (simp_all add: op_signed_def)
  show "snd (int_checked_value op n a b) \<longleftrightarrow> \<not> in_range n (op_signed op) (math_checked op n x y)"
    using unsigned_overflow_exact [OF n(2) a b]
    by (cases op) (simp_all add: int_checked_value_def math_checked_def Let_def sg ops
        signed_overflow_exact [OF n] wrap_to_def us)
  have m: "min n 128 = n" "min 128 n = n" using n(2) by simp_all
  have t: "take_bit n (uint a) = take_bit n (wrap_to n s x)" "take_bit n (uint b) = take_bit n (wrap_to n s y)" for s
    using n(1) by (simp_all add: take_bit_wrap_to a b)
  have "take_bit n (uint a + uint b) = take_bit n (wrap_to n s x + wrap_to n s y)"
    "take_bit n (uint a - uint b) = take_bit n (wrap_to n s x - wrap_to n s y)"
    "take_bit n (uint a * uint b) = take_bit n (wrap_to n s x * wrap_to n s y)" for s
    by (metis t take_bit_arith)+
  then show "take_bit n (uint (fst (int_checked_value op n a b))) = take_bit n (math_checked op n x y)"
    by (cases op) (simp_all add: int_checked_value_def math_checked_def Let_def uint_arith m)
qed

lemma int_raw_some: "n \<le> 128 \<Longrightarrow> is_integral v \<Longrightarrow> \<exists>p. int_raw v n = Some p \<and> uint p = take_bit n (const_int v)"
proof -
  assume "n \<le> 128" "is_integral v"
  moreover from \<open>is_integral v\<close> obtain p where "int_raw v n = Some p"
    by (cases v) (simp_all add: is_integral_def int_raw_def)
  ultimately show ?thesis using int_raw_value [of n v p] by blast
qed

lemma uint_unsigned_abs:
  assumes "0 < n" "n \<le> 128" "uint p = take_bit n x" "signed_take_bit (n - 1) x < 0"
  shows "uint (- int_signed p n) = - signed_take_bit (n - 1) x"
proof -
  let ?z = "signed_take_bit (n - 1) x"
  have "- (2 ^ 127) \<le> - (2 ^ (n - 1) :: int)" using assms(2) by (simp only: neg_le_iff_le) (intro power_increasing, auto)
  with signed_take_bit_int_greater_eq_minus_exp [of "n - 1" x] have "- (2 ^ 127) \<le> ?z" by linarith
  moreover have "int_signed p n = word_of_int ?z"
    unfolding sint_pattern [OF assms(1-3), symmetric] by simp
  then have "- int_signed p n = word_of_int (- ?z)" by (simp only: of_int_minus)
  then have "uint (- int_signed p n) = take_bit 128 (- ?z)" by (simp only: uint_arith)
  moreover from assms(4) have "?z \<le> 0" by (rule less_imp_le)
  ultimately show ?thesis by (simp add: take_bit_int_eq_self_iff)
qed

lemma int_checked_cast_value:
  assumes src: "shape src = Some (n, s)" and dst: "shape dst = Some (m, d)" and v: "is_integral v"
  shows "if in_range m d (wrap_to n s (const_int v))
    then \<exists>w. int_checked_cast src dst v = Inr w \<and> valid_constant dst w \<and> const_int w = wrap_to n s (const_int v)
    else int_checked_cast src dst v = Inl (Trapped InvalidConversion)"
proof -
  let ?x = "const_int v"
  let ?z = "wrap_to n s ?x"
  have n: "0 < n" "n \<le> 128" and m: "0 < m" "m \<le> 128" using shape_width [OF src] shape_width [OF dst] by auto
  obtain p where p: "int_raw v n = Some p" "uint p = take_bit n ?x" using int_raw_some [OF n(2) v] by blast
  define neg where "neg = (s \<and> sint (int_signed p n) < 0)"
  define mag where "mag = (if neg then - int_signed p n else p)"
  define top where "top = (if d then push_bit (m - 1) 1 - of_bool (\<not> neg) else int_mask m)"
  have sz: "sint (int_signed p n) = signed_take_bit (n - 1) ?x" by (rule sint_pattern [OF n p(2)])
  have neg: "neg \<longleftrightarrow> ?z < 0" by (simp add: neg_def sz wrap_to_def)
  have mag: "uint mag = \<bar>?z\<bar>"
  proof (cases neg)
    case True
    then have "s" "signed_take_bit (n - 1) ?x < 0" by (simp_all add: neg_def sz)
    with True show ?thesis by (simp add: mag_def wrap_to_def uint_unsigned_abs [OF n p(2)] abs_if)
  next
    case False
    then have "0 \<le> ?z" using neg by simp
    moreover have "take_bit n ?z = ?z"
      using wrap_to_in_range [OF n(1), of s ?x] \<open>0 \<le> ?z\<close> n(1)
      by (cases n) (auto simp: take_bit_int_eq_self_iff in_range_def split: if_splits)
    ultimately show ?thesis using False p(2) take_bit_wrap_to [OF n(1), of s ?x] by (simp add: mag_def)
  qed
  have half: "uint (push_bit (m - 1) 1 :: u128) = 2 ^ (m - 1)" using m by (intro uint_sign_bit) simp
  have "uint (push_bit (m - 1) 1 - 1 :: u128) = 2 ^ (m - 1) - 1"
    unfolding uint_arith half using uint_bounded [of "push_bit (m - 1) 1 :: u128"] half
    by (simp add: take_bit_int_eq_self_iff)
  then have top: "uint top = (if d then 2 ^ (m - 1) - of_bool (\<not> neg) else 2 ^ m - 1)"
    using half m by (simp add: top_def uint_int_mask)
  have fit: "(neg \<and> \<not> d) \<or> top < mag \<longleftrightarrow> \<not> in_range m d ?z"
    unfolding word_less_def mag top in_range_def neg by auto
  have run: "int_checked_cast src dst v =
      (if (neg \<and> \<not> d) \<or> top < mag then Inl (Trapped InvalidConversion)
       else ok_or (int_pack dst (if neg then 0 - mag else mag)) Unreachable)"
    by (simp add: int_checked_cast_def src dst p(1) Let_def neg_def mag_def top_def)
  have pat: "take_bit m (uint (if neg then 0 - mag else mag)) = take_bit m ?z"
    using mag neg m uint_arith(2) [of 0 mag] by (auto simp: min_def abs_if)
  obtain w where w: "int_pack dst (if neg then 0 - mag else mag) = Some w" "valid_constant dst w"
    "const_int w = wrap_to m d (uint (if neg then 0 - mag else mag))"
    using int_pack_value [OF dst] by blast
  have "const_int w = wrap_to m d ?z" unfolding w(3) by (rule wrap_to_cong [OF m(1) pat])
  with run fit w(1,2) wrap_to_id [OF m(1), of d ?z] show ?thesis by auto
qed

subsection \<open>Correctness of the operations\<close>

lemma int_bin_exact_raw:
  assumes t: "shape t = Some (n, s)" and op: "int_op op" and l: "is_integral l" and r: "is_integral r"
  shows "if is_division op \<and> take_bit n (const_int r) = 0
    then int_bin op t l r =
      Inl (Trapped (if op = UDiv \<or> op = SDiv then DivisionByZero else RemainderByZero))
    else \<exists>v. int_bin op t l r = Inr v \<and> valid_constant t v \<and>
      const_int v = wrap_to n s (math_bin op n (const_int l) (const_int r))"
proof -
  have n: "0 < n" "n \<le> 128" using shape_width [OF t] by auto
  obtain a where a: "int_raw l n = Some a" "uint a = take_bit n (const_int l)" using int_raw_some [OF n(2) l] by blast
  obtain b where b: "int_raw r n = Some b" "uint b = take_bit n (const_int r)" using int_raw_some [OF n(2) r] by blast
  have run: "int_bin op t l r = rbind (int_bin_value op n a b) (\<lambda>v. ok_or (int_pack t v) Unreachable)"
    by (simp add: int_bin_def t a(1) b(1))
  show ?thesis
  proof (cases "is_division op \<and> take_bit n (const_int r) = 0")
    case True
    then have "b = 0" using b(2) by (simp add: word_uint_eq_iff)
    with True show ?thesis by (simp add: run int_bin_value_zero)
  next
    case False
    then obtain w where w: "int_bin_value op n a b = Inr w"
      "take_bit n (uint w) = take_bit n (math_bin op n (const_int l) (const_int r))"
      using int_bin_value_ok [OF n a(2) b(2) op] by auto
    obtain v where "int_pack t w = Some v" "const_int v = wrap_to n s (uint w)" "valid_constant t v"
      using int_pack_value [OF t] by blast
    with False w wrap_to_cong [OF n(1) w(2)] show ?thesis by (simp add: run)
  qed
qed

text \<open>C24. Integer arithmetic is exact arithmetic reduced once.  On operands of an integer type
  of \<open>n\<close> bits, a division or remainder traps exactly when the divisor's pattern is zero,
  with the trap of that operation; every other case yields a valid literal of the type
  whose value is the mathematical result reduced to the type.\<close>

theorem int_bin_exact:
  assumes t: "shape t = Some (n, s)" and op: "int_op op" and l: "is_integral l" and r: "is_integral r"
  shows "if is_division op \<and> take_bit n (const_int r) = 0
    then int_bin op t l r =
      Inl (Trapped (if op = UDiv \<or> op = SDiv then DivisionByZero else RemainderByZero))
    else \<exists>v. int_bin op t l r = Inr v \<and> valid_constant t v \<and>
      const_int v = wrap_to n s (math_bin op n (const_int l) (const_int r))"
  by (rule int_bin_exact_raw [OF assms])

theorem int_bin_exact_witness:
  "\<exists>v. int_bin SDiv I8 (ConstI (- 128)) (ConstI (- 1)) = Inr v \<and> valid_constant I8 v \<and> const_int v = - 128"
  using int_bin_exact [of I8 8 True SDiv "ConstI (- 128)" "ConstI (- 1)"]
  by (simp add: shape_def int_op_def is_integral_def is_division_def math_bin_def wrap_to_def)

text \<open>Checked arithmetic reports overflow exactly.  The flag of \<open>checked\<close> is set if and
  only if the exact sum, difference or product of the operands, read with the signedness of
  the operation, is outside the range of that signedness at the width of the type; the value
  delivered beside the flag is the exact result reduced to the type.\<close>

theorem int_checked_exact:
  assumes t: "shape t = Some (n, s)" and l: "is_integral l" and r: "is_integral r"
  shows "\<exists>v overflow. int_checked op t l r = Some (v, overflow) \<and> valid_constant t v \<and>
    const_int v = wrap_to n s (math_checked op n (const_int l) (const_int r)) \<and>
    (overflow \<longleftrightarrow> \<not> in_range n (op_signed op) (math_checked op n (const_int l) (const_int r)))"
proof -
  have n: "0 < n" "n \<le> 128" using shape_width [OF t] by auto
  obtain a where a: "int_raw l n = Some a" "uint a = take_bit n (const_int l)" using int_raw_some [OF n(2) l] by blast
  obtain b where b: "int_raw r n = Some b" "uint b = take_bit n (const_int r)" using int_raw_some [OF n(2) r] by blast
  note c = int_checked_value_correct [OF n a(2) b(2), of op]
  obtain v where "int_pack t (fst (int_checked_value op n a b)) = Some v"
    "const_int v = wrap_to n s (uint (fst (int_checked_value op n a b)))" "valid_constant t v"
    using int_pack_value [OF t] by blast
  with c(1) wrap_to_cong [OF n(1) c(2)] show ?thesis
    by (auto simp: int_checked_def t a(1) b(1) split_beta)
qed

theorem int_checked_exact_witness:
  "\<exists>v overflow. int_checked SMul I16 (ConstI 256) (ConstI 128) = Some (v, overflow) \<and> const_int v = - 32768 \<and> overflow"
  using int_checked_exact [of I16 16 True "ConstI 256" "ConstI 128" SMul]
  by (auto simp: shape_def is_integral_def math_checked_def op_signed_def wrap_to_def in_range_def)

text \<open>A checked conversion preserves the value or traps.  \<open>checked_cast\<close> succeeds if and
  only if the source value is representable in the destination type, and then delivers that
  very integer as a valid literal of the destination; otherwise it traps with
  \<open>InvalidConversion\<close>.\<close>

theorem int_checked_cast_exact:
  assumes "shape src = Some (n, s)" "shape dst = Some (m, d)" "valid_constant src v"
  shows "if in_range m d (const_int v)
    then \<exists>w. int_checked_cast src dst v = Inr w \<and> valid_constant dst w \<and> const_int w = const_int v
    else int_checked_cast src dst v = Inl (Trapped InvalidConversion)"
proof -
  from assms have "has_sign s v" "in_range n s (const_int v)" by (simp_all add: valid_constant_int)
  then have "is_integral v" "wrap_to n s (const_int v) = const_int v"
    using shape_width [OF assms(1)] by (auto simp: is_integral_def wrap_to_id split: const_value.splits)
  then show ?thesis using int_checked_cast_value [OF assms(1,2), of v] by (simp split: if_splits)
qed

theorem int_checked_cast_exact_witness:
  "int_checked_cast I32 U8 (ConstI (- 1)) = Inl (Trapped InvalidConversion) \<and>
   (\<exists>w. int_checked_cast I32 U8 (ConstI 200) = Inr w \<and> const_int w = 200)"
  using int_checked_cast_exact [of I32 32 True U8 8 False "ConstI (- 1)"]
    int_checked_cast_exact [of I32 32 True U8 8 False "ConstI 200"]
  by (auto simp: shape_def in_range_def valid_constant_def fits_signed_def)

text \<open>The plain casts and the comparisons, on integers; a source without a shape is \<open>Bool\<close>.\<close>

lemma int_cast_exact:
  assumes "shape dst = Some (m, d)" "is_integral v"
  shows "\<exists>w. int_cast op src dst v = Some w \<and> valid_constant dst w \<and>
    const_int w = wrap_to m d (wrap_to (shape_bits src) (op = SExt) (const_int v))"
proof -
  have b: "0 < shape_bits src" "shape_bits src \<le> 128"
    using shape_width [of src] by (auto simp: shape_bits_def split: option.splits)
  have m: "0 < m" "m \<le> 128" using shape_width [OF assms(1)] by auto
  obtain p where p: "int_raw v (shape_bits src) = Some p" "uint p = take_bit (shape_bits src) (const_int v)"
    using int_raw_some [OF b(2) assms(2)] by blast
  let ?q = "if op = SExt then int_signed p (shape_bits src) else p"
  have "take_bit m (uint ?q) = take_bit m (wrap_to (shape_bits src) (op = SExt) (const_int v))"
    using take_bit_sint [OF m(2), of "int_signed p (shape_bits src)"] sint_pattern [OF b p(2)] p(2)
    by (simp add: wrap_to_def)
  from wrap_to_cong [OF m(1) this] int_pack_value [OF assms(1), of ?q] p(1) show ?thesis
    by (auto simp: int_cast_def)
qed

definition math_compare :: "icmp_pred \<Rightarrow> nat \<Rightarrow> int \<Rightarrow> int \<Rightarrow> bool" where
  "math_compare pred n x y =
     (let s = (pred \<in> {ISlt, ISle, ISgt, ISge}); x' = wrap_to n s x; y' = wrap_to n s y in
      if pred = IEq then x' = y' else if pred = INe then x' \<noteq> y'
      else if pred \<in> {IUlt, ISlt} then x' < y' else if pred \<in> {IUle, ISle} then x' \<le> y'
      else if pred \<in> {IUgt, ISgt} then x' > y' else x' \<ge> y')"

lemma int_compare_exact:
  assumes "is_integral l" "is_integral r"
  shows "int_compare pred t l r = Some (math_compare pred (shape_bits t) (const_int l) (const_int r))"
proof -
  have b: "0 < shape_bits t" "shape_bits t \<le> 128"
    using shape_width [of t] by (auto simp: shape_bits_def split: option.splits)
  obtain p where p: "int_raw l (shape_bits t) = Some p" "uint p = take_bit (shape_bits t) (const_int l)"
    using int_raw_some [OF b(2) assms(1)] by blast
  obtain q where q: "int_raw r (shape_bits t) = Some q" "uint q = take_bit (shape_bits t) (const_int r)"
    using int_raw_some [OF b(2) assms(2)] by blast
  show ?thesis
    using sint_pattern [OF b p(2)] sint_pattern [OF b q(2)] p q
    by (cases pred) (simp_all add: int_compare_def math_compare_def Let_def wrap_to_def word_less_def
        word_le_def word_uint_eq_iff)
qed

end
