(* ===== verification/IrFloat.thy ===== *)
theory IrFloat
  imports IrInteger "HOL-Library.Log_Nat"
begin

text \<open>
  Software floating point on storage bits: \<open>ir/src/float.rs\<close>, \<open>ir/src/float/arithmetic.rs\<close>
  and \<open>ir/src/float/conversions.rs\<close>.  Significands are 128-bit words as in the sources;
  exponents, \<open>i32\<close> there, are integers, since the three formats keep every exponent
  and every sum of two below four thousand in magnitude.  Shift amounts are natural numbers.
  A double of the host is its bits.
\<close>

subsection \<open>Storage bits\<close>

fun float_width :: "float_bits \<Rightarrow> nat" where
  "float_width (FBits16 _) = 16"
| "float_width (FBits32 _) = 32"
| "float_width (FBits64 _) = 64"

fun float_raw :: "float_bits \<Rightarrow> u64" where
  "float_raw (FBits16 x) = ucast x"
| "float_raw (FBits32 x) = ucast x"
| "float_raw (FBits64 x) = x"

datatype rust_ordering = Less | Equal | Greater

definition cmp :: "'a::linorder \<Rightarrow> 'a \<Rightarrow> rust_ordering" where
  "cmp a b = (if a < b then Less else if a = b then Equal else Greater)"

fun float_masks :: "float_bits \<Rightarrow> u64 \<times> u64" where
  "float_masks (FBits16 _) = (0x7c00, 0x03ff)"
| "float_masks (FBits32 _) = (0x7f800000, 0x007fffff)"
| "float_masks (FBits64 _) = (0x7ff0000000000000, 0x000fffffffffffff)"

definition float_order :: "nat \<Rightarrow> u64 \<Rightarrow> u64 \<Rightarrow> rust_ordering" where
  "float_order width a b =
     (let sign = push_bit (width - 1) 1; magnitude = sign - 1 in
      if a AND magnitude = 0 \<and> b AND magnitude = 0 then Equal
      else if (a XOR b) AND sign \<noteq> 0 then (if a AND sign \<noteq> 0 then Less else Greater)
      else if a AND sign \<noteq> 0 then cmp b a
      else cmp a b)"

definition float_test :: "fcmp_pred \<Rightarrow> bool \<Rightarrow> rust_ordering \<Rightarrow> bool" where
  "float_test pred ordered ord =
     (case pred of
        Oeq \<Rightarrow> ordered \<and> ord = Equal
      | One \<Rightarrow> ordered \<and> ord \<noteq> Equal
      | Olt \<Rightarrow> ordered \<and> ord = Less
      | Ole \<Rightarrow> ordered \<and> ord \<noteq> Greater
      | Ogt \<Rightarrow> ordered \<and> ord = Greater
      | Oge \<Rightarrow> ordered \<and> ord \<noteq> Less
      | Ord \<Rightarrow> ordered
      | Uno \<Rightarrow> \<not> ordered
      | Ueq \<Rightarrow> \<not> ordered \<or> ord = Equal
      | Une \<Rightarrow> \<not> ordered \<or> ord \<noteq> Equal
      | Ult \<Rightarrow> \<not> ordered \<or> ord = Less
      | Ule \<Rightarrow> \<not> ordered \<or> ord \<noteq> Greater
      | Ugt \<Rightarrow> \<not> ordered \<or> ord = Greater
      | Uge \<Rightarrow> \<not> ordered \<or> ord \<noteq> Less)"

definition float_compare :: "float_bits \<Rightarrow> float_bits \<Rightarrow> fcmp_pred \<Rightarrow> bool option" where
  "float_compare l r pred =
     (if float_width l \<noteq> float_width r then None
      else let (exponent, fraction) = float_masks l; a = float_raw l; b = float_raw r;
               nan = (\<lambda>bits. bits AND exponent = exponent \<and> bits AND fraction \<noteq> 0)
           in Some (float_test pred (\<not> nan a \<and> \<not> nan b) (float_order (float_width l) a b)))"

subsection \<open>Hexadecimal text\<close>

datatype float_parse_error = FloatWidth | FloatPrefix | FloatDigits nat nat

definition hex_value :: "char \<Rightarrow> nat option" where
  "hex_value c =
     (let n = (of_char c :: nat) in
      if 48 \<le> n \<and> n \<le> 57 then Some (n - 48)
      else if 97 \<le> n \<and> n \<le> 102 then Some (n - 87)
      else if 65 \<le> n \<and> n \<le> 70 then Some (n - 55)
      else None)"

definition hex_digit :: "nat \<Rightarrow> char" where
  "hex_digit n = (if n < 10 then char_of (48 + n) else char_of (87 + n))"

text \<open>\<open>u64::from_str_radix\<close> on a string of checked digits, and the zero-padded lower-case
  rendering of \<open>Display\<close>.\<close>

definition from_hex :: "string \<Rightarrow> u64" where
  "from_hex ds = fold (\<lambda>c acc. 16 * acc + of_nat (the (hex_value c))) ds 0"

primrec to_hex :: "nat \<Rightarrow> nat \<Rightarrow> string" where
  "to_hex 0 n = []"
| "to_hex (Suc k) n = to_hex k (n div 16) @ [hex_digit (n mod 16)]"

definition float_bits_of_width :: "nat \<Rightarrow> u64 \<Rightarrow> float_bits" where
  "float_bits_of_width width raw =
     (if width = 16 then FBits16 (ucast raw) else if width = 32 then FBits32 (ucast raw) else FBits64 raw)"

definition float_parse :: "nat \<Rightarrow> string \<Rightarrow> float_parse_error + float_bits" where
  "float_parse width text =
     rbind (if width = 16 then Inr 4 else if width = 32 then Inr 8 else if width = 64 then Inr 16
            else Inl FloatWidth) (\<lambda>digits.
     if take 2 text \<noteq> ''0x'' then Inl FloatPrefix
     else let hex = drop 2 text in
       if length hex \<noteq> digits \<or> \<not> list_all (\<lambda>c. hex_value c \<noteq> None) hex
       then Inl (FloatDigits width digits)
       else Inr (float_bits_of_width width (from_hex hex)))"

definition float_display :: "float_bits \<Rightarrow> string" where
  "float_display x = ''0x'' @ to_hex (float_width x div 4) (unat (float_raw x))"

subsection \<open>Direct rounding of a double to half precision\<close>

definition f64_to_f16 :: "u64 \<Rightarrow> u16" where
  "f64_to_f16 bits =
     (let sign = ucast (drop_bit 48 bits AND 0x8000) :: u16;
          ex = uint (drop_bit 52 bits AND 0x7ff);
          fraction = bits AND (push_bit 52 1 - 1);
          unbiased = ex - 1023
      in if ex = 0x7ff then sign OR (if fraction = 0 then 0x7c00 else 0x7e00)
         else if ex = 0 then sign
         else if unbiased > 15 then sign OR 0x7c00
         else if unbiased < - 25 then sign
         else let mantissa = fraction OR push_bit 52 1;
                  shift = (if unbiased < - 14 then nat (28 - unbiased) else 42);
                  base = drop_bit shift mantissa;
                  remainder = mantissa AND (push_bit shift 1 - 1);
                  halfway = push_bit (shift - 1) 1;
                  rounded = base + of_bool (halfway < remainder \<or> remainder = halfway \<and> base AND 1 \<noteq> 0)
              in if unbiased < - 14 then sign OR ucast rounded
                 else sign OR (push_bit 10 (word_of_int (unbiased + 14)) + ucast rounded))"

subsection \<open>Formats\<close>

record float_format =
  fmt_width :: nat
  fmt_fraction :: nat
  fmt_bias :: int

fun format_of :: "float_bits \<Rightarrow> float_format" where
  "format_of (FBits16 _) = \<lparr>fmt_width = 16, fmt_fraction = 10, fmt_bias = 15\<rparr>"
| "format_of (FBits32 _) = \<lparr>fmt_width = 32, fmt_fraction = 23, fmt_bias = 127\<rparr>"
| "format_of (FBits64 _) = \<lparr>fmt_width = 64, fmt_fraction = 52, fmt_bias = 1023\<rparr>"

definition fmt_sign :: "float_format \<Rightarrow> u64" where
  "fmt_sign f = push_bit (fmt_width f - 1) 1"

definition fmt_infinity :: "float_format \<Rightarrow> u64" where
  "fmt_infinity f = push_bit (fmt_fraction f) (word_of_int (fmt_bias f) * 2 + 1)"

definition fmt_bits :: "float_format \<Rightarrow> u64 \<Rightarrow> float_bits" where
  "fmt_bits f raw = float_bits_of_width (fmt_width f) raw"

definition fmt_nan :: "float_format \<Rightarrow> float_bits" where
  "fmt_nan f = fmt_bits f (fmt_infinity f OR push_bit (fmt_fraction f - 1) 1)"

definition fmt_special :: "float_format \<Rightarrow> bool \<Rightarrow> bool \<Rightarrow> float_bits" where
  "fmt_special f negative infinity =
     fmt_bits f ((if negative then fmt_sign f else 0) OR (if infinity then fmt_infinity f else 0))"

record float_parts =
  fp_negative :: bool
  fp_sig :: u128
  fp_exp :: int
  fp_nan :: bool
  fp_infinity :: bool

definition float_unpack :: "float_format \<Rightarrow> float_bits \<Rightarrow> float_parts" where
  "float_unpack f v =
     (let bits = float_raw v;
          ex = uint (drop_bit (fmt_fraction f) (bits AND NOT (fmt_sign f)));
          fraction = bits AND (push_bit (fmt_fraction f) 1 - 1);
          special = (ex = 2 * fmt_bias f + 1)
      in \<lparr>fp_negative = (bits AND fmt_sign f \<noteq> 0),
          fp_sig = (if ex = 0 \<or> special then ucast fraction
                    else ucast fraction OR push_bit (fmt_fraction f) 1),
          fp_exp = max ex 1 - fmt_bias f - int (fmt_fraction f),
          fp_nan = (special \<and> fraction \<noteq> 0),
          fp_infinity = (special \<and> fraction = 0)\<rparr>)"

definition leading_zeros :: "u128 \<Rightarrow> nat" where
  "leading_zeros w = 128 - floorlog 2 (unat w)"

definition float_round :: "u128 \<Rightarrow> nat \<Rightarrow> u128" where
  "float_round v shift =
     (if 128 < shift then 0
      else if shift = 128 then of_bool (push_bit 127 1 < v)
      else let q = drop_bit shift v;
               remainder = v AND (push_bit shift 1 - 1);
               halfway = push_bit (shift - 1) 1
           in q + of_bool (halfway < remainder \<or> remainder = halfway \<and> q AND 1 \<noteq> 0))"

definition jam :: "u128 \<Rightarrow> nat \<Rightarrow> u128" where
  "jam v shift =
     (if shift = 0 then v
      else if 128 \<le> shift then of_bool (v \<noteq> 0)
      else drop_bit shift v OR of_bool (v AND (push_bit shift 1 - 1) \<noteq> 0))"

definition float_pack :: "float_format \<Rightarrow> bool \<Rightarrow> u128 \<Rightarrow> int \<Rightarrow> float_bits" where
  "float_pack f negative sig ex =
     (if sig = 0 then fmt_special f negative False
      else let highest = 127 - int (leading_zeros sig);
               target = max (ex + highest - int (fmt_fraction f)) (1 - fmt_bias f - int (fmt_fraction f));
               shift = target - ex;
               rounded = (if 0 < shift then float_round sig (nat shift) else push_bit (nat (- shift)) sig);
               (rounded, target) =
                 (if push_bit (fmt_fraction f + 1) 1 \<le> rounded then (drop_bit 1 rounded, target + 1)
                  else (rounded, target))
           in if rounded = 0 then fmt_special f negative False
              else let exponent = (if rounded < push_bit (fmt_fraction f) 1 then 0
                                   else target + int (fmt_fraction f) + fmt_bias f)
                   in if 2 * fmt_bias f < exponent then fmt_special f negative True
                      else fmt_bits f
                        ((if negative then fmt_sign f else 0)
                         OR push_bit (fmt_fraction f) (word_of_int exponent)
                         OR (ucast rounded AND (push_bit (fmt_fraction f) 1 - 1))))"

definition float_normalize :: "float_format \<Rightarrow> float_parts \<Rightarrow> float_parts" where
  "float_normalize f p =
     (if fp_sig p \<noteq> 0
      then let shift = leading_zeros (fp_sig p) - (127 - fmt_fraction f)
           in p\<lparr>fp_sig := push_bit shift (fp_sig p), fp_exp := fp_exp p - int shift\<rparr>
      else p)"

definition float_negate :: "float_bits \<Rightarrow> float_bits" where
  "float_negate v = fmt_bits (format_of v) (float_raw v XOR fmt_sign (format_of v))"

subsection \<open>Arithmetic\<close>

definition float_add :: "float_format \<Rightarrow> float_parts \<Rightarrow> float_parts \<Rightarrow> float_bits" where
  "float_add f a b =
     (if fp_infinity a \<or> fp_infinity b then
        if fp_infinity a \<and> fp_infinity b \<and> fp_negative a \<noteq> fp_negative b then fmt_nan f
        else fmt_special f (if fp_infinity a then fp_negative a else fp_negative b) True
      else if fp_sig a = 0 \<and> fp_sig b = 0 then fmt_special f (fp_negative a \<and> fp_negative b) False
      else if fp_sig a = 0 then float_pack f (fp_negative b) (fp_sig b) (fp_exp b)
      else if fp_sig b = 0 then float_pack f (fp_negative a) (fp_sig a) (fp_exp a)
      else let (a, b) = (if fp_exp a < fp_exp b \<or> fp_exp a = fp_exp b \<and> fp_sig a < fp_sig b
                         then (b, a) else (a, b));
               av = push_bit 3 (fp_sig a);
               bv = jam (push_bit 3 (fp_sig b)) (nat (fp_exp a - fp_exp b))
           in if fp_negative a = fp_negative b
              then float_pack f (fp_negative a) (av + bv) (fp_exp a - 3)
              else float_pack f (fp_negative a \<and> av \<noteq> bv) (av - bv) (fp_exp a - 3))"

definition float_mul :: "float_format \<Rightarrow> float_parts \<Rightarrow> float_parts \<Rightarrow> float_bits" where
  "float_mul f a b =
     (let negative = (fp_negative a \<noteq> fp_negative b) in
      if fp_infinity a \<and> fp_sig b = 0 \<and> \<not> fp_infinity b \<or> fp_infinity b \<and> fp_sig a = 0 \<and> \<not> fp_infinity a
      then fmt_nan f
      else if fp_infinity a \<or> fp_infinity b then fmt_special f negative True
      else float_pack f negative (fp_sig a * fp_sig b) (fp_exp a + fp_exp b))"

definition float_div :: "float_format \<Rightarrow> float_parts \<Rightarrow> float_parts \<Rightarrow> float_bits" where
  "float_div f a b =
     (let negative = (fp_negative a \<noteq> fp_negative b) in
      if fp_infinity a \<and> fp_infinity b
         \<or> \<not> fp_infinity a \<and> \<not> fp_infinity b \<and> fp_sig a = 0 \<and> fp_sig b = 0 then fmt_nan f
      else if fp_infinity a \<or> fp_sig b = 0 \<and> \<not> fp_infinity b then fmt_special f negative True
      else if fp_infinity b \<or> fp_sig a = 0 then fmt_special f negative False
      else let shift = fmt_fraction f + 4;
               numerator = push_bit shift (fp_sig a);
               q = (numerator div fp_sig b) OR of_bool (numerator mod fp_sig b \<noteq> 0)
           in float_pack f negative q (fp_exp a - fp_exp b - int shift))"

fun rem_loop :: "u128 \<Rightarrow> u128 \<Rightarrow> u128 \<Rightarrow> nat \<Rightarrow> u128" where
  "rem_loop m r pw shift =
     (if shift = 0 then r
      else rem_loop m (if odd shift then (r * pw) mod m else r) ((pw * pw) mod m) (shift div 2))"

declare rem_loop.simps [simp del]

definition float_rem :: "float_format \<Rightarrow> float_bits \<Rightarrow> float_parts \<Rightarrow> float_parts \<Rightarrow> float_bits" where
  "float_rem f lhs a b =
     (if fp_infinity a \<or> fp_sig b = 0 \<and> \<not> fp_infinity b then fmt_nan f
      else if fp_infinity b \<or> fp_sig a = 0 \<or> fp_exp a < fp_exp b then lhs
      else float_pack f (fp_negative a)
             (rem_loop (fp_sig b) (fp_sig a mod fp_sig b) (2 mod fp_sig b) (nat (fp_exp a - fp_exp b)))
             (fp_exp b))"

definition float_arithmetic :: "bin_op \<Rightarrow> float_bits \<Rightarrow> float_bits \<Rightarrow> float_bits option" where
  "float_arithmetic op lhs rhs =
     (if float_width lhs \<noteq> float_width rhs then None
      else let f = format_of lhs; a = float_unpack f lhs; b = float_unpack f rhs in
        if fp_nan a \<or> fp_nan b then Some (fmt_nan f)
        else let b = (if op = FSub then b\<lparr>fp_negative := \<not> fp_negative b\<rparr> else b);
                 a = float_normalize f a; b = float_normalize f b
             in case op of
                  FAdd \<Rightarrow> Some (float_add f a b)
                | FSub \<Rightarrow> Some (float_add f a b)
                | FMul \<Rightarrow> Some (float_mul f a b)
                | FDiv \<Rightarrow> Some (float_div f a b)
                | FRem \<Rightarrow> Some (float_rem f lhs a b)
                | _ \<Rightarrow> None)"

subsection \<open>Conversions\<close>

definition format_of_type :: "ty \<Rightarrow> float_format option" where
  "format_of_type t =
     (case t of
        F16 \<Rightarrow> Some (format_of (FBits16 0))
      | F32 \<Rightarrow> Some (format_of (FBits32 0))
      | F64 \<Rightarrow> Some (format_of (FBits64 0))
      | _ \<Rightarrow> None)"

definition float_to_float :: "float_format \<Rightarrow> float_bits \<Rightarrow> float_bits" where
  "float_to_float f v =
     (let parts = float_unpack (format_of v) v in
      if fp_nan parts then fmt_nan f
      else if fp_infinity parts then fmt_special f (fp_negative parts) True
      else float_pack f (fp_negative parts) (fp_sig parts) (fp_exp parts))"

definition int_to_float :: "float_format \<Rightarrow> nat \<Rightarrow> bool \<Rightarrow> u128 \<Rightarrow> float_bits" where
  "int_to_float f bits is_signed p =
     (let negative = (is_signed \<and> p AND push_bit (bits - 1) 1 \<noteq> 0);
          magnitude = (if negative then 0 - p else p);
          magnitude = (if bits < 128 then magnitude AND (push_bit bits 1 - 1) else magnitude)
      in float_pack f negative magnitude 0)"

text \<open>The integer part of the magnitude; \<open>None\<close> when it does not fit 128 bits.\<close>

definition float_magnitude :: "float_parts \<Rightarrow> u128 option" where
  "float_magnitude p =
     (if fp_sig p = 0 then Some 0
      else if 0 \<le> fp_exp p then
        let shift = nat (fp_exp p) in
        if 128 \<le> shift \<or> drop_bit shift (- 1) < fp_sig p then None else Some (push_bit shift (fp_sig p))
      else let shift = nat (- fp_exp p) in
        Some (if shift < 128 then drop_bit shift (fp_sig p) else 0))"

text \<open>The outer \<open>None\<close> is the panic of an operand or type the verifier excludes, the inner
  one the invalid conversion the source returns.\<close>

definition float_to_int :: "ty \<Rightarrow> float_bits \<Rightarrow> const_value option option" where
  "float_to_int dst v =
     (let p = float_unpack (format_of v) v in
      if fp_nan p \<or> fp_infinity p then Some None
      else case float_magnitude p of
        None \<Rightarrow> Some None
      | Some magnitude \<Rightarrow>
          Option.bind (shape dst) (\<lambda>(bits, is_signed).
          let maximum = (if is_signed then push_bit (bits - 1) 1 - of_bool (\<not> fp_negative p)
                         else if bits = 128 then - 1 else push_bit bits 1 - 1)
          in if fp_negative p \<and> \<not> is_signed \<and> magnitude \<noteq> 0 \<or> maximum < magnitude then Some None
             else map_option Some (int_pack dst (if fp_negative p then 0 - magnitude else magnitude))))"

definition convert :: "cast_op \<Rightarrow> ty \<Rightarrow> ty \<Rightarrow> const_value \<Rightarrow> const_value option option" where
  "convert op src dst v =
     (if op = FExt \<or> op = FTrunc then
        (case v of
           ConstF x \<Rightarrow> Option.bind (format_of_type dst) (\<lambda>f. Some (Some (ConstF (float_to_float f x))))
         | _ \<Rightarrow> None)
      else if op = IToF_S \<or> op = IToF_U then
        Option.bind (shape src) (\<lambda>(bits, is_signed).
        Option.bind (int_raw v bits) (\<lambda>p.
        Option.bind (format_of_type dst) (\<lambda>f. Some (Some (ConstF (int_to_float f bits is_signed p))))))
      else if op = FToI_S \<or> op = FToI_U then
        (case v of
           ConstF x \<Rightarrow> float_to_int dst x
         | _ \<Rightarrow> None)
      else Some None)"

end
