(* ===== verification/IrLayout.thy ===== *)
theory IrLayout
  imports IrTypes TargetSpec Alignment
begin

text \<open>
  Storage layout of types, \<open>ir/src/layout.rs\<close>.  The recursion of \<open>layout_storage\<close>
  follows the type; the depth budget of aggregates is the natural number the code counts
  down.  The alignment function is an instance of \<open>aligner\<close>, and the field loop computes
  the reference placement.
\<close>

record type_layout =
  tl_size :: u64
  tl_align :: u32
  field_offsets :: "u64 list"
  element_stride :: "u64 option"

datatype type_layout_error =
    LayoutVoid | LayoutOverflow | LayoutDepthLimit | ZeroSizedPointerArithmetic | LayoutInvalidTarget

definition max_ir_nesting :: usize where
  "max_ir_nesting = 256"

text \<open>\<open>u64::from(align) - 1\<close> underflows, a panic, only for an alignment of zero; the callers
  pass validated alignments.\<close>

definition ir_align_up :: "u64 \<Rightarrow> u32 \<Rightarrow> type_layout_error + u64" where
  "ir_align_up sz align = ok_or (checked_add sz (padding sz (ucast align))) LayoutOverflow"

definition scalar_layout :: "u64 \<Rightarrow> u32 \<Rightarrow> type_layout" where
  "scalar_layout sz align =
     \<lparr>tl_size = sz, tl_align = align, field_offsets = [], element_stride = None\<rparr>"

text \<open>One turn of the field loop.\<close>

definition place_field :: "type_layout \<Rightarrow> type_layout \<Rightarrow> type_layout_error + type_layout" where
  "place_field field res =
     rbind (ir_align_up (tl_size res) (tl_align field)) (\<lambda>offset.
     rbind (ok_or (checked_add offset (tl_size field)) LayoutOverflow) (\<lambda>sz.
     Inr \<lparr>tl_size = sz, tl_align = max (tl_align res) (tl_align field),
          field_offsets = field_offsets res @ [offset], element_stride = element_stride res\<rparr>))"

definition max_layout_size :: "storage_layout \<Rightarrow> u64" where
  "max_layout_size storage = (if ptr_bits (sl_data storage) = 32 then 2 ^ 32 - 1 else - 1)"

definition check_layout_size :: "storage_layout \<Rightarrow> type_layout \<Rightarrow> type_layout_error + type_layout" where
  "check_layout_size storage res =
     (if max_layout_size storage < tl_size res then Inl LayoutOverflow else Inr res)"

definition align_tail :: "type_layout \<Rightarrow> type_layout_error + type_layout" where
  "align_tail res =
     rbind (ir_align_up (tl_size res) (tl_align res)) (\<lambda>sz. Inr (res\<lparr>tl_size := sz\<rparr>))"

definition array_layout :: "type_layout \<Rightarrow> u64 \<Rightarrow> type_layout_error + type_layout" where
  "array_layout element count =
     rbind (ok_or (checked_mul (tl_size element) count) LayoutOverflow) (\<lambda>sz.
     Inr \<lparr>tl_size = sz, tl_align = tl_align element, field_offsets = [],
          element_stride = Some (tl_size element)\<rparr>)"

fun layout_storage :: "storage_layout \<Rightarrow> ty \<Rightarrow> usize \<Rightarrow> type_layout_error + type_layout"
and layout_fields :: "storage_layout \<Rightarrow> ty list \<Rightarrow> usize \<Rightarrow> type_layout \<Rightarrow> type_layout_error + type_layout" where
  "layout_storage storage (ArrayT t count) depth =
     rbind (ok_or (usize_sub depth 1) LayoutDepthLimit) (\<lambda>remaining.
     rbind (layout_storage storage t remaining) (\<lambda>element.
     rbind (array_layout element count) (check_layout_size storage)))"
| "layout_storage storage (StructT fs) depth =
     rbind (ok_or (usize_sub depth 1) LayoutDepthLimit) (\<lambda>remaining.
     rbind (layout_fields storage fs remaining (scalar_layout 0 1)) (\<lambda>res.
     rbind (align_tail res) (check_layout_size storage)))"
| "layout_storage storage (TupleT fs) depth =
     rbind (ok_or (usize_sub depth 1) LayoutDepthLimit) (\<lambda>remaining.
     rbind (layout_fields storage fs remaining (scalar_layout 0 1)) (\<lambda>res.
     rbind (align_tail res) (check_layout_size storage)))"
| "layout_storage storage Void depth = Inl LayoutVoid"
| "layout_storage storage t depth =
     (case scalar_align storage of (a1, a2, a4, a8, a16) \<Rightarrow>
      check_layout_size storage
        (if t \<in> {Bool, I1, U1, I8, U8} then scalar_layout 1 a1
         else if t \<in> {I16, U16, F16} then scalar_layout 2 a2
         else if t \<in> {I32, U32, F32} then scalar_layout 4 a4
         else if t \<in> {I64, U64, F64} then scalar_layout 8 a8
         else if t \<in> {I128, U128} then scalar_layout 16 a16
         else scalar_layout (ucast (ptr_bits (sl_data storage) div 8)) (pointer_align storage)))"
| "layout_fields storage [] remaining res = Inr res"
| "layout_fields storage (t # fs) remaining res =
     rbind (layout_storage storage t remaining) (\<lambda>field.
     rbind (place_field field res) (layout_fields storage fs remaining))"

definition layout_for_target :: "ty \<Rightarrow> target_spec \<Rightarrow> usize \<Rightarrow> type_layout_error + type_layout" where
  "layout_for_target t spec max_depth =
     rbind (map_err (\<lambda>_. LayoutInvalidTarget) (validate_spec spec)) (\<lambda>_.
     layout_storage (ts_storage spec) t (min max_depth max_ir_nesting))"

definition layout_of_with_limit :: "ty \<Rightarrow> target \<Rightarrow> usize \<Rightarrow> type_layout_error + type_layout" where
  "layout_of_with_limit t tgt max_depth = layout_for_target t (target_specification tgt) max_depth"

definition layout_of :: "ty \<Rightarrow> target \<Rightarrow> type_layout_error + type_layout" where
  "layout_of t tgt = layout_of_with_limit t tgt 128"

fun is_array :: "ty \<Rightarrow> bool" where
  "is_array (ArrayT _ _) = True"
| "is_array _ = False"

definition allocation_align_for_target :: "ty \<Rightarrow> target_spec \<Rightarrow> type_layout_error + u32" where
  "allocation_align_for_target t spec =
     rbind (layout_for_target t spec 128) (\<lambda>lay.
     Inr (case large_array (ts_storage spec) of
            Some (threshold, align) \<Rightarrow>
              if is_array t \<and> threshold \<le> tl_size lay then max (tl_align lay) align else tl_align lay
          | None \<Rightarrow> tl_align lay))"

definition allocation_align :: "ty \<Rightarrow> target \<Rightarrow> type_layout_error + u32" where
  "allocation_align t tgt = allocation_align_for_target t (target_specification tgt)"

definition pointer_stride :: "ty \<Rightarrow> target \<Rightarrow> type_layout_error + u64" where
  "pointer_stride pointee tgt =
     rbind (layout_of pointee tgt) (\<lambda>lay.
     if tl_size lay = 0 then Inl ZeroSizedPointerArithmetic else Inr (tl_size lay))"

subsection \<open>Alignments\<close>

lemma unat_ucast_32_64: "unat (ucast (a :: u32) :: u64) = unat a"
  using unsigned_less [of a, where 'a = nat] by (simp add: unsigned_ucast_eq take_bit_nat_eq_self_iff)

lemma is_power_of_two_ucast: "is_power_of_two (a :: u32) \<Longrightarrow> is_power_of_two (ucast a :: u64)"
proof (elim is_power_of_twoE)
  fix n
  assume n: "n < LENGTH(32)" "unat a = 2 ^ n"
  then have "unat (ucast a :: u64) = unat (2 ^ n :: u64)"
    by (simp add: unat_ucast_32_64 unat_power_of_two)
  then have "(ucast a :: u64) = 2 ^ n" by (simp only: word_unat_eq_iff)
  with n(1) show ?thesis unfolding is_power_of_two_iff by (intro exI [of _ n]) simp
qed

interpretation ir: aligner ir_align_up unat is_power_of_two
  by unfold_locales
    (simp_all add: ir_align_up_def result_simps align_simps is_power_of_two_pos
      is_power_of_two_ucast unat_ucast_32_64)

lemma power_of_two_dvd:
  "is_power_of_two (a :: 'a::len word) \<Longrightarrow> is_power_of_two b \<Longrightarrow> a \<le> b \<Longrightarrow> unat a dvd unat b"
  by (elim is_power_of_twoE) (simp add: word_le_nat_alt le_imp_power_dvd)

definition sound_layout :: "storage_layout \<Rightarrow> type_layout \<Rightarrow> bool" where
  "sound_layout storage lay \<longleftrightarrow>
     is_power_of_two (tl_align lay) \<and> unat (tl_align lay) dvd unat (tl_size lay) \<and>
     tl_size lay \<le> max_layout_size storage"

definition field_item :: "type_layout \<Rightarrow> nat \<times> nat option" where
  "field_item l = (unat (tl_align l), Some (unat (tl_size l)))"

definition widest :: "type_layout list \<Rightarrow> u32 \<Rightarrow> u32" where
  "widest ls a = fold (\<lambda>l m. max m (tl_align l)) ls a"

lemma widest_simps [simp]: "widest [] a = a" "widest (l # ls) a = widest ls (max a (tl_align l))"
  by (simp_all add: widest_def)

lemma widest_ge_start: "a \<le> widest ls a"
proof (induction ls arbitrary: a)
  case (Cons l ls)
  show ?case using Cons.IH [of "max a (tl_align l)"] by simp
qed simp

lemma widest_ge: "l \<in> set ls \<Longrightarrow> tl_align l \<le> widest ls a"
proof (induction ls arbitrary: a)
  case (Cons k ls)
  then show ?case using widest_ge_start [of "max a (tl_align k)" ls] by auto
qed simp

lemma widest_pow: "is_power_of_two a \<Longrightarrow> \<forall>l\<in>set ls. is_power_of_two (tl_align l) \<Longrightarrow> is_power_of_two (widest ls a)"
  by (induction ls arbitrary: a) (auto simp: max_def)

lemma place_fieldE:
  assumes "place_field l res = Inr res'" "is_power_of_two (tl_align l)"
  obtains off where "unat off = ceil_to (unat (tl_size res)) (unat (tl_align l))"
    "unat (tl_size res') = unat off + unat (tl_size l)"
    "field_offsets res' = field_offsets res @ [off]"
    "tl_align res' = max (tl_align res) (tl_align l)" "element_stride res' = element_stride res"
  using assms by (auto simp: place_field_def result_simps checked_simps ir.up_Inr)

definition fields_placed :: "storage_layout \<Rightarrow> ty list \<Rightarrow> usize \<Rightarrow> type_layout \<Rightarrow> type_layout \<Rightarrow> bool" where
  "fields_placed storage fs remaining res res' \<longleftrightarrow>
     (\<exists>ls. list_all2 (\<lambda>t l. layout_storage storage t remaining = Inr l \<and> sound_layout storage l) fs ls \<and>
       map unat (field_offsets res') =
         map unat (field_offsets res) @ ideal_positions (unat (tl_size res)) (map field_item ls) \<and>
       unat (tl_size res') = ideal_end (unat (tl_size res)) (map field_item ls) \<and>
       tl_align res' = widest ls (tl_align res) \<and> element_stride res' = element_stride res)"

lemma fields_placed_Cons:
  assumes "layout_storage storage t remaining = Inr l" "sound_layout storage l"
    and "place_field l res = Inr mid" "fields_placed storage fs remaining mid res'"
  shows "fields_placed storage (t # fs) remaining res res'"
proof -
  from assms(2) have "is_power_of_two (tl_align l)" by (simp add: sound_layout_def)
  with assms(3) obtain off where off: "unat off = ceil_to (unat (tl_size res)) (unat (tl_align l))"
    "unat (tl_size mid) = unat off + unat (tl_size l)" "field_offsets mid = field_offsets res @ [off]"
    "tl_align mid = max (tl_align res) (tl_align l)" "element_stride mid = element_stride res"
    by (rule place_fieldE)
  from assms(4) obtain ls where
    "list_all2 (\<lambda>t l. layout_storage storage t remaining = Inr l \<and> sound_layout storage l) fs ls"
    "map unat (field_offsets res') =
       map unat (field_offsets mid) @ ideal_positions (unat (tl_size mid)) (map field_item ls)"
    "unat (tl_size res') = ideal_end (unat (tl_size mid)) (map field_item ls)"
    "tl_align res' = widest ls (tl_align mid)" "element_stride res' = element_stride mid"
    by (auto simp: fields_placed_def)
  with off assms(1,2) show ?thesis
    unfolding fields_placed_def by (intro exI [of _ "l # ls"]) (simp add: field_item_def ideal_step_def)
qed

subsection \<open>Soundness of layouts\<close>

lemma check_layout_size_Inr [result_simps]:
  "check_layout_size storage res = Inr lay \<longleftrightarrow> lay = res \<and> tl_size res \<le> max_layout_size storage"
  by (auto simp: check_layout_size_def)

lemma align_tail_Inr:
  assumes "align_tail res = Inr lay" "is_power_of_two (tl_align res)"
  shows "tl_align lay = tl_align res" "field_offsets lay = field_offsets res"
    "unat (tl_size lay) = ceil_to (unat (tl_size res)) (unat (tl_align res))"
    "element_stride lay = element_stride res"
  using assms by (auto simp: align_tail_def result_simps ir.up_Inr)

lemma fields_placed_pow:
  assumes "fields_placed storage fs remaining (scalar_layout 0 1) res"
  shows "is_power_of_two (tl_align res)"
proof -
  from assms obtain ls where "tl_align res = widest ls 1"
    "list_all2 (\<lambda>t l. layout_storage storage t remaining = Inr l \<and> sound_layout storage l) fs ls"
    by (auto simp: fields_placed_def scalar_layout_def)
  moreover from this(2) have "\<forall>l\<in>set ls. is_power_of_two (tl_align l)"
    by (auto simp: sound_layout_def dest: list_all2_right)
  ultimately show ?thesis by (simp add: widest_pow is_power_of_two_test)
qed

lemma aggregate_sound:
  assumes "fields_placed storage fs remaining (scalar_layout 0 1) res" "align_tail res = Inr lay"
    and "tl_size lay \<le> max_layout_size storage"
  shows "sound_layout storage lay"
  using assms(3) align_tail_Inr [OF assms(2) fields_placed_pow [OF assms(1)]] fields_placed_pow [OF assms(1)]
  by (simp add: sound_layout_def ceil_to_dvd)

lemma scalar_sound:
  assumes "is_power_of_two a" "a \<le> 2 ^ k" "k < 5" "unat sz = 2 ^ k" "sz \<le> max_layout_size storage"
  shows "sound_layout storage (scalar_layout sz a)"
proof -
  have "unat a dvd unat (2 ^ k :: u32)"
  proof (rule power_of_two_dvd [OF assms(1) _ assms(2)])
    show "is_power_of_two (2 ^ k :: u32)" using assms(3) unfolding is_power_of_two_iff by (intro exI [of _ k]) simp
  qed
  moreover have "unat (2 ^ k :: u32) = 2 ^ k" using assms(3) by (intro unat_power_of_two) simp
  ultimately show ?thesis using assms by (simp add: sound_layout_def scalar_layout_def)
qed

fun is_aggregate :: "ty \<Rightarrow> bool" where
  "is_aggregate (ArrayT _ _) = True"
| "is_aggregate (StructT _) = True"
| "is_aggregate (TupleT _) = True"
| "is_aggregate _ = False"

lemma layout_scalar_sound:
  assumes "layout_storage storage t depth = Inr lay" "\<not> is_aggregate t" "validate_storage storage = Inr ()"
  shows "sound_layout storage lay"
proof -
  obtain a1 a2 a4 a8 a16 where al: "scalar_align storage = (a1, a2, a4, a8, a16)"
    by (cases "scalar_align storage")
  note valid = validate_storage_sizes [OF assms(3) al] validate_storage_aligns [OF assms(3)]
  have pow: "is_power_of_two a1" "is_power_of_two a2" "is_power_of_two a4" "is_power_of_two a8" "is_power_of_two a16"
    using valid(6) by (simp_all add: al)
  let ?p = "ucast (ptr_bits (sl_data storage) div 8) :: u64"
  consider "lay = scalar_layout 1 a1" | "lay = scalar_layout 2 a2" | "lay = scalar_layout 4 a4"
    | "lay = scalar_layout 8 a8" | "lay = scalar_layout 16 a16" | "lay = scalar_layout ?p (pointer_align storage)"
    using assms(1,2) by (cases t) (auto simp: al result_simps)
  moreover have "tl_size lay \<le> max_layout_size storage"
    using assms(1,2) by (cases t) (auto simp: al result_simps)
  ultimately show ?thesis
  proof cases
    case 1
    with valid pow show ?thesis using scalar_sound [of a1 0 1 storage] \<open>tl_size lay \<le> _\<close> by (simp add: scalar_layout_def)
  next
    case 2
    with valid pow show ?thesis using scalar_sound [of a2 1 2 storage] \<open>tl_size lay \<le> _\<close> by (simp add: scalar_layout_def)
  next
    case 3
    with valid pow show ?thesis using scalar_sound [of a4 2 4 storage] \<open>tl_size lay \<le> _\<close> by (simp add: scalar_layout_def)
  next
    case 4
    with valid pow show ?thesis using scalar_sound [of a8 3 8 storage] \<open>tl_size lay \<le> _\<close> by (simp add: scalar_layout_def)
  next
    case 5
    with valid pow show ?thesis using scalar_sound [of a16 4 16 storage] \<open>tl_size lay \<le> _\<close> by (simp add: scalar_layout_def)
  next
    case 6
    then have "?p \<le> max_layout_size storage" using \<open>tl_size lay \<le> _\<close> by (simp add: scalar_layout_def)
    with 6 valid(7-9) show ?thesis
      using scalar_sound [of "pointer_align storage" 2 4 storage] scalar_sound [of "pointer_align storage" 3 8 storage]
      by (elim disjE) simp_all
  qed
qed

lemma layout_storage_sound:
  assumes "validate_storage storage = Inr ()"
  shows "layout_storage storage t depth = Inr lay \<Longrightarrow> sound_layout storage lay"
    and "layout_fields storage fs remaining res = Inr res' \<Longrightarrow> fields_placed storage fs remaining res res'"
  using assms
proof (induction storage t depth and storage fs remaining res arbitrary: lay and res'
    rule: layout_storage_layout_fields.induct)
  case (1 storage t count depth)
  then obtain element where "sound_layout storage element" "array_layout element count = Inr lay"
    "tl_size lay \<le> max_layout_size storage"
    by (auto simp: result_simps)
  then show ?case by (auto simp: array_layout_def sound_layout_def result_simps checked_simps)
next
  case (2 storage fs depth)
  then show ?case by (auto simp: result_simps dest: aggregate_sound)
next
  case (3 storage fs depth)
  then show ?case by (auto simp: result_simps dest: aggregate_sound)
next
  case (6 storage remaining res)
  then show ?case by (simp add: fields_placed_def)
next
  case (7 storage t fs remaining res)
  then show ?case by (auto simp: result_simps intro: fields_placed_Cons)
qed (rule layout_scalar_sound, assumption, simp, assumption)+

subsection \<open>Aggregates\<close>

lemma aggregate_fields:
  assumes "validate_storage storage = Inr ()" "t = StructT fs \<or> t = TupleT fs"
    and "layout_storage storage t depth = Inr lay"
  obtains res where "fields_placed storage fs (depth - 1) (scalar_layout 0 1) res"
    "align_tail res = Inr lay" "tl_size lay \<le> max_layout_size storage"
proof -
  from assms(2,3) obtain res where res: "layout_fields storage fs (depth - 1) (scalar_layout 0 1) = Inr res"
    "align_tail res = Inr lay" "tl_size lay \<le> max_layout_size storage"
    by (auto simp: result_simps usize_sub_def split: if_splits)
  from that [OF layout_storage_sound(2) [OF assms(1) res(1)] res(2,3)] show thesis .
qed

text \<open>C25. Aggregate fields are placed soundly.  When a struct or tuple has a layout, there is one
  offset per field, every field has a layout of its own, its offset is a multiple of its
  alignment, the alignment of the aggregate is a multiple of every field's (so a field of an
  aligned aggregate is aligned), no field reaches into a later one, every field ends within
  the size, and the size is a multiple of the alignment, so that array elements stay aligned.\<close>

theorem aggregate_fields_sound:
  assumes valid: "validate_storage storage = Inr ()" and t: "t = StructT fs \<or> t = TupleT fs"
    and lay: "layout_storage storage t depth = Inr lay"
  shows "length (field_offsets lay) = length fs \<and> unat (tl_align lay) dvd unat (tl_size lay) \<and>
    (\<exists>ls. length ls = length fs \<and>
      (\<forall>i<length fs. layout_storage storage (fs ! i) (depth - 1) = Inr (ls ! i) \<and>
        unat (tl_align (ls ! i)) dvd unat (field_offsets lay ! i) \<and>
        unat (tl_align (ls ! i)) dvd unat (tl_align lay) \<and>
        unat (field_offsets lay ! i) + unat (tl_size (ls ! i)) \<le> unat (tl_size lay)) \<and>
      (\<forall>i j. i < j \<and> j < length fs \<longrightarrow>
        unat (field_offsets lay ! i) + unat (tl_size (ls ! i)) \<le> unat (field_offsets lay ! j)))"
proof -
  obtain res where placed: "fields_placed storage fs (depth - 1) (scalar_layout 0 1) res"
    and tail: "align_tail res = Inr lay" "tl_size lay \<le> max_layout_size storage"
    by (rule aggregate_fields [OF valid t lay])
  note end_lay = align_tail_Inr [OF tail(1) fields_placed_pow [OF placed]]
  from placed obtain ls where
    ls: "list_all2 (\<lambda>t l. layout_storage storage t (depth - 1) = Inr l \<and> sound_layout storage l) fs ls"
    and offs: "map unat (field_offsets res) = ideal_positions 0 (map field_item ls)"
    and sz: "unat (tl_size res) = ideal_end 0 (map field_item ls)"
    and al: "tl_align res = widest ls 1"
    by (auto simp: fields_placed_def scalar_layout_def)
  from ls have len: "length ls = length fs" by (simp add: list_all2_lengthD)
  have len_offs: "length (field_offsets lay) = length fs"
    using arg_cong [OF offs, of length] end_lay len by simp
  have off: "unat (field_offsets lay ! i) = ideal_positions 0 (map field_item ls) ! i" if "i < length fs" for i
    using that offs len_offs end_lay by (metis nth_map)
  have pos: "\<forall>x\<in>set (map field_item ls). 0 < fst x"
    using ls by (auto simp: field_item_def sound_layout_def is_power_of_two_pos dest!: list_all2_right)
  have each: "layout_storage storage (fs ! i) (depth - 1) = Inr (ls ! i)" "sound_layout storage (ls ! i)"
    if "i < length fs" for i
    using that ls by (auto simp: list_all2_conv_all_nth)
  have item: "map field_item ls ! i = (unat (tl_align (ls ! i)), Some (unat (tl_size (ls ! i))))"
    if "i < length fs" for i
    using that len by (simp add: field_item_def)
  have "unat (tl_align (ls ! i)) dvd unat (tl_align lay)" if "i < length fs" for i
    using that each(2) [OF that] fields_placed_pow [OF placed] widest_ge [of "ls ! i" ls 1] len
    by (simp add: end_lay al sound_layout_def power_of_two_dvd)
  moreover have "unat (tl_align (ls ! i)) dvd unat (field_offsets lay ! i)" if "i < length fs" for i
    using ideal_positions_dvd [of i "map field_item ls" 0] item [OF that] that len by (simp add: off)
  moreover have "unat (field_offsets lay ! i) + unat (tl_size (ls ! i)) \<le> unat (tl_size lay)" if "i < length fs" for i
  proof -
    have "unat (tl_size res) \<le> unat (tl_size lay)"
      using end_lay fields_placed_pow [OF placed] by (simp add: ceil_to_ge is_power_of_two_pos)
    moreover have "ideal_positions 0 (map field_item ls) ! i + unat (tl_size (ls ! i)) \<le> unat (tl_size res)"
      using ideal_positions_end [OF pos, of i "unat (tl_size (ls ! i))" 0] item [OF that] that len sz by simp
    ultimately show ?thesis using off [OF that] by linarith
  qed
  moreover have "unat (field_offsets lay ! i) + unat (tl_size (ls ! i)) \<le> unat (field_offsets lay ! j)"
    if "i < j" "j < length fs" for i j
    using ideal_positions_disjoint [OF pos that(1), of "unat (tl_size (ls ! i))" 0] item [of i] that len
    by (simp add: off)
  moreover have "unat (tl_align lay) dvd unat (tl_size lay)"
    using aggregate_sound [OF placed tail] by (simp add: sound_layout_def)
  ultimately show ?thesis using len len_offs each(1) by (intro conjI exI [of _ ls]) auto
qed

definition sample_storage :: storage_layout where
  "sample_storage = ts_storage (target_specification X86_64WhaleLinux)"

theorem aggregate_fields_sound_witness:
  "\<exists>lay. layout_storage sample_storage (StructT [I8, I64, I16]) 1 = Inr lay \<and>
     field_offsets lay = [0, 8, 16] \<and> tl_size lay = 24 \<and> length (field_offsets lay) = length [I8, I64, I16]"
proof -
  let ?lay = "\<lparr>tl_size = 24, tl_align = 8, field_offsets = [0, 8, 16], element_stride = None\<rparr>"
  have valid: "validate_storage sample_storage = Inr ()"
    by (simp add: sample_storage_def target_specification_def validate_storage_def is_power_of_two_def
        enumerate_eq_zip upt_rec)
  have "layout_storage sample_storage (StructT [I8, I64, I16]) 1 = Inr ?lay"
    by (simp add: sample_storage_def target_specification_def scalar_layout_def check_layout_size_def
        max_layout_size_def place_field_def ir_align_up_def align_tail_def padding_def checked_add_def
        usize_sub_def max_def)
  with aggregate_fields_sound [OF valid, of "StructT [I8, I64, I16]" "[I8, I64, I16]" 1 ?lay]
  show ?thesis by auto
qed

text \<open>Array elements: the stride is the element size, so every element keeps the alignment.\<close>

lemma array_elements_sound:
  assumes "validate_storage storage = Inr ()" "layout_storage storage (ArrayT t count) depth = Inr lay"
  shows "\<exists>l. layout_storage storage t (depth - 1) = Inr l \<and> element_stride lay = Some (tl_size l) \<and>
    tl_align lay = tl_align l \<and> unat (tl_size lay) = unat count * unat (tl_size l) \<and>
    (\<forall>i. unat (tl_align lay) dvd i * unat (tl_size l))"
  using assms layout_storage_sound(1) [OF assms(1), of t "depth - 1"]
  by (fastforce simp: result_simps checked_simps array_layout_def usize_sub_def sound_layout_def split: if_splits)

end
