(* ===== verification/IrLimits.thy ===== *)
theory IrLimits
  imports IrTypes IrLayout
begin

text \<open>
  Bounded traversal, \<open>ir/src/limits.rs\<close>: the node budget and the depth limits that
  untrusted types and constant expressions pass before any recursive helper sees them.  The
  worklists are lists with the top of the stack first.
\<close>

record ir_limits =
  max_type_depth :: usize
  max_const_depth :: usize
  max_nodes :: usize
  max_input_bytes :: usize
  max_tokens :: usize
  max_analysis_work :: usize

definition ir_limits_default :: ir_limits where
  "ir_limits_default =
     \<lparr>max_type_depth = 128, max_const_depth = 128, max_nodes = 1000000,
      max_input_bytes = 8 * 1024 * 1024, max_tokens = 1000000, max_analysis_work = 16 * 1024 * 1024\<rparr>"

datatype limit_resource =
    TypeDepth | ConstantDepth | Nodes | InputBytes | Tokens | Configuration | AnalysisWork

record limit_error =
  le_resource :: limit_resource
  le_limit :: usize

definition limit_error :: "limit_resource \<Rightarrow> usize \<Rightarrow> limit_error" where
  "limit_error res l = \<lparr>le_resource = res, le_limit = l\<rparr>"

definition validate_limits :: "ir_limits \<Rightarrow> limit_error + unit" where
  "validate_limits l =
     (if max_ir_nesting < max_type_depth l \<or> max_ir_nesting < max_const_depth l
      then Inl (limit_error Configuration max_ir_nesting) else Inr ())"

record budget =
  b_limits :: ir_limits
  b_remaining :: usize

definition budget_new :: "ir_limits \<Rightarrow> limit_error + budget" where
  "budget_new l =
     rbind (validate_limits l) (\<lambda>_. Inr \<lparr>b_limits = l, b_remaining = max_nodes l\<rparr>)"

definition budget_nodes :: "usize \<Rightarrow> budget \<Rightarrow> limit_error + budget" where
  "budget_nodes n b =
     rbind (ok_or (usize_sub (b_remaining b) n) (limit_error Nodes (max_nodes (b_limits b))))
       (\<lambda>r. Inr (b\<lparr>b_remaining := r\<rparr>))"

text \<open>The children a node pushes, after the check on wide nodes.  \<open>waiting\<close> is the
  length of the worklist without the node.\<close>

definition ty_children :: "ty \<Rightarrow> usize \<Rightarrow> budget \<Rightarrow> limit_error + ty list" where
  "ty_children t waiting b =
     (case t of
        Ptr u \<Rightarrow> Inr [u]
      | ArrayT u _ \<Rightarrow> Inr [u]
      | StructT ts \<Rightarrow>
          if b_remaining b - waiting < length ts then Inl (limit_error Nodes (max_nodes (b_limits b))) else Inr ts
      | TupleT ts \<Rightarrow>
          if b_remaining b - waiting < length ts then Inl (limit_error Nodes (max_nodes (b_limits b))) else Inr ts
      | FnPtr sig \<Rightarrow>
          if b_remaining b - waiting \<le> length (sig_params sig)
          then Inl (limit_error Nodes (max_nodes (b_limits b)))
          else Inr (sig_params sig @ [sig_ret sig])
      | _ \<Rightarrow> Inr [])"

lemma ty_children_size: "ty_children t w b = Inr ts \<Longrightarrow> (\<Sum>u\<leftarrow>ts. Suc (size u)) < Suc (size t)"
proof -
  have sl: "(\<Sum>u\<leftarrow>us. Suc (size u)) = size_list size us" for us :: "ty list"
    by (induction us) auto
  have sg: "size_list size (sig_params g) + size (sig_ret g) < Suc (size g)" for g :: fn_sig
    by (cases g) simp
  assume "ty_children t w b = Inr ts"
  then show ?thesis
    by (cases t) (auto simp: ty_children_def sl sg split: if_splits)
qed

function ty_loop :: "(ty \<times> usize) list \<Rightarrow> budget \<Rightarrow> limit_error + budget" where
  "ty_loop [] b = Inr b"
| "ty_loop ((t, depth) # pending) b =
     rbind (budget_nodes 1 b) (\<lambda>b.
     if max_type_depth (b_limits b) < depth
     then Inl (limit_error TypeDepth (max_type_depth (b_limits b)))
     else rbind (ty_children t (length pending) b) (\<lambda>ts.
          ty_loop (map (\<lambda>u. (u, depth + 1)) ts @ pending) b))"
  by pat_completeness auto
termination
  by (relation "measure (\<lambda>(pending, _). \<Sum>x\<leftarrow>pending. Suc (size (fst x)))")
    (auto simp: comp_def dest: ty_children_size)

definition budget_ty :: "ty \<Rightarrow> budget \<Rightarrow> limit_error + budget" where
  "budget_ty root b = ty_loop [(root, 0)] b"

definition budget_signature :: "fn_sig \<Rightarrow> budget \<Rightarrow> limit_error + budget" where
  "budget_signature sig b =
     rbind (budget_nodes 1 b) (\<lambda>b. rbind (budget_ty (sig_ret sig) b) (foldR budget_ty (sig_params sig)))"

fun expr_children :: "const_expr_kind \<Rightarrow> const_expr list" where
  "expr_children (KNot e) = [e]"
| "expr_children (KNeg e) = [e]"
| "expr_children (KBinary _ l r) = [l, r]"
| "expr_children (KCompare _ l r) = [l, r]"
| "expr_children _ = []"

lemma expr_children_size: "(\<Sum>x\<leftarrow>expr_children (ce_kind e). Suc (size x)) < Suc (size e)"
  by (cases e; cases "ce_kind e") auto

function expression_loop :: "(const_expr \<times> usize) list \<Rightarrow> budget \<Rightarrow> limit_error + budget" where
  "expression_loop [] b = Inr b"
| "expression_loop ((e, depth) # pending) b =
     rbind (budget_nodes 1 b) (\<lambda>b.
     if max_const_depth (b_limits b) < depth
     then Inl (limit_error ConstantDepth (max_const_depth (b_limits b)))
     else rbind (budget_ty (ce_ty e) b) (\<lambda>b.
          expression_loop (map (\<lambda>x. (x, depth + 1)) (expr_children (ce_kind e)) @ pending) b))"
  by pat_completeness auto
termination
  by (relation "measure (\<lambda>(pending, _). \<Sum>x\<leftarrow>pending. Suc (size (fst x)))")
    (auto simp: comp_def intro: le_less_trans [OF _ expr_children_size])

definition budget_expression :: "const_expr \<Rightarrow> budget \<Rightarrow> limit_error + budget" where
  "budget_expression root b = expression_loop [(root, 0)] b"

subsection \<open>Cost and depth of a tree\<close>

fun ty_kids :: "ty \<Rightarrow> ty list" where
  "ty_kids (Ptr u) = [u]"
| "ty_kids (ArrayT u _) = [u]"
| "ty_kids (StructT ts) = ts"
| "ty_kids (TupleT ts) = ts"
| "ty_kids (FnPtr sig) = sig_params sig @ [sig_ret sig]"
| "ty_kids _ = []"

lemma ty_kids_size: "u \<in> set (ty_kids t) \<Longrightarrow> size u < size t"
proof -
  have sl: "u \<in> set us \<Longrightarrow> size u < Suc (size_list size us)" for us :: "ty list"
    by (induction us) auto
  have sg: "u \<in> set (sig_params g @ [sig_ret g]) \<Longrightarrow> size u < Suc (size g)" for g :: fn_sig
    by (cases g) (auto dest: sl)
  assume "u \<in> set (ty_kids t)"
  then show ?thesis using sg by (cases t) (auto dest: sl)
qed

function ty_nodes :: "ty \<Rightarrow> nat" where
  "ty_nodes t = Suc (\<Sum>u\<leftarrow>ty_kids t. ty_nodes u)"
  by pat_completeness auto
termination by (relation "measure size") (auto dest: ty_kids_size)

function ty_depth :: "ty \<Rightarrow> nat" where
  "ty_depth t = foldr max (map (\<lambda>u. Suc (ty_depth u)) (ty_kids t)) 0"
  by pat_completeness auto
termination by (relation "measure size") (auto dest: ty_kids_size)

declare ty_nodes.simps [simp del] ty_depth.simps [simp del]

lemma foldr_max_le: "foldr max xs (0::nat) \<le> n \<longleftrightarrow> (\<forall>x\<in>set xs. x \<le> n)"
  by (induction xs) auto

lemma sum_list_ge_length: "(\<And>x. x \<in> set xs \<Longrightarrow> 0 < f x) \<Longrightarrow> length xs \<le> (\<Sum>x\<leftarrow>xs. f x :: nat)"
proof (induction xs)
  case (Cons x xs)
  then have "length xs \<le> (\<Sum>x\<leftarrow>xs. f x)" "0 < f x" by auto
  then show ?case by simp
qed simp

lemma ty_nodes_pos: "0 < ty_nodes t"
  by (simp add: ty_nodes.simps)

lemma ty_children_Inr:
  "ty_children t w b = Inr ts \<longleftrightarrow> ts = ty_kids t \<and> (length (ty_kids t) \<le> b_remaining b - w \<or> (\<exists>u n. t = Ptr u \<or> t = ArrayT u n))"
  by (cases t) (auto simp: ty_children_def)

lemma budget_nodes_Inr [result_simps]:
  "budget_nodes n b = Inr b' \<longleftrightarrow> n \<le> b_remaining b \<and> b' = b\<lparr>b_remaining := b_remaining b - n\<rparr>"
  by (auto simp: budget_nodes_def result_simps usize_sub_def split: if_splits)

definition ty_cost :: "(ty \<times> usize) list \<Rightarrow> nat" where
  "ty_cost pending = (\<Sum>x\<leftarrow>pending. ty_nodes (fst x))"

lemma ty_cost_simps [simp]:
  "ty_cost [] = 0"
  "ty_cost ((t, d) # pending) = Suc ((\<Sum>u\<leftarrow>ty_kids t. ty_nodes u) + ty_cost pending)"
  "ty_cost (map (\<lambda>u. (u, d)) ts @ pending) = (\<Sum>u\<leftarrow>ts. ty_nodes u) + ty_cost pending"
  by (simp_all add: ty_cost_def ty_nodes.simps [of t] comp_def)

lemma ty_cost_length: "length pending \<le> ty_cost pending"
  unfolding ty_cost_def by (rule sum_list_ge_length) (rule ty_nodes_pos)

lemma ty_depth_le: "d + ty_depth t \<le> m \<longleftrightarrow> d \<le> m \<and> (\<forall>u\<in>set (ty_kids t). Suc d + ty_depth u \<le> m)"
proof -
  have "d + ty_depth t \<le> m \<longleftrightarrow> d \<le> m \<and> ty_depth t \<le> m - d" by auto
  also have "ty_depth t \<le> m - d \<longleftrightarrow> (\<forall>u\<in>set (ty_kids t). Suc (ty_depth u) \<le> m - d)"
    by (simp add: ty_depth.simps [of t] foldr_max_le)
  finally show ?thesis by (auto simp: le_diff_conv2 add.commute)
qed

lemma ty_loop_exact:
  "ty_loop pending b = Inr b' \<longleftrightarrow>
     ty_cost pending \<le> b_remaining b \<and>
     (\<forall>(t, d)\<in>set pending. d + ty_depth t \<le> max_type_depth (b_limits b)) \<and>
     b' = b\<lparr>b_remaining := b_remaining b - ty_cost pending\<rparr>"
proof (induction pending b rule: ty_loop.induct)
  case (2 t depth pending b)
  let ?m = "max_type_depth (b_limits b)" and ?b = "b\<lparr>b_remaining := b_remaining b - 1\<rparr>"
  let ?next = "map (\<lambda>u. (u, depth + 1)) (ty_kids t) @ pending"
  show ?case
  proof (cases "1 \<le> b_remaining b \<and> depth \<le> ?m \<and> ty_children t (length pending) ?b = Inr (ty_kids t)")
    case True
    then have "ty_loop ((t, depth) # pending) b = ty_loop ?next ?b"
      by (simp add: budget_nodes_def usize_sub_def)
    moreover have "ty_loop ?next ?b = Inr b' \<longleftrightarrow> ty_cost ?next \<le> b_remaining ?b \<and>
       (\<forall>(t, d)\<in>set ?next. d + ty_depth t \<le> ?m) \<and> b' = ?b\<lparr>b_remaining := b_remaining ?b - ty_cost ?next\<rparr>"
      using 2 [of ?b "ty_kids t"] True by (simp add: result_simps)
    moreover have "(\<forall>(t, d)\<in>set ?next. d + ty_depth t \<le> ?m) \<longleftrightarrow>
        (\<forall>u\<in>set (ty_kids t). Suc depth + ty_depth u \<le> ?m) \<and> (\<forall>(t, d)\<in>set pending. d + ty_depth t \<le> ?m)"
      by (simp add: ball_Un)
    ultimately show ?thesis using True by (auto simp: ty_depth_le [of depth t] simp del: ty_loop.simps)
  next
    case False
    have "length (ty_kids t) \<le> (\<Sum>u\<leftarrow>ty_kids t. ty_nodes u)" by (rule sum_list_ge_length) (rule ty_nodes_pos)
    with False ty_cost_length [of pending] show ?thesis
      by (auto simp: result_simps ty_children_Inr ty_depth_le [of depth t])
  qed
qed auto

lemma budget_ty_exact:
  "budget_ty t b = Inr b' \<longleftrightarrow>
     ty_nodes t \<le> b_remaining b \<and> ty_depth t \<le> max_type_depth (b_limits b) \<and>
     b' = b\<lparr>b_remaining := b_remaining b - ty_nodes t\<rparr>"
  by (simp add: budget_ty_def ty_loop_exact ty_nodes.simps [of t] del: ty_loop.simps)

lemma budget_nodes_Inl: "budget_nodes n b = Inl e \<longleftrightarrow> b_remaining b < n \<and> e = limit_error Nodes (max_nodes (b_limits b))"
  by (auto simp: budget_nodes_def result_simps usize_sub_def split: if_splits)

text \<open>The same for constant expressions: nodes count every node of the tree and of the types it
  carries.\<close>

lemma expr_children_smaller: "x \<in> set (expr_children (ce_kind e)) \<Longrightarrow> size x < size e"
  by (cases e; cases "ce_kind e") auto

function expr_nodes :: "const_expr \<Rightarrow> nat" where
  "expr_nodes e = Suc (ty_nodes (ce_ty e) + (\<Sum>x\<leftarrow>expr_children (ce_kind e). expr_nodes x))"
  by pat_completeness auto
termination by (relation "measure size") (auto dest: expr_children_smaller)

function expr_depth :: "const_expr \<Rightarrow> nat" where
  "expr_depth e = foldr max (map (\<lambda>x. Suc (expr_depth x)) (expr_children (ce_kind e))) 0"
  by pat_completeness auto
termination by (relation "measure size") (auto dest: expr_children_smaller)

function expr_type_depth :: "const_expr \<Rightarrow> nat" where
  "expr_type_depth e = max (ty_depth (ce_ty e)) (foldr max (map expr_type_depth (expr_children (ce_kind e))) 0)"
  by pat_completeness auto
termination by (relation "measure size") (auto dest: expr_children_smaller)

declare expr_nodes.simps [simp del] expr_depth.simps [simp del] expr_type_depth.simps [simp del]

definition expr_cost :: "(const_expr \<times> usize) list \<Rightarrow> nat" where
  "expr_cost pending = (\<Sum>x\<leftarrow>pending. expr_nodes (fst x))"

lemma expr_cost_simps [simp]:
  "expr_cost [] = 0"
  "expr_cost ((e, d) # pending) =
     Suc (ty_nodes (ce_ty e) + (\<Sum>x\<leftarrow>expr_children (ce_kind e). expr_nodes x) + expr_cost pending)"
  "expr_cost (map (\<lambda>x. (x, d)) es @ pending) = (\<Sum>x\<leftarrow>es. expr_nodes x) + expr_cost pending"
  by (simp_all add: expr_cost_def expr_nodes.simps [of e] comp_def)

definition expr_fits :: "ir_limits \<Rightarrow> const_expr \<times> usize \<Rightarrow> bool" where
  "expr_fits l = (\<lambda>(e, d). d + expr_depth e \<le> max_const_depth l \<and> expr_type_depth e \<le> max_type_depth l)"

lemma expr_fits_children:
  "expr_fits l (e, d) \<longleftrightarrow> d \<le> max_const_depth l \<and> ty_depth (ce_ty e) \<le> max_type_depth l \<and>
     (\<forall>x\<in>set (expr_children (ce_kind e)). expr_fits l (x, Suc d))"
proof -
  let ?m = "max_const_depth l"
  have "d + expr_depth e \<le> ?m \<longleftrightarrow> d \<le> ?m \<and> expr_depth e \<le> ?m - d" by auto
  also have "expr_depth e \<le> ?m - d \<longleftrightarrow> (\<forall>x\<in>set (expr_children (ce_kind e)). Suc (expr_depth x) \<le> ?m - d)"
    by (simp add: expr_depth.simps [of e] foldr_max_le)
  finally show ?thesis
    by (auto simp: expr_fits_def expr_type_depth.simps [of e] foldr_max_le le_diff_conv2 add.commute)
qed

lemma expression_loop_exact:
  "expression_loop pending b = Inr b' \<longleftrightarrow>
     expr_cost pending \<le> b_remaining b \<and> (\<forall>x\<in>set pending. expr_fits (b_limits b) x) \<and>
     b' = b\<lparr>b_remaining := b_remaining b - expr_cost pending\<rparr>"
proof (induction pending b rule: expression_loop.induct)
  case (2 e depth pending b)
  let ?l = "b_limits b" and ?n = "Suc (ty_nodes (ce_ty e))"
  let ?b = "b\<lparr>b_remaining := b_remaining b - ?n\<rparr>" and ?b1 = "b\<lparr>b_remaining := b_remaining b - 1\<rparr>"
  let ?next = "map (\<lambda>x. (x, depth + 1)) (expr_children (ce_kind e)) @ pending"
  show ?case
  proof (cases "?n \<le> b_remaining b \<and> depth \<le> max_const_depth ?l \<and> ty_depth (ce_ty e) \<le> max_type_depth ?l")
    case True
    then have first: "budget_nodes 1 b = Inr ?b1" "budget_ty (ce_ty e) ?b1 = Inr ?b"
      by (auto simp: result_simps budget_ty_exact)
    then have "expression_loop ((e, depth) # pending) b = expression_loop ?next ?b"
      using True by simp
    moreover have "expression_loop ?next ?b = Inr b' \<longleftrightarrow> expr_cost ?next \<le> b_remaining ?b \<and>
       (\<forall>x\<in>set ?next. expr_fits ?l x) \<and> b' = ?b\<lparr>b_remaining := b_remaining ?b - expr_cost ?next\<rparr>"
      using 2 [OF first(1) _ first(2)] True by simp
    moreover have "(\<forall>x\<in>set ?next. expr_fits ?l x) \<longleftrightarrow>
        (\<forall>x\<in>set (expr_children (ce_kind e)). expr_fits ?l (x, Suc depth)) \<and> (\<forall>x\<in>set pending. expr_fits ?l x)"
      by (simp add: ball_Un)
    ultimately show ?thesis using True
      by (auto simp: expr_fits_children [of ?l e depth] simp del: expression_loop.simps)
  next
    case False
    then show ?thesis by (auto simp: result_simps budget_ty_exact expr_fits_children [of ?l e depth])
  qed
qed auto

text \<open>The traversal budget is exact.  Checking a constant expression against a budget succeeds
  if and only if the number of nodes of the tree, types included, is within the remaining
  budget and neither the expression nor any type in it is nested deeper than its limit;
  exactly that number of nodes is then consumed.\<close>

theorem budget_expression_exact:
  "budget_expression e b = Inr b' \<longleftrightarrow>
     expr_nodes e \<le> b_remaining b \<and>
     expr_depth e \<le> max_const_depth (b_limits b) \<and> expr_type_depth e \<le> max_type_depth (b_limits b) \<and>
     b' = b\<lparr>b_remaining := b_remaining b - expr_nodes e\<rparr>"
  by (auto simp: budget_expression_def expression_loop_exact expr_nodes.simps [of e] expr_fits_def
      simp del: expression_loop.simps)

end
