(* ===== verification/IrConstExpr.thy ===== *)
theory IrConstExpr
  imports IrFloat IrLimits
begin

text \<open>
  Compile-time evaluation, \<open>ir/src/const_expr.rs\<close>.  \<open>evaluate_with_error_site\<close> checks
  the budget, validates every node of the tree, and then evaluates with an explicit stack of
  nodes and phases.  The two loops are transcribed with their worklists (top of the stack
  first) and related to a recursive evaluation.  The table of resolved references is keyed
  by node address in the sources; since the resolver is a function, it is keyed by the
  reference here.
\<close>

datatype const_eval_error =
    EvalResourceLimit limit_error
  | InvalidLiteral
  | EvalTypeMismatch
  | UnsupportedOperation
  | EvalDivisionByZero
  | EvalRemainderByZero
  | UnknownReference const_ref
  | DuplicateDefinition const_ref
  | CyclicReference
  | ResultMismatch

text \<open>A failure names the node it occurred at; \<open>EvalPanic\<close> is a failed \<open>expect\<close> or
  \<open>unwrap\<close>.\<close>

datatype (plugins only: size) eval_fail = EvalError const_eval_error const_expr | EvalPanic

type_synonym resolver = "const_ref \<Rightarrow> (ty \<times> const_value) option"
type_synonym resolved = "const_ref \<rightharpoonup> const_value"

definition const_literal :: "ty \<Rightarrow> const_value \<Rightarrow> const_expr" where
  "const_literal t v = ConstExpr t (KLiteral v)"

subsection \<open>References of an expression\<close>

function references_loop :: "const_expr list \<Rightarrow> const_ref list" where
  "references_loop [] = []"
| "references_loop (e # pending) =
     (case ce_kind e of KReference r \<Rightarrow> [r] | _ \<Rightarrow> []) @ references_loop (expr_children (ce_kind e) @ pending)"
  by pat_completeness auto
termination
  by (relation "measure (\<lambda>pending. \<Sum>x\<leftarrow>pending. Suc (size x))") (auto intro: le_less_trans [OF _ expr_children_size])

definition const_references :: "const_expr \<Rightarrow> const_ref list" where
  "const_references e = references_loop [e]"

subsection \<open>Scalar rules\<close>

definition same_value :: "const_value \<Rightarrow> const_value \<Rightarrow> bool" where
  "same_value l r = (case (l, r) of (ConstF a, ConstF b) \<Rightarrow> a = b | _ \<Rightarrow> l = r)"

definition ty_int_bits :: "ty \<Rightarrow> nat option" where
  "ty_int_bits t =
     (case t of
        I1 \<Rightarrow> Some 1 | U1 \<Rightarrow> Some 1 | I8 \<Rightarrow> Some 8 | U8 \<Rightarrow> Some 8 | I16 \<Rightarrow> Some 16 | U16 \<Rightarrow> Some 16
      | I32 \<Rightarrow> Some 32 | U32 \<Rightarrow> Some 32 | I64 \<Rightarrow> Some 64 | U64 \<Rightarrow> Some 64 | I128 \<Rightarrow> Some 128 | U128 \<Rightarrow> Some 128
      | _ \<Rightarrow> None)"

definition is_signed_int :: "ty \<Rightarrow> bool" where
  "is_signed_int t = (t \<in> {I1, I8, I16, I32, I64, I128})"

definition wrap_bits :: "ty \<Rightarrow> nat" where
  "wrap_bits t = (case ty_int_bits t of Some n \<Rightarrow> n | None \<Rightarrow> 128)"

definition wrap_u :: "u128 \<Rightarrow> ty \<Rightarrow> u128" where
  "wrap_u v t = (let bits = wrap_bits t in if 128 \<le> bits then v else v AND (push_bit bits 1 - 1))"

definition wrap_i :: "i128 \<Rightarrow> ty \<Rightarrow> i128" where
  "wrap_i v t =
     (let bits = wrap_bits t in
      if 128 \<le> bits then v
      else let mask = push_bit bits 1 - 1; u = v AND mask; sign = push_bit (bits - 1) 1
           in if u AND sign \<noteq> 0 then u OR NOT mask else u)"

text \<open>The caller has validated an integer type; \<open>bits\<close> is its width.\<close>

definition shift_count :: "ty \<Rightarrow> u128 \<Rightarrow> nat" where
  "shift_count t p = unat (wrap_u p t mod of_nat (wrap_bits t))"

definition const_not :: "ty \<Rightarrow> const_value \<Rightarrow> const_eval_error + const_value" where
  "const_not t v =
     (case v of
        ConstI x \<Rightarrow> if is_signed_int t then Inr (ConstI (wrap_i (NOT x) t)) else Inl UnsupportedOperation
      | ConstU x \<Rightarrow> if ty_int_bits t \<noteq> None then Inr (ConstU (wrap_u (NOT x) t)) else Inl UnsupportedOperation
      | _ \<Rightarrow> Inl UnsupportedOperation)"

definition const_float_op :: "const_binary_op \<Rightarrow> bin_op option" where
  "const_float_op op =
     (case op of CAdd \<Rightarrow> Some FAdd | CSub \<Rightarrow> Some FSub | CMul \<Rightarrow> Some FMul | CDiv \<Rightarrow> Some FDiv | CRem \<Rightarrow> Some FRem
      | _ \<Rightarrow> None)"

definition const_signed_bin :: "const_binary_op \<Rightarrow> ty \<Rightarrow> i128 \<Rightarrow> i128 \<Rightarrow> const_eval_error + i128" where
  "const_signed_bin op t a b =
     (case op of
        CAdd \<Rightarrow> Inr (a + b) | CSub \<Rightarrow> Inr (a - b) | CMul \<Rightarrow> Inr (a * b)
      | CBitAnd \<Rightarrow> Inr (a AND b) | CBitOr \<Rightarrow> Inr (a OR b) | CBitXor \<Rightarrow> Inr (a XOR b)
      | CDiv \<Rightarrow> if b = 0 then Inl EvalDivisionByZero else Inr (i128_div a b)
      | CRem \<Rightarrow> if b = 0 then Inl EvalRemainderByZero else Inr (i128_rem a b)
      | CShiftLeft \<Rightarrow> Inr (push_bit (shift_count t b) a)
      | CShiftRight \<Rightarrow> Inr (signed_drop_bit (shift_count t b) a)
      | _ \<Rightarrow> Inl UnsupportedOperation)"

definition const_unsigned_bin :: "const_binary_op \<Rightarrow> ty \<Rightarrow> u128 \<Rightarrow> u128 \<Rightarrow> const_eval_error + u128" where
  "const_unsigned_bin op t a b =
     (case op of
        CAdd \<Rightarrow> Inr (a + b) | CSub \<Rightarrow> Inr (a - b) | CMul \<Rightarrow> Inr (a * b)
      | CBitAnd \<Rightarrow> Inr (a AND b) | CBitOr \<Rightarrow> Inr (a OR b) | CBitXor \<Rightarrow> Inr (a XOR b)
      | CDiv \<Rightarrow> if b = 0 then Inl EvalDivisionByZero else Inr (a div b)
      | CRem \<Rightarrow> if b = 0 then Inl EvalRemainderByZero else Inr (a mod b)
      | CShiftLeft \<Rightarrow> Inr (push_bit (shift_count t b) a)
      | CShiftRight \<Rightarrow> Inr (drop_bit (shift_count t b) a)
      | _ \<Rightarrow> Inl UnsupportedOperation)"

text \<open>\<open>None\<close> is the panic of the \<open>unwrap\<close> on the floating result.\<close>

definition const_bin ::
  "const_binary_op \<Rightarrow> ty \<Rightarrow> const_value \<Rightarrow> const_value \<Rightarrow> (const_eval_error + const_value) option" where
  "const_bin op t l r =
     (if float_type t then
        (case (l, r) of
           (ConstF a, ConstF b) \<Rightarrow>
             (case const_float_op op of
                None \<Rightarrow> Some (Inl UnsupportedOperation)
              | Some fop \<Rightarrow> map_option (\<lambda>v. Inr (ConstF v)) (float_arithmetic fop a b))
         | _ \<Rightarrow> Some (Inl UnsupportedOperation))
      else if ty_int_bits t \<noteq> None then
        if is_signed_int t then
          (case (l, r) of
             (ConstI a, ConstI b) \<Rightarrow>
               Some (rbind (const_signed_bin op t a b) (\<lambda>p. Inr (ConstI (wrap_i p t))))
           | _ \<Rightarrow> Some (Inl UnsupportedOperation))
        else
          (case (l, r) of
             (ConstU a, ConstU b) \<Rightarrow>
               Some (rbind (const_unsigned_bin op t a b) (\<lambda>p. Inr (ConstU (wrap_u p t))))
           | _ \<Rightarrow> Some (Inl UnsupportedOperation))
      else Some (Inl UnsupportedOperation))"

definition const_float_cmp :: "const_compare_op \<Rightarrow> cmp_op" where
  "const_float_cmp op =
     (case op of CmpEq \<Rightarrow> FEq | CmpNe \<Rightarrow> FNe | CmpLt \<Rightarrow> FLt | CmpLe \<Rightarrow> FLe | CmpGt \<Rightarrow> FGt | CmpGe \<Rightarrow> FGe)"

definition compare_by :: "const_compare_op \<Rightarrow> 'a::linorder \<Rightarrow> 'a \<Rightarrow> bool" where
  "compare_by op a b =
     (case op of
        CmpEq \<Rightarrow> a = b | CmpNe \<Rightarrow> a \<noteq> b | CmpLt \<Rightarrow> a < b | CmpLe \<Rightarrow> a \<le> b | CmpGt \<Rightarrow> b < a | CmpGe \<Rightarrow> b \<le> a)"

definition const_cmp :: "const_compare_op \<Rightarrow> ty \<Rightarrow> const_value \<Rightarrow> const_value \<Rightarrow> const_eval_error + bool" where
  "const_cmp op t l r =
     (if float_type t then
        (case (l, r) of
           (ConstF a, ConstF b) \<Rightarrow>
             ok_or (float_compare a b (the (float_predicate (const_float_cmp op)))) EvalTypeMismatch
         | _ \<Rightarrow> Inl UnsupportedOperation)
      else if t = Bool then
        (case (l, r) of
           (ConstBool a, ConstBool b) \<Rightarrow>
             if op = CmpEq then Inr (a = b) else if op = CmpNe then Inr (a \<noteq> b) else Inl UnsupportedOperation
         | _ \<Rightarrow> Inl UnsupportedOperation)
      else if ty_int_bits t \<noteq> None then
        if is_signed_int t then
          (case (l, r) of (ConstI a, ConstI b) \<Rightarrow> Inr (compare_by op (sint a) (sint b)) | _ \<Rightarrow> Inl UnsupportedOperation)
        else
          (case (l, r) of (ConstU a, ConstU b) \<Rightarrow> Inr (compare_by op a b) | _ \<Rightarrow> Inl UnsupportedOperation)
      else Inl UnsupportedOperation)"

subsection \<open>Validation\<close>

text \<open>What the inspection loop does with one node: the children to push, with the budget and the
  table after the node.\<close>

type_synonym inspect_state = "budget \<times> resolved"

definition logical_op :: "const_binary_op \<Rightarrow> bool" where
  "logical_op op = (op = CLogicalAnd \<or> op = CLogicalOr)"

definition binary_supported :: "const_binary_op \<Rightarrow> ty \<Rightarrow> bool" where
  "binary_supported op t =
     (if logical_op op then t = Bool
      else if float_type t then op \<in> {CAdd, CSub, CMul, CDiv, CRem}
      else ty_int_bits t \<noteq> None)"

definition inspect_node :: "resolver \<Rightarrow> const_expr \<Rightarrow> inspect_state \<Rightarrow> eval_fail + const_expr list \<times> inspect_state" where
  "inspect_node resolve e = (\<lambda>(b, table).
     let t = ce_ty e; fail = (\<lambda>err. Inl (EvalError err e)) in
     case ce_kind e of
       KLiteral v \<Rightarrow> if valid_constant t v then Inr ([], b, table) else fail InvalidLiteral
     | KReference r \<Rightarrow>
         (case resolve r of
            None \<Rightarrow> fail (UnknownReference r)
          | Some (u, v) \<Rightarrow>
              (case budget_ty u b of
                 Inl err \<Rightarrow> fail (EvalResourceLimit err)
               | Inr b \<Rightarrow>
                   if u \<noteq> t then fail EvalTypeMismatch
                   else if \<not> valid_constant u v then fail InvalidLiteral
                   else Inr ([], b, table(r \<mapsto> v))))
     | KNeg x \<Rightarrow>
         if t \<noteq> ce_ty x then fail EvalTypeMismatch
         else if shape t = None \<and> \<not> float_type t then fail UnsupportedOperation
         else Inr ([x], b, table)
     | KNot x \<Rightarrow>
         if t \<noteq> ce_ty x then fail EvalTypeMismatch
         else if ty_int_bits t = None then fail UnsupportedOperation
         else Inr ([x], b, table)
     | KBinary op l r \<Rightarrow>
         if ce_ty l \<noteq> ce_ty r \<or> t \<noteq> ce_ty l then fail EvalTypeMismatch
         else if \<not> binary_supported op t then fail UnsupportedOperation
         else Inr ([l, r], b, table)
     | KCompare op l r \<Rightarrow>
         if ce_ty l \<noteq> ce_ty r \<or> t \<noteq> Bool then fail EvalTypeMismatch
         else if ce_ty l = Bool then
           if op \<noteq> CmpEq \<and> op \<noteq> CmpNe then fail UnsupportedOperation else Inr ([l, r], b, table)
         else if ty_int_bits (ce_ty l) = None \<and> \<not> float_type (ce_ty l) then fail UnsupportedOperation
         else Inr ([l, r], b, table))"

lemma inspect_node_children:
  "inspect_node resolve e s = Inr (es, s') \<Longrightarrow> es = expr_children (ce_kind e)"
  by (cases s; cases "ce_kind e")
    (auto simp: inspect_node_def Let_def split: if_splits option.splits sum.splits)

function inspect_loop :: "resolver \<Rightarrow> const_expr list \<Rightarrow> inspect_state \<Rightarrow> eval_fail + inspect_state" where
  "inspect_loop resolve [] s = Inr s"
| "inspect_loop resolve (e # pending) s =
     rbind (inspect_node resolve e s) (\<lambda>(es, s'). inspect_loop resolve (es @ pending) s')"
  by pat_completeness auto
termination
proof (relation "measure (\<lambda>(_, pending, _). \<Sum>x\<leftarrow>pending. Suc (size x))", goal_cases)
  case (2 resolve e pending s x es s')
  then have "es = expr_children (ce_kind e)" by (auto dest: inspect_node_children)
  then show ?case using expr_children_size [of e] by simp
qed simp

subsection \<open>The evaluation stack\<close>

datatype (plugins only: size) eval_step =
    Push "(const_expr \<times> nat) list"
  | Done const_value

definition finish :: "const_expr \<Rightarrow> (const_eval_error + const_value) option \<Rightarrow> eval_fail + eval_step" where
  "finish e res =
     (case res of
        None \<Rightarrow> Inl EvalPanic
      | Some (Inl err) \<Rightarrow> Inl (EvalError err e)
      | Some (Inr v) \<Rightarrow> Inr (Done v))"

definition const_neg :: "ty \<Rightarrow> const_value \<Rightarrow> const_value option" where
  "const_neg t v =
     (case v of
        ConstF x \<Rightarrow> Some (ConstF (float_negate x))
      | _ \<Rightarrow> Option.bind (shape t) (\<lambda>(bits, _). Option.bind (int_raw v bits) (\<lambda>p. int_pack t (0 - p))))"

text \<open>One turn of the loop on a popped entry: the entries to push, or the value of the node, and
  the value stack left.\<close>

definition eval_entry ::
  "resolved \<Rightarrow> const_expr \<Rightarrow> nat \<Rightarrow> const_value list \<Rightarrow> eval_fail + eval_step \<times> const_value list" where
  "eval_entry table e phase vals =
     (case ce_kind e of
        KLiteral v \<Rightarrow> Inr (Done v, vals)
      | KReference r \<Rightarrow> (case table r of None \<Rightarrow> Inl EvalPanic | Some v \<Rightarrow> Inr (Done v, vals))
      | KNeg x \<Rightarrow>
          if phase = 0 then Inr (Push [(x, 0), (e, 1)], vals)
          else (case vals of
                  [] \<Rightarrow> Inl EvalPanic
                | v # vals \<Rightarrow> rbind (finish e (map_option Inr (const_neg (ce_ty e) v))) (\<lambda>s. Inr (s, vals)))
      | KNot x \<Rightarrow>
          if phase = 0 then Inr (Push [(x, 0), (e, 1)], vals)
          else (case vals of
                  [] \<Rightarrow> Inl EvalPanic
                | v # vals \<Rightarrow> rbind (finish e (Some (const_not (ce_ty e) v))) (\<lambda>s. Inr (s, vals)))
      | KBinary op l r \<Rightarrow>
          if logical_op op then
            if phase = 0 then Inr (Push [(l, 0), (e, 1)], vals)
            else (case vals of
                    [] \<Rightarrow> Inl EvalPanic
                  | ConstBool b # vals \<Rightarrow>
                      if phase = 1 \<and> (op = CLogicalAnd \<and> b \<or> op = CLogicalOr \<and> \<not> b)
                      then Inr (Push [(r, 0), (e, 2)], vals)
                      else Inr (Done (ConstBool b), vals)
                  | _ # vals \<Rightarrow> Inl (EvalError EvalTypeMismatch e))
          else if phase = 0 then Inr (Push [(l, 0), (r, 0), (e, 1)], vals)
          else (case vals of
                  rv # lv # vals \<Rightarrow> rbind (finish e (const_bin op (ce_ty l) lv rv)) (\<lambda>s. Inr (s, vals))
                | _ \<Rightarrow> Inl EvalPanic)
      | KCompare op l r \<Rightarrow>
          if phase = 0 then Inr (Push [(l, 0), (r, 0), (e, 1)], vals)
          else (case vals of
                  rv # lv # vals \<Rightarrow>
                    rbind (finish e (Some (rbind (const_cmp op (ce_ty l) lv rv) (\<lambda>b. Inr (ConstBool b)))))
                      (\<lambda>s. Inr (s, vals))
                | _ \<Rightarrow> Inl EvalPanic))"

text \<open>Work left in an entry, which every turn of the loop decreases.\<close>

function expr_work :: "const_expr \<Rightarrow> nat" where
  "expr_work e = 4 + (\<Sum>x\<leftarrow>expr_children (ce_kind e). expr_work x)"
  by pat_completeness auto
termination by (relation "measure size") (auto dest: expr_children_smaller)

declare expr_work.simps [simp del]

fun entry_work :: "const_expr \<times> nat \<Rightarrow> nat" where
  "entry_work (e, phase) =
     (if phase = 0 then expr_work e
      else if phase = 1 then 2 + (case ce_kind e of KBinary op l r \<Rightarrow> if logical_op op then expr_work r else 0 | _ \<Rightarrow> 0)
      else 1)"

lemma eval_entry_work:
  "eval_entry table e phase vals = Inr (Push entries, vals') \<Longrightarrow> (\<Sum>x\<leftarrow>entries. entry_work x) < entry_work (e, phase)"
  by (cases "ce_kind e")
    (auto simp: eval_entry_def expr_work.simps [of e] result_simps finish_def
      split: if_splits option.splits list.splits const_value.splits sum.splits)

function eval_loop :: "resolved \<Rightarrow> (const_expr \<times> nat) list \<Rightarrow> const_value list \<Rightarrow> eval_fail + const_value list" where
  "eval_loop table [] vals = Inr vals"
| "eval_loop table ((e, phase) # pending) vals =
     rbind (eval_entry table e phase vals) (\<lambda>(step, vals').
     case step of
       Push entries \<Rightarrow> eval_loop table (entries @ pending) vals'
     | Done v \<Rightarrow>
         if valid_constant (ce_ty e) v then eval_loop table pending (v # vals')
         else Inl (EvalError InvalidLiteral e))"
  by pat_completeness auto
termination
proof (relation "measure (\<lambda>(_, pending, _). \<Sum>x\<leftarrow>pending. entry_work x)", goal_cases)
  case (2 table e phase pending vals x step vals' entries)
  then have "eval_entry table e phase vals = Inr (Push entries, vals')" by simp
  from eval_entry_work [OF this] show ?case by (simp del: entry_work.simps)
next
  case (3 table e phase pending vals x step vals' v)
  have "0 < entry_work (e, phase)" by (simp add: expr_work.simps [of e])
  then show ?case by (simp del: entry_work.simps)
qed simp

definition evaluate_with_error_site :: "const_expr \<Rightarrow> resolver \<Rightarrow> ir_limits \<Rightarrow> eval_fail + const_value" where
  "evaluate_with_error_site e resolve limits =
     rbind (map_err (\<lambda>err. EvalError (EvalResourceLimit err) e) (budget_new limits)) (\<lambda>b.
     rbind (map_err (\<lambda>err. EvalError (EvalResourceLimit err) e) (budget_expression e b)) (\<lambda>b.
     rbind (inspect_loop resolve [e] (b, Map.empty)) (\<lambda>(b, table).
     rbind (eval_loop table [(e, 0)] []) (\<lambda>vals.
     case vals of [] \<Rightarrow> Inl EvalPanic | v # _ \<Rightarrow> Inr v))))"

definition evaluate_with_limits :: "const_expr \<Rightarrow> resolver \<Rightarrow> ir_limits \<Rightarrow> const_eval_error option + const_value" where
  "evaluate_with_limits e resolve limits =
     map_err (\<lambda>f. case f of EvalError err _ \<Rightarrow> Some err | EvalPanic \<Rightarrow> None)
       (evaluate_with_error_site e resolve limits)"

definition const_evaluate :: "const_expr \<Rightarrow> resolver \<Rightarrow> const_eval_error option + const_value" where
  "const_evaluate e resolve = evaluate_with_limits e resolve ir_limits_default"

subsection \<open>Recursive evaluation\<close>

text \<open>The meaning of an expression: operands left to right, the right operand of a logical
  operation only when the left does not decide, every result checked against the type.\<close>

definition checked_result :: "const_expr \<Rightarrow> (const_eval_error + const_value) option \<Rightarrow> eval_fail + const_value" where
  "checked_result e res =
     (case res of
        None \<Rightarrow> Inl EvalPanic
      | Some (Inl err) \<Rightarrow> Inl (EvalError err e)
      | Some (Inr v) \<Rightarrow> if valid_constant (ce_ty e) v then Inr v else Inl (EvalError InvalidLiteral e))"

function ceval :: "resolved \<Rightarrow> const_expr \<Rightarrow> eval_fail + const_value" where
  "ceval table (ConstExpr t k) =
     (let e = ConstExpr t k in
      case k of
        KLiteral v \<Rightarrow> checked_result e (Some (Inr v))
      | KReference r \<Rightarrow> checked_result e (map_option Inr (table r))
      | KNeg x \<Rightarrow> rbind (ceval table x) (\<lambda>v. checked_result e (map_option Inr (const_neg t v)))
      | KNot x \<Rightarrow> rbind (ceval table x) (\<lambda>v. checked_result e (Some (const_not t v)))
      | KBinary op l r \<Rightarrow>
          if logical_op op then
            rbind (ceval table l) (\<lambda>lv.
            case lv of
              ConstBool b \<Rightarrow>
                if op = CLogicalAnd \<and> b \<or> op = CLogicalOr \<and> \<not> b then
                  rbind (ceval table r) (\<lambda>rv.
                  case rv of ConstBool c \<Rightarrow> checked_result e (Some (Inr (ConstBool c)))
                           | _ \<Rightarrow> Inl (EvalError EvalTypeMismatch e))
                else checked_result e (Some (Inr (ConstBool b)))
            | _ \<Rightarrow> Inl (EvalError EvalTypeMismatch e))
          else
            rbind (ceval table l) (\<lambda>lv. rbind (ceval table r) (\<lambda>rv. checked_result e (const_bin op (ce_ty l) lv rv)))
      | KCompare op l r \<Rightarrow>
          rbind (ceval table l) (\<lambda>lv. rbind (ceval table r) (\<lambda>rv.
          checked_result e (Some (rbind (const_cmp op (ce_ty l) lv rv) (\<lambda>b. Inr (ConstBool b)))))))"
  by pat_completeness auto
termination by (relation "measure (\<lambda>(_, e). size e)") auto

declare ceval.simps [simp del] eval_loop.simps(2) [simp del]

lemma finish_step:
  "rbind (rbind (finish e res) (\<lambda>s. Inr (s, vals))) (\<lambda>(step, vals').
     case step of
       Push entries \<Rightarrow> f entries vals'
     | Done v \<Rightarrow> if valid_constant (ce_ty e) v then eval_loop table pending (v # vals') else Inl (EvalError InvalidLiteral e)) =
   rbind (checked_result e res) (\<lambda>v. eval_loop table pending (v # vals))"
  by (simp add: finish_def checked_result_def split: option.split sum.split)

lemma eval_loop_done:
  "eval_entry table e phase vals = rbind (finish e res) (\<lambda>s. Inr (s, vals')) \<Longrightarrow>
   eval_loop table ((e, phase) # pending) vals = rbind (checked_result e res) (\<lambda>v. eval_loop table pending (v # vals'))"
  by (simp add: eval_loop.simps(2) finish_step)

lemma eval_loop_push:
  "eval_entry table e phase vals = Inr (Push entries, vals') \<Longrightarrow>
   eval_loop table ((e, phase) # pending) vals = eval_loop table (entries @ pending) vals'"
  by (simp add: eval_loop.simps(2))

lemma eval_loop_fail:
  "eval_entry table e phase vals = Inl err \<Longrightarrow> eval_loop table ((e, phase) # pending) vals = Inl err"
  by (simp add: eval_loop.simps(2))

definition runs :: "resolved \<Rightarrow> const_expr \<Rightarrow> bool" where
  "runs table e \<longleftrightarrow> (\<forall>pending vals. eval_loop table ((e, 0) # pending) vals =
     rbind (ceval table e) (\<lambda>v. eval_loop table pending (v # vals)))"

lemma runsD: "runs table e \<Longrightarrow> eval_loop table ((e, 0) # pending) vals =
     rbind (ceval table e) (\<lambda>v. eval_loop table pending (v # vals))"
  by (simp add: runs_def)

lemma runs_unary:
  assumes "runs table x"
    and "\<And>vals. eval_entry table e 0 vals = Inr (Push [(x, 0), (e, 1)], vals)"
    and "\<And>v vals. eval_entry table e 1 (v # vals) = rbind (finish e (res v)) (\<lambda>s. Inr (s, vals))"
    and "ceval table e = rbind (ceval table x) (\<lambda>v. checked_result e (res v))"
  shows "runs table e"
  unfolding runs_def assms(4)
  using eval_loop_push [OF assms(2)] runsD [OF assms(1)] eval_loop_done [OF assms(3)]
  by (simp add: rbind_assoc cong del: rbind_weak_cong)

lemma runs_binary:
  assumes "runs table l" "runs table r"
    and "\<And>vals. eval_entry table e 0 vals = Inr (Push [(l, 0), (r, 0), (e, 1)], vals)"
    and "\<And>lv rv vals. eval_entry table e 1 (rv # lv # vals) = rbind (finish e (res lv rv)) (\<lambda>s. Inr (s, vals))"
    and "ceval table e = rbind (ceval table l) (\<lambda>lv. rbind (ceval table r) (\<lambda>rv. checked_result e (res lv rv)))"
  shows "runs table e"
  unfolding runs_def assms(5)
  using eval_loop_push [OF assms(3)] runsD [OF assms(1)] runsD [OF assms(2)] eval_loop_done [OF assms(4)]
  by (simp add: rbind_assoc cong del: rbind_weak_cong)

text \<open>The value of a logical operand, and when the right operand is needed.\<close>

definition bool_result :: "const_expr \<Rightarrow> const_value \<Rightarrow> eval_fail + const_value" where
  "bool_result e v =
     (case v of ConstBool c \<Rightarrow> checked_result e (Some (Inr (ConstBool c)))
      | _ \<Rightarrow> Inl (EvalError EvalTypeMismatch e))"

definition undecided :: "const_binary_op \<Rightarrow> const_value \<Rightarrow> bool" where
  "undecided op v \<longleftrightarrow> op = CLogicalAnd \<and> v = ConstBool True \<or> op = CLogicalOr \<and> v = ConstBool False"

lemma ceval_logical:
  assumes "logical_op op"
  shows "ceval table (ConstExpr t (KBinary op l r)) =
    rbind (ceval table l) (\<lambda>lv.
      if undecided op lv then rbind (ceval table r) (bool_result (ConstExpr t (KBinary op l r)))
      else bool_result (ConstExpr t (KBinary op l r)) lv)"
  using assms
  by (auto simp: ceval.simps bool_result_def undecided_def Let_def logical_op_def rbind_def
      split: const_value.split sum.split)

lemma eval_logical_last:
  assumes "logical_op op" "e = ConstExpr t (KBinary op l r)" "phase = 2 \<or> phase = 1 \<and> \<not> undecided op v"
  shows "eval_loop table ((e, phase) # pending) (v # vals) =
    rbind (bool_result e v) (\<lambda>v. eval_loop table pending (v # vals))"
proof (cases v)
  case (ConstBool b)
  have "eval_loop table ((e, phase) # pending) (v # vals) =
      rbind (checked_result e (Some (Inr v))) (\<lambda>v. eval_loop table pending (v # vals))"
    by (rule eval_loop_done) (use assms ConstBool in \<open>auto simp: eval_entry_def finish_def undecided_def\<close>)
  with ConstBool show ?thesis by (simp add: bool_result_def)
qed (use assms in \<open>auto simp: eval_loop.simps(2) eval_entry_def bool_result_def\<close>)

lemma runs_logical:
  assumes "runs table l" "runs table r" "logical_op op" "e = ConstExpr t (KBinary op l r)"
  shows "runs table e"
  unfolding runs_def
proof (intro allI)
  fix pending vals
  have "eval_loop table ((e, 1) # pending) (lv # vals) =
      rbind (if undecided op lv then rbind (ceval table r) (bool_result e) else bool_result e lv)
        (\<lambda>v. eval_loop table pending (v # vals))" for lv
  proof (cases "undecided op lv")
    case True
    have "eval_loop table ((e, 1) # pending) (lv # vals) = eval_loop table ([(r, 0), (e, 2)] @ pending) vals"
      by (rule eval_loop_push) (use True assms(3,4) in \<open>auto simp: eval_entry_def undecided_def\<close>)
    with True runsD [OF assms(2)] eval_logical_last [OF assms(3,4)] show ?thesis
      by (simp add: rbind_assoc cong del: rbind_weak_cong)
  qed (simp add: eval_logical_last [OF assms(3,4)])
  moreover have "eval_loop table ((e, 0) # pending) vals = eval_loop table ([(l, 0), (e, 1)] @ pending) vals"
    by (rule eval_loop_push) (use assms(3,4) in \<open>simp add: eval_entry_def\<close>)
  ultimately show "eval_loop table ((e, 0) # pending) vals =
      rbind (ceval table e) (\<lambda>v. eval_loop table pending (v # vals))"
    using runsD [OF assms(1)] ceval_logical [OF assms(3), of table t l r, folded assms(4)]
    by (simp add: rbind_assoc cong del: rbind_weak_cong)
qed

lemma runs_all: "runs table e"
proof (induction "size e" arbitrary: e rule: less_induct)
  case less
  obtain t k where e: "e = ConstExpr t k" by (cases e)
  show ?case
  proof (cases k)
    case (KNot x)
    with less [of x] show ?thesis
      by (intro runs_unary [of table x e "\<lambda>v. Some (const_not t v)"]) (simp_all add: e eval_entry_def ceval.simps cong del: rbind_weak_cong)
  next
    case (KNeg x)
    with less [of x] show ?thesis
      by (intro runs_unary [of table x e "\<lambda>v. map_option Inr (const_neg t v)"]) (simp_all add: e eval_entry_def ceval.simps cong del: rbind_weak_cong)
  next
    case (KLiteral v)
    have "eval_entry table e 0 vals = rbind (finish e (Some (Inr v))) (\<lambda>s. Inr (s, vals))" for vals
      by (simp add: e KLiteral eval_entry_def finish_def)
    from eval_loop_done [OF this] show ?thesis by (simp add: runs_def e KLiteral ceval.simps)
  next
    case (KReference r)
    have "eval_entry table e 0 vals = rbind (finish e (map_option Inr (table r))) (\<lambda>s. Inr (s, vals))" for vals
      by (simp add: e KReference eval_entry_def finish_def split: option.split)
    from eval_loop_done [OF this] show ?thesis by (simp add: runs_def e KReference ceval.simps)
  next
    case (KCompare op l r)
    with less [of l] less [of r] show ?thesis
      by (intro runs_binary [of table l r e "\<lambda>lv rv. Some (rbind (const_cmp op (ce_ty l) lv rv) (\<lambda>b. Inr (ConstBool b)))"])
        (simp_all add: e eval_entry_def ceval.simps cong del: rbind_weak_cong)
  next
    case (KBinary op l r)
    show ?thesis
    proof (cases "logical_op op")
      case True
      with less [of l] less [of r] KBinary show ?thesis by (intro runs_logical [of table l r op e t]) (simp_all add: e)
    next
      case False
      with less [of l] less [of r] KBinary show ?thesis
        by (intro runs_binary [of table l r e "\<lambda>lv rv. const_bin op (ce_ty l) lv rv"])
          (simp_all add: e eval_entry_def ceval.simps cong del: rbind_weak_cong)
    qed
  qed
qed

lemma eval_loop_ceval: "eval_loop table [(e, 0)] [] = rbind (ceval table e) (\<lambda>v. Inr [v])"
  using runsD [OF runs_all, of table e "[]" "[]"] by (simp cong del: rbind_weak_cong)

subsection \<open>Compile-time and run-time arithmetic\<close>

definition runtime_op :: "const_binary_op \<Rightarrow> bool \<Rightarrow> bin_op option" where
  "runtime_op op s =
     (case op of
        CAdd \<Rightarrow> Some Add | CSub \<Rightarrow> Some Sub | CMul \<Rightarrow> Some Mul
      | CBitAnd \<Rightarrow> Some And | CBitOr \<Rightarrow> Some Or | CBitXor \<Rightarrow> Some Xor
      | CDiv \<Rightarrow> Some (if s then SDiv else UDiv) | CRem \<Rightarrow> Some (if s then SRem else URem)
      | CShiftLeft \<Rightarrow> Some Shl | CShiftRight \<Rightarrow> Some (if s then AShr else LShr)
      | _ \<Rightarrow> None)"

lemma ty_int_bits_shape: "ty_int_bits t = map_option fst (shape t)"
  by (cases t) (simp_all add: ty_int_bits_def shape_def)

lemma is_signed_int_shape: "shape t = Some (n, s) \<Longrightarrow> is_signed_int t = s"
  by (cases t) (auto simp: is_signed_int_def shape_def)

lemma wrap_bits_shape: "shape t = Some (n, s) \<Longrightarrow> wrap_bits t = n"
  by (simp add: wrap_bits_def ty_int_bits_shape)

lemma wrap_u_take_bit:
  assumes "shape t = Some (n, s)"
  shows "wrap_u v t = take_bit n v"
proof (cases "n = 128")
  case True
  with assms show ?thesis by (simp add: wrap_u_def wrap_bits_shape take_bit_word_eq_self)
next
  case False
  with shape_width [OF assms] have "n < 128" by simp
  then have "push_bit n 1 - 1 = int_mask n" by (simp add: int_mask_def)
  with assms \<open>n < 128\<close> show ?thesis
    by (simp add: wrap_u_def wrap_bits_shape Let_def and_int_mask del: push_bit_of_1)
qed

lemma wrap_i_signed:
  assumes "shape t = Some (n, s)"
  shows "wrap_i v t = int_signed (take_bit n v) n"
proof (cases "n = 128")
  case True
  with assms show ?thesis by (simp add: wrap_i_def wrap_bits_shape int_signed_def take_bit_word_eq_self)
next
  case False
  with shape_width [OF assms] have "n < 128" by simp
  then have "push_bit n 1 - 1 = int_mask n" by (simp add: int_mask_def)
  with assms \<open>n < 128\<close> show ?thesis
    by (simp add: wrap_i_def wrap_bits_shape int_signed_def Let_def and_int_mask del: push_bit_of_1)
qed

lemma int_pack_wrap:
  "shape t = Some (n, s) \<Longrightarrow> int_pack t p = Some (if s then ConstI (wrap_i p t) else ConstU (wrap_u p t))"
  using shape_width [of t n s]
  by (simp add: int_pack_def wrap_i_signed wrap_u_take_bit and_int_mask Let_def)

lemma shift_count_exact:
  assumes "shape t = Some (n, s)"
  shows "shift_count t p = shift_amount n (uint p)"
proof -
  have n: "0 < n" "n \<le> 128" using shape_width [OF assms] by auto
  show ?thesis
    using shift_count_pattern [OF n, of "take_bit n p" "uint p"] assms
    by (simp add: shift_count_def wrap_bits_shape wrap_u_take_bit unsigned_take_bit_eq)
qed

lemma const_signed_bin_exact:
  assumes t: "shape t = Some (n, True)" and op: "runtime_op op True = Some rop"
    and a: "in_range n True (sint a)" and b: "in_range n True (sint b)"
  shows "if is_division rop \<and> b = 0
    then const_signed_bin op t a b = Inl (if rop = SDiv then EvalDivisionByZero else EvalRemainderByZero)
    else \<exists>p. const_signed_bin op t a b = Inr p \<and>
      take_bit n (uint p) = take_bit n (math_bin rop n (sint a) (sint b))"
proof -
  have n: "0 < n" "n \<le> 128" using shape_width [OF t] by auto
  have m: "min n 128 = n" "min 128 n = n" using n by simp_all
  have self: "signed_take_bit (n - 1) (sint a) = sint a" "signed_take_bit (n - 1) (sint b) = sint b"
    using wrap_to_id [OF n(1) a] wrap_to_id [OF n(1) b] by (simp_all add: wrap_to_def)
  have us: "take_bit n (uint w) = take_bit n (sint w)" for w :: i128
    using take_bit_sint [OF n(2)] by simp
  have arith: "take_bit n (uint a + uint b) = take_bit n (sint a + sint b)"
    "take_bit n (uint a - uint b) = take_bit n (sint a - sint b)"
    "take_bit n (uint a * uint b) = take_bit n (sint a * sint b)"
    by (metis us take_bit_arith)+
  have sh: "shift_amount n (uint b) = shift_amount n (sint b)" by (simp add: shift_amount_def us)
  have push: "take_bit n (push_bit k (uint a)) = take_bit n (push_bit k (sint a))" for k
    by (metis us take_bit_push_take)
  show ?thesis
    using op
    by (cases op) (auto simp: const_signed_bin_def runtime_op_def is_division_def math_bin_def i128_div_def
        i128_rem_def uint_arith m self [unfolded One_nat_def] arith shift_count_exact [OF t] sh push us [of a] us [of b]
        us [of "signed_drop_bit k a" for k] unsigned_and_eq
        unsigned_or_eq unsigned_xor_eq unsigned_push_bit_eq sint_signed_drop_bit_eq)
qed

lemma const_unsigned_bin_exact:
  assumes t: "shape t = Some (n, False)" and op: "runtime_op op False = Some rop"
    and a: "in_range n False (uint a)" and b: "in_range n False (uint b)"
  shows "if is_division rop \<and> b = 0
    then const_unsigned_bin op t a b = Inl (if rop = UDiv then EvalDivisionByZero else EvalRemainderByZero)
    else \<exists>p. const_unsigned_bin op t a b = Inr p \<and>
      take_bit n (uint p) = take_bit n (math_bin rop n (uint a) (uint b))"
proof -
  have n: "0 < n" "n \<le> 128" using shape_width [OF t] by auto
  have m: "min n 128 = n" "min 128 n = n" using n by simp_all
  have self: "take_bit n (uint a) = uint a" "take_bit n (uint b) = uint b"
    using wrap_to_id [OF n(1) a] wrap_to_id [OF n(1) b] by (simp_all add: wrap_to_def)
  have full: "take_bit 128 (uint a) = uint a"
    using unsigned_less [of a, where 'a = int] by (simp add: take_bit_int_eq_self_iff)
  show ?thesis
    using op
    by (cases op) (auto simp: full const_unsigned_bin_def runtime_op_def is_division_def math_bin_def
        uint_arith m self shift_count_exact [OF t] uint_div_distrib uint_mod_distrib unsigned_and_eq
        unsigned_or_eq unsigned_xor_eq unsigned_push_bit_eq unsigned_drop_bit_eq)
qed

lemma float_type_shape: "shape t = Some p \<Longrightarrow> \<not> float_type t"
  by (cases t) (auto simp: shape_def float_type_def)

text \<open>Both evaluations, on literals of the type, as one reduced mathematical operation.\<close>

lemma const_bin_exact:
  assumes t: "shape t = Some (n, s)" and op: "runtime_op op s = Some rop"
    and l: "valid_constant t l" and r: "valid_constant t r"
  shows "if is_division rop \<and> const_int r = 0
    then const_bin op t l r =
      Some (Inl (if rop = UDiv \<or> rop = SDiv then EvalDivisionByZero else EvalRemainderByZero))
    else \<exists>v. const_bin op t l r = Some (Inr v) \<and> valid_constant t v \<and>
      const_int v = wrap_to n s (math_bin rop n (const_int l) (const_int r))"
proof -
  have n: "0 < n" "n \<le> 128" using shape_width [OF t] by auto
  note v = l [unfolded valid_constant_int [OF t]] r [unfolded valid_constant_int [OF t]]
  have pack: "\<exists>c. ok_or (int_pack t p) UnsupportedOperation = Inr c \<and> valid_constant t c \<and> const_int c = wrap_to n s z"
    if "take_bit n (uint p) = take_bit n z" for p z
    using int_pack_value [OF t, of p] wrap_to_cong [OF n(1) that, of s] by auto
  have nf: "\<not> float_type t" "ty_int_bits t \<noteq> None" "is_signed_int t = s"
    using float_type_shape [OF t] ty_int_bits_shape [of t] is_signed_int_shape [OF t] t by auto
  show ?thesis
  proof (cases s)
    case True
    with v obtain a b where ab: "l = ConstI a" "r = ConstI b" "in_range n True (sint a)" "in_range n True (sint b)"
      by (cases l; cases r) auto
    have zero: "const_int r = 0 \<longleftrightarrow> b = 0" using signed_word_eqI [of b 0] by (auto simp: ab)
    have run: "const_bin op t l r = Some (rbind (const_signed_bin op t a b) (\<lambda>p. ok_or (int_pack t p) UnsupportedOperation))"
      using nf True by (simp add: const_bin_def ab int_pack_wrap [OF t] cong del: rbind_weak_cong)
    have not_u: "rop \<noteq> UDiv" using op True by (cases op) (auto simp: runtime_op_def)
    from t op True have t': "shape t = Some (n, True)" and op': "runtime_op op True = Some rop" by simp_all
    show ?thesis
      using const_signed_bin_exact [OF t' op' ab(3,4)]
      unfolding zero run by (auto simp: ab not_u intro: pack split: if_splits)
  next
    case False
    with v obtain a b where ab: "l = ConstU a" "r = ConstU b" "in_range n False (uint a)" "in_range n False (uint b)"
      by (cases l; cases r) auto
    have zero: "const_int r = 0 \<longleftrightarrow> b = 0" by (simp add: ab unsigned_eq_0_iff)
    have run: "const_bin op t l r = Some (rbind (const_unsigned_bin op t a b) (\<lambda>p. ok_or (int_pack t p) UnsupportedOperation))"
      using nf False by (simp add: const_bin_def ab int_pack_wrap [OF t] cong del: rbind_weak_cong)
    have not_s: "rop \<noteq> SDiv" using op False by (cases op) (auto simp: runtime_op_def)
    from t op False have t': "shape t = Some (n, False)" and op': "runtime_op op False = Some rop" by simp_all
    show ?thesis
      using const_unsigned_bin_exact [OF t' op' ab(3,4)]
      unfolding zero run by (auto simp: ab not_s intro: pack split: if_splits)
  qed
qed

text \<open>C26. Constant folding agrees with execution.  On literals of an integer type, every
  arithmetic, bitwise, shift, division and remainder rule of the constant evaluator gives
  the literal the interpreter's instruction of the same meaning computes, and fails with the
  corresponding zero-divisor error exactly when that instruction traps.\<close>

theorem const_bin_agrees_with_runtime:
  assumes t: "shape t = Some (n, s)" and op: "runtime_op op s = Some rop"
    and l: "valid_constant t l" and r: "valid_constant t r"
  shows "const_bin op t l r =
    Some (case int_bin rop t l r of
            Inr v \<Rightarrow> Inr v
          | Inl (Trapped DivisionByZero) \<Rightarrow> Inl EvalDivisionByZero
          | Inl _ \<Rightarrow> Inl EvalRemainderByZero)"
proof -
  have n: "0 < n" using shape_width [OF t] by auto
  note vl = l [unfolded valid_constant_int [OF t]] and vr = r [unfolded valid_constant_int [OF t]]
  have int: "is_integral l" "is_integral r" using vl vr by (cases l; cases r; simp add: is_integral_def)+
  have iop: "int_op rop" using op by (cases op) (auto simp: runtime_op_def int_op_def split: if_splits)
  have zero: "take_bit n (const_int r) = 0 \<longleftrightarrow> const_int r = 0"
    using wrap_to_id [OF n, of s "const_int r"] vr wrap_to_cong [OF n, of "const_int r" 0 s] by (auto simp: wrap_to_def)
  have same: "v = w" if "valid_constant t v" "valid_constant t w" "const_int v = const_int w" for v w
    using that unfolding valid_constant_int [OF t] by (cases v; cases w) (auto simp: signed_word_eqI word_uint_eqI)
  show ?thesis
    using const_bin_exact [OF t op l r] int_bin_exact_raw [OF t iop int] same
    unfolding zero by (auto split: if_splits)
qed

theorem const_bin_agrees_with_runtime_witness:
  "const_bin CShiftRight I16 (ConstI (- 300)) (ConstI 17) =
    Some (case int_bin AShr I16 (ConstI (- 300)) (ConstI 17) of
            Inr v \<Rightarrow> Inr v
          | Inl (Trapped DivisionByZero) \<Rightarrow> Inl EvalDivisionByZero
          | Inl _ \<Rightarrow> Inl EvalRemainderByZero)"
  by (rule const_bin_agrees_with_runtime [of I16 16 True])
    (simp_all add: shape_def runtime_op_def valid_constant_def fits_signed_def)

subsection \<open>Validated expressions\<close>

text \<open>What the inspection establishes at one node, and for the whole tree.\<close>

definition node_ok :: "resolver \<Rightarrow> resolved \<Rightarrow> const_expr \<Rightarrow> bool" where
  "node_ok resolve table e =
     (case ce_kind e of
        KLiteral v \<Rightarrow> valid_constant (ce_ty e) v
      | KReference r \<Rightarrow> (\<exists>v. table r = Some v \<and> valid_constant (ce_ty e) v)
      | KNeg x \<Rightarrow> ce_ty x = ce_ty e \<and> (shape (ce_ty e) \<noteq> None \<or> float_type (ce_ty e))
      | KNot x \<Rightarrow> ce_ty x = ce_ty e \<and> shape (ce_ty e) \<noteq> None
      | KBinary op l r \<Rightarrow> ce_ty l = ce_ty e \<and> ce_ty r = ce_ty e \<and> binary_supported op (ce_ty e)
      | KCompare op l r \<Rightarrow> ce_ty e = Bool \<and> ce_ty r = ce_ty l \<and>
          (ce_ty l = Bool \<and> (op = CmpEq \<or> op = CmpNe) \<or> shape (ce_ty l) \<noteq> None \<or> float_type (ce_ty l)))"

function const_wf :: "resolver \<Rightarrow> resolved \<Rightarrow> const_expr \<Rightarrow> bool" where
  "const_wf resolve table e \<longleftrightarrow> node_ok resolve table e \<and> (\<forall>x\<in>set (expr_children (ce_kind e)). const_wf resolve table x)"
  by pat_completeness auto
termination by (relation "measure (\<lambda>(_, _, e). size e)") (auto dest: expr_children_smaller)

declare const_wf.simps [simp del]

text \<open>The table only ever holds what the resolver answers, so later entries do not disturb it.\<close>

definition table_agrees :: "resolver \<Rightarrow> resolved \<Rightarrow> bool" where
  "table_agrees resolve table \<longleftrightarrow> (\<forall>r v. table r = Some v \<longrightarrow> (\<exists>t. resolve r = Some (t, v)))"

lemma node_ok_mono: "node_ok resolve table e \<Longrightarrow> table \<subseteq>\<^sub>m table' \<Longrightarrow> node_ok resolve table' e"
  by (cases "ce_kind e") (auto simp: node_ok_def map_le_def dom_def)

lemma inspect_node_cases:
  assumes "inspect_node resolve e (b, table) = Inr (es, b', table')"
  shows "(\<exists>r v. ce_kind e = KReference r \<and> resolve r = Some (ce_ty e, v) \<and> valid_constant (ce_ty e) v \<and>
      table' = table(r \<mapsto> v)) \<or> table' = table \<and> node_ok resolve table e"
proof (cases "ce_kind e")
  case (KReference r)
  with assms show ?thesis
    by (auto simp: inspect_node_def Let_def split: if_splits option.splits sum.splits)
qed (use assms in \<open>auto simp: inspect_node_def Let_def node_ok_def ty_int_bits_shape split: if_splits\<close>)

lemma inspect_node_ok:
  assumes "inspect_node resolve e (b, table) = Inr (es, b', table')" "table_agrees resolve table"
  shows "node_ok resolve table' e" "table \<subseteq>\<^sub>m table'" "table_agrees resolve table'"
  using inspect_node_cases [OF assms(1)] assms(2)
  by (fastforce simp: node_ok_def map_le_def table_agrees_def)+

lemma inspect_loop_ok:
  assumes "inspect_loop resolve pending (b, table) = Inr (b', table')" "table_agrees resolve table"
  shows "(\<forall>e\<in>set pending. const_wf resolve table' e) \<and> table \<subseteq>\<^sub>m table' \<and> table_agrees resolve table'"
  using assms
proof (induction resolve pending "(b, table)" arbitrary: b table rule: inspect_loop.induct)
  case (2 resolve e pending b table)
  from 2(2) obtain es b1 table1 where step: "inspect_node resolve e (b, table) = Inr (es, b1, table1)"
    and rest: "inspect_loop resolve (es @ pending) (b1, table1) = Inr (b', table')"
    by (auto simp: result_simps)
  note node = inspect_node_ok [OF step 2(3)]
  have ih: "(\<forall>x\<in>set (es @ pending). const_wf resolve table' x) \<and> table1 \<subseteq>\<^sub>m table' \<and> table_agrees resolve table'"
    by (rule 2(1) [OF step refl rest node(3)])
  then have "const_wf resolve table' e"
    using inspect_node_children [OF step] node_ok_mono [OF node(1)] by (simp add: const_wf.simps [of _ _ e])
  with ih node(2) show ?case by (auto intro: map_le_trans)
qed simp

subsection \<open>Results of the scalar rules\<close>

lemma float_width_fmt_bits [simp]: "float_width (fmt_bits (format_of x) p) = float_width x"
  by (cases x) (simp_all add: fmt_bits_def float_bits_of_width_def)

lemma float_width_pack [simp]: "float_width (float_pack (format_of x) s m k) = float_width x"
  by (simp add: float_pack_def fmt_special_def Let_def split_beta)

lemma float_width_special [simp]: "float_width (fmt_special (format_of x) s i) = float_width x" "float_width (fmt_nan (format_of x)) = float_width x"
  by (simp_all add: fmt_special_def fmt_nan_def)

lemma float_width_add: "float_width (float_add (format_of x) a b) = float_width x"
  by (simp add: float_add_def Let_def split_beta)

lemma float_arithmetic_width:
  "float_width a = float_width b \<Longrightarrow> op \<in> {FAdd, FSub, FMul, FDiv, FRem} \<Longrightarrow>
    \<exists>c. float_arithmetic op a b = Some c \<and> float_width c = float_width a"
  by (auto simp: float_arithmetic_def Let_def float_width_add float_mul_def float_div_def float_rem_def)

lemma valid_constant_float:
  assumes "float_type t"
  shows "valid_constant t v \<longleftrightarrow> (\<exists>x. v = ConstF x \<and> float_width x = (if t = F16 then 16 else if t = F32 then 32 else 64))"
  using assms by (cases v) (auto simp: float_type_def valid_constant_def split: float_bits.splits)

lemma float_compare_some: "float_width a = float_width b \<Longrightarrow> \<exists>c. float_compare a b p = Some c"
  by (simp add: float_compare_def Let_def split_beta)

lemma valid_constant_bool: "valid_constant Bool v \<longleftrightarrow> (\<exists>b. v = ConstBool b)"
  by (cases v) (auto simp: valid_constant_def split: float_bits.splits)

lemma const_neg_ok:
  assumes "shape t \<noteq> None \<or> float_type t" "valid_constant t v"
  shows "\<exists>w. const_neg t v = Some w \<and> valid_constant t w"
proof (cases "shape t")
  case None
  with assms show ?thesis by (auto simp: valid_constant_float const_neg_def float_negate_def)
next
  case (Some p)
  obtain n s where t: "shape t = Some (n, s)" using Some by (cases p) simp
  from assms(2) have "is_integral v" unfolding valid_constant_int [OF t] by (cases v) (auto simp: is_integral_def)
  then obtain q where "int_raw v n = Some q" using int_raw_some [of n v] shape_width [OF t] by auto
  with t int_pack_value [OF t, of "0 - q"] \<open>is_integral v\<close> show ?thesis
    by (cases v) (auto simp: const_neg_def is_integral_def)
qed

lemma const_not_ok:
  assumes t: "shape t = Some (n, s)" and v: "valid_constant t v"
  shows "\<exists>w. const_not t v = Inr w \<and> valid_constant t w"
proof -
  have "int_pack t p = Some (if s then ConstI (wrap_i p t) else ConstU (wrap_u p t))" for p by (rule int_pack_wrap [OF t])
  with int_pack_value [OF t] have "valid_constant t (if s then ConstI (wrap_i p t) else ConstU (wrap_u p t))" for p
    by (metis option.inject)
  then show ?thesis
    using v [unfolded valid_constant_int [OF t]] is_signed_int_shape [OF t] t ty_int_bits_shape [of t]
    by (cases v) (auto simp: const_not_def split: if_splits)
qed

lemma const_bin_ok:
  assumes "binary_supported op t" "\<not> logical_op op" "valid_constant t l" "valid_constant t r"
  shows "(\<exists>v. const_bin op t l r = Some (Inr v) \<and> valid_constant t v) \<or>
    (\<exists>err. const_bin op t l r = Some (Inl err) \<and> (err = EvalDivisionByZero \<or> err = EvalRemainderByZero))"
proof (cases "float_type t")
  case True
  then obtain a b where ab: "l = ConstF a" "r = ConstF b" "float_width a = float_width b"
    using assms(3,4) by (auto simp: valid_constant_float)
  from True assms(1,2) obtain fop where fop: "const_float_op op = Some fop" "fop \<in> {FAdd, FSub, FMul, FDiv, FRem}"
    by (auto simp: binary_supported_def const_float_op_def)
  obtain c where "float_arithmetic fop a b = Some c" "float_width c = float_width a"
    using float_arithmetic_width [OF ab(3) fop(2)] by blast
  with True ab fop(1) assms(3) show ?thesis by (auto simp: const_bin_def valid_constant_float)
next
  case False
  with assms(1,2) obtain n s where t: "shape t = Some (n, s)" by (auto simp: binary_supported_def ty_int_bits_shape)
  from assms(2) obtain rop where "runtime_op op s = Some rop" by (cases op) (auto simp: runtime_op_def logical_op_def)
  from const_bin_exact [OF t this assms(3,4)] show ?thesis by (auto split: if_splits)
qed

lemma const_cmp_ok:
  assumes "t = Bool \<and> (op = CmpEq \<or> op = CmpNe) \<or> shape t \<noteq> None \<or> float_type t" "valid_constant t l" "valid_constant t r"
  shows "\<exists>b. const_cmp op t l r = Inr b"
proof (cases "shape t")
  case None
  show ?thesis
  proof (cases "float_type t")
    case True
    then obtain a b where ab: "l = ConstF a" "r = ConstF b" "float_width a = float_width b"
      using assms(2,3) by (auto simp: valid_constant_float)
    with True float_compare_some [OF ab(3), of "the (float_predicate (const_float_cmp op))"] show ?thesis
      by (auto simp: const_cmp_def)
  next
    case False
    with None assms show ?thesis by (auto simp: const_cmp_def valid_constant_bool)
  qed
next
  case (Some p)
  then obtain n s where t: "shape t = Some (n, s)" by (cases p) simp
  then have "\<not> float_type t" "t \<noteq> Bool" "ty_int_bits t \<noteq> None"
    using float_type_shape [OF t] by (auto simp: shape_def ty_int_bits_shape)
  then show ?thesis
    using assms(2,3) [unfolded valid_constant_int [OF t]] is_signed_int_shape [OF t]
    by (cases l; cases r) (auto simp: const_cmp_def)
qed

subsection \<open>Evaluation of a validated tree\<close>

text \<open>A result the property allows: a literal of the type, or a zero divisor somewhere in the
  tree.\<close>

definition sound_result :: "const_expr \<Rightarrow> eval_fail + const_value \<Rightarrow> bool" where
  "sound_result e res =
     (case res of
        Inr v \<Rightarrow> valid_constant (ce_ty e) v
      | Inl (EvalError err _) \<Rightarrow> err = EvalDivisionByZero \<or> err = EvalRemainderByZero
      | Inl EvalPanic \<Rightarrow> False)"

lemma sound_result_bind:
  assumes "sound_result x m" "\<And>v. m = Inr v \<Longrightarrow> valid_constant (ce_ty x) v \<Longrightarrow> sound_result e (f v)"
  shows "sound_result e (rbind m f)"
  using assms by (cases m) (auto simp: sound_result_def split: eval_fail.splits)

lemma sound_result_bind2:
  assumes "sound_result l m" "sound_result r k"
    and "\<And>v w. valid_constant (ce_ty l) v \<Longrightarrow> valid_constant (ce_ty r) w \<Longrightarrow> sound_result e (f v w)"
  shows "sound_result e (rbind m (\<lambda>v. rbind k (f v)))"
  by (rule sound_result_bind [OF assms(1)]) (rule sound_result_bind [OF assms(2)], rule assms(3))

lemma sound_result_checked:
  "res = Some (Inr v) \<and> valid_constant (ce_ty e) v \<or>
   (\<exists>err. res = Some (Inl err) \<and> (err = EvalDivisionByZero \<or> err = EvalRemainderByZero)) \<Longrightarrow>
   sound_result e (checked_result e res)"
  by (auto simp: checked_result_def sound_result_def)

lemma sound_result_bool: "ce_ty e = Bool \<Longrightarrow> valid_constant Bool v \<Longrightarrow> sound_result e (bool_result e v)"
  by (auto simp: valid_constant_bool bool_result_def checked_result_def sound_result_def)

lemma ceval_sound: "const_wf resolve table e \<Longrightarrow> sound_result e (ceval table e)"
proof (induction "size e" arbitrary: e rule: less_induct)
  case less
  obtain t k where e: "e = ConstExpr t k" by (cases e)
  have ok: "node_ok resolve table e" using less.prems by (simp add: const_wf.simps [of _ _ e])
  have wf: "\<forall>x\<in>set (expr_children k). const_wf resolve table x"
    using less.prems const_wf.simps [of resolve table e] by (simp add: e)
  have sub: "sound_result x (ceval table x)" if "x \<in> set (expr_children k)" for x
    using less.hyps [of x] wf expr_children_smaller [of x e] that by (simp add: e)
  show ?case
  proof (cases k)
    case (KNot x)
    with ok obtain n s where x: "shape t = Some (n, s)" "ce_ty x = t" by (auto simp: e node_ok_def)
    have "sound_result (ConstExpr t (KNot x)) (checked_result (ConstExpr t (KNot x)) (Some (const_not t v)))"
      if "valid_constant t v" for v
      using const_not_ok [OF x(1) that] by (auto intro: sound_result_checked)
    with sub [of x] show ?thesis unfolding e KNot
      by (auto simp: KNot ceval.simps Let_def x(2) intro!: sound_result_bind [of x])
  next
    case (KNeg x)
    with ok have x: "ce_ty x = t" "shape t \<noteq> None \<or> float_type t" by (auto simp: e node_ok_def)
    have "sound_result (ConstExpr t (KNeg x)) (checked_result (ConstExpr t (KNeg x)) (map_option Inr (const_neg t v)))"
      if "valid_constant t v" for v
      using const_neg_ok [OF x(2) that] by (auto intro: sound_result_checked)
    with sub [of x] show ?thesis unfolding e KNeg
      by (auto simp: KNeg ceval.simps Let_def x(1) intro!: sound_result_bind [of x])
  next
    case (KLiteral v)
    with ok show ?thesis unfolding e KLiteral by (auto simp: e node_ok_def ceval.simps intro: sound_result_checked)
  next
    case (KReference r)
    with ok show ?thesis unfolding e KReference by (auto simp: e node_ok_def ceval.simps intro: sound_result_checked)
  next
    case (KCompare op l r)
    with ok have c: "t = Bool" "ce_ty r = ce_ty l"
      "ce_ty l = Bool \<and> (op = CmpEq \<or> op = CmpNe) \<or> shape (ce_ty l) \<noteq> None \<or> float_type (ce_ty l)"
      by (auto simp: e node_ok_def)
    have "sound_result (ConstExpr t k) (checked_result (ConstExpr t k) (Some (rbind (const_cmp op (ce_ty l) lv rv) (\<lambda>b. Inr (ConstBool b)))))"
      if valid: "valid_constant (ce_ty l) lv" "valid_constant (ce_ty l) rv" for lv rv
    proof -
      obtain b where "const_cmp op (ce_ty l) lv rv = Inr b" using const_cmp_ok [OF c(3) valid] by blast
      then show ?thesis by (intro sound_result_checked [where v = "ConstBool b"]) (simp add: c(1) valid_constant_bool)
    qed
    then show ?thesis
      using sound_result_bind2 [OF sub [of l] sub [of r]] KCompare c(2)
      by (simp add: e ceval.simps cong del: rbind_weak_cong)
  next
    case (KBinary op l r)
    with ok have b: "ce_ty l = t" "ce_ty r = t" "binary_supported op t" by (auto simp: e node_ok_def)
    show ?thesis
    proof (cases "logical_op op")
      case True
      with b have t: "t = Bool" by (simp add: binary_supported_def)
      show ?thesis unfolding e KBinary ceval_logical [OF True]
        using sub [of l] sub [of r] KBinary b t
        by (intro sound_result_bind [of l]) (auto intro!: sound_result_bind [of r] sound_result_bool)
    next
      case False
      have "sound_result (ConstExpr t k) (checked_result (ConstExpr t k) (const_bin op (ce_ty l) lv rv))"
        if "valid_constant t lv" "valid_constant t rv" for lv rv
        using const_bin_ok [OF b(3) False that] b(1) by (auto intro: sound_result_checked)
      then show ?thesis
        using sound_result_bind2 [OF sub [of l] sub [of r]] KBinary False b
        by (simp add: e ceval.simps cong del: rbind_weak_cong)
    qed
  qed
qed


text \<open>C28. Validated constants evaluate soundly.  Once the budget and the validation pass accept
  an expression, its evaluation yields a literal valid for the expression's type, or reports
  a division or remainder by zero; it cannot report any other error and cannot panic.\<close>

theorem evaluate_validated_sound:
  assumes "rbind (budget_new limits) (budget_expression e) = Inr b"
    and "inspect_loop resolve [e] (b, Map.empty) = Inr (b', table)"
  shows "case evaluate_with_error_site e resolve limits of
      Inr v \<Rightarrow> valid_constant (ce_ty e) v
    | Inl (EvalError err site) \<Rightarrow> err = EvalDivisionByZero \<or> err = EvalRemainderByZero
    | Inl EvalPanic \<Rightarrow> False"
proof -
  have "const_wf resolve table e"
    using inspect_loop_ok [OF assms(2)] by (simp add: table_agrees_def)
  from ceval_sound [OF this] show ?thesis
    using assms
    by (auto simp: evaluate_with_error_site_def eval_loop_ceval map_err_def rbind_def sound_result_def split: sum.splits)
qed

definition sample_expr :: const_expr where
  "sample_expr =
     ConstExpr Bool (KBinary CLogicalAnd
       (ConstExpr Bool (KCompare CmpLt (const_literal I8 (ConstI 5)) (const_literal I8 (ConstI 3))))
       (ConstExpr Bool (KCompare CmpEq
         (ConstExpr I8 (KBinary CDiv (const_literal I8 (ConstI 1)) (const_literal I8 (ConstI 0))))
         (const_literal I8 (ConstI 0)))))"

text \<open>The right operand divides by zero and is skipped.\<close>

theorem evaluate_validated_sound_witness:
  "evaluate_with_error_site sample_expr (\<lambda>_. None) ir_limits_default = Inr (ConstBool False) \<and>
   (case evaluate_with_error_site sample_expr (\<lambda>_. None) ir_limits_default of
      Inr v \<Rightarrow> valid_constant (ce_ty sample_expr) v
    | Inl (EvalError err site) \<Rightarrow> err = EvalDivisionByZero \<or> err = EvalRemainderByZero
    | Inl EvalPanic \<Rightarrow> False)"
proof -
  have budget: "rbind (budget_new ir_limits_default) (budget_expression sample_expr) =
      Inr \<lparr>b_limits = ir_limits_default, b_remaining = 999982\<rparr>"
    by (simp add: budget_new_def validate_limits_def max_ir_nesting_def ir_limits_default_def
        budget_expression_def sample_expr_def const_literal_def budget_nodes_def usize_sub_def budget_ty_def
        ty_children_def)
  have inspect: "inspect_loop (\<lambda>_. None) [sample_expr] (\<lparr>b_limits = ir_limits_default, b_remaining = 999982\<rparr>, Map.empty) =
      Inr (\<lparr>b_limits = ir_limits_default, b_remaining = 999982\<rparr>, Map.empty)"
    by (simp add: sample_expr_def const_literal_def inspect_node_def valid_constant_def fits_signed_def
        binary_supported_def logical_op_def float_type_def ty_int_bits_def)
  have "ceval Map.empty sample_expr = Inr (ConstBool False)"
    by (simp add: sample_expr_def const_literal_def ceval.simps logical_op_def checked_result_def
        valid_constant_def fits_signed_def const_cmp_def float_type_def ty_int_bits_def is_signed_int_def compare_by_def)
  then have "evaluate_with_error_site sample_expr (\<lambda>_. None) ir_limits_default = Inr (ConstBool False)"
    using budget inspect by (auto simp: evaluate_with_error_site_def eval_loop_ceval map_err_def rbind_def split: sum.splits)
  with evaluate_validated_sound [OF budget inspect] show ?thesis by simp
qed

end
