(* ===== verification/IrMemory.thy ===== *)
theory IrMemory
  imports IrFloat IrLayout "HOL-Library.AList"
begin

text \<open>
  The tracked memory of the interpreter, \<open>ir/src/interpreter/memory.rs\<close>, with the value
  type of \<open>ir/src/interpreter/mod.rs\<close> and the storage bits of \<open>scalar.rs\<close>.  An operation
  returns a fault or its result with the memory after it; the interpreter stops at the
  first fault, so the memory of a failed operation is not observable and is dropped.  The
  table of pointer fragments, a \<open>HashMap\<close>, is an association list; what the host
  decides (whether a reservation succeeds, how far a table grows) is the field
  \<open>m_host\<close>.  \<open>MemPanic\<close> stands for a failed index, slice or \<open>unwrap\<close>.
\<close>

subsection \<open>Values\<close>

record memory_limits =
  max_bytes :: u64
  max_allocations :: usize
  max_pointer_fragments :: usize
  max_work :: u64

definition memory_limits_default :: memory_limits where
  "memory_limits_default =
     \<lparr>max_bytes = 64 * 1024 * 1024, max_allocations = 16384, max_pointer_fragments = 262144,
      max_work = 256 * 1024 * 1024\<rparr>"

datatype memory_resource = ResBytes | ResAllocations | ResFragments | ResWork | ResHostAllocation

datatype fault = MemTrap memory_trap | MemLimit memory_resource u64 | MemPanic

record capability =
  cap_arena :: u64
  cap_allocation :: usize
  cap_generation :: u64
  cap_lower :: u64
  cap_upper :: u64
  cap_offset :: u64
  cap_read :: bool
  cap_write :: bool

record pointer =
  ptr_address :: u64
  ptr_capability :: "capability option"

definition raw_pointer :: "u64 \<Rightarrow> pointer" where
  "raw_pointer a = \<lparr>ptr_address = a, ptr_capability = None\<rparr>"

datatype function_target = TargetNull | TargetDefined function_id | TargetInvalidBits u64

record function_pointer =
  fun_signature :: fn_sig
  fun_target :: function_target

fun function_bits :: "function_target \<Rightarrow> u64" where
  "function_bits TargetNull = 0"
| "function_bits (TargetDefined (FunctionId i)) = ucast i + 1"
| "function_bits (TargetInvalidBits b) = b"

datatype rt_value =
    VScalar const_value
  | VChecked const_value bool
  | VPointer pointer
  | VFunction function_pointer

fun value_scalar :: "rt_value \<Rightarrow> const_value option" where
  "value_scalar (VScalar v) = Some v"
| "value_scalar _ = None"

fun value_pointer :: "rt_value \<Rightarrow> pointer option" where
  "value_pointer (VPointer p) = Some p"
| "value_pointer _ = None"

fun value_boolean :: "rt_value \<Rightarrow> bool option" where
  "value_boolean (VScalar (ConstBool b)) = Some b"
| "value_boolean _ = None"

definition scalar_type :: "ty \<Rightarrow> bool" where
  "scalar_type t = (t = Bool \<or> shape t \<noteq> None \<or> float_type t)"

fun value_type :: "ty \<Rightarrow> bool" where
  "value_type (Ptr _) = True"
| "value_type (FnPtr _) = True"
| "value_type (TupleT ts) = (length ts = 2 \<and> shape (ts ! 0) \<noteq> None \<and> ts ! 1 = Bool)"
| "value_type t = scalar_type t"

subsection \<open>Storage bits of scalars\<close>

definition scalar_raw :: "ty \<Rightarrow> const_value \<Rightarrow> u128 option" where
  "scalar_raw t v = (case v of ConstF x \<Rightarrow> Some (ucast (float_raw x)) | _ \<Rightarrow> int_raw v (shape_bits t))"

definition scalar_pack :: "ty \<Rightarrow> u128 \<Rightarrow> const_value option" where
  "scalar_pack t bits =
     (case t of
        F16 \<Rightarrow> Some (ConstF (FBits16 (ucast bits)))
      | F32 \<Rightarrow> Some (ConstF (FBits32 (ucast bits)))
      | F64 \<Rightarrow> Some (ConstF (FBits64 (ucast bits)))
      | _ \<Rightarrow> int_pack t bits)"

definition scalar_compare :: "fcmp_pred \<Rightarrow> const_value \<Rightarrow> const_value \<Rightarrow> bool option" where
  "scalar_compare pred l r =
     (case (l, r) of (ConstF a, ConstF b) \<Rightarrow> float_compare a b pred | _ \<Rightarrow> None)"

subsection \<open>State\<close>

datatype stored_pointer = StoredData pointer | StoredFunction function_pointer

fun stored_bits :: "stored_pointer \<Rightarrow> u64" where
  "stored_bits (StoredData p) = ptr_address p"
| "stored_bits (StoredFunction p) = function_bits (fun_target p)"

record fragment =
  frag_pointer :: stored_pointer
  frag_byte :: nat

datatype allocation_kind = StackAllocation | GlobalAllocation

type_synonym fragment_table = "(usize \<times> fragment) list"

record allocation =
  al_kind :: allocation_kind
  al_address :: u64
  al_generation :: u64
  al_alive :: bool
  al_read :: bool
  al_write :: bool
  al_bytes :: "u8 list"
  al_initialized :: "u8 list"
  al_fragments :: fragment_table
  al_capacity :: usize

text \<open>\<open>host_reserve n\<close>: a reservation of \<open>n\<close> elements succeeds.  \<open>host_grow capacity
  needed\<close>: the capacity of a table after \<open>try_reserve\<close> when \<open>needed\<close> entries must fit.\<close>

record host =
  host_reserve :: "usize \<Rightarrow> bool"
  host_grow :: "usize \<Rightarrow> usize \<Rightarrow> usize"

record memory =
  m_arena :: u64
  m_allocations :: "allocation list"
  m_limits :: memory_limits
  m_bytes :: u64
  m_fragments :: usize
  m_work :: u64
  m_next_address :: u64
  m_host :: host

definition mem_layout :: "ty \<Rightarrow> fault + type_layout" where
  "mem_layout t = map_err (\<lambda>_. MemPanic) (layout_of_with_limit t X86_64WhaleLinux max_ir_nesting)"

definition memory_new :: "u64 \<Rightarrow> memory_limits \<Rightarrow> host \<Rightarrow> memory" where
  "memory_new arena limits h =
     \<lparr>m_arena = arena, m_allocations = [], m_limits = limits, m_bytes = 0, m_fragments = 0, m_work = 0,
      m_next_address = 0x1000, m_host = h\<rparr>"

definition mem_charge :: "u64 \<Rightarrow> memory \<Rightarrow> fault + memory" where
  "mem_charge work m =
     (case checked_add (m_work m) work of
        Some n \<Rightarrow> if n \<le> max_work (m_limits m) then Inr (m\<lparr>m_work := n\<rparr>)
                 else Inl (MemLimit ResWork (max_work (m_limits m)))
      | None \<Rightarrow> Inl (MemLimit ResWork (max_work (m_limits m))))"

definition overflow_or :: "'a option \<Rightarrow> fault + 'a" where
  "overflow_or x = ok_or x (MemTrap AddressOverflow)"

definition set_allocation :: "usize \<Rightarrow> allocation \<Rightarrow> memory \<Rightarrow> memory" where
  "set_allocation i al m = m\<lparr>m_allocations := (m_allocations m)[i := al]\<rparr>"

subsection \<open>Allocation and retirement\<close>

definition mem_allocate :: "u64 \<Rightarrow> u32 \<Rightarrow> u32 \<Rightarrow> memory \<Rightarrow> fault + pointer \<times> memory" where
  "mem_allocate sz natural align m =
     (if max_allocations (m_limits m) \<le> length (m_allocations m)
      then Inl (MemLimit ResAllocations (of_nat (max_allocations (m_limits m))))
      else
        rbind (case checked_add (m_bytes m) sz of
                 Some n \<Rightarrow> if n \<le> max_bytes (m_limits m) then Inr n
                          else Inl (MemLimit ResBytes (max_bytes (m_limits m)))
               | None \<Rightarrow> Inl (MemLimit ResBytes (max_bytes (m_limits m)))) (\<lambda>total_bytes.
        let len = unat sz; alignment = ucast (max align natural) :: u64 in
        rbind (overflow_or (checked_add (m_next_address m) (alignment - 1))) (\<lambda>a.
        let address = a AND NOT (alignment - 1) in
        rbind (overflow_or (Option.bind (checked_add address (max sz 1)) (\<lambda>a. checked_add a 1))) (\<lambda>next_address.
        rbind (overflow_or (Option.bind (checked_mul sz 2) (\<lambda>n. checked_add n 1))) (\<lambda>work.
        rbind (mem_charge work m) (\<lambda>m.
        if \<not> host_reserve (m_host m) len \<or> \<not> host_reserve (m_host m) 1
        then Inl (MemLimit ResHostAllocation sz)
        else
          let cap = \<lparr>cap_arena = m_arena m, cap_allocation = length (m_allocations m), cap_generation = 0,
                     cap_lower = 0, cap_upper = sz, cap_offset = 0, cap_read = True, cap_write = True\<rparr>;
              al = \<lparr>al_kind = StackAllocation, al_address = address, al_generation = 0, al_alive = True,
                    al_read = True, al_write = True, al_bytes = replicate len 0,
                    al_initialized = replicate len 0, al_fragments = [], al_capacity = 0\<rparr>
          in Inr (\<lparr>ptr_address = address, ptr_capability = Some cap\<rparr>,
                  m\<lparr>m_allocations := m_allocations m @ [al], m_bytes := total_bytes,
                    m_next_address := next_address\<rparr>)))))))"

definition mem_allocate_global :: "u64 \<Rightarrow> u32 \<Rightarrow> u32 \<Rightarrow> memory \<Rightarrow> fault + pointer \<times> memory" where
  "mem_allocate_global sz natural align m =
     rbind (mem_allocate sz natural align m) (\<lambda>(p, m).
     case ptr_capability p of
       None \<Rightarrow> Inl MemPanic
     | Some cap \<Rightarrow>
         (case get (m_allocations m) (cap_allocation cap) of
            None \<Rightarrow> Inl MemPanic
          | Some al \<Rightarrow> Inr (p, set_allocation (cap_allocation cap) (al\<lparr>al_kind := GlobalAllocation\<rparr>) m)))"

definition mem_identity :: "pointer \<Rightarrow> memory \<Rightarrow> fault + usize \<times> capability" where
  "mem_identity p m =
     (if ptr_address p = 0 then Inl (MemTrap NullPointer)
      else case ptr_capability p of
        None \<Rightarrow> Inl (MemTrap MissingProvenance)
      | Some cap \<Rightarrow>
          if cap_arena cap \<noteq> m_arena m then Inl (MemTrap ExpiredAllocation)
          else case get (m_allocations m) (cap_allocation cap) of
            None \<Rightarrow> Inl (MemTrap ExpiredAllocation)
          | Some al \<Rightarrow>
              if \<not> al_alive al \<or> al_generation al \<noteq> cap_generation cap then Inl (MemTrap ExpiredAllocation)
              else if cap_lower cap > cap_offset cap \<or> cap_offset cap > cap_upper cap
                   \<or> unat (cap_upper cap) > length (al_bytes al)
                   \<or> checked_add (al_address al) (cap_offset cap) \<noteq> Some (ptr_address p)
              then Inl (MemTrap MemOutOfBounds)
              else Inr (cap_allocation cap, cap))"

definition mem_seal_global :: "pointer \<Rightarrow> bool \<Rightarrow> memory \<Rightarrow> fault + pointer \<times> memory" where
  "mem_seal_global p readonly m =
     rbind (mem_identity p m) (\<lambda>(i, cap).
     let al = m_allocations m ! i in
     if al_kind al \<noteq> GlobalAllocation then Inl (MemTrap InvalidLifetimeEnd)
     else Inr (p\<lparr>ptr_capability := Some (cap\<lparr>cap_write := \<not> readonly\<rparr>)\<rparr>,
               set_allocation i (al\<lparr>al_write := \<not> readonly\<rparr>) m))"

definition retire_allocation :: "usize \<Rightarrow> memory \<Rightarrow> memory" where
  "retire_allocation i m =
     (let al = m_allocations m ! i in
      if al_alive al
      then set_allocation i (al\<lparr>al_alive := False, al_fragments := [], al_bytes := [], al_initialized := []\<rparr>)
             (m\<lparr>m_fragments := m_fragments m - length (al_fragments al)\<rparr>)
      else m)"

definition mem_retire_stack :: "pointer \<Rightarrow> usize \<Rightarrow> memory \<Rightarrow> fault + memory" where
  "mem_retire_stack p owner_start m =
     rbind (mem_identity p m) (\<lambda>(i, cap).
     let al = m_allocations m ! i in
     if i < owner_start \<or> al_kind al \<noteq> StackAllocation \<or> cap_offset cap \<noteq> 0 \<or> cap_lower cap \<noteq> 0
        \<or> unat (cap_upper cap) \<noteq> length (al_bytes al)
     then Inl (MemTrap InvalidLifetimeEnd)
     else rbind (mem_charge (1 + of_nat (length (al_fragments al))) m) (\<lambda>m. Inr (retire_allocation i m)))"

definition retire_stack_allocation :: "usize \<Rightarrow> memory \<Rightarrow> memory" where
  "retire_stack_allocation i m =
     (if al_kind (m_allocations m ! i) = StackAllocation then retire_allocation i m else m)"

definition mem_retire_from :: "usize \<Rightarrow> memory \<Rightarrow> fault + memory" where
  "mem_retire_from start m =
     (if length (m_allocations m) < start then Inl MemPanic
      else rbind (mem_charge (of_nat (length (m_allocations m) - start)) m) (\<lambda>m.
        Inr (fold retire_stack_allocation [start..<length (m_allocations m)] m)))"

subsection \<open>Pointers\<close>

definition mem_difference :: "pointer \<Rightarrow> pointer \<Rightarrow> memory \<Rightarrow> fault + int" where
  "mem_difference lhs rhs m =
     rbind (mem_identity lhs m) (\<lambda>(a, left).
     rbind (mem_identity rhs m) (\<lambda>(b, right).
     if a \<noteq> b \<or> cap_generation left \<noteq> cap_generation right then Inl (MemTrap DifferentAllocation)
     else Inr (uint (cap_offset left) - uint (cap_offset right))))"

definition mem_compare_order :: "pointer \<Rightarrow> pointer \<Rightarrow> memory \<Rightarrow> fault + rust_ordering" where
  "mem_compare_order lhs rhs m = rbind (mem_difference lhs rhs m) (\<lambda>d. Inr (cmp d 0))"

definition mem_access :: "pointer \<Rightarrow> u64 \<Rightarrow> u32 \<Rightarrow> bool \<Rightarrow> memory \<Rightarrow> fault + usize \<times> usize \<times> usize" where
  "mem_access p n align writing m =
     rbind (mem_identity p m) (\<lambda>(i, cap).
     rbind (overflow_or (checked_add (cap_offset cap) n)) (\<lambda>stop.
     if stop > cap_upper cap then Inl (MemTrap MemOutOfBounds)
     else let al = m_allocations m ! i;
              permitted = (if writing then cap_write cap \<and> al_write al else cap_read cap \<and> al_read al)
          in if \<not> permitted then Inl (MemTrap PermissionDenied)
             else if ptr_address p mod ucast align \<noteq> 0 then Inl (MemTrap (Misaligned (ptr_address p) align))
             else Inr (i, unat (cap_offset cap), unat stop)))"

datatype gep_step = Stride u64 | Field u64

definition gep_delta :: "gep_step \<Rightarrow> const_value \<Rightarrow> fault + int" where
  "gep_delta step index =
     (case step of
        Field off \<Rightarrow> Inr (uint off)
      | Stride stride \<Rightarrow>
          rbind (case index of
                   ConstI v \<Rightarrow> Inr (sint v)
                 | ConstU v \<Rightarrow> if uint v < 2 ^ 127 then Inr (uint v) else Inl (MemTrap AddressOverflow)
                 | _ \<Rightarrow> Inl MemPanic) (\<lambda>x.
          overflow_or (map_option sint (i128_exact (x * uint stride)))))"

text \<open>One turn of the index loop, on the running offset.\<close>

definition gep_index :: "int \<Rightarrow> gep_step \<times> const_value \<Rightarrow> int \<Rightarrow> fault + int" where
  "gep_index base = (\<lambda>(step, index) off.
     rbind (gep_delta step index) (\<lambda>delta.
     rbind (overflow_or (map_option sint (i128_exact (off + delta)))) (\<lambda>off.
     rbind (overflow_or (map_option sint (i128_exact (base + off)))) (\<lambda>address.
     if 0 \<le> address \<and> address < 2 ^ 64 then Inr off else Inl (MemTrap AddressOverflow)))))"

definition mem_gep :: "pointer \<Rightarrow> gep_step list \<Rightarrow> const_value list \<Rightarrow> memory \<Rightarrow> fault + pointer" where
  "mem_gep p plan indices m =
     (if indices = [] then Inr p
      else rbind (mem_identity p m) (\<lambda>(_, cap).
        let base = uint (ptr_address p) - uint (cap_offset cap) in
        rbind (foldR (gep_index base) (zip plan indices) (uint (cap_offset cap))) (\<lambda>off.
        if off < 0 \<or> 2 ^ 64 \<le> off then Inl (MemTrap MemOutOfBounds)
        else if off < uint (cap_lower cap) \<or> uint (cap_upper cap) < off then Inl (MemTrap MemOutOfBounds)
        else if base + off < 0 \<or> 2 ^ 64 \<le> base + off then Inl MemPanic
        else Inr \<lparr>ptr_address = word_of_int (base + off),
                  ptr_capability = Some (cap\<lparr>cap_offset := word_of_int off\<rparr>)\<rparr>)))"

definition mem_equal :: "pointer \<Rightarrow> pointer \<Rightarrow> memory \<Rightarrow> fault + bool" where
  "mem_equal lhs rhs m =
     (if ptr_address lhs = 0 \<and> ptr_address rhs = 0 then Inr True
      else if ptr_address lhs = 0 then rbind (mem_identity rhs m) (\<lambda>_. Inr False)
      else if ptr_address rhs = 0 then rbind (mem_identity lhs m) (\<lambda>_. Inr False)
      else rbind (mem_identity lhs m) (\<lambda>(_, a).
           rbind (mem_identity rhs m) (\<lambda>(_, b).
           Inr (cap_allocation a = cap_allocation b \<and> cap_generation a = cap_generation b \<and>
                cap_offset a = cap_offset b))))"

subsection \<open>Bytes and fragments\<close>

definition inside :: "usize \<Rightarrow> usize \<Rightarrow> usize \<Rightarrow> bool" where
  "inside start stop i = (start \<le> i \<and> i < stop)"

definition replace_fragments ::
  "usize \<Rightarrow> usize \<Rightarrow> usize \<Rightarrow> (usize \<times> fragment) list \<Rightarrow> memory \<Rightarrow> fault + memory" where
  "replace_fragments i start stop new m =
     rbind (mem_charge (of_nat (3 * al_capacity (m_allocations m ! i) + length new)) m) (\<lambda>m.
     let al = m_allocations m ! i;
         removed = length (filter (\<lambda>x. inside start stop (fst x)) (al_fragments al)) in
     case usize_sub (m_fragments m) removed of
       None \<Rightarrow> Inl MemPanic
     | Some kept \<Rightarrow>
         let count = kept + length new in
         if max_pointer_fragments (m_limits m) < count
         then Inl (MemLimit ResFragments (of_nat (max_pointer_fragments (m_limits m))))
         else if \<not> host_reserve (m_host m) (length new)
         then Inl (MemLimit ResHostAllocation (of_nat (length new)))
         else
           let table = fold (\<lambda>(k, f) t. AList.update k f t) new
                         (filter (\<lambda>x. \<not> inside start stop (fst x)) (al_fragments al));
               capacity = host_grow (m_host m) (al_capacity al) (length (al_fragments al) + length new)
           in Inr (set_allocation i (al\<lparr>al_fragments := table, al_capacity := capacity\<rparr>)
                     (m\<lparr>m_fragments := count\<rparr>)))"

text \<open>A slice assignment panics when the slice is out of range.\<close>

definition fill_slice :: "usize \<Rightarrow> usize \<Rightarrow> 'a list \<Rightarrow> 'a list \<Rightarrow> 'a list option" where
  "fill_slice start stop ys xs =
     (if start \<le> stop \<and> stop \<le> length xs \<and> length ys = stop - start then Some (overwrite xs start ys) else None)"

definition or_panic :: "'a option \<Rightarrow> fault + 'a" where
  "or_panic x = ok_or x MemPanic"

definition mem_uninit :: "pointer \<Rightarrow> u64 \<Rightarrow> u32 \<Rightarrow> memory \<Rightarrow> fault + memory" where
  "mem_uninit p sz align m =
     rbind (mem_access p sz align True m) (\<lambda>(i, start, stop).
     rbind (mem_charge (of_nat (stop - start)) m) (\<lambda>m.
     rbind (replace_fragments i start stop [] m) (\<lambda>m.
     let al = m_allocations m ! i in
     rbind (or_panic (fill_slice start stop (replicate (stop - start) 0) (al_initialized al))) (\<lambda>ini.
     Inr (set_allocation i (al\<lparr>al_initialized := ini\<rparr>) m)))))"

definition write_slices :: "usize \<Rightarrow> usize \<Rightarrow> usize \<Rightarrow> u8 list \<Rightarrow> u8 list \<Rightarrow> memory \<Rightarrow> fault + memory" where
  "write_slices i start stop data ini m =
     (let al = m_allocations m ! i in
      rbind (or_panic (fill_slice start stop data (al_bytes al))) (\<lambda>bs.
      rbind (or_panic (fill_slice start stop ini (al_initialized al))) (\<lambda>inits.
      Inr (set_allocation i (al\<lparr>al_bytes := bs, al_initialized := inits\<rparr>) m))))"

definition slice :: "usize \<Rightarrow> usize \<Rightarrow> 'a list \<Rightarrow> 'a list" where
  "slice start stop xs = take (stop - start) (drop start xs)"

definition mem_copy :: "pointer \<Rightarrow> pointer \<Rightarrow> u64 \<Rightarrow> u32 \<Rightarrow> memory \<Rightarrow> fault + memory" where
  "mem_copy dst src sz align m =
     (if sz = 0 then Inr m
      else
        rbind (mem_access src sz align False m) (\<lambda>(source, ss, se).
        rbind (mem_access dst sz align True m) (\<lambda>(destination, ds, de).
        if source = destination \<and> ss < de \<and> ds < se then Inl (MemTrap OverlappingCopy)
        else
          let al = m_allocations m ! source in
          rbind (overflow_or (Option.bind (checked_mul sz 4) (\<lambda>n. checked_add n (of_nat (al_capacity al))))) (\<lambda>work.
          rbind (mem_charge work m) (\<lambda>m.
          let count = min (length (al_fragments al)) (se - ss) in
          if \<not> host_reserve (m_host m) (se - ss) then Inl (MemLimit ResHostAllocation sz)
          else if \<not> host_reserve (m_host m) count then Inl (MemLimit ResHostAllocation (of_nat count))
          else if length (al_bytes al) < se \<or> length (al_initialized al) < se then Inl MemPanic
          else
            let data = slice ss se (al_bytes al); ini = slice ss se (al_initialized al);
                fragments = map (\<lambda>(k, f). (ds + (k - ss), f))
                  (filter (\<lambda>x. inside ss se (fst x)) (al_fragments al)) in
            rbind (replace_fragments destination ds de fragments m) (\<lambda>m.
            write_slices destination ds de data ini m))))))"

definition mem_set :: "pointer \<Rightarrow> u8 \<Rightarrow> u64 \<Rightarrow> u32 \<Rightarrow> memory \<Rightarrow> fault + memory" where
  "mem_set dst byte sz align m =
     (if sz = 0 then Inr m
      else
        rbind (mem_access dst sz align True m) (\<lambda>(i, start, stop).
        rbind (overflow_or (checked_mul sz 2)) (\<lambda>work.
        rbind (mem_charge work m) (\<lambda>m.
        rbind (replace_fragments i start stop [] m) (\<lambda>m.
        write_slices i start stop (replicate (stop - start) byte) (replicate (stop - start) 1) m)))))"

subsection \<open>Typed loads and stores\<close>

text \<open>\<open>bits[..n]\<close> of sixteen zero bytes, then \<open>u128::from_le_bytes\<close>; the address is the
  value of exactly eight bytes.\<close>

definition from_le_bytes :: "u8 list \<Rightarrow> 'a::len word" where
  "from_le_bytes bs = of_nat (le_value bs)"

definition complete_pointer :: "usize \<Rightarrow> u64 \<Rightarrow> fragment_table \<Rightarrow> stored_pointer option" where
  "complete_pointer start address table =
     (case map_of table start of
        None \<Rightarrow> None
      | Some f \<Rightarrow>
          if frag_byte f = 0 \<and> stored_bits (frag_pointer f) = address \<and>
             list_all (\<lambda>i. map_of table (start + i) = Some \<lparr>frag_pointer = frag_pointer f, frag_byte = i\<rparr>) [0..<8]
          then Some (frag_pointer f) else None)"

definition load_pointer :: "u64 \<Rightarrow> stored_pointer option \<Rightarrow> rt_value" where
  "load_pointer address found =
     VPointer (if address = 0 then raw_pointer 0
               else case found of Some (StoredData p) \<Rightarrow> p | _ \<Rightarrow> raw_pointer address)"

definition load_function :: "fn_sig \<Rightarrow> u64 \<Rightarrow> stored_pointer option \<Rightarrow> rt_value" where
  "load_function sig address found =
     VFunction
       (if address = 0 then \<lparr>fun_signature = sig, fun_target = TargetNull\<rparr>
        else case found of
          Some (StoredFunction p) \<Rightarrow>
            if fun_signature p = sig then p else \<lparr>fun_signature = sig, fun_target = TargetInvalidBits address\<rparr>
        | _ \<Rightarrow> \<lparr>fun_signature = sig, fun_target = TargetInvalidBits address\<rparr>)"

definition load_scalar :: "usize \<Rightarrow> usize \<Rightarrow> ty \<Rightarrow> fn_sig option \<Rightarrow> memory \<Rightarrow> fault + rt_value" where
  "load_scalar i start t callable m =
     (let al = m_allocations m ! i in
      rbind (mem_layout t) (\<lambda>lay.
      let n = unat (tl_size lay) in
      case find (\<lambda>off. al_initialized al ! off = 0) [start..<min (start + n) (length (al_initialized al))] of
        Some off \<Rightarrow> Inl (MemTrap (Uninitialized (of_nat off)))
      | None \<Rightarrow>
          if length (al_initialized al) < start + n \<or> length (al_bytes al) < start + n then Inl MemPanic
          else
            let bytes = slice start (start + n) (al_bytes al) in
            (case t of
               Bool \<Rightarrow>
                 (case bytes of
                    [] \<Rightarrow> Inl MemPanic
                  | b # _ \<Rightarrow> if b = 0 then Inr (VScalar (ConstBool False))
                             else if b = 1 then Inr (VScalar (ConstBool True))
                             else Inl (MemTrap (InvalidBool b)))
             | Ptr _ \<Rightarrow>
                 if n \<noteq> 8 then Inl MemPanic
                 else let address = from_le_bytes bytes in
                   Inr (load_pointer address (complete_pointer start address (al_fragments al)))
             | FnPtr sig \<Rightarrow>
                 if n \<noteq> 8 then Inl MemPanic
                 else let address = from_le_bytes bytes in
                   Inr (load_function (case callable of Some s \<Rightarrow> s | None \<Rightarrow> sig) address
                          (complete_pointer start address (al_fragments al)))
             | _ \<Rightarrow>
                 if 16 < n then Inl MemPanic
                 else rbind (or_panic (scalar_pack t (from_le_bytes bytes))) (\<lambda>v. Inr (VScalar v)))))"

definition mem_load :: "pointer \<Rightarrow> ty \<Rightarrow> u32 \<Rightarrow> fn_sig option \<Rightarrow> memory \<Rightarrow> fault + rt_value \<times> memory" where
  "mem_load p t align sig m =
     rbind (mem_layout t) (\<lambda>lay.
     rbind (mem_access p (tl_size lay) align False m) (\<lambda>(i, start, stop).
     rbind (mem_charge (of_nat (stop - start)) m) (\<lambda>m.
     case t of
       TupleT ts \<Rightarrow>
         rbind (or_panic (get (field_offsets lay) 0)) (\<lambda>off0.
         rbind (or_panic (get ts 0)) (\<lambda>f0.
         rbind (load_scalar i (start + unat off0) f0 None m) (\<lambda>a.
         rbind (or_panic (get (field_offsets lay) 1)) (\<lambda>off1.
         rbind (or_panic (get ts 1)) (\<lambda>f1.
         rbind (load_scalar i (start + unat off1) f1 None m) (\<lambda>b.
         rbind (or_panic (value_scalar a)) (\<lambda>v.
         rbind (or_panic (value_boolean b)) (\<lambda>flag. Inr (VChecked v flag, m)))))))))
     | _ \<Rightarrow> rbind (load_scalar i start t sig m) (\<lambda>v. Inr (v, m)))))"

definition pointer_fragments :: "usize \<Rightarrow> stored_pointer \<Rightarrow> (usize \<times> fragment) list" where
  "pointer_fragments start sp = map (\<lambda>i. (start + i, \<lparr>frag_pointer = sp, frag_byte = i\<rparr>)) [0..<8]"

definition encode_value :: "ty \<Rightarrow> rt_value \<Rightarrow> usize \<Rightarrow> fault + (usize \<times> u8) list \<times> (usize \<times> fragment) list" where
  "encode_value t v start =
     rbind (mem_layout t) (\<lambda>lay.
     let n = unat (tl_size lay) in
     rbind (case v of
              VPointer p \<Rightarrow> Inr (ucast (ptr_address p) :: u128, pointer_fragments start (StoredData p))
            | VFunction p \<Rightarrow> Inr (ucast (function_bits (fun_target p)), pointer_fragments start (StoredFunction p))
            | VScalar c \<Rightarrow> rbind (or_panic (scalar_raw t c)) (\<lambda>bits. Inr (bits, []))
            | VChecked _ _ \<Rightarrow> Inl MemPanic) (\<lambda>(bits, fragments).
     if 16 < n then Inl MemPanic
     else Inr (zip [start..<start + n] (to_le_bytes n bits), fragments)))"

definition write_byte :: "usize \<times> u8 \<Rightarrow> allocation \<Rightarrow> fault + allocation" where
  "write_byte = (\<lambda>(pos, b) al.
     if pos < length (al_bytes al) \<and> pos < length (al_initialized al)
     then Inr (al\<lparr>al_bytes := (al_bytes al)[pos := b], al_initialized := (al_initialized al)[pos := 1]\<rparr>)
     else Inl MemPanic)"

definition encode_store :: "ty \<Rightarrow> rt_value \<Rightarrow> usize \<Rightarrow> type_layout \<Rightarrow> fault + (usize \<times> u8) list \<times> (usize \<times> fragment) list" where
  "encode_store t v start lay =
     (case (t, v) of
        (TupleT ts, VChecked c flag) \<Rightarrow>
          rbind (or_panic (get (field_offsets lay) 0)) (\<lambda>off0.
          rbind (or_panic (get ts 0)) (\<lambda>f0.
          rbind (encode_value f0 (VScalar c) (start + unat off0)) (\<lambda>(bs, fs).
          rbind (or_panic (get (field_offsets lay) 1)) (\<lambda>off1.
          rbind (or_panic (get ts 1)) (\<lambda>f1.
          rbind (encode_value f1 (VScalar (ConstBool flag)) (start + unat off1)) (\<lambda>(bs', fs').
          Inr (bs @ bs', fs @ fs')))))))
      | _ \<Rightarrow> encode_value t v start)"

definition mem_store :: "pointer \<Rightarrow> ty \<Rightarrow> rt_value \<Rightarrow> u32 \<Rightarrow> memory \<Rightarrow> fault + memory" where
  "mem_store p t v align m =
     rbind (mem_layout t) (\<lambda>lay.
     rbind (mem_access p (tl_size lay) align True m) (\<lambda>(i, start, stop).
     rbind (encode_store t v start lay) (\<lambda>(bytes, fragments).
     rbind (mem_charge (of_nat (stop - start)) m) (\<lambda>m.
     rbind (replace_fragments i start stop fragments m) (\<lambda>m.
     rbind (foldR write_byte bytes (m_allocations m ! i)) (\<lambda>al.
     Inr (set_allocation i al m)))))))"

end
