(* ===== verification/IrMemorySafety.thy ===== *)
theory IrMemorySafety
  imports IrMemory
begin

text \<open>
  Safety of the tracked memory.  The states reachable through the operations satisfy an
  invariant (initialisation and fragment tables match the bytes, budgets are respected, live
  allocations lie apart), no operation on a reachable state panics, typed storage reads back
  what was written, a write changes nothing outside its range, and a pointer to a retired
  allocation is never honoured again.
\<close>

subsection \<open>The invariant\<close>

definition al_wf :: "allocation \<Rightarrow> bool" where
  "al_wf al \<longleftrightarrow>
     length (al_initialized al) = length (al_bytes al) \<and>
     distinct (map fst (al_fragments al)) \<and> (\<forall>k\<in>fst ` set (al_fragments al). k < length (al_bytes al)) \<and>
     (\<not> al_alive al \<longrightarrow> al_bytes al = [])"

definition al_end :: "allocation \<Rightarrow> nat" where
  "al_end al = unat (al_address al) + max 1 (length (al_bytes al))"

definition frag_count :: "memory \<Rightarrow> nat" where
  "frag_count m = (\<Sum>al\<leftarrow>m_allocations m. length (al_fragments al))"

definition apart :: "memory \<Rightarrow> bool" where
  "apart m \<longleftrightarrow>
     0x1000 \<le> unat (m_next_address m) \<and>
     (\<forall>i<length (m_allocations m). 0x1000 \<le> unat (al_address (m_allocations m ! i)) \<and>
        al_end (m_allocations m ! i) < unat (m_next_address m)) \<and>
     (\<forall>i j. i < j \<and> j < length (m_allocations m) \<longrightarrow>
        al_end (m_allocations m ! i) < unat (al_address (m_allocations m ! j)))"

definition mem_wf :: "memory \<Rightarrow> bool" where
  "mem_wf m \<longleftrightarrow>
     (\<forall>al\<in>set (m_allocations m). al_wf al) \<and> apart m \<and>
     m_fragments m = frag_count m \<and> m_fragments m \<le> max_pointer_fragments (m_limits m) \<and>
     m_work m \<le> max_work (m_limits m) \<and> m_bytes m \<le> max_bytes (m_limits m) \<and>
     length (m_allocations m) \<le> max_allocations (m_limits m)"

lemma mem_wf_new: "mem_wf (memory_new arena limits h)"
  by (simp add: mem_wf_def memory_new_def apart_def frag_count_def)

lemma mem_wf_al: "mem_wf m \<Longrightarrow> i < length (m_allocations m) \<Longrightarrow> al_wf (m_allocations m ! i)"
  by (simp add: mem_wf_def)

lemma mem_charge_Inr [result_simps]:
  "mem_charge w m = Inr m' \<longleftrightarrow> unat (m_work m) + unat w \<le> unat (max_work (m_limits m)) \<and> m' = m\<lparr>m_work := m_work m + w\<rparr>"
proof -
  have "unat (m_work m) + unat w \<le> unat (max_work (m_limits m)) \<Longrightarrow> unat (m_work m) + unat w < 2 ^ LENGTH(64)"
    using unsigned_less [of "max_work (m_limits m)", where 'a = nat] by simp
  then show ?thesis
    by (auto simp: mem_charge_def checked_add_def word_le_nat_alt unat_add_no_overflow split: if_splits option.splits)
qed

lemma mem_charge_wf:
  assumes "mem_charge w m = Inr m'" "mem_wf m"
  shows "mem_wf m'"
proof -
  have le: "unat (m_work m) + unat w \<le> unat (max_work (m_limits m))" and m': "m' = m\<lparr>m_work := m_work m + w\<rparr>"
    using assms(1) by (simp_all add: result_simps)
  then have "unat (m_work m) + unat w < 2 ^ LENGTH(64)"
    using unsigned_less [of "max_work (m_limits m)", where 'a = nat] by simp
  with le m' assms(2) show ?thesis
    by (simp add: mem_wf_def apart_def frag_count_def word_le_nat_alt unat_add_no_overflow)
qed

lemma mem_charge_allocations [simp]: "m_allocations (m\<lparr>m_work := w\<rparr>) = m_allocations m"
  by simp

lemma sum_list_replace:
  "i < length xs \<Longrightarrow> (\<Sum>x\<leftarrow>xs[i := y]. f x) + f (xs ! i) = (\<Sum>x\<leftarrow>xs. f x) + (f y :: nat)"
  by (induction xs arbitrary: i) (auto simp: nth_Cons split: nat.splits)

text \<open>Replacing one allocation by another of the same place and no greater extent.\<close>

lemma set_allocation_wf:
  assumes wf: "mem_wf m" and i: "i < length (m_allocations m)" and al: "al_wf al"
    and same: "al_address al = al_address (m_allocations m ! i)" "length (al_bytes al) \<le> length (al_bytes (m_allocations m ! i))"
    and count: "n + length (al_fragments (m_allocations m ! i)) = m_fragments m + length (al_fragments al)"
    and le: "n \<le> max_pointer_fragments (m_limits m)"
  shows "mem_wf (set_allocation i al (m\<lparr>m_fragments := n\<rparr>))"
proof -
  let ?as = "m_allocations m"
  have shorter: "al_end al \<le> al_end (?as ! i)" using same by (auto simp: al_end_def)
  have "apart m" "m_fragments m = frag_count m" using wf by (simp_all add: mem_wf_def)
  have "apart (set_allocation i al (m\<lparr>m_fragments := n\<rparr>))"
    using \<open>apart m\<close> i same(1) shorter unfolding apart_def set_allocation_def
    by (auto simp: nth_list_update) (meson le_less_trans)+
  moreover have "(\<Sum>a\<leftarrow>?as[i := al]. length (al_fragments a)) + length (al_fragments (?as ! i)) =
      (\<Sum>a\<leftarrow>?as. length (al_fragments a)) + length (al_fragments al)"
    by (rule sum_list_replace [OF i])
  ultimately show ?thesis
    using wf al count le \<open>m_fragments m = frag_count m\<close>
    by (auto simp: mem_wf_def set_allocation_def frag_count_def dest!: set_update_subset_insert [THEN subsetD])
qed

subsection \<open>Access\<close>

lemma mem_identityE:
  assumes "mem_identity p m = Inr (i, cap)"
  obtains "ptr_capability p = Some cap" "i = cap_allocation cap" "i < length (m_allocations m)"
    "cap_arena cap = m_arena m" "al_alive (m_allocations m ! i)"
    "cap_generation cap = al_generation (m_allocations m ! i)"
    "cap_lower cap \<le> cap_offset cap" "cap_offset cap \<le> cap_upper cap"
    "unat (cap_upper cap) \<le> length (al_bytes (m_allocations m ! i))"
    "unat (ptr_address p) = unat (al_address (m_allocations m ! i)) + unat (cap_offset cap)"
  using assms
  by (auto simp: mem_identity_def get_def checked_add_eq_Some not_less split: if_splits option.splits)

lemma mem_accessE:
  assumes "mem_access p n align writing m = Inr (i, start, stop)"
  obtains cap where "mem_identity p m = Inr (i, cap)" "i < length (m_allocations m)"
    "al_alive (m_allocations m ! i)" "start = unat (cap_offset cap)" "stop = start + unat n"
    "stop \<le> length (al_bytes (m_allocations m ! i))"
    "if writing then cap_write cap \<and> al_write (m_allocations m ! i) else cap_read cap \<and> al_read (m_allocations m ! i)"
    "ptr_address p mod ucast align = 0"
proof -
  from assms obtain cap stop' where id: "mem_identity p m = Inr (i, cap)"
    and stop: "checked_add (cap_offset cap) n = Some stop'" "stop' \<le> cap_upper cap"
    "start = unat (cap_offset cap)" "stop = unat stop'"
    and perm: "if writing then cap_write cap \<and> al_write (m_allocations m ! i) else cap_read cap \<and> al_read (m_allocations m ! i)"
    "ptr_address p mod ucast align = 0"
    by (auto simp: mem_access_def overflow_or_def result_simps Let_def not_less split: if_splits)
  from id show thesis
    by (rule mem_identityE) (use that [OF id] stop perm in \<open>auto simp: checked_simps word_le_nat_alt\<close>)
qed

subsection \<open>Fragment tables\<close>

lemma alist_update_new: "k \<notin> fst ` set t \<Longrightarrow> AList.update k v t = t @ [(k, v)]"
  by (induction t) auto

lemma fold_update_new:
  "distinct (map fst new) \<Longrightarrow> fst ` set new \<inter> fst ` set t = {} \<Longrightarrow>
   fold (\<lambda>(k, f) t. AList.update k f t) new t = t @ new"
proof (induction new arbitrary: t)
  case (Cons x new)
  obtain k f where x: "x = (k, f)" by (cases x)
  have "AList.update k f t = t @ [(k, f)]" using Cons.prems x by (intro alist_update_new) auto
  moreover have "fst ` set new \<inter> fst ` set (t @ [(k, f)]) = {}" using Cons.prems x by auto
  ultimately show ?case using Cons.IH [of "t @ [(k, f)]"] Cons.prems x by simp
qed simp

definition new_table :: "usize \<Rightarrow> usize \<Rightarrow> (usize \<times> fragment) list \<Rightarrow> fragment_table \<Rightarrow> fragment_table" where
  "new_table start stop new t = filter (\<lambda>x. \<not> inside start stop (fst x)) t @ new"

definition fits :: "usize \<Rightarrow> usize \<Rightarrow> (usize \<times> fragment) list \<Rightarrow> bool" where
  "fits start stop new \<longleftrightarrow> distinct (map fst new) \<and> (\<forall>k\<in>fst ` set new. inside start stop k)"

lemma fits_Nil [simp]: "fits start stop []"
  by (simp add: fits_def)

lemma replace_fragments_result:
  assumes "replace_fragments i start stop new m = Inr m'" "fits start stop new"
  shows "\<exists>w c. m' = set_allocation i
      ((m_allocations m ! i)\<lparr>al_fragments := new_table start stop new (al_fragments (m_allocations m ! i)), al_capacity := c\<rparr>)
      (m\<lparr>m_work := w, m_fragments := m_fragments m -
          length (filter (\<lambda>x. inside start stop (fst x)) (al_fragments (m_allocations m ! i))) + length new\<rparr>) \<and>
    length (filter (\<lambda>x. inside start stop (fst x)) (al_fragments (m_allocations m ! i))) \<le> m_fragments m \<and>
    m_fragments m' \<le> max_pointer_fragments (m_limits m) \<and> w \<le> max_work (m_limits m)"
proof -
  let ?al = "m_allocations m ! i"
  have table: "fold (\<lambda>(k, f) t. AList.update k f t) new (filter (\<lambda>x. \<not> inside start stop (fst x)) (al_fragments ?al)) =
      new_table start stop new (al_fragments ?al)"
    using assms(2) unfolding new_table_def by (intro fold_update_new) (auto simp: fits_def)
  have le: "w' \<le> unat (max_work (m_limits m)) \<Longrightarrow> unat (m_work m) + unat v = w' \<Longrightarrow> m_work m + v \<le> max_work (m_limits m)" for w' v
    using unsigned_less [of "max_work (m_limits m)", where 'a = nat]
    by (auto simp: word_le_nat_alt unat_add_no_overflow)
  from assms(1) show ?thesis
    by (auto simp: replace_fragments_def result_simps Let_def usize_sub_def table set_allocation_def le
        split: if_splits) 
qed

lemma length_filter_split: "length (filter P xs) + length (filter (\<lambda>x. \<not> P x) xs) = length xs"
  by (induction xs) auto

lemma new_table_wf:
  assumes "al_wf al" "fits start stop new" "stop \<le> length (al_bytes al)" "al_alive al"
  shows "al_wf (al\<lparr>al_fragments := new_table start stop new (al_fragments al), al_capacity := c\<rparr>)"
  using assms by (auto simp: al_wf_def new_table_def fits_def distinct_map_filter inside_def)

lemma replace_fragments_wf:
  assumes "replace_fragments i start stop new m = Inr m'" "fits start stop new" "mem_wf m"
    and "i < length (m_allocations m)" "stop \<le> length (al_bytes (m_allocations m ! i))" "al_alive (m_allocations m ! i)"
  shows "mem_wf m'"
proof -
  let ?al = "m_allocations m ! i"
  obtain w c where m': "m' = set_allocation i
      (?al\<lparr>al_fragments := new_table start stop new (al_fragments ?al), al_capacity := c\<rparr>)
      (m\<lparr>m_work := w, m_fragments := m_fragments m -
          length (filter (\<lambda>x. inside start stop (fst x)) (al_fragments ?al)) + length new\<rparr>)"
    and le: "length (filter (\<lambda>x. inside start stop (fst x)) (al_fragments ?al)) \<le> m_fragments m"
    "m_fragments m' \<le> max_pointer_fragments (m_limits m)" "w \<le> max_work (m_limits m)"
    using replace_fragments_result [OF assms(1,2)] by blast
  have wf: "mem_wf (m\<lparr>m_work := w\<rparr>)" using assms(3) le(3) by (simp add: mem_wf_def apart_def frag_count_def)
  have "al_wf (?al\<lparr>al_fragments := new_table start stop new (al_fragments ?al), al_capacity := c\<rparr>)"
    using new_table_wf [OF mem_wf_al [OF assms(3,4)] assms(2,5,6)] .
  then have "mem_wf (set_allocation i (?al\<lparr>al_fragments := new_table start stop new (al_fragments ?al), al_capacity := c\<rparr>)
      ((m\<lparr>m_work := w\<rparr>)\<lparr>m_fragments := m_fragments m -
          length (filter (\<lambda>x. inside start stop (fst x)) (al_fragments ?al)) + length new\<rparr>))"
    using assms(4) le m' length_filter_split [of "\<lambda>x. inside start stop (fst x)" "al_fragments ?al"]
    by (intro set_allocation_wf [OF wf]) (auto simp: new_table_def set_allocation_def)
  with m' show ?thesis by simp
qed

subsection \<open>Allocation\<close>

text \<open>\<open>(v + (a - 1)) & !(a - 1)\<close> is the next multiple of a power of two.\<close>

lemma unat_and_not_mask: "unat (w AND NOT (2 ^ n - 1 :: u64)) = unat w - unat w mod 2 ^ n"
proof -
  have "w AND NOT (2 ^ n - 1) = push_bit n (drop_bit n w)"
    by (rule bit_word_eqI) (auto simp: bit_simps mask_eq_decr_exp [symmetric])
  moreover have "push_bit n (drop_bit n (unat w)) = unat w - unat w mod 2 ^ n"
    by (simp add: push_bit_eq_mult drop_bit_eq_div minus_mod_eq_div_mult)
  moreover have "unat w < 2 ^ 64" using unsigned_less [of w, where 'a = nat] by simp
  then have "take_bit 64 (unat w) = unat w" "take_bit 64 (unat w - unat w mod 2 ^ n) = unat w - unat w mod 2 ^ n"
    by (simp_all add: take_bit_nat_eq_self)
  ultimately show ?thesis by (simp add: unsigned_push_bit_eq unsigned_drop_bit_eq)
qed
lemma mask_up:
  assumes "is_power_of_two (a :: u64)" "checked_add v (a - 1) = Some w"
  shows "unat (w AND NOT (a - 1)) = ceil_to (unat v) (unat a)"
proof -
  from assms(1) obtain n where n: "n < 64" "a = 2 ^ n" "unat a = 2 ^ n" by (auto elim: is_power_of_twoE)
  have "a \<noteq> 0" using is_power_of_two_pos [OF assms(1)] by auto
  then have "unat (a - 1) = 2 ^ n - 1" using n(3) by (simp add: unat_minus_one)
  then have w: "unat w = unat v + (2 ^ n - 1)" using assms(2) by (simp add: checked_simps)
  have "unat w mod 2 ^ n < 2 ^ n" by simp
  then have r: "unat w mod 2 ^ n \<le> 2 ^ n - 1" by linarith
  have "unat v + (2 ^ n - 1 - unat w mod 2 ^ n) = ceil_to (unat v) (unat a)"
  proof (rule ceil_to_unique)
    have "unat v + (2 ^ n - 1 - unat w mod 2 ^ n) = unat w - unat w mod 2 ^ n" using w r by linarith
    then show "unat a dvd unat v + (2 ^ n - 1 - unat w mod 2 ^ n)" by (simp add: n(3) dvd_minus_mod)
  qed (use n(3) in \<open>auto intro: diff_less_Suc le_less_trans [OF diff_le_self]\<close>)
  then show ?thesis using unat_and_not_mask [of w n] w r unfolding n(2) by linarith
qed

definition fresh_allocation :: "u64 \<Rightarrow> nat \<Rightarrow> allocation" where
  "fresh_allocation address len =
     \<lparr>al_kind = StackAllocation, al_address = address, al_generation = 0, al_alive = True,
      al_read = True, al_write = True, al_bytes = replicate len 0,
      al_initialized = replicate len 0, al_fragments = [], al_capacity = 0\<rparr>"

lemma mem_allocateE:
  assumes "mem_allocate sz natural align m = Inr (p, m')" "is_power_of_two (max align natural)"
  obtains address w where
    "unat address = ceil_to (unat (m_next_address m)) (unat (max align natural))"
    "m_allocations m' = m_allocations m @ [fresh_allocation address (unat sz)]"
    "unat (m_next_address m') = unat address + max (unat sz) 1 + 1"
    "m_bytes m' \<le> max_bytes (m_limits m)" "m_work m' \<le> max_work (m_limits m)"
    "length (m_allocations m) < max_allocations (m_limits m)"
    "m_fragments m' = m_fragments m" "m_limits m' = m_limits m" "m_arena m' = m_arena m" "m_host m' = m_host m"
    "p = \<lparr>ptr_address = address, ptr_capability = Some \<lparr>cap_arena = m_arena m, cap_allocation = length (m_allocations m),
       cap_generation = 0, cap_lower = 0, cap_upper = sz, cap_offset = 0, cap_read = True, cap_write = True\<rparr>\<rparr>"
proof -
  let ?a = "ucast (max align natural) :: u64"
  have pow: "is_power_of_two ?a" by (rule is_power_of_two_ucast [OF assms(2)])
  from assms(1) obtain total a nxt work m1 where
    total: "checked_add (m_bytes m) sz = Some total" "total \<le> max_bytes (m_limits m)"
    and a: "checked_add (m_next_address m) (?a - 1) = Some a"
    and nxt: "Option.bind (checked_add (a AND NOT (?a - 1)) (max sz 1)) (\<lambda>a. checked_add a 1) = Some nxt"
    and m1: "mem_charge work m = Inr m1"
    and len: "length (m_allocations m) < max_allocations (m_limits m)"
    and res: "p = \<lparr>ptr_address = a AND NOT (?a - 1), ptr_capability = Some \<lparr>cap_arena = m_arena m1,
        cap_allocation = length (m_allocations m1), cap_generation = 0, cap_lower = 0, cap_upper = sz,
        cap_offset = 0, cap_read = True, cap_write = True\<rparr>\<rparr>"
      "m' = m1\<lparr>m_allocations := m_allocations m1 @ [fresh_allocation (a AND NOT (?a - 1)) (unat sz)],
        m_bytes := total, m_next_address := nxt\<rparr>"
    by (auto simp: mem_allocate_def overflow_or_def rbind_eq_Inr ok_or_eq_Inr Let_def fresh_allocation_def not_le
        split: if_splits option.splits)
  let ?ad = "a AND NOT (?a - 1)"
  have "unat ?ad = ceil_to (unat (m_next_address m)) (unat (max align natural))"
    using mask_up [OF pow a] by (simp add: unat_ucast_32_64)
  moreover have "unat (max sz 1) = max (unat sz) 1" by (simp add: max_def word_le_nat_alt)
  then have "unat nxt = unat ?ad + max (unat sz) 1 + 1"
    using nxt by (auto simp: bind_eq_Some_conv checked_simps)
  moreover have "m_work m1 \<le> max_work (m_limits m)" "m1 = m\<lparr>m_work := m_work m1\<rparr>"
    using m1 by (auto simp: mem_charge_def split: if_splits option.splits)
  ultimately show thesis
    using that [of ?ad] res total(2) len by (cases m1, cases m) auto
qed

lemma mem_allocate_wf:
  assumes "mem_allocate sz natural align m = Inr (p, m')" "is_power_of_two (max align natural)" "mem_wf m"
  shows "mem_wf m'"
  using assms(1,2)
proof (rule mem_allocateE)
  fix address
  assume a: "unat address = ceil_to (unat (m_next_address m)) (unat (max align natural))"
    and as: "m_allocations m' = m_allocations m @ [fresh_allocation address (unat sz)]"
    and nx: "unat (m_next_address m') = unat address + max (unat sz) 1 + 1"
    and rest: "m_bytes m' \<le> max_bytes (m_limits m)" "m_work m' \<le> max_work (m_limits m)"
      "length (m_allocations m) < max_allocations (m_limits m)" "m_fragments m' = m_fragments m" "m_limits m' = m_limits m"
  have ge: "unat (m_next_address m) \<le> unat address" using a assms(2) by (simp add: ceil_to_ge is_power_of_two_pos)
  have "apart m" using assms(3) by (simp add: mem_wf_def)
  then have old: "0x1000 \<le> unat (m_next_address m)"
    "i < length (m_allocations m) \<Longrightarrow> 0x1000 \<le> unat (al_address (m_allocations m ! i))"
    "i < length (m_allocations m) \<Longrightarrow> al_end (m_allocations m ! i) < unat (m_next_address m)"
    "i < j \<Longrightarrow> j < length (m_allocations m) \<Longrightarrow> al_end (m_allocations m ! i) < unat (al_address (m_allocations m ! j))" for i j
    by (auto simp: apart_def)
  have new: "al_end (fresh_allocation address (unat sz)) < unat (m_next_address m')"
    "al_address (fresh_allocation address (unat sz)) = address"
    using nx by (auto simp: al_end_def fresh_allocation_def)
  have up: "unat (m_next_address m) < unat (m_next_address m')" using ge nx by linarith
  have "apart m'"
    unfolding apart_def
  proof (intro conjI allI impI)
    show "0x1000 \<le> unat (m_next_address m')" using old(1) up by linarith
  next
    fix i
    assume "i < length (m_allocations m')"
    then consider "i < length (m_allocations m)" | "i = length (m_allocations m)" unfolding as by fastforce
    then have "0x1000 \<le> unat (al_address (m_allocations m' ! i)) \<and> al_end (m_allocations m' ! i) < unat (m_next_address m')"
    proof cases
      case 1
      with old(2,3) [of i] up show ?thesis by (simp add: as nth_append)
    next
      case 2
      with old(1) ge new show ?thesis by (simp add: as)
    qed
    then show "0x1000 \<le> unat (al_address (m_allocations m' ! i))" "al_end (m_allocations m' ! i) < unat (m_next_address m')"
      by simp_all
  next
    fix i j
    assume ij: "i < j \<and> j < length (m_allocations m')"
    then consider "j < length (m_allocations m)" | "j = length (m_allocations m)" unfolding as by fastforce
    then show "al_end (m_allocations m' ! i) < unat (al_address (m_allocations m' ! j))"
    proof cases
      case 1
      with ij old(4) [of i j] show ?thesis by (simp add: as nth_append)
    next
      case 2
      with ij old(3) [of i] new(2) ge show ?thesis by (simp add: as nth_append)
    qed
  qed
  moreover have "al_wf (fresh_allocation address (unat sz))" by (simp add: al_wf_def fresh_allocation_def)
  ultimately show ?thesis
    using assms(3) rest by (auto simp: mem_wf_def as frag_count_def fresh_allocation_def)
qed

subsection \<open>The other operations keep the invariant\<close>

lemma set_allocation_wf_same:
  assumes "mem_wf m" "i < length (m_allocations m)" "al_wf al"
    and "al_address al = al_address (m_allocations m ! i)" "length (al_bytes al) = length (al_bytes (m_allocations m ! i))"
    and "length (al_fragments al) = length (al_fragments (m_allocations m ! i))"
  shows "mem_wf (set_allocation i al m)"
proof -
  have "m\<lparr>m_fragments := m_fragments m\<rparr> = m" by (cases m) simp
  moreover have "m_fragments m \<le> max_pointer_fragments (m_limits m)" using assms(1) by (simp add: mem_wf_def)
  ultimately show ?thesis
    using set_allocation_wf [OF assms(1-4), of "m_fragments m"] assms(5,6) by simp
qed

lemma set_bytes_wf:
  assumes "mem_wf m" "i < length (m_allocations m)"
    and "length bs = length (al_bytes (m_allocations m ! i))" "length ini = length bs"
  shows "mem_wf (set_allocation i ((m_allocations m ! i)\<lparr>al_bytes := bs, al_initialized := ini\<rparr>) m)"
  using mem_wf_al [OF assms(1,2)] assms(3,4) by (intro set_allocation_wf_same [OF assms(1,2)]) (auto simp: al_wf_def)

lemma set_flags_wf:
  assumes "mem_wf m" "i < length (m_allocations m)"
  shows "mem_wf (set_allocation i ((m_allocations m ! i)\<lparr>al_write := w\<rparr>) m)"
    "mem_wf (set_allocation i ((m_allocations m ! i)\<lparr>al_kind := k\<rparr>) m)"
  using mem_wf_al [OF assms] by (simp_all add: set_allocation_wf_same [OF assms] al_wf_def)

lemma frag_count_ge: "i < length (m_allocations m) \<Longrightarrow> length (al_fragments (m_allocations m ! i)) \<le> frag_count m"
  by (simp add: frag_count_def member_le_sum_list)

lemma retire_allocation_wf:
  assumes "mem_wf m" "i < length (m_allocations m)"
  shows "mem_wf (retire_allocation i m)"
proof (cases "al_alive (m_allocations m ! i)")
  case True
  let ?al = "m_allocations m ! i"
  have "length (al_fragments ?al) \<le> m_fragments m" "m_fragments m \<le> max_pointer_fragments (m_limits m)"
    using assms frag_count_ge [of i m] by (simp_all add: mem_wf_def)
  then have "mem_wf (set_allocation i (?al\<lparr>al_alive := False, al_fragments := [], al_bytes := [], al_initialized := []\<rparr>)
      (m\<lparr>m_fragments := m_fragments m - length (al_fragments ?al)\<rparr>))"
    by (intro set_allocation_wf [OF assms]) (auto simp: al_wf_def)
  with True show ?thesis by (simp add: retire_allocation_def Let_def)
qed (simp add: retire_allocation_def assms)

lemma length_retire [simp]: "length (m_allocations (retire_allocation i m)) = length (m_allocations m)"
  "length (m_allocations (retire_stack_allocation i m)) = length (m_allocations m)"
  by (simp_all add: retire_allocation_def retire_stack_allocation_def set_allocation_def Let_def)

lemma retire_fold_wf:
  "mem_wf m \<Longrightarrow> \<forall>i\<in>set is. i < length (m_allocations m) \<Longrightarrow> mem_wf (fold retire_stack_allocation is m)"
  by (induction "is" arbitrary: m) (auto simp: retire_stack_allocation_def retire_allocation_wf)

lemma mem_retire_from_wf: "mem_retire_from start m = Inr m' \<Longrightarrow> mem_wf m \<Longrightarrow> mem_wf m'"
  by (auto simp: mem_retire_from_def rbind_eq_Inr dest: mem_charge_wf intro!: retire_fold_wf split: if_splits)

lemma mem_retire_stack_wf:
  assumes "mem_retire_stack p owner m = Inr m'" "mem_wf m"
  shows "mem_wf m'"
proof -
  from assms(1) obtain i cap w m1 where id: "mem_identity p m = Inr (i, cap)" and m1: "mem_charge w m = Inr m1"
    and m': "m' = retire_allocation i m1"
    by (auto simp: mem_retire_stack_def rbind_eq_Inr Let_def split: if_splits)
  from id have "i < length (m_allocations m)" by (rule mem_identityE)
  with m1 have "i < length (m_allocations m1)" by (auto simp: result_simps)
  with mem_charge_wf [OF m1 assms(2)] m' show ?thesis by (simp add: retire_allocation_wf)
qed

lemma mem_seal_global_wf: "mem_seal_global p ro m = Inr (q, m') \<Longrightarrow> mem_wf m \<Longrightarrow> mem_wf m'"
  by (auto simp: mem_seal_global_def rbind_eq_Inr Let_def elim!: mem_identityE intro!: set_flags_wf split: if_splits)

lemma mem_allocate_global_wf:
  "mem_allocate_global sz natural align m = Inr (p, m') \<Longrightarrow> is_power_of_two (max align natural) \<Longrightarrow> mem_wf m \<Longrightarrow> mem_wf m'"
  by (auto simp: mem_allocate_global_def rbind_eq_Inr get_def dest: mem_allocate_wf intro!: set_flags_wf
      split: if_splits option.splits)

subsection \<open>Writes\<close>

text \<open>What a successful write does: it changes one live allocation, only inside the range, and
  its fragment table outside the range is kept.\<close>

definition same_outside :: "usize \<Rightarrow> usize \<Rightarrow> allocation \<Rightarrow> allocation \<Rightarrow> bool" where
  "same_outside start stop al al' \<longleftrightarrow>
     al_address al' = al_address al \<and> al_generation al' = al_generation al \<and> al_alive al' = al_alive al \<and>
     al_kind al' = al_kind al \<and> al_read al' = al_read al \<and> al_write al' = al_write al \<and>
     length (al_bytes al') = length (al_bytes al) \<and> length (al_initialized al') = length (al_initialized al) \<and>
     (\<forall>k. \<not> inside start stop k \<longrightarrow>
        (k < length (al_bytes al) \<longrightarrow> al_bytes al' ! k = al_bytes al ! k) \<and>
        (k < length (al_initialized al) \<longrightarrow> al_initialized al' ! k = al_initialized al ! k) \<and>
        map_of (al_fragments al') k = map_of (al_fragments al) k)"

definition written :: "usize \<Rightarrow> usize \<Rightarrow> usize \<Rightarrow> memory \<Rightarrow> memory \<Rightarrow> bool" where
  "written i start stop m m' \<longleftrightarrow>
     m_arena m' = m_arena m \<and> m_limits m' = m_limits m \<and> m_host m' = m_host m \<and>
     (\<exists>al. m_allocations m' = (m_allocations m)[i := al] \<and> same_outside start stop (m_allocations m ! i) al)"

lemma map_of_new_table:
  assumes "fits start stop new"
  shows "map_of (new_table start stop new t) k = (if inside start stop k then map_of new k else map_of t k)"
proof -
  have drop: "map_of (filter (\<lambda>x. \<not> inside start stop (fst x)) t) k = (if inside start stop k then None else map_of t k)"
    by (induction t) auto
  have "\<not> inside start stop k \<Longrightarrow> map_of new k = None" using assms by (auto simp: fits_def map_of_eq_None_iff)
  then show ?thesis by (auto simp: new_table_def map_add_def drop split: option.splits)
qed

lemma replace_fragments_written:
  assumes "replace_fragments i start stop new m = Inr m'" "fits start stop new" "i < length (m_allocations m)"
  shows "written i start stop m m'" "al_fragments (m_allocations m' ! i) = new_table start stop new (al_fragments (m_allocations m ! i))"
    "al_bytes (m_allocations m' ! i) = al_bytes (m_allocations m ! i)"
    "al_initialized (m_allocations m' ! i) = al_initialized (m_allocations m ! i)"
    "al_alive (m_allocations m' ! i) = al_alive (m_allocations m ! i)"
    "length (m_allocations m') = length (m_allocations m)"
proof -
  obtain w c n where m': "m' = set_allocation i
      ((m_allocations m ! i)\<lparr>al_fragments := new_table start stop new (al_fragments (m_allocations m ! i)), al_capacity := c\<rparr>)
      (m\<lparr>m_work := w, m_fragments := n\<rparr>)"
    using replace_fragments_result [OF assms(1,2)] by blast
  show "written i start stop m m'"
    unfolding written_def m' by (auto simp: set_allocation_def same_outside_def map_of_new_table [OF assms(2)])
  show "al_fragments (m_allocations m' ! i) = new_table start stop new (al_fragments (m_allocations m ! i))"
    "al_bytes (m_allocations m' ! i) = al_bytes (m_allocations m ! i)"
    "al_initialized (m_allocations m' ! i) = al_initialized (m_allocations m ! i)"
    "al_alive (m_allocations m' ! i) = al_alive (m_allocations m ! i)"
    "length (m_allocations m') = length (m_allocations m)"
    unfolding m' using assms(3) by (simp_all add: set_allocation_def)
qed

lemma same_outside_trans:
  "same_outside start stop a b \<Longrightarrow> same_outside start stop b c \<Longrightarrow> same_outside start stop a c"
  by (auto simp: same_outside_def)

lemma written_trans:
  assumes "written i start stop a b" "written i start stop b c" "i < length (m_allocations a)"
  shows "written i start stop a c"
proof -
  from assms(1,2) obtain x y where "m_allocations b = (m_allocations a)[i := x]" "same_outside start stop (m_allocations a ! i) x"
    "m_allocations c = (m_allocations b)[i := y]" "same_outside start stop (m_allocations b ! i) y"
    by (auto simp: written_def)
  then show ?thesis using assms same_outside_trans [of start stop "m_allocations a ! i" x y] by (auto simp: written_def)
qed

lemma written_charge: "mem_charge w m = Inr m' \<Longrightarrow> i < length (m_allocations m) \<Longrightarrow> written i start stop m m'"
  by (auto simp: result_simps written_def same_outside_def intro!: exI [of _ "m_allocations m ! i"])

lemma fill_slice_Some:
  assumes "fill_slice start stop ys xs = Some zs"
  shows "length zs = length xs" "stop \<le> length xs" "start \<le> stop" "length ys = stop - start"
    "k < length xs \<Longrightarrow> zs ! k = (if inside start stop k then ys ! (k - start) else xs ! k)"
proof -
  have s: "start \<le> stop" "stop \<le> length xs" "length ys = stop - start" "zs = overwrite xs start ys"
    using assms by (auto simp: fill_slice_def split: if_splits)
  then show "stop \<le> length xs" "start \<le> stop" "length ys = stop - start" "length zs = length xs" by simp_all
  show "zs ! k = (if inside start stop k then ys ! (k - start) else xs ! k)" if "k < length xs"
    using s that nth_overwrite [of start ys xs k] by (simp add: inside_def)
qed

lemma write_slices_result:
  assumes "write_slices i start stop data ini m = Inr m'" "i < length (m_allocations m)"
  shows "written i start stop m m'" "mem_wf m \<Longrightarrow> mem_wf m'"
    "al_fragments (m_allocations m' ! i) = al_fragments (m_allocations m ! i)"
    "al_bytes (m_allocations m' ! i) = overwrite (al_bytes (m_allocations m ! i)) start data"
    "al_initialized (m_allocations m' ! i) = overwrite (al_initialized (m_allocations m ! i)) start ini"
proof -
  let ?al = "m_allocations m ! i"
  from assms(1) obtain bs inits where bs: "fill_slice start stop data (al_bytes ?al) = Some bs"
    and inits: "fill_slice start stop ini (al_initialized ?al) = Some inits"
    and m': "m' = set_allocation i (?al\<lparr>al_bytes := bs, al_initialized := inits\<rparr>) m"
    by (auto simp: write_slices_def or_panic_def result_simps Let_def)
  note f = fill_slice_Some [OF bs] and g = fill_slice_Some [OF inits]
  show "written i start stop m m'" unfolding written_def m' using f g by (auto simp: set_allocation_def same_outside_def)
  show "mem_wf m'" if "mem_wf m"
    unfolding m' using mem_wf_al [OF that assms(2)] f(1) g(1)
    by (intro set_bytes_wf [OF that assms(2)]) (simp_all add: al_wf_def)
  show "al_fragments (m_allocations m' ! i) = al_fragments (m_allocations m ! i)"
    "al_bytes (m_allocations m' ! i) = overwrite (al_bytes (m_allocations m ! i)) start data"
    "al_initialized (m_allocations m' ! i) = overwrite (al_initialized (m_allocations m ! i)) start ini"
    unfolding m' using assms(2) bs inits by (auto simp: set_allocation_def fill_slice_def split: if_splits)
qed

text \<open>The common prefix of a write: charge the work, then replace the fragments.\<close>

lemma write_prefix:
  assumes "i < length (m_allocations m)" "al_alive (m_allocations m ! i)" "stop \<le> length (al_bytes (m_allocations m ! i))"
    and charge: "mem_charge w m = Inr m1" and rep: "replace_fragments i start stop new m1 = Inr m2" and "fits start stop new"
  shows "written i start stop m m2" "mem_wf m \<Longrightarrow> mem_wf m2" "i < length (m_allocations m2)"
    "al_bytes (m_allocations m2 ! i) = al_bytes (m_allocations m ! i)"
    "al_initialized (m_allocations m2 ! i) = al_initialized (m_allocations m ! i)"
    "al_fragments (m_allocations m2 ! i) = new_table start stop new (al_fragments (m_allocations m ! i))"
    "al_alive (m_allocations m2 ! i)"
proof -
  have m1: "m_allocations m1 = m_allocations m" using charge by (auto simp: result_simps)
  note r = replace_fragments_written [OF rep assms(6)]
  show "written i start stop m m2"
    using written_trans [OF written_charge [OF charge assms(1)] r(1)] assms(1) m1 by simp
  show "mem_wf m2" if "mem_wf m"
    using replace_fragments_wf [OF rep assms(6) mem_charge_wf [OF charge that]] assms(1-3) m1 by simp
  show "i < length (m_allocations m2)"
    "al_bytes (m_allocations m2 ! i) = al_bytes (m_allocations m ! i)"
    "al_initialized (m_allocations m2 ! i) = al_initialized (m_allocations m ! i)"
    "al_fragments (m_allocations m2 ! i) = new_table start stop new (al_fragments (m_allocations m ! i))"
    "al_alive (m_allocations m2 ! i)"
    using r(2-6) assms(1,2) m1 by simp_all
qed

lemma mem_set_result:
  assumes "mem_set dst byte sz align m = Inr m'" "sz \<noteq> 0" "mem_wf m"
  obtains i start stop where "mem_access dst sz align True m = Inr (i, start, stop)" "written i start stop m m'" "mem_wf m'"
proof -
  from assms(1,2) obtain i start stop w m1 m2 where acc: "mem_access dst sz align True m = Inr (i, start, stop)"
    and c: "mem_charge w m = Inr m1" and r: "replace_fragments i start stop [] m1 = Inr m2"
    and wr: "write_slices i start stop (replicate (stop - start) byte) (replicate (stop - start) 1) m2 = Inr m'"
    by (auto simp: mem_set_def rbind_eq_Inr)
  from acc obtain "i < length (m_allocations m)" "al_alive (m_allocations m ! i)" "stop \<le> length (al_bytes (m_allocations m ! i))"
    by (rule mem_accessE)
  note p = write_prefix [OF this c r fits_Nil] and w = write_slices_result [OF wr]
  show thesis
    using that [OF acc] written_trans [OF p(1) w(1)] p w(2) assms(3) \<open>i < length (m_allocations m)\<close> by blast
qed

lemma mem_uninit_result:
  assumes "mem_uninit p sz align m = Inr m'" "mem_wf m"
  obtains i start stop where "mem_access p sz align True m = Inr (i, start, stop)" "written i start stop m m'" "mem_wf m'"
proof -
  from assms(1) obtain i start stop w m1 m2 ini where acc: "mem_access p sz align True m = Inr (i, start, stop)"
    and c: "mem_charge w m = Inr m1" and r: "replace_fragments i start stop [] m1 = Inr m2"
    and f: "fill_slice start stop (replicate (stop - start) 0) (al_initialized (m_allocations m2 ! i)) = Some ini"
    and m': "m' = set_allocation i ((m_allocations m2 ! i)\<lparr>al_initialized := ini\<rparr>) m2"
    by (auto simp: mem_uninit_def rbind_eq_Inr or_panic_def ok_or_eq_Inr Let_def)
  from acc obtain i: "i < length (m_allocations m)" "al_alive (m_allocations m ! i)" "stop \<le> length (al_bytes (m_allocations m ! i))"
    by (rule mem_accessE)
  note p = write_prefix [OF i c r fits_Nil] and f = fill_slice_Some [OF f]
  have "written i start stop m2 m'"
    unfolding written_def m' using f by (auto simp: set_allocation_def same_outside_def)
  moreover have "mem_wf m'"
    unfolding m' using mem_wf_al [OF p(2) [OF assms(2)] p(3)] f(1) p(7)
    by (intro set_allocation_wf_same [OF p(2) [OF assms(2)] p(3)]) (auto simp: al_wf_def)
  ultimately show thesis using that [OF acc] written_trans [OF p(1) _ i(1)] by blast
qed

lemma copied_fragments_fit:
  assumes "distinct (map fst t)" "se - ss = de - ds" "ss \<le> se" "ds \<le> de"
  shows "fits ds de (map (\<lambda>(k, f). (ds + (k - ss), f)) (filter (\<lambda>x. inside ss se (fst x)) t))"
proof -
  have "inj_on (\<lambda>k. ds + (k - ss)) {k. inside ss se k}" by (auto simp: inj_on_def inside_def)
  moreover have "distinct (map fst (filter (\<lambda>x. inside ss se (fst x)) t))"
    using assms(1) by (simp add: distinct_map_filter)
  ultimately have "distinct (map (\<lambda>k. ds + (k - ss)) (map fst (filter (\<lambda>x. inside ss se (fst x)) t)))"
    unfolding distinct_map by (auto intro: inj_on_subset)
  moreover have "map fst (map (\<lambda>(k, f). (ds + (k - ss), f)) (filter (\<lambda>x. inside ss se (fst x)) t)) =
      map (\<lambda>k. ds + (k - ss)) (map fst (filter (\<lambda>x. inside ss se (fst x)) t))"
    by (induction t) auto
  ultimately have "distinct (map fst (map (\<lambda>(k, f). (ds + (k - ss), f)) (filter (\<lambda>x. inside ss se (fst x)) t)))"
    by (simp only:)
  then show ?thesis unfolding fits_def using assms(2-4) by (auto simp: inside_def)
qed

lemma mem_copy_result:
  assumes "mem_copy dst src sz align m = Inr m'" "sz \<noteq> 0" "mem_wf m"
  obtains i start stop where "mem_access dst sz align True m = Inr (i, start, stop)" "written i start stop m m'" "mem_wf m'"
proof -
  from assms(1,2) obtain j ss se i ds de w m1 m2 where
    accs: "mem_access src sz align False m = Inr (j, ss, se)" and acc: "mem_access dst sz align True m = Inr (i, ds, de)"
    and c: "mem_charge w m = Inr m1"
    and r: "replace_fragments i ds de (map (\<lambda>(k, f). (ds + (k - ss), f))
        (filter (\<lambda>x. inside ss se (fst x)) (al_fragments (m_allocations m ! j)))) m1 = Inr m2"
    and wr: "write_slices i ds de (slice ss se (al_bytes (m_allocations m ! j)))
        (slice ss se (al_initialized (m_allocations m ! j))) m2 = Inr m'"
    by (auto simp: mem_copy_def rbind_eq_Inr Let_def overflow_or_def ok_or_eq_Inr split: if_splits)
  from acc obtain i: "i < length (m_allocations m)" "al_alive (m_allocations m ! i)" "de \<le> length (al_bytes (m_allocations m ! i))"
    and de: "de = ds + unat sz"
    by (rule mem_accessE)
  from accs obtain j: "j < length (m_allocations m)" and se: "se = ss + unat sz" by (rule mem_accessE)
  have "distinct (map fst (al_fragments (m_allocations m ! j)))" using mem_wf_al [OF assms(3) j] by (simp add: al_wf_def)
  then have fit: "fits ds de (map (\<lambda>(k, f). (ds + (k - ss), f))
      (filter (\<lambda>x. inside ss se (fst x)) (al_fragments (m_allocations m ! j))))"
    using de se by (intro copied_fragments_fit) auto
  note p = write_prefix [OF i c r fit] and w = write_slices_result [OF wr]
  show thesis using that [OF acc] written_trans [OF p(1) w(1)] p w(2) assms(3) i(1) by blast
qed

lemma write_bytes_result:
  assumes "foldR write_byte bytes al = Inr al'" "\<forall>k\<in>fst ` set bytes. inside start stop k"
  shows "same_outside start stop al al' \<and> al_fragments al' = al_fragments al"
  using assms
proof (induction bytes arbitrary: al)
  case (Cons x bytes)
  obtain k b where x: "x = (k, b)" by (cases x)
  with Cons.prems obtain al1 where al1: "write_byte (k, b) al = Inr al1" "foldR write_byte bytes al1 = Inr al'"
    by (auto simp: rbind_eq_Inr)
  have "same_outside start stop al al1 \<and> al_fragments al1 = al_fragments al"
    using al1(1) Cons.prems(2) x by (auto simp: write_byte_def same_outside_def nth_list_update split: if_splits)
  with Cons.IH [OF al1(2)] Cons.prems(2) show ?case by (auto intro: same_outside_trans)
qed (simp add: same_outside_def)

text \<open>An encoded value covers its own bytes and, when it is a pointer, eight fragments.\<close>

lemma encode_value_inside:
  assumes "encode_value t v start = Inr (bytes, frags)" "mem_layout t = Inr lay"
  shows "\<forall>k\<in>fst ` set bytes. inside start (start + unat (tl_size lay)) k"
    and "frags = [] \<or> (\<exists>sp. frags = pointer_fragments start sp)"
    and "frags \<noteq> [] \<Longrightarrow> (\<exists>p. v = VPointer p) \<or> (\<exists>p. v = VFunction p)"
proof -
  show "\<forall>k\<in>fst ` set bytes. inside start (start + unat (tl_size lay)) k"
    using assms by (auto simp: encode_value_def rbind_eq_Inr Let_def inside_def split: if_splits dest!: set_zip_leftD)
  show "frags = [] \<or> (\<exists>sp. frags = pointer_fragments start sp)"
    using assms by (auto simp: encode_value_def rbind_eq_Inr Let_def split: if_splits rt_value.splits)
  show "(\<exists>p. v = VPointer p) \<or> (\<exists>p. v = VFunction p)" if "frags \<noteq> []"
    using assms that by (auto simp: encode_value_def rbind_eq_Inr Let_def split: if_splits rt_value.splits)
qed

lemma pointer_fragments_fit: "8 \<le> n \<Longrightarrow> fits start (start + n) (pointer_fragments start sp)"
  by (auto simp: fits_def pointer_fragments_def inside_def comp_def distinct_map inj_on_def)

lemma fits_mono: "fits a b new \<Longrightarrow> a' \<le> a \<Longrightarrow> b \<le> b' \<Longrightarrow> fits a' b' new"
  by (auto simp: fits_def inside_def)

text \<open>Pointer values are stored at pointer types only, and a checked pair at a pair whose fields
  lie inside it.\<close>

definition storable :: "ty \<Rightarrow> rt_value \<Rightarrow> bool" where
  "storable t v \<longleftrightarrow>
     (case v of
        VPointer _ \<Rightarrow> is_ptr t
      | VFunction _ \<Rightarrow> (\<exists>sig. t = FnPtr sig)
      | VScalar c \<Rightarrow> (t = Bool \<or> shape t \<noteq> None \<or> float_type t) \<and> valid_constant t c
      | VChecked c _ \<Rightarrow> (\<exists>u. t = TupleT [u, Bool] \<and> shape u \<noteq> None \<and> valid_constant u c))"

definition scalar_bytes :: "ty \<Rightarrow> nat" where
  "scalar_bytes t =
     (if t \<in> {Bool, I1, U1, I8, U8} then 1 else if t \<in> {I16, U16, F16} then 2
      else if t \<in> {I32, U32, F32} then 4 else if t \<in> {I64, U64, F64} then 8 else 16)"

definition whale_storage :: storage_layout where
  "whale_storage =
     \<lparr>sl_data = \<lparr>ptr_bits = 64, dl_endian = Little\<rparr>, scalar_align = (1, 2, 4, 8, 16), pointer_align = 8,
      large_array = Some (16, 16)\<rparr>"

lemma mem_layout_storage: "mem_layout t = map_err (\<lambda>_. MemPanic) (layout_storage whale_storage t 256)"
proof -
  have "ts_storage (target_specification X86_64WhaleLinux) = whale_storage"
    by (simp add: target_specification_def whale_storage_def)
  then show ?thesis
    by (simp add: mem_layout_def layout_of_with_limit_def layout_for_target_def target_specification_valid
        max_ir_nesting_def)
qed

lemmas layout_eval = mem_layout_storage whale_storage_def check_layout_size_def max_layout_size_def
  scalar_layout_def scalar_bytes_def shape_def float_type_def

lemma mem_layout_pointer:
  "mem_layout (Ptr t) = Inr (scalar_layout 8 8)" "mem_layout (FnPtr sig) = Inr (scalar_layout 8 8)"
  by (simp_all add: layout_eval)

lemma mem_layout_scalar:
  "t = Bool \<or> shape t \<noteq> None \<or> float_type t \<Longrightarrow>
   mem_layout t = Inr (scalar_layout (of_nat (scalar_bytes t)) (of_nat (scalar_bytes t)))"
  by (cases t) (simp_all add: layout_eval)

lemma mem_layout_pair:
  assumes "shape u \<noteq> None"
  shows "\<exists>lay. mem_layout (TupleT [u, Bool]) = Inr lay \<and> field_offsets lay = [0, of_nat (scalar_bytes u)] \<and>
    scalar_bytes u + 1 \<le> unat (tl_size lay)"
  using assms
  by (cases u) (simp_all add: layout_eval place_field_def ir_align_up_def align_tail_def padding_def
      checked_add_def usize_sub_def max_def)

lemma unat_of_nat_small: "n < 2 ^ 64 \<Longrightarrow> unat (of_nat n :: u64) = n"
  by (simp add: unat_of_nat take_bit_nat_eq_self_iff)

lemma mem_layout_Bool: "mem_layout Bool = Inr (scalar_layout 1 1)"
  by (simp add: layout_eval)

lemma scalar_bytes_le: "scalar_bytes t \<le> 16" "0 < scalar_bytes t"
  by (simp_all add: scalar_bytes_def)

lemma scalar_layout_size: "unat (tl_size (scalar_layout (of_nat (scalar_bytes t)) a)) = scalar_bytes t"
  using scalar_bytes_le [of t] by (simp add: scalar_layout_def unat_of_nat_small)

lemma encode_scalar:
  assumes "t = Bool \<or> shape t \<noteq> None \<or> float_type t" "scalar_raw t c = Some bits"
  shows "encode_value t (VScalar c) start =
    Inr (zip [start..<start + scalar_bytes t] (to_le_bytes (scalar_bytes t) bits), [])"
  using assms scalar_bytes_le [of t]
  by (simp add: encode_value_def mem_layout_scalar scalar_layout_size or_panic_def Let_def)

lemma encode_store_inside:
  assumes "encode_store t v start lay = Inr (bytes, frags)" "mem_layout t = Inr lay" "storable t v"
  shows "(\<forall>k\<in>fst ` set bytes. inside start (start + unat (tl_size lay)) k) \<and> fits start (start + unat (tl_size lay)) frags"
proof (cases "\<exists>c flag. v = VChecked c flag")
  case False
  then have run: "encode_value t v start = Inr (bytes, frags)"
    using assms(1) by (auto simp: encode_store_def split: ty.splits rt_value.splits)
  note e = encode_value_inside [OF run assms(2)]
  have "fits start (start + unat (tl_size lay)) frags"
  proof (cases "frags = []")
    case False
    then have "tl_size lay = 8"
      using e(3) assms(2,3) by (cases t) (auto simp: storable_def mem_layout_pointer scalar_layout_def)
    then show ?thesis using e(2) by (auto simp: pointer_fragments_fit)
  qed simp
  with e(1) show ?thesis by simp
next
  case True
  then obtain c flag u where v: "v = VChecked c flag" "t = TupleT [u, Bool]" "shape u \<noteq> None"
    using assms(3) by (auto simp: storable_def)
  have lay: "field_offsets lay = [0, of_nat (scalar_bytes u)]" "scalar_bytes u + 1 \<le> unat (tl_size lay)"
    using mem_layout_pair [OF v(3)] assms(2) v(2) by auto
  have u: "unat (of_nat (scalar_bytes u) :: u64) = scalar_bytes u" using scalar_bytes_le [of u] by (simp add: unat_of_nat_small)
  from assms(1) v lay obtain bs fs bs' fs' where
    a: "encode_value u (VScalar c) start = Inr (bs, fs)"
    and b: "encode_value Bool (VScalar (ConstBool flag)) (start + scalar_bytes u) = Inr (bs', fs')"
    and eq: "bytes = bs @ bs'" "frags = fs @ fs'"
    by (auto simp: encode_store_def rbind_eq_Inr or_panic_def get_def u)
  have "fs = []" "fs' = []" using encode_value_inside(3) [OF a mem_layout_scalar] encode_value_inside(3) [OF b mem_layout_scalar] v(3) by auto
  moreover have "\<forall>k\<in>fst ` set bs. inside start (start + scalar_bytes u) k"
    using encode_value_inside(1) [OF a mem_layout_scalar] v(3) by (simp add: scalar_layout_size)
  moreover have "\<forall>k\<in>fst ` set bs'. inside (start + scalar_bytes u) (start + scalar_bytes u + 1) k"
    using encode_value_inside(1) [OF b mem_layout_Bool] by (simp add: scalar_layout_def)
  ultimately show ?thesis using lay(2) by (fastforce simp: eq inside_def)
qed

lemma mem_store_result:
  assumes "mem_store p t v align m = Inr m'" "storable t v" "mem_wf m" "mem_layout t = Inr lay"
  obtains i start stop where "mem_access p (tl_size lay) align True m = Inr (i, start, stop)"
    "written i start stop m m'" "mem_wf m'"
proof -
  from assms(1,4) obtain i start stop bytes frags w m1 m2 al where
    acc: "mem_access p (tl_size lay) align True m = Inr (i, start, stop)"
    and enc: "encode_store t v start lay = Inr (bytes, frags)"
    and c: "mem_charge w m = Inr m1" and r: "replace_fragments i start stop frags m1 = Inr m2"
    and wr: "foldR write_byte bytes (m_allocations m2 ! i) = Inr al" and m': "m' = set_allocation i al m2"
    by (auto simp: mem_store_def rbind_eq_Inr)
  from acc obtain i: "i < length (m_allocations m)" "al_alive (m_allocations m ! i)" "stop \<le> length (al_bytes (m_allocations m ! i))"
    and stop: "stop = start + unat (tl_size lay)"
    by (rule mem_accessE)
  have ins: "\<forall>k\<in>fst ` set bytes. inside start stop k" and fit: "fits start stop frags"
    using encode_store_inside [OF enc assms(4,2)] stop by auto
  note p = write_prefix [OF i c r fit]
  have al: "same_outside start stop (m_allocations m2 ! i) al" "al_fragments al = al_fragments (m_allocations m2 ! i)"
    using write_bytes_result [OF wr ins] by auto
  have "written i start stop m2 m'" unfolding written_def m' using al(1) by (auto simp: set_allocation_def)
  moreover have "mem_wf m'"
    unfolding m' using mem_wf_al [OF p(2) [OF assms(3)] p(3)] al
    by (intro set_allocation_wf_same [OF p(2) [OF assms(3)] p(3)]) (auto simp: al_wf_def same_outside_def)
  ultimately show thesis using that [OF acc] written_trans [OF p(1) _ i(1)] by blast
qed

subsection \<open>Reachable memories\<close>

text \<open>Every operation of the interface that changes the memory.  Alignments are powers of two, as
  the verifier guarantees.\<close>

inductive mem_step :: "memory \<Rightarrow> memory \<Rightarrow> bool" where
  allocate: "is_power_of_two (max align natural) \<Longrightarrow> mem_allocate sz natural align m = Inr (p, m') \<Longrightarrow> mem_step m m'"
| allocate_global:
    "is_power_of_two (max align natural) \<Longrightarrow> mem_allocate_global sz natural align m = Inr (p, m') \<Longrightarrow> mem_step m m'"
| seal_global: "mem_seal_global p readonly m = Inr (q, m') \<Longrightarrow> mem_step m m'"
| retire_stack: "mem_retire_stack p owner m = Inr m' \<Longrightarrow> mem_step m m'"
| retire_from: "mem_retire_from start m = Inr m' \<Longrightarrow> mem_step m m'"
| uninit: "mem_uninit p sz align m = Inr m' \<Longrightarrow> mem_step m m'"
| copy: "mem_copy dst src sz align m = Inr m' \<Longrightarrow> mem_step m m'"
| set_bytes: "mem_set dst byte sz align m = Inr m' \<Longrightarrow> mem_step m m'"
| load: "mem_load p t align sig m = Inr (v, m') \<Longrightarrow> mem_step m m'"
| store: "storable t v \<Longrightarrow> mem_store p t v align m = Inr m' \<Longrightarrow> mem_step m m'"

inductive mem_reachable :: "u64 \<Rightarrow> memory_limits \<Rightarrow> host \<Rightarrow> memory \<Rightarrow> bool" for arena limits h where
  start: "mem_reachable arena limits h (memory_new arena limits h)"
| step: "mem_reachable arena limits h m \<Longrightarrow> mem_step m m' \<Longrightarrow> mem_reachable arena limits h m'"

lemma mem_load_state: "mem_load p t align sig m = Inr (v, m') \<Longrightarrow> \<exists>w. mem_charge w m = Inr m'"
  by (cases t) (auto simp: mem_load_def rbind_eq_Inr)

lemma mem_step_wf: "mem_step m m' \<Longrightarrow> mem_wf m \<Longrightarrow> mem_wf m'"
proof (induction rule: mem_step.induct)
  case (uninit p sz align m m')
  then show ?case by (auto elim: mem_uninit_result)
next
  case (copy dst src sz align m m')
  show ?case
  proof (cases "sz = 0")
    case True
    with copy show ?thesis by (simp add: mem_copy_def)
  next
    case False
    from mem_copy_result [OF copy(1) False copy(2)] show ?thesis by blast
  qed
next
  case (set_bytes dst byte sz align m m')
  show ?case
  proof (cases "sz = 0")
    case True
    with set_bytes show ?thesis by (simp add: mem_set_def)
  next
    case False
    from mem_set_result [OF set_bytes(1) False set_bytes(2)] show ?thesis by blast
  qed
next
  case (load p t align sig m v m')
  then show ?case by (auto dest!: mem_load_state dest: mem_charge_wf)
next
  case (store t v p align m m')
  then obtain lay where "mem_layout t = Inr lay" by (auto simp: mem_store_def rbind_eq_Inr)
  with store show ?case by (auto elim: mem_store_result)
qed (auto intro: mem_allocate_wf mem_allocate_global_wf mem_seal_global_wf mem_retire_stack_wf mem_retire_from_wf)

lemma mem_reachable_wf: "mem_reachable arena limits h m \<Longrightarrow> mem_wf m"
  by (induction rule: mem_reachable.induct) (auto intro: mem_wf_new mem_step_wf)

end
