(* ===== verification/IrMemoryTheorems.thy ===== *)
theory IrMemoryTheorems
  imports IrMemorySafety
begin

text \<open>
  The properties of the tracked memory: the invariant of reachable memories, absence of
  panics, temporal safety, the round trip of typed storage and the frame of a write.
\<close>

subsection \<open>No operation panics\<close>

lemma mem_identity_no_panic: "mem_identity p m \<noteq> Inl MemPanic"
  by (auto simp: mem_identity_def split: option.splits)

lemma mem_charge_no_panic: "mem_charge w m \<noteq> Inl MemPanic"
  by (auto simp: mem_charge_def split: option.splits)

lemma overflow_or_no_panic: "overflow_or x \<noteq> Inl MemPanic"
  by (cases x) (simp_all add: overflow_or_def)

lemma mem_access_no_panic: "mem_access p n align w m \<noteq> Inl MemPanic"
  using mem_identity_no_panic overflow_or_no_panic
  by (auto simp: mem_access_def rbind_eq_Inl Let_def split: if_splits)

lemmas no_panic = mem_identity_no_panic mem_charge_no_panic overflow_or_no_panic mem_access_no_panic

lemma mem_allocate_no_panic: "mem_allocate sz natural align m \<noteq> Inl MemPanic"
  by (auto simp: no_panic mem_allocate_def rbind_eq_Inl Let_def split: if_splits option.splits)

lemma mem_allocate_global_no_panic:
  assumes "is_power_of_two (max align natural)"
  shows "mem_allocate_global sz natural align m \<noteq> Inl MemPanic"
proof (cases "mem_allocate sz natural align m")
  case (Inl e)
  with mem_allocate_no_panic [of sz natural align m] show ?thesis by (simp add: mem_allocate_global_def)
next
  case (Inr r)
  obtain p m' where r: "r = (p, m')" by (cases r)
  show ?thesis
    by (rule mem_allocateE [OF Inr [unfolded r] assms]) (simp add: mem_allocate_global_def Inr r get_def)
qed

lemma replace_fragments_no_panic:
  assumes "mem_wf m" "i < length (m_allocations m)"
  shows "replace_fragments i start stop new m \<noteq> Inl MemPanic"
proof -
  have "length (filter (\<lambda>x. inside start stop (fst x)) (al_fragments (m_allocations m ! i))) \<le> m_fragments m"
    using assms(1) le_trans [OF length_filter_le frag_count_ge [OF assms(2)]] by (simp add: mem_wf_def)
  then show ?thesis
    by (auto simp: no_panic replace_fragments_def rbind_eq_Inl mem_charge_Inr Let_def usize_sub_def split: if_splits)
qed

lemma write_slices_no_panic:
  assumes "mem_wf m" "i < length (m_allocations m)" "start \<le> stop" "stop \<le> length (al_bytes (m_allocations m ! i))"
    and "length data = stop - start" "length ini = stop - start"
  shows "write_slices i start stop data ini m \<noteq> Inl MemPanic"
  using mem_wf_al [OF assms(1,2)] assms
  by (simp add: write_slices_def fill_slice_def or_panic_def Let_def al_wf_def)

text \<open>The state in which a write reaches its slices.\<close>

lemma write_reaches:
  assumes "mem_wf m" "mem_access p n align True m = Inr (i, start, stop)"
    and "mem_charge w m = Inr m1" "fits start stop new"
  shows "replace_fragments i start stop new m1 \<noteq> Inl MemPanic"
    and "replace_fragments i start stop new m1 = Inr m2 \<Longrightarrow>
      mem_wf m2 \<and> i < length (m_allocations m2) \<and> start \<le> stop \<and> stop \<le> length (al_bytes (m_allocations m2 ! i))"
proof -
  from assms(2) obtain i: "i < length (m_allocations m)" "al_alive (m_allocations m ! i)"
    "stop \<le> length (al_bytes (m_allocations m ! i))" and stop: "stop = start + unat n"
    by (rule mem_accessE)
  have m1: "m_allocations m1 = m_allocations m" using assms(3) by (auto simp: mem_charge_Inr)
  show "replace_fragments i start stop new m1 \<noteq> Inl MemPanic"
    using replace_fragments_no_panic [OF mem_charge_wf [OF assms(3,1)]] i(1) m1 by simp
  assume r: "replace_fragments i start stop new m1 = Inr m2"
  note p = write_prefix [OF i assms(3) r assms(4)]
  then show "mem_wf m2 \<and> i < length (m_allocations m2) \<and> start \<le> stop \<and> stop \<le> length (al_bytes (m_allocations m2 ! i))"
    using assms(1) i(3) stop by simp
qed

lemma mem_set_no_panic: "mem_wf m \<Longrightarrow> mem_set dst byte sz align m \<noteq> Inl MemPanic"
proof
  assume wf: "mem_wf m" and bad: "mem_set dst byte sz align m = Inl MemPanic"
  then obtain i start stop w m1 where acc: "mem_access dst sz align True m = Inr (i, start, stop)"
    and c: "mem_charge w m = Inr m1"
    and r: "replace_fragments i start stop [] m1 = Inl MemPanic \<or>
      (\<exists>m2. replace_fragments i start stop [] m1 = Inr m2 \<and>
        write_slices i start stop (replicate (stop - start) byte) (replicate (stop - start) 1) m2 = Inl MemPanic)"
    by (auto simp: no_panic mem_set_def rbind_eq_Inl split: if_splits)
  note p = write_reaches [OF wf acc c fits_Nil]
  from r p(1) obtain m2 where m2: "replace_fragments i start stop [] m1 = Inr m2"
    "write_slices i start stop (replicate (stop - start) byte) (replicate (stop - start) 1) m2 = Inl MemPanic" by blast
  with p(2) [OF m2(1)] write_slices_no_panic [of m2 i start stop "replicate (stop - start) byte" "replicate (stop - start) 1"]
  show False by simp
qed

lemma mem_uninit_no_panic: "mem_wf m \<Longrightarrow> mem_uninit p sz align m \<noteq> Inl MemPanic"
proof
  assume wf: "mem_wf m" and bad: "mem_uninit p sz align m = Inl MemPanic"
  then obtain i start stop w m1 where acc: "mem_access p sz align True m = Inr (i, start, stop)"
    and c: "mem_charge w m = Inr m1"
    and r: "replace_fragments i start stop [] m1 = Inl MemPanic \<or>
      (\<exists>m2. replace_fragments i start stop [] m1 = Inr m2 \<and>
        fill_slice start stop (replicate (stop - start) 0) (al_initialized (m_allocations m2 ! i)) = None)"
    by (auto simp: no_panic mem_uninit_def rbind_eq_Inl Let_def or_panic_def ok_or_eq_Inl)
  note p = write_reaches [OF wf acc c fits_Nil]
  from r p(1) obtain m2 where m2: "replace_fragments i start stop [] m1 = Inr m2"
    "fill_slice start stop (replicate (stop - start) 0) (al_initialized (m_allocations m2 ! i)) = None" by blast
  from p(2) [OF m2(1)] have "al_wf (m_allocations m2 ! i)" by (blast intro: mem_wf_al)
  with p(2) [OF m2(1)] m2(2) show False by (auto simp: fill_slice_def al_wf_def)
qed

lemma mem_copy_no_panic: "mem_wf m \<Longrightarrow> mem_copy dst src sz align m \<noteq> Inl MemPanic"
proof
  assume wf: "mem_wf m" and bad: "mem_copy dst src sz align m = Inl MemPanic"
  let ?frags = "\<lambda>j ds ss se. map (\<lambda>(k, f). (ds + (k - ss), f)) (filter (\<lambda>x. inside ss se (fst x)) (al_fragments (m_allocations m ! j)))"
  from bad obtain j ss se i ds de w m1 where accs: "mem_access src sz align False m = Inr (j, ss, se)"
    and acc: "mem_access dst sz align True m = Inr (i, ds, de)" and c: "mem_charge w m = Inr m1"
    and r: "length (al_bytes (m_allocations m ! j)) < se \<or> length (al_initialized (m_allocations m ! j)) < se \<or>
      replace_fragments i ds de (?frags j ds ss se) m1 = Inl MemPanic \<or>
      (\<exists>m2. replace_fragments i ds de (?frags j ds ss se) m1 = Inr m2 \<and>
        write_slices i ds de (slice ss se (al_bytes (m_allocations m ! j))) (slice ss se (al_initialized (m_allocations m ! j))) m2
          = Inl MemPanic)"
    by (auto simp: no_panic mem_copy_def rbind_eq_Inl Let_def split: if_splits)
  from accs obtain j: "j < length (m_allocations m)" "se \<le> length (al_bytes (m_allocations m ! j))" "se = ss + unat sz"
    by (rule mem_accessE)
  from acc have de: "de = ds + unat sz" by (rule mem_accessE)
  have jw: "al_wf (m_allocations m ! j)" by (rule mem_wf_al [OF wf j(1)])
  then have fit: "fits ds de (?frags j ds ss se)" using j(3) de by (intro copied_fragments_fit) (auto simp: al_wf_def)
  note p = write_reaches [OF wf acc c fit]
  from r p(1) j(2) jw obtain m2 where m2: "replace_fragments i ds de (?frags j ds ss se) m1 = Inr m2"
    "write_slices i ds de (slice ss se (al_bytes (m_allocations m ! j))) (slice ss se (al_initialized (m_allocations m ! j))) m2
      = Inl MemPanic" by (auto simp: al_wf_def)
  with p(2) [OF m2(1)] j(2,3) de jw
    write_slices_no_panic [of m2 i ds de "slice ss se (al_bytes (m_allocations m ! j))" "slice ss se (al_initialized (m_allocations m ! j))"]
  show False by (simp add: slice_def al_wf_def)
qed


lemma mem_retire_stack_no_panic: "mem_retire_stack p owner m \<noteq> Inl MemPanic"
  by (auto simp: no_panic mem_retire_stack_def rbind_eq_Inl Let_def split: if_splits)

lemma mem_retire_from_no_panic: "start \<le> length (m_allocations m) \<Longrightarrow> mem_retire_from start m \<noteq> Inl MemPanic"
  by (auto simp: no_panic mem_retire_from_def rbind_eq_Inl)

lemma mem_seal_global_no_panic: "mem_seal_global p ro m \<noteq> Inl MemPanic"
  by (auto simp: no_panic mem_seal_global_def rbind_eq_Inl Let_def split: if_splits)

lemma mem_difference_no_panic: "mem_difference p q m \<noteq> Inl MemPanic"
  by (auto simp: no_panic mem_difference_def rbind_eq_Inl split: if_splits)

lemma mem_equal_no_panic: "mem_equal p q m \<noteq> Inl MemPanic"
  by (auto simp: no_panic mem_equal_def rbind_eq_Inl split: if_splits)

text \<open>The running address of a pointer computation stays a 64-bit address.\<close>

definition integer_index :: "const_value \<Rightarrow> bool" where
  "integer_index v \<longleftrightarrow> (\<exists>w. v = ConstI w) \<or> (\<exists>w. v = ConstU w)"

lemma gep_index_no_panic: "integer_index v \<Longrightarrow> gep_index base (step, v) off \<noteq> Inl MemPanic"
  by (auto simp: no_panic integer_index_def gep_index_def gep_delta_def rbind_eq_Inl split: gep_step.splits if_splits)

lemma sint_i128_exact: "i128_exact z = Some y \<Longrightarrow> sint y = z"
  by (auto simp: i128_exact_def signed_of_int signed_take_bit_int_eq_self split: if_splits)

lemma gep_fold:
  assumes "\<forall>v\<in>set (map snd steps). integer_index v" "0 \<le> base + off" "base + off < 2 ^ 64"
  shows "foldR (gep_index base) steps off \<noteq> Inl MemPanic \<and>
    (\<forall>off'. foldR (gep_index base) steps off = Inr off' \<longrightarrow> 0 \<le> base + off' \<and> base + off' < 2 ^ 64)"
  using assms
proof (induction steps arbitrary: off)
  case (Cons x steps)
  obtain st v where x: "x = (st, v)" by (cases x)
  have step: "0 \<le> base + o1 \<and> base + o1 < 2 ^ 64" if "gep_index base x off = Inr o1" for o1
    using that by (auto simp: x gep_index_def rbind_eq_Inr overflow_or_def ok_or_eq_Inr split: if_splits dest!: sint_i128_exact)
  show ?case
  proof (cases "gep_index base x off")
    case (Inl e)
    with gep_index_no_panic [of v base st off] Cons.prems(1) x show ?thesis by auto
  next
    case (Inr o1)
    with Cons.IH [of o1] Cons.prems(1) step [OF Inr] show ?thesis by simp
  qed
qed simp

lemma mem_gep_no_panic:
  assumes "\<forall>v\<in>set indices. integer_index v"
  shows "mem_gep p plan indices m \<noteq> Inl MemPanic"
proof
  assume bad: "mem_gep p plan indices m = Inl MemPanic"
  then obtain i cap where id: "mem_identity p m = Inr (i, cap)"
    by (auto simp: no_panic mem_gep_def rbind_eq_Inl split: if_splits)
  let ?base = "uint (ptr_address p) - uint (cap_offset cap)"
  have "uint (ptr_address p) < 2 ^ 64" using unsigned_less [of "ptr_address p", where 'a = int] by simp
  moreover have "\<forall>v\<in>set (map snd (zip plan indices)). integer_index v" using assms by (auto dest: set_zip_rightD)
  ultimately have "foldR (gep_index ?base) (zip plan indices) (uint (cap_offset cap)) \<noteq> Inl MemPanic \<and>
      (\<forall>off'. foldR (gep_index ?base) (zip plan indices) (uint (cap_offset cap)) = Inr off' \<longrightarrow>
        0 \<le> ?base + off' \<and> ?base + off' < 2 ^ 64)"
    by (intro gep_fold) simp_all
  with bad id show False by (auto simp: mem_gep_def rbind_eq_Inl Let_def not_less [symmetric] split: if_splits)
qed

subsection \<open>Typed storage\<close>

text \<open>What a block of byte writes leaves: the bytes, marked as initialised.\<close>

lemma write_block:
  assumes "start + length bs \<le> length (al_bytes al)" "length (al_initialized al) = length (al_bytes al)"
  shows "\<exists>al'. foldR write_byte (zip [start..<start + length bs] bs) al = Inr al' \<and>
    length (al_bytes al') = length (al_bytes al) \<and> length (al_initialized al') = length (al_initialized al) \<and>
    al_fragments al' = al_fragments al \<and>
    (\<forall>k<length (al_bytes al). al_bytes al' ! k =
       (if inside start (start + length bs) k then bs ! (k - start) else al_bytes al ! k)) \<and>
    (\<forall>k<length (al_bytes al). al_initialized al' ! k =
       (if inside start (start + length bs) k then 1 else al_initialized al ! k))"
  using assms
proof (induction bs arbitrary: start al)
  case Nil
  then show ?case by (auto simp: inside_def)
next
  case (Cons b bs)
  let ?al = "al\<lparr>al_bytes := (al_bytes al)[start := b], al_initialized := (al_initialized al)[start := 1]\<rparr>"
  have one: "write_byte (start, b) al = Inr ?al" using Cons.prems by (simp add: write_byte_def)
  from Cons.IH [of "Suc start" ?al] Cons.prems obtain al' where
    al': "foldR write_byte (zip [Suc start..<Suc start + length bs] bs) ?al = Inr al'"
    "length (al_bytes al') = length (al_bytes al)" "length (al_initialized al') = length (al_initialized al)"
    "al_fragments al' = al_fragments al"
    "\<forall>k<length (al_bytes al). al_bytes al' ! k =
       (if inside (Suc start) (Suc start + length bs) k then bs ! (k - Suc start) else (al_bytes al)[start := b] ! k)"
    "\<forall>k<length (al_bytes al). al_initialized al' ! k =
       (if inside (Suc start) (Suc start + length bs) k then 1 else (al_initialized al)[start := 1] ! k)"
    by auto
  have "[start..<start + length (b # bs)] = start # [Suc start..<Suc start + length bs]" by (simp add: upt_conv_Cons del: upt_Suc)
  then have "foldR write_byte (zip [start..<start + length (b # bs)] (b # bs)) al = Inr al'"
    using al'(1) one by simp
  moreover have "al_bytes al' ! k = (if inside start (start + length (b # bs)) k then (b # bs) ! (k - start) else al_bytes al ! k)"
    if "k < length (al_bytes al)" for k
    using al'(5) that Cons.prems(1) by (cases "k = start") (auto simp: inside_def nth_Cons' Suc_diff_Suc)
  moreover have "al_initialized al' ! k = (if inside start (start + length (b # bs)) k then 1 else al_initialized al ! k)"
    if "k < length (al_bytes al)" for k
    using al'(6) that Cons.prems by (cases "k = start") (auto simp: inside_def)
  ultimately show ?case using al'(2-4) by auto
qed

text \<open>\<open>holds al start bs\<close>: the bytes are there and initialised.\<close>

definition holds :: "allocation \<Rightarrow> usize \<Rightarrow> u8 list \<Rightarrow> bool" where
  "holds al start bs \<longleftrightarrow>
     length (al_initialized al) = length (al_bytes al) \<and> start + length bs \<le> length (al_bytes al) \<and>
     (\<forall>k<length bs. al_bytes al ! (start + k) = bs ! k \<and> al_initialized al ! (start + k) \<noteq> 0)"

lemma slice_holds: "holds al start bs \<Longrightarrow> slice start (start + length bs) (al_bytes al) = bs"
  by (auto simp: holds_def slice_def intro: nth_equalityI)

lemma find_holds:
  assumes "holds al start bs"
  shows "find (\<lambda>off. al_initialized al ! off = 0) [start..<min (start + length bs) (length (al_initialized al))] = None"
proof -
  have "al_initialized al ! x \<noteq> 0" if "start \<le> x" "x < start + length bs" for x
    using assms that by (auto simp: holds_def dest!: spec [of _ "x - start"])
  then show ?thesis by (auto simp: find_None_iff)
qed

lemma load_scalar_decode:
  assumes "holds (m_allocations m ! i) start bs" "mem_layout t = Inr lay" "unat (tl_size lay) = length bs"
  shows "load_scalar i start t callable m =
    (case t of
       Bool \<Rightarrow>
         (case bs of
            [] \<Rightarrow> Inl MemPanic
          | b # _ \<Rightarrow> if b = 0 then Inr (VScalar (ConstBool False))
                     else if b = 1 then Inr (VScalar (ConstBool True)) else Inl (MemTrap (InvalidBool b)))
     | Ptr _ \<Rightarrow>
         if length bs \<noteq> 8 then Inl MemPanic
         else Inr (load_pointer (from_le_bytes bs)
                (complete_pointer start (from_le_bytes bs) (al_fragments (m_allocations m ! i))))
     | FnPtr sig \<Rightarrow>
         if length bs \<noteq> 8 then Inl MemPanic
         else Inr (load_function (case callable of Some s \<Rightarrow> s | None \<Rightarrow> sig) (from_le_bytes bs)
                (complete_pointer start (from_le_bytes bs) (al_fragments (m_allocations m ! i))))
     | _ \<Rightarrow>
         if 16 < length bs then Inl MemPanic
         else rbind (or_panic (scalar_pack t (from_le_bytes bs))) (\<lambda>v. Inr (VScalar v)))"
proof -
  have "start + length bs \<le> length (al_bytes (m_allocations m ! i))"
    "length (al_initialized (m_allocations m ! i)) = length (al_bytes (m_allocations m ! i))"
    using assms(1) by (simp_all add: holds_def)
  then show ?thesis
    using find_holds [OF assms(1)] slice_holds [OF assms(1)] assms(2,3)
    by (simp add: load_scalar_def Let_def cong: ty.case_cong)
qed

lemma load_Bool_holds:
  "holds (m_allocations m ! i) start [if flag then 1 else 0] \<Longrightarrow>
   load_scalar i start Bool callable m = Inr (VScalar (ConstBool flag))"
  using load_scalar_decode [of m i start "[if flag then 1 else 0]" Bool, OF _ mem_layout_Bool]
  by (simp add: scalar_layout_def)

lemma load_scalar_holds:
  assumes "holds (m_allocations m ! i) start bs" "length bs = scalar_bytes t" "shape t \<noteq> None \<or> float_type t"
  shows "load_scalar i start t callable m = rbind (or_panic (scalar_pack t (from_le_bytes bs))) (\<lambda>v. Inr (VScalar v))"
proof -
  have "mem_layout t = Inr (scalar_layout (of_nat (scalar_bytes t)) (of_nat (scalar_bytes t)))"
    using assms(3) by (intro mem_layout_scalar) auto
  from load_scalar_decode [OF assms(1) this] assms(2) scalar_bytes_le [of t]
  show ?thesis using assms(3) by (cases t) (simp_all add: scalar_layout_size shape_def float_type_def)
qed

lemma load_pointer_holds:
  assumes "holds (m_allocations m ! i) start bs" "length bs = 8"
  shows "load_scalar i start (Ptr t) callable m =
      Inr (load_pointer (from_le_bytes bs) (complete_pointer start (from_le_bytes bs) (al_fragments (m_allocations m ! i))))"
    "load_scalar i start (FnPtr sig) callable m =
      Inr (load_function (case callable of Some s \<Rightarrow> s | None \<Rightarrow> sig) (from_le_bytes bs)
        (complete_pointer start (from_le_bytes bs) (al_fragments (m_allocations m ! i))))"
  using load_scalar_decode [OF assms(1) mem_layout_pointer(1), of t callable]
    load_scalar_decode [OF assms(1) mem_layout_pointer(2), of sig callable] assms(2)
  by (simp_all add: scalar_layout_def)

text \<open>The bytes of a scalar give it back.\<close>

lemma valid_constant_eqI:
  assumes "shape t = Some (n, s)" "valid_constant t v" "valid_constant t w" "const_int v = const_int w"
  shows "v = w"
  using assms unfolding valid_constant_int [OF assms(1)] by (cases v; cases w) (auto simp: signed_word_eqI word_uint_eqI)

lemma from_to_le_bytes:
  "n \<le> 16 \<Longrightarrow> (from_le_bytes (to_le_bytes n (w :: u128)) :: u128) = take_bit (8 * n) w"
proof (rule unsigned_word_eqI)
  assume n: "n \<le> 16"
  have "(256 :: nat) ^ n = 2 ^ (8 * n)" by (simp add: power_mult)
  moreover have "unat w < 2 ^ 128" using unsigned_less [of w, where 'a = nat] by simp
  then have "unat w mod 256 ^ n < 2 ^ 128" by (rule le_less_trans [OF mod_less_eq_dividend])
  moreover have "unat (take_bit (8 * n) w) = unat w mod 2 ^ (8 * n)"
    unfolding unsigned_take_bit_eq by (simp add: take_bit_eq_mod)
  ultimately show "unat (from_le_bytes (to_le_bytes n w) :: u128) = unat (take_bit (8 * n) w)"
    by (simp add: from_le_bytes_def le_value_to_le_bytes unat_of_nat take_bit_nat_eq_self_iff)
qed

lemma scalar_int_round_trip:
  assumes t: "shape t = Some (n, s)" and v: "valid_constant t c"
  shows "\<exists>bits. scalar_raw t c = Some bits \<and>
    scalar_pack t (from_le_bytes (to_le_bytes (scalar_bytes t) bits)) = Some c"
proof -
  have n: "0 < n" "n \<le> 128" "n \<le> 8 * scalar_bytes t"
    using t by (cases t; simp add: shape_def scalar_bytes_def)+
  have c: "is_integral c" "in_range n s (const_int c)"
    using v unfolding valid_constant_int [OF t] by (cases c; simp add: is_integral_def)+
  obtain bits where bits: "int_raw c n = Some bits" "uint bits = take_bit n (const_int c)"
    using int_raw_some [OF n(2) c(1)] by blast
  have raw: "scalar_raw t c = Some bits"
    using bits(1) t c(1) by (cases c) (simp_all add: scalar_raw_def shape_bits_def is_integral_def)
  let ?w = "from_le_bytes (to_le_bytes (scalar_bytes t) bits) :: u128"
  obtain v' where v': "int_pack t ?w = Some v'" "const_int v' = wrap_to n s (uint ?w)" "valid_constant t v'"
    using int_pack_value [OF t] by blast
  have "uint ?w = take_bit n (const_int c)"
  proof -
    have "uint ?w = take_bit (8 * scalar_bytes t) (uint bits)"
      unfolding from_to_le_bytes [OF scalar_bytes_le(1)] by (simp only: unsigned_take_bit_eq)
    with n(3) show ?thesis unfolding bits(2) take_bit_take_bit by (simp add: min_absorb2)
  qed
  then have "const_int v' = const_int c"
    using v'(2) n(1) wrap_to_id [OF n(1) c(2)] by (simp add: wrap_to_take_bit)
  then have "v' = c" by (rule valid_constant_eqI [OF t v'(3) v])
  moreover have "scalar_pack t ?w = int_pack t ?w" using t by (cases t) (simp_all add: scalar_pack_def shape_def)
  ultimately show ?thesis using raw v'(1) by (intro exI [of _ bits]) simp
qed

lemma scalar_float_round_trip:
  assumes "float_type t" "valid_constant t c"
  shows "\<exists>bits. scalar_raw t c = Some bits \<and>
    scalar_pack t (from_le_bytes (to_le_bytes (scalar_bytes t) bits)) = Some c"
proof -
  have w: "\<And>x :: u16. take_bit 16 (ucast x :: u128) = ucast x" "\<And>x :: u32. take_bit 32 (ucast x :: u128) = ucast x"
    "\<And>x :: u64. take_bit 64 (ucast x :: u128) = ucast x"
    by (simp_all flip: unsigned_take_bit_eq add: take_bit_word_eq_self)
  show ?thesis
    using assms
    by (cases t; cases c) (auto simp: float_type_def valid_constant_def scalar_raw_def scalar_pack_def scalar_bytes_def
        from_to_le_bytes w unsigned_ucast_eq take_bit_word_eq_self split: float_bits.splits)
qed

lemma scalar_round_trip:
  assumes "shape t \<noteq> None \<or> float_type t" "valid_constant t c"
  shows "\<exists>bits. scalar_raw t c = Some bits \<and>
    scalar_pack t (from_le_bytes (to_le_bytes (scalar_bytes t) bits)) = Some c"
  using assms scalar_int_round_trip scalar_float_round_trip by fastforce

lemma holds_block:
  assumes "foldR write_byte (zip [start..<start + length bs] bs) al = Inr al'"
    and "start + length bs \<le> length (al_bytes al)" "length (al_initialized al) = length (al_bytes al)"
  shows "holds al' start bs" "length (al_bytes al') = length (al_bytes al)"
    "length (al_initialized al') = length (al_bytes al')" "al_fragments al' = al_fragments al"
  using write_block [OF assms(2,3)] assms by (auto simp: holds_def inside_def)

lemma holds_outside:
  assumes "foldR write_byte (zip [start..<start + length bs] bs) al = Inr al'" "holds al pos cs"
    and "start + length bs \<le> length (al_bytes al)" "pos + length cs \<le> start"
  shows "holds al' pos cs"
  using write_block [OF assms(3)] assms by (auto simp: holds_def inside_def)

text \<open>The allocation after a store.\<close>

definition stored :: "ty \<Rightarrow> rt_value \<Rightarrow> usize \<Rightarrow> allocation \<Rightarrow> bool" where
  "stored t v start al \<longleftrightarrow>
     (case v of
        VScalar c \<Rightarrow> (\<exists>bits. scalar_raw t c = Some bits \<and> holds al start (to_le_bytes (scalar_bytes t) bits))
      | VPointer p \<Rightarrow> holds al start (to_le_bytes 8 (ucast (ptr_address p) :: u128)) \<and>
          (\<forall>i<8. map_of (al_fragments al) (start + i) = Some \<lparr>frag_pointer = StoredData p, frag_byte = i\<rparr>)
      | VFunction f \<Rightarrow> holds al start (to_le_bytes 8 (ucast (function_bits (fun_target f)) :: u128)) \<and>
          (\<forall>i<8. map_of (al_fragments al) (start + i) = Some \<lparr>frag_pointer = StoredFunction f, frag_byte = i\<rparr>)
      | VChecked c flag \<Rightarrow> (\<exists>u bits. t = TupleT [u, Bool] \<and> scalar_raw u c = Some bits \<and>
          holds al start (to_le_bytes (scalar_bytes u) bits) \<and> holds al (start + scalar_bytes u) [if flag then 1 else 0]))"

lemma map_of_pointer_fragments:
  "i < 8 \<Longrightarrow> map_of (pointer_fragments start sp) (start + i) = Some \<lparr>frag_pointer = sp, frag_byte = i\<rparr>"
  by (auto simp: pointer_fragments_def map_of_eq_Some_iff comp_def distinct_map inj_on_def)

lemma encode_Bool: "encode_value Bool (VScalar (ConstBool flag)) start = Inr ([(start, if flag then 1 else 0)], [])"
  by (auto simp: encode_value_def mem_layout_Bool scalar_layout_def scalar_raw_def int_raw_def shape_bits_def shape_def
      int_mask_def or_panic_def Let_def to_le_bytes_def)

lemma encode_pointer:
  assumes "mem_layout t = Inr (scalar_layout 8 8)"
  shows "encode_value t (VPointer p) start =
      Inr (zip [start..<start + 8] (to_le_bytes 8 (ucast (ptr_address p) :: u128)), pointer_fragments start (StoredData p))"
    "encode_value t (VFunction f) start =
      Inr (zip [start..<start + 8] (to_le_bytes 8 (ucast (function_bits (fun_target f)) :: u128)),
        pointer_fragments start (StoredFunction f))"
  using assms by (simp_all add: encode_value_def scalar_layout_def Let_def)

lemma storable_layout:
  assumes "storable t v" "mem_layout t = Inr lay"
  shows "case v of VScalar _ \<Rightarrow> unat (tl_size lay) = scalar_bytes t | VPointer _ \<Rightarrow> lay = scalar_layout 8 8
    | VFunction _ \<Rightarrow> lay = scalar_layout 8 8
    | VChecked _ _ \<Rightarrow> \<exists>u. t = TupleT [u, Bool] \<and> shape u \<noteq> None \<and> field_offsets lay = [0, of_nat (scalar_bytes u)] \<and>
        scalar_bytes u + 1 \<le> unat (tl_size lay)"
proof (cases v)
  case (VScalar c)
  then have "t = Bool \<or> shape t \<noteq> None \<or> float_type t" using assms(1) by (auto simp: storable_def)
  with VScalar assms(2) show ?thesis using mem_layout_scalar [of t] by (auto simp: scalar_layout_size)
next
  case (VPointer p)
  with assms show ?thesis by (cases t) (auto simp: storable_def mem_layout_pointer)
next
  case (VFunction f)
  with assms show ?thesis by (cases t) (auto simp: storable_def mem_layout_pointer)
next
  case (VChecked c flag)
  then obtain u where u: "t = TupleT [u, Bool]" "shape u \<noteq> None" using assms(1) by (auto simp: storable_def)
  with VChecked assms(2) mem_layout_pair [OF u(2)] show ?thesis by auto
qed

lemma encode_store_stored:
  assumes st: "storable t v" and lay: "mem_layout t = Inr lay" and enc: "encode_store t v start lay = Inr (bytes, frags)"
    and wr: "foldR write_byte bytes al = Inr al'"
    and room: "start + unat (tl_size lay) \<le> length (al_bytes al)" "length (al_initialized al) = length (al_bytes al)"
    and tab: "\<forall>k. inside start (start + unat (tl_size lay)) k \<longrightarrow> map_of (al_fragments al) k = map_of frags k"
  shows "stored t v start al'"
proof (cases v)
  case (VScalar c)
  with st have t: "t = Bool \<or> shape t \<noteq> None \<or> float_type t" by (auto simp: storable_def)
  have "encode_store t v start lay = encode_value t v start"
    using t VScalar by (cases t) (simp_all add: encode_store_def shape_def float_type_def)
  then obtain bits where bits: "scalar_raw t c = Some bits"
    using enc VScalar by (auto simp: encode_value_def Let_def rbind_eq_Inr or_panic_def ok_or_eq_Inr)
  have n: "unat (tl_size lay) = scalar_bytes t" using storable_layout [OF st lay] VScalar by simp
  have "bytes = zip [start..<start + scalar_bytes t] (to_le_bytes (scalar_bytes t) bits)"
    using enc \<open>encode_store t v start lay = encode_value t v start\<close> encode_scalar [OF t bits, of start] VScalar by simp
  then have "holds al' start (to_le_bytes (scalar_bytes t) bits)"
    using holds_block(1) [of start "to_le_bytes (scalar_bytes t) bits"] wr room n by simp
  with VScalar bits show ?thesis by (simp add: stored_def)
next
  case (VPointer p)
  have l8: "lay = scalar_layout 8 8" using storable_layout [OF st lay] VPointer by simp
  then have "bytes = zip [start..<start + 8] (to_le_bytes 8 (ucast (ptr_address p) :: u128))"
    "frags = pointer_fragments start (StoredData p)"
    using enc VPointer encode_pointer(1) [of t p start] lay by (auto simp: encode_store_def split: ty.splits)
  then show ?thesis
    using holds_block [of start "to_le_bytes 8 (ucast (ptr_address p) :: u128)" al al'] wr room tab VPointer
    by (simp add: stored_def l8 scalar_layout_def inside_def map_of_pointer_fragments)
next
  case (VFunction f)
  have l8: "lay = scalar_layout 8 8" using storable_layout [OF st lay] VFunction by simp
  then have "bytes = zip [start..<start + 8] (to_le_bytes 8 (ucast (function_bits (fun_target f)) :: u128))"
    "frags = pointer_fragments start (StoredFunction f)"
    using enc VFunction encode_pointer(2) [of t f start] lay by (auto simp: encode_store_def split: ty.splits)
  then show ?thesis
    using holds_block [of start "to_le_bytes 8 (ucast (function_bits (fun_target f)) :: u128)" al al'] wr room tab VFunction
    by (simp add: stored_def l8 scalar_layout_def inside_def map_of_pointer_fragments)
next
  case (VChecked c flag)
  from storable_layout [OF st lay] VChecked obtain u where u: "t = TupleT [u, Bool]" "shape u \<noteq> None"
    "field_offsets lay = [0, of_nat (scalar_bytes u)]" "scalar_bytes u + 1 \<le> unat (tl_size lay)" by auto
  have off: "unat (of_nat (scalar_bytes u) :: u64) = scalar_bytes u" using scalar_bytes_le [of u] by (simp add: unat_of_nat_small)
  from enc VChecked u off obtain bits where bits: "scalar_raw u c = Some bits"
    by (auto simp: encode_store_def rbind_eq_Inr or_panic_def ok_or_eq_Inr get_def encode_value_def Let_def)
  let ?bs = "to_le_bytes (scalar_bytes u) bits"
  have "bytes = zip [start..<start + length ?bs] ?bs @ [(start + scalar_bytes u, if flag then 1 else 0)]"
    using enc VChecked u off encode_scalar [OF _ bits, of start] encode_Bool
    by (auto simp: encode_store_def or_panic_def get_def rbind_eq_Inr)
  with wr obtain al1 where al1: "foldR write_byte (zip [start..<start + length ?bs] ?bs) al = Inr al1"
    and al2: "foldR write_byte (zip [start + scalar_bytes u..<start + scalar_bytes u + length [if flag then 1 else 0 :: u8]]
      [if flag then 1 else 0]) al1 = Inr al'"
    by (auto simp: foldR_append rbind_eq_Inr)
  note h = holds_block [OF al1] and g = holds_block [OF al2]
  have "holds al' start ?bs" using holds_outside [OF al2, of start ?bs] h room u(4) by simp
  with g(1) h room u bits VChecked show ?thesis by (simp add: stored_def)
qed

lemma mem_store_stored:
  assumes "mem_store p t v align m = Inr m'" "storable t v" "mem_wf m" "mem_layout t = Inr lay"
    and "mem_access p (tl_size lay) align True m = Inr (i, start, stop)"
  shows "stored t v start (m_allocations m' ! i)"
proof -
  from assms(1,4,5) obtain bytes frags w m1 m2 al where
    enc: "encode_store t v start lay = Inr (bytes, frags)"
    and c: "mem_charge w m = Inr m1" and r: "replace_fragments i start stop frags m1 = Inr m2"
    and wr: "foldR write_byte bytes (m_allocations m2 ! i) = Inr al" and m': "m' = set_allocation i al m2"
    by (auto simp: mem_store_def rbind_eq_Inr)
  from assms(5) obtain i: "i < length (m_allocations m)" "al_alive (m_allocations m ! i)" "stop \<le> length (al_bytes (m_allocations m ! i))"
    and stop: "stop = start + unat (tl_size lay)"
    by (rule mem_accessE)
  have fit: "fits start stop frags" using encode_store_inside [OF enc assms(4,2)] stop by simp
  note p = write_prefix [OF i c r fit]
  have "length (al_initialized (m_allocations m2 ! i)) = length (al_bytes (m_allocations m2 ! i))"
    using mem_wf_al [OF p(2) [OF assms(3)] p(3)] by (simp add: al_wf_def)
  moreover have "\<forall>k. inside start (start + unat (tl_size lay)) k \<longrightarrow>
      map_of (al_fragments (m_allocations m2 ! i)) k = map_of frags k"
    using p(6) stop fit by (simp add: map_of_new_table)
  ultimately have "stored t v start al"
    using i(3) stop p(4) by (intro encode_store_stored [OF assms(2,4) enc wr]) simp_all
  with m' p(3) show ?thesis by (simp add: set_allocation_def)
qed

text \<open>Values with one representation: the null pointer carries no capability, a function
  pointer has the signature of its type and no null disguise.\<close>

definition canonical :: "ty \<Rightarrow> rt_value \<Rightarrow> bool" where
  "canonical t v \<longleftrightarrow> storable t v \<and>
     (case v of
        VPointer p \<Rightarrow> ptr_address p = 0 \<longrightarrow> ptr_capability p = None
      | VFunction f \<Rightarrow> t = FnPtr (fun_signature f) \<and> fun_target f \<noteq> TargetInvalidBits 0
      | _ \<Rightarrow> True)"

lemma from_le_bytes_address: "from_le_bytes (to_le_bytes 8 (ucast a :: u128)) = (a :: u64)"
proof -
  have "(256 :: nat) ^ 8 = 2 ^ 64" "unat a < 2 ^ 64" "unat (ucast a :: u128) = unat a"
    using unsigned_less [of a, where 'a = nat] by (simp_all add: unsigned_ucast_eq take_bit_nat_eq_self_iff)
  then have "le_value (to_le_bytes 8 (ucast a :: u128)) = unat a" by (simp add: le_value_to_le_bytes)
  then show ?thesis by (simp add: from_le_bytes_def)
qed

lemma complete_pointer_stored:
  "\<forall>i<8. map_of table (start + i) = Some \<lparr>frag_pointer = sp, frag_byte = i\<rparr> \<Longrightarrow>
   complete_pointer start (stored_bits sp) table = Some sp"
  using spec [of "\<lambda>i. i < 8 \<longrightarrow> map_of table (start + i) = Some \<lparr>frag_pointer = sp, frag_byte = i\<rparr>" 0]
  by (simp add: complete_pointer_def list_all_iff)

lemma function_bits_0: "function_bits tgt = 0 \<longleftrightarrow> tgt = TargetNull \<or> tgt = TargetInvalidBits 0"
proof (cases tgt)
  case (TargetDefined f)
  obtain i where f: "f = FunctionId i" by (cases f)
  have "unat (ucast i :: u64) < 2 ^ 32" using unsigned_less [of i, where 'a = nat] by (simp add: unat_ucast_32_64)
  then have "unat ((ucast i :: u64) + 1) = unat i + 1" by (simp add: unat_add_no_overflow unat_ucast_32_64)
  then have "(ucast i :: u64) + 1 \<noteq> 0" by (metis add_is_0 unsigned_0 zero_neq_one)
  with TargetDefined f show ?thesis by simp
qed simp_all

lemma load_function_same:
  assumes "fun_target f \<noteq> TargetInvalidBits 0"
  shows "load_function (fun_signature f) (function_bits (fun_target f)) (Some (StoredFunction f)) = VFunction f"
proof (cases "function_bits (fun_target f) = 0")
  case True
  then have "fun_target f = TargetNull" using assms by (simp add: function_bits_0)
  with True show ?thesis by (cases f) (simp add: load_function_def)
qed (simp add: load_function_def)

lemma load_pointer_same:
  assumes "ptr_address p = 0 \<longrightarrow> ptr_capability p = None"
  shows "load_pointer (ptr_address p) (Some (StoredData p)) = VPointer p"
  using assms by (cases p) (simp add: load_pointer_def raw_pointer_def)

lemma load_scalar_stored:
  assumes "stored t v start (m_allocations m ! i)" "canonical t v" "\<And>c flag. v \<noteq> VChecked c flag"
    and "\<forall>s. callable = Some s \<longrightarrow> t = FnPtr s"
  shows "load_scalar i start t callable m = Inr v"
proof (cases v)
  case (VScalar c)
  with assms(1) obtain bits where bits: "scalar_raw t c = Some bits"
    "holds (m_allocations m ! i) start (to_le_bytes (scalar_bytes t) bits)" by (auto simp: stored_def)
  from assms(2) VScalar have t: "t = Bool \<or> shape t \<noteq> None \<or> float_type t" and c: "valid_constant t c"
    by (auto simp: canonical_def storable_def)
  show ?thesis
  proof (cases "t = Bool")
    case True
    then obtain b where b: "c = ConstBool b" using c by (cases c) (auto simp: valid_constant_def split: float_bits.splits)
    then have "to_le_bytes (scalar_bytes t) bits = [if b then 1 else 0]"
      using bits(1) True encode_scalar [OF t bits(1), of 0] encode_Bool [of b 0] by (simp add: scalar_bytes_def to_le_bytes_def)
    with True b VScalar bits(2) show ?thesis using load_Bool_holds [of m i start b] by simp
  next
    case False
    with t have t: "shape t \<noteq> None \<or> float_type t" by simp
    from scalar_round_trip [OF t c] bits(1)
    have "scalar_pack t (from_le_bytes (to_le_bytes (scalar_bytes t) bits)) = Some c" by auto
    with VScalar load_scalar_holds [OF bits(2) _ t] show ?thesis by (simp add: or_panic_def)
  qed
next
  case (VPointer p)
  with assms(2) obtain u where t: "t = Ptr u" by (cases t) (auto simp: canonical_def storable_def)
  from assms(1,2) VPointer show ?thesis
    using complete_pointer_stored [of "al_fragments (m_allocations m ! i)" start "StoredData p"]
      load_pointer_holds(1) [of m i start "to_le_bytes 8 (ucast (ptr_address p) :: u128)" u callable]
    unfolding t by (simp add: stored_def from_le_bytes_address load_pointer_same canonical_def)
next
  case (VFunction f)
  then have t: "t = FnPtr (fun_signature f)" using assms(2) by (simp add: canonical_def)
  from assms(1,2,4) VFunction show ?thesis
    using complete_pointer_stored [of "al_fragments (m_allocations m ! i)" start "StoredFunction f"]
      load_pointer_holds(2) [of m i start "to_le_bytes 8 (ucast (function_bits (fun_target f)) :: u128)" "fun_signature f" callable]
      load_function_same [of f]
    unfolding t by (cases callable) (auto simp: stored_def from_le_bytes_address canonical_def)
qed (use assms(3) in blast)

lemma written_access:
  assumes "written i start stop m m'"
  shows "mem_access p n align w m' = mem_access p n align w m"
proof -
  from assms obtain al where al: "m_allocations m' = (m_allocations m)[i := al]" "same_outside start stop (m_allocations m ! i) al"
    and arena: "m_arena m' = m_arena m" by (auto simp: written_def)
  let ?f = "\<lambda>a. (al_alive a, al_generation a, length (al_bytes a), al_address a, al_write a, al_read a)"
  have same: "?f (m_allocations m' ! j) = ?f (m_allocations m ! j)" for j
  proof (cases "j = i \<and> i < length (m_allocations m)")
    case True
    with al show ?thesis by (simp add: same_outside_def)
  next
    case False
    then have "m_allocations m' ! j = m_allocations m ! j" unfolding al(1) by (cases "i < length (m_allocations m)") (auto simp: list_update_beyond)
    then show ?thesis by simp
  qed
  have "mem_identity p m' = mem_identity p m"
    using same arena al(1) by (auto simp: mem_identity_def get_def split: option.splits)
  then show ?thesis using same by (simp add: mem_access_def Let_def case_prod_beta' cong del: rbind_weak_cong if_weak_cong)
qed

lemma mem_load_stored:
  assumes "stored t v start (m_allocations m ! i)" "canonical t v" "mem_layout t = Inr lay"
    and "mem_access p (tl_size lay) align False m = Inr (i, start, stop)"
    and "\<forall>s. callable = Some s \<longrightarrow> t = FnPtr s"
  shows "mem_load p t align callable m = rbind (mem_charge (tl_size lay) m) (\<lambda>m. Inr (v, m))"
proof -
  have work: "of_nat (stop - start) = tl_size lay" using assms(4) by (auto elim: mem_accessE)
  have charged: "m_allocations m1 ! i = m_allocations m ! i" if "mem_charge w m = Inr m1" for m1 w
    using that by (auto simp: result_simps)
  show ?thesis
  proof (cases "mem_charge (tl_size lay) m")
    case (Inl e)
    with assms(3,4) work show ?thesis by (simp add: mem_load_def)
  next
    case (Inr m1)
    note st = assms(1) [folded charged [OF Inr]]
    show ?thesis
    proof (cases "\<exists>c flag. v = VChecked c flag")
      case False
      then have run: "load_scalar i start t callable m1 = Inr v"
        using assms(5) by (intro load_scalar_stored [OF st assms(2)]) auto
      have "\<nexists>ts. t = TupleT ts" using assms(2) False
        by (cases v) (auto simp: canonical_def storable_def shape_def float_type_def)
      with run Inr assms(3,4) work show ?thesis by (cases t) (simp_all add: mem_load_def)
    next
      case True
      then obtain c flag where v: "v = VChecked c flag" by blast
      with storable_layout [of t v lay] assms(2,3) obtain u where u: "t = TupleT [u, Bool]" "shape u \<noteq> None"
        "field_offsets lay = [0, of_nat (scalar_bytes u)]" by (auto simp: canonical_def)
      have off: "unat (of_nat (scalar_bytes u) :: u64) = scalar_bytes u" using scalar_bytes_le [of u] by (simp add: unat_of_nat_small)
      from st v u(1) have "stored u (VScalar c) start (m_allocations m1 ! i)"
        and flag: "holds (m_allocations m1 ! i) (start + scalar_bytes u) [if flag then 1 else 0]" by (auto simp: stored_def)
      then have "load_scalar i start u None m1 = Inr (VScalar c)"
        using assms(2) v u(1,2) by (intro load_scalar_stored) (auto simp: canonical_def storable_def)
      with load_Bool_holds [OF flag, of None] Inr assms(3,4) work v u off
      show ?thesis by (simp add: mem_load_def or_panic_def get_def)
    qed
  qed
qed

subsection \<open>Reads, frame and lifetime\<close>

text \<open>A read sees an allocation only through its bytes, marks and fragments inside the range.\<close>

definition same_inside :: "usize \<Rightarrow> usize \<Rightarrow> allocation \<Rightarrow> allocation \<Rightarrow> bool" where
  "same_inside start stop al al' \<longleftrightarrow>
     length (al_bytes al') = length (al_bytes al) \<and> length (al_initialized al') = length (al_initialized al) \<and>
     (\<forall>k. inside start stop k \<longrightarrow>
        (k < length (al_bytes al) \<longrightarrow> al_bytes al' ! k = al_bytes al ! k) \<and>
        (k < length (al_initialized al) \<longrightarrow> al_initialized al' ! k = al_initialized al ! k) \<and>
        map_of (al_fragments al') k = map_of (al_fragments al) k)"

lemma same_inside_mono: "same_inside a b al al' \<Longrightarrow> a \<le> c \<Longrightarrow> d \<le> b \<Longrightarrow> same_inside c d al al'"
  by (simp add: same_inside_def inside_def)

lemma slice_same_inside:
  "same_inside start stop al al' \<Longrightarrow> slice start stop (al_bytes al') = slice start stop (al_bytes al)"
  by (auto simp: same_inside_def slice_def inside_def intro!: nth_equalityI)

lemma find_same_inside:
  assumes "same_inside start stop al al'"
  shows "find (\<lambda>off. al_initialized al' ! off = 0) [start..<min stop (length (al_initialized al'))] =
    find (\<lambda>off. al_initialized al ! off = 0) [start..<min stop (length (al_initialized al))]"
  using assms by (intro find_cong) (auto simp: same_inside_def inside_def)

lemma complete_pointer_same_inside:
  assumes "same_inside start (start + 8) al al'"
  shows "complete_pointer start a (al_fragments al') = complete_pointer start a (al_fragments al)"
proof -
  have "map_of (al_fragments al') (start + i) = map_of (al_fragments al) (start + i)" if "i < 8" for i
    using assms that by (auto simp: same_inside_def inside_def)
  from this this [of 0] show ?thesis unfolding complete_pointer_def list_all_iff by (auto split: option.splits)
qed

lemma load_scalar_same_inside:
  assumes "same_inside start (start + unat (tl_size lay)) (m_allocations m ! i) (m_allocations m' ! i)" "mem_layout t = Inr lay"
  shows "load_scalar i start t callable m' = load_scalar i start t callable m"
proof -
  let ?al = "m_allocations m ! i" and ?al' = "m_allocations m' ! i"
  note f = find_same_inside [OF assms(1)] and b = slice_same_inside [OF assms(1)]
  have l: "length (al_bytes ?al') = length (al_bytes ?al)" "length (al_initialized ?al') = length (al_initialized ?al)"
    using assms(1) by (simp_all add: same_inside_def)
  show ?thesis
  proof (cases "unat (tl_size lay) = 8")
    case True
    then have "complete_pointer start a (al_fragments ?al') = complete_pointer start a (al_fragments ?al)" for a
      using assms(1) by (intro complete_pointer_same_inside) simp
    then show ?thesis using f b l assms(2) True unfolding load_scalar_def Let_def
      by (cases t) (simp_all cong: option.case_cong)
  next
    case False
    then show ?thesis using f b l assms(2) unfolding load_scalar_def Let_def
      by (cases t) (simp_all cong: option.case_cong)
  qed
qed

definition load_value :: "usize \<Rightarrow> usize \<Rightarrow> ty \<Rightarrow> fn_sig option \<Rightarrow> type_layout \<Rightarrow> memory \<Rightarrow> fault + rt_value" where
  "load_value i start t sig lay m =
     (case t of
        TupleT ts \<Rightarrow>
          rbind (or_panic (get (field_offsets lay) 0)) (\<lambda>off0.
          rbind (or_panic (get ts 0)) (\<lambda>f0.
          rbind (load_scalar i (start + unat off0) f0 None m) (\<lambda>a.
          rbind (or_panic (get (field_offsets lay) 1)) (\<lambda>off1.
          rbind (or_panic (get ts 1)) (\<lambda>f1.
          rbind (load_scalar i (start + unat off1) f1 None m) (\<lambda>b.
          rbind (or_panic (value_scalar a)) (\<lambda>v.
          rbind (or_panic (value_boolean b)) (\<lambda>flag. Inr (VChecked v flag)))))))))
      | _ \<Rightarrow> load_scalar i start t sig m)"

lemma mem_load_value:
  assumes "mem_layout t = Inr lay" "mem_access p (tl_size lay) align False m = Inr (i, start, stop)"
  shows "mem_load p t align sig m =
    rbind (mem_charge (tl_size lay) m) (\<lambda>m1. rbind (load_value i start t sig lay m) (\<lambda>v. Inr (v, m1)))"
proof -
  have work: "of_nat (stop - start) = tl_size lay" using assms(2) by (auto elim: mem_accessE)
  have same: "load_value i start t sig lay m1 = load_value i start t sig lay m" if "mem_charge w m = Inr m1" for m1 w
  proof -
    have m1: "m1 = m\<lparr>m_work := m_work m1\<rparr>" using that by (auto simp: result_simps)
    have "load_scalar i s u c m1 = load_scalar i s u c m" for s u c
      by (subst m1) (simp only: load_scalar_def mem_charge_allocations)
    then show ?thesis by (simp only: load_value_def)
  qed
  show ?thesis
  proof (cases "mem_charge (tl_size lay) m")
    case (Inr m1)
    then show ?thesis
      unfolding mem_load_def assms rbind_simps case_prod_conv work Inr same [OF Inr, symmetric]
      by (cases t) (simp_all add: load_value_def rbind_assoc cong del: rbind_weak_cong)
  qed (simp add: mem_load_def assms work)
qed

lemma value_type_cases:
  assumes "value_type t"
  obtains (scalar) "scalar_type t" | (pointer) u where "t = Ptr u" | (callable) sig where "t = FnPtr sig"
  | (pair) u where "t = TupleT [u, Bool]" "shape u \<noteq> None"
  using assms by (cases t) (auto simp: scalar_type_def numeral_2_eq_2 length_Suc_conv)

lemma value_type_layout: "value_type t \<Longrightarrow> \<exists>lay. mem_layout t = Inr lay"
proof (erule value_type_cases)
  fix u
  assume "t = TupleT [u, Bool]" "shape u \<noteq> None"
  with mem_layout_pair [of u] show ?thesis by blast
qed (auto simp: mem_layout_scalar mem_layout_pointer scalar_type_def)

lemma load_scalar_no_panic:
  assumes "scalar_type t \<or> is_ptr t \<or> (\<exists>sig. t = FnPtr sig)" "mem_layout t = Inr lay"
    and "start + unat (tl_size lay) \<le> length (al_bytes (m_allocations m ! i))"
    and "length (al_initialized (m_allocations m ! i)) = length (al_bytes (m_allocations m ! i))"
  shows "load_scalar i start t callable m \<noteq> Inl MemPanic"
proof -
  have size: "scalar_type t \<Longrightarrow> unat (tl_size lay) = scalar_bytes t"
    using assms(2) mem_layout_scalar [of t] by (auto simp: scalar_type_def scalar_layout_size)
  have pack: "shape t \<noteq> None \<or> float_type t \<Longrightarrow> \<exists>v. scalar_pack t w = Some v" for w
    using int_pack_value [of t _ _ w] by (cases t) (auto simp: scalar_pack_def float_type_def shape_def)
  have "length (slice start (start + 1) (al_bytes (m_allocations m ! i))) = 1"
    if "start + 1 \<le> length (al_bytes (m_allocations m ! i))" using that by (simp add: slice_def)
  then have bool: "t = Bool \<Longrightarrow> \<exists>b bs. slice start (start + unat (tl_size lay)) (al_bytes (m_allocations m ! i)) = b # bs"
    using size assms(3) by (auto simp: scalar_type_def scalar_bytes_def length_Suc_conv)
  show ?thesis
    using assms size scalar_bytes_le [of t] pack [of "from_le_bytes (slice start (start + unat (tl_size lay)) (al_bytes (m_allocations m ! i)))"] bool
    by (cases t) (auto simp: load_scalar_def Let_def or_panic_def scalar_type_def shape_def float_type_def
        mem_layout_pointer scalar_layout_def split: option.splits list.splits)
qed

lemma load_scalar_kind:
  assumes "load_scalar i start t callable m = Inr v" "scalar_type t"
  shows "\<exists>c. v = VScalar c \<and> (t = Bool \<longrightarrow> (\<exists>b. c = ConstBool b))"
  using assms by (cases t) (auto simp: load_scalar_def rbind_eq_Inr Let_def scalar_type_def shape_def float_type_def
      split: option.splits list.splits if_splits)

text \<open>The fields of a checked pair, read one after the other.\<close>

lemma load_value_pair:
  assumes "mem_layout (TupleT [u, Bool]) = Inr lay" "shape u \<noteq> None"
  shows "load_value i start (TupleT [u, Bool]) sig lay m =
    rbind (load_scalar i start u None m) (\<lambda>a. rbind (load_scalar i (start + scalar_bytes u) Bool None m) (\<lambda>b.
    rbind (or_panic (value_scalar a)) (\<lambda>v. rbind (or_panic (value_boolean b)) (\<lambda>flag. Inr (VChecked v flag)))))"
proof -
  have "field_offsets lay = [0, of_nat (scalar_bytes u)]" using mem_layout_pair [OF assms(2)] assms(1) by auto
  moreover have "unat (of_nat (scalar_bytes u) :: u64) = scalar_bytes u" using scalar_bytes_le [of u] by (simp add: unat_of_nat_small)
  ultimately show ?thesis by (simp add: load_value_def or_panic_def get_def cong del: rbind_weak_cong)
qed

lemma mem_load_no_panic:
  assumes "mem_wf m" "value_type t"
  shows "mem_load p t align sig m \<noteq> Inl MemPanic"
proof -
  obtain lay where lay: "mem_layout t = Inr lay" using value_type_layout [OF assms(2)] by blast
  show ?thesis
  proof (cases "mem_access p (tl_size lay) align False m")
    case (Inl e)
    with lay mem_access_no_panic [of p "tl_size lay" align False m] show ?thesis by (auto simp: mem_load_def)
  next
    case (Inr r)
    obtain i start stop where r: "r = (i, start, stop)" by (cases r)
    from Inr r obtain i: "i < length (m_allocations m)" and stop: "stop = start + unat (tl_size lay)"
      "stop \<le> length (al_bytes (m_allocations m ! i))" by (auto elim: mem_accessE)
    have eq: "length (al_initialized (m_allocations m ! i)) = length (al_bytes (m_allocations m ! i))"
      using mem_wf_al [OF assms(1) i] by (simp add: al_wf_def)
    have "load_value i start t sig lay m \<noteq> Inl MemPanic"
      using assms(2)
    proof (cases rule: value_type_cases)
      case (pair u)
      have inside: "start + (scalar_bytes u + 1) \<le> length (al_bytes (m_allocations m ! i))"
        using mem_layout_pair [OF pair(2)] lay pair(1) stop by auto
      have u: "scalar_type u" "scalar_type Bool" using pair(2) by (simp_all add: scalar_type_def)
      have "mem_layout u = Inr (scalar_layout (of_nat (scalar_bytes u)) (of_nat (scalar_bytes u)))"
        using pair(2) by (intro mem_layout_scalar) simp
      then have "load_scalar i start u None m \<noteq> Inl MemPanic"
        using u(1) inside eq by (intro load_scalar_no_panic) (auto simp: scalar_layout_size)
      moreover have "load_scalar i (start + scalar_bytes u) Bool None m \<noteq> Inl MemPanic"
        using u(2) inside eq by (intro load_scalar_no_panic [OF _ mem_layout_Bool]) (auto simp: scalar_layout_def)
      ultimately show ?thesis
        unfolding pair(1) load_value_pair [OF lay [unfolded pair(1)] pair(2)]
        by (auto simp: rbind_eq_Inl or_panic_def dest!: load_scalar_kind [OF _ u(1)] load_scalar_kind [OF _ u(2)])
    qed (use load_scalar_no_panic [OF _ lay, of start m i sig] stop eq in \<open>auto simp: load_value_def scalar_type_def shape_def float_type_def split: ty.splits\<close>)
    then show ?thesis unfolding mem_load_value [OF lay Inr [unfolded r]] by (auto simp: rbind_eq_Inl no_panic)
  qed
qed

lemma storable_encodes:
  assumes "storable t v" "mem_layout t = Inr lay"
  shows "\<exists>r. encode_store t v start lay = Inr r"
proof (cases v)
  case (VScalar c)
  then have t: "t = Bool \<or> shape t \<noteq> None \<or> float_type t" and c: "valid_constant t c" using assms(1) by (auto simp: storable_def)
  have "\<exists>bits. scalar_raw t c = Some bits"
    using t c scalar_round_trip [of t c] by (cases "t = Bool") (auto simp: scalar_raw_def valid_constant_def int_raw_def split: const_value.splits float_bits.splits)
  moreover have "encode_store t v start lay = encode_value t v start"
    using t VScalar by (cases t) (simp_all add: encode_store_def shape_def float_type_def)
  ultimately show ?thesis using encode_scalar [OF t] VScalar by auto
next
  case (VChecked c flag)
  then obtain u where u: "t = TupleT [u, Bool]" "shape u \<noteq> None" "valid_constant u c" using assms(1) by (auto simp: storable_def)
  from scalar_round_trip [of u c] u obtain bits where bits: "scalar_raw u c = Some bits" by auto
  have "field_offsets lay = [0, of_nat (scalar_bytes u)]" using mem_layout_pair [OF u(2)] assms(2) u(1) by auto
  with VChecked u encode_scalar [OF _ bits] show ?thesis by (simp add: encode_store_def or_panic_def get_def encode_Bool)
next
  case (VPointer p)
  then show ?thesis using assms encode_pointer(1) [of t p start]
    by (cases t) (auto simp: storable_def encode_store_def mem_layout_pointer)
next
  case (VFunction f)
  then show ?thesis using assms encode_pointer(2) [of t f start]
    by (cases t) (auto simp: storable_def encode_store_def mem_layout_pointer)
qed

lemma write_bytes_no_panic:
  assumes "\<forall>k\<in>fst ` set bytes. k < length (al_bytes al)" "length (al_initialized al) = length (al_bytes al)"
  shows "foldR write_byte bytes al \<noteq> Inl MemPanic"
  using assms
proof (induction bytes arbitrary: al)
  case (Cons x bytes)
  obtain k b where x: "x = (k, b)" by (cases x)
  let ?al = "al\<lparr>al_bytes := (al_bytes al)[k := b], al_initialized := (al_initialized al)[k := 1]\<rparr>"
  have "write_byte x al = Inr ?al" using Cons.prems x by (simp add: write_byte_def)
  moreover have "foldR write_byte bytes ?al \<noteq> Inl MemPanic" using Cons.prems by (intro Cons.IH) auto
  ultimately show ?case by simp
qed simp

lemma storable_value_type: "storable t v \<Longrightarrow> value_type t"
  by (cases v; cases t) (auto simp: storable_def scalar_type_def shape_def float_type_def)

lemma mem_store_no_panic:
  assumes "mem_wf m" "storable t v"
  shows "mem_store p t v align m \<noteq> Inl MemPanic"
proof
  assume bad: "mem_store p t v align m = Inl MemPanic"
  obtain lay where lay: "mem_layout t = Inr lay" using value_type_layout [OF storable_value_type [OF assms(2)]] by blast
  from bad lay no_panic obtain i start stop where acc: "mem_access p (tl_size lay) align True m = Inr (i, start, stop)"
    by (auto simp: mem_store_def rbind_eq_Inl)
  obtain bytes frags where enc: "encode_store t v start lay = Inr (bytes, frags)" using storable_encodes [OF assms(2) lay] by fastforce
  from bad acc enc lay obtain w m1 where c: "mem_charge w m = Inr m1"
    and r: "replace_fragments i start stop frags m1 = Inl MemPanic \<or>
      (\<exists>m2. replace_fragments i start stop frags m1 = Inr m2 \<and> foldR write_byte bytes (m_allocations m2 ! i) = Inl MemPanic)"
    by (auto simp: mem_store_def rbind_eq_Inl no_panic)
  from acc have stop: "stop = start + unat (tl_size lay)" by (rule mem_accessE)
  note ins = encode_store_inside [OF enc lay assms(2), folded stop]
  note p = write_reaches [OF assms(1) acc c conjunct2 [OF ins]]
  from r p(1) obtain m2 where m2: "replace_fragments i start stop frags m1 = Inr m2"
    "foldR write_byte bytes (m_allocations m2 ! i) = Inl MemPanic" by blast
  from p(2) [OF m2(1)] have "al_wf (m_allocations m2 ! i)" by (blast intro: mem_wf_al)
  with p(2) [OF m2(1)] m2(2) ins write_bytes_no_panic [of bytes "m_allocations m2 ! i"]
  show False by (fastforce simp: al_wf_def inside_def)
qed

subsubsection \<open>Frame\<close>

lemma load_value_same_inside:
  assumes "same_inside start (start + unat (tl_size lay)) (m_allocations m ! i) (m_allocations m' ! i)"
    and lay: "mem_layout t = Inr lay" and "value_type t"
  shows "load_value i start t sig lay m' = load_value i start t sig lay m"
  using assms(3)
proof (cases rule: value_type_cases)
  case (pair u)
  have size: "scalar_bytes u + 1 \<le> unat (tl_size lay)" using mem_layout_pair [OF pair(2)] lay pair(1) by auto
  have u: "mem_layout u = Inr (scalar_layout (of_nat (scalar_bytes u)) (of_nat (scalar_bytes u)))"
    using pair(2) by (intro mem_layout_scalar) simp
  have "same_inside start (start + unat (tl_size (scalar_layout (of_nat (scalar_bytes u)) (of_nat (scalar_bytes u)))))
      (m_allocations m ! i) (m_allocations m' ! i)"
    using size by (intro same_inside_mono [OF assms(1)]) (simp_all add: scalar_layout_size)
  moreover have "same_inside (start + scalar_bytes u) (start + scalar_bytes u + unat (tl_size (scalar_layout 1 1)))
      (m_allocations m ! i) (m_allocations m' ! i)"
    using size by (intro same_inside_mono [OF assms(1)]) (simp_all add: scalar_layout_def)
  ultimately show ?thesis
    unfolding pair(1) load_value_pair [OF lay [unfolded pair(1)] pair(2)]
    by (simp add: load_scalar_same_inside [OF _ u] load_scalar_same_inside [OF _ mem_layout_Bool] cong del: rbind_weak_cong)
qed (use load_scalar_same_inside [OF assms(1) lay] in
  \<open>auto simp: load_value_def scalar_type_def shape_def float_type_def split: ty.splits\<close>)

text \<open>The operations that write, each with the range it may change.\<close>

inductive mem_writes :: "pointer \<Rightarrow> u64 \<Rightarrow> memory \<Rightarrow> memory \<Rightarrow> bool" where
  w_set: "mem_set q byte n align m = Inr m' \<Longrightarrow> mem_writes q n m m'"
| w_uninit: "mem_uninit q n align m = Inr m' \<Longrightarrow> mem_writes q n m m'"
| w_copy: "mem_copy q src n align m = Inr m' \<Longrightarrow> mem_writes q n m m'"
| w_store: "mem_store q t v align m = Inr m' \<Longrightarrow> storable t v \<Longrightarrow> mem_layout t = Inr lay \<Longrightarrow>
    mem_writes q (tl_size lay) m m'"

lemma mem_writes_written:
  assumes "mem_writes q n m m'" "mem_wf m"
  shows "m' = m \<or> (\<exists>align i start stop. mem_access q n align True m = Inr (i, start, stop) \<and> written i start stop m m')"
  using assms
proof (induction rule: mem_writes.induct)
  case (w_set q byte n align m m')
  then show ?case
    by (cases "n = 0") (simp add: mem_set_def, auto elim: mem_set_result)
next
  case (w_uninit q n align m m')
  then show ?case by (auto elim: mem_uninit_result)
next
  case (w_copy q src n align m m')
  then show ?case by (cases "n = 0") (simp add: mem_copy_def, auto elim: mem_copy_result)
next
  case (w_store q t v align m m' lay)
  then show ?case by (auto elim: mem_store_result)
qed

definition ranges_apart :: "pointer \<Rightarrow> u64 \<Rightarrow> pointer \<Rightarrow> u64 \<Rightarrow> bool" where
  "ranges_apart p n q k \<longleftrightarrow>
     unat (ptr_address p) + unat n \<le> unat (ptr_address q) \<or> unat (ptr_address q) + unat k \<le> unat (ptr_address p)"

lemma written_same_inside:
  assumes "written i a b m m'" "mem_access q k al True m = Inr (i, a, b)"
    and "mem_access p n al' False m = Inr (j, start, stop)" "ranges_apart p n q k"
  shows "same_inside start stop (m_allocations m ! j) (m_allocations m' ! j)"
proof -
  from assms(1) obtain x where x: "m_allocations m' = (m_allocations m)[i := x]" "same_outside a b (m_allocations m ! i) x"
    by (auto simp: written_def)
  from assms(2) obtain capq where q: "mem_identity q m = Inr (i, capq)" "a = unat (cap_offset capq)" "b = a + unat k"
    "i < length (m_allocations m)" by (rule mem_accessE)
  from assms(3) obtain capp where p: "mem_identity p m = Inr (j, capp)" "start = unat (cap_offset capp)" "stop = start + unat n"
    by (rule mem_accessE)
  show ?thesis
  proof (cases "j = i")
    case True
    have "unat (ptr_address q) = unat (al_address (m_allocations m ! i)) + a" using q by (auto elim: mem_identityE)
    moreover have "unat (ptr_address p) = unat (al_address (m_allocations m ! i)) + start" using p True by (auto elim: mem_identityE)
    ultimately have "stop \<le> a \<or> b \<le> start" using assms(4) p(3) q(3) by (auto simp: ranges_apart_def)
    then have "\<forall>k. inside start stop k \<longrightarrow> \<not> inside a b k" by (auto simp: inside_def)
    with True x q(4) show ?thesis by (simp add: same_inside_def same_outside_def)
  next
    case False
    with x show ?thesis by (simp add: same_inside_def)
  qed
qed

subsubsection \<open>Lifetime\<close>

definition dead :: "usize \<Rightarrow> memory \<Rightarrow> bool" where
  "dead i m \<longleftrightarrow> i < length (m_allocations m) \<and> \<not> al_alive (m_allocations m ! i)"

lemma dead_charge [simp]: "dead i (m\<lparr>m_work := w\<rparr>) = dead i m"
  by (simp add: dead_def)

lemma dead_set: "dead i m \<Longrightarrow> (al_alive al \<Longrightarrow> j \<noteq> i) \<Longrightarrow> dead i (set_allocation j al m)"
  by (cases "j = i") (auto simp: dead_def set_allocation_def)

lemma dead_written: "written j start stop m m' \<Longrightarrow> dead i m \<Longrightarrow> dead i m'"
  by (cases "j = i") (auto simp: written_def dead_def same_outside_def)

lemma dead_retire: "dead i m \<Longrightarrow> dead i (retire_allocation j m)" "dead i m \<Longrightarrow> dead i (retire_stack_allocation j m)"
  by (cases "j = i"; simp add: retire_stack_allocation_def retire_allocation_def Let_def set_allocation_def dead_def)+

lemma dead_retire_fold: "dead i m \<Longrightarrow> dead i (fold retire_stack_allocation js m)"
  by (induction js arbitrary: m) (simp_all add: dead_retire)

lemma mem_writes_dead: "mem_writes q n m m' \<Longrightarrow> mem_wf m \<Longrightarrow> dead i m \<Longrightarrow> dead i m'"
  by (auto dest!: mem_writes_written intro: dead_written)

lemma mem_allocate_dead:
  assumes "mem_allocate sz natural align m = Inr (p, m')" "is_power_of_two (max align natural)" "dead i m"
  shows "dead i m'"
  by (rule mem_allocateE [OF assms(1,2)]) (use assms(3) in \<open>simp add: dead_def nth_append\<close>)

lemma mem_allocate_globalE:
  assumes "mem_allocate_global sz natural align m = Inr (p, m')"
  obtains a m1 cap al where "mem_allocate sz natural align m = Inr (a, m1)"
    "get (m_allocations m1) (cap_allocation (cap :: capability)) = Some al"
    "m' = set_allocation (cap_allocation cap) (al\<lparr>al_kind := GlobalAllocation\<rparr>) m1"
proof -
  from assms obtain a m1 where m1: "mem_allocate sz natural align m = Inr (a, m1)"
    and rest: "(case ptr_capability a of None \<Rightarrow> Inl MemPanic | Some cap \<Rightarrow>
      (case get (m_allocations m1) (cap_allocation cap) of None \<Rightarrow> Inl MemPanic
       | Some al \<Rightarrow> Inr (a, set_allocation (cap_allocation cap) (al\<lparr>al_kind := GlobalAllocation\<rparr>) m1))) = Inr (p, m')"
    unfolding mem_allocate_global_def rbind_eq_Inr by auto
  from rest obtain cap where cap: "ptr_capability a = Some cap" by (cases "ptr_capability a") auto
  with rest obtain al where al: "get (m_allocations m1) (cap_allocation cap) = Some al"
    and m': "m' = set_allocation (cap_allocation cap) (al\<lparr>al_kind := GlobalAllocation\<rparr>) m1"
    by (cases "get (m_allocations m1) (cap_allocation cap)") auto
  with m1 show thesis by (rule that)
qed

lemma mem_step_dead: "mem_step m m' \<Longrightarrow> mem_wf m \<Longrightarrow> dead i m \<Longrightarrow> dead i m'"
proof (induction rule: mem_step.induct)
  case (allocate align natural sz m p m')
  then show ?case by (blast intro: mem_allocate_dead)
next
  case (allocate_global align natural sz m p m')
  then obtain a m1 cap al where m1: "mem_allocate sz natural align m = Inr (a, m1)"
    and al: "get (m_allocations m1) (cap_allocation (cap :: capability)) = Some al"
    and m': "m' = set_allocation (cap_allocation cap) (al\<lparr>al_kind := GlobalAllocation\<rparr>) m1"
    by (elim mem_allocate_globalE)
  have "dead i m1" using m1 allocate_global(1,4) by (rule mem_allocate_dead)
  then show ?case unfolding m' using al by (intro dead_set) (auto simp: get_def dead_def split: if_splits)
next
  case (seal_global p readonly m q m')
  then show ?case
    by (auto simp: mem_seal_global_def rbind_eq_Inr Let_def intro!: dead_set split: if_splits) (simp add: dead_def)
next
  case (retire_stack p owner m m')
  then show ?case by (auto simp: mem_retire_stack_def rbind_eq_Inr Let_def mem_charge_Inr dead_retire split: if_splits)
next
  case (retire_from start m m')
  then show ?case by (auto simp: mem_retire_from_def rbind_eq_Inr mem_charge_Inr dead_retire_fold split: if_splits)
next
  case (uninit p sz align m m')
  then show ?case by (blast intro: mem_writes_dead mem_writes.intros)
next
  case (copy dst src sz align m m')
  then show ?case by (blast intro: mem_writes_dead mem_writes.intros)
next
  case (set_bytes dst byte sz align m m')
  then show ?case by (blast intro: mem_writes_dead mem_writes.intros)
next
  case (load p t align sig m v m')
  then show ?case by (auto dest!: mem_load_state simp: mem_charge_Inr)
next
  case (store t v p align m m')
  then obtain lay where "mem_layout t = Inr lay" by (auto simp: mem_store_def rbind_eq_Inr)
  with store show ?case by (blast intro: mem_writes_dead mem_writes.intros)
qed

lemma mem_steps_dead: "mem_step\<^sup>*\<^sup>* m m' \<Longrightarrow> mem_wf m \<Longrightarrow> dead i m \<Longrightarrow> dead i m' \<and> mem_wf m'"
  by (induction rule: rtranclp_induct) (auto intro: mem_step_wf mem_step_dead)

lemma dead_identity:
  assumes "dead i m" "ptr_capability q = Some cap" "cap_allocation cap = i" "ptr_address q \<noteq> 0"
  shows "mem_identity q m = Inl (MemTrap ExpiredAllocation)"
  using assms by (auto simp: dead_def mem_identity_def get_def)

text \<open>Ending a lifetime, of one object or of the objects of a frame.\<close>

inductive ends_lifetime :: "usize \<Rightarrow> memory \<Rightarrow> memory \<Rightarrow> bool" where
  end_object: "mem_retire_stack p owner m = Inr m' \<Longrightarrow> ptr_capability p = Some cap \<Longrightarrow>
    ends_lifetime (cap_allocation cap) m m'"
| end_frame: "mem_retire_from start m = Inr m' \<Longrightarrow> start \<le> i \<Longrightarrow> i < length (m_allocations m) \<Longrightarrow>
    al_kind (m_allocations m ! i) = StackAllocation \<Longrightarrow> ends_lifetime i m m'"

lemma retire_allocation_dead: "i < length (m_allocations m) \<Longrightarrow> dead i (retire_allocation i m)"
  by (simp add: retire_allocation_def dead_def Let_def set_allocation_def)

lemma retire_fold_dead:
  "i \<in> set js \<Longrightarrow> i < length (m_allocations m) \<Longrightarrow> al_kind (m_allocations m ! i) = StackAllocation \<Longrightarrow>
   dead i (fold retire_stack_allocation js m)"
proof (induction js arbitrary: m)
  case (Cons j js)
  have kind: "al_kind (m_allocations (retire_stack_allocation j m) ! i) = al_kind (m_allocations m ! i)"
    using Cons.prems(2)
    by (cases "j = i") (simp_all add: retire_stack_allocation_def retire_allocation_def Let_def set_allocation_def)
  show ?case
  proof (cases "j = i")
    case True
    then have "dead i (retire_stack_allocation j m)"
      using Cons.prems by (simp add: retire_stack_allocation_def retire_allocation_dead)
    then show ?thesis by (simp add: dead_retire_fold)
  next
    case False
    with Cons.prems kind show ?thesis by (auto intro: Cons.IH)
  qed
qed simp

lemma ends_lifetime_dead: "ends_lifetime i m m' \<Longrightarrow> dead i m'"
proof (induction rule: ends_lifetime.induct)
  case (end_object p owner m m' cap)
  then obtain j c w m1 where id: "mem_identity p m = Inr (j, c)" and m1: "mem_charge w m = Inr m1"
    and m': "m' = retire_allocation j m1"
    by (auto simp: mem_retire_stack_def rbind_eq_Inr Let_def split: if_splits)
  from id obtain "j < length (m_allocations m)" "ptr_capability p = Some c" "j = cap_allocation c" by (rule mem_identityE)
  with end_object(2) m1 m' show ?case by (auto simp: mem_charge_Inr retire_allocation_dead)
next
  case (end_frame start m m' i)
  then show ?case by (auto simp: mem_retire_from_def rbind_eq_Inr mem_charge_Inr intro!: retire_fold_dead split: if_splits)
qed

lemma mem_writes_limits: "mem_writes q n m m' \<Longrightarrow> mem_wf m \<Longrightarrow> m_limits m' = m_limits m"
  by (auto dest!: mem_writes_written simp: written_def)

lemma retire_limits [simp]: "m_limits (retire_allocation i m) = m_limits m" "m_limits (retire_stack_allocation i m) = m_limits m"
  by (simp_all add: retire_allocation_def retire_stack_allocation_def set_allocation_def Let_def)

lemma retire_fold_limits: "m_limits (fold retire_stack_allocation js m) = m_limits m"
  by (induction js arbitrary: m) simp_all

lemma mem_allocate_limits: "mem_allocate sz natural align m = Inr (p, m') \<Longrightarrow> m_limits m' = m_limits m"
  by (auto simp: mem_allocate_def rbind_eq_Inr Let_def mem_charge_Inr split: if_splits)

lemma mem_step_limits: "mem_step m m' \<Longrightarrow> mem_wf m \<Longrightarrow> m_limits m' = m_limits m"
proof (induction rule: mem_step.induct)
  case (allocate align natural sz m p m')
  then show ?case by (simp add: mem_allocate_limits)
next
  case (allocate_global align natural sz m p m')
  then show ?case by (auto simp: set_allocation_def mem_allocate_limits elim!: mem_allocate_globalE)
next
  case (seal_global p readonly m q m')
  then show ?case by (auto simp: mem_seal_global_def rbind_eq_Inr Let_def set_allocation_def split: if_splits)
next
  case (retire_stack p owner m m')
  then show ?case by (auto simp: mem_retire_stack_def rbind_eq_Inr Let_def mem_charge_Inr split: if_splits)
next
  case (retire_from start m m')
  then show ?case by (auto simp: mem_retire_from_def rbind_eq_Inr mem_charge_Inr retire_fold_limits split: if_splits)
next
  case (load p t align sig m v m')
  then show ?case by (auto dest!: mem_load_state simp: mem_charge_Inr)
next
  case (store t v p align m m')
  then obtain lay where "mem_layout t = Inr lay" by (auto simp: mem_store_def rbind_eq_Inr)
  with store show ?case by (blast intro: mem_writes_limits mem_writes.intros)
qed (blast intro: mem_writes_limits mem_writes.intros)+

lemma mem_reachable_limits: "mem_reachable arena limits h m \<Longrightarrow> m_limits m = limits"
  by (induction rule: mem_reachable.induct) (auto simp: memory_new_def mem_step_limits mem_reachable_wf)

subsection \<open>Properties\<close>

text \<open>C29. Every memory the interpreter can reach respects its budgets, keeps one initialisation mark
  per byte, tracks pointer fragments only inside their allocation and counts them exactly, and
  places allocations apart from each other and above the null page.\<close>

theorem memory_invariant:
  assumes "mem_reachable arena limits h m"
  shows "m_limits m = limits \<and> m_work m \<le> max_work limits \<and> m_bytes m \<le> max_bytes limits \<and>
    length (m_allocations m) \<le> max_allocations limits \<and> m_fragments m \<le> max_pointer_fragments limits \<and>
    m_fragments m = (\<Sum>al\<leftarrow>m_allocations m. length (al_fragments al)) \<and>
    (\<forall>al\<in>set (m_allocations m). length (al_initialized al) = length (al_bytes al) \<and>
       (\<forall>(k, f)\<in>set (al_fragments al). k < length (al_bytes al)) \<and> 4096 \<le> unat (al_address al)) \<and>
    (\<forall>i j. i < j \<and> j < length (m_allocations m) \<longrightarrow>
       unat (al_address (m_allocations m ! i)) + length (al_bytes (m_allocations m ! i))
         < unat (al_address (m_allocations m ! j)))"
proof -
  have wf: "mem_wf m" by (rule mem_reachable_wf [OF assms])
  have lim: "m_limits m = limits" by (rule mem_reachable_limits [OF assms])
  have "\<forall>al\<in>set (m_allocations m). 4096 \<le> unat (al_address al)"
    using wf by (auto simp: mem_wf_def apart_def in_set_conv_nth)
  moreover have "al_end a < n \<Longrightarrow> unat (al_address a) + length (al_bytes a) < n" for a n by (simp add: al_end_def)
  moreover have "\<forall>i j. i < j \<and> j < length (m_allocations m) \<longrightarrow>
      al_end (m_allocations m ! i) < unat (al_address (m_allocations m ! j))"
    using wf by (simp add: mem_wf_def apart_def)
  moreover have "\<forall>al\<in>set (m_allocations m). al_wf al" using wf by (simp add: mem_wf_def)
  ultimately show ?thesis using wf lim by (fastforce simp: mem_wf_def frag_count_def al_wf_def)
qed


text \<open>C31. Typed storage round trip: a value stored through a pointer that may also be read is loaded
  back unchanged, capability and callable authority included, at the price of its size in
  work.\<close>

theorem store_load_round_trip:
  assumes "mem_reachable arena limits h m" "mem_store p t v align m = Inr m'" "canonical t v" "mem_layout t = Inr lay"
    and "mem_access p (tl_size lay) align False m = Inr r" "\<forall>s. callable = Some s \<longrightarrow> t = FnPtr s"
  shows "mem_load p t align callable m' = rbind (mem_charge (tl_size lay) m') (\<lambda>m''. Inr (v, m''))"
proof -
  have wf: "mem_wf m" by (rule mem_reachable_wf [OF assms(1)])
  have st: "storable t v" using assms(3) by (simp add: canonical_def)
  obtain i start stop where acc: "mem_access p (tl_size lay) align True m = Inr (i, start, stop)"
    and w: "written i start stop m m'" using assms(2) st wf assms(4) by (rule mem_store_result)
  have "r = (i, start, stop)"
    using acc assms(5) by (auto simp: mem_access_def rbind_eq_Inr Let_def split: if_splits)
  then have "mem_access p (tl_size lay) align False m' = Inr (i, start, stop)"
    using assms(5) by (simp add: written_access [OF w])
  with mem_store_stored [OF assms(2) st wf assms(4) acc] assms(3,4,6) show ?thesis by (intro mem_load_stored)
qed


text \<open>C33. No operation on a reachable memory hits an index, slice or \<open>unwrap\<close> panic, for the
  types and values the interpreter passes.\<close>

theorem memory_never_panics:
  assumes "mem_reachable arena limits h m"
  shows "mem_allocate sz natural align m \<noteq> Inl MemPanic \<and>
    (is_power_of_two (max align natural) \<longrightarrow> mem_allocate_global sz natural align m \<noteq> Inl MemPanic) \<and>
    mem_seal_global p readonly m \<noteq> Inl MemPanic \<and> mem_retire_stack p owner m \<noteq> Inl MemPanic \<and>
    (owner \<le> length (m_allocations m) \<longrightarrow> mem_retire_from owner m \<noteq> Inl MemPanic) \<and>
    mem_set p byte sz align m \<noteq> Inl MemPanic \<and> mem_uninit p sz align m \<noteq> Inl MemPanic \<and>
    mem_copy p q sz align m \<noteq> Inl MemPanic \<and> mem_difference p q m \<noteq> Inl MemPanic \<and> mem_equal p q m \<noteq> Inl MemPanic \<and>
    ((\<forall>v\<in>set indices. integer_index v) \<longrightarrow> mem_gep p plan indices m \<noteq> Inl MemPanic) \<and>
    (value_type t \<longrightarrow> mem_load p t align sig m \<noteq> Inl MemPanic) \<and>
    (storable t v \<longrightarrow> mem_store p t v align m \<noteq> Inl MemPanic)"
  using mem_reachable_wf [OF assms]
  by (simp add: mem_allocate_no_panic mem_allocate_global_no_panic mem_seal_global_no_panic mem_retire_stack_no_panic
      mem_retire_from_no_panic mem_set_no_panic mem_uninit_no_panic mem_copy_no_panic mem_difference_no_panic
      mem_equal_no_panic mem_gep_no_panic mem_load_no_panic mem_store_no_panic)

subsection \<open>Witnesses\<close>

text \<open>A memory with one four-byte object, and the same after a store of 7.\<close>

definition example_host :: host where
  "example_host = \<lparr>host_reserve = \<lambda>_. True, host_grow = \<lambda>capacity needed. max capacity needed\<rparr>"

definition example_memory :: memory where
  "example_memory = memory_new 5 memory_limits_default example_host"

definition example_pointer :: pointer where
  "example_pointer = \<lparr>ptr_address = 4096, ptr_capability = Some \<lparr>cap_arena = 5, cap_allocation = 0, cap_generation = 0,
     cap_lower = 0, cap_upper = 4, cap_offset = 0, cap_read = True, cap_write = True\<rparr>\<rparr>"

definition example_object :: memory where
  "example_object = example_memory\<lparr>m_allocations := [fresh_allocation 4096 4], m_bytes := 4, m_work := 9, m_next_address := 4101\<rparr>"

lemmas example_eval = example_memory_def example_pointer_def example_object_def example_host_def memory_new_def
  memory_limits_default_def fresh_allocation_def

lemma example_allocate: "mem_allocate 4 4 4 example_memory = Inr (example_pointer, example_object)"
  by (simp add: example_eval mem_allocate_def checked_add_def checked_mul_def mem_charge_def overflow_or_def Let_def)

lemma example_reachable: "mem_reachable 5 memory_limits_default example_host example_object"
proof -
  have "mem_reachable 5 memory_limits_default example_host example_memory"
    unfolding example_memory_def by (rule mem_reachable.start)
  moreover have "mem_step example_memory example_object"
    using example_allocate by (rule mem_step.allocate [rotated]) (auto simp: is_power_of_two_iff intro!: exI [of _ 2])
  ultimately show ?thesis by (rule mem_reachable.step)
qed

theorem memory_invariant_witness:
  "m_fragments example_object = (\<Sum>al\<leftarrow>m_allocations example_object. length (al_fragments al))"
  using memory_invariant [OF example_reachable] by blast

definition example_retired :: memory where
  "example_retired = example_object\<lparr>m_allocations :=
     [(fresh_allocation 4096 4)\<lparr>al_alive := False, al_bytes := [], al_initialized := []\<rparr>], m_work := 10\<rparr>"

lemma example_retire: "mem_retire_stack example_pointer 0 example_object = Inr example_retired"
  by (simp add: example_eval example_retired_def mem_retire_stack_def mem_identity_def get_def checked_add_def mem_charge_def
      retire_allocation_def set_allocation_def Let_def)


definition example_stored :: memory where
  "example_stored = example_object\<lparr>m_allocations :=
     [(fresh_allocation 4096 4)\<lparr>al_bytes := [7, 0, 0, 0], al_initialized := [1, 1, 1, 1]\<rparr>], m_work := 13\<rparr>"

lemma example_layout: "mem_layout I32 = Inr (scalar_layout 4 4)" "mem_layout U8 = Inr (scalar_layout 1 1)"
  by (simp_all add: mem_layout_scalar shape_def scalar_bytes_def)

lemma replicate_4: "replicate 4 x = [x, x, x, x]"
  by (simp add: numeral_eq_Suc)

lemma example_store: "mem_store example_pointer I32 (VScalar (ConstI 7)) 4 example_object = Inr example_stored"
proof -
  have "to_le_bytes 4 (7 :: u128) = [7, 0, 0, 0]" by (simp add: to_le_bytes_def upt_rec)
  then have "encode_store I32 (VScalar (ConstI 7)) 0 (scalar_layout 4 4) = Inr ([(0, 7), (1, 0), (2, 0), (3, 0)], [])"
    by (simp add: encode_store_def encode_value_def example_layout scalar_layout_def scalar_raw_def int_raw_def shape_bits_def
        shape_def int_mask_def or_panic_def Let_def upt_rec)
  then show ?thesis
    by (simp add: example_eval example_stored_def mem_store_def example_layout mem_access_def mem_identity_def get_def
        checked_add_def overflow_or_def mem_charge_def replace_fragments_def usize_sub_def set_allocation_def Let_def
        scalar_layout_def write_byte_def replicate_4)
qed

theorem store_load_round_trip_witness:
  "\<exists>m''. mem_load example_pointer I32 4 None example_stored = Inr (VScalar (ConstI 7), m'')"
proof -
  have "canonical I32 (VScalar (ConstI 7))"
    by (simp add: canonical_def storable_def shape_def valid_constant_def fits_signed_def)
  moreover have "mem_access example_pointer 4 4 False example_object = Inr (0, 0, 4)"
    by (simp add: example_eval mem_access_def mem_identity_def get_def checked_add_def overflow_or_def Let_def)
  moreover have "mem_charge 4 example_stored = Inr (example_stored\<lparr>m_work := 17\<rparr>)"
    by (simp add: example_eval example_stored_def mem_charge_def checked_add_def)
  ultimately show ?thesis
    using store_load_round_trip [OF example_reachable example_store _ example_layout(1), of "(0, 0, 4)" None]
    by (simp add: scalar_layout_def)
qed

lemma example_stored_reachable: "mem_reachable 5 memory_limits_default example_host example_stored"
  by (rule mem_reachable.step [OF example_reachable mem_step.store [OF _ example_store]])
    (simp add: storable_def shape_def valid_constant_def fits_signed_def)

definition example_third :: pointer where
  "example_third = \<lparr>ptr_address = 4098, ptr_capability = Some \<lparr>cap_arena = 5, cap_allocation = 0, cap_generation = 0,
     cap_lower = 0, cap_upper = 4, cap_offset = 2, cap_read = True, cap_write = True\<rparr>\<rparr>"

definition example_filled :: memory where
  "example_filled = example_stored\<lparr>m_allocations :=
     [(fresh_allocation 4096 4)\<lparr>al_bytes := [7, 0, 9, 0], al_initialized := [1, 1, 1, 1]\<rparr>], m_work := 15\<rparr>"

lemma example_fill: "mem_set example_third 9 1 1 example_stored = Inr example_filled"
  by (simp add: example_eval example_stored_def example_third_def example_filled_def mem_set_def mem_access_def mem_identity_def
      get_def checked_add_def checked_mul_def overflow_or_def mem_charge_def replace_fragments_def usize_sub_def set_allocation_def
      Let_def write_slices_def fill_slice_def or_panic_def overwrite_def)

lemma example_load: "mem_load example_pointer U8 1 None example_stored = Inr (VScalar (ConstU 7), example_stored\<lparr>m_work := 14\<rparr>)"
  by (simp add: example_eval example_stored_def mem_load_def load_scalar_def example_layout scalar_layout_def mem_access_def
      mem_identity_def get_def checked_add_def overflow_or_def mem_charge_def Let_def slice_def scalar_pack_def int_pack_def
      shape_def int_mask_def or_panic_def from_le_bytes_def upt_rec)


theorem memory_never_panics_witness:
  "mem_store example_pointer I32 (VScalar (ConstI 7)) 4 example_object \<noteq> Inl MemPanic \<and>
   mem_load example_pointer I32 4 None example_object \<noteq> Inl MemPanic"
  using memory_never_panics [OF example_reachable, of 0 0 4 example_pointer False 0 0 example_pointer "[]" "[]" I32 None "VScalar (ConstI 7)"]
  by (simp add: storable_def scalar_type_def shape_def valid_constant_def fits_signed_def)

end
