(* ===== verification/IrFloatRounding.thy ===== *)
theory IrFloatRounding
  imports IrFloat
begin

text \<open>
  What the storage bits of a floating-point number denote, and what it means for a result to
  be correctly rounded.  The bits are read by their IEEE fields, independently of the code
  that unpacks them; rounding to nearest, ties to even, is stated on real numbers.  The lemmas
  on packing and unpacking are proved once for any format of the family and used for half,
  single and double precision.
\<close>

subsection \<open>Fields and values\<close>

definition fl_sign :: "float_format \<Rightarrow> float_bits \<Rightarrow> bool" where
  "fl_sign f v = bit (float_raw v) (fmt_width f - 1)"

definition fl_expo :: "float_format \<Rightarrow> float_bits \<Rightarrow> int" where
  "fl_expo f v = uint (take_bit (fmt_width f - 1 - fmt_fraction f) (drop_bit (fmt_fraction f) (float_raw v)))"

definition fl_frac :: "float_format \<Rightarrow> float_bits \<Rightarrow> int" where
  "fl_frac f v = uint (take_bit (fmt_fraction f) (float_raw v))"

definition fl_finite :: "float_format \<Rightarrow> float_bits \<Rightarrow> bool" where
  "fl_finite f v \<longleftrightarrow> fl_expo f v < 2 * fmt_bias f + 1"

definition fl_is_nan :: "float_format \<Rightarrow> float_bits \<Rightarrow> bool" where
  "fl_is_nan f v \<longleftrightarrow> fl_expo f v = 2 * fmt_bias f + 1 \<and> fl_frac f v \<noteq> 0"

definition fl_is_inf :: "float_format \<Rightarrow> float_bits \<Rightarrow> bool" where
  "fl_is_inf f v \<longleftrightarrow> fl_expo f v = 2 * fmt_bias f + 1 \<and> fl_frac f v = 0"

text \<open>Subnormal numbers have the exponent of the smallest normal ones and no hidden bit.\<close>

definition fl_magnitude :: "float_format \<Rightarrow> float_bits \<Rightarrow> real" where
  "fl_magnitude f v =
     of_int ((if fl_expo f v = 0 then 0 else 2 ^ fmt_fraction f) + fl_frac f v) *
     2 powi (max (fl_expo f v) 1 - fmt_bias f - int (fmt_fraction f))"

definition fl_value :: "float_format \<Rightarrow> float_bits \<Rightarrow> real" where
  "fl_value f v = (if fl_sign f v then - fl_magnitude f v else fl_magnitude f v)"

subsection \<open>Rounding to nearest, ties to even\<close>

definition rne :: "real \<Rightarrow> int" where
  "rne y = (if 1 / 2 < frac y \<or> frac y = 1 / 2 \<and> odd \<lfloor>y\<rfloor> then \<lfloor>y\<rfloor> + 1 else \<lfloor>y\<rfloor>)"

text \<open>The exponent of the last place of \<open>x\<close> in a format without an upper bound on exponents,
  the rounded magnitude there, and the number it becomes: an infinity when it is too
  large.\<close>

definition fl_quantum :: "float_format \<Rightarrow> real \<Rightarrow> int" where
  "fl_quantum f x = max (\<lfloor>log 2 x\<rfloor> - int (fmt_fraction f)) (1 - fmt_bias f - int (fmt_fraction f))"

definition fl_round :: "float_format \<Rightarrow> real \<Rightarrow> real" where
  "fl_round f x = of_int (rne (x / 2 powi fl_quantum f x)) * 2 powi fl_quantum f x"

definition rounds_to :: "float_format \<Rightarrow> bool \<Rightarrow> real \<Rightarrow> float_bits \<Rightarrow> bool" where
  "rounds_to f negative x v \<longleftrightarrow>
     float_width v = fmt_width f \<and> fl_sign f v = negative \<and>
     (if fl_round f x < 2 powi (fmt_bias f + 1) then fl_finite f v \<and> fl_magnitude f v = fl_round f x
      else fl_is_inf f v)"

lemma rne_of_int [simp]: "rne (of_int n) = n"
  by (simp add: rne_def)

lemma rne_ge: "of_int n \<le> y \<Longrightarrow> n \<le> rne y"
  using le_floor_iff [of n y] by (auto simp: rne_def)

lemma rne_le:
  assumes "y \<le> of_int n"
  shows "rne y \<le> n"
proof (cases "y = of_int n")
  case False
  with assms have "\<lfloor>y\<rfloor> < n" by (simp add: floor_less_iff)
  then show ?thesis by (simp add: rne_def)
qed simp

lemma rne_div:
  fixes v :: int
  shows "rne (of_int v / 2 ^ k) = v div 2 ^ k + of_bool (2 ^ k < 2 * (v mod 2 ^ k) \<or> 2 * (v mod 2 ^ k) = 2 ^ k \<and> odd (v div 2 ^ k))"
proof -
  let ?d = "(2 :: int) ^ k"
  have fl: "\<lfloor>of_int v / (2 :: real) ^ k\<rfloor> = v div ?d" using floor_divide_of_int_eq [of v ?d, where 'a = real] by simp
  have "(of_int v :: real) = of_int (v div ?d * ?d + v mod ?d)" by (simp only: div_mult_mod_eq)
  also have "\<dots> = of_int (v div ?d) * 2 ^ k + of_int (v mod ?d)" by (simp only: of_int_add of_int_mult of_int_power of_int_numeral)
  finally have "of_int v / (2 :: real) ^ k = of_int (v div ?d) + of_int (v mod ?d) / 2 ^ k" by (simp add: add_divide_distrib)
  then have fr: "frac (of_int v / (2 :: real) ^ k) = of_int (v mod ?d) / 2 ^ k" unfolding frac_def fl by simp
  have half: "1 / 2 < of_int (v mod ?d) / (2 :: real) ^ k \<longleftrightarrow> ?d < 2 * (v mod ?d)"
  proof -
    have "1 / 2 < of_int (v mod ?d) / (2 :: real) ^ k \<longleftrightarrow> (2 :: real) ^ k < 2 * of_int (v mod ?d)" by (simp add: field_simps)
    also have "\<dots> \<longleftrightarrow> (of_int ?d :: real) < of_int (2 * (v mod ?d))" by simp
    finally show ?thesis by (simp only: of_int_less_iff)
  qed
  have tie: "of_int (v mod ?d) / (2 :: real) ^ k = 1 / 2 \<longleftrightarrow> 2 * (v mod ?d) = ?d"
  proof -
    have "of_int (v mod ?d) / (2 :: real) ^ k = 1 / 2 \<longleftrightarrow> 2 * of_int (v mod ?d) = (2 :: real) ^ k" by (auto simp: field_simps)
    also have "\<dots> \<longleftrightarrow> (of_int (2 * (v mod ?d)) :: real) = of_int ?d" by simp
    finally show ?thesis by (simp only: of_int_eq_iff)
  qed
  show ?thesis unfolding rne_def fl fr half tie by auto
qed

text \<open>The rounding shift of the code is rounding to nearest, ties to even.\<close>

lemma drop_bit_uint: "uint (drop_bit k w) = uint w div 2 ^ k"
proof -
  have "uint (drop_bit k w) = drop_bit k (uint w)"
    by (rule bit_eqI) (auto simp: bit_simps dest: bit_imp_le_length)
  then show ?thesis by (simp add: drop_bit_eq_div)
qed

lemma take_bit_uint: "uint (take_bit k w) = uint w mod 2 ^ k"
  unfolding unsigned_take_bit_eq by (simp add: take_bit_eq_mod)

lemma uint_power_of_two: "n < LENGTH('a) \<Longrightarrow> uint (2 ^ n :: 'a::len word) = 2 ^ n"
  using unat_power_of_two [where 'a = 'a, of n] by (metis of_nat_numeral of_nat_power uint_nat)

lemma uint_lt_128: "uint (w :: u128) < 2 ^ 128"
  using unsigned_less [of w, where 'a = int] by simp

lemma float_round_small:
  assumes "0 < k" "k < 128"
  shows "uint (float_round w k) = rne (of_int (uint w) / 2 ^ k)"
proof -
  have mask: "w AND (push_bit k 1 - 1) = take_bit k w"
    by (simp add: take_bit_eq_mask mask_eq_decr_exp push_bit_eq_mult)
  have odd: "drop_bit k w AND 1 \<noteq> 0 \<longleftrightarrow> odd (uint w div 2 ^ k)"
  proof -
    have "drop_bit k w AND 1 \<noteq> 0 \<longleftrightarrow> bit w k" by (simp add: and_one_eq mod_2_eq_odd bit_iff_odd_drop_bit)
    also have "\<dots> \<longleftrightarrow> bit (uint w) k" using assms by (simp add: bit_uint_iff)
    finally show ?thesis by (simp add: bit_iff_odd)
  qed
  have half: "uint (push_bit (k - 1) 1 :: u128) = 2 ^ (k - 1)"
    using assms by (simp add: push_bit_eq_mult uint_power_of_two)
  have two: "(2 :: int) ^ k = 2 * 2 ^ (k - 1)" using assms by (cases k) auto
  have cmp: "push_bit (k - 1) 1 < take_bit k w \<longleftrightarrow> 2 ^ k < 2 * (uint w mod 2 ^ k)"
    unfolding word_less_def half take_bit_uint two by simp
  have tie: "take_bit k w = push_bit (k - 1) 1 \<longleftrightarrow> 2 * (uint w mod 2 ^ k) = 2 ^ k"
    unfolding word_uint_eq_iff half take_bit_uint two by simp
  have "uint w div 2 ^ k < 2 ^ (128 - k)"
  proof (rule ccontr)
    assume "\<not> uint w div 2 ^ k < 2 ^ (128 - k)"
    then have "(2 :: int) ^ (128 - k) * 2 ^ k \<le> uint w div 2 ^ k * 2 ^ k" by (intro mult_right_mono) auto
    also have "\<dots> \<le> uint w" by (simp add: minus_mod_eq_div_mult [symmetric])
    finally show False using uint_lt_128 [of w] assms by (simp flip: power_add)
  qed
  moreover have "(2 :: int) ^ (128 - k) \<le> 2 ^ 127" using assms by (intro power_increasing) auto
  ultimately have "uint (drop_bit k w) + 1 < 2 ^ LENGTH(128)" by (simp add: drop_bit_uint)
  then have add: "uint (drop_bit k w + of_bool b) = uint w div 2 ^ k + of_bool b" for b
    using uint_add_lem [of "drop_bit k w" "1 :: u128"] by (cases b) (simp_all add: drop_bit_uint)
  have "float_round w k = drop_bit k w + of_bool (push_bit (k - 1) 1 < w AND (push_bit k 1 - 1) \<or>
      w AND (push_bit k 1 - 1) = push_bit (k - 1) 1 \<and> drop_bit k w AND 1 \<noteq> 0)"
    using assms by (simp add: float_round_def Let_def)
  then show ?thesis by (simp only: mask cmp tie odd add rne_div)
qed

lemma float_round_rne:
  assumes "0 < k"
  shows "uint (float_round w k) = rne (of_int (uint w) / 2 ^ k)"
proof (cases "k < 128")
  case False
  have w: "0 \<le> uint w" "uint w < 2 ^ 128" using uint_lt_128 by simp_all
  show ?thesis
  proof (cases "k = 128")
    case True
    have "uint (push_bit 127 1 :: u128) = 2 ^ 127" by simp
    then have "push_bit 127 1 < w \<longleftrightarrow> 2 ^ 128 < 2 * uint w" by (simp add: word_less_def)
    moreover have "uint w div 2 ^ 128 = 0" "uint w mod 2 ^ 128 = uint w" using w by simp_all
    ultimately show ?thesis using True unfolding rne_div by (simp add: float_round_def)
  next
    case k: False
    with False have "128 < k" by simp
    then have "(2 :: int) * 2 ^ 128 \<le> 2 ^ k" using power_increasing [of 129 k "2 :: int"] by simp
    with w have "uint w div 2 ^ k = 0" "uint w mod 2 ^ k = uint w" "\<not> 2 ^ k < 2 * uint w" "2 * uint w \<noteq> 2 ^ k" by auto
    with \<open>128 < k\<close> show ?thesis unfolding rne_div by (simp add: float_round_def)
  qed
qed (rule float_round_small [OF assms])

lemma floor_log_powi:
  assumes "2 powi k \<le> x" "x < 2 powi (k + 1)"
  shows "\<lfloor>log 2 x\<rfloor> = k"
proof (rule floor_unique)
  have pos: "0 < x" using assms(1) by (rule less_le_trans [rotated]) simp
  have p: "(2 :: real) powr of_int n = 2 powi n" for n by (simp add: powr_real_of_int')
  show "of_int k \<le> log 2 x" using assms(1) pos by (simp add: le_log_iff p)
  show "log 2 x < of_int k + 1" using assms(2) pos p [of "k + 1"] by (simp add: log_less_iff)
qed

lemma mod_eq_diff: "b \<le> a \<Longrightarrow> a < 2 * b \<Longrightarrow> a mod b = a - b" for a b :: int
  using mod_pos_pos_trivial [of "a - b" b] by (simp add: minus_mod_self2)

subsection \<open>Formats\<close>

locale binary_format =
  fixes f :: float_format and e :: nat
  assumes width: "fmt_width f = fmt_fraction f + e + 1"
    and bias: "fmt_bias f = 2 ^ (e - 1) - 1"
    and expo_bits: "2 \<le> e" "e \<le> 11"
    and precision: "2 \<le> fmt_fraction f" "fmt_fraction f \<le> 52"
    and storage: "fmt_width f = 16 \<or> fmt_width f = 32 \<or> fmt_width f = 64"
begin

lemma width_le: "fmt_width f \<le> 64"
  using storage by auto

lemma max_expo: "2 * fmt_bias f + 1 = 2 ^ e - 1"
proof -
  have "(2 :: int) ^ e = 2 * 2 ^ (e - 1)" using expo_bits by (metis One_nat_def power_Suc Suc_diff_le Suc_pred diff_Suc_1 le_trans one_le_numeral zero_less_two less_le_trans)
  then show ?thesis by (simp add: bias)
qed

lemma bias_pos: "1 \<le> fmt_bias f"
proof -
  have "(2 :: int) ^ 1 \<le> 2 ^ (e - 1)" using expo_bits by (intro power_increasing) auto
  then show ?thesis by (simp add: bias)
qed

lemma fmt_bits_raw:
  assumes "\<And>n. bit w n \<Longrightarrow> n < fmt_width f"
  shows "float_raw (fmt_bits f w) = w" "float_width (fmt_bits f w) = fmt_width f"
proof -
  have "take_bit n w = w" if "n = fmt_width f" for n
    by (rule bit_word_eqI) (use assms that in \<open>auto simp: bit_take_bit_iff\<close>)
  then have "take_bit (fmt_width f) w = w" by simp
  then show "float_raw (fmt_bits f w) = w"
    using storage by (auto simp: fmt_bits_def float_bits_of_width_def unsigned_ucast_eq)
  show "float_width (fmt_bits f w) = fmt_width f"
    using storage by (auto simp: fmt_bits_def float_bits_of_width_def)
qed

lemma raw_bits:
  assumes "float_width v = fmt_width f" "bit (float_raw v) n"
  shows "n < fmt_width f"
  using assms by (cases v) (auto simp: bit_simps dest: bit_imp_le_length)

text \<open>The word that \<open>pack\<close> assembles, and its fields.\<close>

definition build :: "bool \<Rightarrow> int \<Rightarrow> u64 \<Rightarrow> u64" where
  "build negative ex r =
     (if negative then fmt_sign f else 0) OR push_bit (fmt_fraction f) (word_of_int ex)
     OR (r AND (push_bit (fmt_fraction f) 1 - 1))"

lemma bit_expo: "0 \<le> ex \<Longrightarrow> ex < 2 ^ e \<Longrightarrow> bit ex k \<Longrightarrow> k < e" for ex :: int
  by (metis bit_take_bit_iff take_bit_int_eq_self)

lemma mask_fraction: "push_bit (fmt_fraction f) 1 - 1 = (mask (fmt_fraction f) :: 'a::len word)"
  by (simp add: mask_eq_decr_exp push_bit_eq_mult)

lemma bit_build:
  assumes "0 \<le> ex" "ex < 2 ^ e"
  shows "bit (build negative ex r) n \<longleftrightarrow>
    (negative \<and> n = fmt_width f - 1) \<or> (fmt_fraction f \<le> n \<and> n < fmt_fraction f + e \<and> bit ex (n - fmt_fraction f)) \<or>
    (n < fmt_fraction f \<and> bit r n)"
proof -
  have "bit (push_bit (fmt_fraction f) (word_of_int ex) :: u64) n \<longleftrightarrow>
      fmt_fraction f \<le> n \<and> n < fmt_fraction f + e \<and> bit ex (n - fmt_fraction f)"
    using bit_expo [OF assms, of "n - fmt_fraction f"] width width_le by (auto simp: bit_simps)
  moreover have "bit (fmt_sign f) n \<longleftrightarrow> n = fmt_width f - 1"
    using width width_le by (auto simp: fmt_sign_def bit_simps)
  ultimately show ?thesis
    using precision unfolding build_def mask_fraction by (auto simp: bit_simps)
qed

lemma fields_build:
  assumes "0 \<le> ex" "ex < 2 ^ e"
  shows "float_width (fmt_bits f (build negative ex r)) = fmt_width f"
    and "fl_sign f (fmt_bits f (build negative ex r)) = negative"
    and "fl_expo f (fmt_bits f (build negative ex r)) = ex"
    and "fl_frac f (fmt_bits f (build negative ex r)) = uint (take_bit (fmt_fraction f) r)"
proof -
  note b = bit_build [OF assms]
  have raw: "float_raw (fmt_bits f (build negative ex r)) = build negative ex r"
    "float_width (fmt_bits f (build negative ex r)) = fmt_width f"
    by (rule fmt_bits_raw; use width in \<open>auto simp: b\<close>)+
  show "float_width (fmt_bits f (build negative ex r)) = fmt_width f" by (rule raw)
  show "fl_sign f (fmt_bits f (build negative ex r)) = negative" using width by (simp add: fl_sign_def raw b)
  have "take_bit e (drop_bit (fmt_fraction f) (build negative ex r)) = word_of_int ex"
    using bit_expo [OF assms] width width_le by (intro bit_word_eqI) (auto simp: bit_simps b)
  moreover have "take_bit 64 ex = ex"
  proof (rule take_bit_int_eq_self [OF assms(1)])
    have "(2 :: int) ^ e \<le> 2 ^ 64" using expo_bits by (intro power_increasing) auto
    with assms(2) show "ex < 2 ^ 64" by linarith
  qed
  ultimately show "fl_expo f (fmt_bits f (build negative ex r)) = ex" using width assms(1) by (simp add: fl_expo_def raw unsigned_of_int)
  have "take_bit (fmt_fraction f) (build negative ex r) = take_bit (fmt_fraction f) r"
    using width width_le by (intro bit_word_eqI) (auto simp: bit_simps b)
  then show "fl_frac f (fmt_bits f (build negative ex r)) = uint (take_bit (fmt_fraction f) r)"
    by (simp add: fl_frac_def raw)
qed

lemma fmt_infinity_build: "fmt_infinity f = build False (2 ^ e - 1) 0"
proof -
  have "2 * fmt_bias f + 1 = 2 ^ e - 1" by (rule max_expo)
  then have "word_of_int (fmt_bias f) * 2 + 1 = (word_of_int (2 ^ e - 1) :: u64)"
    by (metis mult.commute of_int_1 of_int_add of_int_mult of_int_numeral)
  then show ?thesis unfolding fmt_infinity_def build_def by (simp only: if_False and_zero_eq zero_and_eq or.left_neutral or.right_neutral)
qed

lemma build_sign: "(if negative then fmt_sign f else 0) OR build False ex 0 = build negative ex 0"
  by (simp add: build_def or.assoc [symmetric])

lemma fmt_special_build: "fmt_special f negative infinity = fmt_bits f (build negative (if infinity then 2 ^ e - 1 else 0) 0)"
  using build_sign [of negative "2 ^ e - 1"] build_sign [of negative 0]
  by (simp add: fmt_special_def fmt_infinity_build) (simp add: build_def)

lemma fmt_special_fields:
  "float_width (fmt_special f negative infinity) = fmt_width f"
  "fl_sign f (fmt_special f negative infinity) = negative"
  "fl_is_inf f (fmt_special f negative True)" "fl_finite f (fmt_special f negative False)"
  "fl_magnitude f (fmt_special f negative False) = 0"
proof -
  have e: "(0 :: int) \<le> 2 ^ e - 1" "(2 :: int) ^ e - 1 < 2 ^ e" "(0 :: int) < 2 ^ e" by simp_all
  have "2 * fmt_bias f + 1 = 2 ^ e - 1" by (rule max_expo)
  moreover have "(4 :: int) \<le> 2 ^ e" using power_increasing [OF expo_bits(1), of "2 :: int"] by simp
  ultimately show "float_width (fmt_special f negative infinity) = fmt_width f"
    "fl_sign f (fmt_special f negative infinity) = negative"
    "fl_is_inf f (fmt_special f negative True)" "fl_finite f (fmt_special f negative False)"
    "fl_magnitude f (fmt_special f negative False) = 0"
    using fields_build [OF e(1,2)] fields_build [OF order_refl e(3)]
    by (simp_all add: fmt_special_build fl_is_inf_def fl_finite_def fl_magnitude_def)
qed

lemma unpack_fields:
  assumes "float_width v = fmt_width f"
  shows "fp_negative (float_unpack f v) = fl_sign f v"
    "fp_exp (float_unpack f v) = max (fl_expo f v) 1 - fmt_bias f - int (fmt_fraction f)"
    "fp_nan (float_unpack f v) = fl_is_nan f v" "fp_infinity (float_unpack f v) = fl_is_inf f v"
    "fl_finite f v \<Longrightarrow> uint (fp_sig (float_unpack f v)) = (if fl_expo f v = 0 then 0 else 2 ^ fmt_fraction f) + fl_frac f v"
proof -
  note b = raw_bits [OF assms]
  have sgn: "float_raw v AND fmt_sign f \<noteq> 0 \<longleftrightarrow> fl_sign f v"
  proof -
    have "fmt_sign f = 2 ^ (fmt_width f - 1)" by (simp add: fmt_sign_def push_bit_eq_mult)
    then show ?thesis by (simp add: and_exp_eq_0_iff_not_bit fl_sign_def)
  qed
  have ex: "uint (drop_bit (fmt_fraction f) (float_raw v AND NOT (fmt_sign f))) = fl_expo f v"
  proof -
    have "drop_bit (fmt_fraction f) (float_raw v AND NOT (fmt_sign f)) = take_bit e (drop_bit (fmt_fraction f) (float_raw v))"
      using width width_le by (intro bit_word_eqI) (auto simp: bit_simps fmt_sign_def dest: b)
    then show ?thesis using width by (simp add: fl_expo_def)
  qed
  have fr: "float_raw v AND (push_bit (fmt_fraction f) 1 - 1) = take_bit (fmt_fraction f) (float_raw v)"
    unfolding mask_fraction by (simp add: take_bit_eq_mask)
  have zero: "take_bit (fmt_fraction f) (float_raw v) = 0 \<longleftrightarrow> fl_frac f v = 0"
    by (simp add: fl_frac_def unsigned_eq_0_iff)
  show "fp_negative (float_unpack f v) = fl_sign f v"
    "fp_exp (float_unpack f v) = max (fl_expo f v) 1 - fmt_bias f - int (fmt_fraction f)"
    "fp_nan (float_unpack f v) = fl_is_nan f v" "fp_infinity (float_unpack f v) = fl_is_inf f v"
    unfolding float_unpack_def Let_def ex fr by (simp_all add: sgn zero fl_is_nan_def fl_is_inf_def)
  assume fin: "fl_finite f v"
  have u: "uint (ucast (take_bit (fmt_fraction f) (float_raw v)) :: u128) = fl_frac f v"
    using precision by (simp add: fl_frac_def unsigned_ucast_eq unsigned_take_bit_eq min_absorb1)
  have disj: "(ucast (take_bit (fmt_fraction f) (float_raw v)) :: u128) AND push_bit (fmt_fraction f) 1 = 0"
    by (rule bit_word_eqI) (auto simp: bit_simps)
  have "uint (ucast (take_bit (fmt_fraction f) (float_raw v)) OR push_bit (fmt_fraction f) 1 :: u128) = 2 ^ fmt_fraction f + fl_frac f v"
  proof -
    have "ucast (take_bit (fmt_fraction f) (float_raw v)) OR push_bit (fmt_fraction f) 1 =
        (ucast (take_bit (fmt_fraction f) (float_raw v)) + 2 ^ fmt_fraction f :: u128)"
      using disjunctive_add_eq_or [OF disj] by (simp add: push_bit_eq_mult)
    moreover have "fl_frac f v < 2 ^ fmt_fraction f" by (simp add: fl_frac_def unsigned_take_bit_eq)
    moreover have "(2 :: int) ^ fmt_fraction f \<le> 2 ^ 52" using precision by (intro power_increasing) auto
    moreover have "uint (2 ^ fmt_fraction f :: u128) = 2 ^ fmt_fraction f"
      using precision by (simp add: uint_power_of_two)
    moreover have "0 \<le> fl_frac f v" by (simp add: fl_frac_def)
    ultimately show ?thesis
      using u uint_add_lem [of "ucast (take_bit (fmt_fraction f) (float_raw v)) :: u128" "2 ^ fmt_fraction f"] by simp
  qed
  then show "uint (fp_sig (float_unpack f v)) = (if fl_expo f v = 0 then 0 else 2 ^ fmt_fraction f) + fl_frac f v"
    using fin u unfolding float_unpack_def Let_def ex fr by (simp add: fl_finite_def)
qed

text \<open>The highest bit of a significand.\<close>

definition top_bit :: "u128 \<Rightarrow> nat" where
  "top_bit w = 127 - leading_zeros w"

lemma top_bit:
  assumes "w \<noteq> 0"
  shows "2 ^ top_bit w \<le> uint w" "uint w < 2 ^ (top_bit w + 1)" "127 - int (leading_zeros w) = int (top_bit w)"
proof -
  have pos: "0 < unat w" using assms by (simp add: unat_gt_0)
  have "unat w < 2 ^ 128" using unsigned_less [of w, where 'a = nat] by simp
  then have l: "floorlog 2 (unat w) \<le> 128" by (intro floorlog_leI) simp_all
  have g: "1 \<le> floorlog 2 (unat w)" using pos by (intro floorlog_geI) simp_all
  have t: "top_bit w = floorlog 2 (unat w) - 1" using l g by (simp add: top_bit_def leading_zeros_def)
  have b: "2 ^ top_bit w \<le> unat w" "unat w < 2 ^ (top_bit w + 1)"
    using floorlog_bounds [of "unat w" 2] pos g t by auto
  show "2 ^ top_bit w \<le> uint w" unfolding uint_nat using b(1) by (metis of_nat_le_iff of_nat_numeral of_nat_power)
  show "uint w < 2 ^ (top_bit w + 1)" unfolding uint_nat using b(2) by (metis of_nat_less_iff of_nat_numeral of_nat_power)
  show "127 - int (leading_zeros w) = int (top_bit w)" using l g by (simp add: top_bit_def leading_zeros_def)
qed

lemma quantum_of_top:
  assumes "w \<noteq> 0"
  shows "fl_quantum f (of_int (uint w) * 2 powi ex) =
    max (ex + int (top_bit w) - int (fmt_fraction f)) (1 - fmt_bias f - int (fmt_fraction f))"
proof -
  have "(of_int (2 ^ top_bit w) :: real) \<le> of_int (uint w)" "(of_int (uint w) :: real) < of_int (2 ^ (top_bit w + 1))"
    using top_bit [OF assms] by (simp_all only: of_int_le_iff of_int_less_iff)
  then have "2 ^ top_bit w * 2 powi ex \<le> of_int (uint w) * (2 :: real) powi ex"
    "of_int (uint w) * (2 :: real) powi ex < 2 ^ (top_bit w + 1) * 2 powi ex"
    by (simp_all add: mult_right_mono)
  moreover have "(2 :: real) powi (ex + int (top_bit w)) = 2 ^ top_bit w * 2 powi ex"
    "(2 :: real) powi (ex + int (top_bit w) + 1) = 2 ^ (top_bit w + 1) * 2 powi ex"
    by (simp_all add: power_int_add)
  ultimately have "\<lfloor>log 2 (of_int (uint w) * 2 powi ex)\<rfloor> = ex + int (top_bit w)"
    by (intro floor_log_powi) simp_all
  then show ?thesis by (simp add: fl_quantum_def)
qed

text \<open>The shifted significand: the rounded multiple of the last place, at most one bit too long.\<close>

lemma scaled:
  assumes w: "w \<noteq> 0" and q: "q = fl_quantum f (of_int (uint w) * 2 powi ex)"
  defines "r \<equiv> (if 0 < q - ex then float_round w (nat (q - ex)) else push_bit (nat (- (q - ex))) w)"
  shows "uint r = rne (of_int (uint w) * 2 powi ex / 2 powi q)" "uint r \<le> 2 ^ (fmt_fraction f + 1)"
    "1 - fmt_bias f - int (fmt_fraction f) < q \<longrightarrow> 2 ^ fmt_fraction f \<le> uint r"
proof -
  note q' = quantum_of_top [OF w, of ex, folded q] and t = top_bit [OF w]
  have y: "of_int (uint w) * 2 powi ex / (2 :: real) powi q = of_int (uint w) * 2 powi (ex - q)"
    by (simp add: power_int_diff)
  have up: "of_int (uint w) * (2 :: real) powi (ex - q) \<le> 2 ^ (fmt_fraction f + 1)"
  proof -
    have "(of_int (uint w) :: real) \<le> of_int (2 ^ (top_bit w + 1))" using t(2) by (simp only: of_int_le_iff)
    then have "of_int (uint w) * (2 :: real) powi (ex - q) \<le> 2 ^ (top_bit w + 1) * 2 powi (ex - q)"
      by (intro mult_right_mono) simp_all
    also have "\<dots> = 2 powi (int (top_bit w) + 1 + (ex - q))" by (simp add: power_int_add)
    also have "\<dots> \<le> 2 powi int (fmt_fraction f + 1)" using q' by (intro power_int_increasing) auto
    finally show ?thesis by (simp only: power_int_of_nat)
  qed
  show eq: "uint r = rne (of_int (uint w) * 2 powi ex / 2 powi q)"
  proof (cases "0 < q - ex")
    case True
    then have "(2 :: real) powi (ex - q) = 1 / 2 ^ nat (q - ex)"
      using power_int_minus_divide [of "2 :: real" "q - ex"] by (simp add: power_int_nonneg_exp)
    with True show ?thesis unfolding y r_def by (simp add: float_round_rne)
  next
    case False
    let ?k = "nat (- (q - ex))"
    have p: "(2 :: real) powi (ex - q) = 2 ^ ?k" using False by (simp add: power_int_nonneg_exp)
    have "(of_int (uint w * 2 ^ ?k) :: real) \<le> of_int (2 ^ (fmt_fraction f + 1))" using up unfolding p by simp
    then have "uint w * 2 ^ ?k \<le> 2 ^ (fmt_fraction f + 1)" by (simp only: of_int_le_iff)
    moreover have "(2 :: int) ^ (fmt_fraction f + 1) \<le> 2 ^ 53" using precision by (intro power_increasing) auto
    ultimately have "uint w * 2 ^ ?k < 2 ^ 128" by simp
    then have "uint (push_bit ?k w) = uint w * 2 ^ ?k"
      unfolding unsigned_push_bit_eq by (simp add: push_bit_eq_mult take_bit_int_eq_self mult_nonneg_nonneg)
    moreover have "rne (of_int (uint w) * 2 ^ ?k) = uint w * 2 ^ ?k"
      using rne_of_int [of "uint w * 2 ^ ?k"] by (simp only: of_int_mult of_int_power of_int_numeral)
    ultimately show ?thesis using False unfolding y r_def p by simp
  qed
  show "uint r \<le> 2 ^ (fmt_fraction f + 1)" unfolding eq y using up by (intro rne_le) simp
  show "1 - fmt_bias f - int (fmt_fraction f) < q \<longrightarrow> 2 ^ fmt_fraction f \<le> uint r"
  proof
    assume gt: "1 - fmt_bias f - int (fmt_fraction f) < q"
    then have i: "int (fmt_fraction f) = int (top_bit w) + (ex - q)" using q' by simp
    have "(2 :: real) powi int (fmt_fraction f) = 2 powi (int (top_bit w) + (ex - q))" by (simp only: i)
    also have "\<dots> = 2 powi int (top_bit w) * 2 powi (ex - q)" by (rule power_int_add) simp
    also have "\<dots> \<le> of_int (uint w) * 2 powi (ex - q)"
    proof (intro mult_right_mono)
      have "(of_int (2 ^ top_bit w) :: real) \<le> of_int (uint w)" using t(1) by (simp only: of_int_le_iff)
      then show "2 powi int (top_bit w) \<le> (of_int (uint w) :: real)" by simp
    qed simp
    finally show "2 ^ fmt_fraction f \<le> uint r" unfolding eq y by (intro rne_ge) simp
  qed
qed

text \<open>The last steps of \<open>pack\<close>, on a significand of at most one bit more than the precision.\<close>

lemma assemble:
  fixes r r' :: u128
  assumes r: "uint r \<le> 2 ^ (fmt_fraction f + 1)" and lo: "1 - fmt_bias f - int (fmt_fraction f) \<le> q"
    and norm: "1 - fmt_bias f - int (fmt_fraction f) < q \<longrightarrow> 2 ^ fmt_fraction f \<le> uint r"
    and rt: "(r', q') = (if push_bit (fmt_fraction f + 1) 1 \<le> r then (drop_bit 1 r, q + 1) else (r, q))"
    and ex: "ex = (if r' < push_bit (fmt_fraction f) 1 then 0 else q' + int (fmt_fraction f) + fmt_bias f)"
    and v: "v = (if r' = 0 then fmt_special f negative False
      else if 2 * fmt_bias f < ex then fmt_special f negative True
      else fmt_bits f ((if negative then fmt_sign f else 0) OR push_bit (fmt_fraction f) (word_of_int ex)
        OR (ucast r' AND (push_bit (fmt_fraction f) 1 - 1))))"
  shows "float_width v = fmt_width f \<and> fl_sign f v = negative \<and>
    (if of_int (uint r) * 2 powi q < (2 :: real) powi (fmt_bias f + 1)
     then fl_finite f v \<and> fl_magnitude f v = of_int (uint r) * 2 powi q else fl_is_inf f v)"
proof -
  have p: "uint (push_bit (fmt_fraction f + 1) 1 :: u128) = 2 ^ (fmt_fraction f + 1)"
    "uint (push_bit (fmt_fraction f) 1 :: u128) = 2 ^ fmt_fraction f"
    using precision by (simp_all add: push_bit_eq_mult uint_power_of_two del: power_Suc)
  have same: "of_int (uint r') * 2 powi q' = of_int (uint r) * (2 :: real) powi q"
    and r': "uint r' < 2 ^ (fmt_fraction f + 1)" and q': "q \<le> q'"
    and norm': "1 - fmt_bias f - int (fmt_fraction f) < q' \<Longrightarrow> 2 ^ fmt_fraction f \<le> uint r'"
  proof -
    have "of_int (uint r') * 2 powi q' = of_int (uint r) * (2 :: real) powi q \<and> uint r' < 2 ^ (fmt_fraction f + 1) \<and> q \<le> q' \<and>
      (1 - fmt_bias f - int (fmt_fraction f) < q' \<longrightarrow> 2 ^ fmt_fraction f \<le> uint r')"
    proof (cases "push_bit (fmt_fraction f + 1) 1 \<le> r")
      case True
      then have "uint r = 2 ^ (fmt_fraction f + 1)" using r p(1) unfolding word_le_def by linarith
      moreover have "r' = drop_bit 1 r" "q' = q + 1" using rt True by auto
      ultimately have "uint r' = 2 ^ fmt_fraction f" by (simp add: drop_bit_uint)
      with \<open>q' = q + 1\<close> \<open>uint r = 2 ^ (fmt_fraction f + 1)\<close> show ?thesis by (simp add: power_int_add)
    next
      case False
      then show ?thesis using rt p(1) norm by (simp add: word_le_def not_le)
    qed
    then show "of_int (uint r') * 2 powi q' = of_int (uint r) * (2 :: real) powi q" "uint r' < 2 ^ (fmt_fraction f + 1)" "q \<le> q'"
      "1 - fmt_bias f - int (fmt_fraction f) < q' \<Longrightarrow> 2 ^ fmt_fraction f \<le> uint r'" by auto
  qed
  note b0 = bias_pos
  show ?thesis
  proof (cases "r' = 0")
    case True
    then have "of_int (uint r) * (2 :: real) powi q = 0" using same by simp
    with True v show ?thesis by (simp add: fmt_special_fields)
  next
    case nz: False
    have small: "r' < push_bit (fmt_fraction f) 1 \<longleftrightarrow> uint r' < 2 ^ fmt_fraction f" unfolding word_less_def p(2) ..
    have sub: "q' = 1 - fmt_bias f - int (fmt_fraction f)" if "uint r' < 2 ^ fmt_fraction f" using that norm' q' lo by force
    have over: "2 * fmt_bias f < ex \<longleftrightarrow> 2 powi (fmt_bias f + 1) \<le> of_int (uint r) * (2 :: real) powi q"
    proof (cases "uint r' < 2 ^ fmt_fraction f")
      case True
      then have "(of_int (uint r') :: real) < of_int (2 ^ fmt_fraction f)" by (simp only: of_int_less_iff)
      then have "of_int (uint r') * (2 :: real) powi q' < 2 powi (int (fmt_fraction f) + q')" by (simp add: power_int_add)
      also have "\<dots> \<le> 2 powi (fmt_bias f + 1)" using sub [OF True] b0 by (intro power_int_increasing) auto
      finally show ?thesis using True b0 unfolding same ex small by simp
    next
      case False
      then have "(of_int (2 ^ fmt_fraction f) :: real) \<le> of_int (uint r')" "(of_int (uint r') :: real) < of_int (2 ^ (fmt_fraction f + 1))"
        using r' by (simp_all only: of_int_less_iff of_int_le_iff not_less)
      then have m: "2 powi (int (fmt_fraction f) + q') \<le> of_int (uint r') * (2 :: real) powi q'"
        "of_int (uint r') * (2 :: real) powi q' < 2 powi (int (fmt_fraction f) + q' + 1)" by (simp_all add: power_int_add)
      have "ex = q' + int (fmt_fraction f) + fmt_bias f" using False ex small by simp
      moreover have "2 powi (fmt_bias f + 1) \<le> (2 :: real) powi (int (fmt_fraction f) + q')" if "fmt_bias f < int (fmt_fraction f) + q'"
        using that by (intro power_int_increasing) auto
      moreover have "(2 :: real) powi (int (fmt_fraction f) + q' + 1) \<le> 2 powi (fmt_bias f + 1)" if "\<not> fmt_bias f < int (fmt_fraction f) + q'"
        using that by (intro power_int_increasing) auto
      ultimately show ?thesis using m unfolding same [symmetric] by force
    qed
    show ?thesis
    proof (cases "2 * fmt_bias f < ex")
      case True
      with over nz v show ?thesis by (simp add: fmt_special_fields)
    next
      case False
      have ex0: "0 \<le> ex" "ex < 2 ^ e" using False max_expo q' lo ex by (auto split: if_splits)
      have v: "v = fmt_bits f (build negative ex (ucast r'))" using v nz False by (simp add: build_def)
      have "uint (take_bit (fmt_fraction f) (ucast r' :: u64)) = uint r' mod 2 ^ fmt_fraction f"
        using precision by (simp add: unsigned_take_bit_eq unsigned_ucast_eq min_absorb1) (simp add: take_bit_eq_mod)
      note fields = fields_build [OF ex0, of negative "ucast r'", folded v, unfolded this]
      have "fl_magnitude f v = of_int (uint r') * 2 powi q'"
      proof (cases "uint r' < 2 ^ fmt_fraction f")
        case True
        with sub ex small show ?thesis by (simp add: fl_magnitude_def fields)
      next
        case large: False
        have "uint r' mod 2 ^ fmt_fraction f = uint r' - 2 ^ fmt_fraction f"
          using large r' by (intro mod_eq_diff) simp_all
        moreover have "1 \<le> ex" "ex - fmt_bias f - int (fmt_fraction f) = q'" using large ex small q' lo by auto
        ultimately show ?thesis by (simp add: fl_magnitude_def fields max_def)
      qed
      then show ?thesis using False over fields same by (simp add: fl_finite_def not_less)
    qed
  qed
qed

lemma pack_rounds:
  assumes "sig \<noteq> 0"
  shows "rounds_to f negative (of_int (uint sig) * 2 powi ex) (float_pack f negative sig ex)"
proof -
  let ?x = "of_int (uint sig) * (2 :: real) powi ex"
  define q where "q = fl_quantum f ?x"
  define r where "r = (if 0 < q - ex then float_round sig (nat (q - ex)) else push_bit (nat (- (q - ex))) sig)"
  define rt where "rt = (if push_bit (fmt_fraction f + 1) 1 \<le> r then (drop_bit 1 r, q + 1) else (r, q))"
  define x where "x = (if fst rt < push_bit (fmt_fraction f) 1 then 0 else snd rt + int (fmt_fraction f) + fmt_bias f)"
  note sc = scaled [OF assms q_def, folded r_def]
  have q: "q = max (ex + int (top_bit sig) - int (fmt_fraction f)) (1 - fmt_bias f - int (fmt_fraction f))"
    unfolding q_def by (rule quantum_of_top [OF assms])
  have "float_pack f negative sig ex = (if fst rt = 0 then fmt_special f negative False
      else if 2 * fmt_bias f < x then fmt_special f negative True
      else fmt_bits f ((if negative then fmt_sign f else 0) OR push_bit (fmt_fraction f) (word_of_int x)
        OR (ucast (fst rt) AND (push_bit (fmt_fraction f) 1 - 1))))"
    using assms unfolding float_pack_def Let_def top_bit(3) [OF assms] q [symmetric] r_def [symmetric] rt_def [symmetric]
    by (simp only: if_False split: prod.split) (auto simp: x_def)
  note packed = this
  have lo: "1 - fmt_bias f - int (fmt_fraction f) \<le> q" using q by simp
  have rt: "(fst rt, snd rt) = (if push_bit (fmt_fraction f + 1) 1 \<le> r then (drop_bit 1 r, q + 1) else (r, q))"
    unfolding prod.collapse by (rule rt_def)
  have rd: "fl_round f ?x = of_int (uint r) * 2 powi q" by (simp only: fl_round_def q_def [symmetric] sc(1))
  show ?thesis unfolding rounds_to_def rd by (rule assemble [OF sc(2) lo sc(3) rt x_def packed])
qed

end

text \<open>Half, single and double precision are formats of the family.\<close>

interpretation half: binary_format "format_of (FBits16 0)" 5
  by unfold_locales simp_all

interpretation single: binary_format "format_of (FBits32 0)" 8
  by unfold_locales simp_all

interpretation double: binary_format "format_of (FBits64 0)" 11
  by unfold_locales simp_all

lemma format_of_binary: "\<exists>e. binary_format (format_of v) e"
  using half.binary_format_axioms single.binary_format_axioms double.binary_format_axioms by (cases v) auto

lemma format_width: "fmt_width (format_of v) = float_width v"
  by (cases v) simp_all

end
