(* ===== verification/IrFloatArith.thy ===== *)
theory IrFloatArith
  imports IrFloatRounding
begin

text \<open>
  Correct rounding of \<open>ir/src/float/arithmetic.rs\<close> and \<open>conversions.rs\<close>: sums, differences,
  products, quotients and conversions are the exact real result rounded once, to nearest with
  ties to even; the remainder is exact.  The sticky bit that \<open>jam\<close> and the division keep
  below the rounding position stands for the discarded part.
\<close>

subsection \<open>Sticky bits\<close>

definition sticky :: "int \<Rightarrow> real \<Rightarrow> bool" where
  "sticky z y \<longleftrightarrow> y = of_int z \<or> odd z \<and> \<bar>y - of_int z\<bar> < 1"

lemma rne_sticky:
  assumes "odd z" "\<bar>y - of_int z\<bar> < 1" "2 \<le> k"
  shows "rne (of_int z / 2 ^ k) = rne (y / 2 ^ k)"
proof -
  define m where "m = z div 2 ^ k"
  define h where "h = m * 2 ^ k + 2 ^ (k - 1)"
  have two: "(2 :: int) ^ k = 2 * 2 ^ (k - 1)" "even ((2 :: int) ^ (k - 1))" using assms(3) by (cases k; simp)+
  have z: "z = m * 2 ^ k + z mod 2 ^ k" unfolding m_def by (simp only: div_mult_mod_eq)
  have lo: "m * 2 ^ k < z"
  proof -
    have "m * 2 ^ k \<noteq> z" using assms(1) two by auto
    moreover have "0 \<le> z mod 2 ^ k" by simp
    ultimately show ?thesis using z by linarith
  qed
  have hi: "z < (m + 1) * 2 ^ k"
  proof -
    have "z mod 2 ^ k < 2 ^ k" by simp
    then show ?thesis using z unfolding distrib_right mult_1 by linarith
  qed
  have h: "z < h \<or> h < z" using assms(1) two unfolding h_def by (metis dvd_mult even_add even_mult_iff linorder_neqE_linordered_idom)
  have cmp: "a < z \<Longrightarrow> of_int a < y" "z < a \<Longrightarrow> y < of_int a" for a
  proof -
    assume "a < z"
    then have "(of_int a :: real) \<le> of_int z - 1" by linarith
    then show "of_int a < y" using assms(2) by linarith
  next
    assume "z < a"
    then have "of_int z + 1 \<le> (of_int a :: real)" by linarith
    then show "y < of_int a" using assms(2) by linarith
  qed
  have main: "rne (x / 2 ^ k) = (if of_int h < x then m + 1 else m)"
    if "of_int (m * 2 ^ k) < x" "x < of_int ((m + 1) * 2 ^ k)" "x \<noteq> of_int h" for x :: real
  proof -
    have "of_int m < x / 2 ^ k" "x / 2 ^ k < of_int (m + 1)" using that(1,2) by (simp_all add: field_simps)
    then have fl: "\<lfloor>x / 2 ^ k\<rfloor> = m" by (simp add: floor_eq_iff)
    have hh: "(of_int h :: real) = of_int m * 2 ^ k + 2 ^ k / 2"
      unfolding h_def using arg_cong [OF two(1), of "of_int :: int \<Rightarrow> real"] by simp
    have "1 / 2 < frac (x / 2 ^ k) \<longleftrightarrow> of_int h < x" unfolding frac_def fl hh by (simp add: field_simps)
    moreover have "frac (x / 2 ^ k) \<noteq> 1 / 2" using that(3) unfolding frac_def fl hh by (auto simp: field_simps)
    ultimately show ?thesis by (simp add: rne_def fl)
  qed
  have "rne (of_int z / 2 ^ k) = (if h < z then m + 1 else m)"
    using main [of "of_int z"] lo hi h by (simp only: of_int_less_iff of_int_eq_iff) auto
  moreover have "rne (y / 2 ^ k) = (if of_int h < y then m + 1 else m)"
    using cmp(1) [OF lo] cmp(2) [OF hi] h cmp(1) [of h] cmp(2) [of h] by (intro main) auto
  moreover have "of_int h < y \<longleftrightarrow> h < z" using h cmp(1) [of h] cmp(2) [of h] by auto
  ultimately show ?thesis by simp
qed

lemma sticky_nonneg: "sticky z y \<Longrightarrow> z = 0 \<longleftrightarrow> y = 0"
proof
  assume st: "sticky z y" and "y = 0"
  then consider "z = 0" | "odd z" "\<bar>of_int z :: real\<bar> < 1" by (auto simp: sticky_def)
  then show "z = 0"
  proof cases
    case 2
    then have "\<bar>z\<bar> < 1" by linarith
    then show ?thesis by simp
  qed
qed (auto simp: sticky_def)

lemma sticky_even_add: "sticky z y \<Longrightarrow> even a \<Longrightarrow> sticky (a + z) (of_int a + y)" "sticky z y \<Longrightarrow> even a \<Longrightarrow> sticky (a - z) (of_int a - y)"
  by (auto simp: sticky_def abs_minus_commute algebra_simps)

text \<open>The quotient of a division with the sticky bit.\<close>

lemma sticky_div:
  fixes a b :: int
  assumes "0 < b" "0 \<le> a"
  shows "sticky (if a mod b \<noteq> 0 \<and> even (a div b) then a div b + 1 else a div b) (of_int a / of_int b)"
proof -
  have eq: "(of_int a :: real) = of_int (a div b) * of_int b + of_int (a mod b)"
    by (metis div_mult_mod_eq of_int_add of_int_mult)
  have r: "0 \<le> a mod b" "a mod b < b" using assms(1) by simp_all
  then have "(0 :: real) \<le> of_int (a mod b)" "(of_int (a mod b) :: real) < of_int b" by (simp_all only: of_int_0_le_iff of_int_less_iff)
  then have f: "0 \<le> of_int (a mod b) / (of_int b :: real)" "of_int (a mod b) / (of_int b :: real) < 1" using assms(1) by simp_all
  have y: "of_int a / of_int b = of_int (a div b) + of_int (a mod b) / (of_int b :: real)"
    using assms(1) by (subst eq) (simp add: add_divide_distrib)
  have pos: "a mod b \<noteq> 0 \<Longrightarrow> 0 < of_int (a mod b) / (of_int b :: real)"
  proof -
    assume "a mod b \<noteq> 0"
    with r(1) have "0 < a mod b" by linarith
    then show ?thesis using assms(1) by (intro divide_pos_pos) simp_all
  qed
  show ?thesis using f pos unfolding sticky_def y by auto
qed

context binary_format
begin

text \<open>Rounding does not see past a sticky bit two places below the last one.\<close>

lemma round_sticky:
  assumes w: "w \<noteq> 0" and st: "sticky (uint w) y" and far: "y = of_int (uint w) \<or> fmt_fraction f + 2 \<le> top_bit w"
  shows "fl_round f (y * 2 powi ex) = fl_round f (of_int (uint w) * 2 powi ex)"
proof (cases "y = of_int (uint w)")
  case False
  with st far have z: "odd (uint w)" "\<bar>y - of_int (uint w)\<bar> < 1" "fmt_fraction f + 2 \<le> top_bit w" by (auto simp: sticky_def)
  note t = top_bit [OF w]
  have ev: "even ((2 :: int) ^ top_bit w)" "even ((2 :: int) ^ (top_bit w + 1))" using z(3) by simp_all
  have "2 ^ top_bit w \<noteq> uint w" using z(1) ev(1) by metis
  then have "2 ^ top_bit w + 1 \<le> uint w" "uint w + 1 \<le> 2 ^ (top_bit w + 1)" using t(1,2) by linarith+
  then have "(of_int (2 ^ top_bit w + 1) :: real) \<le> of_int (uint w)" "(of_int (uint w + 1) :: real) \<le> of_int (2 ^ (top_bit w + 1))"
    by (simp_all only: of_int_le_iff)
  then have b: "2 ^ top_bit w \<le> y" "y < 2 ^ (top_bit w + 1)" using z(2) by auto
  have "(2 :: real) powi (ex + int (top_bit w)) = 2 ^ top_bit w * 2 powi ex"
    "(2 :: real) powi (ex + int (top_bit w) + 1) = 2 ^ (top_bit w + 1) * 2 powi ex"
    by (simp_all add: power_int_add)
  with b have "\<lfloor>log 2 (y * 2 powi ex)\<rfloor> = ex + int (top_bit w)" by (intro floor_log_powi) (simp_all add: mult_right_mono)
  then have q: "fl_quantum f (y * 2 powi ex) = fl_quantum f (of_int (uint w) * 2 powi ex)"
    unfolding quantum_of_top [OF w] by (simp add: fl_quantum_def)
  define k where "k = nat (fl_quantum f (of_int (uint w) * 2 powi ex) - ex)"
  have k: "2 \<le> k" "fl_quantum f (of_int (uint w) * 2 powi ex) = ex + int k"
    using z(3) unfolding k_def quantum_of_top [OF w] by auto
  have scale: "x * 2 powi ex / 2 powi (ex + int k) = x / 2 ^ k" for x :: real by (simp add: power_int_add)
  show ?thesis unfolding fl_round_def q k(2) scale rne_sticky [OF z(1,2) k(1)] ..
qed simp

lemma pack_rounds_sticky:
  assumes "w \<noteq> 0" "sticky (uint w) y" "y = of_int (uint w) \<or> fmt_fraction f + 2 \<le> top_bit w"
  shows "rounds_to f negative (y * 2 powi ex) (float_pack f negative w ex)"
  using pack_rounds [OF assms(1), of negative ex] round_sticky [OF assms] by (simp add: rounds_to_def)

lemma top_bit_geI: "2 ^ n \<le> uint w \<Longrightarrow> n \<le> top_bit w"
proof (rule ccontr)
  assume a: "2 ^ n \<le> uint w" and "\<not> n \<le> top_bit w"
  then have "(2 :: int) ^ (top_bit w + 1) \<le> 2 ^ n" by (intro power_increasing) auto
  moreover have "w \<noteq> 0" using a by auto
  ultimately show False using a top_bit(2) [of w] by linarith
qed

subsection \<open>Unpacked operands\<close>

definition part_mag :: "float_parts \<Rightarrow> real" where
  "part_mag p = of_int (uint (fp_sig p)) * 2 powi fp_exp p"

text \<open>A finite operand after normalisation: its significand is zero or has the full
  precision.\<close>

definition operand :: "float_parts \<Rightarrow> bool" where
  "operand p \<longleftrightarrow> \<not> fp_nan p \<and> \<not> fp_infinity p \<and>
     (fp_sig p \<noteq> 0 \<longrightarrow> 2 ^ fmt_fraction f \<le> uint (fp_sig p) \<and> uint (fp_sig p) < 2 ^ (fmt_fraction f + 1))"

lemma normalize_operand:
  assumes "uint (fp_sig p) < 2 ^ (fmt_fraction f + 1)" "\<not> fp_nan p" "\<not> fp_infinity p"
  shows "operand (float_normalize f p)" "part_mag (float_normalize f p) = part_mag p"
    "fp_negative (float_normalize f p) = fp_negative p" "fp_sig (float_normalize f p) = 0 \<longleftrightarrow> fp_sig p = 0"
proof -
  have "operand (float_normalize f p) \<and> part_mag (float_normalize f p) = part_mag p \<and>
    fp_negative (float_normalize f p) = fp_negative p \<and> (fp_sig (float_normalize f p) = 0 \<longleftrightarrow> fp_sig p = 0)"
  proof (cases "fp_sig p = 0")
    case True
    with assms show ?thesis by (simp add: float_normalize_def operand_def part_mag_def)
  next
    case False
    let ?s = "fp_sig p"
    note t = top_bit [OF False]
    have le: "top_bit ?s \<le> fmt_fraction f"
    proof (rule ccontr)
      assume "\<not> top_bit ?s \<le> fmt_fraction f"
      then have "(2 :: int) ^ (fmt_fraction f + 1) \<le> 2 ^ top_bit ?s" by (intro power_increasing) auto
      with t(1) assms(1) show False by linarith
    qed
    define k where "k = fmt_fraction f - top_bit ?s"
    have sh: "leading_zeros ?s - (127 - fmt_fraction f) = k" using t(3) le precision unfolding k_def by linarith
    have fr: "fmt_fraction f = top_bit ?s + k" using le by (simp add: k_def)
    have b: "2 ^ fmt_fraction f \<le> uint ?s * 2 ^ k" "uint ?s * 2 ^ k < 2 ^ (fmt_fraction f + 1)"
    proof -
      have "2 ^ top_bit ?s * 2 ^ k \<le> uint ?s * 2 ^ k" "uint ?s * 2 ^ k < 2 ^ (top_bit ?s + 1) * 2 ^ k"
        using t(1,2) by (simp_all add: mult_right_mono mult_strict_right_mono)
      then show "2 ^ fmt_fraction f \<le> uint ?s * 2 ^ k" "uint ?s * 2 ^ k < 2 ^ (fmt_fraction f + 1)"
        unfolding fr by (simp_all add: power_add)
    qed
    moreover have "(2 :: int) ^ (fmt_fraction f + 1) \<le> 2 ^ 53" using precision by (intro power_increasing) auto
    ultimately have "uint ?s * 2 ^ k < 2 ^ 128" by simp
    then have u: "uint (push_bit k ?s) = uint ?s * 2 ^ k"
      unfolding unsigned_push_bit_eq by (simp add: push_bit_eq_mult take_bit_int_eq_self mult_nonneg_nonneg)
    have nz: "push_bit k ?s \<noteq> 0"
    proof
      assume "push_bit k ?s = 0"
      with u False show False by (simp add: unsigned_eq_0_iff)
    qed
    have n: "float_normalize f p = p\<lparr>fp_sig := push_bit k ?s, fp_exp := fp_exp p - int k\<rparr>"
      using False unfolding float_normalize_def Let_def sh by simp
    have "of_int (uint ?s * 2 ^ k) * (2 :: real) powi (fp_exp p - int k) = of_int (uint ?s) * 2 powi fp_exp p"
      by (simp add: power_int_diff)
    then show ?thesis unfolding n operand_def part_mag_def using assms False nz b u by simp
  qed
  then show "operand (float_normalize f p)" "part_mag (float_normalize f p) = part_mag p"
    "fp_negative (float_normalize f p) = fp_negative p" "fp_sig (float_normalize f p) = 0 \<longleftrightarrow> fp_sig p = 0" by blast+
qed

lemma operand_bound: "operand p \<Longrightarrow> uint (fp_sig p) < 2 ^ (fmt_fraction f + 1)"
  by (cases "fp_sig p = 0") (simp_all add: operand_def)

lemma precision_power: "n \<le> k * fmt_fraction f + c \<Longrightarrow> k * 52 + c \<le> 127 \<Longrightarrow> (2 :: int) ^ n < 2 ^ 128"
proof (rule power_strict_increasing)
  assume "n \<le> k * fmt_fraction f + c" "k * 52 + c \<le> 127"
  moreover have "k * fmt_fraction f \<le> k * 52" using precision(2) by (rule mult_le_mono2)
  ultimately show "n < 128" by linarith
qed simp

lemma pow_mult: "m + n = k \<Longrightarrow> (2 :: int) ^ m * 2 ^ n = 2 ^ k"
  by (auto simp: power_add)

lemma part_mag_0: "part_mag p = 0 \<longleftrightarrow> fp_sig p = 0"
  by (simp add: part_mag_def unsigned_eq_0_iff)

lemma part_mag_nonneg: "0 \<le> part_mag p"
  unfolding part_mag_def by (intro mult_nonneg_nonneg) (simp_all only: of_int_0_le_iff uint_ge_0, simp)

lemma part_mag_pos: "fp_sig p \<noteq> 0 \<Longrightarrow> 0 < part_mag p"
  using part_mag_0 [of p] part_mag_nonneg [of p] by linarith

definition part_value :: "float_parts \<Rightarrow> real" where
  "part_value p = (if fp_negative p then - part_mag p else part_mag p)"

lemma unpack_operand:
  assumes "float_width v = fmt_width f" "fl_finite f v" "p = float_unpack f v"
  shows "uint (fp_sig p) < 2 ^ (fmt_fraction f + 1)" "\<not> fp_nan p" "\<not> fp_infinity p" "part_mag p = fl_magnitude f v"
proof -
  note u = unpack_fields [OF assms(1), folded assms(3)]
  have "fl_frac f v < 2 ^ fmt_fraction f" by (simp add: fl_frac_def unsigned_take_bit_eq)
  moreover have "uint (fp_sig p) \<le> 2 ^ fmt_fraction f + fl_frac f v" using u(5) [OF assms(2)] by simp
  ultimately show "uint (fp_sig p) < 2 ^ (fmt_fraction f + 1)" unfolding power_add power_one_right by linarith
  show "\<not> fp_nan p" "\<not> fp_infinity p" using u(3,4) assms(2) by (simp_all add: fl_is_nan_def fl_is_inf_def fl_finite_def)
  show "part_mag p = fl_magnitude f v" unfolding part_mag_def fl_magnitude_def u(2) u(5) [OF assms(2)] ..
qed

subsection \<open>Multiplication and division\<close>

lemma mul_rounds:
  assumes "operand a" "operand b"
  shows "if part_mag a * part_mag b = 0 then float_mul f a b = fmt_special f (fp_negative a \<noteq> fp_negative b) False
    else rounds_to f (fp_negative a \<noteq> fp_negative b) (part_mag a * part_mag b) (float_mul f a b)"
proof -
  have mul: "float_mul f a b = float_pack f (fp_negative a \<noteq> fp_negative b) (fp_sig a * fp_sig b) (fp_exp a + fp_exp b)"
    using assms by (simp add: float_mul_def operand_def)
  have "uint (fp_sig a) * uint (fp_sig b) < 2 ^ (fmt_fraction f + 1) * 2 ^ (fmt_fraction f + 1)"
    using operand_bound [OF assms(1)] operand_bound [OF assms(2)] by (intro mult_strict_mono') simp_all
  also have "\<dots> = 2 ^ (2 * fmt_fraction f + 2)" by (rule pow_mult) simp
  also have "\<dots> < (2 :: int) ^ 128" by (rule precision_power [of _ 2 2]) simp_all
  finally have u: "uint (fp_sig a * fp_sig b) = uint (fp_sig a) * uint (fp_sig b)"
    using uint_mult_lem [of "fp_sig a" "fp_sig b"] by simp
  have x: "part_mag a * part_mag b = of_int (uint (fp_sig a * fp_sig b)) * 2 powi (fp_exp a + fp_exp b)"
    unfolding u part_mag_def by (simp add: power_int_add)
  show ?thesis
  proof (cases "fp_sig a * fp_sig b = 0")
    case True
    then have "part_mag a * part_mag b = 0" by (simp only: x) simp
    with True show ?thesis unfolding mul by (simp add: float_pack_def)
  next
    case False
    then have "part_mag a * part_mag b \<noteq> 0" unfolding x by (simp add: unsigned_eq_0_iff)
    then show ?thesis unfolding mul x using pack_rounds [OF False] by simp
  qed
qed

lemma or_one: "uint (w OR of_bool b) = (if b \<and> even (uint w) then uint w + 1 else uint w)" for w :: u128
proof (cases "b \<and> even (uint w)")
  case True
  have "even w" using True bit_uint_iff [of w 0] by (simp add: bit_0)
  then have "w AND 1 = 0" by (simp add: and_one_eq mod_2_eq_odd)
  then have "w OR 1 = w + 1" by (simp add: disjunctive_add_eq_or)
  moreover have "uint w + 1 < 2 ^ 128" using True uint_lt_128 [of w] by (cases "uint w = 2 ^ 128 - 1") auto
  ultimately show ?thesis using True uint_add_lem [of w 1] by simp
next
  case False
  have "w OR 1 = w" if "odd (uint w)"
    by (rule bit_word_eqI) (use that bit_uint_iff [of w 0] in \<open>auto simp: bit_simps bit_0\<close>)
  with False show ?thesis by auto
qed

lemma div_rounds:
  assumes "operand a" "operand b" "fp_sig b \<noteq> 0"
  shows "if part_mag a / part_mag b = 0 then float_div f a b = fmt_special f (fp_negative a \<noteq> fp_negative b) False
    else rounds_to f (fp_negative a \<noteq> fp_negative b) (part_mag a / part_mag b) (float_div f a b)"
proof (cases "fp_sig a = 0")
  case True
  then show ?thesis using assms by (simp add: part_mag_0 float_div_def operand_def)
next
  case False
  let ?s = "fmt_fraction f + 4" and ?A = "uint (fp_sig a)" and ?B = "uint (fp_sig b)"
  let ?n = "push_bit ?s (fp_sig a)"
  let ?q = "(?n div fp_sig b) OR of_bool (?n mod fp_sig b \<noteq> 0)"
  have a: "2 ^ fmt_fraction f \<le> ?A" "?A < 2 ^ (fmt_fraction f + 1)" and b: "2 ^ fmt_fraction f \<le> ?B" "?B < 2 ^ (fmt_fraction f + 1)"
    using assms False by (simp_all add: operand_def)
  have "0 < (2 :: int) ^ fmt_fraction f" by simp
  with b have B: "0 < ?B" by linarith
  have "?A * 2 ^ ?s < 2 ^ (fmt_fraction f + 1) * 2 ^ ?s" using a(2) by (intro mult_strict_right_mono) simp_all
  also have "\<dots> = 2 ^ (2 * fmt_fraction f + 5)" by (rule pow_mult) simp
  also have "\<dots> < (2 :: int) ^ 128" by (rule precision_power [of _ 2 5]) simp_all
  finally have n: "uint ?n = ?A * 2 ^ ?s"
    unfolding unsigned_push_bit_eq by (simp add: push_bit_eq_mult take_bit_int_eq_self mult_nonneg_nonneg)
  have q: "uint ?q = (if (?A * 2 ^ ?s) mod ?B \<noteq> 0 \<and> even ((?A * 2 ^ ?s) div ?B) then (?A * 2 ^ ?s) div ?B + 1 else (?A * 2 ^ ?s) div ?B)"
    unfolding or_one by (simp add: uint_div_distrib n uint_mod_distrib word_uint_eq_iff)
  have st: "sticky (uint ?q) (of_int (?A * 2 ^ ?s) / of_int ?B)" unfolding q using B by (intro sticky_div) (simp_all add: mult_nonneg_nonneg)
  have "2 ^ (fmt_fraction f + 3) \<le> (?A * 2 ^ ?s) div ?B"
  proof -
    have "2 ^ (fmt_fraction f + 3) * ?B \<le> 2 ^ (fmt_fraction f + 3) * 2 ^ (fmt_fraction f + 1)" using b(2) by (intro mult_left_mono) simp_all
    also have "\<dots> = 2 ^ (2 * fmt_fraction f + 4)" by (rule pow_mult) simp
    also have "\<dots> = 2 ^ fmt_fraction f * 2 ^ ?s" by (rule pow_mult [symmetric]) simp
    also have "\<dots> \<le> ?A * 2 ^ ?s" using a(1) by (intro mult_right_mono) simp_all
    finally have "2 ^ (fmt_fraction f + 3) * ?B div ?B \<le> (?A * 2 ^ ?s) div ?B" using B by (intro zdiv_mono1)
    then show ?thesis using B by simp
  qed
  then have big: "2 ^ (fmt_fraction f + 3) \<le> uint ?q" unfolding q by simp
  then have top: "fmt_fraction f + 2 \<le> top_bit ?q" using top_bit_geI [OF big] by linarith
  have nz: "?q \<noteq> 0" using big by (metis linorder_not_le unsigned_0 zero_less_numeral zero_less_power)
  have x: "part_mag a / part_mag b = of_int (?A * 2 ^ ?s) / of_int ?B * 2 powi (fp_exp a - fp_exp b - int ?s)"
  proof -
    have "(2 :: real) powi (fp_exp a - fp_exp b - int ?s) = 2 powi fp_exp a / 2 powi fp_exp b / 2 ^ ?s"
      using power_int_diff [of "2 :: real" "fp_exp a - fp_exp b" "int ?s"] power_int_diff [of "2 :: real" "fp_exp a" "fp_exp b"]
      by (simp only: power_int_of_nat) simp
    note e = this
    show ?thesis unfolding part_mag_def e by (simp add: field_simps)
  qed
  have "part_mag a / part_mag b \<noteq> 0" using part_mag_pos [OF False] part_mag_pos [OF assms(3)] by simp
  moreover have "float_div f a b = float_pack f (fp_negative a \<noteq> fp_negative b) ?q (fp_exp a - fp_exp b - int ?s)"
    using assms False by (simp add: float_div_def operand_def Let_def)
  ultimately show ?thesis using pack_rounds_sticky [OF nz st disjI2 [OF top]] unfolding x by simp
qed

subsection \<open>Addition\<close>

text \<open>The shifted smaller operand: exact, or with a sticky bit when at least four places are
  lost.\<close>

lemma jam_sticky:
  assumes "uint w < 2 ^ (fmt_fraction f + 4)" "8 dvd uint w" "w \<noteq> 0"
  shows "sticky (uint (jam w d)) (of_int (uint w) / 2 ^ d)"
    "of_int (uint w) / (2 :: real) ^ d = of_int (uint (jam w d)) \<or> 4 \<le> d \<and> uint (jam w d) \<le> 2 ^ fmt_fraction f"
proof -
  have w128: "uint w < 2 ^ 56"
  proof -
    have "(2 :: int) ^ (fmt_fraction f + 4) \<le> 2 ^ 56" using precision by (intro power_increasing) auto
    with assms(1) show ?thesis by linarith
  qed
  have pos: "0 < uint w" using assms(3) by (simp add: word_less_def word_neq_0_conv)
  consider "d = 0" | "128 \<le> d" | "0 < d" "d < 128" by linarith
  then have "sticky (uint (jam w d)) (of_int (uint w) / 2 ^ d) \<and>
    (of_int (uint w) / (2 :: real) ^ d = of_int (uint (jam w d)) \<or> 4 \<le> d \<and> uint (jam w d) \<le> 2 ^ fmt_fraction f)"
  proof cases
    case 1
    then show ?thesis by (simp add: jam_def sticky_def)
  next
    case 2
    then have "uint (jam w d) = 1" using assms(3) by (simp add: jam_def)
    have "(2 :: int) ^ 56 \<le> 2 ^ d" using 2 by (intro power_increasing) auto
    then have "uint w < 2 ^ d" using w128 by linarith
    then have "(of_int (uint w) :: real) < of_int (2 ^ d)" by (simp only: of_int_less_iff)
    then have "of_int (uint w) / (2 :: real) ^ d < 1" by simp
    moreover have "0 < of_int (uint w) / (2 :: real) ^ d" using pos by (intro divide_pos_pos) (simp_all only: of_int_0_less_iff, simp)
    moreover have "(1 :: int) \<le> 2 ^ fmt_fraction f" by simp
    ultimately show ?thesis using 2 \<open>uint (jam w d) = 1\<close> by (simp add: sticky_def)
  next
    case 3
    have mask: "w AND (push_bit d 1 - 1) = take_bit d w"
      by (simp add: take_bit_eq_mask mask_eq_decr_exp push_bit_eq_mult)
    have low: "take_bit d w \<noteq> 0 \<longleftrightarrow> uint w mod 2 ^ d \<noteq> 0" unfolding word_uint_eq_iff take_bit_uint by simp
    have u: "uint (jam w d) = (if uint w mod 2 ^ d \<noteq> 0 \<and> even (uint w div 2 ^ d) then uint w div 2 ^ d + 1 else uint w div 2 ^ d)"
    proof -
      have "jam w d = drop_bit d w OR of_bool (take_bit d w \<noteq> 0)" using 3 unfolding jam_def mask by simp
      then show ?thesis by (simp only: or_one low drop_bit_uint)
    qed
    have st: "sticky (uint (jam w d)) (of_int (uint w) / 2 ^ d)"
      using sticky_div [of "2 ^ d" "uint w"] unfolding u by simp
    have "4 \<le> d \<and> uint (jam w d) \<le> 2 ^ fmt_fraction f" if "uint w mod 2 ^ d \<noteq> 0"
    proof -
      have d: "4 \<le> d"
      proof (rule ccontr)
        assume "\<not> 4 \<le> d"
        then have "(2 :: int) ^ d dvd 2 ^ 3" by (intro le_imp_power_dvd) simp
        then have "2 ^ d dvd uint w" using assms(2) by (auto intro: dvd_trans)
        with that show False by simp
      qed
      have "uint w div 2 ^ d < 2 ^ fmt_fraction f"
      proof (rule ccontr)
        assume "\<not> uint w div 2 ^ d < 2 ^ fmt_fraction f"
        then have "2 ^ fmt_fraction f * 2 ^ d \<le> uint w div 2 ^ d * 2 ^ d" by (intro mult_right_mono) auto
        also have "\<dots> \<le> uint w" by (simp add: minus_mod_eq_div_mult [symmetric])
        finally have "(2 :: int) ^ (fmt_fraction f + d) < 2 ^ (fmt_fraction f + 4)" using assms(1) unfolding power_add by linarith
        with d show False by simp
      qed
      with d show ?thesis unfolding u by simp
    qed
    moreover have "of_int (uint w) / (2 :: real) ^ d = of_int (uint (jam w d))" if "uint w mod 2 ^ d = 0"
    proof -
      have "uint w = uint w div 2 ^ d * 2 ^ d" using that by (metis add.right_neutral div_mult_mod_eq)
      then have "(of_int (uint w) :: real) = of_int (uint w div 2 ^ d) * 2 ^ d" by (metis of_int_mult of_int_numeral of_int_power)
      then show ?thesis unfolding u using that by simp
    qed
    ultimately show ?thesis using st by (cases "uint w mod 2 ^ d = 0") blast+
  qed
  then show "sticky (uint (jam w d)) (of_int (uint w) / 2 ^ d)"
    "of_int (uint w) / (2 :: real) ^ d = of_int (uint (jam w d)) \<or> 4 \<le> d \<and> uint (jam w d) \<le> 2 ^ fmt_fraction f" by auto
qed

text \<open>Both operands nonzero, the larger magnitude first.\<close>

lemma add_ordered:
  assumes "operand a" "operand b" "fp_sig a \<noteq> 0" "fp_sig b \<noteq> 0"
    and ord: "fp_exp b < fp_exp a \<or> fp_exp b = fp_exp a \<and> fp_sig b \<le> fp_sig a"
  defines "av \<equiv> push_bit 3 (fp_sig a)" and "bv \<equiv> jam (push_bit 3 (fp_sig b)) (nat (fp_exp a - fp_exp b))"
  shows "rounds_to f negative (part_mag a + part_mag b) (float_pack f negative (av + bv) (fp_exp a - 3))"
    and "if part_mag a = part_mag b then av = bv
      else bv < av \<and> rounds_to f negative (part_mag a - part_mag b) (float_pack f negative (av - bv) (fp_exp a - 3))"
    and "part_mag b \<le> part_mag a"
proof -
  let ?A = "uint (fp_sig a)" and ?B = "uint (fp_sig b)" and ?p = "fmt_fraction f"
  define d where "d = nat (fp_exp a - fp_exp b)"
  have bv: "bv = jam (push_bit 3 (fp_sig b)) d" by (simp add: bv_def d_def)
  have a: "2 ^ ?p \<le> ?A" "?A < 2 ^ (?p + 1)" and b: "2 ^ ?p \<le> ?B" "?B < 2 ^ (?p + 1)"
    using assms(1-4) by (simp_all add: operand_def)
  have p53: "(2 :: int) ^ (?p + 1) \<le> 2 ^ 53" using precision by (intro power_increasing) auto
  have eight: "uint (push_bit 3 w) = 8 * uint w" if "uint w < 2 ^ (?p + 1)" for w :: u128
  proof -
    have "uint w * 8 < 2 ^ 128" using that p53 by simp
    then show ?thesis unfolding unsigned_push_bit_eq by (simp add: push_bit_eq_mult take_bit_int_eq_self mult_nonneg_nonneg)
  qed
  have av: "uint av = 8 * ?A" and b8: "uint (push_bit 3 (fp_sig b)) = 8 * ?B" using eight a(2) b(2) by (simp_all add: av_def)
  have b8nz: "push_bit 3 (fp_sig b) \<noteq> 0" using b8 assms(4) by (metis mult_eq_0_iff unsigned_0 unsigned_eq_0_iff zero_neq_numeral)
  have "8 * ?B < 2 ^ (?p + 4)" using b(2) unfolding power_add by simp
  then have st: "sticky (uint bv) (of_int (8 * ?B) / 2 ^ d)"
    and far: "of_int (8 * ?B) / (2 :: real) ^ d = of_int (uint bv) \<or> 4 \<le> d \<and> uint bv \<le> 2 ^ ?p"
    using jam_sticky [OF _ _ b8nz, of d] unfolding bv b8 by simp_all
  let ?Y = "of_int (8 * ?B) / (2 :: real) ^ d"
  have de: "fp_exp a = fp_exp b + int d" using ord by (auto simp: d_def)
  have pw: "(2 :: real) powi fp_exp a = 2 powi fp_exp b * 2 ^ d" "(2 :: real) powi (fp_exp a - 3) = 2 powi fp_exp a / 8"
    unfolding de by (simp_all add: power_int_add power_int_diff)
  have magb: "part_mag b = ?Y * 2 powi (fp_exp a - 3)" and maga: "part_mag a = of_int (8 * ?A) * 2 powi (fp_exp a - 3)"
    unfolding part_mag_def pw by simp_all
  have Yle: "?Y \<le> of_int (8 * ?A)"
  proof (cases "d = 0")
    case True
    then have "fp_sig b \<le> fp_sig a" using ord de by auto
    then have "8 * ?B \<le> 8 * ?A" by (simp add: word_le_def)
    then have "(of_int (8 * ?B) :: real) \<le> of_int (8 * ?A)" by (simp only: of_int_le_iff)
    with True show ?thesis by simp
  next
    case False
    have "(2 :: int) ^ 1 \<le> 2 ^ d" using False by (intro power_increasing) auto
    moreover have "?B \<le> 2 * ?A" using a(1) b(2) unfolding power_add by simp
    ultimately have "8 * ?B \<le> 8 * ?A * 2 ^ d"
      using mult_left_mono [of 2 "2 ^ d" "8 * ?A"] by simp
    then have "(of_int (8 * ?B) :: real) \<le> of_int (8 * ?A * 2 ^ d)" by (simp only: of_int_le_iff)
    then show ?thesis by (simp add: field_simps)
  qed
  then show "part_mag b \<le> part_mag a" unfolding maga magb by (intro mult_right_mono) simp_all
  have bvle: "uint bv \<le> 8 * ?A"
    using far
  proof
    assume "?Y = of_int (uint bv)"
    with Yle show ?thesis by (simp only: of_int_le_iff)
  next
    assume "4 \<le> d \<and> uint bv \<le> 2 ^ ?p"
    with a(1) show ?thesis using uint_ge_0 [of "fp_sig a"] by linarith
  qed
  have sum: "uint (av + bv) = 8 * ?A + uint bv"
    using uint_add_lem [of av bv] bvle a(2) p53 av by simp
  have diff: "uint (av - bv) = 8 * ?A - uint bv"
    using uint_sub_lem [of bv av] bvle av by simp
  have ev: "even (8 * ?A)" by simp
  have top: "of_int (8 * ?A) + s * ?Y = of_int (uint w) \<or> ?p + 2 \<le> top_bit w"
    if "uint w = 8 * ?A + of_int t * uint bv" "s = of_int t" "t = 1 \<or> t = - 1" for w s t
  proof (cases "?Y = of_int (uint bv)")
    case True
    then show ?thesis using that by simp
  next
    case False
    then have "uint bv \<le> 2 ^ ?p" using far by blast
    moreover have "uint w = 8 * ?A + uint bv \<or> uint w = 8 * ?A - uint bv" using that(1,3) by auto
    moreover have "(2 :: int) ^ (?p + 2) = 4 * 2 ^ ?p" "0 \<le> uint bv" by simp_all
    ultimately have "2 ^ (?p + 2) \<le> uint w" using a(1) zero_le_power [of "2 :: int" ?p] by linarith
    then show ?thesis using top_bit_geI by blast
  qed
  have "0 < (2 :: int) ^ ?p" "0 \<le> uint bv" by simp_all
  then have pos: "0 < uint (av + bv)" using sum a(1) by linarith
  then have nz: "av + bv \<noteq> 0" by auto
  have "sticky (uint (av + bv)) (of_int (8 * ?A) + ?Y)" unfolding sum by (rule sticky_even_add(1) [OF st ev])
  from pack_rounds_sticky [OF nz this, of negative "fp_exp a - 3"] top [of "av + bv" 1 1] sum
  show "rounds_to f negative (part_mag a + part_mag b) (float_pack f negative (av + bv) (fp_exp a - 3))"
    unfolding maga magb by (simp add: distrib_right)
  have st': "sticky (uint (av - bv)) (of_int (8 * ?A) - ?Y)" unfolding diff by (rule sticky_even_add(2) [OF st ev])
  have zero: "part_mag a = part_mag b \<longleftrightarrow> uint (av - bv) = 0"
    using sticky_nonneg [OF st'] unfolding maga magb mult_cancel_right by simp
  show "if part_mag a = part_mag b then av = bv
      else bv < av \<and> rounds_to f negative (part_mag a - part_mag b) (float_pack f negative (av - bv) (fp_exp a - 3))"
  proof (cases "part_mag a = part_mag b")
    case True
    then show ?thesis using zero by (simp add: unsigned_eq_0_iff)
  next
    case False
    then have nz: "av - bv \<noteq> 0" using zero by auto
    moreover have "bv < av" using bvle av nz by (simp add: word_less_def less_le) (metis right_minus_eq word_uint_eqI)
    moreover have "rounds_to f negative (part_mag a - part_mag b) (float_pack f negative (av - bv) (fp_exp a - 3))"
      using pack_rounds_sticky [OF nz st', of negative "fp_exp a - 3"] top [of "av - bv" "- 1" "- 1"] diff
      unfolding maga magb by (simp add: left_diff_distrib)
    ultimately show ?thesis using False by simp
  qed
qed

lemma add_ordered_rounds:
  assumes "operand a" "operand b" "fp_sig a \<noteq> 0" "fp_sig b \<noteq> 0"
    and ord: "fp_exp b < fp_exp a \<or> fp_exp b = fp_exp a \<and> fp_sig b \<le> fp_sig a"
  defines "av \<equiv> push_bit 3 (fp_sig a)" and "bv \<equiv> jam (push_bit 3 (fp_sig b)) (nat (fp_exp a - fp_exp b))"
  defines "v \<equiv> (if fp_negative a = fp_negative b then float_pack f (fp_negative a) (av + bv) (fp_exp a - 3)
    else float_pack f (fp_negative a \<and> av \<noteq> bv) (av - bv) (fp_exp a - 3))"
  shows "if part_value a + part_value b = 0 then v = fmt_special f (fp_negative a \<and> fp_negative b) False
    else rounds_to f (part_value a + part_value b < 0) \<bar>part_value a + part_value b\<bar> v"
proof -
  note o = add_ordered [OF assms(1-5), folded av_def bv_def]
  note pos = part_mag_pos [OF assms(3)] part_mag_pos [OF assms(4)]
  show ?thesis
  proof (cases "fp_negative a = fp_negative b")
    case True
    then have "part_value a + part_value b = (if fp_negative a then - (part_mag a + part_mag b) else part_mag a + part_mag b)"
      by (simp add: part_value_def)
    with pos have "part_value a + part_value b \<noteq> 0" "(part_value a + part_value b < 0) = fp_negative a"
      "\<bar>part_value a + part_value b\<bar> = part_mag a + part_mag b" by (simp_all split: if_splits)
    then show ?thesis using True o(1) by (simp add: v_def)
  next
    case False
    then have sum: "part_value a + part_value b = (if fp_negative a then - (part_mag a - part_mag b) else part_mag a - part_mag b)"
      by (auto simp: part_value_def)
    show ?thesis
    proof (cases "part_mag a = part_mag b")
      case True
      then show ?thesis using False o(2) sum by (simp add: v_def float_pack_def)
    next
      case ne: False
      with o(3) have "part_value a + part_value b \<noteq> 0" "(part_value a + part_value b < 0) = fp_negative a"
        "\<bar>part_value a + part_value b\<bar> = part_mag a - part_mag b" unfolding sum by simp_all
      moreover have "av \<noteq> bv" using o(2) ne by auto
      ultimately show ?thesis using False ne o(2) by (simp add: v_def)
    qed
  qed
qed

lemma add_rounds:
  assumes "operand a" "operand b"
  shows "if part_value a + part_value b = 0 then float_add f a b = fmt_special f (fp_negative a \<and> fp_negative b) False
    else rounds_to f (part_value a + part_value b < 0) \<bar>part_value a + part_value b\<bar> (float_add f a b)"
proof -
  have fin: "\<not> fp_infinity a" "\<not> fp_infinity b" using assms by (simp_all add: operand_def)
  have one: "if part_value p = 0 then False
    else rounds_to f (part_value p < 0) \<bar>part_value p\<bar> (float_pack f (fp_negative p) (fp_sig p) (fp_exp p))"
    if "fp_sig p \<noteq> 0" for p
    using pack_rounds [OF that, of "fp_negative p" "fp_exp p", folded part_mag_def] part_mag_pos [OF that]
    by (cases "fp_negative p") (simp_all add: part_value_def)
  consider "fp_sig a = 0" "fp_sig b = 0" | "fp_sig a = 0" "fp_sig b \<noteq> 0" | "fp_sig a \<noteq> 0" "fp_sig b = 0"
    | "fp_sig a \<noteq> 0" "fp_sig b \<noteq> 0" by blast
  then show ?thesis
  proof cases
    case 1
    then show ?thesis using fin by (simp add: part_value_def part_mag_def float_add_def)
  next
    case 2
    then have "part_value a = 0" using part_mag_0 [of a] by (simp add: part_value_def)
    then show ?thesis using 2 fin one [OF 2(2)] by (simp add: float_add_def split: if_splits)
  next
    case 3
    then have "part_value b = 0" using part_mag_0 [of b] by (simp add: part_value_def)
    then show ?thesis using 3 fin one [OF 3(1)] by (simp add: float_add_def split: if_splits)
  next
    case 4
    show ?thesis
    proof (cases "fp_exp a < fp_exp b \<or> fp_exp a = fp_exp b \<and> fp_sig a < fp_sig b")
      case True
      then have ord: "fp_exp a < fp_exp b \<or> fp_exp a = fp_exp b \<and> fp_sig a \<le> fp_sig b" by auto
      have "float_add f a b =
          (let av = push_bit 3 (fp_sig b); bv = jam (push_bit 3 (fp_sig a)) (nat (fp_exp b - fp_exp a)) in
           if fp_negative b = fp_negative a then float_pack f (fp_negative b) (av + bv) (fp_exp b - 3)
           else float_pack f (fp_negative b \<and> av \<noteq> bv) (av - bv) (fp_exp b - 3))"
        using 4 fin True by (simp add: float_add_def Let_def)
      with add_ordered_rounds [OF assms(2,1) 4(2,1) ord] show ?thesis
        by (simp only: Let_def add.commute [of "part_value a"] conj_commute [of "fp_negative a"])
    next
      case False
      then have ord: "fp_exp b < fp_exp a \<or> fp_exp b = fp_exp a \<and> fp_sig b \<le> fp_sig a" by auto
      have "float_add f a b =
          (let av = push_bit 3 (fp_sig a); bv = jam (push_bit 3 (fp_sig b)) (nat (fp_exp a - fp_exp b)) in
           if fp_negative a = fp_negative b then float_pack f (fp_negative a) (av + bv) (fp_exp a - 3)
           else float_pack f (fp_negative a \<and> av \<noteq> bv) (av - bv) (fp_exp a - 3))"
        using 4 fin False by (auto simp: float_add_def Let_def)
      with add_ordered_rounds [OF assms 4 ord] show ?thesis by (simp only: Let_def)
    qed
  qed
qed

subsection \<open>Remainder\<close>

lemma mult_power_mod: "(x mod m) * (a mod m) ^ n mod m = x * a ^ n mod m" for x a m :: int
proof -
  have "(x mod m) * (a mod m) ^ n mod m = (x mod m) * ((a mod m) ^ n mod m) mod m" by (simp only: mod_mult_right_eq)
  also have "\<dots> = (x mod m) * (a ^ n mod m) mod m" by (simp only: power_mod)
  finally show ?thesis by (simp only: mod_mult_eq)
qed

lemma uint_mult_mod:
  fixes a b m :: u128
  assumes "uint m < 2 ^ 53" "uint a < uint m" "uint b < uint m"
  shows "uint (a * b mod m) = uint a * uint b mod uint m"
proof -
  have "uint a * uint b < 2 ^ 53 * 2 ^ 53" using assms by (intro mult_strict_mono') simp_all
  then have "uint (a * b) = uint a * uint b" using uint_mult_lem [of a b] by simp
  then show ?thesis by (simp add: uint_mod_distrib)
qed

lemma rem_loop_mod:
  assumes "uint m < 2 ^ 53" "uint r < uint m" "uint pw < uint m"
  shows "uint (rem_loop m r pw k) = (uint r * uint pw ^ k) mod uint m"
  using assms(2,3)
proof (induction k arbitrary: r pw rule: less_induct)
  case (less k)
  show ?case
  proof (cases "k = 0")
    case True
    then show ?thesis using less.prems(1) by (simp add: rem_loop.simps mod_pos_pos_trivial)
  next
    case False
    let ?M = "uint m" and ?P = "uint pw" and ?h = "k div 2"
    let ?r = "if odd k then r * pw mod m else r"
    have M: "0 < ?M" using less.prems(1) uint_ge_0 [of r] by linarith
    note sq = uint_mult_mod [OF assms(1) less.prems(2,2)] and rp = uint_mult_mod [OF assms(1) less.prems]
    have r: "uint ?r = uint r * ?P ^ (k mod 2) mod ?M"
    proof (cases "odd k")
      case True
      then show ?thesis using rp by (simp add: odd_iff_mod_2_eq_one)
    next
      case False
      then show ?thesis using less.prems(1) by (simp add: even_iff_mod_2_eq_zero mod_pos_pos_trivial)
    qed
    have "uint ?r < ?M" "uint (pw * pw mod m) < ?M" using M unfolding r sq by simp_all
    with less.IH [of ?h ?r "pw * pw mod m"] False
    have "uint (rem_loop m r pw k) = uint ?r * uint (pw * pw mod m) ^ ?h mod ?M"
      by (simp add: rem_loop.simps [of m r pw k])
    also have "\<dots> = (uint r * ?P ^ (k mod 2)) * (?P * ?P) ^ ?h mod ?M"
      unfolding r sq by (rule mult_power_mod)
    also have "(uint r * ?P ^ (k mod 2)) * (?P * ?P) ^ ?h = uint r * ?P ^ (k mod 2 + 2 * ?h)"
      unfolding power_add power_mult power2_eq_square by (rule mult.assoc)
    also have "k mod 2 + 2 * ?h = k" by simp
    finally show ?thesis .
  qed
qed

lemma rem_rounds:
  assumes "operand a" "operand b" "fp_sig b \<noteq> 0" "fp_exp b \<le> fp_exp a" "fp_sig a \<noteq> 0"
  defines "x \<equiv> part_mag a - part_mag b * of_int \<lfloor>part_mag a / part_mag b\<rfloor>"
  shows "if x = 0 then float_rem f lhs a b = fmt_special f (fp_negative a) False
    else rounds_to f (fp_negative a) x (float_rem f lhs a b)"
proof -
  let ?A = "uint (fp_sig a)" and ?B = "uint (fp_sig b)"
  define k where "k = nat (fp_exp a - fp_exp b)"
  define R where "R = rem_loop (fp_sig b) (fp_sig a mod fp_sig b) (2 mod fp_sig b) k"
  have p53: "(2 :: int) ^ (fmt_fraction f + 1) \<le> 2 ^ 53" using precision by (intro power_increasing) auto
  have B: "0 < ?B" "?B < 2 ^ 53"
    using operand_bound [OF assms(2)] p53 assms(3) by (auto simp: word_less_def word_neq_0_conv)
  have "uint (fp_sig a mod fp_sig b) = ?A mod ?B" "uint (2 mod fp_sig b) = 2 mod ?B" by (simp_all add: uint_mod_distrib)
  then have "uint R = (?A mod ?B) * (2 mod ?B) ^ k mod ?B"
    unfolding R_def using rem_loop_mod [OF B(2)] B(1) by simp
  then have R: "uint R = ?A * 2 ^ k mod ?B" by (simp only: mult_power_mod)
  have ea: "fp_exp a = fp_exp b + int k" using assms(4) by (simp add: k_def)
  have ma: "part_mag a = of_int (?A * 2 ^ k) * 2 powi fp_exp b" unfolding part_mag_def ea by (simp add: power_int_add)
  have "part_mag a / part_mag b = of_int (?A * 2 ^ k) / of_int ?B" unfolding ma by (simp add: part_mag_def)
  then have fl: "\<lfloor>part_mag a / part_mag b\<rfloor> = ?A * 2 ^ k div ?B" by (simp only: floor_divide_of_int_eq)
  have "?A * 2 ^ k - ?B * (?A * 2 ^ k div ?B) = uint R" unfolding R by (simp only: minus_mult_div_eq_mod)
  moreover have "of_int m * c - of_int n * c * of_int q = of_int (m - n * q) * c" for m n q and c :: real
    by (simp add: algebra_simps)
  ultimately have x: "x = of_int (uint R) * 2 powi fp_exp b"
    unfolding x_def fl unfolding ma part_mag_def [of b] by (simp only:)
  have "float_rem f lhs a b = float_pack f (fp_negative a) R (fp_exp b)"
    using assms(1-5) by (simp add: float_rem_def operand_def R_def k_def)
  moreover have "x = 0 \<longleftrightarrow> R = 0" unfolding x by (simp add: unsigned_eq_0_iff)
  ultimately show ?thesis using pack_rounds [of R "fp_negative a" "fp_exp b"] unfolding x by (auto simp: float_pack_def)
qed

lemma pow_powi: "(2 :: real) ^ n * 2 powi j = 2 powi (int n + j)"
  by (simp add: power_int_add)

lemma log_less_powi: "0 < x \<Longrightarrow> x < 2 powi k \<Longrightarrow> log 2 x < of_int k"
  by (simp add: log_less_iff powr_real_of_int')

lemma round_0: "fl_round f 0 = 0"
  using rne_of_int [of 0] by (simp add: fl_round_def)

lemma special_rounds: "rounds_to f negative 0 (fmt_special f negative False)"
  using fmt_special_fields(1,2) [of negative False] fmt_special_fields(4,5) [of negative] by (simp add: rounds_to_def round_0)

text \<open>Numbers of the format are their own roundings.\<close>

lemma round_exact:
  assumes "0 \<le> m" "m < 2 ^ (fmt_fraction f + 1)" "1 - fmt_bias f - int (fmt_fraction f) \<le> j"
  shows "fl_round f (of_int m * 2 powi j) = of_int m * 2 powi j"
proof (cases "m = 0")
  case True
  then show ?thesis by (simp add: round_0)
next
  case False
  let ?x = "of_int m * (2 :: real) powi j"
  have pos: "0 < ?x" using False assms(1) by (intro mult_pos_pos) simp_all
  have "(of_int m :: real) < of_int (2 ^ (fmt_fraction f + 1))" using assms(2) by (simp only: of_int_less_iff)
  then have "?x < 2 ^ (fmt_fraction f + 1) * 2 powi j" by simp
  also have "\<dots> = 2 powi (int (fmt_fraction f + 1) + j)" by (rule pow_powi)
  finally have "log 2 ?x < of_int (int (fmt_fraction f + 1) + j)" by (rule log_less_powi [OF pos])
  then have "\<lfloor>log 2 ?x\<rfloor> < int (fmt_fraction f + 1) + j" by (simp add: floor_less_iff)
  define q where "q = fl_quantum f ?x"
  have q: "q \<le> j" using \<open>\<lfloor>log 2 ?x\<rfloor> < _\<close> assms(3) by (simp add: q_def fl_quantum_def)
  have e: "(2 :: real) powi j = 2 ^ nat (j - q) * 2 powi q" using q by (simp add: pow_powi)
  have "?x / 2 powi q = of_int (m * 2 ^ nat (j - q))" unfolding e by simp
  then have "rne (?x / 2 powi q) = m * 2 ^ nat (j - q)" by (simp only: rne_of_int)
  then show ?thesis unfolding fl_round_def q_def [symmetric] unfolding e by simp
qed

lemma magnitude_shape:
  assumes "float_width v = fmt_width f" "fl_finite f v"
  obtains m where "0 \<le> m" "m < 2 ^ (fmt_fraction f + 1)"
    "fl_magnitude f v = of_int m * 2 powi (max (fl_expo f v) 1 - fmt_bias f - int (fmt_fraction f))"
proof
  let ?m = "(if fl_expo f v = 0 then 0 else 2 ^ fmt_fraction f) + fl_frac f v"
  have "fl_frac f v < 2 ^ fmt_fraction f" "0 \<le> fl_frac f v" by (simp_all add: fl_frac_def unsigned_take_bit_eq)
  then show "0 \<le> ?m" "?m < 2 ^ (fmt_fraction f + 1)" by (simp_all add: add_nonneg_nonneg)
  show "fl_magnitude f v = of_int ?m * 2 powi (max (fl_expo f v) 1 - fmt_bias f - int (fmt_fraction f))"
    by (simp only: fl_magnitude_def)
qed

lemma self_rounds:
  assumes "float_width v = fmt_width f" "fl_finite f v"
  shows "rounds_to f (fl_sign f v) (fl_magnitude f v) v"
proof -
  obtain m where m: "0 \<le> m" "m < 2 ^ (fmt_fraction f + 1)"
    "fl_magnitude f v = of_int m * 2 powi (max (fl_expo f v) 1 - fmt_bias f - int (fmt_fraction f))"
    using magnitude_shape [OF assms] .
  let ?j = "max (fl_expo f v) 1 - fmt_bias f - int (fmt_fraction f)"
  have r: "fl_round f (fl_magnitude f v) = fl_magnitude f v" unfolding m(3) by (rule round_exact [OF m(1,2)]) simp
  have "(of_int m :: real) < of_int (2 ^ (fmt_fraction f + 1))" using m(2) by (simp only: of_int_less_iff)
  then have "fl_magnitude f v < 2 ^ (fmt_fraction f + 1) * 2 powi ?j" unfolding m(3) by simp
  also have "\<dots> = 2 powi (int (fmt_fraction f + 1) + ?j)" by (rule pow_powi)
  also have "\<dots> \<le> 2 powi (fmt_bias f + 1)"
    using assms(2) bias_pos by (intro power_int_increasing) (auto simp: fl_finite_def)
  finally show ?thesis using assms r by (simp add: rounds_to_def)
qed

lemma zero_or_rounds:
  assumes "if x = 0 then v = fmt_special f z False else rounds_to f neg y v" "x = 0 \<Longrightarrow> y = 0" "x = 0 \<Longrightarrow> s = z" "x \<noteq> 0 \<Longrightarrow> s = neg"
  shows "rounds_to f s y v"
  using assms special_rounds by (cases "x = 0") auto

end

subsection \<open>Exact results\<close>

text \<open>The real result of an operation; the remainder has the sign of the dividend, its quotient
  is truncated.  A zero result takes its sign from the operands.\<close>

definition exact_result :: "bin_op \<Rightarrow> real \<Rightarrow> real \<Rightarrow> real" where
  "exact_result op x y =
     (case op of FAdd \<Rightarrow> x + y | FSub \<Rightarrow> x - y | FMul \<Rightarrow> x * y | FDiv \<Rightarrow> x / y
      | FRem \<Rightarrow> sgn x * (\<bar>x\<bar> - \<bar>y\<bar> * of_int \<lfloor>\<bar>x\<bar> / \<bar>y\<bar>\<rfloor>) | _ \<Rightarrow> 0)"

definition zero_sign :: "bin_op \<Rightarrow> bool \<Rightarrow> bool \<Rightarrow> bool" where
  "zero_sign op a b = (case op of FAdd \<Rightarrow> a \<and> b | FSub \<Rightarrow> a \<and> \<not> b | FRem \<Rightarrow> a | _ \<Rightarrow> a \<noteq> b)"

context binary_format
begin

lemma value_parts:
  assumes "float_width v = fmt_width f" "fl_finite f v" "p = float_normalize f (float_unpack f v)"
  shows "operand p" "part_value p = fl_value f v" "fp_negative p = fl_sign f v" "part_mag p = \<bar>fl_value f v\<bar>"
    "fl_magnitude f v = \<bar>fl_value f v\<bar>"
proof -
  note u = unpack_operand [OF assms(1,2) refl]
  note n = normalize_operand [OF u(1-3), folded assms(3)]
  show "operand p" by (rule n(1))
  show neg: "fp_negative p = fl_sign f v" using n(3) unpack_fields(1) [OF assms(1)] by simp
  have mag: "part_mag p = fl_magnitude f v" using n(2) u(4) by simp
  then show val: "part_value p = fl_value f v" by (simp add: part_value_def fl_value_def neg)
  show "fl_magnitude f v = \<bar>fl_value f v\<bar>" using mag part_mag_nonneg [of p] by (simp add: fl_value_def)
  with mag show "part_mag p = \<bar>fl_value f v\<bar>" by simp
qed

lemma sign_value:
  assumes "float_width v = fmt_width f" "fl_finite f v" "fl_value f v \<noteq> 0"
  shows "fl_sign f v \<longleftrightarrow> fl_value f v < 0"
  using assms(3) value_parts(5) [OF assms(1,2) refl] by (auto simp: fl_value_def split: if_splits)

lemma sign_mult: "x \<noteq> 0 \<Longrightarrow> y \<noteq> 0 \<Longrightarrow> x * y < 0 \<longleftrightarrow> (x < 0) \<noteq> (y < 0)" for x y :: real
  by (auto simp: mult_less_0_iff linorder_neq_iff)

lemma sign_div: "x \<noteq> 0 \<Longrightarrow> y \<noteq> 0 \<Longrightarrow> x / y < 0 \<longleftrightarrow> (x < 0) \<noteq> (y < 0)" for x y :: real
  by (auto simp: divide_less_0_iff linorder_neq_iff)

lemma arithmetic_rounds:
  assumes a: "float_width a = fmt_width f" "fl_finite f a" and b: "float_width b = fmt_width f" "fl_finite f b"
    and op: "op \<in> {FAdd, FSub, FMul, FDiv, FRem}" and nz: "op = FDiv \<or> op = FRem \<longrightarrow> fl_value f b \<noteq> 0"
    and f: "format_of a = f"
  defines "x \<equiv> exact_result op (fl_value f a) (fl_value f b)"
  shows "\<exists>v. float_arithmetic op a b = Some v \<and>
    rounds_to f (if x = 0 then zero_sign op (fl_sign f a) (fl_sign f b) else x < 0) \<bar>x\<bar> v"
proof -
  define A where "A = float_normalize f (float_unpack f a)"
  define B where "B = float_normalize f (float_unpack f b)"
  define C where "C = float_normalize f ((float_unpack f b)\<lparr>fp_negative := \<not> fp_negative (float_unpack f b)\<rparr>)"
  note pa = value_parts [OF a A_def] and pb = value_parts [OF b B_def]
  have C: "C = B\<lparr>fp_negative := \<not> fp_negative B\<rparr>" by (simp add: C_def B_def float_normalize_def Let_def)
  have pc: "operand C" "part_value C = - fl_value f b" "fp_negative C = (\<not> fl_sign f b)"
    using pb unfolding C by (auto simp: operand_def part_value_def part_mag_def)
  note na = unpack_operand(2) [OF a refl] and nb = unpack_operand(2) [OF b refl]
  note sa = sign_value [OF a] and sb = sign_value [OF b]
  have Bnz: "fp_sig B = 0 \<longleftrightarrow> fl_value f b = 0" and Anz: "fp_sig A = 0 \<longleftrightarrow> fl_value f a = 0"
    using part_mag_0 [of B] part_mag_0 [of A] pa(4) pb(4) by auto
  have w: "float_width a = float_width b" using a b by simp
  consider "op = FAdd" | "op = FSub" | "op = FMul" | "op = FDiv" | "op = FRem" using op by auto
  then show ?thesis
  proof cases
    case 1
    then have x: "x = fl_value f a + fl_value f b" by (simp add: x_def exact_result_def)
    from 1 have "float_arithmetic op a b = Some (float_add f A B)"
      using w na nb f by (simp add: float_arithmetic_def A_def B_def)
    moreover have "rounds_to f (if x = 0 then zero_sign op (fl_sign f a) (fl_sign f b) else x < 0) \<bar>x\<bar> (float_add f A B)"
      using add_rounds [OF pa(1) pb(1)] unfolding x 1 pa(2,3) pb(2,3)
      by (rule zero_or_rounds) (simp_all add: zero_sign_def)
    ultimately show ?thesis by blast
  next
    case 2
    then have x: "x = fl_value f a - fl_value f b" by (simp add: x_def exact_result_def)
    from 2 have "float_arithmetic op a b = Some (float_add f A C)"
      using w na nb f by (simp add: float_arithmetic_def A_def C_def Let_def)
    moreover have "rounds_to f (if x = 0 then zero_sign op (fl_sign f a) (fl_sign f b) else x < 0) \<bar>x\<bar> (float_add f A C)"
      using add_rounds [OF pa(1) pc(1)] unfolding x 2 pa(2,3) pc(2,3) add_uminus_conv_diff
      by (rule zero_or_rounds) (simp_all add: zero_sign_def)
    ultimately show ?thesis by blast
  next
    case 3
    then have x: "x = fl_value f a * fl_value f b" by (simp add: x_def exact_result_def)
    from 3 have "float_arithmetic op a b = Some (float_mul f A B)"
      using w na nb f by (simp add: float_arithmetic_def A_def B_def)
    moreover have "rounds_to f (if x = 0 then zero_sign op (fl_sign f a) (fl_sign f b) else x < 0) \<bar>x\<bar> (float_mul f A B)"
      using mul_rounds [OF pa(1) pb(1)] unfolding x 3 pa(3,4) pb(3,4) abs_mult [symmetric]
      by (rule zero_or_rounds) (use sa sb in \<open>auto simp: zero_sign_def sign_mult\<close>)
    ultimately show ?thesis by blast
  next
    case 4
    then have x: "x = fl_value f a / fl_value f b" by (simp add: x_def exact_result_def)
    from 4 have "float_arithmetic op a b = Some (float_div f A B)"
      using w na nb f by (simp add: float_arithmetic_def A_def B_def)
    moreover have "fp_sig B \<noteq> 0" using nz 4 Bnz by simp
    then have "rounds_to f (if x = 0 then zero_sign op (fl_sign f a) (fl_sign f b) else x < 0) \<bar>x\<bar> (float_div f A B)"
      using div_rounds [OF pa(1) pb(1)] unfolding x 4 pa(3,4) pb(3,4) abs_divide [symmetric]
      by - (rule zero_or_rounds, assumption, use sa sb in \<open>auto simp: zero_sign_def sign_div\<close>)
    ultimately show ?thesis by blast
  next
    case 5
    then have run: "float_arithmetic op a b = Some (float_rem f a A B)"
      using w na nb f by (simp add: float_arithmetic_def A_def B_def)
    have B0: "fp_sig B \<noteq> 0" using nz 5 Bnz by simp
    let ?r = "\<bar>fl_value f a\<bar> - \<bar>fl_value f b\<bar> * of_int \<lfloor>\<bar>fl_value f a\<bar> / \<bar>fl_value f b\<bar>\<rfloor>"
    have r0: "0 \<le> ?r"
    proof -
      have "of_int \<lfloor>\<bar>fl_value f a\<bar> / \<bar>fl_value f b\<bar>\<rfloor> \<le> \<bar>fl_value f a\<bar> / \<bar>fl_value f b\<bar>" by (rule of_int_floor_le)
      then have "\<bar>fl_value f b\<bar> * of_int \<lfloor>\<bar>fl_value f a\<bar> / \<bar>fl_value f b\<bar>\<rfloor> \<le> \<bar>fl_value f b\<bar> * (\<bar>fl_value f a\<bar> / \<bar>fl_value f b\<bar>)"
        by (intro mult_left_mono) simp_all
      then show ?thesis using B0 Bnz by simp
    qed
    have x: "x = sgn (fl_value f a) * ?r" by (simp add: x_def exact_result_def 5)
    have self: "rounds_to f (fl_sign f a) \<bar>fl_value f a\<bar> a" using self_rounds [OF a] pa(5) by simp
    have "rounds_to f (fl_sign f a) ?r (float_rem f a A B) \<or> fl_value f a = 0 \<and> float_rem f a A B = a"
    proof (cases "fp_sig A = 0 \<or> fp_exp A < fp_exp B")
      case True
      then have ret: "float_rem f a A B = a" using B0 pa(1) pb(1) by (simp add: float_rem_def operand_def)
      show ?thesis
      proof (cases "fl_value f a = 0")
        case False
        then have lt: "fp_exp A < fp_exp B" using True Anz by simp
        have "part_mag A < part_mag B"
        proof -
          have "(of_int (uint (fp_sig A)) :: real) < of_int (2 ^ (fmt_fraction f + 1))"
            using operand_bound [OF pa(1)] by (simp only: of_int_less_iff)
          then have "part_mag A < 2 ^ (fmt_fraction f + 1) * 2 powi fp_exp A" unfolding part_mag_def by simp
          also have "\<dots> = 2 powi (int (fmt_fraction f + 1) + fp_exp A)" by (rule pow_powi)
          also have "\<dots> \<le> 2 powi (int (fmt_fraction f) + fp_exp B)" using lt by (intro power_int_increasing) simp_all
          also have "\<dots> = 2 ^ fmt_fraction f * 2 powi fp_exp B" by (rule pow_powi [symmetric])
          also have "\<dots> \<le> part_mag B"
          proof -
            have "(of_int (2 ^ fmt_fraction f) :: real) \<le> of_int (uint (fp_sig B))"
              using pb(1) B0 by (simp only: of_int_le_iff operand_def) blast
            then show ?thesis unfolding part_mag_def by (intro mult_right_mono) simp_all
          qed
          finally show ?thesis .
        qed
        then have "\<lfloor>\<bar>fl_value f a\<bar> / \<bar>fl_value f b\<bar>\<rfloor> = 0" unfolding pa(4) pb(4) by (intro floor_unique) simp_all
        then show ?thesis using self ret by simp
      qed (use ret in simp)
    next
      case False
      then have "fp_sig A \<noteq> 0" "fp_exp B \<le> fp_exp A" by auto
      from rem_rounds [OF pa(1) pb(1) B0 this(2,1), of a] have "rounds_to f (fl_sign f a) ?r (float_rem f a A B)"
        unfolding pa(3,4) pb(4) by (rule zero_or_rounds) simp_all
      then show ?thesis ..
    qed
    moreover have "\<bar>x\<bar> = ?r \<and> (if x = 0 then zero_sign op (fl_sign f a) (fl_sign f b) else x < 0) = fl_sign f a" if "fl_value f a \<noteq> 0"
      using that r0 sa unfolding x 5 zero_sign_def by (auto simp: abs_mult mult_less_0_iff sgn_if split: if_splits)
    moreover have "x = 0" if "fl_value f a = 0" using that x by simp
    ultimately show ?thesis using run self 5 by (cases "fl_value f a = 0") (auto simp: zero_sign_def)
  qed
qed

subsection \<open>Correct rounding is rounding to a nearest number\<close>

lemma rne_nearest: "\<bar>of_int (rne y) - y\<bar> \<le> \<bar>of_int n - y\<bar>"
proof -
  have fr: "y = of_int \<lfloor>y\<rfloor> + frac y" by (simp add: frac_def)
  note fr = fr frac_ge_0 [of y] frac_lt_1 [of y]
  have "frac y \<le> \<bar>of_int n - y\<bar> \<or> 1 - frac y \<le> \<bar>of_int n - y\<bar>"
  proof (cases "n \<le> \<lfloor>y\<rfloor>")
    case True
    then have "(of_int n :: real) \<le> of_int \<lfloor>y\<rfloor>" by (simp only: of_int_le_iff)
    then show ?thesis using fr by linarith
  next
    case False
    then have "(of_int (\<lfloor>y\<rfloor> + 1) :: real) \<le> of_int n" by (simp only: of_int_le_iff)
    then show ?thesis using fr by simp
  qed
  moreover have "\<bar>of_int (rne y) - y\<bar> \<le> frac y \<and> \<bar>of_int (rne y) - y\<bar> \<le> 1 - frac y"
    using fr unfolding rne_def by auto
  ultimately show ?thesis by linarith
qed

lemma round_nearest_multiple: "\<bar>fl_round f x - x\<bar> \<le> \<bar>of_int n * 2 powi fl_quantum f x - x\<bar>"
proof -
  let ?u = "(2 :: real) powi fl_quantum f x"
  have "\<bar>of_int (rne (x / ?u)) - x / ?u\<bar> * ?u \<le> \<bar>of_int n - x / ?u\<bar> * ?u" using rne_nearest by (intro mult_right_mono) simp_all
  moreover have "\<bar>of_int k - x / ?u\<bar> * ?u = \<bar>of_int k * ?u - x\<bar>" for k
  proof -
    have "\<bar>of_int k - x / ?u\<bar> * ?u = \<bar>(of_int k - x / ?u) * ?u\<bar>" by (simp add: abs_mult)
    also have "(of_int k - x / ?u) * ?u = of_int k * ?u - x" by (simp add: left_diff_distrib)
    finally show ?thesis .
  qed
  ultimately show ?thesis by (simp only: fl_round_def)
qed

lemma log_ge_powi: "2 powi k \<le> x" if "of_int k \<le> log 2 x" "0 < x"
proof -
  have "2 powr of_int k \<le> x" using that by (simp add: le_log_iff)
  then show ?thesis by (simp add: powr_real_of_int')
qed

lemma round_nearest:
  assumes "0 < x" "float_width u = fmt_width f" "fl_finite f u"
  shows "\<bar>fl_round f x - x\<bar> \<le> \<bar>fl_magnitude f u - x\<bar>"
proof -
  define j where "j = max (fl_expo f u) 1 - fmt_bias f - int (fmt_fraction f)"
  obtain m where m: "0 \<le> m" "m < 2 ^ (fmt_fraction f + 1)" "fl_magnitude f u = of_int m * 2 powi j"
    using magnitude_shape [OF assms(2,3)] unfolding j_def .
  define q where "q = fl_quantum f x"
  show ?thesis
  proof (cases "q \<le> j")
    case True
    have "fl_magnitude f u = of_int (m * 2 ^ nat (j - q)) * 2 powi q"
      using True unfolding m(3) by (simp add: mult.assoc pow_powi)
    then show ?thesis using round_nearest_multiple [of x "m * 2 ^ nat (j - q)"] by (simp add: q_def)
  next
    case False
    then have "1 - fmt_bias f - int (fmt_fraction f) < q" by (simp add: j_def)
    then have q: "\<lfloor>log 2 x\<rfloor> = int (fmt_fraction f) + q" by (simp add: q_def fl_quantum_def max_def split: if_splits)
    have "of_int (int (fmt_fraction f) + q) \<le> log 2 x" using q by (simp add: floor_eq_iff)
    then have "2 powi (int (fmt_fraction f) + q) \<le> x" using assms(1) by (rule log_ge_powi)
    then have lo: "2 ^ fmt_fraction f * 2 powi q \<le> x" by (simp only: pow_powi)
    have "(of_int m :: real) < of_int (2 ^ (fmt_fraction f + 1))" using m(2) by (simp only: of_int_less_iff)
    then have "of_int m * (2 :: real) powi j \<le> 2 ^ (fmt_fraction f + 1) * 2 powi j" by (intro mult_right_mono) simp_all
    also have "\<dots> = 2 powi (int (fmt_fraction f + 1) + j)" by (rule pow_powi)
    also have "\<dots> \<le> 2 powi (int (fmt_fraction f) + q)" using False by (intro power_int_increasing) simp_all
    also have "\<dots> = 2 ^ fmt_fraction f * 2 powi q" by (rule pow_powi [symmetric])
    finally have "fl_magnitude f u \<le> 2 ^ fmt_fraction f * 2 powi q" by (simp only: m(3))
    then show ?thesis using round_nearest_multiple [of x "2 ^ fmt_fraction f"] lo by (simp add: q_def)
  qed
qed

lemma rounds_nearest:
  assumes r: "rounds_to f neg \<bar>x\<bar> v" and neg: "x \<noteq> 0 \<longrightarrow> neg = (x < 0)" and v: "fl_finite f v"
    and u: "float_width u = fmt_width f" "fl_finite f u"
  shows "\<bar>fl_value f v - x\<bar> \<le> \<bar>fl_value f u - x\<bar>"
proof (cases "x = 0")
  case True
  have "fl_magnitude f v = 0" using r v True by (simp add: rounds_to_def round_0)
  then show ?thesis using True by (simp add: fl_value_def)
next
  case False
  have w: "float_width v = fmt_width f" and sgn: "fl_sign f v = (x < 0)" using r neg False by (simp_all add: rounds_to_def)
  have mag: "fl_magnitude f v = fl_round f \<bar>x\<bar>"
    using r v by (auto simp: rounds_to_def fl_is_inf_def fl_finite_def split: if_splits)
  have near: "\<bar>fl_magnitude f v - \<bar>x\<bar>\<bar> \<le> \<bar>fl_magnitude f y - \<bar>x\<bar>\<bar>" if "float_width y = fmt_width f" "fl_finite f y" for y
    unfolding mag using False that by (intro round_nearest) simp_all
  have "\<bar>fl_magnitude f v - \<bar>x\<bar>\<bar> \<le> \<bar>x\<bar>"
    using near [OF fmt_special_fields(1) [of False False] fmt_special_fields(4) [of False]] fmt_special_fields(5) [of False] by simp
  moreover have "0 \<le> fl_magnitude f u" using value_parts(5) [OF u refl] by simp
  moreover have "\<bar>fl_value f v - x\<bar> = \<bar>fl_magnitude f v - \<bar>x\<bar>\<bar>" using sgn by (auto simp: fl_value_def)
  ultimately show ?thesis using near [OF u] by (cases "fl_sign f u") (auto simp: fl_value_def abs_if split: if_splits)
qed

end

end
