(* ===== verification/IrFloatTheorems.thy ===== *)
theory IrFloatTheorems
  imports IrFloatArith
begin

text \<open>
  What the software floating point promises, for half, single and double precision: the
  arithmetic and the conversions to a float are correctly rounded, and the conversion to an
  integer is truncation, refused exactly when the truncated value is out of range.
\<close>

lemma finite_rounds_nearest:
  assumes "rounds_to (format_of a) neg \<bar>x\<bar> v" "x \<noteq> 0 \<longrightarrow> neg = (x < 0)" "fl_finite (format_of a) v"
    "float_width u = float_width a" "fl_finite (format_of a) u"
  shows "\<bar>fl_value (format_of a) v - x\<bar> \<le> \<bar>fl_value (format_of a) u - x\<bar>"
proof -
  from format_of_binary obtain e where "binary_format (format_of a) e" by blast
  from binary_format.rounds_nearest [OF this assms(1-3) _ assms(5)] show ?thesis using assms(4) by (simp add: format_width)
qed

lemma arithmetic_rounds_in_format:
  assumes "op \<in> {FAdd, FSub, FMul, FDiv, FRem}" "float_width b = float_width a"
    and "fl_finite (format_of a) a" "fl_finite (format_of a) b"
    and "op \<in> {FDiv, FRem} \<longrightarrow> fl_value (format_of a) b \<noteq> 0"
    and "x = exact_result op (fl_value (format_of a) a) (fl_value (format_of a) b)"
  shows "\<exists>v. float_arithmetic op a b = Some v \<and>
    rounds_to (format_of a) (if x = 0 then zero_sign op (fl_sign (format_of a) a) (fl_sign (format_of a) b) else x < 0) \<bar>x\<bar> v"
proof -
  from format_of_binary obtain e where "binary_format (format_of a) e" by blast
  from binary_format.arithmetic_rounds [OF this _ assms(3) _ assms(4,1) _ refl] assms(2,5) show ?thesis
    unfolding assms(6) by (simp add: format_width)
qed

subsection \<open>Conversions\<close>

context binary_format
begin

lemma pack_rounds_any:
  "rounds_to f negative (of_int (uint sig) * 2 powi ex) (float_pack f negative sig ex)"
proof (cases "sig = 0")
  case True
  then show ?thesis using special_rounds [of negative] by (simp add: float_pack_def)
qed (rule pack_rounds)

lemma unpack_value:
  assumes "float_width v = fmt_width f" "fl_finite f v"
  shows "of_int (uint (fp_sig (float_unpack f v))) * 2 powi fp_exp (float_unpack f v) = \<bar>fl_value f v\<bar>" "fp_negative (float_unpack f v) = fl_sign f v"
    "\<not> fp_nan (float_unpack f v)" "\<not> fp_infinity (float_unpack f v)"
  using unpack_operand [OF assms refl] unpack_fields [OF assms(1)] value_parts(5) [OF assms refl] by (simp_all add: part_mag_def)

end

lemma unpack_in_format:
  assumes "fl_finite (format_of v) v"
  defines "p \<equiv> float_unpack (format_of v) v"
  shows "of_int (uint (fp_sig p)) * 2 powi fp_exp p = \<bar>fl_value (format_of v) v\<bar>" "fp_negative p = fl_sign (format_of v) v" "\<not> fp_nan p" "\<not> fp_infinity p"
proof -
  from format_of_binary obtain e where b: "binary_format (format_of v) e" by blast
  show "of_int (uint (fp_sig p)) * 2 powi fp_exp p = \<bar>fl_value (format_of v) v\<bar>" "fp_negative p = fl_sign (format_of v) v" "\<not> fp_nan p" "\<not> fp_infinity p"
    unfolding p_def using binary_format.unpack_value [OF b _ assms(1)] by (simp_all add: format_width)
qed

lemma fl_magnitude_nonneg: "0 \<le> fl_magnitude f v"
  unfolding fl_magnitude_def fl_frac_def by (intro mult_nonneg_nonneg) (simp_all only: of_int_0_le_iff, simp_all)

lemma format_of_type_format: "format_of_type t = Some f \<Longrightarrow> \<exists>w. f = format_of w"
  unfolding format_of_type_def by (auto simp del: format_of.simps split: ty.splits)

lemma pack_rounds_in_format:
  assumes "format_of_type t = Some f"
  shows "rounds_to f negative (of_int (uint sig) * 2 powi ex) (float_pack f negative sig ex)"
proof -
  from format_of_type_format [OF assms] obtain w where "f = format_of w" ..
  moreover from format_of_binary obtain e where "binary_format (format_of w) e" by blast
  ultimately show ?thesis using binary_format.pack_rounds_any by blast
qed

lemma float_to_float_rounds:
  assumes "format_of_type t = Some f" "fl_finite (format_of v) v"
  shows "rounds_to f (fl_sign (format_of v) v) \<bar>fl_value (format_of v) v\<bar> (float_to_float f v)"
  using pack_rounds_in_format [OF assms(1)] unpack_in_format [OF assms(2)]
  by (simp add: float_to_float_def Let_def flip: unpack_in_format(1) [OF assms(2)])

text \<open>The pattern of an integer, with its sign bit read, gives back its magnitude.\<close>

lemma int_magnitude:
  assumes n: "0 < n" "n \<le> 128" and z: "in_range n s z" and p: "uint (p :: u128) = take_bit n z"
  defines "m \<equiv> if z < 0 then 0 - p else p"
  shows "(s \<and> p AND push_bit (n - 1) 1 \<noteq> 0) = (z < 0)"
    "uint (if n < 128 then m AND (push_bit n 1 - 1) else m) = \<bar>z\<bar>"
proof -
  have "p AND push_bit (n - 1) 1 \<noteq> 0 \<longleftrightarrow> bit p (n - 1)"
    by (simp add: push_bit_of_1 and_exp_eq_0_iff_not_bit)
  also have "\<dots> \<longleftrightarrow> bit (uint p) (n - 1)" using n by (auto simp: bit_uint_iff)
  also have "\<dots> \<longleftrightarrow> bit z (n - 1)" unfolding p using n by (simp add: bit_take_bit_iff)
  finally have b: "p AND push_bit (n - 1) 1 \<noteq> 0 \<longleftrightarrow> bit z (n - 1)" .
  show "(s \<and> p AND push_bit (n - 1) 1 \<noteq> 0) = (z < 0)"
  proof (cases s)
    case True
    with z have "signed_take_bit (n - 1) z = z" by (simp add: in_range_def signed_take_bit_int_eq_self_iff)
    moreover have "bit z (n - 1) \<longleftrightarrow> signed_take_bit (n - 1) z < 0" by simp
    ultimately show ?thesis using True b by simp
  qed (use z in \<open>simp add: in_range_def\<close>)
  have lt: "\<bar>z\<bar> < 2 ^ n"
  proof -
    have "(2 :: int) ^ (n - 1) < 2 ^ n" using n by (intro power_strict_increasing) simp_all
    then show ?thesis using z unfolding in_range_def by (cases s) (simp_all only: if_True if_False, linarith+)
  qed
  have "take_bit n (uint m) = take_bit n \<bar>z\<bar>"
  proof (cases "z < 0")
    case True
    have "uint (0 - p) = take_bit 128 (- uint p)" by (simp add: uint_word_ariths take_bit_eq_mod)
    then have "take_bit n (uint (0 - p)) = take_bit n (- take_bit n z)" using n by (simp add: p min_def)
    also have "\<dots> = take_bit n (- z)" by (rule take_bit_minus)
    finally show ?thesis using True by (simp add: m_def)
  qed (simp add: m_def p)
  also have "\<dots> = \<bar>z\<bar>" using lt by (simp add: take_bit_int_eq_self_iff)
  finally have tb: "take_bit n (uint m) = \<bar>z\<bar>" .
  show "uint (if n < 128 then m AND (push_bit n 1 - 1) else m) = \<bar>z\<bar>"
  proof (cases "n < 128")
    case True
    have "m AND (push_bit n 1 - 1) = take_bit n m" by (simp add: push_bit_of_1 take_bit_eq_mask mask_eq_decr_exp)
    then show ?thesis using True tb by (simp add: unsigned_take_bit_eq)
  next
    case False
    then have "n = 128" using n by simp
    then show ?thesis using tb False take_bit_int_eq_self [of "uint m" 128] uint_lt_128 [of m] by simp
  qed
qed

lemma int_to_float_rounds:
  assumes f: "format_of_type t = Some f" and sh: "shape src = Some (n, s)" and v: "valid_constant src v"
  shows "\<exists>p. int_raw v n = Some p \<and> rounds_to f (const_int v < 0) \<bar>of_int (const_int v)\<bar> (int_to_float f n s p)"
proof -
  have n: "0 < n" "n \<le> 128" using shape_width [OF sh] by auto
  have r: "in_range n s (const_int v)" "has_sign s v" using v sh by (simp_all add: valid_constant_int)
  then have "is_integral v" by (cases v) (simp_all add: is_integral_def)
  from int_raw_some [OF n(2) this] obtain p where p: "int_raw v n = Some p" "uint p = take_bit n (const_int v)" by blast
  note m = int_magnitude [OF n r(1) p(2)]
  have "rounds_to f (const_int v < 0) (of_int \<bar>const_int v\<bar> * 2 powi 0) (int_to_float f n s p)"
    unfolding int_to_float_def Let_def m(1) m(2) [symmetric] by (rule pack_rounds_in_format [OF f])
  then show ?thesis using p(1) by simp
qed

subsection \<open>Truncation\<close>

definition truncate :: "real \<Rightarrow> int" where
  "truncate x = (if x < 0 then - \<lfloor>- x\<rfloor> else \<lfloor>x\<rfloor>)"

lemma float_magnitude_floor:
  assumes p: "of_int (uint (fp_sig p)) * 2 powi fp_exp p = (x :: real)"
  shows "float_magnitude p = (if \<lfloor>x\<rfloor> < 2 ^ 128 then Some (word_of_int \<lfloor>x\<rfloor>) else None)"
proof (cases "fp_sig p = 0")
  case True
  then show ?thesis using p by (simp add: float_magnitude_def)
next
  case nz: False
  let ?S = "uint (fp_sig p)" and ?k = "nat \<bar>fp_exp p\<bar>"
  have "?S \<noteq> 0" using nz by (simp add: unsigned_eq_0_iff)
  then have S: "0 < ?S" "?S < 2 ^ 128" using uint_ge_0 [of "fp_sig p"] uint_lt_128 [of "fp_sig p"] by linarith+
  show ?thesis
  proof (cases "0 \<le> fp_exp p")
    case True
    then have "x = of_int (?S * 2 ^ ?k)" unfolding p [symmetric] by (simp add: power_int_def)
    then have fl: "\<lfloor>x\<rfloor> = ?S * 2 ^ ?k" by (simp only: floor_of_int)
    have big: "128 \<le> ?k \<Longrightarrow> 2 ^ 128 \<le> \<lfloor>x\<rfloor>"
    proof -
      assume "128 \<le> ?k"
      then have "(2 :: int) ^ 128 \<le> 2 ^ ?k" by (rule power_increasing) simp
      also have "\<dots> \<le> ?S * 2 ^ ?k" using S by (simp add: mult_le_cancel_right1)
      finally show ?thesis unfolding fl .
    qed
    have small: "drop_bit ?k (- 1) < fp_sig p \<longleftrightarrow> 2 ^ 128 \<le> \<lfloor>x\<rfloor>" if k: "?k < 128"
    proof -
      have "uint (drop_bit ?k (- 1 :: u128)) = 2 ^ (128 - ?k) - 1" unfolding drop_bit_of_minus_1_eq uint_mask_eq by (simp add: mask_eq_exp_minus_1)
      then have "drop_bit ?k (- 1) < fp_sig p \<longleftrightarrow> 2 ^ (128 - ?k) \<le> ?S" unfolding word_less_def by linarith
      also have "\<dots> \<longleftrightarrow> 2 ^ (128 - ?k) * 2 ^ ?k \<le> ?S * 2 ^ ?k" by simp
      also have "(2 :: int) ^ (128 - ?k) * 2 ^ ?k = 2 ^ 128" using k by (simp flip: power_add)
      finally show ?thesis unfolding fl .
    qed
    have "push_bit ?k (fp_sig p) = word_of_int \<lfloor>x\<rfloor>" unfolding fl by (simp add: push_bit_eq_mult)
    moreover have "?k = nat (fp_exp p)" using True by simp
    ultimately show ?thesis using nz True big small unfolding float_magnitude_def Let_def
      by (cases "?k < 128") (simp_all add: not_less)
  next
    case False
    then have "x = of_int ?S / of_int (2 ^ ?k)" unfolding p [symmetric] by (simp add: power_int_def field_simps)
    then have fl: "\<lfloor>x\<rfloor> = ?S div 2 ^ ?k" by (simp only: floor_divide_of_int_eq)
    have "uint (drop_bit ?k (fp_sig p)) = \<lfloor>x\<rfloor>" unfolding fl by (rule drop_bit_uint)
    then have d: "drop_bit ?k (fp_sig p) = word_of_int \<lfloor>x\<rfloor>" by (metis word_of_int_uint)
    have lt: "\<lfloor>x\<rfloor> < 2 ^ 128"
    proof -
      have "?S div 2 ^ ?k \<le> ?S" using zdiv_mono2 [of ?S 1 "2 ^ ?k"] S by simp
      then show ?thesis using S unfolding fl by linarith
    qed
    have "drop_bit ?k (fp_sig p) = 0" if "128 \<le> ?k" using that by (simp add: drop_bit_eq_zero_iff_not_bit_last bit_imp_le_length)
    then show ?thesis using nz False d lt by (auto simp: float_magnitude_def Let_def)
  qed
qed

lemma top_value:
  assumes "0 < n" "n \<le> 128"
  shows "uint (if s then push_bit (n - 1) 1 - of_bool b else if n = 128 then - 1 else push_bit n 1 - 1 :: u128)
    = (if s then 2 ^ (n - 1) - of_bool b else 2 ^ n - 1)"
proof -
  have minus: "uint (2 ^ k - of_bool b :: u128) = 2 ^ k - of_bool b" if "k < 128" for k b
  proof -
    have "uint (of_bool b :: u128) \<le> uint (2 ^ k :: u128)" using uint_power_of_two [of k, where 'a = 128] that by simp
    then have "uint (2 ^ k - of_bool b :: u128) = uint (2 ^ k :: u128) - uint (of_bool b :: u128)" by (simp only: uint_sub_lem)
    then show ?thesis using uint_power_of_two [of k, where 'a = 128] that by simp
  qed
  have "push_bit k 1 = (2 ^ k :: u128)" for k by (rule push_bit_of_1)
  then show ?thesis using assms minus [of "n - 1" b] minus [of n True] by (auto simp: unsigned_minus_1_eq_mask mask_eq_exp_minus_1)
qed

lemma range_by_magnitude:
  assumes "0 \<le> m" "0 < n" "n \<le> 128"
  shows "in_range n s (if neg then - m else m) \<longleftrightarrow>
    m < 2 ^ 128 \<and> \<not> (neg \<and> \<not> s \<and> m \<noteq> 0) \<and> m \<le> (if s then 2 ^ (n - 1) - of_bool (\<not> neg) else 2 ^ n - 1)"
proof -
  have "(2 :: int) ^ (n - 1) < 2 ^ 128" "(2 :: int) ^ n \<le> 2 ^ 128"
    using assms by (simp_all add: power_strict_increasing_iff power_increasing_iff del: power_numeral)
  moreover have "(0 :: int) < 2 ^ (n - 1)" by simp
  ultimately show ?thesis using assms(1) unfolding in_range_def
    by (cases s; cases neg) (simp_all only: if_True if_False of_bool_eq simp_thms, linarith+)
qed

lemma float_to_int_exact:
  assumes "fl_finite (format_of v) v" and sh: "shape dst = Some (n, s)"
  defines "z \<equiv> truncate (fl_value (format_of v) v)"
  shows "if in_range n s z then \<exists>w. float_to_int dst v = Some (Some w) \<and> valid_constant dst w \<and> const_int w = z
    else float_to_int dst v = Some None"
proof -
  let ?x = "fl_value (format_of v) v"
  define m where "m = \<lfloor>\<bar>?x\<bar>\<rfloor>"
  define p where "p = float_unpack (format_of v) v"
  note u = unpack_in_format [OF assms(1), folded p_def]
  have n: "0 < n" "n \<le> 128" using shape_width [OF sh] by auto
  have m0: "0 \<le> m" by (simp add: m_def)
  have z: "z = (if fp_negative p then - m else m)"
    using fl_magnitude_nonneg [of "format_of v" v] unfolding u(2) z_def truncate_def m_def by (auto simp: fl_value_def)
  define neg where "neg = fp_negative p"
  define top where "top = (if s then push_bit (n - 1) 1 - of_bool (\<not> neg) else if n = 128 then - 1 else push_bit n 1 - 1 :: u128)"
  have top: "uint top = (if s then 2 ^ (n - 1) - of_bool (\<not> neg) else 2 ^ n - 1)"
    unfolding top_def using n by (rule top_value)
  have in_top: "in_range n s z \<longleftrightarrow> m < 2 ^ 128 \<and> \<not> (neg \<and> \<not> s \<and> m \<noteq> 0) \<and> m \<le> uint top"
    using m0 n unfolding top z neg_def [symmetric] by (rule range_by_magnitude)
  have step: "float_to_int dst v = (case float_magnitude p of None \<Rightarrow> Some None
    | Some k \<Rightarrow> if neg \<and> \<not> s \<and> k \<noteq> 0 \<or> top < k then Some None else map_option Some (int_pack dst (if neg then 0 - k else k)))"
    unfolding float_to_int_def Let_def p_def [symmetric] top_def neg_def using u(3,4) sh by (simp cong: option.case_cong)
  note mag = float_magnitude_floor [OF u(1), folded m_def]
  have run: "float_to_int dst v = (if m < 2 ^ 128 then
      if neg \<and> \<not> s \<and> m \<noteq> 0 \<or> uint top < m then Some None
      else map_option Some (int_pack dst (if neg then 0 - word_of_int m else word_of_int m)) else Some None)"
  proof (cases "m < 2 ^ 128")
    case True
    have um: "uint (word_of_int m :: u128) = m" using m0 True by (simp add: uint_word_of_int_eq take_bit_int_eq_self)
    then have "word_of_int m \<noteq> (0 :: u128) \<longleftrightarrow> m \<noteq> 0" by (metis of_int_0 unsigned_0)
    moreover have "top < word_of_int m \<longleftrightarrow> uint top < m" unfolding word_less_def um ..
    ultimately show ?thesis using True unfolding step mag by simp
  next
    case False
    then show ?thesis unfolding step mag by simp
  qed
  show ?thesis
  proof (cases "in_range n s z")
    case True
    let ?w = "if neg then 0 - word_of_int m else word_of_int m :: u128"
    obtain w where w: "int_pack dst ?w = Some w" "const_int w = wrap_to n s (uint ?w)" "valid_constant dst w"
      using int_pack_value [OF sh] by blast
    have "uint ?w = take_bit 128 z" by (simp add: z neg_def uint_word_of_int_eq flip: of_int_minus)
    then have "wrap_to n s (uint ?w) = z" using n True wrap_to_cong [OF n(1), of "uint ?w" z] wrap_to_id by simp
    then show ?thesis using True w unfolding run in_top by (simp add: not_less)
  next
    case False
    then show ?thesis unfolding run in_top by auto
  qed
qed

subsection \<open>Properties\<close>

text \<open>C34. Floating-point arithmetic is correctly rounded.  Addition, subtraction, multiplication,
  division and remainder of two finite numbers of one width (the divisor not a zero) return
  the exact real result rounded to the nearest number of the format, ties to even; results
  beyond the largest number are infinities, a zero has the sign the operation prescribes.
  When the result is finite no finite number of the format is closer to the exact result.\<close>

theorem float_arithmetic_correctly_rounded:
  assumes "op \<in> {FAdd, FSub, FMul, FDiv, FRem}" "float_width b = float_width a"
    and "fl_finite (format_of a) a" "fl_finite (format_of a) b"
    and "op \<in> {FDiv, FRem} \<longrightarrow> fl_value (format_of a) b \<noteq> 0"
    and "x = exact_result op (fl_value (format_of a) a) (fl_value (format_of a) b)"
  shows "\<exists>v. float_arithmetic op a b = Some v
    \<and> rounds_to (format_of a)
        (if x = 0 then zero_sign op (fl_sign (format_of a) a) (fl_sign (format_of a) b) else x < 0) \<bar>x\<bar> v
    \<and> (fl_finite (format_of a) v \<longrightarrow> (\<forall>u. float_width u = float_width a \<longrightarrow> fl_finite (format_of a) u \<longrightarrow>
         \<bar>fl_value (format_of a) v - x\<bar> \<le> \<bar>fl_value (format_of a) u - x\<bar>))"
proof -
  from arithmetic_rounds_in_format [OF assms] obtain v where v: "float_arithmetic op a b = Some v"
    and r: "rounds_to (format_of a) (if x = 0 then zero_sign op (fl_sign (format_of a) a) (fl_sign (format_of a) b) else x < 0) \<bar>x\<bar> v"
    by blast
  then show ?thesis using finite_rounds_nearest [OF r] by auto
qed

theorem float_arithmetic_correctly_rounded_witness:
  "\<exists>v. float_arithmetic FDiv (FBits32 0x3f800000) (FBits32 0x40400000) = Some v
     \<and> rounds_to (format_of (FBits32 0)) False (1 / 3) v"
proof -
  let ?f = "\<lparr>fmt_width = 32, fmt_fraction = 23, fmt_bias = 127\<rparr>"
  have f: "fl_expo ?f (FBits32 0x3f800000) = 127" "fl_frac ?f (FBits32 0x3f800000) = 0"
    "fl_expo ?f (FBits32 0x40400000) = 128" "fl_frac ?f (FBits32 0x40400000) = 0x400000"
    "\<not> fl_sign ?f (FBits32 0x3f800000)" "\<not> fl_sign ?f (FBits32 0x40400000)"
    by code_simp+
  have v: "fl_value ?f (FBits32 0x3f800000) = 1" "fl_value ?f (FBits32 0x40400000) = 3"
    by (simp_all add: fl_value_def fl_magnitude_def f power_int_minus)
  show ?thesis
    using float_arithmetic_correctly_rounded [of FDiv "FBits32 0x40400000" "FBits32 0x3f800000" "1 / 3"] f v
    by (auto simp: fl_finite_def exact_result_def)
qed

text \<open>C35. Conversions to a float are correctly rounded: a finite number converted to another
  format, and any integer of an integer type converted to a format, become the nearest number
  of the destination with ties to even, with the sign of the source.\<close>

theorem float_conversions_correctly_rounded:
  assumes "format_of_type dst = Some f"
  shows "(op \<in> {FExt, FTrunc} \<and> fl_finite (format_of v) v \<longrightarrow>
      (\<exists>r. convert op src dst (ConstF v) = Some (Some (ConstF r))
        \<and> rounds_to f (fl_sign (format_of v) v) \<bar>fl_value (format_of v) v\<bar> r))
    \<and> (op \<in> {IToF_S, IToF_U} \<and> shape src = Some (n, s) \<and> valid_constant src c \<longrightarrow>
      (\<exists>r. convert op src dst c = Some (Some (ConstF r)) \<and> rounds_to f (const_int c < 0) \<bar>of_int (const_int c)\<bar> r))"
proof (intro conjI impI)
  assume "op \<in> {FExt, FTrunc} \<and> fl_finite (format_of v) v"
  with float_to_float_rounds [OF assms] assms
  show "\<exists>r. convert op src dst (ConstF v) = Some (Some (ConstF r))
    \<and> rounds_to f (fl_sign (format_of v) v) \<bar>fl_value (format_of v) v\<bar> r" by (auto simp: convert_def)
next
  assume c: "op \<in> {IToF_S, IToF_U} \<and> shape src = Some (n, s) \<and> valid_constant src c"
  then obtain p where "int_raw c n = Some p" "rounds_to f (const_int c < 0) \<bar>of_int (const_int c)\<bar> (int_to_float f n s p)"
    using int_to_float_rounds [OF assms] by blast
  with c assms show "\<exists>r. convert op src dst c = Some (Some (ConstF r)) \<and> rounds_to f (const_int c < 0) \<bar>of_int (const_int c)\<bar> r"
    by (auto simp: convert_def)
qed

theorem float_conversions_correctly_rounded_witness:
  "\<exists>r. convert IToF_S I64 F32 (ConstI (- 16777217)) = Some (Some (ConstF r))
     \<and> rounds_to (format_of (FBits32 0)) True 16777217 r"
  using float_conversions_correctly_rounded [of F32 _ IToF_S _ I64 64 True "ConstI (- 16777217)"]
  by (auto simp: format_of_type_def shape_def valid_constant_def fits_signed_def)

text \<open>Conversion of a finite number to an integer type truncates towards zero: it returns
  the truncated value when the type can hold it and is refused exactly when it cannot.\<close>

theorem float_to_int_truncates:
  assumes "fl_finite (format_of v) v" "shape dst = Some (n, s)" "op \<in> {FToI_S, FToI_U}"
  shows "if in_range n s (truncate (fl_value (format_of v) v))
    then \<exists>w. convert op src dst (ConstF v) = Some (Some w) \<and> valid_constant dst w
      \<and> const_int w = truncate (fl_value (format_of v) v)
    else convert op src dst (ConstF v) = Some None"
  using float_to_int_exact [OF assms(1,2)] assms(3) by (auto simp: convert_def)

theorem float_to_int_truncates_witness:
  "convert FToI_U F16 U8 (ConstF (FBits16 0x5c40)) = Some None
   \<and> (\<exists>w. convert FToI_S F16 I16 (ConstF (FBits16 0x5c40)) = Some (Some w) \<and> const_int w = 272)"
proof -
  let ?f = "\<lparr>fmt_width = 16, fmt_fraction = 10, fmt_bias = 15\<rparr>"
  have f: "fl_expo ?f (FBits16 0x5c40) = 23" "fl_frac ?f (FBits16 0x5c40) = 64"
    "\<not> fl_sign ?f (FBits16 0x5c40)"
    by code_simp+
  have v: "fl_value ?f (FBits16 0x5c40) = 272"
    by (simp add: fl_value_def fl_magnitude_def f power_int_minus)
  show ?thesis
    using float_to_int_truncates [of "FBits16 0x5c40" U8 8 False FToI_U F16]
      float_to_int_truncates [of "FBits16 0x5c40" I16 16 True FToI_S F16] f v
    by (auto simp: fl_finite_def shape_def in_range_def truncate_def)
qed

end
