(* ===== verification/IrModule.thy ===== *)
theory IrModule
  imports IrConstExpr
begin

text \<open>
  Functions, declarations, global storage, source metadata and modules:
  \<open>ir/src/{function,module,global_storage,source}.rs\<close> with the whole-module budget check of
  \<open>ir/src/limits.rs\<close>.  A \<open>HashSet\<close> is a set, a stack is a list with its top first.
\<close>

subsection \<open>Functions and declarations\<close>

record param =
  p_name :: string
  p_id :: value_id
  p_ty :: ty

record ir_function =
  f_id :: function_id
  f_name :: string
  f_params :: "param list"
  f_ret_ty :: ty
  f_blocks :: "basic_block list"
  f_entry :: block_id
  f_value_types :: "(value_id \<times> ty) list"

definition function_value_type :: "ir_function \<Rightarrow> value_id \<Rightarrow> ty option" where
  "function_value_type f i = map_option snd (find (\<lambda>(v, _). v = i) (f_value_types f))"

datatype linkage = LinkInternal | LinkExternal

definition sig_whale :: "ty list \<Rightarrow> ty \<Rightarrow> fn_sig" where
  "sig_whale params ret = FnSig params ret Whale False"

record function_decl =
  d_id :: function_id
  d_name :: string
  d_signature :: fn_sig
  d_linkage :: linkage
  d_link_name :: "string option"

text \<open>The constructor that only wraps an error of the builder is left out.\<close>

datatype (plugins only: size) call_error =
    CallResourceLimit limit_error
  | UnknownFunction function_id
  | UnknownFunctionName string
  | ConflictingDeclaration string
  | DuplicateFunctionDefinition function_id
  | InvalidLinkName string
  | LinkNameCollision string
  | InvalidSignature string
  | DefinitionMismatch function_id
  | MissingDefinition function_id
  | UnknownValue value_id
  | NotFunctionPointer value_id
  | CallArgumentCount usize usize
  | CallArgumentType usize ty ty
  | CallReturnType ty ty
  | ResultPresence
  | ConventionMismatch
  | AddressTypeMismatch
  | ForbiddenFunctionPointerCast

definition invalid_signature :: call_error where
  "invalid_signature = InvalidSignature ''void parameters, malformed types and variadic calls are unsupported''"

text \<open>One turn of the inner loop: the types and the signatures a type pushes.\<close>

definition signature_type :: "ty \<Rightarrow> call_error + ty list \<times> fn_sig list" where
  "signature_type t =
     (case t of
        Void \<Rightarrow> Inl invalid_signature
      | FnPtr sig \<Rightarrow> Inr ([], [sig])
      | Ptr u \<Rightarrow> if u = Void then Inr ([], []) else Inr ([u], [])
      | ArrayT u _ \<Rightarrow> Inr ([u], [])
      | StructT ts \<Rightarrow> Inr (rev ts, [])
      | TupleT ts \<Rightarrow> Inr (rev ts, [])
      | _ \<Rightarrow> Inr ([], []))"

definition total_size :: "'a::size list \<Rightarrow> nat" where
  "total_size xs = (\<Sum>x\<leftarrow>xs. Suc (size x))"

lemma total_size_simps [simp]:
  "total_size [] = 0" "total_size (x # xs) = Suc (size x) + total_size xs"
  "total_size (xs @ ys) = total_size xs + total_size ys" "total_size (rev xs) = total_size xs"
  by (simp_all add: total_size_def rev_map [symmetric])

lemma size_list_total: "size_list size xs = total_size xs" for xs :: "ty list"
  by (induction xs) auto

lemma signature_type_size:
  "signature_type t = Inr (us, ss) \<Longrightarrow> total_size us + total_size ss < Suc (size t)"
  by (cases t) (auto simp: signature_type_def size_list_total split: if_splits)

function signature_types_loop :: "ty list \<Rightarrow> fn_sig list \<Rightarrow> call_error + fn_sig list" where
  "signature_types_loop [] sigs = Inr sigs"
| "signature_types_loop (t # ts) sigs =
     rbind (signature_type t) (\<lambda>(us, ss). signature_types_loop (us @ ts) (ss @ sigs))"
  by pat_completeness auto
termination
  by (relation "measure (\<lambda>(ts, _). total_size ts)") (auto dest: signature_type_size)

lemma signature_types_loop_size:
  "signature_types_loop ts sigs = Inr sigs' \<Longrightarrow> total_size sigs' \<le> total_size ts + total_size sigs"
proof (induction ts sigs rule: signature_types_loop.induct)
  case (2 t ts sigs)
  then obtain us ss where s: "signature_type t = Inr (us, ss)" "signature_types_loop (us @ ts) (ss @ sigs) = Inr sigs'"
    by (auto simp: result_simps)
  from 2(1) [OF s(1) refl s(2)] signature_type_size [OF s(1)] show ?case by simp
qed simp

definition signature_types :: "fn_sig \<Rightarrow> ty list" where
  "signature_types sig = rev (sig_params sig @ (if sig_ret sig \<noteq> Void then [sig_ret sig] else []))"

lemma signature_types_size: "total_size (signature_types sig) < Suc (size sig)"
  by (cases sig) (auto simp: signature_types_def size_list_total)

function signatures_loop :: "fn_sig list \<Rightarrow> call_error + unit" where
  "signatures_loop [] = Inr ()"
| "signatures_loop (sig # sigs) =
     (if sig_variadic sig then Inl invalid_signature
      else if sig_convention sig = SysV64 \<and> list_ex is_aggregate (sig_params sig @ [sig_ret sig])
      then Inl (InvalidSignature ''SysV64 aggregate signatures are unsupported'')
      else rbind (signature_types_loop (signature_types sig) sigs) signatures_loop)"
  by pat_completeness auto
termination
proof (relation "measure total_size")
  fix sig sigs sigs'
  assume "signature_types_loop (signature_types sig) sigs = Inr sigs'"
  from signature_types_loop_size [OF this] signature_types_size [of sig]
  show "(sigs', sig # sigs) \<in> measure total_size" by simp
qed simp

definition validate_signature_with_limits :: "fn_sig \<Rightarrow> ir_limits \<Rightarrow> call_error + unit" where
  "validate_signature_with_limits sig limits =
     rbind (map_err CallResourceLimit (rbind (budget_new limits) (budget_signature sig))) (\<lambda>_.
     signatures_loop [sig])"

definition validate_signature :: "fn_sig \<Rightarrow> call_error + unit" where
  "validate_signature sig = validate_signature_with_limits sig ir_limits_default"

text \<open>The link name an external symbol has, an internal one has not.\<close>

definition link_name_ok :: "linkage \<Rightarrow> string option \<Rightarrow> bool" where
  "link_name_ok l name =
     (case (l, name) of
        (LinkInternal, None) \<Rightarrow> True
      | (LinkExternal, Some n) \<Rightarrow> n \<noteq> [] \<and> CHR 0x00 \<notin> set n
      | _ \<Rightarrow> False)"

definition validate_decl_with_limits :: "function_decl \<Rightarrow> ir_limits \<Rightarrow> call_error + unit" where
  "validate_decl_with_limits d limits =
     rbind (validate_signature_with_limits (d_signature d) limits) (\<lambda>_.
     ensure (link_name_ok (d_linkage d) (d_link_name d)) (InvalidLinkName (d_name d)))"

subsection \<open>Global storage\<close>

datatype storage_init = InitValue const_value | InitNone

record global_storage =
  gs_id :: global_id
  gs_name :: string
  gs_ty :: ty
  gs_init :: storage_init
  gs_readonly :: bool
  gs_align :: u32
  gs_linkage :: linkage
  gs_link_name :: "string option"

datatype storage_error =
    StorageResourceLimit limit_error
  | StorageInvalidType
  | StorageInvalidInitializer
  | ReadOnlyUninitialized
  | StorageInvalidAlignment
  | StorageInvalidLinkName
  | StorageDuplicateIdentity
  | StorageDuplicateName
  | StorageLinkNameCollision
  | UnknownGlobal
  | StorageAddressTypeMismatch

definition storage_internal :: "string \<Rightarrow> ty \<Rightarrow> storage_init \<Rightarrow> bool \<Rightarrow> u32 \<Rightarrow> global_storage" where
  "storage_internal name t init readonly align =
     \<lparr>gs_id = GlobalId 0, gs_name = name, gs_ty = t, gs_init = init, gs_readonly = readonly,
      gs_align = align, gs_linkage = LinkInternal, gs_link_name = None\<rparr>"

definition storage_type_ok :: "ty \<Rightarrow> bool" where
  "storage_type_ok t =
     (case t of Void \<Rightarrow> False | ArrayT _ _ \<Rightarrow> False | StructT _ \<Rightarrow> False | TupleT _ \<Rightarrow> False | _ \<Rightarrow> True)"

definition storage_init_check :: "global_storage \<Rightarrow> storage_error + unit" where
  "storage_init_check g =
     (case gs_init g of
        InitValue v \<Rightarrow> ensure (valid_constant (gs_ty g) v) StorageInvalidInitializer
      | InitNone \<Rightarrow> ensure (\<not> gs_readonly g) ReadOnlyUninitialized)"

definition validate_global_storage :: "global_storage \<Rightarrow> ir_limits \<Rightarrow> storage_error + unit" where
  "validate_global_storage g limits =
     rbind (map_err StorageResourceLimit (rbind (budget_new limits) (budget_ty (gs_ty g)))) (\<lambda>_.
     rbind (ensure (storage_type_ok (gs_ty g)) StorageInvalidType) (\<lambda>_.
     rbind (map_err (\<lambda>e. case e of CallResourceLimit l \<Rightarrow> StorageResourceLimit l | _ \<Rightarrow> StorageInvalidType)
              (validate_signature_with_limits (sig_whale [gs_ty g] Void) limits)) (\<lambda>_.
     rbind (ensure (is_power_of_two (gs_align g)) StorageInvalidAlignment) (\<lambda>_.
     rbind (storage_init_check g) (\<lambda>_.
     ensure (link_name_ok (gs_linkage g) (gs_link_name g)) StorageInvalidLinkName)))))"

record global_var =
  g_id :: global_id
  g_name :: string
  g_ty :: ty
  g_init :: const_value
  g_init_expr :: const_expr
  g_align :: u32

subsection \<open>Source metadata\<close>

record source_file =
  sf_id :: u32
  sf_name :: string

record source_span =
  ss_file :: u32
  ss_line :: u32
  ss_column :: u32
  ss_end_line :: u32
  ss_end_column :: u32

definition span_valid :: "source_span \<Rightarrow> bool" where
  "span_valid s =
     (0 < ss_line s \<and> 0 < ss_column s \<and> 0 < ss_end_line s \<and> 0 < ss_end_column s \<and>
      (ss_line s < ss_end_line s \<or> ss_line s = ss_end_line s \<and> ss_column s \<le> ss_end_column s))"

record original_node =
  on_id :: u64
  on_span :: "source_span option"

datatype source_target =
    AtInstruction function_id block_id usize
  | AtTerminator function_id block_id
  | AtGlobal global_id

record source_mapping =
  sm_target :: source_target
  sm_original :: u64

record source_metadata =
  md_files :: "source_file list"
  md_originals :: "original_node list"
  md_mappings :: "source_mapping list"

record original_location =
  ol_original :: u64
  ol_source :: "(string \<times> source_span) option"

subsection \<open>Modules\<close>

record ir_module =
  m_target :: string
  m_datalayout :: data_layout
  m_globals :: "global_var list"
  m_global_storage :: "global_storage list"
  m_functions :: "ir_function list"
  m_declarations :: "function_decl list"
  m_sources :: source_metadata

definition module_new :: "string \<Rightarrow> data_layout \<Rightarrow> ir_module" where
  "module_new target layout =
     \<lparr>m_target = target, m_datalayout = layout, m_globals = [], m_global_storage = [], m_functions = [],
      m_declarations = [], m_sources = \<lparr>md_files = [], md_originals = [], md_mappings = []\<rparr>\<rparr>"

definition module_blocks :: "ir_module \<Rightarrow> function_id \<times> block_id \<rightharpoonup> basic_block" where
  "module_blocks m =
     map_of (rev (concat (map (\<lambda>f. map (\<lambda>b. ((f_id f, bb_id b), b)) (f_blocks f)) (m_functions m))))"

definition check_source_file :: "source_file \<Rightarrow> u32 set \<Rightarrow> string + u32 set" where
  "check_source_file file files =
     (if sf_name file = [] \<or> CHR 0x00 \<in> set (sf_name file) \<or> sf_id file \<in> files
      then Inl ''invalid or duplicate source file'' else Inr (insert (sf_id file) files))"

definition check_original :: "u32 set \<Rightarrow> original_node \<Rightarrow> u64 set \<Rightarrow> string + u64 set" where
  "check_original files node nodes =
     (if on_id node \<in> nodes then Inl ''duplicate original node identity''
      else case on_span node of
        None \<Rightarrow> Inr (insert (on_id node) nodes)
      | Some sp \<Rightarrow>
          if ss_file sp \<notin> files \<or> \<not> span_valid sp then Inl ''invalid original source span''
          else Inr (insert (on_id node) nodes))"

definition source_target_exists :: "ir_module \<Rightarrow> source_target \<Rightarrow> bool" where
  "source_target_exists m t =
     (case t of
        AtInstruction f b i \<Rightarrow>
          (case module_blocks m (f, b) of None \<Rightarrow> False | Some blk \<Rightarrow> i < length (bb_instructions blk))
      | AtTerminator f b \<Rightarrow>
          (case module_blocks m (f, b) of None \<Rightarrow> False | Some blk \<Rightarrow> bb_terminator blk \<noteq> None)
      | AtGlobal g \<Rightarrow> g \<in> set (map g_id (m_globals m)) \<union> set (map gs_id (m_global_storage m)))"

definition check_mapping :: "ir_module \<Rightarrow> u64 set \<Rightarrow> source_mapping \<Rightarrow> source_target set \<Rightarrow> string + source_target set" where
  "check_mapping m nodes mapping targets =
     (if sm_original mapping \<notin> nodes \<or> sm_target mapping \<in> targets
      then Inl ''unknown original node or duplicate source mapping''
      else if \<not> source_target_exists m (sm_target mapping)
      then Inl ''source mapping targets a missing IR operation''
      else Inr (insert (sm_target mapping) targets))"

definition validate_sources :: "source_metadata \<Rightarrow> ir_module \<Rightarrow> string + unit" where
  "validate_sources s m =
     (if md_files s = [] \<and> md_originals s = [] \<and> md_mappings s = [] then Inr ()
      else
        rbind (foldR check_source_file (md_files s) {}) (\<lambda>files.
        rbind (foldR (check_original files) (md_originals s) {}) (\<lambda>nodes.
        rbind (foldR (check_mapping m nodes) (md_mappings s) {}) (\<lambda>_. Inr ()))))"

definition source_original :: "source_metadata \<Rightarrow> source_target \<Rightarrow> original_node option" where
  "source_original s t =
     Option.bind (find (\<lambda>x. sm_target x = t) (md_mappings s)) (\<lambda>x.
     find (\<lambda>n. on_id n = sm_original x) (md_originals s))"

definition source_location :: "source_metadata \<Rightarrow> source_target \<Rightarrow> original_location option" where
  "source_location s t =
     map_option (\<lambda>n.
       \<lparr>ol_original = on_id n,
        ol_source = Option.bind (on_span n) (\<lambda>sp.
          map_option (\<lambda>f. (sf_name f, sp)) (find (\<lambda>f. sf_id f = ss_file sp) (md_files s)))\<rparr>)
       (source_original s t)"

definition copy_mapping :: "source_target \<Rightarrow> source_target \<Rightarrow> source_metadata \<Rightarrow> string + source_metadata" where
  "copy_mapping src dst s =
     rbind (ok_or (map_option sm_original (find (\<lambda>x. sm_target x = src) (md_mappings s)))
              ''missing source mapping to propagate'') (\<lambda>i.
     if list_ex (\<lambda>x. sm_target x = dst) (md_mappings s)
     then Inl ''destination already has a source mapping''
     else Inr (s\<lparr>md_mappings := md_mappings s @ [\<lparr>sm_target = dst, sm_original = i\<rparr>]\<rparr>))"

subsection \<open>The budget of a whole module\<close>

definition budget_instruction :: "instruction \<Rightarrow> budget \<Rightarrow> limit_error + budget" where
  "budget_instruction ins b =
     rbind (budget_nodes 1 b) (\<lambda>b.
     case ins of
       ConstDecl _ _ e _ \<Rightarrow> budget_expression e b
     | Const _ t _ \<Rightarrow> budget_ty t b
     | Undef _ t \<Rightarrow> budget_ty t b
     | Mov _ t _ \<Rightarrow> budget_ty t b
     | Bin _ _ t _ _ \<Rightarrow> budget_ty t b
     | Neg _ t _ \<Rightarrow> budget_ty t b
     | NotI _ t _ \<Rightarrow> budget_ty t b
     | Cmp _ _ t _ _ \<Rightarrow> budget_ty t b
     | ICmp _ _ t _ _ \<Rightarrow> budget_ty t b
     | FCmp _ _ t _ _ \<Rightarrow> budget_ty t b
     | Select _ t _ _ _ \<Rightarrow> budget_ty t b
     | Checked _ _ t _ _ \<Rightarrow> budget_ty t b
     | Alloca _ t _ \<Rightarrow> budget_ty t b
     | VolatileLoad _ t _ _ \<Rightarrow> budget_ty t b
     | Load _ t _ _ \<Rightarrow> budget_ty t b
     | VolatileStore t _ _ _ \<Rightarrow> budget_ty t b
     | Store t _ _ _ \<Rightarrow> budget_ty t b
     | Uninit t _ _ \<Rightarrow> budget_ty t b
     | GlobalAddr _ _ t \<Rightarrow> budget_ty t b
     | Phi _ t incomings \<Rightarrow> rbind (budget_ty t b) (budget_nodes (length incomings))
     | Cast _ _ s d _ \<Rightarrow> rbind (budget_ty s b) (budget_ty d)
     | Extract _ t _ _ \<Rightarrow> budget_ty t b
     | Gep _ t _ indices \<Rightarrow> rbind (budget_ty t b) (budget_nodes (length indices))
     | NullFunction _ sig \<Rightarrow> budget_signature sig b
     | FunctionAddr _ _ sig \<Rightarrow> budget_signature sig b
     | Call _ _ t _ args \<Rightarrow> rbind (budget_ty t b) (budget_nodes (length args))
     | _ \<Rightarrow> Inr b)"

definition budget_terminator :: "terminator option \<Rightarrow> budget \<Rightarrow> limit_error + budget" where
  "budget_terminator t b =
     (case t of
        None \<Rightarrow> Inr b
      | Some t \<Rightarrow>
          rbind (budget_nodes 1 b) (\<lambda>b.
          case t of
            Ret t _ \<Rightarrow> budget_ty t b
          | Switch t _ _ cases \<Rightarrow> rbind (budget_ty t b) (budget_nodes (length cases))
          | _ \<Rightarrow> Inr b))"

definition budget_node_ty :: "ty \<Rightarrow> budget \<Rightarrow> limit_error + budget" where
  "budget_node_ty t b = rbind (budget_nodes 1 b) (budget_ty t)"

definition budget_block :: "basic_block \<Rightarrow> budget \<Rightarrow> limit_error + budget" where
  "budget_block blk b =
     rbind (budget_nodes 1 b) (\<lambda>b.
     rbind (foldR budget_instruction (bb_instructions blk) b) (budget_terminator (bb_terminator blk)))"

definition budget_function :: "ir_function \<Rightarrow> budget \<Rightarrow> limit_error + budget" where
  "budget_function f b =
     rbind (budget_node_ty (f_ret_ty f) b) (\<lambda>b.
     rbind (foldR (\<lambda>p. budget_node_ty (p_ty p)) (f_params f) b) (\<lambda>b.
     rbind (foldR (\<lambda>x. budget_node_ty (snd x)) (f_value_types f) b)
       (foldR budget_block (f_blocks f))))"

definition count_source_bytes :: "ir_limits \<Rightarrow> source_file \<Rightarrow> usize \<Rightarrow> limit_error + usize" where
  "count_source_bytes limits file n0 =
     ok_or (Option.bind (usize_add n0 (length (sf_name file)))
              (\<lambda>n. if n \<le> max_input_bytes limits then Some n else None))
       (limit_error InputBytes (max_input_bytes limits))"

definition check_module :: "ir_module \<Rightarrow> ir_limits \<Rightarrow> limit_error + unit" where
  "check_module m limits =
     rbind (budget_new limits) (\<lambda>b.
     rbind (budget_nodes (length (md_files (m_sources m))) b) (\<lambda>b.
     rbind (budget_nodes (length (md_originals (m_sources m))) b) (\<lambda>b.
     rbind (budget_nodes (length (md_mappings (m_sources m))) b) (\<lambda>b.
     rbind (foldR (count_source_bytes limits) (md_files (m_sources m)) 0) (\<lambda>_.
     rbind (foldR (\<lambda>g b. rbind (budget_node_ty (g_ty g) b) (budget_expression (g_init_expr g))) (m_globals m) b) (\<lambda>b.
     rbind (foldR (\<lambda>g. budget_node_ty (gs_ty g)) (m_global_storage m) b) (\<lambda>b.
     rbind (foldR (\<lambda>d b. rbind (budget_nodes 1 b) (budget_signature (d_signature d))) (m_declarations m) b) (\<lambda>b.
     rbind (foldR budget_function (m_functions m) b) (\<lambda>_. Inr ())))))))))"

end
