(* ===== verification/IrVerifyOperands.thy ===== *)
theory IrVerifyOperands
  imports IrModule
begin

text \<open>
  The verifier's errors, its indexed view of a function (\<open>ir/src/verifier/index.rs\<close>), the
  results and uses of instructions (\<open>ir/src/verifier.rs\<close>) and the operand and type rules
  (\<open>ir/src/verifier/operands.rs\<close>).  \<open>VerifyPanic\<close> stands for a failed index or \<open>unwrap\<close>.
  The counter of type-table lookups, which no result depends on, is left out.
\<close>

datatype (plugins only: size) verify_error =
    VGlobalStorage string global_id storage_error
  | VSourceMetadata string
  | VResourceLimit limit_error
  | VForbiddenUndef string value_id
  | VInvalidMemoryLayout string string type_layout_error
  | VInvalidCast string value_id cast_op ty ty
  | VCall string call_error
  | VTarget target_error
  | VTargetContract spec_error
  | VInvalidConstExpression string const_ref const_eval_error
  | VNonDominatingValue string value_id block_id
  | VInvalidPhi string block_id value_id string
  | VInvalidGep string value_id "usize option" string
  | VInvalidInstructionType string string ty
  | VOperandTypeMismatch string value_id ty ty
  | VInvalidMemoryAlignment string u32
  | VInvalidSwitchCase string block_id usize
  | VDuplicateSwitchCase string block_id usize
  | VDuplicateFunction string
  | VDuplicateGlobal string
  | VInvalidConstant string value_id ty const_value
  | VInvalidGlobalInitializer string ty const_value
  | VInvalidGlobalAlignment string u32
  | VConditionTypeMismatch string value_id ty
  | VDuplicateBlock string block_id
  | VDuplicateValue string value_id
  | VDuplicateValueType string value_id
  | VUnexpectedValueType string value_id
  | VValueTypeMismatch string value_id ty ty
  | VInvalidEntryBlock string block_id
  | VEntryHasPredecessor string block_id block_id
  | VInvalidBranchTarget string block_id block_id
  | VMissingValueType string value_id
  | VVoidParameter string string
  | VUnterminatedBlock string string
  | VRetTypeMismatch string ty "ty option"
  | VUseOfUndefinedValue string value_id
  | VerifyPanic

subsection \<open>Indexed functions\<close>

record indexed =
  ix_function :: ir_function
  ix_types :: "value_id \<rightharpoonup> ty"
  ix_constants :: "value_id \<rightharpoonup> const_value"

definition all_instructions :: "ir_function \<Rightarrow> instruction list" where
  "all_instructions f = concat (map bb_instructions (f_blocks f))"

fun constant_entry :: "instruction \<Rightarrow> (value_id \<times> const_value) list" where
  "constant_entry (Const dst _ v) = [(dst, v)]"
| "constant_entry (ConstDecl dst _ _ v) = [(dst, v)]"
| "constant_entry _ = []"

text \<open>The first annotation of a value wins.\<close>

definition indexed_new :: "ir_function \<Rightarrow> indexed" where
  "indexed_new f =
     \<lparr>ix_function = f, ix_types = map_of (f_value_types f),
      ix_constants = map_of (concat (map constant_entry (all_instructions f)))\<rparr>"

abbreviation fname :: "indexed \<Rightarrow> string" where
  "fname f \<equiv> f_name (ix_function f)"

definition typed :: "indexed \<Rightarrow> value_id \<Rightarrow> verify_error + ty" where
  "typed f v = ok_or (ix_types f v) (VMissingValueType (fname f) v)"

subsection \<open>Results and uses\<close>

fun instr_result :: "instruction \<Rightarrow> (value_id \<times> ty) option" where
  "instr_result (NullFunction d sig) = Some (d, FnPtr sig)"
| "instr_result (FunctionAddr d _ sig) = Some (d, FnPtr sig)"
| "instr_result (ConstDecl d _ e _) = Some (d, ce_ty e)"
| "instr_result (Const d t _) = Some (d, t)"
| "instr_result (Undef d t) = Some (d, t)"
| "instr_result (Mov d t _) = Some (d, t)"
| "instr_result (Bin d _ t _ _) = Some (d, t)"
| "instr_result (Neg d t _) = Some (d, t)"
| "instr_result (NotI d t _) = Some (d, t)"
| "instr_result (Select d t _ _ _) = Some (d, t)"
| "instr_result (Phi d t _) = Some (d, t)"
| "instr_result (VolatileLoad d t _ _) = Some (d, t)"
| "instr_result (Load d t _ _) = Some (d, t)"
| "instr_result (Cmp d _ _ _ _) = Some (d, Bool)"
| "instr_result (ICmp d _ _ _ _) = Some (d, Bool)"
| "instr_result (FCmp d _ _ _ _) = Some (d, Bool)"
| "instr_result (Cast d _ _ t _) = Some (d, t)"
| "instr_result (Extract d t _ _) = Some (d, t)"
| "instr_result (Gep d t _ _) = Some (d, t)"
| "instr_result (Checked d _ t _ _) = Some (d, TupleT [t, Bool])"
| "instr_result (Alloca d t _) = Some (d, Ptr t)"
| "instr_result (GlobalAddr d _ t) = Some (d, Ptr t)"
| "instr_result (PtrDiff d _ _) = Some (d, I128)"
| "instr_result (Call _ (Some d) t _ _) = Some (d, t)"
| "instr_result _ = None"

fun local_reference :: "const_ref \<Rightarrow> value_id list" where
  "local_reference (LocalRef v) = [v]"
| "local_reference (GlobalRef _) = []"

fun instr_uses :: "instruction \<Rightarrow> value_id list" where
  "instr_uses (ConstDecl _ _ e _) = concat (map local_reference (const_references e))"
| "instr_uses (Mov _ _ s) = [s]"
| "instr_uses (Bin _ _ _ l r) = [l, r]"
| "instr_uses (PtrDiff _ l r) = [l, r]"
| "instr_uses (Neg _ _ s) = [s]"
| "instr_uses (NotI _ _ s) = [s]"
| "instr_uses (Cmp _ _ _ l r) = [l, r]"
| "instr_uses (ICmp _ _ _ l r) = [l, r]"
| "instr_uses (FCmp _ _ _ l r) = [l, r]"
| "instr_uses (Select _ _ c a b) = [c, a, b]"
| "instr_uses (Cast _ _ _ _ s) = [s]"
| "instr_uses (Phi _ _ incomings) = map fst incomings"
| "instr_uses (Extract _ _ t _) = [t]"
| "instr_uses (Checked _ _ _ l r) = [l, r]"
| "instr_uses (VolatileLoad _ _ p _) = [p]"
| "instr_uses (Load _ _ p _) = [p]"
| "instr_uses (Uninit _ p _) = [p]"
| "instr_uses (LifetimeEnd p) = [p]"
| "instr_uses (VolatileStore _ v p _) = [v, p]"
| "instr_uses (Store _ v p _) = [v, p]"
| "instr_uses (Gep _ _ b indices) = b # indices"
| "instr_uses (Memcpy d s n _) = [d, s, n]"
| "instr_uses (Memset d v n _) = [d, v, n]"
| "instr_uses (Call _ _ _ callee args) = (case callee of Indirect v \<Rightarrow> [v] | Direct _ \<Rightarrow> []) @ args"
| "instr_uses (TrapIf c _) = [c]"
| "instr_uses _ = []"

definition check_uses :: "instruction \<Rightarrow> value_id set \<Rightarrow> string \<Rightarrow> verify_error + unit" where
  "check_uses ins defined func =
     foldR (\<lambda>u _. ensure (u \<in> defined) (VUseOfUndefinedValue func u)) (instr_uses ins) ()"

subsection \<open>Type categories\<close>

definition is_signed :: "ty \<Rightarrow> bool" where
  "is_signed t = (t \<in> {I1, I8, I16, I32, I64, I128})"

definition is_unsigned :: "ty \<Rightarrow> bool" where
  "is_unsigned t = (t \<in> {U1, U8, U16, U32, U64, U128})"

definition is_integer :: "ty \<Rightarrow> bool" where
  "is_integer t = (is_signed t \<or> is_unsigned t)"

definition is_float :: "ty \<Rightarrow> bool" where
  "is_float t = (t \<in> {F16, F32, F64})"

definition integer_width :: "ty \<Rightarrow> nat option" where
  "integer_width t =
     (if t \<in> {I1, U1} then Some 1 else if t \<in> {I8, U8} then Some 8 else if t \<in> {I16, U16} then Some 16
      else if t \<in> {I32, U32} then Some 32 else if t \<in> {I64, U64} then Some 64
      else if t \<in> {I128, U128} then Some 128 else None)"

definition type_float_width :: "ty \<Rightarrow> nat option" where
  "type_float_width t = (case t of F16 \<Rightarrow> Some 16 | F32 \<Rightarrow> Some 32 | F64 \<Rightarrow> Some 64 | _ \<Rightarrow> None)"

definition zip_widths :: "(nat \<Rightarrow> nat \<Rightarrow> bool) \<Rightarrow> nat option \<Rightarrow> nat option \<Rightarrow> bool" where
  "zip_widths P s d = (case (s, d) of (Some a, Some b) \<Rightarrow> P a b | _ \<Rightarrow> False)"

definition or_else :: "'a option \<Rightarrow> 'a option \<Rightarrow> 'a option" where
  "or_else a b = (case a of Some _ \<Rightarrow> a | None \<Rightarrow> b)"

definition valid_cast :: "cast_op \<Rightarrow> ty \<Rightarrow> ty \<Rightarrow> bool" where
  "valid_cast op s d =
     (let ints = (\<lambda>P. zip_widths P (integer_width s) (integer_width d));
          floats = (\<lambda>P. zip_widths P (type_float_width s) (type_float_width d))
      in case op of
           ZExt \<Rightarrow> if s = Bool then is_integer d \<and> d \<noteq> I1 else ints (<)
         | SExt \<Rightarrow> ints (<)
         | CheckedInt \<Rightarrow> ints (\<lambda>_ _. True)
         | Trunc \<Rightarrow> ints (>)
         | FExt \<Rightarrow> floats (<)
         | FTrunc \<Rightarrow> floats (>)
         | IToF_S \<Rightarrow> is_signed s \<and> is_float d
         | IToF_U \<Rightarrow> is_unsigned s \<and> is_float d
         | FToI_S \<Rightarrow> is_float s \<and> is_signed d
         | FToI_U \<Rightarrow> is_float s \<and> is_unsigned d
         | Bitcast \<Rightarrow>
             zip_widths (=) (or_else (integer_width s) (type_float_width s))
               (or_else (integer_width d) (type_float_width d))
             \<or> is_ptr s \<and> is_ptr d
         | PtrToInt \<Rightarrow> is_ptr s \<and> is_integer d
         | IntToPtr \<Rightarrow> is_integer s \<and> is_ptr d)"

definition supports_equality :: "ty \<Rightarrow> bool" where
  "supports_equality t = (is_integer t \<or> t = Bool \<or> is_ptr t)"

fun is_storable :: "ty \<Rightarrow> bool" where
  "is_storable Void = False"
| "is_storable (ArrayT t _) = is_storable t"
| "is_storable (StructT ts) = list_all is_storable ts"
| "is_storable (TupleT ts) = list_all is_storable ts"
| "is_storable _ = True"

subsection \<open>Operand rules\<close>

definition verify_type_category :: "indexed \<Rightarrow> string \<Rightarrow> ty \<Rightarrow> bool \<Rightarrow> verify_error + unit" where
  "verify_type_category f operation t valid = ensure valid (VInvalidInstructionType (fname f) operation t)"

definition verify_operand :: "indexed \<Rightarrow> value_id \<Rightarrow> ty \<Rightarrow> verify_error + unit" where
  "verify_operand f v expected =
     rbind (typed f v) (\<lambda>got. ensure (got = expected) (VOperandTypeMismatch (fname f) v expected got))"

definition verify_operands :: "indexed \<Rightarrow> (value_id \<times> ty) list \<Rightarrow> verify_error + unit" where
  "verify_operands f vs = foldR (\<lambda>(v, t) _. verify_operand f v t) vs ()"

definition verify_alignment :: "indexed \<Rightarrow> u32 \<Rightarrow> verify_error + unit" where
  "verify_alignment f align = ensure (is_power_of_two align) (VInvalidMemoryAlignment (fname f) align)"

definition verify_condition :: "indexed \<Rightarrow> value_id \<Rightarrow> verify_error + unit" where
  "verify_condition f v =
     rbind (typed f v) (\<lambda>t. ensure (t = Bool) (VConditionTypeMismatch (fname f) v t))"

text \<open>\<open>usize::try_from\<close> on an integer constant.\<close>

definition constant_ordinal :: "const_value \<Rightarrow> usize option" where
  "constant_ordinal c =
     (case c of
        ConstI n \<Rightarrow> if 0 \<le> sint n \<and> sint n < 2 ^ 64 then Some (nat (sint n)) else None
      | ConstU n \<Rightarrow> if unat n < 2 ^ 64 then Some (unat n) else None
      | _ \<Rightarrow> None)"

definition gep_field :: "indexed \<Rightarrow> value_id \<Rightarrow> usize \<Rightarrow> value_id \<Rightarrow> ty list \<Rightarrow> verify_error + ty" where
  "gep_field f dst position v fs =
     rbind (ok_or (Option.bind (ix_constants f v) constant_ordinal)
              (VInvalidGep (fname f) dst (Some position) ''field index must be a nonnegative integer constant''))
       (\<lambda>n. ok_or (get fs n) (VInvalidGep (fname f) dst (Some position) ''field index is outside the aggregate type''))"

definition gep_select :: "indexed \<Rightarrow> value_id \<Rightarrow> usize \<times> value_id \<Rightarrow> ty \<Rightarrow> verify_error + ty" where
  "gep_select f dst = (\<lambda>(position, v) selected.
     rbind (typed f v) (\<lambda>t.
     if \<not> is_integer t then Inl (VInvalidGep (fname f) dst (Some position) ''index must be an integer'')
     else if position = 0 then Inr selected
     else case selected of
       ArrayT element _ \<Rightarrow> Inr element
     | StructT fs \<Rightarrow> gep_field f dst position v fs
     | TupleT fs \<Rightarrow> gep_field f dst position v fs
     | _ \<Rightarrow> Inl (VInvalidGep (fname f) dst (Some position)
               ''further indices require an array, struct, or tuple; GEP does not load pointers'')))"

definition verify_gep :: "indexed \<Rightarrow> value_id \<Rightarrow> ty \<Rightarrow> value_id \<Rightarrow> value_id list \<Rightarrow> verify_error + unit" where
  "verify_gep f dst dst_ty base indices =
     rbind (typed f base) (\<lambda>base_ty.
     case base_ty of
       Ptr pointee \<Rightarrow>
         if indices \<noteq> [] \<and> \<not> is_storable pointee
         then Inl (VInvalidGep (fname f) dst None ''element addressing requires a concrete stored type'')
         else rbind (foldR (gep_select f dst) (enumerate 0 indices) pointee) (\<lambda>selected.
              ensure (dst_ty = Ptr selected) (VOperandTypeMismatch (fname f) dst (Ptr selected) dst_ty))
     | _ \<Rightarrow> Inl (VInvalidGep (fname f) dst None ''base must be a pointer''))"

definition checked_type_ok :: "checked_op \<Rightarrow> ty \<Rightarrow> bool" where
  "checked_type_ok op t = (if op \<in> {SAdd, SSub, SMul} then is_signed t else is_unsigned t)"

definition bin_type_ok :: "bin_op \<Rightarrow> ty \<Rightarrow> bool" where
  "bin_type_ok op t =
     (if op \<in> {FAdd, FSub, FMul, FDiv, FRem} then is_float t
      else if op \<in> {SDiv, SRem} then is_signed t
      else if op \<in> {UDiv, URem} then is_unsigned t
      else is_integer t)"

definition cmp_type_ok :: "cmp_op \<Rightarrow> ty \<Rightarrow> bool" where
  "cmp_type_ok op t =
     (if op \<in> {CEq, CNe} then supports_equality t
      else if op \<in> {SLt, SLe, SGt, SGe} then is_signed t \<or> is_ptr t
      else if op \<in> {ULt, ULe, UGt, UGe} then is_unsigned t \<or> is_ptr t
      else is_float t)"

definition icmp_type_ok :: "icmp_pred \<Rightarrow> ty \<Rightarrow> bool" where
  "icmp_type_ok pred t =
     (if pred \<in> {IEq, INe} then supports_equality t
      else if pred \<in> {ISlt, ISle, ISgt, ISge} then is_signed t \<or> is_ptr t
      else is_unsigned t \<or> is_ptr t)"

definition verify_operation :: "indexed \<Rightarrow> instruction \<Rightarrow> verify_error + unit" where
  "verify_operation f ins =
     (case ins of
        Neg _ t s \<Rightarrow>
          rbind (verify_type_category f ''neg'' t (is_integer t \<or> is_float t)) (\<lambda>_. verify_operand f s t)
      | Cast d op st dt s \<Rightarrow>
          rbind (verify_operand f s st) (\<lambda>_. ensure (valid_cast op st dt) (VInvalidCast (fname f) d op st dt))
      | Checked _ op t l r \<Rightarrow>
          rbind (verify_type_category f ''checked arithmetic'' t (checked_type_ok op t)) (\<lambda>_.
          verify_operands f [(l, t), (r, t)])
      | Bin _ op t l r \<Rightarrow>
          rbind (verify_type_category f ''binary operation'' t (bin_type_ok op t)) (\<lambda>_.
          verify_operands f [(l, t), (r, t)])
      | LifetimeEnd p \<Rightarrow>
          rbind (typed f p) (\<lambda>t. verify_type_category f ''lifetime_end'' t (is_ptr t))
      | PtrDiff _ l r \<Rightarrow>
          rbind (typed f l) (\<lambda>t.
          rbind (verify_type_category f ''ptrdiff'' t (is_ptr t)) (\<lambda>_. verify_operand f r t))
      | NotI _ t s \<Rightarrow>
          rbind (verify_type_category f ''not'' t (is_integer t)) (\<lambda>_. verify_operand f s t)
      | Mov _ t s \<Rightarrow>
          rbind (verify_type_category f ''mov'' t (is_storable t)) (\<lambda>_. verify_operand f s t)
      | Cmp _ op t l r \<Rightarrow>
          rbind (verify_type_category f ''comparison'' t (cmp_type_ok op t)) (\<lambda>_.
          verify_operands f [(l, t), (r, t)])
      | ICmp _ pred t l r \<Rightarrow>
          rbind (verify_type_category f ''integer comparison'' t (icmp_type_ok pred t)) (\<lambda>_.
          verify_operands f [(l, t), (r, t)])
      | FCmp _ _ t l r \<Rightarrow>
          rbind (verify_type_category f ''floating comparison'' t (is_float t)) (\<lambda>_.
          verify_operands f [(l, t), (r, t)])
      | Select _ t c a b \<Rightarrow>
          rbind (verify_condition f c) (\<lambda>_.
          rbind (verify_type_category f ''select'' t (is_storable t)) (\<lambda>_.
          verify_operands f [(a, t), (b, t)]))
      | Extract _ t v index \<Rightarrow>
          verify_type_category f ''extract'' t
            ((case ix_types f v of Some (TupleT fs) \<Rightarrow> get fs (unat index) | _ \<Rightarrow> None) = Some t)
      | Uninit t p align \<Rightarrow>
          rbind (verify_alignment f align) (\<lambda>_.
          rbind (verify_type_category f ''uninit'' t (is_storable t)) (\<lambda>_. verify_operand f p (Ptr t)))
      | Alloca _ t align \<Rightarrow>
          rbind (verify_alignment f align) (\<lambda>_. verify_type_category f ''alloca'' t (is_storable t))
      | VolatileLoad _ t p align \<Rightarrow>
          rbind (verify_alignment f align) (\<lambda>_.
          rbind (verify_type_category f ''volatile load'' t (is_storable t \<and> \<not> is_aggregate t)) (\<lambda>_.
          verify_operand f p (Ptr t)))
      | VolatileStore t v p align \<Rightarrow>
          rbind (verify_alignment f align) (\<lambda>_.
          rbind (verify_type_category f ''volatile store'' t (is_storable t \<and> \<not> is_aggregate t)) (\<lambda>_.
          verify_operands f [(p, Ptr t), (v, t)]))
      | Load _ t p align \<Rightarrow>
          rbind (verify_alignment f align) (\<lambda>_.
          rbind (verify_type_category f ''load'' t (is_storable t)) (\<lambda>_. verify_operand f p (Ptr t)))
      | Store t v p align \<Rightarrow>
          rbind (verify_alignment f align) (\<lambda>_.
          rbind (verify_type_category f ''store'' t (is_storable t)) (\<lambda>_.
          verify_operands f [(p, Ptr t), (v, t)]))
      | Gep d t b indices \<Rightarrow> verify_gep f d t b indices
      | Memcpy d s n align \<Rightarrow>
          rbind (verify_alignment f align) (\<lambda>_. verify_operands f [(d, Ptr U8), (s, Ptr U8), (n, U64)])
      | Memset d v n align \<Rightarrow>
          rbind (verify_alignment f align) (\<lambda>_. verify_operands f [(d, Ptr U8), (v, U8), (n, U64)])
      | _ \<Rightarrow> Inr ())"

end
