(* ===== verification/IrVerifyCfg.thy ===== *)
theory IrVerifyCfg
  imports IrVerifyOperands
begin

text \<open>
  The control-flow checks of the verifier, \<open>ir/src/verifier/cfg.rs\<close>: edges, depth-first
  order, immediate dominators by iteration to a fixed point, the intervals of the dominator
  tree, and the SSA rules that use them.  Every loop charges the analysis budget, which also
  bounds the recursion here.  Block numbers are positions in the function's block list; the
  vectors indexed by them have its length.  Stacks are lists with their top first.
\<close>

subsection \<open>The analysis budget\<close>

record analysis =
  an_limit :: usize
  an_work :: usize
  an_queries :: usize

definition charge :: "analysis \<Rightarrow> verify_error + analysis" where
  "charge b =
     (if an_limit b \<le> an_work b then Inl (VResourceLimit (limit_error AnalysisWork (an_limit b)))
      else Inr (b\<lparr>an_work := an_work b + 1\<rparr>))"

lemma analysis_charge_Inr [result_simps]:
  "charge b = Inr b' \<longleftrightarrow> an_work b < an_limit b \<and> b' = b\<lparr>an_work := an_work b + 1\<rparr>"
  by (auto simp: charge_def)

abbreviation left :: "analysis \<Rightarrow> nat" where
  "left b \<equiv> an_limit b - an_work b"

lemma analysis_charge_left: "charge b = Inr b' \<Longrightarrow> left b' < left b"
  by (auto simp: analysis_charge_Inr)

subsection \<open>Edges\<close>

fun terminator_targets :: "terminator \<Rightarrow> block_id list" where
  "terminator_targets (Br t) = [t]"
| "terminator_targets (CBr _ a b) = [a, b]"
| "terminator_targets (Switch _ _ d cs) = d # map snd cs"
| "terminator_targets (Ret _ _) = []"
| "terminator_targets (Trap _) = []"

record edges =
  successors :: "usize list list"
  predecessors :: "usize list list"

definition push_at :: "usize \<Rightarrow> 'a \<Rightarrow> 'a list list \<Rightarrow> 'a list list" where
  "push_at i x xs = xs[i := xs ! i @ [x]]"

definition add_edge ::
  "(block_id \<rightharpoonup> usize) \<Rightarrow> usize \<Rightarrow> block_id \<Rightarrow> usize set \<times> edges \<times> analysis \<Rightarrow> verify_error + usize set \<times> edges \<times> analysis" where
  "add_edge indices index t = (\<lambda>(seen, es, b).
     rbind (charge b) (\<lambda>b.
     rbind (ok_or (indices t) VerifyPanic) (\<lambda>target.
     if target \<in> seen then Inr (seen, es, b)
     else Inr (insert target seen,
               es\<lparr>successors := push_at index target (successors es),
                  predecessors := push_at target index (predecessors es)\<rparr>, b))))"

definition block_edges ::
  "(block_id \<rightharpoonup> usize) \<Rightarrow> usize \<times> basic_block \<Rightarrow> edges \<times> analysis \<Rightarrow> verify_error + edges \<times> analysis" where
  "block_edges indices = (\<lambda>(index, block) (es, b).
     rbind (charge b) (\<lambda>b.
     rbind (ok_or (bb_terminator block) VerifyPanic) (\<lambda>t.
     rbind (foldR (add_edge indices index) (terminator_targets t) ({}, es, b)) (\<lambda>(_, es, b).
     Inr (es, b)))))"

definition block_indices :: "basic_block list \<Rightarrow> block_id \<rightharpoonup> usize" where
  "block_indices blocks = map_of (rev (map (\<lambda>(i, b). (bb_id b, i)) (enumerate 0 blocks)))"

definition find_edges :: "basic_block list \<Rightarrow> analysis \<Rightarrow> verify_error + edges \<times> analysis" where
  "find_edges blocks b =
     foldR (block_edges (block_indices blocks)) (enumerate 0 blocks)
       (\<lparr>successors = replicate (length blocks) [], predecessors = replicate (length blocks) []\<rparr>, b)"

subsection \<open>Depth-first order\<close>

text \<open>Blocks in the order they are left.\<close>

function dfs_loop ::
  "usize list list \<Rightarrow> (usize \<times> bool) list \<Rightarrow> bool list \<Rightarrow> usize list \<Rightarrow> analysis \<Rightarrow> verify_error + usize list \<times> analysis" where
  "dfs_loop succ [] seen order b = Inr (order, b)"
| "dfs_loop succ ((block, exiting) # stack) seen order b =
     rbind (charge b) (\<lambda>b.
     if exiting then dfs_loop succ stack seen (order @ [block]) b
     else if seen ! block then dfs_loop succ stack seen order b
     else dfs_loop succ (map (\<lambda>n. (n, False)) (succ ! block) @ (block, True) # stack) (seen[block := True]) order b)"
  by pat_completeness auto
termination
  by (relation "measure (\<lambda>(_, _, _, _, b). left b)") (auto dest: analysis_charge_left)

subsection \<open>Immediate dominators\<close>

text \<open>The nearest common ancestor of two blocks in the current tree.\<close>

function intersect ::
  "usize option list \<Rightarrow> usize list \<Rightarrow> usize \<Rightarrow> usize \<Rightarrow> analysis \<Rightarrow> verify_error + usize \<times> analysis" where
  "intersect idom rank x y b =
     (if x = y then Inr (x, b)
      else rbind (charge b) (\<lambda>b.
        if rank ! y < rank ! x
        then rbind (ok_or (idom ! x) VerifyPanic) (\<lambda>x. intersect idom rank x y b)
        else rbind (ok_or (idom ! y) VerifyPanic) (\<lambda>y. intersect idom rank x y b)))"
  by pat_completeness auto
termination
  by (relation "measure (\<lambda>(_, _, _, _, b). left b)") (auto dest: analysis_charge_left)

declare intersect.simps [simp del]

definition meet_predecessor ::
  "usize option list \<Rightarrow> usize list \<Rightarrow> usize \<Rightarrow> usize option \<times> analysis \<Rightarrow> verify_error + usize option \<times> analysis" where
  "meet_predecessor idom rank p = (\<lambda>(cur, b).
     rbind (charge b) (\<lambda>b.
     if idom ! p = None then Inr (cur, b)
     else case cur of
       None \<Rightarrow> Inr (Some p, b)
     | Some x \<Rightarrow> rbind (intersect idom rank x p b) (\<lambda>(x, b). Inr (Some x, b))))"

definition update_idom ::
  "usize list list \<Rightarrow> usize list \<Rightarrow> usize \<Rightarrow> usize option list \<times> bool \<times> analysis \<Rightarrow>
   verify_error + usize option list \<times> bool \<times> analysis" where
  "update_idom preds rank block = (\<lambda>(idom, changed, b).
     rbind (charge b) (\<lambda>b.
     rbind (foldR (meet_predecessor idom rank) (preds ! block) (None, b)) (\<lambda>(cur, b).
     if cur \<noteq> idom ! block then Inr (idom[block := cur], True, b) else Inr (idom, changed, b))))"

lemma foldR_left:
  assumes "foldR f xs s = Inr t" "\<And>x s t. f x s = Inr t \<Longrightarrow> m t \<le> (m s :: nat)"
  shows "m t \<le> m s"
  using assms(1)
proof (induction xs arbitrary: s)
  case (Cons x xs)
  then obtain s' where "f x s = Inr s'" "foldR f xs s' = Inr t" by (auto simp: result_simps)
  with assms(2) [of x s s'] Cons.IH [of s'] show ?case by simp
qed simp

lemma intersect_left: "intersect idom rank x y b = Inr (z, b') \<Longrightarrow> left b' \<le> left b"
proof (induction idom rank x y b rule: intersect.induct)
  case (1 idom rank x y b)
  show ?case
  proof (cases "x = y")
    case False
    with "1.prems" obtain b1 where c: "charge b = Inr b1" by (auto simp: intersect.simps [of idom rank x y b] result_simps)
    from analysis_charge_left [OF c] False c "1.prems" "1.IH" show ?thesis
      by (fastforce simp: intersect.simps [of idom rank x y b] result_simps split: if_splits)
  qed (use "1.prems" in \<open>simp add: intersect.simps\<close>)
qed

lemma meet_predecessor_left: "meet_predecessor idom rank p s = Inr t \<Longrightarrow> left (snd t) \<le> left (snd s)"
  by (cases s) (auto simp: meet_predecessor_def result_simps split: if_splits option.splits dest!: intersect_left)

lemma update_idom_left:
  "update_idom preds rank block s = Inr t \<Longrightarrow> left (snd (snd t)) < left (snd (snd s))"
proof -
  assume u: "update_idom preds rank block s = Inr t"
  obtain idom changed b where s: "s = (idom, changed, b)" by (cases s) auto
  from u s obtain b1 cur b2 where c: "charge b = Inr b1"
    and f: "foldR (meet_predecessor idom rank) (preds ! block) (None, b1) = Inr (cur, b2)"
    and t: "snd (snd t) = b2" by (auto simp: update_idom_def result_simps split: if_splits)
  have "left b2 \<le> left b1" using foldR_left [OF f, of "\<lambda>s. left (snd s)"] meet_predecessor_left by auto
  with analysis_charge_left [OF c] show ?thesis using s t by simp
qed

function idom_loop ::
  "usize list list \<Rightarrow> usize list \<Rightarrow> usize list \<Rightarrow> usize option list \<Rightarrow> analysis \<Rightarrow>
   verify_error + usize option list \<times> analysis" where
  "idom_loop preds rank blocks idom b =
     rbind (foldR (update_idom preds rank) blocks (idom, False, b)) (\<lambda>(idom, changed, b).
     if changed then idom_loop preds rank blocks idom b else Inr (idom, b))"
  by pat_completeness auto
termination
proof (relation "measure (\<lambda>(_, _, _, _, b). left b)")
  fix preds rank blocks idom b x idom' y changed b'
  assume f: "foldR (update_idom preds rank) blocks (idom, False, b) = Inr x" and x: "(idom', y) = x" "(changed, b') = y" and changed
  then obtain blk blks where "blocks = blk # blks" by (cases blocks) auto
  with f obtain s where s: "update_idom preds rank blk (idom, False, b) = Inr s" "foldR (update_idom preds rank) blks s = Inr x"
    by (auto simp: result_simps)
  have "left (snd (snd x)) \<le> left (snd (snd s))"
    using s(2) by (rule foldR_left) (auto dest: update_idom_left)
  with update_idom_left [OF s(1)] x have "left b' < left b" by auto
  then show "((preds, rank, blocks, idom', b'), preds, rank, blocks, idom, b) \<in> measure (\<lambda>(_, _, _, _, b). left b)" by simp
qed simp

declare idom_loop.simps [simp del]

subsection \<open>Intervals of the dominator tree\<close>

definition add_child :: "usize \<times> usize option \<Rightarrow> usize list list \<times> analysis \<Rightarrow> verify_error + usize list list \<times> analysis" where
  "add_child = (\<lambda>(block, parent) (children, b).
     rbind (charge b) (\<lambda>b.
     case parent of
       Some p \<Rightarrow> Inr (if p \<noteq> block then push_at p block children else children, b)
     | None \<Rightarrow> Inr (children, b)))"

function interval_loop ::
  "usize list list \<Rightarrow> (usize \<times> bool) list \<Rightarrow> (usize \<times> usize) option list \<Rightarrow> usize \<Rightarrow> analysis \<Rightarrow>
   verify_error + (usize \<times> usize) option list \<times> analysis" where
  "interval_loop children [] intervals clock b = Inr (intervals, b)"
| "interval_loop children ((block, exiting) # stack) intervals clock b =
     rbind (charge b) (\<lambda>b.
     if exiting then
       rbind (ok_or (intervals ! block) VerifyPanic) (\<lambda>(start, _).
       interval_loop children stack (intervals[block := Some (start, clock)]) (clock + 1) b)
     else interval_loop children (map (\<lambda>c. (c, False)) (children ! block) @ (block, True) # stack)
            (intervals[block := Some (clock, clock)]) (clock + 1) b)"
  by pat_completeness auto
termination
  by (relation "measure (\<lambda>(_, _, _, _, b). left b)") (auto dest: analysis_charge_left)

subsection \<open>Control-flow graphs\<close>

record cfg =
  cfg_indices :: "block_id \<rightharpoonup> usize"
  cfg_predecessors :: "usize list list"
  cfg_idom :: "usize option list"
  cfg_intervals :: "(usize \<times> usize) option list"

definition block_ranks :: "usize \<Rightarrow> usize list \<Rightarrow> usize list" where
  "block_ranks n order = fold (\<lambda>(i, block) rank. rank[block := i]) (enumerate 0 order) (replicate n 0)"

definition cfg_new :: "indexed \<Rightarrow> analysis \<Rightarrow> verify_error + cfg \<times> analysis" where
  "cfg_new f b =
     (let blocks = f_blocks (ix_function f); n = length blocks; indices = block_indices blocks in
      rbind (find_edges blocks b) (\<lambda>(es, b).
      rbind (ok_or (indices (f_entry (ix_function f))) VerifyPanic) (\<lambda>entry.
      case predecessors es ! entry of
        p # _ \<Rightarrow> Inl (VEntryHasPredecessor (fname f) (f_entry (ix_function f)) (bb_id (blocks ! p)))
      | [] \<Rightarrow>
          rbind (dfs_loop (successors es) [(entry, False)] (replicate n False) [] b) (\<lambda>(order, b).
          let order = rev order in
          rbind (idom_loop (predecessors es) (block_ranks n order) (drop 1 order)
                   ((replicate n None)[entry := Some entry]) b) (\<lambda>(idom, b).
          rbind (foldR add_child (enumerate 0 idom) (replicate n [], b)) (\<lambda>(children, b).
          rbind (interval_loop children [(entry, False)] (replicate n None) 0 b) (\<lambda>(intervals, b).
          Inr (\<lparr>cfg_indices = indices, cfg_predecessors = predecessors es, cfg_idom = idom,
                cfg_intervals = intervals\<rparr>, b))))))))"

definition dominates :: "cfg \<Rightarrow> usize \<Rightarrow> usize \<Rightarrow> analysis \<Rightarrow> verify_error + bool \<times> analysis" where
  "dominates c def use b =
     rbind (charge b) (\<lambda>b.
     Inr (case (cfg_intervals c ! def, cfg_intervals c ! use) of
            (Some (start, stop), Some (use_start, use_stop)) \<Rightarrow> start \<le> use_start \<and> use_stop \<le> stop
          | _ \<Rightarrow> False,
          b\<lparr>an_queries := an_queries b + 1\<rparr>))"

subsection \<open>SSA rules\<close>

type_synonym definitions = "value_id \<rightharpoonup> (usize \<times> usize) option"

definition block_definitions :: "usize \<times> basic_block \<Rightarrow> (value_id \<times> (usize \<times> usize) option) list" where
  "block_definitions = (\<lambda>(block, bb).
     concat (map (\<lambda>(position, ins). case instr_result ins of Some (v, _) \<Rightarrow> [(v, Some (block, position))] | None \<Rightarrow> [])
       (enumerate 0 (bb_instructions bb))))"

definition ssa_definitions :: "ir_function \<Rightarrow> definitions" where
  "ssa_definitions f =
     map_of (rev (map (\<lambda>p. (p_id p, None)) (f_params f)
                  @ concat (map block_definitions (enumerate 0 (f_blocks f)))))"

definition available :: "indexed \<Rightarrow> cfg \<Rightarrow> value_id \<Rightarrow> usize \<Rightarrow> usize \<Rightarrow> analysis \<Rightarrow> verify_error + analysis" where
  "available f c v block position b =
     rbind (ok_or (ssa_definitions (ix_function f) v) (VUseOfUndefinedValue (fname f) v)) (\<lambda>def.
     if cfg_idom c ! block = None then Inr b
     else case def of
       None \<Rightarrow> Inr b
     | Some (def_block, def_position) \<Rightarrow>
         rbind (if def_block = block then Inr (def_position < position, b) else dominates c def_block block b) (\<lambda>(valid, b).
         if valid then Inr b
         else Inl (VNonDominatingValue (fname f) v (bb_id (f_blocks (ix_function f) ! block)))))"

definition invalid_phi :: "indexed \<Rightarrow> basic_block \<Rightarrow> value_id \<Rightarrow> string \<Rightarrow> verify_error" where
  "invalid_phi f bb dst reason = VInvalidPhi (fname f) (bb_id bb) dst reason"

definition check_incoming ::
  "indexed \<Rightarrow> cfg \<Rightarrow> usize \<Rightarrow> basic_block \<Rightarrow> value_id \<Rightarrow> ty \<Rightarrow> value_id \<times> block_id \<Rightarrow> usize set \<times> analysis \<Rightarrow>
   verify_error + usize set \<times> analysis" where
  "check_incoming f c block bb dst t = (\<lambda>(v, predecessor) (seen, b).
     rbind (charge b) (\<lambda>b.
     rbind (ok_or (cfg_indices c predecessor) (invalid_phi f bb dst ''phi names an unknown predecessor'')) (\<lambda>pred.
     if pred \<notin> set (cfg_predecessors c ! block) then Inl (invalid_phi f bb dst ''phi input is not a predecessor'')
     else if pred \<in> seen then Inl (invalid_phi f bb dst ''duplicate phi predecessor'')
     else rbind (verify_operand f v t) (\<lambda>_.
          rbind (available f c v pred (length (bb_instructions (f_blocks (ix_function f) ! pred))) b) (\<lambda>b.
          Inr (insert pred seen, b))))))"

definition check_phi ::
  "indexed \<Rightarrow> cfg \<Rightarrow> usize \<Rightarrow> basic_block \<Rightarrow> bool \<Rightarrow> value_id \<Rightarrow> ty \<Rightarrow> (value_id \<times> block_id) list \<Rightarrow> analysis \<Rightarrow>
   verify_error + analysis" where
  "check_phi f c block bb past_phi dst t incomings b =
     (if past_phi then Inl (invalid_phi f bb dst ''phi must precede non-phi instructions'')
      else if bb_id bb = f_entry (ix_function f)
      then Inl (invalid_phi f bb dst ''function entry has no incoming SSA value'')
      else if incomings = [] then Inl (invalid_phi f bb dst ''phi requires incoming values'')
      else
        rbind (verify_type_category f ''phi'' t (is_storable t)) (\<lambda>_.
        rbind (foldR (check_incoming f c block bb dst t) incomings ({}, b)) (\<lambda>(seen, b).
        if card seen \<noteq> length (cfg_predecessors c ! block)
        then Inl (invalid_phi f bb dst ''phi is missing a predecessor'') else Inr b)))"

fun is_phi :: "instruction \<Rightarrow> bool" where
  "is_phi (Phi _ _ _) = True"
| "is_phi _ = False"

definition check_ssa_instruction ::
  "indexed \<Rightarrow> cfg \<Rightarrow> usize \<Rightarrow> basic_block \<Rightarrow> usize \<times> instruction \<Rightarrow> bool \<times> analysis \<Rightarrow> verify_error + bool \<times> analysis" where
  "check_ssa_instruction f c block bb = (\<lambda>(position, ins) (past_phi, b).
     rbind (charge b) (\<lambda>b.
     case ins of
       Phi dst t incomings \<Rightarrow>
         rbind (check_phi f c block bb past_phi dst t incomings b) (\<lambda>b. Inr (past_phi, b))
     | _ \<Rightarrow>
         rbind (foldR (\<lambda>v b. available f c v block position b) (instr_uses ins) b) (\<lambda>b. Inr (True, b))))"

fun terminator_uses :: "terminator \<Rightarrow> value_id option" where
  "terminator_uses (CBr c _ _) = Some c"
| "terminator_uses (Switch _ v _ _) = Some v"
| "terminator_uses (Ret _ v) = v"
| "terminator_uses _ = None"

definition check_ssa_block :: "indexed \<Rightarrow> cfg \<Rightarrow> usize \<times> basic_block \<Rightarrow> analysis \<Rightarrow> verify_error + analysis" where
  "check_ssa_block f c = (\<lambda>(block, bb) b.
     rbind (foldR (check_ssa_instruction f c block bb) (enumerate 0 (bb_instructions bb)) (False, b)) (\<lambda>(_, b).
     rbind (ok_or (bb_terminator bb) VerifyPanic) (\<lambda>t.
     case terminator_uses t of
       Some v \<Rightarrow> available f c v block (length (bb_instructions bb)) b
     | None \<Rightarrow> Inr b)))"

definition cfg_verify :: "indexed \<Rightarrow> analysis \<Rightarrow> verify_error + analysis" where
  "cfg_verify f b =
     rbind (cfg_new f b) (\<lambda>(c, b). foldR (check_ssa_block f c) (enumerate 0 (f_blocks (ix_function f))) b)"

end
