(* ===== verification/IrVerifier.thy ===== *)
theory IrVerifier
  imports IrVerifyCfg
begin

text \<open>
  The module verifier: declarations and calls (\<open>ir/src/verifier/calls.rs\<close>), constant
  declarations (\<open>constants.rs\<close>) and the order of checks of \<open>ir/src/verifier.rs\<close>.
\<close>

subsection \<open>Declarations and calls\<close>

fun contains_function_pointer :: "ty \<Rightarrow> bool" where
  "contains_function_pointer (FnPtr _) = True"
| "contains_function_pointer (Ptr t) = contains_function_pointer t"
| "contains_function_pointer (ArrayT t _) = contains_function_pointer t"
| "contains_function_pointer (StructT ts) = list_ex contains_function_pointer ts"
| "contains_function_pointer (TupleT ts) = list_ex contains_function_pointer ts"
| "contains_function_pointer _ = False"

fun validate_pointer_types :: "ir_limits \<Rightarrow> ty \<Rightarrow> call_error + unit"
and validate_pointer_fields :: "ir_limits \<Rightarrow> ty list \<Rightarrow> call_error + unit" where
  "validate_pointer_types limits (FnPtr sig) = validate_signature_with_limits sig limits"
| "validate_pointer_types limits (Ptr t) = validate_pointer_types limits t"
| "validate_pointer_types limits (ArrayT t _) = validate_pointer_types limits t"
| "validate_pointer_types limits (StructT ts) = validate_pointer_fields limits ts"
| "validate_pointer_types limits (TupleT ts) = validate_pointer_fields limits ts"
| "validate_pointer_types limits _ = Inr ()"
| "validate_pointer_fields limits [] = Inr ()"
| "validate_pointer_fields limits (t # ts) =
     rbind (validate_pointer_types limits t) (\<lambda>_. validate_pointer_fields limits ts)"

definition verify_body_types :: "ir_limits \<Rightarrow> ir_function \<Rightarrow> verify_error + unit" where
  "verify_body_types limits f =
     rbind (foldR (\<lambda>(_, t) _. map_err (VCall (f_name f)) (validate_pointer_types limits t)) (f_value_types f) ()) (\<lambda>_.
     foldR (\<lambda>p _. ensure (p_ty p \<noteq> Void) (VVoidParameter (f_name f) (p_name p))) (f_params f) ())"

definition verify_declaration ::
  "ir_module \<Rightarrow> ir_limits \<Rightarrow> function_decl \<Rightarrow> function_id set \<times> string set \<times> string set \<Rightarrow>
   verify_error + function_id set \<times> string set \<times> string set" where
  "verify_declaration m limits d = (\<lambda>(ids, names, links).
     rbind (map_err (VCall (d_name d)) (validate_decl_with_limits d limits)) (\<lambda>_.
     if d_id d \<in> ids \<or> d_name d \<in> names
     then Inl (VCall (d_name d) (ConflictingDeclaration (d_name d)))
     else rbind (case d_link_name d of
                   None \<Rightarrow> Inr links
                 | Some l \<Rightarrow> if l \<in> links then Inl (VCall (d_name d) (LinkNameCollision l)) else Inr (insert l links)) (\<lambda>links.
       if d_linkage d = LinkInternal \<and> \<not> list_ex (\<lambda>f. f_id f = d_id d) (m_functions m)
       then Inl (VCall (d_name d) (MissingDefinition (d_id d)))
       else Inr (insert (d_id d) ids, insert (d_name d) names, links))))"

definition find_declaration :: "ir_module \<Rightarrow> function_id \<Rightarrow> function_decl option" where
  "find_declaration m i = find (\<lambda>d. d_id d = i) (m_declarations m)"

definition verify_body :: "ir_module \<Rightarrow> ir_function \<Rightarrow> function_id set \<Rightarrow> verify_error + function_id set" where
  "verify_body m f bodies =
     (if f_id f \<in> bodies then Inl (VCall (f_name f) (DuplicateFunctionDefinition (f_id f)))
      else rbind (ok_or (find_declaration m (f_id f)) (VCall (f_name f) (UnknownFunction (f_id f)))) (\<lambda>d.
        if d_name d \<noteq> f_name f \<or> sig_ret (d_signature d) \<noteq> f_ret_ty f \<or> sig_params (d_signature d) \<noteq> map p_ty (f_params f)
        then Inl (VCall (f_name f) (DefinitionMismatch (f_id f)))
        else Inr (insert (f_id f) bodies)))"

definition verify_declarations :: "ir_module \<Rightarrow> ir_limits \<Rightarrow> verify_error + unit" where
  "verify_declarations m limits =
     rbind (foldR (\<lambda>f _. verify_body_types limits f) (m_functions m) ()) (\<lambda>_.
     rbind (foldR (verify_declaration m limits) (m_declarations m) ({}, {}, {})) (\<lambda>_.
     rbind (foldR (verify_body m) (m_functions m) {}) (\<lambda>_. Inr ())))"

definition call_signature :: "ir_module \<Rightarrow> indexed \<Rightarrow> callee \<Rightarrow> call_error + fn_sig" where
  "call_signature m f callee =
     (case callee of
        Direct i \<Rightarrow> rbind (ok_or (find_declaration m i) (UnknownFunction i)) (\<lambda>d. Inr (d_signature d))
      | Indirect v \<Rightarrow>
          (case ix_types f v of
             Some (FnPtr sig) \<Rightarrow> Inr sig
           | Some _ \<Rightarrow> Inl (NotFunctionPointer v)
           | None \<Rightarrow> Inl (UnknownValue v)))"

definition check_argument :: "indexed \<Rightarrow> usize \<times> value_id \<times> ty \<Rightarrow> call_error + unit" where
  "check_argument f = (\<lambda>(index, v, expected).
     rbind (ok_or (ix_types f v) (UnknownValue v)) (\<lambda>got.
     ensure (got = expected) (CallArgumentType index expected got)))"

definition check_call ::
  "indexed \<Rightarrow> ir_limits \<Rightarrow> fn_sig \<Rightarrow> calling_convention \<Rightarrow> value_id option \<Rightarrow> ty \<Rightarrow> value_id list \<Rightarrow> call_error + unit" where
  "check_call f limits sig convention dst ret_ty args =
     rbind (validate_signature_with_limits sig limits) (\<lambda>_.
     if convention \<noteq> sig_convention sig then Inl ConventionMismatch
     else if ret_ty \<noteq> sig_ret sig then Inl (CallReturnType (sig_ret sig) ret_ty)
     else if (dst \<noteq> None) = (sig_ret sig = Void) then Inl ResultPresence
     else if length args \<noteq> length (sig_params sig)
     then Inl (CallArgumentCount (length (sig_params sig)) (length args))
     else foldR (\<lambda>x _. check_argument f x) (enumerate 0 (zip args (sig_params sig))) ())"

definition forbidden_cast :: "indexed \<Rightarrow> cast_op \<Rightarrow> ty \<Rightarrow> ty \<Rightarrow> value_id \<Rightarrow> bool" where
  "forbidden_cast f op st dt s =
     (\<not> (op = Bitcast \<and> is_ptr st \<and> is_ptr dt \<and> (case ix_types f s of Some t \<Rightarrow> is_ptr t | None \<Rightarrow> False))
      \<and> (contains_function_pointer st \<or> contains_function_pointer dt
         \<or> (case ix_types f s of Some t \<Rightarrow> contains_function_pointer t | None \<Rightarrow> False)))"

definition verify_call_instruction :: "ir_module \<Rightarrow> indexed \<Rightarrow> instruction \<Rightarrow> ir_limits \<Rightarrow> verify_error + unit" where
  "verify_call_instruction m f ins limits =
     map_err (VCall (fname f))
       (case ins of
          NullFunction _ sig \<Rightarrow> validate_signature_with_limits sig limits
        | FunctionAddr _ i sig \<Rightarrow>
            rbind (ok_or (find_declaration m i) (UnknownFunction i)) (\<lambda>d.
            ensure (d_signature d = sig) AddressTypeMismatch)
        | Call convention dst ret_ty callee args \<Rightarrow>
            rbind (call_signature m f callee) (\<lambda>sig. check_call f limits sig convention dst ret_ty args)
        | Cast _ op st dt s \<Rightarrow> ensure (\<not> forbidden_cast f op st dt s) ForbiddenFunctionPointerCast
        | _ \<Rightarrow> Inr ())"

subsection \<open>Constant declarations\<close>

type_synonym const_values = "const_ref \<rightharpoonup> ty \<times> const_value"

definition const_lookup :: "const_values \<Rightarrow> const_values \<Rightarrow> const_ref \<Rightarrow> (ty \<times> const_value) option" where
  "const_lookup locals globals r = or_else (locals r) (globals r)"

record const_definition =
  cd_id :: const_ref
  cd_ty :: ty
  cd_expression :: const_expr
  cd_result :: const_value

definition index_definition ::
  "string \<Rightarrow> const_values \<Rightarrow> const_values \<Rightarrow> usize \<times> const_definition \<Rightarrow> (const_ref \<rightharpoonup> usize) \<Rightarrow> verify_error + (const_ref \<rightharpoonup> usize)" where
  "index_definition scope values globals = (\<lambda>(i, d) indices.
     if indices (cd_id d) \<noteq> None \<or> const_lookup values globals (cd_id d) \<noteq> None
     then Inl (VInvalidConstExpression scope (cd_id d) (DuplicateDefinition (cd_id d)))
     else if cd_ty d \<noteq> ce_ty (cd_expression d)
     then Inl (VInvalidConstExpression scope (cd_id d) EvalTypeMismatch)
     else Inr (indices(cd_id d \<mapsto> i)))"

record const_graph =
  cg_remaining :: "usize list"
  cg_users :: "usize list list"
  cg_ready :: "usize list"

definition add_dependency ::
  "string \<Rightarrow> const_values \<Rightarrow> const_values \<Rightarrow> (const_ref \<rightharpoonup> usize) \<Rightarrow> usize \<Rightarrow> const_definition \<Rightarrow> const_ref \<Rightarrow>
   const_ref set \<times> const_graph \<Rightarrow> verify_error + const_ref set \<times> const_graph" where
  "add_dependency scope values globals indices i d r = (\<lambda>(seen, g).
     if r \<in> seen then Inr (seen, g)
     else if const_lookup values globals r \<noteq> None then Inr (insert r seen, g)
     else rbind (ok_or (indices r) (VInvalidConstExpression scope (cd_id d) (UnknownReference r))) (\<lambda>dependency.
       Inr (insert r seen,
            g\<lparr>cg_remaining := (cg_remaining g)[i := cg_remaining g ! i + 1],
              cg_users := push_at dependency i (cg_users g)\<rparr>)))"

definition add_definition ::
  "string \<Rightarrow> const_values \<Rightarrow> const_values \<Rightarrow> (const_ref \<rightharpoonup> usize) \<Rightarrow> usize \<times> const_definition \<Rightarrow> const_graph \<Rightarrow>
   verify_error + const_graph" where
  "add_definition scope values globals indices = (\<lambda>(i, d) g.
     rbind (foldR (add_dependency scope values globals indices i d) (const_references (cd_expression d)) ({}, g)) (\<lambda>(_, g).
     Inr (if cg_remaining g ! i = 0 then g\<lparr>cg_ready := cg_ready g @ [i]\<rparr> else g)))"

text \<open>A user of a completed definition waits for one definition less; it cannot wait for
  none already.\<close>

definition release_user :: "usize \<Rightarrow> usize list \<times> usize list \<Rightarrow> verify_error + usize list \<times> usize list" where
  "release_user user = (\<lambda>(remaining, ready).
     if length remaining \<le> user \<or> remaining ! user = 0 then Inl VerifyPanic
     else let n = remaining ! user - 1 in
       Inr (remaining[user := n], if n = 0 then ready @ [user] else ready))"

lemma release_user_measure:
  "release_user u (remaining, ready) = Inr (remaining', ready') \<Longrightarrow>
     sum_list remaining' + length ready' \<le> sum_list remaining + length ready"
proof -
  assume r: "release_user u (remaining, ready) = Inr (remaining', ready')"
  then have u: "u < length remaining" "0 < remaining ! u"
    and e: "remaining' = remaining[u := remaining ! u - 1]" "ready' = (if remaining ! u - 1 = 0 then ready @ [u] else ready)"
    by (auto simp: release_user_def Let_def not_le split: if_splits)
  have "remaining ! u \<le> sum_list remaining" using u by (simp add: member_le_sum_list)
  then show ?thesis using u e by (simp add: sum_list_update)
qed

lemma release_users_measure:
  assumes "foldR release_user us (remaining, ready) = Inr (remaining', ready')"
  shows "sum_list remaining' + length ready' \<le> sum_list remaining + length ready"
proof -
  let ?m = "\<lambda>(remaining, ready). sum_list remaining + length ready"
  have "?m (remaining', ready') \<le> ?m (remaining, ready)"
    using assms by (rule foldR_left) (auto dest: release_user_measure)
  then show ?thesis by simp
qed

function const_loop ::
  "string \<Rightarrow> const_definition list \<Rightarrow> const_values \<Rightarrow> ir_limits \<Rightarrow> usize list list \<Rightarrow>
   usize list \<Rightarrow> usize list \<Rightarrow> const_values \<Rightarrow> bool list \<Rightarrow> verify_error + const_values \<times> bool list" where
  "const_loop scope defs globals limits users remaining [] values completed = Inr (values, completed)"
| "const_loop scope defs globals limits users remaining (i # ready) values completed =
     (let d = defs ! i in
      rbind (map_err (\<lambda>e. case e of Some reason \<Rightarrow> VInvalidConstExpression scope (cd_id d) reason | None \<Rightarrow> VerifyPanic)
               (evaluate_with_limits (cd_expression d) (const_lookup values globals) limits)) (\<lambda>res.
      if \<not> same_value res (cd_result d)
      then Inl (VInvalidConstExpression scope (cd_id d) ResultMismatch)
      else rbind (foldR release_user (users ! i) (remaining, ready)) (\<lambda>(remaining, ready).
        const_loop scope defs globals limits users remaining ready (values(cd_id d \<mapsto> (cd_ty d, res))) (completed[i := True]))))"
  by pat_completeness auto
termination
  by (relation "measure (\<lambda>(_, _, _, _, _, remaining, ready, _, _). sum_list remaining + length ready)")
    (auto dest: release_users_measure)

definition evaluate_definitions ::
  "string \<Rightarrow> const_definition list \<Rightarrow> const_values \<Rightarrow> const_values \<Rightarrow> ir_limits \<Rightarrow> verify_error + const_values" where
  "evaluate_definitions scope defs values globals limits =
     rbind (foldR (index_definition scope values globals) (enumerate 0 defs) Map.empty) (\<lambda>indices.
     rbind (foldR (add_definition scope values globals indices) (enumerate 0 defs)
              \<lparr>cg_remaining = replicate (length defs) 0, cg_users = replicate (length defs) [], cg_ready = []\<rparr>) (\<lambda>g.
     rbind (const_loop scope defs globals limits (cg_users g) (cg_remaining g) (cg_ready g) values
              (replicate (length defs) False)) (\<lambda>(values, completed).
     case find (\<lambda>i. \<not> completed ! i) [0..<length defs] of
       Some i \<Rightarrow> Inl (VInvalidConstExpression scope (cd_id (defs ! i)) CyclicReference)
     | None \<Rightarrow> Inr values)))"

definition verify_const_globals :: "ir_module \<Rightarrow> ir_limits \<Rightarrow> verify_error + const_values" where
  "verify_const_globals m limits =
     evaluate_definitions ''module''
       (map (\<lambda>g. \<lparr>cd_id = GlobalRef (g_id g), cd_ty = g_ty g, cd_expression = g_init_expr g, cd_result = g_init g\<rparr>)
          (m_globals m))
       Map.empty Map.empty limits"

fun const_local :: "instruction \<Rightarrow> const_values \<times> const_definition list \<Rightarrow> const_values \<times> const_definition list" where
  "const_local (Const d t v) (values, defs) = (values(LocalRef d \<mapsto> (t, v)), defs)"
| "const_local (ConstDecl d _ e v) (values, defs) =
     (values, defs @ [\<lparr>cd_id = LocalRef d, cd_ty = ce_ty e, cd_expression = e, cd_result = v\<rparr>])"
| "const_local _ s = s"

definition verify_const_locals :: "ir_function \<Rightarrow> const_values \<Rightarrow> ir_limits \<Rightarrow> verify_error + unit" where
  "verify_const_locals f globals limits =
     (let (values, defs) = fold const_local (all_instructions f) (Map.empty, []) in
      rbind (evaluate_definitions (f_name f) defs values globals limits) (\<lambda>_. Inr ()))"

subsection \<open>Storage of instructions and globals\<close>

definition storage_type :: "indexed \<Rightarrow> instruction \<Rightarrow> (string \<times> ty) option" where
  "storage_type f ins =
     (case ins of
        Alloca _ t _ \<Rightarrow> Some (''alloca'', t)
      | VolatileLoad _ t _ _ \<Rightarrow> Some (''load'', t)
      | Load _ t _ _ \<Rightarrow> Some (''load'', t)
      | VolatileStore t _ _ _ \<Rightarrow> Some (''store'', t)
      | Store t _ _ _ \<Rightarrow> Some (''store'', t)
      | Uninit t _ _ \<Rightarrow> Some (''uninit'', t)
      | Gep _ _ base indices \<Rightarrow>
          if indices \<noteq> [] then
            (case ix_types f base of Some (Ptr t) \<Rightarrow> Some (''gep'', t) | _ \<Rightarrow> None)
          else None
      | _ \<Rightarrow> None)"

definition verify_storage :: "target_spec \<Rightarrow> ir_limits \<Rightarrow> indexed \<Rightarrow> instruction \<Rightarrow> verify_error + unit" where
  "verify_storage spec limits f ins =
     (case ins of
        Undef d _ \<Rightarrow> Inl (VForbiddenUndef (fname f) d)
      | _ \<Rightarrow>
          (case storage_type f ins of
             Some (operation, t) \<Rightarrow>
               if is_storable t
               then rbind (map_err (VInvalidMemoryLayout (fname f) operation)
                             (layout_for_target t spec (max_type_depth limits))) (\<lambda>_. Inr ())
               else Inr ()
           | None \<Rightarrow> Inr ()))"

definition verify_global :: "global_var \<Rightarrow> string set \<Rightarrow> verify_error + string set" where
  "verify_global g globals =
     (if g_name g \<in> globals then Inl (VDuplicateGlobal (g_name g))
      else if \<not> valid_constant (g_ty g) (g_init g)
      then Inl (VInvalidGlobalInitializer (g_name g) (g_ty g) (g_init g))
      else if \<not> is_power_of_two (g_align g) then Inl (VInvalidGlobalAlignment (g_name g) (g_align g))
      else Inr (insert (g_name g) globals))"

record storage_check =
  sc_ids :: "global_id set"
  sc_names :: "string set"
  sc_links :: "string set"
  sc_types :: "global_id \<rightharpoonup> ty"

definition verify_global_storage ::
  "target_spec \<Rightarrow> ir_limits \<Rightarrow> global_storage \<Rightarrow> storage_check \<Rightarrow> verify_error + storage_check" where
  "verify_global_storage spec limits g s =
     (let err = VGlobalStorage (gs_name g) (gs_id g) in
      rbind (map_err err (validate_global_storage g limits)) (\<lambda>_.
      if gs_id g \<in> sc_ids s then Inl (err StorageDuplicateIdentity)
      else if gs_name g \<in> sc_names s then Inl (err StorageDuplicateName)
      else rbind (case gs_link_name g of
                    None \<Rightarrow> Inr (sc_links s)
                  | Some l \<Rightarrow> if l \<in> sc_links s then Inl (err StorageLinkNameCollision) else Inr (insert l (sc_links s))) (\<lambda>links.
        rbind (map_err (VInvalidMemoryLayout (gs_name g) ''global storage'')
                 (layout_for_target (gs_ty g) spec (max_type_depth limits))) (\<lambda>_.
        Inr \<lparr>sc_ids = insert (gs_id g) (sc_ids s), sc_names = insert (gs_name g) (sc_names s), sc_links = links,
             sc_types = (sc_types s)(gs_id g \<mapsto> gs_ty g)\<rparr>))))"

subsection \<open>Function structure\<close>

definition insert_block :: "indexed \<Rightarrow> basic_block \<Rightarrow> block_id set \<Rightarrow> verify_error + block_id set" where
  "insert_block f bb blocks =
     (if bb_id bb \<in> blocks then Inl (VDuplicateBlock (fname f) (bb_id bb)) else Inr (insert (bb_id bb) blocks))"

definition insert_param :: "indexed \<Rightarrow> param \<Rightarrow> value_id set \<Rightarrow> verify_error + value_id set" where
  "insert_param f p defined =
     (if p_ty p = Void then Inl (VVoidParameter (fname f) (p_name p))
      else if p_id p \<in> defined then Inl (VDuplicateValue (fname f) (p_id p))
      else Inr (insert (p_id p) defined))"

definition insert_result :: "indexed \<Rightarrow> instruction \<Rightarrow> value_id set \<Rightarrow> verify_error + value_id set" where
  "insert_result f ins defined =
     (case instr_result ins of
        Some (d, _) \<Rightarrow>
          if d \<in> defined then Inl (VDuplicateValue (fname f) d) else Inr (insert d defined)
      | None \<Rightarrow> Inr defined)"

definition verify_block_instruction :: "indexed \<Rightarrow> value_id set \<Rightarrow> instruction \<Rightarrow> verify_error + unit" where
  "verify_block_instruction f defined ins =
     rbind (check_uses ins defined (fname f)) (\<lambda>_.
     case ins of
       Const d t v \<Rightarrow> ensure (valid_constant t v) (VInvalidConstant (fname f) d t v)
     | Select _ _ c _ _ \<Rightarrow> verify_condition f c
     | TrapIf c _ \<Rightarrow> verify_condition f c
     | _ \<Rightarrow> Inr ())"

definition defined_use :: "indexed \<Rightarrow> value_id set \<Rightarrow> value_id \<Rightarrow> verify_error + unit" where
  "defined_use f defined v = ensure (v \<in> defined) (VUseOfUndefinedValue (fname f) v)"

definition switch_key :: "const_value \<Rightarrow> u128 option" where
  "switch_key c =
     (case c of ConstI v \<Rightarrow> Some v | ConstU v \<Rightarrow> Some v | ConstBool v \<Rightarrow> Some (of_bool v) | _ \<Rightarrow> None)"

definition verify_switch_case ::
  "indexed \<Rightarrow> basic_block \<Rightarrow> ty \<Rightarrow> usize \<times> const_value \<times> block_id \<Rightarrow> u128 set \<Rightarrow> verify_error + u128 set" where
  "verify_switch_case f bb t = (\<lambda>(index, key, _) keys.
     if \<not> valid_constant t key then Inl (VInvalidSwitchCase (fname f) (bb_id bb) index)
     else rbind (ok_or (switch_key key) VerifyPanic) (\<lambda>bits.
       if bits \<in> keys then Inl (VDuplicateSwitchCase (fname f) (bb_id bb) index) else Inr (insert bits keys)))"

definition verify_return :: "indexed \<Rightarrow> value_id set \<Rightarrow> ty \<Rightarrow> value_id option \<Rightarrow> verify_error + unit" where
  "verify_return f defined t v =
     (let ret = f_ret_ty (ix_function f) in
      if t \<noteq> ret then Inl (VRetTypeMismatch (fname f) ret (Some t))
      else case v of
        Some v \<Rightarrow>
          rbind (defined_use f defined v) (\<lambda>_.
          rbind (typed f v) (\<lambda>vt.
          ensure (\<not> (ret = Void \<or> vt \<noteq> ret)) (VRetTypeMismatch (fname f) ret (Some vt))))
      | None \<Rightarrow> ensure (ret = Void) (VRetTypeMismatch (fname f) ret None))"

definition verify_terminator :: "indexed \<Rightarrow> value_id set \<Rightarrow> basic_block \<Rightarrow> terminator \<Rightarrow> verify_error + unit" where
  "verify_terminator f defined bb t =
     (case t of
        Br _ \<Rightarrow> Inr ()
      | CBr c _ _ \<Rightarrow> rbind (defined_use f defined c) (\<lambda>_. verify_condition f c)
      | Switch t v _ cs \<Rightarrow>
          rbind (defined_use f defined v) (\<lambda>_.
          rbind (verify_type_category f ''switch'' t (is_integer t \<or> t = Bool)) (\<lambda>_.
          rbind (verify_operand f v t) (\<lambda>_.
          rbind (foldR (verify_switch_case f bb t) (enumerate 0 cs) {}) (\<lambda>_. Inr ()))))
      | Trap _ \<Rightarrow> Inr ()
      | Ret t v \<Rightarrow> verify_return f defined t v)"

definition verify_block :: "indexed \<Rightarrow> block_id set \<Rightarrow> value_id set \<Rightarrow> basic_block \<Rightarrow> verify_error + unit" where
  "verify_block f blocks defined bb =
     rbind (ok_or (bb_terminator bb) (VUnterminatedBlock (fname f) (bb_name bb))) (\<lambda>t.
     rbind (foldR (\<lambda>target _. ensure (target \<in> blocks) (VInvalidBranchTarget (fname f) (bb_id bb) target))
              (terminator_targets t) ()) (\<lambda>_.
     rbind (foldR (\<lambda>ins _. verify_block_instruction f defined ins) (bb_instructions bb) ()) (\<lambda>_.
     verify_terminator f defined bb t)))"

definition function_definitions :: "ir_function \<Rightarrow> (value_id \<times> ty) list" where
  "function_definitions f =
     map (\<lambda>p. (p_id p, p_ty p)) (f_params f) @ List.map_filter instr_result (all_instructions f)"

definition insert_value_type :: "indexed \<Rightarrow> value_id \<times> ty \<Rightarrow> value_id set \<Rightarrow> verify_error + value_id set" where
  "insert_value_type f = (\<lambda>(v, _) seen.
     if v \<in> seen then Inl (VDuplicateValueType (fname f) v) else Inr (insert v seen))"

definition check_value_type :: "indexed \<Rightarrow> value_id \<times> ty \<Rightarrow> value_id set \<Rightarrow> verify_error + value_id set" where
  "check_value_type f = (\<lambda>(v, expected) seen.
     rbind (typed f v) (\<lambda>got.
     if got \<noteq> expected then Inl (VValueTypeMismatch (fname f) v expected got) else Inr (seen - {v})))"

definition verify_value_types :: "indexed \<Rightarrow> verify_error + unit" where
  "verify_value_types f =
     (let table = f_value_types (ix_function f) in
      rbind (foldR (insert_value_type f) table {}) (\<lambda>seen.
      rbind (foldR (check_value_type f) (function_definitions (ix_function f)) seen) (\<lambda>seen.
      foldR (\<lambda>(v, _) _. ensure (v \<notin> seen) (VUnexpectedValueType (fname f) v)) table ())))"

definition verify_global_address :: "indexed \<Rightarrow> (global_id \<rightharpoonup> ty) \<Rightarrow> instruction \<Rightarrow> verify_error + unit" where
  "verify_global_address f storage_types ins =
     (case ins of
        GlobalAddr _ g t \<Rightarrow>
          (case storage_types g of
             None \<Rightarrow> Inl (VGlobalStorage (fname f) g UnknownGlobal)
           | Some declared \<Rightarrow>
               ensure (declared = t) (VGlobalStorage (fname f) g StorageAddressTypeMismatch))
      | _ \<Rightarrow> Inr ())"

definition verify_instruction ::
  "ir_module \<Rightarrow> ir_limits \<Rightarrow> (global_id \<rightharpoonup> ty) \<Rightarrow> indexed \<Rightarrow> instruction \<Rightarrow> verify_error + unit" where
  "verify_instruction m limits storage_types f ins =
     rbind (verify_global_address f storage_types ins) (\<lambda>_.
     rbind (verify_call_instruction m f ins limits) (\<lambda>_.
     verify_operation f ins))"

definition verify_function ::
  "ir_module \<Rightarrow> ir_limits \<Rightarrow> (global_id \<rightharpoonup> ty) \<Rightarrow> const_values \<Rightarrow> indexed \<Rightarrow> analysis \<Rightarrow> verify_error + analysis" where
  "verify_function m limits storage_types constant_globals f b =
     (let fn = ix_function f in
      rbind (foldR (insert_block f) (f_blocks fn) {}) (\<lambda>blocks.
      if f_entry fn \<notin> blocks then Inl (VInvalidEntryBlock (fname f) (f_entry fn))
      else
        rbind (foldR (insert_param f) (f_params fn) {}) (\<lambda>defined.
        rbind (foldR (insert_result f) (all_instructions fn) defined) (\<lambda>defined.
        rbind (foldR (\<lambda>bb _. verify_block f blocks defined bb) (f_blocks fn) ()) (\<lambda>_.
        rbind (verify_value_types f) (\<lambda>_.
        rbind (verify_const_locals fn constant_globals limits) (\<lambda>_.
        rbind (cfg_verify f b) (\<lambda>b.
        rbind (foldR (\<lambda>ins _. verify_instruction m limits storage_types f ins) (all_instructions fn) ()) (\<lambda>_.
        Inr b)))))))))"

subsection \<open>Modules\<close>

definition insert_function_name :: "indexed \<Rightarrow> string set \<Rightarrow> verify_error + string set" where
  "insert_function_name f names =
     (if fname f \<in> names then Inl (VDuplicateFunction (fname f)) else Inr (insert (fname f) names))"

definition declared_links :: "ir_module \<Rightarrow> string set" where
  "declared_links m = set (List.map_filter d_link_name (m_declarations m))"

definition target_mismatch :: "target_spec \<Rightarrow> verify_error" where
  "target_mismatch spec = VTarget (Contract (''module target/layout does not match '' @ ts_id spec))"

definition verify_module_for_target :: "ir_module \<Rightarrow> target_spec \<Rightarrow> ir_limits \<Rightarrow> verify_error + analysis" where
  "verify_module_for_target m spec limits =
     rbind (map_err VResourceLimit (check_module m limits)) (\<lambda>_.
     rbind (map_err VSourceMetadata (validate_sources (m_sources m) m)) (\<lambda>_.
     rbind (map_err VTargetContract (validate_spec spec)) (\<lambda>_.
     if m_target m \<noteq> ts_id spec \<or> m_datalayout m \<noteq> sl_data (ts_storage spec) then Inl (target_mismatch spec)
     else
       let fs = map indexed_new (m_functions m);
           analysis = \<lparr>an_limit = max_analysis_work limits, an_work = 0, an_queries = 0\<rparr> in
       rbind (foldR (\<lambda>f _. foldR (\<lambda>ins _. verify_storage spec limits f ins) (all_instructions (ix_function f)) ()) fs ()) (\<lambda>_.
       rbind (foldR verify_global (m_globals m) {}) (\<lambda>names.
       rbind (foldR (verify_global_storage spec limits) (m_global_storage m)
                \<lparr>sc_ids = set (map g_id (m_globals m)), sc_names = names, sc_links = declared_links m, sc_types = Map.empty\<rparr>) (\<lambda>st.
       rbind (verify_const_globals m limits) (\<lambda>constant_globals.
       rbind (foldR insert_function_name fs {}) (\<lambda>_.
       rbind (verify_declarations m limits) (\<lambda>_.
       foldR (verify_function m limits (sc_types st) constant_globals) fs analysis))))))))) "

definition verify_module_with_stats :: "ir_module \<Rightarrow> ir_limits \<Rightarrow> verify_error + analysis" where
  "verify_module_with_stats m limits =
     rbind (map_err VTarget (lookup_target (m_target m))) (\<lambda>t.
     rbind (map_err VTarget (validate_layout t (m_datalayout m))) (\<lambda>_.
     verify_module_for_target m (target_specification t) limits))"

definition verify_module_with_limits :: "ir_module \<Rightarrow> ir_limits \<Rightarrow> verify_error + unit" where
  "verify_module_with_limits m limits = rbind (verify_module_with_stats m limits) (\<lambda>_. Inr ())"

definition verify_module :: "ir_module \<Rightarrow> verify_error + unit" where
  "verify_module m = verify_module_with_limits m ir_limits_default"

end
