(* ===== verification/IrInterpreter.thy ===== *)
theory IrInterpreter
  imports IrVerifier IrMemory
begin

text \<open>
  The reference interpreter, \<open>ir/src/interpreter/mod.rs\<close>: checked runtime values, the
  preparation of the functions a run can reach, global storage, and the loop over invocation
  frames.  The stack of frames has its top first.  A \<open>HashMap\<close> is a map; interned
  signatures are compared by value, which is the same comparison since equal signatures
  share one interned copy; the address of a module, which function values carry, is a number.
  Counters bounded by a limit are natural numbers.  \<open>EPanic\<close> stands for a failed index,
  \<open>unwrap\<close>, \<open>expect\<close> or \<open>unreachable!\<close>.
\<close>

subsection \<open>Options, sites and errors\<close>

record interpreter_options =
  max_steps :: nat
  max_call_depth :: usize
  max_frames :: nat
  max_live_values :: usize
  max_trace_frames :: usize
  opt_ir_limits :: ir_limits
  opt_memory_limits :: memory_limits

definition interpreter_options_default :: interpreter_options where
  "interpreter_options_default =
     \<lparr>max_steps = 1000000, max_call_depth = 256, max_frames = 100000, max_live_values = 1000000,
      max_trace_frames = 64, opt_ir_limits = ir_limits_default, opt_memory_limits = memory_limits_default\<rparr>"

record execution_site =
  site_function :: function_id
  site_block :: block_id
  site_instruction :: usize
  site_value :: "value_id option"

definition max_runtime_trace_frames :: usize where
  "max_runtime_trace_frames = 256"

definition max_runtime_diagnostic_source_bytes :: usize where
  "max_runtime_diagnostic_source_bytes = 1024 * 1024"

record runtime_call_frame =
  rc_caller :: function_id
  rc_callee :: function_id
  rc_site :: execution_site
  rc_original :: "original_location option"

record runtime_diagnostic =
  rd_site :: "execution_site option"
  rd_global :: "global_id option"
  rd_original :: "original_location option"
  rd_calls :: "runtime_call_frame list"
  rd_omitted_call_frames :: usize
  rd_omitted_source_details :: usize

record interpreter_trap =
  trap_site :: execution_site
  trap_reason :: trap_reason
  trap_steps :: nat

datatype call_resource = CallDepth | CallFrames | CallValues | CallHostAllocation

datatype (plugins only: size) interpreter_error =
    EDiagnostic interpreter_error runtime_diagnostic
  | EVerification verify_error
  | EUnknownFunction function_id
  | EUnsupportedGlobal global_id
  | EGlobalMemory global_id memory_trap
  | EGlobalMemoryLimit global_id memory_resource u64
  | EUnsupportedSignature function_id
  | EArgumentCount usize usize
  | EArgumentType usize ty
  | EUnsupportedInstruction execution_site string
  | EStepLimit execution_site nat
  | EMemoryLimit execution_site memory_resource u64
  | ECallLimit execution_site call_resource nat
  | ETrap interpreter_trap
  | EPanic

primrec root_cause :: "interpreter_error \<Rightarrow> interpreter_error" where
  "root_cause (EDiagnostic c _) = root_cause c"
| "root_cause (EVerification e) = EVerification e"
| "root_cause (EUnknownFunction f) = EUnknownFunction f"
| "root_cause (EUnsupportedGlobal g) = EUnsupportedGlobal g"
| "root_cause (EGlobalMemory g r) = EGlobalMemory g r"
| "root_cause (EGlobalMemoryLimit g r l) = EGlobalMemoryLimit g r l"
| "root_cause (EUnsupportedSignature f) = EUnsupportedSignature f"
| "root_cause (EArgumentCount e g) = EArgumentCount e g"
| "root_cause (EArgumentType i t) = EArgumentType i t"
| "root_cause (EUnsupportedInstruction s o') = EUnsupportedInstruction s o'"
| "root_cause (EStepLimit s l) = EStepLimit s l"
| "root_cause (EMemoryLimit s r l) = EMemoryLimit s r l"
| "root_cause (ECallLimit s r l) = ECallLimit s r l"
| "root_cause (ETrap t) = ETrap t"
| "root_cause EPanic = EPanic"

fun error_diagnostic :: "interpreter_error \<Rightarrow> runtime_diagnostic option" where
  "error_diagnostic (EDiagnostic _ d) = Some d"
| "error_diagnostic _ = None"

definition runtime_site :: "interpreter_error \<Rightarrow> execution_site option" where
  "runtime_site e =
     (case root_cause e of
        ETrap t \<Rightarrow> Some (trap_site t)
      | EStepLimit s _ \<Rightarrow> Some s
      | EMemoryLimit s _ _ \<Rightarrow> Some s
      | ECallLimit s _ _ \<Rightarrow> Some s
      | _ \<Rightarrow> None)"

definition trap_at :: "execution_site \<Rightarrow> nat \<Rightarrow> trap_reason \<Rightarrow> interpreter_error" where
  "trap_at s steps reason = ETrap \<lparr>trap_site = s, trap_reason = reason, trap_steps = steps\<rparr>"

definition memory_failure :: "execution_site \<Rightarrow> nat \<Rightarrow> fault \<Rightarrow> interpreter_error" where
  "memory_failure s steps e =
     (case e of
        MemTrap reason \<Rightarrow> trap_at s steps (MemoryFault reason)
      | MemLimit res limit \<Rightarrow> EMemoryLimit s res limit
      | MemPanic \<Rightarrow> EPanic)"

definition int_failure :: "execution_site \<Rightarrow> nat \<Rightarrow> int_fail \<Rightarrow> interpreter_error" where
  "int_failure s steps e = (case e of Trapped reason \<Rightarrow> trap_at s steps reason | Unreachable \<Rightarrow> EPanic)"

definition or_epanic :: "'a option \<Rightarrow> interpreter_error + 'a" where
  "or_epanic x = ok_or x EPanic"

subsection \<open>Runtime values\<close>

record runtime_value =
  rv_ty :: ty
  rv_value :: rt_value
  rv_module :: "nat option"

definition runtime_scalar :: "ty \<Rightarrow> const_value \<Rightarrow> call_error + runtime_value" where
  "runtime_scalar t v =
     (if \<not> scalar_type t \<or> \<not> valid_constant t v then Inl (InvalidSignature ''invalid scalar runtime value'')
      else Inr \<lparr>rv_ty = t, rv_value = VScalar v, rv_module = None\<rparr>)"

definition runtime_raw_pointer :: "ty \<Rightarrow> u64 \<Rightarrow> call_error + runtime_value" where
  "runtime_raw_pointer t address =
     rbind (map_err CallResourceLimit (rbind (budget_new ir_limits_default) (budget_ty t))) (\<lambda>_.
     if \<not> is_ptr t then Inl (InvalidSignature ''data pointer type required'')
     else rbind (validate_signature_with_limits (sig_whale [t] Void) ir_limits_default) (\<lambda>_.
       Inr \<lparr>rv_ty = t, rv_value = VPointer (raw_pointer address), rv_module = None\<rparr>))"

definition runtime_function :: "nat \<Rightarrow> ir_module \<Rightarrow> function_id \<Rightarrow> call_error + runtime_value" where
  "runtime_function addr m target =
     rbind (ok_or (find_declaration m target) (UnknownFunction target)) (\<lambda>d.
     rbind (validate_signature_with_limits (d_signature d) ir_limits_default) (\<lambda>_.
     Inr \<lparr>rv_ty = FnPtr (d_signature d),
          rv_value = VFunction \<lparr>fun_signature = d_signature d, fun_target = TargetDefined target\<rparr>,
          rv_module = Some addr\<rparr>))"

definition runtime_null_function :: "fn_sig \<Rightarrow> call_error + runtime_value" where
  "runtime_null_function sig =
     rbind (validate_signature_with_limits sig ir_limits_default) (\<lambda>_.
     Inr \<lparr>rv_ty = FnPtr sig, rv_value = VFunction \<lparr>fun_signature = sig, fun_target = TargetNull\<rparr>,
          rv_module = None\<rparr>)"

definition rv_pointer_address :: "runtime_value \<Rightarrow> u64 option" where
  "rv_pointer_address v = map_option ptr_address (value_pointer (rv_value v))"

fun defined_target :: "rt_value \<Rightarrow> function_id option" where
  "defined_target (VFunction p) = (case fun_target p of TargetDefined i \<Rightarrow> Some i | _ \<Rightarrow> None)"
| "defined_target _ = None"

definition rv_function_target :: "runtime_value \<Rightarrow> function_id option" where
  "rv_function_target v = defined_target (rv_value v)"

subsection \<open>The supported subset\<close>

fun destination :: "instruction \<Rightarrow> value_id option" where
  "destination (GlobalAddr d _ _) = Some d"
| "destination (PtrDiff d _ _) = Some d"
| "destination (ConstDecl d _ _ _) = Some d"
| "destination (Const d _ _) = Some d"
| "destination (Undef d _) = Some d"
| "destination (Mov d _ _) = Some d"
| "destination (Bin d _ _ _ _) = Some d"
| "destination (Neg d _ _) = Some d"
| "destination (NotI d _ _) = Some d"
| "destination (Cmp d _ _ _ _) = Some d"
| "destination (ICmp d _ _ _ _) = Some d"
| "destination (FCmp d _ _ _ _) = Some d"
| "destination (Select d _ _ _ _) = Some d"
| "destination (Cast d _ _ _ _) = Some d"
| "destination (Phi d _ _) = Some d"
| "destination (Extract d _ _ _) = Some d"
| "destination (Checked d _ _ _ _) = Some d"
| "destination (Alloca d _ _) = Some d"
| "destination (VolatileLoad d _ _ _) = Some d"
| "destination (Load d _ _ _) = Some d"
| "destination (Gep d _ _ _) = Some d"
| "destination (NullFunction d _) = Some d"
| "destination (FunctionAddr d _ _) = Some d"
| "destination (Call _ dst _ _ _) = dst"
| "destination _ = None"

fun is_fnptr :: "ty \<Rightarrow> bool" where
  "is_fnptr (FnPtr _) = True"
| "is_fnptr _ = False"

function allocation_loop :: "ty list \<Rightarrow> bool" where
  "allocation_loop [] = True"
| "allocation_loop (t # pending) =
     (if scalar_type t \<or> is_ptr t \<or> is_fnptr t then allocation_loop pending
      else case t of
        ArrayT u _ \<Rightarrow> allocation_loop (u # pending)
      | StructT fs \<Rightarrow> allocation_loop (rev fs @ pending)
      | TupleT fs \<Rightarrow> allocation_loop (rev fs @ pending)
      | _ \<Rightarrow> False)"
  by pat_completeness auto
termination
  by (relation "measure total_size") (auto simp: size_list_total)

definition allocation_type :: "ty \<Rightarrow> bool" where
  "allocation_type t = allocation_loop [t]"

definition supported :: "instruction \<Rightarrow> string + unit" where
  "supported ins =
     (let int = (\<lambda>t. shape t \<noteq> None) in
      case ins of
        Neg _ t _ \<Rightarrow> ensure (int t \<or> float_type t) ''non-integer arithmetic/comparison''
      | Bin _ _ t _ _ \<Rightarrow> ensure (float_type t \<or> int t) ''non-integer arithmetic/comparison''
      | ConstDecl _ _ _ _ \<Rightarrow> Inr ()
      | Const _ t _ \<Rightarrow> ensure (scalar_type t) ''non-scalar constant''
      | Mov _ t _ \<Rightarrow> ensure (value_type t) ''non-scalar value''
      | Phi _ t _ \<Rightarrow> ensure (value_type t) ''non-scalar value''
      | Select _ t _ _ _ \<Rightarrow> ensure (value_type t) ''non-scalar value''
      | NotI _ t _ \<Rightarrow> ensure (int t) ''non-integer arithmetic/comparison''
      | Checked _ _ t _ _ \<Rightarrow> ensure (int t) ''non-integer arithmetic/comparison''
      | Cmp _ _ t _ _ \<Rightarrow> ensure (t = Bool \<or> int t \<or> is_ptr t \<or> float_type t) ''non-integer arithmetic/comparison''
      | ICmp _ _ t _ _ \<Rightarrow> ensure (t = Bool \<or> int t \<or> is_ptr t) ''non-integer arithmetic/comparison''
      | FCmp _ _ t _ _ \<Rightarrow> ensure (float_type t) ''non-integer arithmetic/comparison''
      | Cast _ op s d _ \<Rightarrow>
          ensure (op \<in> {ZExt, SExt, Trunc, CheckedInt} \<and> (s = Bool \<or> int s) \<and> int d
                  \<or> op \<in> {FExt, FTrunc, IToF_S, IToF_U, FToI_S, FToI_U}
                  \<or> op = Bitcast \<and> (int s \<or> float_type s) \<and> (int d \<or> float_type d)
                  \<or> op = Bitcast \<and> is_ptr s \<and> is_ptr d
                  \<or> op \<in> {IntToPtr, PtrToInt}) ''unsupported cast''
      | Extract _ t _ _ \<Rightarrow> ensure (scalar_type t) ''non-scalar value''
      | Alloca _ t _ \<Rightarrow> ensure (allocation_type t) ''alloca''
      | Uninit t _ _ \<Rightarrow> ensure (allocation_type t) ''uninit''
      | VolatileLoad _ t _ _ \<Rightarrow> ensure (value_type t) ''load''
      | Load _ t _ _ \<Rightarrow> ensure (value_type t) ''load''
      | VolatileStore t _ _ _ \<Rightarrow> ensure (value_type t) ''store''
      | Store t _ _ _ \<Rightarrow> ensure (value_type t) ''store''
      | Undef _ _ \<Rightarrow> Inl ''undef''
      | _ \<Rightarrow> Inr ())"

definition call_value_type :: "ty \<Rightarrow> bool" where
  "call_value_type t = (scalar_type t \<or> is_ptr t \<or> is_fnptr t)"

definition callable_signature :: "fn_sig \<Rightarrow> bool" where
  "callable_signature sig =
     (sig_convention sig = Whale \<and> \<not> sig_variadic sig \<and> list_all call_value_type (sig_params sig)
      \<and> (sig_ret sig = Void \<or> call_value_type (sig_ret sig)))"

definition interp_layout :: "ty \<Rightarrow> usize \<Rightarrow> interpreter_error + type_layout" where
  "interp_layout t depth = map_err (\<lambda>_. EPanic) (layout_of_with_limit t X86_64WhaleLinux depth)"

text \<open>One index of a pointer computation: the type it selects and the step it adds.\<close>

definition gep_plan_index ::
  "(value_id \<rightharpoonup> usize) \<Rightarrow> usize \<times> value_id \<Rightarrow> ty \<times> gep_step list \<Rightarrow> interpreter_error + ty \<times> gep_step list" where
  "gep_plan_index ordinals = (\<lambda>(position, index) (selected, plan).
     if position = 0 then
       rbind (interp_layout selected max_ir_nesting) (\<lambda>l. Inr (selected, plan @ [Stride (tl_size l)]))
     else
       let field = (\<lambda>fs.
         rbind (or_epanic (ordinals index)) (\<lambda>n.
         rbind (interp_layout selected max_ir_nesting) (\<lambda>l.
         rbind (or_epanic (get (field_offsets l) n)) (\<lambda>off.
         rbind (or_epanic (get fs n)) (\<lambda>t. Inr (t, plan @ [Field off])))))) in
       case selected of
         ArrayT element _ \<Rightarrow>
           rbind (interp_layout element max_ir_nesting) (\<lambda>l. Inr (element, plan @ [Stride (tl_size l)]))
       | StructT fs \<Rightarrow> field fs
       | TupleT fs \<Rightarrow> field fs
       | _ \<Rightarrow> Inl EPanic)"

definition gep_plan ::
  "(value_id \<rightharpoonup> ty) \<Rightarrow> (value_id \<rightharpoonup> usize) \<Rightarrow> value_id \<Rightarrow> value_id list \<Rightarrow> interpreter_error + gep_step list" where
  "gep_plan types ordinals base indices =
     (case types base of
        Some (Ptr pointee) \<Rightarrow>
          rbind (foldR (gep_plan_index ordinals) (enumerate 0 indices) (pointee, [])) (\<lambda>(_, plan). Inr plan)
      | _ \<Rightarrow> Inl EPanic)"

definition pointer_compare :: "icmp_pred \<Rightarrow> pointer \<Rightarrow> pointer \<Rightarrow> memory \<Rightarrow> fault + bool" where
  "pointer_compare pred l r m =
     (if pred \<in> {IEq, INe} then rbind (mem_equal l r m) (\<lambda>eq. Inr (if pred = IEq then eq else \<not> eq))
      else rbind (mem_compare_order l r m) (\<lambda>ord.
        Inr (if pred \<in> {IUlt, ISlt} then ord = Less
             else if pred \<in> {IUle, ISle} then ord \<noteq> Greater
             else if pred \<in> {IUgt, ISgt} then ord = Greater
             else ord \<noteq> Less)))"

definition cmp_pred :: "cmp_op \<Rightarrow> icmp_pred option" where
  "cmp_pred op =
     (case op of
        CEq \<Rightarrow> Some IEq | CNe \<Rightarrow> Some INe
      | SLt \<Rightarrow> Some ISlt | SLe \<Rightarrow> Some ISle | SGt \<Rightarrow> Some ISgt | SGe \<Rightarrow> Some ISge
      | ULt \<Rightarrow> Some IUlt | ULe \<Rightarrow> Some IUle | UGt \<Rightarrow> Some IUgt | UGe \<Rightarrow> Some IUge
      | _ \<Rightarrow> None)"

subsection \<open>Arguments\<close>

datatype (plugins only: size) arguments = Scalars "const_value list" | Runtime "runtime_value list"

fun arguments_len :: "arguments \<Rightarrow> usize" where
  "arguments_len (Scalars vs) = length vs"
| "arguments_len (Runtime vs) = length vs"

fun argument_value :: "arguments \<Rightarrow> usize \<Rightarrow> rt_value option" where
  "argument_value (Scalars vs) i = map_option VScalar (get vs i)"
| "argument_value (Runtime vs) i = map_option rv_value (get vs i)"

fun argument_valid_type :: "arguments \<Rightarrow> usize \<Rightarrow> ty \<Rightarrow> bool option" where
  "argument_valid_type (Scalars vs) i expected = Some True"
| "argument_valid_type (Runtime vs) i expected = map_option (\<lambda>v. rv_ty v = expected) (get vs i)"

text \<open>A function value is accepted only from the module it was made for.\<close>

fun argument_valid_origin :: "nat \<Rightarrow> arguments \<Rightarrow> usize \<Rightarrow> bool option" where
  "argument_valid_origin addr (Scalars vs) i = Some True"
| "argument_valid_origin addr (Runtime vs) i =
     map_option (\<lambda>v. defined_target (rv_value v) \<noteq> None \<longrightarrow> rv_module v = Some addr) (get vs i)"

subsection \<open>Preparation\<close>

record prepared =
  pr_fun :: ir_function
  pr_capacity :: usize
  pr_blocks :: "block_id \<rightharpoonup> basic_block"
  pr_sizes :: "block_id \<times> usize \<rightharpoonup> u64 \<times> u32"
  pr_geps :: "block_id \<times> usize \<rightharpoonup> gep_step list"
  pr_signatures :: "block_id \<times> usize \<rightharpoonup> fn_sig"

definition function_table :: "ir_module \<Rightarrow> function_id \<rightharpoonup> ir_function" where
  "function_table m = map_of (rev (map (\<lambda>f. (f_id f, f)) (m_functions m)))"

definition declaration_table :: "ir_module \<Rightarrow> function_id \<rightharpoonup> function_decl" where
  "declaration_table m = map_of (rev (map (\<lambda>d. (d_id d, d)) (m_declarations m)))"

definition valid_argument :: "ir_module \<Rightarrow> ty \<Rightarrow> rt_value \<Rightarrow> bool" where
  "valid_argument m t v =
     (case v of
        VScalar c \<Rightarrow> scalar_type t \<and> valid_constant t c
      | VPointer _ \<Rightarrow> is_ptr t
      | VFunction p \<Rightarrow>
          t = FnPtr (fun_signature p) \<and>
          (case fun_target p of
             TargetDefined i \<Rightarrow>
               (case declaration_table m i of Some d \<Rightarrow> d_signature d = fun_signature p | None \<Rightarrow> False)
           | _ \<Rightarrow> True)
      | VChecked _ _ \<Rightarrow> False)"

definition check_input ::
  "nat \<Rightarrow> ir_module \<Rightarrow> arguments \<Rightarrow> usize \<times> param \<Rightarrow> rt_value list \<Rightarrow> interpreter_error + rt_value list" where
  "check_input addr m args = (\<lambda>(index, p) inputs.
     rbind (or_epanic (argument_valid_type args index (p_ty p))) (\<lambda>valid_type.
     rbind (or_epanic (argument_value args index)) (\<lambda>v.
     rbind (or_epanic (argument_valid_origin addr args index)) (\<lambda>valid_origin.
     if \<not> valid_type \<or> \<not> valid_argument m (p_ty p) v \<or> \<not> valid_origin
     then Inl (EArgumentType index (p_ty p))
     else Inr (inputs @ [v])))))"

record prep =
  pp_pending :: "function_id list"
  pp_targets :: "function_id set"
  pp_by_signature :: "fn_sig \<rightharpoonup> function_id list"
  pp_indirect :: "fn_sig \<rightharpoonup> execution_site"
  pp_visited :: "function_id set"
  pp_prepared :: "function_id \<rightharpoonup> prepared"

record tables =
  tb_sizes :: "block_id \<times> usize \<rightharpoonup> u64 \<times> u32"
  tb_geps :: "block_id \<times> usize \<rightharpoonup> gep_step list"
  tb_signatures :: "block_id \<times> usize \<rightharpoonup> fn_sig"

definition add_callable :: "fn_sig \<Rightarrow> function_id \<Rightarrow> prep \<Rightarrow> prep" where
  "add_callable sig i pp =
     pp\<lparr>pp_targets := insert i (pp_targets pp),
        pp_by_signature := (pp_by_signature pp)(sig \<mapsto>
          (case pp_by_signature pp sig of Some is \<Rightarrow> is | None \<Rightarrow> []) @ [i])\<rparr>"

definition push_callee ::
  "ir_module \<Rightarrow> execution_site \<Rightarrow> function_id \<Rightarrow> prep \<Rightarrow> interpreter_error + prep" where
  "push_callee m site i pp =
     rbind (or_epanic (declaration_table m i)) (\<lambda>d.
     if d_linkage d \<noteq> LinkInternal \<or> function_table m i = None
     then Inl (EUnsupportedInstruction site ''call'')
     else Inr (pp\<lparr>pp_pending := i # pp_pending pp\<rparr>))"

definition prepare_callee ::
  "ir_module \<Rightarrow> (value_id \<rightharpoonup> ty) \<Rightarrow> execution_site \<Rightarrow> callee \<Rightarrow> prep \<Rightarrow> interpreter_error + prep" where
  "prepare_callee m types site callee pp =
     (case callee of
        Direct i \<Rightarrow> push_callee m site i pp
      | Indirect v \<Rightarrow>
          (case types v of
             Some (FnPtr sig) \<Rightarrow>
               (case pp_indirect pp sig of
                  Some _ \<Rightarrow> Inr pp
                | None \<Rightarrow>
                    foldR (push_callee m site) (case pp_by_signature pp sig of Some is \<Rightarrow> is | None \<Rightarrow> [])
                      (pp\<lparr>pp_indirect := (pp_indirect pp)(sig \<mapsto> site)\<rparr>))
           | _ \<Rightarrow> Inl EPanic))"

definition prepare_address ::
  "ir_module \<Rightarrow> function_id \<Rightarrow> fn_sig \<Rightarrow> prep \<Rightarrow> interpreter_error + prep" where
  "prepare_address m target sig pp =
     (if target \<in> pp_targets pp then Inr pp
      else let pp = add_callable sig target pp in
        case pp_indirect pp sig of
          Some site \<Rightarrow> push_callee m site target pp
        | None \<Rightarrow> Inr pp)"

definition storage_size :: "ty \<Rightarrow> interpreter_error + u64 \<times> u32" where
  "storage_size t =
     rbind (interp_layout t max_ir_nesting) (\<lambda>l.
     Inr (tl_size l, if is_array t \<and> 16 \<le> tl_size l then max (tl_align l) 16 else tl_align l))"

fun is_zero_stride :: "gep_step \<Rightarrow> bool" where
  "is_zero_stride (Stride n) = (n = 0)"
| "is_zero_stride (Field _) = False"

fun loaded_signature :: "ty \<Rightarrow> fn_sig option" where
  "loaded_signature (FnPtr sig) = Some sig"
| "loaded_signature _ = None"

definition table_signature :: "block_id \<times> usize \<Rightarrow> fn_sig \<Rightarrow> tables \<Rightarrow> tables" where
  "table_signature pos sig tb = tb\<lparr>tb_signatures := (tb_signatures tb)(pos \<mapsto> sig)\<rparr>"

definition table_load :: "block_id \<times> usize \<Rightarrow> ty \<Rightarrow> tables \<Rightarrow> tables" where
  "table_load pos t tb = (case loaded_signature t of Some sig \<Rightarrow> table_signature pos sig tb | None \<Rightarrow> tb)"

definition table_size :: "block_id \<times> usize \<Rightarrow> ty \<Rightarrow> tables \<Rightarrow> interpreter_error + tables" where
  "table_size pos t tb =
     rbind (storage_size t) (\<lambda>sz. Inr (tb\<lparr>tb_sizes := (tb_sizes tb)(pos \<mapsto> sz)\<rparr>))"

definition prepare_instruction ::
  "ir_module \<Rightarrow> (value_id \<rightharpoonup> ty) \<Rightarrow> (value_id \<rightharpoonup> usize) \<Rightarrow> function_id \<Rightarrow> block_id \<times> usize \<times> instruction \<Rightarrow>
   tables \<times> prep \<Rightarrow> interpreter_error + tables \<times> prep" where
  "prepare_instruction m types ordinals fid = (\<lambda>(blk, index, ins) (tb, pp).
     let site = \<lparr>site_function = fid, site_block = blk, site_instruction = index, site_value = destination ins\<rparr>;
         pos = (blk, index)
     in rbind (map_err (EUnsupportedInstruction site) (supported ins)) (\<lambda>_.
        case ins of
          NullFunction _ sig \<Rightarrow> Inr (table_signature pos sig tb, pp)
        | VolatileLoad _ t _ _ \<Rightarrow> Inr (table_load pos t tb, pp)
        | Load _ t _ _ \<Rightarrow> Inr (table_load pos t tb, pp)
        | Call convention _ _ callee _ \<Rightarrow>
            if convention \<noteq> Whale then Inl (EUnsupportedInstruction site ''call'')
            else rbind (prepare_callee m types site callee pp) (\<lambda>pp. Inr (tb, pp))
        | FunctionAddr _ target sig \<Rightarrow>
            rbind (prepare_address m target sig pp) (\<lambda>pp. Inr (table_signature pos sig tb, pp))
        | Alloca _ t _ \<Rightarrow> rbind (table_size pos t tb) (\<lambda>tb. Inr (tb, pp))
        | Uninit t _ _ \<Rightarrow> rbind (table_size pos t tb) (\<lambda>tb. Inr (tb, pp))
        | Gep _ _ base indices \<Rightarrow>
            rbind (gep_plan types ordinals base indices) (\<lambda>plan.
            if list_ex is_zero_stride plan
            then Inl (EUnsupportedInstruction site ''zero-sized pointer arithmetic'')
            else Inr (tb\<lparr>tb_geps := (tb_geps tb)(pos \<mapsto> plan)\<rparr>, pp))
        | _ \<Rightarrow> Inr (tb, pp)))"

definition function_ordinals :: "ir_function \<Rightarrow> value_id \<rightharpoonup> usize" where
  "function_ordinals f =
     map_of (rev (List.map_filter (\<lambda>(d, c). map_option (\<lambda>n. (d, n)) (constant_ordinal c))
       (concat (map constant_entry (all_instructions f)))))"

definition value_table :: "ir_function \<Rightarrow> value_id \<rightharpoonup> ty" where
  "value_table f = map_of (rev (f_value_types f))"

definition placed_instructions :: "ir_function \<Rightarrow> (block_id \<times> usize \<times> instruction) list" where
  "placed_instructions f =
     concat (map (\<lambda>b. map (\<lambda>(i, ins). (bb_id b, i, ins)) (enumerate 0 (bb_instructions b))) (f_blocks f))"

definition value_capacity :: "ir_function \<Rightarrow> usize" where
  "value_capacity f = length (f_params f) + length (filter (\<lambda>i. destination i \<noteq> None) (all_instructions f))"

definition block_table :: "ir_function \<Rightarrow> block_id \<rightharpoonup> basic_block" where
  "block_table f = map_of (rev (map (\<lambda>b. (bb_id b, b)) (f_blocks f)))"

definition prepare_function :: "ir_module \<Rightarrow> function_id \<Rightarrow> prep \<Rightarrow> interpreter_error + prep" where
  "prepare_function m fid pp =
     rbind (or_epanic (function_table m fid)) (\<lambda>f.
     rbind (or_epanic (declaration_table m fid)) (\<lambda>d.
     if \<not> callable_signature (d_signature d) then Inl (EUnsupportedSignature fid)
     else
       rbind (foldR (prepare_instruction m (value_table f) (function_ordinals f) fid) (placed_instructions f)
                (\<lparr>tb_sizes = Map.empty, tb_geps = Map.empty, tb_signatures = Map.empty\<rparr>, pp)) (\<lambda>(tb, pp).
       Inr (pp\<lparr>pp_prepared := (pp_prepared pp)(fid \<mapsto>
              \<lparr>pr_fun = f, pr_capacity = value_capacity f, pr_blocks = block_table f, pr_sizes = tb_sizes tb,
               pr_geps = tb_geps tb, pr_signatures = tb_signatures tb\<rparr>)\<rparr>))))"

lemma rbind_Inr_body: "rbind m (\<lambda>_. c) = Inr y \<Longrightarrow> c = Inr y"
  by (cases m) simp_all

text \<open>Preparation of an instruction leaves the functions already visited alone.\<close>

lemma push_callee_visited: "push_callee m site i pp = Inr pp' \<Longrightarrow> pp_visited pp' = pp_visited pp"
  by (auto simp: push_callee_def result_simps split: if_splits)

lemma foldR_push_visited: "foldR (push_callee m site) is pp = Inr pp' \<Longrightarrow> pp_visited pp' = pp_visited pp"
  by (induction "is" arbitrary: pp) (auto simp: result_simps dest: push_callee_visited)

lemma prepare_callee_visited: "prepare_callee m types site c pp = Inr pp' \<Longrightarrow> pp_visited pp' = pp_visited pp"
  by (auto simp: prepare_callee_def split: callee.splits option.splits ty.splits dest: push_callee_visited foldR_push_visited)

lemma prepare_address_visited: "prepare_address m t sig pp = Inr pp' \<Longrightarrow> pp_visited pp' = pp_visited pp"
  by (auto simp: prepare_address_def add_callable_def Let_def split: if_splits option.splits dest: push_callee_visited)

lemma prepare_instruction_visited:
  assumes "prepare_instruction m types ordinals fid (blk, index, ins) (tb, pp) = Inr (tb', pp')"
  shows "pp_visited pp' = pp_visited pp"
  using rbind_Inr_body [OF assms [unfolded prepare_instruction_def prod.case Let_def]]
  by (cases ins; simp only: instruction.case)
    (simp_all add: rbind_eq_Inr split: if_splits cong del: if_weak_cong,
     auto dest: prepare_callee_visited prepare_address_visited)

lemma prepare_functionE:
  assumes "prepare_function m fid pp = Inr pp'"
  obtains f d tb and pp1 :: prep where "function_table m fid = Some f" "declaration_table m fid = Some d"
    "callable_signature (d_signature d)"
    "foldR (prepare_instruction m (value_table f) (function_ordinals f) fid) (placed_instructions f)
       (\<lparr>tb_sizes = Map.empty, tb_geps = Map.empty, tb_signatures = Map.empty\<rparr>, pp) = Inr (tb, pp1)"
    "pp' = pp1\<lparr>pp_prepared := (pp_prepared pp1)(fid \<mapsto>
       \<lparr>pr_fun = f, pr_capacity = value_capacity f, pr_blocks = block_table f, pr_sizes = tb_sizes tb,
        pr_geps = tb_geps tb, pr_signatures = tb_signatures tb\<rparr>)\<rparr>"
proof -
  from assms obtain f d where f: "function_table m fid = Some f" "declaration_table m fid = Some d" "callable_signature (d_signature d)"
    and r: "rbind (foldR (prepare_instruction m (value_table f) (function_ordinals f) fid) (placed_instructions f)
       (\<lparr>tb_sizes = Map.empty, tb_geps = Map.empty, tb_signatures = Map.empty\<rparr>, pp)) (\<lambda>(tb, pp).
       Inr (pp\<lparr>pp_prepared := (pp_prepared pp)(fid \<mapsto>
              \<lparr>pr_fun = f, pr_capacity = value_capacity f, pr_blocks = block_table f, pr_sizes = tb_sizes tb,
               pr_geps = tb_geps tb, pr_signatures = tb_signatures tb\<rparr>)\<rparr>)) = Inr pp'"
    unfolding prepare_function_def or_epanic_def
    by (cases "function_table m fid"; cases "declaration_table m fid"; simp split: if_splits)
  from r obtain tb pp1 where "foldR (prepare_instruction m (value_table f) (function_ordinals f) fid) (placed_instructions f)
       (\<lparr>tb_sizes = Map.empty, tb_geps = Map.empty, tb_signatures = Map.empty\<rparr>, pp) = Inr (tb, pp1)"
    "pp' = pp1\<lparr>pp_prepared := (pp_prepared pp1)(fid \<mapsto>
       \<lparr>pr_fun = f, pr_capacity = value_capacity f, pr_blocks = block_table f, pr_sizes = tb_sizes tb,
        pr_geps = tb_geps tb, pr_signatures = tb_signatures tb\<rparr>)\<rparr>"
    unfolding rbind_eq_Inr by (elim exE conjE) (simp split: prod.splits)
  with f show ?thesis by (rule that)
qed

lemma prepare_function_visited: "prepare_function m fid pp = Inr pp' \<Longrightarrow> pp_visited pp' = pp_visited pp"
proof (erule prepare_functionE)
  fix f d tb and pp1 :: prep
  assume r: "foldR (prepare_instruction m (value_table f) (function_ordinals f) fid) (placed_instructions f)
       (\<lparr>tb_sizes = Map.empty, tb_geps = Map.empty, tb_signatures = Map.empty\<rparr>, pp) = Inr (tb, pp1)"
    and pp': "pp' = pp1\<lparr>pp_prepared := (pp_prepared pp1)(fid \<mapsto>
       \<lparr>pr_fun = f, pr_capacity = value_capacity f, pr_blocks = block_table f, pr_sizes = tb_sizes tb,
        pr_geps = tb_geps tb, pr_signatures = tb_signatures tb\<rparr>)\<rparr>"
  have "pp_visited (snd (tb, pp1)) = pp_visited pp"
  proof (rule foldR_invariant [OF r, where I = "\<lambda>s. pp_visited (snd s) = pp_visited pp"])
    fix x s t
    assume "pp_visited (snd s) = pp_visited pp" "prepare_instruction m (value_table f) (function_ordinals f) fid x s = Inr t"
    then show "pp_visited (snd t) = pp_visited pp"
      by (cases x; cases s; cases t) (simp add: prepare_instruction_visited)
  qed simp
  then show "pp_visited pp' = pp_visited pp" by (simp add: pp')
qed

function prepare_loop :: "ir_module \<Rightarrow> prep \<Rightarrow> interpreter_error + prep" where
  "prepare_loop m pp =
     (case pp_pending pp of
        [] \<Rightarrow> Inr pp
      | fid # pending \<Rightarrow>
          if fid \<in> pp_visited pp then prepare_loop m (pp\<lparr>pp_pending := pending\<rparr>)
          else rbind (prepare_function m fid (pp\<lparr>pp_pending := pending, pp_visited := insert fid (pp_visited pp)\<rparr>))
                 (prepare_loop m))"
  by pat_completeness auto
termination
proof (relation "measures [\<lambda>(m, pp). card (dom (function_table m) - pp_visited pp), \<lambda>(m, pp). length (pp_pending pp)]")
  fix m pp fid pending pp'
  assume p: "pp_pending pp = fid # pending" "fid \<notin> pp_visited pp"
    and r: "prepare_function m fid (pp\<lparr>pp_pending := pending, pp_visited := insert fid (pp_visited pp)\<rparr>) = Inr pp'"
  have v: "pp_visited pp' = insert fid (pp_visited pp)" using prepare_function_visited [OF r] by simp
  have d: "fid \<in> dom (function_table m)" using r by (auto simp: prepare_function_def or_epanic_def result_simps)
  have "finite (dom (function_table m))" by (simp add: function_table_def finite_dom_map_of)
  then have "card (dom (function_table m) - pp_visited pp') < card (dom (function_table m) - pp_visited pp)"
    using d p(2) unfolding v by (intro psubset_card_mono) auto
  then show "((m, pp'), m, pp) \<in> measures [\<lambda>(m, pp). card (dom (function_table m) - pp_visited pp), \<lambda>(m, pp). length (pp_pending pp)]"
    by simp
qed simp_all

declare prepare_loop.simps [simp del]

definition argument_targets :: "ir_module \<Rightarrow> rt_value \<Rightarrow> prep \<Rightarrow> interpreter_error + prep" where
  "argument_targets m v pp =
     (case defined_target v of
        None \<Rightarrow> Inr pp
      | Some i \<Rightarrow>
          if i \<in> pp_targets pp then Inr pp
          else rbind (or_epanic (declaration_table m i)) (\<lambda>d. Inr (add_callable (d_signature d) i pp)))"

definition prepare_run :: "ir_module \<Rightarrow> function_id \<Rightarrow> rt_value list \<Rightarrow> interpreter_error + (function_id \<rightharpoonup> prepared)" where
  "prepare_run m fid inputs =
     rbind (foldR (argument_targets m) inputs
              \<lparr>pp_pending = [fid], pp_targets = {}, pp_by_signature = Map.empty, pp_indirect = Map.empty,
               pp_visited = {}, pp_prepared = Map.empty\<rparr>) (\<lambda>pp.
     rbind (prepare_loop m pp) (\<lambda>pp. Inr (pp_prepared pp)))"

subsection \<open>Frames and diagnostics\<close>

type_synonym frame_values = "value_id \<rightharpoonup> rt_value"

record frame =
  fr_function :: function_id
  fr_values :: frame_values
  fr_current :: block_id
  fr_predecessor :: "block_id option"
  fr_instruction :: usize
  fr_allocation_start :: usize
  fr_return_destination :: "value_id option"
  fr_call_site :: "execution_site option"

definition make_frame_values ::
  "host \<Rightarrow> ir_function \<Rightarrow> interpreter_error + rt_value list \<Rightarrow> usize \<Rightarrow> execution_site \<Rightarrow>
   interpreter_error + frame_values" where
  "make_frame_values h f args capacity site =
     (if host_reserve h capacity
      then rbind args (\<lambda>args. Inr (map_of (rev (zip (map p_id (f_params f)) args))))
      else Inl (ECallLimit site CallHostAllocation capacity))"

record source_detail_budget =
  sb_remaining :: usize
  sb_omitted :: usize

definition source_budget_new :: source_detail_budget where
  "source_budget_new = \<lparr>sb_remaining = max_runtime_diagnostic_source_bytes, sb_omitted = 0\<rparr>"

definition span_source ::
  "host \<Rightarrow> ir_module \<Rightarrow> source_span \<Rightarrow> source_detail_budget \<Rightarrow> (string \<times> source_span) option \<times> source_detail_budget" where
  "span_source h m sp b =
     (case find (\<lambda>f. sf_id f = ss_file sp) (md_files (m_sources m)) of
        None \<Rightarrow> (None, b)
      | Some file \<Rightarrow>
          if sb_remaining b < length (sf_name file) \<or> \<not> host_reserve h (length (sf_name file))
          then (None, b\<lparr>sb_omitted := sb_omitted b + 1\<rparr>)
          else (Some (sf_name file, sp), b\<lparr>sb_remaining := sb_remaining b - length (sf_name file)\<rparr>))"

definition budget_location ::
  "host \<Rightarrow> ir_module \<Rightarrow> source_target \<Rightarrow> source_detail_budget \<Rightarrow> original_location option \<times> source_detail_budget" where
  "budget_location h m t b =
     (case source_original (m_sources m) t of
        None \<Rightarrow> (None, b)
      | Some n \<Rightarrow>
          let (source, b) = (case on_span n of None \<Rightarrow> (None, b) | Some sp \<Rightarrow> span_source h m sp b)
          in (Some \<lparr>ol_original = on_id n, ol_source = source\<rparr>, b))"

definition execution_source ::
  "host \<Rightarrow> ir_module \<Rightarrow> execution_site \<Rightarrow> source_detail_budget \<Rightarrow> original_location option \<times> source_detail_budget" where
  "execution_source h m site b =
     (case find (\<lambda>f. f_id f = site_function site) (m_functions m) of
        None \<Rightarrow> (None, b)
      | Some f \<Rightarrow>
          (case find (\<lambda>x. bb_id x = site_block site) (f_blocks f) of
             None \<Rightarrow> (None, b)
           | Some block \<Rightarrow>
               budget_location h m
                 (if site_instruction site = length (bb_instructions block)
                  then AtTerminator (site_function site) (site_block site)
                  else AtInstruction (site_function site) (site_block site) (site_instruction site)) b))"

text \<open>The retained caller edges, innermost first, then reversed.\<close>

definition trace_call ::
  "host \<Rightarrow> ir_module \<Rightarrow> frame \<Rightarrow> runtime_call_frame list \<times> source_detail_budget \<Rightarrow>
   interpreter_error + runtime_call_frame list \<times> source_detail_budget" where
  "trace_call h m child = (\<lambda>(calls, b).
     rbind (or_epanic (fr_call_site child)) (\<lambda>site.
     let (original, b) = execution_source h m site b in
     Inr (\<lparr>rc_caller = site_function site, rc_callee = fr_function child, rc_site = site, rc_original = original\<rparr>
            # calls, b)))"

definition runtime_failure :: "host \<Rightarrow> ir_module \<Rightarrow> interpreter_error \<Rightarrow> frame list \<Rightarrow> usize \<Rightarrow> interpreter_error" where
  "runtime_failure h m cause frames trace_limit =
     (case runtime_site cause of
        None \<Rightarrow> cause
      | Some site \<Rightarrow>
          let (original, b) = execution_source h m site source_budget_new;
              caller_count = length frames - 1
          in if original = None \<and> caller_count = 0 then cause
             else let wanted = min caller_count (min trace_limit max_runtime_trace_frames);
                      retained = (if host_reserve h wanted then wanted else 0)
                  in case foldR (trace_call h m) (take retained (butlast frames)) ([], b) of
                       Inl e \<Rightarrow> e
                     | Inr (calls, b) \<Rightarrow>
                         EDiagnostic cause
                           \<lparr>rd_site = Some site, rd_global = None, rd_original = original, rd_calls = calls,
                            rd_omitted_call_frames = caller_count - retained, rd_omitted_source_details = sb_omitted b\<rparr>)"

subsection \<open>Instructions\<close>

record interp_context =
  ic_module :: ir_module
  ic_address :: nat
  ic_options :: interpreter_options
  ic_host :: host
  ic_prepared :: "function_id \<rightharpoonup> prepared"
  ic_signatures :: "function_id \<rightharpoonup> fn_sig"
  ic_globals :: "global_id \<rightharpoonup> pointer"

record interp_state =
  is_frames :: "frame list"
  is_memory :: memory
  is_created :: nat
  is_live :: usize
  is_steps :: nat

record run_result =
  res_value :: "runtime_value option"
  res_steps :: nat

definition charge_step :: "interp_context \<Rightarrow> nat \<Rightarrow> execution_site \<Rightarrow> interpreter_error + nat" where
  "charge_step c steps site =
     (if max_steps (ic_options c) \<le> steps then Inl (EStepLimit site (max_steps (ic_options c)))
      else Inr (steps + 1))"

definition val :: "frame_values \<Rightarrow> value_id \<Rightarrow> interpreter_error + rt_value" where
  "val vs i = or_epanic (vs i)"

definition val_scalar :: "frame_values \<Rightarrow> value_id \<Rightarrow> interpreter_error + const_value" where
  "val_scalar vs i = rbind (val vs i) (\<lambda>v. or_epanic (value_scalar v))"

definition val_pointer :: "frame_values \<Rightarrow> value_id \<Rightarrow> interpreter_error + pointer" where
  "val_pointer vs i = rbind (val vs i) (\<lambda>v. or_epanic (value_pointer v))"

definition val_boolean :: "frame_values \<Rightarrow> value_id \<Rightarrow> interpreter_error + bool" where
  "val_boolean vs i = rbind (val vs i) (\<lambda>v. or_epanic (value_boolean v))"

definition val_raw :: "frame_values \<Rightarrow> value_id \<Rightarrow> nat \<Rightarrow> interpreter_error + u128" where
  "val_raw vs i bits = rbind (val_scalar vs i) (\<lambda>v. or_epanic (int_raw v bits))"

datatype exec_result = Produce rt_value memory | Proceed memory

definition scalar_result :: "memory \<Rightarrow> const_value option \<Rightarrow> interpreter_error + exec_result" where
  "scalar_result m v = rbind (or_epanic v) (\<lambda>v. Inr (Produce (VScalar v) m))"

definition bool_value :: "memory \<Rightarrow> bool \<Rightarrow> exec_result" where
  "bool_value m b = Produce (VScalar (ConstBool b)) m"

definition type_bits :: "ty \<Rightarrow> interpreter_error + nat" where
  "type_bits t = or_epanic (map_option fst (shape t))"

definition exec_bin ::
  "(int_fail \<Rightarrow> interpreter_error) \<Rightarrow> bin_op \<Rightarrow> ty \<Rightarrow> const_value \<Rightarrow> interpreter_error + const_value \<Rightarrow>
   interpreter_error + const_value" where
  "exec_bin fail op t l right =
     (case l of
        ConstF a \<Rightarrow>
          rbind right (\<lambda>r.
          case r of
            ConstF b \<Rightarrow> rbind (or_epanic (float_arithmetic op a b)) (\<lambda>v. Inr (ConstF v))
          | _ \<Rightarrow> Inl EPanic)
      | _ \<Rightarrow> rbind right (\<lambda>r. map_err fail (int_bin op t l r)))"

definition exec_neg :: "ty \<Rightarrow> const_value \<Rightarrow> interpreter_error + const_value" where
  "exec_neg t v =
     (case v of
        ConstF x \<Rightarrow> Inr (ConstF (float_negate x))
      | _ \<Rightarrow> rbind (type_bits t) (\<lambda>bits.
             rbind (or_epanic (int_raw v bits)) (\<lambda>raw. or_epanic (int_pack t (0 - raw)))))"

definition exec_not :: "ty \<Rightarrow> const_value \<Rightarrow> interpreter_error + const_value" where
  "exec_not t v =
     rbind (type_bits t) (\<lambda>bits.
     rbind (or_epanic (int_raw v bits)) (\<lambda>raw. or_epanic (int_pack t (NOT raw))))"

definition exec_icmp ::
  "(fault \<Rightarrow> interpreter_error) \<Rightarrow> frame_values \<Rightarrow> memory \<Rightarrow> icmp_pred \<Rightarrow> ty \<Rightarrow> value_id \<Rightarrow> value_id \<Rightarrow> interpreter_error + bool" where
  "exec_icmp fail vs m pred t l r =
     (if is_ptr t then
        rbind (val_pointer vs l) (\<lambda>p.
        rbind (val_pointer vs r) (\<lambda>q. map_err fail (pointer_compare pred p q m)))
      else
        rbind (val_scalar vs l) (\<lambda>a.
        rbind (val_scalar vs r) (\<lambda>b. or_epanic (int_compare pred t a b))))"

definition exec_fcmp :: "frame_values \<Rightarrow> fcmp_pred \<Rightarrow> value_id \<Rightarrow> value_id \<Rightarrow> interpreter_error + bool" where
  "exec_fcmp vs pred l r =
     rbind (val_scalar vs l) (\<lambda>a. rbind (val_scalar vs r) (\<lambda>b. or_epanic (scalar_compare pred a b)))"

definition exec_cmp ::
  "(fault \<Rightarrow> interpreter_error) \<Rightarrow> frame_values \<Rightarrow> memory \<Rightarrow> cmp_op \<Rightarrow> ty \<Rightarrow> value_id \<Rightarrow> value_id \<Rightarrow> interpreter_error + bool" where
  "exec_cmp fail vs m op t l r =
     (if float_type t then rbind (or_epanic (float_predicate op)) (\<lambda>pred. exec_fcmp vs pred l r)
      else rbind (or_epanic (cmp_pred op)) (\<lambda>pred. exec_icmp fail vs m pred t l r))"

definition exec_cast ::
  "execution_site \<Rightarrow> nat \<Rightarrow> frame_values \<Rightarrow> cast_op \<Rightarrow> ty \<Rightarrow> ty \<Rightarrow> value_id \<Rightarrow> interpreter_error + rt_value" where
  "exec_cast site steps vs op s d src =
     (if op \<in> {FExt, FTrunc, IToF_S, IToF_U, FToI_S, FToI_U} then
        rbind (val_scalar vs src) (\<lambda>v.
        rbind (or_epanic (convert op s d v)) (\<lambda>r.
        rbind (ok_or r (trap_at site steps InvalidConversion)) (\<lambda>v. Inr (VScalar v))))
      else if op = CheckedInt then
        rbind (val_scalar vs src) (\<lambda>v.
        rbind (map_err (int_failure site steps) (int_checked_cast s d v)) (\<lambda>v. Inr (VScalar v)))
      else if op = IntToPtr then
        rbind (val_raw vs src 64) (\<lambda>raw. Inr (VPointer (raw_pointer (ucast raw))))
      else if op = PtrToInt then
        rbind (val_pointer vs src) (\<lambda>p.
        rbind (or_epanic (int_pack d (ucast (ptr_address p)))) (\<lambda>v. Inr (VScalar v)))
      else if op = Bitcast \<and> is_ptr s then val vs src
      else if op = Bitcast then
        rbind (val_scalar vs src) (\<lambda>v.
        rbind (or_epanic (scalar_raw s v)) (\<lambda>raw.
        rbind (or_epanic (scalar_pack d raw)) (\<lambda>v. Inr (VScalar v))))
      else
        rbind (val_scalar vs src) (\<lambda>v.
        rbind (or_epanic (int_cast op s d v)) (\<lambda>v. Inr (VScalar v))))"

fun collect :: "('a \<Rightarrow> 'e + 'b) \<Rightarrow> 'a list \<Rightarrow> 'e + 'b list" where
  "collect f [] = Inr []"
| "collect f (x # xs) = rbind (f x) (\<lambda>y. rbind (collect f xs) (\<lambda>ys. Inr (y # ys)))"

definition proceed :: "interpreter_error + memory \<Rightarrow> interpreter_error + exec_result" where
  "proceed r = rbind r (\<lambda>m. Inr (Proceed m))"

definition produce :: "memory \<Rightarrow> interpreter_error + rt_value \<Rightarrow> interpreter_error + exec_result" where
  "produce m r = rbind r (\<lambda>v. Inr (Produce v m))"

end
