(* ===== verification/IrInterpreterRun.thy ===== *)
theory IrInterpreterRun
  imports IrInterpreter
begin

text \<open>
  The execution of \<open>ir/src/interpreter/mod.rs\<close>: one instruction, one turn of the loop over
  frames, the loop itself, and a whole run with its argument checks and global storage.
  Every turn charges at least one step, so the recursion ends with the step budget.
\<close>

subsection \<open>One instruction\<close>

definition exec_instruction ::
  "interp_context \<Rightarrow> prepared \<Rightarrow> frame \<Rightarrow> execution_site \<Rightarrow> nat \<Rightarrow> block_id \<times> usize \<Rightarrow> instruction \<Rightarrow> memory \<Rightarrow>
   interpreter_error + exec_result" where
  "exec_instruction c pr fr site steps pos ins m =
     (let vs = fr_values fr; fail = memory_failure site steps in
      case ins of
        GlobalAddr _ g _ \<Rightarrow> rbind (or_epanic (ic_globals c g)) (\<lambda>p. Inr (Produce (VPointer p) m))
      | LifetimeEnd p \<Rightarrow>
          rbind (val_pointer vs p) (\<lambda>p. proceed (map_err fail (mem_retire_stack p (fr_allocation_start fr) m)))
      | PtrDiff _ l r \<Rightarrow>
          rbind (val_pointer vs l) (\<lambda>p.
          rbind (val_pointer vs r) (\<lambda>q.
          rbind (map_err fail (mem_difference p q m)) (\<lambda>d. Inr (Produce (VScalar (ConstI (word_of_int d))) m))))
      | NullFunction _ _ \<Rightarrow>
          rbind (or_epanic (pr_signatures pr pos)) (\<lambda>sig.
          Inr (Produce (VFunction \<lparr>fun_signature = sig, fun_target = TargetNull\<rparr>) m))
      | FunctionAddr _ target _ \<Rightarrow>
          rbind (or_epanic (pr_signatures pr pos)) (\<lambda>sig.
          Inr (Produce (VFunction \<lparr>fun_signature = sig, fun_target = TargetDefined target\<rparr>) m))
      | Const _ _ v \<Rightarrow> Inr (Produce (VScalar v) m)
      | ConstDecl _ _ _ v \<Rightarrow> Inr (Produce (VScalar v) m)
      | Mov _ _ s \<Rightarrow> produce m (val vs s)
      | Bin _ op t l r \<Rightarrow>
          produce m (rbind (val_scalar vs l) (\<lambda>a.
            rbind (exec_bin (int_failure site steps) op t a (val_scalar vs r)) (\<lambda>v. Inr (VScalar v))))
      | Neg _ t s \<Rightarrow> produce m (rbind (val_scalar vs s) (\<lambda>a. rbind (exec_neg t a) (\<lambda>v. Inr (VScalar v))))
      | NotI _ t s \<Rightarrow> produce m (rbind (val_scalar vs s) (\<lambda>a. rbind (exec_not t a) (\<lambda>v. Inr (VScalar v))))
      | Cmp _ op t l r \<Rightarrow> rbind (exec_cmp fail vs m op t l r) (\<lambda>b. Inr (bool_value m b))
      | ICmp _ pred t l r \<Rightarrow> rbind (exec_icmp fail vs m pred t l r) (\<lambda>b. Inr (bool_value m b))
      | FCmp _ pred _ l r \<Rightarrow> rbind (exec_fcmp vs pred l r) (\<lambda>b. Inr (bool_value m b))
      | Select _ _ cond a b \<Rightarrow>
          produce m (rbind (val_boolean vs cond) (\<lambda>x. val vs (if x then a else b)))
      | Cast _ op s d src \<Rightarrow> produce m (exec_cast site steps vs op s d src)
      | Alloca _ _ align \<Rightarrow>
          rbind (or_epanic (pr_sizes pr pos)) (\<lambda>(size, natural).
          rbind (map_err fail (mem_allocate size natural align m)) (\<lambda>(p, m). Inr (Produce (VPointer p) m)))
      | VolatileLoad _ t p align \<Rightarrow>
          rbind (val_pointer vs p) (\<lambda>p.
          rbind (map_err fail (mem_load p t align (pr_signatures pr pos) m)) (\<lambda>(v, m). Inr (Produce v m)))
      | Load _ t p align \<Rightarrow>
          rbind (val_pointer vs p) (\<lambda>p.
          rbind (map_err fail (mem_load p t align (pr_signatures pr pos) m)) (\<lambda>(v, m). Inr (Produce v m)))
      | VolatileStore t v p align \<Rightarrow>
          rbind (val_pointer vs p) (\<lambda>p. rbind (val vs v) (\<lambda>v. proceed (map_err fail (mem_store p t v align m))))
      | Store t v p align \<Rightarrow>
          rbind (val_pointer vs p) (\<lambda>p. rbind (val vs v) (\<lambda>v. proceed (map_err fail (mem_store p t v align m))))
      | Uninit _ p align \<Rightarrow>
          rbind (val_pointer vs p) (\<lambda>p.
          rbind (or_epanic (pr_sizes pr pos)) (\<lambda>(size, _). proceed (map_err fail (mem_uninit p size align m))))
      | Memcpy d s n align \<Rightarrow>
          rbind (val_pointer vs d) (\<lambda>d.
          rbind (val_pointer vs s) (\<lambda>s.
          rbind (val_raw vs n 64) (\<lambda>n. proceed (map_err fail (mem_copy d s (ucast n) align m)))))
      | Memset d v n align \<Rightarrow>
          rbind (val_pointer vs d) (\<lambda>d.
          rbind (val_raw vs v 8) (\<lambda>v.
          rbind (val_raw vs n 64) (\<lambda>n. proceed (map_err fail (mem_set d (ucast v) (ucast n) align m)))))
      | Gep _ _ base indices \<Rightarrow>
          rbind (collect (val_scalar vs) indices) (\<lambda>inputs.
          rbind (val_pointer vs base) (\<lambda>p.
          rbind (or_epanic (pr_geps pr pos)) (\<lambda>plan.
          rbind (map_err fail (mem_gep p plan inputs m)) (\<lambda>p. Inr (Produce (VPointer p) m)))))
      | Checked _ op t l r \<Rightarrow>
          rbind (val_scalar vs l) (\<lambda>a.
          rbind (val_scalar vs r) (\<lambda>b.
          rbind (or_epanic (int_checked op t a b)) (\<lambda>(v, overflow). Inr (Produce (VChecked v overflow) m))))
      | Extract _ _ tuple index \<Rightarrow>
          rbind (val vs tuple) (\<lambda>v.
          case v of
            VChecked v overflow \<Rightarrow> Inr (Produce (VScalar (if index = 0 then v else ConstBool overflow)) m)
          | _ \<Rightarrow> Inl EPanic)
      | TrapIf cond reason \<Rightarrow>
          rbind (val_boolean vs cond) (\<lambda>b.
          if b then Inl (trap_at site steps (Explicit reason)) else Inr (Proceed m))
      | _ \<Rightarrow> Inl EPanic)"

subsection \<open>Calls\<close>

definition call_target ::
  "interp_context \<Rightarrow> frame_values \<Rightarrow> execution_site \<Rightarrow> nat \<Rightarrow> callee \<Rightarrow> interpreter_error + function_id" where
  "call_target c vs site steps callee =
     (case callee of
        Direct i \<Rightarrow> Inr i
      | Indirect i \<Rightarrow>
          rbind (val vs i) (\<lambda>v.
          case v of
            VFunction p \<Rightarrow>
              (case fun_target p of
                 TargetNull \<Rightarrow> Inl (trap_at site steps NullFunctionCall)
               | TargetInvalidBits _ \<Rightarrow> Inl (trap_at site steps InvalidFunctionPointer)
               | TargetDefined i \<Rightarrow>
                   if ic_signatures c i \<noteq> Some (fun_signature p)
                   then Inl (trap_at site steps FunctionSignatureMismatch) else Inr i)
          | _ \<Rightarrow> Inl EPanic))"

text \<open>The caller's frame already points past the call.\<close>

definition enter_call ::
  "interp_context \<Rightarrow> interp_state \<Rightarrow> frame \<Rightarrow> frame list \<Rightarrow> execution_site \<Rightarrow> nat \<Rightarrow> value_id option \<Rightarrow> callee \<Rightarrow>
   value_id list \<Rightarrow> interpreter_error + interp_state" where
  "enter_call c s fr rest site steps dst callee args =
     (let opts = ic_options c; vs = fr_values fr; depth = length (is_frames s) in
      rbind (call_target c vs site steps callee) (\<lambda>target.
      if max_call_depth opts \<le> depth then Inl (ECallLimit site CallDepth (max_call_depth opts))
      else if max_frames opts \<le> is_created s then Inl (ECallLimit site CallFrames (max_frames opts))
      else
        rbind (or_epanic (ic_prepared c target)) (\<lambda>child.
        let live = is_live s + pr_capacity child in
        if max_live_values opts < live then Inl (ECallLimit site CallValues (max_live_values opts))
        else
          rbind (make_frame_values (ic_host c) (pr_fun child) (collect (val vs) args) (pr_capacity child) site) (\<lambda>child_values.
          if \<not> host_reserve (ic_host c) 1 then Inl (ECallLimit site CallHostAllocation depth)
          else
            Inr (s\<lparr>is_frames :=
                     \<lparr>fr_function = target, fr_values = child_values, fr_current = f_entry (pr_fun child),
                      fr_predecessor = None, fr_instruction = 0,
                      fr_allocation_start = length (m_allocations (is_memory s)),
                      fr_return_destination = dst, fr_call_site = Some site\<rparr> # fr # rest,
                   is_created := is_created s + 1, is_live := live, is_steps := steps\<rparr>)))))"

subsection \<open>One turn of the loop\<close>

datatype step_result = Next interp_state | Done run_result

definition site_at :: "frame \<Rightarrow> usize \<Rightarrow> value_id option \<Rightarrow> execution_site" where
  "site_at fr i v =
     \<lparr>site_function = fr_function fr, site_block = fr_current fr, site_instruction = i, site_value = v\<rparr>"

definition read_phi ::
  "interp_context \<Rightarrow> frame \<Rightarrow> usize \<times> instruction \<Rightarrow> nat \<times> (value_id \<times> rt_value) list \<Rightarrow>
   interpreter_error + nat \<times> (value_id \<times> rt_value) list" where
  "read_phi c fr = (\<lambda>(index, ins) (steps, phis).
     case ins of
       Phi dst _ incomings \<Rightarrow>
         rbind (charge_step c steps (site_at fr index (Some dst))) (\<lambda>steps.
         rbind (or_epanic (find (\<lambda>(_, b). Some b = fr_predecessor fr) incomings)) (\<lambda>(input, _).
         rbind (val (fr_values fr) input) (\<lambda>v. Inr (steps, phis @ [(dst, v)]))))
     | _ \<Rightarrow> Inl EPanic)"

text \<open>All inputs are read before any is committed.\<close>

definition enter_block ::
  "interp_context \<Rightarrow> basic_block \<Rightarrow> frame \<Rightarrow> nat \<Rightarrow> interpreter_error + frame \<times> nat" where
  "enter_block c block fr steps =
     (if fr_instruction fr = 0 then
        let phis = takeWhile is_phi (bb_instructions block) in
        if \<not> host_reserve (ic_host c) (length phis)
        then Inl (ECallLimit (site_at fr 0 None) CallHostAllocation (length phis))
        else rbind (foldR (read_phi c fr) (enumerate 0 phis) (steps, [])) (\<lambda>(steps, vals).
          Inr (fr\<lparr>fr_instruction := length vals, fr_values := fr_values fr ++ map_of (rev vals)\<rparr>, steps))
      else Inr (fr, steps))"

definition step_instruction ::
  "interp_context \<Rightarrow> prepared \<Rightarrow> basic_block \<Rightarrow> interp_state \<Rightarrow> frame \<Rightarrow> frame list \<Rightarrow> nat \<Rightarrow> interpreter_error + interp_state" where
  "step_instruction c pr block s fr rest steps =
     (let index = fr_instruction fr; ins = bb_instructions block ! index;
          site = site_at fr index (destination ins); fr = fr\<lparr>fr_instruction := index + 1\<rparr> in
      rbind (charge_step c steps site) (\<lambda>steps.
      case ins of
        Call _ dst _ callee args \<Rightarrow> enter_call c s fr rest site steps dst callee args
      | _ \<Rightarrow>
          rbind (exec_instruction c pr fr site steps (fr_current fr, index) ins (is_memory s)) (\<lambda>r.
          case r of
            Proceed m \<Rightarrow> Inr (s\<lparr>is_frames := fr # rest, is_memory := m, is_steps := steps\<rparr>)
          | Produce v m \<Rightarrow>
              rbind (or_epanic (destination ins)) (\<lambda>d.
              Inr (s\<lparr>is_frames := fr\<lparr>fr_values := (fr_values fr)(d \<mapsto> v)\<rparr> # rest, is_memory := m,
                     is_steps := steps\<rparr>)))))"

definition switch_target ::
  "frame_values \<Rightarrow> value_id \<Rightarrow> block_id \<Rightarrow> (const_value \<times> block_id) list \<Rightarrow> interpreter_error + block_id" where
  "switch_target vs v other cs =
     (if cs = [] then Inr other
      else rbind (val_scalar vs v) (\<lambda>x.
        Inr (case find (\<lambda>(key, _). key = x) cs of Some (_, t) \<Rightarrow> t | None \<Rightarrow> other)))"

definition optional_value :: "frame_values \<Rightarrow> value_id option \<Rightarrow> interpreter_error + rt_value option" where
  "optional_value vs v = (case v of None \<Rightarrow> Inr None | Some i \<Rightarrow> rbind (val vs i) (\<lambda>x. Inr (Some x)))"

definition return_value ::
  "interp_context \<Rightarrow> prepared \<Rightarrow> rt_value option \<Rightarrow> nat \<Rightarrow> run_result" where
  "return_value c pr v steps =
     \<lparr>res_value = map_option (\<lambda>v. \<lparr>rv_ty = f_ret_ty (pr_fun pr), rv_value = v, rv_module = Some (ic_address c)\<rparr>) v,
      res_steps = steps\<rparr>"

definition step_return ::
  "interp_context \<Rightarrow> prepared \<Rightarrow> interp_state \<Rightarrow> frame \<Rightarrow> frame list \<Rightarrow> execution_site \<Rightarrow> nat \<Rightarrow> value_id option \<Rightarrow>
   interpreter_error + step_result" where
  "step_return c pr s fr rest site steps v =
     rbind (optional_value (fr_values fr) v) (\<lambda>v.
     rbind (map_err (memory_failure site steps) (mem_retire_from (fr_allocation_start fr) (is_memory s))) (\<lambda>m.
     rbind (or_epanic (usize_sub (is_live s) (pr_capacity pr))) (\<lambda>live.
     case rest of
       [] \<Rightarrow> Inr (Done (return_value c pr v steps))
     | parent # others \<Rightarrow>
         rbind (case fr_return_destination fr of
                  None \<Rightarrow> Inr parent
                | Some d \<Rightarrow>
                    rbind (or_epanic v) (\<lambda>v. Inr (parent\<lparr>fr_values := (fr_values parent)(d \<mapsto> v)\<rparr>))) (\<lambda>parent.
         Inr (Next (s\<lparr>is_frames := parent # others, is_memory := m, is_live := live, is_steps := steps\<rparr>))))))"

definition step_terminator ::
  "interp_context \<Rightarrow> prepared \<Rightarrow> basic_block \<Rightarrow> interp_state \<Rightarrow> frame \<Rightarrow> frame list \<Rightarrow> nat \<Rightarrow> interpreter_error + step_result" where
  "step_terminator c pr block s fr rest steps =
     (let site = site_at fr (length (bb_instructions block)) None;
          goto = (\<lambda>steps t. Inr (Next (s\<lparr>is_frames :=
             fr\<lparr>fr_predecessor := Some (fr_current fr), fr_current := t, fr_instruction := 0\<rparr> # rest, is_steps := steps\<rparr>))) in
      rbind (charge_step c steps site) (\<lambda>steps.
      rbind (or_epanic (bb_terminator block)) (\<lambda>t.
      case t of
        Br t \<Rightarrow> goto steps t
      | CBr cond a b \<Rightarrow> rbind (val_boolean (fr_values fr) cond) (\<lambda>x. goto steps (if x then a else b))
      | Switch _ v other cs \<Rightarrow> rbind (switch_target (fr_values fr) v other cs) (goto steps)
      | Ret _ v \<Rightarrow> step_return c pr s fr rest site steps v
      | Trap reason \<Rightarrow> Inl (trap_at site steps (Explicit reason)))))"

definition interp_step :: "interp_context \<Rightarrow> interp_state \<Rightarrow> interpreter_error + step_result" where
  "interp_step c s =
     (case is_frames s of
        [] \<Rightarrow> Inl EPanic
      | fr # rest \<Rightarrow>
          rbind (or_epanic (ic_prepared c (fr_function fr))) (\<lambda>pr.
          rbind (or_epanic (pr_blocks pr (fr_current fr))) (\<lambda>block.
          rbind (enter_block c block fr (is_steps s)) (\<lambda>(fr, steps).
          if fr_instruction fr < length (bb_instructions block)
          then rbind (step_instruction c pr block s fr rest steps) (\<lambda>s. Inr (Next s))
          else step_terminator c pr block s fr rest steps))))"

text \<open>A turn that goes on has charged a step, within the budget.\<close>

lemma charge_step_Inr [result_simps]:
  "charge_step c n site = Inr n' \<longleftrightarrow> n < max_steps (ic_options c) \<and> n' = n + 1"
  by (auto simp: charge_step_def)

lemma or_epanic_Inr [result_simps]: "or_epanic x = Inr y \<longleftrightarrow> x = Some y"
  by (simp add: or_epanic_def ok_or_eq_Inr)

lemma read_phi_steps: "read_phi c fr x (n, vs) = Inr (n', vs') \<Longrightarrow> n' = n + 1 \<and> n' \<le> max_steps (ic_options c)"
  by (cases x; cases "snd x") (auto simp: read_phi_def result_simps)

lemma enter_block_steps: "enter_block c block fr n = Inr (fr', n') \<Longrightarrow> n \<le> n'"
proof -
  assume e: "enter_block c block fr n = Inr (fr', n')"
  have "n \<le> fst t" if "foldR (read_phi c fr) xs (n, []) = Inr t" for xs t
    using that by (rule foldR_invariant [where I = "\<lambda>t. n \<le> fst t"]) (auto dest!: read_phi_steps)
  with e show ?thesis by (fastforce simp: enter_block_def Let_def result_simps split: if_splits)
qed

lemma enter_call_steps: "enter_call c s fr rest site n d callee args = Inr s' \<Longrightarrow> is_steps s' = n"
  by (auto simp: enter_call_def Let_def result_simps split: if_splits)

text \<open>The two ways an instruction succeeds.\<close>

definition after_instruction :: "interp_state \<Rightarrow> frame \<Rightarrow> frame list \<Rightarrow> nat \<Rightarrow> instruction \<Rightarrow> exec_result \<Rightarrow> interpreter_error + interp_state" where
  "after_instruction s fr rest steps ins r =
     (case r of
        Proceed m \<Rightarrow> Inr (s\<lparr>is_frames := fr # rest, is_memory := m, is_steps := steps\<rparr>)
      | Produce v m \<Rightarrow>
          rbind (or_epanic (destination ins)) (\<lambda>d.
          Inr (s\<lparr>is_frames := fr\<lparr>fr_values := (fr_values fr)(d \<mapsto> v)\<rparr> # rest, is_memory := m, is_steps := steps\<rparr>)))"

fun is_call :: "instruction \<Rightarrow> bool" where
  "is_call (Call _ _ _ _ _) = True"
| "is_call _ = False"

lemma case_call: "\<not> is_call ins \<Longrightarrow> (case ins of Call a b c d e \<Rightarrow> f a b c d e | _ \<Rightarrow> g) = g"
  by (cases ins) simp_all

lemma step_instructionE:
  assumes "step_instruction c pr block s fr rest n = Inr s'"
  defines "i \<equiv> fr_instruction fr"
  defines "ins \<equiv> bb_instructions block ! i"
  defines "site \<equiv> site_at fr i (destination ins)"
  defines "fr' \<equiv> fr\<lparr>fr_instruction := i + 1\<rparr>"
  obtains (call) conv dst ret callee args where "ins = Call conv dst ret callee args" "n < max_steps (ic_options c)"
      "enter_call c s fr' rest site (n + 1) dst callee args = Inr s'"
  | (exec) r where "\<not> is_call ins" "n < max_steps (ic_options c)"
      "exec_instruction c pr fr' site (n + 1) (fr_current fr', i) ins (is_memory s) = Inr r"
      "after_instruction s fr' rest (n + 1) ins r = Inr s'"
proof (cases "is_call ins")
  case True
  then obtain conv dst ret callee args where ins: "ins = Call conv dst ret callee args" by (cases ins) auto
  have "n < max_steps (ic_options c)" "enter_call c s fr' rest site (n + 1) dst callee args = Inr s'"
    using assms(1) unfolding step_instruction_def Let_def ins_def [symmetric, folded i_def] i_def [symmetric] ins
      fr'_def site_def by (auto simp: rbind_eq_Inr charge_step_Inr)
  with ins show ?thesis by (rule call)
next
  case False
  have "n < max_steps (ic_options c)"
    "rbind (exec_instruction c pr fr' site (n + 1) (fr_current fr', i) ins (is_memory s)) (after_instruction s fr' rest (n + 1) ins) = Inr s'"
    using assms(1) unfolding step_instruction_def Let_def i_def [symmetric] ins_def [symmetric] case_call [OF False]
      after_instruction_def fr'_def site_def by (simp_all only: rbind_eq_Inr charge_step_Inr) blast+
  with False show ?thesis unfolding rbind_eq_Inr by (blast intro: exec)
qed

lemma after_instruction_steps: "after_instruction s fr rest n ins r = Inr s' \<Longrightarrow> is_steps s' = n"
  by (auto simp: after_instruction_def result_simps split: exec_result.splits)

lemma step_instruction_steps:
  assumes "step_instruction c pr block s fr rest n = Inr s'"
  shows "n < is_steps s' \<and> is_steps s' \<le> max_steps (ic_options c)"
  using assms by (cases rule: step_instructionE) (auto dest: enter_call_steps after_instruction_steps)

lemma step_return_steps: "step_return c pr s fr rest site n v = Inr (Next s') \<Longrightarrow> is_steps s' = n"
  by (cases rest) (auto simp: step_return_def rbind_eq_Inr)

lemma find_mem: "find P xs = Some x \<Longrightarrow> x \<in> set xs \<and> P x"
  by (induction xs) (auto split: if_splits)

lemma step_terminatorE:
  assumes "step_terminator c pr block s fr rest n = Inr r"
  obtains (goto) t other where "n < max_steps (ic_options c)" "bb_terminator block = Some t" "other \<in> set (terminator_targets t)"
      "r = Next (s\<lparr>is_frames := fr\<lparr>fr_predecessor := Some (fr_current fr), fr_current := other, fr_instruction := 0\<rparr> # rest,
                 is_steps := n + 1\<rparr>)"
  | (return) ty v where "n < max_steps (ic_options c)" "bb_terminator block = Some (Ret ty v)"
      "step_return c pr s fr rest (site_at fr (length (bb_instructions block)) None) (n + 1) v = Inr r"
proof -
  from assms obtain t where t: "n < max_steps (ic_options c)" "bb_terminator block = Some t"
    unfolding step_terminator_def Let_def rbind_eq_Inr charge_step_Inr or_epanic_Inr by blast
  have sw: "x \<in> set (other # map snd cs)" if "switch_target vs v other cs = Inr x" for vs v other cs x
  proof (cases "cs = []")
    case False
    with that obtain y where x: "x = (case find (\<lambda>(key, _). key = y) cs of Some (_, t) \<Rightarrow> t | None \<Rightarrow> other)"
      by (auto simp: switch_target_def rbind_eq_Inr)
    show ?thesis
    proof (cases "find (\<lambda>(key, _). key = y) cs")
      case (Some p)
      with find_mem [OF this] x show ?thesis by (cases p) force
    qed (simp add: x)
  qed (use that in \<open>simp add: switch_target_def\<close>)
  note run = assms [unfolded step_terminator_def Let_def rbind_eq_Inr charge_step_Inr or_epanic_Inr]
  show ?thesis
  proof (cases t)
    case (Br x)
    with run t show ?thesis by (intro goto [OF t, of x]) simp_all
  next
    case (CBr v a b)
    with run t obtain x where "r = Next (s\<lparr>is_frames := fr\<lparr>fr_predecessor := Some (fr_current fr), fr_current := if x then a else b,
        fr_instruction := 0\<rparr> # rest, is_steps := n + 1\<rparr>)" by (auto simp: rbind_eq_Inr)
    with CBr show ?thesis by (intro goto [OF t, of "if x then a else b"]) simp_all
  next
    case (Switch ty v d cs)
    with run t obtain x where "switch_target (fr_values fr) v d cs = Inr x"
      "r = Next (s\<lparr>is_frames := fr\<lparr>fr_predecessor := Some (fr_current fr), fr_current := x,
        fr_instruction := 0\<rparr> # rest, is_steps := n + 1\<rparr>)" by (auto simp: rbind_eq_Inr)
    with Switch show ?thesis using sw [of "fr_values fr" v d cs x] by (intro goto [OF t, of x]) simp_all
  next
    case (Ret ty v)
    with run t show ?thesis by (intro return [of ty v]) simp_all
  next
    case (Trap reason)
    with run t show ?thesis by simp
  qed
qed

lemma step_terminator_steps:
  assumes "step_terminator c pr block s fr rest n = Inr (Next s')"
  shows "n < is_steps s' \<and> is_steps s' \<le> max_steps (ic_options c)"
  using assms by (cases rule: step_terminatorE) (auto dest: step_return_steps)

lemma interp_stepE:
  assumes "interp_step c s = Inr r"
  obtains (ins) fr rest pr block fr' n s' where "is_frames s = fr # rest" "ic_prepared c (fr_function fr) = Some pr"
      "pr_blocks pr (fr_current fr) = Some block" "enter_block c block fr (is_steps s) = Inr (fr', n)"
      "fr_instruction fr' < length (bb_instructions block)" "step_instruction c pr block s fr' rest n = Inr s'" "r = Next s'"
  | (terminator) fr rest pr block fr' n where "is_frames s = fr # rest" "ic_prepared c (fr_function fr) = Some pr"
      "pr_blocks pr (fr_current fr) = Some block" "enter_block c block fr (is_steps s) = Inr (fr', n)"
      "length (bb_instructions block) \<le> fr_instruction fr'" "step_terminator c pr block s fr' rest n = Inr r"
proof -
  from assms obtain fr rest pr block fr' n where e: "is_frames s = fr # rest" "ic_prepared c (fr_function fr) = Some pr"
      "pr_blocks pr (fr_current fr) = Some block" "enter_block c block fr (is_steps s) = Inr (fr', n)"
    and r: "(if fr_instruction fr' < length (bb_instructions block)
          then rbind (step_instruction c pr block s fr' rest n) (\<lambda>s. Inr (Next s))
          else step_terminator c pr block s fr' rest n) = Inr r"
    unfolding interp_step_def by (cases "is_frames s"; simp only: list.case rbind_eq_Inr or_epanic_Inr) (auto simp: or_epanic_Inr)
  show ?thesis
  proof (cases "fr_instruction fr' < length (bb_instructions block)")
    case True
    with r show ?thesis by (auto simp: rbind_eq_Inr intro: ins [OF e])
  next
    case False
    with r show ?thesis by (auto intro: terminator [OF e])
  qed
qed

lemma interp_step_steps:
  assumes "interp_step c s = Inr (Next s')"
  shows "is_steps s < is_steps s' \<and> is_steps s' \<le> max_steps (ic_options c)"
  using assms
proof (cases rule: interp_stepE)
  case (ins fr rest pr block fr' n s1)
  with step_instruction_steps [OF ins(6)] enter_block_steps [OF ins(4)] show ?thesis by simp
next
  case (terminator fr rest pr block fr' n)
  with step_terminator_steps [OF terminator(6)] enter_block_steps [OF terminator(4)] show ?thesis by simp
qed

subsection \<open>The loop\<close>

function interp_loop :: "interp_context \<Rightarrow> interp_state \<Rightarrow> (interpreter_error \<times> frame list) + run_result" where
  "interp_loop c s =
     (case interp_step c s of
        Inl e \<Rightarrow> Inl (e, is_frames s)
      | Inr (Done r) \<Rightarrow> Inr r
      | Inr (Next s') \<Rightarrow> interp_loop c s')"
  by pat_completeness auto
termination
proof (relation "measure (\<lambda>(c, s). max_steps (ic_options c) - is_steps s)")
  fix c s and r :: step_result and s'
  assume "interp_step c s = Inr r" "r = Next s'"
  with interp_step_steps [of c s s'] show "((c, s'), c, s) \<in> measure (\<lambda>(c, s). max_steps (ic_options c) - is_steps s)"
    by auto
qed simp

declare interp_loop.simps [simp del]

subsection \<open>A run\<close>

definition check_global :: "global_storage \<Rightarrow> interpreter_error + unit" where
  "check_global g = ensure (call_value_type (gs_ty g)) (EUnsupportedGlobal (gs_id g))"

definition global_failure :: "global_id \<Rightarrow> fault \<Rightarrow> interpreter_error" where
  "global_failure g e =
     (case e of
        MemTrap reason \<Rightarrow> EGlobalMemory g reason
      | MemLimit res limit \<Rightarrow> EGlobalMemoryLimit g res limit
      | MemPanic \<Rightarrow> EPanic)"

definition init_global ::
  "interpreter_options \<Rightarrow> global_storage \<Rightarrow> memory \<times> (global_id \<rightharpoonup> pointer) \<Rightarrow> interpreter_error + memory \<times> (global_id \<rightharpoonup> pointer)" where
  "init_global opts g = (\<lambda>(m, pointers).
     let fail = global_failure (gs_id g) in
     rbind (interp_layout (gs_ty g) (max_type_depth (opt_ir_limits opts))) (\<lambda>lay.
     rbind (map_err fail (mem_allocate_global (tl_size lay) (tl_align lay) (gs_align g) m)) (\<lambda>(p, m).
     rbind (case gs_init g of
              InitValue v \<Rightarrow> map_err fail (mem_store p (gs_ty g) (VScalar v) (gs_align g) m)
            | InitNone \<Rightarrow> Inr m) (\<lambda>m.
     rbind (map_err fail (mem_seal_global p (gs_readonly g) m)) (\<lambda>(p, m).
     Inr (m, pointers(gs_id g \<mapsto> p)))))))"

definition check_inputs ::
  "nat \<Rightarrow> host \<Rightarrow> ir_module \<Rightarrow> function_id \<Rightarrow> ir_function \<Rightarrow> arguments \<Rightarrow> interpreter_error + rt_value list" where
  "check_inputs addr h m fid f args =
     (if (case args of Scalars _ \<Rightarrow> True | Runtime _ \<Rightarrow> False)
         \<and> (\<not> list_all (\<lambda>p. scalar_type (p_ty p)) (f_params f) \<or> \<not> (f_ret_ty f = Void \<or> scalar_type (f_ret_ty f)))
      then Inl (EUnsupportedSignature fid)
      else if arguments_len args \<noteq> length (f_params f)
      then Inl (EArgumentCount (length (f_params f)) (arguments_len args))
      else if \<not> host_reserve h (arguments_len args)
      then Inl (ECallLimit \<lparr>site_function = fid, site_block = f_entry f, site_instruction = 0, site_value = None\<rparr>
                  CallHostAllocation (arguments_len args))
      else foldR (check_input addr m args) (enumerate 0 (f_params f)) [])"

definition initial_state ::
  "interp_context \<Rightarrow> function_id \<Rightarrow> ir_function \<Rightarrow> rt_value list \<Rightarrow> memory \<Rightarrow> interpreter_error + interp_state" where
  "initial_state c fid f inputs m =
     (let opts = ic_options c;
          site = \<lparr>site_function = fid, site_block = f_entry f, site_instruction = 0, site_value = None\<rparr> in
      if max_call_depth opts = 0 \<or> max_frames opts = 0
      then Inl (ECallLimit site (if max_call_depth opts = 0 then CallDepth else CallFrames) 0)
      else
        rbind (or_epanic (ic_prepared c fid)) (\<lambda>pr.
        if max_live_values opts < pr_capacity pr then Inl (ECallLimit site CallValues (max_live_values opts))
        else
          rbind (make_frame_values (ic_host c) f (Inr inputs) (pr_capacity pr) site) (\<lambda>vs.
          Inr \<lparr>is_frames = [\<lparr>fr_function = fid, fr_values = vs, fr_current = f_entry f, fr_predecessor = None,
                 fr_instruction = 0, fr_allocation_start = length (m_allocations m), fr_return_destination = None,
                 fr_call_site = None\<rparr>],
               is_memory = m, is_created = 1, is_live = pr_capacity pr, is_steps = 0\<rparr>)))"

text \<open>Everything before the loop.  The arena of a memory is a number the host gives.\<close>

definition prepare_state ::
  "nat \<Rightarrow> u64 \<Rightarrow> host \<Rightarrow> ir_module \<Rightarrow> function_id \<Rightarrow> arguments \<Rightarrow> interpreter_options \<Rightarrow>
   interpreter_error + interp_context \<times> interp_state" where
  "prepare_state addr arena h m fid args opts =
     rbind (map_err EVerification (verify_module_with_limits m (opt_ir_limits opts))) (\<lambda>_.
     rbind (ok_or (function_table m fid) (EUnknownFunction fid)) (\<lambda>f.
     rbind (check_inputs addr h m fid f args) (\<lambda>inputs.
     rbind (prepare_run m fid inputs) (\<lambda>prepared.
     rbind (foldR (\<lambda>g _. check_global g) (m_global_storage m) ()) (\<lambda>_.
     rbind (foldR (init_global opts) (m_global_storage m) (memory_new arena (opt_memory_limits opts) h, Map.empty)) (\<lambda>(mem, globals).
     let c = \<lparr>ic_module = m, ic_address = addr, ic_options = opts, ic_host = h, ic_prepared = prepared,
              ic_signatures = map_option d_signature \<circ> declaration_table m, ic_globals = globals\<rparr> in
     rbind (initial_state c fid f inputs mem) (\<lambda>s. Inr (c, s))))))))"

definition run_inner ::
  "nat \<Rightarrow> u64 \<Rightarrow> host \<Rightarrow> ir_module \<Rightarrow> function_id \<Rightarrow> arguments \<Rightarrow> interpreter_options \<Rightarrow> interpreter_error + run_result" where
  "run_inner addr arena h m fid args opts =
     rbind (prepare_state addr arena h m fid args opts) (\<lambda>(c, s).
     map_err (\<lambda>(cause, frames). runtime_failure h m cause frames (max_trace_frames opts)) (interp_loop c s))"

fun error_global :: "interpreter_error \<Rightarrow> global_id option" where
  "error_global (EGlobalMemory g _) = Some g"
| "error_global (EGlobalMemoryLimit g _ _) = Some g"
| "error_global (EUnsupportedGlobal g) = Some g"
| "error_global _ = None"

definition run_failure :: "host \<Rightarrow> ir_module \<Rightarrow> interpreter_options \<Rightarrow> interpreter_error \<Rightarrow> interpreter_error" where
  "run_failure h m opts cause =
     (if error_diagnostic cause \<noteq> None then cause
      else
        case error_global cause of
          None \<Rightarrow> runtime_failure h m cause [] (max_trace_frames opts)
        | Some g \<Rightarrow>
            (case budget_location h m (AtGlobal g) source_budget_new of
               (Some original, b) \<Rightarrow>
                 EDiagnostic cause
                   \<lparr>rd_site = None, rd_global = Some g, rd_original = Some original, rd_calls = [],
                    rd_omitted_call_frames = 0, rd_omitted_source_details = sb_omitted b\<rparr>
             | (None, _) \<Rightarrow> runtime_failure h m cause [] (max_trace_frames opts)))"

definition run ::
  "nat \<Rightarrow> u64 \<Rightarrow> host \<Rightarrow> ir_module \<Rightarrow> function_id \<Rightarrow> arguments \<Rightarrow> interpreter_options \<Rightarrow> interpreter_error + run_result" where
  "run addr arena h m fid args opts = map_err (run_failure h m opts) (run_inner addr arena h m fid args opts)"

definition interpret_values_with_options ::
  "nat \<Rightarrow> u64 \<Rightarrow> host \<Rightarrow> ir_module \<Rightarrow> function_id \<Rightarrow> runtime_value list \<Rightarrow> interpreter_options \<Rightarrow>
   interpreter_error + run_result" where
  "interpret_values_with_options addr arena h m fid args opts = run addr arena h m fid (Runtime args) opts"

definition interpret_values ::
  "nat \<Rightarrow> u64 \<Rightarrow> host \<Rightarrow> ir_module \<Rightarrow> function_id \<Rightarrow> runtime_value list \<Rightarrow> interpreter_error + run_result" where
  "interpret_values addr arena h m fid args =
     interpret_values_with_options addr arena h m fid args interpreter_options_default"

definition interpret_with_options ::
  "nat \<Rightarrow> u64 \<Rightarrow> host \<Rightarrow> ir_module \<Rightarrow> function_id \<Rightarrow> const_value list \<Rightarrow> interpreter_options \<Rightarrow>
   interpreter_error + const_value option \<times> nat" where
  "interpret_with_options addr arena h m fid args opts =
     rbind (run addr arena h m fid (Scalars args) opts) (\<lambda>r.
     case res_value r of
       None \<Rightarrow> Inr (None, res_steps r)
     | Some v \<Rightarrow> rbind (or_epanic (value_scalar (rv_value v))) (\<lambda>x. Inr (Some x, res_steps r)))"

definition interpret_default ::
  "nat \<Rightarrow> u64 \<Rightarrow> host \<Rightarrow> ir_module \<Rightarrow> function_id \<Rightarrow> const_value list \<Rightarrow> interpreter_error + const_value option \<times> nat" where
  "interpret_default addr arena h m fid args =
     interpret_with_options addr arena h m fid args interpreter_options_default"

end
