(* ===== verification/IrSample.thy ===== *)
theory IrSample
  imports IrInterpreterRun
begin

text \<open>
  A small module that verifies and runs: an entry function that calls another with a constant
  and returns what it returns.  The properties of the verifier and the interpreter are applied
  to it.
\<close>

definition sample_callee :: ir_function where
  "sample_callee =
     \<lparr>f_id = FunctionId 1, f_name = ''g'', f_params = [\<lparr>p_name = ''x'', p_id = ValueId 1, p_ty = Bool\<rparr>], f_ret_ty = Bool,
      f_blocks =
        [\<lparr>bb_id = BlockId 0, bb_name = ''a'', bb_instructions = [], bb_terminator = Some (Ret Bool (Some (ValueId 1)))\<rparr>],
      f_entry = BlockId 0, f_value_types = [(ValueId 1, Bool)]\<rparr>"

definition sample_caller :: ir_function where
  "sample_caller =
     \<lparr>f_id = FunctionId 0, f_name = ''f'', f_params = [], f_ret_ty = Bool,
      f_blocks =
        [\<lparr>bb_id = BlockId 0, bb_name = ''a'',
          bb_instructions =
            [Const (ValueId 1) Bool (ConstBool True), Call Whale (Some (ValueId 2)) Bool (Direct (FunctionId 1)) [ValueId 1]],
          bb_terminator = Some (Ret Bool (Some (ValueId 2)))\<rparr>],
      f_entry = BlockId 0, f_value_types = [(ValueId 1, Bool), (ValueId 2, Bool)]\<rparr>"

definition sample_module :: ir_module where
  "sample_module =
     (module_new (target_name X86_64WhaleLinux) (target_data_layout X86_64WhaleLinux))
       \<lparr>m_functions := [sample_caller, sample_callee],
        m_declarations :=
          [\<lparr>d_id = FunctionId 0, d_name = ''f'', d_signature = FnSig [] Bool Whale False, d_linkage = LinkInternal, d_link_name = None\<rparr>,
           \<lparr>d_id = FunctionId 1, d_name = ''g'', d_signature = FnSig [Bool] Bool Whale False, d_linkage = LinkInternal, d_link_name = None\<rparr>]\<rparr>"

definition sample_host :: host where
  "sample_host = \<lparr>host_reserve = (\<lambda>_. True), host_grow = (\<lambda>_ n. n)\<rparr>"

definition sample_options :: interpreter_options where
  "sample_options = interpreter_options_default"

lemmas sample_program_defs = sample_module_def module_new_def sample_caller_def sample_callee_def

lemmas budget_eval = check_module_def validate_sources_def budget_new_def budget_nodes_def validate_limits_def
  ir_limits_default_def max_ir_nesting_def budget_function_def budget_node_ty_def budget_ty_def ty_children_def budget_signature_def
  budget_block_def budget_instruction_def budget_terminator_def usize_sub_def ok_or_def

lemmas signature_eval = validate_signature_with_limits_def signature_types_def signature_type_def budget_eval

lemmas cfg_run = cfg_verify_def cfg_new_def find_edges_def block_indices_def block_edges_def add_edge_def charge_def
  push_at_def block_ranks_def idom_loop.simps update_idom_def meet_predecessor_def intersect.simps add_child_def
  check_ssa_block_def check_ssa_instruction_def available_def ssa_definitions_def block_definitions_def dominates_def

lemmas function_eval = verify_function_def indexed_new_def insert_block_def insert_param_def all_instructions_def
  insert_result_def verify_block_def verify_block_instruction_def check_uses_def verify_terminator_def verify_return_def
  defined_use_def typed_def Let_def verify_value_types_def insert_value_type_def check_value_type_def function_definitions_def
  List.map_filter_def valid_constant_def verify_const_locals_def evaluate_definitions_def verify_instruction_def
  verify_global_address_def verify_call_instruction_def verify_operation_def

lemma sample_budget: "check_module sample_module ir_limits_default = Inr ()"
  by (simp add: sample_program_defs budget_eval cong del: rbind_weak_cong)

lemma sample_declarations: "verify_declarations sample_module ir_limits_default = Inr ()"
  by (simp add: verify_declarations_def verify_body_types_def sample_program_defs verify_declaration_def
    validate_decl_with_limits_def link_name_ok_def verify_body_def find_declaration_def signature_eval cong del: rbind_weak_cong)

lemma sample_caller_verified:
  "verify_function sample_module ir_limits_default Map.empty Map.empty (indexed_new sample_caller)
     \<lparr>an_limit = 16777216, an_work = 0, an_queries = 0\<rparr> = Inr \<lparr>an_limit = 16777216, an_work = 8, an_queries = 0\<rparr>"
  by (simp add: sample_program_defs function_eval cfg_run check_call_def call_signature_def find_declaration_def check_argument_def signature_eval
     cong del: rbind_weak_cong)

lemma sample_callee_verified:
  "\<exists>b. verify_function sample_module ir_limits_default Map.empty Map.empty (indexed_new sample_callee)
     \<lparr>an_limit = 16777216, an_work = 8, an_queries = 0\<rparr> = Inr b"
  by (simp add: sample_program_defs function_eval cfg_run ok_or_def cong del: rbind_weak_cong)

lemma sample_target: "validate_spec (target_specification X86_64WhaleLinux) = Inr ()"
  by (rule target_specification_valid)

lemma sample_verified: "verify_module_with_limits sample_module ir_limits_default = Inr ()"
proof -
  have t: "m_target sample_module = ts_id (target_specification X86_64WhaleLinux)"
    "m_datalayout sample_module = sl_data (ts_storage (target_specification X86_64WhaleLinux))"
    "lookup_target (m_target sample_module) = Inr X86_64WhaleLinux"
    "validate_layout X86_64WhaleLinux (m_datalayout sample_module) = Inr ()"
    by (simp_all add: sample_module_def module_new_def target_specification_def lookup_target_def supported_targets_def
        validate_layout_def ok_or_def)
  have f: "m_functions sample_module = [sample_caller, sample_callee]" "m_globals sample_module = []"
    "m_global_storage sample_module = []" "validate_sources (m_sources sample_module) sample_module = Inr ()"
    by (simp_all add: sample_module_def module_new_def validate_sources_def)
  have ix: "ix_function (indexed_new g) = g" for g by (simp add: indexed_new_def)
  have n: "f_name sample_caller = ''f''" "f_name sample_callee = ''g''" by (simp_all add: sample_caller_def sample_callee_def)
  have st: "foldR (\<lambda>ins _. verify_storage spec limits g ins) (all_instructions sample_caller) () = Inr ()"
    "foldR (\<lambda>ins _. verify_storage spec limits g ins) (all_instructions sample_callee) () = Inr ()" for spec limits g
    by (simp_all add: sample_caller_def sample_callee_def all_instructions_def verify_storage_def storage_type_def)
  have c: "verify_const_globals sample_module ir_limits_default = Inr Map.empty"
    by (simp add: verify_const_globals_def f evaluate_definitions_def)
  have w: "max_analysis_work ir_limits_default = 16777216" by (simp add: ir_limits_default_def)
  obtain b where b: "verify_function sample_module ir_limits_default Map.empty Map.empty (indexed_new sample_callee)
     \<lparr>an_limit = 16777216, an_work = 8, an_queries = 0\<rparr> = Inr b" using sample_callee_verified by blast
  show ?thesis
    by (simp add: verify_module_with_limits_def verify_module_with_stats_def t(1,2) t(3,4) [unfolded t(1,2)] verify_module_for_target_def sample_budget f Let_def
        target_specification_valid st ix n c w sample_declarations insert_function_name_def sample_caller_verified b cong del: rbind_weak_cong)
qed

definition sample_context :: interp_context where
  "sample_context =
     (let pr = (\<lambda>f. \<lparr>pr_fun = f, pr_capacity = value_capacity f, pr_blocks = block_table f, pr_sizes = Map.empty,
                      pr_geps = Map.empty, pr_signatures = Map.empty\<rparr>) in
      \<lparr>ic_module = sample_module, ic_address = 0, ic_options = sample_options, ic_host = sample_host,
       ic_prepared = [FunctionId 0 \<mapsto> pr sample_caller, FunctionId 1 \<mapsto> pr sample_callee],
       ic_signatures = map_option d_signature \<circ> declaration_table sample_module, ic_globals = Map.empty\<rparr>)"

definition sample_start :: interp_state where
  "sample_start =
     \<lparr>is_frames = [\<lparr>fr_function = FunctionId 0, fr_values = Map.empty, fr_current = BlockId 0, fr_predecessor = None,
        fr_instruction = 0, fr_allocation_start = 0, fr_return_destination = None, fr_call_site = None\<rparr>],
      is_memory = memory_new 0 memory_limits_default sample_host, is_created = 1, is_live = 2, is_steps = 0\<rparr>"

lemma sample_prepared:
  "prepare_run sample_module (FunctionId 0) [] = Inr (ic_prepared sample_context)"
  by (simp add: prepare_run_def prepare_loop.simps prepare_function_def sample_context_def sample_program_defs function_table_def declaration_table_def
      or_epanic_def ok_or_def callable_signature_def call_value_type_def scalar_type_def
      placed_instructions_def prepare_instruction_def supported_def prepare_callee_def push_callee_def Let_def cong del: rbind_weak_cong)

lemma sample_prepare_state:
  "prepare_state 0 0 sample_host sample_module (FunctionId 0) (Scalars []) sample_options = Inr (sample_context, sample_start)"
proof -
  have o: "opt_ir_limits sample_options = ir_limits_default" "opt_memory_limits sample_options = memory_limits_default"
    "max_call_depth sample_options = 256" "max_frames sample_options = 100000" "max_live_values sample_options = 1000000"
    by (simp_all add: sample_options_def interpreter_options_default_def)
  have f: "function_table sample_module (FunctionId 0) = Some sample_caller" "m_global_storage sample_module = []"
    by (simp_all add: function_table_def sample_program_defs)
  have i: "check_inputs 0 sample_host sample_module (FunctionId 0) sample_caller (Scalars []) = Inr []"
    by (simp add: check_inputs_def sample_caller_def scalar_type_def sample_host_def)
  have v: "value_capacity sample_caller = 2" by (simp add: value_capacity_def sample_caller_def all_instructions_def)
  have s: "make_frame_values h sample_caller (Inr []) n site = (if host_reserve h n then Inr Map.empty else Inl (ECallLimit site CallHostAllocation n))"
    "f_entry sample_caller = BlockId 0" for h n site
    by (simp_all add: make_frame_values_def sample_caller_def)
  have p: "ic_prepared sample_context (FunctionId 0) = Some \<lparr>pr_fun = sample_caller, pr_capacity = value_capacity sample_caller,
      pr_blocks = block_table sample_caller, pr_sizes = Map.empty, pr_geps = Map.empty, pr_signatures = Map.empty\<rparr>"
    by (simp add: sample_context_def)
  have m: "m_allocations (memory_new 0 memory_limits_default sample_host) = []" by (simp add: memory_new_def)
  have r: "host_reserve sample_host n" for n by (simp add: sample_host_def)
  have c: "\<lparr>ic_module = sample_module, ic_address = 0, ic_options = sample_options, ic_host = sample_host,
       ic_prepared = ic_prepared sample_context, ic_signatures = map_option d_signature \<circ> declaration_table sample_module,
       ic_globals = Map.empty\<rparr> = sample_context"
    by (simp add: sample_context_def)
  have x: "ic_options sample_context = sample_options" "ic_host sample_context = sample_host" by (simp_all add: sample_context_def)
  show ?thesis
    by (simp add: prepare_state_def o sample_verified f i sample_prepared c initial_state_def x p v s m r Let_def or_epanic_def sample_start_def
        cong del: rbind_weak_cong)
qed

definition sample_result :: run_result where
  "sample_result =
     \<lparr>res_value = Some \<lparr>rv_ty = Bool, rv_value = VScalar (ConstBool True), rv_module = Some 0\<rparr>, res_steps = 4\<rparr>"

lemmas step_eval = interp_step_def or_epanic_def ok_or_def enter_block_def step_instruction_def charge_step_def Let_def
  exec_instruction_def enter_call_def call_target_def make_frame_values_def val_def step_terminator_def step_return_def
  optional_value_def mem_retire_from_def mem_charge_def checked_add_def memory_limits_default_def memory_new_def usize_sub_def return_value_def sample_options_def interpreter_options_default_def
  sample_host_def site_at_def

definition sample_prep :: "ir_function \<Rightarrow> prepared" where
  "sample_prep f = \<lparr>pr_fun = f, pr_capacity = value_capacity f, pr_blocks = block_table f, pr_sizes = Map.empty,
                    pr_geps = Map.empty, pr_signatures = Map.empty\<rparr>"

lemma sample_context_prepared:
  "ic_prepared sample_context = [FunctionId 0 \<mapsto> sample_prep sample_caller, FunctionId 1 \<mapsto> sample_prep sample_callee]"
  "ic_options sample_context = sample_options" "ic_host sample_context = sample_host" "ic_address sample_context = 0"
  by (simp_all add: sample_context_def sample_prep_def)

lemma sample_prep_simps:
  "pr_fun (sample_prep f) = f" "pr_capacity (sample_prep f) = value_capacity f" "pr_blocks (sample_prep f) = block_table f"
  by (simp_all add: sample_prep_def)

lemma sample_functions:
  "value_capacity sample_caller = 2" "value_capacity sample_callee = 1"
  "f_entry sample_caller = BlockId 0" "f_entry sample_callee = BlockId 0" "f_ret_ty sample_caller = Bool"
  "map p_id (f_params sample_callee) = [ValueId 1]"
  "block_table sample_caller = [BlockId 0 \<mapsto> \<lparr>bb_id = BlockId 0, bb_name = ''a'',
     bb_instructions = [Const (ValueId 1) Bool (ConstBool True), Call Whale (Some (ValueId 2)) Bool (Direct (FunctionId 1)) [ValueId 1]],
     bb_terminator = Some (Ret Bool (Some (ValueId 2)))\<rparr>]"
  "block_table sample_callee = [BlockId 0 \<mapsto> \<lparr>bb_id = BlockId 0, bb_name = ''a'', bb_instructions = [],
     bb_terminator = Some (Ret Bool (Some (ValueId 1)))\<rparr>]"
  by (simp_all add: value_capacity_def all_instructions_def block_table_def sample_caller_def sample_callee_def)

lemmas sample_eval = step_eval sample_context_prepared sample_prep_simps sample_functions

lemma sample_loop: "interp_loop sample_context sample_start = Inr sample_result"
  by (simp add: interp_loop.simps [of sample_context] sample_start_def sample_result_def sample_eval cong del: rbind_weak_cong)

lemma sample_run: "run 0 0 sample_host sample_module (FunctionId 0) (Scalars []) sample_options = Inr sample_result"
  by (simp add: run_def run_inner_def sample_prepare_state sample_loop)

end
