(* ===== verification/IrInterpreterTheorems.thy ===== *)
theory IrInterpreterTheorems
  imports IrSample
begin

text \<open>
  Properties of the interpreter loop that hold for every module: it ends within the step
  budget, a larger budget changes nothing but the point where it gives up, and every state it
  reaches keeps the budgets for frames and live values.
\<close>

subsection \<open>Reachable states\<close>

inductive interp_turn :: "interp_context \<Rightarrow> interp_state \<Rightarrow> interp_state \<Rightarrow> bool" for c where
  turn: "interp_step c s = Inr (Next s') \<Longrightarrow> interp_turn c s s'"

inductive_simps interp_turn_iff: "interp_turn c s s'"

inductive interp_reachable :: "interp_context \<Rightarrow> interp_state \<Rightarrow> interp_state \<Rightarrow> bool" for c s0 where
  start: "interp_reachable c s0 s0"
| more: "interp_reachable c s0 s \<Longrightarrow> interp_turn c s s' \<Longrightarrow> interp_reachable c s0 s'"

lemma turns_charge: "(interp_turn c ^^ k) s s' \<Longrightarrow> is_steps s + k \<le> is_steps s'"
proof (induction k arbitrary: s')
  case (Suc k)
  then obtain s1 where "is_steps s + k \<le> is_steps s1" "interp_turn c s1 s'" by auto
  with interp_step_steps [of c s1 s'] show ?case by (auto simp: interp_turn_iff)
qed simp

lemma turns_bounded: "(interp_turn c ^^ k) s s' \<Longrightarrow> k \<le> max_steps (ic_options c) - is_steps s"
proof (cases k)
  case (Suc j)
  assume t: "(interp_turn c ^^ k) s s'"
  then obtain s1 where "interp_turn c s1 s'" unfolding Suc by auto
  then have "is_steps s' \<le> max_steps (ic_options c)" using interp_step_steps by (auto simp: interp_turn_iff)
  with turns_charge [OF t] show ?thesis by simp
qed simp

text \<open>What a turn that does not go on makes of the run.\<close>

definition final_result :: "interp_context \<Rightarrow> interp_state \<Rightarrow> ((interpreter_error \<times> frame list) + run_result) option" where
  "final_result c s =
     (case interp_step c s of
        Inl e \<Rightarrow> Some (Inl (e, is_frames s))
      | Inr (Done r) \<Rightarrow> Some (Inr r)
      | Inr (Next _) \<Rightarrow> None)"

lemma interp_loop_turns: "\<exists>k s'. (interp_turn c ^^ k) s s' \<and> final_result c s' = Some (interp_loop c s)"
proof (induction c s rule: interp_loop.induct)
  case (1 c s)
  show ?case
  proof (cases "\<exists>s1. interp_step c s = Inr (Next s1)")
    case True
    then obtain s1 where s1: "interp_step c s = Inr (Next s1)" ..
    from 1 [OF s1 refl] obtain k s' where k: "(interp_turn c ^^ k) s1 s'" "final_result c s' = Some (interp_loop c s1)" by blast
    have "(interp_turn c ^^ Suc k) s s'" using s1 k(1) by (intro relpowp_Suc_I2 [OF _ k(1)]) (simp add: interp_turn_iff)
    moreover have "interp_loop c s = interp_loop c s1" using s1 by (simp add: interp_loop.simps [of c s])
    ultimately show ?thesis using k(2) by (intro exI [of _ "Suc k"] exI [of _ s']) simp
  next
    case False
    then have "final_result c s = Some (interp_loop c s)"
      by (auto simp: final_result_def interp_loop.simps [of c s] split: sum.splits step_result.splits)
    then show ?thesis by (intro exI [of _ 0] exI [of _ s]) simp
  qed
qed

text \<open>C36. The interpreter always ends: from any state the loop takes at most as many turns as
  the step budget has left, reaches a state that no turn leaves, and its outcome is what that
  last state makes of the run, an error or the result of the entry function.\<close>

theorem interpreter_terminates:
  "\<exists>k s'. (interp_turn c ^^ k) s s' \<and> k \<le> max_steps (ic_options c) - is_steps s
     \<and> (\<nexists>s''. interp_turn c s' s'') \<and> final_result c s' = Some (interp_loop c s)"
proof -
  obtain k s' where k: "(interp_turn c ^^ k) s s'" "final_result c s' = Some (interp_loop c s)"
    using interp_loop_turns by blast
  then have "\<not> interp_turn c s' b" for b by (auto simp: interp_turn_iff final_result_def)
  with k turns_bounded [OF k(1)] show ?thesis by blast
qed

subsection \<open>The stack of frames\<close>

definition same_frame :: "frame \<Rightarrow> frame \<Rightarrow> bool" where
  "same_frame fr fr' \<longleftrightarrow>
     fr_function fr' = fr_function fr \<and> fr_call_site fr' = fr_call_site fr
     \<and> fr_allocation_start fr' = fr_allocation_start fr \<and> fr_return_destination fr' = fr_return_destination fr"

lemma same_frame_trans: "same_frame a b \<Longrightarrow> same_frame b c \<Longrightarrow> same_frame a c"
  by (simp add: same_frame_def)

definition pushed :: "interp_context \<Rightarrow> interp_state \<Rightarrow> interp_state \<Rightarrow> bool" where
  "pushed c s s' \<longleftrightarrow>
     (\<exists>fr fr' rest child pr. is_frames s = fr # rest \<and> is_frames s' = child # fr' # rest \<and> same_frame fr fr'
        \<and> fr_call_site child \<noteq> None \<and> ic_prepared c (fr_function child) = Some pr
        \<and> is_created s' = is_created s + 1 \<and> is_live s' = is_live s + pr_capacity pr
        \<and> is_live s' \<le> max_live_values (ic_options c) \<and> length (is_frames s) < max_call_depth (ic_options c)
        \<and> is_created s < max_frames (ic_options c))"

definition replaced :: "interp_context \<Rightarrow> interp_state \<Rightarrow> interp_state \<Rightarrow> bool" where
  "replaced c s s' \<longleftrightarrow>
     (\<exists>fr fr' rest. is_frames s = fr # rest \<and> is_frames s' = fr' # rest \<and> same_frame fr fr'
        \<and> is_created s' = is_created s \<and> is_live s' = is_live s)"

definition popped :: "interp_context \<Rightarrow> interp_state \<Rightarrow> interp_state \<Rightarrow> bool" where
  "popped c s s' \<longleftrightarrow>
     (\<exists>fr parent parent' others pr. is_frames s = fr # parent # others \<and> is_frames s' = parent' # others
        \<and> same_frame parent parent' \<and> ic_prepared c (fr_function fr) = Some pr
        \<and> usize_sub (is_live s) (pr_capacity pr) = Some (is_live s') \<and> is_created s' = is_created s)"

lemma enter_block_same: "enter_block c block fr n = Inr (fr', n') \<Longrightarrow> same_frame fr fr'"
  by (auto simp: enter_block_def same_frame_def Let_def rbind_eq_Inr split: if_splits)

lemma step_instruction_frames:
  assumes "step_instruction c pr block s fr rest n = Inr s'" "is_frames s = fr0 # rest" "same_frame fr0 fr"
  shows "pushed c s s' \<or> replaced c s s'"
  using assms(1)
proof (cases rule: step_instructionE)
  case (call conv dst ret callee args)
  then obtain target child vs where
    e: "max_live_values (ic_options c) \<ge> is_live s + pr_capacity child" "length (is_frames s) < max_call_depth (ic_options c)"
      "is_created s < max_frames (ic_options c)" "ic_prepared c target = Some child"
    and s': "s' = s\<lparr>is_frames :=
       \<lparr>fr_function = target, fr_values = vs, fr_current = f_entry (pr_fun child), fr_predecessor = None, fr_instruction = 0,
        fr_allocation_start = length (m_allocations (is_memory s)), fr_return_destination = dst,
        fr_call_site = Some (site_at fr (fr_instruction fr) (destination (bb_instructions block ! fr_instruction fr)))\<rparr>
         # fr\<lparr>fr_instruction := fr_instruction fr + 1\<rparr> # rest,
       is_created := is_created s + 1, is_live := is_live s + pr_capacity child, is_steps := n + 1\<rparr>"
    by (auto simp: enter_call_def Let_def rbind_eq_Inr or_epanic_Inr not_le not_less split: if_splits)
  have "same_frame fr0 (fr\<lparr>fr_instruction := fr_instruction fr + 1\<rparr>)" using assms(3) by (simp add: same_frame_def)
  then have "pushed c s s'" unfolding pushed_def using e s' assms(2) by (simp only:) force
  then show ?thesis ..
next
  case (exec r)
  then obtain vs m where "s' = s\<lparr>is_frames := fr\<lparr>fr_instruction := fr_instruction fr + 1, fr_values := vs\<rparr> # rest, is_memory := m, is_steps := n + 1\<rparr>"
  proof (cases r)
    case (Proceed m)
    with exec(4) have "s' = s\<lparr>is_frames := fr\<lparr>fr_instruction := fr_instruction fr + 1, fr_values := fr_values fr\<rparr> # rest,
      is_memory := m, is_steps := n + 1\<rparr>"
      by (simp add: after_instruction_def)
    then show ?thesis by (rule that)
  qed (auto simp: after_instruction_def rbind_eq_Inr intro: that)
  then have "replaced c s s'" using assms(2,3) unfolding replaced_def same_frame_def by simp
  then show ?thesis ..
qed

lemma step_terminator_frames:
  assumes "step_terminator c pr block s fr rest n = Inr (Next s')" "is_frames s = fr0 # rest" "same_frame fr0 fr"
    "ic_prepared c (fr_function fr0) = Some pr"
  shows "replaced c s s' \<or> popped c s s'"
  using assms(1)
proof (cases rule: step_terminatorE)
  case (goto t other)
  with assms(2,3) have "replaced c s s'" unfolding replaced_def same_frame_def by simp
  then show ?thesis ..
next
  case (return ty v)
  then obtain parent others m live vs where p: "rest = parent # others" "usize_sub (is_live s) (pr_capacity pr) = Some live"
    "s' = s\<lparr>is_frames := parent\<lparr>fr_values := vs\<rparr> # others, is_memory := m, is_live := live, is_steps := n + 1\<rparr>"
  proof (cases rest)
    case (Cons parent others)
    with return(3) obtain w m live parent' where r: "usize_sub (is_live s) (pr_capacity pr) = Some live"
      "(case fr_return_destination fr of None \<Rightarrow> Inr parent | Some d \<Rightarrow> rbind (or_epanic w) (\<lambda>v. Inr (parent\<lparr>fr_values := (fr_values parent)(d \<mapsto> v)\<rparr>))) = Inr parent'"
      "s' = s\<lparr>is_frames := parent' # others, is_memory := m, is_live := live, is_steps := n + 1\<rparr>"
      by (auto simp: step_return_def rbind_eq_Inr or_epanic_Inr)
    then obtain vs where "parent' = parent\<lparr>fr_values := vs\<rparr>"
      by (cases "fr_return_destination fr") (auto simp: rbind_eq_Inr intro: that [of "fr_values parent"])
    with Cons r show ?thesis by (intro that) simp_all
  qed (auto simp: step_return_def rbind_eq_Inr)
  have "same_frame parent (parent\<lparr>fr_values := vs\<rparr>)" by (simp add: same_frame_def)
  then have "popped c s s'" unfolding popped_def using p assms(2,4) by (simp only:) force
  then show ?thesis ..
qed

lemma interp_turn_frames:
  assumes "interp_turn c s s'"
  shows "pushed c s s' \<or> replaced c s s' \<or> popped c s s'"
  using assms [unfolded interp_turn_iff]
proof (cases rule: interp_stepE)
  case (ins fr rest pr block fr' n s1)
  with step_instruction_frames [OF ins(6,1)] enter_block_same [OF ins(4)] show ?thesis by auto
next
  case (terminator fr rest pr block fr' n)
  with step_terminator_frames [OF terminator(6,1)] enter_block_same [OF terminator(4)] show ?thesis by auto
qed

definition frame_capacity :: "interp_context \<Rightarrow> frame \<Rightarrow> usize" where
  "frame_capacity c fr = (case ic_prepared c (fr_function fr) of Some pr \<Rightarrow> pr_capacity pr | None \<Rightarrow> 0)"

definition within_budgets :: "interp_context \<Rightarrow> interp_state \<Rightarrow> bool" where
  "within_budgets c s \<longleftrightarrow>
     is_frames s \<noteq> [] \<and> length (is_frames s) \<le> max_call_depth (ic_options c)
     \<and> length (is_frames s) \<le> is_created s \<and> is_created s \<le> max_frames (ic_options c)
     \<and> is_live s = (\<Sum>fr\<leftarrow>is_frames s. frame_capacity c fr) \<and> is_live s \<le> max_live_values (ic_options c)
     \<and> is_steps s \<le> max_steps (ic_options c)
     \<and> (\<forall>fr\<in>set (butlast (is_frames s)). fr_call_site fr \<noteq> None)"

lemma within_budgets_turn:
  assumes "within_budgets c s" "interp_turn c s s'"
  shows "within_budgets c s'"
proof -
  have steps: "is_steps s' \<le> max_steps (ic_options c)" using interp_step_steps assms(2) by (auto simp: interp_turn_iff)
  have same: "frame_capacity c fr' = frame_capacity c fr \<and> fr_call_site fr' = fr_call_site fr" if "same_frame fr fr'" for fr fr'
    using that by (simp add: same_frame_def frame_capacity_def)
  from interp_turn_frames [OF assms(2)] show ?thesis
  proof (elim disjE)
    assume "pushed c s s'"
    then show ?thesis using assms(1) steps same unfolding pushed_def within_budgets_def
      by (auto simp: frame_capacity_def split: if_splits)
  next
    assume "replaced c s s'"
    then show ?thesis using assms(1) steps same unfolding replaced_def within_budgets_def by (auto split: if_splits)
  next
    assume "popped c s s'"
    then show ?thesis using assms(1) steps same unfolding popped_def within_budgets_def
      by (auto simp: frame_capacity_def [of _ "_ :: frame"] usize_sub_eq_Some split: if_splits)
  qed
qed

lemma prepare_stateE:
  assumes "prepare_state addr arena h m fid args opts = Inr (c, s)"
  obtains f inputs prepared mem globals where "verify_module_with_limits m (opt_ir_limits opts) = Inr ()"
    "function_table m fid = Some f" "check_inputs addr h m fid f args = Inr inputs" "prepare_run m fid inputs = Inr prepared"
    "foldR (\<lambda>g _. check_global g) (m_global_storage m) () = Inr ()"
    "foldR (init_global opts) (m_global_storage m) (memory_new arena (opt_memory_limits opts) h, Map.empty) = Inr (mem, globals)"
    "c = \<lparr>ic_module = m, ic_address = addr, ic_options = opts, ic_host = h, ic_prepared = prepared,
          ic_signatures = map_option d_signature \<circ> declaration_table m, ic_globals = globals\<rparr>"
    "initial_state c fid f inputs mem = Inr s"
  using assms unfolding prepare_state_def Let_def
  by (auto simp: rbind_eq_Inr map_err_eq_Inr ok_or_eq_Inr)

lemma initial_stateE:
  assumes "initial_state c fid f inputs m = Inr s"
  obtains pr vs where "ic_prepared c fid = Some pr" "0 < max_call_depth (ic_options c)" "0 < max_frames (ic_options c)"
    "pr_capacity pr \<le> max_live_values (ic_options c)"
    "make_frame_values (ic_host c) f (Inr inputs) (pr_capacity pr)
       \<lparr>site_function = fid, site_block = f_entry f, site_instruction = 0, site_value = None\<rparr> = Inr vs"
    "s = \<lparr>is_frames = [\<lparr>fr_function = fid, fr_values = vs, fr_current = f_entry f, fr_predecessor = None,
                 fr_instruction = 0, fr_allocation_start = length (m_allocations m), fr_return_destination = None,
                 fr_call_site = None\<rparr>],
               is_memory = m, is_created = 1, is_live = pr_capacity pr, is_steps = 0\<rparr>"
  using assms unfolding initial_state_def Let_def
  by (auto simp: rbind_eq_Inr or_epanic_Inr not_less split: if_splits)

lemma prepared_within_budgets:
  assumes "prepare_state addr arena h m fid args opts = Inr (c, s)"
  shows "ic_options c = opts \<and> within_budgets c s"
  using assms
proof (rule prepare_stateE)
  fix f inputs prepared mem globals
  assume c: "c = \<lparr>ic_module = m, ic_address = addr, ic_options = opts, ic_host = h, ic_prepared = prepared,
          ic_signatures = map_option d_signature \<circ> declaration_table m, ic_globals = globals\<rparr>"
    and s: "initial_state c fid f inputs mem = Inr s"
  from s show ?thesis by (rule initial_stateE) (simp add: c within_budgets_def frame_capacity_def)
qed

text \<open>C37. The interpreter keeps its budgets: in every state that a run reaches, the frames on the
  stack are at most the call depth allowed, the frames created so far are at most the number
  allowed, the reserved value slots are exactly those of the functions on the stack and within
  their limit, and the steps charged are within theirs.\<close>

theorem interpreter_respects_budgets:
  assumes "prepare_state addr arena h m fid args opts = Inr (c, s0)" "interp_reachable c s0 s"
  shows "is_frames s \<noteq> [] \<and> length (is_frames s) \<le> max_call_depth opts
    \<and> length (is_frames s) \<le> is_created s \<and> is_created s \<le> max_frames opts
    \<and> is_live s = (\<Sum>fr\<leftarrow>is_frames s. frame_capacity c fr) \<and> is_live s \<le> max_live_values opts
    \<and> is_steps s \<le> max_steps opts"
proof -
  have "within_budgets c s" using assms(2)
    by induction (use prepared_within_budgets [OF assms(1)] within_budgets_turn in blast)+
  with prepared_within_budgets [OF assms(1)] show ?thesis by (simp add: within_budgets_def)
qed

theorem interpreter_respects_budgets_witness:
  "length (is_frames sample_start) \<le> 256 \<and> is_live sample_start \<le> 1000000"
  using interpreter_respects_budgets [OF sample_prepare_state interp_reachable.start]
  by (simp add: sample_options_def interpreter_options_default_def)

subsection \<open>Larger step budgets\<close>

definition with_steps :: "nat \<Rightarrow> interp_context \<Rightarrow> interp_context" where
  "with_steps n c = c\<lparr>ic_options := (ic_options c)\<lparr>max_steps := n\<rparr>\<rparr>"

lemma with_steps_simps [simp]:
  "ic_module (with_steps n c) = ic_module c" "ic_address (with_steps n c) = ic_address c" "ic_host (with_steps n c) = ic_host c"
  "ic_prepared (with_steps n c) = ic_prepared c" "ic_signatures (with_steps n c) = ic_signatures c"
  "ic_globals (with_steps n c) = ic_globals c" "max_steps (ic_options (with_steps n c)) = n"
  "max_call_depth (ic_options (with_steps n c)) = max_call_depth (ic_options c)"
  "max_frames (ic_options (with_steps n c)) = max_frames (ic_options c)"
  "max_live_values (ic_options (with_steps n c)) = max_live_values (ic_options c)"
  by (simp_all add: with_steps_def)

text \<open>The second result is the first, unless the first is a step limit.\<close>

definition cut_short :: "interpreter_error + 'a \<Rightarrow> interpreter_error + 'a \<Rightarrow> bool" where
  "cut_short r r' \<longleftrightarrow> r' = r \<or> (\<exists>site n. r = Inl (EStepLimit site n))"

lemma cut_short_refl [simp]: "cut_short r r"
  by (simp add: cut_short_def)

lemma cut_short_rbind:
  assumes "cut_short r r'" "\<And>x. cut_short (f x) (f' x)"
  shows "cut_short (rbind r f) (rbind r' f')"
  using assms by (cases r) (auto simp: cut_short_def)

lemma charge_step_cut: "max_steps (ic_options c) \<le> n \<Longrightarrow> cut_short (charge_step c k site) (charge_step (with_steps n c) k site)"
  by (auto simp: charge_step_def cut_short_def)

lemma foldR_cut:
  assumes "\<And>x s. cut_short (f x s) (f' x s)"
  shows "cut_short (foldR f xs s) (foldR f' xs s)"
  using assms by (induction xs arbitrary: s) (auto intro: cut_short_rbind)

lemma read_phi_cut: "max_steps (ic_options c) \<le> n \<Longrightarrow> cut_short (read_phi c fr x s) (read_phi (with_steps n c) fr x s)"
  by (cases x; cases s; cases "snd x") (auto simp: read_phi_def intro!: cut_short_rbind charge_step_cut)

lemma enter_block_cut: "max_steps (ic_options c) \<le> n \<Longrightarrow> cut_short (enter_block c block fr k) (enter_block (with_steps n c) block fr k)"
  by (auto simp: enter_block_def Let_def intro!: cut_short_rbind foldR_cut read_phi_cut)

lemma exec_instruction_with_steps:
  "exec_instruction (with_steps n c) pr fr site k pos ins m = exec_instruction c pr fr site k pos ins m"
  by (cases ins) (simp_all add: exec_instruction_def)

lemma enter_call_with_steps: "enter_call (with_steps n c) s fr rest site k dst callee args = enter_call c s fr rest site k dst callee args"
  unfolding enter_call_def call_target_def Let_def with_steps_simps ..

lemma step_instruction_cut:
  "max_steps (ic_options c) \<le> n \<Longrightarrow> cut_short (step_instruction c pr block s fr rest k) (step_instruction (with_steps n c) pr block s fr rest k)"
  unfolding step_instruction_def Let_def exec_instruction_with_steps enter_call_with_steps
  by (intro cut_short_rbind charge_step_cut cut_short_refl)

lemma step_return_with_steps: "step_return (with_steps n c) pr s fr rest site k v = step_return c pr s fr rest site k v"
  unfolding step_return_def return_value_def with_steps_simps ..

lemma step_terminator_cut:
  "max_steps (ic_options c) \<le> n \<Longrightarrow> cut_short (step_terminator c pr block s fr rest k) (step_terminator (with_steps n c) pr block s fr rest k)"
  unfolding step_terminator_def Let_def step_return_with_steps
  by (intro cut_short_rbind charge_step_cut cut_short_refl)

lemma interp_step_cut: "max_steps (ic_options c) \<le> n \<Longrightarrow> cut_short (interp_step c s) (interp_step (with_steps n c) s)"
  unfolding interp_step_def with_steps_simps
  by (cases "is_frames s") (auto intro!: cut_short_rbind enter_block_cut step_instruction_cut step_terminator_cut)

lemma interp_loop_cut:
  "max_steps (ic_options c) \<le> n \<Longrightarrow> interp_loop (with_steps n c) s = interp_loop c s \<or> (\<exists>site l fs. interp_loop c s = Inl (EStepLimit site l, fs))"
proof (induction c s rule: interp_loop.induct)
  case (1 c s)
  note cut = interp_step_cut [OF "1.prems", of s]
  show ?case
  proof (cases "interp_step c s")
    case (Inl e)
    with cut show ?thesis by (auto simp: cut_short_def interp_loop.simps [of c s] interp_loop.simps [of "with_steps n c" s])
  next
    case (Inr r)
    with cut "1.IH" [OF Inr] "1.prems" show ?thesis
      by (cases r) (auto simp: cut_short_def interp_loop.simps [of c s] interp_loop.simps [of "with_steps n c" s])
  qed
qed

lemma initial_state_with_steps: "initial_state (with_steps n c) fid f inputs mem = initial_state c fid f inputs mem"
  unfolding initial_state_def Let_def with_steps_simps ..

lemma prepare_state_more:
  "prepare_state addr arena h m fid args (opts\<lparr>max_steps := n\<rparr>)
     = rbind (prepare_state addr arena h m fid args opts) (\<lambda>(c, s). Inr (with_steps n c, s))"
proof -
  have g: "init_global (opts\<lparr>max_steps := n\<rparr>) = init_global opts" by (simp add: init_global_def fun_eq_iff)
  have r: "\<lparr>ic_module = m, ic_address = addr, ic_options = opts\<lparr>max_steps := n\<rparr>, ic_host = h, ic_prepared = prepared,
      ic_signatures = sigs, ic_globals = globals\<rparr> = with_steps n \<lparr>ic_module = m, ic_address = addr, ic_options = opts, ic_host = h,
      ic_prepared = prepared, ic_signatures = sigs, ic_globals = globals\<rparr>" for prepared sigs globals
    by (simp add: with_steps_def)
  have o: "opt_ir_limits (opts\<lparr>max_steps := n\<rparr>) = opt_ir_limits opts" "opt_memory_limits (opts\<lparr>max_steps := n\<rparr>) = opt_memory_limits opts"
    by simp_all
  show ?thesis
    unfolding prepare_state_def Let_def g r o initial_state_with_steps
    by (simp add: rbind_assoc split_def cong: rbind_cong)
qed

lemma trace_calls:
  assumes "\<forall>fr\<in>set frames. fr_call_site fr \<noteq> None"
  shows "\<exists>r. foldR (trace_call h m) frames r0 = Inr r"
  using assms
proof (induction frames arbitrary: r0)
  case (Cons fr frames)
  obtain cs b where r0: "r0 = (cs, b)" by (cases r0)
  from Cons.prems obtain site where "fr_call_site fr = Some site" by auto
  then obtain r1 where "trace_call h m fr r0 = Inr r1"
    by (cases "execution_source h m site b") (simp add: trace_call_def r0 or_epanic_def)
  with Cons show ?case by simp
qed simp

lemma runtime_failure_root:
  assumes "\<forall>fr\<in>set (butlast frames). fr_call_site fr \<noteq> None"
  shows "root_cause (runtime_failure h m cause frames limit) = root_cause cause"
proof (cases "runtime_site cause")
  case (Some site)
  obtain original b where o: "execution_source h m site source_budget_new = (original, b)" by (cases "execution_source h m site source_budget_new")
  have "\<exists>r. foldR (trace_call h m) (take k (butlast frames)) ([], b) = Inr r" for k
    using assms by (intro trace_calls) (auto dest: in_set_takeD)
  then obtain calls where
    t: "\<And>k. \<exists>r. foldR (trace_call h m) (take k (butlast frames)) ([], b) = Inr r" by blast
  then show ?thesis
    by (auto simp: runtime_failure_def Some o Let_def split: sum.splits) (metis sum.distinct(1))+
qed (simp add: runtime_failure_def)

lemma run_failure_root: "root_cause (run_failure h m opts cause) = root_cause cause"
  by (auto simp: run_failure_def runtime_failure_root split: option.splits prod.splits)

lemma run_failure_with_steps: "run_failure h m (opts\<lparr>max_steps := n\<rparr>) = run_failure h m opts"
proof -
  have "max_trace_frames (opts\<lparr>max_steps := n\<rparr>) = max_trace_frames opts" by simp
  then show ?thesis unfolding run_failure_def by (simp only:)
qed

lemma interp_loop_frames:
  assumes "within_budgets c s" "interp_loop c s = Inl (e, frames)"
  shows "\<forall>fr\<in>set (butlast frames). fr_call_site fr \<noteq> None"
proof -
  obtain k s' where k: "(interp_turn c ^^ k) s s'" "final_result c s' = Some (Inl (e, frames))"
    using interp_loop_turns [of c s] assms(2) by auto
  have "within_budgets c s'" using k(1)
    by (induction k arbitrary: s') (use assms(1) within_budgets_turn in \<open>auto simp: relcompp_apply\<close>)
  moreover have "frames = is_frames s'" using k(2) by (auto simp: final_result_def split: sum.splits step_result.splits)
  ultimately show ?thesis by (simp add: within_budgets_def)
qed

text \<open>C38. The step budget only cuts runs short: a run that ends for any other reason than the step
  limit, with a result, a trap or another error, ends in the same way under every larger step
  budget.\<close>

theorem larger_step_budget_same_run:
  assumes "run addr arena h m fid args opts = r" "\<And>e site limit. r = Inl e \<Longrightarrow> root_cause e \<noteq> EStepLimit site limit"
    "max_steps opts \<le> n"
  shows "run addr arena h m fid args (opts\<lparr>max_steps := n\<rparr>) = r"
proof (cases "prepare_state addr arena h m fid args opts")
  case (Inl e)
  then have "run_inner addr arena h m fid args (opts\<lparr>max_steps := n\<rparr>) = run_inner addr arena h m fid args opts"
    by (simp add: run_inner_def prepare_state_more)
  with assms(1) show ?thesis by (simp add: run_def run_failure_with_steps)
next
  case (Inr p)
  obtain c s where p: "p = (c, s)" by (cases p)
  note prep = prepared_within_budgets [OF Inr [unfolded p]]
  then have more: "max_steps (ic_options c) \<le> n" using assms(3) by simp
  have "\<nexists>site l fs. interp_loop c s = Inl (EStepLimit site l, fs)"
  proof (intro notI, elim exE)
    fix site l fs assume e: "interp_loop c s = Inl (EStepLimit site l, fs)"
    then have "r = Inl (run_failure h m opts (runtime_failure h m (EStepLimit site l) fs (max_trace_frames opts)))"
      using assms(1) by (simp add: run_def run_inner_def Inr p)
    from assms(2) [OF this, of site l] interp_loop_frames [OF prep [THEN conjunct2] e] show False
      by (simp add: run_failure_root runtime_failure_root)
  qed
  with interp_loop_cut [OF more, of s] have "interp_loop (with_steps n c) s = interp_loop c s" by blast
  then have "run_inner addr arena h m fid args (opts\<lparr>max_steps := n\<rparr>) = run_inner addr arena h m fid args opts"
    by (simp add: run_inner_def prepare_state_more Inr p)
  with assms(1) show ?thesis by (simp add: run_def run_failure_with_steps)
qed

theorem larger_step_budget_same_run_witness:
  "run 0 0 sample_host sample_module (FunctionId 0) (Scalars []) (sample_options\<lparr>max_steps := 2000000\<rparr>) = Inr sample_result"
  by (rule larger_step_budget_same_run [OF sample_run]) (simp_all add: sample_options_def interpreter_options_default_def)

end
