(* ===== verification/IrDominance.thy ===== *)
theory IrDominance
  imports IrVerifyCfg
begin

text \<open>
  What the control-flow checks of the verifier establish.  The abstract notion is a path of
  blocks from the entry along the edges of the terminators; a block dominates another when it
  lies on every path to it.  The intervals the analysis computes only answer yes for blocks
  that dominate, and therefore every use the verifier accepts is preceded, on every path, by
  the definition of its value.
\<close>

subsection \<open>Paths\<close>

definition flow :: "basic_block list \<Rightarrow> usize \<Rightarrow> usize \<Rightarrow> bool" where
  "flow blocks i j \<longleftrightarrow>
     i < length blocks \<and>
     (\<exists>t u. bb_terminator (blocks ! i) = Some t \<and> u \<in> set (terminator_targets t) \<and> block_indices blocks u = Some j)"

inductive entry_path :: "basic_block list \<Rightarrow> usize \<Rightarrow> usize list \<Rightarrow> usize \<Rightarrow> bool" for blocks entry where
  start: "entry_path blocks entry [entry] entry"
| step: "entry_path blocks entry p i \<Longrightarrow> flow blocks i j \<Longrightarrow> entry_path blocks entry (p @ [j]) j"

definition reaches :: "basic_block list \<Rightarrow> usize \<Rightarrow> usize \<Rightarrow> bool" where
  "reaches blocks entry i \<longleftrightarrow> (\<exists>p. entry_path blocks entry p i)"

definition path_dominates :: "basic_block list \<Rightarrow> usize \<Rightarrow> usize \<Rightarrow> usize \<Rightarrow> bool" where
  "path_dominates blocks entry d i \<longleftrightarrow> (\<forall>p. entry_path blocks entry p i \<longrightarrow> d \<in> set p)"

lemma reaches_entry: "reaches blocks entry entry"
  unfolding reaches_def by (blast intro: entry_path.start)

lemma reaches_flow: "reaches blocks entry i \<Longrightarrow> flow blocks i j \<Longrightarrow> reaches blocks entry j"
  unfolding reaches_def by (blast intro: entry_path.step)

lemma block_indices_Some: "block_indices blocks u = Some j \<Longrightarrow> j < length blocks \<and> bb_id (blocks ! j) = u"
  unfolding block_indices_def by (drule map_of_SomeD) (auto simp: in_set_enumerate_eq)

lemma block_indices_nth:
  assumes "distinct (map bb_id blocks)" "i < length blocks"
  shows "block_indices blocks (bb_id (blocks ! i)) = Some i"
proof -
  have keys: "map fst (rev (map (\<lambda>(i, b). (bb_id b, i)) (enumerate 0 blocks))) = rev (map bb_id blocks)"
    by (simp add: rev_map [symmetric] comp_def case_prod_beta) (simp add: map_map [symmetric, of bb_id snd, unfolded comp_def] del: map_map)
  have "(bb_id (blocks ! i), i) \<in> set (rev (map (\<lambda>(i, b). (bb_id b, i)) (enumerate 0 blocks)))"
    using assms(2) by (force simp: in_set_enumerate_eq)
  with assms(1) show ?thesis unfolding block_indices_def by (intro map_of_is_SomeI) (simp_all only: keys distinct_rev)
qed

lemma flow_range: "flow blocks i j \<Longrightarrow> i < length blocks \<and> j < length blocks"
  by (auto simp: flow_def dest: block_indices_Some)

lemma reaches_range: "block_indices blocks x = Some entry \<Longrightarrow> reaches blocks entry i \<Longrightarrow> i < length blocks"
  unfolding reaches_def by (erule exE, erule entry_path.cases) (auto dest: block_indices_Some flow_range)

subsection \<open>The edges found are the edges\<close>

definition edges_ok :: "usize \<Rightarrow> (usize \<Rightarrow> usize \<Rightarrow> bool) \<Rightarrow> edges \<Rightarrow> bool" where
  "edges_ok n R es \<longleftrightarrow>
     length (successors es) = n \<and> length (predecessors es) = n \<and> (\<forall>i j. R i j \<longrightarrow> i < n \<and> j < n)
     \<and> (\<forall>i<n. \<forall>j. j \<in> set (successors es ! i) \<longleftrightarrow> R i j)
     \<and> (\<forall>j<n. distinct (predecessors es ! j) \<and> (\<forall>i. i \<in> set (predecessors es ! j) \<longleftrightarrow> R i j))"

lemma edges_ok_push:
  assumes "edges_ok n R es" "i < n" "j < n" "\<not> R i j"
  shows "edges_ok n (\<lambda>x y. R x y \<or> x = i \<and> y = j)
           (es\<lparr>successors := push_at i j (successors es), predecessors := push_at j i (predecessors es)\<rparr>)"
  using assms unfolding edges_ok_def push_at_def by (auto simp: nth_list_update)

lemma add_edgeE:
  assumes "add_edge indices i t (seen, es, b) = Inr s"
  obtains j b1 where "indices t = Some j"
    "s = (if j \<in> seen then (seen, es, b1) else (insert j seen,
       es\<lparr>successors := push_at i j (successors es), predecessors := push_at j i (predecessors es)\<rparr>, b1))"
  using assms by (auto simp: add_edge_def result_simps split: if_splits)

lemma block_edgesE:
  assumes "block_edges indices (k, blk) (es, b) = Inr s"
  obtains t seen b0 where "bb_terminator blk = Some t"
    "foldR (add_edge indices k) (terminator_targets t) ({}, es, b0) = Inr (seen, s)"
  using assms by (cases s) (auto simp: block_edges_def result_simps)

lemma add_edges:
  assumes "foldR (add_edge indices i) ts (seen, es, b) = Inr (seen', es', b')" "edges_ok n R es" "i < n"
    "\<And>u j. indices u = Some j \<Longrightarrow> j < n" "seen = {j. R i j}"
  shows "(\<forall>u\<in>set ts. indices u \<noteq> None) \<and> edges_ok n (\<lambda>x y. R x y \<or> x = i \<and> (\<exists>u\<in>set ts. indices u = Some y)) es'"
  using assms
proof (induction ts arbitrary: seen es b R)
  case (Cons t ts)
  from Cons.prems(1) obtain j seen1 es1 b1 where t: "indices t = Some j"
    and s1: "(seen1, es1) = (if j \<in> seen then (seen, es) else (insert j seen,
       es\<lparr>successors := push_at i j (successors es), predecessors := push_at j i (predecessors es)\<rparr>))"
    and r: "foldR (add_edge indices i) ts (seen1, es1, b1) = Inr (seen', es', b')"
    by (simp only: foldR.simps rbind_eq_Inr) (auto elim!: add_edgeE split: if_splits)
  define R1 where "R1 = (\<lambda>x y. R x y \<or> x = i \<and> y = j)"
  have "edges_ok n R1 es1"
  proof (cases "j \<in> seen")
    case True
    with Cons.prems(5) have "R1 = R" by (auto simp: R1_def fun_eq_iff)
    with True s1 Cons.prems(2) show ?thesis by simp
  next
    case False
    with s1 Cons.prems edges_ok_push [OF Cons.prems(2,3), of j] t show ?thesis unfolding R1_def by auto
  qed
  moreover have "seen1 = {y. R1 i y}" using s1 Cons.prems(5) by (auto simp: R1_def split: if_splits)
  ultimately have "(\<forall>u\<in>set ts. indices u \<noteq> None) \<and> edges_ok n (\<lambda>x y. R1 x y \<or> x = i \<and> (\<exists>u\<in>set ts. indices u = Some y)) es'"
    using Cons.IH [OF r] Cons.prems(3,4) by blast
  moreover have "(\<lambda>x y. R1 x y \<or> x = i \<and> (\<exists>u\<in>set ts. indices u = Some y))
      = (\<lambda>x y. R x y \<or> x = i \<and> (\<exists>u\<in>set (t # ts). indices u = Some y))"
    using t by (auto simp: R1_def fun_eq_iff)
  ultimately show ?case using t by simp
qed simp

definition block_flow :: "(block_id \<rightharpoonup> usize) \<Rightarrow> basic_block \<Rightarrow> usize \<Rightarrow> bool" where
  "block_flow indices block j \<longleftrightarrow>
     (\<exists>t u. bb_terminator block = Some t \<and> u \<in> set (terminator_targets t) \<and> indices u = Some j)"

lemma add_block_edges:
  assumes "foldR (block_edges indices) (enumerate k blocks) (es, b) = Inr (es', b')" "edges_ok n R es"
    "k + length blocks \<le> n" "\<And>u j. indices u = Some j \<Longrightarrow> j < n" "\<And>i j. R i j \<Longrightarrow> i < k"
  shows "(\<forall>block\<in>set blocks. \<exists>t. bb_terminator block = Some t \<and> (\<forall>u\<in>set (terminator_targets t). indices u \<noteq> None))
    \<and> edges_ok n (\<lambda>x y. R x y \<or> (k \<le> x \<and> x < k + length blocks \<and> block_flow indices (blocks ! (x - k)) y)) es'"
  using assms
proof (induction blocks arbitrary: k es b R)
  case Nil
  then show ?case by (simp cong: conj_cong)
next
  case (Cons blk blocks)
  from Cons.prems(1) obtain s where "block_edges indices (k, blk) (es, b) = Inr s"
    and "foldR (block_edges indices) (enumerate (Suc k) blocks) s = Inr (es', b')"
    by (auto simp only: enumerate_simps foldR.simps rbind_eq_Inr)
  then obtain t seen es1 b0 b1 where t: "bb_terminator blk = Some t"
    and e: "foldR (add_edge indices k) (terminator_targets t) ({}, es, b0) = Inr (seen, es1, b1)"
    and r: "foldR (block_edges indices) (enumerate (Suc k) blocks) (es1, b1) = Inr (es', b')"
    by (cases s) (auto elim: block_edgesE)
  define R1 where "R1 = (\<lambda>x y. R x y \<or> x = k \<and> (\<exists>u\<in>set (terminator_targets t). indices u = Some y))"
  have "{} = {j. R k j}" using Cons.prems(5) by auto
  from add_edges [OF e Cons.prems(2) _ Cons.prems(4) this] Cons.prems(3)
  have a: "\<forall>u\<in>set (terminator_targets t). indices u \<noteq> None" "edges_ok n R1 es1" unfolding R1_def by auto
  have "\<And>i j. R1 i j \<Longrightarrow> i < Suc k" using Cons.prems(5) by (auto simp: R1_def less_Suc_eq)
  with Cons.IH [OF r a(2)] Cons.prems(3,4)
  have ih: "\<forall>block\<in>set blocks. \<exists>t. bb_terminator block = Some t \<and> (\<forall>u\<in>set (terminator_targets t). indices u \<noteq> None)"
    "edges_ok n (\<lambda>x y. R1 x y \<or> (Suc k \<le> x \<and> x < Suc k + length blocks \<and> block_flow indices (blocks ! (x - Suc k)) y)) es'"
    by auto
  moreover have "(\<lambda>x y. R1 x y \<or> (Suc k \<le> x \<and> x < Suc k + length blocks \<and> block_flow indices (blocks ! (x - Suc k)) y))
    = (\<lambda>x y. R x y \<or> (k \<le> x \<and> x < k + length (blk # blocks) \<and> block_flow indices ((blk # blocks) ! (x - k)) y))"
  proof (intro ext)
    fix x y
    consider "x < k" | "x = k" | "Suc k \<le> x" by linarith
    then show "(R1 x y \<or> (Suc k \<le> x \<and> x < Suc k + length blocks \<and> block_flow indices (blocks ! (x - Suc k)) y))
      = (R x y \<or> (k \<le> x \<and> x < k + length (blk # blocks) \<and> block_flow indices ((blk # blocks) ! (x - k)) y))"
    proof cases
      case 3
      then show ?thesis by (simp add: R1_def nth_Cons' Suc_le_eq)
    qed (auto simp: R1_def block_flow_def t)
  qed
  ultimately show ?case using t a(1) by simp
qed

lemma find_edges_flow:
  assumes "find_edges blocks b = Inr (es, b')"
  shows "edges_ok (length blocks) (flow blocks) es
    \<and> (\<forall>block\<in>set blocks. \<exists>t. bb_terminator block = Some t \<and> (\<forall>u\<in>set (terminator_targets t). block_indices blocks u \<noteq> None))"
proof -
  let ?n = "length blocks"
  have "edges_ok ?n (\<lambda>_ _. False) \<lparr>successors = replicate ?n [], predecessors = replicate ?n []\<rparr>"
    by (simp add: edges_ok_def)
  from add_block_edges [OF assms [unfolded find_edges_def] this] block_indices_Some
  have "edges_ok ?n (\<lambda>x y. x < ?n \<and> block_flow (block_indices blocks) (blocks ! x) y) es
    \<and> (\<forall>block\<in>set blocks. \<exists>t. bb_terminator block = Some t \<and> (\<forall>u\<in>set (terminator_targets t). block_indices blocks u \<noteq> None))"
    by fastforce
  then show ?thesis unfolding flow_def [abs_def] block_flow_def by simp
qed

subsection \<open>Depth-first order\<close>

definition dfs_open :: "(usize \<times> bool) list \<Rightarrow> usize list \<Rightarrow> usize list" where
  "dfs_open stack order = order @ map fst (filter snd stack)"

lemma in_dfs_open: "x \<in> set (dfs_open stack order) \<longleftrightarrow> x \<in> set order \<or> (x, True) \<in> set stack"
  by (force simp: dfs_open_def)

definition dfs_inv ::
  "usize list list \<Rightarrow> usize \<Rightarrow> usize \<Rightarrow> (usize \<times> bool) list \<Rightarrow> bool list \<Rightarrow> usize list \<Rightarrow> bool" where
  "dfs_inv succ n entry stack seen order \<longleftrightarrow>
     length seen = n \<and> (\<forall>x. x \<in> set (dfs_open stack order) \<longrightarrow> x < n) \<and> (\<forall>p\<in>set stack. fst p < n)
     \<and> (\<forall>x<n. seen ! x \<longleftrightarrow> x \<in> set (dfs_open stack order)) \<and> distinct (dfs_open stack order)
     \<and> (\<forall>x\<in>set (dfs_open stack order). \<forall>y\<in>set (succ ! x). seen ! y \<or> (y, False) \<in> set stack)
     \<and> (stack = [(entry, False)] \<and> order = [] \<or> stack \<noteq> [] \<and> last stack = (entry, True)
        \<or> stack = [] \<and> order \<noteq> [] \<and> last order = entry)"

lemma dfs_inv_exit:
  assumes "dfs_inv succ n entry ((x, True) # stack) seen order"
  shows "dfs_inv succ n entry stack seen (order @ [x])"
proof -
  have "set (dfs_open stack (order @ [x])) = set (dfs_open ((x, True) # stack) order)"
    "distinct (dfs_open stack (order @ [x])) = distinct (dfs_open ((x, True) # stack) order)"
    by (auto simp: dfs_open_def)
  with assms show ?thesis unfolding dfs_inv_def by (cases "stack = []") auto
qed

lemma dfs_inv_skip:
  assumes "dfs_inv succ n entry ((x, False) # stack) seen order" "seen ! x"
  shows "dfs_inv succ n entry stack seen order"
proof -
  have e: "dfs_open ((x, False) # stack) order = dfs_open stack order" by (simp add: dfs_open_def)
  have "x < n" "x \<in> set (dfs_open stack order)" using assms unfolding dfs_inv_def e by auto
  then have "stack \<noteq> [] \<or> order \<noteq> []" by (auto simp: dfs_open_def)
  moreover have "\<forall>z\<in>set (dfs_open stack order). \<forall>y\<in>set (succ ! z). seen ! y \<or> (y, False) \<in> set stack"
    using assms unfolding dfs_inv_def e by fastforce
  ultimately show ?thesis using assms(1) unfolding dfs_inv_def e by (cases "stack = []") auto
qed

lemma dfs_inv_enter:
  assumes "dfs_inv succ n entry ((x, False) # stack) seen order" "\<not> seen ! x" "\<And>y. y \<in> set (succ ! x) \<Longrightarrow> y < n"
  shows "dfs_inv succ n entry (map (\<lambda>y. (y, False)) (succ ! x) @ (x, True) # stack) (seen[x := True]) order"
proof -
  let ?new = "map (\<lambda>y. (y, False)) (succ ! x) @ (x, True) # stack"
  have f: "filter snd (map (\<lambda>y. (y, False)) (succ ! x)) = []" by (simp add: filter_map comp_def)
  have o: "set (dfs_open ?new order) = insert x (set (dfs_open ((x, False) # stack) order))"
    "distinct (dfs_open ?new order) = (x \<notin> set (dfs_open ((x, False) # stack) order) \<and> distinct (dfs_open ((x, False) # stack) order))"
    using f by (auto simp: dfs_open_def)
  have i: "x < n" "length seen = n" "x \<notin> set (dfs_open ((x, False) # stack) order)"
    using assms(1,2) unfolding dfs_inv_def by auto
  have "\<forall>z<n. (seen[x := True]) ! z \<longleftrightarrow> z \<in> set (dfs_open ?new order)"
    using assms(1) i unfolding o dfs_inv_def by (auto simp: nth_list_update)
  moreover have "\<forall>z\<in>set (dfs_open ?new order). \<forall>y\<in>set (succ ! z). (seen[x := True]) ! y \<or> (y, False) \<in> set ?new"
  proof (intro ballI)
    fix z y assume z: "z \<in> set (dfs_open ?new order)" "y \<in> set (succ ! z)"
    show "(seen[x := True]) ! y \<or> (y, False) \<in> set ?new"
    proof (cases "z = x")
      case False
      with z have "seen ! y \<or> (y, False) \<in> set ((x, False) # stack)" using assms(1) unfolding o dfs_inv_def by blast
      with i show ?thesis by (cases "y = x") (auto simp: nth_list_update)
    qed (use z in auto)
  qed
  moreover have "(\<forall>z. z \<in> set (dfs_open ?new order) \<longrightarrow> z < n) \<and> (\<forall>p\<in>set ?new. fst p < n) \<and> distinct (dfs_open ?new order)
    \<and> ?new \<noteq> [] \<and> last ?new = (entry, True)"
    using assms(1,3) i unfolding o dfs_inv_def by auto
  ultimately show ?thesis using i(2) unfolding dfs_inv_def by auto
qed

text \<open>The order holds every block reached, once, with the entry last.\<close>

lemma dfs_loop_order:
  assumes "dfs_loop succ stack seen order b = Inr (order', b')" "dfs_inv succ n entry stack seen order"
    "\<And>x y. x < n \<Longrightarrow> y \<in> set (succ ! x) \<Longrightarrow> y < n"
  shows "distinct order' \<and> order' \<noteq> [] \<and> last order' = entry \<and> (\<forall>x\<in>set order'. x < n \<and> set (succ ! x) \<subseteq> set order')"
  using assms
proof (induction succ stack seen order b rule: dfs_loop.induct)
  case (1 succ seen order b)
  then have "\<forall>x\<in>set order. x < n \<and> (\<forall>y\<in>set (succ ! x). y < n \<and> seen ! y)"
    unfolding dfs_inv_def dfs_open_def by simp blast
  with 1 show ?case unfolding dfs_inv_def dfs_open_def by auto
next
  case (2 succ block exiting stack seen order b)
  then obtain b1 where c: "charge b = Inr b1" by (auto simp: result_simps)
  show ?case
  proof (cases exiting)
    case True
    with "2.IH"(1) [OF c] "2.prems" dfs_inv_exit show ?thesis by (simp add: c)
  next
    case False
    note inv = "2.prems"(2) [unfolded False [THEN iffD2 [OF eq_False]]]
    show ?thesis
    proof (cases "seen ! block")
      case True
      with "2.IH"(2) [OF c] "2.prems" False dfs_inv_skip [OF inv True] show ?thesis by (simp add: c)
    next
      case notseen: False
      have "block < n" using inv by (simp add: dfs_inv_def)
      with "2.prems"(3) have "dfs_inv succ n entry (map (\<lambda>y. (y, False)) (succ ! block) @ (block, True) # stack) (seen[block := True]) order"
        by (intro dfs_inv_enter [OF inv notseen])
      with "2.IH"(3) [OF c] "2.prems" False notseen show ?thesis by (simp add: c)
    qed
  qed
qed

subsection \<open>The dominator tree\<close>

inductive idom_ancestor :: "usize option list \<Rightarrow> usize \<Rightarrow> usize \<Rightarrow> bool" for idom where
  self: "idom_ancestor idom x x"
| up: "idom ! x = Some y \<Longrightarrow> idom_ancestor idom y z \<Longrightarrow> idom_ancestor idom x z"

lemma idom_ancestor_trans: "idom_ancestor idom x y \<Longrightarrow> idom_ancestor idom y z \<Longrightarrow> idom_ancestor idom x z"
  by (induction rule: idom_ancestor.induct) (auto intro: idom_ancestor.up)

lemma idom_ancestor_root: "idom_ancestor idom x z \<Longrightarrow> idom ! x = Some x \<Longrightarrow> z = x"
  by (induction rule: idom_ancestor.induct) auto

lemma idom_ancestor_strict: "idom_ancestor idom x z \<Longrightarrow> z = x \<or> (\<exists>y. idom ! x = Some y \<and> idom_ancestor idom y z)"
  by (cases rule: idom_ancestor.cases) auto

lemma intersect_ancestor:
  "intersect idom rank x y b = Inr (z, b') \<Longrightarrow> idom_ancestor idom x z \<and> idom_ancestor idom y z"
proof (induction idom rank x y b rule: intersect.induct)
  case (1 idom rank x y b)
  show ?case
  proof (cases "x = y")
    case True
    with "1.prems" show ?thesis by (simp add: intersect.simps idom_ancestor.self)
  next
    case False
    with "1.prems" obtain b1 where c: "charge b = Inr b1" by (auto simp: intersect.simps [of idom rank x y b] result_simps)
    with "1.prems" "1.IH" [OF False c] False show ?thesis
      by (auto simp: intersect.simps [of idom rank x y b] rbind_eq_Inr ok_or_eq_Inr intro: idom_ancestor.up split: if_splits)
  qed
qed

lemma meet_predecessorE:
  assumes "meet_predecessor idom rank p (cur, b) = Inr (res, b')"
  shows "(\<forall>x. cur = Some x \<longrightarrow> (\<exists>d. res = Some d \<and> idom_ancestor idom x d))
    \<and> (idom ! p \<noteq> None \<longrightarrow> (\<exists>d. res = Some d \<and> idom_ancestor idom p d))"
  using assms
  by (auto simp: meet_predecessor_def result_simps split: if_splits option.splits
      dest!: intersect_ancestor intro: idom_ancestor.self)

lemma meet_predecessors:
  assumes "foldR (meet_predecessor idom rank) ps (cur, b) = Inr (res, b')"
  shows "(\<forall>x. cur = Some x \<longrightarrow> (\<exists>d. res = Some d \<and> idom_ancestor idom x d))
    \<and> (\<forall>p\<in>set ps. idom ! p \<noteq> None \<longrightarrow> (\<exists>d. res = Some d \<and> idom_ancestor idom p d))"
  using assms
proof (induction ps arbitrary: cur b)
  case Nil
  then show ?case by (auto intro: idom_ancestor.self)
next
  case (Cons p ps)
  then obtain cur1 b1 where m: "meet_predecessor idom rank p (cur, b) = Inr (cur1, b1)"
    and r: "foldR (meet_predecessor idom rank) ps (cur1, b1) = Inr (res, b')" by (auto simp: rbind_eq_Inr)
  show ?case using meet_predecessorE [OF m] Cons.IH [OF r] by (auto intro: idom_ancestor_trans) (metis idom_ancestor_trans)+
qed

text \<open>A round of updates that changes nothing leaves every block at the meet of its
  predecessors.\<close>

definition idom_fixed :: "usize list list \<Rightarrow> usize list \<Rightarrow> usize option list \<Rightarrow> bool" where
  "idom_fixed preds blocks idom \<longleftrightarrow>
     (\<forall>x\<in>set blocks. \<forall>p\<in>set (preds ! x). idom ! p \<noteq> None \<longrightarrow> (\<exists>d. idom ! x = Some d \<and> idom_ancestor idom p d))"

lemma update_idomE:
  assumes "update_idom preds rank x (idom, changed, b) = Inr (idom', changed', b')"
  shows "length idom' = length idom \<and> (\<forall>y. y \<noteq> x \<longrightarrow> idom' ! y = idom ! y)
    \<and> (\<not> changed' \<longrightarrow> \<not> changed \<and> idom' = idom \<and> idom_fixed preds [x] idom)"
proof -
  from assms obtain b0 cur b1 where f: "foldR (meet_predecessor idom rank) (preds ! x) (None, b0) = Inr (cur, b1)"
    and i: "(idom', changed') = (if cur \<noteq> idom ! x then (idom[x := cur], True) else (idom, changed))"
    by (auto simp: update_idom_def rbind_eq_Inr split: if_splits)
  show ?thesis using i meet_predecessors [OF f] by (auto simp: idom_fixed_def split: if_splits)
qed

lemma update_idoms:
  assumes "foldR (update_idom preds rank) xs (idom, changed, b) = Inr (idom', changed', b')"
  shows "length idom' = length idom \<and> (\<forall>y. y \<notin> set xs \<longrightarrow> idom' ! y = idom ! y)
    \<and> (\<not> changed' \<longrightarrow> \<not> changed \<and> idom' = idom \<and> idom_fixed preds xs idom)"
  using assms
proof (induction xs arbitrary: idom changed b)
  case (Cons x xs)
  then obtain idom1 changed1 b1 where u: "update_idom preds rank x (idom, changed, b) = Inr (idom1, changed1, b1)"
    and r: "foldR (update_idom preds rank) xs (idom1, changed1, b1) = Inr (idom', changed', b')" by (auto simp: rbind_eq_Inr)
  show ?case using update_idomE [OF u] Cons.IH [OF r] by (auto simp: idom_fixed_def)
qed (simp add: idom_fixed_def)

lemma idom_loop_fixed:
  "idom_loop preds rank xs idom b = Inr (idom', b') \<Longrightarrow>
     length idom' = length idom \<and> (\<forall>y. y \<notin> set xs \<longrightarrow> idom' ! y = idom ! y) \<and> idom_fixed preds xs idom'"
proof (induction preds rank xs idom b rule: idom_loop.induct)
  case (1 preds rank xs idom b)
  from "1.prems" obtain idom1 changed b1 where f: "foldR (update_idom preds rank) xs (idom, False, b) = Inr (idom1, changed, b1)"
    and r: "(if changed then idom_loop preds rank xs idom1 b1 else Inr (idom1, b1)) = Inr (idom', b')"
    by (auto simp: idom_loop.simps [of preds rank xs idom b] rbind_eq_Inr)
  show ?case
  proof (cases changed)
    case True
    with 1 f r update_idoms [OF f] show ?thesis by auto
  next
    case False
    with r update_idoms [OF f] show ?thesis by auto
  qed
qed

text \<open>The ancestors of a block lie on every path to it.\<close>

lemma path_through_ancestors:
  assumes "entry_path blocks entry p i" "idom ! entry = Some entry"
    "\<And>j k. reaches blocks entry j \<Longrightarrow> flow blocks j k \<Longrightarrow> idom ! j \<noteq> None \<Longrightarrow> \<exists>d. idom ! k = Some d \<and> idom_ancestor idom j d"
  shows "idom ! i \<noteq> None \<and> (\<forall>d. idom_ancestor idom i d \<longrightarrow> d \<in> set p)"
  using assms(1)
proof induction
  case start
  with assms(2) idom_ancestor_root show ?case by auto
next
  case (step p i j)
  then obtain d where d: "idom ! j = Some d" "idom_ancestor idom i d" using assms(3) [of i j] unfolding reaches_def by blast
  have "e \<in> set (p @ [j])" if "idom_ancestor idom j e" for e
    using idom_ancestor_strict [OF that] d idom_ancestor_trans [OF d(2), of e] step.IH by auto
  with d(1) show ?case by simp
qed

subsection \<open>Intervals\<close>

lemma add_child_children:
  assumes "foldR add_child xs (children, b) = Inr (children', b')"
    "\<And>p x. p < n \<Longrightarrow> x \<in> set (children ! p) \<Longrightarrow> x < n \<and> idom ! x = Some p"
    "length children = n" "\<And>x par. (x, par) \<in> set xs \<Longrightarrow> x < n \<and> idom ! x = par"
  shows "\<forall>p<n. \<forall>x\<in>set (children' ! p). x < n \<and> idom ! x = Some p"
  using assms
proof (induction xs arbitrary: children b)
  case (Cons c xs)
  obtain x par where c: "c = (x, par)" by (cases c)
  from Cons.prems(1) obtain children1 b1 where a: "add_child c (children, b) = Inr (children1, b1)"
    and r: "foldR add_child xs (children1, b1) = Inr (children', b')" by (auto simp: rbind_eq_Inr)
  have x: "x < n" "idom ! x = par" using Cons.prems(4) c by auto
  have k: "children1 = (case par of Some p \<Rightarrow> if p \<noteq> x then push_at p x children else children | None \<Rightarrow> children)"
    using a c by (auto simp: add_child_def rbind_eq_Inr split: option.splits if_splits)
  have "y < n \<and> idom ! y = Some p" if "p < n" "y \<in> set (children1 ! p)" for p y
  proof (cases "par = Some p \<and> p \<noteq> x \<and> y = x")
    case False
    with that k Cons.prems(3) have "y \<in> set (children ! p)"
      by (cases "par = Some p") (auto simp: push_at_def split: option.splits if_splits)
    with Cons.prems(2) that(1) show ?thesis by simp
  qed (use x in simp)
  moreover have "length children1 = n" using k Cons.prems(3) by (auto simp: push_at_def split: option.splits)
  moreover have "z < n \<and> idom ! z = q" if "(z, q) \<in> set xs" for z q
    using that Cons.prems(4) [of z q] by simp
  ultimately show ?case by (intro Cons.IH [OF r]) blast+
qed simp

text \<open>The start of a block is its number of arrival, its stop the number of its departure.
  While a block is open, everything that arrives is below it in the tree.\<close>

definition interval_inv ::
  "usize option list \<Rightarrow> usize \<Rightarrow> (usize \<times> bool) list \<Rightarrow> (usize \<times> usize) option list \<Rightarrow> usize \<Rightarrow> bool" where
  "interval_inv idom n stack iv clock \<longleftrightarrow>
     length iv = n \<and> (\<forall>p\<in>set stack. fst p < n)
     \<and> (\<forall>x<n. \<forall>s e. iv ! x = Some (s, e) \<longrightarrow> s \<le> e \<and> e < clock)
     \<and> sorted_wrt (\<lambda>p q. snd q \<longrightarrow> idom_ancestor idom (fst p) (fst q)) stack
     \<and> (\<forall>d<n. \<forall>u<n. \<forall>s e us ue. iv ! d = Some (s, e) \<longrightarrow> iv ! u = Some (us, ue) \<longrightarrow> s \<le> us \<longrightarrow>
          (d, True) \<in> set stack \<or> ue \<le> e \<longrightarrow> idom_ancestor idom u d)"

lemma interval_inv_exit:
  assumes "interval_inv idom n ((x, True) # stack) iv clock" "iv ! x = Some (s, e)"
  shows "interval_inv idom n stack (iv[x := Some (s, clock)]) (clock + 1)"
proof -
  have x: "x < n" "length iv = n" using assms(1) by (auto simp: interval_inv_def)
  have b: "s' \<le> e' \<and> e' < clock" if "y < n" "iv ! y = Some (s', e')" for y s' e'
    using assms(1) that unfolding interval_inv_def by blast
  have below: "idom_ancestor idom u d"
    if "d < n" "u < n" "iv ! d = Some (s', e')" "iv ! u = Some (us, ue)" "s' \<le> us" "(d, True) \<in> set ((x, True) # stack) \<or> ue \<le> e'"
    for d u s' e' us ue
    using assms(1) that unfolding interval_inv_def by blast
  have "idom_ancestor idom u d"
    if h: "d < n" "u < n" "(iv[x := Some (s, clock)]) ! d = Some (s', e')" "(iv[x := Some (s, clock)]) ! u = Some (us, ue)"
      "s' \<le> us" "(d, True) \<in> set stack \<or> ue \<le> e'" for d u s' e' us ue
  proof -
    obtain e1 where d: "iv ! d = Some (s', e1)" "d \<noteq> x \<Longrightarrow> e1 = e'" using h(1,3) x assms(2) by (cases "d = x") auto
    obtain e2 where u: "iv ! u = Some (us, e2)" "u \<noteq> x \<Longrightarrow> e2 = ue" "u = x \<Longrightarrow> ue = clock"
      using h(2,4) x assms(2) by (cases "u = x") auto
    have "(d, True) \<in> set ((x, True) # stack) \<or> e2 \<le> e1"
    proof (cases "d = x")
      case False
      with h(6) d b [OF h(1) d(1)] u show ?thesis by (cases "u = x") auto
    qed simp
    from below [OF h(1,2) d(1) u(1) h(5) this] show ?thesis .
  qed
  moreover have "s' \<le> e' \<and> e' < clock + 1" if "y < n" "(iv[x := Some (s, clock)]) ! y = Some (s', e')" for y s' e'
    using that b [of y] b [OF x(1) assms(2)] x by (cases "y = x") (auto simp: less_Suc_eq)
  ultimately show ?thesis using assms(1) x unfolding interval_inv_def by auto
qed

lemma interval_inv_enter:
  assumes "interval_inv idom n ((x, False) # stack) iv clock"
    "\<And>y. y \<in> set ys \<Longrightarrow> y < n \<and> idom ! y = Some x"
  shows "interval_inv idom n (map (\<lambda>c. (c, False)) ys @ (x, True) # stack) (iv[x := Some (clock, clock)]) (clock + 1)"
proof -
  let ?iv = "iv[x := Some (clock, clock)]"
  have x: "x < n" "length iv = n" using assms(1) by (auto simp: interval_inv_def)
  have b: "s' \<le> e' \<and> e' < clock" if "y < n" "iv ! y = Some (s', e')" for y s' e'
    using assms(1) that unfolding interval_inv_def by blast
  have below: "idom_ancestor idom u d"
    if "d < n" "u < n" "iv ! d = Some (s', e')" "iv ! u = Some (us, ue)" "s' \<le> us" "(d, True) \<in> set stack \<or> ue \<le> e'"
    for d u s' e' us ue
    using assms(1) that unfolding interval_inv_def by auto
  have chain: "idom_ancestor idom x d" if "(d, True) \<in> set stack" for d
    using assms(1) that unfolding interval_inv_def by fastforce
  have "idom_ancestor idom u d"
    if h: "d < n" "u < n" "?iv ! d = Some (s', e')" "?iv ! u = Some (us, ue)" "s' \<le> us"
      "(d, True) \<in> set (map (\<lambda>c. (c, False)) ys @ (x, True) # stack) \<or> ue \<le> e'" for d u s' e' us ue
  proof (cases "u = d")
    case True
    then show ?thesis by (simp add: idom_ancestor.self)
  next
    case ud: False
    show ?thesis
    proof (cases "d = x")
      case True
      with h x b [OF h(2)] ud show ?thesis by auto
    next
      case dx: False
      with h x have d: "iv ! d = Some (s', e')" by simp
      show ?thesis
      proof (cases "u = x")
        case True
        with h x dx b [OF h(1) d] chain show ?thesis by auto
      next
        case False
        with h x dx d below show ?thesis by auto
      qed
    qed
  qed
  moreover have "s' \<le> e' \<and> e' < clock + 1" if "y < n" "?iv ! y = Some (s', e')" for y s' e'
    using that b [of y] x by (cases "y = x") (auto simp: less_Suc_eq)
  moreover have "sorted_wrt (\<lambda>p q. snd q \<longrightarrow> idom_ancestor idom (fst p) (fst q)) (map (\<lambda>c. (c, False)) ys @ (x, True) # stack)"
  proof -
    have "sorted_wrt (\<lambda>p q. snd q \<longrightarrow> idom_ancestor idom (fst p) (fst q)) (map (\<lambda>c. (c, False)) ys)"
      by (simp add: sorted_wrt_map)
    moreover have "idom_ancestor idom y x" if "y \<in> set ys" for y
      using assms(2) [OF that] by (blast intro: idom_ancestor.intros)
    ultimately show ?thesis using assms(1) chain unfolding interval_inv_def
      by (auto simp: sorted_wrt_append) (blast intro: idom_ancestor_trans)
  qed
  moreover have "length ?iv = n \<and> (\<forall>p\<in>set (map (\<lambda>c. (c, False)) ys @ (x, True) # stack). fst p < n)"
    using assms x unfolding interval_inv_def by auto
  ultimately show ?thesis unfolding interval_inv_def by blast
qed

lemma interval_loop_inv:
  assumes "interval_loop children stack iv clock b = Inr (iv', b')" "interval_inv idom n stack iv clock"
    "\<forall>p<n. \<forall>x\<in>set (children ! p). x < n \<and> idom ! x = Some p"
  shows "\<exists>clock'. interval_inv idom n [] iv' clock'"
  using assms
proof (induction children stack iv clock b rule: interval_loop.induct)
  case (1 children iv clock b)
  then show ?case by auto
next
  case (2 children x exiting stack iv clock b)
  then obtain b1 where c: "charge b = Inr b1" by (auto simp: rbind_eq_Inr)
  show ?case
  proof (cases exiting)
    case True
    with "2.prems"(1) c obtain s e where i: "iv ! x = Some (s, e)"
      and r: "interval_loop children stack (iv[x := Some (s, clock)]) (clock + 1) b1 = Inr (iv', b')"
      by (auto simp: rbind_eq_Inr ok_or_eq_Inr)
    have "interval_inv idom n stack (iv[x := Some (s, clock)]) (clock + 1)"
      using interval_inv_exit [OF _ i] "2.prems"(2) True by simp
    from "2.IH"(1) [OF c True _ refl r this "2.prems"(3)] i show ?thesis by (simp add: ok_or_def)
  next
    case False
    have "interval_inv idom n ((x, False) # stack) iv clock" "x < n" using "2.prems"(2) False by (auto simp: interval_inv_def)
    with interval_inv_enter [OF this(1), of "children ! x"] "2.IH"(2) [OF c False] "2.prems" False c show ?thesis by simp
  qed
qed

text \<open>Nested intervals mean descent in the dominator tree.\<close>

definition nested :: "(usize \<times> usize) option list \<Rightarrow> usize \<Rightarrow> usize \<Rightarrow> bool" where
  "nested iv d u \<longleftrightarrow>
     (case (iv ! d, iv ! u) of
        (Some (start, stop), Some (use_start, use_stop)) \<Rightarrow> start \<le> use_start \<and> use_stop \<le> stop
      | _ \<Rightarrow> False)"

lemma dominates_nested:
  "dominates c d u b = Inr (valid, b') \<Longrightarrow> valid \<longleftrightarrow> nested (cfg_intervals c) d u"
  by (auto simp: dominates_def nested_def rbind_eq_Inr)

lemma interval_inv_nested:
  "interval_inv idom n [] iv clock \<Longrightarrow> nested iv d u \<Longrightarrow> d < n \<Longrightarrow> u < n \<Longrightarrow> idom_ancestor idom u d"
  unfolding interval_inv_def nested_def by (auto split: option.splits)

subsection \<open>Control-flow graphs\<close>

definition cfg_facts :: "ir_function \<Rightarrow> cfg \<Rightarrow> usize \<Rightarrow> bool" where
  "cfg_facts f c entry \<longleftrightarrow>
     block_indices (f_blocks f) (f_entry f) = Some entry
     \<and> cfg_indices c = block_indices (f_blocks f)
     \<and> (\<forall>block\<in>set (f_blocks f). \<exists>t. bb_terminator block = Some t
          \<and> (\<forall>u\<in>set (terminator_targets t). block_indices (f_blocks f) u \<noteq> None))
     \<and> (\<forall>j<length (f_blocks f). distinct (cfg_predecessors c ! j)
          \<and> (\<forall>i. i \<in> set (cfg_predecessors c ! j) \<longleftrightarrow> flow (f_blocks f) i j))
     \<and> (\<forall>i. \<not> flow (f_blocks f) i entry)
     \<and> cfg_idom c ! entry = Some entry
     \<and> (\<forall>i j. reaches (f_blocks f) entry i \<longrightarrow> flow (f_blocks f) i j \<longrightarrow> cfg_idom c ! i \<noteq> None \<longrightarrow>
          (\<exists>d. cfg_idom c ! j = Some d \<and> idom_ancestor (cfg_idom c) i d))
     \<and> (\<forall>d u. d < length (f_blocks f) \<longrightarrow> u < length (f_blocks f) \<longrightarrow> nested (cfg_intervals c) d u \<longrightarrow>
          idom_ancestor (cfg_idom c) u d)"

lemma not_Cons: "(\<forall>x ys. xs \<noteq> x # ys) \<longleftrightarrow> xs = []"
  by (cases xs) auto

lemma cfg_newE:
  assumes "cfg_new f b = Inr (c, b')"
  obtains es b1 entry order b2 idom b3 children b4 iv where
    "find_edges (f_blocks (ix_function f)) b = Inr (es, b1)"
    "block_indices (f_blocks (ix_function f)) (f_entry (ix_function f)) = Some entry" "predecessors es ! entry = []"
    "dfs_loop (successors es) [(entry, False)] (replicate (length (f_blocks (ix_function f))) False) [] b1 = Inr (order, b2)"
    "idom_loop (predecessors es) (block_ranks (length (f_blocks (ix_function f))) (rev order)) (drop 1 (rev order))
       ((replicate (length (f_blocks (ix_function f))) None)[entry := Some entry]) b2 = Inr (idom, b3)"
    "foldR add_child (enumerate 0 idom) (replicate (length (f_blocks (ix_function f))) [], b3) = Inr (children, b4)"
    "interval_loop children [(entry, False)] (replicate (length (f_blocks (ix_function f))) None) 0 b4 = Inr (iv, b')"
    "c = \<lparr>cfg_indices = block_indices (f_blocks (ix_function f)), cfg_predecessors = predecessors es, cfg_idom = idom,
           cfg_intervals = iv\<rparr>"
  using assms unfolding cfg_new_def Let_def
  by (auto simp: rbind_eq_Inr ok_or_eq_Inr not_Cons simp del: dfs_loop.simps interval_loop.simps One_nat_def drop_Suc
      split: list.splits)

lemma cfg_new_facts:
  assumes "cfg_new f b = Inr (c, b')"
  shows "\<exists>entry. cfg_facts (ix_function f) c entry"
  using assms
proof (rule cfg_newE)
  fix es b1 entry order b2 idom b3 children b4 iv
  let ?blocks = "f_blocks (ix_function f)"
  let ?n = "length ?blocks"
  assume es: "find_edges ?blocks b = Inr (es, b1)"
    and entry: "block_indices ?blocks (f_entry (ix_function f)) = Some entry" "predecessors es ! entry = []"
    and dfs: "dfs_loop (successors es) [(entry, False)] (replicate ?n False) [] b1 = Inr (order, b2)"
    and loop: "idom_loop (predecessors es) (block_ranks ?n (rev order)) (drop 1 (rev order)) ((replicate ?n None)[entry := Some entry]) b2 = Inr (idom, b3)"
    and ch: "foldR add_child (enumerate 0 idom) (replicate ?n [], b3) = Inr (children, b4)"
    and iv: "interval_loop children [(entry, False)] (replicate ?n None) 0 b4 = Inr (iv, b')"
    and c: "c = \<lparr>cfg_indices = block_indices ?blocks, cfg_predecessors = predecessors es, cfg_idom = idom, cfg_intervals = iv\<rparr>"
  have n: "entry < ?n" using block_indices_Some [OF entry(1)] by simp
  note edges = find_edges_flow [OF es]
  have succ: "j \<in> set (successors es ! i) \<longleftrightarrow> flow ?blocks i j" if "i < ?n" for i j using edges that by (simp add: edges_ok_def)
  have pred: "distinct (predecessors es ! j)" "i \<in> set (predecessors es ! j) \<longleftrightarrow> flow ?blocks i j" if "j < ?n" for i j
    using edges that by (simp_all add: edges_ok_def)
  have no_pred: "\<not> flow ?blocks i entry" for i using pred(2) [OF n, of i] entry(2) by simp
  have "dfs_inv (successors es) ?n entry [(entry, False)] (replicate ?n False) []"
    using n by (simp add: dfs_inv_def dfs_open_def)
  moreover have "y < ?n" if "x < ?n" "y \<in> set (successors es ! x)" for x y using that succ flow_range by blast
  ultimately have dfs_order: "distinct order \<and> order \<noteq> [] \<and> last order = entry \<and> (\<forall>x\<in>set order. x < ?n \<and> set (successors es ! x) \<subseteq> set order)"
    by (rule dfs_loop_order [OF dfs])
  then have order: "distinct order" "order \<noteq> []" "last order = entry" "\<And>x. x \<in> set order \<Longrightarrow> x < ?n" by blast+
  have closed: "y \<in> set order" if "x \<in> set order" "flow ?blocks x y" for x y using dfs_order that succ order(4) by blast
  from order(2,3) obtain front where front: "order = front @ [entry]" by (metis append_butlast_last_id)
  have rest: "x \<in> set (drop 1 (rev order)) \<longleftrightarrow> x \<in> set order \<and> x \<noteq> entry" for x
    using order(1) by (auto simp: front)
  note fixed = idom_loop_fixed [OF loop]
  have root: "idom ! entry = Some entry" using fixed rest [of entry] n by simp
  have inorder: "i \<in> set order" if "entry_path ?blocks entry p i" for p i
    using that by induction (use front closed in auto)
  have meet: "\<exists>d. idom ! j = Some d \<and> idom_ancestor idom i d"
    if "reaches ?blocks entry i" "flow ?blocks i j" "idom ! i \<noteq> None" for i j
  proof -
    have "j \<in> set order" "j \<noteq> entry" "i \<in> set (predecessors es ! j)"
      using that(1,2) inorder closed no_pred pred(2) flow_range unfolding reaches_def by blast+
    with fixed that(3) rest show ?thesis unfolding idom_fixed_def by blast
  qed
  have "\<forall>p<?n. \<forall>x\<in>set (children ! p). x < ?n \<and> idom ! x = Some p"
    using fixed by (intro add_child_children [OF ch]) (auto simp: in_set_enumerate_eq)
  moreover have "interval_inv idom ?n [(entry, False)] (replicate ?n None) 0" using n by (simp add: interval_inv_def)
  ultimately obtain clock where "interval_inv idom ?n [] iv clock" using interval_loop_inv [OF iv] by blast
  with interval_inv_nested edges entry(1) no_pred root meet pred show ?thesis
    unfolding cfg_facts_def c by (intro exI [of _ entry]) auto
qed

lemma cfg_facts_paths:
  assumes "cfg_facts f c entry" "reaches (f_blocks f) entry u"
  shows "cfg_idom c ! u \<noteq> None" "idom_ancestor (cfg_idom c) u d \<Longrightarrow> path_dominates (f_blocks f) entry d u"
  using assms path_through_ancestors [of "f_blocks f" entry _ u "cfg_idom c"]
  unfolding cfg_facts_def path_dominates_def reaches_def [of _ _ u] by blast+

subsection \<open>Accepted uses\<close>

definition value_ready :: "ir_function \<Rightarrow> cfg \<Rightarrow> value_id \<Rightarrow> usize \<Rightarrow> usize \<Rightarrow> bool" where
  "value_ready f c v i position \<longleftrightarrow>
     (case ssa_definitions f v of
        None \<Rightarrow> False
      | Some None \<Rightarrow> True
      | Some (Some (d, q)) \<Rightarrow> if d = i then q < position else idom_ancestor (cfg_idom c) i d)"

lemma ssa_definitions_cases:
  assumes "ssa_definitions f v = Some def"
  shows "def = None \<and> v \<in> p_id ` set (f_params f)
    \<or> (\<exists>d q t. def = Some (d, q) \<and> d < length (f_blocks f) \<and> q < length (bb_instructions (f_blocks f ! d))
        \<and> instr_result (bb_instructions (f_blocks f ! d) ! q) = Some (v, t))"
  using map_of_SomeD [OF assms [unfolded ssa_definitions_def]]
  by (auto simp: block_definitions_def in_set_enumerate_eq split: option.splits if_splits) metis+

lemma available_ready:
  assumes "cfg_facts (ix_function f) c entry" "available f c v i position b = Inr b'"
    "cfg_idom c ! i \<noteq> None" "i < length (f_blocks (ix_function f))"
  shows "value_ready (ix_function f) c v i position"
proof -
  from assms(2) obtain def where def: "ssa_definitions (ix_function f) v = Some def" by (auto simp: available_def rbind_eq_Inr ok_or_eq_Inr)
  show ?thesis
  proof (cases def)
    case (Some p)
    obtain d q where p: "p = (d, q)" by (cases p)
    have d: "d < length (f_blocks (ix_function f))" using ssa_definitions_cases [OF def] Some p by auto
    show ?thesis
    proof (cases "d = i")
      case True
      with assms(2,3) def Some p show ?thesis
        by (auto simp: available_def value_ready_def rbind_eq_Inr split: if_splits)
    next
      case False
      with assms(2,3) def Some p obtain b1 where "dominates c d i b = Inr (True, b1)"
        by (auto simp: available_def rbind_eq_Inr split: if_splits)
      then have "nested (cfg_intervals c) d i" using dominates_nested by blast
      with assms(1,4) d False def Some p show ?thesis by (simp add: cfg_facts_def value_ready_def)
    qed
  qed (simp add: value_ready_def def)
qed

definition phi_ok :: "indexed \<Rightarrow> cfg \<Rightarrow> usize \<Rightarrow> ty \<Rightarrow> (value_id \<times> block_id) list \<Rightarrow> bool" where
  "phi_ok f c i t incomings \<longleftrightarrow>
     (\<forall>(v, u)\<in>set incomings. \<exists>p b b'. cfg_indices c u = Some p \<and> p \<in> set (cfg_predecessors c ! i) \<and> verify_operand f v t = Inr ()
        \<and> available f c v p (length (bb_instructions (f_blocks (ix_function f) ! p))) b = Inr b')
     \<and> (distinct (cfg_predecessors c ! i) \<longrightarrow>
          (\<forall>p\<in>set (cfg_predecessors c ! i). \<exists>(v, u)\<in>set incomings. cfg_indices c u = Some p))"

lemma check_incomings:
  assumes "foldR (check_incoming f c i bb dst t) incomings (seen, b) = Inr (seen', b')" "seen \<subseteq> set (cfg_predecessors c ! i)"
  shows "seen' \<subseteq> set (cfg_predecessors c ! i) \<and> seen' \<subseteq> seen \<union> {p. \<exists>(v, u)\<in>set incomings. cfg_indices c u = Some p}
    \<and> (\<forall>(v, u)\<in>set incomings. \<exists>p b b'. cfg_indices c u = Some p \<and> p \<in> set (cfg_predecessors c ! i) \<and> verify_operand f v t = Inr ()
        \<and> available f c v p (length (bb_instructions (f_blocks (ix_function f) ! p))) b = Inr b')"
  using assms
proof (induction incomings arbitrary: seen b)
  case (Cons x incomings)
  obtain v u where x: "x = (v, u)" by (cases x)
  from Cons.prems(1) obtain seen1 b1 where one: "check_incoming f c i bb dst t (v, u) (seen, b) = Inr (seen1, b1)"
    and r: "foldR (check_incoming f c i bb dst t) incomings (seen1, b1) = Inr (seen', b')" by (auto simp: rbind_eq_Inr x)
  from one obtain p b2 where p: "cfg_indices c u = Some p" "p \<in> set (cfg_predecessors c ! i)" "verify_operand f v t = Inr ()"
    "available f c v p (length (bb_instructions (f_blocks (ix_function f) ! p))) b2 = Inr b1" "seen1 = insert p seen"
    by (auto simp: check_incoming_def rbind_eq_Inr ok_or_eq_Inr split: if_splits)
  with Cons.IH [OF r] Cons.prems(2) show ?case by (auto simp: x)
qed simp

lemma check_phi_ok:
  assumes "check_phi f c i bb past dst t incomings b = Inr b'"
  shows "\<not> past \<and> bb_id bb \<noteq> f_entry (ix_function f) \<and> is_storable t \<and> phi_ok f c i t incomings"
proof -
  from assms obtain seen where s: "\<not> past" "bb_id bb \<noteq> f_entry (ix_function f)" "is_storable t"
    "foldR (check_incoming f c i bb dst t) incomings ({}, b) = Inr (seen, b')" "card seen = length (cfg_predecessors c ! i)"
    by (auto simp: check_phi_def rbind_eq_Inr verify_type_category_def ensure_eq_Inr split: if_splits)
  note inc = check_incomings [OF s(4)]
  have "seen = set (cfg_predecessors c ! i)" if "distinct (cfg_predecessors c ! i)"
    using inc s(5) distinct_card [OF that] by (intro card_subset_eq) auto
  with inc s show ?thesis unfolding phi_ok_def by blast
qed

definition ssa_instruction_ok :: "indexed \<Rightarrow> cfg \<Rightarrow> usize \<Rightarrow> basic_block \<Rightarrow> usize \<Rightarrow> instruction \<Rightarrow> bool" where
  "ssa_instruction_ok f c i bb position ins \<longleftrightarrow>
     (case ins of
        Phi dst t incomings \<Rightarrow> bb_id bb \<noteq> f_entry (ix_function f) \<and> is_storable t \<and> phi_ok f c i t incomings
      | _ \<Rightarrow> \<forall>v\<in>set (instr_uses ins). \<exists>b b'. available f c v i position b = Inr b')"

lemma foldR_each: "foldR g xs s = Inr t \<Longrightarrow> \<forall>x\<in>set xs. \<exists>s t. g x s = Inr t"
  by (induction xs arbitrary: s) (auto simp: rbind_eq_Inr)

lemma case_phi: "\<not> is_phi ins \<Longrightarrow> (case ins of Phi d t incs \<Rightarrow> h d t incs | _ \<Rightarrow> g) = g"
  by (cases ins) simp_all

lemma check_ssa_instructionE:
  assumes "check_ssa_instruction f c i bb (position, ins) (past, b) = Inr (past', b')"
  shows "past' = (past \<or> \<not> is_phi ins) \<and> (past \<longrightarrow> \<not> is_phi ins) \<and> ssa_instruction_ok f c i bb position ins"
proof (cases "is_phi ins")
  case True
  then obtain dst t incomings where ins: "ins = Phi dst t incomings" by (cases ins) auto
  with assms obtain b1 where "check_phi f c i bb past dst t incomings b1 = Inr b'" "past' = past"
    by (auto simp: check_ssa_instruction_def rbind_eq_Inr)
  with check_phi_ok [OF this(1)] ins show ?thesis by (simp add: ssa_instruction_ok_def)
next
  case False
  with assms obtain b1 where "foldR (\<lambda>v b. available f c v i position b) (instr_uses ins) b1 = Inr b'" "past'"
    unfolding check_ssa_instruction_def prod.case case_phi [OF False] by (auto simp: rbind_eq_Inr)
  with foldR_each [OF this(1)] False show ?thesis by (simp add: ssa_instruction_ok_def case_phi)
qed

lemma check_ssa_instructions:
  assumes "foldR (check_ssa_instruction f c i bb) (enumerate k inss) (past, b) = Inr (past', b')"
  shows "(\<forall>j<length inss. ssa_instruction_ok f c i bb (k + j) (inss ! j))
    \<and> (\<forall>j<length inss. is_phi (inss ! j) \<longrightarrow> \<not> past \<and> (\<forall>l\<le>j. is_phi (inss ! l)))"
  using assms
proof (induction inss arbitrary: k past b)
  case (Cons ins inss)
  from Cons.prems obtain past1 b1 where one: "check_ssa_instruction f c i bb (k, ins) (past, b) = Inr (past1, b1)"
    and r: "foldR (check_ssa_instruction f c i bb) (enumerate (Suc k) inss) (past1, b1) = Inr (past', b')"
    by (auto simp: rbind_eq_Inr)
  note e = check_ssa_instructionE [OF one] and ih = Cons.IH [OF r]
  have "ssa_instruction_ok f c i bb (k + j) ((ins # inss) ! j)" if "j < length (ins # inss)" for j
    using that e ih by (cases j) auto
  moreover have "\<not> past \<and> (\<forall>l\<le>j. is_phi ((ins # inss) ! l))" if "j < length (ins # inss)" "is_phi ((ins # inss) ! j)" for j
  proof (cases j)
    case (Suc m)
    with that ih have "\<not> past1" "\<forall>l\<le>m. is_phi (inss ! l)" by auto
    with e Suc show ?thesis by (auto simp: nth_Cons split: nat.splits)
  qed (use that e in auto)
  ultimately show ?case by blast
qed simp

definition ssa_ok :: "indexed \<Rightarrow> cfg \<Rightarrow> usize \<Rightarrow> bool" where
  "ssa_ok f c entry \<longleftrightarrow>
     cfg_facts (ix_function f) c entry
     \<and> (\<forall>i<length (f_blocks (ix_function f)). let bb = f_blocks (ix_function f) ! i in
          (\<forall>j<length (bb_instructions bb). ssa_instruction_ok f c i bb j (bb_instructions bb ! j)
             \<and> (is_phi (bb_instructions bb ! j) \<longrightarrow> (\<forall>l\<le>j. is_phi (bb_instructions bb ! l))))
          \<and> (\<forall>t v. bb_terminator bb = Some t \<longrightarrow> terminator_uses t = Some v \<longrightarrow>
               (\<exists>b b'. available f c v i (length (bb_instructions bb)) b = Inr b')))"

lemma cfg_verify_ssa_ok:
  assumes "cfg_verify f b = Inr b'"
  obtains c entry where "ssa_ok f c entry"
proof -
  from assms obtain c b1 where c: "cfg_new f b = Inr (c, b1)"
    and r: "foldR (check_ssa_block f c) (enumerate 0 (f_blocks (ix_function f))) b1 = Inr b'"
    by (auto simp: cfg_verify_def rbind_eq_Inr)
  obtain entry where e: "cfg_facts (ix_function f) c entry" using cfg_new_facts [OF c] by blast
  have "(\<forall>j<length (bb_instructions bb). ssa_instruction_ok f c i bb j (bb_instructions bb ! j)
             \<and> (is_phi (bb_instructions bb ! j) \<longrightarrow> (\<forall>l\<le>j. is_phi (bb_instructions bb ! l))))
          \<and> (\<forall>t v. bb_terminator bb = Some t \<longrightarrow> terminator_uses t = Some v \<longrightarrow>
               (\<exists>b b'. available f c v i (length (bb_instructions bb)) b = Inr b'))"
    if "i < length (f_blocks (ix_function f))" and bb: "bb = f_blocks (ix_function f) ! i" for i bb
  proof -
    from foldR_each [OF r] that obtain b2 b3 where "check_ssa_block f c (i, bb) b2 = Inr b3"
      by (fastforce simp: in_set_enumerate_eq)
    then obtain past b4 t where k: "foldR (check_ssa_instruction f c i bb) (enumerate 0 (bb_instructions bb)) (False, b2) = Inr (past, b4)"
      "bb_terminator bb = Some t"
      "(case terminator_uses t of Some v \<Rightarrow> available f c v i (length (bb_instructions bb)) b4 | None \<Rightarrow> Inr b4) = Inr b3"
      by (auto simp: check_ssa_block_def rbind_eq_Inr ok_or_eq_Inr)
    show ?thesis using check_ssa_instructions [OF k(1)] k(2,3) by (auto split: option.splits)
  qed
  with e show ?thesis by (intro that [of c entry]) (simp add: ssa_ok_def Let_def)
qed

text \<open>Where a block uses a value: an instruction at its position, the terminator after the
  last one, and the input of a phi at the end of the predecessor it names.\<close>

fun phi_inputs :: "instruction \<Rightarrow> (value_id \<times> block_id) list" where
  "phi_inputs (Phi _ _ incomings) = incomings"
| "phi_inputs _ = []"

definition operand_used :: "basic_block list \<Rightarrow> usize \<Rightarrow> usize \<Rightarrow> value_id \<Rightarrow> bool" where
  "operand_used blocks i position v \<longleftrightarrow>
     (let bb = blocks ! i in
      position < length (bb_instructions bb) \<and> \<not> is_phi (bb_instructions bb ! position)
        \<and> v \<in> set (instr_uses (bb_instructions bb ! position))
      \<or> position = length (bb_instructions bb) \<and> Option.bind (bb_terminator bb) terminator_uses = Some v
      \<or> position = length (bb_instructions bb)
        \<and> (\<exists>j<length blocks. \<exists>ins\<in>set (bb_instructions (blocks ! j)). \<exists>(w, u)\<in>set (phi_inputs ins).
             w = v \<and> block_indices blocks u = Some i))"

lemma ssa_ok_ready:
  assumes ok: "ssa_ok f c entry" and i: "i < length (f_blocks (ix_function f))" "cfg_idom c ! i \<noteq> None"
    and use: "operand_used (f_blocks (ix_function f)) i position v"
  shows "value_ready (ix_function f) c v i position"
proof -
  let ?blocks = "f_blocks (ix_function f)"
  have facts: "cfg_facts (ix_function f) c entry" using ok by (simp add: ssa_ok_def)
  note ready = available_ready [OF facts _ i(2,1)]
  from use consider
      (instr) "position < length (bb_instructions (?blocks ! i))" "\<not> is_phi (bb_instructions (?blocks ! i) ! position)"
        "v \<in> set (instr_uses (bb_instructions (?blocks ! i) ! position))"
    | (final) "position = length (bb_instructions (?blocks ! i))" "Option.bind (bb_terminator (?blocks ! i)) terminator_uses = Some v"
    | (phi) j k u where "position = length (bb_instructions (?blocks ! i))" "j < length ?blocks" "k < length (bb_instructions (?blocks ! j))"
        "(v, u) \<in> set (phi_inputs (bb_instructions (?blocks ! j) ! k))" "block_indices ?blocks u = Some i"
    unfolding operand_used_def Let_def by (auto simp: in_set_conv_nth) blast
  then show ?thesis
  proof cases
    case instr
    have "ssa_instruction_ok f c i (?blocks ! i) position (bb_instructions (?blocks ! i) ! position)"
      using ok i(1) instr(1) by (auto simp: ssa_ok_def Let_def)
    then show ?thesis using instr ready unfolding ssa_instruction_ok_def case_phi [OF instr(2)] by blast
  next
    case final
    then obtain t where "bb_terminator (?blocks ! i) = Some t" "terminator_uses t = Some v" by (auto simp: bind_eq_Some_conv)
    with ok i(1) final(1) ready show ?thesis by (fastforce simp: ssa_ok_def Let_def)
  next
    case phi
    have "ssa_instruction_ok f c j (?blocks ! j) k (bb_instructions (?blocks ! j) ! k)"
      using ok phi(2,3) by (auto simp: ssa_ok_def Let_def)
    moreover obtain dst t incs where ins: "bb_instructions (?blocks ! j) ! k = Phi dst t incs" "(v, u) \<in> set incs"
      using phi(4) by (cases "bb_instructions (?blocks ! j) ! k") auto
    ultimately obtain b b' where "available f c v i (length (bb_instructions (?blocks ! i))) b = Inr b'"
      using phi(5) facts unfolding ssa_instruction_ok_def phi_ok_def cfg_facts_def by fastforce
    with ready phi(1) show ?thesis by blast
  qed
qed

text \<open>C39. The dominance query never overstates: when the analysis of a function succeeds and
  its query answers that one block dominates another, then every path of branches from the
  entry to the second block goes through the first.\<close>

theorem dominance_query_sound:
  assumes "cfg_new f b = Inr (c, b1)" "cfg_indices c (f_entry (ix_function f)) = Some entry"
    "dominates c d u b2 = Inr (True, b3)" "d < length (f_blocks (ix_function f))" "entry_path (f_blocks (ix_function f)) entry p u"
  shows "d \<in> set p"
proof -
  obtain e where e: "cfg_facts (ix_function f) c e" using cfg_new_facts [OF assms(1)] by blast
  then have "e = entry" using assms(2) by (simp add: cfg_facts_def)
  then have "block_indices (f_blocks (ix_function f)) (f_entry (ix_function f)) = Some entry" using e by (simp add: cfg_facts_def)
  then have u: "u < length (f_blocks (ix_function f))" by (rule reaches_range) (use assms(5) in \<open>auto simp: reaches_def\<close>)
  have "nested (cfg_intervals c) d u" using dominates_nested [OF assms(3)] by simp
  with e assms(4) u have "idom_ancestor (cfg_idom c) u d" by (simp add: cfg_facts_def)
  with cfg_facts_paths(2) [OF e, of u d] assms(5) \<open>e = entry\<close> show ?thesis
    unfolding reaches_def path_dominates_def by blast
qed

text \<open>C40. Verified functions are in SSA form: when the control-flow checks accept a function,
  every value used in a reachable block, by an instruction, by the terminator or by a phi of a
  successor, is a parameter, or is the result of an instruction earlier in the same block, or of
  an instruction of another block that lies on every path from the entry.\<close>

theorem accepted_uses_are_defined:
  assumes "cfg_verify f b = Inr b'" "block_indices (f_blocks (ix_function f)) (f_entry (ix_function f)) = Some entry"
    "reaches (f_blocks (ix_function f)) entry i" "operand_used (f_blocks (ix_function f)) i position v"
  shows "v \<in> p_id ` set (f_params (ix_function f))
    \<or> (\<exists>d q t. q < length (bb_instructions (f_blocks (ix_function f) ! d))
         \<and> instr_result (bb_instructions (f_blocks (ix_function f) ! d) ! q) = Some (v, t)
         \<and> (if d = i then q < position else path_dominates (f_blocks (ix_function f)) entry d i))"
proof -
  obtain c e where ok: "ssa_ok f c e" using cfg_verify_ssa_ok [OF assms(1)] .
  then have facts: "cfg_facts (ix_function f) c entry" using assms(2) by (simp add: ssa_ok_def cfg_facts_def)
  have i: "i < length (f_blocks (ix_function f))" using reaches_range [OF assms(2,3)] .
  have ready: "value_ready (ix_function f) c v i position"
    using ssa_ok_ready [OF ok i _ assms(4)] cfg_facts_paths(1) [OF facts assms(3)] by blast
  then obtain def where def: "ssa_definitions (ix_function f) v = Some def" by (auto simp: value_ready_def split: option.splits)
  from ssa_definitions_cases [OF def] show ?thesis
  proof (elim disjE conjE exE)
    fix d q t
    assume d: "def = Some (d, q)" "q < length (bb_instructions (f_blocks (ix_function f) ! d))"
      "instr_result (bb_instructions (f_blocks (ix_function f) ! d) ! q) = Some (v, t)"
    have "if d = i then q < position else path_dominates (f_blocks (ix_function f)) entry d i"
      using ready def d(1) cfg_facts_paths(2) [OF facts assms(3)] by (auto simp: value_ready_def)
    with d show ?thesis by blast
  qed simp
qed

text \<open>A branch on a constant whose arms meet again, and a use after the meeting.\<close>

definition diamond :: ir_function where
  "diamond =
     \<lparr>f_id = FunctionId 0, f_name = ''diamond'', f_params = [], f_ret_ty = Bool,
      f_blocks =
        [\<lparr>bb_id = BlockId 0, bb_name = ''a'', bb_instructions = [Const (ValueId 1) Bool (ConstBool True)],
          bb_terminator = Some (CBr (ValueId 1) (BlockId 1) (BlockId 2))\<rparr>,
         \<lparr>bb_id = BlockId 1, bb_name = ''b'', bb_instructions = [], bb_terminator = Some (Br (BlockId 3))\<rparr>,
         \<lparr>bb_id = BlockId 2, bb_name = ''c'', bb_instructions = [], bb_terminator = Some (Br (BlockId 3))\<rparr>,
         \<lparr>bb_id = BlockId 3, bb_name = ''d'', bb_instructions = [Mov (ValueId 2) Bool (ValueId 1)],
          bb_terminator = Some (Ret Bool (Some (ValueId 2)))\<rparr>],
      f_entry = BlockId 0, f_value_types = [(ValueId 1, Bool), (ValueId 2, Bool)]\<rparr>"

definition sample_analysis :: analysis where
  "sample_analysis = \<lparr>an_limit = 100, an_work = 0, an_queries = 0\<rparr>"

lemma diamond_indices: "block_indices (f_blocks diamond) =
   [BlockId 0 \<mapsto> 0, BlockId 1 \<mapsto> 1, BlockId 2 \<mapsto> 2, BlockId 3 \<mapsto> 3]"
  by (simp add: block_indices_def diamond_def eval_nat_numeral)

lemmas cfg_eval = find_edges_def block_indices_def block_edges_def add_edge_def charge_def push_at_def
  block_ranks_def idom_loop.simps update_idom_def meet_predecessor_def intersect.simps add_child_def

lemma diamond_cfg:
  "\<exists>c b. cfg_new (indexed_new diamond) sample_analysis = Inr (c, b) \<and> cfg_indices c (BlockId 0) = Some 0
     \<and> nested (cfg_intervals c) 0 3 \<and> an_work b < an_limit b"
  by (simp add: cfg_new_def indexed_new_def diamond_def Let_def)
    (simp add: sample_analysis_def cfg_eval nested_def)

lemma diamond_path: "entry_path (f_blocks diamond) 0 [0, 2, 3] 3"
proof -
  have "flow (f_blocks diamond) 0 2" unfolding flow_def diamond_indices
    by (intro conjI exI [of _ "CBr (ValueId 1) (BlockId 1) (BlockId 2)"] exI [of _ "BlockId 2"]) (simp_all add: diamond_def)
  moreover have "flow (f_blocks diamond) 2 3" unfolding flow_def diamond_indices by (simp add: diamond_def)
  ultimately show ?thesis using entry_path.step [OF entry_path.step [OF entry_path.start, of "f_blocks diamond" 0 2], of 3] by simp
qed

theorem dominance_query_sound_witness:
  "\<exists>c b b'. cfg_new (indexed_new diamond) sample_analysis = Inr (c, b) \<and> dominates c 0 3 b = Inr (True, b') \<and> 0 \<in> set [0, 2, 3 :: nat]"
proof -
  obtain c b where c: "cfg_new (indexed_new diamond) sample_analysis = Inr (c, b)" "cfg_indices c (BlockId 0) = Some 0"
    "nested (cfg_intervals c) 0 3" "an_work b < an_limit b"
    using diamond_cfg by blast
  then obtain b' where d: "dominates c 0 3 b = Inr (True, b')" by (auto simp: dominates_def charge_def nested_def)
  have "cfg_indices c (f_entry diamond) = Some 0" using c(2) by (simp add: diamond_def)
  with dominance_query_sound [OF c(1) _ d, of 0 "[0, 2, 3]"] diamond_path
  have "0 < length (f_blocks diamond) \<Longrightarrow> 0 \<in> set [0, 2, 3 :: nat]" by (simp add: indexed_new_def)
  then have "0 \<in> set [0, 2, 3 :: nat]" by (simp add: diamond_def)
  with c(1) d show ?thesis by blast
qed

lemma diamond_accepted: "is_ok (cfg_verify (indexed_new diamond) sample_analysis)"
  by (simp add: cfg_verify_def cfg_new_def indexed_new_def diamond_def Let_def)
    (simp add: sample_analysis_def cfg_eval check_ssa_block_def check_ssa_instruction_def available_def
      ssa_definitions_def block_definitions_def dominates_def is_ok_def)

theorem accepted_uses_are_defined_witness:
  "\<exists>d q t. instr_result (bb_instructions (f_blocks diamond ! d) ! q) = Some (ValueId 1, t)
     \<and> (if d = 3 then q < 0 else path_dominates (f_blocks diamond) 0 d 3)"
proof -
  obtain b' where v: "cfg_verify (indexed_new diamond) sample_analysis = Inr b'"
    using diamond_accepted by (auto simp: is_ok_iff)
  have f: "ix_function (indexed_new diamond) = diamond" by (simp add: indexed_new_def)
  have "block_indices (f_blocks diamond) (f_entry diamond) = Some 0" unfolding diamond_indices by (simp add: diamond_def)
  moreover have "reaches (f_blocks diamond) 0 3" unfolding reaches_def using diamond_path by blast
  moreover have "operand_used (f_blocks diamond) 3 0 (ValueId 1)" by (simp add: operand_used_def diamond_def)
  ultimately show ?thesis using accepted_uses_are_defined [OF v, unfolded f, of 0 3 0 "ValueId 1"]
    by (fastforce simp: diamond_def [THEN arg_cong [where f = f_params]])
qed

end
