(* ===== verification/AsmText.thy ===== *)
theory AsmText
  imports Bytes
begin

text \<open>
  The string operations of the assemblers: a \<open>&str\<close> is the list of its UTF-8 bytes, one
  character for each byte.  White space is Unicode white space, given by its byte sequences; a
  lead byte is never a continuation byte, so searching bytes finds the same places as
  searching characters.
\<close>

subsection \<open>White space\<close>

definition byte_of :: "char \<Rightarrow> nat" where
  "byte_of c = of_char c"

text \<open>The length of the white-space character at the front, or zero: U+0009 to U+000D, U+0020,
  U+0085, U+00A0, U+1680, U+2000 to U+200A, U+2028, U+2029, U+202F, U+205F and U+3000.\<close>

fun ws_len :: "nat list \<Rightarrow> nat" where
  "ws_len [] = 0"
| "ws_len (a # bs) =
     (if 9 \<le> a \<and> a \<le> 13 \<or> a = 32 then 1
      else
        case bs of
          [] \<Rightarrow> 0
        | b # cs \<Rightarrow>
            (if a = 0xC2 then if b = 0x85 \<or> b = 0xA0 then 2 else 0
             else
               case cs of
                 [] \<Rightarrow> 0
               | c # _ \<Rightarrow>
                   if a = 0xE1 \<and> b = 0x9A \<and> c = 0x80
                     \<or> a = 0xE2 \<and> b = 0x80 \<and> (0x80 \<le> c \<and> c \<le> 0x8A \<or> c = 0xA8 \<or> c = 0xA9 \<or> c = 0xAF)
                     \<or> a = 0xE2 \<and> b = 0x81 \<and> c = 0x9F
                     \<or> a = 0xE3 \<and> b = 0x80 \<and> c = 0x80
                   then 3 else 0))"

lemma ws_len_le: "ws_len bs \<le> length bs"
  by (cases bs rule: ws_len.cases) (auto split: list.splits)

definition starts_white :: "string \<Rightarrow> nat" where
  "starts_white s = ws_len (map byte_of (take 3 s))"

lemma starts_white_le: "starts_white s \<le> length s"
  using ws_len_le [of "map byte_of (take 3 s)"] by (simp add: starts_white_def)

lemma starts_white_pos: "starts_white s \<noteq> 0 \<Longrightarrow> 0 < length s"
  using starts_white_le [of s] by (cases s) auto

text \<open>The length of the white-space character at the back.\<close>

definition ends_white :: "string \<Rightarrow> nat" where
  "ends_white s =
     (case find (\<lambda>k. k \<le> length s \<and> starts_white (drop (length s - k) s) = k) [1, 2, 3] of
        Some k \<Rightarrow> k | None \<Rightarrow> 0)"

lemma ends_white_pos: "ends_white s \<noteq> 0 \<Longrightarrow> 0 < length s"
  by (cases s) (auto simp: ends_white_def find_Some_iff split: option.splits)

function trim_start :: "string \<Rightarrow> string" where
  "trim_start s = (let n = starts_white s in if n = 0 then s else trim_start (drop n s))"
  by pat_completeness auto
termination
  by (relation "measure length") (use starts_white_pos in \<open>auto simp: Let_def\<close>)

function trim_end :: "string \<Rightarrow> string" where
  "trim_end s = (let n = ends_white s in if n = 0 then s else trim_end (take (length s - n) s))"
  by pat_completeness auto
termination
proof (relation "measure length")
  fix s n assume "n = ends_white s" "n \<noteq> 0"
  then show "(take (length s - n) s, s) \<in> measure length" using ends_white_pos [of s] by auto
qed simp

declare trim_start.simps [simp del] trim_end.simps [simp del]

definition trim :: "string \<Rightarrow> string" where
  "trim s = trim_end (trim_start s)"

lemma length_trim_start: "length (trim_start s) \<le> length s"
proof (induction s rule: trim_start.induct)
  case (1 s)
  then show ?case by (subst trim_start.simps) (auto simp: Let_def intro: le_trans)
qed

lemma starts_white_trim_start: "starts_white (trim_start s) = 0"
proof (induction s rule: trim_start.induct)
  case (1 s)
  then show ?case by (subst trim_start.simps) (auto simp: Let_def)
qed

lemma length_trim_end: "length (trim_end s) \<le> length s"
proof (induction s rule: trim_end.induct)
  case (1 s)
  then show ?case by (subst trim_end.simps) (auto simp: Let_def intro: le_trans)
qed

lemma length_trim: "length (trim s) \<le> length s"
  using length_trim_end [of "trim_start s"] length_trim_start [of s] by (simp add: trim_def)

subsection \<open>Searching and splitting\<close>

text \<open>\<open>find\<close>, \<open>strip_prefix\<close>, \<open>strip_suffix\<close>, \<open>starts_with\<close> and \<open>ends_with\<close>.\<close>

fun find_str :: "string \<Rightarrow> string \<Rightarrow> usize option" where
  "find_str pat [] = (if pat = [] then Some 0 else None)"
| "find_str pat (c # cs) =
     (if take (length pat) (c # cs) = pat then Some 0 else map_option Suc (find_str pat cs))"

definition starts_with :: "string \<Rightarrow> string \<Rightarrow> bool" where
  "starts_with s pat \<longleftrightarrow> take (length pat) s = pat"

definition ends_with :: "string \<Rightarrow> string \<Rightarrow> bool" where
  "ends_with s pat \<longleftrightarrow> length pat \<le> length s \<and> drop (length s - length pat) s = pat"

definition strip_prefix :: "string \<Rightarrow> string \<Rightarrow> string option" where
  "strip_prefix pat s = (if starts_with s pat then Some (drop (length pat) s) else None)"

definition strip_suffix :: "string \<Rightarrow> string \<Rightarrow> string option" where
  "strip_suffix pat s = (if ends_with s pat then Some (take (length s - length pat) s) else None)"

definition unwrap_or :: "'a option \<Rightarrow> 'a \<Rightarrow> 'a" where
  "unwrap_or x y = (case x of Some z \<Rightarrow> z | None \<Rightarrow> y)"

text \<open>\<open>find(char::is_whitespace)\<close>.\<close>

fun find_white :: "string \<Rightarrow> usize option" where
  "find_white [] = None"
| "find_white (c # cs) = (if starts_white (c # cs) \<noteq> 0 then Some 0 else map_option Suc (find_white cs))"

text \<open>\<open>split_whitespace\<close>.\<close>

function split_white :: "string \<Rightarrow> string list" where
  "split_white s =
     (let t = trim_start s in
      if t = [] then []
      else case find_white t of
        None \<Rightarrow> [t]
      | Some n \<Rightarrow> take n t # split_white (drop n t))"
  by pat_completeness auto
termination
proof (relation "measure length")
  fix s t :: string and n
  assume t: "t = trim_start s" "t \<noteq> []" "find_white t = Some n"
  have "starts_white t = 0" using t(1) starts_white_trim_start by simp
  then have "n \<noteq> 0" using t(2,3) by (cases t) auto
  moreover have "0 < length t" "length t \<le> length s" using t(1,2) length_trim_start [of s] by simp_all
  ultimately show "(drop n t, s) \<in> measure length" unfolding in_measure length_drop by linarith
qed simp

declare split_white.simps [simp del]

text \<open>\<open>split_inclusive\<close> at newlines.\<close>

fun split_lines :: "string \<Rightarrow> string list" where
  "split_lines [] = []"
| "split_lines (c # cs) =
     (if c = CHR 0x0A then [c] # split_lines cs
      else case split_lines cs of [] \<Rightarrow> [[c]] | l # ls \<Rightarrow> (c # l) # ls)"

lemma concat_split_lines: "concat (split_lines s) = s"
  by (induction s) (auto split: list.splits)

text \<open>\<open>trim_end_matches\<close> of carriage returns and newlines.\<close>

definition trim_newline :: "string \<Rightarrow> string" where
  "trim_newline s = rev (dropWhile (\<lambda>c. c = CHR 0x0D \<or> c = CHR 0x0A) (rev s))"

subsection \<open>ASCII classes\<close>

definition is_ascii_digit :: "char \<Rightarrow> bool" where
  "is_ascii_digit c \<longleftrightarrow> 48 \<le> byte_of c \<and> byte_of c \<le> 57"

definition is_ascii_alphabetic :: "char \<Rightarrow> bool" where
  "is_ascii_alphabetic c \<longleftrightarrow> 65 \<le> byte_of c \<and> byte_of c \<le> 90 \<or> 97 \<le> byte_of c \<and> byte_of c \<le> 122"

definition is_ascii_alphanumeric :: "char \<Rightarrow> bool" where
  "is_ascii_alphanumeric c \<longleftrightarrow> is_ascii_alphabetic c \<or> is_ascii_digit c"

definition to_ascii_lowercase :: "string \<Rightarrow> string" where
  "to_ascii_lowercase s = map (\<lambda>c. if 65 \<le> byte_of c \<and> byte_of c \<le> 90 then char_of (byte_of c + 32) else c) s"

subsection \<open>Numbers\<close>

definition digit_value :: "nat \<Rightarrow> char \<Rightarrow> nat option" where
  "digit_value radix c =
     (let b = byte_of c;
          d = (if is_ascii_digit c then b - 48 else if 97 \<le> b \<and> b \<le> 122 then b - 87
               else if 65 \<le> b \<and> b \<le> 90 then b - 55 else 36)
      in if d < radix then Some d else None)"

definition digits_value :: "nat \<Rightarrow> string \<Rightarrow> nat option" where
  "digits_value radix s =
     (if s = [] then None
      else fold (\<lambda>c acc. case acc of None \<Rightarrow> None
                  | Some n \<Rightarrow> map_option (\<lambda>d. n * radix + d) (digit_value radix c)) s (Some 0))"

text \<open>\<open>i128::from_str_radix\<close> accepts a sign; the result must fit.\<close>

definition i128_from_str_radix :: "nat \<Rightarrow> string \<Rightarrow> int option" where
  "i128_from_str_radix radix s =
     (case s of
        c # cs \<Rightarrow>
          if c = CHR ''-'' then
            Option.bind (digits_value radix cs) (\<lambda>n. if n \<le> 2 ^ 127 then Some (- int n) else None)
          else
            Option.bind (digits_value radix (if c = CHR ''+'' then cs else s))
              (\<lambda>n. if n < 2 ^ 127 then Some (int n) else None)
      | [] \<Rightarrow> None)"

text \<open>\<open>str::parse::<u32>\<close>.\<close>

definition parse_u32 :: "string \<Rightarrow> nat option" where
  "parse_u32 s =
     Option.bind (digits_value 10 (case s of c # cs \<Rightarrow> if c = CHR ''+'' then cs else s | [] \<Rightarrow> s))
       (\<lambda>n. if n < 2 ^ 32 then Some n else None)"

subsection \<open>Evaluating the string operations\<close>

text \<open>On the characters of ASCII the trimming functions have simple equations.\<close>

definition printable :: "char \<Rightarrow> bool" where
  "printable c \<longleftrightarrow> 33 \<le> byte_of c \<and> byte_of c < 128"
definition blank :: "char \<Rightarrow> bool" where
  "blank c \<longleftrightarrow> 9 \<le> byte_of c \<and> byte_of c \<le> 13 \<or> byte_of c = 32"

lemma starts_white_eval:
  "starts_white [] = 0"
  "printable c \<Longrightarrow> starts_white (c # cs) = 0"
  "blank c \<Longrightarrow> starts_white (c # cs) = 1"
  by (auto simp: starts_white_def printable_def blank_def split: list.splits)

lemma trim_start_eval:
  "trim_start [] = []"
  "printable c \<Longrightarrow> trim_start (c # cs) = c # cs"
  "blank c \<Longrightarrow> trim_start (c # cs) = trim_start cs"
  by (subst trim_start.simps, simp add: starts_white_eval)+

lemma starts_white_last:
  assumes "u \<noteq> []" "length u \<le> 3" "printable (last u)"
  shows "starts_white u \<noteq> length u"
proof -
  from assms consider a where "u = [a]" | a b where "u = [a, b]" | a b c where "u = [a, b, c]"
    by (cases u; cases "tl u"; cases "tl (tl u)"; cases "tl (tl (tl u))") auto
  then show ?thesis using assms(3) by cases (auto simp: starts_white_def printable_def)
qed

lemma ends_white_eval:
  "s \<noteq> [] \<Longrightarrow> printable (last s) \<Longrightarrow> ends_white s = 0"
  "s \<noteq> [] \<Longrightarrow> blank (last s) \<Longrightarrow> ends_white s = 1"
proof -
  assume s: "s \<noteq> []" and p: "printable (last s)"
  have "\<not> (k \<le> length s \<and> starts_white (drop (length s - k) s) = k)" if "1 \<le> k" "k \<le> 3" for k
  proof -
    have "length s - k < length s" using s that by (cases s) auto
    then show ?thesis using starts_white_last [of "drop (length s - k) s"] that p by (auto simp: last_drop)
  qed
  from this [of 1] this [of 2] this [of 3] show "ends_white s = 0" by (simp add: ends_white_def)
next
  assume s: "s \<noteq> []" and p: "blank (last s)"
  then obtain t c where t: "s = t @ [c]" "blank c" by (metis append_butlast_last_id)
  then show "ends_white s = 1" by (simp add: ends_white_def starts_white_eval)
qed

lemma trim_end_eval:
  "trim_end [] = []"
  "s \<noteq> [] \<Longrightarrow> printable (last s) \<Longrightarrow> trim_end s = s"
  "s \<noteq> [] \<Longrightarrow> blank (last s) \<Longrightarrow> trim_end s = trim_end (butlast s)"
proof -
  show "trim_end [] = []" by (subst trim_end.simps) (simp add: ends_white_def starts_white_eval)
  show "s \<noteq> [] \<Longrightarrow> printable (last s) \<Longrightarrow> trim_end s = s"
    by (subst trim_end.simps) (simp add: ends_white_eval)
  show "s \<noteq> [] \<Longrightarrow> blank (last s) \<Longrightarrow> trim_end s = trim_end (butlast s)"
    by (subst trim_end.simps) (simp add: ends_white_eval butlast_conv_take)
qed

lemma split_white_eval:
  "trim_start s = [] \<Longrightarrow> split_white s = []"
  "trim_start s = c # cs \<Longrightarrow> find_white (c # cs) = None \<Longrightarrow> split_white s = [c # cs]"
  "trim_start s = c # cs \<Longrightarrow> find_white (c # cs) = Some n \<Longrightarrow>
     split_white s = take n (c # cs) # split_white (drop n (c # cs))"
  by (subst split_white.simps, simp del: find_white.simps add: Let_def)+

lemmas text_defs [exec_simps] =
  byte_of_def printable_def blank_def starts_white_eval trim_start_eval trim_end_eval trim_def starts_with_def
  ends_with_def strip_prefix_def strip_suffix_def unwrap_or_def split_white_eval trim_newline_def
  is_ascii_digit_def is_ascii_alphabetic_def is_ascii_alphanumeric_def to_ascii_lowercase_def
  digit_value_def digits_value_def i128_from_str_radix_def parse_u32_def

text \<open>Evaluating a character given by its code.\<close>

lemma char_of_code [exec_simps]:
  "char_of (numeral k :: nat) =
     Char (odd (numeral k :: nat)) (odd (numeral k div 2 :: nat)) (odd (numeral k div 4 :: nat))
       (odd (numeral k div 8 :: nat)) (odd (numeral k div 16 :: nat)) (odd (numeral k div 32 :: nat))
       (odd (numeral k div 64 :: nat)) (odd (numeral k div 128 :: nat))"
  by (simp add: char_of_def bit_iff_odd)

lemma find_str_bound: "find_str pat s = Some n \<Longrightarrow> pat \<noteq> [] \<Longrightarrow> n + length pat \<le> length s"
proof (induction s arbitrary: n)
  case (Cons c cs)
  show ?case
  proof (cases "take (length pat) (c # cs) = pat")
    case True
    then have "length pat \<le> length (c # cs)" by (metis length_take min.cobounded1)
    with True Cons.prems show ?thesis by simp
  next
    case False
    with Cons show ?thesis by auto
  qed
qed (auto split: if_splits)

end
