(* ===== verification/AsmFixed.thy ===== *)
theory AsmFixed
  imports AsmText OrderedMap "HOL-Library.List_Lexorder" "HOL-Library.Char_ord"
begin

text \<open>
  The two-pass assembler that the fixed-width instruction sets share,
  \<open>assembler/src/fixed.rs\<close>, with the output types of \<open>assembler.rs\<close> and the errors of
  \<open>error.rs\<close>.  The first pass reads the source line by line and assigns an offset to every
  record and label; the second encodes the records against the complete symbol table.  The
  instruction set is a record of functions, the \<open>FixedIsa\<close> trait.
\<close>

subsection \<open>Errors\<close>

record source_span =
  span_start :: usize
  span_end :: usize
  span_line :: usize
  span_column :: usize

text \<open>The message of an error: its fixed text, and the name or number that the format inserts.\<close>

datatype asm_message = Fixed string | Named string string | Counted string nat

datatype asm_error =
    LexerError asm_message
  | ParserError asm_message
  | EncodeError asm_message
  | SymbolError asm_message
  | UnexpectedToken asm_message
  | AsmDiagnostic string source_span "source_span option" asm_error

definition asm_at :: "asm_error \<Rightarrow> string \<Rightarrow> source_span \<Rightarrow> source_span option \<Rightarrow> asm_error" where
  "asm_at e source_name span related =
     (case e of AsmDiagnostic _ _ _ _ \<Rightarrow> e | _ \<Rightarrow> AsmDiagnostic source_name span related e)"

definition with_source_name :: "asm_error \<Rightarrow> string \<Rightarrow> asm_error" where
  "with_source_name e source_name =
     (case e of AsmDiagnostic _ span related cause \<Rightarrow> AsmDiagnostic source_name span related cause | _ \<Rightarrow> e)"

definition fixed_error :: "string \<Rightarrow> asm_error" where
  "fixed_error m = EncodeError (Fixed m)"

definition named_error :: "string \<Rightarrow> string \<Rightarrow> asm_error" where
  "named_error m nm = EncodeError (Named m nm)"

definition counted_error :: "string \<Rightarrow> nat \<Rightarrow> asm_error" where
  "counted_error m n = EncodeError (Counted m n)"

subsection \<open>Output\<close>

datatype asm_section_kind = AsmText | AsmData | AsmReadOnlyData | AsmBss

definition default_for_name :: "string \<Rightarrow> asm_section_kind" where
  "default_for_name nm =
     (if nm = ''.text'' then AsmText else if nm = ''.rodata'' then AsmReadOnlyData
      else if nm = ''.bss'' then AsmBss else AsmData)"

datatype asm_symbol_kind = AsmNoType | AsmFunction | AsmObject

datatype asm_visibility = AsmDefault | AsmHidden

datatype asm_reloc_kind =
    AsmTargetSpecific string u32
  | AsmAbsolute64
  | AsmAbsolute32
  | AsmSignedAbsolute32
  | AsmRelative32
  | AsmBranch32
  | AsmRelative8

record asm_relocation =
  ar_offset :: usize
  ar_symbol :: string
  ar_kind :: asm_reloc_kind
  ar_addend :: int

record asm_section =
  as_kind :: asm_section_kind
  as_align :: u64
  as_name :: string
  as_data :: bytes
  as_zero_fill :: u64
  as_relocs :: "asm_relocation list"

record asm_symbol =
  ay_kind :: asm_symbol_kind
  ay_size :: u64
  ay_visibility :: asm_visibility
  ay_name :: string
  ay_section_index :: "usize option"
  ay_offset :: u64
  ay_is_global :: bool

record assembler_output =
  ao_sections :: "asm_section list"
  ao_symbols :: "asm_symbol list"

record assembly_limits =
  max_output_bytes :: usize
  max_relax_iterations :: usize

definition default_assembly_limits :: assembly_limits where
  "default_assembly_limits = \<lparr>max_output_bytes = 64 * 1024 * 1024, max_relax_iterations = 1024\<rparr>"

subsection \<open>Instructions and their context\<close>

record fixed_instruction =
  fi_mnemonic :: string
  fi_operands :: "string list"

record fixed_symbol =
  fy_section :: "usize option"
  fy_offset :: u64
  fy_span :: source_span

text \<open>The symbols are a \<open>BTreeMap\<close>: the list of its entries in the order of the keys.\<close>

type_synonym symbol_table = "(string \<times> fixed_symbol) list"

record fixed_context =
  cx_namespace :: string
  cx_section :: usize
  cx_offset :: u64
  cx_symbols :: symbol_table
  cx_relocations :: "asm_relocation list"

record fixed_isa =
  isa_id :: string
  isa_hash_comments :: bool
  isa_encode :: "fixed_instruction \<Rightarrow> fixed_context \<Rightarrow> asm_error + u32 \<times> fixed_context"

definition fixed_count :: "fixed_instruction \<Rightarrow> usize \<Rightarrow> asm_error + string list" where
  "fixed_count inst expected =
     (if length (fi_operands inst) \<noteq> expected then Inl (counted_error (fi_mnemonic inst @ '' requires operands'') expected)
      else Inr (fi_operands inst))"

subsection \<open>Integers and fields\<close>

definition fixed_integer :: "string \<Rightarrow> asm_error + int" where
  "fixed_integer text =
     (let text = trim (unwrap_or (strip_prefix ''#'' (trim text)) (trim text));
          (negative, text) =
            (case strip_prefix ''-'' text of
               Some s \<Rightarrow> (True, s)
             | None \<Rightarrow> (False, unwrap_or (strip_prefix ''+'' text) text));
          text = trim text
      in if text = [] \<or> \<not> is_ascii_digit (hd text) then Inl (named_error ''invalid integer'' text)
         else
           let clean = filter (\<lambda>c. c \<noteq> CHR ''_'') text;
               (digits, radix) =
                 (if starts_with clean ''0x'' \<or> starts_with clean ''0X'' then (drop 2 clean, 16)
                  else if starts_with clean ''0b'' \<or> starts_with clean ''0B'' then (drop 2 clean, 2)
                  else (clean, 10))
           in rbind (ok_or (i128_from_str_radix radix digits) (named_error ''invalid integer'' text)) (\<lambda>v.
              if negative then
                if v = - (2 ^ 127) then Inl (fixed_error ''integer overflow'') else Inr (- v)
              else Inr v))"

definition field_mask :: "nat \<Rightarrow> u32" where
  "field_mask bits = ucast (push_bit bits 1 - 1 :: u64)"

definition fixed_signed :: "string \<Rightarrow> nat \<Rightarrow> asm_error + u32" where
  "fixed_signed text bits =
     (if \<not> (1 \<le> bits \<and> bits \<le> 32) then Inl (fixed_error ''invalid immediate field width'')
      else
        rbind (fixed_integer text) (\<lambda>v.
        if v < - (2 ^ (bits - 1)) \<or> 2 ^ (bits - 1) \<le> v then Inl (counted_error ''immediate must fit signed'' bits)
        else Inr (word_of_int v AND field_mask bits)))"

definition fixed_unsigned :: "string \<Rightarrow> nat \<Rightarrow> asm_error + u32" where
  "fixed_unsigned text bits =
     (if \<not> (1 \<le> bits \<and> bits \<le> 32) then Inl (fixed_error ''invalid immediate field width'')
      else
        rbind (fixed_integer text) (\<lambda>v.
        if v < 0 \<or> 2 ^ bits \<le> v then Inl (counted_error ''immediate must fit unsigned'' bits)
        else Inr (word_of_int v)))"

text \<open>A displacement is an \<open>i64\<close>; division and remainder truncate.\<close>

definition displacement :: "int \<Rightarrow> nat \<Rightarrow> int \<Rightarrow> asm_error + u32" where
  "displacement v bits alignment =
     (if \<not> (1 \<le> bits \<and> bits \<le> 32) \<or> alignment \<le> 0 then Inl (fixed_error ''invalid displacement field'')
      else if v smod alignment \<noteq> 0 then Inl (counted_error ''branch displacement must be aligned to'' (nat alignment))
      else
        let scaled = v sdiv alignment in
        if scaled < - (2 ^ (bits - 1)) \<or> 2 ^ (bits - 1) \<le> scaled
        then Inl (counted_error ''branch displacement exceeds signed scaled range'' bits)
        else Inr (word_of_int scaled AND field_mask bits))"

definition try_i64 :: "int \<Rightarrow> string \<Rightarrow> asm_error + int" where
  "try_i64 v m = (if - (2 ^ 63) \<le> v \<and> v < 2 ^ 63 then Inr v else Inl (fixed_error m))"

subsection \<open>Expressions and operands\<close>

datatype fixed_expression = ExprNumber int | ExprSymbol string int

definition symbol_start :: "char \<Rightarrow> bool" where
  "symbol_start c \<longleftrightarrow> is_ascii_alphabetic c \<or> c = CHR ''_'' \<or> c = CHR ''.'' \<or> c = CHR ''$''"

definition symbol_char :: "char \<Rightarrow> bool" where
  "symbol_char c \<longleftrightarrow> is_ascii_alphanumeric c \<or> c = CHR ''_'' \<or> c = CHR ''.'' \<or> c = CHR ''$''"

definition fixed_identifier :: "string \<Rightarrow> asm_error + unit" where
  "fixed_identifier nm =
     (case nm of
        [] \<Rightarrow> Inl (named_error ''invalid symbol name'' nm)
      | c # cs \<Rightarrow>
          if \<not> symbol_start c \<or> \<not> list_all symbol_char cs then Inl (named_error ''invalid symbol name'' nm)
          else Inr ())"

definition fixed_expression :: "string \<Rightarrow> asm_error + fixed_expression" where
  "fixed_expression text =
     (case fixed_integer text of
        Inr v \<Rightarrow> Inr (ExprNumber v)
      | Inl _ \<Rightarrow>
          let text = trim text in
          rbind (case position (\<lambda>c. c = CHR ''+'' \<or> c = CHR ''-'') (drop 1 text) of
              Some i \<Rightarrow>
                rbind (fixed_integer (drop (Suc i) text)) (\<lambda>v.
                rbind (try_i64 v ''symbol addend exceeds i64'') (\<lambda>addend.
                Inr (trim (take (Suc i) text), addend)))
            | None \<Rightarrow> Inr (text, 0)) (\<lambda>(nm, addend).
          rbind (fixed_identifier nm) (\<lambda>_.
          Inr (ExprSymbol nm addend))))"

text \<open>Numeric operands are byte displacements.  Local labels use this instruction's address;
  cross-section and external symbols become a relocation.\<close>

definition pc_relative :: "string \<Rightarrow> u32 \<Rightarrow> fixed_context \<Rightarrow> asm_error + int \<times> fixed_context" where
  "pc_relative operand code cx =
     rbind (fixed_expression operand) (\<lambda>e.
     case e of
       ExprNumber v \<Rightarrow> rbind (try_i64 v ''branch displacement exceeds i64'') (\<lambda>v. Inr (v, cx))
     | ExprSymbol nm addend \<Rightarrow>
         rbind (ok_or (map_of (cx_symbols cx) nm) (named_error ''undefined symbol'' nm)) (\<lambda>symbol.
         if fy_section symbol = Some (cx_section cx) then
           rbind (try_i64 (uint (fy_offset symbol) + addend - uint (cx_offset cx)) ''branch displacement exceeds i64'')
             (\<lambda>v. Inr (v, cx))
         else
           Inr (0, cx\<lparr>cx_relocations := cx_relocations cx @
             [\<lparr>ar_offset = unat (cx_offset cx), ar_symbol = nm, ar_kind = AsmTargetSpecific (cx_namespace cx) code,
               ar_addend = addend\<rparr>]\<rparr>)))"

text \<open>An encoding that does not look at the context.\<close>

definition plain_word :: "fixed_context \<Rightarrow> asm_error + u32 \<Rightarrow> asm_error + u32 \<times> fixed_context" where
  "plain_word cx m = rbind m (\<lambda>w. Inr (w, cx))"

text \<open>A register name: a prefix and a canonical decimal number below a limit.\<close>

definition numbered_register :: "string \<Rightarrow> string \<Rightarrow> nat \<Rightarrow> nat option" where
  "numbered_register prefix text limit =
     Option.bind (strip_prefix prefix text) (\<lambda>n.
     if list_all is_ascii_digit n \<and> (length n = 1 \<or> \<not> starts_with n ''0'') then
       Option.bind (parse_u32 n) (\<lambda>k. if k < limit then Some k else None)
     else None)"

text \<open>The operands of a line: commas outside brackets separate them.  The state is the list of
  finished operands, the open brackets and the text of the current operand.\<close>

definition push_operand :: "string list \<Rightarrow> string \<Rightarrow> asm_error + string list" where
  "push_operand result current =
     (if 65536 \<le> length result then Inl (fixed_error ''operand count exceeds 65536'') else Inr (result @ [trim current]))"

fun scan_operands :: "string \<Rightarrow> string list \<Rightarrow> char list \<Rightarrow> string \<Rightarrow> asm_error + string list" where
  "scan_operands [] result stack current =
     (if stack \<noteq> [] then Inl (fixed_error ''unclosed memory operand'')
      else
        let result = result @ [trim current] in
        if 65536 < length result then Inl (fixed_error ''operand count exceeds 65536'') else Inr result)"
| "scan_operands (c # cs) result stack current =
     (if c = CHR ''['' \<or> c = CHR ''('' then scan_operands cs result (c # stack) (current @ [c])
      else if c = CHR '']'' \<or> c = CHR '')'' then
        (let expected = (if c = CHR '']'' then CHR ''['' else CHR ''('') in
         case stack of
           o1 # rest \<Rightarrow>
             if o1 = expected then scan_operands cs result rest (current @ [c])
             else Inl (fixed_error ''unbalanced memory operand'')
         | [] \<Rightarrow> Inl (fixed_error ''unbalanced memory operand''))
      else if c = CHR '','' \<and> stack = [] then
        rbind (push_operand result current) (\<lambda>result. scan_operands cs result stack [])
      else scan_operands cs result stack (current @ [c]))"

definition fixed_operands :: "string \<Rightarrow> asm_error + string list" where
  "fixed_operands text =
     (if trim text = [] then Inr []
      else
        rbind (scan_operands text [] [] []) (\<lambda>result.
        if list_ex (\<lambda>s. s = []) result then Inl (fixed_error ''empty operand'') else Inr result))"

subsection \<open>Records and the state of the first pass\<close>

datatype fixed_action =
    ActInstruction fixed_instruction
  | ActData usize "string list"
  | ActZero usize
  | ActAlign u64

record fixed_record =
  fr_section :: usize
  fr_offset :: u64
  fr_span :: source_span
  fr_action :: fixed_action

record fixed_state =
  fs_sections :: "asm_section list"
  fs_section_names :: "(string \<times> usize) list"
  fs_sizes :: "u64 list"
  fs_selected :: usize
  fs_symbols :: symbol_table
  fs_globals :: "(string \<times> source_span) list"
  fs_records :: "fixed_record list"
  fs_materialized :: usize

definition new_section :: "string \<Rightarrow> asm_section_kind \<Rightarrow> asm_section" where
  "new_section nm kind =
     \<lparr>as_kind = kind, as_align = if kind = AsmText then 4 else 1, as_name = nm, as_data = [], as_zero_fill = 0,
      as_relocs = []\<rparr>"

definition fixed_start :: fixed_state where
  "fixed_start =
     \<lparr>fs_sections = [new_section ''.text'' AsmText], fs_section_names = [(''.text'', 0)], fs_sizes = [0],
      fs_selected = 0, fs_symbols = [], fs_globals = [], fs_records = [], fs_materialized = 0\<rparr>"

subsection \<open>The first pass: one line\<close>

text \<open>The text of a line before its comment.\<close>

definition strip_comment :: "bool \<Rightarrow> string \<Rightarrow> string" where
  "strip_comment hash line =
     (let marks = [find_str ''//'' line, find_str '';'' line, if hash then find_str ''#'' line else None]
      in take (fold (\<lambda>m n. case m of Some i \<Rightarrow> min i n | None \<Rightarrow> n) marks (length line)) line)"

function take_labels ::
  "string \<Rightarrow> source_span \<Rightarrow> string \<Rightarrow> fixed_state \<Rightarrow> asm_error + string \<times> fixed_state" where
  "take_labels name span text st =
     (case find_str '':'' text of
        None \<Rightarrow> Inr (text, st)
      | Some colon \<Rightarrow>
          let label = trim (take colon text) in
          rbind (fixed_identifier label) (\<lambda>_.
          if 65536 \<le> length (fs_symbols st) then Inl (fixed_error ''symbol count exceeds 65536'')
          else
            case map_of (fs_symbols st) label of
              Some previous \<Rightarrow> Inl (asm_at (named_error ''duplicate symbol'' label) name span (Some (fy_span previous)))
            | None \<Rightarrow>
                take_labels name span (trim (drop (Suc colon) text))
                  (st\<lparr>fs_symbols := bt_insert label
                     \<lparr>fy_section = Some (fs_selected st), fy_offset = fs_sizes st ! fs_selected st, fy_span = span\<rparr>
                     (fs_symbols st)\<rparr>)))"
  by pat_completeness auto
termination
proof (relation "measure (\<lambda>(_, _, text, _). length text)")
  fix name line label :: string and span :: source_span and st :: fixed_state and colon :: nat and z :: unit
  assume f: "find_str '':'' line = Some colon"
  have "colon + 1 \<le> length line" using find_str_bound [OF f] by simp
  then have "length (trim (drop (Suc colon) line)) < length line"
    using length_trim [of "drop (Suc colon) line"] by simp
  then show "((name, span, trim (drop (Suc colon) line),
      st\<lparr>fs_symbols := bt_insert label
         \<lparr>fy_section = Some (fs_selected st), fy_offset = fs_sizes st ! fs_selected st, fy_span = span\<rparr> (fs_symbols st)\<rparr>),
      name, span, line, st) \<in> measure (\<lambda>(_, _, text, _). length text)" by simp
qed simp

declare take_labels.simps [simp del]

definition select_section :: "string \<Rightarrow> string \<Rightarrow> fixed_state \<Rightarrow> asm_error + fixed_state" where
  "select_section mnemonic tail st =
     rbind (if mnemonic = ''.section'' then Inr tail
            else if tail \<noteq> [] then Inl (fixed_error ''section directive takes no operands'')
            else Inr mnemonic) (\<lambda>nm.
     rbind (fixed_identifier nm) (\<lambda>_.
     case map_of (fs_section_names st) nm of
       Some index \<Rightarrow> Inr (st\<lparr>fs_selected := index\<rparr>)
     | None \<Rightarrow>
         let index = length (fs_sections st) in
         if 4096 \<le> index then Inl (fixed_error ''section count exceeds 4096'')
         else
           Inr (st\<lparr>fs_sections := fs_sections st @ [new_section nm (default_for_name nm)],
                   fs_sizes := fs_sizes st @ [0],
                   fs_section_names := bt_insert nm index (fs_section_names st),
                   fs_selected := index\<rparr>)))"

definition declare_symbol ::
  "string \<Rightarrow> source_span \<Rightarrow> string \<Rightarrow> fixed_state \<Rightarrow> asm_error + fixed_state" where
  "declare_symbol mnemonic span symbol st =
     rbind (fixed_identifier symbol) (\<lambda>_.
     if 65536 \<le> length (fs_globals st) then Inl (fixed_error ''global count exceeds 65536'')
     else
       let st = st\<lparr>fs_globals := bt_insert symbol span (fs_globals st)\<rparr> in
       if mnemonic = ''.extern'' then
         case map_of (fs_symbols st) symbol of
           Some previous \<Rightarrow>
             if fy_section previous \<noteq> None then Inl (fixed_error ''external symbol is already defined'') else Inr st
         | None \<Rightarrow>
             if 65536 \<le> length (fs_symbols st) then Inl (fixed_error ''symbol count exceeds 65536'')
             else Inr (st\<lparr>fs_symbols := bt_insert symbol \<lparr>fy_section = None, fy_offset = 0, fy_span = span\<rparr> (fs_symbols st)\<rparr>)
       else Inr st)"

definition symbol_directive ::
  "string \<Rightarrow> source_span \<Rightarrow> string \<Rightarrow> fixed_state \<Rightarrow> asm_error + fixed_state" where
  "symbol_directive mnemonic span tail st =
     rbind (fixed_operands tail) (\<lambda>names.
     if names = [] then Inl (fixed_error ''symbol directive requires a name'')
     else foldR (declare_symbol mnemonic span) names st)"

definition data_width :: "string \<Rightarrow> usize option" where
  "data_width m =
     (if m = ''.byte'' then Some 1 else if m = ''.hword'' \<or> m = ''.short'' then Some 2
      else if m = ''.quad'' then Some 8 else if m = ''.word'' \<or> m = ''.long'' then Some 4 else None)"

definition directive_alignment :: "string \<Rightarrow> string \<Rightarrow> asm_error + u64" where
  "directive_alignment mnemonic tail =
     rbind (fixed_integer tail) (\<lambda>v.
     if v < 0 \<or> 2 ^ 64 \<le> v then Inl (fixed_error ''invalid alignment'')
     else
       rbind (if mnemonic = ''.balign'' then Inr (word_of_int v)
              else if 64 \<le> v then Inl (fixed_error ''alignment overflow'')
              else Inr (push_bit (nat v) 1)) (\<lambda>alignment.
       if \<not> is_power_of_two alignment then Inl (fixed_error ''alignment must be a nonzero power of two'')
       else Inr alignment))"

text \<open>The action of a line; an alignment also raises the alignment of the section.\<close>

definition parse_action :: "string \<Rightarrow> string \<Rightarrow> fixed_state \<Rightarrow> asm_error + fixed_action \<times> fixed_state" where
  "parse_action mnemonic tail st =
     (case data_width mnemonic of
        Some width \<Rightarrow>
          rbind (fixed_operands tail) (\<lambda>vals.
          if vals = [] then Inl (fixed_error ''data directive requires values'') else Inr (ActData width vals, st))
      | None \<Rightarrow>
          if mnemonic = ''.zero'' \<or> mnemonic = ''.space'' then
            rbind (fixed_integer tail) (\<lambda>v.
            if v < 0 \<or> 2 ^ 64 \<le> v then Inl (fixed_error ''invalid reservation size'') else Inr (ActZero (nat v), st))
          else if mnemonic = ''.balign'' \<or> mnemonic = ''.p2align'' \<or> mnemonic = ''.align'' then
            rbind (directive_alignment mnemonic tail) (\<lambda>alignment.
            let sec = fs_sections st ! fs_selected st in
            Inr (ActAlign alignment,
                 st\<lparr>fs_sections := (fs_sections st)[fs_selected st := sec\<lparr>as_align := max (as_align sec) alignment\<rparr>]\<rparr>))
          else if starts_with mnemonic ''.'' then Inl (named_error ''unsupported directive'' mnemonic)
          else
            rbind (fixed_operands tail) (\<lambda>ops.
            Inr (ActInstruction \<lparr>fi_mnemonic = mnemonic, fi_operands = ops\<rparr>, st)))"

definition align_padding :: "u64 \<Rightarrow> u64 \<Rightarrow> u64" where
  "align_padding offset align = (align - offset mod align) mod align"

definition action_size :: "fixed_action \<Rightarrow> u64 \<Rightarrow> asm_error + u64" where
  "action_size action offset =
     (case action of
        ActInstruction _ \<Rightarrow> Inr 4
      | ActData width vals \<Rightarrow>
          rbind (ok_or (usize_mul width (length vals)) (fixed_error ''data size overflow'')) (\<lambda>n. Inr (of_nat n))
      | ActZero n \<Rightarrow> Inr (of_nat n)
      | ActAlign align \<Rightarrow> Inr (align_padding offset align))"

definition place_action ::
  "assembly_limits \<Rightarrow> source_span \<Rightarrow> fixed_action \<Rightarrow> fixed_state \<Rightarrow> asm_error + fixed_state" where
  "place_action limits span action st =
     (let sec = fs_sections st ! fs_selected st; offset = fs_sizes st ! fs_selected st in
      if as_kind sec = AsmBss \<and> (case action of ActZero _ \<Rightarrow> False | ActAlign _ \<Rightarrow> False | _ \<Rightarrow> True)
      then Inl (fixed_error ''BSS accepts only labels, alignment and zero reservations'')
      else if (case action of ActInstruction _ \<Rightarrow> True | _ \<Rightarrow> False) \<and> (as_kind sec \<noteq> AsmText \<or> offset mod 4 \<noteq> 0)
      then Inl (fixed_error ''instructions require four-byte alignment in a text section'')
      else
        rbind (action_size action offset) (\<lambda>n.
        rbind (ok_or (checked_add offset n) (fixed_error ''section size overflow'')) (\<lambda>next_size.
        rbind (if as_kind sec \<noteq> AsmBss then
                 rbind (ok_or (usize_add (fs_materialized st) (unat n)) (fixed_error ''Assembly output limit exceeded'')) (\<lambda>n.
                 if n \<le> min (max_output_bytes limits) (256 * 1024 * 1024) then Inr n
                 else Inl (fixed_error ''Assembly output limit exceeded''))
               else Inr (fs_materialized st)) (\<lambda>materialized.
        if 262144 \<le> length (fs_records st) then Inl (fixed_error ''record count exceeds 262144'')
        else
          Inr (st\<lparr>fs_sizes := (fs_sizes st)[fs_selected st := next_size],
                  fs_materialized := materialized,
                  fs_records := fs_records st @
                    [\<lparr>fr_section = fs_selected st, fr_offset = offset, fr_span = span, fr_action = action\<rparr>]\<rparr>)))))"

definition read_line ::
  "fixed_isa \<Rightarrow> assembly_limits \<Rightarrow> string \<Rightarrow> source_span \<Rightarrow> string \<Rightarrow> fixed_state \<Rightarrow> asm_error + fixed_state" where
  "read_line isa limits name span line st =
     rbind (take_labels name span (trim (strip_comment (isa_hash_comments isa) line)) st) (\<lambda>(text, st).
     if text = [] then Inr st
     else
       let word_end = unwrap_or (find_white text) (length text);
           mnemonic = to_ascii_lowercase (take word_end text);
           tail = trim (drop word_end text)
       in if mnemonic \<in> {''.text'', ''.data'', ''.rodata'', ''.bss'', ''.section''} then select_section mnemonic tail st
          else if mnemonic \<in> {''.global'', ''.globl'', ''.extern''} then symbol_directive mnemonic span tail st
          else rbind (parse_action mnemonic tail st) (\<lambda>(action, st). place_action limits span action st))"

definition source_line ::
  "fixed_isa \<Rightarrow> assembly_limits \<Rightarrow> string \<Rightarrow> usize \<times> string \<Rightarrow> usize \<times> fixed_state \<Rightarrow> asm_error + usize \<times> fixed_state" where
  "source_line isa limits name = (\<lambda>(line_index, original) (byte_start, st).
     (let span = \<lparr>span_start = byte_start, span_end = byte_start + length (trim_newline original),
                  span_line = line_index + 1, span_column = 1\<rparr>
      in rbind (map_err (\<lambda>e. asm_at e name span None) (read_line isa limits name span original st)) (\<lambda>st.
         Inr (byte_start + length original, st))))"

definition first_pass :: "fixed_isa \<Rightarrow> assembly_limits \<Rightarrow> string \<Rightarrow> string \<Rightarrow> asm_error + fixed_state" where
  "first_pass isa limits name source =
     rbind (foldR (source_line isa limits name) (enumerate 0 (split_lines source)) (0, fixed_start)) (\<lambda>(_, st). Inr st)"

subsection \<open>The second pass\<close>

definition data_value ::
  "symbol_table \<Rightarrow> usize \<Rightarrow> string \<Rightarrow> asm_section \<Rightarrow> asm_error + asm_section" where
  "data_value symbols width text sec =
     rbind (fixed_expression text) (\<lambda>e.
     rbind (case e of
         ExprNumber n \<Rightarrow>
           if n < - (2 ^ (width * 8 - 1)) \<or> 2 ^ (width * 8) \<le> n
           then Inl (fixed_error ''data value does not fit its width'') else Inr (word_of_int n, sec)
       | ExprSymbol symbol addend \<Rightarrow>
           if map_of symbols symbol = None then Inl (named_error ''undefined symbol'' symbol)
           else
             rbind (if width = 4 then Inr AsmAbsolute32 else if width = 8 then Inr AsmAbsolute64
                    else Inl (fixed_error ''symbol data requires .word or .quad'')) (\<lambda>kind.
             Inr (0 :: u64, sec\<lparr>as_relocs := as_relocs sec @
               [\<lparr>ar_offset = length (as_data sec), ar_symbol = symbol, ar_kind = kind, ar_addend = addend\<rparr>]\<rparr>)))
       (\<lambda>(bits, sec).
     Inr (sec\<lparr>as_data := as_data sec @ to_le_bytes width bits\<rparr>)))"

definition emit_action ::
  "fixed_isa \<Rightarrow> symbol_table \<Rightarrow> fixed_record \<Rightarrow> asm_section \<Rightarrow> asm_error + asm_section" where
  "emit_action isa symbols r sec =
     (case fr_action r of
        ActInstruction inst \<Rightarrow>
          rbind (isa_encode isa inst
            \<lparr>cx_namespace = isa_id isa, cx_section = fr_section r, cx_offset = fr_offset r, cx_symbols = symbols,
             cx_relocations = as_relocs sec\<rparr>) (\<lambda>(word, cx).
          Inr (sec\<lparr>as_relocs := cx_relocations cx, as_data := as_data sec @ to_le_bytes 4 word\<rparr>))
      | ActData width vals \<Rightarrow> foldR (data_value symbols width) vals sec
      | ActZero n \<Rightarrow> Inr (sec\<lparr>as_data := as_data sec @ replicate n 0\<rparr>)
      | ActAlign align \<Rightarrow>
          Inr (sec\<lparr>as_data := as_data sec @ replicate (unat (align_padding (fr_offset r) align)) 0\<rparr>))"

definition emit_record ::
  "fixed_isa \<Rightarrow> string \<Rightarrow> symbol_table \<Rightarrow> fixed_record \<Rightarrow> asm_section list \<Rightarrow> asm_error + asm_section list" where
  "emit_record isa name symbols r secs =
     (let sec = secs ! fr_section r in
      if as_kind sec = AsmBss then Inr secs
      else
        rbind (map_err (\<lambda>e. asm_at e name (fr_span r) None) (emit_action isa symbols r sec)) (\<lambda>sec.
        Inr (secs[fr_section r := sec])))"

text \<open>The sections before their contents: storage is reserved, or recorded for BSS.  Whether the
  host grants the reservation of a section is a function of the section.\<close>

definition reserve_section ::
  "(usize \<Rightarrow> bool) \<Rightarrow> u64 list \<Rightarrow> usize \<times> asm_section \<Rightarrow> asm_section list \<Rightarrow> asm_error + asm_section list" where
  "reserve_section grants sizes = (\<lambda>(index, sec) secs.
     if as_kind sec = AsmBss then Inr (secs @ [sec\<lparr>as_zero_fill := sizes ! index\<rparr>])
     else if sizes ! index = 0 \<or> grants index then Inr (secs @ [sec])
     else Inl (fixed_error ''unable to reserve assembly output''))"

definition check_global :: "string \<Rightarrow> symbol_table \<Rightarrow> string \<times> source_span \<Rightarrow> unit \<Rightarrow> asm_error + unit" where
  "check_global name symbols = (\<lambda>(global, span) _.
     if map_of symbols global = None
     then Inl (asm_at (named_error ''global symbol has no definition'' global) name span None) else Inr ())"

definition output_symbol :: "(string \<times> source_span) list \<Rightarrow> string \<times> fixed_symbol \<Rightarrow> asm_symbol" where
  "output_symbol globals = (\<lambda>(nm, symbol).
     \<lparr>ay_kind = AsmNoType, ay_size = 0, ay_visibility = AsmDefault, ay_name = nm,
      ay_section_index = fy_section symbol, ay_offset = fy_offset symbol, ay_is_global = (map_of globals nm \<noteq> None)\<rparr>)"

definition second_pass ::
  "(usize \<Rightarrow> bool) \<Rightarrow> fixed_isa \<Rightarrow> string \<Rightarrow> fixed_state \<Rightarrow> asm_error + assembler_output" where
  "second_pass grants isa name st =
     rbind (foldR (check_global name (fs_symbols st)) (fs_globals st) ()) (\<lambda>_.
     rbind (foldR (reserve_section grants (fs_sizes st)) (enumerate 0 (fs_sections st)) []) (\<lambda>secs.
     rbind (foldR (emit_record isa name (fs_symbols st)) (fs_records st) secs) (\<lambda>secs.
     Inr \<lparr>ao_sections = secs, ao_symbols = map (output_symbol (fs_globals st)) (fs_symbols st)\<rparr>)))"

definition fixed_assemble ::
  "(usize \<Rightarrow> bool) \<Rightarrow> fixed_isa \<Rightarrow> string \<Rightarrow> string \<Rightarrow> assembly_limits \<Rightarrow> asm_error + assembler_output" where
  "fixed_assemble grants isa name source limits =
     (if 8 * 1024 * 1024 < length source then Inl (fixed_error ''assembly input exceeds 8388608 bytes'')
      else if max_relax_iterations limits = 0 then Inl (fixed_error ''assembly pass budget must be nonzero'')
      else rbind (first_pass isa limits name source) (second_pass grants isa name))"

end
