(* ===== verification/AsmRiscV.thy ===== *)
theory AsmRiscV
  imports AsmFixed
begin

text \<open>
  The assembler for RV64I, \<open>assembler/riscv64/src\<close>: the tables, the register and memory
  syntax, the instruction formats with their scattered immediates, and the selection of the
  format for a mnemonic.
\<close>

subsection \<open>Tables\<close>

definition rv_register_aliases :: "string list" where
  "rv_register_aliases =
     [''zero'', ''ra'', ''sp'', ''gp'', ''tp'', ''t0'', ''t1'', ''t2'', ''s0'', ''s1'', ''a0'', ''a1'', ''a2'', ''a3'', ''a4'',
      ''a5'', ''a6'', ''a7'', ''s2'', ''s3'', ''s4'', ''s5'', ''s6'', ''s7'', ''s8'', ''s9'', ''s10'', ''s11'', ''t3'', ''t4'',
      ''t5'', ''t6'']"

definition rv_branch_table :: "string \<Rightarrow> u32 option" where
  "rv_branch_table = map_of [(''beq'', 0), (''bne'', 1), (''blt'', 4), (''bge'', 5), (''bltu'', 6), (''bgeu'', 7)]"

definition rv_immediate_table :: "string \<Rightarrow> (u32 \<times> u32) option" where
  "rv_immediate_table = map_of
     [(''addi'', (0x13, 0)), (''slti'', (0x13, 2)), (''sltiu'', (0x13, 3)), (''xori'', (0x13, 4)),
      (''ori'', (0x13, 6)), (''andi'', (0x13, 7)), (''addiw'', (0x1b, 0))]"

definition rv_register_table :: "string \<Rightarrow> (u32 \<times> u32 \<times> u32) option" where
  "rv_register_table nm =
     map_option (\<lambda>(f3, f7). (if ends_with nm ''w'' then 0x3b else 0x33, f3, f7))
       (map_of
          [(''add'', (0, 0)), (''addw'', (0, 0)), (''sub'', (0, 0x20)), (''subw'', (0, 0x20)), (''sll'', (1, 0)),
           (''sllw'', (1, 0)), (''slt'', (2, 0)), (''sltu'', (3, 0)), (''xor'', (4, 0)), (''srl'', (5, 0)),
           (''srlw'', (5, 0)), (''sra'', (5, 0x20)), (''sraw'', (5, 0x20)), (''or'', (6, 0)), (''and'', (7, 0))] nm)"

definition rv_load_table :: "string \<Rightarrow> u32 option" where
  "rv_load_table = map_of
     [(''lb'', 0), (''lh'', 1), (''lw'', 2), (''ld'', 3), (''lbu'', 4), (''lhu'', 5), (''lwu'', 6)]"

definition rv_store_table :: "string \<Rightarrow> u32 option" where
  "rv_store_table = map_of [(''sb'', 0), (''sh'', 1), (''sw'', 2), (''sd'', 3)]"

definition rv_branch_relocation :: u32 where "rv_branch_relocation = 16"

definition rv_jal_relocation :: u32 where "rv_jal_relocation = 17"

subsection \<open>Operands\<close>

definition rv_reg :: "string \<Rightarrow> asm_error + u32" where
  "rv_reg text =
     (let text = to_ascii_lowercase (trim text) in
      if text = ''fp'' then Inr 8
      else case position (\<lambda>nm. nm = text) rv_register_aliases of
        Some i \<Rightarrow> Inr (of_nat i)
      | None \<Rightarrow>
          rbind (ok_or (numbered_register ''x'' text 32) (named_error ''invalid RV64 register'' text)) (\<lambda>k. Inr (of_nat k)))"

definition rv_memory :: "string \<Rightarrow> asm_error + u32 \<times> u32" where
  "rv_memory text =
     rbind (ok_or (position (\<lambda>c. c = CHR ''('') text) (fixed_error ''memory operand requires offset(base)'')) (\<lambda>i.
     let offset = take i text; rest = drop (Suc i) text in
     rbind (ok_or (Option.bind (strip_suffix '')'' rest) (\<lambda>s.
              if list_ex (\<lambda>c. c = CHR ''('' \<or> c = CHR '')'') s then None else Some s))
            (fixed_error ''invalid memory operand'')) (\<lambda>base.
     rbind (rv_reg base) (\<lambda>r.
     rbind (fixed_signed (if trim offset = [] then ''0'' else trim offset) 12) (\<lambda>imm.
     Inr (r, imm)))))"

definition fence_bit :: "char \<Rightarrow> u32 \<Rightarrow> asm_error + u32" where
  "fence_bit c v =
     rbind (if c = CHR ''i'' then Inr 8 else if c = CHR ''o'' then Inr 4 else if c = CHR ''r'' then Inr 2
            else if c = CHR ''w'' then Inr 1 else Inl (fixed_error ''fence sets use i,o,r,w or literal 0'')) (\<lambda>b.
     if v AND b \<noteq> 0 then Inl (fixed_error ''duplicate fence flag'') else Inr (v OR b))"

definition fence_mask :: "string \<Rightarrow> asm_error + u32" where
  "fence_mask s = (if s = ''0'' then Inr 0 else foldR fence_bit s 0)"

subsection \<open>Formats\<close>

definition rv_r :: "u32 \<Rightarrow> u32 \<Rightarrow> u32 \<Rightarrow> u32 \<Rightarrow> u32 \<Rightarrow> u32 \<Rightarrow> u32" where
  "rv_r opcode f3 f7 rd rs1 rs2 =
     opcode OR push_bit 7 rd OR push_bit 12 f3 OR push_bit 15 rs1 OR push_bit 20 rs2 OR push_bit 25 f7"

definition rv_i :: "u32 \<Rightarrow> u32 \<Rightarrow> u32 \<Rightarrow> u32 \<Rightarrow> u32 \<Rightarrow> u32" where
  "rv_i opcode f3 rd rs1 imm = opcode OR push_bit 7 rd OR push_bit 12 f3 OR push_bit 15 rs1 OR push_bit 20 imm"

definition rv_store :: "u32 \<Rightarrow> u32 \<Rightarrow> u32 \<Rightarrow> u32 \<Rightarrow> u32" where
  "rv_store f3 rs1 rs2 imm =
     0x23 OR push_bit 7 (imm AND 31) OR push_bit 12 f3 OR push_bit 15 rs1 OR push_bit 20 rs2 OR push_bit 25 (drop_bit 5 imm)"

definition rv_upper :: "u32 \<Rightarrow> u32 \<Rightarrow> u32 \<Rightarrow> u32" where
  "rv_upper opcode rd imm = opcode OR push_bit 7 rd OR push_bit 12 (imm AND 0xfffff)"

definition rv_jump :: "u32 \<Rightarrow> int \<Rightarrow> asm_error + u32" where
  "rv_jump rd d =
     rbind (displacement d 20 2) (\<lambda>_.
     let imm = word_of_int d :: u32 in
     Inr (0x6f OR push_bit 7 rd OR push_bit 31 (drop_bit 20 imm AND 1) OR push_bit 21 (drop_bit 1 imm AND 0x3ff)
          OR push_bit 20 (drop_bit 11 imm AND 1) OR push_bit 12 (drop_bit 12 imm AND 0xff)))"

definition rv_branch :: "u32 \<Rightarrow> u32 \<Rightarrow> u32 \<Rightarrow> int \<Rightarrow> asm_error + u32" where
  "rv_branch f3 rs1 rs2 d =
     rbind (displacement d 12 2) (\<lambda>_.
     let imm = word_of_int d :: u32 in
     Inr (0x63 OR push_bit 7 (drop_bit 11 imm AND 1) OR push_bit 8 (drop_bit 1 imm AND 15) OR push_bit 12 f3
          OR push_bit 15 rs1 OR push_bit 20 rs2 OR push_bit 25 (drop_bit 5 imm AND 63)
          OR push_bit 31 (drop_bit 12 imm AND 1)))"

subsection \<open>Instruction selection\<close>

text \<open>Two registers and an immediate; a register and a memory operand.\<close>

definition rv_reg_reg_imm :: "u32 \<Rightarrow> u32 \<Rightarrow> string list \<Rightarrow> asm_error + u32" where
  "rv_reg_reg_imm opcode f3 a =
     rbind (rv_reg (a ! 0)) (\<lambda>rd. rbind (rv_reg (a ! 1)) (\<lambda>rs. rbind (fixed_signed (a ! 2) 12) (\<lambda>imm.
     Inr (rv_i opcode f3 rd rs imm))))"

definition rv_pc_relative ::
  "u32 \<Rightarrow> (int \<Rightarrow> asm_error + u32) \<Rightarrow> string \<Rightarrow> fixed_context \<Rightarrow> asm_error + u32 \<times> fixed_context" where
  "rv_pc_relative code f operand cx =
     rbind (pc_relative operand code cx) (\<lambda>(d, cx). plain_word cx (f d))"

definition rv_encode_alias :: "string \<Rightarrow> string list \<Rightarrow> asm_error + u32" where
  "rv_encode_alias m a =
     rbind (rv_reg (a ! 0)) (\<lambda>rd. rbind (rv_reg (a ! 1)) (\<lambda>rs.
     Inr (if m = ''mv'' then rv_i 0x13 0 rd rs 0 else if m = ''not'' then rv_i 0x13 4 rd rs 0xfff
          else if m = ''neg'' then rv_r 0x33 0 0x20 rd 0 rs else rv_r 0x3b 0 0x20 rd 0 rs)))"

definition rv_encode_shift :: "string \<Rightarrow> string list \<Rightarrow> asm_error + u32" where
  "rv_encode_shift m a =
     (let word = ends_with m ''w'' in
      rbind (fixed_unsigned (a ! 2) (if word then 5 else 6)) (\<lambda>shift.
      rbind (rv_reg (a ! 0)) (\<lambda>rd. rbind (rv_reg (a ! 1)) (\<lambda>rs.
      Inr (rv_i (if word then 0x1b else 0x13) (if starts_with m ''sll'' then 1 else 5) rd rs
             (shift OR (if starts_with m ''sra'' then 0x400 else 0)))))))"

definition rv_encode_jalr :: "fixed_instruction \<Rightarrow> asm_error + u32" where
  "rv_encode_jalr inst =
     (if length (fi_operands inst) = 1 then
        rbind (rv_reg (fi_operands inst ! 0)) (\<lambda>rs. Inr (rv_i 0x67 0 1 rs 0))
      else if length (fi_operands inst) = 2 then
        rbind (rv_memory (fi_operands inst ! 1)) (\<lambda>(base, imm).
        rbind (rv_reg (fi_operands inst ! 0)) (\<lambda>rd. Inr (rv_i 0x67 0 rd base imm)))
      else
        rbind (fixed_count inst 3) (\<lambda>a. rv_reg_reg_imm 0x67 0 a))"

text \<open>The mnemonics that are not in a table.\<close>

definition rv_encode_other :: "fixed_instruction \<Rightarrow> fixed_context \<Rightarrow> asm_error + u32 \<times> fixed_context" where
  "rv_encode_other inst cx =
     (let m = fi_mnemonic inst in
      if m \<in> {''nop'', ''ret'', ''ecall'', ''ebreak''} then
        rbind (fixed_count inst 0) (\<lambda>_.
        Inr (if m = ''nop'' then 0x13 else if m = ''ret'' then 0x8067 else if m = ''ecall'' then 0x73 else 0x100073, cx))
      else if m \<in> {''mv'', ''not'', ''neg'', ''negw''} then
        plain_word cx (rbind (fixed_count inst 2) (rv_encode_alias m))
      else if m = ''li'' then
        plain_word cx (rbind (fixed_count inst 2) (\<lambda>a.
          rbind (rv_reg (a ! 0)) (\<lambda>rd. rbind (fixed_signed (a ! 1) 12) (\<lambda>imm. Inr (rv_i 0x13 0 rd 0 imm)))))
      else if m = ''jr'' then
        plain_word cx (rbind (fixed_count inst 1) (\<lambda>a. rbind (rv_reg (a ! 0)) (\<lambda>rs. Inr (rv_i 0x67 0 0 rs 0))))
      else if m = ''j'' then
        rbind (fixed_count inst 1) (\<lambda>a. rv_pc_relative rv_jal_relocation (rv_jump 0) (a ! 0) cx)
      else if m = ''jal'' then
        if length (fi_operands inst) = 1 then rv_pc_relative rv_jal_relocation (rv_jump 1) (fi_operands inst ! 0) cx
        else
          rbind (fixed_count inst 2) (\<lambda>a. rbind (rv_reg (a ! 0)) (\<lambda>rd.
          rv_pc_relative rv_jal_relocation (rv_jump rd) (a ! 1) cx))
      else if m = ''jalr'' then plain_word cx (rv_encode_jalr inst)
      else if m = ''beqz'' \<or> m = ''bnez'' then
        rbind (fixed_count inst 2) (\<lambda>a. rbind (rv_reg (a ! 0)) (\<lambda>rs.
        rv_pc_relative rv_branch_relocation (rv_branch (if m = ''bnez'' then 1 else 0) rs 0) (a ! 1) cx))
      else if m = ''lui'' \<or> m = ''auipc'' then
        plain_word cx (rbind (fixed_count inst 2) (\<lambda>a.
          rbind (fixed_unsigned (a ! 1) 20) (\<lambda>v. rbind (rv_reg (a ! 0)) (\<lambda>rd.
          Inr (rv_upper (if m = ''lui'' then 0x37 else 0x17) rd v)))))
      else if m \<in> {''slli'', ''srli'', ''srai'', ''slliw'', ''srliw'', ''sraiw''} then
        plain_word cx (rbind (fixed_count inst 3) (rv_encode_shift m))
      else if m = ''fence'' then
        if fi_operands inst = [] then Inr (0x0ff0000f, cx)
        else
          plain_word cx (rbind (fixed_count inst 2) (\<lambda>a.
            rbind (fence_mask (a ! 0)) (\<lambda>p. rbind (fence_mask (a ! 1)) (\<lambda>s.
            Inr (0x0f OR push_bit 24 p OR push_bit 20 s)))))
      else Inl (named_error ''unsupported RV64I instruction'' m))"

definition rv_encode :: "fixed_instruction \<Rightarrow> fixed_context \<Rightarrow> asm_error + u32 \<times> fixed_context" where
  "rv_encode inst cx =
     (let m = fi_mnemonic inst in
      case rv_register_table m of
        Some (opcode, f3, f7) \<Rightarrow>
          plain_word cx (rbind (fixed_count inst 3) (\<lambda>a.
            rbind (rv_reg (a ! 0)) (\<lambda>rd. rbind (rv_reg (a ! 1)) (\<lambda>rs1. rbind (rv_reg (a ! 2)) (\<lambda>rs2.
            Inr (rv_r opcode f3 f7 rd rs1 rs2))))))
      | None \<Rightarrow>
      (case rv_immediate_table m of
        Some (opcode, f3) \<Rightarrow> plain_word cx (rbind (fixed_count inst 3) (rv_reg_reg_imm opcode f3))
      | None \<Rightarrow>
      (case rv_branch_table m of
        Some f3 \<Rightarrow>
          rbind (fixed_count inst 3) (\<lambda>a. rbind (rv_reg (a ! 0)) (\<lambda>rs1. rbind (rv_reg (a ! 1)) (\<lambda>rs2.
          rv_pc_relative rv_branch_relocation (rv_branch f3 rs1 rs2) (a ! 2) cx)))
      | None \<Rightarrow>
      (case rv_load_table m of
        Some f3 \<Rightarrow>
          plain_word cx (rbind (fixed_count inst 2) (\<lambda>a.
            rbind (rv_memory (a ! 1)) (\<lambda>(base, imm). rbind (rv_reg (a ! 0)) (\<lambda>rd. Inr (rv_i 3 f3 rd base imm)))))
      | None \<Rightarrow>
      (case rv_store_table m of
        Some f3 \<Rightarrow>
          plain_word cx (rbind (fixed_count inst 2) (\<lambda>a.
            rbind (rv_memory (a ! 1)) (\<lambda>(base, imm). rbind (rv_reg (a ! 0)) (\<lambda>rs. Inr (rv_store f3 base rs imm)))))
      | None \<Rightarrow> rv_encode_other inst cx)))))"

definition riscv64 :: fixed_isa where
  "riscv64 = \<lparr>isa_id = ''riscv64'', isa_hash_comments = True, isa_encode = rv_encode\<rparr>"

end
