(* ===== verification/AsmLoongArch.thy ===== *)
theory AsmLoongArch
  imports AsmFixed
begin

text \<open>
  The assembler for LoongArch64, \<open>assembler/loongarch64/src\<close>: tables, register syntax,
  formats with the split branch offsets, and instruction selection.
\<close>

subsection \<open>Tables\<close>

definition la_register_aliases :: "string list" where
  "la_register_aliases =
     [''zero'', ''ra'', ''tp'', ''sp'', ''a0'', ''a1'', ''a2'', ''a3'', ''a4'', ''a5'', ''a6'', ''a7'', ''t0'', ''t1'', ''t2'',
      ''t3'', ''t4'', ''t5'', ''t6'', ''t7'', ''t8'', ''u0'', ''fp'', ''s0'', ''s1'', ''s2'', ''s3'', ''s4'', ''s5'', ''s6'', ''s7'',
      ''s8'']"

definition la_three_register :: "string \<Rightarrow> u32 option" where
  "la_three_register = map_of
     [(''add.w'', 0x00100000), (''add.d'', 0x00108000), (''sub.w'', 0x00110000), (''sub.d'', 0x00118000),
      (''slt'', 0x00120000), (''sltu'', 0x00128000), (''nor'', 0x00140000), (''and'', 0x00148000),
      (''or'', 0x00150000), (''xor'', 0x00158000), (''sll.w'', 0x00170000), (''srl.w'', 0x00178000),
      (''sra.w'', 0x00180000), (''sll.d'', 0x00188000), (''srl.d'', 0x00190000), (''sra.d'', 0x00198000)]"

definition la_immediate_table :: "string \<Rightarrow> (u32 \<times> bool) option" where
  "la_immediate_table = map_of
     [(''slti'', (0x02000000, False)), (''sltui'', (0x02400000, False)), (''addi.w'', (0x02800000, False)),
      (''addi.d'', (0x02c00000, False)), (''lu52i.d'', (0x03000000, False)), (''andi'', (0x03400000, True)),
      (''ori'', (0x03800000, True)), (''xori'', (0x03c00000, True))]"

definition la_shift_table :: "string \<Rightarrow> (u32 \<times> nat) option" where
  "la_shift_table = map_of
     [(''slli.w'', (0x00408000, 5)), (''srli.w'', (0x00448000, 5)), (''srai.w'', (0x00488000, 5)),
      (''slli.d'', (0x00410000, 6)), (''srli.d'', (0x00450000, 6)), (''srai.d'', (0x00490000, 6))]"

definition la_memory_table :: "string \<Rightarrow> u32 option" where
  "la_memory_table = map_of
     [(''ld.b'', 0x28000000), (''ld.h'', 0x28400000), (''ld.w'', 0x28800000), (''ld.d'', 0x28c00000),
      (''st.b'', 0x29000000), (''st.h'', 0x29400000), (''st.w'', 0x29800000), (''st.d'', 0x29c00000),
      (''ld.bu'', 0x2a000000), (''ld.hu'', 0x2a400000), (''ld.wu'', 0x2a800000)]"

definition la_conditional_table :: "string \<Rightarrow> u32 option" where
  "la_conditional_table = map_of
     [(''beq'', 0x58000000), (''bne'', 0x5c000000), (''blt'', 0x60000000), (''bge'', 0x64000000),
      (''bltu'', 0x68000000), (''bgeu'', 0x6c000000)]"

definition la_b16_relocation :: u32 where "la_b16_relocation = 64"

definition la_b21_relocation :: u32 where "la_b21_relocation = 65"

definition la_b26_relocation :: u32 where "la_b26_relocation = 66"

subsection \<open>Operands and formats\<close>

definition la_reg :: "string \<Rightarrow> asm_error + u32" where
  "la_reg text =
     (let text = trim text; text = to_ascii_lowercase (unwrap_or (strip_prefix ''$'' text) text) in
      case position (\<lambda>nm. nm = text) la_register_aliases of
        Some i \<Rightarrow> Inr (of_nat i)
      | None \<Rightarrow>
          rbind (ok_or (numbered_register ''r'' text 32) (named_error ''invalid LoongArch64 register'' text))
            (\<lambda>k. Inr (of_nat k)))"

definition la_three :: "u32 \<Rightarrow> u32 \<Rightarrow> u32 \<Rightarrow> u32 \<Rightarrow> u32" where
  "la_three opcode rd rj rk = opcode OR rd OR push_bit 5 rj OR push_bit 10 rk"

definition la_immediate :: "u32 \<Rightarrow> u32 \<Rightarrow> u32 \<Rightarrow> u32 \<Rightarrow> u32" where
  "la_immediate opcode rd rj imm = opcode OR rd OR push_bit 5 rj OR push_bit 10 imm"

definition la_upper :: "u32 \<Rightarrow> u32 \<Rightarrow> u32 \<Rightarrow> u32" where
  "la_upper opcode rd imm = opcode OR rd OR push_bit 5 (imm AND 0xfffff)"

definition la_direct :: "bool \<Rightarrow> int \<Rightarrow> asm_error + u32" where
  "la_direct link offset =
     rbind (displacement offset 26 4) (\<lambda>imm.
     Inr ((if link then 0x54000000 else 0x50000000) OR push_bit 10 (imm AND 0xffff) OR drop_bit 16 imm))"

definition la_conditional :: "u32 \<Rightarrow> u32 \<Rightarrow> u32 \<Rightarrow> int \<Rightarrow> asm_error + u32" where
  "la_conditional opcode rj rd offset =
     rbind (displacement offset 16 4) (\<lambda>imm. Inr (opcode OR rd OR push_bit 5 rj OR push_bit 10 imm))"

definition la_zero :: "bool \<Rightarrow> u32 \<Rightarrow> int \<Rightarrow> asm_error + u32" where
  "la_zero nonzero rj offset =
     rbind (displacement offset 21 4) (\<lambda>imm.
     Inr ((if nonzero then 0x44000000 else 0x40000000) OR push_bit 5 rj OR push_bit 10 (imm AND 0xffff) OR drop_bit 16 imm))"

definition la_indirect :: "u32 \<Rightarrow> u32 \<Rightarrow> int \<Rightarrow> asm_error + u32" where
  "la_indirect rd rj offset = la_conditional 0x4c000000 rj rd offset"

subsection \<open>Instruction selection\<close>

definition la_reg_reg ::
  "string list \<Rightarrow> (u32 \<Rightarrow> u32 \<Rightarrow> asm_error + u32) \<Rightarrow> asm_error + u32" where
  "la_reg_reg a f = rbind (la_reg (a ! 0)) (\<lambda>rd. rbind (la_reg (a ! 1)) (\<lambda>rj. f rd rj))"

definition la_encode_other :: "fixed_instruction \<Rightarrow> fixed_context \<Rightarrow> asm_error + u32 \<times> fixed_context" where
  "la_encode_other inst cx =
     (let m = fi_mnemonic inst in
      if m = ''nop'' \<or> m = ''ret'' then
        rbind (fixed_count inst 0) (\<lambda>_. Inr (if m = ''nop'' then 0x03400000 else 0x4c000020, cx))
      else if m = ''move'' then
        plain_word cx (rbind (fixed_count inst 2) (\<lambda>a. la_reg_reg a (\<lambda>rd rj. Inr (0x00150000 OR rd OR push_bit 5 rj))))
      else if m = ''li.d'' \<or> m = ''li.w'' then
        plain_word cx (rbind (fixed_count inst 2) (\<lambda>a.
          rbind (la_reg (a ! 0)) (\<lambda>rd. rbind (fixed_signed (a ! 1) 12) (\<lambda>imm.
          Inr ((if m = ''li.d'' then 0x02c00000 else 0x02800000) OR rd OR push_bit 10 imm)))))
      else if m = ''lu12i.w'' \<or> m = ''lu32i.d'' then
        plain_word cx (rbind (fixed_count inst 2) (\<lambda>a.
          rbind (fixed_integer (a ! 1)) (\<lambda>n.
          if \<not> (- (2 ^ 19) \<le> n \<and> n < 2 ^ 19) then Inl (fixed_error ''upper immediate must fit signed 20 bits'')
          else
            rbind (la_reg (a ! 0)) (\<lambda>rd.
            Inr (la_upper (if m = ''lu12i.w'' then 0x14000000 else 0x16000000) rd (word_of_int n))))))
      else if m = ''b'' \<or> m = ''bl'' then
        rbind (fixed_count inst 1) (\<lambda>a.
        rbind (pc_relative (a ! 0) la_b26_relocation cx) (\<lambda>(d, cx). plain_word cx (la_direct (m = ''bl'') d)))
      else if m = ''beqz'' \<or> m = ''bnez'' then
        rbind (fixed_count inst 2) (\<lambda>a. rbind (la_reg (a ! 0)) (\<lambda>rj.
        rbind (pc_relative (a ! 1) la_b21_relocation cx) (\<lambda>(d, cx). plain_word cx (la_zero (m = ''bnez'') rj d))))
      else if m = ''jirl'' then
        plain_word cx (rbind (fixed_count inst 3) (\<lambda>a.
          rbind (fixed_integer (a ! 2)) (\<lambda>n. rbind (try_i64 n ''jirl displacement exceeds i64'') (\<lambda>d.
          la_reg_reg a (\<lambda>rd rj. la_indirect rd rj d)))))
      else if m = ''syscall'' \<or> m = ''break'' then
        plain_word cx (rbind (fixed_count inst 1) (\<lambda>a. rbind (fixed_unsigned (a ! 0) 15) (\<lambda>code.
          Inr ((if m = ''syscall'' then 0x002b0000 else 0x002a0000) OR code))))
      else Inl (named_error ''unsupported LoongArch64 instruction'' m))"

definition la_encode :: "fixed_instruction \<Rightarrow> fixed_context \<Rightarrow> asm_error + u32 \<times> fixed_context" where
  "la_encode inst cx =
     (let m = fi_mnemonic inst in
      case la_three_register m of
        Some opcode \<Rightarrow>
          plain_word cx (rbind (fixed_count inst 3) (\<lambda>a. la_reg_reg a (\<lambda>rd rj. rbind (la_reg (a ! 2)) (\<lambda>rk.
            Inr (la_three opcode rd rj rk)))))
      | None \<Rightarrow>
      (case la_immediate_table m of
        Some (opcode, unsigned_immediate) \<Rightarrow>
          plain_word cx (rbind (fixed_count inst 3) (\<lambda>a.
            rbind (if unsigned_immediate then fixed_unsigned (a ! 2) 12 else fixed_signed (a ! 2) 12) (\<lambda>imm.
            la_reg_reg a (\<lambda>rd rj. Inr (la_immediate opcode rd rj imm)))))
      | None \<Rightarrow>
      (case la_shift_table m of
        Some (opcode, bits) \<Rightarrow>
          plain_word cx (rbind (fixed_count inst 3) (\<lambda>a. la_reg_reg a (\<lambda>rd rj. rbind (fixed_unsigned (a ! 2) bits) (\<lambda>imm.
            Inr (la_immediate opcode rd rj imm)))))
      | None \<Rightarrow>
      (case la_memory_table m of
        Some opcode \<Rightarrow>
          plain_word cx (rbind (fixed_count inst 3) (\<lambda>a. la_reg_reg a (\<lambda>rd rj. rbind (fixed_signed (a ! 2) 12) (\<lambda>imm.
            Inr (la_immediate opcode rd rj imm)))))
      | None \<Rightarrow>
      (case la_conditional_table m of
        Some opcode \<Rightarrow>
          rbind (fixed_count inst 3) (\<lambda>a. rbind (la_reg (a ! 0)) (\<lambda>rj. rbind (la_reg (a ! 1)) (\<lambda>rd.
          rbind (pc_relative (a ! 2) la_b16_relocation cx) (\<lambda>(d, cx). plain_word cx (la_conditional opcode rj rd d)))))
      | None \<Rightarrow> la_encode_other inst cx)))))"

definition loongarch64 :: fixed_isa where
  "loongarch64 = \<lparr>isa_id = ''loongarch64'', isa_hash_comments = True, isa_encode = la_encode\<rparr>"

end
