(* ===== verification/AsmAArch64.thy ===== *)
theory AsmAArch64
  imports AsmFixed
begin

text \<open>
  The assembler for A64, \<open>assembler/aarch64/src\<close>: registers with their width and the two
  readings of number 31, shifted operands, addresses, immediate moves, arithmetic, loads and
  stores, branches, and instruction selection.
\<close>

subsection \<open>Tables\<close>

record a64_reg =
  rg_index :: u32
  rg_width :: u32
  rg_sp :: bool
  rg_zero :: bool

definition a64_register_alias :: "string \<Rightarrow> a64_reg option" where
  "a64_register_alias = map_of
     [(''sp'', \<lparr>rg_index = 31, rg_width = 64, rg_sp = True, rg_zero = False\<rparr>),
      (''wsp'', \<lparr>rg_index = 31, rg_width = 32, rg_sp = True, rg_zero = False\<rparr>),
      (''xzr'', \<lparr>rg_index = 31, rg_width = 64, rg_sp = False, rg_zero = True\<rparr>),
      (''wzr'', \<lparr>rg_index = 31, rg_width = 32, rg_sp = False, rg_zero = True\<rparr>),
      (''fp'', \<lparr>rg_index = 29, rg_width = 64, rg_sp = False, rg_zero = False\<rparr>),
      (''lr'', \<lparr>rg_index = 30, rg_width = 64, rg_sp = False, rg_zero = False\<rparr>)]"

definition a64_condition :: "string \<Rightarrow> u32 option" where
  "a64_condition = map_of
     [(''eq'', 0), (''ne'', 1), (''cs'', 2), (''hs'', 2), (''cc'', 3), (''lo'', 3), (''mi'', 4), (''pl'', 5),
      (''vs'', 6), (''vc'', 7), (''hi'', 8), (''ls'', 9), (''ge'', 10), (''lt'', 11), (''gt'', 12), (''le'', 13),
      (''al'', 14), (''nv'', 15)]"

definition a64_indirect :: "string \<Rightarrow> u32" where
  "a64_indirect m = (if m = ''ret'' then 0xd65f0000 else if m = ''br'' then 0xd61f0000 else 0xd63f0000)"

definition a64_wide_move :: "string \<Rightarrow> u32" where
  "a64_wide_move m = (if m = ''movz'' then 0x52800000 else if m = ''movn'' then 0x12800000 else 0x72800000)"

definition a64_logical :: "string \<Rightarrow> u32" where
  "a64_logical m =
     (if m = ''and'' then 0x0a000000 else if m = ''orr'' then 0x2a000000 else if m = ''eor'' then 0x4a000000
      else 0x6a000000)"

definition adr_relocation :: u32 where "adr_relocation = 274"

definition condbr19_relocation :: u32 where "condbr19_relocation = 280"

definition jump26_relocation :: u32 where "jump26_relocation = 282"

definition call26_relocation :: u32 where "call26_relocation = 283"

subsection \<open>Operands\<close>

definition a64_parse_reg :: "string \<Rightarrow> asm_error + a64_reg" where
  "a64_parse_reg text =
     (let text = to_ascii_lowercase (trim text); failed = named_error ''invalid A64 register'' text in
      case a64_register_alias text of
        Some r \<Rightarrow> Inr r
      | None \<Rightarrow>
          rbind (if starts_with text ''x'' then Inr 64 else if starts_with text ''w'' then Inr 32 else Inl failed) (\<lambda>width.
          let suffix = drop 1 text in
          if \<not> list_all is_ascii_digit suffix \<or> 1 < length suffix \<and> starts_with suffix ''0'' then Inl failed
          else
            rbind (ok_or (Option.bind (parse_u32 suffix) (\<lambda>n. if n \<le> 30 then Some n else None)) failed) (\<lambda>n.
            Inr \<lparr>rg_index = of_nat n, rg_width = width, rg_sp = False, rg_zero = False\<rparr>)))"

definition same_width :: "a64_reg \<Rightarrow> a64_reg \<Rightarrow> asm_error + unit" where
  "same_width a b = (if rg_width a \<noteq> rg_width b then Inl (fixed_error ''register widths must match'') else Inr ())"

definition no_sp :: "a64_reg \<Rightarrow> asm_error + a64_reg" where
  "no_sp r = (if rg_sp r then Inl (fixed_error ''SP is not valid in this operand'') else Inr r)"

definition no_sp_reg :: "string \<Rightarrow> asm_error + a64_reg" where
  "no_sp_reg text = rbind (a64_parse_reg text) no_sp"

definition a64_shift :: "string \<Rightarrow> u32 \<Rightarrow> asm_error + u32 \<times> u32" where
  "a64_shift text width =
     (let a = split_white text in
      if length a \<noteq> 2 then Inl (fixed_error ''shift requires kind and amount'')
      else
        let m = to_ascii_lowercase (a ! 0) in
        rbind (if m = ''lsl'' then Inr 0 else if m = ''lsr'' then Inr 1 else if m = ''asr'' then Inr 2
               else if m = ''ror'' then Inr 3 else Inl (fixed_error ''unsupported shift kind'')) (\<lambda>kind.
        rbind (fixed_unsigned (a ! 1) (if width = 64 then 6 else 5)) (\<lambda>amount.
        Inr (kind, amount))))"

definition a64_memory :: "string \<Rightarrow> asm_error + a64_reg \<times> int" where
  "a64_memory text =
     rbind (ok_or (Option.bind (strip_prefix ''['' text) (strip_suffix '']''))
              (fixed_error ''memory operand requires [base, #offset]; writeback is unsupported'')) (\<lambda>inside.
     rbind (fixed_operands inside) (\<lambda>parts.
     if \<not> (1 \<le> length parts \<and> length parts \<le> 2)
     then Inl (fixed_error ''memory operand accepts a base and immediate offset'')
     else
       rbind (a64_parse_reg (parts ! 0)) (\<lambda>base.
       if rg_width base \<noteq> 64 \<or> rg_zero base then Inl (fixed_error ''memory base requires X0..X30 or SP'')
       else
         rbind (if length parts = 2 then fixed_integer (parts ! 1) else Inr 0) (\<lambda>offset.
         Inr (base, offset)))))"

subsection \<open>Encodings\<close>

definition bit_of :: "bool \<Rightarrow> u32" where
  "bit_of b = (if b then 1 else 0)"

definition sf :: "a64_reg \<Rightarrow> u32" where
  "sf r = push_bit 31 (bit_of (rg_width r = 64))"

definition a64_direct :: "bool \<Rightarrow> int \<Rightarrow> asm_error + u32" where
  "a64_direct link offset =
     rbind (displacement offset 26 4) (\<lambda>imm. Inr ((if link then 0x94000000 else 0x14000000) OR imm))"

definition a64_conditional :: "u32 \<Rightarrow> int \<Rightarrow> asm_error + u32" where
  "a64_conditional condition offset =
     rbind (displacement offset 19 4) (\<lambda>imm. Inr (0x54000000 OR push_bit 5 imm OR condition))"

definition a64_compare :: "bool \<Rightarrow> bool \<Rightarrow> u32 \<Rightarrow> int \<Rightarrow> asm_error + u32" where
  "a64_compare nonzero wide register offset =
     rbind (displacement offset 19 4) (\<lambda>imm.
     Inr (0x34000000 OR push_bit 31 (bit_of wide) OR push_bit 24 (bit_of nonzero) OR push_bit 5 imm OR register))"

definition a64_address :: "u32 \<Rightarrow> int \<Rightarrow> asm_error + u32" where
  "a64_address register offset =
     rbind (displacement offset 21 1) (\<lambda>imm.
     Inr (0x10000000 OR push_bit 29 (imm AND 3) OR push_bit 5 (drop_bit 2 imm) OR register))"

text \<open>A move of an immediate: a single MOVZ or MOVN, the first lane that holds every set bit.\<close>

definition mov_lanes :: "u64 \<Rightarrow> u64 \<Rightarrow> u32 \<Rightarrow> (string \<times> u64 \<times> nat) list" where
  "mov_lanes bits ones width =
     concat (map (\<lambda>(m, pattern). map (\<lambda>lane. (m, pattern, lane)) [0..<unat width div 16])
       [(''movz'', bits), (''movn'', NOT bits AND ones)])"

definition mov_immediate :: "a64_reg \<Rightarrow> int \<Rightarrow> asm_error + u32" where
  "mov_immediate rd v =
     (let ones = drop_bit (64 - unat (rg_width rd)) (- 1 :: u64) in
      if v < - (2 ^ (unat (rg_width rd) - 1)) \<or> uint ones < v
      then Inl (fixed_error ''mov immediate does not fit the destination register width'')
      else if - 65536 \<le> v \<and> v < 0
      then Inr (a64_wide_move ''movn'' OR sf rd OR push_bit 5 (word_of_int (NOT v) AND 0xffff) OR rg_index rd)
      else
        case find (\<lambda>(m, pattern, lane). pattern AND NOT (push_bit (lane * 16) 0xffff) = 0)
               (mov_lanes (word_of_int v AND ones) ones (rg_width rd)) of
          Some (m, pattern, lane) \<Rightarrow>
            Inr (a64_wide_move m OR sf rd OR push_bit 21 (of_nat lane) OR push_bit 5 (ucast (drop_bit (lane * 16) pattern))
                 OR rg_index rd)
        | None \<Rightarrow> Inl (fixed_error ''mov immediate requires a single 16-bit MOVZ/MOVN; use movz/movk for larger values''))"

definition a64_mov :: "string list \<Rightarrow> asm_error + u32" where
  "a64_mov a =
     rbind (a64_parse_reg (a ! 0)) (\<lambda>rd.
     case fixed_integer (a ! 1) of
       Inr v \<Rightarrow> rbind (no_sp rd) (\<lambda>_. mov_immediate rd v)
     | Inl _ \<Rightarrow>
         rbind (a64_parse_reg (a ! 1)) (\<lambda>rn.
         rbind (same_width rd rn) (\<lambda>_.
         if rg_sp rd \<or> rg_sp rn then
           if rg_zero rd \<or> rg_zero rn then Inl (fixed_error ''mov cannot mix SP and ZR'')
           else Inr (0x11000000 OR sf rd OR push_bit 5 (rg_index rn) OR rg_index rd)
         else Inr (0x2a0003e0 OR sf rd OR push_bit 16 (rg_index rn) OR rg_index rd))))"

definition a64_wide :: "string \<Rightarrow> string list \<Rightarrow> asm_error + u32" where
  "a64_wide m a =
     (if \<not> (2 \<le> length a \<and> length a \<le> 3)
      then Inl (fixed_error ''wide move requires register, imm16 and optional lsl'')
      else
        rbind (no_sp_reg (a ! 0)) (\<lambda>rd.
        rbind (fixed_unsigned (a ! 1) 16) (\<lambda>v.
        rbind (if length a = 3 then
                 rbind (a64_shift (a ! 2) 64) (\<lambda>(kind, amount).
                 if kind \<noteq> 0 \<or> amount mod 16 \<noteq> 0 \<or> rg_width rd \<le> amount
                 then Inl (fixed_error ''wide move shift must be 0/16 for W, or 0/16/32/48 for X'')
                 else Inr (amount div 16))
               else Inr 0) (\<lambda>shift.
        Inr (a64_wide_move m OR sf rd OR push_bit 21 shift OR push_bit 5 v OR rg_index rd)))))"

definition a64_arithmetic_immediate ::
  "a64_reg \<Rightarrow> a64_reg \<Rightarrow> bool \<Rightarrow> u32 \<Rightarrow> string list \<Rightarrow> asm_error + u32" where
  "a64_arithmetic_immediate rd rn flags operation a =
     (if rg_zero rn \<or> flags \<and> rg_sp rd \<or> \<not> flags \<and> rg_zero rd
      then Inl (fixed_error ''immediate arithmetic uses SP for register 31, except the flag-setting destination'')
      else
        rbind (fixed_unsigned (a ! 2) 12) (\<lambda>imm.
        rbind (if length a = 4 then
                 rbind (a64_shift (a ! 3) 64) (\<lambda>(kind, amount).
                 if kind \<noteq> 0 \<or> amount \<noteq> 0 \<and> amount \<noteq> 12
                 then Inl (fixed_error ''immediate add/sub accepts only lsl #0 or #12'')
                 else Inr (bit_of (amount = 12)))
               else Inr 0) (\<lambda>sh.
        Inr (0x11000000 OR sf rd OR operation OR push_bit 22 sh OR push_bit 10 imm OR push_bit 5 (rg_index rn)
             OR rg_index rd))))"

definition a64_shifted :: "string list \<Rightarrow> u32 \<Rightarrow> asm_error + u32 \<times> u32" where
  "a64_shifted a width = (if length a = 4 then a64_shift (a ! 3) width else Inr (0, 0))"

definition a64_arithmetic :: "fixed_instruction \<Rightarrow> bool \<Rightarrow> asm_error + u32" where
  "a64_arithmetic inst compare =
     (let m = fi_mnemonic inst; sub = (m \<in> {''sub'', ''subs'', ''cmp''}); flags = (compare \<or> ends_with m ''s'') in
      rbind (if compare then
               if fi_operands inst = [] then Inl (fixed_error ''comparison requires operands'')
               else
                 rbind (a64_parse_reg (fi_operands inst ! 0)) (\<lambda>n.
                 Inr ((if rg_width n = 64 then ''xzr'' else ''wzr'') # fi_operands inst))
             else Inr (fi_operands inst)) (\<lambda>a.
      if \<not> (3 \<le> length a \<and> length a \<le> 4)
      then Inl (fixed_error ''arithmetic requires three operands and optional shift'')
      else
        rbind (a64_parse_reg (a ! 0)) (\<lambda>rd.
        rbind (a64_parse_reg (a ! 1)) (\<lambda>rn.
        rbind (same_width rd rn) (\<lambda>_.
        let operation = push_bit 30 (bit_of sub) OR push_bit 29 (bit_of flags) in
        case fixed_integer (a ! 2) of
          Inr _ \<Rightarrow> a64_arithmetic_immediate rd rn flags operation a
        | Inl _ \<Rightarrow>
            rbind (no_sp rd) (\<lambda>_. rbind (no_sp rn) (\<lambda>_.
            rbind (no_sp_reg (a ! 2)) (\<lambda>rm.
            rbind (same_width rd rm) (\<lambda>_.
            rbind (a64_shifted a (rg_width rd)) (\<lambda>(kind, amount).
            if kind = 3 then Inl (fixed_error ''add/sub does not support ror'')
            else
              Inr (0x0b000000 OR sf rd OR operation OR push_bit 22 kind OR push_bit 16 (rg_index rm)
                   OR push_bit 10 amount OR push_bit 5 (rg_index rn) OR rg_index rd)))))))))))"

definition a64_logical_op :: "string \<Rightarrow> string list \<Rightarrow> asm_error + u32" where
  "a64_logical_op m a =
     (if \<not> (3 \<le> length a \<and> length a \<le> 4)
      then Inl (fixed_error ''logical register operation requires three operands and optional shift'')
      else
        rbind (no_sp_reg (a ! 0)) (\<lambda>rd. rbind (no_sp_reg (a ! 1)) (\<lambda>rn. rbind (no_sp_reg (a ! 2)) (\<lambda>rm.
        rbind (same_width rd rn) (\<lambda>_. rbind (same_width rd rm) (\<lambda>_.
        rbind (a64_shifted a (rg_width rd)) (\<lambda>(kind, amount).
        Inr (a64_logical m OR sf rd OR push_bit 22 kind OR push_bit 16 (rg_index rm) OR push_bit 10 amount
             OR push_bit 5 (rg_index rn) OR rg_index rd))))))))"

definition a64_shift_alias :: "string \<Rightarrow> string list \<Rightarrow> asm_error + u32" where
  "a64_shift_alias m a =
     rbind (no_sp_reg (a ! 0)) (\<lambda>rd. rbind (no_sp_reg (a ! 1)) (\<lambda>rn. rbind (same_width rd rn) (\<lambda>_.
     rbind (fixed_unsigned (a ! 2) (if rg_width rd = 64 then 6 else 5)) (\<lambda>amount.
     let (immr, imms) =
           (if m = ''lsl'' then ((rg_width rd - amount) mod rg_width rd, rg_width rd - 1 - amount)
            else (amount, rg_width rd - 1))
     in Inr ((if m = ''asr'' then 0x13000000 else 0x53000000) OR sf rd OR push_bit 22 (bit_of (rg_width rd = 64))
             OR push_bit 16 immr OR push_bit 10 imms OR push_bit 5 (rg_index rn) OR rg_index rd)))))"

definition signed_offset :: "int \<Rightarrow> asm_error + u32" where
  "signed_offset v =
     (if \<not> (- 256 \<le> v \<and> v < 256) then Inl (fixed_error ''unscaled load/store offset must fit signed 9 bits'')
      else Inr (word_of_int v AND 0x1ff))"

definition a64_transfer_size :: "string \<Rightarrow> a64_reg \<Rightarrow> u32" where
  "a64_transfer_size m rt =
     (if ends_with m ''b'' then 0 else if ends_with m ''h'' then 1 else if rg_width rt = 64 then 3 else 2)"

definition a64_load_store :: "fixed_instruction \<Rightarrow> asm_error + u32" where
  "a64_load_store inst =
     rbind (fixed_count inst 2) (\<lambda>a.
     rbind (no_sp_reg (a ! 0)) (\<lambda>rt.
     rbind (a64_memory (a ! 1)) (\<lambda>(base, offset).
     let m = fi_mnemonic inst; load = starts_with m ''ld''; size = a64_transfer_size m rt;
         op = 0x38000000 OR push_bit 30 size OR push_bit 22 (bit_of load) in
     if size < 2 \<and> rg_width rt \<noteq> 32 then Inl (fixed_error ''byte/halfword transfer requires a W register'')
     else if m = ''ldrsw'' \<and> rg_width rt \<noteq> 64 then Inl (fixed_error ''ldrsw requires an X register'')
     else
       rbind (if m \<in> {''ldur'', ''stur''} then
                rbind (signed_offset offset) (\<lambda>imm. Inr (op, push_bit 12 imm))
              else
                let size = (if m = ''ldrsw'' then 2 else size); scale = 2 ^ unat size :: int in
                if offset < 0 \<or> offset smod scale \<noteq> 0 \<or> 4095 < offset sdiv scale
                then Inl (fixed_error ''unsigned load/store offset must be scaled, nonnegative and fit 12 bits'')
                else
                  Inr (if m = ''ldrsw'' then 0xb9800000
                       else 0x39000000 OR push_bit 30 size OR push_bit 22 (bit_of load),
                       push_bit 10 (word_of_int offset div word_of_int scale))) (\<lambda>(opcode, immediate).
       Inr (opcode OR immediate OR push_bit 5 (rg_index base) OR rg_index rt)))))"

definition a64_indirect_branch :: "fixed_instruction \<Rightarrow> asm_error + u32" where
  "a64_indirect_branch inst =
     (let m = fi_mnemonic inst in
      rbind (if m = ''ret'' \<and> fi_operands inst = [] then a64_parse_reg ''x30''
             else rbind (fixed_count inst 1) (\<lambda>a. a64_parse_reg (a ! 0))) (\<lambda>r.
      if rg_width r \<noteq> 64 \<or> rg_index r = 31 then Inl (fixed_error ''indirect control flow requires X0..X30'')
      else Inr (a64_indirect m OR push_bit 5 (rg_index r))))"

subsection \<open>Instruction selection\<close>

text \<open>The instructions that do not refer to a label.\<close>

definition a64_encode_plain :: "fixed_instruction \<Rightarrow> (asm_error + u32) option" where
  "a64_encode_plain inst =
     (let m = fi_mnemonic inst; a = fi_operands inst in
      if m = ''nop'' then Some (rbind (fixed_count inst 0) (\<lambda>_. Inr 0xd503201f))
      else if m \<in> {''ret'', ''br'', ''blr''} then Some (a64_indirect_branch inst)
      else if m = ''svc'' \<or> m = ''brk'' then
        Some (rbind (fixed_count inst 1) (\<lambda>a. rbind (fixed_unsigned (a ! 0) 16) (\<lambda>v.
          Inr ((if m = ''svc'' then 0xd4000001 else 0xd4200000) OR push_bit 5 v))))
      else if m = ''mov'' then Some (rbind (fixed_count inst 2) a64_mov)
      else if m \<in> {''movz'', ''movn'', ''movk''} then Some (a64_wide m a)
      else if m \<in> {''add'', ''adds'', ''sub'', ''subs''} then Some (a64_arithmetic inst False)
      else if m \<in> {''cmp'', ''cmn''} then Some (a64_arithmetic inst True)
      else if m \<in> {''and'', ''ands'', ''orr'', ''eor''} then Some (a64_logical_op m a)
      else if m \<in> {''lsl'', ''lsr'', ''asr''} then Some (rbind (fixed_count inst 3) (a64_shift_alias m))
      else if m \<in> {''ldr'', ''str'', ''ldrb'', ''strb'', ''ldrh'', ''strh'', ''ldrsw'', ''ldur'', ''stur''}
        then Some (a64_load_store inst)
      else None)"

definition a64_encode :: "fixed_instruction \<Rightarrow> fixed_context \<Rightarrow> asm_error + u32 \<times> fixed_context" where
  "a64_encode inst cx =
     (case a64_encode_plain inst of
        Some word \<Rightarrow> plain_word cx word
      | None \<Rightarrow>
          (let m = fi_mnemonic inst in
           if m = ''b'' \<or> m = ''bl'' then
             rbind (fixed_count inst 1) (\<lambda>a.
             rbind (pc_relative (a ! 0) (if m = ''b'' then jump26_relocation else call26_relocation) cx) (\<lambda>(d, cx).
             plain_word cx (a64_direct (m = ''bl'') d)))
           else if m = ''cbz'' \<or> m = ''cbnz'' then
             rbind (fixed_count inst 2) (\<lambda>a. rbind (no_sp_reg (a ! 0)) (\<lambda>rt.
             rbind (pc_relative (a ! 1) condbr19_relocation cx) (\<lambda>(d, cx).
             plain_word cx (a64_compare (m = ''cbnz'') (rg_width rt = 64) (rg_index rt) d))))
           else if m = ''adr'' then
             rbind (fixed_count inst 2) (\<lambda>a. rbind (no_sp_reg (a ! 0)) (\<lambda>rd.
             if rg_width rd \<noteq> 64 then Inl (fixed_error ''adr requires an X register'')
             else
               rbind (pc_relative (a ! 1) adr_relocation cx) (\<lambda>(d, cx). plain_word cx (a64_address (rg_index rd) d))))
           else if starts_with m ''b.'' then
             rbind (ok_or (a64_condition (drop 2 m)) (fixed_error ''invalid A64 branch condition'')) (\<lambda>condition.
             rbind (fixed_count inst 1) (\<lambda>a.
             rbind (pc_relative (a ! 0) condbr19_relocation cx) (\<lambda>(d, cx).
             plain_word cx (a64_conditional condition d))))
           else Inl (named_error ''unsupported A64 instruction'' m)))"

definition aarch64 :: fixed_isa where
  "aarch64 = \<lparr>isa_id = ''aarch64'', isa_hash_comments = False, isa_encode = a64_encode\<rparr>"

end
