(* ===== verification/AsmFields.thy ===== *)
theory AsmFields
  imports AsmRiscV AsmLoongArch AsmAArch64
begin

text \<open>
  What the words of the fixed-width instruction sets say.  The fields of a word are read as the
  processor reads them, and the encoders are shown to put every register and every displacement
  where it is read: the scattered immediates of RISC-V, the split branch offsets of LoongArch,
  the immediates of AArch64 and its single-instruction moves.
\<close>

unbundle bit_operations_syntax

subsection \<open>Words, bit by bit\<close>

text \<open>Shifts and truncations of 32-bit words under names that the simplifier does not rewrite;
  the bits of a field expression are then computed one by one.\<close>

lemma upto32:
  "[0..<32] =
     [0, 1, 2, 3, 4, 5, 6, 7, 8, 9, 10, 11, 12, 13, 14, 15, 16, 17, 18, 19, 20, 21, 22, 23, 24, 25, 26, 27, 28, 29, 30, 31]"
  by (simp add: upt_rec)

lemma bits32: "list_all (\<lambda>n. bit a n = bit b n) [0..<32] \<Longrightarrow> a = (b :: u32)"
  by (rule bit_word_eqI) (simp add: list_all_iff)

definition put :: "nat \<Rightarrow> u32 \<Rightarrow> u32" where "put = push_bit"

definition shr :: "nat \<Rightarrow> u32 \<Rightarrow> u32" where "shr = drop_bit"

definition low :: "nat \<Rightarrow> u32 \<Rightarrow> u32" where "low = take_bit"

lemmas fold_fields = put_def [symmetric] shr_def [symmetric] low_def [symmetric]

lemma field_bits:
  "bit (put k w) n \<longleftrightarrow> k \<le> n \<and> n < 32 \<and> bit w (n - k)"
  "bit (shr k w) n \<longleftrightarrow> bit w (k + n)"
  "bit (low k w) n \<longleftrightarrow> n < k \<and> bit w n"
  by (auto simp: put_def shr_def low_def bit_push_bit_iff bit_drop_bit_eq bit_take_bit_iff
      dest: bit_imp_le_length)

lemmas bits_simps = upto32 numeral_2_eq_2 [symmetric] field_bits bit_and_iff bit_or_iff bit_not_iff bit_xor_iff

lemma high_bit: "low k w = w \<Longrightarrow> k \<le> n \<Longrightarrow> bit w n = False"
  by (metis field_bits(3) not_le)

lemmas field_widths = high_bit [of 1] high_bit [of 2] high_bit [of 3] high_bit [of 4] high_bit [of 5] high_bit [of 7]
  high_bit [of 12] high_bit [of 16] high_bit [of 19] high_bit [of 21] high_bit [of 26]

subsection \<open>Displacements\<close>

lemma field_mask_eq: "1 \<le> bits \<Longrightarrow> bits \<le> 32 \<Longrightarrow> field_mask bits = mask bits"
proof -
  assume bits: "1 \<le> bits" "bits \<le> 32"
  have "push_bit bits 1 - 1 = (mask bits :: u64)" by (simp add: mask_eq_exp_minus_1 push_bit_of_1)
  then show ?thesis using bits
    by (simp add: field_mask_def) (rule bit_word_eqI, auto simp: bit_ucast_iff bit_mask_iff)
qed

lemma displacement_Inr:
  assumes "displacement v bits al = Inr imm"
  shows "1 \<le> bits \<and> bits \<le> 32 \<and> 0 < al \<and> al dvd v \<and> - (2 ^ (bits - 1)) \<le> v div al \<and> v div al < 2 ^ (bits - 1) \<and>
    imm = take_bit bits (word_of_int (v div al))"
proof -
  have pos: "1 \<le> bits" "bits \<le> 32" "0 < al" and rem: "v smod al = 0"
    using assms by (auto simp: displacement_def split: if_splits)
  have "v = 0 \<or> \<bar>v\<bar> mod al = 0" using rem pos by (auto simp: signed_modulo_int_def sgn_0_0)
  then have dv: "al dvd v" by (auto simp: dvd_eq_mod_eq_0 [symmetric])
  then obtain k where k: "v = al * k" by (rule dvdE)
  have "v sdiv al = v div al" using pos
    by (simp add: k signed_divide_int_def sgn_mult abs_mult sgn_mult_abs)
  with assms pos rem dv show ?thesis
    by (auto simp: displacement_def Let_def field_mask_eq take_bit_eq_mask split: if_splits)
qed

text \<open>Sign extension of the low bits of a word.\<close>

definition sign_extended :: "nat \<Rightarrow> u32 \<Rightarrow> int" where
  "sign_extended bits w = signed_take_bit (bits - 1) (uint w)"

lemma sign_extended_field:
  assumes "1 \<le> bits" "bits \<le> 32" "- (2 ^ (bits - 1)) \<le> v" "v < 2 ^ (bits - 1)"
  shows "sign_extended bits (take_bit bits (word_of_int v)) = v"
proof -
  have "uint (take_bit bits (word_of_int v :: u32)) = take_bit bits v"
    using assms(1,2) by (simp add: unsigned_take_bit_eq uint_word_of_int_eq min_def)
  moreover have "signed_take_bit (bits - 1) (take_bit bits v) = signed_take_bit (bits - 1) v"
    using assms(1) by (cases bits) (simp_all add: signed_take_bit_take_bit)
  moreover have "signed_take_bit (bits - 1) v = v" using assms(3,4) by (simp add: signed_take_bit_int_eq_self)
  ultimately show ?thesis by (simp add: sign_extended_def)
qed

lemma displacement_reads_back:
  assumes "displacement v bits al = Inr imm"
  shows "sign_extended bits imm * al = v" "low bits imm = imm"
  using displacement_Inr [OF assms] sign_extended_field [of bits "v div al"] by (auto simp: low_def)

lemma displacement_word:
  assumes "displacement d bits al = Inr imm" "d div al * al = d" 
  shows "- (2 ^ (bits - 1)) * al \<le> d \<and> d < 2 ^ (bits - 1) * al"
proof -
  note i = displacement_Inr [OF assms(1)]
  have "- (2 ^ (bits - 1)) * al \<le> (d div al) * al" using i by (intro mult_right_mono) auto
  moreover have "(d div al) * al < 2 ^ (bits - 1) * al" using i by (intro mult_strict_right_mono) auto
  ultimately show ?thesis by (simp only: assms(2))
qed

text \<open>An even displacement, read from the 32-bit word of the whole displacement.\<close>

lemma even_displacement:
  assumes "displacement d bits 2 = Inr imm" "bits \<le> 31"
  shows "sign_extended (Suc bits) (take_bit (Suc bits) (word_of_int d)) = d" "\<not> bit (word_of_int d :: u32) 0"
proof -
  note i = displacement_Inr [OF assms(1)]
  have "- (2 ^ (bits - 1)) * 2 \<le> d \<and> d < 2 ^ (bits - 1) * 2" using displacement_word [OF assms(1)] i by auto
  then have "- (2 ^ bits) \<le> d \<and> d < 2 ^ bits" using i by (cases bits) auto
  then show "sign_extended (Suc bits) (take_bit (Suc bits) (word_of_int d)) = d"
    using assms(2) by (intro sign_extended_field) auto
  show "\<not> bit (word_of_int d :: u32) 0" using i by (simp only: bit_word_of_int_iff) (simp add: bit_0)
qed

subsection \<open>RISC-V\<close>

definition field :: "nat \<Rightarrow> nat \<Rightarrow> u32 \<Rightarrow> u32" where
  "field lo len w = take_bit len (drop_bit lo w)"

definition rv_branch_field :: "u32 \<Rightarrow> u32" where
  "rv_branch_field w =
     push_bit 12 (field 31 1 w) OR push_bit 11 (field 7 1 w) OR push_bit 5 (field 25 6 w) OR push_bit 1 (field 8 4 w)"

definition rv_jump_field :: "u32 \<Rightarrow> u32" where
  "rv_jump_field w =
     push_bit 20 (field 31 1 w) OR push_bit 12 (field 12 8 w) OR push_bit 11 (field 20 1 w) OR push_bit 1 (field 21 10 w)"

definition rv_store_field :: "u32 \<Rightarrow> u32" where
  "rv_store_field w = push_bit 5 (field 25 7 w) OR field 7 5 w"

lemma low_of_nat: "n < 2 ^ k \<Longrightarrow> low k (of_nat n) = of_nat n"
  by (simp add: low_def take_bit_of_nat take_bit_nat_eq_self)

lemma position_less: "position p xs = Some i \<Longrightarrow> i < length xs"
  by (auto simp: position_def Let_def split: if_splits)

lemma numbered_register_less: "numbered_register prefix s limit = Some k \<Longrightarrow> k < limit"
  by (auto simp: numbered_register_def bind_eq_Some_conv split: if_splits)

lemma rv_reg_low: "rv_reg s = Inr r \<Longrightarrow> low 5 r = r"
  by (auto simp: rv_reg_def Let_def rbind_eq_Inr ok_or_eq_Inr rv_register_aliases_def
      split: if_splits option.splits dest!: numbered_register_less position_less intro!: low_of_nat)
     (simp_all add: low_def)

lemma rv_branch_fields:
  assumes "rv_branch f3 rs1 rs2 d = Inr w" "low 3 f3 = f3" "low 5 rs1 = rs1" "low 5 rs2 = rs2"
  shows "field 0 7 w = 0x63" "field 12 3 w = f3" "field 15 5 w = rs1" "field 20 5 w = rs2"
    "rv_branch_field w = low 13 (word_of_int d)"
proof -
  from assms(1) obtain imm where d: "displacement d 12 2 = Inr imm" by (auto simp: rv_branch_def rbind_eq_Inr)
  have w: "w = 0x63 OR push_bit 7 (drop_bit 11 (word_of_int d) AND 1) OR push_bit 8 (drop_bit 1 (word_of_int d) AND 15)
      OR push_bit 12 f3 OR push_bit 15 rs1 OR push_bit 20 rs2 OR push_bit 25 (drop_bit 5 (word_of_int d) AND 63)
      OR push_bit 31 (drop_bit 12 (word_of_int d) AND 1)"
    using assms(1) d by (simp add: rv_branch_def Let_def)
  note widths = high_bit [OF assms(2)] high_bit [OF assms(3)] high_bit [OF assms(4)]
  show "field 0 7 w = 0x63" unfolding w field_def fold_fields
    by (rule bits32) (simp add: bits_simps widths)
  show "field 12 3 w = f3" unfolding w field_def fold_fields
    by (rule bits32) (simp add: bits_simps widths)
  show "field 15 5 w = rs1" unfolding w field_def fold_fields
    by (rule bits32) (simp add: bits_simps widths)
  show "field 20 5 w = rs2" unfolding w field_def fold_fields
    by (rule bits32) (simp add: bits_simps widths)
  show "rv_branch_field w = low 13 (word_of_int d)" unfolding w rv_branch_field_def field_def fold_fields
    using even_displacement(2) [OF d] by (intro bits32) (simp add: bits_simps widths)
qed

lemma rv_jump_fields:
  assumes "rv_jump rd d = Inr w" "low 5 rd = rd"
  shows "field 0 7 w = 0x6f" "field 7 5 w = rd" "rv_jump_field w = low 21 (word_of_int d)"
proof -
  from assms(1) obtain imm where d: "displacement d 20 2 = Inr imm" by (auto simp: rv_jump_def rbind_eq_Inr)
  have w: "w = 0x6f OR push_bit 7 rd OR push_bit 31 (drop_bit 20 (word_of_int d) AND 1)
      OR push_bit 21 (drop_bit 1 (word_of_int d) AND 0x3ff) OR push_bit 20 (drop_bit 11 (word_of_int d) AND 1)
      OR push_bit 12 (drop_bit 12 (word_of_int d) AND 0xff)"
    using assms(1) d by (simp add: rv_jump_def Let_def)
  note widths = high_bit [OF assms(2)]
  show "field 0 7 w = 0x6f" "field 7 5 w = rd" unfolding w field_def fold_fields
    by (rule bits32, simp add: bits_simps widths)+
  show "rv_jump_field w = low 21 (word_of_int d)" unfolding w rv_jump_field_def field_def fold_fields
    using even_displacement(2) [OF d] by (intro bits32) (simp add: bits_simps widths)
qed

lemma rv_r_fields:
  assumes "low 7 opcode = opcode" "low 3 f3 = f3" "low 5 rd = rd" "low 5 rs1 = rs1" "low 5 rs2 = rs2" "low 7 f7 = f7"
  shows "field 0 7 (rv_r opcode f3 f7 rd rs1 rs2) = opcode" "field 12 3 (rv_r opcode f3 f7 rd rs1 rs2) = f3"
    "field 25 7 (rv_r opcode f3 f7 rd rs1 rs2) = f7" "field 7 5 (rv_r opcode f3 f7 rd rs1 rs2) = rd"
    "field 15 5 (rv_r opcode f3 f7 rd rs1 rs2) = rs1" "field 20 5 (rv_r opcode f3 f7 rd rs1 rs2) = rs2"
  unfolding rv_r_def field_def fold_fields
  by (rule bits32, simp add: bits_simps assms [THEN high_bit])+

lemma rv_i_fields:
  assumes "low 7 opcode = opcode" "low 3 f3 = f3" "low 5 rd = rd" "low 5 rs1 = rs1" "low 12 imm = imm"
  shows "field 0 7 (rv_i opcode f3 rd rs1 imm) = opcode" "field 12 3 (rv_i opcode f3 rd rs1 imm) = f3"
    "field 7 5 (rv_i opcode f3 rd rs1 imm) = rd" "field 15 5 (rv_i opcode f3 rd rs1 imm) = rs1"
    "field 20 12 (rv_i opcode f3 rd rs1 imm) = imm"
  unfolding rv_i_def field_def fold_fields
  by (rule bits32, simp add: bits_simps assms [THEN high_bit])+

lemma rv_store_fields:
  assumes "low 3 f3 = f3" "low 5 rs1 = rs1" "low 5 rs2 = rs2" "low 12 imm = imm"
  shows "field 0 7 (rv_store f3 rs1 rs2 imm) = 0x23" "field 12 3 (rv_store f3 rs1 rs2 imm) = f3"
    "field 15 5 (rv_store f3 rs1 rs2 imm) = rs1" "field 20 5 (rv_store f3 rs1 rs2 imm) = rs2"
    "rv_store_field (rv_store f3 rs1 rs2 imm) = imm"
  unfolding rv_store_def rv_store_field_def field_def fold_fields
  by (rule bits32, simp add: bits_simps assms [THEN high_bit])+

subsection \<open>LoongArch\<close>

definition la_field21 :: "u32 \<Rightarrow> u32" where
  "la_field21 w = push_bit 16 (field 0 5 w) OR field 10 16 w"

definition la_field26 :: "u32 \<Rightarrow> u32" where
  "la_field26 w = push_bit 16 (field 0 10 w) OR field 10 16 w"

lemma la_reg_low: "la_reg s = Inr r \<Longrightarrow> low 5 r = r"
  by (auto simp: la_reg_def Let_def rbind_eq_Inr ok_or_eq_Inr la_register_aliases_def
      split: if_splits option.splits dest!: numbered_register_less position_less intro!: low_of_nat)

lemma la_direct_fields:
  assumes "la_direct link d = Inr w"
  shows "field 26 6 w = (if link then 0x15 else 0x14)" "sign_extended 26 (la_field26 w) * 4 = d"
proof -
  from assms obtain imm where d: "displacement d 26 4 = Inr imm"
    and w: "w = (if link then 0x54000000 else 0x50000000) OR push_bit 10 (imm AND 0xffff) OR drop_bit 16 imm"
    by (auto simp: la_direct_def rbind_eq_Inr)
  note widths = high_bit [OF displacement_reads_back(2) [OF d]]
  show "field 26 6 w = (if link then 0x15 else 0x14)" unfolding w field_def fold_fields
    by (cases link; rule bits32; simp add: bits_simps widths)
  have "la_field26 w = imm" unfolding w la_field26_def field_def fold_fields
    by (cases link; rule bits32; simp add: bits_simps widths)
  then show "sign_extended 26 (la_field26 w) * 4 = d" using displacement_reads_back(1) [OF d] by simp
qed

lemma la_zero_fields:
  assumes "la_zero nonzero rj d = Inr w" "low 5 rj = rj"
  shows "field 26 6 w = (if nonzero then 0x11 else 0x10)" "field 5 5 w = rj" "sign_extended 21 (la_field21 w) * 4 = d"
proof -
  from assms obtain imm where d: "displacement d 21 4 = Inr imm"
    and w: "w = (if nonzero then 0x44000000 else 0x40000000) OR push_bit 5 rj OR push_bit 10 (imm AND 0xffff)
      OR drop_bit 16 imm"
    by (auto simp: la_zero_def rbind_eq_Inr)
  note widths = high_bit [OF displacement_reads_back(2) [OF d]] high_bit [OF assms(2)]
  show "field 26 6 w = (if nonzero then 0x11 else 0x10)" "field 5 5 w = rj" unfolding w field_def fold_fields
    by (cases nonzero; rule bits32; simp add: bits_simps widths)+
  have "la_field21 w = imm" unfolding w la_field21_def field_def fold_fields
    by (cases nonzero; rule bits32; simp add: bits_simps widths)
  then show "sign_extended 21 (la_field21 w) * 4 = d" using displacement_reads_back(1) [OF d] by simp
qed

lemma la_conditional_fields:
  assumes "la_conditional opcode rj rd d = Inr w" "low 5 rj = rj" "low 5 rd = rd" "opcode = put 26 code" "low 6 code = code"
  shows "field 26 6 w = code" "field 5 5 w = rj" "field 0 5 w = rd" "sign_extended 16 (field 10 16 w) * 4 = d"
proof -
  from assms obtain imm where d: "displacement d 16 4 = Inr imm"
    and w: "w = put 26 code OR rd OR push_bit 5 rj OR push_bit 10 imm"
    by (auto simp: la_conditional_def rbind_eq_Inr)
  note widths = high_bit [OF displacement_reads_back(2) [OF d]] assms(2,3,5) [THEN high_bit]
  show "field 26 6 w = code" "field 5 5 w = rj" "field 0 5 w = rd" unfolding w field_def fold_fields
    by (rule bits32, simp add: bits_simps widths)+
  have "field 10 16 w = imm" unfolding w field_def fold_fields
    by (rule bits32, simp add: bits_simps widths)
  then show "sign_extended 16 (field 10 16 w) * 4 = d" using displacement_reads_back(1) [OF d] by simp
qed

subsection \<open>AArch64\<close>

definition a64_address_field :: "u32 \<Rightarrow> u32" where
  "a64_address_field w = push_bit 2 (field 5 19 w) OR field 29 2 w"

lemma a64_alias_low: "a64_register_alias s = Some r \<Longrightarrow> low 5 (rg_index r) = rg_index r"
  by (auto simp: a64_register_alias_def low_def split: if_splits)

lemma a64_reg_low: "a64_parse_reg s = Inr r \<Longrightarrow> low 5 (rg_index r) = rg_index r"
  by (auto simp: a64_parse_reg_def Let_def rbind_eq_Inr ok_or_eq_Inr bind_eq_Some_conv a64_alias_low
      split: if_splits option.splits intro!: low_of_nat)

lemma a64_direct_fields:
  assumes "a64_direct link d = Inr w"
  shows "field 26 6 w = (if link then 0x25 else 0x05)" "sign_extended 26 (field 0 26 w) * 4 = d"
proof -
  from assms obtain imm where d: "displacement d 26 4 = Inr imm"
    and w: "w = (if link then 0x94000000 else 0x14000000) OR imm"
    by (auto simp: a64_direct_def rbind_eq_Inr)
  note widths = high_bit [OF displacement_reads_back(2) [OF d]]
  show "field 26 6 w = (if link then 0x25 else 0x05)" unfolding w field_def fold_fields
    by (cases link; rule bits32; simp add: bits_simps widths)
  have "field 0 26 w = imm" unfolding w field_def fold_fields
    by (cases link; rule bits32; simp add: bits_simps widths)
  then show "sign_extended 26 (field 0 26 w) * 4 = d" using displacement_reads_back(1) [OF d] by simp
qed

lemma a64_conditional_fields:
  assumes "a64_conditional condition d = Inr w" "low 4 condition = condition"
  shows "field 24 8 w = 0x54" "field 0 5 w = condition" "sign_extended 19 (field 5 19 w) * 4 = d"
proof -
  from assms obtain imm where d: "displacement d 19 4 = Inr imm"
    and w: "w = 0x54000000 OR push_bit 5 imm OR condition"
    by (auto simp: a64_conditional_def rbind_eq_Inr)
  note widths = high_bit [OF displacement_reads_back(2) [OF d]] high_bit [OF assms(2)]
  show "field 24 8 w = 0x54" "field 0 5 w = condition" unfolding w field_def fold_fields
    by (rule bits32, simp add: bits_simps widths)+
  have "field 5 19 w = imm" unfolding w field_def fold_fields
    by (rule bits32, simp add: bits_simps widths)
  then show "sign_extended 19 (field 5 19 w) * 4 = d" using displacement_reads_back(1) [OF d] by simp
qed

lemma a64_compare_fields:
  assumes "a64_compare nonzero wide register d = Inr w" "low 5 register = register"
  shows "field 24 7 w = (if nonzero then 0x35 else 0x34)" "field 31 1 w = bit_of wide" "field 0 5 w = register"
    "sign_extended 19 (field 5 19 w) * 4 = d"
proof -
  from assms obtain imm where d: "displacement d 19 4 = Inr imm"
    and w: "w = 0x34000000 OR push_bit 31 (bit_of wide) OR push_bit 24 (bit_of nonzero) OR push_bit 5 imm OR register"
    by (auto simp: a64_compare_def rbind_eq_Inr)
  note widths = high_bit [OF displacement_reads_back(2) [OF d]] high_bit [OF assms(2)]
  show "field 24 7 w = (if nonzero then 0x35 else 0x34)" "field 31 1 w = bit_of wide" "field 0 5 w = register"
    unfolding w field_def bit_of_def fold_fields
    by (cases nonzero; cases wide; rule bits32; simp add: bits_simps widths)+
  have "field 5 19 w = imm" unfolding w field_def bit_of_def fold_fields
    by (cases nonzero; cases wide; rule bits32; simp add: bits_simps widths)
  then show "sign_extended 19 (field 5 19 w) * 4 = d" using displacement_reads_back(1) [OF d] by simp
qed

lemma a64_address_fields:
  assumes "a64_address register d = Inr w" "low 5 register = register"
  shows "field 24 5 w = 0x10" "field 31 1 w = 0" "field 0 5 w = register" "sign_extended 21 (a64_address_field w) = d"
proof -
  from assms obtain imm where d: "displacement d 21 1 = Inr imm"
    and w: "w = 0x10000000 OR push_bit 29 (imm AND 3) OR push_bit 5 (drop_bit 2 imm) OR register"
    by (auto simp: a64_address_def rbind_eq_Inr)
  note widths = high_bit [OF displacement_reads_back(2) [OF d]] high_bit [OF assms(2)]
  show "field 24 5 w = 0x10" "field 31 1 w = 0" "field 0 5 w = register" unfolding w field_def fold_fields
    by (rule bits32, simp add: bits_simps widths)+
  have "a64_address_field w = imm" unfolding w a64_address_field_def field_def fold_fields
    by (rule bits32, simp add: bits_simps widths)
  then show "sign_extended 21 (a64_address_field w) = d" using displacement_reads_back(1) [OF d] by simp
qed

end
