(* ===== verification/AsmBranches.thy ===== *)
theory AsmBranches
  imports AsmFields
begin

text \<open>
  Instructions that refer to a label, on all three instruction sets.  The contract that the
  shared second pass relies on is a locale: an instruction of a given class ends with its label,
  and the word it encodes to reads back as the displacement computed for that label; every other
  instruction leaves the context alone.  The instruction sets are its interpretations.
\<close>

unbundle bit_operations_syntax

subsection \<open>Shared inversions\<close>

lemma plain_word_Inr: "plain_word cx m = Inr (w, cx') \<longleftrightarrow> m = Inr w \<and> cx' = cx"
  by (auto simp: plain_word_def rbind_eq_Inr)

lemma fixed_count_Inr: "fixed_count inst n = Inr a \<longleftrightarrow> a = fi_operands inst \<and> length (fi_operands inst) = n"
  by (auto simp: fixed_count_def)

lemma last_operand:
  "length a = 1 \<Longrightarrow> a ! 0 = last a" "length a = 2 \<Longrightarrow> a ! Suc 0 = last a" "length a = 3 \<Longrightarrow> a ! 2 = last a"
  by (subst last_conv_nth, auto)+

text \<open>The displacement of a label operand, and the relocation recorded when it is elsewhere.\<close>

lemma pc_relative_Inr:
  assumes "pc_relative operand code cx = Inr (d, cx')"
  shows "(cx' = cx \<and>
      ((\<exists>v. fixed_expression operand = Inr (ExprNumber v) \<and> d = v) \<or>
       (\<exists>nm addend y. fixed_expression operand = Inr (ExprSymbol nm addend) \<and> map_of (cx_symbols cx) nm = Some y \<and>
          fy_section y = Some (cx_section cx) \<and> d = uint (fy_offset y) + addend - uint (cx_offset cx)))) \<or>
    (\<exists>nm addend y. fixed_expression operand = Inr (ExprSymbol nm addend) \<and> map_of (cx_symbols cx) nm = Some y \<and>
       fy_section y \<noteq> Some (cx_section cx) \<and> d = 0 \<and>
       cx' = cx\<lparr>cx_relocations := cx_relocations cx @
         [\<lparr>ar_offset = unat (cx_offset cx), ar_symbol = nm, ar_kind = AsmTargetSpecific (cx_namespace cx) code,
           ar_addend = addend\<rparr>]\<rparr>)"
proof -
  from assms obtain e where e: "fixed_expression operand = Inr e" by (auto simp: pc_relative_def rbind_eq_Inr)
  show ?thesis
  proof (cases e)
    case (ExprNumber v)
    with assms e show ?thesis by (auto simp: pc_relative_def try_i64_def rbind_eq_Inr split: if_splits)
  next
    case (ExprSymbol nm addend)
    with assms e obtain y where y: "map_of (cx_symbols cx) nm = Some y"
      by (auto simp: pc_relative_def rbind_eq_Inr ok_or_eq_Inr)
    with assms e ExprSymbol show ?thesis
      by (cases "fy_section y = Some (cx_section cx)") (auto simp: pc_relative_def try_i64_def rbind_eq_Inr split: if_splits)
  qed
qed

subsection \<open>The contract\<close>

locale label_isa =
  fixes isa :: fixed_isa and refers :: "string \<Rightarrow> bool" and offset_of :: "u32 \<Rightarrow> int"
  assumes label_word: "isa_encode isa inst cx = Inr (w, cx') \<Longrightarrow> refers (fi_mnemonic inst) \<Longrightarrow>
      fi_operands inst \<noteq> [] \<and> (\<exists>code. pc_relative (last (fi_operands inst)) code cx = Inr (offset_of w, cx'))"
    and plain: "isa_encode isa inst cx = Inr (w, cx') \<Longrightarrow> \<not> refers (fi_mnemonic inst) \<Longrightarrow> cx' = cx"

subsection \<open>RISC-V\<close>

definition rv_refers :: "string \<Rightarrow> bool" where
  "rv_refers m \<longleftrightarrow> rv_branch_table m \<noteq> None \<or> m \<in> {''j'', ''jal'', ''beqz'', ''bnez''}"

definition rv_offset :: "u32 \<Rightarrow> int" where
  "rv_offset w = (if field 0 7 w = 0x63 then sign_extended 13 (rv_branch_field w) else sign_extended 21 (rv_jump_field w))"

lemma rv_branch_offset:
  assumes "rv_branch f3 rs1 rs2 d = Inr w" "low 3 f3 = f3" "low 5 rs1 = rs1" "low 5 rs2 = rs2"
  shows "rv_offset w = d"
proof -
  from assms(1) obtain imm where d: "displacement d 12 2 = Inr imm" by (auto simp: rv_branch_def rbind_eq_Inr)
  show ?thesis using rv_branch_fields [OF assms] even_displacement(1) [OF d] by (simp add: rv_offset_def low_def)
qed

lemma rv_jump_offset:
  assumes "rv_jump rd d = Inr w" "low 5 rd = rd"
  shows "rv_offset w = d"
proof -
  from assms(1) obtain imm where d: "displacement d 20 2 = Inr imm" by (auto simp: rv_jump_def rbind_eq_Inr)
  show ?thesis using rv_jump_fields [OF assms] even_displacement(1) [OF d] by (simp add: rv_offset_def low_def)
qed

lemma rv_pc_relative_Inr:
  "rv_pc_relative code f operand cx = Inr (w, cx') \<longleftrightarrow> (\<exists>d. pc_relative operand code cx = Inr (d, cx') \<and> f d = Inr w)"
  by (auto simp: rv_pc_relative_def rbind_eq_Inr plain_word_Inr)

lemma low_small: "low 5 0 = 0" "low 5 1 = 1" "low 3 0 = 0" "low 3 1 = 1"
  by (simp_all add: low_def)

lemma rv_branch_table_low: "rv_branch_table m = Some f3 \<Longrightarrow> low 3 f3 = f3"
  by (auto simp: rv_branch_table_def low_def split: if_splits)

lemma rv_tables_apart:
  "rv_refers m \<Longrightarrow> rv_register_table m = None \<and> rv_immediate_table m = None \<and>
     (rv_branch_table m = None \<longrightarrow> rv_load_table m = None \<and> rv_store_table m = None)"
proof -
  assume "rv_refers m"
  then have "m \<in> {''beq'', ''bne'', ''blt'', ''bge'', ''bltu'', ''bgeu'', ''j'', ''jal'', ''beqz'', ''bnez''}"
    by (auto simp: rv_refers_def rv_branch_table_def split: if_splits)
  then show ?thesis
    by (elim insertE; simp add: rv_register_table_def rv_immediate_table_def rv_branch_table_def rv_load_table_def
        rv_store_table_def)
qed

lemma rv_label_word:
  assumes "rv_encode inst cx = Inr (w, cx')" "rv_refers (fi_mnemonic inst)"
  shows "fi_operands inst \<noteq> [] \<and> (\<exists>code. pc_relative (last (fi_operands inst)) code cx = Inr (rv_offset w, cx'))"
proof (cases "rv_branch_table (fi_mnemonic inst)")
  case None
  then have m: "fi_mnemonic inst \<in> {''j'', ''jal'', ''beqz'', ''bnez''}" using assms(2) by (simp add: rv_refers_def)
  from assms(1) rv_tables_apart [OF assms(2)] None have e: "rv_encode_other inst cx = Inr (w, cx')"
    by (simp add: rv_encode_def Let_def)
  from m consider (j) "fi_mnemonic inst = ''j''" | (jal) "fi_mnemonic inst = ''jal''"
    | (zero) "fi_mnemonic inst \<in> {''beqz'', ''bnez''}" by blast
  then show ?thesis
  proof cases
    case j
    with e show ?thesis
      by (auto simp: rv_encode_other_def Let_def rbind_eq_Inr fixed_count_Inr rv_pc_relative_Inr last_operand
          dest!: rv_jump_offset [OF _ low_small(1)])
  next
    case jal
    with e show ?thesis
      by (auto simp: rv_encode_other_def Let_def rbind_eq_Inr fixed_count_Inr rv_pc_relative_Inr last_operand
          split: if_splits dest!: rv_jump_offset [OF _ rv_reg_low] rv_jump_offset [OF _ low_small(2)])
  next
    case zero
    with e show ?thesis
      by (auto simp: rv_encode_other_def Let_def rbind_eq_Inr fixed_count_Inr rv_pc_relative_Inr last_operand
          dest!: rv_branch_offset [OF _ low_small(3) rv_reg_low low_small(1)] rv_branch_offset [OF _ low_small(4) rv_reg_low low_small(1)]) blast+
  qed
next
  case (Some f3)
  from assms(1) rv_tables_apart [OF assms(2)] Some obtain rs1 rs2 d where
    e: "length (fi_operands inst) = 3" "rv_reg (fi_operands inst ! 0) = Inr rs1" "rv_reg (fi_operands inst ! 1) = Inr rs2"
      "pc_relative (fi_operands inst ! 2) rv_branch_relocation cx = Inr (d, cx')" "rv_branch f3 rs1 rs2 d = Inr w"
    by (auto simp: rv_encode_def Let_def rbind_eq_Inr fixed_count_Inr rv_pc_relative_Inr)
  with rv_branch_offset [OF e(5) rv_branch_table_low [OF Some] rv_reg_low [OF e(2)] rv_reg_low [OF e(3)]]
  show ?thesis by (auto simp: last_operand)
qed

lemma rv_plain:
  "rv_encode inst cx = Inr (w, cx') \<Longrightarrow> \<not> rv_refers (fi_mnemonic inst) \<Longrightarrow> cx' = cx"
  by (auto simp: rv_encode_def rv_refers_def rv_encode_other_def Let_def plain_word_Inr rbind_eq_Inr
      split: option.splits if_splits)

interpretation riscv: label_isa riscv64 rv_refers rv_offset
  by unfold_locales (auto simp: riscv64_def dest: rv_label_word rv_plain)

subsection \<open>LoongArch\<close>

definition la_refers :: "string \<Rightarrow> bool" where
  "la_refers m \<longleftrightarrow> la_conditional_table m \<noteq> None \<or> m \<in> {''b'', ''bl'', ''beqz'', ''bnez''}"

definition la_offset :: "u32 \<Rightarrow> int" where
  "la_offset w =
     (if field 26 6 w = 0x10 \<or> field 26 6 w = 0x11 then sign_extended 21 (la_field21 w) * 4
      else if field 26 6 w = 0x14 \<or> field 26 6 w = 0x15 then sign_extended 26 (la_field26 w) * 4
      else sign_extended 16 (field 10 16 w) * 4)"

lemma la_direct_offset: "la_direct link d = Inr w \<Longrightarrow> la_offset w = d"
  using la_direct_fields [of link d w] by (auto simp: la_offset_def split: if_splits)

lemma la_zero_offset: "la_zero nonzero rj d = Inr w \<Longrightarrow> low 5 rj = rj \<Longrightarrow> la_offset w = d"
  using la_zero_fields [of nonzero rj d w] by (auto simp: la_offset_def split: if_splits)

lemma la_conditional_table_code:
  "la_conditional_table m = Some opcode \<Longrightarrow> \<exists>code\<in>{0x16, 0x17, 0x18, 0x19, 0x1a, 0x1b}. opcode = put 26 code \<and> low 6 code = code"
  by (auto simp: la_conditional_table_def put_def low_def split: if_splits)

lemma la_conditional_offset:
  assumes "la_conditional opcode rj rd d = Inr w" "la_conditional_table m = Some opcode" "low 5 rj = rj" "low 5 rd = rd"
  shows "la_offset w = d"
proof -
  from la_conditional_table_code [OF assms(2)] obtain code where
    code: "code \<in> {0x16, 0x17, 0x18, 0x19, 0x1a, 0x1b}" "opcode = put 26 code" "low 6 code = code" by blast
  from la_conditional_fields [OF assms(1,3,4) code(2,3)] code(1) show ?thesis
    by (elim insertE emptyE; simp add: la_offset_def)
qed

lemma la_tables_apart:
  "la_refers m \<Longrightarrow> la_three_register m = None \<and> la_immediate_table m = None \<and> la_shift_table m = None \<and>
     la_memory_table m = None"
proof -
  assume "la_refers m"
  then have "m \<in> {''beq'', ''bne'', ''blt'', ''bge'', ''bltu'', ''bgeu'', ''b'', ''bl'', ''beqz'', ''bnez''}"
    by (auto simp: la_refers_def la_conditional_table_def split: if_splits)
  then show ?thesis
    by (elim insertE; simp add: la_three_register_def la_immediate_table_def la_shift_table_def la_memory_table_def)
qed

lemma la_label_word:
  assumes "la_encode inst cx = Inr (w, cx')" "la_refers (fi_mnemonic inst)"
  shows "fi_operands inst \<noteq> [] \<and> (\<exists>code. pc_relative (last (fi_operands inst)) code cx = Inr (la_offset w, cx'))"
proof (cases "la_conditional_table (fi_mnemonic inst)")
  case None
  then have m: "fi_mnemonic inst \<in> {''b'', ''bl'', ''beqz'', ''bnez''}" using assms(2) by (simp add: la_refers_def)
  from assms(1) la_tables_apart [OF assms(2)] None have e: "la_encode_other inst cx = Inr (w, cx')"
    by (simp add: la_encode_def Let_def)
  from m consider (direct) "fi_mnemonic inst \<in> {''b'', ''bl''}" | (zero) "fi_mnemonic inst \<in> {''beqz'', ''bnez''}" by blast
  then show ?thesis
  proof cases
    case direct
    with e show ?thesis
      by (auto simp: la_encode_other_def Let_def rbind_eq_Inr fixed_count_Inr plain_word_Inr last_operand
          dest!: la_direct_offset) blast+
  next
    case zero
    with e show ?thesis
      by (auto simp: la_encode_other_def Let_def rbind_eq_Inr fixed_count_Inr plain_word_Inr last_operand
          dest!: la_zero_offset [OF _ la_reg_low]) blast+
  qed
next
  case (Some opcode)
  from assms(1) la_tables_apart [OF assms(2)] Some obtain rj rd d where
    e: "length (fi_operands inst) = 3" "la_reg (fi_operands inst ! 0) = Inr rj" "la_reg (fi_operands inst ! 1) = Inr rd"
      "pc_relative (fi_operands inst ! 2) la_b16_relocation cx = Inr (d, cx')" "la_conditional opcode rj rd d = Inr w"
    by (auto simp: la_encode_def Let_def rbind_eq_Inr fixed_count_Inr plain_word_Inr)
  with la_conditional_offset [OF e(5) Some la_reg_low [OF e(2)] la_reg_low [OF e(3)]]
  show ?thesis by (auto simp: last_operand)
qed

lemma la_plain:
  "la_encode inst cx = Inr (w, cx') \<Longrightarrow> \<not> la_refers (fi_mnemonic inst) \<Longrightarrow> cx' = cx"
  by (auto simp: la_encode_def la_refers_def la_encode_other_def Let_def plain_word_Inr rbind_eq_Inr
      split: option.splits if_splits)

interpretation loongarch: label_isa loongarch64 la_refers la_offset
  by unfold_locales (auto simp: loongarch64_def dest: la_label_word la_plain)

subsection \<open>AArch64\<close>

definition a64_refers :: "string \<Rightarrow> bool" where
  "a64_refers m \<longleftrightarrow> starts_with m ''b.'' \<or> m \<in> {''b'', ''bl'', ''cbz'', ''cbnz'', ''adr''}"

definition a64_offset :: "u32 \<Rightarrow> int" where
  "a64_offset w =
     (if field 24 5 w = 0x10 \<and> field 31 1 w = 0 then sign_extended 21 (a64_address_field w)
      else if field 26 5 w = 0x05 then sign_extended 26 (field 0 26 w) * 4
      else sign_extended 19 (field 5 19 w) * 4)"

lemma field_inside: "field lo len w = v \<Longrightarrow> b + k \<le> len \<Longrightarrow> field (lo + b) k w = field b k v"
  by (auto simp: field_def drop_bit_take_bit take_bit_take_bit min_def add.commute)

lemma a64_direct_offset: "a64_direct link d = Inr w \<Longrightarrow> a64_offset w = d"
proof -
  assume e: "a64_direct link d = Inr w"
  note f = a64_direct_fields [OF e]
  have "field 26 3 w = 5" "field 26 5 w = 5"
    using field_inside [OF f(1), of 0 3] field_inside [OF f(1), of 0 5] by (simp_all add: field_def)
  moreover have "field 24 5 w \<noteq> 0x10"
  proof
    assume "field 24 5 w = 0x10"
    from field_inside [OF this, of 2 3] \<open>field 26 3 w = 5\<close> show False by (simp add: field_def)
  qed
  ultimately show ?thesis using f(2) by (simp add: a64_offset_def)
qed

lemma a64_conditional_offset:
  "a64_conditional condition d = Inr w \<Longrightarrow> low 4 condition = condition \<Longrightarrow> a64_offset w = d"
proof -
  assume e: "a64_conditional condition d = Inr w" "low 4 condition = condition"
  note f = a64_conditional_fields [OF e]
  have "field 24 5 w = 0x14" "field 26 5 w = 0x15"
    using field_inside [OF f(1), of 0 5] field_inside [OF f(1), of 2 5] by (simp_all add: field_def)
  then show ?thesis using f(3) by (simp add: a64_offset_def)
qed

lemma a64_compare_offset:
  "a64_compare nonzero wide register d = Inr w \<Longrightarrow> low 5 register = register \<Longrightarrow> a64_offset w = d"
proof -
  assume e: "a64_compare nonzero wide register d = Inr w" "low 5 register = register"
  note f = a64_compare_fields [OF e]
  have "field 24 5 w \<in> {0x14, 0x15}" "field 26 5 w = 0x0d"
    using field_inside [OF f(1), of 0 5] field_inside [OF f(1), of 2 5] by (simp_all add: field_def split: if_splits)
  then show ?thesis using f(4) by (auto simp: a64_offset_def)
qed

lemma a64_address_offset:
  "a64_address register d = Inr w \<Longrightarrow> low 5 register = register \<Longrightarrow> a64_offset w = d"
  using a64_address_fields [of register d w] by (simp add: a64_offset_def)

lemma a64_condition_low: "a64_condition s = Some c \<Longrightarrow> low 4 c = c"
  by (auto simp: a64_condition_def low_def split: if_splits)

lemma starts_with_dot: "starts_with m ''b.'' \<Longrightarrow> \<exists>r. m = ''b.'' @ r"
  by (cases m; cases "tl m") (auto simp: starts_with_def)

lemma no_sp_reg_low: "no_sp_reg s = Inr r \<Longrightarrow> low 5 (rg_index r) = rg_index r"
  by (auto simp: no_sp_reg_def no_sp_def rbind_eq_Inr a64_reg_low split: if_splits)

lemma a64_refers_not_plain: "a64_refers (fi_mnemonic inst) \<Longrightarrow> a64_encode_plain inst = None"
proof -
  assume "a64_refers (fi_mnemonic inst)"
  then consider "fi_mnemonic inst \<in> {''b'', ''bl'', ''cbz'', ''cbnz'', ''adr''}" | r where "fi_mnemonic inst = ''b.'' @ r"
    by (auto simp only: a64_refers_def dest: starts_with_dot)
  then show ?thesis
  proof cases
    case 1
    then show ?thesis by (elim insertE emptyE; simp add: a64_encode_plain_def Let_def)
  qed (simp add: a64_encode_plain_def Let_def)
qed

lemma a64_label_word:
  assumes "a64_encode inst cx = Inr (w, cx')" "a64_refers (fi_mnemonic inst)"
  shows "fi_operands inst \<noteq> [] \<and> (\<exists>code. pc_relative (last (fi_operands inst)) code cx = Inr (a64_offset w, cx'))"
proof -
  note e = assms(1) [unfolded a64_encode_def a64_refers_not_plain [OF assms(2)] option.case Let_def]
  from assms(2) consider (direct) "fi_mnemonic inst \<in> {''b'', ''bl''}" | (compare) "fi_mnemonic inst \<in> {''cbz'', ''cbnz''}"
    | (adr) "fi_mnemonic inst = ''adr''" | (conditional) r where "fi_mnemonic inst = ''b.'' @ r"
    by (auto simp: a64_refers_def dest!: starts_with_dot)
  then show ?thesis
  proof cases
    case direct
    with e show ?thesis
      by (auto simp: rbind_eq_Inr fixed_count_Inr plain_word_Inr last_operand dest!: a64_direct_offset)
  next
    case compare
    with e show ?thesis
      by (auto simp: rbind_eq_Inr fixed_count_Inr plain_word_Inr last_operand no_sp_reg_low
          dest!: a64_compare_offset [OF _ no_sp_reg_low]) blast+
  next
    case adr
    with e show ?thesis
      by (auto simp: rbind_eq_Inr fixed_count_Inr plain_word_Inr last_operand
          split: if_splits dest!: a64_address_offset [OF _ no_sp_reg_low])
  next
    case conditional
    with e show ?thesis
      by (auto simp: rbind_eq_Inr ok_or_eq_Inr fixed_count_Inr plain_word_Inr last_operand
          split: if_splits dest!: a64_conditional_offset [OF _ a64_condition_low])
  qed
qed

lemma a64_plain:
  "a64_encode inst cx = Inr (w, cx') \<Longrightarrow> \<not> a64_refers (fi_mnemonic inst) \<Longrightarrow> cx' = cx"
  by (auto simp: a64_encode_def a64_refers_def Let_def plain_word_Inr split: option.splits if_splits)

interpretation aarch: label_isa aarch64 a64_refers a64_offset
  by unfold_locales (auto simp: aarch64_def dest: a64_label_word a64_plain)

end
