(* ===== verification/AsmPasses.thy ===== *)
theory AsmPasses
  imports AsmBranches
begin

text \<open>
  The two passes agree.  The first pass keeps an invariant: in every section the records stand
  one behind the other from offset zero to the size of the section, labels are inside their
  section, and the bytes that will be written are within the limits.  The second pass then
  writes each record exactly where the first pass placed it.
\<close>

unbundle bit_operations_syntax

subsection \<open>The invariant of the first pass\<close>

definition extent :: "fixed_record \<Rightarrow> nat" where
  "extent r = (case action_size (fr_action r) (fr_offset r) of Inr n \<Rightarrow> unat n | Inl _ \<Rightarrow> 0)"

text \<open>Records one behind the other, from \<open>a\<close> to \<open>b\<close>.\<close>

fun contiguous :: "nat \<Rightarrow> fixed_record list \<Rightarrow> nat \<Rightarrow> bool" where
  "contiguous a [] b \<longleftrightarrow> a = b"
| "contiguous a (r # rs) b \<longleftrightarrow> unat (fr_offset r) = a \<and> contiguous (a + extent r) rs b"

definition section_records :: "usize \<Rightarrow> fixed_record list \<Rightarrow> fixed_record list" where
  "section_records i rs = filter (\<lambda>r. fr_section r = i) rs"

definition action_fits :: "asm_section_kind \<Rightarrow> u64 \<Rightarrow> fixed_action \<Rightarrow> bool" where
  "action_fits kind offset action \<longleftrightarrow>
     (case action of
        ActInstruction _ \<Rightarrow> kind = AsmText \<and> offset mod 4 = 0
      | ActData width vals \<Rightarrow> kind \<noteq> AsmBss \<and> width \<in> {1, 2, 4, 8} \<and> width * length vals \<le> usize_max
      | ActZero n \<Rightarrow> n < 2 ^ 64
      | ActAlign align \<Rightarrow> is_power_of_two align)"

definition materialized_bytes :: "asm_section list \<Rightarrow> u64 list \<Rightarrow> nat" where
  "materialized_bytes secs sizes = (\<Sum>i<length sizes. if as_kind (secs ! i) = AsmBss then 0 else unat (sizes ! i))"

definition sections_empty :: "asm_section list \<Rightarrow> bool" where
  "sections_empty secs \<longleftrightarrow> (\<forall>sec\<in>set secs. as_data sec = [] \<and> as_relocs sec = [] \<and> as_zero_fill sec = 0)"

definition records_placed :: "fixed_state \<Rightarrow> bool" where
  "records_placed st \<longleftrightarrow>
     length (fs_sizes st) = length (fs_sections st) \<and> fs_selected st < length (fs_sections st) \<and>
     (\<forall>i<length (fs_sections st).
        contiguous 0 (section_records i (fs_records st)) (unat (fs_sizes st ! i))) \<and>
     (\<forall>r\<in>set (fs_records st). fr_section r < length (fs_sections st) \<and>
        action_fits (as_kind (fs_sections st ! fr_section r)) (fr_offset r) (fr_action r))"

definition labels_placed :: "fixed_state \<Rightarrow> bool" where
  "labels_placed st \<longleftrightarrow> bt_sorted (fs_symbols st) \<and>
     (\<forall>(nm, y)\<in>set (fs_symbols st). \<forall>i. fy_section y = Some i \<longrightarrow>
        i < length (fs_sizes st) \<and> fy_offset y \<le> fs_sizes st ! i)"

definition names_placed :: "fixed_state \<Rightarrow> bool" where
  "names_placed st \<longleftrightarrow> bt_sorted (fs_section_names st) \<and>
     (\<forall>(nm, i)\<in>set (fs_section_names st). i < length (fs_sections st))"

definition bytes_limited :: "assembly_limits \<Rightarrow> fixed_state \<Rightarrow> bool" where
  "bytes_limited limits st \<longleftrightarrow> sections_empty (fs_sections st) \<and>
     fs_materialized st = materialized_bytes (fs_sections st) (fs_sizes st) \<and>
     fs_materialized st \<le> min (max_output_bytes limits) (256 * 1024 * 1024)"

definition first_pass_inv :: "assembly_limits \<Rightarrow> fixed_state \<Rightarrow> bool" where
  "first_pass_inv limits st \<longleftrightarrow> records_placed st \<and> labels_placed st \<and> names_placed st \<and> bytes_limited limits st"

lemma first_pass_invI:
  "records_placed st \<Longrightarrow> labels_placed st \<Longrightarrow> names_placed st \<Longrightarrow> bytes_limited limits st \<Longrightarrow> first_pass_inv limits st"
  by (simp add: first_pass_inv_def)

text \<open>The fields that each part of the invariant does not read.\<close>

lemma placed_updates [simp]:
  "records_placed (st\<lparr>fs_symbols := m\<rparr>) = records_placed st"
  "records_placed (st\<lparr>fs_globals := g\<rparr>) = records_placed st"
  "names_placed (st\<lparr>fs_symbols := m\<rparr>) = names_placed st"
  "names_placed (st\<lparr>fs_globals := g\<rparr>) = names_placed st"
  "names_placed (st\<lparr>fs_selected := i\<rparr>) = names_placed st"
  "labels_placed (st\<lparr>fs_globals := g\<rparr>) = labels_placed st"
  "labels_placed (st\<lparr>fs_selected := i\<rparr>) = labels_placed st"
  "labels_placed (st\<lparr>fs_sections := secs\<rparr>) = labels_placed st"
  "bytes_limited limits (st\<lparr>fs_symbols := m\<rparr>) = bytes_limited limits st"
  "bytes_limited limits (st\<lparr>fs_globals := g\<rparr>) = bytes_limited limits st"
  "bytes_limited limits (st\<lparr>fs_selected := i\<rparr>) = bytes_limited limits st"
  by (simp_all add: records_placed_def names_placed_def labels_placed_def bytes_limited_def)

lemma contiguous_append:
  "contiguous a (rs @ [r]) b \<longleftrightarrow> contiguous a rs (unat (fr_offset r)) \<and> b = unat (fr_offset r) + extent r"
  by (induction rs arbitrary: a) auto

lemma contiguous_inside:
  "contiguous a rs b \<Longrightarrow> r \<in> set rs \<Longrightarrow> a \<le> unat (fr_offset r) \<and> unat (fr_offset r) + extent r \<le> b"
  "contiguous a rs b \<Longrightarrow> a \<le> b"
proof (induction rs arbitrary: a)
  case (Cons q qs)
  { case 1 with Cons show ?case by fastforce }
  { case 2 with Cons show ?case by fastforce }
qed auto

lemma section_records_append:
  "section_records i (rs @ [r]) = section_records i rs @ (if fr_section r = i then [r] else [])"
  by (simp add: section_records_def)

lemma fixed_start_inv: "first_pass_inv limits fixed_start"
  by (auto simp: first_pass_inv_def fixed_start_def records_placed_def labels_placed_def names_placed_def
      bytes_limited_def section_records_def sections_empty_def new_section_def materialized_bytes_def bt_sorted_def)

subsection \<open>Selecting a section\<close>

lemma materialized_new_section:
  "length sizes = length secs \<Longrightarrow> materialized_bytes (secs @ [sec]) (sizes @ [0]) = materialized_bytes secs sizes"
  by (auto simp: materialized_bytes_def nth_append intro!: sum.cong)

lemma select_section_inv:
  assumes inv: "first_pass_inv limits st" and e: "select_section mnemonic tail st = Inr st'"
  shows "first_pass_inv limits st'"
proof -
  note parts = inv [unfolded first_pass_inv_def]
  from e obtain nm where "(\<exists>index. map_of (fs_section_names st) nm = Some index \<and> st' = st\<lparr>fs_selected := index\<rparr>) \<or>
      st' = st\<lparr>fs_sections := fs_sections st @ [new_section nm (default_for_name nm)], fs_sizes := fs_sizes st @ [0],
        fs_section_names := bt_insert nm (length (fs_sections st)) (fs_section_names st),
        fs_selected := length (fs_sections st)\<rparr>"
    by (auto simp: select_section_def Let_def rbind_eq_Inr split: option.splits if_splits)
  then consider (known) index where "map_of (fs_section_names st) nm = Some index" "st' = st\<lparr>fs_selected := index\<rparr>"
    | (new) "st' = st\<lparr>fs_sections := fs_sections st @ [new_section nm (default_for_name nm)], fs_sizes := fs_sizes st @ [0],
        fs_section_names := bt_insert nm (length (fs_sections st)) (fs_section_names st),
        fs_selected := length (fs_sections st)\<rparr>" by blast
  then show ?thesis
  proof cases
    case known
    have "index < length (fs_sections st)"
      using parts known(1) by (auto simp: names_placed_def dest!: map_of_SomeD)
    then have "records_placed st'" using parts known(2) by (simp add: records_placed_def)
    with parts known(2) show ?thesis by (simp add: first_pass_inv_def)
  next
    case new
    have "section_records (length (fs_sections st)) (fs_records st) = []"
      using parts by (auto simp: section_records_def records_placed_def filter_empty_conv)
    then have "records_placed st'" using parts unfolding new records_placed_def
      by (auto simp: nth_append less_Suc_eq)
    moreover have "labels_placed st'" using parts unfolding new labels_placed_def
      by (fastforce simp: nth_append)
    moreover have "names_placed st'" using parts unfolding new names_placed_def
      by (fastforce simp: set_bt_insert bt_sorted_insert)
    moreover have "bytes_limited limits st'" using parts unfolding new bytes_limited_def
      by (auto simp: materialized_new_section records_placed_def sections_empty_def new_section_def)
    ultimately show ?thesis by (rule first_pass_invI)
  qed
qed

subsection \<open>Symbols and labels\<close>

lemma labels_placed_insert:
  assumes "first_pass_inv limits st" "\<And>i. fy_section y = Some i \<Longrightarrow> i < length (fs_sizes st) \<and> fy_offset y \<le> fs_sizes st ! i"
  shows "first_pass_inv limits (st\<lparr>fs_symbols := bt_insert nm y (fs_symbols st)\<rparr>)"
proof -
  have "labels_placed (st\<lparr>fs_symbols := bt_insert nm y (fs_symbols st)\<rparr>)"
    using assms by (fastforce simp: first_pass_inv_def labels_placed_def set_bt_insert bt_sorted_insert)
  with assms(1) show ?thesis by (simp add: first_pass_inv_def)
qed

lemma globals_inv: "first_pass_inv limits st \<Longrightarrow> first_pass_inv limits (st\<lparr>fs_globals := g\<rparr>)"
  by (simp add: first_pass_inv_def)

lemma declare_symbol_inv:
  assumes inv: "first_pass_inv limits st" and e: "declare_symbol mnemonic span symbol st = Inr st'"
  shows "first_pass_inv limits st'"
proof -
  have "first_pass_inv limits (st\<lparr>fs_globals := g, fs_symbols := bt_insert nm \<lparr>fy_section = None, fy_offset = 0, fy_span = span\<rparr>
      (fs_symbols st)\<rparr>)" for g nm
    using labels_placed_insert [OF globals_inv [OF inv, of g], of "\<lparr>fy_section = None, fy_offset = 0, fy_span = span\<rparr>" nm]
    by simp
  with e globals_inv [OF inv] show ?thesis
    by (auto simp: declare_symbol_def Let_def rbind_eq_Inr split: if_splits option.splits)
qed

lemma symbol_directive_inv:
  assumes inv: "first_pass_inv limits st" and e: "symbol_directive mnemonic span tail st = Inr st'"
  shows "first_pass_inv limits st'"
proof -
  from e obtain names where "foldR (declare_symbol mnemonic span) names st = Inr st'"
    by (auto simp: symbol_directive_def rbind_eq_Inr split: if_splits)
  then show ?thesis using inv by (rule foldR_invariant) (rule declare_symbol_inv)
qed

lemma take_labels_inv:
  "first_pass_inv limits st \<Longrightarrow> take_labels name span s st = Inr (s', st') \<Longrightarrow> first_pass_inv limits st'"
proof (induction name span s st rule: take_labels.induct)
  case (1 name span s st)
  show ?case
  proof (cases "find_str '':'' s")
    case None
    with 1 show ?thesis by (simp add: take_labels.simps [of name span s])
  next
    case (Some colon)
    let ?label = "trim (take colon s)"
    let ?y = "\<lparr>fy_section = Some (fs_selected st), fy_offset = fs_sizes st ! fs_selected st, fy_span = span\<rparr>"
    from 1(3) Some have e: "fixed_identifier ?label = Inr ()" "\<not> 65536 \<le> length (fs_symbols st)"
      "map_of (fs_symbols st) ?label = None"
      "take_labels name span (trim (drop (Suc colon) s)) (st\<lparr>fs_symbols := bt_insert ?label ?y (fs_symbols st)\<rparr>) = Inr (s', st')"
      by (auto simp: take_labels.simps [of name span s] Let_def rbind_eq_Inr split: if_splits option.splits)
    have "first_pass_inv limits (st\<lparr>fs_symbols := bt_insert ?label ?y (fs_symbols st)\<rparr>)"
      using 1(2) by (intro labels_placed_insert) (auto simp: first_pass_inv_def records_placed_def)
    from 1(1) [OF Some refl e(1) e(2) e(3) this e(4)] show ?thesis .
  qed
qed

subsection \<open>Actions\<close>

lemma raise_alignment_inv:
  assumes inv: "first_pass_inv limits st"
  shows "first_pass_inv limits (st\<lparr>fs_sections := (fs_sections st)[fs_selected st :=
    (fs_sections st ! fs_selected st)\<lparr>as_align := n\<rparr>]\<rparr>)"
proof -
  let ?secs = "(fs_sections st)[fs_selected st := (fs_sections st ! fs_selected st)\<lparr>as_align := n\<rparr>]"
  note parts = inv [unfolded first_pass_inv_def]
  have sel: "fs_selected st < length (fs_sections st)" using parts by (simp add: records_placed_def)
  have kind: "as_kind (?secs ! i) = as_kind (fs_sections st ! i)" for i
    using sel by (cases "i = fs_selected st") auto
  have "records_placed (st\<lparr>fs_sections := ?secs\<rparr>)" using parts by (simp add: records_placed_def kind)
  moreover have "names_placed (st\<lparr>fs_sections := ?secs\<rparr>)" using parts by (simp add: names_placed_def)
  moreover have "bytes_limited limits (st\<lparr>fs_sections := ?secs\<rparr>)"
    using parts sel by (auto simp: bytes_limited_def materialized_bytes_def kind sections_empty_def
        dest!: set_update_subset_insert [THEN subsetD])
  ultimately show ?thesis using parts by (simp add: first_pass_inv_def)
qed

definition action_sound :: "fixed_action \<Rightarrow> bool" where
  "action_sound action \<longleftrightarrow>
     (case action of
        ActData width vals \<Rightarrow> width \<in> {1, 2, 4, 8}
      | ActZero n \<Rightarrow> n < 2 ^ 64
      | ActAlign align \<Rightarrow> is_power_of_two align
      | ActInstruction _ \<Rightarrow> True)"

lemma data_width_Some: "data_width m = Some w \<Longrightarrow> w \<in> {1, 2, 4, 8}"
  by (auto simp: data_width_def split: if_splits)

lemma directive_alignment_Inr: "directive_alignment m s = Inr a \<Longrightarrow> is_power_of_two a"
  by (auto simp: directive_alignment_def rbind_eq_Inr split: if_splits)

lemma parse_action_inv:
  assumes inv: "first_pass_inv limits st" and e: "parse_action mnemonic tail st = Inr (action, st')"
  shows "first_pass_inv limits st' \<and> action_sound action"
proof (cases "data_width mnemonic")
  case (Some w)
  with e inv data_width_Some [OF Some] show ?thesis
    by (auto simp: parse_action_def action_sound_def rbind_eq_Inr split: if_splits)
next
  case None
  consider (zero) "mnemonic = ''.zero'' \<or> mnemonic = ''.space''"
    | (align) "\<not> (mnemonic = ''.zero'' \<or> mnemonic = ''.space'')"
        "mnemonic = ''.balign'' \<or> mnemonic = ''.p2align'' \<or> mnemonic = ''.align''"
    | (other) "\<not> (mnemonic = ''.zero'' \<or> mnemonic = ''.space'')"
        "\<not> (mnemonic = ''.balign'' \<or> mnemonic = ''.p2align'' \<or> mnemonic = ''.align'')" by blast
  then show ?thesis
  proof cases
    case zero
    with e inv None show ?thesis
      by (auto simp: parse_action_def action_sound_def rbind_eq_Inr nat_less_iff split: if_splits)
  next
    case align
    with e None have "\<exists>a. directive_alignment mnemonic tail = Inr a \<and> action = ActAlign a \<and>
        st' = st\<lparr>fs_sections := (fs_sections st)[fs_selected st :=
          (fs_sections st ! fs_selected st)\<lparr>as_align := max (as_align (fs_sections st ! fs_selected st)) a\<rparr>]\<rparr>"
      unfolding parse_action_def by (simp only: option.case if_False if_True Let_def) (auto simp: rbind_eq_Inr)
    then show ?thesis using raise_alignment_inv [OF inv] directive_alignment_Inr by (auto simp: action_sound_def)
  next
    case other
    with e None have "rbind (fixed_operands tail) (\<lambda>ops. Inr (ActInstruction \<lparr>fi_mnemonic = mnemonic, fi_operands = ops\<rparr>, st))
        = Inr (action, st')"
      unfolding parse_action_def by (simp only: option.case if_False if_True Let_def) (auto split: if_splits)
    then show ?thesis using inv by (auto simp: rbind_eq_Inr action_sound_def)
  qed
qed

lemma materialized_update:
  assumes "k < length sizes"
  shows "materialized_bytes secs (sizes[k := n]) + (if as_kind (secs ! k) = AsmBss then 0 else unat (sizes ! k)) =
    materialized_bytes secs sizes + (if as_kind (secs ! k) = AsmBss then 0 else unat n)"
proof -
  let ?f = "\<lambda>ns i. if as_kind (secs ! i) = AsmBss then 0 else unat (ns ! i :: u64)"
  have k: "k \<in> {..<length sizes}" using assms by simp
  have "sum (?f (sizes[k := n])) ({..<length sizes} - {k}) = sum (?f sizes) ({..<length sizes} - {k})"
    by (rule sum.cong) auto
  then show ?thesis
    using sum.remove [OF finite_lessThan k, of "?f (sizes[k := n])"] sum.remove [OF finite_lessThan k, of "?f sizes"] assms
    by (simp add: materialized_bytes_def)
qed

lemma guarded:
  "(if b then Inl x else m) = Inr z \<longleftrightarrow> \<not> b \<and> m = Inr z"
  "(if b then Inr y else Inl x) = Inr z \<longleftrightarrow> b \<and> y = z"
  "(Inr y :: 'e + 'b) = Inr z \<longleftrightarrow> y = z"
  by auto

lemma place_action_inv:
  assumes inv: "first_pass_inv limits st" and sound: "action_sound action"
    and e: "place_action limits span action st = Inr st'"
  shows "first_pass_inv limits st'"
proof -
  note parts = inv [unfolded first_pass_inv_def]
  let ?k = "fs_selected st"
  let ?sec = "fs_sections st ! ?k"
  let ?offset = "fs_sizes st ! ?k"
  have k: "?k < length (fs_sections st)" "length (fs_sizes st) = length (fs_sections st)"
    using parts by (auto simp: records_placed_def)
  have bss: "as_kind ?sec = AsmBss \<Longrightarrow> case action of ActZero _ \<Rightarrow> True | ActAlign _ \<Rightarrow> True | _ \<Rightarrow> False"
    using e by (cases action) (simp_all add: place_action_def Let_def)
  have instr: "action = ActInstruction inst \<Longrightarrow> as_kind ?sec = AsmText \<and> ?offset mod 4 = 0" for inst
    using e by (simp add: place_action_def Let_def split: if_splits)
  define r where "r = \<lparr>fr_section = ?k, fr_offset = ?offset, fr_span = span, fr_action = action\<rparr>"
  have "\<exists>n end1 m. action_size action ?offset = Inr n \<and> checked_add ?offset n = Some end1 \<and>
      (if as_kind ?sec \<noteq> AsmBss then rbind (ok_or (usize_add (fs_materialized st) (unat n)) (fixed_error ''Assembly output limit exceeded''))
         (\<lambda>n. if n \<le> min (max_output_bytes limits) (256 * 1024 * 1024) then Inr n
              else Inl (fixed_error ''Assembly output limit exceeded''))
       else Inr (fs_materialized st)) = Inr m \<and>
      st' = st\<lparr>fs_sizes := (fs_sizes st)[?k := end1], fs_materialized := m, fs_records := fs_records st @ [r]\<rparr>"
    using e unfolding place_action_def Let_def r_def guarded rbind_eq_Inr ok_or_eq_Inr by blast
  then obtain n end1 m where
    n: "action_size action ?offset = Inr n" and end1: "checked_add ?offset n = Some end1"
    and m: "if as_kind ?sec \<noteq> AsmBss then m = fs_materialized st + unat n \<and> m \<le> min (max_output_bytes limits) (256 * 1024 * 1024)
      else m = fs_materialized st"
    and st': "st' = st\<lparr>fs_sizes := (fs_sizes st)[?k := end1], fs_materialized := m, fs_records := fs_records st @ [r]\<rparr>"
    by (cases "as_kind ?sec = AsmBss") (auto simp: rbind_eq_Inr ok_or_eq_Inr usize_add_eq_Some split: if_splits)
  have unat_end: "unat end1 = unat ?offset + unat n" using end1 by (simp add: checked_add_eq_Some)
  have ext: "extent r = unat n" using n by (simp add: extent_def r_def)
  have fits: "action_fits (as_kind ?sec) ?offset action"
    using sound bss instr n
    by (cases action) (auto simp: action_fits_def action_sound_def action_size_def rbind_eq_Inr ok_or_eq_Inr usize_mul_eq_Some)
  have old: "contiguous 0 (section_records i (fs_records st)) (unat (fs_sizes st ! i))" if "i < length (fs_sections st)" for i
    using parts that by (simp add: records_placed_def)
  have "contiguous 0 (section_records i (fs_records st @ [r])) (unat ((fs_sizes st)[?k := end1] ! i))"
    if i: "i < length (fs_sections st)" for i
    using old [OF i] k ext unat_end
    by (cases "i = ?k") (auto simp: section_records_append contiguous_append r_def)
  moreover have "fr_section q < length (fs_sections st) \<and>
      action_fits (as_kind (fs_sections st ! fr_section q)) (fr_offset q) (fr_action q)"
    if "q \<in> set (fs_records st @ [r])" for q
    using that parts k fits by (auto simp: records_placed_def r_def)
  ultimately have "records_placed st'" using k by (simp add: records_placed_def st')
  moreover have "labels_placed st'"
  proof -
    have "?offset \<le> end1" using unat_end by (simp add: word_le_nat_alt)
    then show ?thesis using parts k by (fastforce simp: labels_placed_def st' nth_list_update)
  qed
  moreover have "names_placed st'" using parts by (simp add: names_placed_def st')
  moreover have "bytes_limited limits st'"
    using parts m unat_end materialized_update [of ?k "fs_sizes st" "fs_sections st" end1] k
    by (auto simp: bytes_limited_def st' split: if_splits)
  ultimately show ?thesis by (rule first_pass_invI)
qed

subsection \<open>The pass\<close>

lemma four_way:
  "(if a then Inr x else if b then p else if c then q else r) = Inr z \<Longrightarrow> x = z \<or> p = Inr z \<or> q = Inr z \<or> r = Inr z"
  by (auto split: if_splits)

lemma read_line_inv:
  assumes inv: "first_pass_inv limits st" and e: "read_line isa limits name span line st = Inr st'"
  shows "first_pass_inv limits st'"
proof -
  from e obtain s st1 where t: "take_labels name span (trim (strip_comment (isa_hash_comments isa) line)) st = Inr (s, st1)"
    and rest: "(if s = [] then Inr st1 else
       let word_end = unwrap_or (find_white s) (length s); mnemonic = to_ascii_lowercase (take word_end s);
           tail = trim (drop word_end s)
       in if mnemonic \<in> {''.text'', ''.data'', ''.rodata'', ''.bss'', ''.section''} then select_section mnemonic tail st1
          else if mnemonic \<in> {''.global'', ''.globl'', ''.extern''} then symbol_directive mnemonic span tail st1
          else rbind (parse_action mnemonic tail st1) (\<lambda>(action, st). place_action limits span action st)) = Inr st'"
    unfolding read_line_def by (auto simp only: rbind_eq_Inr split_paired_Ex prod.case)
  from take_labels_inv [OF inv t] have inv1: "first_pass_inv limits st1" .
  define m where "m = to_ascii_lowercase (take (unwrap_or (find_white s) (length s)) s)"
  define t where "t = trim (drop (unwrap_or (find_white s) (length s)) s)"
  from four_way [OF rest [unfolded Let_def, folded m_def t_def]] consider (empty) "st' = st1" | (sel) "select_section m t st1 = Inr st'"
    | (sym) "symbol_directive m span t st1 = Inr st'"
    | (act) "rbind (parse_action m t st1) (\<lambda>(action, st). place_action limits span action st) = Inr st'"
    by blast
  then show ?thesis
  proof cases
    case act
    then obtain action st2 where "parse_action m t st1 = Inr (action, st2)" "place_action limits span action st2 = Inr st'"
      by (auto simp only: rbind_eq_Inr split_paired_Ex prod.case)
    then show ?thesis using parse_action_inv [OF inv1] place_action_inv by blast
  qed (simp_all add: inv1 select_section_inv [OF inv1] symbol_directive_inv [OF inv1])
qed

lemma first_pass_invariant:
  assumes "first_pass isa limits name source = Inr st"
  shows "first_pass_inv limits st"
proof -
  from assms obtain n where
    "foldR (source_line isa limits name) (enumerate 0 (split_lines source)) (0, fixed_start) = Inr (n, st)"
    by (auto simp: first_pass_def rbind_eq_Inr)
  then have "first_pass_inv limits (snd (n, st))"
  proof (rule foldR_invariant)
    fix x :: "usize \<times> string" and s t :: "usize \<times> fixed_state"
    assume "first_pass_inv limits (snd s)" "source_line isa limits name x s = Inr t"
    then show "first_pass_inv limits (snd t)"
      by (cases x; cases s) (auto simp: source_line_def Let_def rbind_eq_Inr map_err_eq_Inr intro: read_line_inv)
  qed (simp add: fixed_start_inv)
  then show ?thesis by simp
qed

end
