(* ===== verification/AsmEmission.thy ===== *)
theory AsmEmission
  imports AsmPasses "HOL-Library.Sublist"
begin

text \<open>
  The second pass.  On an instruction set that keeps the contract, emitting a record only extends
  its section, by exactly the bytes that the first pass counted, and records only relocations
  that lie inside the section and name a known symbol.
\<close>

unbundle bit_operations_syntax

subsection \<open>Sections that grow\<close>

definition grown :: "asm_section \<Rightarrow> asm_section \<Rightarrow> bool" where
  "grown sec sec' \<longleftrightarrow> as_kind sec' = as_kind sec \<and> as_align sec' = as_align sec \<and> as_name sec' = as_name sec \<and>
     as_zero_fill sec' = as_zero_fill sec \<and> prefix (as_data sec) (as_data sec') \<and> prefix (as_relocs sec) (as_relocs sec')"

lemma grown_refl [simp]: "grown sec sec"
  by (simp add: grown_def)

lemma grown_trans: "grown a b \<Longrightarrow> grown b c \<Longrightarrow> grown a c"
  by (auto simp: grown_def)

text \<open>The bytes that a relocation patches.\<close>

definition patch_width :: "asm_reloc_kind \<Rightarrow> nat" where
  "patch_width k = (if k = AsmAbsolute64 then 8 else 4)"

definition relocs_inside :: "symbol_table \<Rightarrow> asm_section \<Rightarrow> bool" where
  "relocs_inside symbols sec \<longleftrightarrow>
     (\<forall>r\<in>set (as_relocs sec). ar_offset r + patch_width (ar_kind r) \<le> length (as_data sec) \<and>
        map_of symbols (ar_symbol r) \<noteq> None)"

lemma relocs_inside_grow:
  "relocs_inside symbols sec \<Longrightarrow> relocs_inside symbols (sec\<lparr>as_data := as_data sec @ bs\<rparr>)"
  by (fastforce simp: relocs_inside_def)

lemma data_value_grows:
  assumes "data_value symbols width s sec = Inr sec'" "relocs_inside symbols sec"
  shows "grown sec sec' \<and> length (as_data sec') = length (as_data sec) + width \<and> relocs_inside symbols sec'"
proof -
  from assms(1) obtain e where e: "fixed_expression s = Inr e" by (auto simp: data_value_def rbind_eq_Inr)
  show ?thesis
  proof (cases e)
    case (ExprNumber n)
    with e assms(1) have "sec' = sec\<lparr>as_data := as_data sec @ to_le_bytes width (word_of_int n :: u64)\<rparr>"
      by (auto simp: data_value_def rbind_eq_Inr split: if_splits)
    then show ?thesis using relocs_inside_grow [OF assms(2)] by (simp add: grown_def)
  next
    case (ExprSymbol nm addend)
    let ?f = "\<lambda>kind. sec\<lparr>as_relocs := as_relocs sec @ [\<lparr>ar_offset = length (as_data sec), ar_symbol = nm,
      ar_kind = kind, ar_addend = addend\<rparr>], as_data := as_data sec @ to_le_bytes width (0 :: u64)\<rparr>"
    from ExprSymbol e assms(1) have "map_of symbols nm \<noteq> None"
      and "width = 4 \<and> sec' = ?f AsmAbsolute32 \<or> width = 8 \<and> sec' = ?f AsmAbsolute64"
      by (auto simp: data_value_def rbind_eq_Inr split: if_splits)
    then show ?thesis using assms(2) by (fastforce simp: grown_def relocs_inside_def patch_width_def)
  qed
qed

lemma data_values_grow:
  "foldR (data_value symbols width) vals sec = Inr sec' \<Longrightarrow> relocs_inside symbols sec \<Longrightarrow>
     grown sec sec' \<and> length (as_data sec') = length (as_data sec) + width * length vals \<and> relocs_inside symbols sec'"
proof (induction vals arbitrary: sec)
  case (Cons v vals)
  then obtain sec1 where s: "data_value symbols width v sec = Inr sec1" "foldR (data_value symbols width) vals sec1 = Inr sec'"
    by (auto simp: rbind_eq_Inr)
  from data_value_grows [OF s(1) Cons.prems(2)] Cons.IH [OF s(2)] show ?case
    by (auto intro: grown_trans)
qed simp

lemma extent_action:
  "fr_action r = ActInstruction inst \<Longrightarrow> extent r = 4"
  "fr_action r = ActData width vals \<Longrightarrow> width * length vals \<le> usize_max \<Longrightarrow> extent r = width * length vals"
  "fr_action r = ActZero n \<Longrightarrow> n < 2 ^ 64 \<Longrightarrow> extent r = n"
  "fr_action r = ActAlign align \<Longrightarrow> extent r = unat (align_padding (fr_offset r) align)"
proof -
  assume a: "fr_action r = ActData width vals" and le: "width * length vals \<le> usize_max"
  have "unat (of_nat (width * length vals) :: u64) = width * length vals"
    using le by (simp del: of_nat_mult add: unat_of_nat usize_max_def)
  with a le show "extent r = width * length vals"
    by (simp del: of_nat_mult add: extent_def action_size_def usize_mul_def)
qed (simp_all add: extent_def action_size_def unat_of_nat)

subsection \<open>One record\<close>

definition record_context :: "fixed_isa \<Rightarrow> symbol_table \<Rightarrow> fixed_record \<Rightarrow> asm_relocation list \<Rightarrow> fixed_context" where
  "record_context isa symbols r relocs =
     \<lparr>cx_namespace = isa_id isa, cx_section = fr_section r, cx_offset = fr_offset r, cx_symbols = symbols,
      cx_relocations = relocs\<rparr>"

context label_isa begin

lemma encode_effect:
  assumes "isa_encode isa inst cx = Inr (w, cx')"
  shows "cx' = cx \<or> (\<exists>nm code addend y. map_of (cx_symbols cx) nm = Some y \<and>
    cx' = cx\<lparr>cx_relocations := cx_relocations cx @
         [\<lparr>ar_offset = unat (cx_offset cx), ar_symbol = nm, ar_kind = AsmTargetSpecific (cx_namespace cx) code,
           ar_addend = addend\<rparr>]\<rparr>)"
proof (cases "refers (fi_mnemonic inst)")
  case True
  from label_word [OF assms True] obtain code where
    "pc_relative (last (fi_operands inst)) code cx = Inr (offset_of w, cx')" by blast
  from pc_relative_Inr [OF this] show ?thesis by blast
next
  case False
  with plain [OF assms] show ?thesis by simp
qed

lemma emit_action_grows:
  assumes e: "emit_action isa symbols r sec = Inr sec'"
    and fits: "action_fits (as_kind sec) (fr_offset r) (fr_action r)"
    and at: "length (as_data sec) = unat (fr_offset r)" and inside: "relocs_inside symbols sec"
  shows "grown sec sec' \<and> length (as_data sec') = length (as_data sec) + extent r \<and> relocs_inside symbols sec'"
proof (cases "fr_action r")
  case (ActInstruction inst)
  from e ActInstruction obtain w cx' where
    w: "isa_encode isa inst (record_context isa symbols r (as_relocs sec)) = Inr (w, cx')"
    and sec': "sec' = sec\<lparr>as_relocs := cx_relocations cx', as_data := as_data sec @ to_le_bytes 4 w\<rparr>"
    by (auto simp: emit_action_def rbind_eq_Inr record_context_def)
  from encode_effect [OF w] inside at show ?thesis
    by (fastforce simp: sec' grown_def extent_action(1) [OF ActInstruction] record_context_def relocs_inside_def
        patch_width_def)
next
  case (ActData width vals)
  with e fits data_values_grow [OF _ inside] show ?thesis
    by (auto simp: emit_action_def action_fits_def extent_action(2))
next
  case (ActZero n)
  with e fits relocs_inside_grow [OF inside] show ?thesis
    by (auto simp: emit_action_def action_fits_def extent_action(3) grown_def)
next
  case (ActAlign align)
  with e relocs_inside_grow [OF inside] show ?thesis
    by (auto simp: emit_action_def extent_action(4) grown_def)
qed

subsection \<open>All records\<close>

text \<open>A record stands in a section: it was emitted at its offset, and what it produced is still there.\<close>

definition emitted :: "symbol_table \<Rightarrow> asm_section \<Rightarrow> fixed_record \<Rightarrow> bool" where
  "emitted symbols final r \<longleftrightarrow>
     (\<exists>before after. emit_action isa symbols r before = Inr after \<and> length (as_data before) = unat (fr_offset r) \<and>
        length (as_data after) = unat (fr_offset r) + extent r \<and> grown after final)"

lemma emitted_grown: "emitted symbols sec r \<Longrightarrow> grown sec sec' \<Longrightarrow> emitted symbols sec' r"
  by (auto simp: emitted_def intro: grown_trans)

lemma emit_records:
  assumes "foldR (emit_record isa name symbols) rs secs = Inr secs'"
    and "\<forall>r\<in>set rs. fr_section r < length secs \<and> action_fits (as_kind (secs ! fr_section r)) (fr_offset r) (fr_action r)"
    and "\<forall>i<length secs. as_kind (secs ! i) \<noteq> AsmBss \<longrightarrow>
       contiguous (length (as_data (secs ! i))) (section_records i rs) (b i) \<and> relocs_inside symbols (secs ! i)"
  shows "length secs' = length secs \<and>
    (\<forall>i<length secs. grown (secs ! i) (secs' ! i) \<and>
       (as_kind (secs ! i) = AsmBss \<longrightarrow> secs' ! i = secs ! i) \<and>
       (as_kind (secs ! i) \<noteq> AsmBss \<longrightarrow> length (as_data (secs' ! i)) = b i \<and> relocs_inside symbols (secs' ! i))) \<and>
    (\<forall>r\<in>set rs. as_kind (secs ! fr_section r) \<noteq> AsmBss \<longrightarrow> emitted symbols (secs' ! fr_section r) r)"
  using assms
proof (induction rs arbitrary: secs)
  case Nil
  then show ?case by (auto simp: section_records_def)
next
  case (Cons r rs)
  let ?k = "fr_section r"
  from Cons.prems(1) obtain secs1 where one: "emit_record isa name symbols r secs = Inr secs1"
    and rest: "foldR (emit_record isa name symbols) rs secs1 = Inr secs'" by (auto simp: rbind_eq_Inr)
  have k: "?k < length secs" and fits: "action_fits (as_kind (secs ! ?k)) (fr_offset r) (fr_action r)"
    using Cons.prems(2) by auto
  show ?case
  proof (cases "as_kind (secs ! ?k) = AsmBss")
    case True
    with one have "secs1 = secs" by (simp add: emit_record_def Let_def)
    moreover have "\<forall>i<length secs. as_kind (secs ! i) \<noteq> AsmBss \<longrightarrow>
       contiguous (length (as_data (secs ! i))) (section_records i rs) (b i) \<and> relocs_inside symbols (secs ! i)"
      using Cons.prems(3) True by (auto simp: section_records_def split: if_splits)
    ultimately show ?thesis using Cons.IH [OF rest] Cons.prems(2) True by auto
  next
    case False
    with one obtain sec where sec: "emit_action isa symbols r (secs ! ?k) = Inr sec" and secs1: "secs1 = secs[?k := sec]"
      by (auto simp: emit_record_def Let_def rbind_eq_Inr map_err_eq_Inr)
    from Cons.prems(3) k False have c: "contiguous (length (as_data (secs ! ?k))) (section_records ?k (r # rs)) (b ?k)"
      "relocs_inside symbols (secs ! ?k)" by blast+
    then have at: "length (as_data (secs ! ?k)) = unat (fr_offset r)"
      and c': "contiguous (length (as_data (secs ! ?k)) + extent r) (section_records ?k rs) (b ?k)"
      by (auto simp: section_records_def)
    from emit_action_grows [OF sec fits at c(2)] have g: "grown (secs ! ?k) sec"
      "length (as_data sec) = length (as_data (secs ! ?k)) + extent r" "relocs_inside symbols sec" by auto
    have grow: "grown (secs ! i) (secs1 ! i)" if "i < length secs" for i
      using g(1) k that by (cases "i = ?k") (auto simp: secs1)
    have kinds: "as_kind (secs1 ! i) = as_kind (secs ! i)" if "i < length secs" for i
      using grow [OF that] by (simp add: grown_def)
    have "length secs1 = length secs" by (simp add: secs1)
    moreover have "\<forall>i<length secs1. as_kind (secs1 ! i) \<noteq> AsmBss \<longrightarrow>
       contiguous (length (as_data (secs1 ! i))) (section_records i rs) (b i) \<and> relocs_inside symbols (secs1 ! i)"
    proof (intro allI impI)
      fix i assume i: "i < length secs1" "as_kind (secs1 ! i) \<noteq> AsmBss"
      show "contiguous (length (as_data (secs1 ! i))) (section_records i rs) (b i) \<and> relocs_inside symbols (secs1 ! i)"
      proof (cases "i = ?k")
        case True
        with g c' k show ?thesis by (simp add: secs1)
      next
        case False
        then have "section_records i (r # rs) = section_records i rs" by (simp add: section_records_def)
        with False Cons.prems(3) i show ?thesis by (auto simp: secs1)
      qed
    qed
    moreover have "\<forall>q\<in>set rs. fr_section q < length secs1 \<and> action_fits (as_kind (secs1 ! fr_section q)) (fr_offset q) (fr_action q)"
      using Cons.prems(2) kinds by (auto simp: secs1)
    ultimately have ih: "length secs' = length secs"
      "\<And>i. i < length secs \<Longrightarrow> grown (secs1 ! i) (secs' ! i) \<and> (as_kind (secs ! i) = AsmBss \<longrightarrow> secs' ! i = secs1 ! i) \<and>
         (as_kind (secs ! i) \<noteq> AsmBss \<longrightarrow> length (as_data (secs' ! i)) = b i \<and> relocs_inside symbols (secs' ! i))"
      "\<And>q. q \<in> set rs \<Longrightarrow> as_kind (secs ! fr_section q) \<noteq> AsmBss \<longrightarrow> emitted symbols (secs' ! fr_section q) q"
      using Cons.IH [OF rest] kinds Cons.prems(2) by auto
    have "emitted symbols sec r" using sec at g(2) by (auto simp: emitted_def intro!: exI)
    then have "emitted symbols (secs' ! ?k) r"
      using ih(2) [OF k] k by (auto simp: secs1 intro: emitted_grown)
    moreover have "secs1 ! i = secs ! i" if "as_kind (secs ! i) = AsmBss" for i
      using that False by (cases "i = ?k") (auto simp: secs1)
    moreover have "grown (secs ! i) (secs' ! i)" if "i < length secs" for i
      using grow [OF that] ih(2) [OF that] by (blast intro: grown_trans)
    ultimately show ?thesis using ih by auto
  qed
qed

end

end
