(* ===== verification/AsmTheorems.thy ===== *)
theory AsmTheorems
  imports AsmEmission
begin

text \<open>
  The fixed-width assemblers as a whole: what a successful run has put into its sections,
  that every branch reaches its label, and that the output is well formed and bounded.
\<close>

unbundle bit_operations_syntax

subsection \<open>The second pass\<close>

lemma reserved_sections:
  assumes "foldR (reserve_section grants sizes) (enumerate n secs) acc = Inr out"
  shows "out = acc @ map (\<lambda>(i, sec). if as_kind sec = AsmBss then sec\<lparr>as_zero_fill := sizes ! i\<rparr> else sec) (enumerate n secs)"
  using assms
proof (induction secs arbitrary: n acc)
  case (Cons sec secs)
  from Cons.prems obtain acc' where a: "reserve_section grants sizes (n, sec) acc = Inr acc'"
    and rest: "foldR (reserve_section grants sizes) (enumerate (Suc n) secs) acc' = Inr out" by (auto simp: rbind_eq_Inr)
  from a have "acc' = acc @ [if as_kind sec = AsmBss then sec\<lparr>as_zero_fill := sizes ! n\<rparr> else sec]"
    by (auto simp: reserve_section_def split: if_splits)
  with Cons.IH [OF rest] show ?case by simp
qed simp

definition header_of :: "asm_section \<Rightarrow> asm_section_kind \<times> u64 \<times> string" where
  "header_of sec = (as_kind sec, as_align sec, as_name sec)"

definition word_at :: "bytes \<Rightarrow> nat \<Rightarrow> u32" where
  "word_at data at = of_nat (le_value (take 4 (drop at data)))"

lemma word_at_prefix:
  "prefix (before @ to_le_bytes 4 w) final \<Longrightarrow> word_at final (length before) = w"
proof -
  have "unat w < 2 ^ LENGTH(32)" by (rule unsigned_less)
  then have "unat w < 4294967296" by simp
  then show "prefix (before @ to_le_bytes 4 w) final \<Longrightarrow> word_at final (length before) = w"
    by (auto simp: prefix_def word_at_def le_value_to_le_bytes)
qed

context label_isa begin

lemma assembled:
  assumes "fixed_assemble grants isa name source limits = Inr out"
  obtains st where "first_pass isa limits name source = Inr st" "first_pass_inv limits st"
    "length (ao_sections out) = length (fs_sections st)"
    "ao_symbols out = map (output_symbol (fs_globals st)) (fs_symbols st)"
    "\<And>i. i < length (fs_sections st) \<Longrightarrow> header_of (ao_sections out ! i) = header_of (fs_sections st ! i)"
    "\<And>i. i < length (fs_sections st) \<Longrightarrow> as_kind (fs_sections st ! i) = AsmBss \<Longrightarrow>
       as_data (ao_sections out ! i) = [] \<and> as_relocs (ao_sections out ! i) = [] \<and> as_zero_fill (ao_sections out ! i) = fs_sizes st ! i"
    "\<And>i. i < length (fs_sections st) \<Longrightarrow> as_kind (fs_sections st ! i) \<noteq> AsmBss \<Longrightarrow>
       length (as_data (ao_sections out ! i)) = unat (fs_sizes st ! i) \<and> relocs_inside (fs_symbols st) (ao_sections out ! i) \<and>
       as_zero_fill (ao_sections out ! i) = 0"
    "\<And>r. r \<in> set (fs_records st) \<Longrightarrow> as_kind (fs_sections st ! fr_section r) \<noteq> AsmBss \<Longrightarrow>
       emitted (fs_symbols st) (ao_sections out ! fr_section r) r"
proof -
  from assms obtain st where st: "first_pass isa limits name source = Inr st" "second_pass grants isa name st = Inr out"
    by (auto simp: fixed_assemble_def rbind_eq_Inr split: if_splits)
  note inv = first_pass_invariant [OF st(1)]
  note parts = inv [unfolded first_pass_inv_def]
  from st(2) obtain secs0 secs where
    reserved: "foldR (reserve_section grants (fs_sizes st)) (enumerate 0 (fs_sections st)) [] = Inr secs0"
    and emit: "foldR (emit_record isa name (fs_symbols st)) (fs_records st) secs0 = Inr secs"
    and out: "out = \<lparr>ao_sections = secs, ao_symbols = map (output_symbol (fs_globals st)) (fs_symbols st)\<rparr>"
    by (auto simp: second_pass_def rbind_eq_Inr)
  have len: "length secs0 = length (fs_sections st)" using reserved_sections [OF reserved] by simp
  have at: "secs0 ! i = (if as_kind (fs_sections st ! i) = AsmBss then (fs_sections st ! i)\<lparr>as_zero_fill := fs_sizes st ! i\<rparr>
      else fs_sections st ! i)" if "i < length (fs_sections st)" for i
    using reserved_sections [OF reserved] that by (simp add: nth_enumerate_eq)
  have kind: "as_kind (secs0 ! i) = as_kind (fs_sections st ! i)" if "i < length (fs_sections st)" for i
    using at [OF that] by simp
  have empty: "as_data (fs_sections st ! i) = [] \<and> as_relocs (fs_sections st ! i) = [] \<and> as_zero_fill (fs_sections st ! i) = 0"
    if "i < length (fs_sections st)" for i
    using parts that by (simp add: bytes_limited_def sections_empty_def)
  have data: "as_data (secs0 ! i) = [] \<and> relocs_inside (fs_symbols st) (secs0 ! i)" if "i < length (fs_sections st)" for i
    using at [OF that] empty [OF that] by (simp add: relocs_inside_def)
  have done1: "length secs = length secs0 \<and>
    (\<forall>i<length secs0. grown (secs0 ! i) (secs ! i) \<and>
       (as_kind (secs0 ! i) = AsmBss \<longrightarrow> secs ! i = secs0 ! i) \<and>
       (as_kind (secs0 ! i) \<noteq> AsmBss \<longrightarrow> length (as_data (secs ! i)) = unat (fs_sizes st ! i) \<and>
          relocs_inside (fs_symbols st) (secs ! i))) \<and>
    (\<forall>r\<in>set (fs_records st). as_kind (secs0 ! fr_section r) \<noteq> AsmBss \<longrightarrow> emitted (fs_symbols st) (secs ! fr_section r) r)"
    using parts by (intro emit_records [OF emit]) (auto simp: len kind data records_placed_def)
  show thesis
  proof (rule that [OF st(1) inv])
    show "length (ao_sections out) = length (fs_sections st)" using done1 by (simp add: out len)
    show "ao_symbols out = map (output_symbol (fs_globals st)) (fs_symbols st)" by (simp add: out)
    fix i assume i: "i < length (fs_sections st)"
    show "header_of (ao_sections out ! i) = header_of (fs_sections st ! i)"
      using done1 i at [OF i] by (auto simp: out len grown_def header_of_def)
    show "as_data (ao_sections out ! i) = [] \<and> as_relocs (ao_sections out ! i) = [] \<and> as_zero_fill (ao_sections out ! i) = fs_sizes st ! i"
      if "as_kind (fs_sections st ! i) = AsmBss"
      using done1 i at [OF i] empty [OF i] that by (auto simp: out len)
    show "length (as_data (ao_sections out ! i)) = unat (fs_sizes st ! i) \<and> relocs_inside (fs_symbols st) (ao_sections out ! i) \<and>
       as_zero_fill (ao_sections out ! i) = 0"
      if "as_kind (fs_sections st ! i) \<noteq> AsmBss"
      using done1 i at [OF i] empty [OF i] that by (auto simp: out len grown_def)
  next
    fix r assume r: "r \<in> set (fs_records st)" "as_kind (fs_sections st ! fr_section r) \<noteq> AsmBss"
    then show "emitted (fs_symbols st) (ao_sections out ! fr_section r) r"
      using done1 kind parts by (auto simp: out records_placed_def)
  qed
qed

lemma instruction_word:
  assumes "emitted symbols final r" "fr_action r = ActInstruction inst"
  shows "\<exists>relocs cx'. isa_encode isa inst (record_context isa symbols r relocs) =
      Inr (word_at (as_data final) (unat (fr_offset r)), cx') \<and> prefix (cx_relocations cx') (as_relocs final)"
proof -
  from assms obtain before after where e: "emit_action isa symbols r before = Inr after"
    and len: "length (as_data before) = unat (fr_offset r)" and g: "grown after final" by (auto simp: emitted_def)
  from e assms(2) obtain w cx' where
    w: "isa_encode isa inst (record_context isa symbols r (as_relocs before)) = Inr (w, cx')"
    and after: "after = before\<lparr>as_relocs := cx_relocations cx', as_data := as_data before @ to_le_bytes 4 w\<rparr>"
    by (auto simp: emit_action_def rbind_eq_Inr record_context_def)
  from g have "prefix (as_data before @ to_le_bytes 4 w) (as_data final)" "prefix (cx_relocations cx') (as_relocs final)"
    by (auto simp: grown_def after)
  with word_at_prefix [OF this(1)] w len show ?thesis by auto
qed

lemma section_contents:
  assumes "fixed_assemble grants isa name source limits = Inr out"
  shows "\<exists>st. first_pass isa limits name source = Inr st \<and> map header_of (ao_sections out) = map header_of (fs_sections st) \<and>
    (\<forall>i<length (fs_sections st). let sec = ao_sections out ! i; size1 = unat (fs_sizes st ! i) in
       contiguous 0 (section_records i (fs_records st)) size1 \<and>
       (if as_kind sec = AsmBss then as_data sec = [] \<and> unat (as_zero_fill sec) = size1 else length (as_data sec) = size1)) \<and>
    (\<forall>r\<in>set (fs_records st). \<forall>inst. fr_action r = ActInstruction inst \<longrightarrow>
       (\<exists>relocs cx'. isa_encode isa inst (record_context isa (fs_symbols st) r relocs) =
          Inr (word_at (as_data (ao_sections out ! fr_section r)) (unat (fr_offset r)), cx')))"
proof -
  from assms obtain st where st: "first_pass isa limits name source = Inr st" "first_pass_inv limits st"
    "length (ao_sections out) = length (fs_sections st)"
    and headers: "\<And>i. i < length (fs_sections st) \<Longrightarrow> header_of (ao_sections out ! i) = header_of (fs_sections st ! i)"
    and bss: "\<And>i. i < length (fs_sections st) \<Longrightarrow> as_kind (fs_sections st ! i) = AsmBss \<Longrightarrow>
       as_data (ao_sections out ! i) = [] \<and> as_relocs (ao_sections out ! i) = [] \<and> as_zero_fill (ao_sections out ! i) = fs_sizes st ! i"
    and data: "\<And>i. i < length (fs_sections st) \<Longrightarrow> as_kind (fs_sections st ! i) \<noteq> AsmBss \<Longrightarrow>
       length (as_data (ao_sections out ! i)) = unat (fs_sizes st ! i) \<and> relocs_inside (fs_symbols st) (ao_sections out ! i) \<and>
       as_zero_fill (ao_sections out ! i) = 0"
    and emitted: "\<And>r. r \<in> set (fs_records st) \<Longrightarrow> as_kind (fs_sections st ! fr_section r) \<noteq> AsmBss \<Longrightarrow>
       emitted (fs_symbols st) (ao_sections out ! fr_section r) r"
    by (rule assembled) blast
  have placed: "records_placed st" using st(2) by (simp add: first_pass_inv_def)
  have kind: "as_kind (ao_sections out ! i) = as_kind (fs_sections st ! i)" if "i < length (fs_sections st)" for i
    using headers [OF that] by (simp add: header_of_def)
  have "map header_of (ao_sections out) = map header_of (fs_sections st)"
    using st(3) headers by (auto simp: list_eq_iff_nth_eq)
  moreover have "\<forall>i<length (fs_sections st). let sec = ao_sections out ! i; size1 = unat (fs_sizes st ! i) in
       contiguous 0 (section_records i (fs_records st)) size1 \<and>
       (if as_kind sec = AsmBss then as_data sec = [] \<and> unat (as_zero_fill sec) = size1 else length (as_data sec) = size1)"
    using placed bss data by (simp add: Let_def kind records_placed_def)
  moreover have "\<exists>relocs cx'. isa_encode isa inst (record_context isa (fs_symbols st) r relocs) =
          Inr (word_at (as_data (ao_sections out ! fr_section r)) (unat (fr_offset r)), cx')"
    if r: "r \<in> set (fs_records st)" "fr_action r = ActInstruction inst" for r inst
  proof -
    have "as_kind (fs_sections st ! fr_section r) \<noteq> AsmBss"
      using placed r by (auto simp: records_placed_def action_fits_def split: fixed_action.splits)
    from instruction_word [OF emitted [OF r(1) this] r(2)] show ?thesis by blast
  qed
  ultimately show ?thesis using st(1) by blast
qed

lemma branch_reaches_label:
  assumes "fixed_assemble grants isa name source limits = Inr out"
  shows "\<exists>st. first_pass isa limits name source = Inr st \<and>
    (\<forall>r\<in>set (fs_records st). \<forall>inst nm addend. fr_action r = ActInstruction inst \<longrightarrow> refers (fi_mnemonic inst) \<longrightarrow>
       fixed_expression (last (fi_operands inst)) = Inr (ExprSymbol nm addend) \<longrightarrow>
       (\<exists>sym\<in>set (ao_symbols out). ay_name sym = nm \<and>
          (let sec = ao_sections out ! fr_section r; word = word_at (as_data sec) (unat (fr_offset r)) in
           if ay_section_index sym = Some (fr_section r)
           then uint (fr_offset r) + offset_of word = uint (ay_offset sym) + addend
           else offset_of word = 0 \<and>
             (\<exists>rel\<in>set (as_relocs sec). ar_offset rel = unat (fr_offset r) \<and> ar_symbol rel = nm \<and> ar_addend rel = addend))))"
proof -
  from assms obtain st where st: "first_pass isa limits name source = Inr st" "first_pass_inv limits st"
    and symbols: "ao_symbols out = map (output_symbol (fs_globals st)) (fs_symbols st)"
    and emitted: "\<And>r. r \<in> set (fs_records st) \<Longrightarrow> as_kind (fs_sections st ! fr_section r) \<noteq> AsmBss \<Longrightarrow>
       emitted (fs_symbols st) (ao_sections out ! fr_section r) r"
    by (rule assembled) blast
  have "\<exists>sym\<in>set (ao_symbols out). ay_name sym = nm \<and>
          (let sec = ao_sections out ! fr_section r; word = word_at (as_data sec) (unat (fr_offset r)) in
           if ay_section_index sym = Some (fr_section r)
           then uint (fr_offset r) + offset_of word = uint (ay_offset sym) + addend
           else offset_of word = 0 \<and>
             (\<exists>rel\<in>set (as_relocs sec). ar_offset rel = unat (fr_offset r) \<and> ar_symbol rel = nm \<and> ar_addend rel = addend))"
    if r: "r \<in> set (fs_records st)" "fr_action r = ActInstruction inst" "refers (fi_mnemonic inst)"
      and nm: "fixed_expression (last (fi_operands inst)) = Inr (ExprSymbol nm addend)" for r inst nm addend
  proof -
    let ?sec = "ao_sections out ! fr_section r"
    let ?word = "word_at (as_data ?sec) (unat (fr_offset r))"
    have "as_kind (fs_sections st ! fr_section r) \<noteq> AsmBss"
      using st(2) r(1,2) by (auto simp: first_pass_inv_def records_placed_def action_fits_def split: fixed_action.splits)
    from instruction_word [OF emitted [OF r(1) this] r(2)] obtain relocs cx' where
      w: "isa_encode isa inst (record_context isa (fs_symbols st) r relocs) = Inr (?word, cx')"
      and pre: "prefix (cx_relocations cx') (as_relocs ?sec)" by blast
    from label_word [OF w r(3)] obtain code where
      p: "pc_relative (last (fi_operands inst)) code (record_context isa (fs_symbols st) r relocs) = Inr (offset_of ?word, cx')"
      by blast
    from pc_relative_Inr [OF p] nm obtain y where y: "map_of (fs_symbols st) nm = Some y"
      and cases: "(fy_section y = Some (fr_section r) \<and> offset_of ?word = uint (fy_offset y) + addend - uint (fr_offset r)) \<or>
        (fy_section y \<noteq> Some (fr_section r) \<and> offset_of ?word = 0 \<and> cx' = (record_context isa (fs_symbols st) r relocs)\<lparr>
           cx_relocations := relocs @ [\<lparr>ar_offset = unat (fr_offset r), ar_symbol = nm,
             ar_kind = AsmTargetSpecific (isa_id isa) code, ar_addend = addend\<rparr>]\<rparr>)"
      by (auto simp: record_context_def)
    have sym: "output_symbol (fs_globals st) (nm, y) \<in> set (ao_symbols out)"
      using map_of_SomeD [OF y] by (auto simp: symbols)
    from cases show ?thesis
    proof (elim disjE conjE)
      assume "fy_section y = Some (fr_section r)" "offset_of ?word = uint (fy_offset y) + addend - uint (fr_offset r)"
      then show ?thesis using sym by (intro bexI [OF _ sym]) (simp add: output_symbol_def Let_def)
    next
      assume a: "fy_section y \<noteq> Some (fr_section r)" "offset_of ?word = 0"
        and cx': "cx' = (record_context isa (fs_symbols st) r relocs)\<lparr>
           cx_relocations := relocs @ [\<lparr>ar_offset = unat (fr_offset r), ar_symbol = nm,
             ar_kind = AsmTargetSpecific (isa_id isa) code, ar_addend = addend\<rparr>]\<rparr>"
      have "\<exists>rel\<in>set (as_relocs ?sec). ar_offset rel = unat (fr_offset r) \<and> ar_symbol rel = nm \<and> ar_addend rel = addend"
        using set_mono_prefix [OF pre] by (intro bexI) (auto simp: cx')
      with a show ?thesis by (intro bexI [OF _ sym]) (simp add: output_symbol_def Let_def)
    qed
  qed
  with st(1) show ?thesis by blast
qed

lemma output_well_formed:
  assumes "fixed_assemble grants isa name source limits = Inr out"
  shows "sorted_wrt (<) (map ay_name (ao_symbols out)) \<and>
    (\<forall>sym\<in>set (ao_symbols out). \<forall>i. ay_section_index sym = Some i \<longrightarrow> i < length (ao_sections out) \<and>
       unat (ay_offset sym) \<le> length (as_data (ao_sections out ! i)) + unat (as_zero_fill (ao_sections out ! i))) \<and>
    (\<forall>sec\<in>set (ao_sections out). \<forall>rel\<in>set (as_relocs sec).
       ar_offset rel + patch_width (ar_kind rel) \<le> length (as_data sec) \<and> ar_symbol rel \<in> ay_name ` set (ao_symbols out)) \<and>
    sum_list (map (length \<circ> as_data) (ao_sections out)) \<le> min (max_output_bytes limits) (256 * 1024 * 1024)"
proof -
  from assms obtain st where st: "first_pass_inv limits st"
    and len: "length (ao_sections out) = length (fs_sections st)"
    and symbols: "ao_symbols out = map (output_symbol (fs_globals st)) (fs_symbols st)"
    and bss: "\<And>i. i < length (fs_sections st) \<Longrightarrow> as_kind (fs_sections st ! i) = AsmBss \<Longrightarrow>
       as_data (ao_sections out ! i) = [] \<and> as_relocs (ao_sections out ! i) = [] \<and> as_zero_fill (ao_sections out ! i) = fs_sizes st ! i"
    and data: "\<And>i. i < length (fs_sections st) \<Longrightarrow> as_kind (fs_sections st ! i) \<noteq> AsmBss \<Longrightarrow>
       length (as_data (ao_sections out ! i)) = unat (fs_sizes st ! i) \<and> relocs_inside (fs_symbols st) (ao_sections out ! i) \<and>
       as_zero_fill (ao_sections out ! i) = 0"
    by (rule assembled) blast
  note parts = st [unfolded first_pass_inv_def]
  have sizes: "length (fs_sizes st) = length (fs_sections st)" using parts by (simp add: records_placed_def)
  have names: "map ay_name (ao_symbols out) = map fst (fs_symbols st)"
    by (auto simp: symbols output_symbol_def)
  have "sorted_wrt (<) (map ay_name (ao_symbols out))"
    using parts by (simp add: names labels_placed_def bt_sorted_def sorted_wrt_map)
  moreover have "i < length (ao_sections out) \<and>
       unat (ay_offset sym) \<le> length (as_data (ao_sections out ! i)) + unat (as_zero_fill (ao_sections out ! i))"
    if sym: "sym \<in> set (ao_symbols out)" "ay_section_index sym = Some i" for sym i
  proof -
    from sym obtain nm y where y: "(nm, y) \<in> set (fs_symbols st)" "fy_section y = Some i" "ay_offset sym = fy_offset y"
      by (auto simp: symbols output_symbol_def)
    then have "i < length (fs_sections st)" "fy_offset y \<le> fs_sizes st ! i"
      using parts sizes by (fastforce simp: labels_placed_def)+
    then show ?thesis using bss data y(3)
      by (cases "as_kind (fs_sections st ! i) = AsmBss") (auto simp: len word_le_nat_alt)
  qed
  moreover have "ar_offset rel + patch_width (ar_kind rel) \<le> length (as_data sec) \<and> ar_symbol rel \<in> ay_name ` set (ao_symbols out)"
    if rel: "sec \<in> set (ao_sections out)" "rel \<in> set (as_relocs sec)" for sec rel
  proof -
    from rel obtain i where i: "i < length (fs_sections st)" "sec = ao_sections out ! i"
      by (auto simp: in_set_conv_nth len)
    have "as_kind (fs_sections st ! i) \<noteq> AsmBss" using bss [OF i(1)] rel i by auto
    from data [OF i(1) this] rel i obtain y where "ar_offset rel + patch_width (ar_kind rel) \<le> length (as_data sec)"
      "map_of (fs_symbols st) (ar_symbol rel) = Some y" by (auto simp: relocs_inside_def)
    moreover have "ay_name ` set (ao_symbols out) = fst ` set (fs_symbols st)"
      using names by (metis set_map)
    ultimately show ?thesis by (auto dest: map_of_SomeD intro: image_eqI [rotated])
  qed
  moreover have "sum_list (map (length \<circ> as_data) (ao_sections out)) \<le> min (max_output_bytes limits) (256 * 1024 * 1024)"
  proof -
    have "sum_list (map (length \<circ> as_data) (ao_sections out)) = (\<Sum>i<length (fs_sections st). length (as_data (ao_sections out ! i)))"
      by (simp add: sum_list_sum_nth len atLeast0LessThan)
    also have "\<dots> = materialized_bytes (fs_sections st) (fs_sizes st)"
      unfolding materialized_bytes_def sizes using bss data by (intro sum.cong) auto
    finally show ?thesis using parts by (simp add: bytes_limited_def)
  qed
  ultimately show ?thesis by blast
qed

end

end
