(* ===== verification/AsmProperties.thy ===== *)
theory AsmProperties
  imports AsmTheorems
begin

text \<open>
  The properties of the fixed-width assemblers, with a program for RISC-V that is assembled by
  evaluation in the kernel: a loop with a backward branch, a jump to an external symbol and a
  word of data that refers to the loop.
\<close>

unbundle bit_operations_syntax

subsection \<open>A program\<close>

definition source_lines :: "string list \<Rightarrow> string" where
  "source_lines ls = concat (map (\<lambda>l. l @ [CHR 0x0A]) ls)"

definition loop_source :: string where
  "loop_source =
     source_lines [''.extern f'', ''start: addi a0, a0, -1'', ''bne a0, zero, start'', ''jal f'', ''.data'', ''.quad start'']"

definition line_span :: "usize \<Rightarrow> usize \<Rightarrow> usize \<Rightarrow> source_span" where
  "line_span a b n = \<lparr>span_start = a, span_end = b, span_line = n, span_column = 1\<rparr>"

definition loop_records :: "fixed_record list" where
  "loop_records =
     [\<lparr>fr_section = 0, fr_offset = 0, fr_span = line_span 10 32 2,
       fr_action = ActInstruction \<lparr>fi_mnemonic = ''addi'', fi_operands = [''a0'', ''a0'', ''-1'']\<rparr>\<rparr>,
      \<lparr>fr_section = 0, fr_offset = 4, fr_span = line_span 33 52 3,
       fr_action = ActInstruction \<lparr>fi_mnemonic = ''bne'', fi_operands = [''a0'', ''zero'', ''start'']\<rparr>\<rparr>,
      \<lparr>fr_section = 0, fr_offset = 8, fr_span = line_span 53 58 4,
       fr_action = ActInstruction \<lparr>fi_mnemonic = ''jal'', fi_operands = [''f'']\<rparr>\<rparr>,
      \<lparr>fr_section = 1, fr_offset = 0, fr_span = line_span 65 76 6, fr_action = ActData 8 [''start'']\<rparr>]"

definition loop_symbols :: symbol_table where
  "loop_symbols =
     [(''f'', \<lparr>fy_section = None, fy_offset = 0, fy_span = line_span 0 9 1\<rparr>),
      (''start'', \<lparr>fy_section = Some 0, fy_offset = 0, fy_span = line_span 10 32 2\<rparr>)]"

definition loop_state :: fixed_state where
  "loop_state =
     \<lparr>fs_sections =
        [\<lparr>as_kind = AsmText, as_align = 4, as_name = ''.text'', as_data = [], as_zero_fill = 0, as_relocs = []\<rparr>,
         \<lparr>as_kind = AsmData, as_align = 1, as_name = ''.data'', as_data = [], as_zero_fill = 0, as_relocs = []\<rparr>],
      fs_section_names = [(''.data'', 1), (''.text'', 0)], fs_sizes = [12, 8], fs_selected = 1, fs_symbols = loop_symbols,
      fs_globals = [(''f'', line_span 0 9 1)], fs_records = loop_records, fs_materialized = 20\<rparr>"

definition loop_output :: assembler_output where
  "loop_output =
     \<lparr>ao_sections =
        [\<lparr>as_kind = AsmText, as_align = 4, as_name = ''.text'', as_data = [19, 5, 245, 255, 227, 30, 5, 254, 239, 0, 0, 0],
          as_zero_fill = 0, as_relocs =
            [\<lparr>ar_offset = 8, ar_symbol = ''f'', ar_kind = AsmTargetSpecific ''riscv64'' 17, ar_addend = 0\<rparr>]\<rparr>,
         \<lparr>as_kind = AsmData, as_align = 1, as_name = ''.data'', as_data = [0, 0, 0, 0, 0, 0, 0, 0], as_zero_fill = 0,
          as_relocs = [\<lparr>ar_offset = 0, ar_symbol = ''start'', ar_kind = AsmAbsolute64, ar_addend = 0\<rparr>]\<rparr>],
      ao_symbols =
        [\<lparr>ay_kind = AsmNoType, ay_size = 0, ay_visibility = AsmDefault, ay_name = ''f'', ay_section_index = None,
          ay_offset = 0, ay_is_global = True\<rparr>,
         \<lparr>ay_kind = AsmNoType, ay_size = 0, ay_visibility = AsmDefault, ay_name = ''start'', ay_section_index = Some 0,
          ay_offset = 0, ay_is_global = False\<rparr>]\<rparr>"

lemmas line_simps = source_line_def read_line_def strip_comment_def exec_simps Let_def take_labels.simps fixed_start_def
  new_section_def symbol_directive_def fixed_operands_def declare_symbol_def select_section_def parse_action_def
  place_action_def data_width_def action_size_def fixed_identifier_def symbol_start_def symbol_char_def push_operand_def
  default_assembly_limits_def default_for_name_def

lemma first_pass_loop: "first_pass riscv64 default_assembly_limits ''s'' loop_source = Inr loop_state"
  by (simp add: first_pass_def loop_source_def source_lines_def riscv64_def loop_state_def loop_symbols_def loop_records_def
      line_span_def line_simps)

lemmas emit_simps = second_pass_def to_le_bytes_def upt_rec check_global_def reserve_section_def emit_record_def emit_action_def data_value_def
  fixed_expression_def fixed_integer_def pc_relative_def output_symbol_def fixed_identifier_def symbol_start_def
  symbol_char_def try_i64_def exec_simps Let_def fixed_count_def plain_word_def

lemmas riscv_simps = riscv64_def rv_encode_def rv_register_table_def rv_immediate_table_def rv_branch_table_def
  rv_load_table_def rv_store_table_def rv_encode_other_def rv_reg_reg_imm_def rv_reg_def rv_register_aliases_def
  fixed_signed_def rv_i_def rv_branch_def rv_jump_def displacement_def field_mask_def rv_pc_relative_def
  rv_branch_relocation_def rv_jal_relocation_def position_def

lemma second_pass_loop: "second_pass (\<lambda>_. True) riscv64 ''s'' loop_state = Inr loop_output"
  by (simp add: loop_state_def loop_output_def loop_symbols_def loop_records_def line_span_def emit_simps riscv_simps)

lemma assemble_loop: "fixed_assemble (\<lambda>_. True) riscv64 ''s'' loop_source default_assembly_limits = Inr loop_output"
proof -
  have "length loop_source \<le> 8 * 1024 * 1024" by (simp add: loop_source_def source_lines_def)
  moreover have "max_relax_iterations default_assembly_limits \<noteq> 0" by (simp add: default_assembly_limits_def)
  ultimately show ?thesis by (simp add: fixed_assemble_def first_pass_loop second_pass_loop)
qed

subsection \<open>Properties\<close>

text \<open>C20. The two passes agree, on every instruction set: in each section the records of the first pass
  stand one behind the other and cover exactly the bytes that the second pass wrote (the reserved
  bytes for BSS), and at the offset of every instruction stands the word that encoding it at that
  offset gives.\<close>

theorem assembler_passes_agree:
  assumes isa: "isa \<in> {riscv64, loongarch64, aarch64}"
    and out: "fixed_assemble grants isa name source limits = Inr out"
  shows "\<exists>st. first_pass isa limits name source = Inr st \<and> map header_of (ao_sections out) = map header_of (fs_sections st) \<and>
    (\<forall>i<length (fs_sections st). let sec = ao_sections out ! i; size1 = unat (fs_sizes st ! i) in
       contiguous 0 (section_records i (fs_records st)) size1 \<and>
       (if as_kind sec = AsmBss then as_data sec = [] \<and> unat (as_zero_fill sec) = size1 else length (as_data sec) = size1)) \<and>
    (\<forall>r\<in>set (fs_records st). \<forall>inst. fr_action r = ActInstruction inst \<longrightarrow>
       (\<exists>relocs cx'. isa_encode isa inst (record_context isa (fs_symbols st) r relocs) =
          Inr (word_at (as_data (ao_sections out ! fr_section r)) (unat (fr_offset r)), cx')))"
  using isa
proof (elim insertE emptyE)
  assume i: "isa = riscv64"
  show ?thesis unfolding i by (rule riscv.section_contents [OF out [unfolded i]])
next
  assume i: "isa = loongarch64"
  show ?thesis unfolding i by (rule loongarch.section_contents [OF out [unfolded i]])
next
  assume i: "isa = aarch64"
  show ?thesis unfolding i by (rule aarch.section_contents [OF out [unfolded i]])
qed

theorem assembler_passes_agree_witness:
  "\<exists>st. first_pass riscv64 default_assembly_limits ''s'' loop_source = Inr st \<and> fs_records st = loop_records \<and>
     (\<exists>relocs cx'. rv_encode \<lparr>fi_mnemonic = ''bne'', fi_operands = [''a0'', ''zero'', ''start'']\<rparr>
        (record_context riscv64 loop_symbols (loop_records ! 1) relocs) = Inr (0xfe051ee3, cx'))"
proof -
  have mem: "loop_records ! 1 \<in> set (fs_records loop_state)" by (simp add: loop_state_def loop_records_def)
  have inst: "fr_action (loop_records ! 1) = ActInstruction \<lparr>fi_mnemonic = ''bne'', fi_operands = [''a0'', ''zero'', ''start'']\<rparr>"
    by (simp add: loop_records_def)
  have word: "word_at (as_data (ao_sections loop_output ! fr_section (loop_records ! 1))) (unat (fr_offset (loop_records ! 1)))
      = 0xfe051ee3"
    by (simp add: loop_output_def loop_records_def word_at_def)
  have "\<exists>relocs cx'. isa_encode riscv64 \<lparr>fi_mnemonic = ''bne'', fi_operands = [''a0'', ''zero'', ''start'']\<rparr>
        (record_context riscv64 (fs_symbols loop_state) (loop_records ! 1) relocs) = Inr (0xfe051ee3, cx')"
    using assembler_passes_agree [OF _ assemble_loop] mem inst word by (auto simp: first_pass_loop)
  moreover have "isa_encode riscv64 = rv_encode" by (simp add: riscv64_def)
  moreover have "fs_symbols loop_state = loop_symbols" "fs_records loop_state = loop_records" by (simp_all add: loop_state_def)
  ultimately show ?thesis using first_pass_loop by auto
qed

text \<open>C19. Branches reach their labels.  On every instruction set, the word that stands at an instruction
  with a symbolic label reads back, as the processor reads it, as the distance from that
  instruction to the label plus the addend when the label is in the same section; otherwise the
  field is zero and a relocation at that place names the symbol and the addend.\<close>

theorem assembled_branches_reach_labels:
  assumes isa: "(isa, refers, offset_of) \<in> {(riscv64, rv_refers, rv_offset), (loongarch64, la_refers, la_offset),
      (aarch64, a64_refers, a64_offset)}"
    and out: "fixed_assemble grants isa name source limits = Inr out"
  shows "\<exists>st. first_pass isa limits name source = Inr st \<and>
    (\<forall>r\<in>set (fs_records st). \<forall>inst nm addend. fr_action r = ActInstruction inst \<longrightarrow> refers (fi_mnemonic inst) \<longrightarrow>
       fixed_expression (last (fi_operands inst)) = Inr (ExprSymbol nm addend) \<longrightarrow>
       (\<exists>sym\<in>set (ao_symbols out). ay_name sym = nm \<and>
          (let sec = ao_sections out ! fr_section r; word = word_at (as_data sec) (unat (fr_offset r)) in
           if ay_section_index sym = Some (fr_section r)
           then uint (fr_offset r) + offset_of word = uint (ay_offset sym) + addend
           else offset_of word = 0 \<and>
             (\<exists>rel\<in>set (as_relocs sec). ar_offset rel = unat (fr_offset r) \<and> ar_symbol rel = nm \<and> ar_addend rel = addend))))"
  using isa
proof (elim insertE emptyE)
  assume "(isa, refers, offset_of) = (riscv64, rv_refers, rv_offset)"
  then have i: "isa = riscv64" "refers = rv_refers" "offset_of = rv_offset" by simp_all
  show ?thesis unfolding i by (rule riscv.branch_reaches_label [OF out [unfolded i(1)]])
next
  assume "(isa, refers, offset_of) = (loongarch64, la_refers, la_offset)"
  then have i: "isa = loongarch64" "refers = la_refers" "offset_of = la_offset" by simp_all
  show ?thesis unfolding i by (rule loongarch.branch_reaches_label [OF out [unfolded i(1)]])
next
  assume "(isa, refers, offset_of) = (aarch64, a64_refers, a64_offset)"
  then have i: "isa = aarch64" "refers = a64_refers" "offset_of = a64_offset" by simp_all
  show ?thesis unfolding i by (rule aarch.branch_reaches_label [OF out [unfolded i(1)]])
qed

theorem assembled_branches_reach_labels_witness:
  "fixed_assemble (\<lambda>_. True) riscv64 ''s'' loop_source default_assembly_limits = Inr loop_output \<and>
     (\<exists>sym\<in>set (ao_symbols loop_output). ay_name sym = ''start'' \<and> 4 + rv_offset 0xfe051ee3 = uint (ay_offset sym))"
proof -
  let ?inst = "\<lparr>fi_mnemonic = ''bne'', fi_operands = [''a0'', ''zero'', ''start'']\<rparr>"
  define r where "r = loop_records ! 1"
  have mem: "r \<in> set (fs_records loop_state)" by (simp add: r_def loop_state_def loop_records_def)
  have rec: "fr_action r = ActInstruction ?inst" "fr_section r = 0" "fr_offset r = 4" by (simp_all add: r_def loop_records_def)
  have word: "word_at (as_data (ao_sections loop_output ! 0)) 4 = 0xfe051ee3"
    by (simp add: loop_output_def word_at_def)
  have expr: "fixed_expression (last (fi_operands ?inst)) = Inr (ExprSymbol ''start'' 0)"
    by (simp add: fixed_expression_def fixed_integer_def fixed_identifier_def symbol_start_def symbol_char_def position_def
        exec_simps Let_def)
  have refers: "rv_refers (fi_mnemonic ?inst)" by (simp add: rv_refers_def rv_branch_table_def)
  have "(riscv64, rv_refers, rv_offset) \<in> {(riscv64, rv_refers, rv_offset), (loongarch64, la_refers, la_offset),
      (aarch64, a64_refers, a64_offset)}" by simp
  from assembled_branches_reach_labels [OF this assemble_loop] obtain st where
    "first_pass riscv64 default_assembly_limits ''s'' loop_source = Inr st" and
    reach: "\<forall>r\<in>set (fs_records st). \<forall>inst nm addend. fr_action r = ActInstruction inst \<longrightarrow> rv_refers (fi_mnemonic inst) \<longrightarrow>
       fixed_expression (last (fi_operands inst)) = Inr (ExprSymbol nm addend) \<longrightarrow>
       (\<exists>sym\<in>set (ao_symbols loop_output). ay_name sym = nm \<and>
          (let sec = ao_sections loop_output ! fr_section r; word = word_at (as_data sec) (unat (fr_offset r)) in
           if ay_section_index sym = Some (fr_section r)
           then uint (fr_offset r) + rv_offset word = uint (ay_offset sym) + addend
           else rv_offset word = 0 \<and>
             (\<exists>rel\<in>set (as_relocs sec). ar_offset rel = unat (fr_offset r) \<and> ar_symbol rel = nm \<and> ar_addend rel = addend)))"
    by blast
  then have "r \<in> set (fs_records st)" using mem by (simp add: first_pass_loop)
  from reach [rule_format, OF this rec(1) refers expr] obtain sym where sym: "sym \<in> set (ao_symbols loop_output)"
    "ay_name sym = ''start''" "ay_section_index sym = Some 0 \<Longrightarrow> 4 + rv_offset 0xfe051ee3 = uint (ay_offset sym)"
    by (auto simp: rec(2,3) Let_def word split: if_splits)
  have "ay_section_index sym = Some 0" using sym(1,2) by (auto simp: loop_output_def)
  with sym assemble_loop show ?thesis by auto
qed

text \<open>C21. The output of the assembler is well formed and bounded: its symbols are in strict order of their
  names and inside their sections, every relocation patches bytes of its section and names a
  symbol of the output, and all data together is within the output limit and 256 MiB.\<close>

theorem assembler_output_well_formed:
  assumes isa: "isa \<in> {riscv64, loongarch64, aarch64}"
    and out: "fixed_assemble grants isa name source limits = Inr out"
  shows "sorted_wrt (<) (map ay_name (ao_symbols out)) \<and>
    (\<forall>sym\<in>set (ao_symbols out). \<forall>i. ay_section_index sym = Some i \<longrightarrow> i < length (ao_sections out) \<and>
       unat (ay_offset sym) \<le> length (as_data (ao_sections out ! i)) + unat (as_zero_fill (ao_sections out ! i))) \<and>
    (\<forall>sec\<in>set (ao_sections out). \<forall>rel\<in>set (as_relocs sec).
       ar_offset rel + patch_width (ar_kind rel) \<le> length (as_data sec) \<and> ar_symbol rel \<in> ay_name ` set (ao_symbols out)) \<and>
    sum_list (map (length \<circ> as_data) (ao_sections out)) \<le> min (max_output_bytes limits) (256 * 1024 * 1024)"
  using isa
proof (elim insertE emptyE)
  assume i: "isa = riscv64"
  show ?thesis by (rule riscv.output_well_formed [OF out [unfolded i]])
next
  assume i: "isa = loongarch64"
  show ?thesis by (rule loongarch.output_well_formed [OF out [unfolded i]])
next
  assume i: "isa = aarch64"
  show ?thesis by (rule aarch.output_well_formed [OF out [unfolded i]])
qed

theorem assembler_output_well_formed_witness:
  "map ay_name (ao_symbols loop_output) = [''f'', ''start''] \<and> sorted_wrt (<) [''f'', ''start''] \<and>
   sum_list (map (length \<circ> as_data) (ao_sections loop_output)) \<le> 64 * 1024 * 1024"
proof -
  have names: "map ay_name (ao_symbols loop_output) = [''f'', ''start'']" by (simp add: loop_output_def)
  have "max_output_bytes default_assembly_limits = 64 * 1024 * 1024" by (simp add: default_assembly_limits_def)
  with assembler_output_well_formed [OF _ assemble_loop] names show ?thesis by simp
qed

end
