(* ===== verification/AsmReadBack.thy ===== *)
theory AsmReadBack
  imports AsmBranches
begin

text \<open>
  The RISC-V words that the tables drive, read back: operation codes, registers and immediates
  are where the processor looks for them and are the ones that the source line names.
\<close>

unbundle bit_operations_syntax

lemma fixed_signed_Inr:
  assumes "fixed_signed s bits = Inr imm"
  shows "fixed_integer s = Inr (sign_extended bits imm) \<and> low bits imm = imm"
proof -
  from assms obtain v where v: "fixed_integer s = Inr v" "1 \<le> bits" "bits \<le> 32"
    "- (2 ^ (bits - 1)) \<le> v" "v < 2 ^ (bits - 1)" "imm = word_of_int v AND field_mask bits"
    by (auto simp: fixed_signed_def rbind_eq_Inr split: if_splits)
  then have imm: "imm = take_bit bits (word_of_int v)" by (simp add: field_mask_eq take_bit_eq_mask)
  show ?thesis unfolding imm low_def using v(1) sign_extended_field [OF v(2-5)] by simp
qed

lemma rv_memory_Inr: "rv_memory s = Inr (base, imm) \<Longrightarrow> low 5 base = base \<and> low 12 imm = imm"
  by (auto simp: rv_memory_def rbind_eq_Inr Let_def dest: rv_reg_low fixed_signed_Inr)

lemma rv_register_table_low:
  "rv_register_table m = Some (opcode, f3, f7) \<Longrightarrow> low 7 opcode = opcode \<and> low 3 f3 = f3 \<and> low 7 f7 = f7"
  by (auto simp: rv_register_table_def low_def split: if_splits)

lemma rv_immediate_table_low:
  "rv_immediate_table m = Some (opcode, f3) \<Longrightarrow> low 7 opcode = opcode \<and> low 3 f3 = f3 \<and> rv_register_table m = None"
proof -
  assume t: "rv_immediate_table m = Some (opcode, f3)"
  then have "m \<in> {''addi'', ''slti'', ''sltiu'', ''xori'', ''ori'', ''andi'', ''addiw''}"
    by (auto simp: rv_immediate_table_def split: if_splits)
  then have "rv_register_table m = None" by (elim insertE; simp add: rv_register_table_def)
  then show ?thesis using t by (auto simp: rv_immediate_table_def low_def split: if_splits)
qed

lemma rv_load_table_low:
  "rv_load_table m = Some f3 \<Longrightarrow> low 3 f3 = f3 \<and> rv_register_table m = None \<and> rv_immediate_table m = None \<and> rv_branch_table m = None"
proof -
  assume t: "rv_load_table m = Some f3"
  then have "m \<in> {''lb'', ''lh'', ''lw'', ''ld'', ''lbu'', ''lhu'', ''lwu''}"
    by (auto simp: rv_load_table_def split: if_splits)
  then have "rv_register_table m = None \<and> rv_immediate_table m = None \<and> rv_branch_table m = None"
    by (elim insertE; simp add: rv_register_table_def rv_immediate_table_def rv_branch_table_def)
  then show ?thesis using t by (auto simp: rv_load_table_def low_def split: if_splits)
qed

lemma rv_store_table_low:
  "rv_store_table m = Some f3 \<Longrightarrow> low 3 f3 = f3 \<and> rv_register_table m = None \<and> rv_immediate_table m = None \<and>
     rv_branch_table m = None \<and> rv_load_table m = None"
proof -
  assume t: "rv_store_table m = Some f3"
  then have "m \<in> {''sb'', ''sh'', ''sw'', ''sd''}" by (auto simp: rv_store_table_def split: if_splits)
  then have "rv_register_table m = None \<and> rv_immediate_table m = None \<and> rv_branch_table m = None \<and> rv_load_table m = None"
    by (elim insertE; simp add: rv_register_table_def rv_immediate_table_def rv_branch_table_def rv_load_table_def)
  then show ?thesis using t by (auto simp: rv_store_table_def low_def split: if_splits)
qed

lemma rv_branch_table_first:
  "rv_branch_table m = Some f3 \<Longrightarrow> rv_register_table m = None \<and> rv_immediate_table m = None"
  using rv_tables_apart [of m] by (auto simp: rv_refers_def)



end
