(* ===== verification/AsmMoves.thy ===== *)
theory AsmMoves
  imports AsmFields
begin

text \<open>
  Moves of an immediate on AArch64.  The assembler picks MOVZ or MOVN and a lane; the word it
  emits is read here as the processor reads it, and denotes the immediate modulo the width of
  the register.
\<close>

unbundle bit_operations_syntax

text \<open>The value that a wide move puts into its register.\<close>

definition a64_moved :: "u32 \<Rightarrow> int" where
  "a64_moved w =
     (let width = (if field 31 1 w = 1 then 64 else 32); pattern = uint (field 5 16 w) * 2 ^ (16 * unat (field 21 2 w))
      in if field 29 2 w = 2 then pattern else 2 ^ width - 1 - pattern)"

lemma wide_move_fields:
  assumes m: "m = ''movz'' \<or> m = ''movn''" and low: "low 2 lane = lane" "low 16 imm = imm" "low 5 rd = rd"
    and w: "w = a64_wide_move m OR push_bit 31 (bit_of wide) OR push_bit 21 lane OR push_bit 5 imm OR rd"
  shows "field 23 6 w = 0x25" "field 31 1 w = bit_of wide" "field 29 2 w = (if m = ''movz'' then 2 else 0)"
    "field 21 2 w = lane" "field 5 16 w = imm" "field 0 5 w = rd"
proof -
  have "a64_wide_move m = (if m = ''movz'' then 0x52800000 else 0x12800000)" using m by (auto simp: a64_wide_move_def)
  note w' = w [unfolded this]
  show "field 23 6 w = 0x25" "field 31 1 w = bit_of wide" "field 29 2 w = (if m = ''movz'' then 2 else 0)"
    "field 21 2 w = lane" "field 5 16 w = imm" "field 0 5 w = rd"
    unfolding w' field_def bit_of_def fold_fields
    by (cases wide; cases "m = ''movz''"; rule bits32; simp add: bits_simps low [THEN high_bit])+
qed

text \<open>A value with set bits only inside one lane.\<close>

lemma lane_value:
  assumes "pattern AND NOT (push_bit (lane * 16) 0xffff) = (0 :: u64)" "lane < 4"
  shows "uint (ucast (drop_bit (lane * 16) pattern) :: u32) * 2 ^ (16 * lane) = uint pattern"
    "low 16 (ucast (drop_bit (lane * 16) pattern)) = ucast (drop_bit (lane * 16) pattern)"
proof -
  have outside: "bit pattern n \<Longrightarrow> lane * 16 \<le> n \<and> n < lane * 16 + 16" for n
  proof -
    assume n: "bit pattern n"
    then have "n < 64" by (auto dest: bit_imp_le_length)
    have "bit (pattern AND NOT (push_bit (lane * 16) 0xffff)) n = bit (0 :: u64) n" using assms(1) by simp
    then have "bit (push_bit (lane * 16) (0xffff :: u64)) n" using n \<open>n < 64\<close> by (simp add: bit_and_iff bit_not_iff)
    then have ge: "lane * 16 \<le> n" and "bit (mask 16 :: u64) (n - lane * 16)"
      by (auto simp: bit_push_bit_iff mask_eq_exp_minus_1)
    then show "lane * 16 \<le> n \<and> n < lane * 16 + 16" by (auto simp: bit_mask_iff)
  qed
  have bits: "bit (ucast (drop_bit (lane * 16) pattern) :: u32) n = bit pattern (lane * 16 + n)" for n
    using outside [of "lane * 16 + n"] by (auto simp: bit_ucast_iff bit_drop_bit_eq)
  have "push_bit (16 * lane) (uint (ucast (drop_bit (lane * 16) pattern) :: u32)) = uint pattern"
  proof (rule bit_eqI)
    fix n
    show "bit (push_bit (16 * lane) (uint (ucast (drop_bit (lane * 16) pattern) :: u32))) n = bit (uint pattern) n"
      using outside [of n] bits [of "n - 16 * lane"] by (auto simp: bit_push_bit_iff bit_uint_iff mult.commute dest: bit_imp_le_length)
  qed
  then show "uint (ucast (drop_bit (lane * 16) pattern) :: u32) * 2 ^ (16 * lane) = uint pattern"
    by (simp add: push_bit_eq_mult)
  show "low 16 (ucast (drop_bit (lane * 16) pattern)) = ucast (drop_bit (lane * 16) pattern)"
  proof (rule bit_word_eqI)
    fix n
    show "bit (low 16 (ucast (drop_bit (lane * 16) pattern))) n = bit (ucast (drop_bit (lane * 16) pattern) :: u32) n"
      using outside [of "lane * 16 + n"] by (auto simp: field_bits bits)
  qed
qed

lemma mov_immediate_Inr:
  assumes e: "mov_immediate rd v = Inr w" and width: "rg_width rd = 32 \<or> rg_width rd = 64"
    and rd: "low 5 (rg_index rd) = rg_index rd"
  shows "field 0 5 w = rg_index rd \<and> field 23 6 w = 0x25 \<and> (field 31 1 w = 1 \<longleftrightarrow> rg_width rd = 64) \<and>
    a64_moved w = v mod 2 ^ unat (rg_width rd)"
proof -
  define n where "n = unat (rg_width rd)"
  have n: "n = 32 \<or> n = 64" using width by (auto simp: n_def)
  let ?ones = "drop_bit (64 - n) (- 1 :: u64)"
  have ones: "?ones = mask n" using n by (auto simp: drop_bit_minus_one intro!: bit_word_eqI) 
  have uones: "uint ?ones = 2 ^ n - 1" using n unfolding ones by (auto simp: mask_eq_exp_minus_1)
  have range: "- (2 ^ (n - 1)) \<le> v" "v \<le> 2 ^ n - 1"
    using e uones by (auto simp: mov_immediate_def Let_def n_def [symmetric] split: if_splits)
  have w64: "rg_width rd = 64 \<longleftrightarrow> n = 64" using width by (auto simp: n_def)
  have moved: "a64_moved x = v mod 2 ^ n \<and> field 0 5 x = rg_index rd \<and> field 23 6 x = 0x25 \<and> (field 31 1 x = 1 \<longleftrightarrow> rg_width rd = 64)"
    if x: "x = a64_wide_move m OR push_bit 31 (bit_of (rg_width rd = 64)) OR push_bit 21 (of_nat lane) OR push_bit 5 imm OR rg_index rd"
      and m: "m = ''movz'' \<or> m = ''movn''" and lane: "lane < 4" and imm: "low 16 imm = imm"
      and val: "uint imm * 2 ^ (16 * lane) = (if m = ''movz'' then v mod 2 ^ n else 2 ^ n - 1 - v mod 2 ^ n)"
    for x m lane imm
  proof -
    have l2: "low 2 (of_nat lane) = of_nat lane" using lane by (intro low_of_nat) simp
    have ul: "unat (of_nat lane :: u32) = lane" using lane by (simp add: unat_of_nat)
    note f = wide_move_fields [OF m l2 imm rd x]
    show ?thesis using f m val n by (auto simp: a64_moved_def Let_def ul bit_of_def w64)
  qed
  let ?bits = "word_of_int v AND ?ones :: u64"
  have ubits: "uint ?bits = v mod 2 ^ n"
  proof -
    have "uint (word_of_int v AND mask n :: u64) = take_bit n (take_bit 64 v)"
      by (simp only: take_bit_eq_mask [symmetric] unsigned_take_bit_eq uint_word_of_int_eq) simp
    also have "\<dots> = take_bit n v" using n by auto
    finally show ?thesis by (simp only: ones take_bit_eq_mod)
  qed
  have unot: "uint (NOT ?bits AND ?ones) = 2 ^ n - 1 - v mod 2 ^ n"
  proof -
    have "NOT ?bits AND ?ones = take_bit n (NOT (word_of_int v))"
      unfolding ones by (auto intro!: bit_word_eqI simp: bit_simps)
    also have "\<dots> = take_bit n (word_of_int (NOT v))" by (simp add: of_int_not_eq)
    finally have w: "NOT ?bits AND ?ones = take_bit n (word_of_int (NOT v))" .
    have "uint (NOT ?bits AND ?ones) = take_bit n (NOT v)"
      unfolding w using n by (auto simp: unsigned_take_bit_eq uint_word_of_int_eq take_bit_take_bit)
    also have "\<dots> = mask n - take_bit n v" by (rule take_bit_not_eq_mask_diff)
    finally show ?thesis by (simp only: mask_eq_exp_minus_1 take_bit_eq_mod)
  qed
  show ?thesis
  proof (cases "- 65536 \<le> v \<and> v < 0")
    case True
    let ?imm = "word_of_int (NOT v) AND 0xffff :: u32"
    have w: "w = a64_wide_move ''movn'' OR push_bit 31 (bit_of (rg_width rd = 64)) OR push_bit 21 (of_nat 0) OR push_bit 5 ?imm
        OR rg_index rd"
      using e True by (simp add: mov_immediate_def Let_def sf_def split: if_splits)
    have i16: "?imm = take_bit 16 (word_of_int (NOT v))" by (simp add: take_bit_eq_mask mask_eq_exp_minus_1)
    have "uint ?imm = take_bit 16 (NOT v)"
      unfolding i16 by (simp add: unsigned_take_bit_eq uint_word_of_int_eq take_bit_take_bit)
    also have "\<dots> = - v - 1" using True by (simp add: not_int_def take_bit_int_eq_self_iff)
    also have "\<dots> = 2 ^ n - 1 - v mod 2 ^ n"
    proof -
      have "v mod 2 ^ n = (v + 2 ^ n) mod 2 ^ n" by simp
      also have "\<dots> = v + 2 ^ n" using True n by (intro mod_pos_pos_trivial) auto
      finally show ?thesis by simp
    qed
    finally show ?thesis using moved [OF w] i16 by (simp add: n_def low_def)
  next
    case False
    let ?p = "\<lambda>(m :: string, pattern, lane). pattern AND NOT (push_bit (lane * 16) 0xffff) = (0 :: u64)"
    from e False obtain m pattern lane where
      found: "find ?p (mov_lanes ?bits ?ones (rg_width rd)) = Some (m, pattern, lane)"
      and w: "w = a64_wide_move m OR sf rd OR push_bit 21 (of_nat lane) OR push_bit 5 (ucast (drop_bit (lane * 16) pattern))
        OR rg_index rd"
      by (auto simp: mov_immediate_def Let_def n_def [symmetric] split: if_splits option.splits)
    from found have mem: "(m, pattern, lane) \<in> set (mov_lanes ?bits ?ones (rg_width rd))"
      and zero: "pattern AND NOT (push_bit (lane * 16) 0xffff) = 0"
      by (auto simp: find_Some_iff in_set_conv_nth)
    from mem n have m: "m = ''movz'' \<or> m = ''movn''" and lane: "lane < 4"
      and pattern: "uint pattern = (if m = ''movz'' then v mod 2 ^ n else 2 ^ n - 1 - v mod 2 ^ n)"
      using ubits unot by (auto simp: mov_lanes_def n_def [symmetric])
    from moved [OF w [unfolded sf_def] m lane lane_value(2) [OF zero lane]] lane_value(1) [OF zero lane] pattern
    show ?thesis by (simp add: n_def)
  qed
qed

lemma a64_alias_width: "a64_register_alias s = Some r \<Longrightarrow> rg_width r = 32 \<or> rg_width r = 64"
  by (auto simp: a64_register_alias_def split: if_splits)

lemma a64_reg_width: "a64_parse_reg s = Inr r \<Longrightarrow> rg_width r = 32 \<or> rg_width r = 64"
  by (auto simp: a64_parse_reg_def Let_def rbind_eq_Inr ok_or_eq_Inr bind_eq_Some_conv a64_alias_width
      dest: a64_alias_width split: if_splits option.splits)


definition sample_context :: fixed_context where
  "sample_context = \<lparr>cx_namespace = ''aarch64'', cx_section = 0, cx_offset = 0, cx_symbols = [], cx_relocations = []\<rparr>"


end
