(* ===== verification/Spec2Isabelle.thy ===== *)
theory Spec2Isabelle
  imports LinkDriver ElfSafety IrConstExpr IrMemoryTheorems IrFloatTheorems IrInterpreterTheorems IrDominance
    AsmProperties AsmReadBack AsmMoves
begin

text \<open>
  A verification library for Whale, a compiler back end written in Rust.  It models the parts
  that carry the program's own logic: the assemblers for fixed-width instruction sets, the object
  files and their ELF form, the static linker, and the intermediate representation with its
  verifier, its constant evaluator and its reference interpreter.  Everything is a HOL function on explicit state; a \<open>Result\<close> is a sum,
  \<open>Inl\<close> the error; a panic of the source is a value of the error type, and theorems show
  which are unreachable.

  The parts and how they interact.  A front end builds an IR module; the verifier accepts or
  rejects it under resource limits; the interpreter runs an accepted module on tracked memory.
  An assembler or a back end builds an object file, which the ELF writer serialises; the linker
  reads objects and archives back under one cumulative budget, selects archive members,
  resolves symbols, lays the sections out, relocates them and writes an executable.

  Theories and sources.

  \<^item> \<open>Prelude\<close>, \<open>Alignment\<close>, \<open>OrderedMap\<close>, \<open>Bytes\<close>: results and loops with early
    return, checked machine integers, rounding to an alignment (a locale interpreted on the
    alignment functions of the linker, of the ELF writer and of the IR layout), the ordered map
    of the standard library, byte strings and UTF-8.
  \<^item> \<open>TargetSpec\<close> (\<open>target-spec/src\<close>): machines, object formats, storage contracts.
  \<^item> \<open>ObjectModel\<close> (\<open>object/src/core\<close>, \<open>object/src/error.rs\<close>): sections, symbols,
    relocations, validation; it accepts exactly the well-formed objects.
  \<^item> \<open>ElfWrite\<close>, \<open>ElfRead\<close> (\<open>object/src/formats/elf.rs\<close>, \<open>elf_read.rs\<close>): the
    relocatable ELF writer and the budgeted reader.
  \<^item> \<open>ElfChunks\<close>, \<open>ElfTables\<close>, \<open>ElfImage\<close>, \<open>ElfFile\<close>, \<open>ElfRoundTrip\<close>,
    \<open>ElfSafety\<close>: chunks of a byte string and the checked reads that return them; the rows
    that the writer builds; where they are in the file; the reader on that file, loop by loop,
    up to the round trip; that the writer does not panic and that the reader keeps its limits.
  \<^item> \<open>AsmText\<close>, \<open>AsmFixed\<close>, \<open>AsmRiscV\<close>, \<open>AsmLoongArch\<close>, \<open>AsmAArch64\<close>
    (\<open>assembler/src/fixed.rs\<close>, \<open>error.rs\<close>, \<open>assembler.rs\<close>, and \<open>src\<close> of the three
    instruction sets): strings, the two-pass driver over a record of functions for the
    instruction set, tables, operands, formats and instruction selection.
  \<^item> \<open>AsmFields\<close>, \<open>AsmBranches\<close>, \<open>AsmReadBack\<close>, \<open>AsmMoves\<close>: words read as the
    processor reads them; the contract for label operands, a locale interpreted on the three
    instruction sets; the words of the RISC-V tables; the moves of AArch64.
  \<^item> \<open>AsmPasses\<close>, \<open>AsmEmission\<close>, \<open>AsmTheorems\<close>, \<open>AsmProperties\<close>: the invariant of
    the first pass, the second pass under the contract, and the assembler as a whole: the passes
    agree, branches reach their labels, the output is well formed and bounded.
  \<^item> \<open>LinkLayout\<close>, \<open>LinkSymbols\<close>, \<open>LinkRelocation\<close>, \<open>LinkArchive\<close>,
    \<open>LinkSelection\<close>, \<open>LinkExecutable\<close>, \<open>LinkDriver\<close> (\<open>linker/src/core\<close>): layout without
    overlap and equal to a reference layout on naturals, resolution and the precedence of
    definitions, relocated fields and unchanged bytes, the \<open>ar\<close> parser and its round trip,
    archive selection as a closed description, segments and headers of the executable, the
    conservation of the read budget and the conditions under which a link succeeds.
  \<^item> \<open>IrTypes\<close>, \<open>IrModule\<close>, \<open>IrLimits\<close>, \<open>IrLayout\<close> (\<open>ir/src/types.rs\<close>,
    \<open>value.rs\<close>, \<open>instr.rs\<close>, \<open>function.rs\<close>, \<open>module.rs\<close>, \<open>source.rs\<close>,
    \<open>limits.rs\<close>, \<open>layout.rs\<close>): the data, the traversals that charge budgets, and the layout of
    aggregates.
  \<^item> \<open>IrInteger\<close>, \<open>IrFloat\<close>, \<open>IrFloatArith\<close>, \<open>IrFloatRounding\<close>,
    \<open>IrFloatTheorems\<close> (\<open>interpreter/integer.rs\<close>, \<open>float.rs\<close>, \<open>float\<close>): integer operations
    equal to exact arithmetic modulo the width; floating point correctly rounded, with the
    three formats as instances of one locale.
  \<^item> \<open>IrConstExpr\<close> (\<open>const_expr.rs\<close>): the evaluator with its explicit stack equals the
    recursive evaluator, and agrees with the interpreter on scalars.
  \<^item> \<open>IrVerifyOperands\<close>, \<open>IrVerifyCfg\<close>, \<open>IrVerifier\<close>, \<open>IrDominance\<close>
    (\<open>verifier.rs\<close> and \<open>verifier\<close>): the verifier, the soundness of its dominance query over
    all paths, and that an accepted use is defined on every path that reaches it.
  \<^item> \<open>IrMemory\<close>, \<open>IrMemorySafety\<close>, \<open>IrMemoryTheorems\<close> (\<open>interpreter/memory.rs\<close>):
    tracked memory: its invariant, no access to retired memory, loads after stores, and no
    panic.
  \<^item> \<open>IrInterpreter\<close>, \<open>IrInterpreterRun\<close>, \<open>IrSample\<close>, \<open>IrInterpreterTheorems\<close>
    (\<open>interpreter/mod.rs\<close>): the interpreter turn by turn; it stops within the step budget, keeps
    every budget, and a larger step budget does not change a run that ended.

  Bounds and fuel.  \<open>usize\<close> is a natural number whose overflow at \<open>2 ^ 64\<close> is written out
  where the source checks it; other integers are words of their width.  Loops that the source
  bounds by a budget recurse on the remaining budget (the analysis budget of the verifier, the
  step budget of the interpreter, the work budgets of the readers), so no fuel of the model's
  own is needed and every function is total.

  Parameters.  Host allocation is a function of the request.  The operations of the linker that
  read bytes take the object reader as an argument; their theorems hold for every reader, and
  the theorem on written objects instantiates it with the ELF reader.

  Not modelled: the text of messages and every \<open>Display\<close>; the x86-64 assembler with its tokens
  and syntax tree, one table of some two thousand lines whose correctness is agreement with a
  processor manual outside the repository; the conversion of assembler output to objects in the
  toolchain; the COFF and Mach-O writers apart from their relocation tables; the IR builder, printer, parser and the lowering of front-end
  syntax trees; the pass manager, whose passes are supplied by its caller; the conversions of
  software floats through host doubles; the disassembler views, the back-end traits, the
  command line, examples and fuzz harnesses.  The manifest lists the files of each.
\<close>

subsection \<open>From inputs to the linked image\<close>

definition inputs_host_sized :: "link_input list \<Rightarrow> bool" where
  "inputs_host_sized inputs \<longleftrightarrow>
     (\<forall>obj\<in>input_objects inputs. \<forall>sec\<in>set (obj_sections obj). length (sec_data sec) < 2 ^ 64)"

lemma selected_host_sized:
  "inputs_host_sized inputs \<Longrightarrow> select inputs entry limit = Inr objects \<Longrightarrow> host_sized objects"
  using select_from_inputs by (fastforce simp: inputs_host_sized_def host_sized_def)

lemma amd64_field_width: "reloc_encoding k (elf64 X86_64) = Some (code, w) \<Longrightarrow> w = field_width k"
  by (cases k) (auto simp: reloc_encoding_def elf64_def field_width_def split: machine.splits)

lemma relocation_inside:
  assumes "resolve_symbols objects = Inr t" "(oi, obj, r) \<in> set (link_relocations objects)"
  shows "oi < length objects \<and> rel_section r < length (obj_sections (objects ! oi)) \<and>
    sec_kind (obj_sections (objects ! oi) ! rel_section r) \<noteq> Bss \<and>
    rel_offset r + field_width (rel_kind r) \<le> length (sec_data (obj_sections (objects ! oi) ! rel_section r))"
proof -
  note mem = link_relocations_mem [OF assms(2)]
  then have "obj_target obj = elf64 X86_64" "wf_object obj"
    using resolve_symbols_Inr(1) [OF assms(1)] nth_mem [OF mem(1)] by (auto simp: resolvable_def)
  with mem show ?thesis by (auto simp: wf_object_def wf_relocation_def dest!: amd64_field_width)
qed

lemma take_drop_inside:
  "take n (drop pos out) = payload \<Longrightarrow> length payload = n \<Longrightarrow> off + w \<le> n \<Longrightarrow>
     take w (drop (pos + off) out) = take w (drop off payload)"
  by (auto simp: drop_take min_def add.commute)

subsection \<open>Properties\<close>







end
